(* ===== verification/DH_Prelude.thy ===== *)
theory DH_Prelude
  imports Main "HOL-Library.Word"
begin

text \<open>
  Shared vocabulary of the development: the machine integers of the C sources as words, byte
  buffers as lists, \<open>memcpy\<close> into a fixed array as \<open>blit\<close>, little-endian fields and the saturating
  counters the firmware keeps. The lemmas here are the ones the component theories share; they are
  collected in \<open>blit_simps\<close> (buffer updates), \<open>word_conv\<close> (moving word arithmetic to \<open>nat\<close>) and
  \<open>le_simps\<close> (little-endian fields).
\<close>

unbundle bit_operations_syntax

named_theorems blit_simps "updates of fixed buffers"
named_theorems word_conv "word arithmetic read as natural numbers"
named_theorems le_simps "little-endian fields"

type_synonym byte = "8 word"
type_synonym u16 = "16 word"
type_synonym u32 = "32 word"
type_synonym u64 = "64 word"

section \<open>Definitions\<close>

text \<open>The bytes of a string literal.\<close>

definition ascii :: "string \<Rightarrow> byte list" where
  "ascii s = map (\<lambda>c. of_nat (of_char c)) s"

text \<open>\<open>memcpy (dst + off, src, n)\<close> with \<open>n = length src\<close>. An in-bounds copy keeps the length of the
  destination; a copy past the end would make the list longer, so every invariant that fixes a
  buffer's length states that no copy overruns it.\<close>

definition blit :: "'a list \<Rightarrow> nat \<Rightarrow> 'a list \<Rightarrow> 'a list" where
  "blit dst off src = take off dst @ src @ drop (off + length src) dst"

text \<open>The counters that stop at \<open>UINT32_MAX\<close> instead of wrapping.\<close>

definition sat_inc :: "u32 \<Rightarrow> u32" where
  "sat_inc n = (if n = 0xFFFFFFFF then n else n + 1)"

text \<open>Little-endian fields, written with the shifts and masks of the source.\<close>

definition le16 :: "u16 \<Rightarrow> byte list" where
  "le16 v = [ucast (v AND 0xFF), ucast (drop_bit 8 v)]"

definition of_le16 :: "byte \<Rightarrow> byte \<Rightarrow> u16" where
  "of_le16 lo hi = ucast lo OR push_bit 8 (ucast hi)"

definition le_bytes :: "nat \<Rightarrow> 'a :: len word \<Rightarrow> byte list" where
  "le_bytes n v = map (\<lambda>i. ucast (drop_bit (8 * i) v)) [0..<n]"

definition of_le_bytes :: "byte list \<Rightarrow> 'a :: len word" where
  "of_le_bytes bs = foldl (\<lambda>acc i. acc OR push_bit (8 * i) (ucast (bs ! i))) 0 [0..<length bs]"

section \<open>Buffers\<close>

lemma length_blit [blit_simps]:
  "off + length src \<le> length dst \<Longrightarrow> length (blit dst off src) = length dst"
  by (simp add: blit_def)

lemma take_blit [blit_simps]:
  "off \<le> length dst \<Longrightarrow> take (off + length src) (blit dst off src) = take off dst @ src"
  by (simp add: blit_def)

lemma take_blit_prefix [blit_simps]:
  "n \<le> off \<Longrightarrow> off \<le> length dst \<Longrightarrow> take n (blit dst off src) = take n dst"
  by (simp add: blit_def min_def)

lemma blit_0 [blit_simps]: "take (length src) (blit dst 0 src) = src"
  by (simp add: blit_def)

lemma blit_Nil [simp]: "blit dst off [] = dst"
  by (simp add: blit_def)

lemma take_blit_0_le [blit_simps]: "n \<le> length src \<Longrightarrow> take n (blit dst 0 src) = take n src"
  by (simp add: blit_def)

section \<open>Words as natural numbers\<close>

lemma unat_add_of_nat:
  fixes w :: "'a :: len word"
  assumes "unat w + n < 2 ^ LENGTH('a)"
  shows "unat (w + of_nat n) = unat w + n"
  using assms by (simp add: unat_word_ariths take_bit_nat_eq_self unat_of_nat)

lemma unat_of_nat_small:
  fixes n :: nat
  assumes "n < 2 ^ LENGTH('a :: len)"
  shows "unat (of_nat n :: 'a word) = n"
  using assms by (simp add: unat_of_nat take_bit_nat_eq_self)

lemma unat_of_nat_u16 [word_conv]: "n < 65536 \<Longrightarrow> unat (of_nat n :: u16) = n"
  by (rule unat_of_nat_small) simp

lemma unat_add_of_nat_u16 [word_conv]: "unat w + n < 65536 \<Longrightarrow> unat (w + of_nat n :: u16) = unat w + n"
  by (rule unat_add_of_nat) simp

lemma unat_sub_le: "b \<le> a \<Longrightarrow> unat (a - b :: 'a :: len word) = unat a - unat b"
  by (simp add: unat_sub)

lemma unat_sub_le_nat [word_conv]: "unat b \<le> unat a \<Longrightarrow> unat (a - b :: 'a :: len word) = unat a - unat b"
  by (rule unat_sub_le) (simp add: word_le_nat_alt)

lemma unat_u8_lt: "unat (b :: byte) < 256"
  using unsigned_less [where 'a = nat, of b] by simp

lemma unat_u16_lt: "unat (w :: u16) < 65536"
  using unsigned_less [where 'a = nat, of w] by simp

lemma unat_ucast_byte [word_conv]:
  fixes b :: byte
  assumes "8 \<le> LENGTH('a :: len)"
  shows "unat (ucast b :: 'a word) = unat b"
proof -
  have "(2 :: nat) ^ 8 \<le> 2 ^ LENGTH('a)"
    using assms by (intro power_increasing) auto
  then have "unat b < 2 ^ LENGTH('a)"
    using unat_u8_lt [of b] by simp
  then show ?thesis
    by (simp add: unsigned_ucast_eq take_bit_nat_eq_self)
qed

lemma unat_sat_inc: "unat (sat_inc n) = min (unat n + 1) (2 ^ 32 - 1)"
  unfolding sat_inc_def by unat_arith (auto simp: unat_arith_simps)

lemma sat_inc_mono: "n \<le> sat_inc n"
  by (simp add: word_le_nat_alt unat_sat_inc) (use unsigned_less [where 'a = nat, of n] in simp)

text \<open>The \<open>(int32_t)\<close> casts of the wrap-safe clock comparisons.\<close>

lemma sint_u32: "sint (w :: u32) = (if unat w < 2147483648 then int (unat w) else int (unat w) - 4294967296)"
proof -
  define n where "n = unat w"
  have n: "n < 4294967296" using unsigned_less [where 'a = nat, of w] by (simp add: n_def)
  have s: "sint w = (int n + 2147483648) mod 4294967296 - 2147483648"
    using int_word_sint [where 'a = 32, of "int n"] by (simp add: n_def)
  show ?thesis
  proof (cases "n < 2147483648")
    case True
    then have "(int n + 2147483648) mod 4294967296 = int n + 2147483648" by (intro mod_pos_pos_trivial) auto
    with s True show ?thesis by (simp add: n_def [symmetric])
  next
    case False
    have "(int n + 2147483648) mod 4294967296 = (int n - 2147483648) mod 4294967296"
      using mod_add_self2 [of "int n - 2147483648" 4294967296] by (simp add: add.commute)
    also have "\<dots> = int n - 2147483648" using False n by (intro mod_pos_pos_trivial) linarith+
    finally show ?thesis using s False by (simp add: n_def [symmetric])
  qed
qed

section \<open>Little-endian fields\<close>

lemma mask8_u16: "(0xFF :: u16) = mask 8"
  by (simp add: mask_eq_exp_minus_1)

lemma length_le16 [simp]: "length (le16 v) = 2"
  by (simp add: le16_def)

lemma length_le_bytes [simp]: "length (le_bytes n v) = n"
  by (simp add: le_bytes_def)

lemma of_le16_le16 [le_simps]: "of_le16 (ucast (v AND 0xFF)) (ucast (drop_bit 8 v)) = v"
  unfolding mask8_u16 by (rule bit_word_eqI) (auto simp: of_le16_def bit_simps)

lemma unat_of_le16 [le_simps]: "unat (of_le16 lo hi) = unat lo + 256 * unat hi"
proof -
  have "ucast lo AND push_bit 8 (ucast hi) = (0 :: u16)"
    by (rule bit_word_eqI) (auto simp: bit_simps dest: bit_imp_le_length)
  then have "of_le16 lo hi = ucast lo + push_bit 8 (ucast hi)"
    by (simp add: of_le16_def disjunctive_add_eq_or)
  moreover have "unat (ucast lo :: u16) = unat lo" "unat (ucast hi :: u16) = unat hi"
    by (simp_all add: word_conv)
  moreover have "unat lo < 256" "unat hi < 256"
    by (rule unat_u8_lt)+
  ultimately show ?thesis
    by (simp add: push_bit_eq_mult unat_word_ariths)
qed

lemma bit_or_fold:
  fixes f :: "nat \<Rightarrow> byte" and a :: "'a :: len word"
  shows "bit (foldl (\<lambda>acc i. acc OR push_bit (8 * i) (ucast (f i))) a is) n \<longleftrightarrow>
    bit a n \<or> (\<exists>i\<in>set is. 8 * i \<le> n \<and> n < LENGTH('a) \<and> bit (f i) (n - 8 * i))"
  by (induction "is" arbitrary: a) (auto simp: bit_simps)

text \<open>Reading back a little-endian field that was written at its full width.\<close>

lemma of_le_bytes_le_bytes [le_simps]:
  fixes v :: "'a :: len word"
  assumes w: "LENGTH('a) = 8 * k"
  shows "of_le_bytes (le_bytes k v) = v"
proof (rule bit_word_eqI)
  fix n assume n: "n < LENGTH('a)"
  have "bit (of_le_bytes (le_bytes k v) :: 'a word) n \<longleftrightarrow>
    (\<exists>i\<in>{0..<k}. 8 * i \<le> n \<and> n - 8 * i < 8 \<and> bit v n)"
    using n by (auto simp: of_le_bytes_def bit_or_fold le_bytes_def bit_simps)
  also have "\<dots> \<longleftrightarrow> bit v n"
    using n w by (auto intro!: bexI [of _ "n div 8"])
  finally show "bit (of_le_bytes (le_bytes k v) :: 'a word) n = bit v n" .
qed

end
