(* ===== verification/DH_Frame.thy ===== *)
theory DH_Frame
  imports DH_Prelude
begin

text \<open>
  The frame codec of the helper-to-firmware channel (\<open>src/src/core/dh_frame.h\<close>, \<open>dh_frame.c\<close>):
  the message registry, the 4-byte header, one-shot encode and decode, the incremental reader over
  a byte stream and the reader over 64-byte reports whose first byte flags a frame start.

  The functions that return a \<open>dh_frame_result\<close> and fill an out-parameter return a sum here:
  \<open>Inr\<close> is \<open>DH_FRAME_OK\<close> with the value written, \<open>Inl\<close> the other result codes. A buffer and its length
  are one list. The reader is specified by a byte-at-a-time automaton (\<open>byte_step\<close>); the bulk copies
  of the C reader are proved to compute the same run, so its result never depends on how the
  stream was cut into slices.
\<close>

section \<open>The message registry\<close>

abbreviation (input) DH_FRAME_HEADER_SIZE :: nat where "DH_FRAME_HEADER_SIZE \<equiv> 4"
abbreviation (input) DH_FRAME_MAX_PAYLOAD :: nat where "DH_FRAME_MAX_PAYLOAD \<equiv> 4096"
abbreviation (input) DH_FRAME_MAX_SIZE :: nat where "DH_FRAME_MAX_SIZE \<equiv> 4100"
abbreviation (input) DH_FRAME_COUNTER_SIZE :: nat where "DH_FRAME_COUNTER_SIZE \<equiv> 8"
abbreviation (input) DH_FRAME_TAG_SIZE :: nat where "DH_FRAME_TAG_SIZE \<equiv> 16"
abbreviation (input) DH_FRAME_AUTH_PREFIX_SIZE :: nat where "DH_FRAME_AUTH_PREFIX_SIZE \<equiv> 24"
abbreviation (input) DH_FRAME_PAD :: byte where "DH_FRAME_PAD \<equiv> 0x00"

abbreviation (input) DH_MSG_HELLO :: byte where "DH_MSG_HELLO \<equiv> 0x01"
abbreviation (input) DH_MSG_HELLO_ACK :: byte where "DH_MSG_HELLO_ACK \<equiv> 0x02"
abbreviation (input) DH_MSG_LISTENER_ALERT :: byte where "DH_MSG_LISTENER_ALERT \<equiv> 0x03"
abbreviation (input) DH_MSG_CLIP_POLICY :: byte where "DH_MSG_CLIP_POLICY \<equiv> 0x04"
abbreviation (input) DH_MSG_HEARTBEAT :: byte where "DH_MSG_HEARTBEAT \<equiv> 0x05"
abbreviation (input) DH_MSG_DEVICE_HEARTBEAT :: byte where "DH_MSG_DEVICE_HEARTBEAT \<equiv> 0x06"
abbreviation (input) DH_MSG_SESSION_END :: byte where "DH_MSG_SESSION_END \<equiv> 0x07"
abbreviation (input) DH_MSG_PAIR_REQUEST :: byte where "DH_MSG_PAIR_REQUEST \<equiv> 0x08"
abbreviation (input) DH_MSG_PAIR_GRANT :: byte where "DH_MSG_PAIR_GRANT \<equiv> 0x09"
abbreviation (input) DH_MSG_PAIR_REFUSED :: byte where "DH_MSG_PAIR_REFUSED \<equiv> 0x0A"
abbreviation (input) DH_MSG_HELLO_REFUSED :: byte where "DH_MSG_HELLO_REFUSED \<equiv> 0x0B"
abbreviation (input) DH_MSG_DEVICE_DROPS :: byte where "DH_MSG_DEVICE_DROPS \<equiv> 0x10"
abbreviation (input) DH_MSG_HOST_SLEEP :: byte where "DH_MSG_HOST_SLEEP \<equiv> 0x11"
abbreviation (input) DH_MSG_PLACE :: byte where "DH_MSG_PLACE \<equiv> 0x20"
abbreviation (input) DH_MSG_POS_QUERY :: byte where "DH_MSG_POS_QUERY \<equiv> 0x21"
abbreviation (input) DH_MSG_POS_RESPONSE :: byte where "DH_MSG_POS_RESPONSE \<equiv> 0x22"
abbreviation (input) DH_MSG_ARRIVAL :: byte where "DH_MSG_ARRIVAL \<equiv> 0x23"
abbreviation (input) DH_MSG_PEER_HELPER :: byte where "DH_MSG_PEER_HELPER \<equiv> 0x24"
abbreviation (input) DH_MSG_CLIP_OFFER :: byte where "DH_MSG_CLIP_OFFER \<equiv> 0x30"
abbreviation (input) DH_MSG_CLIP_REQUEST :: byte where "DH_MSG_CLIP_REQUEST \<equiv> 0x31"
abbreviation (input) DH_MSG_CLIP_CHUNK :: byte where "DH_MSG_CLIP_CHUNK \<equiv> 0x32"
abbreviation (input) DH_MSG_CLIP_DONE :: byte where "DH_MSG_CLIP_DONE \<equiv> 0x33"
abbreviation (input) DH_MSG_CLIP_CANCEL :: byte where "DH_MSG_CLIP_CANCEL \<equiv> 0x34"
abbreviation (input) DH_MSG_CLIP_RETRANSMIT :: byte where "DH_MSG_CLIP_RETRANSMIT \<equiv> 0x35"
abbreviation (input) DH_MSG_CLIP_CREDIT :: byte where "DH_MSG_CLIP_CREDIT \<equiv> 0x36"
abbreviation (input) DH_MSG_SEAL_OFFER :: byte where "DH_MSG_SEAL_OFFER \<equiv> 0x37"
abbreviation (input) DH_MSG_SEAL_ACCEPT :: byte where "DH_MSG_SEAL_ACCEPT \<equiv> 0x38"
abbreviation (input) DH_MSG_SEAL_STALE :: byte where "DH_MSG_SEAL_STALE \<equiv> 0x39"
abbreviation (input) DH_MSG_CLIP_RECEIVED :: byte where "DH_MSG_CLIP_RECEIVED \<equiv> 0x3A"

text \<open>\<open>DH_MSG_TYPE_LIST\<close>: the one list the enum and the known-type check are generated from.\<close>

definition dh_msg_types :: "byte list" where
  "dh_msg_types =
     [DH_MSG_HELLO, DH_MSG_HELLO_ACK, DH_MSG_LISTENER_ALERT, DH_MSG_CLIP_POLICY, DH_MSG_HEARTBEAT,
      DH_MSG_DEVICE_HEARTBEAT, DH_MSG_SESSION_END, DH_MSG_PAIR_REQUEST, DH_MSG_PAIR_GRANT,
      DH_MSG_PAIR_REFUSED, DH_MSG_HELLO_REFUSED, DH_MSG_DEVICE_DROPS, DH_MSG_HOST_SLEEP,
      DH_MSG_PLACE, DH_MSG_POS_QUERY, DH_MSG_POS_RESPONSE, DH_MSG_ARRIVAL, DH_MSG_PEER_HELPER,
      DH_MSG_CLIP_OFFER, DH_MSG_CLIP_REQUEST, DH_MSG_CLIP_CHUNK, DH_MSG_CLIP_DONE,
      DH_MSG_CLIP_CANCEL, DH_MSG_CLIP_RETRANSMIT, DH_MSG_CLIP_CREDIT, DH_MSG_SEAL_OFFER,
      DH_MSG_SEAL_ACCEPT, DH_MSG_SEAL_STALE, DH_MSG_CLIP_RECEIVED]"

definition dh_msg_type_known :: "byte \<Rightarrow> bool" where
  "dh_msg_type_known t = (t \<in> set dh_msg_types)"

abbreviation (input) DH_MSG_BULK_BASE :: byte where "DH_MSG_BULK_BASE \<equiv> 0x30"
abbreviation (input) DH_MSG_UNAUTH_FIRST :: byte where "DH_MSG_UNAUTH_FIRST \<equiv> 0x08"
abbreviation (input) DH_MSG_UNAUTH_LAST :: byte where "DH_MSG_UNAUTH_LAST \<equiv> 0x0F"

definition dh_msg_is_authenticated :: "byte \<Rightarrow> bool" where
  "dh_msg_is_authenticated t = (t < DH_MSG_UNAUTH_FIRST \<or> t > DH_MSG_UNAUTH_LAST)"

definition dh_msg_is_bulk :: "byte \<Rightarrow> bool" where
  "dh_msg_is_bulk t = (t \<ge> DH_MSG_BULK_BASE)"

definition dh_msg_is_striped :: "byte \<Rightarrow> bool" where
  "dh_msg_is_striped t = (t = DH_MSG_CLIP_CHUNK)"

section \<open>Header, decode, encode\<close>

datatype dh_frame_err =
    DH_FRAME_AGAIN
  | DH_FRAME_ERR_OVERSIZE
  | DH_FRAME_ERR_UNKNOWN_TYPE
  | DH_FRAME_ERR_BUFFER

type_synonym 'a dh_frame_result = "dh_frame_err + 'a"

record dh_frame_header =
  fh_type :: byte
  fh_flags :: byte
  fh_len :: u16

record dh_frame_view =
  fv_hdr :: dh_frame_header
  fv_payload :: "byte list"

definition dh_frame_header_parse :: "byte list \<Rightarrow> dh_frame_header dh_frame_result" where
  "dh_frame_header_parse buf =
     (if length buf < DH_FRAME_HEADER_SIZE then Inl DH_FRAME_AGAIN
      else let payload_len = of_le16 (buf ! 2) (buf ! 3) in
        if unat payload_len > DH_FRAME_MAX_PAYLOAD then Inl DH_FRAME_ERR_OVERSIZE
        else if \<not> dh_msg_type_known (buf ! 0) then Inl DH_FRAME_ERR_UNKNOWN_TYPE
        else Inr \<lparr>fh_type = buf ! 0, fh_flags = buf ! 1, fh_len = payload_len\<rparr>)"

text \<open>The payload of a view is the \<open>hdr.len\<close> bytes behind the header.\<close>

definition frame_view_at :: "dh_frame_header \<Rightarrow> byte list \<Rightarrow> dh_frame_view" where
  "frame_view_at h buf =
     \<lparr>fv_hdr = h, fv_payload = take (unat (fh_len h)) (drop DH_FRAME_HEADER_SIZE buf)\<rparr>"

definition dh_frame_decode :: "byte list \<Rightarrow> (dh_frame_view \<times> nat) dh_frame_result" where
  "dh_frame_decode buf =
     (case dh_frame_header_parse buf of
        Inl e \<Rightarrow> Inl e
      | Inr hdr \<Rightarrow>
          let total = DH_FRAME_HEADER_SIZE + unat (fh_len hdr) in
          if length buf < total then Inl DH_FRAME_AGAIN
          else Inr (frame_view_at hdr buf, total))"

definition dh_frame_encode ::
  "byte \<Rightarrow> byte \<Rightarrow> byte list \<Rightarrow> nat \<Rightarrow> (byte list) dh_frame_result" where
  "dh_frame_encode t flags payload out_cap =
     (let payload_len = length payload in
      if payload_len > DH_FRAME_MAX_PAYLOAD then Inl DH_FRAME_ERR_OVERSIZE
      else if \<not> dh_msg_type_known t then Inl DH_FRAME_ERR_UNKNOWN_TYPE
      else let total = DH_FRAME_HEADER_SIZE + payload_len in
        if out_cap < total then Inl DH_FRAME_ERR_BUFFER
        else Inr ([t, flags] @ le16 (of_nat payload_len) @ payload))"

section \<open>The incremental reader\<close>

record dh_frame_reader =
  rd_buf :: "byte list"
  rd_have :: u16
  rd_resyncs :: u32

definition dh_frame_reader_init :: "dh_frame_reader \<Rightarrow> dh_frame_reader" where
  "dh_frame_reader_init r = r\<lparr>rd_have := 0, rd_resyncs := 0\<rparr>"

text \<open>\<open>reader_fill\<close> buffers up to \<open>want\<close> bytes of the unread part of \<open>data\<close> and returns how many.\<close>

definition reader_fill ::
  "dh_frame_reader \<Rightarrow> byte list \<Rightarrow> nat \<Rightarrow> nat \<Rightarrow> dh_frame_reader \<times> nat" where
  "reader_fill r data used want =
     (let n = (if length data - used < want then length data - used else want) in
      (r\<lparr>rd_buf := blit (rd_buf r) (unat (rd_have r)) (take n (drop used data)),
         rd_have := rd_have r + of_nat n\<rparr>, n))"

definition reader_release :: "dh_frame_reader \<Rightarrow> dh_frame_reader" where
  "reader_release r =
     (if unat (rd_have r) < DH_FRAME_HEADER_SIZE then r
      else case dh_frame_header_parse (take (unat (rd_have r)) (rd_buf r)) of
             Inr hdr \<Rightarrow>
               if unat (rd_have r) = DH_FRAME_HEADER_SIZE + unat (fh_len hdr)
               then r\<lparr>rd_have := 0\<rparr> else r
           | Inl _ \<Rightarrow> r)"

text \<open>The inner loop \<open>while (used < len && data[used] == DH_FRAME_PAD) used++\<close>.\<close>

function skip_pad :: "byte list \<Rightarrow> nat \<Rightarrow> nat" where
  "skip_pad data used =
     (if used < length data \<and> data ! used = DH_FRAME_PAD then skip_pad data (Suc used) else used)"
  by pat_completeness auto
termination
  by (relation "measure (\<lambda>(data, used). length data - used)") auto

text \<open>The two halves of the loop body of \<open>dh_frame_reader_push\<close>: fill the header, then, once it is
  complete, validate it and fill the frame behind it.\<close>

definition push_fill_header ::
  "dh_frame_reader \<Rightarrow> byte list \<Rightarrow> nat \<Rightarrow> dh_frame_reader \<times> nat" where
  "push_fill_header r data used =
     (if unat (rd_have r) < DH_FRAME_HEADER_SIZE
      then let (r', n) = reader_fill r data used (DH_FRAME_HEADER_SIZE - unat (rd_have r))
           in (r', used + n)
      else (r, used))"

definition push_fill_frame ::
  "dh_frame_reader \<Rightarrow> byte list \<Rightarrow> nat \<Rightarrow>
     dh_frame_reader \<times> nat \<times> dh_frame_view dh_frame_result" where
  "push_fill_frame r data used =
     (case dh_frame_header_parse (take (unat (rd_have r)) (rd_buf r)) of
        Inl e \<Rightarrow> (r\<lparr>rd_have := 0\<rparr>, used, Inl e)
      | Inr hdr \<Rightarrow>
          let total = DH_FRAME_HEADER_SIZE + unat (fh_len hdr);
              (r', n) = reader_fill r data used (total - unat (rd_have r))
          in (r', used + n,
              if unat (rd_have r') = total then Inr (frame_view_at hdr (rd_buf r'))
              else Inl DH_FRAME_AGAIN))"

text \<open>\<open>dh_frame_reader_push\<close>. Every path through the body of its \<open>while (used < len)\<close> loop breaks or
  returns, so the loop runs at most once and is an \<open>if\<close> here. The result is the reader, the
  \<open>*consumed\<close> count and the result code with the view.\<close>

definition dh_frame_reader_push ::
  "dh_frame_reader \<Rightarrow> byte list \<Rightarrow> dh_frame_reader \<times> nat \<times> dh_frame_view dh_frame_result" where
  "dh_frame_reader_push r0 data =
     (let r = reader_release r0 in
      if length data = 0 then (r, 0, Inl DH_FRAME_AGAIN)
      else
        let used = (if rd_have r = 0 then skip_pad data 0 else 0) in
        if rd_have r = 0 \<and> used = length data then (r, used, Inl DH_FRAME_AGAIN)
        else
          let (r, used) = push_fill_header r data used in
          if unat (rd_have r) < DH_FRAME_HEADER_SIZE then (r, used, Inl DH_FRAME_AGAIN)
          else push_fill_frame r data used)"

abbreviation (input) DH_REPORT_SIZE :: nat where "DH_REPORT_SIZE \<equiv> 64"
abbreviation (input) DH_REPORT_STREAM_SIZE :: nat where "DH_REPORT_STREAM_SIZE \<equiv> 63"
abbreviation (input) DH_REPORT_FRAME_START :: byte where "DH_REPORT_FRAME_START \<equiv> 1"
abbreviation (input) DH_REPORT_FRAME_CONTINUES :: byte where "DH_REPORT_FRAME_CONTINUES \<equiv> 0"

definition reader_resynced :: "dh_frame_reader \<Rightarrow> dh_frame_reader" where
  "reader_resynced r = r\<lparr>rd_resyncs := sat_inc (rd_resyncs r)\<rparr>"

text \<open>The part of \<open>dh_frame_reader_report\<close> behind the flag: push the stream bytes, and drop a frame
  that completed on borrowed bytes, which a non-padding tail gives away.\<close>

definition report_stream ::
  "dh_frame_reader \<Rightarrow> byte list \<Rightarrow> dh_frame_reader \<times> dh_frame_view dh_frame_result" where
  "report_stream r ds =
     (case dh_frame_reader_push r ds of
        (r', consumed, Inl e) \<Rightarrow> (r', Inl e)
      | (r', consumed, Inr view) \<Rightarrow>
          if \<exists>b \<in> set (drop consumed ds). b \<noteq> DH_FRAME_PAD
          then (reader_resynced (r'\<lparr>rd_have := 0\<rparr>), Inl DH_FRAME_AGAIN)
          else (r', Inr view))"

definition dh_frame_reader_report ::
  "dh_frame_reader \<Rightarrow> byte list \<Rightarrow> dh_frame_reader \<times> dh_frame_view dh_frame_result" where
  "dh_frame_reader_report r0 report =
     (if length report = 0 then (r0, Inl DH_FRAME_AGAIN)
      else
        let r = reader_release r0;
            starts = (report ! 0 = DH_REPORT_FRAME_START) in
        if starts \<and> rd_have r > 0
        then report_stream (reader_resynced (r\<lparr>rd_have := 0\<rparr>)) (drop 1 report)
        else if \<not> starts \<and> rd_have r = 0 then (reader_resynced r, Inl DH_FRAME_AGAIN)
        else report_stream r (drop 1 report))"

section \<open>Specification: a byte automaton\<close>

text \<open>What the reader promises, one byte at a time: padding between frames is skipped, a header is
  judged when its fourth byte arrives, and a frame is delivered with its last byte. The state is
  the bytes of the frame in progress.\<close>

datatype rd_event = Quiet | Delivered dh_frame_view | Rejected dh_frame_err

definition byte_step :: "byte list \<Rightarrow> byte \<Rightarrow> byte list \<times> rd_event" where
  "byte_step c b =
     (if c = [] \<and> b = DH_FRAME_PAD then ([], Quiet)
      else let c' = c @ [b] in
        if length c' < DH_FRAME_HEADER_SIZE then (c', Quiet)
        else case dh_frame_header_parse c' of
            Inl e \<Rightarrow> ([], Rejected e)
          | Inr h \<Rightarrow>
              if length c' = DH_FRAME_HEADER_SIZE + unat (fh_len h)
              then ([], Delivered (frame_view_at h c')) else (c', Quiet))"

text \<open>The run up to the first event: the state after it, the bytes taken and the event.\<close>

fun byte_run :: "byte list \<Rightarrow> byte list \<Rightarrow> byte list \<times> nat \<times> rd_event" where
  "byte_run c [] = (c, 0, Quiet)"
| "byte_run c (b # bs) =
     (case byte_step c b of
        (c', Quiet) \<Rightarrow> (case byte_run c' bs of (c'', n, ev) \<Rightarrow> (c'', Suc n, ev))
      | (c', ev) \<Rightarrow> (c', 1, ev))"

fun event_of :: "dh_frame_view dh_frame_result \<Rightarrow> rd_event" where
  "event_of (Inr v) = Delivered v"
| "event_of (Inl DH_FRAME_AGAIN) = Quiet"
| "event_of (Inl e) = Rejected e"

text \<open>The bytes a reader holds of a frame in progress; a frame already returned rests in the
  buffer until the next call and does not count.\<close>

definition frame_complete :: "byte list \<Rightarrow> bool" where
  "frame_complete c =
     (case dh_frame_header_parse c of
        Inr h \<Rightarrow> length c = DH_FRAME_HEADER_SIZE + unat (fh_len h) | Inl _ \<Rightarrow> False)"

definition rd_content :: "dh_frame_reader \<Rightarrow> byte list" where
  "rd_content r = take (unat (rd_have r)) (rd_buf r)"

definition rd_abs :: "dh_frame_reader \<Rightarrow> byte list" where
  "rd_abs r = (if frame_complete (rd_content r) then [] else rd_content r)"

text \<open>The reader's invariant: the buffer keeps its size, the fill count stays inside it, and a full
  header in it is a valid one whose frame is not overshot.\<close>

definition reader_inv :: "dh_frame_reader \<Rightarrow> bool" where
  "reader_inv r =
     (length (rd_buf r) = DH_FRAME_MAX_SIZE \<and> unat (rd_have r) \<le> DH_FRAME_MAX_SIZE \<and>
      (unat (rd_have r) \<ge> DH_FRAME_HEADER_SIZE \<longrightarrow>
         (case dh_frame_header_parse (rd_content r) of
            Inr h \<Rightarrow> unat (rd_have r) \<le> DH_FRAME_HEADER_SIZE + unat (fh_len h)
          | Inl _ \<Rightarrow> False)))"

section \<open>Auxiliary views of the reader\<close>

text \<open>\<open>dh_frame_reader_push\<close> seen on the buffered bytes alone.\<close>

definition push_body :: "byte list \<Rightarrow> byte list \<Rightarrow> nat \<Rightarrow> byte list \<times> nat \<times> dh_frame_view dh_frame_result" where
  "push_body c data used =
     (case dh_frame_header_parse c of
        Inl e \<Rightarrow> ([], used, Inl e)
      | Inr h \<Rightarrow>
          let total = DH_FRAME_HEADER_SIZE + unat (fh_len h);
              n = min (length data - used) (total - length c);
              c' = c @ take n (drop used data)
          in (c', used + n,
              if length c' = total then Inr (frame_view_at h c') else Inl DH_FRAME_AGAIN))"

definition push_content :: "byte list \<Rightarrow> byte list \<Rightarrow> byte list \<times> nat \<times> dh_frame_view dh_frame_result" where
  "push_content c data =
     (let used = (if c = [] then skip_pad data 0 else 0);
          t = min (length data - used) (DH_FRAME_HEADER_SIZE - length c);
          c' = c @ take t (drop used data)
      in if length c' < DH_FRAME_HEADER_SIZE then (c', used + t, Inl DH_FRAME_AGAIN)
         else push_body c' data (used + t))"

text \<open>A frame already delivered leaves nothing in progress.\<close>

definition settled :: "byte list \<Rightarrow> byte list" where
  "settled c = (if frame_complete c then [] else c)"

text \<open>The report carrier of one frame: byte 0 flags the start, the rest is the stream, and the tail
  of the last report is padding. \<open>DH_Channel\<close> shows that the firmware's pump emits exactly these.\<close>

definition report_of :: "bool \<Rightarrow> byte list \<Rightarrow> byte list" where
  "report_of starts ds =
     (if starts then DH_REPORT_FRAME_START else DH_REPORT_FRAME_CONTINUES) #
     ds @ replicate (DH_REPORT_STREAM_SIZE - length ds) DH_FRAME_PAD"

fun cont_reports :: "byte list \<Rightarrow> byte list list" where
  "cont_reports ds =
     (if ds = [] then []
      else report_of False (take DH_REPORT_STREAM_SIZE ds) # cont_reports (drop DH_REPORT_STREAM_SIZE ds))"

definition frame_reports :: "byte list \<Rightarrow> byte list list" where
  "frame_reports bs =
     report_of True (take DH_REPORT_STREAM_SIZE bs) # cont_reports (drop DH_REPORT_STREAM_SIZE bs)"

fun feed_reports ::
  "dh_frame_reader \<Rightarrow> byte list list \<Rightarrow> dh_frame_reader \<times> dh_frame_view dh_frame_result list" where
  "feed_reports r [] = (r, [])"
| "feed_reports r (x # xs) =
     (let (r', rc) = dh_frame_reader_report r x; (r'', rcs) = feed_reports r' xs in (r'', rc # rcs))"

definition frame_of :: "byte \<Rightarrow> byte \<Rightarrow> byte list \<Rightarrow> dh_frame_view" where
  "frame_of t fl p =
     \<lparr>fv_hdr = \<lparr>fh_type = t, fh_flags = fl, fh_len = of_nat (length p)\<rparr>, fv_payload = p\<rparr>"

declare cont_reports.simps [simp del]

section \<open>Codec lemmas\<close>

lemma header_parse_prefix:
  "DH_FRAME_HEADER_SIZE \<le> length c \<Longrightarrow> dh_frame_header_parse (c @ d) = dh_frame_header_parse c"
  by (auto simp: dh_frame_header_parse_def nth_append Let_def)

lemma header_parse_take:
  "DH_FRAME_HEADER_SIZE \<le> n \<Longrightarrow> n \<le> length c \<Longrightarrow>
   dh_frame_header_parse (take n c) = dh_frame_header_parse c"
  by (simp add: dh_frame_header_parse_def Let_def)

lemma header_parse_len_le:
  "dh_frame_header_parse c = Inr h \<Longrightarrow> unat (fh_len h) \<le> DH_FRAME_MAX_PAYLOAD"
  by (auto simp: dh_frame_header_parse_def Let_def split: if_splits)

lemma header_parse_AGAIN_iff:
  "dh_frame_header_parse c = Inl DH_FRAME_AGAIN \<longleftrightarrow> length c < DH_FRAME_HEADER_SIZE"
  by (auto simp: dh_frame_header_parse_def Let_def)

lemma header_parse_Inr_length:
  "dh_frame_header_parse c = Inr h \<Longrightarrow> DH_FRAME_HEADER_SIZE \<le> length c"
  by (auto simp: dh_frame_header_parse_def split: if_splits)

lemma header_parse_encoded:
  assumes "length p \<le> DH_FRAME_MAX_PAYLOAD" and "dh_msg_type_known t"
  shows "dh_frame_header_parse ([t, fl] @ le16 (of_nat (length p)) @ rest) =
    Inr \<lparr>fh_type = t, fh_flags = fl, fh_len = of_nat (length p)\<rparr>"
proof -
  have len: "unat (of_nat (length p) :: u16) = length p"
    using assms(1) by (intro word_conv) simp
  have "of_le16 (ucast (of_nat (length p) AND 0xFF :: u16)) (ucast (drop_bit 8 (of_nat (length p) :: u16)))
      = of_nat (length p)"
    by (rule of_le16_le16)
  then show ?thesis
    using assms len by (simp add: dh_frame_header_parse_def le16_def Let_def del: One_nat_def)
qed

lemma event_of_simps [simp]:
  "event_of (Inl e) = Quiet \<longleftrightarrow> e = DH_FRAME_AGAIN"
  "event_of rc = Delivered v \<longleftrightarrow> rc = Inr v"
  by (cases e; simp) (cases rc rule: event_of.cases; auto)

section \<open>Runs of the automaton\<close>

lemma byte_run_pads: "byte_run [] (replicate k DH_FRAME_PAD) = ([], k, Quiet)"
  by (induction k) (simp_all add: byte_step_def)

lemma byte_run_skip_pads:
  "byte_run [] (replicate k DH_FRAME_PAD @ ds) = (case byte_run [] ds of (c, n, ev) \<Rightarrow> (c, k + n, ev))"
  by (induction k) (simp_all add: byte_step_def split: prod.splits)

text \<open>Bytes that do not complete the header are buffered.\<close>

lemma byte_run_partial_header:
  assumes "c \<noteq> [] \<or> (ds \<noteq> [] \<longrightarrow> hd ds \<noteq> DH_FRAME_PAD)"
    and "length c + length ds < DH_FRAME_HEADER_SIZE"
  shows "byte_run c ds = (c @ ds, length ds, Quiet)"
  using assms by (induction ds arbitrary: c) (auto simp: byte_step_def)

text \<open>Behind a valid header, bytes are buffered until the frame is whole.\<close>

lemma byte_run_body:
  assumes "dh_frame_header_parse c = Inr h"
    and "length c < DH_FRAME_HEADER_SIZE + unat (fh_len h)"
  shows "byte_run c ds =
    (let need = DH_FRAME_HEADER_SIZE + unat (fh_len h) - length c in
     if length ds < need then (c @ ds, length ds, Quiet)
     else ([], need, Delivered (frame_view_at h (c @ take need ds))))"
  using assms
proof (induction ds arbitrary: c)
  case Nil
  then show ?case by simp
next
  case (Cons b ds)
  have p: "dh_frame_header_parse (c @ [b]) = Inr h"
    using Cons.prems header_parse_Inr_length header_parse_prefix by metis
  have len: "DH_FRAME_HEADER_SIZE \<le> length c"
    using Cons.prems by (blast dest: header_parse_Inr_length)
  show ?case
  proof (cases "length (c @ [b]) = DH_FRAME_HEADER_SIZE + unat (fh_len h)")
    case True
    with p len Cons.prems(2) show ?thesis
      by (auto simp: byte_step_def Let_def)
  next
    case False
    with p len Cons.prems Cons.IH [of "c @ [b]"] show ?thesis
      by (auto simp: byte_step_def Let_def Suc_diff_le take_Cons' split: if_splits)
  qed
qed

text \<open>The run over the bytes that complete the header.\<close>

lemma byte_run_header:
  assumes "c \<noteq> [] \<or> hd ds \<noteq> DH_FRAME_PAD"
    and "length c < DH_FRAME_HEADER_SIZE" and "DH_FRAME_HEADER_SIZE \<le> length c + length ds"
  shows "byte_run c ds =
    (let t = DH_FRAME_HEADER_SIZE - length c; c' = c @ take t ds in
     case dh_frame_header_parse c' of
       Inl e \<Rightarrow> ([], t, Rejected e)
     | Inr h \<Rightarrow>
         if unat (fh_len h) = 0 then ([], t, Delivered (frame_view_at h c'))
         else case byte_run c' (drop t ds) of (c'', n, ev) \<Rightarrow> (c'', t + n, ev))"
  using assms
proof (induction ds arbitrary: c)
  case Nil
  then show ?case by simp
next
  case (Cons b ds)
  show ?case
  proof (cases "length c = 3")
    case True
    with Cons.prems show ?thesis
      by (auto simp: byte_step_def Let_def split: sum.splits prod.splits)
  next
    case False
    then have "length c < 3" using Cons.prems by simp
    with Cons.prems Cons.IH [of "c @ [b]"] show ?thesis
      by (auto simp: byte_step_def Let_def Suc_diff_le take_Cons' drop_Cons' split: sum.splits prod.splits)
  qed
qed

section \<open>The reader on its content\<close>

lemma skip_pad_eq: "used \<le> length data \<Longrightarrow>
   skip_pad data used = used + length (takeWhile (\<lambda>b. b = DH_FRAME_PAD) (drop used data))"
proof (induction data used rule: skip_pad.induct)
  case (1 data used)
  show ?case
  proof (cases "used < length data")
    case True
    with 1 show ?thesis
      by (auto simp: skip_pad.simps [of data used] Cons_nth_drop_Suc [symmetric])
  next
    case False
    with 1 show ?thesis
      by (simp add: skip_pad.simps [of data used])
  qed
qed

declare skip_pad.simps [simp del]

lemma frame_view_at_take:
  "4 + unat (fh_len h) \<le> n \<Longrightarrow> frame_view_at h (take n c) = frame_view_at h c"
  by (simp add: frame_view_at_def take_drop min_def)

lemma reader_inv_have: "reader_inv r \<Longrightarrow> length (rd_content r) = unat (rd_have r)"
  by (auto simp: reader_inv_def rd_content_def)

lemma unat_have_0: "(rd_have r = 0) = (unat (rd_have r) = 0)"
  by (simp add: unat_eq_zero)

lemma reader_fill_content:
  assumes "length (rd_buf r) = DH_FRAME_MAX_SIZE" and "unat (rd_have r) + want \<le> DH_FRAME_MAX_SIZE"
    and "reader_fill r data used want = (r', n)"
  shows "n = min (length data - used) want"
    and "rd_content r' = rd_content r @ take n (drop used data)"
    and "unat (rd_have r') = unat (rd_have r) + n"
    and "length (rd_buf r') = DH_FRAME_MAX_SIZE"
    and "rd_resyncs r' = rd_resyncs r"
proof -
  show n: "n = min (length data - used) want"
    using assms(3) by (auto simp: reader_fill_def Let_def)
  have src: "length (take n (drop used data)) = n"
    using n by simp
  have bound: "unat (rd_have r) + n < 65536"
    using n assms(2) by simp
  have r': "r' = r\<lparr>rd_buf := blit (rd_buf r) (unat (rd_have r)) (take n (drop used data)),
      rd_have := rd_have r + of_nat n\<rparr>"
    using assms(3) by (auto simp: reader_fill_def Let_def)
  show have': "unat (rd_have r') = unat (rd_have r) + n"
    using bound by (simp add: r' unat_add_of_nat_u16)
  show "length (rd_buf r') = DH_FRAME_MAX_SIZE"
    using assms n by (simp add: r' length_blit)
  show "rd_resyncs r' = rd_resyncs r"
    by (simp add: r')
  have "rd_content r' = take (unat (rd_have r) + length (take n (drop used data)))
      (blit (rd_buf r) (unat (rd_have r)) (take n (drop used data)))"
    by (simp only: rd_content_def have' src) (simp add: r')
  also have "\<dots> = rd_content r @ take n (drop used data)"
    using assms by (subst take_blit) (auto simp: rd_content_def)
  finally show "rd_content r' = rd_content r @ take n (drop used data)" .
qed

lemma reader_release_abs:
  assumes "reader_inv r"
  shows "rd_content (reader_release r) = rd_abs r"
    and "length (rd_abs r) = unat (rd_have (reader_release r))"
    and "rd_buf (reader_release r) = rd_buf r"
    and "rd_resyncs (reader_release r) = rd_resyncs r"
proof -
  have len: "length (rd_content r) = unat (rd_have r)"
    using assms by (rule reader_inv_have)
  show c: "rd_content (reader_release r) = rd_abs r"
    using len by (auto simp: reader_release_def rd_abs_def rd_content_def frame_complete_def
        dest: header_parse_Inr_length split: sum.splits)
  show b: "rd_buf (reader_release r) = rd_buf r"
    by (auto simp: reader_release_def split: sum.splits)
  show "rd_resyncs (reader_release r) = rd_resyncs r"
    by (auto simp: reader_release_def split: sum.splits)
  have "unat (rd_have (reader_release r)) \<le> length (rd_buf r)"
    using assms by (auto simp: reader_release_def reader_inv_def split: sum.splits)
  then show "length (rd_abs r) = unat (rd_have (reader_release r))"
    unfolding c [symmetric] by (simp add: rd_content_def b)
qed

section \<open>Push on the content\<close>

lemma push_body_ok:
  assumes r: "length (rd_buf r) = DH_FRAME_MAX_SIZE" "length (rd_content r) = unat (rd_have r)"
    and h: "dh_frame_header_parse (rd_content r) = Inr h" 
    and le: "unat (rd_have r) \<le> DH_FRAME_HEADER_SIZE + unat (fh_len h)"
    and f: "reader_fill r data used (DH_FRAME_HEADER_SIZE + unat (fh_len h) - unat (rd_have r)) = (r', n)"
  shows "push_body (rd_content r) data used =
     (rd_content r', used + n,
      if unat (rd_have r') = DH_FRAME_HEADER_SIZE + unat (fh_len h)
      then Inr (frame_view_at h (rd_buf r')) else Inl DH_FRAME_AGAIN)"
    and "reader_inv r'" and "rd_resyncs r' = rd_resyncs r"
proof -
  have bound: "unat (fh_len h) \<le> 4096"
    using h by (rule header_parse_len_le)
  note fc = reader_fill_content [OF r(1) _ f]
  have b: "unat (rd_have r) + (4 + unat (fh_len h) - unat (rd_have r)) \<le> 4100"
    using le bound by simp
  note fc = fc [OF b]
  have len': "length (rd_content r') = unat (rd_have r')"
    using fc r by simp
  have p': "dh_frame_header_parse (rd_content r') = Inr h"
    using h header_parse_Inr_length header_parse_prefix unfolding fc(2) by metis
  have view: "frame_view_at h (rd_content r') = frame_view_at h (rd_buf r')"
    if "unat (rd_have r') = 4 + unat (fh_len h)"
    using that by (simp add: rd_content_def frame_view_at_take)
  show "push_body (rd_content r) data used =
     (rd_content r', used + n,
      if unat (rd_have r') = DH_FRAME_HEADER_SIZE + unat (fh_len h)
      then Inr (frame_view_at h (rd_buf r')) else Inl DH_FRAME_AGAIN)"
    using view len' fc(2) unfolding push_body_def Let_def h
    by (auto simp: r(2) fc(1))
  have "unat (rd_have r') \<le> 4 + unat (fh_len h)"
    using fc(1,3) le by linarith
  then show "reader_inv r'"
    using fc(4) p' bound by (auto simp: reader_inv_def)
  show "rd_resyncs r' = rd_resyncs r"
    by (rule fc)
qed

lemma reader_inv_empty: "length (rd_buf r) = DH_FRAME_MAX_SIZE \<Longrightarrow> rd_have r = 0 \<Longrightarrow> reader_inv r"
  by (simp add: reader_inv_def)

lemma reader_inv_partial:
  "length (rd_buf r) = DH_FRAME_MAX_SIZE \<Longrightarrow> unat (rd_have r) < DH_FRAME_HEADER_SIZE \<Longrightarrow> reader_inv r"
  by (simp add: reader_inv_def)

lemma push_fill_frame_content:
  assumes r: "length (rd_buf r) = DH_FRAME_MAX_SIZE" "length (rd_content r) = unat (rd_have r)"
    and ok: "\<And>h. dh_frame_header_parse (rd_content r) = Inr h \<Longrightarrow> unat (rd_have r) \<le> 4 + unat (fh_len h)"
    and eq: "push_fill_frame r data used = (r', used', rc)"
  shows "push_body (rd_content r) data used = (rd_content r', used', rc) \<and> reader_inv r' \<and>
    rd_resyncs r' = rd_resyncs r"
proof (cases "dh_frame_header_parse (rd_content r)")
  case (Inl e)
  with eq have "r' = r\<lparr>rd_have := 0\<rparr>" "used' = used" "rc = Inl e"
    by (auto simp: push_fill_frame_def rd_content_def)
  with Inl r show ?thesis
    by (simp add: push_body_def rd_content_def reader_inv_empty)
next
  case (Inr h)
  obtain r1 n where f: "reader_fill r data used (4 + unat (fh_len h) - unat (rd_have r)) = (r1, n)"
    by fastforce
  with eq Inr have "r' = r1" "used' = used + n"
     "rc = (if unat (rd_have r1) = 4 + unat (fh_len h)
       then Inr (frame_view_at h (rd_buf r1)) else Inl DH_FRAME_AGAIN)"
    by (auto simp: push_fill_frame_def rd_content_def Let_def)
  with push_body_ok [OF r Inr ok [OF Inr] f] show ?thesis by simp
qed

lemma push_fill_header_content:
  assumes inv: "reader_inv r" and eq: "push_fill_header r data used = (r', used')"
    and t: "t = min (length data - used) (4 - length (rd_content r))"
  shows "used' = used + t" and "rd_content r' = rd_content r @ take t (drop used data)"
    and "length (rd_content r') = unat (rd_have r')"
    and "length (rd_buf r') = DH_FRAME_MAX_SIZE" and "rd_resyncs r' = rd_resyncs r"
    and "dh_frame_header_parse (rd_content r') = Inr h \<Longrightarrow> unat (rd_have r') \<le> 4 + unat (fh_len h)"
proof -
  have len: "length (rd_buf r) = 4100" "length (rd_content r) = unat (rd_have r)"
    using inv by (simp_all add: reader_inv_def reader_inv_have)
  have all: "used' = used + t \<and> rd_content r' = rd_content r @ take t (drop used data) \<and>
    length (rd_content r') = unat (rd_have r') \<and> length (rd_buf r') = 4100 \<and>
    rd_resyncs r' = rd_resyncs r \<and>
    (dh_frame_header_parse (rd_content r') = Inr h \<longrightarrow> unat (rd_have r') \<le> 4 + unat (fh_len h))"
  proof (cases "unat (rd_have r) < 4")
    case True
    obtain r3 n where f: "reader_fill r data used (4 - unat (rd_have r)) = (r3, n)" by fastforce
    with True eq have "r' = r3" "used' = used + n" by (auto simp: push_fill_header_def)
    moreover have "unat (rd_have r) + min (length data - used) (4 - unat (rd_have r)) \<le> 4"
      using True by linarith
    ultimately show ?thesis
      using reader_fill_content [OF len(1) _ f] True len t by auto
  next
    case False
    with eq t len have "r' = r" "used' = used" "t = 0" by (auto simp: push_fill_header_def)
    with len inv show ?thesis
      using header_parse_Inr_length [of "rd_content r" h] by (auto simp: reader_inv_def)
  qed
  then show "used' = used + t" "rd_content r' = rd_content r @ take t (drop used data)"
    "length (rd_content r') = unat (rd_have r')"
    "length (rd_buf r') = 4100" "rd_resyncs r' = rd_resyncs r"
    "dh_frame_header_parse (rd_content r') = Inr h \<Longrightarrow> unat (rd_have r') \<le> 4 + unat (fh_len h)"
    by blast+
qed

lemma rd_abs_incomplete: "\<not> frame_complete (rd_abs r)"
  by (auto simp: rd_abs_def frame_complete_def dh_frame_header_parse_def split: sum.splits)

lemma reader_inv_release: "reader_inv r \<Longrightarrow> reader_inv (reader_release r)"
  by (auto simp: reader_release_def reader_inv_def split: sum.splits)

lemma push_content_Nil:
  assumes "reader_inv r"
  shows "push_content (rd_abs r) [] = (rd_abs r, 0, Inl DH_FRAME_AGAIN)"
proof (cases "length (rd_abs r) < 4")
  case True
  then show ?thesis by (simp add: push_content_def skip_pad_eq)
next
  case False
  then have eq: "rd_abs r = rd_content r"
    by (auto simp: rd_abs_def split: if_splits)
  with False assms obtain h where "dh_frame_header_parse (rd_abs r) = Inr h"
    using reader_inv_have [OF assms] by (auto simp: reader_inv_def split: sum.splits)
  with False rd_abs_incomplete [of r] show ?thesis
    by (auto simp: push_content_def push_body_def frame_complete_def Let_def)
qed

lemma push_content_eq:
  assumes inv: "reader_inv r" and eq: "dh_frame_reader_push r data = (r', used, rc)"
  shows "push_content (rd_abs r) data = (rd_content r', used, rc) \<and> reader_inv r' \<and>
    rd_resyncs r' = rd_resyncs r"
proof -
  define r1 where "r1 = reader_release r"
  have inv1: "reader_inv r1"
    using inv by (simp add: r1_def reader_inv_release)
  have c1: "rd_content r1 = rd_abs r" "length (rd_content r1) = unat (rd_have r1)"
      "rd_resyncs r1 = rd_resyncs r"
    using reader_release_abs [OF inv] by (simp_all add: r1_def)
  have nil: "rd_have r1 = 0 \<longleftrightarrow> rd_abs r = []"
    using c1 by (metis length_0_conv unat_eq_zero)
  define u where "u = (if rd_have r1 = 0 then skip_pad data 0 else 0)"
  obtain r2 u2 where s: "push_fill_header r1 data u = (r2, u2)" by fastforce
  note h2 = push_fill_header_content [OF inv1 s refl]
  have pc: "push_content (rd_abs r) data =
     (if unat (rd_have r2) < 4 then (rd_content r2, u2, Inl DH_FRAME_AGAIN)
      else push_body (rd_content r2) data u2)"
    unfolding push_content_def Let_def nil [symmetric] u_def [symmetric]
    by (simp add: h2(1,2) c1 flip: h2(3))
  have push: "dh_frame_reader_push r data =
     (if data = [] then (r1, 0, Inl DH_FRAME_AGAIN)
      else if rd_have r1 = 0 \<and> u = length data then (r1, u, Inl DH_FRAME_AGAIN)
      else if unat (rd_have r2) < 4 then (r2, u2, Inl DH_FRAME_AGAIN)
      else push_fill_frame r2 data u2)"
    unfolding dh_frame_reader_push_def Let_def r1_def [symmetric] u_def [symmetric] by (simp add: s)
  consider (Nil) "data = []" | (pads) "data \<noteq> []" "rd_have r1 = 0" "u = length data"
    | (header) "data \<noteq> []" "\<not> (rd_have r1 = 0 \<and> u = length data)" "unat (rd_have r2) < 4"
    | (frame) "push_fill_frame r2 data u2 = (r', used, rc)" "\<not> unat (rd_have r2) < 4"
    using push eq by (auto split: if_splits)
  then show ?thesis
  proof cases
    case Nil
    with push eq inv inv1 c1 show ?thesis by (auto simp: push_content_Nil)
  next
    case pads
    with push eq pc h2(1-3) inv1 c1 show ?thesis by auto
  next
    case header
    with push eq pc h2 c1 show ?thesis by (auto intro: reader_inv_partial)
  next
    case frame
    with push_fill_frame_content [OF h2(4,3,6) frame(1)] pc h2(5) c1 show ?thesis by simp
  qed
qed

lemma rd_abs_settled: "rd_abs r = settled (rd_content r)"
  by (simp add: rd_abs_def settled_def)

lemma skip_pad_split:
  assumes "skip_pad data 0 = k"
  shows "data = replicate k DH_FRAME_PAD @ drop k data" and "k \<le> length data"
    and "k < length data \<Longrightarrow> hd (drop k data) \<noteq> DH_FRAME_PAD"
proof -
  have k: "k = length (takeWhile (\<lambda>b. b = DH_FRAME_PAD) data)"
    using assms by (simp add: skip_pad_eq)
  have "takeWhile (\<lambda>b. b = DH_FRAME_PAD) data = replicate k DH_FRAME_PAD"
    unfolding k by (rule replicate_eqI) (auto dest: set_takeWhileD)
  then show "data = replicate k DH_FRAME_PAD @ drop k data"
    by (metis k append_take_drop_id takeWhile_eq_take)
  show "k \<le> length data"
    by (simp add: k length_takeWhile_le)
  show "hd (drop k data) \<noteq> DH_FRAME_PAD" if "k < length data"
    using that nth_length_takeWhile [of "\<lambda>b. b = DH_FRAME_PAD" data]
    unfolding k by (simp add: hd_drop_conv_nth)
qed

lemma settled_frame:
  "dh_frame_header_parse c = Inr h \<Longrightarrow> length (c @ d) = 4 + unat (fh_len h) \<Longrightarrow> settled (c @ d) = []"
  using header_parse_prefix [of c d] header_parse_Inr_length [of c h]
  by (simp add: settled_def frame_complete_def)

lemma settled_partial:
  "dh_frame_header_parse c = Inr h \<Longrightarrow> length (c @ d) \<noteq> 4 + unat (fh_len h) \<Longrightarrow> settled (c @ d) = c @ d"
  using header_parse_prefix [of c d] header_parse_Inr_length [of c h]
  by (simp add: settled_def frame_complete_def)

lemma settled_short: "length c < 4 \<Longrightarrow> settled c = c"
  by (auto simp: settled_def frame_complete_def dh_frame_header_parse_def)

lemma push_body_run:
  assumes h: "dh_frame_header_parse c = Inr h" and lt: "length c < 4 + unat (fh_len h)"
    and eq: "push_body c data u = (c', used, rc)"
  shows "byte_run c (drop u data) = (settled c', used - u, event_of rc)" and "u \<le> used"
proof -
  define need where "need = 4 + unat (fh_len h) - length c"
  have c': "c' = c @ take (min (length data - u) need) (drop u data)"
    and used: "used = u + min (length data - u) need"
    and rc: "rc = (if length c' = 4 + unat (fh_len h) then Inr (frame_view_at h c') else Inl DH_FRAME_AGAIN)"
    using eq by (auto simp: push_body_def h Let_def need_def)
  show "u \<le> used" by (simp add: used)
  show "byte_run c (drop u data) = (settled c', used - u, event_of rc)"
  proof (cases "length data - u < need")
    case True
    then have len: "length c' \<noteq> 4 + unat (fh_len h)" and "c' = c @ drop u data"
      by (auto simp: c' need_def min_def)
    with settled_partial [OF h, of "drop u data"] True used rc show ?thesis
      by (simp add: byte_run_body [OF h lt] need_def [symmetric])
  next
    case False
    then have len: "length c' = 4 + unat (fh_len h)" and "c' = c @ take need (drop u data)"
      using lt by (auto simp: c' need_def min_def)
    with settled_frame [OF h, of "take need (drop u data)"] False used rc show ?thesis
      by (simp add: byte_run_body [OF h lt] need_def [symmetric])
  qed
qed

text \<open>The steady part of a push, once padding is behind it.\<close>

lemma push_content_run_at:
  assumes start: "c \<noteq> [] \<or> drop u data = [] \<or> hd (drop u data) \<noteq> DH_FRAME_PAD"
    and wf: "4 \<le> length c \<Longrightarrow> \<exists>h. dh_frame_header_parse c = Inr h \<and> length c < 4 + unat (fh_len h)"
    and t: "t = min (length data - u) (4 - length c)"
    and eq: "(if length (c @ take t (drop u data)) < 4
      then (c @ take t (drop u data), u + t, Inl DH_FRAME_AGAIN)
      else push_body (c @ take t (drop u data)) data (u + t)) = (c', used, rc)"
  shows "byte_run c (drop u data) = (settled c', used - u, event_of rc) \<and> u \<le> used"
proof -
  define ds where "ds = drop u data"
  have lds: "length ds = length data - u" by (simp add: ds_def)
  consider (small) "length c + length ds < 4" | (head) "length c < 4" "4 \<le> length c + length ds"
    | (body) "4 \<le> length c" by linarith
  then show ?thesis
  proof cases
    case small
    then have "t = length ds" using t lds by simp
    with small eq have "c' = c @ ds" "used = u + length ds" "rc = Inl DH_FRAME_AGAIN"
      by (auto simp: ds_def)
    with small start show ?thesis
      using byte_run_partial_header [of c ds] by (auto simp: settled_short simp flip: ds_def)
  next
    case body
    then have "t = 0" using t by simp
    with body eq have "push_body c data u = (c', used, rc)" by (simp add: ds_def)
    with wf [OF body] push_body_run show ?thesis by blast
  next
    case head
    then have t4: "t = 4 - length c" using t lds by simp
    define c1 where "c1 = c @ take t ds"
    have l1: "length c1 = 4" using head t4 by (simp add: c1_def)
    have pb: "push_body c1 data (u + t) = (c', used, rc)"
      using eq l1 by (simp add: c1_def ds_def split: if_splits)
    have start': "c \<noteq> [] \<or> hd ds \<noteq> DH_FRAME_PAD"
      using start head by (auto simp: ds_def)
    note run = byte_run_header [OF start' head(1,2), unfolded Let_def, folded t4, folded c1_def]
    show ?thesis
    proof (cases "dh_frame_header_parse c1")
      case (Inl e)
      moreover from this l1 have "e \<noteq> DH_FRAME_AGAIN"
        using header_parse_AGAIN_iff [of c1] by auto
      ultimately show ?thesis
        using pb run by (cases e) (auto simp: push_body_def settled_short simp flip: ds_def)
    next
      case (Inr h)
      show ?thesis
      proof (cases "unat (fh_len h) = 0")
        case True
        with pb Inr l1 have "c' = c1" "used = u + t" "rc = Inr (frame_view_at h c1)"
          by (auto simp: push_body_def Let_def)
        with run Inr True l1 show ?thesis
          by (simp add: settled_def frame_complete_def flip: ds_def)
      next
        case False
        with l1 have "length c1 < 4 + unat (fh_len h)" by simp
        from push_body_run [OF Inr this pb] run Inr False show ?thesis
          by (simp add: ds_def add.commute)
      qed
    qed
  qed
qed

lemma push_content_run:
  assumes eq: "push_content c data = (c', used, rc)"
    and wf: "4 \<le> length c \<Longrightarrow> \<exists>h. dh_frame_header_parse c = Inr h \<and> length c < 4 + unat (fh_len h)"
  shows "byte_run c data = (settled c', used, event_of rc)"
proof (cases "c = []")
  case False
  with push_content_run_at [of c 0 data _ c' used rc, OF _ wf refl] eq show ?thesis
    by (simp add: push_content_def Let_def)
next
  case True
  define k where "k = skip_pad data 0"
  note k = skip_pad_split [OF k_def [symmetric]]
  define t where "t = min (length data - k) (4 - length ([] :: byte list))"
  have eq': "(if length ([] @ take t (drop k data)) < 4
      then ([] @ take t (drop k data), k + t, Inl DH_FRAME_AGAIN)
      else push_body ([] @ take t (drop k data)) data (k + t)) = (c', used, rc)"
    using eq by (simp only: True push_content_def Let_def k_def t_def if_True simp_thms)
  have at: "byte_run [] (drop k data) = (settled c', used - k, event_of rc) \<and> k \<le> used"
    using k(2,3) by (intro push_content_run_at [OF _ _ t_def eq']) auto
  have "byte_run [] data = byte_run [] (replicate k DH_FRAME_PAD @ drop k data)"
    using k(1) by simp
  also have "\<dots> = (settled c', used, event_of rc)"
    using at unfolding byte_run_skip_pads by simp
  finally show ?thesis by (simp add: True)
qed

lemma reader_inv_settled:
  assumes "reader_inv r" and "4 \<le> length (rd_abs r)"
  shows "\<exists>h. dh_frame_header_parse (rd_abs r) = Inr h \<and> length (rd_abs r) < 4 + unat (fh_len h)"
proof -
  have eq: "rd_abs r = rd_content r"
    using assms(2) by (auto simp: rd_abs_def split: if_splits)
  with assms reader_inv_have [OF assms(1)] obtain h where
    "dh_frame_header_parse (rd_abs r) = Inr h" "length (rd_abs r) \<le> 4 + unat (fh_len h)"
    by (auto simp: reader_inv_def split: sum.splits)
  moreover have "length (rd_abs r) \<noteq> 4 + unat (fh_len h)"
    using rd_abs_incomplete [of r] \<open>dh_frame_header_parse (rd_abs r) = Inr h\<close>
    by (auto simp: frame_complete_def)
  ultimately show ?thesis by auto
qed

lemma push_refines:
  assumes "reader_inv r" and "dh_frame_reader_push r data = (r', used, rc)"
  shows "byte_run (rd_abs r) data = (rd_abs r', used, event_of rc)"
    and "reader_inv r'" and "rd_resyncs r' = rd_resyncs r"
  using push_content_eq [OF assms] push_content_run [OF _ reader_inv_settled [OF assms(1)]]
  by (auto simp: rd_abs_settled)

lemma byte_run_append:
  "byte_run c (a @ b) =
     (case byte_run c a of
        (c', n, Quiet) \<Rightarrow> (case byte_run c' b of (c'', m, ev) \<Rightarrow> (c'', length a + m, ev))
      | res \<Rightarrow> res)"
  by (induction a arbitrary: c) (auto split: prod.splits rd_event.splits)

lemma byte_run_quiet_length: "byte_run c ds = (c', n, Quiet) \<Longrightarrow> n = length ds"
  by (induction ds arbitrary: c n) (auto split: prod.splits rd_event.splits)

lemma byte_run_bounds: "byte_run c ds = (c', n, ev) \<Longrightarrow> n \<le> length ds \<and> (ds \<noteq> [] \<longrightarrow> 0 < n)"
  by (induction ds arbitrary: c n) (auto split: prod.splits rd_event.splits)

text \<open>An encoded frame runs through the automaton and is delivered with its last byte.\<close>

lemma byte_run_encoded:
  assumes "dh_frame_encode t fl p cap = Inr bs"
  shows "byte_run [] (bs @ rest) =
     ([], length bs, Delivered \<lparr>fv_hdr = \<lparr>fh_type = t, fh_flags = fl, fh_len = of_nat (length p)\<rparr>,
        fv_payload = p\<rparr>)"
proof -
  define h where "h = \<lparr>fh_type = t, fh_flags = fl, fh_len = of_nat (length p) :: u16\<rparr>"
  have ok: "length p \<le> 4096" "dh_msg_type_known t"
    and bs: "bs = [t, fl] @ le16 (of_nat (length p)) @ p"
    using assms by (auto simp: dh_frame_encode_def Let_def split: if_splits)
  have len: "unat (of_nat (length p) :: u16) = length p"
    using ok by (intro word_conv) simp
  define c where "c = [t, fl] @ le16 (of_nat (length p))"
  have c: "length c = 4" "dh_frame_header_parse c = Inr h"
    using header_parse_encoded [OF ok, of fl "[]"] by (simp_all add: c_def h_def)
  have t0: "t \<noteq> DH_FRAME_PAD"
    using ok(2) by (auto simp: dh_msg_type_known_def dh_msg_types_def)
  have app: "bs @ rest = c @ (p @ rest)"
    by (simp add: bs c_def)
  have hd: "hd (c @ p @ rest) \<noteq> DH_FRAME_PAD" and len_h: "unat (fh_len h) = length p"
    using t0 len by (simp_all add: c_def h_def)
  have "byte_run [] (bs @ rest) =
    (if length p = 0 then ([], 4, Delivered (frame_view_at h c))
     else case byte_run c (p @ rest) of (c'', n, ev) \<Rightarrow> (c'', 4 + n, ev))"
    unfolding app using c hd len_h by (subst byte_run_header) simp_all
  also have "\<dots> = ([], length bs, Delivered \<lparr>fv_hdr = h, fv_payload = p\<rparr>)"
  proof (cases "length p = 0")
    case True
    then show ?thesis using c by (simp add: frame_view_at_def bs h_def)
  next
    case False
    then show ?thesis
      using byte_run_body [OF c(2), of "p @ rest"] c len
      by (simp add: bs frame_view_at_def h_def Let_def)
  qed
  finally show ?thesis by (simp add: h_def)
qed

section \<open>Reports\<close>

lemma report_starts:
  assumes inv: "reader_inv r"
  obtains r1 where "dh_frame_reader_report r (DH_REPORT_FRAME_START # ds) = report_stream r1 ds"
    and "reader_inv r1" and "rd_abs r1 = []"
    and "rd_resyncs r1 = (if rd_abs r = [] then rd_resyncs r else sat_inc (rd_resyncs r))"
proof -
  define r0 where "r0 = reader_release r"
  define r1 where "r1 = (if rd_have r0 > 0 then reader_resynced (r0\<lparr>rd_have := 0\<rparr>) else r0)"
  have len: "length (rd_buf r0) = 4100"
    using inv by (simp add: r0_def reader_release_abs reader_inv_def)
  have have1: "rd_have r1 = 0" and buf1: "rd_buf r1 = rd_buf r0"
    by (auto simp: r1_def reader_resynced_def word_gt_0)
  have nil: "rd_abs r = [] \<longleftrightarrow> \<not> rd_have r0 > 0"
    using reader_release_abs(2) [OF inv] by (metis r0_def length_0_conv unat_eq_zero word_gt_0)
  show ?thesis
  proof
    show "reader_inv r1"
      using len have1 buf1 by (auto intro: reader_inv_empty)
    show "rd_abs r1 = []"
      by (simp add: rd_abs_settled rd_content_def have1 settled_short)
    show "rd_resyncs r1 = (if rd_abs r = [] then rd_resyncs r else sat_inc (rd_resyncs r))"
      using nil inv by (simp add: r1_def reader_resynced_def r0_def reader_release_abs)
    show "dh_frame_reader_report r (DH_REPORT_FRAME_START # ds) = report_stream r1 ds"
      by (simp add: dh_frame_reader_report_def r1_def r0_def Let_def)
  qed
qed

lemma report_continues:
  assumes inv: "reader_inv r" and mid: "rd_abs r \<noteq> []" and b: "b \<noteq> DH_REPORT_FRAME_START"
  shows "dh_frame_reader_report r (b # ds) = report_stream r ds"
proof -
  have "reader_release r = r"
    using mid inv reader_inv_have [OF inv]
    by (auto simp: rd_abs_def reader_release_def frame_complete_def rd_content_def
        split: if_splits sum.splits)
  moreover have "rd_have r \<noteq> 0"
    using mid by (auto simp: rd_abs_def rd_content_def split: if_splits)
  ultimately show ?thesis
    using b by (simp add: dh_frame_reader_report_def)
qed

lemma byte_run_quiet_state:
  "byte_run c ds = (c', n, Quiet) \<Longrightarrow> c \<noteq> [] \<or> ds = [] \<or> hd ds \<noteq> DH_FRAME_PAD \<Longrightarrow> c' = c @ ds"
proof (induction ds arbitrary: c n)
  case Nil
  then show ?case by simp
next
  case (Cons b ds)
  from Cons.prems have "byte_step c b = (c @ [b], Quiet) \<or> snd (byte_step c b) \<noteq> Quiet"
    by (auto simp: byte_step_def Let_def split: sum.splits)
  with Cons.prems obtain m where "byte_run (c @ [b]) ds = (c', m, Quiet)"
    by (auto split: prod.splits rd_event.splits)
  with Cons.IH [of "c @ [b]"] show ?case by simp
qed

lemma encoded_shape:
  assumes "dh_frame_encode t fl p cap = Inr bs"
  shows "bs \<noteq> []" and "hd bs \<noteq> DH_FRAME_PAD" and "length bs = 4 + length p"
    and "length bs \<le> DH_FRAME_MAX_SIZE"
  using assms by (auto simp: dh_frame_encode_def dh_msg_type_known_def dh_msg_types_def Let_def
      split: if_splits)

text \<open>Cut an encoded frame anywhere: the first part is buffered and the second delivers it.\<close>

lemma encoded_cut:
  assumes enc: "dh_frame_encode t fl p cap = Inr (c @ ds)" and ds: "ds \<noteq> []"
  shows "byte_run [] c = (c, length c, Quiet)"
    and "byte_run c (ds @ rest) = ([], length ds, Delivered (frame_of t fl p))"
proof -
  have run: "byte_run [] (c @ x) = ([], length c + length ds, Delivered (frame_of t fl p))"
    if "x = ds @ rest" for x
    using byte_run_encoded [OF enc, of rest] that by (simp add: frame_of_def)
  obtain c' n ev where c: "byte_run [] c = (c', n, ev)" by (cases "byte_run [] c") auto
  have "ev = Quiet"
    using run [OF refl] byte_run_bounds [OF c] ds unfolding byte_run_append c
    by (cases ev) auto
  with c have q: "byte_run [] c = (c', n, Quiet)" by simp
  moreover have "c = [] \<or> hd c \<noteq> DH_FRAME_PAD"
    using encoded_shape(2) [OF enc] by (cases c) auto
  ultimately have "c' = c" "n = length c"
    using byte_run_quiet_state [OF q] byte_run_quiet_length [OF q] by auto
  with q show first: "byte_run [] c = (c, length c, Quiet)" by simp
  show "byte_run c (ds @ rest) = ([], length ds, Delivered (frame_of t fl p))"
    using run [OF refl] unfolding byte_run_append first by (auto split: prod.splits)
qed

lemma push_delivers:
  assumes "dh_frame_encode t fl p cap = Inr (c @ ds)" and "ds \<noteq> []"
    and "reader_inv r" and "rd_abs r = c"
  obtains r' where "dh_frame_reader_push r (ds @ rest) = (r', length ds, Inr (frame_of t fl p))"
    and "reader_inv r'" and "rd_abs r' = []" and "rd_resyncs r' = rd_resyncs r"
proof -
  obtain r' used rc where p: "dh_frame_reader_push r (ds @ rest) = (r', used, rc)"
    by (cases "dh_frame_reader_push r (ds @ rest)") auto
  note ref = push_refines [OF assms(3) p]
  from ref(1) encoded_cut(2) [OF assms(1,2), of rest] assms(4)
  have "rd_abs r' = []" "used = length ds" "event_of rc = Delivered (frame_of t fl p)"
    by auto
  with ref p that show ?thesis by simp
qed

lemma push_buffers:
  assumes "dh_frame_encode t fl p cap = Inr (c @ ds @ ds')" and "ds' \<noteq> []"
    and "reader_inv r" and "rd_abs r = c"
  obtains r' where "dh_frame_reader_push r ds = (r', length ds, Inl DH_FRAME_AGAIN)"
    and "reader_inv r'" and "rd_abs r' = c @ ds" and "rd_resyncs r' = rd_resyncs r"
proof -
  obtain r' used rc where p: "dh_frame_reader_push r ds = (r', used, rc)"
    by (cases "dh_frame_reader_push r ds") auto
  note ref = push_refines [OF assms(3) p]
  have 1: "byte_run [] c = (c, length c, Quiet)"
    using encoded_cut(1) [of t fl p cap c "ds @ ds'"] assms(1,2) by simp
  have 2: "byte_run [] (c @ ds) = (c @ ds, length (c @ ds), Quiet)"
    using encoded_cut(1) [of t fl p cap "c @ ds" "ds'"] assms(1,2) by simp
  have "byte_run c ds = (c @ ds, length ds, Quiet)"
    using 2 unfolding byte_run_append 1 by (auto split: prod.splits)
  with ref(1) assms(4) have "rd_abs r' = c @ ds" "used = length ds" "event_of rc = Quiet"
    by auto
  moreover from this have "rc = Inl DH_FRAME_AGAIN"
    by (cases rc) auto
  ultimately show ?thesis using ref p that by simp
qed

lemma feed_cont_reports:
  assumes "dh_frame_encode t fl p cap = Inr (c @ ds)" and "c \<noteq> []" and "ds \<noteq> []"
    and "reader_inv r" and "rd_abs r = c"
  shows "\<exists>r' k. feed_reports r (cont_reports ds) =
      (r', replicate k (Inl DH_FRAME_AGAIN) @ [Inr (frame_of t fl p)]) \<and>
    reader_inv r' \<and> rd_abs r' = [] \<and> rd_resyncs r' = rd_resyncs r"
  using assms
proof (induction ds arbitrary: c r rule: cont_reports.induct)
  case (1 ds)
  show ?case
  proof (cases "length ds \<le> 63")
    case True
    obtain r' where "dh_frame_reader_push r (ds @ replicate (63 - length ds) DH_FRAME_PAD) =
        (r', length ds, Inr (frame_of t fl p))" "reader_inv r'" "rd_abs r' = []"
        "rd_resyncs r' = rd_resyncs r"
      by (rule push_delivers [OF 1(2,4,5,6)])
    with True 1 show ?thesis
      by (intro exI [of _ r'] exI [of _ 0])
         (simp add: cont_reports.simps [of ds] cont_reports.simps [of "[]"] report_of_def
            report_continues [OF 1(5)] report_stream_def)
  next
    case False
    define d where "d = take 63 ds"
    have enc: "dh_frame_encode t fl p cap = Inr (c @ d @ drop 63 ds)"
      using 1(2) by (simp add: d_def)
    obtain r' where p: "dh_frame_reader_push r d = (r', length d, Inl DH_FRAME_AGAIN)"
      and r': "reader_inv r'" "rd_abs r' = c @ d" "rd_resyncs r' = rd_resyncs r"
      using push_buffers [OF enc _ 1(5,6)] False by auto
    have rep: "dh_frame_reader_report r (report_of False d) = (r', Inl DH_FRAME_AGAIN)"
      using False 1 p by (simp add: report_of_def report_continues [OF 1(5)] report_stream_def d_def)
    obtain r'' k where "feed_reports r' (cont_reports (drop 63 ds)) =
        (r'', replicate k (Inl DH_FRAME_AGAIN) @ [Inr (frame_of t fl p)]) \<and>
        reader_inv r'' \<and> rd_abs r'' = [] \<and> rd_resyncs r'' = rd_resyncs r'"
      using 1(1) [of "c @ d" r'] 1(3,4) enc False r' by auto
    with rep r' 1(4) show ?thesis
      by (intro exI [of _ r''] exI [of _ "Suc k"])
         (simp add: cont_reports.simps [of ds] d_def [symmetric])
  qed
qed

lemma reader_report_recovers:
  assumes enc: "dh_frame_encode t fl p cap = Inr bs" and inv: "reader_inv r"
  shows "\<exists>r' k. feed_reports r (frame_reports bs) =
      (r', replicate k (Inl DH_FRAME_AGAIN) @ [Inr (frame_of t fl p)]) \<and>
    reader_inv r' \<and> rd_abs r' = [] \<and>
    rd_resyncs r' = (if rd_abs r = [] then rd_resyncs r else sat_inc (rd_resyncs r))"
proof -
  define d where "d = take 63 bs"
  define ds where "ds = d @ replicate (63 - length d) DH_FRAME_PAD"
  obtain r1 where rep: "dh_frame_reader_report r (DH_REPORT_FRAME_START # ds) = report_stream r1 ds"
    and r1: "reader_inv r1" "rd_abs r1 = []"
      "rd_resyncs r1 = (if rd_abs r = [] then rd_resyncs r else sat_inc (rd_resyncs r))"
    using report_starts [OF inv] by blast
  have ne: "bs \<noteq> []" using encoded_shape(1) [OF enc] .
  show ?thesis
  proof (cases "length bs \<le> 63")
    case True
    then have d: "d = bs" "drop 63 bs = []" by (simp_all add: d_def)
    have enc': "dh_frame_encode t fl p cap = Inr ([] @ bs)" using enc by simp
    obtain r' where "dh_frame_reader_push r1 (bs @ replicate (63 - length bs) DH_FRAME_PAD) =
        (r', length bs, Inr (frame_of t fl p))" "reader_inv r'" "rd_abs r' = []"
        "rd_resyncs r' = rd_resyncs r1"
      by (rule push_delivers [OF enc' ne r1(1,2)])
    with d rep r1 show ?thesis
      by (intro exI [of _ r'] exI [of _ 0])
         (simp add: frame_reports_def report_of_def ds_def report_stream_def
            cont_reports.simps [of "[]"])
  next
    case False
    have enc': "dh_frame_encode t fl p cap = Inr ([] @ d @ drop 63 bs)" using enc by (simp add: d_def)
    have ds: "ds = d" using False by (simp add: ds_def d_def)
    obtain r' where p: "dh_frame_reader_push r1 d = (r', length d, Inl DH_FRAME_AGAIN)"
      and r': "reader_inv r'" "rd_abs r' = [] @ d" "rd_resyncs r' = rd_resyncs r1"
      using push_buffers [OF enc' _ r1(1,2)] False by auto
    obtain r'' k where "feed_reports r' (cont_reports (drop 63 bs)) =
        (r'', replicate k (Inl DH_FRAME_AGAIN) @ [Inr (frame_of t fl p)]) \<and>
        reader_inv r'' \<and> rd_abs r'' = [] \<and> rd_resyncs r'' = rd_resyncs r'"
      using feed_cont_reports [of t fl p cap d "drop 63 bs" r'] enc' ne False r'
      by (auto simp: d_def)
    with p rep r1 r' ds show ?thesis
      by (intro exI [of _ r''] exI [of _ "Suc k"])
         (simp add: frame_reports_def report_of_def report_stream_def ds_def [symmetric]
            d_def [symmetric])
  qed
qed

lemma event_of_inj: "event_of a = event_of b \<Longrightarrow> a = b"
  by (cases a rule: event_of.cases; cases b rule: event_of.cases) auto

lemma reader_inv_resyncs [simp]: "reader_inv (r\<lparr>rd_resyncs := n\<rparr>) = reader_inv r"
  by (auto simp: reader_inv_def rd_content_def split: sum.splits)

text \<open>A reader over zeroed storage, as the witnesses use it.\<close>

definition fresh_reader :: dh_frame_reader where
  "fresh_reader = dh_frame_reader_init \<lparr>rd_buf = replicate 4100 0, rd_have = 0, rd_resyncs = 0\<rparr>"

lemma fresh_reader: "reader_inv fresh_reader" "rd_abs fresh_reader = []"
  by (simp_all add: fresh_reader_def dh_frame_reader_init_def reader_inv_def rd_abs_def rd_content_def)

lemma report_stream_inv:
  assumes "reader_inv r"
  shows "reader_inv (fst (report_stream r ds)) \<and> rd_resyncs r \<le> rd_resyncs (fst (report_stream r ds))"
proof -
  obtain r' n rc where p: "dh_frame_reader_push r ds = (r', n, rc)" 
    by (cases "dh_frame_reader_push r ds") auto
  note ref = push_refines [OF assms p]
  show ?thesis
    using ref(2,3) p
    by (auto simp: report_stream_def reader_resynced_def reader_inv_def sat_inc_mono split: sum.splits)
qed

lemma reader_report_inv:
  assumes "reader_inv r"
  shows "reader_inv (fst (dh_frame_reader_report r report)) \<and>
    rd_resyncs r \<le> rd_resyncs (fst (dh_frame_reader_report r report))"
proof -
  define r0 where "r0 = reader_release r"
  have r0: "reader_inv r0" "rd_resyncs r0 = rd_resyncs r"
    using assms by (simp_all add: r0_def reader_inv_release reader_release_abs)
  then have "reader_inv (r0\<lparr>rd_have := 0\<rparr>)"
    by (intro reader_inv_empty) (simp_all add: reader_inv_def)
  with r0 have r1: "reader_inv (reader_resynced (r0\<lparr>rd_have := 0\<rparr>))"
      "reader_inv (reader_resynced r0)" "rd_resyncs r \<le> rd_resyncs (reader_resynced r0)"
      "rd_resyncs r \<le> rd_resyncs (reader_resynced (r0\<lparr>rd_have := 0\<rparr>))"
    by (simp_all add: reader_resynced_def sat_inc_mono)
  show ?thesis
    using assms r0 r1 report_stream_inv [OF r0(1)] report_stream_inv [OF r1(1)]
    by (auto simp: dh_frame_reader_report_def Let_def r0_def [symmetric] intro: order_trans)
qed

section \<open>Properties\<close>

lemma frame_decode_encoded:
  assumes "dh_frame_encode t fl p cap = Inr bs"
  shows "dh_frame_decode (bs @ rest) = Inr (frame_of t fl p, length bs) \<and> length bs \<le> cap"
proof
  show "length bs \<le> cap"
    using assms by (auto simp: dh_frame_encode_def Let_def split: if_splits)
  have ok: "length p \<le> 4096" "dh_msg_type_known t"
    and bs: "bs = [t, fl] @ le16 (of_nat (length p)) @ p"
    using assms by (auto simp: dh_frame_encode_def Let_def split: if_splits)
  have "unat (of_nat (length p) :: u16) = length p"
    using ok by (intro word_conv) simp
  with header_parse_encoded [OF ok, of fl "p @ rest"]
  show "dh_frame_decode (bs @ rest) = Inr (frame_of t fl p, length bs)"
    by (simp add: dh_frame_decode_def bs frame_of_def frame_view_at_def Let_def)
qed

text \<open>Encoding then decoding gives the frame back: a frame that \<open>dh_frame_encode\<close> accepts
  is read by \<open>dh_frame_decode\<close> as the same type, flags and payload, with the encoded size as the
  consumed count, whatever bytes follow it.\<close>

theorem frame_decode_encode:
  assumes "dh_frame_encode t fl p cap = Inr bs"
  shows "dh_frame_decode (bs @ rest) = Inr (frame_of t fl p, length bs) \<and> length bs \<le> cap"
  using assms by (rule frame_decode_encoded)

theorem frame_decode_encode_witness:
  "dh_frame_encode DH_MSG_PLACE 0 [1, 2, 3] 64 = Inr [0x20, 0, 3, 0, 1, 2, 3] \<and>
   dh_frame_decode ([0x20, 0, 3, 0, 1, 2, 3] @ [9, 9]) = Inr (frame_of DH_MSG_PLACE 0 [1, 2, 3], 7)"
proof -
  have e: "dh_frame_encode DH_MSG_PLACE 0 [1, 2, 3] 64 = Inr [0x20, 0, 3, 0, 1, 2, 3]"
    by (simp add: dh_frame_encode_def dh_msg_type_known_def dh_msg_types_def le16_def)
  show ?thesis
    using e frame_decode_encode [OF e, of "[9, 9]"] by simp
qed

text \<open>C25. Refinement: on every reader state the invariant allows and every slice of the stream,
  \<open>dh_frame_reader_push\<close> does what the byte automaton does up to its first event: the same
  bytes stay buffered, the same number is consumed, the same frame or error comes out, and the
  invariant (no copy runs past the 4100-byte buffer) is kept.\<close>

theorem reader_push_refines_automaton:
  assumes "reader_inv r"
  shows "case dh_frame_reader_push r data of (r', used, rc) \<Rightarrow>
    byte_run (rd_abs r) data = (rd_abs r', used, event_of rc) \<and> reader_inv r'"
  using push_refines [OF assms] by (auto split: prod.splits)

theorem reader_push_refines_automaton_witness:
  "reader_inv fresh_reader \<and>
   (case dh_frame_reader_push fresh_reader [0, 0, 5, 0] of (r', used, rc) \<Rightarrow>
      byte_run (rd_abs fresh_reader) [0, 0, 5, 0] = (rd_abs r', used, event_of rc) \<and> reader_inv r')"
  by (intro conjI fresh_reader reader_push_refines_automaton)

text \<open>The result of reading a stream does not depend on where it was cut: when a slice completes
  no frame, pushing the next slice gives the frame or error, the consumed count and the bytes in
  progress that pushing both at once would have given.\<close>

theorem reader_push_slices:
  assumes "reader_inv r" and "dh_frame_reader_push r a = (r1, n, Inl DH_FRAME_AGAIN)"
    and "dh_frame_reader_push r1 b = (r2, m, rc)"
    and "dh_frame_reader_push r (a @ b) = (r3, k, rc')"
  shows "rc' = rc \<and> k = length a + m \<and> rd_abs r3 = rd_abs r2"
proof -
  note A = push_refines [OF assms(1,2)]
  note B = push_refines [OF A(2) assms(3)]
  note AB = push_refines(1) [OF assms(1,4)]
  have "byte_run (rd_abs r) (a @ b) = (rd_abs r2, length a + m, event_of rc)"
    using A(1) B(1) by (simp add: byte_run_append)
  with AB show ?thesis by (auto dest: event_of_inj)
qed

theorem reader_push_slices_witness:
  "\<exists>r1 n r2 m rc r3 k rc'.
     dh_frame_reader_push fresh_reader [5, 0] = (r1, n, Inl DH_FRAME_AGAIN) \<and>
     dh_frame_reader_push r1 [2, 0, 7, 8] = (r2, m, rc) \<and>
     dh_frame_reader_push fresh_reader ([5, 0] @ [2, 0, 7, 8]) = (r3, k, rc') \<and>
     rc' = rc \<and> k = 2 + m \<and> rd_abs r3 = rd_abs r2"
proof -
  have enc: "dh_frame_encode DH_MSG_HEARTBEAT 0 [7, 8] 64 = Inr ([] @ [5, 0] @ [2, 0, 7, 8])"
    by (simp add: dh_frame_encode_def dh_msg_type_known_def dh_msg_types_def le16_def)
  obtain r1 where a: "dh_frame_reader_push fresh_reader [5, 0] = (r1, length [5, 0 :: byte], Inl DH_FRAME_AGAIN)"
    using push_buffers [OF enc _ fresh_reader] by auto
  obtain r2 m rc where b: "dh_frame_reader_push r1 [2, 0, 7, 8] = (r2, m, rc)"
    using prod_cases3 by blast
  obtain r3 k rc' where c: "dh_frame_reader_push fresh_reader ([5, 0] @ [2, 0, 7, 8]) = (r3, k, rc')"
    using prod_cases3 by blast
  from a b c reader_push_slices [OF fresh_reader(1) a b c] show ?thesis by auto
qed

text \<open>Whatever bytes arrive in a report, \<open>dh_frame_reader_report\<close> keeps the reader's
  invariant, so no sequence of hostile reports can overrun the buffer, and the resync count never
  goes down.\<close>

theorem reader_report_invariant:
  assumes "reader_inv r"
  shows "reader_inv (fst (dh_frame_reader_report r report)) \<and>
    rd_resyncs r \<le> rd_resyncs (fst (dh_frame_reader_report r report))"
  using assms by (rule reader_report_inv)

theorem reader_report_invariant_witness:
  "reader_inv fresh_reader \<and> reader_inv (fst (dh_frame_reader_report fresh_reader (replicate 64 1))) \<and>
   rd_resyncs fresh_reader \<le> rd_resyncs (fst (dh_frame_reader_report fresh_reader (replicate 64 1)))"
  using reader_report_invariant [OF fresh_reader(1)] fresh_reader(1) by blast

text \<open>C13. Recovery: from any reader state, whatever was lost before, the reports of one encoded frame
  deliver exactly that frame with the last of them and nothing earlier; the reader ends between
  frames, and a frame that was in progress costs exactly one resync.\<close>

theorem report_frame_recovers:
  assumes "dh_frame_encode t fl p cap = Inr bs" and "reader_inv r"
  shows "\<exists>r' k. feed_reports r (frame_reports bs) =
      (r', replicate k (Inl DH_FRAME_AGAIN) @ [Inr (frame_of t fl p)]) \<and>
    reader_inv r' \<and> rd_abs r' = [] \<and>
    rd_resyncs r' = (if rd_abs r = [] then rd_resyncs r else sat_inc (rd_resyncs r))"
  using assms by (rule reader_report_recovers)

theorem report_frame_recovers_witness:
  "dh_frame_encode DH_MSG_HEARTBEAT 0 [7, 8] 64 = Inr [5, 0, 2, 0, 7, 8] \<and>
   (\<exists>r' k. feed_reports fresh_reader (frame_reports [5, 0, 2, 0, 7, 8]) =
      (r', replicate k (Inl DH_FRAME_AGAIN) @ [Inr (frame_of DH_MSG_HEARTBEAT 0 [7, 8])]))"
proof -
  have enc: "dh_frame_encode DH_MSG_HEARTBEAT 0 [7, 8] 64 = Inr [5, 0, 2, 0, 7, 8]"
    by (simp add: dh_frame_encode_def dh_msg_type_known_def dh_msg_types_def le16_def)
  with report_frame_recovers [OF enc fresh_reader(1)] show ?thesis by blast
qed

end
