(* ===== verification/DH_Inq.thy ===== *)
theory DH_Inq
  imports DH_Frame
begin

text \<open>
  The inbound handoff between the two cores (\<open>src/src/core/dh_inq.h\<close>, \<open>dh_inq.c\<close>): a ring of four
  slots with free-running 8-bit counters, one advanced by the producer and one by the consumer.
  The theory gives the ring as the source has it, the interface a two-step frame ring promises
  (locale \<open>frame_ring\<close>), the client facts that follow from the interface for every interleaving of
  producer and consumer calls, and the interpretation of the interface by the ring.
\<close>

section \<open>Model\<close>

abbreviation (input) DH_OUTQ_STAGE_MAX :: nat where "DH_OUTQ_STAGE_MAX \<equiv> 1095"
abbreviation (input) DH_INQ_SLOT_MAX :: nat where "DH_INQ_SLOT_MAX \<equiv> DH_OUTQ_STAGE_MAX"
abbreviation (input) DH_INQ_DEPTH :: nat where "DH_INQ_DEPTH \<equiv> 4"

record dh_inq =
  iq_slot :: "byte list list"
  iq_slot_len :: "u16 list"
  iq_head :: byte
  iq_tail :: byte
  iq_staged :: bool
  iq_dropped :: u32

definition inq_slot_at :: "byte \<Rightarrow> nat" where
  "inq_slot_at counter = unat counter mod DH_INQ_DEPTH"

definition dh_inq_init :: dh_inq where
  "dh_inq_init =
     \<lparr>iq_slot = replicate DH_INQ_DEPTH (replicate DH_INQ_SLOT_MAX 0),
      iq_slot_len = replicate DH_INQ_DEPTH 0,
      iq_head = 0, iq_tail = 0, iq_staged = False, iq_dropped = 0\<rparr>"

definition dh_inq_reset :: "dh_inq \<Rightarrow> dh_inq" where
  "dh_inq_reset q = q\<lparr>iq_head := iq_tail q\<rparr>"

definition dh_inq_pending :: "dh_inq \<Rightarrow> byte" where
  "dh_inq_pending q = iq_tail q - iq_head q"

definition dh_inq_stage :: "dh_inq \<Rightarrow> byte list \<Rightarrow> dh_inq \<times> bool" where
  "dh_inq_stage q frame =
     (if length frame = 0 \<or> length frame > DH_INQ_SLOT_MAX \<or> unat (dh_inq_pending q) \<ge> DH_INQ_DEPTH
      then (q\<lparr>iq_staged := False, iq_dropped := sat_inc (iq_dropped q)\<rparr>, False)
      else
        let at = inq_slot_at (iq_tail q) in
        (q\<lparr>iq_slot := (iq_slot q)[at := blit (iq_slot q ! at) 0 frame],
           iq_slot_len := (iq_slot_len q)[at := of_nat (length frame)],
           iq_staged := True\<rparr>, True))"

definition dh_inq_publish :: "dh_inq \<Rightarrow> dh_inq" where
  "dh_inq_publish q =
     (if \<not> iq_staged q then q else q\<lparr>iq_staged := False, iq_tail := iq_tail q + 1\<rparr>)"

text \<open>\<open>dh_inq_peek\<close> hands out a view of the slot; its bytes are what the view shows.\<close>

definition inq_slot_frame :: "dh_inq \<Rightarrow> nat \<Rightarrow> byte list" where
  "inq_slot_frame q at = take (unat (iq_slot_len q ! at)) (iq_slot q ! at)"

definition dh_inq_peek :: "dh_inq \<Rightarrow> byte list option" where
  "dh_inq_peek q =
     (if dh_inq_pending q = 0 then None
      else Some (inq_slot_frame q (inq_slot_at (iq_head q))))"

definition dh_inq_release :: "dh_inq \<Rightarrow> dh_inq" where
  "dh_inq_release q =
     (if dh_inq_pending q = 0 then q else q\<lparr>iq_head := iq_head q + 1\<rparr>)"

section \<open>Interface\<close>

text \<open>One call of either side: the producer stages and publishes, the consumer takes the oldest
  frame (peek, then release).\<close>

datatype ring_op = Stage "byte list" | Publish | Take

text \<open>Running calls in any order, with the frames published and the frames taken.\<close>

fun ring_run ::
  "('q \<Rightarrow> byte list \<Rightarrow> 'q \<times> bool) \<Rightarrow> ('q \<Rightarrow> 'q) \<Rightarrow> ('q \<Rightarrow> byte list option) \<Rightarrow> ('q \<Rightarrow> 'q) \<Rightarrow>
   ('q \<Rightarrow> byte list option) \<Rightarrow> 'q \<Rightarrow> ring_op list \<Rightarrow> 'q \<times> byte list list \<times> byte list list" where
  "ring_run stage publish peek release staged q [] = (q, [], [])"
| "ring_run stage publish peek release staged q (op # ops) =
     (case op of
        Stage f \<Rightarrow> ring_run stage publish peek release staged (fst (stage q f)) ops
      | Publish \<Rightarrow>
          (case ring_run stage publish peek release staged (publish q) ops of
             (q', pub, got) \<Rightarrow> (q', (case staged q of None \<Rightarrow> pub | Some f \<Rightarrow> f # pub), got))
      | Take \<Rightarrow>
          (case ring_run stage publish peek release staged (release q) ops of
             (q', pub, got) \<Rightarrow> (q', pub, (case peek q of None \<Rightarrow> got | Some f \<Rightarrow> f # got))))"

locale frame_ring =
  fixes stage :: "'q \<Rightarrow> byte list \<Rightarrow> 'q \<times> bool"
    and publish :: "'q \<Rightarrow> 'q"
    and peek :: "'q \<Rightarrow> byte list option"
    and release :: "'q \<Rightarrow> 'q"
    and frames :: "'q \<Rightarrow> byte list list"
    and staged :: "'q \<Rightarrow> byte list option"
    and inv :: "'q \<Rightarrow> bool"
    and slot_max :: nat and depth :: nat
  assumes stage_inv: "inv q \<Longrightarrow> inv (fst (stage q f))"
    and stage_frames: "inv q \<Longrightarrow> frames (fst (stage q f)) = frames q"
    and stage_staged: "inv q \<Longrightarrow> staged (fst (stage q f)) = (if snd (stage q f) then Some f else None)"
    and stage_ok: "inv q \<Longrightarrow>
      snd (stage q f) \<longleftrightarrow> f \<noteq> [] \<and> length f \<le> slot_max \<and> length (frames q) < depth"
    and publish_inv: "inv q \<Longrightarrow> inv (publish q)"
    and publish_frames: "inv q \<Longrightarrow>
      frames (publish q) = frames q @ (case staged q of None \<Rightarrow> [] | Some f \<Rightarrow> [f])"
    and publish_staged: "inv q \<Longrightarrow> staged (publish q) = None"
    and peek_frames: "inv q \<Longrightarrow> peek q = (case frames q of [] \<Rightarrow> None | f # _ \<Rightarrow> Some f)"
    and release_inv: "inv q \<Longrightarrow> inv (release q)"
    and release_frames: "inv q \<Longrightarrow> frames (release q) = tl (frames q)"
    and release_staged: "inv q \<Longrightarrow> staged (release q) = staged q"
    and depth_bound: "inv q \<Longrightarrow> length (frames q) \<le> depth"
begin

lemma run_fifo:
  assumes "inv q" and "ring_run stage publish peek release staged q ops = (q', pub, got)"
  shows "inv q' \<and> frames q @ pub = got @ frames q'"
  using assms
proof (induction ops arbitrary: q pub got)
  case Nil
  then show ?case by simp
next
  case (Cons op ops)
  show ?case
  proof (cases op)
    case (Stage f)
    with Cons.prems Cons.IH [of "fst (stage q f)"] show ?thesis
      by (auto simp: stage_inv stage_frames)
  next
    case Publish
    with Cons.prems obtain pub' where
      run: "ring_run stage publish peek release staged (publish q) ops = (q', pub', got)"
      and pub: "pub = (case staged q of None \<Rightarrow> pub' | Some f \<Rightarrow> f # pub')"
      by (auto split: prod.splits)
    from Cons.IH [OF publish_inv [OF Cons.prems(1)] run] pub Cons.prems(1) show ?thesis
      by (auto simp: publish_frames split: option.splits)
  next
    case Take
    with Cons.prems obtain got' where
      run: "ring_run stage publish peek release staged (release q) ops = (q', pub, got')"
      and got: "got = (case peek q of None \<Rightarrow> got' | Some f \<Rightarrow> f # got')"
      by (auto split: prod.splits)
    from Cons.IH [OF release_inv [OF Cons.prems(1)] run] got Cons.prems(1) show ?thesis
      by (cases "frames q") (auto simp: release_frames peek_frames)
  qed
qed

lemma stage_publish:
  assumes "inv q" and "f \<noteq> []" and "length f \<le> slot_max" and "length (frames q) < depth"
  shows "frames (publish (fst (stage q f))) = frames q @ [f]"
  using assms stage_ok [OF assms(1), of f]
  by (simp add: publish_frames stage_inv stage_frames stage_staged)

end

section \<open>The ring meets the interface\<close>

definition inq_frames :: "dh_inq \<Rightarrow> byte list list" where
  "inq_frames q =
     map (\<lambda>k. inq_slot_frame q ((unat (iq_head q) + k) mod DH_INQ_DEPTH))
       [0..<unat (dh_inq_pending q)]"

definition inq_staged :: "dh_inq \<Rightarrow> byte list option" where
  "inq_staged q = (if iq_staged q then Some (inq_slot_frame q (inq_slot_at (iq_tail q))) else None)"

definition inq_inv :: "dh_inq \<Rightarrow> bool" where
  "inq_inv q =
     (length (iq_slot q) = DH_INQ_DEPTH \<and> list_all (\<lambda>s. length s = DH_INQ_SLOT_MAX) (iq_slot q) \<and>
      length (iq_slot_len q) = DH_INQ_DEPTH \<and> list_all (\<lambda>n. unat n \<le> DH_INQ_SLOT_MAX) (iq_slot_len q) \<and>
      unat (dh_inq_pending q) \<le> DH_INQ_DEPTH \<and>
      (iq_staged q \<longrightarrow> unat (dh_inq_pending q) < DH_INQ_DEPTH))"

lemma inq_tail_index: "inq_slot_at (iq_tail q) = (unat (iq_head q) + unat (dh_inq_pending q)) mod 4"
proof -
  have "iq_tail q = iq_head q + dh_inq_pending q"
    by (simp add: dh_inq_pending_def)
  then have "unat (iq_tail q) = (unat (iq_head q) + unat (dh_inq_pending q)) mod 256"
    by (simp add: unat_word_ariths)
  then show ?thesis
    by (simp add: inq_slot_at_def mod_mod_cancel)
qed

lemma inq_head_index: "inq_slot_at (iq_head q) = unat (iq_head q) mod 4"
  by (simp add: inq_slot_at_def)

lemma unat_succ_mod4: "unat (b + 1 :: byte) mod 4 = Suc (unat b) mod 4"
proof -
  have "unat (b + 1) = Suc (unat b) mod 256"
    by (simp add: unat_word_ariths)
  then show ?thesis by (simp add: mod_mod_cancel)
qed

lemma unat_succ_shift_mod4: "(unat (b + 1 :: byte) + k) mod 4 = (unat b + Suc k) mod 4"
proof -
  have "(unat (b + 1) + k) mod 4 = (unat (b + 1) mod 4 + k) mod 4"
    by (simp add: mod_add_left_eq)
  also have "\<dots> = (Suc (unat b) + k) mod 4"
    by (simp only: unat_succ_mod4 mod_add_left_eq)
  finally show ?thesis by simp
qed

lemma inq_slot_distinct: "k < n \<Longrightarrow> n < 4 \<Longrightarrow> (h + k) mod 4 \<noteq> (h + n) mod (4 :: nat)"
proof
  assume "k < n" "n < 4" "(h + k) mod 4 = (h + n) mod 4"
  then have "4 dvd (h + n) - (h + k)"
    by (metis mod_eq_dvd_iff_nat add_le_cancel_left less_imp_le)
  then have "4 dvd n - k" by simp
  with \<open>k < n\<close> \<open>n < 4\<close> show False
    using nat_dvd_not_less [of "n - k" 4] by simp
qed

lemma pending_publish:
  "unat (dh_inq_pending q) < 4 \<Longrightarrow> unat (iq_tail q + 1 - iq_head q) = Suc (unat (dh_inq_pending q))"
proof -
  assume "unat (dh_inq_pending q) < 4"
  moreover have "iq_tail q + 1 - iq_head q = dh_inq_pending q + of_nat 1"
    by (simp add: dh_inq_pending_def)
  ultimately show ?thesis
    by (simp only:) (subst unat_add_of_nat; simp)
qed

lemma pending_release:
  "dh_inq_pending q \<noteq> 0 \<Longrightarrow> unat (iq_tail q - (iq_head q + 1)) = unat (dh_inq_pending q) - 1"
proof -
  assume "dh_inq_pending q \<noteq> 0"
  then have "unat (dh_inq_pending q - 1) = unat (dh_inq_pending q) - 1"
    by (intro unat_minus_one)
  then show ?thesis
    by (simp add: dh_inq_pending_def diff_diff_eq)
qed

lemma length_inq_frames [simp]: "length (inq_frames q) = unat (dh_inq_pending q)"
  by (simp add: inq_frames_def)

lemma dh_inq_stage_slots:
  assumes "inq_inv q" and "snd (dh_inq_stage q f)"
  shows "inq_slot_frame (fst (dh_inq_stage q f)) (inq_slot_at (iq_tail q)) = f"
    and "at \<noteq> inq_slot_at (iq_tail q) \<Longrightarrow>
      inq_slot_frame (fst (dh_inq_stage q f)) at = inq_slot_frame q at"
proof -
  have ok: "length f \<le> 1095"
    using assms(2) by (auto simp: dh_inq_stage_def split: if_splits)
  have at: "inq_slot_at (iq_tail q) < 4"
    by (simp add: inq_slot_at_def)
  have "unat (of_nat (length f) :: u16) = length f"
    using ok by (intro word_conv) simp
  then show "inq_slot_frame (fst (dh_inq_stage q f)) (inq_slot_at (iq_tail q)) = f"
    using assms at by (auto simp: dh_inq_stage_def inq_slot_frame_def inq_inv_def Let_def blit_simps)
  show "inq_slot_frame (fst (dh_inq_stage q f)) at = inq_slot_frame q at"
    if "at \<noteq> inq_slot_at (iq_tail q)"
    using that by (auto simp: dh_inq_stage_def inq_slot_frame_def Let_def)
qed

lemma dh_inq_stage_counters [simp]:
  "iq_head (fst (dh_inq_stage q f)) = iq_head q" "iq_tail (fst (dh_inq_stage q f)) = iq_tail q"
  "dh_inq_pending (fst (dh_inq_stage q f)) = dh_inq_pending q"
  "iq_staged (fst (dh_inq_stage q f)) = snd (dh_inq_stage q f)"
  by (auto simp: dh_inq_stage_def dh_inq_pending_def Let_def)

lemma dh_inq_stage_refused:
  "\<not> snd (dh_inq_stage q f) \<Longrightarrow>
   fst (dh_inq_stage q f) = q\<lparr>iq_staged := False, iq_dropped := sat_inc (iq_dropped q)\<rparr>"
  by (auto simp: dh_inq_stage_def Let_def split: if_splits)

lemma dh_inq_stage_ok:
  "snd (dh_inq_stage q f) \<longleftrightarrow> f \<noteq> [] \<and> length f \<le> 1095 \<and> length (inq_frames q) < 4"
  by (auto simp: dh_inq_stage_def Let_def)

lemma inq_stage_frames: "inq_inv q \<Longrightarrow> inq_frames (fst (dh_inq_stage q f)) = inq_frames q"
proof (cases "snd (dh_inq_stage q f)")
  case False
  then show ?thesis
    by (simp add: dh_inq_stage_refused inq_frames_def inq_slot_frame_def dh_inq_pending_def)
next
  case True
  assume "inq_inv q"
  moreover have "unat (dh_inq_pending q) < 4"
    using True by (simp add: dh_inq_stage_ok)
  ultimately show ?thesis
    using True inq_slot_distinct
    by (auto simp: inq_frames_def inq_tail_index intro!: dh_inq_stage_slots)
qed

lemma inq_stage_inv: "inq_inv q \<Longrightarrow> inq_inv (fst (dh_inq_stage q f))"
proof (cases "snd (dh_inq_stage q f)")
  case False
  then show "inq_inv q \<Longrightarrow> ?thesis"
    by (simp add: dh_inq_stage_refused inq_inv_def dh_inq_pending_def)
next
  case True
  assume inv: "inq_inv q"
  have ok: "length f \<le> 1095" "unat (dh_inq_pending q) < 4"
    using True by (simp_all add: dh_inq_stage_ok)
  have "unat (of_nat (length f) :: u16) = length f"
    using ok by (intro word_conv) simp
  moreover have "inq_slot_at (iq_tail q) < 4"
    by (simp add: inq_slot_at_def)
  ultimately show ?thesis
    using inv ok True
    by (auto simp: inq_inv_def dh_inq_stage_def Let_def dh_inq_pending_def list_all_iff blit_simps
        dest!: set_update_subset_insert [THEN subsetD] split: if_splits)
qed

lemma inq_publish_frames:
  "inq_inv q \<Longrightarrow>
   inq_frames (dh_inq_publish q) = inq_frames q @ (case inq_staged q of None \<Rightarrow> [] | Some f \<Rightarrow> [f])"
  using pending_publish [of q]
  by (auto simp: dh_inq_publish_def inq_frames_def inq_staged_def inq_inv_def inq_tail_index
      dh_inq_pending_def inq_slot_frame_def)

lemma inq_release_frames: "inq_inv q \<Longrightarrow> inq_frames (dh_inq_release q) = tl (inq_frames q)"
proof (cases "dh_inq_pending q = 0")
  case True
  then show ?thesis by (simp add: dh_inq_release_def inq_frames_def)
next
  case False
  define n where "n = unat (dh_inq_pending q) - 1"
  have n: "unat (dh_inq_pending q) = Suc n"
    using False by (simp add: n_def unat_gt_0)
  have "inq_frames (dh_inq_release q) =
    map (\<lambda>k. inq_slot_frame q ((unat (iq_head q + 1) + k) mod 4)) [0..<n]"
    using False pending_release [OF False]
    by (simp add: dh_inq_release_def inq_frames_def dh_inq_pending_def n_def inq_slot_frame_def)
  also have "\<dots> = map (\<lambda>k. inq_slot_frame q ((unat (iq_head q) + Suc k) mod 4)) [0..<n]"
    by (simp only: unat_succ_shift_mod4)
  also have "\<dots> = tl (inq_frames q)"
    unfolding inq_frames_def n upt_conv_Cons [OF zero_less_Suc]
    by (simp add: map_Suc_upt [symmetric] comp_def del: upt_Suc)
  finally show ?thesis .
qed

interpretation inq: frame_ring dh_inq_stage dh_inq_publish dh_inq_peek dh_inq_release
  inq_frames inq_staged inq_inv 1095 4
proof unfold_locales
  fix q f assume inv: "inq_inv q"
  show "inq_inv (fst (dh_inq_stage q f))"
    using inv by (rule inq_stage_inv)
  show "inq_frames (fst (dh_inq_stage q f)) = inq_frames q"
    using inv by (rule inq_stage_frames)
  show "inq_staged (fst (dh_inq_stage q f)) = (if snd (dh_inq_stage q f) then Some f else None)"
    using inv by (simp add: inq_staged_def dh_inq_stage_slots)
  show "snd (dh_inq_stage q f) = (f \<noteq> [] \<and> length f \<le> 1095 \<and> length (inq_frames q) < 4)"
    by (rule dh_inq_stage_ok)
  show "inq_inv (dh_inq_publish q)"
    using inv pending_publish [of q] by (auto simp: dh_inq_publish_def inq_inv_def dh_inq_pending_def)
  show "inq_frames (dh_inq_publish q) = inq_frames q @ (case inq_staged q of None \<Rightarrow> [] | Some f \<Rightarrow> [f])"
    using inv by (rule inq_publish_frames)
  show "inq_staged (dh_inq_publish q) = None"
    by (simp add: inq_staged_def dh_inq_publish_def)
  show "dh_inq_peek q = (case inq_frames q of [] \<Rightarrow> None | f # _ \<Rightarrow> Some f)"
    by (cases "unat (dh_inq_pending q)")
       (auto simp: dh_inq_peek_def inq_frames_def inq_head_index upt_conv_Cons unat_eq_zero simp del: upt_Suc)
  show "inq_inv (dh_inq_release q)"
    using inv pending_release [of q]
    by (auto simp: dh_inq_release_def inq_inv_def dh_inq_pending_def)
  show "inq_frames (dh_inq_release q) = tl (inq_frames q)"
    using inv by (rule inq_release_frames)
  show "inq_staged (dh_inq_release q) = inq_staged q"
    by (simp add: inq_staged_def dh_inq_release_def inq_slot_frame_def)
  show "length (inq_frames q) \<le> 4"
    using inv by (simp add: inq_inv_def)
qed

section \<open>Properties\<close>

text \<open>C14. Lossless FIFO handoff under every interleaving of the two cores: starting from any
  reachable ring, whatever order the producer's stage and publish calls and the consumer's
  peek/release calls run in, the frames published are the frames taken, in order and byte for
  byte, followed by the frames still waiting; nothing is overwritten, duplicated or reordered,
  although the 8-bit counters wrap freely.\<close>

theorem inq_interleaved_fifo:
  assumes "inq_inv q"
    and "ring_run dh_inq_stage dh_inq_publish dh_inq_peek dh_inq_release inq_staged q ops = (q', pub, got)"
  shows "inq_frames q @ pub = got @ inq_frames q' \<and> inq_inv q'"
  using inq.run_fifo [OF assms] by simp_all

lemma dh_inq_init_inv: "inq_inv dh_inq_init" "inq_frames dh_inq_init = []"
  by (simp_all add: inq_inv_def dh_inq_init_def dh_inq_pending_def inq_frames_def list_all_iff)

theorem inq_interleaved_fifo_witness:
  "\<exists>q' pub got.
     ring_run dh_inq_stage dh_inq_publish dh_inq_peek dh_inq_release inq_staged dh_inq_init
       [Stage [5, 0, 0, 0], Publish, Stage [6, 0, 0, 0], Take, Publish] = (q', pub, got) \<and>
     pub = got @ inq_frames q' \<and> inq_inv q'"
proof -
  obtain q' pub got where r: "ring_run dh_inq_stage dh_inq_publish dh_inq_peek dh_inq_release
      inq_staged dh_inq_init [Stage [5, 0, 0, 0], Publish, Stage [6, 0, 0, 0], Take, Publish] = (q', pub, got)"
    using prod_cases3 by blast
  with inq_interleaved_fifo [OF dh_inq_init_inv(1) r] show ?thesis
    by (auto simp: dh_inq_init_inv)
qed

text \<open>What a stage refuses and what it costs: a frame is refused exactly when it is empty, longer
  than a slot or the ring already holds four; a refusal changes no waiting frame, leaves nothing to
  publish and adds one to the saturating drop count; an accepted frame followed by a publish is
  appended.\<close>

theorem inq_stage_publish:
  assumes "inq_inv q" and "dh_inq_stage q f = (q', ok)"
  shows "ok = (f \<noteq> [] \<and> length f \<le> DH_INQ_SLOT_MAX \<and> length (inq_frames q) < DH_INQ_DEPTH) \<and>
    inq_frames (dh_inq_publish q') = (if ok then inq_frames q @ [f] else inq_frames q) \<and>
    unat (iq_dropped q') = (if ok then unat (iq_dropped q) else min (unat (iq_dropped q) + 1) (2 ^ 32 - 1))"
proof (intro conjI)
  show ok: "ok = (f \<noteq> [] \<and> length f \<le> 1095 \<and> length (inq_frames q) < 4)"
    using assms(2) dh_inq_stage_ok [of q f] by simp
  show "inq_frames (dh_inq_publish q') = (if ok then inq_frames q @ [f] else inq_frames q)"
    using assms inq.publish_frames [of q'] inq.stage_inv [of q f] inq.stage_frames [of q f]
      inq.stage_staged [of q f] by auto
  show "unat (iq_dropped q') = (if ok then unat (iq_dropped q) else min (unat (iq_dropped q) + 1) (2 ^ 32 - 1))"
    using assms(2) by (auto simp: dh_inq_stage_def Let_def unat_sat_inc split: if_splits)
qed

theorem inq_stage_publish_witness:
  "\<exists>q' ok. dh_inq_stage dh_inq_init [5, 0, 0, 0] = (q', ok) \<and> ok \<and>
     inq_frames (dh_inq_publish q') = [[5, 0, 0, 0]]"
proof -
  obtain q' ok where s: "dh_inq_stage dh_inq_init [5, 0, 0, 0] = (q', ok)" by fastforce
  with inq_stage_publish [OF dh_inq_init_inv(1) s] show ?thesis
    by (auto simp: dh_inq_init_inv)
qed

end
