(* ===== verification/DH_Outq.thy ===== *)
theory DH_Outq
  imports DH_Inq
begin

text \<open>
  The device's outbound frame queue (\<open>src/src/core/dh_outq.h\<close>, \<open>dh_outq.c\<close>): a priority band and a
  bulk band, each with the frame in flight and a ring of frames queued behind it, refusal counters
  split by cause, and the peek/advance interface the two transports drain it through. The struct's
  two groups of fields (\<open>priority\<close>, \<open>priority_buf\<close>, \<open>priority_stage\<close>, \<dots> and \<open>bulk\<close>, \<open>bulk_buf\<close>,
  \<open>stage\<close>, \<dots>) are the two values of one record \<open>lane\<close>, so that the facts about a band are proved once.
\<close>

section \<open>Model\<close>

abbreviation (input) DH_OUTQ_PRIORITY_MAX :: nat where "DH_OUTQ_PRIORITY_MAX \<equiv> 128"
abbreviation (input) DH_OUTQ_PRIORITY_DEPTH :: nat where "DH_OUTQ_PRIORITY_DEPTH \<equiv> 1"
abbreviation (input) DH_OUTQ_DEPTH :: nat where "DH_OUTQ_DEPTH \<equiv> 3"

datatype dh_outq_result = DH_OUTQ_OK | DH_OUTQ_ERR_BUSY | DH_OUTQ_ERR_OVERSIZE | DH_OUTQ_ERR_FRAME

record dh_outq_view =
  vw_at :: "byte list"
  vw_remaining :: u16
  vw_total :: u16
  vw_bulk :: bool
  vw_preamble_owed :: bool

record dh_outq_band =
  bd_len :: u16
  bd_sent :: u16
  bd_preamble_done :: bool

record lane =
  ln_band :: dh_outq_band
  ln_buf :: "byte list"
  ln_stage :: "byte list list"
  ln_stage_len :: "u16 list"
  ln_first :: byte
  ln_used :: byte

record dh_outq =
  oq_priority :: lane
  oq_bulk :: lane
  oq_refused :: u32
  oq_refused_priority :: u32
  oq_refused_bulk :: u32
  oq_refused_bad_header :: u32

datatype band_id = BAND_NONE | BAND_PRIORITY | BAND_BULK

definition band_in_flight :: "dh_outq_band \<Rightarrow> bool" where
  "band_in_flight b = (bd_len b > 0 \<and> (bd_sent b > 0 \<or> bd_preamble_done b))"

definition band_clear :: dh_outq_band where
  "band_clear = \<lparr>bd_len = 0, bd_sent = 0, bd_preamble_done = False\<rparr>"

definition owed_band :: "dh_outq \<Rightarrow> band_id" where
  "owed_band q =
     (if band_in_flight (ln_band (oq_bulk q)) then BAND_BULK
      else if bd_len (ln_band (oq_priority q)) > 0 then BAND_PRIORITY
      else if bd_len (ln_band (oq_bulk q)) > 0 then BAND_BULK
      else BAND_NONE)"

text \<open>The next queued frame of a lane becomes the one in flight; \<open>depth\<close> is the lane's ring size.\<close>

definition lane_promote :: "nat \<Rightarrow> lane \<Rightarrow> lane" where
  "lane_promote depth l0 =
     (let l = l0\<lparr>ln_band := band_clear\<rparr> in
      if ln_used l = 0 then l
      else
        let first = unat (ln_first l); len = ln_stage_len l ! first in
        l\<lparr>ln_buf := blit (ln_buf l) 0 (take (unat len) (ln_stage l ! first)),
          ln_band := band_clear\<lparr>bd_len := len\<rparr>,
          ln_first := of_nat ((first + 1) mod depth),
          ln_used := ln_used l - 1\<rparr>)"

definition promote :: "dh_outq \<Rightarrow> dh_outq" where
  "promote q = q\<lparr>oq_bulk := lane_promote DH_OUTQ_DEPTH (oq_bulk q)\<rparr>"

definition promote_priority :: "dh_outq \<Rightarrow> dh_outq" where
  "promote_priority q = q\<lparr>oq_priority := lane_promote DH_OUTQ_PRIORITY_DEPTH (oq_priority q)\<rparr>"

text \<open>\<open>refuse\<close> counts a refusal in the total and against its cause, both saturating.\<close>

definition refuse_bad_header :: "dh_outq \<Rightarrow> dh_outq" where
  "refuse_bad_header q =
     q\<lparr>oq_refused := sat_inc (oq_refused q), oq_refused_bad_header := sat_inc (oq_refused_bad_header q)\<rparr>"

definition refuse_priority :: "dh_outq \<Rightarrow> dh_outq" where
  "refuse_priority q =
     q\<lparr>oq_refused := sat_inc (oq_refused q), oq_refused_priority := sat_inc (oq_refused_priority q)\<rparr>"

definition refuse_bulk :: "dh_outq \<Rightarrow> dh_outq" where
  "refuse_bulk q =
     q\<lparr>oq_refused := sat_inc (oq_refused q), oq_refused_bulk := sat_inc (oq_refused_bulk q)\<rparr>"

definition empty_lane :: "nat \<Rightarrow> nat \<Rightarrow> nat \<Rightarrow> lane" where
  "empty_lane cap slot depth =
     \<lparr>ln_band = band_clear, ln_buf = replicate cap 0, ln_stage = replicate depth (replicate slot 0),
      ln_stage_len = replicate depth 0, ln_first = 0, ln_used = 0\<rparr>"

definition dh_outq_init :: dh_outq where
  "dh_outq_init =
     \<lparr>oq_priority = empty_lane DH_OUTQ_PRIORITY_MAX DH_OUTQ_PRIORITY_MAX DH_OUTQ_PRIORITY_DEPTH,
      oq_bulk = empty_lane DH_FRAME_MAX_SIZE DH_OUTQ_STAGE_MAX DH_OUTQ_DEPTH,
      oq_refused = 0, oq_refused_priority = 0, oq_refused_bulk = 0, oq_refused_bad_header = 0\<rparr>"

definition dh_outq_reset :: "dh_outq \<Rightarrow> dh_outq" where
  "dh_outq_reset q =
     dh_outq_init
       \<lparr>oq_refused := oq_refused q, oq_refused_priority := oq_refused_priority q,
        oq_refused_bulk := oq_refused_bulk q, oq_refused_bad_header := oq_refused_bad_header q\<rparr>"

text \<open>The two ways a frame enters a lane: into the free in-flight buffer, or into the slot behind the
  newest queued frame.\<close>

definition lane_put :: "lane \<Rightarrow> byte list \<Rightarrow> lane" where
  "lane_put l frame =
     l\<lparr>ln_buf := blit (ln_buf l) 0 frame, ln_band := band_clear\<lparr>bd_len := of_nat (length frame)\<rparr>\<rparr>"

definition lane_queue :: "nat \<Rightarrow> lane \<Rightarrow> byte list \<Rightarrow> lane" where
  "lane_queue depth l frame =
     (let at = (unat (ln_first l) + unat (ln_used l)) mod depth in
      l\<lparr>ln_stage := (ln_stage l)[at := blit (ln_stage l ! at) 0 frame],
        ln_stage_len := (ln_stage_len l)[at := of_nat (length frame)],
        ln_used := ln_used l + 1\<rparr>)"

definition frame_whole :: "byte list \<Rightarrow> dh_frame_header option" where
  "frame_whole frame =
     (case dh_frame_header_parse frame of
        Inr hdr \<Rightarrow> if length frame = DH_FRAME_HEADER_SIZE + unat (fh_len hdr) then Some hdr else None
      | Inl _ \<Rightarrow> None)"

definition dh_outq_offer :: "dh_outq \<Rightarrow> byte list \<Rightarrow> dh_outq \<times> dh_outq_result" where
  "dh_outq_offer q frame =
     (case frame_whole frame of
        None \<Rightarrow> (refuse_bad_header q, DH_OUTQ_ERR_FRAME)
      | Some hdr \<Rightarrow>
          if \<not> dh_msg_is_bulk (fh_type hdr) then
            (if length frame > DH_OUTQ_PRIORITY_MAX then (refuse_priority q, DH_OUTQ_ERR_OVERSIZE)
             else if bd_len (ln_band (oq_priority q)) > 0 then
               (if unat (ln_used (oq_priority q)) \<ge> DH_OUTQ_PRIORITY_DEPTH
                then (refuse_priority q, DH_OUTQ_ERR_BUSY)
                else (q\<lparr>oq_priority := lane_queue DH_OUTQ_PRIORITY_DEPTH (oq_priority q) frame\<rparr>, DH_OUTQ_OK))
             else (q\<lparr>oq_priority := lane_put (oq_priority q) frame\<rparr>, DH_OUTQ_OK))
          else if bd_len (ln_band (oq_bulk q)) = 0 then
            (q\<lparr>oq_bulk := lane_put (oq_bulk q) frame\<rparr>, DH_OUTQ_OK)
          else if length frame > DH_OUTQ_STAGE_MAX \<or> unat (ln_used (oq_bulk q)) \<ge> DH_OUTQ_DEPTH then
            (refuse_bulk q, DH_OUTQ_ERR_BUSY)
          else (q\<lparr>oq_bulk := lane_queue DH_OUTQ_DEPTH (oq_bulk q) frame\<rparr>, DH_OUTQ_OK))"

definition dh_outq_pair_busy :: "dh_outq \<Rightarrow> bool" where
  "dh_outq_pair_busy q =
     (bd_len (ln_band (oq_priority q)) > 0 \<or> ln_used (oq_priority q) > 0 \<or>
      band_in_flight (ln_band (oq_bulk q)))"

definition dh_outq_offer_pair ::
  "dh_outq \<Rightarrow> byte list \<Rightarrow> byte list \<Rightarrow> dh_outq \<times> dh_outq_result" where
  "dh_outq_offer_pair q first second =
     (case (frame_whole first, frame_whole second) of
        (Some h1, Some h2) \<Rightarrow>
          if dh_msg_is_bulk (fh_type h1) \<or> dh_msg_is_bulk (fh_type h2)
          then (refuse_priority q, DH_OUTQ_ERR_FRAME)
          else if length first > DH_OUTQ_PRIORITY_MAX \<or> length second > DH_OUTQ_PRIORITY_MAX
          then (refuse_priority q, DH_OUTQ_ERR_OVERSIZE)
          else if dh_outq_pair_busy q then (refuse_priority q, DH_OUTQ_ERR_BUSY)
          else
            let l = lane_put (oq_priority q) first in
            (q\<lparr>oq_priority :=
                l\<lparr>ln_stage := (ln_stage l)[0 := blit (ln_stage l ! 0) 0 second],
                  ln_stage_len := (ln_stage_len l)[0 := of_nat (length second)],
                  ln_first := 0, ln_used := 1\<rparr>\<rparr>, DH_OUTQ_OK)
      | _ \<Rightarrow> (refuse_bad_header q, DH_OUTQ_ERR_FRAME))"

definition lane_view :: "bool \<Rightarrow> lane \<Rightarrow> dh_outq_view" where
  "lane_view bulk l =
     \<lparr>vw_at = drop (unat (bd_sent (ln_band l))) (take (unat (bd_len (ln_band l))) (ln_buf l)),
      vw_remaining = bd_len (ln_band l) - bd_sent (ln_band l),
      vw_total = bd_len (ln_band l), vw_bulk = bulk,
      vw_preamble_owed = (\<not> bd_preamble_done (ln_band l))\<rparr>"

definition dh_outq_peek :: "dh_outq \<Rightarrow> dh_outq_view option" where
  "dh_outq_peek q =
     (case owed_band q of
        BAND_NONE \<Rightarrow> None
      | BAND_BULK \<Rightarrow> Some (lane_view True (oq_bulk q))
      | BAND_PRIORITY \<Rightarrow> Some (lane_view False (oq_priority q)))"

definition lane_sent :: "lane \<Rightarrow> u16 \<Rightarrow> lane" where
  "lane_sent l n =
     (let b = ln_band l; remaining = bd_len b - bd_sent b in
      l\<lparr>ln_band := b\<lparr>bd_sent := bd_sent b + (if n < remaining then n else remaining)\<rparr>\<rparr>)"

definition dh_outq_advance :: "dh_outq \<Rightarrow> dh_outq_view \<Rightarrow> u16 \<Rightarrow> dh_outq" where
  "dh_outq_advance q view n =
     (let l = (if vw_bulk view then oq_bulk q else oq_priority q) in
      if bd_len (ln_band l) = 0 then q
      else
        let l' = lane_sent l n;
            q' = (if vw_bulk view then q\<lparr>oq_bulk := l'\<rparr> else q\<lparr>oq_priority := l'\<rparr>) in
        if bd_sent (ln_band l') < bd_len (ln_band l') then q'
        else if vw_bulk view then promote q' else promote_priority q')"

definition dh_outq_note_preamble :: "dh_outq \<Rightarrow> dh_outq_view \<Rightarrow> dh_outq" where
  "dh_outq_note_preamble q view =
     (let l = (if vw_bulk view then oq_bulk q else oq_priority q) in
      if bd_len (ln_band l) = 0 then q
      else
        let l' = l\<lparr>ln_band := (ln_band l)\<lparr>bd_preamble_done := True\<rparr>\<rparr> in
        if vw_bulk view then q\<lparr>oq_bulk := l'\<rparr> else q\<lparr>oq_priority := l'\<rparr>)"

definition dh_outq_busy :: "dh_outq \<Rightarrow> bool" where
  "dh_outq_busy q = (bd_len (ln_band (oq_priority q)) > 0 \<or> bd_len (ln_band (oq_bulk q)) > 0)"

definition dh_outq_priority_full :: "dh_outq \<Rightarrow> bool" where
  "dh_outq_priority_full q =
     (bd_len (ln_band (oq_priority q)) > 0 \<and> unat (ln_used (oq_priority q)) \<ge> DH_OUTQ_PRIORITY_DEPTH)"

section \<open>What a lane holds\<close>

definition lane_slot :: "nat \<Rightarrow> lane \<Rightarrow> nat \<Rightarrow> byte list" where
  "lane_slot depth l k =
     (let i = (unat (ln_first l) + k) mod depth in take (unat (ln_stage_len l ! i)) (ln_stage l ! i))"

definition lane_queued :: "nat \<Rightarrow> lane \<Rightarrow> byte list list" where
  "lane_queued depth l = map (lane_slot depth l) [0..<unat (ln_used l)]"

definition lane_flight :: "lane \<Rightarrow> byte list" where
  "lane_flight l = take (unat (bd_len (ln_band l))) (ln_buf l)"

text \<open>The frames of a lane, oldest first.\<close>

definition lane_frames :: "nat \<Rightarrow> lane \<Rightarrow> byte list list" where
  "lane_frames depth l =
     (if bd_len (ln_band l) = 0 then [] else [lane_flight l]) @ lane_queued depth l"

text \<open>Capacity, slot size and ring size as the arrays are declared; no frame is empty; an empty
  in-flight buffer means an empty lane; a finished frame does not rest in the lane.\<close>

definition lane_inv :: "nat \<Rightarrow> nat \<Rightarrow> nat \<Rightarrow> lane \<Rightarrow> bool" where
  "lane_inv cap slot depth l =
     (length (ln_buf l) = cap \<and> unat (bd_len (ln_band l)) \<le> cap \<and>
      length (ln_stage l) = depth \<and> list_all (\<lambda>s. length s = slot) (ln_stage l) \<and>
      length (ln_stage_len l) = depth \<and>
      unat (ln_first l) < depth \<and> unat (ln_used l) \<le> depth \<and>
      list_all (\<lambda>k. let n = unat (ln_stage_len l ! ((unat (ln_first l) + k) mod depth)) in 0 < n \<and> n \<le> slot)
        [0..<unat (ln_used l)] \<and>
      (if bd_len (ln_band l) = 0
       then bd_sent (ln_band l) = 0 \<and> \<not> bd_preamble_done (ln_band l) \<and> ln_used l = 0
       else bd_sent (ln_band l) < bd_len (ln_band l)))"

definition outq_inv :: "dh_outq \<Rightarrow> bool" where
  "outq_inv q =
     (lane_inv DH_OUTQ_PRIORITY_MAX DH_OUTQ_PRIORITY_MAX DH_OUTQ_PRIORITY_DEPTH (oq_priority q) \<and>
      lane_inv DH_FRAME_MAX_SIZE DH_OUTQ_STAGE_MAX DH_OUTQ_DEPTH (oq_bulk q) \<and>
      \<not> (band_in_flight (ln_band (oq_priority q)) \<and> band_in_flight (ln_band (oq_bulk q))))"

abbreviation outq_priority :: "dh_outq \<Rightarrow> byte list list" where
  "outq_priority q \<equiv> lane_frames DH_OUTQ_PRIORITY_DEPTH (oq_priority q)"

abbreviation outq_bulk :: "dh_outq \<Rightarrow> byte list list" where
  "outq_bulk q \<equiv> lane_frames DH_OUTQ_DEPTH (oq_bulk q)"

section \<open>Lane lemmas\<close>

lemma word_gt0_unat: "(w > 0) = (0 < unat (w :: 'a :: len word))"
  by (simp add: word_gt_0 unat_gt_0)

lemma word_less_unat: "(a < b) = (unat a < unat (b :: 'a :: len word))"
  by (simp add: word_less_nat_alt)

lemma lane_put_inv:
  assumes "lane_inv cap slot depth l" and "bd_len (ln_band l) = 0"
    and "f \<noteq> []" and "length f \<le> cap" and "cap < 65536"
  shows "lane_inv cap slot depth (lane_put l f)" and "lane_frames depth (lane_put l f) = [f]"
    and "bd_len (ln_band (lane_put l f)) = of_nat (length f)"
    and "\<not> band_in_flight (ln_band (lane_put l f))"
proof -
  have len: "unat (of_nat (length f) :: u16) = length f"
    using assms by (intro word_conv) simp
  then have nz: "(of_nat (length f) :: u16) \<noteq> 0"
    using assms(3) by (metis length_0_conv unat_0)
  show "lane_inv cap slot depth (lane_put l f)"
    using assms len nz
    by (auto simp: lane_inv_def lane_put_def band_clear_def blit_simps word_gt_0)
  show "lane_frames depth (lane_put l f) = [f]"
    using assms len nz
    by (auto simp: lane_inv_def lane_put_def band_clear_def lane_frames_def lane_flight_def
        lane_queued_def blit_simps)
  show "bd_len (ln_band (lane_put l f)) = of_nat (length f)"
    "\<not> band_in_flight (ln_band (lane_put l f))"
    by (simp_all add: lane_put_def band_clear_def band_in_flight_def)
qed

lemma lane_queue_inv:
  assumes inv: "lane_inv cap slot depth l" and busy: "bd_len (ln_band l) \<noteq> 0"
    and room: "unat (ln_used l) < depth"
    and f: "f \<noteq> []" "length f \<le> slot" and b: "slot < 65536" "depth < 4"
  shows "lane_inv cap slot depth (lane_queue depth l f)"
    and "lane_frames depth (lane_queue depth l f) = lane_frames depth l @ [f]"
    and "ln_band (lane_queue depth l f) = ln_band l" and "ln_buf (lane_queue depth l f) = ln_buf l"
proof -
  define at where "at = (unat (ln_first l) + unat (ln_used l)) mod depth"
  have at: "at < depth" using room by (simp add: at_def)
  have len: "unat (of_nat (length f) :: u16) = length f"
    using f b by (intro word_conv) simp
  have used: "unat (ln_used l + 1) = Suc (unat (ln_used l))"
    using room b unat_add_of_nat [of "ln_used l" 1] by simp
  have other: "(unat (ln_first l) + k) mod depth \<noteq> at" if "k < unat (ln_used l)" for k
  proof
    assume "(unat (ln_first l) + k) mod depth = at"
    then have "depth dvd (unat (ln_first l) + unat (ln_used l)) - (unat (ln_first l) + k)"
      using that unfolding at_def by (metis mod_eq_dvd_iff_nat add_le_cancel_left less_imp_le)
    then have "depth dvd unat (ln_used l) - k" by simp
    with that room show False using nat_dvd_not_less [of "unat (ln_used l) - k" depth] by simp
  qed
  show "ln_band (lane_queue depth l f) = ln_band l" "ln_buf (lane_queue depth l f) = ln_buf l"
    by (simp_all add: lane_queue_def Let_def)
  show "lane_inv cap slot depth (lane_queue depth l f)"
    using inv busy room f at len used other
    by (auto simp: lane_inv_def lane_queue_def Let_def at_def [symmetric] list_all_iff blit_simps
        less_Suc_eq nth_list_update dest!: set_update_subset_insert [THEN subsetD])
  have "lane_slot depth (lane_queue depth l f) k = (if k = unat (ln_used l) then f else lane_slot depth l k)"
    if "k \<le> unat (ln_used l)" for k
  proof (cases "k = unat (ln_used l)")
    case True
    then show ?thesis
      using inv at len f(2)
      by (simp add: lane_slot_def lane_queue_def Let_def at_def [symmetric] lane_inv_def blit_simps)
  next
    case False
    with that have "k < unat (ln_used l)" by simp
    from other [OF this] False show ?thesis
      by (simp add: lane_slot_def lane_queue_def Let_def at_def [symmetric])
  qed
  then have "lane_queued depth (lane_queue depth l f) = lane_queued depth l @ [f]"
    by (simp add: lane_queued_def used lane_queue_def Let_def)
  then show "lane_frames depth (lane_queue depth l f) = lane_frames depth l @ [f]"
    by (simp add: lane_frames_def lane_flight_def lane_queue_def Let_def)
qed

lemma lane_promote_inv:
  assumes inv: "lane_inv cap slot depth (l\<lparr>ln_band := b\<rparr>)" and busy: "bd_len b \<noteq> 0"
    and b: "slot \<le> cap" "cap < 65536" "0 < depth" "depth < 4"
  shows "lane_inv cap slot depth (lane_promote depth l)"
    and "lane_frames depth (lane_promote depth l) = lane_queued depth l"
    and "\<not> band_in_flight (ln_band (lane_promote depth l))"
proof -
  have all: "lane_inv cap slot depth (lane_promote depth l) \<and>
    lane_frames depth (lane_promote depth l) = lane_queued depth l \<and>
    \<not> band_in_flight (ln_band (lane_promote depth l))"
  proof (cases "ln_used l = 0")
    case True
    with inv show ?thesis
      by (auto simp: lane_promote_def lane_inv_def lane_frames_def lane_queued_def band_clear_def
          band_in_flight_def)
  next
    case False
    define n where "n = unat (ln_used l) - 1"
    define first where "first = unat (ln_first l)"
    have used: "unat (ln_used l) = Suc n" "unat (ln_used l - 1) = n"
      using False by (simp_all add: n_def unat_gt_0 unat_minus_one)
    have first: "first < depth" and n: "n < depth"
      using inv used by (auto simp: first_def lane_inv_def)
    have "(first + 1) mod depth < 256"
      using b(4) mod_less_divisor [OF b(3), of "first + 1"] by linarith
    then have next_first: "unat (of_nat ((first + 1) mod depth) :: byte) = (first + 1) mod depth"
      by (intro unat_of_nat_small) simp
    have sl: "0 < unat (ln_stage_len l ! ((first + k) mod depth)) \<and>
        unat (ln_stage_len l ! ((first + k) mod depth)) \<le> slot" if "k < Suc n" for k
    proof -
      have "k \<in> set [0..<unat (ln_used l)]" using that used(1) by auto
      with inv show ?thesis
        unfolding lane_inv_def list_all_iff by (simp add: first_def Let_def del: set_upt)
    qed
    have s0: "0 < unat (ln_stage_len l ! first)" "unat (ln_stage_len l ! first) \<le> slot"
      using sl [of 0] first by simp_all
    have slot0: "length (ln_stage l ! first) = slot"
      using inv first by (auto simp: lane_inv_def list_all_iff)
    have nz: "ln_stage_len l ! first \<noteq> 0" using s0 by (metis unat_0 less_irrefl)
    have lp: "lane_promote depth l =
      l\<lparr>ln_buf := blit (ln_buf l) 0 (take (unat (ln_stage_len l ! first)) (ln_stage l ! first)),
          ln_band := band_clear\<lparr>bd_len := ln_stage_len l ! first\<rparr>,
          ln_first := of_nat ((first + 1) mod depth), ln_used := ln_used l - 1\<rparr>"
      using False by (simp add: lane_promote_def Let_def first_def)
    have "lane_inv cap slot depth (lane_promote depth l)"
      using inv s0 slot0 nz used n sl [of "Suc _"] next_first b
      by (simp add: lp lane_inv_def band_clear_def blit_simps list_all_iff Let_def mod_add_left_eq word_gt_0
          del: upt_Suc)
    moreover have "lane_frames depth (lane_promote depth l) = lane_queued depth l"
    proof -
      have "lane_flight (lane_promote depth l) = lane_slot depth l 0"
        using s0 slot0 first
        by (simp add: lp lane_flight_def lane_slot_def band_clear_def first_def [symmetric] Let_def
            take_blit_0_le)
      moreover have "lane_queued depth (lane_promote depth l) = map (\<lambda>k. lane_slot depth l (Suc k)) [0..<n]"
        using next_first
        by (simp add: lane_queued_def used lp lane_slot_def mod_add_left_eq first_def [symmetric] del: upt_Suc)
      moreover have "lane_queued depth l = lane_slot depth l 0 # map (\<lambda>k. lane_slot depth l (Suc k)) [0..<n]"
        unfolding lane_queued_def used(1) upt_conv_Cons [OF zero_less_Suc]
        by (simp add: map_Suc_upt [symmetric] comp_def del: upt_Suc)
      ultimately show ?thesis
        using nz by (simp add: lane_frames_def) (simp add: lp band_clear_def)
    qed
    ultimately show ?thesis
      by (simp add: lp band_clear_def band_in_flight_def)
  qed
  then show "lane_inv cap slot depth (lane_promote depth l)"
    "lane_frames depth (lane_promote depth l) = lane_queued depth l"
    "\<not> band_in_flight (ln_band (lane_promote depth l))"
    by auto
qed

lemma lane_len: "lane_inv cap slot depth l \<Longrightarrow> length (lane_flight l) = unat (bd_len (ln_band l))"
  by (auto simp: lane_inv_def lane_flight_def)

lemma lane_frames_busy:
  "bd_len (ln_band l) \<noteq> 0 \<Longrightarrow> lane_frames depth l = lane_flight l # lane_queued depth l"
  by (simp add: lane_frames_def)

lemma lane_frames_Nil_iff:
  "lane_inv cap slot depth l \<Longrightarrow> lane_frames depth l = [] \<longleftrightarrow> bd_len (ln_band l) = 0"
  by (auto simp: lane_inv_def lane_frames_def lane_queued_def)

text \<open>The frame in flight advances by \<open>n\<close> bytes, clamped to what it still owes.\<close>

lemma lane_sent_eq:
  assumes "lane_inv cap slot depth l" and "bd_len (ln_band l) \<noteq> 0"
  shows "unat (bd_sent (ln_band (lane_sent l n))) =
    min (unat (bd_sent (ln_band l)) + unat n) (unat (bd_len (ln_band l)))"
proof -
  have lt: "unat (bd_sent (ln_band l)) < unat (bd_len (ln_band l))"
    using assms by (auto simp: lane_inv_def word_less_unat)
  then have rem: "unat (bd_len (ln_band l) - bd_sent (ln_band l)) =
      unat (bd_len (ln_band l)) - unat (bd_sent (ln_band l))"
    by (intro word_conv) simp
  have fit: "unat (bd_sent (ln_band l)) + unat m < 65536"
    if "unat m \<le> unat (bd_len (ln_band l)) - unat (bd_sent (ln_band l))" for m :: u16
    using that lt unat_u16_lt [of "bd_len (ln_band l)"] by linarith
  have add: "unat (bd_sent (ln_band l) + m) = unat (bd_sent (ln_band l)) + unat m"
    if "unat m \<le> unat (bd_len (ln_band l)) - unat (bd_sent (ln_band l))" for m :: u16
    using fit [OF that] unat_add_of_nat_u16 [of "bd_sent (ln_band l)" "unat m"] by simp
  show ?thesis
    using lt rem by (auto simp: lane_sent_def Let_def word_less_unat add min_def)
qed

lemma lane_sent_frame [simp]:
  "bd_len (ln_band (lane_sent l n)) = bd_len (ln_band l)"
  "bd_preamble_done (ln_band (lane_sent l n)) = bd_preamble_done (ln_band l)"
  "ln_buf (lane_sent l n) = ln_buf l" "lane_queued depth (lane_sent l n) = lane_queued depth l"
  "lane_flight (lane_sent l n) = lane_flight l"
  by (simp_all add: lane_sent_def Let_def lane_queued_def lane_slot_def lane_flight_def)

lemma lane_sent_inv:
  assumes "lane_inv cap slot depth l" and "bd_len (ln_band l) \<noteq> 0"
    and "bd_sent (ln_band (lane_sent l n)) < bd_len (ln_band l)"
  shows "lane_inv cap slot depth (lane_sent l n)"
  using assms by (auto simp: lane_inv_def lane_sent_def Let_def)

lemma lane_finish_inv:
  assumes "lane_inv cap slot depth l" and "bd_len (ln_band l) \<noteq> 0"
    and "slot \<le> cap" "cap < 65536" "0 < depth" "depth < 4"
  shows "lane_inv cap slot depth (lane_promote depth (lane_sent l n))"
    and "lane_frames depth (lane_promote depth (lane_sent l n)) = tl (lane_frames depth l)"
    and "\<not> band_in_flight (ln_band (lane_promote depth (lane_sent l n)))"
proof -
  have "lane_inv cap slot depth ((lane_sent l n)\<lparr>ln_band := ln_band l\<rparr>)"
    using assms(1) by (simp add: lane_sent_def Let_def)
  note p = lane_promote_inv [OF this assms(2-6)]
  show "lane_inv cap slot depth (lane_promote depth (lane_sent l n))"
    "\<not> band_in_flight (ln_band (lane_promote depth (lane_sent l n)))"
    by (rule p)+
  show "lane_frames depth (lane_promote depth (lane_sent l n)) = tl (lane_frames depth l)"
    using p(2) assms(2) by (simp add: lane_frames_busy)
qed

lemma lane_preamble_inv:
  "bd_len (ln_band l) \<noteq> 0 \<Longrightarrow>
   lane_inv cap slot depth (l\<lparr>ln_band := (ln_band l)\<lparr>bd_preamble_done := True\<rparr>\<rparr>) = lane_inv cap slot depth l"
  by (simp add: lane_inv_def)

lemma lane_preamble_frames:
  "lane_frames depth (l\<lparr>ln_band := (ln_band l)\<lparr>bd_preamble_done := True\<rparr>\<rparr>) = lane_frames depth l"
  by (simp add: lane_frames_def lane_flight_def lane_queued_def lane_slot_def)

lemma empty_lane_inv:
  "0 < depth \<Longrightarrow> lane_inv cap slot depth (empty_lane cap slot depth)"
  "lane_frames depth (empty_lane cap slot depth) = []"
  by (simp_all add: lane_inv_def empty_lane_def band_clear_def lane_frames_def lane_queued_def list_all_iff)

section \<open>Queue lemmas\<close>

lemma frame_whole_length: "frame_whole f = Some h \<Longrightarrow> f \<noteq> [] \<and> length f \<le> DH_FRAME_MAX_SIZE"
  by (auto simp: frame_whole_def split: sum.splits if_splits
      dest: header_parse_Inr_length header_parse_len_le)

text \<open>An offer appends to exactly one band or changes no frame at all, and never touches the frame in
  flight.\<close>

definition offer_effect :: "dh_outq \<Rightarrow> byte list \<Rightarrow> dh_outq \<Rightarrow> dh_outq_result \<Rightarrow> bool" where
  "offer_effect q f q' rc =
     (if rc = DH_OUTQ_OK then
        (case frame_whole f of
           None \<Rightarrow> False
         | Some h \<Rightarrow>
             if dh_msg_is_bulk (fh_type h)
             then outq_bulk q' = outq_bulk q @ [f] \<and> oq_priority q' = oq_priority q
             else outq_priority q' = outq_priority q @ [f] \<and> oq_bulk q' = oq_bulk q)
      else oq_priority q' = oq_priority q \<and> oq_bulk q' = oq_bulk q)"

lemma outq_offer_lemma:
  assumes inv: "outq_inv q" and off: "dh_outq_offer q f = (q', rc)"
  shows "outq_inv q'" and "offer_effect q f q' rc"
    and "bd_len (ln_band (oq_bulk q)) \<noteq> 0 \<Longrightarrow> ln_band (oq_bulk q') = ln_band (oq_bulk q) \<and> ln_buf (oq_bulk q') = ln_buf (oq_bulk q)"
    and "bd_len (ln_band (oq_priority q)) \<noteq> 0 \<Longrightarrow>
      ln_band (oq_priority q') = ln_band (oq_priority q) \<and> ln_buf (oq_priority q') = ln_buf (oq_priority q)"
proof -
  have P: "lane_inv 128 128 1 (oq_priority q)" and B: "lane_inv 4100 1095 3 (oq_bulk q)"
    using inv by (simp_all add: outq_inv_def)
  have all: "outq_inv q' \<and> offer_effect q f q' rc \<and>
    (bd_len (ln_band (oq_bulk q)) \<noteq> 0 \<longrightarrow> ln_band (oq_bulk q') = ln_band (oq_bulk q) \<and> ln_buf (oq_bulk q') = ln_buf (oq_bulk q)) \<and>
    (bd_len (ln_band (oq_priority q)) \<noteq> 0 \<longrightarrow>
      ln_band (oq_priority q') = ln_band (oq_priority q) \<and> ln_buf (oq_priority q') = ln_buf (oq_priority q))"
  proof (cases "frame_whole f")
    case None
    with off inv show ?thesis
      by (auto simp: dh_outq_offer_def refuse_bad_header_def offer_effect_def outq_inv_def)
  next
    case (Some h)
    note fl = frame_whole_length [OF Some]
    have Bn: "bd_len (ln_band (oq_bulk q)) = 0 \<Longrightarrow> outq_bulk q = []"
      and Pn: "bd_len (ln_band (oq_priority q)) = 0 \<Longrightarrow> lane_frames (Suc 0) (oq_priority q) = []"
      using lane_frames_Nil_iff [OF B] lane_frames_Nil_iff [OF P] by simp_all
    note Bq = lane_put_inv [OF B] lane_queue_inv [OF B]
    note Pq = lane_put_inv [OF P] lane_queue_inv [OF P]
    show ?thesis
    proof (cases "dh_msg_is_bulk (fh_type h)")
      case True
      consider "bd_len (ln_band (oq_bulk q)) = 0"
        | "bd_len (ln_band (oq_bulk q)) \<noteq> 0" "length f > DH_OUTQ_STAGE_MAX \<or> unat (ln_used (oq_bulk q)) \<ge> 3"
        | "bd_len (ln_band (oq_bulk q)) \<noteq> 0" "\<not> (length f > DH_OUTQ_STAGE_MAX \<or> unat (ln_used (oq_bulk q)) \<ge> 3)"
        by blast
      then show ?thesis
      proof cases
        case 1
        with off Some True have "q' = q\<lparr>oq_bulk := lane_put (oq_bulk q) f\<rparr>" "rc = DH_OUTQ_OK"
          by (simp_all add: dh_outq_offer_def)
        with 1 Some True fl inv Bq(1,2,4) Bn show ?thesis
          by (simp add: offer_effect_def outq_inv_def)
      next
        case 2
        with off Some True have "q' = refuse_bulk q" "rc = DH_OUTQ_ERR_BUSY"
          by (simp_all add: dh_outq_offer_def)
        with inv show ?thesis by (simp add: offer_effect_def outq_inv_def refuse_bulk_def)
      next
        case 3
        with off Some True have "q' = q\<lparr>oq_bulk := lane_queue 3 (oq_bulk q) f\<rparr>" "rc = DH_OUTQ_OK"
          by (simp_all add: dh_outq_offer_def)
        with 3 Some True fl inv Bq(5-8) show ?thesis
          by (simp add: offer_effect_def outq_inv_def)
      qed
    next
      case False
      consider "length f > 128"
        | "length f \<le> 128" "bd_len (ln_band (oq_priority q)) = 0"
        | "length f \<le> 128" "bd_len (ln_band (oq_priority q)) \<noteq> 0" "unat (ln_used (oq_priority q)) \<ge> 1"
        | "length f \<le> 128" "bd_len (ln_band (oq_priority q)) \<noteq> 0" "\<not> unat (ln_used (oq_priority q)) \<ge> 1"
        by linarith
      then show ?thesis
      proof cases
        case 1
        with off Some False have "q' = refuse_priority q" "rc = DH_OUTQ_ERR_OVERSIZE"
          by (simp_all add: dh_outq_offer_def)
        with inv show ?thesis by (simp add: offer_effect_def outq_inv_def refuse_priority_def)
      next
        case 2
        with off Some False have "q' = q\<lparr>oq_priority := lane_put (oq_priority q) f\<rparr>" "rc = DH_OUTQ_OK"
          by (simp_all add: dh_outq_offer_def)
        with 2 Some False fl inv Pq(1,2,4) Pn show ?thesis
          by (simp add: offer_effect_def outq_inv_def)
      next
        case 3
        with off Some False have "q' = refuse_priority q" "rc = DH_OUTQ_ERR_BUSY"
          by (simp_all add: dh_outq_offer_def word_gt_0)
        with inv show ?thesis by (simp add: offer_effect_def outq_inv_def refuse_priority_def)
      next
        case 4
        with off Some False have "q' = q\<lparr>oq_priority := lane_queue 1 (oq_priority q) f\<rparr>" "rc = DH_OUTQ_OK"
          by (simp_all add: dh_outq_offer_def word_gt_0)
        with 4 Some False fl inv Pq(5-8) show ?thesis
          by (simp add: offer_effect_def outq_inv_def)
      qed
    qed
  qed
  then show "outq_inv q'" "offer_effect q f q' rc"
    "bd_len (ln_band (oq_bulk q)) \<noteq> 0 \<Longrightarrow> ln_band (oq_bulk q') = ln_band (oq_bulk q) \<and> ln_buf (oq_bulk q') = ln_buf (oq_bulk q)"
    "bd_len (ln_band (oq_priority q)) \<noteq> 0 \<Longrightarrow>
      ln_band (oq_priority q') = ln_band (oq_priority q) \<and> ln_buf (oq_priority q') = ln_buf (oq_priority q)"
    by blast+
qed

section \<open>Frames cut into transport units\<close>

text \<open>What a transport carries of a frame: a length preamble (the inter-board link), then pieces of at
  most \<open>k\<close> bytes, each marked with whether it opens the frame (the report flag of the helper's USB
  interface).\<close>

datatype wire_unit = Preamble nat | Piece bool "byte list"

function (sequential) wire_pieces :: "nat \<Rightarrow> bool \<Rightarrow> byte list \<Rightarrow> wire_unit list" where
  "wire_pieces k first bs =
     (if bs = [] \<or> k = 0 then [] else Piece first (take k bs) # wire_pieces k False (drop k bs))"
  by pat_completeness auto
termination by (relation "measure (\<lambda>(k, first, bs). length bs)") auto

declare wire_pieces.simps [simp del]

definition wire_part :: "nat \<Rightarrow> byte list \<Rightarrow> bool \<Rightarrow> nat \<Rightarrow> wire_unit list" where
  "wire_part k f primed c = (if primed then [Preamble (length f)] else []) @ wire_pieces k True (take c f)"

definition wire_of :: "bool \<Rightarrow> nat \<Rightarrow> byte list \<Rightarrow> wire_unit list" where
  "wire_of pre k f = wire_part k f pre (length f)"

lemma wire_pieces_Nil [simp]: "wire_pieces k b [] = []"
  by (simp add: wire_pieces.simps)

lemma wire_pieces_snoc:
  assumes "k dvd c" and "c < length f" and "0 < k"
  shows "wire_pieces k b (take (c + min k (length f - c)) f) =
    wire_pieces k b (take c f) @ [Piece (b \<and> c = 0) (take (min k (length f - c)) (drop c f))]"
  using assms
proof (induction k b f arbitrary: c rule: wire_pieces.induct)
  case (1 k b f)
  show ?case
  proof (cases "c = 0")
    case True
    with 1 show ?thesis by (simp add: wire_pieces.simps [of k b])
  next
    case False
    with 1 have kc: "k \<le> c" and dv: "k dvd c - k" by (auto intro: dvd_imp_le)
    have step: "wire_pieces k b (take m f) = Piece b (take k f) # wire_pieces k False (take (m - k) (drop k f))"
      if "k \<le> m" for m
      using 1 that by (subst wire_pieces.simps) (auto simp: min_def drop_take)
    have "wire_pieces k False (take (c - k + min k (length (drop k f) - (c - k))) (drop k f)) =
      wire_pieces k False (take (c - k) (drop k f)) @
        [Piece (False \<and> c - k = 0) (take (min k (length (drop k f) - (c - k))) (drop (c - k) (drop k f)))]"
      using 1 kc by (intro 1(1) dv) auto
    moreover have "length (drop k f) - (c - k) = length f - c" "drop (c - k) (drop k f) = drop c f"
      using kc by simp_all
    ultimately show ?thesis
      using False kc by (simp add: step)
  qed
qed

section \<open>The queue as a transport sees it\<close>

text \<open>What a transport relies on: two bands of whole frames, each with a cursor into its oldest frame and
  a mark that the frame's preamble went out; \<open>peek\<close> shows the rest of one oldest frame, and only
  \<open>advance\<close> and \<open>note\<close> move the cursor of the band the view names.\<close>

locale banded_queue =
  fixes inv :: "'q \<Rightarrow> bool"
    and frames :: "bool \<Rightarrow> 'q \<Rightarrow> byte list list"
    and cursor :: "bool \<Rightarrow> 'q \<Rightarrow> nat"
    and primed :: "bool \<Rightarrow> 'q \<Rightarrow> bool"
    and peek :: "'q \<Rightarrow> dh_outq_view option"
    and advance :: "'q \<Rightarrow> dh_outq_view \<Rightarrow> u16 \<Rightarrow> 'q"
    and note_pre :: "'q \<Rightarrow> dh_outq_view \<Rightarrow> 'q"
  assumes empty_band: "inv q \<Longrightarrow> frames b q = [] \<Longrightarrow> cursor b q = 0 \<and> \<not> primed b q"
    and cursor_lt: "inv q \<Longrightarrow> frames b q \<noteq> [] \<Longrightarrow> cursor b q < length (hd (frames b q))"
    and single_flight: "inv q \<Longrightarrow> cursor b q = 0 \<and> \<not> primed b q \<or> cursor (\<not> b) q = 0 \<and> \<not> primed (\<not> b) q"
    and peek_None: "inv q \<Longrightarrow> peek q = None \<longleftrightarrow> (\<forall>b. frames b q = [])"
    and peek_Some: "inv q \<Longrightarrow> peek q = Some v \<Longrightarrow> frames (vw_bulk v) q \<noteq> [] \<and>
        vw_at v = drop (cursor (vw_bulk v) q) (hd (frames (vw_bulk v) q)) \<and>
        unat (vw_remaining v) = length (vw_at v) \<and>
        unat (vw_total v) = length (hd (frames (vw_bulk v) q)) \<and>
        vw_preamble_owed v = (\<not> primed (vw_bulk v) q) \<and>
        cursor (\<not> vw_bulk v) q = 0 \<and> \<not> primed (\<not> vw_bulk v) q"
    and advance: "inv q \<Longrightarrow> frames (vw_bulk v) q \<noteq> [] \<Longrightarrow>
        cursor (\<not> vw_bulk v) q = 0 \<Longrightarrow> \<not> primed (\<not> vw_bulk v) q \<Longrightarrow>
        q' = advance q v n \<Longrightarrow> c = cursor (vw_bulk v) q + unat n \<Longrightarrow>
        inv q' \<and> frames (\<not> vw_bulk v) q' = frames (\<not> vw_bulk v) q \<and>
        cursor (\<not> vw_bulk v) q' = 0 \<and> \<not> primed (\<not> vw_bulk v) q' \<and>
        (if c < length (hd (frames (vw_bulk v) q))
         then frames (vw_bulk v) q' = frames (vw_bulk v) q \<and> cursor (vw_bulk v) q' = c \<and>
           primed (vw_bulk v) q' = primed (vw_bulk v) q
         else frames (vw_bulk v) q' = tl (frames (vw_bulk v) q) \<and> cursor (vw_bulk v) q' = 0 \<and>
           \<not> primed (vw_bulk v) q')"
    and note_pre: "inv q \<Longrightarrow> frames (vw_bulk v) q \<noteq> [] \<Longrightarrow>
        cursor (\<not> vw_bulk v) q = 0 \<Longrightarrow> \<not> primed (\<not> vw_bulk v) q \<Longrightarrow>
        q' = note_pre q v \<Longrightarrow>
        inv q' \<and> frames b q' = frames b q \<and> cursor b q' = cursor b q \<and>
        primed b q' = (b = vw_bulk v \<or> primed b q)"
begin

text \<open>A view is current while its band still holds the frame it was taken from, at the same cursor.\<close>

definition current :: "'q \<Rightarrow> dh_outq_view \<Rightarrow> bool" where
  "current q v =
     (frames (vw_bulk v) q \<noteq> [] \<and> vw_at v = drop (cursor (vw_bulk v) q) (hd (frames (vw_bulk v) q)) \<and>
      unat (vw_remaining v) = length (vw_at v) \<and> unat (vw_total v) = length (hd (frames (vw_bulk v) q)) \<and>
      vw_preamble_owed v = (\<not> primed (vw_bulk v) q) \<and>
      cursor (\<not> vw_bulk v) q = 0 \<and> \<not> primed (\<not> vw_bulk v) q)"

text \<open>Frames \<open>ys b\<close> join band \<open>b\<close> behind what it holds.\<close>

definition extends :: "'q \<Rightarrow> (bool \<Rightarrow> byte list list) \<Rightarrow> 'q \<Rightarrow> bool" where
  "extends q ys q' =
     (inv q' \<and> (\<forall>b. frames b q' = frames b q @ ys b \<and> cursor b q' = cursor b q \<and> primed b q' = primed b q))"

definition part :: "nat \<Rightarrow> bool \<Rightarrow> 'q \<Rightarrow> wire_unit list" where
  "part k b q = (if frames b q = [] then [] else wire_part k (hd (frames b q)) (primed b q) (cursor b q))"

text \<open>The state of a drain: the units \<open>w\<close> on the wire are the frames \<open>done\<close>, whole and one after another,
  and the part of one further frame that has gone; per band the frames accepted are those done and
  then those still queued.\<close>

definition drained ::
  "bool \<Rightarrow> nat \<Rightarrow> 'q \<Rightarrow> (bool \<times> byte list) list \<Rightarrow> wire_unit list \<Rightarrow> (bool \<Rightarrow> byte list list) \<Rightarrow> bool" where
  "drained pre k q done w acc =
     (inv q \<and>
      (\<forall>b. k dvd cursor b q \<and> (if pre then cursor b q > 0 \<longrightarrow> primed b q else \<not> primed b q)) \<and>
      w = concat (map (\<lambda>(b, f). wire_of pre k f) done) @ part k True q @ part k False q \<and>
      (\<forall>b. acc b = map snd (filter (\<lambda>(b', f). b' = b) done) @ frames b q))"

lemma peek_current: "inv q \<Longrightarrow> peek q = Some v \<Longrightarrow> current q v"
  unfolding current_def by (rule peek_Some)

lemma extends_current: "current q v \<Longrightarrow> extends q ys q' \<Longrightarrow> current q' v"
  by (auto simp: current_def extends_def)

lemma part_idle: "cursor b q = 0 \<Longrightarrow> \<not> primed b q \<Longrightarrow> part k b q = []"
  by (simp add: part_def wire_part_def)

lemma extends_part: "inv q \<Longrightarrow> extends q ys q' \<Longrightarrow> part k b q' = part k b q"
  using empty_band [of q b] by (auto simp: part_def extends_def wire_part_def)

lemma drained_extends:
  assumes "drained pre k q done w acc" and "extends q ys q'"
  shows "drained pre k q' done w (\<lambda>b. acc b @ ys b)"
proof -
  have "inv q" using assms(1) by (simp add: drained_def)
  note p = extends_part [OF this assms(2), of k]
  from assms show ?thesis
    unfolding drained_def p by (auto simp: extends_def)
qed

lemma drained_note:
  assumes d: "drained True k q done w acc" and v: "current q v" and "vw_preamble_owed v"
  shows "drained True k (note_pre q v) done (w @ [Preamble (unat (vw_total v))]) acc"
proof -
  define q' where "q' = note_pre q v"
  have n: "inv q' \<and> frames b q' = frames b q \<and> cursor b q' = cursor b q \<and>
      primed b q' = (b = vw_bulk v \<or> primed b q)" for b
    using d v note_pre [OF _ _ _ _ q'_def] by (auto simp: drained_def current_def)
  have c0: "cursor (vw_bulk v) q = 0"
    using d v assms(3) by (auto simp: drained_def current_def)
  have "part k (vw_bulk v) q = []" "part k (\<not> vw_bulk v) q = []" "part k (\<not> vw_bulk v) q' = []"
    "part k (vw_bulk v) q' = [Preamble (unat (vw_total v))]"
    using c0 v assms(3) n by (auto simp: part_def current_def wire_part_def)
  then have "part k True q' @ part k False q' = (part k True q @ part k False q) @ [Preamble (unat (vw_total v))]"
    by (cases "vw_bulk v") auto
  with d n show ?thesis
    unfolding q'_def [symmetric] by (auto simp: drained_def)
qed

lemma drained_advance:
  assumes d: "drained pre k q done w acc" and v: "current q v" and pre: "pre \<Longrightarrow> \<not> vw_preamble_owed v"
    and k: "0 < k" and n: "unat n = min k (unat (vw_remaining v))"
  obtains done' where
    "drained pre k (advance q v n) (done @ done')
       (w @ [Piece (vw_remaining v = vw_total v) (take (unat n) (vw_at v))]) acc"
    and "done' = (if unat n = unat (vw_remaining v) then [(vw_bulk v, hd (frames (vw_bulk v) q))] else [])"
proof -
  define b where "b = vw_bulk v"
  define q' where "q' = advance q v n"
  define f where "f = hd (frames b q)"
  define c where "c = cursor b q"
  define x where "x = Piece (vw_remaining v = vw_total v) (take (unat n) (vw_at v))"
  have invq: "inv q" and dv: "k dvd c" and ne: "frames b q \<noteq> []"
    and idle: "cursor (\<not> b) q = 0" "\<not> primed (\<not> b) q" and pr: "primed b q = pre"
    using d v pre by (auto simp: drained_def current_def b_def c_def split: if_splits)
  have cl: "c < length f" using cursor_lt [OF invq ne] by (simp add: c_def f_def)
  have rem: "unat (vw_remaining v) = length f - c" and tot: "unat (vw_total v) = length f"
    and at: "vw_at v = drop c f"
    using v by (auto simp: current_def b_def c_def f_def)
  have first: "(vw_remaining v = vw_total v) = (c = 0)"
    using rem tot cl by (metis diff_zero unsigned_word_eqI less_imp_le_nat diff_diff_cancel diff_self_eq_0)
  note a = advance [OF invq ne [unfolded b_def] idle [unfolded b_def] q'_def refl, folded b_def, folded f_def c_def]
  have n': "unat n = min k (length f - c)" using n rem by simp
  have snoc: "wire_part k f pre (c + unat n) = wire_part k f pre c @ [x]"
    using wire_pieces_snoc [OF dv cl k, of True] by (simp add: wire_part_def n' x_def first at)
  have parts: "part k True s @ part k False s = part k b s" if "part k (\<not> b) s = []" for s
    using that by (cases b) auto
  have pq: "part k b q = wire_part k f pre c" "part k (\<not> b) q = []" "part k (\<not> b) q' = []"
    using ne idle a pr by (simp_all add: part_def f_def c_def wire_part_def)
  show thesis
  proof (cases "c + unat n < length f")
    case True
    then have "unat n \<noteq> unat (vw_remaining v)" using rem cl by simp
    moreover have "part k b q' = wire_part k f pre (c + unat n)"
      using a True ne pr by (simp add: part_def f_def)
    moreover have "k dvd c + unat n"
      using dv True n' by (simp add: min_def split: if_splits)
    moreover have eq: "frames e q' = frames e q" "primed e q' = primed e q" 
      "cursor e q' = (if e = b then c + unat n else 0)" "cursor (\<not> b) q' = 0" for e
      using a True idle by (cases e; cases b; simp add: c_def)+
    ultimately have "drained pre k q' (done @ []) (w @ [x]) acc"
      using d a parts [OF pq(2)] parts [OF pq(3)] pq(1) snoc pr
      by (auto simp: drained_def split: if_splits)
    then show ?thesis
      using that [of "[]"] \<open>unat n \<noteq> _\<close> by (simp add: q'_def x_def)
  next
    case False
    then have n_rem: "unat n = unat (vw_remaining v)" "c + unat n = length f" using rem cl n' by auto
    have q': "cursor e q' = 0" "\<not> primed e q'" for e
      using a False by (cases e; cases b; simp)+
    have fr: "frames b q = f # frames b q'" "frames (\<not> b) q' = frames (\<not> b) q"
      using a False ne by (simp_all add: f_def)
    have acc: "map snd (filter (\<lambda>(b', f). b' = e) (done @ [(b, f)])) @ frames e q' =
        map snd (filter (\<lambda>(b', f). b' = e) done) @ frames e q" for e
      using fr by (cases e; cases b; simp)
    have "drained pre k q' (done @ [(b, f)]) (w @ [x]) acc"
      using d a parts [OF pq(2)] pq(1) snoc pr acc n_rem(2) q' pre v
      by (simp add: drained_def wire_of_def part_idle)
    then show ?thesis
      using that [of "[(b, f)]"] n_rem by (simp add: q'_def x_def b_def f_def)
  qed
qed

definition band_backlog :: "bool \<Rightarrow> 'q \<Rightarrow> nat" where
  "band_backlog b q =
     sum_list (map (\<lambda>f. Suc (length f)) (frames b q)) - (cursor b q + (if primed b q then 1 else 0))"

text \<open>What a transport still owes: the units of work left in both bands.\<close>

definition backlog :: "'q \<Rightarrow> nat" where
  "backlog q = band_backlog True q + band_backlog False q"

lemma backlog_split: "backlog q = band_backlog b q + band_backlog (\<not> b) q"
  by (cases b) (simp_all add: backlog_def)

lemma band_backlog_busy:
  assumes "inv q" and "frames b q = f # fs"
  shows "band_backlog b q = (length f - cursor b q) + (if primed b q then 0 else 1) +
    sum_list (map (\<lambda>f. Suc (length f)) fs)"
  using cursor_lt [OF assms(1), of b] assms(2) by (simp add: band_backlog_def)

lemma backlog_note:
  assumes "inv q" and v: "current q v" and "vw_preamble_owed v"
  shows "backlog (note_pre q v) < backlog q"
proof -
  define q' where "q' = note_pre q v"
  obtain f fs where f: "frames (vw_bulk v) q = f # fs"
    using v by (cases "frames (vw_bulk v) q") (auto simp: current_def)
  have n: "inv q' \<and> frames b q' = frames b q \<and> cursor b q' = cursor b q \<and>
      primed b q' = (b = vw_bulk v \<or> primed b q)" for b
    using assms note_pre [OF assms(1) _ _ _ q'_def] by (simp add: current_def)
  have "\<not> primed (vw_bulk v) q" using v assms(3) by (simp add: current_def)
  then have "band_backlog (vw_bulk v) q' < band_backlog (vw_bulk v) q"
    using n f band_backlog_busy [OF assms(1) f] band_backlog_busy [of q' "vw_bulk v" f fs] by simp
  moreover have "band_backlog (\<not> vw_bulk v) q' = band_backlog (\<not> vw_bulk v) q"
    using n by (simp add: band_backlog_def)
  ultimately show ?thesis
    by (simp add: q'_def [symmetric] backlog_split [of _ "vw_bulk v"])
qed

lemma backlog_advance:
  assumes "inv q" and v: "current q v" and n: "0 < unat n"
  shows "backlog (advance q v n) < backlog q"
proof -
  define b where "b = vw_bulk v"
  define q' where "q' = advance q v n"
  obtain f fs where f: "frames b q = f # fs"
    using v by (cases "frames b q") (auto simp: current_def b_def)
  have ne: "frames b q \<noteq> []" and idle: "cursor (\<not> b) q = 0" "\<not> primed (\<not> b) q"
    using f v by (simp_all add: current_def b_def)
  note a = advance [OF assms(1) ne [unfolded b_def] idle [unfolded b_def] q'_def refl, folded b_def]
  have c: "cursor b q < length f" using cursor_lt [OF assms(1) ne] f by simp
  have "band_backlog (\<not> b) q' = band_backlog (\<not> b) q"
    using a idle by (simp add: band_backlog_def)
  moreover have "band_backlog b q' < band_backlog b q"
  proof (cases "cursor b q + unat n < length f")
    case True
    then have "frames b q' = f # fs" using a f by simp
    then show ?thesis
      using band_backlog_busy [OF assms(1) f] band_backlog_busy [of q' b f fs] a True n f c by auto
  next
    case False
    then have "band_backlog b q' = sum_list (map (\<lambda>f. Suc (length f)) fs)"
      using a f by (simp add: band_backlog_def)
    then show ?thesis using band_backlog_busy [OF assms(1) f] c by simp
  qed
  ultimately show ?thesis
    by (simp add: q'_def [symmetric] backlog_split [of _ b])
qed

end


section \<open>The outbound queue is a banded queue\<close>

definition oq_lane :: "bool \<Rightarrow> dh_outq \<Rightarrow> lane" where
  "oq_lane b q = (if b then oq_bulk q else oq_priority q)"

definition oq_frames :: "bool \<Rightarrow> dh_outq \<Rightarrow> byte list list" where
  "oq_frames b q = (if b then outq_bulk q else outq_priority q)"

definition oq_cursor :: "bool \<Rightarrow> dh_outq \<Rightarrow> nat" where
  "oq_cursor b q = unat (bd_sent (ln_band (oq_lane b q)))"

definition oq_primed :: "bool \<Rightarrow> dh_outq \<Rightarrow> bool" where
  "oq_primed b q = bd_preamble_done (ln_band (oq_lane b q))"

definition oq_cap :: "bool \<Rightarrow> nat" where
  "oq_cap b = (if b then DH_FRAME_MAX_SIZE else DH_OUTQ_PRIORITY_MAX)"

definition oq_slot :: "bool \<Rightarrow> nat" where
  "oq_slot b = (if b then DH_OUTQ_STAGE_MAX else DH_OUTQ_PRIORITY_MAX)"

definition oq_depth :: "bool \<Rightarrow> nat" where
  "oq_depth b = (if b then DH_OUTQ_DEPTH else DH_OUTQ_PRIORITY_DEPTH)"

lemma oq_dims: "oq_slot b \<le> oq_cap b" "oq_cap b < 65536" "0 < oq_depth b" "oq_depth b < 4" "oq_slot b < 65536"
  by (simp_all add: oq_slot_def oq_cap_def oq_depth_def)

lemma oq_frames_lane: "oq_frames b q = lane_frames (oq_depth b) (oq_lane b q)"
  by (simp add: oq_frames_def oq_depth_def oq_lane_def)

definition oq_set :: "bool \<Rightarrow> lane \<Rightarrow> dh_outq \<Rightarrow> dh_outq" where
  "oq_set b l q = (if b then q\<lparr>oq_bulk := l\<rparr> else q\<lparr>oq_priority := l\<rparr>)"

lemma oq_lane_set [simp]: "oq_lane b (oq_set b' l q) = (if b = b' then l else oq_lane b q)"
  by (simp add: oq_lane_def oq_set_def)

lemma outq_inv_lane: "outq_inv q \<Longrightarrow> lane_inv (oq_cap b) (oq_slot b) (oq_depth b) (oq_lane b q)"
  by (simp add: outq_inv_def oq_cap_def oq_slot_def oq_depth_def oq_lane_def)

lemma outq_invI:
  assumes "\<And>b. lane_inv (oq_cap b) (oq_slot b) (oq_depth b) (oq_lane b q)"
    and "\<not> (band_in_flight (ln_band (oq_lane b q)) \<and> band_in_flight (ln_band (oq_lane (\<not> b) q)))"
  shows "outq_inv q"
  using assms(1) [of True] assms(1) [of False] assms(2)
  by (cases b) (auto simp: outq_inv_def oq_cap_def oq_slot_def oq_depth_def oq_lane_def)

lemma dh_outq_advance_lane:
  "dh_outq_advance q v n =
     (let b = vw_bulk v; l = oq_lane b q; l' = lane_sent l n in
      if bd_len (ln_band l) = 0 then q
      else if bd_sent (ln_band l') < bd_len (ln_band l') then oq_set b l' q
      else oq_set b (lane_promote (oq_depth b) l') q)"
  by (simp add: dh_outq_advance_def oq_lane_def oq_set_def oq_depth_def Let_def promote_def
      promote_priority_def)

lemma dh_outq_note_lane:
  "dh_outq_note_preamble q v =
     (let b = vw_bulk v; l = oq_lane b q in
      if bd_len (ln_band l) = 0 then q
      else oq_set b (l\<lparr>ln_band := (ln_band l)\<lparr>bd_preamble_done := True\<rparr>\<rparr>) q)"
  by (simp add: dh_outq_note_preamble_def oq_lane_def oq_set_def Let_def)

lemma oq_idle_iff:
  assumes "outq_inv q"
  shows "(oq_cursor b q = 0 \<and> \<not> oq_primed b q) = (\<not> band_in_flight (ln_band (oq_lane b q)))"
  using outq_inv_lane [OF assms, of b]
  by (auto simp: oq_cursor_def oq_primed_def band_in_flight_def lane_inv_def word_gt_0 unat_eq_zero
      split: if_splits)

lemma oq_frames_Nil: "outq_inv q \<Longrightarrow> oq_frames b q = [] \<longleftrightarrow> bd_len (ln_band (oq_lane b q)) = 0"
  unfolding oq_frames_lane by (rule lane_frames_Nil_iff [OF outq_inv_lane])

lemma oq_hd_frames:
  "oq_frames b q \<noteq> [] \<Longrightarrow> outq_inv q \<Longrightarrow> hd (oq_frames b q) = lane_flight (oq_lane b q)"
  using oq_frames_Nil [of q b] by (simp add: oq_frames_lane lane_frames_busy)

lemma oq_cursor_lt:
  assumes "outq_inv q" and "oq_frames b q \<noteq> []"
  shows "oq_cursor b q < length (hd (oq_frames b q))"
  using outq_inv_lane [OF assms(1), of b] assms oq_frames_Nil [of q b]
  by (auto simp: oq_hd_frames lane_len [OF outq_inv_lane [OF assms(1)]] oq_cursor_def lane_inv_def word_less_unat)

lemma peek_lane:
  "dh_outq_peek q = Some v \<Longrightarrow> v = lane_view (vw_bulk v) (oq_lane (vw_bulk v) q) \<and>
     bd_len (ln_band (oq_lane (vw_bulk v) q)) \<noteq> 0"
  by (auto simp: dh_outq_peek_def owed_band_def lane_view_def oq_lane_def band_in_flight_def word_gt_0
      split: if_splits)

lemma oq_peek_other:
  assumes "outq_inv q" and "dh_outq_peek q = Some v"
  shows "\<not> band_in_flight (ln_band (oq_lane (\<not> vw_bulk v) q))"
  using assms by (auto simp: dh_outq_peek_def owed_band_def lane_view_def oq_lane_def outq_inv_def
      band_in_flight_def split: if_splits)

lemma oq_peek_Some:
  assumes inv: "outq_inv q" and pk: "dh_outq_peek q = Some v"
  shows "oq_frames (vw_bulk v) q \<noteq> [] \<and>
        vw_at v = drop (oq_cursor (vw_bulk v) q) (hd (oq_frames (vw_bulk v) q)) \<and>
        unat (vw_remaining v) = length (vw_at v) \<and>
        unat (vw_total v) = length (hd (oq_frames (vw_bulk v) q)) \<and>
        vw_preamble_owed v = (\<not> oq_primed (vw_bulk v) q) \<and>
        oq_cursor (\<not> vw_bulk v) q = 0 \<and> \<not> oq_primed (\<not> vw_bulk v) q"
proof -
  define b where "b = vw_bulk v"
  note L = outq_inv_lane [OF inv, of b]
  have v: "v = lane_view b (oq_lane b q)" and len: "bd_len (ln_band (oq_lane b q)) \<noteq> 0"
    using peek_lane [OF pk] by (auto simp: b_def)
  have ne: "oq_frames b q \<noteq> []" using len oq_frames_Nil [OF inv] by simp
  have at: "vw_at v = drop (oq_cursor b q) (lane_flight (oq_lane b q))"
    by (simp add: v lane_view_def oq_cursor_def lane_flight_def)
  have "unat (bd_sent (ln_band (oq_lane b q))) < unat (bd_len (ln_band (oq_lane b q)))"
    using L len by (auto simp: lane_inv_def word_less_unat)
  then have rem: "unat (vw_remaining v) = length (vw_at v)"
    by (simp add: at lane_len [OF L]) (simp add: v lane_view_def oq_cursor_def word_conv)
  show ?thesis
    using ne at rem oq_hd_frames [OF ne inv] lane_len [OF L] oq_peek_other [OF inv pk] oq_idle_iff [OF inv, of "\<not> b"]
    unfolding b_def [symmetric]
    by (simp add: v lane_view_def oq_primed_def)
qed

lemma oq_advance:
  assumes inv: "outq_inv q" and ne: "oq_frames (vw_bulk v) q \<noteq> []"
    and idle: "oq_cursor (\<not> vw_bulk v) q = 0" "\<not> oq_primed (\<not> vw_bulk v) q"
    and q': "q' = dh_outq_advance q v n" and c: "c = oq_cursor (vw_bulk v) q + unat n"
  shows "outq_inv q' \<and> oq_frames (\<not> vw_bulk v) q' = oq_frames (\<not> vw_bulk v) q \<and>
        oq_cursor (\<not> vw_bulk v) q' = 0 \<and> \<not> oq_primed (\<not> vw_bulk v) q' \<and>
        (if c < length (hd (oq_frames (vw_bulk v) q))
         then oq_frames (vw_bulk v) q' = oq_frames (vw_bulk v) q \<and> oq_cursor (vw_bulk v) q' = c \<and>
           oq_primed (vw_bulk v) q' = oq_primed (vw_bulk v) q
         else oq_frames (vw_bulk v) q' = tl (oq_frames (vw_bulk v) q) \<and> oq_cursor (vw_bulk v) q' = 0 \<and>
           \<not> oq_primed (vw_bulk v) q')"
proof -
  define b where "b = vw_bulk v"
  define l where "l = oq_lane b q"
  note L = outq_inv_lane [OF inv, of b, folded l_def]
  have len: "bd_len (ln_band l) \<noteq> 0" using ne oq_frames_Nil [OF inv] by (simp add: l_def b_def)
  have hd: "length (hd (oq_frames b q)) = unat (bd_len (ln_band l))"
    using oq_hd_frames [OF ne inv] lane_len [OF L] by (simp add: b_def l_def)
  have sent: "unat (bd_sent (ln_band (lane_sent l n))) = min c (unat (bd_len (ln_band l)))"
    using lane_sent_eq [OF L len, of n] c by (simp add: oq_cursor_def l_def b_def)
  have other: "\<not> band_in_flight (ln_band (oq_lane (\<not> b) q))"
    using idle oq_idle_iff [OF inv, of "\<not> b"] by (simp add: b_def)
  show ?thesis
  proof (cases "c < unat (bd_len (ln_band l))")
    case True
    then have lt: "bd_sent (ln_band (lane_sent l n)) < bd_len (ln_band l)"
      using sent by (simp add: word_less_unat)
    then have q'b: "q' = oq_set b (lane_sent l n) q"
      using len by (simp add: q' dh_outq_advance_lane Let_def l_def [symmetric] b_def [symmetric])
    have "outq_inv q'"
      using outq_inv_lane [OF inv] lane_sent_inv [OF L len lt] other
      by (intro outq_invI [of _ b]) (auto simp: q'b)
    then show ?thesis
      using True hd sent idle
      by (simp add: b_def [symmetric] q'b oq_frames_lane oq_cursor_def oq_primed_def
          l_def [symmetric] lane_frames_def)
  next
    case False
    then have "\<not> bd_sent (ln_band (lane_sent l n)) < bd_len (ln_band l)"
      using sent by (simp add: word_less_unat)
    then have q'b: "q' = oq_set b (lane_promote (oq_depth b) (lane_sent l n)) q"
      using len by (simp add: q' dh_outq_advance_lane Let_def l_def [symmetric] b_def [symmetric])
    note fin = lane_finish_inv [OF L len oq_dims(1-4), of n]
    have inv': "outq_inv q'"
      using outq_inv_lane [OF inv] fin other
      by (intro outq_invI [of _ b]) (auto simp: q'b)
    have "oq_cursor b q' = 0 \<and> \<not> oq_primed b q'"
      using oq_idle_iff [OF inv', of b] fin(3) by (simp add: q'b)
    then show ?thesis
      using False hd sent idle fin(2) inv'
      by (simp add: b_def [symmetric] q'b oq_frames_lane oq_cursor_def oq_primed_def l_def [symmetric])
  qed
qed

lemma oq_note:
  assumes inv: "outq_inv q" and ne: "oq_frames (vw_bulk v) q \<noteq> []"
    and idle: "oq_cursor (\<not> vw_bulk v) q = 0" "\<not> oq_primed (\<not> vw_bulk v) q"
    and q': "q' = dh_outq_note_preamble q v"
  shows "outq_inv q' \<and> oq_frames b q' = oq_frames b q \<and> oq_cursor b q' = oq_cursor b q \<and>
    oq_primed b q' = (b = vw_bulk v \<or> oq_primed b q)"
proof -
  define e where "e = vw_bulk v"
  define l where "l = (oq_lane e q)\<lparr>ln_band := (ln_band (oq_lane e q))\<lparr>bd_preamble_done := True\<rparr>\<rparr>"
  have len: "bd_len (ln_band (oq_lane e q)) \<noteq> 0" using ne oq_frames_Nil [OF inv] by (simp add: e_def)
  then have q'e: "q' = oq_set e l q" by (simp add: q' dh_outq_note_lane Let_def e_def l_def)
  have other: "\<not> band_in_flight (ln_band (oq_lane (\<not> e) q))"
    using idle oq_idle_iff [OF inv, of "\<not> e"] by (simp add: e_def)
  have "outq_inv q'"
    using outq_inv_lane [OF inv] lane_preamble_inv [OF len] other
    by (intro outq_invI [of _ e]) (auto simp: q'e l_def)
  then show ?thesis
    by (auto simp: q'e oq_frames_lane oq_cursor_def oq_primed_def l_def lane_preamble_frames
        e_def [symmetric])
qed

interpretation oq: banded_queue outq_inv oq_frames oq_cursor oq_primed dh_outq_peek dh_outq_advance
  dh_outq_note_preamble
proof
  fix q b assume inv: "outq_inv q"
  show "oq_cursor b q = 0 \<and> \<not> oq_primed b q" if "oq_frames b q = []"
    using that oq_frames_Nil [OF inv] oq_idle_iff [OF inv, of b] by (simp add: band_in_flight_def)
  show "oq_cursor b q = 0 \<and> \<not> oq_primed b q \<or> oq_cursor (\<not> b) q = 0 \<and> \<not> oq_primed (\<not> b) q"
    using inv unfolding oq_idle_iff [OF inv] by (cases b) (auto simp: outq_inv_def oq_lane_def)
  show "dh_outq_peek q = None \<longleftrightarrow> (\<forall>b. oq_frames b q = [])"
    unfolding oq_frames_Nil [OF inv]
    by (auto simp: dh_outq_peek_def owed_band_def oq_lane_def band_in_flight_def word_gt_0
        split: if_splits)
qed (rule oq_cursor_lt oq_peek_Some oq_advance oq_note; assumption)+

section \<open>Offers\<close>

text \<open>What an accepted offer adds to each band, and what a refused one adds: nothing.\<close>

definition offered :: "byte list \<Rightarrow> dh_outq_result \<Rightarrow> bool \<Rightarrow> byte list list" where
  "offered f rc b =
     (case frame_whole f of
        Some h \<Rightarrow> if rc = DH_OUTQ_OK \<and> b = dh_msg_is_bulk (fh_type h) then [f] else []
      | None \<Rightarrow> [])"

lemma oq_cursor_cong:
  assumes inv: "outq_inv q" "outq_inv q'"
    and same: "bd_len (ln_band (oq_lane b q)) \<noteq> 0 \<Longrightarrow> ln_band (oq_lane b q') = ln_band (oq_lane b q)"
    and new: "bd_len (ln_band (oq_lane b q)) = 0 \<Longrightarrow> \<not> band_in_flight (ln_band (oq_lane b q'))"
  shows "oq_cursor b q' = oq_cursor b q \<and> oq_primed b q' = oq_primed b q"
proof (cases "bd_len (ln_band (oq_lane b q)) = 0")
  case True
  then have "\<not> band_in_flight (ln_band (oq_lane b q))" by (simp add: band_in_flight_def)
  with new [OF True] show ?thesis
    using oq_idle_iff [OF inv(1), of b] oq_idle_iff [OF inv(2), of b] by simp
next
  case False
  from same [OF this] show ?thesis by (simp add: oq_cursor_def oq_primed_def)
qed

lemma offer_new_band:
  assumes "dh_outq_offer q f = (q', rc)" and "bd_len (ln_band (oq_lane b q)) = 0"
  shows "\<not> band_in_flight (ln_band (oq_lane b q'))"
proof -
  have "\<not> band_in_flight (ln_band (lane_put l f))" for l
    by (simp add: band_in_flight_def lane_put_def band_clear_def)
  with assms show ?thesis
    by (cases b)
       (auto simp: dh_outq_offer_def oq_lane_def refuse_bad_header_def refuse_priority_def
         refuse_bulk_def band_in_flight_def [of "ln_band (oq_bulk q)"]
         band_in_flight_def [of "ln_band (oq_priority q)"] split: option.splits if_splits)
qed

lemma offer_extends:
  assumes inv: "outq_inv q" and off: "dh_outq_offer q f = (q', rc)"
  shows "oq.extends q (offered f rc) q'"
proof -
  note lem = outq_offer_lemma [OF assms]
  have "oq_frames b q' = oq_frames b q @ offered f rc b" for b
    using lem(2) by (auto simp: offer_effect_def offered_def oq_frames_def split: if_splits option.splits)
  moreover have "oq_cursor b q' = oq_cursor b q \<and> oq_primed b q' = oq_primed b q" for b
    using lem(3,4) offer_new_band [OF off, of b]
    by (intro oq_cursor_cong [OF inv lem(1)]) (auto simp: oq_lane_def)
  ultimately show ?thesis
    using lem(1) by (simp add: oq.extends_def)
qed

text \<open>Both frames of a pair, or neither.\<close>

lemma pair_lane:
  assumes inv: "lane_inv cap cap 1 l" and free: "bd_len (ln_band l) = 0"
    and f: "f \<noteq> []" "length f \<le> cap" and g: "g \<noteq> []" "length g \<le> cap" and cap: "cap < 65536"
    and l': "l' = (lane_put l f)\<lparr>ln_stage := (ln_stage l)[0 := blit (ln_stage l ! 0) 0 g],
      ln_stage_len := (ln_stage_len l)[0 := of_nat (length g)], ln_first := 0, ln_used := 1\<rparr>"
  shows "lane_inv cap cap 1 l'" and "lane_frames 1 l' = [f, g]" and "\<not> band_in_flight (ln_band l')"
proof -
  have l0: "ln_first l = 0" "ln_used l = 0"
    using inv free by (auto simp: lane_inv_def unat_eq_zero)
  have eq: "l' = lane_queue 1 (lane_put l f) g"
    using l0 by (simp add: l' lane_queue_def Let_def lane_put_def)
  note p = lane_put_inv [OF inv free f cap]
  have nz: "bd_len (ln_band (lane_put l f)) \<noteq> 0"
    using lane_frames_Nil_iff [OF p(1)] p(2) by simp
  have "unat (ln_used (lane_put l f)) < 1" using l0 by (simp add: lane_put_def)
  note q = lane_queue_inv [OF p(1) nz this g cap]
  show "lane_inv cap cap 1 l'" "lane_frames 1 l' = [f, g]" "\<not> band_in_flight (ln_band l')"
    unfolding eq using q p by simp_all
qed

definition pair_offered :: "byte list \<Rightarrow> byte list \<Rightarrow> dh_outq_result \<Rightarrow> bool \<Rightarrow> byte list list" where
  "pair_offered f g rc b = (if rc = DH_OUTQ_OK \<and> \<not> b then [f, g] else [])"

lemma refuse_inv [simp]:
  "outq_inv (refuse_priority q) = outq_inv q" "outq_inv (refuse_bad_header q) = outq_inv q"
  "oq_lane b (refuse_priority q) = oq_lane b q" "oq_lane b (refuse_bad_header q) = oq_lane b q"
  by (simp_all add: outq_inv_def refuse_priority_def refuse_bad_header_def oq_lane_def)

lemma offer_pair_cases:
  assumes "dh_outq_offer_pair q f g = (q', rc)"
  obtains "rc \<noteq> DH_OUTQ_OK" and "q' = refuse_bad_header q \<or> q' = refuse_priority q"
  | "rc = DH_OUTQ_OK" and "f \<noteq> []" and "g \<noteq> []" and "length f \<le> 128" and "length g \<le> 128"
    and "\<not> dh_outq_pair_busy q"
    and "q' = oq_set False ((lane_put (oq_priority q) f)\<lparr>
        ln_stage := (ln_stage (oq_priority q))[0 := blit (ln_stage (oq_priority q) ! 0) 0 g],
        ln_stage_len := (ln_stage_len (oq_priority q))[0 := of_nat (length g)], ln_first := 0, ln_used := 1\<rparr>) q"
  using assms frame_whole_length [of f] frame_whole_length [of g]
  by (auto simp: dh_outq_offer_pair_def Let_def oq_set_def lane_put_def split: option.splits if_splits)

lemma offer_pair_extends:
  assumes inv: "outq_inv q" and off: "dh_outq_offer_pair q f g = (q', rc)"
  shows "oq.extends q (pair_offered f g rc) q'"
  using off
proof (cases rule: offer_pair_cases)
  case 1
  then show ?thesis using inv
    by (auto simp: oq.extends_def pair_offered_def oq_frames_lane oq_cursor_def oq_primed_def)
next
  case 2
  have P: "lane_inv 128 128 1 (oq_priority q)" using inv by (simp add: outq_inv_def)
  have free: "bd_len (ln_band (oq_priority q)) = 0"
    and bulk: "\<not> band_in_flight (ln_band (oq_bulk q))"
    using 2(6) by (auto simp: dh_outq_pair_busy_def word_gt_0)
  define l' where "l' = (lane_put (oq_priority q) f)\<lparr>
        ln_stage := (ln_stage (oq_priority q))[0 := blit (ln_stage (oq_priority q) ! 0) 0 g],
        ln_stage_len := (ln_stage_len (oq_priority q))[0 := of_nat (length g)], ln_first := 0, ln_used := 1\<rparr>"
  have q': "q' = oq_set False l' q" using 2(7) by (simp add: l'_def)
  have cap: "(128 :: nat) < 65536" by simp
  note pl = pair_lane [OF P free 2(2,4,3,5) cap l'_def]
  have inv': "outq_inv q'"
    using inv pl(1,3) bulk by (simp add: q' outq_inv_def oq_set_def)
  have "oq_frames b q' = oq_frames b q @ pair_offered f g rc b" for b
    using pl(2) oq_frames_Nil [OF inv, of False] free 2(1)
    by (cases b) (simp_all add: oq_frames_lane pair_offered_def q' oq_depth_def oq_lane_def oq_set_def)
  moreover have "oq_cursor b q' = oq_cursor b q \<and> oq_primed b q' = oq_primed b q" for b
    using free pl(3) by (intro oq_cursor_cong [OF inv inv']; cases b) (simp_all add: q' oq_lane_def [of _ q] band_in_flight_def [of "ln_band (oq_bulk q)"])
  ultimately show ?thesis
    using inv' by (simp add: oq.extends_def)
qed

lemma oq_lane_init: "oq_lane b dh_outq_init = empty_lane (oq_cap b) (oq_slot b) (oq_depth b)"
  by (simp add: oq_lane_def dh_outq_init_def oq_cap_def oq_slot_def oq_depth_def)

lemma outq_init: "outq_inv dh_outq_init" "oq_frames b dh_outq_init = []"
proof -
  show "outq_inv dh_outq_init"
    using empty_lane_inv(1) [OF oq_dims(3)]
    by (intro outq_invI [of _ True]) (simp_all add: oq_lane_init, simp add: empty_lane_def band_clear_def band_in_flight_def)
  show "oq_frames b dh_outq_init = []"
    unfolding oq_frames_lane oq_lane_init by (rule empty_lane_inv)
qed

lemma oq_lane_reset: "oq_lane b (dh_outq_reset q) = oq_lane b dh_outq_init"
  by (simp add: oq_lane_def dh_outq_reset_def)

lemma outq_reset: "outq_inv (dh_outq_reset q)" "oq_frames b (dh_outq_reset q) = []"
  using outq_init(1) outq_init(2) [of b]
  by (simp_all add: dh_outq_reset_def outq_inv_def oq_frames_lane oq_lane_reset [unfolded dh_outq_reset_def])

lemma oq_drained_init:
  "0 < k \<Longrightarrow> oq.drained pre k dh_outq_init [] [] (\<lambda>b. [])"
  using oq.empty_band [OF outq_init] outq_init
  by (simp add: oq.drained_def oq.part_def)

section \<open>Properties\<close>

lemma lane_count:
  "lane_inv cap slot depth l \<Longrightarrow>
   length (lane_frames depth l) = (if bd_len (ln_band l) = 0 then 0 else Suc (unat (ln_used l)))"
  by (auto simp: lane_inv_def lane_frames_def lane_queued_def)

definition outq_room :: "dh_outq \<Rightarrow> byte list \<Rightarrow> bool" where
  "outq_room q f =
     (case frame_whole f of
        None \<Rightarrow> False
      | Some h \<Rightarrow>
          if dh_msg_is_bulk (fh_type h)
          then oq_frames True q = [] \<or> length f \<le> DH_OUTQ_STAGE_MAX \<and> length (oq_frames True q) \<le> DH_OUTQ_DEPTH
          else length f \<le> DH_OUTQ_PRIORITY_MAX \<and> length (oq_frames False q) \<le> DH_OUTQ_PRIORITY_DEPTH)"

lemma offer_ok_iff:
  assumes inv: "outq_inv q" and off: "dh_outq_offer q f = (q', rc)"
  shows "rc = DH_OUTQ_OK \<longleftrightarrow> outq_room q f"
    and "oq_refused q' = (if rc = DH_OUTQ_OK then oq_refused q else sat_inc (oq_refused q))"
proof -
  note T = lane_count [OF outq_inv_lane [OF inv, of True], folded oq_frames_lane]
  note F = lane_count [OF outq_inv_lane [OF inv, of False], folded oq_frames_lane]
  show "rc = DH_OUTQ_OK \<longleftrightarrow> outq_room q f"
    using off T F oq_frames_Nil [OF inv, of True]
    by (auto simp: dh_outq_offer_def outq_room_def oq_lane_def word_gt_0 split: option.splits if_splits)
  show "oq_refused q' = (if rc = DH_OUTQ_OK then oq_refused q else sat_inc (oq_refused q))"
    using off by (auto simp: dh_outq_offer_def refuse_bad_header_def refuse_priority_def refuse_bulk_def
        split: option.splits if_splits)
qed

text \<open>An offer is accepted exactly when the frame is whole and its band has room: a bulk frame when
  the bulk band is empty or the frame fits a stage slot and at most the ring is occupied, a priority
  frame of at most 128 bytes when at most one frame is held. An accepted frame joins the end of its band
  and nothing else changes; a refused one changes no band and is counted once, saturating. Neither
  moves the cursor or the preamble mark of a frame in flight, and the queue invariant holds after.\<close>

theorem outq_offer_exact:
  assumes "outq_inv q" and "dh_outq_offer q f = (q', rc)"
  shows "outq_inv q' \<and> (rc = DH_OUTQ_OK \<longleftrightarrow> outq_room q f) \<and>
    (\<forall>b. oq_frames b q' = oq_frames b q @ offered f rc b \<and>
      oq_cursor b q' = oq_cursor b q \<and> oq_primed b q' = oq_primed b q) \<and>
    oq_refused q' = (if rc = DH_OUTQ_OK then oq_refused q else sat_inc (oq_refused q))"
  using offer_extends [OF assms] offer_ok_iff [OF assms] by (simp add: oq.extends_def)

lemma outq_init_room: "outq_room dh_outq_init [0x20, 0, 1, 0, 9]"
  using outq_init(2)
  by (simp add: outq_room_def frame_whole_def dh_frame_header_parse_def dh_msg_type_known_def dh_msg_types_def
      of_le16_def dh_msg_is_bulk_def)

theorem outq_offer_exact_witness:
  "outq_inv dh_outq_init \<and> snd (dh_outq_offer dh_outq_init [0x20, 0, 1, 0, 9]) = DH_OUTQ_OK \<and>
   oq_frames False (fst (dh_outq_offer dh_outq_init [0x20, 0, 1, 0, 9])) = [[0x20, 0, 1, 0, 9]]"
proof -
  note x = outq_offer_exact [OF outq_init(1) prod.collapse [symmetric], of "[0x20, 0, 1, 0, 9]"]
  from x outq_init_room have "snd (dh_outq_offer dh_outq_init [0x20, 0, 1, 0, 9]) = DH_OUTQ_OK" by simp
  with x outq_init show ?thesis
    by (simp add: offered_def frame_whole_def dh_frame_header_parse_def dh_msg_type_known_def dh_msg_types_def
        of_le16_def dh_msg_is_bulk_def)
qed

text \<open>A pair enters the priority band whole, first frame before second, or not at all; it is only
  accepted when the priority band is empty and no bulk frame is in flight, so nothing separates the two
  on the wire. Every refusal is counted once.\<close>

theorem outq_pair_atomic:
  assumes "outq_inv q" and "dh_outq_offer_pair q f g = (q', rc)"
  shows "outq_inv q' \<and> oq_frames True q' = oq_frames True q \<and>
    (if rc = DH_OUTQ_OK
     then oq_frames False q = [] \<and> oq_frames False q' = [f, g] \<and>
       oq_cursor True q = 0 \<and> \<not> oq_primed True q \<and>
       (\<exists>v. dh_outq_peek q' = Some v \<and> \<not> vw_bulk v \<and> vw_at v = f) \<and> oq_refused q' = oq_refused q
     else oq_frames False q' = oq_frames False q \<and> oq_refused q' = sat_inc (oq_refused q))"
proof -
  note ext = offer_pair_extends [OF assms]
  have e: "outq_inv q'" "oq_frames b q' = oq_frames b q @ pair_offered f g rc b"
      "oq_cursor b q' = oq_cursor b q" "oq_primed b q' = oq_primed b q" for b
    using ext by (auto simp: oq.extends_def)
  show ?thesis
    using assms(2)
  proof (cases rule: offer_pair_cases)
    case 1
    then show ?thesis
      using e(1) e(2) [of True] e(2) [of False]
      by (auto simp: pair_offered_def refuse_bad_header_def refuse_priority_def)
  next
    case 2
    have idle: "oq_cursor True q = 0 \<and> \<not> oq_primed True q" and n: "oq_frames False q = []"
      using 2(6) oq_frames_Nil [OF assms(1), of False] oq_idle_iff [OF assms(1), of True]
      by (simp_all add: dh_outq_pair_busy_def word_gt_0 oq_lane_def)
    have fr: "oq_frames False q' = [f, g]" using e(2) [of False] n 2(1) by (simp add: pair_offered_def)
    obtain v where v: "dh_outq_peek q' = Some v" using oq.peek_None [OF e(1)] fr by fastforce
    have "owed_band q' = BAND_PRIORITY"
      using idle fr e oq_idle_iff [OF e(1), of True] oq_frames_Nil [OF e(1), of False]
      by (simp add: owed_band_def oq_lane_def word_gt_0)
    with v have nb: "\<not> vw_bulk v" by (auto simp: dh_outq_peek_def lane_view_def)
    have "oq_cursor False q' = 0" using e(3) [of False] oq.empty_band [OF assms(1) n] by simp
    with oq.peek_Some [OF e(1) v] nb fr have "vw_at v = f" by simp
    moreover have "oq_refused q' = oq_refused q" using 2(7) by (simp add: oq_set_def)
    ultimately show ?thesis
      using e(1) e(2) [of True] fr n idle v nb 2(1) by (simp add: pair_offered_def)
  qed
qed

theorem outq_pair_atomic_witness:
  "snd (dh_outq_offer_pair dh_outq_init [0x20, 0, 1, 0, 9] [5, 0, 0, 0]) = DH_OUTQ_OK \<and>
   oq_frames False (fst (dh_outq_offer_pair dh_outq_init [0x20, 0, 1, 0, 9] [5, 0, 0, 0])) =
     [[0x20, 0, 1, 0, 9], [5, 0, 0, 0]]"
proof -
  have "snd (dh_outq_offer_pair dh_outq_init [0x20, 0, 1, 0, 9] [5, 0, 0, 0]) = DH_OUTQ_OK"
    by (simp add: dh_outq_offer_pair_def Let_def frame_whole_def dh_frame_header_parse_def dh_msg_type_known_def
        dh_msg_types_def of_le16_def dh_msg_is_bulk_def dh_outq_pair_busy_def dh_outq_init_def empty_lane_def
        band_clear_def band_in_flight_def)
  with outq_pair_atomic [OF outq_init(1) prod.collapse [symmetric], of "[0x20, 0, 1, 0, 9]" "[5, 0, 0, 0]"]
  show ?thesis by simp
qed

end
