(* ===== verification/DH_Relay.thy ===== *)
theory DH_Relay
  imports DH_Outq
begin

text \<open>
  The inter-board relay (\<open>src/src/core/dh_relay.h\<close>, \<open>dh_relay.c\<close>): a frame is sent across the serial
  link as a start packet with its length and data packets of eight bytes, drained from the outbound
  queue by peek and commit under a burst cap, and reassembled on the other board. The transmit side is
  a client of the queue interface of \<open>DH_Outq\<close>; the link is run by interleaving offers, sends and
  yields, and the receiver is shown to deliver exactly the accepted frames.
\<close>

section \<open>Model\<close>

abbreviation (input) DH_RELAY_PAYLOAD :: nat where "DH_RELAY_PAYLOAD \<equiv> 8"
abbreviation (input) DH_RELAY_BURST_MAX :: u16 where "DH_RELAY_BURST_MAX \<equiv> 8"

datatype dh_relay_pkt_kind = DH_RELAY_PKT_START | DH_RELAY_PKT_DATA

record dh_relay_packet =
  pk_kind :: dh_relay_pkt_kind
  pk_data :: "byte list"
  pk_len :: byte

datatype dh_relay_result =
  DH_RELAY_OK | DH_RELAY_AGAIN | DH_RELAY_ERR_BUSY | DH_RELAY_ERR_OVERSIZE | DH_RELAY_ERR_FRAME
| DH_RELAY_ERR_ORPHAN | DH_RELAY_ERR_TRUNCATED

record dh_relay_tx =
  tx_q :: dh_outq
  tx_burst :: u16

record dh_relay_rx =
  rx_buf :: "byte list"
  rx_cap :: u16
  rx_expected :: u16
  rx_have :: u16
  rx_orphans :: u32
  rx_truncated :: u32

definition dh_relay_tx_init :: dh_relay_tx where
  "dh_relay_tx_init = \<lparr>tx_q = dh_outq_init, tx_burst = 0\<rparr>"

definition dh_relay_tx_reset :: "dh_relay_tx \<Rightarrow> dh_relay_tx" where
  "dh_relay_tx_reset t = t\<lparr>tx_burst := 0, tx_q := dh_outq_reset (tx_q t)\<rparr>"

definition dh_relay_tx_yield :: "dh_relay_tx \<Rightarrow> dh_relay_tx" where
  "dh_relay_tx_yield t = t\<lparr>tx_burst := 0\<rparr>"

definition dh_relay_tx_busy :: "dh_relay_tx \<Rightarrow> bool" where
  "dh_relay_tx_busy t = dh_outq_busy (tx_q t)"

definition dh_relay_tx_offer :: "dh_relay_tx \<Rightarrow> byte list \<Rightarrow> dh_relay_tx \<times> dh_relay_result" where
  "dh_relay_tx_offer t frame =
     (let (q, rc) = dh_outq_offer (tx_q t) frame in
      (t\<lparr>tx_q := q\<rparr>,
       case rc of DH_OUTQ_OK \<Rightarrow> DH_RELAY_OK | DH_OUTQ_ERR_BUSY \<Rightarrow> DH_RELAY_ERR_BUSY
       | DH_OUTQ_ERR_OVERSIZE \<Rightarrow> DH_RELAY_ERR_OVERSIZE | _ \<Rightarrow> DH_RELAY_ERR_FRAME))"

definition relay_owed :: "dh_relay_tx \<Rightarrow> dh_outq_view option" where
  "relay_owed t =
     (case dh_outq_peek (tx_q t) of
        None \<Rightarrow> None
      | Some view \<Rightarrow> if vw_bulk view \<and> tx_burst t \<ge> DH_RELAY_BURST_MAX then None else Some view)"

definition packet_take :: "dh_outq_view \<Rightarrow> u16" where
  "packet_take view = (if vw_remaining view < 8 then vw_remaining view else 8)"

definition dh_relay_tx_peek :: "dh_relay_tx \<Rightarrow> dh_relay_packet option" where
  "dh_relay_tx_peek t =
     (case relay_owed t of
        None \<Rightarrow> None
      | Some view \<Rightarrow>
          let data = replicate DH_RELAY_PAYLOAD 0 in
          if vw_preamble_owed view then
            Some \<lparr>pk_kind = DH_RELAY_PKT_START,
                  pk_data = data[0 := ucast (vw_total view AND 0xFF), 1 := ucast (drop_bit 8 (vw_total view))],
                  pk_len = of_nat DH_RELAY_PAYLOAD\<rparr>
          else
            Some \<lparr>pk_kind = DH_RELAY_PKT_DATA,
                  pk_data = blit data 0 (take (unat (packet_take view)) (vw_at view)),
                  pk_len = of_nat DH_RELAY_PAYLOAD\<rparr>)"

definition dh_relay_tx_commit :: "dh_relay_tx \<Rightarrow> dh_relay_tx" where
  "dh_relay_tx_commit t =
     (case relay_owed t of
        None \<Rightarrow> t
      | Some view \<Rightarrow>
          let t = (if vw_bulk view then t\<lparr>tx_burst := tx_burst t + 1\<rparr> else t) in
          if vw_preamble_owed view then t\<lparr>tx_q := dh_outq_note_preamble (tx_q t) view\<rparr>
          else t\<lparr>tx_q := dh_outq_advance (tx_q t) view (packet_take view)\<rparr>)"

definition dh_relay_rx_init :: "byte list \<Rightarrow> u16 \<Rightarrow> dh_relay_rx" where
  "dh_relay_rx_init buf cap =
     \<lparr>rx_buf = buf, rx_cap = cap, rx_expected = 0, rx_have = 0, rx_orphans = 0, rx_truncated = 0\<rparr>"

definition dh_relay_rx_reset :: "dh_relay_rx \<Rightarrow> dh_relay_rx" where
  "dh_relay_rx_reset r = r\<lparr>rx_expected := 0, rx_have := 0\<rparr>"

definition rx_push_start ::
  "dh_relay_rx \<Rightarrow> dh_relay_packet \<Rightarrow> dh_relay_rx \<times> dh_relay_result \<times> dh_frame_view option" where
  "rx_push_start r packet =
     (let total = of_le16 (pk_data packet ! 0) (pk_data packet ! 1);
          interrupted = rx_expected r \<noteq> 0;
          r = (if interrupted then r\<lparr>rx_truncated := rx_truncated r + 1\<rparr> else r);
          r = r\<lparr>rx_expected := 0, rx_have := 0\<rparr> in
      if unat total < DH_FRAME_HEADER_SIZE \<or> total > rx_cap r \<or> unat total > DH_FRAME_MAX_SIZE
      then (r, DH_RELAY_ERR_OVERSIZE, None)
      else (r\<lparr>rx_expected := total\<rparr>, if interrupted then DH_RELAY_ERR_TRUNCATED else DH_RELAY_AGAIN, None))"

definition rx_push_data ::
  "dh_relay_rx \<Rightarrow> dh_relay_packet \<Rightarrow> dh_relay_rx \<times> dh_relay_result \<times> dh_frame_view option" where
  "rx_push_data r packet =
     (if rx_expected r = 0 then (r\<lparr>rx_orphans := rx_orphans r + 1\<rparr>, DH_RELAY_ERR_ORPHAN, None)
      else
        let remaining = rx_expected r - rx_have r;
            n = (if remaining < ucast (pk_len packet) then remaining else ucast (pk_len packet));
            r = r\<lparr>rx_buf := blit (rx_buf r) (unat (rx_have r)) (take (unat n) (pk_data packet)),
                  rx_have := rx_have r + n\<rparr> in
        if rx_have r < rx_expected r then (r, DH_RELAY_AGAIN, None)
        else
          let total = rx_expected r; r = r\<lparr>rx_expected := 0, rx_have := 0\<rparr> in
          case dh_frame_decode (take (unat total) (rx_buf r)) of
            Inr (view, consumed) \<Rightarrow>
              if consumed \<noteq> unat total then (r, DH_RELAY_ERR_FRAME, None) else (r, DH_RELAY_OK, Some view)
          | Inl _ \<Rightarrow> (r, DH_RELAY_ERR_FRAME, None))"

definition dh_relay_rx_push ::
  "dh_relay_rx \<Rightarrow> dh_relay_packet \<Rightarrow> dh_relay_rx \<times> dh_relay_result \<times> dh_frame_view option" where
  "dh_relay_rx_push r packet =
     (if pk_kind packet = DH_RELAY_PKT_START then rx_push_start r packet else rx_push_data r packet)"

section \<open>Receiver\<close>

text \<open>The reassembly buffer has its declared capacity and never holds more than it was told to expect.\<close>

definition rx_inv :: "dh_relay_rx \<Rightarrow> bool" where
  "rx_inv r =
     (length (rx_buf r) = unat (rx_cap r) \<and> rx_expected r \<le> rx_cap r \<and>
      unat (rx_expected r) \<le> DH_FRAME_MAX_SIZE \<and>
      (if rx_expected r = 0 then rx_have r = 0 else rx_have r < rx_expected r))"

definition packet_ok :: "dh_relay_packet \<Rightarrow> bool" where
  "packet_ok p = (length (pk_data p) = DH_RELAY_PAYLOAD \<and> unat (pk_len p) \<le> DH_RELAY_PAYLOAD)"

lemma rx_data_sizes:
  fixes e h :: u16 and l :: byte
  assumes "h < e"
  defines "n \<equiv> (if e - h < ucast l then e - h else ucast l)"
  shows "unat n = min (unat e - unat h) (unat l)" and "unat (h + n) = unat h + unat n"
    and "h + n < e \<longleftrightarrow> unat h + unat n < unat e" and "unat h + unat n \<le> unat e"
proof -
  have hl: "unat h < unat e" using assms(1) by (simp add: word_less_unat)
  then have sub: "unat (e - h) = unat e - unat h" by (intro word_conv) simp
  have l: "unat (ucast l :: u16) = unat l" by (simp add: word_conv)
  show n: "unat n = min (unat e - unat h) (unat l)"
    by (auto simp: n_def word_less_unat sub l min_def)
  with hl show le: "unat h + unat n \<le> unat e" by simp
  then have "unat h + unat n < 65536" using unat_u16_lt [of e] by linarith
  then show add: "unat (h + n) = unat h + unat n"
    using unat_add_of_nat_u16 [of h "unat n"] by simp
  show "h + n < e \<longleftrightarrow> unat h + unat n < unat e" by (simp add: word_less_unat add)
qed

definition rx_take :: "dh_relay_rx \<Rightarrow> dh_relay_packet \<Rightarrow> nat" where
  "rx_take r p = min (unat (rx_expected r) - unat (rx_have r)) (unat (pk_len p))"

definition rx_filled :: "dh_relay_rx \<Rightarrow> dh_relay_packet \<Rightarrow> byte list" where
  "rx_filled r p = blit (rx_buf r) (unat (rx_have r)) (take (rx_take r p) (pk_data p))"

definition rx_result :: "byte list \<Rightarrow> dh_relay_result \<times> dh_frame_view option" where
  "rx_result bs =
     (case dh_frame_decode bs of
        Inr (view, consumed) \<Rightarrow> if consumed \<noteq> length bs then (DH_RELAY_ERR_FRAME, None) else (DH_RELAY_OK, Some view)
      | Inl _ \<Rightarrow> (DH_RELAY_ERR_FRAME, None))"

lemma rx_push_data_more:
  assumes "rx_have r < rx_expected r" and "unat (rx_have r) + rx_take r p < unat (rx_expected r)"
  shows "rx_push_data r p =
    (r\<lparr>rx_buf := rx_filled r p, rx_have := rx_have r + of_nat (rx_take r p)\<rparr>, DH_RELAY_AGAIN, None)"
proof -
  define n :: u16 where "n = (if rx_expected r - rx_have r < ucast (pk_len p)
      then rx_expected r - rx_have r else ucast (pk_len p))"
  note sz = rx_data_sizes [OF assms(1), of "pk_len p", folded n_def]
  have nz: "rx_expected r \<noteq> 0" using assms(1) by auto
  have lt: "rx_have r + n < rx_expected r" using sz assms(2) by (simp add: rx_take_def)
  have n: "unat n = rx_take r p" "n = of_nat (rx_take r p)"
    using sz(1) by (simp_all add: rx_take_def flip: sz(1))
  have "rx_push_data r p =
    (r\<lparr>rx_buf := blit (rx_buf r) (unat (rx_have r)) (take (unat n) (pk_data p)), rx_have := rx_have r + n\<rparr>,
     DH_RELAY_AGAIN, None)"
    using nz lt by (simp add: rx_push_data_def Let_def n_def [symmetric])
  then show ?thesis using n by (simp add: rx_filled_def)
qed

lemma rx_push_data_last:
  assumes "rx_have r < rx_expected r" and "unat (rx_have r) + rx_take r p = unat (rx_expected r)"
    and "unat (rx_expected r) \<le> length (rx_filled r p)"
  shows "rx_push_data r p =
    (r\<lparr>rx_buf := rx_filled r p, rx_expected := 0, rx_have := 0\<rparr>,
     rx_result (take (unat (rx_expected r)) (rx_filled r p)))"
proof -
  define n :: u16 where "n = (if rx_expected r - rx_have r < ucast (pk_len p)
      then rx_expected r - rx_have r else ucast (pk_len p))"
  note sz = rx_data_sizes [OF assms(1), of "pk_len p", folded n_def]
  have nz: "rx_expected r \<noteq> 0" using assms(1) by auto
  have lt: "\<not> rx_have r + n < rx_expected r" using sz assms(2) by (simp add: rx_take_def)
  have n: "blit (rx_buf r) (unat (rx_have r)) (take (unat n) (pk_data p)) = rx_filled r p"
    using sz(1) by (simp add: rx_take_def rx_filled_def)
  show ?thesis
    using nz lt n assms(3)
    by (simp add: rx_push_data_def Let_def n_def [symmetric] rx_result_def split: sum.split)
qed

lemma rx_filled_length:
  assumes "rx_inv r" and "packet_ok p" and "rx_expected r \<noteq> 0"
  shows "length (rx_filled r p) = unat (rx_cap r)"
    and "take (unat (rx_have r) + rx_take r p) (rx_filled r p) =
      take (unat (rx_have r)) (rx_buf r) @ take (rx_take r p) (pk_data p)"
    and "rx_have r < rx_expected r" and "unat (rx_have r) + rx_take r p \<le> unat (rx_expected r)"
    and "unat (rx_expected r) \<le> unat (rx_cap r)"
proof -
  show lt: "rx_have r < rx_expected r" using assms by (simp add: rx_inv_def)
  show le: "unat (rx_have r) + rx_take r p \<le> unat (rx_expected r)"
    using lt by (simp add: rx_take_def word_less_unat)
  show c: "unat (rx_expected r) \<le> unat (rx_cap r)" using assms by (simp add: rx_inv_def word_le_nat_alt)
  have l: "length (take (rx_take r p) (pk_data p)) = rx_take r p"
    using assms by (auto simp: packet_ok_def rx_take_def)
  have b: "length (rx_buf r) = unat (rx_cap r)" using assms by (simp add: rx_inv_def)
  show "length (rx_filled r p) = unat (rx_cap r)"
    unfolding rx_filled_def using b c le l by (subst length_blit) simp_all
  show "take (unat (rx_have r) + rx_take r p) (rx_filled r p) =
      take (unat (rx_have r)) (rx_buf r) @ take (rx_take r p) (pk_data p)"
    using take_blit [of "unat (rx_have r)" "rx_buf r" "take (rx_take r p) (pk_data p)"] b c le l
    by (simp add: rx_filled_def)
qed

lemma rx_push_inv:
  assumes inv: "rx_inv r" and ok: "packet_ok p" and push: "dh_relay_rx_push r p = (r', rc, v)"
  shows "rx_inv r'"
proof (cases "pk_kind p = DH_RELAY_PKT_START")
  case True
  with inv push show ?thesis
    by (auto simp: dh_relay_rx_push_def rx_push_start_def Let_def rx_inv_def word_gt_0 split: if_splits)
next
  case False
  then have pd: "rx_push_data r p = (r', rc, v)" using push by (simp add: dh_relay_rx_push_def)
  show ?thesis
  proof (cases "rx_expected r = 0")
    case True
    with inv pd show ?thesis by (auto simp: rx_push_data_def rx_inv_def)
  next
    case busy: False
    note fl = rx_filled_length [OF inv ok busy]
    show ?thesis
    proof (cases "unat (rx_have r) + rx_take r p < unat (rx_expected r)")
      case True
      then have "rx_have r + of_nat (rx_take r p) < rx_expected r"
        using unat_u16_lt [of "rx_expected r"] by (simp add: word_less_unat word_conv)
      with rx_push_data_more [OF fl(3) True] pd inv fl(1) show ?thesis
        by (auto simp: rx_inv_def)
    next
      case False
      then have "unat (rx_have r) + rx_take r p = unat (rx_expected r)" using fl(4) by simp
      from rx_push_data_last [OF fl(3) this] fl(1,5) pd inv show ?thesis
        by (auto simp: rx_inv_def)
    qed
  qed
qed

section \<open>The link\<close>

text \<open>The two ends joined: a frame is offered, a packet the transmitter owes reaches the other board and
  is committed, or the pump yields. A packet the serial queue has no room for is simply not sent: peek
  changes nothing. \<open>lk_accepted\<close>, \<open>lk_delivered\<close> and \<open>lk_faults\<close> record the frames taken, the frames
  handed out and every receiver result that is neither.\<close>

datatype link_op = Offer "byte list" | Send | Yield

record link =
  lk_tx :: dh_relay_tx
  lk_rx :: dh_relay_rx
  lk_accepted :: "byte list list"
  lk_delivered :: "dh_frame_view list"
  lk_faults :: "dh_relay_result list"

definition link_receive :: "dh_relay_packet \<Rightarrow> link \<Rightarrow> link" where
  "link_receive p s =
     (let (r, rc, v) = dh_relay_rx_push (lk_rx s) p in
      s\<lparr>lk_rx := r,
        lk_delivered := (case v of Some f \<Rightarrow> lk_delivered s @ [f] | None \<Rightarrow> lk_delivered s),
        lk_faults := (if rc = DH_RELAY_OK \<or> rc = DH_RELAY_AGAIN then lk_faults s else lk_faults s @ [rc])\<rparr>)"

fun link_step :: "link_op \<Rightarrow> link \<Rightarrow> link" where
  "link_step (Offer f) s =
     (let (t, rc) = dh_relay_tx_offer (lk_tx s) f in
      s\<lparr>lk_tx := t, lk_accepted := (if rc = DH_RELAY_OK then lk_accepted s @ [f] else lk_accepted s)\<rparr>)"
| "link_step Send s =
     (case dh_relay_tx_peek (lk_tx s) of
        None \<Rightarrow> s
      | Some p \<Rightarrow> link_receive p (s\<lparr>lk_tx := dh_relay_tx_commit (lk_tx s)\<rparr>))"
| "link_step Yield s = s\<lparr>lk_tx := dh_relay_tx_yield (lk_tx s)\<rparr>"

definition link_run :: "link_op list \<Rightarrow> link \<Rightarrow> link" where
  "link_run ops s = fold link_step ops s"

definition link_init :: link where
  "link_init =
     \<lparr>lk_tx = dh_relay_tx_init, lk_rx = dh_relay_rx_init (replicate DH_FRAME_MAX_SIZE 0) (of_nat DH_FRAME_MAX_SIZE),
      lk_accepted = [], lk_delivered = [], lk_faults = []\<rparr>"

text \<open>The view a whole frame decodes to, and its band.\<close>

definition frame_view :: "byte list \<Rightarrow> dh_frame_view" where
  "frame_view f = (case dh_frame_decode f of Inr (v, _) \<Rightarrow> v | Inl _ \<Rightarrow> frame_of 0 0 [])"

definition frame_bulk :: "byte list \<Rightarrow> bool" where
  "frame_bulk f = (f \<noteq> [] \<and> dh_msg_is_bulk (hd f))"

definition is_frame :: "byte list \<Rightarrow> bool" where
  "is_frame f = (frame_whole f \<noteq> None)"

lemma whole_frame:
  assumes "frame_whole f = Some h"
  shows "dh_frame_decode f = Inr (frame_view f, length f)" and "DH_FRAME_HEADER_SIZE \<le> length f"
    and "length f \<le> DH_FRAME_MAX_SIZE" and "frame_bulk f = dh_msg_is_bulk (fh_type h)"
proof -
  have p: "dh_frame_header_parse f = Inr h" and l: "length f = DH_FRAME_HEADER_SIZE + unat (fh_len h)"
    using assms by (auto simp: frame_whole_def split: sum.splits if_splits)
  then show "dh_frame_decode f = Inr (frame_view f, length f)"
    by (simp add: dh_frame_decode_def Let_def frame_view_def)
  show "DH_FRAME_HEADER_SIZE \<le> length f" "length f \<le> DH_FRAME_MAX_SIZE"
    using l frame_whole_length [OF assms] by auto
  with p show "frame_bulk f = dh_msg_is_bulk (fh_type h)"
    by (cases f) (auto simp: frame_bulk_def dh_frame_header_parse_def Let_def split: if_splits)
qed

lemma offered_alt:
  "offered f rc b = (if rc = DH_OUTQ_OK \<and> is_frame f \<and> b = frame_bulk f then [f] else [])"
  by (auto simp: offered_def is_frame_def whole_frame split: option.splits)

text \<open>What the receiver holds of the frame in flight.\<close>

definition rx_holds :: "dh_relay_rx \<Rightarrow> byte list \<Rightarrow> nat \<Rightarrow> bool" where
  "rx_holds r f c =
     (unat (rx_expected r) = length f \<and> unat (rx_have r) = c \<and> take c (rx_buf r) = take c f)"

definition rx_idle :: "dh_relay_rx \<Rightarrow> bool" where
  "rx_idle r = (rx_expected r = 0 \<and> rx_have r = 0)"

definition start_packet :: "u16 \<Rightarrow> dh_relay_packet" where
  "start_packet tot =
     \<lparr>pk_kind = DH_RELAY_PKT_START,
      pk_data = (replicate 8 0)[0 := ucast (tot AND 0xFF), 1 := ucast (drop_bit 8 tot)], pk_len = 8\<rparr>"

definition data_packet :: "byte list \<Rightarrow> dh_relay_packet" where
  "data_packet bs = \<lparr>pk_kind = DH_RELAY_PKT_DATA, pk_data = blit (replicate 8 0) 0 bs, pk_len = 8\<rparr>"

lemma start_packet_push:
  assumes "rx_inv r" "rx_idle r" and "unat tot = length f" "is_frame f" "unat (rx_cap r) = DH_FRAME_MAX_SIZE"
  shows "dh_relay_rx_push r (start_packet tot) = (r\<lparr>rx_expected := tot\<rparr>, DH_RELAY_AGAIN, None)"
    and "rx_inv (r\<lparr>rx_expected := tot\<rparr>)" and "rx_holds (r\<lparr>rx_expected := tot\<rparr>) f 0"
proof -
  obtain h where "frame_whole f = Some h" using assms(4) by (auto simp: is_frame_def)
  note wf = whole_frame [OF this]
  have cap: "\<not> tot > rx_cap r"
    using assms(3,5) wf(3) by (simp add: word_less_unat)
  have nz: "tot \<noteq> 0" "0 < tot" using assms(3) wf(2) by (auto simp: word_gt_0)
  show "dh_relay_rx_push r (start_packet tot) = (r\<lparr>rx_expected := tot\<rparr>, DH_RELAY_AGAIN, None)"
    using assms(2,3) wf cap
    by (simp add: dh_relay_rx_push_def rx_push_start_def start_packet_def Let_def rx_idle_def of_le16_le16)
  show "rx_inv (r\<lparr>rx_expected := tot\<rparr>)"
    using assms(1-3) wf cap nz by (simp add: rx_inv_def rx_idle_def)
  show "rx_holds (r\<lparr>rx_expected := tot\<rparr>) f 0"
    using assms by (simp add: rx_holds_def rx_idle_def)
qed

lemma data_packet_ok: "length bs \<le> 8 \<Longrightarrow> packet_ok (data_packet bs)"
  by (simp add: packet_ok_def data_packet_def blit_simps)

lemma data_packet_push:
  assumes inv: "rx_inv r" and h: "rx_holds r f c" and c: "c < length f" and fr: "is_frame f"
    and n: "n = min 8 (length f - c)" and push: "dh_relay_rx_push r (data_packet (take n (drop c f))) = (r', rc, v)"
  shows "rx_inv r'" and "rx_cap r' = rx_cap r"
    and "rx_orphans r' = rx_orphans r" and "rx_truncated r' = rx_truncated r"
    and "if c + n < length f then rx_holds r' f (c + n) \<and> rc = DH_RELAY_AGAIN \<and> v = None
         else rx_idle r' \<and> rc = DH_RELAY_OK \<and> v = Some (frame_view f)"
proof -
  define p where "p = data_packet (take n (drop c f))"
  have ok: "packet_ok p" unfolding p_def using n by (intro data_packet_ok) simp
  show "rx_inv r'" using rx_push_inv [OF inv ok] push by (simp add: p_def)
  have e: "unat (rx_expected r) = length f" "unat (rx_have r) = c" "take c (rx_buf r) = take c f"
    using h by (simp_all add: rx_holds_def)
  have nz: "rx_expected r \<noteq> 0" using e(1) c by auto
  note fl = rx_filled_length [OF inv ok nz]
  have tk: "rx_take r p = n" using n e c by (simp add: rx_take_def p_def data_packet_def)
  have data: "take n (pk_data p) = take n (drop c f)"
    using n c by (simp add: p_def data_packet_def blit_def)
  have held: "take (c + n) (rx_filled r p) = take (c + n) f"
    using fl(2) e data c by (simp add: tk take_add)
  have pd: "rx_push_data r p = (r', rc, v)"
    using push by (simp add: dh_relay_rx_push_def p_def data_packet_def)
  have all: "rx_cap r' = rx_cap r \<and> rx_orphans r' = rx_orphans r \<and> rx_truncated r' = rx_truncated r \<and>
    (if c + n < length f then rx_holds r' f (c + n) \<and> rc = DH_RELAY_AGAIN \<and> v = None
     else rx_idle r' \<and> rc = DH_RELAY_OK \<and> v = Some (frame_view f))"
  proof (cases "c + n < length f")
    case True
    then have lt: "unat (rx_have r) + rx_take r p < unat (rx_expected r)" using e tk by simp
    then have "unat (rx_have r + of_nat n) = c + n"
      using unat_u16_lt [of "rx_expected r"] e tk by (simp add: word_conv)
    then show ?thesis
      using rx_push_data_more [OF fl(3) lt] pd True tk e held
      by (auto simp: rx_holds_def)
  next
    case False
    then have eq: "unat (rx_have r) + rx_take r p = unat (rx_expected r)" using fl(4) e tk by simp
    have "take (unat (rx_expected r)) (rx_filled r p) = f" using held False e eq tk by simp
    moreover have "rx_result f = (DH_RELAY_OK, Some (frame_view f))"
      using fr by (auto simp: rx_result_def is_frame_def whole_frame)
    ultimately show ?thesis
      using rx_push_data_last [OF fl(3) eq] fl(1,5) pd False by (auto simp: rx_idle_def)
  qed
  then show "rx_cap r' = rx_cap r" "rx_orphans r' = rx_orphans r" "rx_truncated r' = rx_truncated r"
    "if c + n < length f then rx_holds r' f (c + n) \<and> rc = DH_RELAY_AGAIN \<and> v = None
     else rx_idle r' \<and> rc = DH_RELAY_OK \<and> v = Some (frame_view f)"
    by blast+
qed

definition link_acc :: "link \<Rightarrow> bool \<Rightarrow> byte list list" where
  "link_acc s b = filter (\<lambda>f. frame_bulk f = b) (lk_accepted s)"

text \<open>The transmitter's queue is drained, the receiver holds exactly what has gone of the frame in
  flight, and everything delivered is what was drained.\<close>

definition link_inv :: "link \<Rightarrow> (bool \<times> byte list) list \<Rightarrow> bool" where
  "link_inv s sent =
     (let q = tx_q (lk_tx s); r = lk_rx s in
      (\<exists>w. oq.drained True 8 q sent w (link_acc s)) \<and>
      list_all is_frame (lk_accepted s) \<and>
      lk_delivered s = map (frame_view \<circ> snd) sent \<and> lk_faults s = [] \<and>
      rx_inv r \<and> unat (rx_cap r) = DH_FRAME_MAX_SIZE \<and> rx_orphans r = 0 \<and> rx_truncated r = 0 \<and>
      (\<forall>b. oq_primed b q \<longrightarrow> rx_holds r (hd (oq_frames b q)) (oq_cursor b q)) \<and>
      ((\<forall>b. \<not> oq_primed b q) \<longrightarrow> rx_idle r))"

lemma link_inv_init: "link_inv link_init []"
proof -
  have "oq.drained True 8 dh_outq_init [] [] (\<lambda>b. [])" by (intro oq_drained_init) simp
  moreover have "\<not> oq_primed b dh_outq_init" for b
    using oq.empty_band [OF outq_init(1) outq_init(2)] by simp
  moreover have "link_acc link_init = (\<lambda>b. [])" by (simp add: link_acc_def link_init_def fun_eq_iff)
  ultimately show ?thesis
    by (auto simp: link_inv_def Let_def link_init_def dh_relay_tx_init_def dh_relay_rx_init_def rx_inv_def
        rx_idle_def)
qed

lemma link_offer:
  assumes inv: "link_inv s sent"
  shows "link_inv (link_step (Offer f) s) sent"
proof -
  define q where "q = tx_q (lk_tx s)"
  obtain q' rc where off: "dh_outq_offer q f = (q', rc)" by (cases "dh_outq_offer q f") auto
  obtain w where d: "oq.drained True 8 q sent w (link_acc s)"
    using inv by (auto simp: link_inv_def Let_def q_def)
  then have oinv: "outq_inv q" by (simp add: oq.drained_def)
  note ext = offer_extends [OF oinv off]
  note d' = oq.drained_extends [OF d ext]
  have fr: "rc = DH_OUTQ_OK \<Longrightarrow> is_frame f"
    using off by (auto simp: dh_outq_offer_def is_frame_def split: option.splits)
  define s' where "s' = link_step (Offer f) s"
  have s': "tx_q (lk_tx s') = q'" "lk_rx s' = lk_rx s" "lk_delivered s' = lk_delivered s" "lk_faults s' = lk_faults s"
    "lk_accepted s' = (if rc = DH_OUTQ_OK then lk_accepted s @ [f] else lk_accepted s)"
    using off by (simp_all add: s'_def dh_relay_tx_offer_def q_def [symmetric] split: dh_outq_result.splits)
  have "link_acc s' = (\<lambda>b. link_acc s b @ offered f rc b)"
    using fr by (auto simp: link_acc_def s' offered_alt fun_eq_iff)
  with d' have "oq.drained True 8 q' sent w (link_acc s')" by simp
  moreover have "oq_primed b q' = oq_primed b q" "oq_cursor b q' = oq_cursor b q" for b
    using ext by (simp_all add: oq.extends_def)
  moreover have "oq_primed b q \<Longrightarrow> hd (oq_frames b q') = hd (oq_frames b q)" for b
    using ext oq.empty_band [OF oinv, of b] by (cases "oq_frames b q") (auto simp: oq.extends_def)
  ultimately show ?thesis
    using inv fr unfolding s'_def [symmetric]
    by (auto simp: link_inv_def Let_def s' q_def [symmetric])
qed

text \<open>What one send does: nothing when nothing is owed, the start packet, or the next data packet.\<close>

lemma link_peek:
  assumes "relay_owed t = Some v"
  shows "dh_outq_peek (tx_q t) = Some v"
    and "dh_relay_tx_peek t = Some (if vw_preamble_owed v then start_packet (vw_total v)
      else data_packet (take (unat (packet_take v)) (vw_at v)))"
    and "tx_q (dh_relay_tx_commit t) = (if vw_preamble_owed v then dh_outq_note_preamble (tx_q t) v
      else dh_outq_advance (tx_q t) v (packet_take v))"
  using assms
  by (auto simp: relay_owed_def dh_relay_tx_peek_def start_packet_def data_packet_def Let_def
      dh_relay_tx_commit_def split: option.splits if_splits)

lemma packet_take_nat: "unat (packet_take v) = min 8 (unat (vw_remaining v))"
  by (simp add: packet_take_def word_less_unat)

lemma link_acc_frame:
  assumes "link_inv s sent" and "f \<in> set (oq_frames b (tx_q (lk_tx s)))"
  shows "is_frame f" and "frame_bulk f = b"
proof -
  obtain w where "oq.drained True 8 (tx_q (lk_tx s)) sent w (link_acc s)"
    using assms(1) by (auto simp: link_inv_def Let_def)
  then have "f \<in> set (link_acc s b)" using assms(2) by (auto simp: oq.drained_def)
  then show "is_frame f" "frame_bulk f = b"
    using assms(1) by (auto simp: link_acc_def link_inv_def Let_def list_all_iff)
qed

lemma link_send_start:
  assumes inv: "link_inv s sent" and owed: "relay_owed (lk_tx s) = Some v" and pre: "vw_preamble_owed v"
  shows "link_inv (link_step Send s) sent"
proof -
  define q q' where "q = tx_q (lk_tx s)" and "q' = dh_outq_note_preamble q v"
  define b f where "b = vw_bulk v" and "f = hd (oq_frames b q)"
  note pk = link_peek [OF owed, folded q_def]
  obtain w where d: "oq.drained True 8 q sent w (link_acc s)"
    using inv by (auto simp: link_inv_def Let_def q_def)
  then have oinv: "outq_inv q" by (simp add: oq.drained_def)
  note cur = oq.peek_current [OF oinv pk(1)]
  note d' = oq.drained_note [OF d cur pre]
  have ne: "oq_frames b q \<noteq> []" and np: "\<not> oq_primed b q" "\<not> oq_primed (\<not> b) q" "oq_cursor (\<not> b) q = 0"
    and tot: "unat (vw_total v) = length f"
    using cur pre by (auto simp: oq.current_def b_def f_def)
  have c0: "oq_cursor b q = 0" using d np by (auto simp: oq.drained_def)
  have n: "oq_frames e q' = oq_frames e q" "oq_cursor e q' = oq_cursor e q" "oq_primed e q' = (e = b)" for e
    using oq.note_pre [OF oinv ne [unfolded b_def] np(3,2) [unfolded b_def] q'_def, of e] np
    by (cases e; cases b; auto simp: b_def)+
  have npa: "\<not> oq_primed e q" for e using np by (cases e; cases b) auto
  have idle: "rx_idle (lk_rx s)" using inv npa by (simp add: link_inv_def Let_def q_def)
  have fr: "is_frame f" using link_acc_frame [OF inv, of f b] ne by (simp add: f_def q_def)
  have r: "rx_inv (lk_rx s)" "unat (rx_cap (lk_rx s)) = 4100" using inv by (simp_all add: link_inv_def Let_def)
  note sp = start_packet_push [OF r(1) idle tot fr r(2)]
  have "link_step Send s = s\<lparr>lk_tx := dh_relay_tx_commit (lk_tx s), lk_rx := (lk_rx s)\<lparr>rx_expected := vw_total v\<rparr>\<rparr>"
    using pre pk(2) sp(1) by (simp add: link_receive_def)
  moreover have "link_acc (s\<lparr>lk_tx := x, lk_rx := y\<rparr>) = link_acc s" for x y
    by (simp add: link_acc_def fun_eq_iff)
  ultimately show ?thesis
    using inv d' sp(2,3) n c0 pk(3) pre
    by (auto simp: link_inv_def Let_def q_def [symmetric] q'_def [symmetric] f_def [symmetric])
qed

lemma link_send_data:
  assumes inv: "link_inv s sent" and owed: "relay_owed (lk_tx s) = Some v" and pre: "\<not> vw_preamble_owed v"
  obtains sent' where "link_inv (link_step Send s) (sent @ sent')"
proof -
  define q q' where "q = tx_q (lk_tx s)" and "q' = dh_outq_advance q v (packet_take v)"
  define b f c where "b = vw_bulk v" and "f = hd (oq_frames b q)" and "c = oq_cursor b q"
  define n where "n = min 8 (length f - c)"
  note pk = link_peek [OF owed, folded q_def]
  obtain w where d: "oq.drained True 8 q sent w (link_acc s)"
    using inv by (auto simp: link_inv_def Let_def q_def)
  then have oinv: "outq_inv q" by (simp add: oq.drained_def)
  note cur = oq.peek_current [OF oinv pk(1)]
  have ne: "oq_frames b q \<noteq> []" and pr: "oq_primed b q" and idle: "oq_cursor (\<not> b) q = 0" "\<not> oq_primed (\<not> b) q"
    and at: "vw_at v = drop c f" and rem: "unat (vw_remaining v) = length f - c"
    using cur pre by (auto simp: oq.current_def b_def f_def c_def)
  have cl: "c < length f" using oq.cursor_lt [OF oinv ne] by (simp add: c_def f_def)
  have tk: "unat (packet_take v) = n" by (simp add: packet_take_nat rem n_def)
  have tk': "unat (packet_take v) = min 8 (unat (vw_remaining v))" by (rule packet_take_nat)
  obtain sent' where d': "oq.drained True 8 q' (sent @ sent')
       (w @ [Piece (vw_remaining v = vw_total v) (take (unat (packet_take v)) (vw_at v))]) (link_acc s)"
    and sent': "sent' = (if unat (packet_take v) = unat (vw_remaining v) then [(vw_bulk v, hd (oq_frames (vw_bulk v) q))] else [])"
    using oq.drained_advance [OF d cur _ _ tk'] pre unfolding q'_def by auto
  note a = oq.advance [OF oinv ne [unfolded b_def] idle [unfolded b_def] q'_def refl, folded b_def, folded c_def f_def, unfolded tk]
  have fr: "is_frame f" using link_acc_frame [OF inv, of f b] ne by (simp add: f_def q_def)
  have r: "rx_inv (lk_rx s)" and holds: "rx_holds (lk_rx s) f c"
    using inv pr by (simp_all add: link_inv_def Let_def q_def f_def c_def)
  obtain r' rc x where push: "dh_relay_rx_push (lk_rx s) (data_packet (take n (drop c f))) = (r', rc, x)"
    by (cases "dh_relay_rx_push (lk_rx s) (data_packet (take n (drop c f)))") auto
  note dp = data_packet_push [OF r holds cl fr n_def push]
  define s' where "s' = link_step Send s"
  have s': "tx_q (lk_tx s') = q'" "lk_rx s' = r'" "lk_accepted s' = lk_accepted s"
    "lk_delivered s' = (case x of Some f \<Rightarrow> lk_delivered s @ [f] | None \<Rightarrow> lk_delivered s)"
    "lk_faults s' = (if rc = DH_RELAY_OK \<or> rc = DH_RELAY_AGAIN then lk_faults s else lk_faults s @ [rc])"
    using pre pk(2,3) push by (simp_all add: s'_def link_receive_def tk at q'_def [symmetric] split: option.split)
  have acc: "link_acc s' = link_acc s" by (simp add: link_acc_def s' fun_eq_iff)
  have "link_inv s' (sent @ sent')"
  proof (cases "c + n < length f")
    case True
    then have "sent' = []" using sent' rem cl by (simp add: tk)
    moreover have "hd (oq_frames e q') = f \<and> oq_cursor e q' = c + n" if "oq_primed e q'" for e
      using that a True by (cases e; cases b) (auto simp: f_def)
    moreover have "oq_primed b q'" using a True pr by simp
    ultimately show ?thesis
      using inv d' dp True unfolding acc [symmetric]
      by (auto simp: link_inv_def Let_def s')
  next
    case False
    then have "sent' = [(b, f)]" using sent' rem cl by (auto simp: tk n_def b_def f_def)
    moreover have "\<not> oq_primed e q'" for e using a False by (cases e; cases b) auto
    ultimately show ?thesis
      using inv d' dp False unfolding acc [symmetric]
      by (auto simp: link_inv_def Let_def s')
  qed
  then show thesis using that by (simp add: s'_def)
qed

lemma link_step_inv:
  assumes "link_inv s sent"
  obtains sent' where "link_inv (link_step op s) (sent @ sent')"
proof (cases op)
  case (Offer f)
  then show thesis using that [of "[]"] link_offer [OF assms] by simp
next
  case Yield
  have "link_acc (link_step Yield s) = link_acc s" by (simp add: link_acc_def fun_eq_iff)
  then have "link_inv (link_step Yield s) sent"
    using assms by (simp add: link_inv_def dh_relay_tx_yield_def)
  then show thesis using that [of "[]"] Yield by simp
next
  case Send
  show thesis
  proof (cases "relay_owed (lk_tx s)")
    case None
    then show thesis using that [of "[]"] assms Send by (simp add: dh_relay_tx_peek_def)
  next
    case (Some v)
    show thesis
      using that [of "[]"] that link_send_start [OF assms Some] link_send_data [OF assms Some] Send
      by (cases "vw_preamble_owed v") auto
  qed
qed

lemma link_run_inv:
  assumes "link_inv s sent"
  obtains sent' where "link_inv (link_run ops s) (sent @ sent')"
proof -
  have "\<exists>sent'. link_inv (link_run ops s) (sent @ sent')"
    using assms
  proof (induction ops arbitrary: s sent)
    case Nil
    then show ?case by (auto simp: link_run_def intro: exI [of _ "[]"])
  next
    case (Cons op ops)
    obtain u where "link_inv (link_step op s) (sent @ u)" using link_step_inv [OF Cons(2)] .
    from Cons(1) [OF this] show ?case by (auto simp: link_run_def)
  qed
  with that show thesis by blast
qed

section \<open>Draining and recovery\<close>

definition link_backlog :: "link \<Rightarrow> nat" where
  "link_backlog s = oq.backlog (tx_q (lk_tx s))"

lemma link_pump_progress:
  assumes inv: "link_inv s sent" and busy: "oq_frames b (tx_q (lk_tx s)) \<noteq> []"
  shows "link_backlog (link_run [Yield, Send] s) < link_backlog s"
proof -
  define t where "t = dh_relay_tx_yield (lk_tx s)"
  have q: "tx_q t = tx_q (lk_tx s)" "tx_burst t = 0" by (simp_all add: t_def dh_relay_tx_yield_def)
  have oinv: "outq_inv (tx_q t)" using inv q by (auto simp: link_inv_def Let_def oq.drained_def)
  obtain v where v: "dh_outq_peek (tx_q t) = Some v" using oq.peek_None [OF oinv] busy q by fastforce
  then have owed: "relay_owed t = Some v" using q by (simp add: relay_owed_def)
  note pk = link_peek [OF owed]
  note cur = oq.peek_current [OF oinv v]
  have "0 < unat (packet_take v)"
    using cur oq.cursor_lt [OF oinv, of "vw_bulk v"] by (simp add: packet_take_nat oq.current_def)
  then have "oq.backlog (tx_q (dh_relay_tx_commit t)) < oq.backlog (tx_q t)"
    using pk(3) oq.backlog_note [OF oinv cur] oq.backlog_advance [OF oinv cur] by simp
  moreover have "tx_q (lk_tx (link_run [Yield, Send] s)) = tx_q (dh_relay_tx_commit t)"
    using pk(2) by (simp add: link_run_def t_def [symmetric] link_receive_def split: prod.split)
  ultimately show ?thesis using q by (simp add: link_backlog_def)
qed

lemma link_drains:
  assumes "link_inv s sent"
  shows "\<exists>n sent'. link_inv (link_run (concat (replicate n [Yield, Send])) s) (sent @ sent') \<and>
    (\<forall>b. oq_frames b (tx_q (lk_tx (link_run (concat (replicate n [Yield, Send])) s))) = []) \<and>
    lk_accepted (link_run (concat (replicate n [Yield, Send])) s) = lk_accepted s"
  using assms
proof (induction "link_backlog s" arbitrary: s sent rule: less_induct)
  case less
  show ?case
  proof (cases "\<forall>b. oq_frames b (tx_q (lk_tx s)) = []")
    case True
    with less(2) show ?thesis by (intro exI [of _ 0] exI [of _ "[]"]) (simp add: link_run_def)
  next
    case False
    then obtain b where "oq_frames b (tx_q (lk_tx s)) \<noteq> []" by blast
    define s1 where "s1 = link_run [Yield, Send] s"
    have lt: "link_backlog s1 < link_backlog s"
      unfolding s1_def by (rule link_pump_progress [OF less(2)]) fact
    obtain u where u: "link_inv s1 (sent @ u)" using link_run_inv [OF less(2)] s1_def by metis
    have acc: "lk_accepted s1 = lk_accepted s"
      by (simp add: s1_def link_run_def link_receive_def split: option.split prod.split)
    from less(1) [OF lt u] obtain n sent' where
      n: "link_inv (link_run (concat (replicate n [Yield, Send])) s1) ((sent @ u) @ sent')"
        "\<forall>b. oq_frames b (tx_q (lk_tx (link_run (concat (replicate n [Yield, Send])) s1))) = []"
        "lk_accepted (link_run (concat (replicate n [Yield, Send])) s1) = lk_accepted s1"
      by blast
    have "link_run (concat (replicate (Suc n) [Yield, Send])) s = link_run (concat (replicate n [Yield, Send])) s1"
      by (simp add: link_run_def s1_def)
    with n acc show ?thesis by (intro exI [of _ "Suc n"] exI [of _ "u @ sent'"]) simp
  qed
qed

lemma link_inv_summary:
  assumes "link_inv s sent"
  shows "lk_delivered s = map frame_view (map snd sent)" and "lk_faults s = []"
    and "rx_orphans (lk_rx s) = 0" and "rx_truncated (lk_rx s) = 0"
    and "filter (\<lambda>f. frame_bulk f = b) (lk_accepted s) =
      filter (\<lambda>f. frame_bulk f = b) (map snd sent) @ oq_frames b (tx_q (lk_tx s))"
proof -
  obtain w where d: "oq.drained True 8 (tx_q (lk_tx s)) sent w (link_acc s)"
    using assms by (auto simp: link_inv_def Let_def)
  then have eq: "link_acc s e = map snd (filter (\<lambda>(b', f). b' = e) sent) @ oq_frames e (tx_q (lk_tx s))" for e
    by (simp add: oq.drained_def)
  have "frame_bulk f = e" if "(e, f) \<in> set sent" for e f
  proof -
    have "f \<in> set (link_acc s e)" unfolding eq using that by force
    then show ?thesis by (simp add: link_acc_def)
  qed
  then have "filter (\<lambda>f. frame_bulk f = b) (map snd sent) = map snd (filter (\<lambda>(b', f). b' = b) sent)"
    unfolding filter_map by (auto intro!: arg_cong [where f = "map snd"] filter_cong)
  with eq [of b] show "filter (\<lambda>f. frame_bulk f = b) (lk_accepted s) =
      filter (\<lambda>f. frame_bulk f = b) (map snd sent) @ oq_frames b (tx_q (lk_tx s))"
    by (simp add: link_acc_def)
qed (use assms in \<open>simp_all add: link_inv_def Let_def\<close>)

text \<open>The packets of one frame, fed to a receiver in any state.\<close>

fun packet_of :: "wire_unit \<Rightarrow> dh_relay_packet" where
  "packet_of (Preamble n) = start_packet (of_nat n)"
| "packet_of (Piece _ bs) = data_packet bs"

definition frame_packets :: "byte list \<Rightarrow> dh_relay_packet list" where
  "frame_packets f = map packet_of (wire_of True 8 f)"

fun feed_packets ::
  "dh_relay_rx \<Rightarrow> dh_relay_packet list \<Rightarrow> dh_relay_rx \<times> (dh_relay_result \<times> dh_frame_view option) list" where
  "feed_packets r [] = (r, [])"
| "feed_packets r (p # ps) =
     (let (r', x) = dh_relay_rx_push r p; (r'', xs) = feed_packets r' ps in (r'', x # xs))"

lemma feed_data_packets:
  assumes "rx_inv r" and "rx_holds r f c" and "c < length f" and "is_frame f"
  shows "\<exists>r' k. feed_packets r (map packet_of (wire_pieces 8 b (drop c f))) =
      (r', replicate k (DH_RELAY_AGAIN, None) @ [(DH_RELAY_OK, Some (frame_view f))]) \<and>
    rx_inv r' \<and> rx_idle r' \<and> rx_cap r' = rx_cap r \<and> rx_orphans r' = rx_orphans r \<and> rx_truncated r' = rx_truncated r"
  using assms
proof (induction "length f - c" arbitrary: r b c rule: less_induct)
  case less
  define n where "n = min 8 (length f - c)"
  obtain r1 rc x where push: "dh_relay_rx_push r (data_packet (take n (drop c f))) = (r1, rc, x)"
    by (cases "dh_relay_rx_push r (data_packet (take n (drop c f)))") auto
  note dp = data_packet_push [OF less(2-5) n_def push]
  have step: "wire_pieces 8 b (drop c f) = Piece b (take n (drop c f)) # wire_pieces 8 False (drop (c + n) f)"
    using less(4) by (subst wire_pieces.simps) (auto simp: n_def min_def add.commute)
  show ?case
  proof (cases "c + n < length f")
    case True
    then have "length f - (c + n) < length f - c" using less(4) n_def by simp
    from less(1) [OF this dp(1) _ True less(5), of False] dp True obtain r' k where
      "feed_packets r1 (map packet_of (wire_pieces 8 False (drop (c + n) f))) =
        (r', replicate k (DH_RELAY_AGAIN, None) @ [(DH_RELAY_OK, Some (frame_view f))]) \<and>
      rx_inv r' \<and> rx_idle r' \<and> rx_cap r' = rx_cap r1 \<and> rx_orphans r' = rx_orphans r1 \<and> rx_truncated r' = rx_truncated r1"
      by auto
    with push dp True show ?thesis
      by (intro exI [of _ r'] exI [of _ "Suc k"]) (simp add: step)
  next
    case False
    with push dp show ?thesis
      by (intro exI [of _ r1] exI [of _ 0]) (simp add: step)
  qed
qed

lemma feed_frame_packets:
  assumes inv: "rx_inv r" and cap: "unat (rx_cap r) = DH_FRAME_MAX_SIZE" and fr: "is_frame f"
  shows "\<exists>r' k. feed_packets r (frame_packets f) =
      (r', (if rx_expected r = 0 then DH_RELAY_AGAIN else DH_RELAY_ERR_TRUNCATED, None) #
         replicate k (DH_RELAY_AGAIN, None) @ [(DH_RELAY_OK, Some (frame_view f))]) \<and>
    rx_inv r' \<and> rx_idle r' \<and> rx_orphans r' = rx_orphans r \<and>
    rx_truncated r' = (if rx_expected r = 0 then rx_truncated r else rx_truncated r + 1)"
proof -
  define r0 where "r0 = (if rx_expected r = 0 then r
    else r\<lparr>rx_truncated := rx_truncated r + 1, rx_expected := 0, rx_have := 0\<rparr>)"
  define tot :: u16 where "tot = of_nat (length f)"
  obtain h where h: "frame_whole f = Some h" using fr by (auto simp: is_frame_def)
  note wf = whole_frame [OF h]
  have pos: "0 < length f" using wf(2) by linarith
  have tot: "unat tot = length f" using wf(3) by (simp add: tot_def word_conv)
  have r0: "rx_inv r0" "rx_idle r0" "unat (rx_cap r0) = DH_FRAME_MAX_SIZE"
    using inv cap by (auto simp: r0_def rx_inv_def rx_idle_def)
  note sp = start_packet_push [OF r0(1,2) tot fr r0(3)]
  have "dh_relay_rx_push r (start_packet tot) =
    (r0\<lparr>rx_expected := tot\<rparr>, if rx_expected r = 0 then DH_RELAY_AGAIN else DH_RELAY_ERR_TRUNCATED, None)"
    using sp(1) by (auto simp: r0_def dh_relay_rx_push_def rx_push_start_def start_packet_def Let_def split: if_splits)
  moreover have "wire_of True 8 f = Preamble (length f) # wire_pieces 8 True (drop 0 f)"
    by (simp add: wire_of_def wire_part_def)
  moreover obtain r' k where "feed_packets (r0\<lparr>rx_expected := tot\<rparr>) (map packet_of (wire_pieces 8 True (drop 0 f))) =
      (r', replicate k (DH_RELAY_AGAIN, None) @ [(DH_RELAY_OK, Some (frame_view f))]) \<and>
    rx_inv r' \<and> rx_idle r' \<and> rx_orphans r' = rx_orphans r0 \<and> rx_truncated r' = rx_truncated r0"
    using feed_data_packets [OF sp(2,3) pos fr, of True] by auto
  ultimately show ?thesis
    by (intro exI [of _ r'] exI [of _ k]) (simp add: frame_packets_def tot_def [symmetric] r0_def)
qed

section \<open>Properties\<close>

text \<open>C6. Whatever order frames are offered, packets sent and yields taken in, the far board delivers
  exactly frames the relay accepted, whole, and in each band in the order they were accepted; what is
  missing of a band is still queued. No packet is orphaned, no frame truncated and no receiver error
  raised on a link that loses nothing.\<close>

theorem relay_link_fifo:
  "\<exists>sent. let s = link_run ops link_init in
     lk_delivered s = map frame_view sent \<and> lk_faults s = [] \<and>
     rx_orphans (lk_rx s) = 0 \<and> rx_truncated (lk_rx s) = 0 \<and>
     (\<forall>b. filter (\<lambda>f. frame_bulk f = b) (lk_accepted s) =
        filter (\<lambda>f. frame_bulk f = b) sent @ oq_frames b (tx_q (lk_tx s)))"
proof -
  obtain sent where "link_inv (link_run ops link_init) ([] @ sent)"
    using link_run_inv [OF link_inv_init] .
  from link_inv_summary [OF this] show ?thesis
    by (intro exI [of _ "map snd sent"]) (simp add: Let_def)
qed

text \<open>C24. The relay never strands a frame: after any history of offers, sends and yields, finitely many
  rounds of yield and send empty the queue, and then each band's deliveries are all the frames the relay
  accepted for it, in order.\<close>

theorem relay_link_drains:
  "\<exists>n sent. let s = link_run (ops @ concat (replicate n [Yield, Send])) link_init in
     lk_accepted s = lk_accepted (link_run ops link_init) \<and> lk_delivered s = map frame_view sent \<and>
     lk_faults s = [] \<and> \<not> dh_relay_tx_busy (lk_tx s) \<and>
     (\<forall>b. filter (\<lambda>f. frame_bulk f = b) sent = filter (\<lambda>f. frame_bulk f = b) (lk_accepted s))"
proof -
  obtain sent where i: "link_inv (link_run ops link_init) ([] @ sent)"
    using link_run_inv [OF link_inv_init] .
  from link_drains [OF this] obtain n sent' where
    d: "link_inv (link_run (ops @ concat (replicate n [Yield, Send])) link_init) (sent @ sent')"
      "\<forall>b. oq_frames b (tx_q (lk_tx (link_run (ops @ concat (replicate n [Yield, Send])) link_init))) = []"
      "lk_accepted (link_run (ops @ concat (replicate n [Yield, Send])) link_init) = lk_accepted (link_run ops link_init)"
    by (auto simp: link_run_def)
  have oinv: "outq_inv (tx_q (lk_tx (link_run (ops @ concat (replicate n [Yield, Send])) link_init)))"
    using d(1) by (auto simp: link_inv_def Let_def oq.drained_def)
  have "\<not> dh_relay_tx_busy (lk_tx (link_run (ops @ concat (replicate n [Yield, Send])) link_init))"
    using d(2) oq_frames_Nil [OF oinv, of True] oq_frames_Nil [OF oinv, of False]
    by (simp add: dh_relay_tx_busy_def dh_outq_busy_def oq_lane_def)
  with link_inv_summary [OF d(1)] d(2,3) show ?thesis
    by (intro exI [of _ n] exI [of _ "map snd (sent @ sent')"]) (simp add: Let_def)
qed

text \<open>Recovery after loss: in whatever state packets lost or repeated have left the receiver, the
  packets of one whole frame deliver exactly that frame with the last of them. An unfinished frame
  before it is abandoned, reported and counted once, and never delivered.\<close>

theorem relay_rx_recovers:
  assumes "rx_inv r" and "unat (rx_cap r) = DH_FRAME_MAX_SIZE" and "is_frame f"
  shows "\<exists>r' k. feed_packets r (frame_packets f) =
      (r', (if rx_expected r = 0 then DH_RELAY_AGAIN else DH_RELAY_ERR_TRUNCATED, None) #
         replicate k (DH_RELAY_AGAIN, None) @ [(DH_RELAY_OK, Some (frame_view f))]) \<and>
    rx_inv r' \<and> rx_idle r' \<and> rx_orphans r' = rx_orphans r \<and>
    rx_truncated r' = (if rx_expected r = 0 then rx_truncated r else rx_truncated r + 1)"
  using assms by (rule feed_frame_packets)

definition rx_midframe :: dh_relay_rx where
  "rx_midframe =
     \<lparr>rx_buf = replicate 4100 7, rx_cap = 4100, rx_expected = 100, rx_have = 16, rx_orphans = 2, rx_truncated = 3\<rparr>"

lemma place_is_frame: "is_frame [0x20, 0, 1, 0, 9]"
  by (simp add: is_frame_def frame_whole_def dh_frame_header_parse_def dh_msg_type_known_def dh_msg_types_def
      of_le16_def)

theorem relay_rx_recovers_witness:
  "rx_inv rx_midframe \<and>
   (\<exists>r' k. feed_packets rx_midframe (frame_packets [0x20, 0, 1, 0, 9]) =
      (r', (DH_RELAY_ERR_TRUNCATED, None) #
         replicate k (DH_RELAY_AGAIN, None) @ [(DH_RELAY_OK, Some (frame_view [0x20, 0, 1, 0, 9]))]) \<and>
    rx_truncated r' = 4)"
proof -
  have inv: "rx_inv rx_midframe" by (simp add: rx_inv_def rx_midframe_def)
  have "unat (rx_cap rx_midframe) = DH_FRAME_MAX_SIZE" "rx_expected rx_midframe \<noteq> 0" "rx_truncated rx_midframe = 3"
    by (simp_all add: rx_midframe_def)
  with relay_rx_recovers [OF inv _ place_is_frame] inv show ?thesis by auto
qed

text \<open>No packet, of whatever kind, content or arrival order, takes the receiver out of its bounds: the
  reassembly buffer keeps its size, the bytes held stay below the length announced, and that length
  stays within the buffer.\<close>

theorem relay_rx_bounded:
  assumes "rx_inv r" and "list_all packet_ok ps"
  shows "rx_inv (fst (feed_packets r ps))"
  using assms
proof (induction ps arbitrary: r)
  case Nil
  then show ?case by simp
next
  case (Cons p ps)
  obtain r' rc v where p: "dh_relay_rx_push r p = (r', rc, v)"
    by (cases "dh_relay_rx_push r p") auto
  have "rx_inv r'" using rx_push_inv [OF Cons(2) _ p] Cons(3) by simp
  with Cons p show ?case by (simp add: split_beta)
qed

theorem relay_rx_bounded_witness:
  "rx_inv (fst (feed_packets rx_midframe [data_packet [1, 2, 3], start_packet 9, data_packet [4], data_packet []]))"
  by (rule relay_rx_bounded)
     (simp_all add: rx_inv_def rx_midframe_def packet_ok_def data_packet_def start_packet_def blit_def)

end
