(* ===== verification/DH_Sha256.thy ===== *)
theory DH_Sha256
  imports DH_Prelude
begin

text \<open>
  SHA-256, HMAC-SHA256 and HKDF-SHA256 (\<open>src/src/core/dh_sha256.h\<close>, \<open>dh_sha256.c\<close>): the compression
  function, the streaming context with its partial block, the streaming MAC and the key derivation.
  The reference definitions are FIPS 180-4's padding and block iteration over the whole message,
  RFC 2104's two nested hashes and RFC 5869's chain of blocks; the streaming code is proved to compute
  them however the message is cut.
\<close>

section \<open>Model\<close>

abbreviation (input) DH_SHA256_DIGEST_SIZE :: nat where "DH_SHA256_DIGEST_SIZE \<equiv> 32"
abbreviation (input) DH_SHA256_BLOCK_SIZE :: nat where "DH_SHA256_BLOCK_SIZE \<equiv> 64"
abbreviation (input) DH_HKDF_MAX_OUTPUT :: nat where "DH_HKDF_MAX_OUTPUT \<equiv> 8160"

definition DH_SHA256_K :: "u32 list" where
  "DH_SHA256_K = concat [
    [0x428a2f98, 0x71374491, 0xb5c0fbcf, 0xe9b5dba5, 0x3956c25b, 0x59f111f1, 0x923f82a4],
    [0xab1c5ed5, 0xd807aa98, 0x12835b01, 0x243185be, 0x550c7dc3, 0x72be5d74, 0x80deb1fe],
    [0x9bdc06a7, 0xc19bf174, 0xe49b69c1, 0xefbe4786, 0x0fc19dc6, 0x240ca1cc, 0x2de92c6f],
    [0x4a7484aa, 0x5cb0a9dc, 0x76f988da, 0x983e5152, 0xa831c66d, 0xb00327c8, 0xbf597fc7],
    [0xc6e00bf3, 0xd5a79147, 0x06ca6351, 0x14292967, 0x27b70a85, 0x2e1b2138, 0x4d2c6dfc],
    [0x53380d13, 0x650a7354, 0x766a0abb, 0x81c2c92e, 0x92722c85, 0xa2bfe8a1, 0xa81a664b],
    [0xc24b8b70, 0xc76c51a3, 0xd192e819, 0xd6990624, 0xf40e3585, 0x106aa070, 0x19a4c116],
    [0x1e376c08, 0x2748774c, 0x34b0bcb5, 0x391c0cb3, 0x4ed8aa4a, 0x5b9cca4f, 0x682e6ff3],
    [0x748f82ee, 0x78a5636f, 0x84c87814, 0x8cc70208, 0x90befffa, 0xa4506ceb, 0xbef9a3f7],
    [0xc67178f2]]"

definition rotr32 :: "u32 \<Rightarrow> nat \<Rightarrow> u32" where
  "rotr32 x n = drop_bit n x OR push_bit (32 - n) x"

definition load_be32 :: "byte list \<Rightarrow> u32" where
  "load_be32 p =
     push_bit 24 (ucast (p ! 0)) OR push_bit 16 (ucast (p ! 1)) OR push_bit 8 (ucast (p ! 2)) OR ucast (p ! 3)"

definition store_be32 :: "u32 \<Rightarrow> byte list" where
  "store_be32 v = [ucast (drop_bit 24 v), ucast (drop_bit 16 v), ucast (drop_bit 8 v), ucast v]"

definition sha256_schedule :: "byte list \<Rightarrow> u32 list" where
  "sha256_schedule block =
     foldl (\<lambda>w i.
         let s0 = rotr32 (w ! (i - 15)) 7 XOR rotr32 (w ! (i - 15)) 18 XOR drop_bit 3 (w ! (i - 15));
             s1 = rotr32 (w ! (i - 2)) 17 XOR rotr32 (w ! (i - 2)) 19 XOR drop_bit 10 (w ! (i - 2)) in
         w @ [w ! (i - 16) + s0 + w ! (i - 7) + s1])
       (map (\<lambda>i. load_be32 (drop (i * 4) block)) [0..<16]) [16..<64]"

definition sha256_round :: "u32 list \<Rightarrow> u32 list \<Rightarrow> nat \<Rightarrow> u32 list" where
  "sha256_round w v i =
     (let a = v ! 0; b = v ! 1; c = v ! 2; d = v ! 3; e = v ! 4; f = v ! 5; g = v ! 6; h = v ! 7;
          s1 = rotr32 e 6 XOR rotr32 e 11 XOR rotr32 e 25;
          ch = (e AND f) XOR (NOT e AND g);
          t1 = h + s1 + ch + DH_SHA256_K ! i + w ! i;
          s0 = rotr32 a 2 XOR rotr32 a 13 XOR rotr32 a 22;
          maj = (a AND b) XOR (a AND c) XOR (b AND c);
          t2 = s0 + maj in
      [t1 + t2, a, b, c, d + t1, e, f, g])"

definition dh_sha256_compress :: "u32 list \<Rightarrow> byte list \<Rightarrow> u32 list" where
  "dh_sha256_compress state block =
     map2 (+) state (foldl (sha256_round (sha256_schedule block)) state [0..<64])"

record dh_sha256_ctx =
  sc_state :: "u32 list"
  sc_bits :: u64
  sc_block :: "byte list"
  sc_have :: nat

definition sha256_iv :: "u32 list" where
  "sha256_iv = [0x6a09e667, 0xbb67ae85, 0x3c6ef372, 0xa54ff53a, 0x510e527f, 0x9b05688c, 0x1f83d9ab, 0x5be0cd19]"

definition dh_sha256_init :: dh_sha256_ctx where
  "dh_sha256_init =
     \<lparr>sc_state = sha256_iv, sc_bits = 0, sc_block = replicate DH_SHA256_BLOCK_SIZE 0, sc_have = 0\<rparr>"

text \<open>The loop over the whole blocks of the input: the state after it and the bytes left over.\<close>

function (sequential) sha256_blocks :: "u32 list \<Rightarrow> byte list \<Rightarrow> u32 list \<times> byte list" where
  "sha256_blocks state data =
     (if length data \<ge> DH_SHA256_BLOCK_SIZE
      then sha256_blocks (dh_sha256_compress state (take DH_SHA256_BLOCK_SIZE data)) (drop DH_SHA256_BLOCK_SIZE data)
      else (state, data))"
  by pat_completeness auto
termination by (relation "measure (\<lambda>(state, data). length data)") auto

declare sha256_blocks.simps [simp del]

definition sha256_update_rest :: "dh_sha256_ctx \<Rightarrow> byte list \<Rightarrow> dh_sha256_ctx" where
  "sha256_update_rest c data =
     (let (state, rest) = sha256_blocks (sc_state c) data; c = c\<lparr>sc_state := state\<rparr> in
      if length rest > 0 then c\<lparr>sc_block := blit (sc_block c) 0 rest, sc_have := length rest\<rparr> else c)"

definition dh_sha256_update :: "dh_sha256_ctx \<Rightarrow> byte list \<Rightarrow> dh_sha256_ctx" where
  "dh_sha256_update c0 data =
     (let c = c0\<lparr>sc_bits := sc_bits c0 + of_nat (length data) * 8\<rparr> in
      if sc_have c > 0 then
        let want = DH_SHA256_BLOCK_SIZE - sc_have c;
            n = (if length data < want then length data else want);
            c = c\<lparr>sc_block := blit (sc_block c) (sc_have c) (take n data), sc_have := sc_have c + n\<rparr> in
        if sc_have c < DH_SHA256_BLOCK_SIZE then c
        else sha256_update_rest
          (c\<lparr>sc_state := dh_sha256_compress (sc_state c) (sc_block c), sc_have := 0\<rparr>) (drop n data)
      else sha256_update_rest c data)"

definition dh_sha256_final :: "dh_sha256_ctx \<Rightarrow> byte list" where
  "dh_sha256_final c =
     (let bits = sc_bits c;
          c = (dh_sha256_update c [0x80])\<lparr>sc_bits := bits\<rparr>;
          pad = (if sc_have c \<le> 56 then 56 - sc_have c else 120 - sc_have c);
          c = (if pad > 0 then (dh_sha256_update c (replicate pad 0))\<lparr>sc_bits := bits\<rparr> else c);
          c = dh_sha256_update c (map (\<lambda>i. ucast (drop_bit (56 - i * 8) bits)) [0..<8]) in
      concat (map store_be32 (sc_state c)))"

definition dh_sha256 :: "byte list \<Rightarrow> byte list" where
  "dh_sha256 data = dh_sha256_final (dh_sha256_update dh_sha256_init data)"

record dh_hmac_sha256_ctx =
  hm_inner :: dh_sha256_ctx
  hm_opad :: "byte list"

definition hmac_key_block :: "byte list \<Rightarrow> byte list" where
  "hmac_key_block key =
     (let block = replicate DH_SHA256_BLOCK_SIZE 0 in
      if length key > DH_SHA256_BLOCK_SIZE then blit block 0 (dh_sha256 key)
      else if length key > 0 then blit block 0 key else block)"

definition dh_hmac_sha256_init :: "byte list \<Rightarrow> dh_hmac_sha256_ctx" where
  "dh_hmac_sha256_init key =
     (let block = hmac_key_block key in
      \<lparr>hm_inner = dh_sha256_update dh_sha256_init (map (\<lambda>b. b XOR 0x36) block),
       hm_opad = map (\<lambda>b. b XOR 0x5c) block\<rparr>)"

definition dh_hmac_sha256_update :: "dh_hmac_sha256_ctx \<Rightarrow> byte list \<Rightarrow> dh_hmac_sha256_ctx" where
  "dh_hmac_sha256_update c data = c\<lparr>hm_inner := dh_sha256_update (hm_inner c) data\<rparr>"

definition dh_hmac_sha256_final :: "dh_hmac_sha256_ctx \<Rightarrow> byte list" where
  "dh_hmac_sha256_final c =
     (let inner = dh_sha256_final (hm_inner c) in
      dh_sha256_final (dh_sha256_update (dh_sha256_update dh_sha256_init (hm_opad c)) inner))"

definition dh_hmac_sha256 :: "byte list \<Rightarrow> byte list \<Rightarrow> byte list" where
  "dh_hmac_sha256 key data = dh_hmac_sha256_final (dh_hmac_sha256_update (dh_hmac_sha256_init key) data)"

definition hkdf_block :: "byte list \<Rightarrow> byte list \<Rightarrow> byte \<Rightarrow> byte list \<Rightarrow> byte list" where
  "hkdf_block prk info counter block =
     (let c = dh_hmac_sha256_init prk;
          c = (if counter > 1 then dh_hmac_sha256_update c block else c);
          c = (if length info > 0 then dh_hmac_sha256_update c info else c);
          c = dh_hmac_sha256_update c [counter] in
      dh_hmac_sha256_final c)"

text \<open>The expand loop; \<open>out\<close> is what has been written so far. Each pass writes at least one byte as long
  as the MAC has 32 of them, which is what the \<open>min\<close> with a full block in the source relies on.\<close>

function (sequential) hkdf_expand :: "byte list \<Rightarrow> byte list \<Rightarrow> nat \<Rightarrow> byte \<Rightarrow> byte list \<Rightarrow> byte list \<Rightarrow> byte list" where
  "hkdf_expand prk info out_len counter block out =
     (if length out < out_len then
        let counter = counter + 1; block = hkdf_block prk info counter block;
            n = min (out_len - length out) DH_SHA256_DIGEST_SIZE in
        if length block < DH_SHA256_DIGEST_SIZE then out
        else hkdf_expand prk info out_len counter block (out @ take n block)
      else out)"
  by pat_completeness auto
termination
  by (relation "measure (\<lambda>(prk, info, out_len, counter, block, out). out_len - length out)") auto

declare hkdf_expand.simps [simp del]

text \<open>An out-of-contract length writes nothing: \<open>None\<close>.\<close>

definition dh_hkdf_sha256 :: "byte list \<Rightarrow> byte list \<Rightarrow> byte list \<Rightarrow> nat \<Rightarrow> (byte list) option" where
  "dh_hkdf_sha256 ikm salt info out_len =
     (if out_len > DH_HKDF_MAX_OUTPUT then None
      else Some (hkdf_expand (dh_hmac_sha256 salt ikm) info out_len 0 [] []))"

section \<open>Reference definitions\<close>

text \<open>FIPS 180-4: pad the whole message, then compress its blocks in order.\<close>

definition sha256_padded :: "byte list \<Rightarrow> byte list" where
  "sha256_padded m =
     m @ [0x80] @ replicate ((119 - length m mod 64) mod 64) 0 @
     map (\<lambda>i. ucast (drop_bit (56 - i * 8) (of_nat (length m) * 8 :: u64))) [0..<8]"

definition sha256_spec :: "byte list \<Rightarrow> byte list" where
  "sha256_spec m = concat (map store_be32 (fst (sha256_blocks sha256_iv (sha256_padded m))))"

definition hmac_spec :: "byte list \<Rightarrow> byte list \<Rightarrow> byte list" where
  "hmac_spec key m =
     (let k = (if length key > 64 then sha256_spec key else key);
          k = k @ replicate (64 - length k) 0 in
      sha256_spec (map (\<lambda>b. b XOR 0x5c) k @ sha256_spec (map (\<lambda>b. b XOR 0x36) k @ m)))"

text \<open>RFC 5869: \<open>T(0)\<close> is empty and \<open>T(n) = HMAC(prk, T(n-1) | info | n)\<close>.\<close>

fun hkdf_T :: "byte list \<Rightarrow> byte list \<Rightarrow> nat \<Rightarrow> byte list" where
  "hkdf_T prk info 0 = []"
| "hkdf_T prk info (Suc n) = hmac_spec prk (hkdf_T prk info n @ info @ [of_nat (Suc n)])"

definition hkdf_spec :: "byte list \<Rightarrow> byte list \<Rightarrow> byte list \<Rightarrow> nat \<Rightarrow> byte list" where
  "hkdf_spec ikm salt info len =
     take len (concat (map (\<lambda>n. hkdf_T (hmac_spec salt ikm) info (Suc n)) [0..<(len + 31) div 32]))"

section \<open>The streaming context\<close>

lemma sha256_blocks_short: "length d < 64 \<Longrightarrow> sha256_blocks st d = (st, d)"
  by (simp add: sha256_blocks.simps)

lemma sha256_blocks_block: "length b = 64 \<Longrightarrow> sha256_blocks st (b @ d) = sha256_blocks (dh_sha256_compress st b) d"
  by (subst sha256_blocks.simps) simp

lemma sha256_blocks_append:
  "sha256_blocks st (a @ b) = (let (st', r) = sha256_blocks st a in sha256_blocks st' (r @ b))"
proof (induction st a rule: sha256_blocks.induct)
  case (1 st a)
  show ?case
  proof (cases "64 \<le> length a")
    case True
    then have "sha256_blocks st (a @ b) =
        sha256_blocks (dh_sha256_compress st (take 64 a)) (drop 64 a @ b)"
      using sha256_blocks_block [of "take 64 a" st "drop 64 a @ b"] by (simp flip: append_assoc)
    moreover have "sha256_blocks st a = sha256_blocks (dh_sha256_compress st (take 64 a)) (drop 64 a)"
      using True by (subst sha256_blocks.simps) simp
    ultimately show ?thesis using 1 [OF True] by simp
  next
    case False
    then show ?thesis by (simp add: sha256_blocks_short)
  qed
qed

lemma sha256_blocks_rest: "length (snd (sha256_blocks st d)) = length d mod 64"
  by (induction st d rule: sha256_blocks.induct)
     (subst sha256_blocks.simps, auto simp: le_mod_geq)

text \<open>A context that has absorbed the message \<open>m\<close>.\<close>

definition absorbed :: "byte list \<Rightarrow> dh_sha256_ctx \<Rightarrow> bool" where
  "absorbed m c =
     (length (sc_block c) = 64 \<and> sc_have c < 64 \<and>
      sha256_blocks sha256_iv m = (sc_state c, take (sc_have c) (sc_block c)))"

lemma absorbed_have: "absorbed m c \<Longrightarrow> sc_have c = length m mod 64"
  using sha256_blocks_rest [of sha256_iv m] by (simp add: absorbed_def)

lemma absorbed_bits [simp]: "absorbed m (c\<lparr>sc_bits := x\<rparr>) = absorbed m c"
  by (simp add: absorbed_def)

lemma sha256_update_bits:
  "sc_bits (dh_sha256_update c d) = sc_bits c + of_nat (length d) * 8"
  by (simp add: dh_sha256_update_def sha256_update_rest_def Let_def split_beta)

lemma update_rest_absorbed:
  assumes "length (sc_block c) = 64" and "sc_have c = 0"
    and "sha256_blocks sha256_iv m = sha256_blocks (sc_state c) d"
  shows "absorbed m (sha256_update_rest c d)"
proof -
  obtain st r where b: "sha256_blocks (sc_state c) d = (st, r)" by (cases "sha256_blocks (sc_state c) d")
  have "length r < 64" using sha256_blocks_rest [of "sc_state c" d] b by simp
  with assms b show ?thesis
    by (auto simp: sha256_update_rest_def absorbed_def blit_simps Let_def)
qed

lemma update_absorbed:
  assumes "absorbed m c"
  shows "absorbed (m @ d) (dh_sha256_update c d)"
proof -
  have len: "length (sc_block c) = 64" and hv: "sc_have c < 64"
    and m: "sha256_blocks sha256_iv m = (sc_state c, take (sc_have c) (sc_block c))"
    using assms by (simp_all add: absorbed_def)
  have md: "sha256_blocks sha256_iv (m @ d) = sha256_blocks (sc_state c) (take (sc_have c) (sc_block c) @ d)"
    by (subst sha256_blocks_append) (simp add: m)
  define n where "n = min (length d) (64 - sc_have c)"
  define blk where "blk = blit (sc_block c) (sc_have c) (take n d)"
  have "n \<le> length d" "n \<le> 64 - sc_have c" by (simp_all only: n_def min.cobounded1 min.cobounded2)
  then have n: "length (take n d) = n" "sc_have c + n \<le> 64" using hv by (simp, linarith)
  have blk: "length blk = 64" "take (sc_have c + n) blk = take (sc_have c) (sc_block c) @ take n d"
    using length_blit [of "sc_have c" "take n d" "sc_block c"] take_blit [of "sc_have c" "sc_block c" "take n d"]
    unfolding n len blk_def [symmetric] using hv n by simp_all
  consider "sc_have c = 0" | "sc_have c > 0" "sc_have c + n < 64" | "sc_have c > 0" "sc_have c + n = 64"
    using n(2) by linarith
  then show ?thesis
  proof cases
    case 1
    then show ?thesis
      using update_rest_absorbed [of "c\<lparr>sc_bits := sc_bits c + of_nat (length d) * 8\<rparr>" "m @ d" d] len md
      by (simp add: dh_sha256_update_def)
  next
    case 2
    then have nd: "n = length d" by (auto simp: n_def)
    have "dh_sha256_update c d =
      c\<lparr>sc_bits := sc_bits c + of_nat (length d) * 8, sc_block := blk, sc_have := sc_have c + n\<rparr>"
      using 2 nd by (simp add: dh_sha256_update_def Let_def blk_def)
    with 2 nd blk md show ?thesis
      by (simp add: absorbed_def sha256_blocks_short)
  next
    case 3
    then have n64: "\<not> length d < 64 - sc_have c" "n = 64 - sc_have c" using hv by (auto simp: n_def)
    define c1 where "c1 = c\<lparr>sc_bits := sc_bits c + of_nat (length d) * 8, sc_block := blk,
      sc_state := dh_sha256_compress (sc_state c) blk, sc_have := 0\<rparr>"
    have u: "dh_sha256_update c d = sha256_update_rest c1 (drop n d)"
      using 3 n64 by (simp add: dh_sha256_update_def Let_def blk_def c1_def)
    have b: "blk = take (sc_have c) (sc_block c) @ take n d" using blk 3 by simp
    have "sha256_blocks sha256_iv (m @ d) = sha256_blocks (dh_sha256_compress (sc_state c) blk) (drop n d)"
      unfolding md using sha256_blocks_block [OF blk(1), of "sc_state c" "drop n d"] b by simp
    then show ?thesis
      unfolding u using blk by (intro update_rest_absorbed) (simp_all add: c1_def)
  qed
qed

lemma init_absorbed: "absorbed [] dh_sha256_init"
  by (simp add: absorbed_def dh_sha256_init_def sha256_blocks_short)

lemma sha256_pad_count:
  fixes r h :: nat
  assumes "r < 64" and "h = (if Suc r = 64 then 0 else Suc r)"
  shows "(if h \<le> 56 then 56 - h else 120 - h) = (119 - r) mod 64"
proof (cases "r \<le> 55")
  case True
  then have "119 - r = 64 + (55 - r)" by simp
  then have "(119 - r) mod 64 = (55 - r) mod 64" by (simp only: mod_add_self1)
  also have "\<dots> = 55 - r" by (rule mod_less) linarith
  finally show ?thesis using True assms by simp
next
  case False
  then have "(119 - r) mod 64 = 119 - r" by (intro mod_less) linarith
  then show ?thesis using False assms by auto
qed

lemma final_absorbed:
  assumes c: "absorbed m c" and bits: "sc_bits c = of_nat (length m) * 8"
  shows "dh_sha256_final c = sha256_spec m"
proof -
  define c1 where "c1 = (dh_sha256_update c [0x80])\<lparr>sc_bits := sc_bits c\<rparr>"
  have c1: "absorbed (m @ [0x80]) c1" using update_absorbed [OF c] by (simp add: c1_def)
  define pad where "pad = (if sc_have c1 \<le> 56 then 56 - sc_have c1 else 120 - sc_have c1)"
  define c2 where "c2 = (if pad > 0 then (dh_sha256_update c1 (replicate pad 0))\<lparr>sc_bits := sc_bits c\<rparr> else c1)"
  have c2: "absorbed ((m @ [0x80]) @ replicate pad 0) c2"
    using c1 update_absorbed [OF c1, of "replicate pad 0"] by (simp add: c2_def)
  define c3 where "c3 = dh_sha256_update c2 (map (\<lambda>i. ucast (drop_bit (56 - i * 8) (sc_bits c))) [0..<8])"
  have "sc_have c1 = Suc (length m) mod 64" using absorbed_have [OF c1] by simp
  then have pad: "pad = (119 - length m mod 64) mod 64"
    unfolding pad_def by (intro sha256_pad_count) (simp_all only: mod_Suc mod_less_divisor zero_less_numeral)
  have "absorbed (sha256_padded m) c3"
    using update_absorbed [OF c2] unfolding c3_def pad bits sha256_padded_def by simp
  then have "sc_state c3 = fst (sha256_blocks sha256_iv (sha256_padded m))"
    by (simp add: absorbed_def)
  moreover have "dh_sha256_final c = concat (map store_be32 (sc_state c3))"
    unfolding dh_sha256_final_def Let_def c3_def c2_def pad_def c1_def ..
  ultimately show ?thesis
    by (simp only: sha256_spec_def)
qed

section \<open>Streaming hash interface\<close>

text \<open>A hash that can be fed in pieces: the result depends on the concatenation of the pieces only. The
  MAC is a client of this law.\<close>

locale stream_hash =
  fixes init :: 'c and update :: "'c \<Rightarrow> byte list \<Rightarrow> 'c" and final :: "'c \<Rightarrow> byte list" and H :: "byte list \<Rightarrow> byte list"
  assumes stream: "final (foldl update init xs) = H (concat xs)"
begin

lemma one_shot: "final (update init m) = H m"
  using stream [of "[m]"] by simp

lemma two_pieces: "final (update (update init a) b) = H (a @ b)"
  using stream [of "[a, b]"] by simp

lemma pieces_after: "final (foldl update (update init a) xs) = H (a @ concat xs)"
  using stream [of "a # xs"] by simp

end

lemma sha256_stream: "dh_sha256_final (foldl dh_sha256_update dh_sha256_init xs) = sha256_spec (concat xs)"
proof (rule final_absorbed)
  show "absorbed (concat xs) (foldl dh_sha256_update dh_sha256_init xs)"
    by (induction xs rule: rev_induct) (simp_all add: init_absorbed update_absorbed)
  show "sc_bits (foldl dh_sha256_update dh_sha256_init xs) = of_nat (length (concat xs)) * 8"
    by (induction xs rule: rev_induct)
       (simp_all add: dh_sha256_init_def sha256_update_bits distrib_right)
qed

interpretation sha: stream_hash dh_sha256_init dh_sha256_update dh_sha256_final sha256_spec
  by unfold_locales (rule sha256_stream)

lemma dh_sha256_eq: "dh_sha256 m = sha256_spec m"
  by (simp add: dh_sha256_def sha.one_shot)

section \<open>HMAC and HKDF\<close>

lemma compress_length: "length st = 8 \<Longrightarrow> length (dh_sha256_compress st b) = 8"
proof -
  assume st: "length st = 8"
  have "length (foldl (sha256_round w) st is) = 8" for w "is"
    by (induction "is" rule: rev_induct) (simp_all add: st sha256_round_def Let_def)
  with st show ?thesis by (simp add: dh_sha256_compress_def)
qed

lemma sha256_blocks_length: "length st = 8 \<Longrightarrow> length (fst (sha256_blocks st m)) = 8"
  by (induction st m rule: sha256_blocks.induct) (subst sha256_blocks.simps, simp add: compress_length)

lemma concat_words_length: "length (concat (map store_be32 ws)) = 4 * length ws"
  by (induction ws) (simp_all add: store_be32_def)

lemma sha256_spec_length [simp]: "length (sha256_spec m) = 32"
  by (simp add: sha256_spec_def concat_words_length sha256_blocks_length sha256_iv_def)

lemma hmac_key_block_eq:
  "hmac_key_block key =
     (let k = (if length key > 64 then sha256_spec key else key) in k @ replicate (64 - length k) 0)"
  by (auto simp: hmac_key_block_def Let_def dh_sha256_eq blit_def)

lemma hmac_stream:
  "dh_hmac_sha256_final (foldl dh_hmac_sha256_update (dh_hmac_sha256_init key) xs) = hmac_spec key (concat xs)"
proof -
  have "foldl dh_hmac_sha256_update c xs = c\<lparr>hm_inner := foldl dh_sha256_update (hm_inner c) xs\<rparr>" for c
    by (induction xs arbitrary: c) (simp_all add: dh_hmac_sha256_update_def)
  then show ?thesis
    by (simp add: dh_hmac_sha256_final_def dh_hmac_sha256_init_def Let_def sha.pieces_after sha.two_pieces
        hmac_key_block_eq hmac_spec_def)
qed

interpretation mac: stream_hash "dh_hmac_sha256_init key" dh_hmac_sha256_update dh_hmac_sha256_final "hmac_spec key"
  for key
  by unfold_locales (rule hmac_stream)

lemma dh_hmac_sha256_eq: "dh_hmac_sha256 key m = hmac_spec key m"
  by (simp add: dh_hmac_sha256_def mac.one_shot)

lemma hmac_spec_length [simp]: "length (hmac_spec key m) = 32"
  by (simp add: hmac_spec_def Let_def)

lemma hkdf_T_length: "length (hkdf_T prk info (Suc n)) = 32"
  by simp

lemma hkdf_block_eq:
  assumes "n < 255"
  shows "hkdf_block prk info (of_nat (Suc n)) (hkdf_T prk info n) = hkdf_T prk info (Suc n)"
proof -
  define w :: byte where "w = of_nat (Suc n)"
  have "unat w = Suc n" using assms unfolding w_def by (intro unat_of_nat_small) simp
  then have gt: "w > 1 \<longleftrightarrow> n > 0" by (auto simp: word_less_nat_alt)
  have "dh_hmac_sha256_final (foldl dh_hmac_sha256_update (dh_hmac_sha256_init prk)
      ((if w > 1 then [hkdf_T prk info n] else []) @ (if length info > 0 then [info] else []) @ [[w]])) =
    hmac_spec prk (hkdf_T prk info n @ info @ [w])"
    unfolding hmac_stream using gt by (cases n) auto
  then have "hkdf_block prk info w (hkdf_T prk info n) = hmac_spec prk (hkdf_T prk info n @ info @ [w])"
    by (simp add: hkdf_block_def Let_def split: if_splits)
  then show ?thesis
    unfolding hkdf_T.simps w_def .
qed

lemma hkdf_expand_eq:
  assumes "n * 32 \<le> out_len + 31" and "out_len \<le> 8160" and "out = take out_len (concat (map (\<lambda>k. hkdf_T prk info (Suc k)) [0..<n]))"
  shows "hkdf_expand prk info out_len (of_nat n) (hkdf_T prk info n) out =
    take out_len (concat (map (\<lambda>k. hkdf_T prk info (Suc k)) [0..<(out_len + 31) div 32]))"
  using assms
proof (induction "out_len - length out" arbitrary: n out rule: less_induct)
  case less
  define C where "C m = concat (map (\<lambda>k. hkdf_T prk info (Suc k)) [0..<m])" for m
  have CL: "length (C m) = 32 * m" for m
    by (induction m) (simp_all add: C_def hkdf_T_length del: hkdf_T.simps)
  have out: "out = take out_len (C n)" using less(4) by (simp add: C_def)
  show ?case
  proof (cases "length out < out_len")
    case True
    then have lt: "32 * n < out_len" and o: "out = C n" using CL by (auto simp: out)
    then have n: "n < 255" using less(3) by linarith
    let ?T = "hkdf_T prk info (Suc n)"
    have nx: "out @ take (min (out_len - length out) 32) ?T = take out_len (C (Suc n))"
    proof -
      have "C (Suc n) = C n @ ?T" by (simp add: C_def del: hkdf_T.simps)
      with o lt CL [of n] hkdf_T_length [of prk info n] show ?thesis
        by (simp add: min_def del: hkdf_T.simps)
    qed
    have "hkdf_expand prk info out_len (of_nat n) (hkdf_T prk info n) out =
      hkdf_expand prk info out_len (of_nat (Suc n)) ?T (take out_len (C (Suc n)))"
      using True hkdf_block_eq [OF n, of prk info] hkdf_T_length [of prk info n] nx
      by (subst hkdf_expand.simps) (simp add: Let_def add.commute del: hkdf_T.simps)
    also have "\<dots> = take out_len (concat (map (\<lambda>k. hkdf_T prk info (Suc k)) [0..<(out_len + 31) div 32]))"
    proof (rule less(1))
      show "out_len - length (take out_len (C (Suc n))) < out_len - length out"
        using lt o CL [of n] CL [of "Suc n"] by simp
      show "Suc n * 32 \<le> out_len + 31" using lt by simp
    qed (use less(3) in \<open>simp_all add: C_def\<close>)
    finally show ?thesis .
  next
    case False
    then have "out_len \<le> 32 * n" using CL [of n] by (simp add: out)
    then have "(out_len + 31) div 32 = n"
      using less(2) by (intro div_nat_eqI) simp_all
    then show ?thesis
      using False less(4) by (subst hkdf_expand.simps) (simp add: C_def)
  qed
qed

section \<open>Properties\<close>

text \<open>SHA-256 as streamed by the code, over any cutting of the message into pieces, empty ones
  included, is FIPS 180-4's hash of the whole message.\<close>

theorem sha256_streaming:
  "dh_sha256_final (foldl dh_sha256_update dh_sha256_init xs) = sha256_spec (concat xs)"
  by (rule sha256_stream)

text \<open>The streaming MAC is RFC 2104's HMAC of the concatenated message under any key length, and the
  key derivation is RFC 5869's expansion, 32 bytes per block with the one-byte counter never wrapping;
  a request beyond 255 blocks writes nothing.\<close>

theorem hmac_hkdf_conform:
  "dh_hmac_sha256_final (foldl dh_hmac_sha256_update (dh_hmac_sha256_init key) xs) = hmac_spec key (concat xs) \<and>
   dh_hkdf_sha256 ikm salt info n = (if n \<le> DH_HKDF_MAX_OUTPUT then Some (hkdf_spec ikm salt info n) else None)"
proof
  show "dh_hkdf_sha256 ikm salt info n = (if n \<le> DH_HKDF_MAX_OUTPUT then Some (hkdf_spec ikm salt info n) else None)"
    using hkdf_expand_eq [of 0 n "[]" "hmac_spec salt ikm" info]
    by (simp add: dh_hkdf_sha256_def dh_hmac_sha256_eq hkdf_spec_def)
qed (rule hmac_stream)

lemma hkdf_key: "dh_hkdf_sha256 ikm salt info 32 = Some (hkdf_T (hmac_spec salt ikm) info 1)"
  using hkdf_expand_eq [of 0 32 "[]" "hmac_spec salt ikm" info]
  by (simp add: dh_hkdf_sha256_def dh_hmac_sha256_eq)

end
