(* ===== verification/DH_Crc32.thy ===== *)
theory DH_Crc32
  imports DH_Prelude
begin

text \<open>
  The chunk checksum (\<open>src/src/core/dh_crc32.c\<close>) with its sixteen-entry nibble table, proved equal to
  the bit-by-bit reflected CRC-32 of polynomial \<open>0xedb88320\<close>, and the transmit-queue drop counter
  (\<open>src/src/core/dh_txq.h\<close>).
\<close>

section \<open>Model\<close>

definition crc32_nibble :: "u32 list" where
  "crc32_nibble = [
    0x00000000, 0x1db71064, 0x3b6e20c8, 0x26d930ac, 0x76dc4190, 0x6b6b51f4,
    0x4db26158, 0x5005713c, 0xedb88320, 0xf00f9344, 0xd6d6a3e8, 0xcb61b38c,
    0x9b64c2b0, 0x86d3d2d4, 0xa00ae278, 0xbdbdf21c]"

definition crc32_half :: "u32 \<Rightarrow> u32" where
  "crc32_half crc = drop_bit 4 crc XOR crc32_nibble ! unat (crc AND 0x0f)"

definition dh_crc32 :: "byte list \<Rightarrow> u32" where
  "dh_crc32 data =
     foldl (\<lambda>crc d. crc32_half (crc32_half (crc XOR ucast d))) 0xffffffff data XOR 0xffffffff"

record dh_txq_stats =
  tq_dropped :: u32

definition dh_txq_track :: "dh_txq_stats \<Rightarrow> bool \<Rightarrow> dh_txq_stats \<times> bool" where
  "dh_txq_track stats enqueued =
     (if \<not> enqueued \<and> tq_dropped stats < 0xFFFFFFFF then stats\<lparr>tq_dropped := tq_dropped stats + 1\<rparr> else stats,
      enqueued)"

section \<open>Reference\<close>

text \<open>One step of the reflected shift register per bit.\<close>

definition crc_bit :: "u32 \<Rightarrow> u32" where
  "crc_bit c = (if bit c 0 then drop_bit 1 c XOR 0xedb88320 else drop_bit 1 c)"

definition crc32_spec :: "byte list \<Rightarrow> u32" where
  "crc32_spec data = foldl (\<lambda>c d. (crc_bit ^^ 8) (c XOR ucast d)) 0xffffffff data XOR 0xffffffff"

section \<open>The table is four steps of the register\<close>

lemma crc_bit_xor: "crc_bit (a XOR b) = crc_bit a XOR crc_bit b"
proof -
  have "bit (a XOR b) 0 \<longleftrightarrow> bit a 0 \<noteq> bit b 0" by (simp add: bit_simps)
  moreover have "drop_bit 1 (a XOR b) = drop_bit 1 a XOR drop_bit 1 b" by (rule drop_bit_xor)
  ultimately show ?thesis
    by (simp add: crc_bit_def ac_simps)
qed

lemma crc_bits_xor: "(crc_bit ^^ n) (a XOR b) = (crc_bit ^^ n) a XOR (crc_bit ^^ n) b"
  by (induction n) (simp_all add: crc_bit_xor)

lemma crc_bits_high: "n \<le> k \<Longrightarrow> (crc_bit ^^ n) (push_bit k c) = drop_bit n (push_bit k c)"
proof (induction n)
  case (Suc n)
  have "\<not> bit (drop_bit n (push_bit k c)) 0"
    using Suc.prems by (simp add: bit_simps)
  with Suc show ?case by (simp add: crc_bit_def)
qed simp

lemma crc_table:
  "i < 16 \<Longrightarrow> (crc_bit ^^ 4) (of_nat i) = crc32_nibble ! i"
proof -
  have "list_all (\<lambda>i. (crc_bit ^^ 4) (of_nat i) = crc32_nibble ! i) [0..<16]"
    by code_simp
  then show "i < 16 \<Longrightarrow> ?thesis" by (simp add: list_all_iff)
qed

lemma crc32_half_steps: "crc32_half c = (crc_bit ^^ 4) c"
proof -
  define lo where "lo = c AND 0x0f"
  have lo: "lo = take_bit 4 c"
    by (simp add: lo_def flip: take_bit_eq_mask) (simp add: take_bit_eq_mask mask_eq_exp_minus_1)
  have split: "c = push_bit 4 (drop_bit 4 c) XOR lo"
    unfolding lo by (rule bit_word_eqI) (auto simp: bit_simps)
  have "unat lo < 16" unfolding lo by (simp add: unsigned_take_bit_eq take_bit_nat_less_exp [of 4, simplified])
  then have tab: "(crc_bit ^^ 4) lo = crc32_nibble ! unat lo"
    using crc_table [of "unat lo"] by simp
  have "drop_bit 4 (push_bit 4 (drop_bit 4 c)) = drop_bit 4 c"
    by (rule bit_word_eqI) (auto simp: bit_simps dest: bit_imp_le_length)
  then have "(crc_bit ^^ 4) c = drop_bit 4 c XOR crc32_nibble ! unat lo"
    by (subst split) (simp only: crc_bits_xor crc_bits_high [OF order_refl] tab)
  then show ?thesis by (simp add: crc32_half_def lo_def)
qed

section \<open>Properties\<close>

text \<open>The nibble-table checksum is the bit-serial reflected CRC-32 on every input.\<close>

theorem crc32_table_correct: "dh_crc32 data = crc32_spec data"
proof -
  have "(crc_bit ^^ 8) c = (crc_bit ^^ 4) ((crc_bit ^^ 4) c)" for c
    by (simp flip: funpow_add comp_apply [of "crc_bit ^^ 4"])
  then show ?thesis
    by (simp add: dh_crc32_def crc32_spec_def crc32_half_steps)
qed

lemma max_word_u32: "(- 1 :: u32) = 0xFFFFFFFF"
  by simp

text \<open>Every failed enqueue is counted and none that succeeded is, whatever the sequence of attempts;
  the count saturates instead of wrapping.\<close>

theorem txq_counts_drops:
  "unat (tq_dropped (foldl (\<lambda>s e. fst (dh_txq_track s e)) s es)) =
     min (unat (tq_dropped s) + length (filter Not es)) (2 ^ 32 - 1)"
proof (induction es arbitrary: s)
  case Nil
  show ?case using unsigned_less [where 'a = nat, of "tq_dropped s"] by simp
next
  case (Cons e es)
  have "tq_dropped (fst (dh_txq_track s e)) = (if e then tq_dropped s else sat_inc (tq_dropped s))"
    using word_order.not_eq_extremum [of "tq_dropped s"] max_word_u32
    by (auto simp: dh_txq_track_def sat_inc_def)
  with Cons show ?case by (auto simp: unat_sat_inc min_def)
qed

end
