(* ===== verification/DH_Auth.thy ===== *)
theory DH_Auth
  imports DH_Frame DH_Sha256
begin

text \<open>
  Session keys, the frame tag and the replay window (\<open>src/src/core/dh_auth.h\<close>, \<open>dh_auth.c\<close>). The tag is
  a truncated HMAC over the wire header, the counter and the body; an authenticated payload is counter,
  tag, body; a receiver verifies the tag before it consults or moves the sliding window of counters.
\<close>

section \<open>Model\<close>

abbreviation (input) DH_SESSION_KEY_SIZE :: nat where "DH_SESSION_KEY_SIZE \<equiv> 32"
abbreviation (input) DH_NONCE_SIZE :: nat where "DH_NONCE_SIZE \<equiv> 16"
abbreviation (input) DH_AUTH_WINDOW :: nat where "DH_AUTH_WINDOW \<equiv> 64"

datatype dh_auth_err =
  DH_AUTH_ERR_SHORT | DH_AUTH_ERR_TAG | DH_AUTH_ERR_COUNTER | DH_AUTH_ERR_BUFFER | DH_AUTH_ERR_NO_KEY

type_synonym 'a dh_auth_result = "dh_auth_err + 'a"

text \<open>The three info strings, ASCII without terminator.\<close>

definition DH_INFO_HELLO :: "byte list" where "DH_INFO_HELLO = ascii ''deskhopplus/2 hello''"
definition DH_INFO_H2B :: "byte list" where "DH_INFO_H2B = ascii ''deskhopplus/2 h2b''"
definition DH_INFO_B2H :: "byte list" where "DH_INFO_B2H = ascii ''deskhopplus/2 b2h''"

definition auth_hkdf32 :: "byte list \<Rightarrow> byte list \<Rightarrow> byte list \<Rightarrow> byte list" where
  "auth_hkdf32 ikm salt info = the (dh_hkdf_sha256 ikm salt info DH_SESSION_KEY_SIZE)"

definition dh_auth_derive_hello_key :: "byte list \<Rightarrow> byte list \<Rightarrow> byte list" where
  "dh_auth_derive_hello_key shared_secret helper_nonce = auth_hkdf32 shared_secret helper_nonce DH_INFO_HELLO"

definition dh_auth_derive_session_keys ::
  "byte list \<Rightarrow> byte list \<Rightarrow> byte list \<Rightarrow> byte list \<times> byte list" where
  "dh_auth_derive_session_keys shared_secret helper_nonce board_nonce =
     (let salt = helper_nonce @ board_nonce in
      (auth_hkdf32 shared_secret salt DH_INFO_H2B, auth_hkdf32 shared_secret salt DH_INFO_B2H))"

definition dh_auth_tag :: "byte list \<Rightarrow> byte \<Rightarrow> byte \<Rightarrow> u16 \<Rightarrow> u64 \<Rightarrow> byte list \<Rightarrow> byte list" where
  "dh_auth_tag key t flags len counter body =
     (let covered = [t, flags, ucast (len AND 0xFF), ucast (drop_bit 8 len)] @ le_bytes DH_FRAME_COUNTER_SIZE counter;
          c = dh_hmac_sha256_update (dh_hmac_sha256_init key) covered;
          c = (if length body > 0 then dh_hmac_sha256_update c body else c) in
      take DH_FRAME_TAG_SIZE (dh_hmac_sha256_final c))"

definition dh_auth_wrap :: "byte list \<Rightarrow> byte \<Rightarrow> byte \<Rightarrow> u64 \<Rightarrow> byte list \<Rightarrow> nat \<Rightarrow> (byte list) dh_auth_result" where
  "dh_auth_wrap key t flags counter body out_cap =
     (let n = DH_FRAME_AUTH_PREFIX_SIZE + length body in
      if n > DH_FRAME_MAX_PAYLOAD then Inl DH_AUTH_ERR_BUFFER
      else if out_cap < n then Inl DH_AUTH_ERR_BUFFER
      else Inr (le_bytes DH_FRAME_COUNTER_SIZE counter @ dh_auth_tag key t flags (of_nat n) counter body @ body))"

definition dh_auth_frame ::
  "byte \<Rightarrow> byte \<Rightarrow> byte list \<Rightarrow> u64 \<Rightarrow> byte list \<Rightarrow> nat \<Rightarrow> (byte list) dh_frame_result" where
  "dh_auth_frame t flags key counter body cap =
     (let payload_len = DH_FRAME_AUTH_PREFIX_SIZE + length body in
      if payload_len > DH_FRAME_MAX_PAYLOAD then Inl DH_FRAME_ERR_OVERSIZE
      else if cap < DH_FRAME_HEADER_SIZE + payload_len then Inl DH_FRAME_ERR_BUFFER
      else
        case dh_auth_wrap key t flags counter body (cap - DH_FRAME_HEADER_SIZE) of
          Inl _ \<Rightarrow> Inl DH_FRAME_ERR_BUFFER
        | Inr payload \<Rightarrow> Inr ([t, flags] @ le16 (of_nat payload_len) @ payload))"

record dh_auth_counter =
  ct_highest :: u64
  ct_seen :: u64
  ct_accepted :: u64
  ct_any :: bool

definition dh_auth_counter_init :: dh_auth_counter where
  "dh_auth_counter_init = \<lparr>ct_highest = 0, ct_seen = 0, ct_accepted = 0, ct_any = False\<rparr>"

definition dh_auth_counter_ok :: "dh_auth_counter \<Rightarrow> u64 \<Rightarrow> bool" where
  "dh_auth_counter_ok c counter =
     (if \<not> ct_any c then True
      else if counter > ct_highest c then True
      else if ct_highest c - counter \<ge> 64 then False
      else ct_seen c AND push_bit (unat (ct_highest c - counter)) 1 = 0)"

definition dh_auth_counter_accept :: "dh_auth_counter \<Rightarrow> u64 \<Rightarrow> dh_auth_counter" where
  "dh_auth_counter_accept c counter =
     (if \<not> ct_any c then c\<lparr>ct_any := True, ct_highest := counter, ct_seen := 1, ct_accepted := 1\<rparr>
      else if counter > ct_highest c then
        let shift = counter - ct_highest c in
        c\<lparr>ct_seen := (if shift \<ge> 64 then 1 else push_bit (unat shift) (ct_seen c) OR 1),
          ct_highest := counter, ct_accepted := ct_accepted c + 1\<rparr>
      else if ct_highest c - counter < 64 then
        c\<lparr>ct_seen := ct_seen c OR push_bit (unat (ct_highest c - counter)) 1,
          ct_accepted := ct_accepted c + 1\<rparr>
      else c)"

definition dh_auth_counter_built :: "dh_auth_counter \<Rightarrow> u64" where
  "dh_auth_counter_built c = (if ct_any c then ct_highest c + 1 else 0)"

definition dh_auth_counter_missed :: "dh_auth_counter \<Rightarrow> u64" where
  "dh_auth_counter_missed c =
     (let built = dh_auth_counter_built c in if built > ct_accepted c then built - ct_accepted c else 0)"

definition dh_auth_peek_counter :: "byte list \<Rightarrow> u64 option" where
  "dh_auth_peek_counter payload =
     (if length payload < DH_FRAME_COUNTER_SIZE then None
      else Some (of_le_bytes (take DH_FRAME_COUNTER_SIZE payload)))"

text \<open>Every byte is folded into \<open>diff\<close>, with no early exit.\<close>

definition dh_auth_bytes_equal :: "byte list \<Rightarrow> byte list \<Rightarrow> nat \<Rightarrow> bool" where
  "dh_auth_bytes_equal a b len = (foldl (\<lambda>diff i. diff OR (a ! i XOR b ! i)) 0 [0..<len] = 0)"

definition dh_auth_open ::
  "byte list \<Rightarrow> dh_frame_header \<Rightarrow> byte list \<Rightarrow> dh_auth_counter \<Rightarrow> dh_auth_counter \<times> (byte list) dh_auth_result" where
  "dh_auth_open key hdr payload counter =
     (if unat (fh_len hdr) < DH_FRAME_AUTH_PREFIX_SIZE then (counter, Inl DH_AUTH_ERR_SHORT)
      else
        case dh_auth_peek_counter payload of
          None \<Rightarrow> (counter, Inl DH_AUTH_ERR_SHORT)
        | Some seen \<Rightarrow>
            let body = take (unat (fh_len hdr) - DH_FRAME_AUTH_PREFIX_SIZE) (drop DH_FRAME_AUTH_PREFIX_SIZE payload);
                expected = dh_auth_tag key (fh_type hdr) (fh_flags hdr) (fh_len hdr) seen body in
            if \<not> dh_auth_bytes_equal expected (drop DH_FRAME_COUNTER_SIZE payload) DH_FRAME_TAG_SIZE
            then (counter, Inl DH_AUTH_ERR_TAG)
            else if \<not> dh_auth_counter_ok counter seen then (counter, Inl DH_AUTH_ERR_COUNTER)
            else (dh_auth_counter_accept counter seen, Inr body))"

section \<open>Tag\<close>

lemma auth_tag_eq:
  "dh_auth_tag key t flags len counter body =
     take 16 (hmac_spec key ([t, flags] @ le16 len @ le_bytes 8 counter @ body))"
proof -
  have "dh_hmac_sha256_final (if body \<noteq> [] then dh_hmac_sha256_update (dh_hmac_sha256_update (dh_hmac_sha256_init key) x) body
      else dh_hmac_sha256_update (dh_hmac_sha256_init key) x) = hmac_spec key (x @ body)" for x
    using mac.one_shot [of key x] mac.two_pieces [of key x body] by auto
  then show ?thesis
    by (simp add: dh_auth_tag_def Let_def le16_def)
qed

lemma auth_tag_length [simp]: "length (dh_auth_tag key t flags len counter body) = 16"
  by (simp add: auth_tag_eq)

lemma auth_hkdf32_eq: "auth_hkdf32 ikm salt info = hmac_spec (hmac_spec salt ikm) (info @ [1])"
  by (simp add: auth_hkdf32_def hkdf_key)

lemma diff_fold_zero: "foldl (\<lambda>d i. d OR f i) a is = 0 \<longleftrightarrow> a = 0 \<and> (\<forall>i\<in>set is. f i = (0 :: 'a :: len word))"
  by (induction "is" arbitrary: a) (auto simp: or_eq_0_iff)

lemma bytes_equal_iff:
  assumes "len \<le> length a" and "len \<le> length b"
  shows "dh_auth_bytes_equal a b len \<longleftrightarrow> take len a = take len b"
proof -
  have x: "(x XOR y = 0) = (x = y)" for x y :: byte
    by (auto simp: bit_eq_iff bit_simps)
  show ?thesis
    using assms by (auto simp: dh_auth_bytes_equal_def diff_fold_zero x list_eq_iff_nth_eq)
qed

section \<open>Window\<close>

text \<open>The counters accepted so far, newest call last, against the window that remembers them.\<close>

definition window_inv :: "u64 list \<Rightarrow> dh_auth_counter \<Rightarrow> bool" where
  "window_inv A c =
     (distinct A \<and> ct_any c = (A \<noteq> []) \<and> ct_accepted c = of_nat (length A) \<and>
      (A \<noteq> [] \<longrightarrow> ct_highest c \<in> set A \<and> (\<forall>n\<in>set A. n \<le> ct_highest c) \<and>
         (\<forall>k<64. bit (ct_seen c) k \<longleftrightarrow> k \<le> unat (ct_highest c) \<and> ct_highest c - of_nat k \<in> set A)))"

lemma window_init: "window_inv [] dh_auth_counter_init"
  by (simp add: window_inv_def dh_auth_counter_init_def)

lemma and_push_bit_1: "w AND push_bit k 1 = 0 \<longleftrightarrow> \<not> bit (w :: u64) k" if "k < 64"
proof -
  have "bit (w AND push_bit k 1) n \<longleftrightarrow> n = k \<and> bit w k" for n
    using that by (auto simp: bit_simps)
  then show ?thesis by (metis bit_0_eq bit_word_eqI bot_apply bot_bool_def)
qed

lemma u64_sub_self: "k \<le> unat n \<and> n - of_nat k = (n :: u64) \<longleftrightarrow> k = 0"
proof
  assume "k \<le> unat n \<and> n - of_nat k = n"
  moreover from this have "k < 2 ^ 64" using unsigned_less [where 'a = nat, of n] by simp
  moreover from this have "unat (of_nat k :: u64) = k" by (intro unat_of_nat_small) simp
  moreover have "of_nat k = (0 :: u64)" using calculation(1) by simp
  ultimately show "k = 0" by simp
qed simp

lemma u64_diff: "n \<le> h \<Longrightarrow> unat (h - n :: u64) = unat h - unat n"
  by (simp add: unat_sub)

lemma u64_sub_of_nat: "k \<le> unat h \<Longrightarrow> unat (h - of_nat k :: u64) = unat h - k"
proof -
  assume k: "k \<le> unat h"
  then have "k < 2 ^ 64" using unsigned_less [where 'a = nat, of h] by simp
  then have "unat (of_nat k :: u64) = k" by (intro unat_of_nat_small) simp
  with k show ?thesis by (simp add: word_conv)
qed

lemma u64_ge64: "(w \<ge> (64 :: u64)) = (64 \<le> unat w)" "(w < (64 :: u64)) = (unat w < 64)"
  by (simp_all add: word_le_nat_alt word_less_nat_alt)

text \<open>The window accepts exactly the counters that are new and not more than 63 behind the newest.\<close>

lemma window_ok_iff:
  assumes "window_inv A c"
  shows "dh_auth_counter_ok c n \<longleftrightarrow>
    n \<notin> set A \<and> (A = [] \<or> ct_highest c < n \<or> unat (ct_highest c) - unat n < 64)"
proof (cases "A = [] \<or> ct_highest c < n")
  case True
  then show ?thesis using assms by (auto simp: window_inv_def dh_auth_counter_ok_def)
next
  case False
  then have ne: "A \<noteq> []" and le: "n \<le> ct_highest c" and any: "ct_any c" and nl: "\<not> ct_highest c < n"
    using assms by (auto simp: window_inv_def)
  define k where "k = unat (ct_highest c - n)"
  have k: "k = unat (ct_highest c) - unat n" "k \<le> unat (ct_highest c)"
    using u64_diff [OF le] by (simp_all add: k_def)
  have bk: "ct_highest c - of_nat k = n" by (simp add: k_def)
  show ?thesis
  proof (cases "k < 64")
    case True
    then have "bit (ct_seen c) k \<longleftrightarrow> n \<in> set A"
      using assms ne k bk by (simp add: window_inv_def)
    moreover have "dh_auth_counter_ok c n = (\<not> bit (ct_seen c) k)"
      using any nl True by (simp add: dh_auth_counter_ok_def u64_ge64 k_def [symmetric] and_push_bit_1 del: push_bit_of_1)
    ultimately show ?thesis using True k ne by simp
  next
    case False
    then show ?thesis
      using any nl ne k by (simp add: dh_auth_counter_ok_def u64_ge64 k_def [symmetric])
  qed
qed

lemma window_bit_shift:
  assumes inv: "window_inv A c" and ne: "A \<noteq> []" and gt: "ct_highest c < n" and k: "k < 64"
  defines "s \<equiv> unat (n - ct_highest c)"
  defines "w \<equiv> (if n - ct_highest c \<ge> 64 then 1 else push_bit s (ct_seen c) OR 1)"
  shows "bit w k \<longleftrightarrow> k \<le> unat n \<and> n - of_nat k \<in> set (A @ [n])"
proof -
  have s: "s = unat n - unat (ct_highest c)" and hn: "unat (ct_highest c) < unat n"
    using gt u64_diff [of "ct_highest c" n] by (simp_all add: s_def word_less_nat_alt less_imp_le)
  have big: "m \<in> set A \<Longrightarrow> unat m \<le> unat (ct_highest c)" for m
    using inv ne by (simp add: window_inv_def word_le_nat_alt)
  have seen: "bit (ct_seen c) j \<longleftrightarrow> j \<le> unat (ct_highest c) \<and> ct_highest c - of_nat j \<in> set A" if "j < 64" for j
    using inv ne that by (simp add: window_inv_def)
  have w: "bit w k \<longleftrightarrow> k = 0 \<or> s \<le> k \<and> bit (ct_seen c) (k - s)"
    using k by (auto simp: w_def u64_ge64 s_def [symmetric] bit_simps)
  show ?thesis
  proof (cases "k = 0 \<or> unat n < k")
    case True
    then show ?thesis using w hn s seen [of "k - s"] k by auto
  next
    case False
    then have kn: "k \<le> unat n" and k0: "0 < k" by simp_all
    have nk: "unat (n - of_nat k) = unat n - k" by (rule u64_sub_of_nat [OF kn])
    have neq: "n - of_nat k \<noteq> n" using u64_sub_self [of k n] k0 kn by auto
    show ?thesis
    proof (cases "s \<le> k")
      case True
      have eq: "n - of_nat k = ct_highest c - of_nat (k - s)"
      proof -
        have "of_nat (k - s) = (of_nat k - of_nat s :: u64)" using True by simp
        moreover have "of_nat s = n - ct_highest c" by (simp add: s_def)
        ultimately show ?thesis by simp
      qed
      have "k - s \<le> unat (ct_highest c)" "k - s < 64" using kn s hn k by simp_all
      then have "bit w k \<longleftrightarrow> n - of_nat k \<in> set A"
        using w seen [of "k - s"] k0 True unfolding eq by blast
      then show ?thesis using kn neq by auto
    next
      case False
      then have "n - of_nat k \<notin> set A" using big [of "n - of_nat k"] nk s hn kn by auto
      then show ?thesis using w False k0 neq by auto
    qed
  qed
qed

lemma window_accept:
  assumes inv: "window_inv A c" and ok: "dh_auth_counter_ok c n"
  shows "window_inv (A @ [n]) (dh_auth_counter_accept c n)"
proof -
  have new: "n \<notin> set A" using window_ok_iff [OF inv] ok by simp
  consider "A = []" | "A \<noteq> []" "ct_highest c < n" | "A \<noteq> []" "n \<le> ct_highest c" by fastforce
  then show ?thesis
  proof cases
    case 1
    with inv u64_sub_self [of _ n] show ?thesis
      by (auto simp: window_inv_def dh_auth_counter_accept_def bit_1_iff)
  next
    case 2
    have acc: "dh_auth_counter_accept c n =
      c\<lparr>ct_seen := (if n - ct_highest c \<ge> 64 then 1 else push_bit (unat (n - ct_highest c)) (ct_seen c) OR 1),
        ct_highest := n, ct_accepted := ct_accepted c + 1\<rparr>"
      using 2 inv by (simp add: dh_auth_counter_accept_def window_inv_def Let_def)
    note b = window_bit_shift [OF inv 2]
    show ?thesis
      using inv 2 new b unfolding acc
      by (auto simp: window_inv_def intro: order.strict_implies_order order_trans)
  next
    case 3
    define k where "k = unat (ct_highest c - n)"
    have k: "k = unat (ct_highest c) - unat n" using u64_diff [OF 3(2)] by (simp add: k_def)
    have bk: "ct_highest c - of_nat k = n" by (simp add: k_def)
    have k64: "k < 64"
      using ok 3 window_ok_iff [OF inv] k by auto
    have acc: "dh_auth_counter_accept c n = c\<lparr>ct_seen := ct_seen c OR push_bit k 1, ct_accepted := ct_accepted c + 1\<rparr>"
      using 3 inv k64 by (auto simp: dh_auth_counter_accept_def window_inv_def u64_ge64 k_def)
    have inj: "j = k" if "j \<le> unat (ct_highest c)" "ct_highest c - of_nat j = n" for j
      using that u64_sub_of_nat [OF that(1)] k 3(2) by (auto simp: word_le_nat_alt)
    have "bit (ct_seen c OR push_bit k 1) j \<longleftrightarrow> j \<le> unat (ct_highest c) \<and> ct_highest c - of_nat j \<in> set (A @ [n])"
      if "j < 64" for j
      using inv 3 that k k64 bk inj [of j]
      by (auto simp: window_inv_def bit_simps)
    with inv 3 new show ?thesis unfolding acc by (auto simp: window_inv_def)
  qed
qed

section \<open>Open\<close>

text \<open>A payload that verifies under the key and header.\<close>

definition tag_verifies :: "byte list \<Rightarrow> dh_frame_header \<Rightarrow> byte list \<Rightarrow> bool" where
  "tag_verifies key h p =
     (24 \<le> unat (fh_len h) \<and>
      take 16 (drop 8 p) =
        take 16 (hmac_spec key ([fh_type h, fh_flags h] @ le16 (fh_len h) @ take 8 p @
          take (unat (fh_len h) - 24) (drop 24 p))))"

lemma le_bytes_of_le_bytes: "length bs = 8 \<Longrightarrow> le_bytes 8 (of_le_bytes bs :: u64) = bs"
proof (rule nth_equalityI)
  fix i assume bs: "length bs = 8" and i: "i < length (le_bytes 8 (of_le_bytes bs :: u64))"
  have "bit (ucast (drop_bit (8 * i) (of_le_bytes bs :: u64)) :: byte) n \<longleftrightarrow> bit (bs ! i) n" if n: "n < 8" for n
  proof -
    have "bit (of_le_bytes bs :: u64) (8 * i + n) \<longleftrightarrow>
        (\<exists>j\<in>{0..<8}. 8 * j \<le> 8 * i + n \<and> 8 * i + n < 64 \<and> bit (bs ! j) (8 * i + n - 8 * j))"
      using bs by (simp add: of_le_bytes_def bit_or_fold)
    also have "\<dots> \<longleftrightarrow> bit (bs ! i) n"
    proof
      assume "\<exists>j\<in>{0..<8}. 8 * j \<le> 8 * i + n \<and> 8 * i + n < 64 \<and> bit (bs ! j) (8 * i + n - 8 * j)"
      then obtain j where j: "8 * j \<le> 8 * i + n" "bit (bs ! j) (8 * i + n - 8 * j)" by blast
      then have "8 * i + n - 8 * j < 8" using bit_imp_le_length [OF j(2)] by simp
      then have "j = i" using j(1) n by linarith
      with j show "bit (bs ! i) n" by simp
    qed (use i n in \<open>auto intro!: bexI [of _ i]\<close>)
    finally show ?thesis using n by (simp add: bit_simps)
  qed
  then show "le_bytes 8 (of_le_bytes bs :: u64) ! i = bs ! i"
    using i by (intro bit_word_eqI) (simp add: le_bytes_def)
qed simp

lemma auth_open_cases:
  assumes "length p = unat (fh_len h)"
  shows "dh_auth_open key h p c =
    (if unat (fh_len h) < 24 then (c, Inl DH_AUTH_ERR_SHORT)
     else if \<not> tag_verifies key h p then (c, Inl DH_AUTH_ERR_TAG)
     else if \<not> dh_auth_counter_ok c (of_le_bytes (take 8 p)) then (c, Inl DH_AUTH_ERR_COUNTER)
     else (dh_auth_counter_accept c (of_le_bytes (take 8 p)), Inr (drop 24 p)))"
proof (cases "unat (fh_len h) < 24")
  case True
  then show ?thesis by (simp add: dh_auth_open_def)
next
  case False
  have le: "le_bytes 8 (of_le_bytes (take 8 p) :: u64) = take 8 p"
    using False assms by (intro le_bytes_of_le_bytes) simp
  have "dh_auth_bytes_equal (dh_auth_tag key (fh_type h) (fh_flags h) (fh_len h) (of_le_bytes (take 8 p)) (drop 24 p))
      (drop 8 p) 16 = tag_verifies key h p"
    using False assms by (subst bytes_equal_iff) (auto simp: tag_verifies_def auth_tag_eq le)
  with False assms show ?thesis
    by (simp add: dh_auth_open_def dh_auth_peek_counter_def Let_def)
qed

section \<open>A receiver over a whole session\<close>

text \<open>The frames offered to one receiver under one key, and what it lets through.\<close>

fun auth_run :: "byte list \<Rightarrow> dh_auth_counter \<Rightarrow> dh_frame_view list \<Rightarrow> dh_auth_counter \<times> dh_frame_view list" where
  "auth_run key c [] = (c, [])"
| "auth_run key c (v # vs) =
     (case dh_auth_open key (fv_hdr v) (fv_payload v) c of
        (c', Inl _) \<Rightarrow> auth_run key c' vs
      | (c', Inr _) \<Rightarrow> (let (c'', acc) = auth_run key c' vs in (c'', v # acc)))"

definition view_counter :: "dh_frame_view \<Rightarrow> u64" where
  "view_counter v = of_le_bytes (take 8 (fv_payload v))"

definition view_ok :: "dh_frame_view \<Rightarrow> bool" where
  "view_ok v = (length (fv_payload v) = unat (fh_len (fv_hdr v)))"

lemma auth_run_window:
  assumes "window_inv A c" and "list_all view_ok vs" and "auth_run key c vs = (c', acc)"
  shows "window_inv (A @ map view_counter acc) c' \<and>
    (\<forall>v\<in>set acc. tag_verifies key (fv_hdr v) (fv_payload v) \<and> v \<in> set vs)"
  using assms
proof (induction vs arbitrary: A c acc)
  case Nil
  then show ?case by simp
next
  case (Cons v vs)
  have l: "length (fv_payload v) = unat (fh_len (fv_hdr v))" and ok: "list_all view_ok vs"
    using Cons.prems(2) by (simp_all add: view_ok_def [of v])
  show ?case
  proof (cases "unat (fh_len (fv_hdr v)) \<ge> 24 \<and> tag_verifies key (fv_hdr v) (fv_payload v) \<and>
      dh_auth_counter_ok c (view_counter v)")
    case True
    define c1 where "c1 = dh_auth_counter_accept c (view_counter v)"
    have o: "dh_auth_open key (fv_hdr v) (fv_payload v) c = (c1, Inr (drop 24 (fv_payload v)))"
      using True auth_open_cases [OF l, of key c] by (simp add: view_counter_def c1_def)
    obtain acc' where r: "auth_run key c1 vs = (c', acc')" and acc: "acc = v # acc'"
      using Cons.prems(3) by (cases "auth_run key c1 vs") (simp add: o)
    have "window_inv (A @ [view_counter v]) c1"
      unfolding c1_def using True by (intro window_accept [OF Cons.prems(1)]) simp
    from Cons.IH [OF this ok r] True show ?thesis by (simp add: acc)
  next
    case False
    then obtain e where "dh_auth_open key (fv_hdr v) (fv_payload v) c = (c, Inl e)"
      using auth_open_cases [OF l, of key c] unfolding view_counter_def
      by (cases "unat (fh_len (fv_hdr v)) < 24"; cases "tag_verifies key (fv_hdr v) (fv_payload v)") auto
    with Cons.prems(3) have "auth_run key c vs = (c', acc)" by simp
    from Cons.IH [OF Cons.prems(1) ok this] show ?thesis by simp
  qed
qed

lemma u64_suc: "x \<noteq> - 1 \<Longrightarrow> unat (x + 1 :: u64) = Suc (unat x)"
proof -
  assume "x \<noteq> - 1"
  then have "unat x \<noteq> unat (- 1 :: u64)" by (metis unsigned_word_eqI)
  then have "unat x + 1 < 2 ^ LENGTH(64)" using unsigned_less [where 'a = nat, of x] by (simp add: mask_eq_exp_minus_1 unsigned_minus_1_eq_mask)
  from unat_add_of_nat [OF this] show ?thesis by simp
qed

lemma window_missed:
  assumes "window_inv A c" and "ct_highest c \<noteq> - 1"
  shows "unat (dh_auth_counter_missed c) = card ({n. A \<noteq> [] \<and> n \<le> ct_highest c} - set A)"
proof (cases "A = []")
  case True
  with assms show ?thesis
    by (simp add: window_inv_def dh_auth_counter_missed_def dh_auth_counter_built_def)
next
  case False
  define S where "S = {n. n \<le> ct_highest c}"
  have sub: "set A \<subseteq> S" and d: "distinct A" and any: "ct_any c" and acc: "ct_accepted c = of_nat (length A)"
    using assms False by (auto simp: window_inv_def S_def)
  have "S = (of_nat :: nat \<Rightarrow> u64) ` {0..unat (ct_highest c)}"
  proof (intro set_eqI iffI)
    fix n assume "n \<in> S"
    then show "n \<in> of_nat ` {0..unat (ct_highest c)}"
      by (intro image_eqI [of _ _ "unat n"]) (simp_all add: S_def word_le_nat_alt)
  next
    fix n :: u64 assume "n \<in> of_nat ` {0..unat (ct_highest c)}"
    then obtain k where k: "n = of_nat k" "k \<le> unat (ct_highest c)" by auto
    then have "unat n = k"
      using unsigned_less [where 'a = nat, of "ct_highest c"] by (simp add: unat_of_nat_small)
    with k show "n \<in> S" by (simp add: S_def word_le_nat_alt)
  qed
  moreover have "inj_on (of_nat :: nat \<Rightarrow> u64) {0..unat (ct_highest c)}"
    using unsigned_less [where 'a = nat, of "ct_highest c"]
    by (intro inj_onI) (metis (no_types, lifting) atLeastAtMost_iff le_less_trans unat_of_nat_small)
  ultimately have card: "card S = Suc (unat (ct_highest c))" by (simp add: card_image)
  then have fin: "finite S" by (metis card.infinite nat.distinct(1))
  have le: "length A \<le> card S" using card_mono [OF fin sub] distinct_card [OF d] by simp
  have built: "unat (dh_auth_counter_built c) = card S"
    using any card u64_suc [OF assms(2)] by (simp add: dh_auth_counter_built_def)
  then have "card S < 2 ^ 64" using unsigned_less [where 'a = nat, of "dh_auth_counter_built c"] by simp
  with le have "unat (ct_accepted c) = length A" by (simp add: acc unat_of_nat_small)
  with built le have "unat (dh_auth_counter_missed c) = card S - length A"
    by (auto simp: dh_auth_counter_missed_def Let_def word_less_nat_alt unat_sub word_le_nat_alt)
  also have "\<dots> = card (S - set A)"
    using sub d by (simp add: card_Diff_subset distinct_card)
  finally show ?thesis using False by (simp add: S_def)
qed

lemma auth_frame_shape:
  assumes "dh_auth_frame t fl key n body cap = Inr bs"
  defines "payload \<equiv> le_bytes 8 n @ dh_auth_tag key t fl (of_nat (24 + length body)) n body @ body"
  shows "bs = [t, fl] @ le16 (of_nat (24 + length body)) @ payload" and "24 + length body \<le> 4096"
    and "length bs \<le> cap" and "length payload = 24 + length body"
  using assms by (auto simp: dh_auth_frame_def dh_auth_wrap_def Let_def split: if_splits)

section \<open>Properties\<close>

text \<open>C11. No replay: over any sequence of frames offered to a receiver under one key, genuine, forged,
  repeated or reordered, the counters of the frames it lets through are pairwise distinct, and each of
  those frames was offered and carries the tag of its own header, counter and body under that key.\<close>

theorem auth_no_replay:
  assumes "list_all view_ok vs" and "auth_run key dh_auth_counter_init vs = (c, acc)"
  shows "distinct (map view_counter acc) \<and>
    (\<forall>v\<in>set acc. tag_verifies key (fv_hdr v) (fv_payload v) \<and> v \<in> set vs)"
  using auth_run_window [OF window_init assms] by (simp add: window_inv_def)

lemma auth_frame_opens:
  assumes fr: "dh_auth_frame t fl key n body cap = Inr bs" and known: "dh_msg_type_known t"
  shows "\<exists>v. dh_frame_decode (bs @ rest) = Inr (v, length bs) \<and> view_ok v \<and> view_counter v = n \<and>
    tag_verifies key (fv_hdr v) (fv_payload v) \<and> drop 24 (fv_payload v) = body \<and> 24 \<le> unat (fh_len (fv_hdr v))"
proof -
  note sh = auth_frame_shape [OF fr]
  define p where "p = le_bytes 8 n @ dh_auth_tag key t fl (of_nat (24 + length body)) n body @ body"
  have len: "unat (of_nat (24 + length body) :: u16) = 24 + length body"
    using sh(2) by (intro word_conv) simp
  have pl: "length p = 24 + length body" by (simp add: p_def)
  have "dh_frame_encode t fl p cap = Inr bs"
    using sh known pl unfolding dh_frame_encode_def Let_def p_def [symmetric] by simp
  from frame_decode_encoded [OF this, of rest]
  have dec: "dh_frame_decode (bs @ rest) = Inr (frame_of t fl p, length bs)" by simp
  have "tag_verifies key (fv_hdr (frame_of t fl p)) (fv_payload (frame_of t fl p))"
    using len by (simp add: tag_verifies_def frame_of_def pl) (simp add: p_def auth_tag_eq)
  then show ?thesis
    using dec len
    by (intro exI [of _ "frame_of t fl p"])
       (simp add: frame_of_def view_ok_def view_counter_def pl, simp add: p_def of_le_bytes_le_bytes)
qed

text \<open>A concrete frame for the witnesses.\<close>

definition beat :: dh_frame_view where
  "beat = (case dh_frame_decode (case dh_auth_frame DH_MSG_HEARTBEAT 0 [1, 2, 3] 5 [9] 64 of Inr bs \<Rightarrow> bs | Inl _ \<Rightarrow> [])
     of Inr (v, _) \<Rightarrow> v | Inl _ \<Rightarrow> frame_of 0 0 [])"

lemma beat: "view_ok beat" "view_counter beat = 5" "tag_verifies [1, 2, 3] (fv_hdr beat) (fv_payload beat)"
  "drop 24 (fv_payload beat) = [9]" "24 \<le> unat (fh_len (fv_hdr beat))"
proof -
  have "\<exists>bs. dh_auth_frame DH_MSG_HEARTBEAT 0 [1, 2, 3] 5 [9] 64 = Inr bs"
    by (simp add: dh_auth_frame_def dh_auth_wrap_def Let_def)
  then obtain bs where bs: "dh_auth_frame DH_MSG_HEARTBEAT 0 [1, 2, 3] 5 [9] 64 = Inr bs" by blast
  have known: "dh_msg_type_known DH_MSG_HEARTBEAT" by (simp add: dh_msg_type_known_def dh_msg_types_def)
  from auth_frame_opens [OF bs known, of "[]"] bs
  show "view_ok beat" "view_counter beat = 5" "tag_verifies [1, 2, 3] (fv_hdr beat) (fv_payload beat)"
    "drop 24 (fv_payload beat) = [9]" "24 \<le> unat (fh_len (fv_hdr beat))"
    by (auto simp: beat_def)
qed

lemma beat_open:
  "dh_auth_open [1, 2, 3] (fv_hdr beat) (fv_payload beat) c =
    (if dh_auth_counter_ok c 5 then (dh_auth_counter_accept c 5, Inr [9]) else (c, Inl DH_AUTH_ERR_COUNTER))"
  using auth_open_cases [of "fv_payload beat" "fv_hdr beat" "[1, 2, 3]" c] beat
  by (simp add: view_ok_def view_counter_def)

text \<open>The same frame offered three times passes once.\<close>

theorem auth_no_replay_witness:
  "auth_run [1, 2, 3] dh_auth_counter_init [beat, beat, beat] = (dh_auth_counter_accept dh_auth_counter_init 5, [beat]) \<and>
   distinct (map view_counter [beat])"
proof -
  define c where "c = dh_auth_counter_accept dh_auth_counter_init 5"
  have "dh_auth_counter_ok dh_auth_counter_init 5" "\<not> dh_auth_counter_ok c 5"
    by (simp_all add: c_def dh_auth_counter_ok_def dh_auth_counter_accept_def dh_auth_counter_init_def)
  then have "auth_run [1, 2, 3] dh_auth_counter_init [beat, beat, beat] = (c, [beat])"
    by (simp add: beat_open c_def)
  with auth_no_replay [OF _ this] beat(1) show ?thesis by (simp add: c_def)
qed

text \<open>The window is exact: after any sequence of frames, the counters accepted so far being \<open>A\<close>, a
  frame with counter \<open>n\<close> would be accepted if and only if \<open>n\<close> was never accepted and nothing was, or \<open>n\<close>
  is above the highest, or less than 64 below it. So a reordered frame inside the window is not lost
  and one outside it never gets in.\<close>

theorem auth_window_exact:
  assumes "list_all view_ok vs" and "auth_run key dh_auth_counter_init vs = (c, acc)"
  shows "(dh_auth_counter_ok c n \<longleftrightarrow>
      n \<notin> view_counter ` set acc \<and>
      (acc = [] \<or> ct_highest c < n \<or> unat (ct_highest c) - unat n < DH_AUTH_WINDOW)) \<and>
    (acc \<noteq> [] \<longrightarrow> ct_highest c = Max (view_counter ` set acc))"
proof -
  have inv: "window_inv (map view_counter acc) c" using auth_run_window [OF window_init assms] by simp
  then have "acc \<noteq> [] \<longrightarrow> ct_highest c = Max (view_counter ` set acc)"
    by (auto simp: window_inv_def intro!: Max_eqI [symmetric])
  then show ?thesis using window_ok_iff [OF inv] by auto
qed

theorem auth_window_exact_witness:
  "\<exists>c. auth_run [1, 2, 3] dh_auth_counter_init [beat] = (c, [beat]) \<and>
    dh_auth_counter_ok c 4 \<and> \<not> dh_auth_counter_ok c 5"
proof -
  define c where "c = dh_auth_counter_accept dh_auth_counter_init 5"
  have "dh_auth_counter_ok dh_auth_counter_init 5" by (simp add: dh_auth_counter_ok_def dh_auth_counter_init_def)
  then have run: "auth_run [1, 2, 3] dh_auth_counter_init [beat] = (c, [beat])" by (simp add: beat_open c_def)
  have "ct_highest c = 5" by (simp add: c_def dh_auth_counter_accept_def dh_auth_counter_init_def)
  with auth_window_exact [OF _ run, of 4] auth_window_exact [OF _ run, of 5] run beat(1,2) show ?thesis
    by auto
qed

text \<open>A frame the receiver refuses, for whatever reason, leaves the window as it was; one whose tag
  does not verify is refused as such whatever its counter, before the window is consulted.\<close>

theorem auth_refusal_inert:
  assumes "length p = unat (fh_len h)"
  shows "(\<forall>c' e. dh_auth_open key h p c = (c', Inl e) \<longrightarrow> c' = c) \<and>
    (24 \<le> unat (fh_len h) \<and> \<not> tag_verifies key h p \<longrightarrow> dh_auth_open key h p c = (c, Inl DH_AUTH_ERR_TAG))"
  using auth_open_cases [OF assms, of key c] by (auto split: if_splits)

theorem auth_refusal_inert_witness:
  "dh_auth_open [1, 2, 3] (fv_hdr beat) (fv_payload beat) (dh_auth_counter_accept dh_auth_counter_init 5) =
     (dh_auth_counter_accept dh_auth_counter_init 5, Inl DH_AUTH_ERR_COUNTER)"
proof -
  define c where "c = dh_auth_counter_accept dh_auth_counter_init 5"
  have "\<not> dh_auth_counter_ok c 5"
    by (simp add: c_def dh_auth_counter_ok_def dh_auth_counter_accept_def dh_auth_counter_init_def)
  then obtain c' where o: "dh_auth_open [1, 2, 3] (fv_hdr beat) (fv_payload beat) c = (c', Inl DH_AUTH_ERR_COUNTER)"
    by (simp add: beat_open)
  have "c' = c" using auth_refusal_inert [of "fv_payload beat" "fv_hdr beat" "[1, 2, 3]" c] o beat(1)
    by (auto simp: view_ok_def)
  with o show ?thesis by (simp add: c_def)
qed

text \<open>Frame round trip: an authenticated frame the sender builds is decoded by the frame codec whatever
  follows it, and a receiver with the same key whose window admits the counter gets exactly the body back
  and records exactly that counter.\<close>

theorem auth_frame_roundtrip:
  assumes "dh_auth_frame t fl key n body cap = Inr bs" and "dh_msg_type_known t" and "dh_auth_counter_ok c n"
  shows "\<exists>v. dh_frame_decode (bs @ rest) = Inr (v, length bs) \<and>
    dh_auth_open key (fv_hdr v) (fv_payload v) c = (dh_auth_counter_accept c n, Inr body)"
  using auth_frame_opens [OF assms(1,2), of rest] assms(3) auth_open_cases
  by (auto simp: view_ok_def view_counter_def)

theorem auth_frame_roundtrip_witness:
  "\<exists>bs v. dh_auth_frame DH_MSG_HEARTBEAT 0 [1, 2, 3] 5 [9] 64 = Inr bs \<and> dh_frame_decode (bs @ [7]) = Inr (v, length bs) \<and>
    dh_auth_open [1, 2, 3] (fv_hdr v) (fv_payload v) dh_auth_counter_init =
      (dh_auth_counter_accept dh_auth_counter_init 5, Inr [9])"
proof -
  have "\<exists>bs. dh_auth_frame DH_MSG_HEARTBEAT 0 [1, 2, 3] 5 [9] 64 = Inr bs"
    by (simp add: dh_auth_frame_def dh_auth_wrap_def Let_def)
  then obtain bs where bs: "dh_auth_frame DH_MSG_HEARTBEAT 0 [1, 2, 3] 5 [9] 64 = Inr bs" by blast
  have "dh_msg_type_known DH_MSG_HEARTBEAT" "dh_auth_counter_ok dh_auth_counter_init 5"
    by (simp_all add: dh_msg_type_known_def dh_msg_types_def dh_auth_counter_ok_def dh_auth_counter_init_def)
  from auth_frame_roundtrip [OF bs this, of "[7]"] bs show ?thesis by blast
qed

text \<open>The loss figure is exact: after any sequence of frames the receiver's \<open>missed\<close> is the number of
  counters from zero to the highest accepted that it has not accepted (short of the very top of the
  64-bit counter space).\<close>

theorem auth_missed_exact:
  assumes "list_all view_ok vs" and "auth_run key dh_auth_counter_init vs = (c, acc)" and "ct_highest c \<noteq> - 1"
  shows "unat (dh_auth_counter_missed c) =
    card ({n. acc \<noteq> [] \<and> n \<le> ct_highest c} - view_counter ` set acc)"
proof -
  have inv: "window_inv (map view_counter acc) c" using auth_run_window [OF window_init assms(1,2)] by simp
  from window_missed [OF this assms(3)] show ?thesis by simp
qed

theorem auth_missed_exact_witness:
  "unat (dh_auth_counter_missed (dh_auth_counter_accept dh_auth_counter_init 5)) = card ({n :: u64. n \<le> 5} - {5})"
proof -
  define c where "c = dh_auth_counter_accept dh_auth_counter_init 5"
  have "dh_auth_counter_ok dh_auth_counter_init 5" by (simp add: dh_auth_counter_ok_def dh_auth_counter_init_def)
  then have run: "auth_run [1, 2, 3] dh_auth_counter_init [beat] = (c, [beat])" by (simp add: beat_open c_def)
  have "ct_highest c = 5" by (simp add: c_def dh_auth_counter_accept_def dh_auth_counter_init_def)
  with auth_missed_exact [OF _ run] beat(1,2) show ?thesis by (simp add: c_def)
qed

text \<open>What the tag binds and how the keys are told apart: the tag is the first 16 bytes of the HMAC
  over type, flags, wire length, counter and body, in wire order; the two directions and the hello
  derive from one shared secret by one HKDF block each, with different info strings.\<close>

theorem auth_tag_and_keys:
  "dh_auth_tag key t fl len n body = take 16 (hmac_spec key ([t, fl] @ le16 len @ le_bytes 8 n @ body)) \<and>
   dh_auth_derive_hello_key s hn = hmac_spec (hmac_spec hn s) (DH_INFO_HELLO @ [1]) \<and>
   dh_auth_derive_session_keys s hn bn =
     (hmac_spec (hmac_spec (hn @ bn) s) (DH_INFO_H2B @ [1]), hmac_spec (hmac_spec (hn @ bn) s) (DH_INFO_B2H @ [1])) \<and>
   distinct [DH_INFO_HELLO, DH_INFO_H2B, DH_INFO_B2H]"
proof -
  have "distinct [DH_INFO_HELLO, DH_INFO_H2B, DH_INFO_B2H]" by code_simp
  then show ?thesis
    by (simp add: auth_tag_eq dh_auth_derive_hello_key_def dh_auth_derive_session_keys_def auth_hkdf32_eq Let_def
        del: distinct.simps)
qed

end
