(* ===== verification/DH_Pair.thy ===== *)
theory DH_Pair
  imports DH_Auth
begin

text \<open>
  The board's identity and its one registration (\<open>src/src/core/dh_pair.h\<close>, \<open>dh_pair.c\<close>) and the P-256
  wrapper beneath it (\<open>dh_p256.c\<close>). The curve itself is the vendored micro-ecc library: its three entry
  points are the fields of the record \<open>uecc\<close>, an argument of every definition that reaches them.
\<close>

section \<open>Model\<close>

abbreviation (input) DH_P256_PRIVATE_SIZE :: nat where "DH_P256_PRIVATE_SIZE \<equiv> 32"
abbreviation (input) DH_P256_PUBLIC_SIZE :: nat where "DH_P256_PUBLIC_SIZE \<equiv> 64"
abbreviation (input) DH_P256_SHARED_SIZE :: nat where "DH_P256_SHARED_SIZE \<equiv> 32"
abbreviation (input) DH_KEY_ID_SIZE :: nat where "DH_KEY_ID_SIZE \<equiv> 8"
abbreviation (input) DH_PAIR_WINDOW_MS :: u32 where "DH_PAIR_WINDOW_MS \<equiv> 60000"

record uecc =
  uECC_compute_public_key :: "byte list \<Rightarrow> byte list option"
  uECC_valid_public_key :: "byte list \<Rightarrow> bool"
  uECC_shared_secret :: "byte list \<Rightarrow> byte list \<Rightarrow> byte list option"

definition dh_p256_public_from_private :: "uecc \<Rightarrow> byte list \<Rightarrow> byte list option" where
  "dh_p256_public_from_private E private_key = uECC_compute_public_key E private_key"

definition dh_p256_public_valid :: "uecc \<Rightarrow> byte list \<Rightarrow> bool" where
  "dh_p256_public_valid E public_key = uECC_valid_public_key E public_key"

definition dh_p256_ecdh :: "uecc \<Rightarrow> byte list \<Rightarrow> byte list \<Rightarrow> byte list option" where
  "dh_p256_ecdh E private_key peer_public_key =
     (if \<not> uECC_valid_public_key E peer_public_key then None
      else uECC_shared_secret E peer_public_key private_key)"

definition dh_p256_key_id :: "byte list \<Rightarrow> byte list" where
  "dh_p256_key_id public_key = take DH_KEY_ID_SIZE (dh_sha256 public_key)"

datatype dh_pair_result =
  DH_PAIR_OK | DH_PAIR_ERR_NO_WINDOW | DH_PAIR_ERR_ALREADY_REGISTERED | DH_PAIR_ERR_BAD_KEY | DH_PAIR_ERR_NO_IDENTITY

record dh_pair =
  pr_identity_private :: "byte list"
  pr_identity_public :: "byte list"
  pr_has_identity :: bool
  pr_helper_key_id :: "byte list"
  pr_shared_secret :: "byte list"
  pr_registered :: bool
  pr_window_open :: bool
  pr_window_claimed :: bool
  pr_window_opened_ms :: u32
  pr_registrations :: u32

definition dh_pair_init :: dh_pair where
  "dh_pair_init =
     \<lparr>pr_identity_private = replicate DH_P256_PRIVATE_SIZE 0, pr_identity_public = replicate DH_P256_PUBLIC_SIZE 0,
      pr_has_identity = False, pr_helper_key_id = replicate DH_KEY_ID_SIZE 0,
      pr_shared_secret = replicate DH_P256_SHARED_SIZE 0, pr_registered = False, pr_window_open = False,
      pr_window_claimed = False, pr_window_opened_ms = 0, pr_registrations = 0\<rparr>"

definition dh_pair_set_identity :: "uecc \<Rightarrow> dh_pair \<Rightarrow> byte list \<Rightarrow> dh_pair \<times> bool" where
  "dh_pair_set_identity E p private_key =
     (case dh_p256_public_from_private E private_key of
        None \<Rightarrow> (p, False)
      | Some public_key \<Rightarrow>
          (p\<lparr>pr_identity_private := private_key, pr_identity_public := public_key, pr_has_identity := True\<rparr>, True))"

definition dh_pair_public_key :: "dh_pair \<Rightarrow> byte list option" where
  "dh_pair_public_key p = (if pr_has_identity p then Some (pr_identity_public p) else None)"

definition dh_pair_set_registration :: "dh_pair \<Rightarrow> byte list \<Rightarrow> byte list \<Rightarrow> dh_pair" where
  "dh_pair_set_registration p key_id shared_secret =
     p\<lparr>pr_helper_key_id := key_id, pr_shared_secret := shared_secret, pr_registered := True\<rparr>"

definition dh_pair_clear_registration :: "dh_pair \<Rightarrow> dh_pair" where
  "dh_pair_clear_registration p =
     p\<lparr>pr_helper_key_id := replicate DH_KEY_ID_SIZE 0, pr_shared_secret := replicate DH_P256_SHARED_SIZE 0,
       pr_registered := False\<rparr>"

definition dh_pair_is_registered_key :: "dh_pair \<Rightarrow> byte list option \<Rightarrow> bool" where
  "dh_pair_is_registered_key p key_id =
     (case key_id of
        None \<Rightarrow> False
      | Some k \<Rightarrow> pr_registered p \<and> dh_auth_bytes_equal (pr_helper_key_id p) k DH_KEY_ID_SIZE)"

definition dh_pair_shared_secret :: "dh_pair \<Rightarrow> byte list option" where
  "dh_pair_shared_secret p = (if pr_registered p then Some (pr_shared_secret p) else None)"

definition dh_pair_open_window :: "dh_pair \<Rightarrow> u32 \<Rightarrow> dh_pair" where
  "dh_pair_open_window p now =
     p\<lparr>pr_window_open := True, pr_window_claimed := False, pr_window_opened_ms := now\<rparr>"

definition dh_pair_window_open :: "dh_pair \<Rightarrow> u32 \<Rightarrow> bool" where
  "dh_pair_window_open p now = (pr_window_open p \<and> now - pr_window_opened_ms p < DH_PAIR_WINDOW_MS)"

definition minute_elapsed :: "dh_pair \<Rightarrow> u32 \<Rightarrow> bool" where
  "minute_elapsed p now = (now - pr_window_opened_ms p \<ge> DH_PAIR_WINDOW_MS)"

definition dh_pair_tick :: "dh_pair \<Rightarrow> u32 \<Rightarrow> dh_pair" where
  "dh_pair_tick p now =
     (let p = (if pr_window_open p \<and> \<not> dh_pair_window_open p now then p\<lparr>pr_window_open := False\<rparr> else p) in
      if pr_window_claimed p \<and> minute_elapsed p now then p\<lparr>pr_window_claimed := False\<rparr> else p)"

definition dh_pair_refusal :: "dh_pair \<Rightarrow> u32 \<Rightarrow> dh_pair_result" where
  "dh_pair_refusal p now =
     (if pr_window_claimed p \<and> \<not> minute_elapsed p now then DH_PAIR_ERR_ALREADY_REGISTERED
      else DH_PAIR_ERR_NO_WINDOW)"

definition dh_pair_register :: "uecc \<Rightarrow> dh_pair \<Rightarrow> u32 \<Rightarrow> byte list \<Rightarrow> dh_pair \<times> dh_pair_result" where
  "dh_pair_register E p now helper_public =
     (if \<not> dh_pair_window_open p now then (p, dh_pair_refusal p now)
      else if \<not> pr_has_identity p then (p, DH_PAIR_ERR_NO_IDENTITY)
      else
        case dh_p256_ecdh E (pr_identity_private p) helper_public of
          None \<Rightarrow> (p, DH_PAIR_ERR_BAD_KEY)
        | Some shared_secret \<Rightarrow>
            let p = dh_pair_set_registration p (dh_p256_key_id helper_public) shared_secret in
            (p\<lparr>pr_window_open := False, pr_window_claimed := True, pr_registrations := pr_registrations p + 1\<rparr>,
             DH_PAIR_OK))"

section \<open>Histories\<close>

text \<open>What can happen to the pairing state after boot: the chord, the tick, a pairing request and a
  configuration wipe.\<close>

datatype pair_op = PairChord u32 | PairTick u32 | PairRequest u32 "byte list" | PairWipe

fun pair_step :: "uecc \<Rightarrow> pair_op \<Rightarrow> dh_pair \<Rightarrow> dh_pair \<times> dh_pair_result option" where
  "pair_step E (PairChord now) p = (dh_pair_open_window p now, None)"
| "pair_step E (PairTick now) p = (dh_pair_tick p now, None)"
| "pair_step E (PairRequest now k) p = (let (p', rc) = dh_pair_register E p now k in (p', Some rc))"
| "pair_step E PairWipe p = (dh_pair_clear_registration p, None)"

fun pair_run :: "uecc \<Rightarrow> pair_op list \<Rightarrow> dh_pair \<Rightarrow> dh_pair \<times> dh_pair_result option list" where
  "pair_run E [] p = (p, [])"
| "pair_run E (op # ops) p =
     (let (p', r) = pair_step E op p; (p'', rs) = pair_run E ops p' in (p'', r # rs))"

definition chords :: "pair_op list \<Rightarrow> nat" where
  "chords ops = length (filter (\<lambda>op. case op of PairChord _ \<Rightarrow> True | _ \<Rightarrow> False) ops)"

definition grants :: "dh_pair_result option list \<Rightarrow> nat" where
  "grants rs = length (filter (\<lambda>r. r = Some DH_PAIR_OK) rs)"

lemma register_cases:
  assumes "dh_pair_register E p now k = (p', rc)"
  obtains "rc \<noteq> DH_PAIR_OK" and "p' = p"
  | ss where "rc = DH_PAIR_OK" and "dh_pair_window_open p now" and "pr_has_identity p"
    and "dh_p256_ecdh E (pr_identity_private p) k = Some ss"
    and "p' = (dh_pair_set_registration p (dh_p256_key_id k) ss)
      \<lparr>pr_window_open := False, pr_window_claimed := True, pr_registrations := pr_registrations p + 1\<rparr>"
  using assms
  by (auto simp: dh_pair_register_def dh_pair_refusal_def Let_def dh_pair_set_registration_def
      split: if_splits option.splits)

lemma pair_tick_facts:
  "pr_window_open (dh_pair_tick p now) \<Longrightarrow> pr_window_open p"
  "pr_identity_private (dh_pair_tick p now) = pr_identity_private p"
  "pr_identity_public (dh_pair_tick p now) = pr_identity_public p"
  "pr_has_identity (dh_pair_tick p now) = pr_has_identity p"
  by (auto simp: dh_pair_tick_def Let_def split: if_splits)

lemma pair_step_budget:
  assumes "pair_step E op p = (p', r)"
  shows "(if r = Some DH_PAIR_OK then 1 else 0) + (if pr_window_open p' then 1 else 0) \<le>
    (if pr_window_open p then 1 else 0) + (case op of PairChord _ \<Rightarrow> 1 | _ \<Rightarrow> (0 :: nat))"
proof (cases op)
  case (PairRequest now k)
  then obtain rc where reg: "dh_pair_register E p now k = (p', rc)" and r: "r = Some rc"
    using assms by (auto split: prod.splits)
  from reg show ?thesis
    by (cases rule: register_cases) (auto simp: r PairRequest dh_pair_window_open_def)
qed (use assms in \<open>auto simp: dh_pair_open_window_def pair_tick_facts dh_pair_clear_registration_def\<close>)

lemma pair_run_budget:
  "pair_run E ops p = (p', rs) \<Longrightarrow>
   grants rs + (if pr_window_open p' then 1 else 0) \<le> (if pr_window_open p then 1 else 0) + chords ops"
proof (induction ops arbitrary: p rs)
  case Nil
  then show ?case by (simp add: grants_def)
next
  case (Cons op ops)
  obtain p1 r where s: "pair_step E op p = (p1, r)" by (cases "pair_step E op p")
  obtain rs' where run: "pair_run E ops p1 = (p', rs')" and rs: "rs = r # rs'"
    using Cons.prems s by (auto split: prod.splits)
  from pair_step_budget [OF s] Cons.IH [OF run] show ?case
    by (cases op) (auto simp: rs grants_def chords_def split: if_splits)
qed

lemma pair_run_identity:
  "pair_run E ops p = (p', rs) \<Longrightarrow>
   pr_identity_private p' = pr_identity_private p \<and> pr_identity_public p' = pr_identity_public p \<and>
   pr_has_identity p' = pr_has_identity p"
proof (induction ops arbitrary: p rs)
  case (Cons op ops)
  obtain p1 r where s: "pair_step E op p = (p1, r)" by (cases "pair_step E op p")
  have "pr_identity_private p1 = pr_identity_private p \<and> pr_identity_public p1 = pr_identity_public p \<and>
      pr_has_identity p1 = pr_has_identity p"
  proof (cases op)
    case (PairRequest now k)
    then obtain rc where "dh_pair_register E p now k = (p1, rc)" using s by (auto split: prod.splits)
    then show ?thesis
      by (cases rule: register_cases) (auto simp: dh_pair_set_registration_def)
  qed (use s in \<open>auto simp: dh_pair_open_window_def pair_tick_facts dh_pair_clear_registration_def\<close>)
  moreover obtain rs' where "pair_run E ops p1 = (p', rs')"
    using Cons.prems s by (auto split: prod.splits)
  ultimately show ?case using Cons.IH by fastforce
qed simp

section \<open>Properties\<close>

text \<open>C16. The window is single-shot: from boot, over any history of chords, ticks, pairing requests and
  wipes, no more registrations are granted than the chord was pressed, and none of it touches the
  board's identity.\<close>

theorem pair_single_shot:
  assumes "pair_run E ops p = (p', rs)" and "\<not> pr_window_open p"
  shows "grants rs \<le> chords ops \<and> pr_identity_private p' = pr_identity_private p \<and>
    pr_identity_public p' = pr_identity_public p \<and> pr_has_identity p' = pr_has_identity p"
  using pair_run_budget [OF assms(1)] pair_run_identity [OF assms(1)] assms(2) by auto

text \<open>A curve on which everything is the identity function, for the witnesses.\<close>

definition toy_uecc :: uecc where
  "toy_uecc = \<lparr>uECC_compute_public_key = Some, uECC_valid_public_key = (\<lambda>k. k \<noteq> []), uECC_shared_secret = (\<lambda>q d. Some d)\<rparr>"

theorem pair_single_shot_witness:
  "snd (pair_run toy_uecc [PairChord 4294967290, PairRequest 4 [1], PairRequest 5 [2]]
      (fst (dh_pair_set_identity toy_uecc dh_pair_init [7]))) =
     [None, Some DH_PAIR_OK, Some DH_PAIR_ERR_ALREADY_REGISTERED] \<and>
   grants (snd (pair_run toy_uecc [PairChord 4294967290, PairRequest 4 [1], PairRequest 5 [2]]
      (fst (dh_pair_set_identity toy_uecc dh_pair_init [7])))) \<le> 1"
proof -
  define p where "p = fst (dh_pair_set_identity toy_uecc dh_pair_init [7])"
  define ops where "ops = [PairChord 4294967290, PairRequest 4 [1], PairRequest 5 [2]]"
  have p: "\<not> pr_window_open p" "pr_has_identity p"
    by (simp_all add: p_def dh_pair_set_identity_def dh_p256_public_from_private_def toy_uecc_def dh_pair_init_def)
  have "snd (pair_run toy_uecc ops p) = [None, Some DH_PAIR_OK, Some DH_PAIR_ERR_ALREADY_REGISTERED]"
    using p by (simp add: ops_def dh_pair_open_window_def dh_pair_register_def dh_pair_window_open_def dh_p256_ecdh_def
        toy_uecc_def Let_def dh_pair_set_registration_def dh_pair_refusal_def minute_elapsed_def)
  moreover have "chords ops = 1" by (simp add: ops_def chords_def)
  ultimately show ?thesis
    using pair_single_shot [OF prod.collapse [symmetric] p(1), of toy_uecc ops]
    by (simp add: p_def ops_def)
qed

text \<open>What a pairing request answers, on every branch: outside the minute of the last chord it is
  refused, as taken when that window was claimed and the minute still runs and as no window otherwise;
  inside an open window without identity or with a key the curve refuses it is refused and nothing
  changes; otherwise the registration becomes exactly this key's id and the ECDH result, and the window
  is closed and marked claimed. The millisecond clock may wrap.\<close>

theorem pair_register_exact:
  "dh_pair_register E p now k =
     (let age = now - pr_window_opened_ms p in
      if age < 60000 \<and> pr_window_open p then
        (if \<not> pr_has_identity p then (p, DH_PAIR_ERR_NO_IDENTITY)
         else if \<not> uECC_valid_public_key E k then (p, DH_PAIR_ERR_BAD_KEY)
         else
           case uECC_shared_secret E k (pr_identity_private p) of
             None \<Rightarrow> (p, DH_PAIR_ERR_BAD_KEY)
           | Some ss \<Rightarrow>
               (p\<lparr>pr_helper_key_id := take 8 (sha256_spec k), pr_shared_secret := ss, pr_registered := True,
                  pr_window_open := False, pr_window_claimed := True, pr_registrations := pr_registrations p + 1\<rparr>,
                DH_PAIR_OK))
      else (p, if pr_window_claimed p \<and> age < 60000 then DH_PAIR_ERR_ALREADY_REGISTERED else DH_PAIR_ERR_NO_WINDOW))"
  by (auto simp: dh_pair_register_def dh_pair_window_open_def dh_pair_refusal_def minute_elapsed_def Let_def
      dh_p256_ecdh_def dh_pair_set_registration_def dh_p256_key_id_def dh_sha256_eq not_le split: option.splits)

end
