(* ===== verification/DH_Session_Msg.thy ===== *)
theory DH_Session_Msg
  imports DH_Pair
begin

text \<open>
  The body codecs of the session band (\<open>src/src/core/dh_session.h\<close>, first half of \<open>dh_session.c\<close>), used by
  both ends: hello, hello ack, the refusals, the pairing exchange, the listener alert, the clipboard
  policy and the drop totals, with the clipboard-policy arithmetic of the header. Decoders read a body
  and return \<open>None\<close> where the source returns false; encoders build a complete frame. The null-pointer
  tests of the source have no counterpart.
\<close>

section \<open>Model\<close>

definition rd_u16 :: "byte list \<Rightarrow> u16" where
  "rd_u16 p = of_le16 (p ! 0) (p ! 1)"

definition rd_u32 :: "byte list \<Rightarrow> u32" where
  "rd_u32 p = of_le_bytes (take 4 p)"

definition rd_u64 :: "byte list \<Rightarrow> u64" where
  "rd_u64 p = of_le_bytes (take 8 p)"

definition wr_u16 :: "u16 \<Rightarrow> byte list" where
  "wr_u16 v = le16 v"

definition wr_u32 :: "u32 \<Rightarrow> byte list" where
  "wr_u32 v = le_bytes 4 v"

definition wr_u64 :: "u64 \<Rightarrow> byte list" where
  "wr_u64 v = le_bytes 8 v"

abbreviation (input) DH_PROTO_VERSION :: u16 where "DH_PROTO_VERSION \<equiv> 7"
abbreviation (input) DH_HELLO_LEN :: nat where "DH_HELLO_LEN \<equiv> 39"
abbreviation (input) DH_HELLO_ACK_LEN :: nat where "DH_HELLO_ACK_LEN \<equiv> 30"
abbreviation (input) DH_LISTENER_ALERT_LEN :: nat where "DH_LISTENER_ALERT_LEN \<equiv> 8"
abbreviation (input) DH_PAIR_REQUEST_LEN :: nat where "DH_PAIR_REQUEST_LEN \<equiv> 72"
abbreviation (input) DH_PAIR_GRANT_LEN :: nat where "DH_PAIR_GRANT_LEN \<equiv> 72"
abbreviation (input) DH_PAIR_REFUSED_LEN :: nat where "DH_PAIR_REFUSED_LEN \<equiv> 9"
abbreviation (input) DH_HELLO_REFUSED_LEN :: nat where "DH_HELLO_REFUSED_LEN \<equiv> 11"
abbreviation (input) DH_CLIP_POLICY_LEN :: nat where "DH_CLIP_POLICY_LEN \<equiv> 2"
abbreviation (input) DH_CLIP_POLICY_LEN_V1 :: nat where "DH_CLIP_POLICY_LEN_V1 \<equiv> 1"
abbreviation (input) DH_DEVICE_DROPS_LEN :: nat where "DH_DEVICE_DROPS_LEN \<equiv> 48"
abbreviation (input) DH_SESSION_REPLY_MAX :: nat where "DH_SESSION_REPLY_MAX \<equiv> 76"

abbreviation (input) DH_CLIP_MAY_SEND :: byte where "DH_CLIP_MAY_SEND \<equiv> 0x01"
abbreviation (input) DH_CLIP_MAY_RECEIVE :: byte where "DH_CLIP_MAY_RECEIVE \<equiv> 0x02"
abbreviation (input) DH_CLIP_CAP_MB_DEFAULT :: byte where "DH_CLIP_CAP_MB_DEFAULT \<equiv> 10"
abbreviation (input) DH_CLIP_CAP_MB_MAX :: byte where "DH_CLIP_CAP_MB_MAX \<equiv> 64"

definition dh_clip_cap_mb :: "byte \<Rightarrow> byte" where
  "dh_clip_cap_mb stored =
     (if stored = 0 then DH_CLIP_CAP_MB_DEFAULT
      else if stored > DH_CLIP_CAP_MB_MAX then DH_CLIP_CAP_MB_MAX else stored)"

definition dh_clip_cap_bytes :: "byte \<Rightarrow> u32" where
  "dh_clip_cap_bytes stored = ucast (dh_clip_cap_mb stored) * 1024 * 1024"

definition dh_clip_policy_for :: "byte \<Rightarrow> bool \<Rightarrow> bool \<Rightarrow> byte" where
  "dh_clip_policy_for board_role block_a_to_b block_b_to_a =
     (let blocked_out = (if board_role = 0 then block_a_to_b else block_b_to_a);
          blocked_in = (if board_role = 0 then block_b_to_a else block_a_to_b) in
      (if blocked_out then 0 else DH_CLIP_MAY_SEND) OR (if blocked_in then 0 else DH_CLIP_MAY_RECEIVE))"

abbreviation (input) DH_HELLO_REFUSED_VERSION_INCOMPATIBLE :: byte where "DH_HELLO_REFUSED_VERSION_INCOMPATIBLE \<equiv> 2"
abbreviation (input) DH_HELLO_REFUSED_UNPAIRED :: byte where "DH_HELLO_REFUSED_UNPAIRED \<equiv> 3"
abbreviation (input) DH_PAIR_REFUSED_NO_WINDOW :: byte where "DH_PAIR_REFUSED_NO_WINDOW \<equiv> 0"
abbreviation (input) DH_PAIR_REFUSED_ALREADY_REGISTERED :: byte where "DH_PAIR_REFUSED_ALREADY_REGISTERED \<equiv> 1"

record dh_hello =
  he_proto_version :: u16
  he_os :: byte
  he_build_type :: byte
  he_channel_count :: byte
  he_max_chunk :: u16
  he_correlation :: u64
  he_helper_key_id :: "byte list"
  he_helper_nonce :: "byte list"

record dh_hello_ack =
  ha_correlation :: u64
  ha_proto_version :: u16
  ha_build_type :: byte
  ha_channel_count :: byte
  ha_max_chunk :: u16
  ha_board_nonce :: "byte list"

record dh_hello_refused =
  hr_correlation :: u64
  hr_proto_version :: u16
  hr_status :: byte

record dh_pair_request =
  pq_correlation :: u64
  pq_helper_public :: "byte list"

record dh_pair_grant =
  pg_correlation :: u64
  pg_board_public :: "byte list"

record dh_pair_refused =
  pf_correlation :: u64
  pf_reason :: byte

record dh_listener_alert =
  la_window_ms :: u32
  la_refused :: u32

record dh_device_drops =
  dd_reports :: u32
  dd_inbound :: u32
  dd_outq :: u32
  dd_unsent :: u32
  dd_orphans :: u32
  dd_truncated :: u32
  dd_relay_q :: u32
  dd_frames_in :: u32
  dd_reports_in :: u32
  dd_frames_refused :: u32
  dd_outq_priority :: u32
  dd_outq_bad_header :: u32

definition encode_tagged ::
  "byte \<Rightarrow> byte \<Rightarrow> byte list \<Rightarrow> u64 \<Rightarrow> byte list \<Rightarrow> nat \<Rightarrow> (byte list) dh_frame_result" where
  "encode_tagged t flags key counter body cap = dh_auth_frame t flags key counter body cap"

definition dh_hello_decode :: "byte list \<Rightarrow> dh_hello option" where
  "dh_hello_decode body =
     (if length body \<noteq> DH_HELLO_LEN then None
      else Some
        \<lparr>he_proto_version = rd_u16 body, he_os = body ! 2, he_build_type = body ! 3, he_channel_count = body ! 4,
         he_max_chunk = rd_u16 (drop 5 body), he_correlation = rd_u64 (drop 7 body),
         he_helper_key_id = take DH_KEY_ID_SIZE (drop 15 body), he_helper_nonce = take DH_NONCE_SIZE (drop 23 body)\<rparr>)"

definition hello_body :: "dh_hello \<Rightarrow> byte list" where
  "hello_body h =
     wr_u16 (he_proto_version h) @ [he_os h, he_build_type h, he_channel_count h] @ wr_u16 (he_max_chunk h) @
     wr_u64 (he_correlation h) @ he_helper_key_id h @ he_helper_nonce h"

definition dh_hello_encode :: "dh_hello \<Rightarrow> byte list \<Rightarrow> u64 \<Rightarrow> nat \<Rightarrow> (byte list) dh_frame_result" where
  "dh_hello_encode h key counter cap = encode_tagged DH_MSG_HELLO 0 key counter (hello_body h) cap"

definition dh_hello_ack_decode :: "byte list \<Rightarrow> dh_hello_ack option" where
  "dh_hello_ack_decode body =
     (if length body \<noteq> DH_HELLO_ACK_LEN then None
      else Some
        \<lparr>ha_correlation = rd_u64 body, ha_proto_version = rd_u16 (drop 8 body), ha_build_type = body ! 10,
         ha_channel_count = body ! 11, ha_max_chunk = rd_u16 (drop 12 body),
         ha_board_nonce = take DH_NONCE_SIZE (drop 14 body)\<rparr>)"

definition hello_ack_body :: "dh_hello_ack \<Rightarrow> byte list" where
  "hello_ack_body a =
     wr_u64 (ha_correlation a) @ wr_u16 (ha_proto_version a) @ [ha_build_type a, ha_channel_count a] @
     wr_u16 (ha_max_chunk a) @ ha_board_nonce a"

definition dh_hello_ack_encode :: "dh_hello_ack \<Rightarrow> byte list \<Rightarrow> u64 \<Rightarrow> nat \<Rightarrow> (byte list) dh_frame_result" where
  "dh_hello_ack_encode a key counter cap = encode_tagged DH_MSG_HELLO_ACK 0 key counter (hello_ack_body a) cap"

definition dh_hello_refused_decode :: "byte list \<Rightarrow> dh_hello_refused option" where
  "dh_hello_refused_decode body =
     (if length body \<noteq> DH_HELLO_REFUSED_LEN then None
      else Some \<lparr>hr_correlation = rd_u64 body, hr_proto_version = rd_u16 (drop 8 body), hr_status = body ! 10\<rparr>)"

definition hello_refused_body :: "dh_hello_refused \<Rightarrow> byte list" where
  "hello_refused_body r = wr_u64 (hr_correlation r) @ wr_u16 (hr_proto_version r) @ [hr_status r]"

definition dh_hello_refused_encode :: "dh_hello_refused \<Rightarrow> nat \<Rightarrow> (byte list) dh_frame_result" where
  "dh_hello_refused_encode r cap = dh_frame_encode DH_MSG_HELLO_REFUSED 0 (hello_refused_body r) cap"

definition dh_pair_request_decode :: "byte list \<Rightarrow> dh_pair_request option" where
  "dh_pair_request_decode body =
     (if length body \<noteq> DH_PAIR_REQUEST_LEN then None
      else Some \<lparr>pq_correlation = rd_u64 body, pq_helper_public = take DH_P256_PUBLIC_SIZE (drop 8 body)\<rparr>)"

definition pair_request_body :: "dh_pair_request \<Rightarrow> byte list" where
  "pair_request_body r = wr_u64 (pq_correlation r) @ pq_helper_public r"

definition dh_pair_request_encode :: "dh_pair_request \<Rightarrow> nat \<Rightarrow> (byte list) dh_frame_result" where
  "dh_pair_request_encode r cap = dh_frame_encode DH_MSG_PAIR_REQUEST 0 (pair_request_body r) cap"

definition dh_pair_grant_decode :: "byte list \<Rightarrow> dh_pair_grant option" where
  "dh_pair_grant_decode body =
     (if length body \<noteq> DH_PAIR_GRANT_LEN then None
      else Some \<lparr>pg_correlation = rd_u64 body, pg_board_public = take DH_P256_PUBLIC_SIZE (drop 8 body)\<rparr>)"

definition pair_grant_body :: "dh_pair_grant \<Rightarrow> byte list" where
  "pair_grant_body g = wr_u64 (pg_correlation g) @ pg_board_public g"

definition dh_pair_grant_encode :: "dh_pair_grant \<Rightarrow> nat \<Rightarrow> (byte list) dh_frame_result" where
  "dh_pair_grant_encode g cap = dh_frame_encode DH_MSG_PAIR_GRANT 0 (pair_grant_body g) cap"

definition dh_pair_refused_decode :: "byte list \<Rightarrow> dh_pair_refused option" where
  "dh_pair_refused_decode body =
     (if length body \<noteq> DH_PAIR_REFUSED_LEN then None
      else Some \<lparr>pf_correlation = rd_u64 body, pf_reason = body ! 8\<rparr>)"

definition pair_refused_body :: "dh_pair_refused \<Rightarrow> byte list" where
  "pair_refused_body r = wr_u64 (pf_correlation r) @ [pf_reason r]"

definition dh_pair_refused_encode :: "dh_pair_refused \<Rightarrow> nat \<Rightarrow> (byte list) dh_frame_result" where
  "dh_pair_refused_encode r cap = dh_frame_encode DH_MSG_PAIR_REFUSED 0 (pair_refused_body r) cap"

definition dh_listener_alert_decode :: "byte list \<Rightarrow> dh_listener_alert option" where
  "dh_listener_alert_decode body =
     (if length body \<noteq> DH_LISTENER_ALERT_LEN then None
      else Some \<lparr>la_window_ms = rd_u32 body, la_refused = rd_u32 (drop 4 body)\<rparr>)"

definition dh_clip_policy_decode :: "byte list \<Rightarrow> (byte \<times> byte) option" where
  "dh_clip_policy_decode body =
     (if length body \<noteq> DH_CLIP_POLICY_LEN \<and> length body \<noteq> DH_CLIP_POLICY_LEN_V1 then None
      else Some (body ! 0, if length body = DH_CLIP_POLICY_LEN then body ! 1 else 0))"

definition dh_device_drops_equal :: "dh_device_drops \<Rightarrow> dh_device_drops \<Rightarrow> bool" where
  "dh_device_drops_equal a b =
     (dd_reports a = dd_reports b \<and> dd_inbound a = dd_inbound b \<and> dd_outq a = dd_outq b \<and>
      dd_unsent a = dd_unsent b \<and> dd_orphans a = dd_orphans b \<and> dd_truncated a = dd_truncated b \<and>
      dd_relay_q a = dd_relay_q b \<and> dd_outq_priority a = dd_outq_priority b \<and>
      dd_outq_bad_header a = dd_outq_bad_header b \<and> dd_frames_in a = dd_frames_in b \<and>
      dd_reports_in a = dd_reports_in b \<and> dd_frames_refused a = dd_frames_refused b)"

definition drops_write :: "dh_device_drops \<Rightarrow> byte list" where
  "drops_write d =
     wr_u32 (dd_reports d) @ wr_u32 (dd_inbound d) @ wr_u32 (dd_outq d) @ wr_u32 (dd_unsent d) @
     wr_u32 (dd_orphans d) @ wr_u32 (dd_truncated d) @ wr_u32 (dd_relay_q d) @ wr_u32 (dd_outq_priority d) @
     wr_u32 (dd_outq_bad_header d) @ wr_u32 (dd_frames_in d) @ wr_u32 (dd_reports_in d) @
     wr_u32 (dd_frames_refused d)"

definition dh_device_drops_decode :: "byte list \<Rightarrow> dh_device_drops option" where
  "dh_device_drops_decode body =
     (if length body \<noteq> DH_DEVICE_DROPS_LEN then None
      else Some
        \<lparr>dd_reports = rd_u32 body, dd_inbound = rd_u32 (drop 4 body), dd_outq = rd_u32 (drop 8 body),
         dd_unsent = rd_u32 (drop 12 body), dd_orphans = rd_u32 (drop 16 body), dd_truncated = rd_u32 (drop 20 body),
         dd_relay_q = rd_u32 (drop 24 body), dd_frames_in = rd_u32 (drop 36 body), dd_reports_in = rd_u32 (drop 40 body),
         dd_frames_refused = rd_u32 (drop 44 body), dd_outq_priority = rd_u32 (drop 28 body),
         dd_outq_bad_header = rd_u32 (drop 32 body)\<rparr>)"

section \<open>Round trips\<close>

lemma rd_wr [simp]:
  "rd_u16 (wr_u16 a @ xs) = a" "rd_u32 (wr_u32 b @ xs) = b" "rd_u64 (wr_u64 c @ xs) = c"
  "rd_u16 (wr_u16 a) = a" "rd_u32 (wr_u32 b) = b" "rd_u64 (wr_u64 c) = c"
  by (simp_all add: rd_u16_def wr_u16_def le16_def of_le16_le16 rd_u32_def wr_u32_def rd_u64_def wr_u64_def
      of_le_bytes_le_bytes)

lemma wr_length [simp]:
  "length (wr_u16 a) = 2" "length (wr_u32 b) = 4" "length (wr_u64 c) = 8"
  by (simp_all add: wr_u16_def wr_u32_def wr_u64_def)

lemma drop_exact: "length a = n \<Longrightarrow> drop n (a @ b) = b"
  by simp

lemma drops_equal_iff: "dh_device_drops_equal a b \<longleftrightarrow> a = b"
  by (cases a; cases b) (auto simp: dh_device_drops_equal_def)

text \<open>Every session message survives its wire form: what one end encodes as a body the other end's
  decoder reads back unchanged, for every value of every field (key ids, nonces and keys at their fixed
  sizes).\<close>

theorem session_bodies_roundtrip:
  "(length (he_helper_key_id h) = 8 \<and> length (he_helper_nonce h) = 16 \<longrightarrow> dh_hello_decode (hello_body h) = Some h) \<and>
   (length (ha_board_nonce a) = 16 \<longrightarrow> dh_hello_ack_decode (hello_ack_body a) = Some a) \<and>
   dh_hello_refused_decode (hello_refused_body r) = Some r \<and>
   (length (pq_helper_public q) = 64 \<longrightarrow> dh_pair_request_decode (pair_request_body q) = Some q) \<and>
   (length (pg_board_public g) = 64 \<longrightarrow> dh_pair_grant_decode (pair_grant_body g) = Some g) \<and>
   dh_pair_refused_decode (pair_refused_body f) = Some f \<and>
   dh_device_drops_decode (drops_write d) = Some d"
  by (simp add: dh_hello_decode_def hello_body_def dh_hello_ack_decode_def hello_ack_body_def nth_append
      dh_hello_refused_decode_def hello_refused_body_def dh_pair_request_decode_def pair_request_body_def
      dh_pair_grant_decode_def pair_grant_body_def dh_pair_refused_decode_def pair_refused_body_def
      dh_device_drops_decode_def drops_write_def)

theorem session_bodies_roundtrip_witness:
  "dh_hello_decode (hello_body \<lparr>he_proto_version = 7, he_os = 1, he_build_type = 0, he_channel_count = 2, he_max_chunk = 1024,
     he_correlation = 77, he_helper_key_id = replicate 8 3, he_helper_nonce = replicate 16 4\<rparr>) =
   Some \<lparr>he_proto_version = 7, he_os = 1, he_build_type = 0, he_channel_count = 2, he_max_chunk = 1024,
     he_correlation = 77, he_helper_key_id = replicate 8 3, he_helper_nonce = replicate 16 4\<rparr>"
  using session_bodies_roundtrip by simp

text \<open>The clipboard settings: the cap is the default for a stored zero and never above 64 MB, which in
  bytes does not overflow 32 bits; the two boards' policies are the two ends of the same two directions, so
  one end may send exactly when the other may receive.\<close>

theorem clip_policy_consistent:
  "0 < dh_clip_cap_mb stored \<and> dh_clip_cap_mb stored \<le> DH_CLIP_CAP_MB_MAX \<and>
   unat (dh_clip_cap_bytes stored) = unat (dh_clip_cap_mb stored) * 1048576 \<and>
   (bit (dh_clip_policy_for 0 ab ba) 0 \<longleftrightarrow> bit (dh_clip_policy_for 1 ab ba) 1) \<and>
   (bit (dh_clip_policy_for 1 ab ba) 0 \<longleftrightarrow> bit (dh_clip_policy_for 0 ab ba) 1) \<and>
   (bit (dh_clip_policy_for 0 ab ba) 0 \<longleftrightarrow> \<not> ab)"
proof -
  define w where "w = dh_clip_cap_mb stored"
  have w: "0 < w" "w \<le> 64"
    by (auto simp: w_def dh_clip_cap_mb_def word_gt_0)
  then have "unat w \<le> 64" by (simp add: word_le_nat_alt)
  then have "unat (ucast w * 1024 * 1024 :: u32) = unat w * 1048576"
    by (simp add: unat_word_ariths unat_ucast_byte)
  moreover have "(bit (dh_clip_policy_for 0 ab ba) 0 \<longleftrightarrow> bit (dh_clip_policy_for 1 ab ba) 1) \<and>
    (bit (dh_clip_policy_for 1 ab ba) 0 \<longleftrightarrow> bit (dh_clip_policy_for 0 ab ba) 1) \<and>
    (bit (dh_clip_policy_for 0 ab ba) 0 \<longleftrightarrow> \<not> ab)"
    by (cases ab; cases ba) (simp_all add: dh_clip_policy_for_def)
  ultimately show ?thesis
    using w by (auto simp: dh_clip_cap_bytes_def w_def [symmetric])
qed

end
