(* ===== verification/DH_Session.thy ===== *)
theory DH_Session
  imports DH_Session_Msg
begin

text \<open>
  The board's side of a session (\<open>src/src/core/dh_session.h\<close>, second half of \<open>dh_session.c\<close>): the hello
  exchange, the pairing exchange, per-frame authentication, the listener window, the owed announcements
  and the liveness clock. An operation that may owe a reply returns \<open>Inr (Some frame)\<close>, \<open>Inr None\<close> for
  the source's \<open>DH_FRAME_OK\<close> with \<open>*out_len == 0\<close>, and \<open>Inl e\<close> for an encoding error.
\<close>

section \<open>Model\<close>

abbreviation (input) DH_SESSION_CHANNEL_COUNT :: byte where "DH_SESSION_CHANNEL_COUNT \<equiv> 2"
abbreviation (input) DH_SESSION_HEARTBEAT_MS :: u32 where "DH_SESSION_HEARTBEAT_MS \<equiv> 1000"
abbreviation (input) DH_SESSION_ABSENT_MS :: u32 where "DH_SESSION_ABSENT_MS \<equiv> 3000"
abbreviation (input) DH_SESSION_MAX_CHUNK :: u16 where "DH_SESSION_MAX_CHUNK \<equiv> 1024"
abbreviation (input) DH_SESSION_MIN_CHUNK :: u16 where "DH_SESSION_MIN_CHUNK \<equiv> 64"
abbreviation (input) DH_SESSION_END_LIVENESS_TIMEOUT :: byte where "DH_SESSION_END_LIVENESS_TIMEOUT \<equiv> 1"
abbreviation (input) DH_BUILD_DEVELOPMENT :: byte where "DH_BUILD_DEVELOPMENT \<equiv> 1"
abbreviation (input) DH_LISTENER_WINDOW_MS :: u32 where "DH_LISTENER_WINDOW_MS \<equiv> 10000"
abbreviation (input) DH_LISTENER_THRESHOLD :: u32 where "DH_LISTENER_THRESHOLD \<equiv> 4"

record dh_session =
  se_present :: bool
  se_build_type :: byte
  se_peer_os :: byte
  se_channel_count :: byte
  se_max_chunk :: u16
  se_last_seen_ms :: u32
  se_frames_in :: u32
  se_sessions :: u32
  se_frames_refused :: u32
  se_last_sent_ms :: u32
  se_k_h2b :: "byte list"
  se_k_b2h :: "byte list"
  se_rx :: dh_auth_counter
  se_tx_counter :: u64
  se_staged_nonce :: "byte list"
  se_nonce_staged :: bool
  se_window_started_ms :: u32
  se_refused_in_window :: u32
  se_window_started :: bool
  se_refused_as_registered :: bool
  se_alert_pending :: bool
  se_alert :: dh_listener_alert
  se_clip_flags :: byte
  se_clip_policy_owed :: bool
  se_clip_cap_mb :: byte
  se_drops :: dh_device_drops
  se_drops_owed :: bool
  se_drops_sent_ms :: u32
  se_drops_ever_sent :: bool

type_synonym reply = "(byte list option) dh_frame_result"

definition zero_drops :: dh_device_drops where
  "zero_drops =
     \<lparr>dd_reports = 0, dd_inbound = 0, dd_outq = 0, dd_unsent = 0, dd_orphans = 0, dd_truncated = 0, dd_relay_q = 0,
      dd_frames_in = 0, dd_reports_in = 0, dd_frames_refused = 0, dd_outq_priority = 0, dd_outq_bad_header = 0\<rparr>"

definition dh_session_init :: "byte \<Rightarrow> dh_session" where
  "dh_session_init build_type =
     \<lparr>se_present = False, se_build_type = build_type, se_peer_os = 0, se_channel_count = 0, se_max_chunk = 0,
      se_last_seen_ms = 0, se_frames_in = 0, se_sessions = 0, se_frames_refused = 0, se_last_sent_ms = 0,
      se_k_h2b = replicate DH_SESSION_KEY_SIZE 0, se_k_b2h = replicate DH_SESSION_KEY_SIZE 0,
      se_rx = dh_auth_counter_init, se_tx_counter = 0, se_staged_nonce = replicate DH_NONCE_SIZE 0,
      se_nonce_staged = False, se_window_started_ms = 0, se_refused_in_window = 0, se_window_started = False,
      se_refused_as_registered = False, se_alert_pending = False, se_alert = \<lparr>la_window_ms = 0, la_refused = 0\<rparr>,
      se_clip_flags = DH_CLIP_MAY_SEND OR DH_CLIP_MAY_RECEIVE, se_clip_policy_owed = False, se_clip_cap_mb = 0,
      se_drops = zero_drops, se_drops_owed = False, se_drops_sent_ms = 0, se_drops_ever_sent = False\<rparr>"

definition dh_session_needs_nonce :: "dh_session \<Rightarrow> bool" where
  "dh_session_needs_nonce s = (\<not> se_nonce_staged s)"

definition dh_session_stage_nonce :: "dh_session \<Rightarrow> byte list \<Rightarrow> dh_session" where
  "dh_session_stage_nonce s nonce = s\<lparr>se_staged_nonce := nonce, se_nonce_staged := True\<rparr>"

definition dh_session_drop :: "dh_session \<Rightarrow> dh_session" where
  "dh_session_drop s =
     s\<lparr>se_present := False, se_peer_os := 0, se_channel_count := 0, se_max_chunk := 0, se_last_seen_ms := 0,
       se_last_sent_ms := 0, se_k_h2b := replicate DH_SESSION_KEY_SIZE 0, se_k_b2h := replicate DH_SESSION_KEY_SIZE 0,
       se_rx := dh_auth_counter_init, se_tx_counter := 0, se_clip_policy_owed := False,
       se_drops_owed := False, se_drops_ever_sent := False\<rparr>"

definition dh_session_set_clip_policy :: "dh_session \<Rightarrow> byte \<Rightarrow> byte \<Rightarrow> dh_session" where
  "dh_session_set_clip_policy s clip_flags cap_mb =
     (if se_clip_flags s = clip_flags \<and> se_clip_cap_mb s = cap_mb then s
      else
        let s = s\<lparr>se_clip_flags := clip_flags, se_clip_cap_mb := cap_mb\<rparr> in
        if se_present s then s\<lparr>se_clip_policy_owed := True\<rparr> else s)"

definition dh_session_set_drops :: "dh_session \<Rightarrow> dh_device_drops \<Rightarrow> dh_session" where
  "dh_session_set_drops s drops =
     (if dh_device_drops_equal (se_drops s) drops then s
      else
        let s = s\<lparr>se_drops := drops\<rparr> in
        if se_present s then s\<lparr>se_drops_owed := True\<rparr> else s)"

definition note_received :: "dh_session \<Rightarrow> u32 \<Rightarrow> dh_session" where
  "note_received s now =
     (if \<not> se_present s then s else s\<lparr>se_last_seen_ms := now, se_frames_in := sat_inc (se_frames_in s)\<rparr>)"

definition dh_session_note_sent :: "dh_session \<Rightarrow> u32 \<Rightarrow> dh_session" where
  "dh_session_note_sent s now = s\<lparr>se_last_sent_ms := now\<rparr>"

definition dh_session_note_owed_sent :: "dh_session \<Rightarrow> byte \<Rightarrow> dh_session" where
  "dh_session_note_owed_sent s t =
     (let s = (if t = DH_MSG_LISTENER_ALERT then s\<lparr>se_alert_pending := False\<rparr> else s);
          s = (if t = DH_MSG_CLIP_POLICY then s\<lparr>se_clip_policy_owed := False\<rparr> else s) in
      if t = DH_MSG_DEVICE_DROPS then s\<lparr>se_drops_owed := False\<rparr> else s)"

definition note_refused :: "dh_session \<Rightarrow> u32 \<Rightarrow> bool \<Rightarrow> dh_session" where
  "note_refused s now as_registered =
     (let s = s\<lparr>se_frames_refused := sat_inc (se_frames_refused s)\<rparr>;
          s = (if \<not> se_window_started s
               then s\<lparr>se_window_started := True, se_window_started_ms := now, se_refused_in_window := 0,
                      se_refused_as_registered := False\<rparr>
               else s);
          s = s\<lparr>se_refused_in_window := sat_inc (se_refused_in_window s)\<rparr> in
      if as_registered then s\<lparr>se_refused_as_registered := True\<rparr> else s)"

definition close_listener_window :: "dh_session \<Rightarrow> u32 \<Rightarrow> dh_session" where
  "close_listener_window s now =
     (if \<not> se_window_started s then s
      else if now - se_window_started_ms s < DH_LISTENER_WINDOW_MS then s
      else
        let s = (if se_refused_in_window s \<ge> DH_LISTENER_THRESHOLD \<or> se_refused_as_registered s
                 then s\<lparr>se_alert := \<lparr>la_window_ms = DH_LISTENER_WINDOW_MS, la_refused = se_refused_in_window s\<rparr>,
                        se_alert_pending := True\<rparr>
                 else s) in
        s\<lparr>se_window_started := False, se_refused_in_window := 0, se_refused_as_registered := False\<rparr>)"

definition negotiate_chunk :: "u16 \<Rightarrow> u16" where
  "negotiate_chunk requested =
     (if requested = 0 \<or> requested < DH_SESSION_MIN_CHUNK then DH_SESSION_MIN_CHUNK
      else if requested < DH_SESSION_MAX_CHUNK then requested else DH_SESSION_MAX_CHUNK)"

definition negotiate_channels :: "byte \<Rightarrow> byte" where
  "negotiate_channels requested =
     (if requested = 0 then 1
      else if requested < DH_SESSION_CHANNEL_COUNT then requested else DH_SESSION_CHANNEL_COUNT)"

definition no_secret :: "byte list" where
  "no_secret = replicate DH_P256_SHARED_SIZE 0"

definition skips_authentication :: "dh_session \<Rightarrow> bool" where
  "skips_authentication s = (se_build_type s = DH_BUILD_DEVELOPMENT)"

definition to_reply :: "(byte list) dh_frame_result \<Rightarrow> reply" where
  "to_reply rc = (case rc of Inl e \<Rightarrow> Inl e | Inr f \<Rightarrow> Inr (Some f))"

definition refuse_hello :: "u64 \<Rightarrow> byte \<Rightarrow> nat \<Rightarrow> reply" where
  "refuse_hello correlation status cap =
     to_reply (dh_hello_refused_encode
       \<lparr>hr_correlation = correlation, hr_proto_version = DH_PROTO_VERSION, hr_status = status\<rparr> cap)"

text \<open>The payload of a view is its first \<open>hdr.len\<close> bytes.\<close>

definition view_payload :: "dh_frame_view \<Rightarrow> byte list" where
  "view_payload f = take (unat (fh_len (fv_hdr f))) (fv_payload f)"

text \<open>The fields of a hello read before anything is verified.\<close>

definition hello_readable :: "dh_frame_view \<Rightarrow> dh_hello option" where
  "hello_readable f =
     (if unat (fh_len (fv_hdr f)) \<ge> DH_FRAME_AUTH_PREFIX_SIZE
      then dh_hello_decode (drop DH_FRAME_AUTH_PREFIX_SIZE (view_payload f)) else None)"

text \<open>The session a verified hello establishes, and the acknowledgement it is answered with.\<close>

definition establish :: "dh_session \<Rightarrow> byte list \<Rightarrow> dh_hello \<Rightarrow> u32 \<Rightarrow> nat \<Rightarrow> dh_session \<times> reply" where
  "establish s shared_secret hello now cap =
     (let ack = \<lparr>ha_correlation = he_correlation hello, ha_proto_version = DH_PROTO_VERSION,
                 ha_build_type = se_build_type s, ha_channel_count = negotiate_channels (he_channel_count hello),
                 ha_max_chunk = negotiate_chunk (he_max_chunk hello), ha_board_nonce = se_staged_nonce s\<rparr>;
          (k_h2b, k_b2h) = dh_auth_derive_session_keys shared_secret (he_helper_nonce hello) (se_staged_nonce s);
          s = s\<lparr>se_k_h2b := k_h2b, se_k_b2h := k_b2h, se_rx := dh_auth_counter_init, se_tx_counter := 0,
                se_present := True, se_sessions := sat_inc (se_sessions s), se_peer_os := he_os hello,
                se_channel_count := ha_channel_count ack, se_max_chunk := ha_max_chunk ack, se_last_seen_ms := now,
                se_last_sent_ms := now, se_clip_policy_owed := True, se_drops_owed := True, se_drops_ever_sent := False\<rparr> in
      case dh_hello_ack_encode ack (se_k_b2h s) (se_tx_counter s) cap of
        Inl e \<Rightarrow> (s, Inl e)
      | Inr frame \<Rightarrow> (s\<lparr>se_tx_counter := se_tx_counter s + 1, se_nonce_staged := False\<rparr>, Inr (Some frame)))"

definition answer_hello :: "dh_session \<Rightarrow> dh_pair \<Rightarrow> dh_frame_view \<Rightarrow> u32 \<Rightarrow> nat \<Rightarrow> dh_session \<times> reply" where
  "answer_hello s pair f now cap =
     (case hello_readable f of
        None \<Rightarrow> (s, refuse_hello 0 DH_HELLO_REFUSED_VERSION_INCOMPATIBLE cap)
      | Some hello \<Rightarrow>
          if he_proto_version hello \<noteq> DH_PROTO_VERSION
          then (s, refuse_hello (he_correlation hello) DH_HELLO_REFUSED_VERSION_INCOMPATIBLE cap)
          else
            let known_helper = (dh_pair_shared_secret pair \<noteq> None \<and>
                  dh_pair_is_registered_key pair (Some (he_helper_key_id hello))) in
            if \<not> known_helper \<and> \<not> skips_authentication s
            then (s, refuse_hello (he_correlation hello) DH_HELLO_REFUSED_UNPAIRED cap)
            else
              let shared_secret = (case dh_pair_shared_secret pair of Some x \<Rightarrow> x | None \<Rightarrow> no_secret) in
              if \<not> skips_authentication s \<and>
                 isl (snd (dh_auth_open (dh_auth_derive_hello_key shared_secret (he_helper_nonce hello))
                    (fv_hdr f) (fv_payload f) dh_auth_counter_init))
              then (note_refused s now True, Inr None)
              else if \<not> se_nonce_staged s then (s, Inr None)
              else establish s shared_secret hello now cap)"

definition answer_pair_request ::
  "uecc \<Rightarrow> dh_pair \<Rightarrow> dh_frame_view \<Rightarrow> u32 \<Rightarrow> nat \<Rightarrow> dh_pair \<times> reply" where
  "answer_pair_request E pair f now cap =
     (case dh_pair_request_decode (view_payload f) of
        None \<Rightarrow> (pair, Inr None)
      | Some request \<Rightarrow>
          let (pair, rc) = dh_pair_register E pair now (pq_helper_public request) in
          if rc = DH_PAIR_OK then
            (pair, to_reply (dh_pair_grant_encode
              \<lparr>pg_correlation = pq_correlation request, pg_board_public = the (dh_pair_public_key pair)\<rparr> cap))
          else if rc = DH_PAIR_ERR_BAD_KEY \<or> rc = DH_PAIR_ERR_NO_IDENTITY then (pair, Inr None)
          else
            (pair, to_reply (dh_pair_refused_encode
              \<lparr>pf_correlation = pq_correlation request,
               pf_reason = (if rc = DH_PAIR_ERR_ALREADY_REGISTERED then DH_PAIR_REFUSED_ALREADY_REGISTERED
                            else DH_PAIR_REFUSED_NO_WINDOW)\<rparr> cap)))"

definition dh_session_authenticate ::
  "dh_session \<Rightarrow> dh_frame_view \<Rightarrow> u32 \<Rightarrow> dh_session \<times> (byte list) dh_auth_result" where
  "dh_session_authenticate s f now =
     (if \<not> se_present s then (s, Inl DH_AUTH_ERR_NO_KEY)
      else if unat (fh_len (fv_hdr f)) < DH_FRAME_AUTH_PREFIX_SIZE then (s, Inl DH_AUTH_ERR_SHORT)
      else if skips_authentication s
      then (note_received s now, Inr (drop DH_FRAME_AUTH_PREFIX_SIZE (view_payload f)))
      else
        case dh_auth_open (se_k_h2b s) (fv_hdr f) (fv_payload f) (se_rx s) of
          (rx, Inl e) \<Rightarrow> (note_refused (s\<lparr>se_rx := rx\<rparr>) now False, Inl e)
        | (rx, Inr body) \<Rightarrow> (note_received (s\<lparr>se_rx := rx\<rparr>) now, Inr body))"

definition dh_session_on_frame ::
  "uecc \<Rightarrow> dh_session \<Rightarrow> dh_pair \<Rightarrow> dh_frame_view \<Rightarrow> u32 \<Rightarrow> nat \<Rightarrow> dh_session \<times> dh_pair \<times> reply" where
  "dh_session_on_frame E s pair f now cap =
     (let t = fh_type (fv_hdr f) in
      if t = DH_MSG_HELLO then let (s, rc) = answer_hello s pair f now cap in (s, pair, rc)
      else if t = DH_MSG_PAIR_REQUEST then let (pair, rc) = answer_pair_request E pair f now cap in (s, pair, rc)
      else if t = DH_MSG_HEARTBEAT \<or> t = DH_MSG_POS_RESPONSE
      then (fst (dh_session_authenticate s f now), pair, Inr None)
      else (s, pair, Inr None))"

definition dh_session_emit_relayed :: "dh_session \<Rightarrow> dh_frame_view \<Rightarrow> nat \<Rightarrow> dh_session \<times> reply" where
  "dh_session_emit_relayed s f cap =
     (if \<not> se_present s then (s, Inl DH_FRAME_ERR_UNKNOWN_TYPE)
      else
        case encode_tagged (fh_type (fv_hdr f)) (fh_flags (fv_hdr f)) (se_k_b2h s) (se_tx_counter s)
               (view_payload f) cap of
          Inl e \<Rightarrow> (s, Inl e)
        | Inr frame \<Rightarrow> (s\<lparr>se_tx_counter := se_tx_counter s + 1\<rparr>, Inr (Some frame)))"

definition dh_session_end :: "dh_session \<Rightarrow> byte \<Rightarrow> u32 \<Rightarrow> nat \<Rightarrow> dh_session \<times> reply" where
  "dh_session_end s reason silent_ms cap =
     (if \<not> se_present s then (s, Inr None)
      else
        (dh_session_drop s,
         to_reply (encode_tagged DH_MSG_SESSION_END 0 (se_k_b2h s) (se_tx_counter s) (reason # wr_u32 silent_ms) cap)))"

text \<open>A frame of the tick that was encoded: the counter is spent and, but for the drop totals, the idle
  timer charged.\<close>

definition tick_emit :: "dh_session \<Rightarrow> byte \<Rightarrow> byte list \<Rightarrow> nat \<Rightarrow> (dh_session \<Rightarrow> dh_session) \<Rightarrow> dh_session \<times> reply" where
  "tick_emit s t body cap sent =
     (case encode_tagged t 0 (se_k_b2h s) (se_tx_counter s) body cap of
        Inl e \<Rightarrow> (s, Inl e)
      | Inr frame \<Rightarrow> (sent (s\<lparr>se_tx_counter := se_tx_counter s + 1\<rparr>), Inr (Some frame)))"

definition dh_session_tick :: "dh_session \<Rightarrow> u32 \<Rightarrow> nat \<Rightarrow> dh_session \<times> reply" where
  "dh_session_tick s0 now cap =
     (let s = close_listener_window s0 now in
      if \<not> se_present s then (s, Inr None)
      else if sint (now - se_last_seen_ms s) \<ge> 3000
      then dh_session_end s DH_SESSION_END_LIVENESS_TIMEOUT (now - se_last_seen_ms s) cap
      else if se_clip_policy_owed s
      then tick_emit s DH_MSG_CLIP_POLICY [se_clip_flags s, se_clip_cap_mb s] cap (\<lambda>s. dh_session_note_sent s now)
      else if se_alert_pending s
      then tick_emit s DH_MSG_LISTENER_ALERT (wr_u32 (la_window_ms (se_alert s)) @ wr_u32 (la_refused (se_alert s))) cap
        (\<lambda>s. dh_session_note_sent s now)
      else if se_drops_owed s \<and> (\<not> se_drops_ever_sent s \<or> now - se_drops_sent_ms s \<ge> DH_SESSION_HEARTBEAT_MS)
      then tick_emit s DH_MSG_DEVICE_DROPS (drops_write (se_drops s)) cap
        (\<lambda>s. s\<lparr>se_drops_sent_ms := now, se_drops_ever_sent := True\<rparr>)
      else if now - se_last_sent_ms s < DH_SESSION_HEARTBEAT_MS then (s, Inr None)
      else tick_emit s DH_MSG_DEVICE_HEARTBEAT [] cap (\<lambda>s. dh_session_note_sent s now))"

section \<open>Counters on the wire\<close>

text \<open>What a board can be asked to do, as its caller interleaves it: frames from the helper, frames
  authenticated for relay, frames relayed to the helper, ticks, ends, drops and the settings. The
  pairing state is whatever the caller holds at that point.\<close>

datatype session_op =
  OnFrame dh_pair dh_frame_view u32
| Authenticate dh_frame_view u32
| EmitRelayed dh_frame_view
| Tick u32
| EndSession byte u32
| DropSession
| StageNonce "byte list"
| SetClipPolicy byte byte
| SetDrops dh_device_drops
| NoteSent u32
| NoteOwedSent byte

fun session_step :: "uecc \<Rightarrow> nat \<Rightarrow> session_op \<Rightarrow> dh_session \<Rightarrow> dh_session \<times> reply" where
  "session_step E cap (OnFrame pair f now) s =
     (let (s', _, rc) = dh_session_on_frame E s pair f now cap in (s', rc))"
| "session_step E cap (Authenticate f now) s = (fst (dh_session_authenticate s f now), Inr None)"
| "session_step E cap (EmitRelayed f) s = dh_session_emit_relayed s f cap"
| "session_step E cap (Tick now) s = dh_session_tick s now cap"
| "session_step E cap (EndSession reason silent) s = dh_session_end s reason silent cap"
| "session_step E cap DropSession s = (dh_session_drop s, Inr None)"
| "session_step E cap (StageNonce n) s = (dh_session_stage_nonce s n, Inr None)"
| "session_step E cap (SetClipPolicy a b) s = (dh_session_set_clip_policy s a b, Inr None)"
| "session_step E cap (SetDrops d) s = (dh_session_set_drops s d, Inr None)"
| "session_step E cap (NoteSent now) s = (dh_session_note_sent s now, Inr None)"
| "session_step E cap (NoteOwedSent t) s = (dh_session_note_owed_sent s t, Inr None)"

text \<open>The frames a history puts on the wire.\<close>

fun session_run :: "uecc \<Rightarrow> nat \<Rightarrow> session_op list \<Rightarrow> dh_session \<Rightarrow> dh_session \<times> byte list list" where
  "session_run E cap [] s = (s, [])"
| "session_run E cap (op # ops) s =
     (let (s', rc) = session_step E cap op s; (s'', fs) = session_run E cap ops s' in
      (s'', (case rc of Inr (Some f) \<Rightarrow> [f] | _ \<Rightarrow> []) @ fs))"

definition frame_type :: "byte list \<Rightarrow> byte" where
  "frame_type f = f ! 0"

definition frame_counter :: "byte list \<Rightarrow> u64" where
  "frame_counter f = of_le_bytes (take 8 (drop 4 f))"

text \<open>The type and counter of every authenticated frame sent.\<close>

definition tagged :: "byte list list \<Rightarrow> (byte \<times> u64) list" where
  "tagged fs = map (\<lambda>f. (frame_type f, frame_counter f)) (filter (\<lambda>f. dh_msg_is_authenticated (frame_type f)) fs)"

text \<open>Counters consecutive from zero: \<open>lst\<close> is the counter before, \<open>None\<close> when no session is open. A
  hello ack opens a session at zero; every other frame spends the next counter.\<close>

fun consecutive :: "u64 option \<Rightarrow> (byte \<times> u64) list \<Rightarrow> bool" where
  "consecutive lst [] = True"
| "consecutive lst ((t, c) # xs) =
     ((t = DH_MSG_HELLO_ACK \<and> c = 0 \<or> (case lst of Some l \<Rightarrow> c = l + 1 | None \<Rightarrow> False)) \<and>
      consecutive (Some c) xs)"

definition ops_ok :: "session_op list \<Rightarrow> bool" where
  "ops_ok ops = list_all (\<lambda>op. case op of StageNonce n \<Rightarrow> length n = 16
     | EmitRelayed f \<Rightarrow> dh_msg_is_authenticated (fh_type (fv_hdr f)) | _ \<Rightarrow> True) ops"

text \<open>The counter a session will send next, after \<open>lst\<close>.\<close>

definition session_after :: "u64 option \<Rightarrow> dh_session \<Rightarrow> bool" where
  "session_after lst s =
     (length (se_staged_nonce s) = 16 \<and>
      (se_present s \<longrightarrow> (case lst of Some l \<Rightarrow> se_tx_counter s = l + 1 | None \<Rightarrow> False)))"

lemma session_after_same:
  "session_after lst s \<Longrightarrow> se_present s' = se_present s \<Longrightarrow> se_tx_counter s' = se_tx_counter s \<Longrightarrow>
   se_staged_nonce s' = se_staged_nonce s \<Longrightarrow> session_after lst s'"
  by (cases lst) (simp_all add: session_after_def)

lemma encode_tagged_frame:
  assumes "encode_tagged t fl key c body cap = Inr fr"
  shows "frame_type fr = t" and "frame_counter fr = c"
  using auth_frame_shape [OF assms [unfolded encode_tagged_def]]
  by (simp_all add: frame_type_def frame_counter_def le16_def of_le_bytes_le_bytes)

lemma encode_tagged_ok:
  assumes "28 + length body \<le> cap" and "length body \<le> 4072"
  shows "\<exists>fr. encode_tagged t fl key c body cap = Inr fr"
proof -
  have "\<not> cap - 4 < 24 + length body" "\<not> cap < 4 + (24 + length body)" using assms(1) by linarith+
  with assms(2) show ?thesis
    by (simp add: encode_tagged_def dh_auth_frame_def dh_auth_wrap_def Let_def)
qed

lemma frame_encode_type: "dh_frame_encode t fl p cap = Inr fr \<Longrightarrow> frame_type fr = t"
  by (auto simp: dh_frame_encode_def Let_def frame_type_def split: if_splits)

lemma to_reply_Some: "to_reply r = Inr (Some f) \<longleftrightarrow> r = Inr f"
  by (cases r) (simp_all add: to_reply_def)

text \<open>One step either sends nothing tagged and keeps the place in the counter sequence (or loses the
  session), or sends one tagged frame that continues it.\<close>

definition sends :: "reply \<Rightarrow> byte list list" where
  "sends rc = (case rc of Inr (Some f) \<Rightarrow> [f] | _ \<Rightarrow> [])"

definition step_continues :: "u64 option \<Rightarrow> dh_session \<Rightarrow> reply \<Rightarrow> bool" where
  "step_continues lst s' rc =
     (consecutive lst (tagged (sends rc)) \<and>
      session_after (case tagged (sends rc) of [] \<Rightarrow> lst | x # _ \<Rightarrow> Some (snd x)) s')"

lemma continues_quiet: "session_after lst s' \<Longrightarrow> tagged (sends rc) = [] \<Longrightarrow> step_continues lst s' rc"
  by (simp add: step_continues_def)

lemma tagged_untagged_reply:
  "\<not> dh_msg_is_authenticated t \<Longrightarrow> tagged (sends (to_reply (dh_frame_encode t fl p cap))) = []"
  by (cases "dh_frame_encode t fl p cap")
     (auto simp: to_reply_def sends_def tagged_def frame_encode_type)

lemma tagged_quiet [simp]: "tagged (sends (Inr None)) = []" "tagged (sends (Inl e)) = []"
  by (simp_all add: sends_def tagged_def)

lemma note_refused_frame:
  "se_present (note_refused s now r) = se_present s" "se_tx_counter (note_refused s now r) = se_tx_counter s"
  "se_staged_nonce (note_refused s now r) = se_staged_nonce s" "se_k_h2b (note_refused s now r) = se_k_h2b s"
  "se_k_b2h (note_refused s now r) = se_k_b2h s" "se_rx (note_refused s now r) = se_rx s"
  "se_last_seen_ms (note_refused s now r) = se_last_seen_ms s" "se_nonce_staged (note_refused s now r) = se_nonce_staged s"
  "se_build_type (note_refused s now r) = se_build_type s" "se_sessions (note_refused s now r) = se_sessions s"
  by (simp_all add: note_refused_def Let_def)

lemma close_window_frame:
  "se_present (close_listener_window s now) = se_present s"
  "se_tx_counter (close_listener_window s now) = se_tx_counter s"
  "se_staged_nonce (close_listener_window s now) = se_staged_nonce s"
  "se_k_b2h (close_listener_window s now) = se_k_b2h s" "se_k_h2b (close_listener_window s now) = se_k_h2b s"
  "se_last_seen_ms (close_listener_window s now) = se_last_seen_ms s"
  "se_last_sent_ms (close_listener_window s now) = se_last_sent_ms s"
  "se_clip_policy_owed (close_listener_window s now) = se_clip_policy_owed s"
  "se_rx (close_listener_window s now) = se_rx s"
  by (simp_all add: close_listener_window_def Let_def)

lemma note_received_frame:
  "se_present (note_received s now) = se_present s" "se_tx_counter (note_received s now) = se_tx_counter s"
  "se_staged_nonce (note_received s now) = se_staged_nonce s" "se_k_h2b (note_received s now) = se_k_h2b s"
  "se_k_b2h (note_received s now) = se_k_b2h s" "se_rx (note_received s now) = se_rx s"
  by (simp_all add: note_received_def)

lemma settings_frame:
  "se_present (dh_session_set_clip_policy s a b) = se_present s"
  "se_tx_counter (dh_session_set_clip_policy s a b) = se_tx_counter s"
  "se_staged_nonce (dh_session_set_clip_policy s a b) = se_staged_nonce s"
  "se_present (dh_session_set_drops s d) = se_present s"
  "se_tx_counter (dh_session_set_drops s d) = se_tx_counter s"
  "se_staged_nonce (dh_session_set_drops s d) = se_staged_nonce s"
  "se_present (dh_session_note_sent s n) = se_present s"
  "se_tx_counter (dh_session_note_sent s n) = se_tx_counter s"
  "se_staged_nonce (dh_session_note_sent s n) = se_staged_nonce s"
  "se_present (dh_session_note_owed_sent s t) = se_present s"
  "se_tx_counter (dh_session_note_owed_sent s t) = se_tx_counter s"
  "se_staged_nonce (dh_session_note_owed_sent s t) = se_staged_nonce s"
  by (simp_all add: dh_session_set_clip_policy_def dh_session_set_drops_def dh_session_note_sent_def
      dh_session_note_owed_sent_def Let_def)

lemmas session_frames = note_refused_frame close_window_frame note_received_frame

lemma establish_continues:
  assumes "cap \<ge> DH_SESSION_REPLY_MAX" and "length (se_staged_nonce s) = 16"
    and "establish s ss hello now cap = (s', rc)"
  shows "step_continues lst s' rc"
proof -
  obtain k1 k2 where k: "dh_auth_derive_session_keys ss (he_helper_nonce hello) (se_staged_nonce s) = (k1, k2)"
    by (cases "dh_auth_derive_session_keys ss (he_helper_nonce hello) (se_staged_nonce s)")
  define ack where "ack = \<lparr>ha_correlation = he_correlation hello, ha_proto_version = 7,
                 ha_build_type = se_build_type s, ha_channel_count = negotiate_channels (he_channel_count hello),
                 ha_max_chunk = negotiate_chunk (he_max_chunk hello), ha_board_nonce = se_staged_nonce s\<rparr>"
  have "length (hello_ack_body ack) = 30" using assms(2) by (simp add: hello_ack_body_def ack_def)
  then obtain fr where fr: "dh_hello_ack_encode ack k2 0 cap = Inr fr"
    using assms(1) encode_tagged_ok [of "hello_ack_body ack" cap] by (fastforce simp: dh_hello_ack_encode_def)
  then have "rc = Inr (Some fr)" and s': "se_tx_counter s' = 1" "se_staged_nonce s' = se_staged_nonce s"
    using assms(3) k by (auto simp: establish_def Let_def ack_def [symmetric])
  moreover have "frame_type fr = DH_MSG_HELLO_ACK" "frame_counter fr = 0"
    using fr encode_tagged_frame by (auto simp: dh_hello_ack_encode_def)
  ultimately show ?thesis
    using assms(2) by (simp add: step_continues_def sends_def tagged_def dh_msg_is_authenticated_def session_after_def)
qed

lemma emit_continues:
  assumes after: "session_after lst s" and p: "se_present s" and auth: "dh_msg_is_authenticated t"
    and enc: "encode_tagged t fl key (se_tx_counter s) body cap = r"
    and s': "\<And>fr. r = Inr fr \<Longrightarrow> length (se_staged_nonce s') = 16 \<and>
      (se_present s' \<longrightarrow> se_tx_counter s' = se_tx_counter s + 1)"
    and fail: "\<And>e. r = Inl e \<Longrightarrow> session_after lst s'"
  shows "step_continues lst s' (to_reply r)"
proof (cases r)
  case (Inl e)
  then show ?thesis using fail by (simp add: step_continues_def to_reply_def)
next
  case (Inr fr)
  obtain l where l: "lst = Some l" "se_tx_counter s = l + 1"
    using after p by (auto simp: session_after_def split: option.splits)
  have "frame_type fr = t" "frame_counter fr = se_tx_counter s"
    using encode_tagged_frame enc Inr by auto
  with l auth s' [OF Inr] Inr show ?thesis
    by (auto simp: step_continues_def to_reply_def sends_def tagged_def session_after_def)
qed


lemma answer_hello_cases:
  assumes "answer_hello s pair f now cap = (s', rc)"
  obtains c st where "s' = s" and "rc = refuse_hello c st cap"
  | "s' = note_refused s now True" and "rc = Inr None"
  | "s' = s" and "rc = Inr None"
  | hello where "hello_readable f = Some hello" and "he_proto_version hello = 7" and "se_nonce_staged s"
    and "skips_authentication s \<or> (\<exists>ss. dh_pair_shared_secret pair = Some ss \<and>
        dh_pair_is_registered_key pair (Some (he_helper_key_id hello)) \<and>
        \<not> isl (snd (dh_auth_open (dh_auth_derive_hello_key ss (he_helper_nonce hello)) (fv_hdr f) (fv_payload f)
          dh_auth_counter_init)))"
    and "establish s (case dh_pair_shared_secret pair of Some x \<Rightarrow> x | None \<Rightarrow> no_secret) hello now cap = (s', rc)"
  using assms by (auto simp: answer_hello_def Let_def split: option.splits if_splits)

lemma refuse_hello_quiet: "tagged (sends (refuse_hello c st cap)) = []"
  unfolding refuse_hello_def dh_hello_refused_encode_def
  by (rule tagged_untagged_reply) (simp add: dh_msg_is_authenticated_def)

lemma pair_reply_quiet: "tagged (sends (snd (answer_pair_request E pair f now cap))) = []"
  by (auto simp: answer_pair_request_def Let_def dh_pair_grant_encode_def dh_pair_refused_encode_def
      dh_msg_is_authenticated_def tagged_untagged_reply split: option.splits prod.splits)

lemma authenticate_frame:
  "se_present (fst (dh_session_authenticate s f now)) = se_present s"
  "se_tx_counter (fst (dh_session_authenticate s f now)) = se_tx_counter s"
  "se_staged_nonce (fst (dh_session_authenticate s f now)) = se_staged_nonce s"
  "se_k_h2b (fst (dh_session_authenticate s f now)) = se_k_h2b s"
  "se_k_b2h (fst (dh_session_authenticate s f now)) = se_k_b2h s"
  by (simp_all add: dh_session_authenticate_def session_frames split: prod.split sum.split)

lemma on_frame_continues:
  assumes cap: "cap \<ge> DH_SESSION_REPLY_MAX" and after: "session_after lst s"
    and on: "dh_session_on_frame E s pair f now cap = (s', pair', rc)"
  shows "step_continues lst s' rc"
proof -
  consider "fh_type (fv_hdr f) = DH_MSG_HELLO" | "fh_type (fv_hdr f) = DH_MSG_PAIR_REQUEST"
    | "fh_type (fv_hdr f) \<noteq> DH_MSG_HELLO" "fh_type (fv_hdr f) \<noteq> DH_MSG_PAIR_REQUEST" by blast
  then show ?thesis
  proof cases
    case 1
    then have "answer_hello s pair f now cap = (s', rc)"
      using on by (auto simp: dh_session_on_frame_def split: prod.splits)
    then show ?thesis
    proof (cases rule: answer_hello_cases)
      case 4
      then show ?thesis using establish_continues [OF cap] after by (auto simp: session_after_def)
    qed (use after in \<open>auto intro!: continues_quiet elim!: session_after_same simp: refuse_hello_quiet session_frames\<close>)
  next
    case 2
    then have "s' = s" "rc = snd (answer_pair_request E pair f now cap)"
      using on by (auto simp: dh_session_on_frame_def split: prod.splits)
    then show ?thesis using after by (simp add: continues_quiet pair_reply_quiet)
  next
    case 3
    then have "rc = Inr None" "s' = fst (dh_session_authenticate s f now) \<or> s' = s"
      using on by (auto simp: dh_session_on_frame_def Let_def split: if_splits)
    then show ?thesis
      using after by (auto intro!: continues_quiet elim!: session_after_same simp: authenticate_frame)
  qed
qed

lemma tick_emit_reply:
  "tick_emit s t body cap sent = (s', rc) \<Longrightarrow>
    rc = to_reply (encode_tagged t 0 (se_k_b2h s) (se_tx_counter s) body cap) \<and>
    s' = (if isl (encode_tagged t 0 (se_k_b2h s) (se_tx_counter s) body cap) then s
          else sent (s\<lparr>se_tx_counter := se_tx_counter s + 1\<rparr>))"
  by (auto simp: tick_emit_def to_reply_def split: sum.splits)

lemma tick_emit_continues:
  assumes "session_after lst s" and "se_present s" and "dh_msg_is_authenticated t"
    and "tick_emit s t body cap sent = (s', rc)"
    and "\<And>u. se_tx_counter (sent u) = se_tx_counter u" and "\<And>u. se_staged_nonce (sent u) = se_staged_nonce u"
    and "\<And>u. se_present (sent u) = se_present u"
  shows "step_continues lst s' rc"
proof -
  note r = tick_emit_reply [OF assms(4)]
  show ?thesis
    unfolding r [THEN conjunct1]
    by (rule emit_continues [OF assms(1,2,3) refl]) (use r assms in \<open>auto simp: session_after_def\<close>)
qed

lemma end_continues:
  assumes after: "session_after lst s" and e: "dh_session_end s reason silent cap = (s', rc)"
  shows "step_continues lst s' rc"
proof (cases "se_present s")
  case True
  show ?thesis
  proof -
    have "rc = to_reply (encode_tagged DH_MSG_SESSION_END 0 (se_k_b2h s) (se_tx_counter s) (reason # wr_u32 silent) cap)"
      and s': "s' = dh_session_drop s"
      using e True by (simp_all add: dh_session_end_def)
    then show ?thesis
      by (simp only:) (rule emit_continues [OF after True _ refl];
        use after in \<open>simp add: dh_msg_is_authenticated_def dh_session_drop_def session_after_def\<close>)
  qed
next
  case False
  then show ?thesis using after e by (auto simp: dh_session_end_def continues_quiet)
qed

lemma tick_continues:
  assumes after: "session_after lst s0" and t: "dh_session_tick s0 now cap = (s', rc)"
  shows "step_continues lst s' rc"
proof -
  define s where "s = close_listener_window s0 now"
  have a: "session_after lst s" using after by (rule session_after_same) (simp_all add: s_def session_frames)
  show ?thesis
  proof (cases "se_present s")
    case False
    with t a show ?thesis by (auto simp: dh_session_tick_def Let_def s_def [symmetric] continues_quiet)
  next
    case True
    note em = tick_emit_continues [OF a True]
    show ?thesis
      using t True a
      by (auto simp: dh_session_tick_def Let_def s_def [symmetric] continues_quiet dh_msg_is_authenticated_def
          dh_session_note_sent_def split: if_splits intro: end_continues elim!: em [rotated])
  qed
qed


lemma step_continues:
  assumes cap: "cap \<ge> DH_SESSION_REPLY_MAX" and after: "session_after lst s" and ok: "ops_ok [op]"
    and st: "session_step E cap op s = (s', rc)"
  shows "step_continues lst s' rc"
proof (cases op)
  case (OnFrame pair f now)
  then show ?thesis using st on_frame_continues [OF cap after] by (auto split: prod.splits)
next
  case (EmitRelayed f)
  have auth: "dh_msg_is_authenticated (fh_type (fv_hdr f))" using ok EmitRelayed by (simp add: ops_ok_def)
  show ?thesis
  proof (cases "se_present s")
    case True
    then have "rc = to_reply (encode_tagged (fh_type (fv_hdr f)) (fh_flags (fv_hdr f)) (se_k_b2h s) (se_tx_counter s)
        (view_payload f) cap)"
      and "s' = (if isl (encode_tagged (fh_type (fv_hdr f)) (fh_flags (fv_hdr f)) (se_k_b2h s) (se_tx_counter s)
        (view_payload f) cap) then s else s\<lparr>se_tx_counter := se_tx_counter s + 1\<rparr>)"
      using st EmitRelayed by (auto simp: dh_session_emit_relayed_def to_reply_def split: sum.splits)
    with after show ?thesis
      by (simp only:) (rule emit_continues [OF after True auth refl];
        auto simp: session_after_def split: if_splits)
  next
    case False
    then show ?thesis using st after EmitRelayed by (auto simp: dh_session_emit_relayed_def continues_quiet)
  qed
next
  case (Tick now)
  then show ?thesis using st tick_continues [OF after] by simp
next
  case (EndSession a b)
  then show ?thesis using st end_continues [OF after] by simp
next
  case (Authenticate f now)
  then show ?thesis using st after
    by (auto intro!: continues_quiet elim!: session_after_same simp: authenticate_frame)
next
  case DropSession
  then show ?thesis using st after by (auto intro!: continues_quiet simp: session_after_def dh_session_drop_def)
next
  case (StageNonce n)
  then have "length n = 16" using ok by (simp add: ops_ok_def)
  then have "session_after lst (dh_session_stage_nonce s n)"
    using after by (cases lst) (auto simp: session_after_def dh_session_stage_nonce_def)
  then show ?thesis using st StageNonce by (auto intro!: continues_quiet)
qed (use st after in \<open>auto intro!: continues_quiet elim!: session_after_same simp: settings_frame\<close>)

lemma consecutive_append:
  "consecutive lst (xs @ ys) \<longleftrightarrow> consecutive lst xs \<and> consecutive (if xs = [] then lst else Some (snd (List.last xs))) ys"
  by (induction lst xs rule: consecutive.induct) auto

lemma tagged_append: "tagged (xs @ ys) = tagged xs @ tagged ys"
  by (simp add: tagged_def)

lemma tagged_sends_length: "length (tagged (sends rc)) \<le> 1"
  by (auto simp: sends_def tagged_def split: sum.split option.split)

lemma run_continues:
  assumes cap: "cap \<ge> DH_SESSION_REPLY_MAX"
  shows "session_after lst s \<Longrightarrow> ops_ok ops \<Longrightarrow> session_run E cap ops s = (s', fs) \<Longrightarrow> consecutive lst (tagged fs)"
proof (induction ops arbitrary: s lst fs)
  case Nil
  then show ?case by (simp add: tagged_def)
next
  case (Cons op ops)
  obtain s1 rc where st: "session_step E cap op s = (s1, rc)" by (cases "session_step E cap op s")
  obtain fs' where run: "session_run E cap ops s1 = (s', fs')" and fs: "fs = sends rc @ fs'"
    using Cons.prems(3) st by (auto simp: sends_def split: prod.splits)
  have "ops_ok [op]" "ops_ok ops" using Cons.prems(2) by (simp_all add: ops_ok_def)
  have c: "step_continues lst s1 rc" by (rule step_continues [OF cap Cons.prems(1) \<open>ops_ok [op]\<close> st])
  define lst' where "lst' = (case tagged (sends rc) of [] \<Rightarrow> lst | x # _ \<Rightarrow> Some (snd x))"
  have "consecutive lst' (tagged fs')"
    using Cons.IH [OF _ \<open>ops_ok ops\<close> run] c by (simp add: step_continues_def lst'_def)
  moreover have "lst' = (if tagged (sends rc) = [] then lst else Some (snd (List.last (tagged (sends rc)))))"
    using tagged_sends_length [of rc] by (cases "tagged (sends rc)") (auto simp: lst'_def)
  ultimately show ?case
    using c by (simp add: fs tagged_append consecutive_append step_continues_def)
qed

section \<open>Properties\<close>

text \<open>C12. Counters on the wire are consecutive from zero in every session: over any interleaving of frames
  received, relays, ticks, evictions, drops and settings from boot, each authenticated frame the board
  sends either is a hello ack with counter zero, opening a session, or carries exactly the successor of
  the counter before it. So no counter is used twice under one session's key, and a receiver may read its
  losses off the counters.\<close>

theorem session_counters_consecutive:
  assumes "DH_SESSION_REPLY_MAX \<le> cap" and "ops_ok ops"
    and "session_run E cap ops (dh_session_init build_type) = (s', fs)"
  shows "consecutive None (tagged fs)"
  by (rule run_continues [OF assms(1) _ assms(2,3)]) (simp add: session_after_def dh_session_init_def)

definition dev_hello :: dh_frame_view where
  "dev_hello = frame_of DH_MSG_HELLO 0 (replicate 24 0 @
     hello_body \<lparr>he_proto_version = 7, he_os = 1, he_build_type = 0, he_channel_count = 2, he_max_chunk = 1024,
       he_correlation = 77, he_helper_key_id = replicate 8 3, he_helper_nonce = replicate 16 4\<rparr>)"

theorem session_counters_consecutive_witness:
  "consecutive None (tagged (snd (session_run toy_uecc 76
     [StageNonce (replicate 16 1), OnFrame dh_pair_init dev_hello 10, Tick 11, EndSession 2 0, Tick 12]
     (dh_session_init DH_BUILD_DEVELOPMENT))))"
  by (rule session_counters_consecutive [OF _ _ prod.collapse [symmetric]]) (simp_all add: ops_ok_def)

text \<open>The keys of a session and whether it stands.\<close>

definition session_keys :: "dh_session \<Rightarrow> bool \<times> byte list \<times> byte list" where
  "session_keys s = (se_present s, se_k_h2b s, se_k_b2h s)"

definition keys_wiped :: "bool \<times> byte list \<times> byte list" where
  "keys_wiped = (False, replicate 32 0, replicate 32 0)"

text \<open>What a hello has to be for keys to be installed from it.\<close>

definition hello_proves :: "dh_session \<Rightarrow> dh_pair \<Rightarrow> dh_frame_view \<Rightarrow> dh_hello \<Rightarrow> bool" where
  "hello_proves s pair f hello =
     (fh_type (fv_hdr f) = DH_MSG_HELLO \<and> hello_readable f = Some hello \<and> he_proto_version hello = 7 \<and> se_nonce_staged s \<and>
      (se_build_type s = DH_BUILD_DEVELOPMENT \<or>
       (case dh_pair_shared_secret pair of None \<Rightarrow> False
        | Some ss \<Rightarrow> dh_pair_is_registered_key pair (Some (he_helper_key_id hello)) \<and>
            tag_verifies (dh_auth_derive_hello_key ss (he_helper_nonce hello)) (fv_hdr f) (fv_payload f))))"

lemma keys_kept:
  "session_keys (close_listener_window s now) = session_keys s"
  "session_keys (fst (dh_session_authenticate s f now)) = session_keys s"
  "session_keys (dh_session_stage_nonce s n) = session_keys s" "session_keys (dh_session_set_clip_policy s a b) = session_keys s"
  "session_keys (dh_session_set_drops s d) = session_keys s" "session_keys (dh_session_note_sent s now) = session_keys s"
  "session_keys (dh_session_note_owed_sent s t) = session_keys s" "session_keys (note_refused s now named) = session_keys s"
  "session_keys (s\<lparr>se_drops_sent_ms := now, se_drops_ever_sent := True\<rparr>) = session_keys s"
  by (simp_all add: session_keys_def authenticate_frame close_listener_window_def dh_session_stage_nonce_def dh_session_set_clip_policy_def
      dh_session_set_drops_def dh_session_note_sent_def dh_session_note_owed_sent_def note_refused_def Let_def)

lemma drop_no_keys: "session_keys (dh_session_drop s) = keys_wiped"
  by (simp add: session_keys_def keys_wiped_def dh_session_drop_def)

lemma end_keys: "session_keys (fst (dh_session_end s reason silent cap)) \<in> {session_keys s, keys_wiped}"
  by (simp add: dh_session_end_def drop_no_keys)

lemma tick_emit_keys:
  assumes "\<And>s. session_keys (sent s) = session_keys s"
  shows "session_keys (fst (tick_emit s t body cap sent)) = session_keys s"
  by (auto simp: tick_emit_def assms split: sum.split) (simp add: session_keys_def)

lemma tick_keys: "session_keys (fst (dh_session_tick s now cap)) \<in> {session_keys s, keys_wiped}"
  using end_keys [of "close_listener_window s now"]
  by (auto simp: dh_session_tick_def Let_def keys_kept tick_emit_keys)

lemma emit_relayed_keys: "session_keys (fst (dh_session_emit_relayed s f cap)) = session_keys s"
  by (auto simp: dh_session_emit_relayed_def Let_def session_keys_def split: sum.split)

lemma on_frame_keys:
  assumes "dh_session_on_frame E s pair f now cap = (s', pair', rc)" and "view_ok f" and "session_keys s' \<noteq> session_keys s"
  shows "\<exists>hello. hello_proves s pair f hello \<and> se_rx s' = dh_auth_counter_init \<and>
    session_keys s' = (True, dh_auth_derive_session_keys (case dh_pair_shared_secret pair of Some x \<Rightarrow> x | None \<Rightarrow> no_secret)
      (he_helper_nonce hello) (se_staged_nonce s))"
proof -
  have hello: "fh_type (fv_hdr f) = DH_MSG_HELLO"
    using assms(1,3) keys_kept(2) [of s f now] by (auto simp: dh_session_on_frame_def Let_def split: if_splits prod.splits)
  then have "answer_hello s pair f now cap = (s', rc)"
    using assms(1) by (auto simp: dh_session_on_frame_def split: prod.splits)
  then show ?thesis
  proof (cases rule: answer_hello_cases)
    case (4 h)
    have "hello_proves s pair f h"
      using 4(1-4) hello auth_open_cases [OF assms(2) [unfolded view_ok_def]]
      by (auto simp: hello_proves_def skips_authentication_def split: if_splits option.splits)
    moreover have "se_rx s' = dh_auth_counter_init \<and> session_keys s' =
        (True, dh_auth_derive_session_keys (case dh_pair_shared_secret pair of Some x \<Rightarrow> x | None \<Rightarrow> no_secret) (he_helper_nonce h) (se_staged_nonce s))"
      using 4(5) by (auto simp: session_keys_def establish_def Let_def split: prod.splits sum.splits)
    ultimately show ?thesis by blast
  qed (use assms(3) in \<open>auto simp: keys_kept\<close>)
qed

text \<open>C18. Keys are installed only on proof. Whatever the board is asked to do (frames from the helper, frames authenticated or emitted
  for the relay, ticks, ends, drops, settings), its session keys and its notion of a helper being present change only in two ways. Either
  they are wiped and no helper is present. Or a hello of this protocol version arrived with a fresh board nonce staged, and on a
  release build it named the registered key id and carried the tag of the hello key of the registered secret (a development build,
  which compiles the check out, takes it without); the keys are then those derived from the registered secret (zeros
  when a development board has none) and the two nonces, and the counters start afresh.\<close>

theorem session_keys_need_proof:
  assumes "session_step E cap op s = (s', rc)" and "\<forall>pair f now. op = OnFrame pair f now \<longrightarrow> view_ok f"
    and "session_keys s' \<noteq> session_keys s"
  shows "session_keys s' = keys_wiped \<or>
    (\<exists>pair f now hello. op = OnFrame pair f now \<and> hello_proves s pair f hello \<and> se_rx s' = dh_auth_counter_init \<and>
      session_keys s' = (True, dh_auth_derive_session_keys (case dh_pair_shared_secret pair of Some x \<Rightarrow> x | None \<Rightarrow> no_secret)
        (he_helper_nonce hello) (se_staged_nonce s)))"
proof (cases op)
  case (OnFrame pair f now)
  then obtain pair' where "dh_session_on_frame E s pair f now cap = (s', pair', rc)" using assms(1) by (auto split: prod.splits)
  then show ?thesis using on_frame_keys [OF _ _ assms(3)] assms(2) OnFrame by blast
next
  case (EmitRelayed f)
  then show ?thesis using assms(1,3) emit_relayed_keys [of s f cap] by simp
next
  case (Tick now)
  then show ?thesis using assms(1,3) tick_keys [of s now cap] by simp
next
  case (EndSession reason silent)
  then show ?thesis using assms(1,3) end_keys [of s reason silent cap] by simp
qed (use assms in \<open>auto simp: keys_kept drop_no_keys\<close>)

text \<open>A registered helper's hello, tagged under its hello key.\<close>

definition reg_pair :: dh_pair where
  "reg_pair = dh_pair_set_registration dh_pair_init (replicate 8 3) (replicate 32 5)"

definition reg_hello :: dh_hello where
  "reg_hello = \<lparr>he_proto_version = 7, he_os = 1, he_build_type = 0, he_channel_count = 2, he_max_chunk = 1024,
     he_correlation = 77, he_helper_key_id = replicate 8 3, he_helper_nonce = replicate 16 4\<rparr>"

definition reg_key :: "byte list" where
  "reg_key = dh_auth_derive_hello_key (replicate 32 5) (replicate 16 4)"

definition reg_view :: dh_frame_view where
  "reg_view = frame_of DH_MSG_HELLO 0 (le_bytes 8 (0 :: u64) @ dh_auth_tag reg_key DH_MSG_HELLO 0 63 0 (hello_body reg_hello) @ hello_body reg_hello)"

lemma reg_view_facts:
  "view_ok reg_view" "hello_readable reg_view = Some reg_hello" "tag_verifies reg_key (fv_hdr reg_view) (fv_payload reg_view)"
  "fh_type (fv_hdr reg_view) = DH_MSG_HELLO"
proof -
  have l: "length (hello_body reg_hello) = 39" by (simp add: hello_body_def reg_hello_def)
  then have len: "fh_len (fv_hdr reg_view) = 63" by (simp add: reg_view_def frame_of_def)
  show "view_ok reg_view" using l len by (simp add: view_ok_def) (simp add: reg_view_def frame_of_def)
  have "dh_hello_decode (hello_body reg_hello) = Some reg_hello"
    by (simp add: dh_hello_decode_def hello_body_def reg_hello_def nth_append)
  then show "hello_readable reg_view = Some reg_hello"
    using l by (simp add: hello_readable_def len view_payload_def) (simp add: reg_view_def frame_of_def)
  show "tag_verifies reg_key (fv_hdr reg_view) (fv_payload reg_view)"
    using l by (simp add: tag_verifies_def len) (simp add: reg_view_def frame_of_def auth_tag_eq)
  show "fh_type (fv_hdr reg_view) = DH_MSG_HELLO" by (simp add: reg_view_def frame_of_def)
qed

definition reg_session :: dh_session where
  "reg_session = dh_session_stage_nonce (dh_session_init 0) (replicate 16 9)"

lemma reg_establishes:
  "dh_session_on_frame E reg_session reg_pair reg_view 10 76 =
     (let (s, rc) = establish reg_session (replicate 32 5) reg_hello 10 76 in (s, reg_pair, rc))"
proof -
  have "dh_pair_shared_secret reg_pair = Some (replicate 32 5)"
    "dh_pair_is_registered_key reg_pair (Some (he_helper_key_id reg_hello))"
    by (simp_all add: reg_pair_def dh_pair_set_registration_def dh_pair_shared_secret_def dh_pair_is_registered_key_def
        reg_hello_def bytes_equal_iff)
  moreover have "\<not> skips_authentication reg_session" "se_nonce_staged reg_session"
    by (simp_all add: skips_authentication_def reg_session_def dh_session_stage_nonce_def dh_session_init_def)
  moreover have "\<not> isl (snd (dh_auth_open reg_key (fv_hdr reg_view) (fv_payload reg_view) dh_auth_counter_init))"
    using auth_open_cases [of "fv_payload reg_view" "fv_hdr reg_view" reg_key dh_auth_counter_init] reg_view_facts
    by (simp add: view_ok_def tag_verifies_def dh_auth_counter_ok_def dh_auth_counter_init_def)
  moreover have "he_proto_version reg_hello = 7" "he_helper_nonce reg_hello = replicate 16 4"
    by (simp_all add: reg_hello_def)
  ultimately show ?thesis
    using reg_view_facts by (simp add: dh_session_on_frame_def answer_hello_def reg_key_def)
qed

theorem session_keys_need_proof_witness:
  "\<exists>s' rc hello. session_step toy_uecc 76 (OnFrame reg_pair reg_view 10) reg_session = (s', rc) \<and> se_present s' \<and>
     se_build_type reg_session = 0 \<and> hello_proves reg_session reg_pair reg_view hello"
proof -
  obtain s' rc where e: "establish reg_session (replicate 32 5) reg_hello 10 76 = (s', rc)"
    by (cases "establish reg_session (replicate 32 5) reg_hello 10 76")
  then have on: "session_step toy_uecc 76 (OnFrame reg_pair reg_view 10) reg_session = (s', rc)"
    by (simp add: reg_establishes)
  have p: "se_present s'" using e by (auto simp: establish_def Let_def split: prod.splits sum.splits)
  have n: "se_build_type reg_session = 0" "\<not> se_present reg_session"
    by (simp_all add: reg_session_def dh_session_stage_nonce_def dh_session_init_def)
  have "session_keys s' \<noteq> session_keys reg_session" "session_keys s' \<noteq> keys_wiped" using p n by (auto simp: session_keys_def keys_wiped_def)
  with session_keys_need_proof [OF on] p n on reg_view_facts(1) show ?thesis by auto
qed

text \<open>Authorisation is per frame: on a release build a frame is let through exactly when a session exists,
  the frame is long enough, its tag verifies under the session's inbound key and its counter is admissible;
  only then is the liveness deadline refreshed and the counter recorded. A frame refused for tag or
  counter is counted and otherwise changes neither session, keys, counters nor deadline.\<close>

theorem session_authorises_per_frame:
  assumes "view_ok f" and "se_build_type s = 0" and "dh_session_authenticate s f now = (s', rc)"
  defines "n \<equiv> of_le_bytes (take 8 (fv_payload f))"
  shows "((\<exists>body. rc = Inr body) \<longleftrightarrow>
      se_present s \<and> tag_verifies (se_k_h2b s) (fv_hdr f) (fv_payload f) \<and> dh_auth_counter_ok (se_rx s) n) \<and>
    (if isl rc
     then se_present s' = se_present s \<and> se_k_h2b s' = se_k_h2b s \<and> se_k_b2h s' = se_k_b2h s \<and> se_rx s' = se_rx s \<and>
       se_last_seen_ms s' = se_last_seen_ms s \<and>
       se_frames_refused s' = (if rc = Inl DH_AUTH_ERR_TAG \<or> rc = Inl DH_AUTH_ERR_COUNTER
         then sat_inc (se_frames_refused s) else se_frames_refused s)
     else rc = Inr (drop 24 (fv_payload f)) \<and> se_last_seen_ms s' = now \<and> se_rx s' = dh_auth_counter_accept (se_rx s) n \<and>
       se_k_h2b s' = se_k_h2b s)"
proof -
  have ns: "\<not> skips_authentication s" using assms(2) by (simp add: skips_authentication_def)
  have fr: "se_frames_refused (note_refused u now False) = sat_inc (se_frames_refused u)" for u
    by (simp add: note_refused_def Let_def)
  show ?thesis
    using assms(3) ns auth_open_cases [OF assms(1) [unfolded view_ok_def], of "se_k_h2b s" "se_rx s"]
    unfolding n_def
    by (auto simp: dh_session_authenticate_def session_frames fr note_received_def tag_verifies_def split: if_splits)
qed

theorem session_authorises_per_frame_witness:
  "dh_session_authenticate reg_session reg_view 5 = (reg_session, Inl DH_AUTH_ERR_NO_KEY) \<and>
   se_last_seen_ms (fst (dh_session_authenticate reg_session reg_view 5)) = se_last_seen_ms reg_session"
proof -
  have s: "se_build_type reg_session = 0" "\<not> se_present reg_session"
    by (simp_all add: reg_session_def dh_session_stage_nonce_def dh_session_init_def)
  have a: "dh_session_authenticate reg_session reg_view 5 = (reg_session, Inl DH_AUTH_ERR_NO_KEY)"
    using s by (simp add: dh_session_authenticate_def)
  from session_authorises_per_frame [OF reg_view_facts(1) s(1) a] a show ?thesis by simp
qed


text \<open>Liveness: a tick evicts the helper exactly when nothing authenticated has been heard for three
  seconds, measured wrap-safe and with a stamp ahead of the clock read as no time at all; the eviction
  clears the keys and sends one \<open>SESSION_END\<close>. Otherwise the session and its keys stand, and a tick that
  sends nothing means the direction has carried something within the last heartbeat interval.\<close>

theorem session_tick_liveness:
  assumes "se_present s" and "DH_SESSION_REPLY_MAX \<le> cap" and "dh_session_tick s now cap = (s', rc)"
  defines "age \<equiv> unat (now - se_last_seen_ms s)"
  shows "if 3000 \<le> age \<and> age < 2 ^ 31
    then \<not> se_present s' \<and> se_k_h2b s' = replicate 32 0 \<and> se_k_b2h s' = replicate 32 0 \<and>
      (\<exists>f. rc = Inr (Some f) \<and> frame_type f = DH_MSG_SESSION_END \<and> frame_counter f = se_tx_counter s)
    else se_present s' \<and> se_k_h2b s' = se_k_h2b s \<and> se_k_b2h s' = se_k_b2h s \<and>
      (rc = Inr None \<and> unat (now - se_last_sent_ms s) < 1000 \<or> (\<exists>f. rc = Inr (Some f) \<and> frame_counter f = se_tx_counter s))"
proof -
  define u where "u = close_listener_window s now"
  have u: "se_present u" "se_k_h2b u = se_k_h2b s" "se_k_b2h u = se_k_b2h s" "se_tx_counter u = se_tx_counter s"
    "se_last_seen_ms u = se_last_seen_ms s" "se_last_sent_ms u = se_last_sent_ms s"
    using assms(1) by (simp_all add: u_def session_frames)
  have age: "age < 4294967296" using unsigned_less [where 'a = nat, of "now - se_last_seen_ms s"] by (simp add: age_def)
  have evict: "sint (now - se_last_seen_ms u) \<ge> 3000 \<longleftrightarrow> 3000 \<le> age \<and> age < 2 ^ 31"
    using age unfolding sint_u32 u age_def [symmetric] by auto
  have ok: "\<exists>fr. encode_tagged t 0 k c body cap = Inr fr" if "length body \<le> 48" for t k c body
    using that assms(2) by (intro encode_tagged_ok) simp_all
  have body: "length (drops_write d) \<le> 48" for d by (simp add: drops_write_def)
  have emit: "\<exists>f v. tick_emit u t body cap sent = (sent v, Inr (Some f)) \<and> frame_type f = t \<and> frame_counter f = se_tx_counter s \<and>
      se_present v \<and> se_k_h2b v = se_k_h2b s \<and> se_k_b2h v = se_k_b2h s" if "length body \<le> 48" for t body sent
  proof -
    from ok [OF that] obtain fr where fr: "encode_tagged t 0 (se_k_b2h u) (se_tx_counter u) body cap = Inr fr" by blast
    then show ?thesis
      using encode_tagged_frame [OF fr] u
      by (intro exI [of _ fr] exI [of _ "u\<lparr>se_tx_counter := se_tx_counter u + 1\<rparr>"]) (simp add: tick_emit_def)
  qed
  show ?thesis
  proof (cases "3000 \<le> age \<and> age < 2 ^ 31")
    case True
    then have "dh_session_end u 1 (now - se_last_seen_ms u) cap = (s', rc)"
      using assms(3) evict u(1) by (simp add: dh_session_tick_def Let_def u_def [symmetric])
    moreover obtain fr where fr: "encode_tagged DH_MSG_SESSION_END 0 (se_k_b2h u) (se_tx_counter u) (1 # wr_u32 (now - se_last_seen_ms u)) cap = Inr fr"
      using ok [of "1 # wr_u32 (now - se_last_seen_ms u)" DH_MSG_SESSION_END "se_k_b2h u" "se_tx_counter u"] by auto
    ultimately show ?thesis
      using True u encode_tagged_frame [OF fr] by (auto simp: dh_session_end_def to_reply_def dh_session_drop_def)
  next
    case False
    have quiet: "unat (now - se_last_sent_ms s) < 1000" if "now - se_last_sent_ms s < 1000"
      using that by (simp add: word_less_nat_alt)
    let ?clip = "tick_emit u 4 [se_clip_flags u, se_clip_cap_mb u] cap (\<lambda>s. dh_session_note_sent s now)"
    let ?alert = "tick_emit u 3 (wr_u32 (la_window_ms (se_alert u)) @ wr_u32 (la_refused (se_alert u))) cap (\<lambda>s. dh_session_note_sent s now)"
    let ?drops = "tick_emit u 0x10 (drops_write (se_drops u)) cap (\<lambda>s. s\<lparr>se_drops_sent_ms := now, se_drops_ever_sent := True\<rparr>)"
    let ?beat = "tick_emit u 6 [] cap (\<lambda>s. dh_session_note_sent s now)"
    have "(s', rc) \<in> {?clip, ?alert, ?drops, ?beat} \<or> (s', rc) = (u, Inr None) \<and> now - se_last_sent_ms s < 1000"
      using assms(3) False evict u by (auto simp: dh_session_tick_def Let_def u_def [symmetric] split: if_splits)
    then show ?thesis
      using False u quiet body emit [where body = "[se_clip_flags u, se_clip_cap_mb u]" and t = 4 and sent = "\<lambda>s. dh_session_note_sent s now"]
        emit [where body = "wr_u32 (la_window_ms (se_alert u)) @ wr_u32 (la_refused (se_alert u))" and t = 3 and sent = "\<lambda>s. dh_session_note_sent s now"]
        emit [where body = "drops_write (se_drops u)" and t = "0x10" and sent = "\<lambda>s. s\<lparr>se_drops_sent_ms := now, se_drops_ever_sent := True\<rparr>"]
        emit [where body = "[]" and t = 6 and sent = "\<lambda>s. dh_session_note_sent s now"]
      by (auto simp: dh_session_note_sent_def)
  qed
qed


theorem session_tick_liveness_witness:
  "\<exists>s rc. dh_session_tick (reg_session\<lparr>se_present := True, se_last_seen_ms := 4294966296\<rparr>) 2000 76 = (s, rc) \<and>
     \<not> se_present s \<and> (\<exists>f. rc = Inr (Some f) \<and> frame_type f = DH_MSG_SESSION_END)"
proof -
  define u where "u = reg_session\<lparr>se_present := True, se_last_seen_ms := 4294966296\<rparr>"
  obtain s rc where t: "dh_session_tick u 2000 76 = (s, rc)" by (cases "dh_session_tick u 2000 76")
  have "se_present u" "unat (2000 - se_last_seen_ms u) = 3000" by (simp_all add: u_def)
  with session_tick_liveness [OF _ _ t] have "\<not> se_present s \<and> (\<exists>f. rc = Inr (Some f) \<and> frame_type f = DH_MSG_SESSION_END)"
    by auto
  with t show ?thesis by (auto simp: u_def)
qed

text \<open>Silence: a hello that names the registered key and fails its tag, and any other authenticated frame
  that fails, is answered with nothing at all; the only frames a board ever sends to an unauthenticated
  caller are the hello refusal and the answers to a pairing request.\<close>

theorem session_silent_on_forgery:
  assumes "dh_session_on_frame E s pair f now cap = (s', pair', rc)" and "view_ok f" and "se_build_type s = 0"
    and "fh_type (fv_hdr f) \<noteq> DH_MSG_PAIR_REQUEST"
    and "\<And>hello ss. hello_readable f = Some hello \<Longrightarrow> dh_pair_shared_secret pair = Some ss \<Longrightarrow>
      \<not> tag_verifies (dh_auth_derive_hello_key ss (he_helper_nonce hello)) (fv_hdr f) (fv_payload f)"
  shows "pair' = pair \<and> se_k_h2b s' = se_k_h2b s \<and> se_k_b2h s' = se_k_b2h s \<and> se_present s' = se_present s \<and>
    se_tx_counter s' = se_tx_counter s \<and>
    (rc = Inr None \<or> (\<exists>c st. fh_type (fv_hdr f) = DH_MSG_HELLO \<and> rc = refuse_hello c st cap))"
proof (cases "fh_type (fv_hdr f) = DH_MSG_HELLO")
  case True
  then have a: "answer_hello s pair f now cap = (s', rc)" and p: "pair' = pair"
    using assms(1) by (auto simp: dh_session_on_frame_def split: prod.splits)
  from a show ?thesis
  proof (cases rule: answer_hello_cases)
    case (4 h)
    then have False
      using assms(3,5) auth_open_cases [OF assms(2) [unfolded view_ok_def]]
      by (auto simp: skips_authentication_def split: if_splits)
    then show ?thesis ..
  qed (use p True in \<open>auto simp: session_frames\<close>)
next
  case False
  then have "pair' = pair" "rc = Inr None" "s' = fst (dh_session_authenticate s f now) \<or> s' = s"
    using assms(1,4) by (auto simp: dh_session_on_frame_def Let_def split: if_splits)
  then show ?thesis using authenticate_frame [of s f now] by auto
qed

theorem session_silent_on_forgery_witness:
  "\<exists>s' rc. dh_session_on_frame toy_uecc reg_session dh_pair_init reg_view 10 76 = (s', dh_pair_init, rc) \<and>
     se_present s' = se_present reg_session \<and> (rc = Inr None \<or> (\<exists>c st. rc = refuse_hello c st 76))"
proof -
  obtain s' pair' rc where on: "dh_session_on_frame toy_uecc reg_session dh_pair_init reg_view 10 76 = (s', pair', rc)"
    by (cases "dh_session_on_frame toy_uecc reg_session dh_pair_init reg_view 10 76") auto
  have "se_build_type reg_session = 0" "dh_pair_shared_secret dh_pair_init = None"
    by (simp_all add: reg_session_def dh_session_stage_nonce_def dh_session_init_def dh_pair_shared_secret_def dh_pair_init_def)
  with session_silent_on_forgery [OF on reg_view_facts(1)] reg_view_facts(4) on show ?thesis by auto
qed

end
