(* ===== verification/DH_Pointer.thy ===== *)
theory DH_Pointer
  imports DH_Session_Msg "HOL-Library.Signed_Division"
begin

text \<open>
  The pointer arithmetic both boards and both helpers share: where a movement leads
  (\<open>src/src/core/dh_mouse_layout.c\<close>), the seam between two computers (\<open>dh_seam_map.c\<close>), Windows' own pointer
  maths (\<open>dh_windows_pointer.c\<close>) and the placement messages with the display walk behind them
  (\<open>dh_place.c\<close>). Coordinates are integers. C's division truncates toward zero and is written \<open>sdiv\<close>;
  the intermediate values of the sources are \<open>int64_t\<close> and do not overflow for \<open>int32_t\<close> arguments, and the
  conversions back to \<open>int32_t\<close> are written out as \<open>to_i32\<close>.
\<close>

section \<open>Model: layout\<close>

datatype dh_direction_t =
  DH_DIRECTION_NONE | DH_DIRECTION_LEFT | DH_DIRECTION_RIGHT | DH_DIRECTION_TOP | DH_DIRECTION_BOTTOM

text \<open>The wire and configuration values of the enumeration; a byte outside it takes no branch of any
  switch, as \<open>DH_DIRECTION_NONE\<close> does.\<close>

definition direction_of :: "byte \<Rightarrow> dh_direction_t" where
  "direction_of b =
     (if b = 1 then DH_DIRECTION_LEFT else if b = 2 then DH_DIRECTION_RIGHT else if b = 4 then DH_DIRECTION_TOP
      else if b = 5 then DH_DIRECTION_BOTTOM else DH_DIRECTION_NONE)"

record dh_mouse_layout_t =
  ml_chain_direction :: dh_direction_t
  ml_border_direction :: dh_direction_t

record dh_mouse_coordinates_t =
  mc_x :: int
  mc_y :: int

datatype dh_mouse_transition_t =
  DH_MOUSE_TRANSITION_NONE | DH_MOUSE_TRANSITION_OUTPUT | DH_MOUSE_TRANSITION_CHAIN_BACK
| DH_MOUSE_TRANSITION_CHAIN_FORWARD

definition dh_mouse_reports_are_relative :: "bool \<Rightarrow> bool \<Rightarrow> bool" where
  "dh_mouse_reports_are_relative relative_mouse gaming_mode = (relative_mouse \<or> gaming_mode)"

definition directions_are_perpendicular :: "dh_direction_t \<Rightarrow> dh_direction_t \<Rightarrow> bool" where
  "directions_are_perpendicular first second =
     (let first_is_horizontal = (first = DH_DIRECTION_LEFT \<or> first = DH_DIRECTION_RIGHT);
          second_is_horizontal = (second = DH_DIRECTION_LEFT \<or> second = DH_DIRECTION_RIGHT) in
      first_is_horizontal \<noteq> second_is_horizontal)"

definition dh_direction_is_vertical :: "dh_direction_t \<Rightarrow> bool" where
  "dh_direction_is_vertical d = (d = DH_DIRECTION_TOP \<or> d = DH_DIRECTION_BOTTOM)"

definition dh_mouse_along_seam :: "dh_direction_t \<Rightarrow> dh_mouse_coordinates_t \<Rightarrow> int" where
  "dh_mouse_along_seam border pointer = (if dh_direction_is_vertical border then mc_x pointer else mc_y pointer)"

fun dh_opposite_direction :: "dh_direction_t \<Rightarrow> dh_direction_t" where
  "dh_opposite_direction DH_DIRECTION_LEFT = DH_DIRECTION_RIGHT"
| "dh_opposite_direction DH_DIRECTION_RIGHT = DH_DIRECTION_LEFT"
| "dh_opposite_direction DH_DIRECTION_TOP = DH_DIRECTION_BOTTOM"
| "dh_opposite_direction DH_DIRECTION_BOTTOM = DH_DIRECTION_TOP"
| "dh_opposite_direction DH_DIRECTION_NONE = DH_DIRECTION_NONE"

definition dh_mouse_transition_for ::
  "dh_mouse_layout_t \<Rightarrow> u32 \<Rightarrow> u32 \<Rightarrow> dh_direction_t \<Rightarrow> dh_mouse_transition_t" where
  "dh_mouse_transition_for layout screen_index screen_count movement =
     (if movement = ml_border_direction layout \<and>
         (screen_index = 1 \<or> directions_are_perpendicular (ml_chain_direction layout) (ml_border_direction layout))
      then DH_MOUSE_TRANSITION_OUTPUT
      else if movement = ml_chain_direction layout \<and> screen_index < screen_count
      then DH_MOUSE_TRANSITION_CHAIN_FORWARD
      else if movement = dh_opposite_direction (ml_chain_direction layout) \<and> screen_index > 1
      then DH_MOUSE_TRANSITION_CHAIN_BACK
      else DH_MOUSE_TRANSITION_NONE)"

definition dh_mouse_jump_threshold_for ::
  "dh_mouse_layout_t \<Rightarrow> u32 \<Rightarrow> u32 \<Rightarrow> dh_direction_t \<Rightarrow> u16 \<Rightarrow> u16" where
  "dh_mouse_jump_threshold_for layout screen_index screen_count movement configured =
     (if dh_mouse_transition_for layout screen_index screen_count movement = DH_MOUSE_TRANSITION_OUTPUT
      then configured else 0)"

definition dh_mouse_next_screen_index :: "dh_mouse_transition_t \<Rightarrow> u32 \<Rightarrow> u32" where
  "dh_mouse_next_screen_index transition screen_index =
     (if transition = DH_MOUSE_TRANSITION_CHAIN_FORWARD then screen_index + 1
      else if transition = DH_MOUSE_TRANSITION_CHAIN_BACK then screen_index - 1 else screen_index)"

definition dh_mouse_park_coordinate :: "byte \<Rightarrow> int \<Rightarrow> int \<Rightarrow> int \<Rightarrow> int" where
  "dh_mouse_park_coordinate park_position previous minimum maximum =
     (if park_position = 0 then minimum else if park_position = 1 then maximum else previous)"

definition dh_mouse_hidden_coordinates ::
  "dh_direction_t \<Rightarrow> byte \<Rightarrow> dh_mouse_coordinates_t \<Rightarrow> int \<Rightarrow> int \<Rightarrow> dh_mouse_coordinates_t" where
  "dh_mouse_hidden_coordinates direction park_position pointer minimum maximum =
     (if dh_direction_is_vertical direction
      then \<lparr>mc_x = dh_mouse_park_coordinate park_position (mc_x pointer) minimum maximum, mc_y = maximum\<rparr>
      else \<lparr>mc_x = maximum, mc_y = dh_mouse_park_coordinate park_position (mc_y pointer) minimum maximum\<rparr>)"

fun dh_mouse_entry_coordinates ::
  "dh_direction_t \<Rightarrow> dh_mouse_coordinates_t \<Rightarrow> int \<Rightarrow> int \<Rightarrow> dh_mouse_coordinates_t" where
  "dh_mouse_entry_coordinates DH_DIRECTION_LEFT pointer minimum maximum = pointer\<lparr>mc_x := maximum\<rparr>"
| "dh_mouse_entry_coordinates DH_DIRECTION_RIGHT pointer minimum maximum = pointer\<lparr>mc_x := minimum\<rparr>"
| "dh_mouse_entry_coordinates DH_DIRECTION_TOP pointer minimum maximum = pointer\<lparr>mc_y := maximum\<rparr>"
| "dh_mouse_entry_coordinates DH_DIRECTION_BOTTOM pointer minimum maximum = pointer\<lparr>mc_y := minimum\<rparr>"
| "dh_mouse_entry_coordinates DH_DIRECTION_NONE pointer minimum maximum = pointer"

definition dh_mouse_edge_coordinates ::
  "dh_direction_t \<Rightarrow> dh_mouse_coordinates_t \<Rightarrow> int \<Rightarrow> int \<Rightarrow> dh_mouse_coordinates_t" where
  "dh_mouse_edge_coordinates direction pointer minimum maximum =
     dh_mouse_entry_coordinates (dh_opposite_direction direction) pointer minimum maximum"

definition dh_mouse_nudge :: "dh_direction_t \<Rightarrow> int \<Rightarrow> dh_mouse_coordinates_t" where
  "dh_mouse_nudge direction distance =
     (let signed_distance = (if direction = DH_DIRECTION_LEFT \<or> direction = DH_DIRECTION_TOP then - distance else distance) in
      if dh_direction_is_vertical direction then \<lparr>mc_x = 0, mc_y = signed_distance\<rparr>
      else \<lparr>mc_x = signed_distance, mc_y = 0\<rparr>)"

section \<open>Model: the seam between two computers\<close>

abbreviation (input) DH_SEAM_RANGE_CAPACITY :: nat where "DH_SEAM_RANGE_CAPACITY \<equiv> 4"
abbreviation (input) DH_SEAM_POSITION_MAX :: int where "DH_SEAM_POSITION_MAX \<equiv> 65535"

definition to_i32 :: "int \<Rightarrow> int" where
  "to_i32 x = (x + 2147483648) mod 4294967296 - 2147483648"

record dh_seam_range_t =
  sr_screen_index :: byte
  sr_start :: u16
  sr_end :: u16

record dh_seam_hit_t =
  sh_segment :: byte
  sh_position :: u16

datatype dh_seam_crossing_kind_t =
  DH_SEAM_CROSSING_LEGACY | DH_SEAM_CROSSING_MAPPED | DH_SEAM_CROSSING_BLOCKED

record dh_seam_entry_t =
  sn_screen_index :: byte
  sn_position :: u16

definition dh_seam_map_coordinate :: "int \<Rightarrow> int \<Rightarrow> int \<Rightarrow> int \<Rightarrow> int \<Rightarrow> int" where
  "dh_seam_map_coordinate position source_start source_end target_start target_end =
     (let source_size = to_i32 (source_end - source_start); target_size = to_i32 (target_end - target_start) in
      if source_size \<le> 0 then position
      else if target_size \<le> 0 then target_start
      else if position \<le> source_start then target_start
      else if position \<ge> source_end then target_end
      else to_i32 (target_start +
        to_i32 (((position - source_start) * target_size + source_size sdiv 2) sdiv source_size)))"

definition range_is_configured :: "dh_seam_range_t \<Rightarrow> bool" where
  "range_is_configured r = (sr_screen_index r \<noteq> 0 \<and> sr_start r < sr_end r)"

definition range_is_available :: "dh_seam_range_t \<Rightarrow> u32 \<Rightarrow> bool" where
  "range_is_available r screen_count = (range_is_configured r \<and> ucast (sr_screen_index r) \<le> screen_count)"

definition dh_seam_map_is_configured :: "dh_seam_range_t list \<Rightarrow> bool" where
  "dh_seam_map_is_configured ranges = list_ex (\<lambda>i. range_is_configured (ranges ! i)) [0..<DH_SEAM_RANGE_CAPACITY]"

text \<open>The range a position of a screen falls in: the last one that matches, as the loop keeps overwriting
  \<open>match\<close>.\<close>

definition seam_match :: "dh_seam_range_t list \<Rightarrow> u32 \<Rightarrow> u16 \<Rightarrow> nat option" where
  "seam_match ranges screen_index position =
     fold (\<lambda>i m. if range_is_configured (ranges ! i) \<and> ucast (sr_screen_index (ranges ! i)) = screen_index \<and>
                    sr_start (ranges ! i) \<le> position \<and> position \<le> sr_end (ranges ! i) then Some i else m)
       [0..<DH_SEAM_RANGE_CAPACITY] None"

definition dh_seam_cross :: "dh_seam_range_t list \<Rightarrow> u32 \<Rightarrow> u16 \<Rightarrow> dh_seam_hit_t option" where
  "dh_seam_cross ranges screen_index position =
     (case seam_match ranges screen_index position of
        None \<Rightarrow> None
      | Some i \<Rightarrow>
          Some \<lparr>sh_segment = of_nat i,
                sh_position = of_int (dh_seam_map_coordinate (uint position) (uint (sr_start (ranges ! i)))
                  (uint (sr_end (ranges ! i))) 0 DH_SEAM_POSITION_MAX)\<rparr>)"

definition dh_seam_entry :: "dh_seam_range_t list \<Rightarrow> byte \<Rightarrow> u16 \<Rightarrow> u16 option" where
  "dh_seam_entry ranges segment position =
     (if unat segment \<ge> DH_SEAM_RANGE_CAPACITY \<or> \<not> range_is_configured (ranges ! unat segment) then None
      else Some (of_int (dh_seam_map_coordinate (uint position) 0 DH_SEAM_POSITION_MAX
        (uint (sr_start (ranges ! unat segment))) (uint (sr_end (ranges ! unat segment))))))"

definition dh_seam_resolve_crossing ::
  "dh_seam_range_t list \<Rightarrow> dh_seam_range_t list \<Rightarrow> u32 \<Rightarrow> u32 \<Rightarrow> u32 \<Rightarrow> u16 \<Rightarrow>
   dh_seam_crossing_kind_t \<times> dh_seam_entry_t option" where
  "dh_seam_resolve_crossing source target source_screen_index source_screen_count target_screen_count source_position =
     (case dh_seam_cross source source_screen_index source_position of
        Some hit \<Rightarrow>
          let i = unat (sh_segment hit) in
          if \<not> range_is_available (source ! i) source_screen_count \<or> \<not> range_is_available (target ! i) target_screen_count
          then (DH_SEAM_CROSSING_LEGACY, None)
          else
            (case dh_seam_entry target (sh_segment hit) (sh_position hit) of
               None \<Rightarrow> (DH_SEAM_CROSSING_LEGACY, None)
             | Some p \<Rightarrow>
                 (DH_SEAM_CROSSING_MAPPED, Some \<lparr>sn_screen_index = sr_screen_index (target ! i), sn_position = p\<rparr>))
      | None \<Rightarrow>
          if list_ex (\<lambda>i. range_is_available (source ! i) source_screen_count \<and>
                          range_is_available (target ! i) target_screen_count) [0..<DH_SEAM_RANGE_CAPACITY]
          then (DH_SEAM_CROSSING_BLOCKED, None) else (DH_SEAM_CROSSING_LEGACY, None))"

section \<open>Model: Windows' pointer maths\<close>

abbreviation (input) UNITS :: int where "UNITS \<equiv> 32768"

definition DH_WINDOWS_POINTER_MULT32 :: "int list" where
  "DH_WINDOWS_POINTER_MULT32 = [1, 2, 4, 8, 12, 16, 20, 24, 28, 32, 40, 48, 56, 64, 72, 80, 88, 96, 104, 112]"

definition mult32 :: "byte \<Rightarrow> int" where
  "mult32 step = DH_WINDOWS_POINTER_MULT32 ! (unat step - 1)"

definition dh_windows_pointer_speed_is_set :: "byte \<Rightarrow> bool" where
  "dh_windows_pointer_speed_is_set step = (step \<ge> 1 \<and> step \<le> 20)"

definition unit_of :: "int \<Rightarrow> u16 \<Rightarrow> int" where
  "unit_of p pixels =
     (let n = p * UNITS in
      if n \<ge> 0 then (n + uint pixels - 1) sdiv uint pixels else - ((- n) sdiv uint pixels))"

text \<open>The pixel a board unit is in: floor, also past the near edge.\<close>

definition pixel_of :: "int \<Rightarrow> u16 \<Rightarrow> int" where
  "pixel_of position pixels =
     (let n = position * uint pixels in if n \<ge> 0 then n sdiv UNITS else - ((- n + UNITS - 1) sdiv UNITS))"

text \<open>Returns the offset and the part-pixel kept for the axis.\<close>

definition dh_windows_estimate_offset :: "int \<Rightarrow> int \<Rightarrow> byte \<Rightarrow> u16 \<Rightarrow> int \<Rightarrow> int \<Rightarrow> int \<times> int" where
  "dh_windows_estimate_offset position counts step pixels speed part_pixel =
     (if \<not> dh_windows_pointer_speed_is_set step \<or> pixels = 0 then (to_i32 (counts * speed), part_pixel)
      else
        let pixel = pixel_of position pixels;
            moved32 = counts * mult32 step + part_pixel;
            moved = moved32 sdiv 32;
            part = moved32 - moved * 32 in
        if moved = 0 then (0, part) else (to_i32 (unit_of (pixel + moved) pixels - position), part))"

definition pixels_moved :: "int \<Rightarrow> int \<Rightarrow> int \<Rightarrow> int" where
  "pixels_moved counts m part_pixel = (counts * m + part_pixel) sdiv 32"

definition dh_windows_counts_nearest :: "int \<Rightarrow> byte \<Rightarrow> int \<Rightarrow> int" where
  "dh_windows_counts_nearest pixels step part_pixel =
     (if \<not> dh_windows_pointer_speed_is_set step then 0
      else
        let m = mult32 step; n = pixels * 32 - part_pixel;
            c = (if n \<ge> 0 then n sdiv m else - ((- n + m - 1) sdiv m));
            miss = pixels_moved c m part_pixel - pixels;
            miss_next = pixels_moved (c + 1) m part_pixel - pixels in
        to_i32 (if \<bar>miss_next\<bar> < \<bar>miss\<bar> then c + 1 else c))"

definition dh_windows_pixels_per_count :: "byte \<Rightarrow> int" where
  "dh_windows_pixels_per_count step =
     (if \<not> dh_windows_pointer_speed_is_set step then 0 else (mult32 step + 31) sdiv 32)"

definition dh_windows_counts_for_pixels :: "int \<Rightarrow> byte \<Rightarrow> int" where
  "dh_windows_counts_for_pixels pixels step =
     (if \<not> dh_windows_pointer_speed_is_set step then 0
      else let m = mult32 step in to_i32 (to_i32 (pixels * 32) + m - 1) sdiv m)"

section \<open>Model: placement\<close>

abbreviation (input) DH_PLACE_BODY_SIZE :: nat where "DH_PLACE_BODY_SIZE \<equiv> 5"
abbreviation (input) DH_POS_QUERY_BODY_SIZE :: nat where "DH_POS_QUERY_BODY_SIZE \<equiv> 1"
abbreviation (input) DH_POSITION_BODY_SIZE :: nat where "DH_POSITION_BODY_SIZE \<equiv> 6"

record dh_place =
  pl_chain_index :: byte
  pl_chain_direction :: byte
  pl_border_direction :: byte
  pl_entry_position :: u16

record dh_position =
  po_query_id :: byte
  po_chain_index :: byte
  po_x :: u16
  po_y :: u16

record dh_display_rect =
  dr_x :: int
  dr_y :: int
  dr_width :: int
  dr_height :: int

record dh_place_point =
  pp_x :: int
  pp_y :: int
  pp_display_index :: nat

definition dh_place_encode :: "dh_place \<Rightarrow> nat \<Rightarrow> byte list option" where
  "dh_place_encode place cap =
     (if cap < DH_PLACE_BODY_SIZE then None
      else Some ([pl_chain_index place, pl_chain_direction place, pl_border_direction place] @
        wr_u16 (pl_entry_position place)))"

definition dh_place_decode :: "byte list \<Rightarrow> dh_place option" where
  "dh_place_decode body =
     (if length body \<noteq> DH_PLACE_BODY_SIZE then None
      else Some \<lparr>pl_chain_index = body ! 0, pl_chain_direction = body ! 1, pl_border_direction = body ! 2,
                 pl_entry_position = rd_u16 (drop 3 body)\<rparr>)"

definition dh_position_encode :: "dh_position \<Rightarrow> nat \<Rightarrow> byte list option" where
  "dh_position_encode position cap =
     (if cap < DH_POSITION_BODY_SIZE then None
      else Some ([po_query_id position, po_chain_index position] @ wr_u16 (po_x position) @ wr_u16 (po_y position)))"

definition dh_position_decode :: "byte list \<Rightarrow> dh_position option" where
  "dh_position_decode body =
     (if length body \<noteq> DH_POSITION_BODY_SIZE then None
      else Some \<lparr>po_query_id = body ! 0, po_chain_index = body ! 1, po_x = rd_u16 (drop 2 body),
                 po_y = rd_u16 (drop 4 body)\<rparr>)"

definition center_x :: "dh_display_rect \<Rightarrow> int" where
  "center_x r = dr_x r * 2 + dr_width r"

definition center_y :: "dh_display_rect \<Rightarrow> int" where
  "center_y r = dr_y r * 2 + dr_height r"

definition lies_in_direction :: "dh_display_rect \<Rightarrow> dh_display_rect \<Rightarrow> dh_direction_t \<Rightarrow> bool" where
  "lies_in_direction from candidate direction =
     (case direction of
        DH_DIRECTION_LEFT \<Rightarrow> center_x candidate < center_x from
      | DH_DIRECTION_RIGHT \<Rightarrow> center_x candidate > center_x from
      | DH_DIRECTION_TOP \<Rightarrow> center_y candidate < center_y from
      | DH_DIRECTION_BOTTOM \<Rightarrow> center_y candidate > center_y from
      | DH_DIRECTION_NONE \<Rightarrow> False)"

definition directional_distance :: "dh_display_rect \<Rightarrow> dh_display_rect \<Rightarrow> dh_direction_t \<Rightarrow> int" where
  "directional_distance from candidate direction =
     (let delta = (if direction = DH_DIRECTION_LEFT \<or> direction = DH_DIRECTION_RIGHT
                   then center_x candidate - center_x from else center_y candidate - center_y from) in
      if delta < 0 then - delta else delta)"

definition dh_place_along :: "u16 \<Rightarrow> int \<Rightarrow> int" where
  "dh_place_along position span =
     to_i32 ((uint position * (to_i32 (span - 1) mod 4294967296) + 32767) div 65535)"

text \<open>The inner loop: the nearest other display in the direction, the first of those equally near;
  \<open>next == count\<close> is \<open>None\<close>. The initial best is \<open>UINT64_MAX\<close>.\<close>

definition nearest_display :: "dh_display_rect list \<Rightarrow> nat \<Rightarrow> dh_direction_t \<Rightarrow> nat option" where
  "nearest_display displays cur direction =
     snd (fold (\<lambda>i (best, nxt).
            if i = cur \<or> \<not> lies_in_direction (displays ! cur) (displays ! i) direction then (best, nxt)
            else
              let distance = directional_distance (displays ! cur) (displays ! i) direction in
              if distance < best then (distance, Some i) else (best, nxt))
       [0..<length displays] (18446744073709551615, None))"

fun walk_displays :: "dh_display_rect list \<Rightarrow> dh_direction_t \<Rightarrow> nat \<Rightarrow> nat \<Rightarrow> nat option" where
  "walk_displays displays direction 0 cur = Some cur"
| "walk_displays displays direction (Suc n) cur =
     (case nearest_display displays cur direction of
        None \<Rightarrow> None | Some nxt \<Rightarrow> walk_displays displays direction n nxt)"

definition dh_place_target :: "dh_place \<Rightarrow> dh_display_rect list \<Rightarrow> nat \<Rightarrow> dh_place_point option" where
  "dh_place_target place displays primary_index =
     (if length displays = 0 \<or> primary_index \<ge> length displays \<or> pl_chain_index place = 0 then None
      else
        case walk_displays displays (direction_of (pl_chain_direction place)) (unat (pl_chain_index place) - 1) primary_index of
          None \<Rightarrow> None
        | Some cur \<Rightarrow>
            let target = displays ! cur in
            if dr_width target \<le> 0 \<or> dr_height target \<le> 0 then None
            else
              let x_along = dh_place_along (pl_entry_position place) (dr_width target);
                  y_along = dh_place_along (pl_entry_position place) (dr_height target) in
              (case direction_of (pl_border_direction place) of
                 DH_DIRECTION_LEFT \<Rightarrow>
                   Some \<lparr>pp_x = dr_x target, pp_y = to_i32 (dr_y target + y_along), pp_display_index = cur\<rparr>
               | DH_DIRECTION_RIGHT \<Rightarrow>
                   Some \<lparr>pp_x = to_i32 (dr_x target + dr_width target - 1), pp_y = to_i32 (dr_y target + y_along),
                         pp_display_index = cur\<rparr>
               | DH_DIRECTION_TOP \<Rightarrow>
                   Some \<lparr>pp_x = to_i32 (dr_x target + x_along), pp_y = dr_y target, pp_display_index = cur\<rparr>
               | DH_DIRECTION_BOTTOM \<Rightarrow>
                   Some \<lparr>pp_x = to_i32 (dr_x target + x_along), pp_y = to_i32 (dr_y target + dr_height target - 1),
                         pp_display_index = cur\<rparr>
               | DH_DIRECTION_NONE \<Rightarrow> None))"

section \<open>Arithmetic\<close>

lemma to_i32_id: "-2147483648 \<le> x \<Longrightarrow> x < 2147483648 \<Longrightarrow> to_i32 x = x"
  by (simp add: to_i32_def)

lemma sdiv_nonneg: "0 \<le> a \<Longrightarrow> 0 < b \<Longrightarrow> a sdiv b = a div (b :: int)"
  by (cases "a = 0") (simp_all add: signed_divide_int_def)

text \<open>Rounding to the nearest: \<open>(a + s div 2) div s\<close> is within half of \<open>s\<close>.\<close>

lemma round_div_near:
  fixes a s :: int
  assumes "0 < s"
  shows "2 * \<bar>(a + s div 2) div s * s - a\<bar> \<le> s"
proof -
  define q where "q = (a + s div 2) div s"
  define r where "r = (a + s div 2) mod s"
  define h where "h = s div 2"
  have "q * s + r = a + h" by (simp add: q_def r_def h_def)
  then have "q * s - a = h - r" by linarith
  moreover have "0 \<le> r" "r < s" using assms by (simp_all add: r_def)
  moreover have "2 * h \<le> s" "s - 1 \<le> 2 * h" unfolding h_def by linarith+
  ultimately show ?thesis unfolding q_def [symmetric] by (simp add: abs_if)
qed

lemma round_div_bounds:
  fixes a s t :: int
  assumes "0 < s" and "0 \<le> a" and "a \<le> s * t"
  shows "0 \<le> (a + s div 2) div s" and "(a + s div 2) div s \<le> t"
proof -
  show "0 \<le> (a + s div 2) div s" using assms by (simp add: pos_imp_zdiv_nonneg_iff)
  have "(a + s div 2) div s \<le> (s * t + s div 2) div s" using assms by (intro zdiv_mono1) auto
  also have "\<dots> = t + s div 2 div s" using assms by (simp add: add.commute [of "s * t"])
  also have "s div 2 div s = 0" using assms by (intro div_pos_pos_trivial) auto
  finally show "(a + s div 2) div s \<le> t" by simp
qed

section \<open>Seam\<close>

text \<open>The map between two non-empty ranges, as one rounded division between clamped ends.\<close>

definition seam_scaled :: "int \<Rightarrow> int \<Rightarrow> int \<Rightarrow> int \<Rightarrow> int \<Rightarrow> int" where
  "seam_scaled position ss se ts te = ts + ((position - ss) * (te - ts) + (se - ss) div 2) div (se - ss)"

definition i16_range :: "int \<Rightarrow> bool" where
  "i16_range x = (-32768 \<le> x \<and> x \<le> 65535)"

lemma seam_map_eq:
  assumes "ss < se" "ts < te" and r: "i16_range ss" "i16_range se" "i16_range ts" "i16_range te"
    and p: "ss \<le> position" "position \<le> se"
  shows "dh_seam_map_coordinate position ss se ts te = seam_scaled position ss se ts te"
    and "ts \<le> seam_scaled position ss se ts te" and "seam_scaled position ss se ts te \<le> te"
proof -
  define q where "q = ((position - ss) * (te - ts) + (se - ss) div 2) div (se - ss)"
  have q: "0 \<le> q" "q \<le> te - ts"
    unfolding q_def using assms
    by (auto intro!: round_div_bounds [where t = "te - ts"] mult_right_mono)
  have sc: "seam_scaled position ss se ts te = ts + q" by (simp add: seam_scaled_def q_def)
  with q show "ts \<le> seam_scaled position ss se ts te" "seam_scaled position ss se ts te \<le> te" by simp_all
  have i: "to_i32 (se - ss) = se - ss" "to_i32 (te - ts) = te - ts" "to_i32 q = q" "to_i32 (ts + q) = ts + q"
    using r q by (auto simp: i16_range_def intro!: to_i32_id)
  have ends: "seam_scaled ss ss se ts te = ts" "seam_scaled se ss se ts te = te"
    using assms by (simp_all add: seam_scaled_def)
  have dv: "((position - ss) * (te - ts) + (se - ss) sdiv 2) sdiv (se - ss) = q"
    using assms by (simp add: sdiv_nonneg q_def)
  show "dh_seam_map_coordinate position ss se ts te = seam_scaled position ss se ts te"
    using assms ends dv i sc by (auto simp: dh_seam_map_coordinate_def Let_def)
qed

lemma seam_scaled_ends:
  "ss < se \<Longrightarrow> seam_scaled ss ss se ts te = ts" "ss < se \<Longrightarrow> seam_scaled se ss se ts te = te"
  by (simp_all add: seam_scaled_def)

lemma seam_scaled_mono:
  "ss < se \<Longrightarrow> ts \<le> te \<Longrightarrow> p \<le> q \<Longrightarrow> seam_scaled p ss se ts te \<le> seam_scaled q ss se ts te"
  by (simp add: seam_scaled_def zdiv_mono1 mult_right_mono)

lemma seam_scaled_near:
  assumes "ss < se"
  shows "2 * \<bar>(seam_scaled p ss se ts te - ts) * (se - ss) - (p - ss) * (te - ts)\<bar> \<le> se - ss"
  using round_div_near [of "se - ss" "(p - ss) * (te - ts)"] assms by (simp add: seam_scaled_def)

text \<open>What a position in a configured range becomes on the other side.\<close>

definition seam_image :: "dh_seam_range_t \<Rightarrow> dh_seam_range_t \<Rightarrow> int \<Rightarrow> int" where
  "seam_image a b p =
     seam_scaled (seam_scaled p (uint (sr_start a)) (uint (sr_end a)) 0 65535) 0 65535 (uint (sr_start b)) (uint (sr_end b))"

definition seam_hits :: "dh_seam_range_t \<Rightarrow> u32 \<Rightarrow> u16 \<Rightarrow> bool" where
  "seam_hits r screen position =
     (range_is_configured r \<and> ucast (sr_screen_index r) = screen \<and> sr_start r \<le> position \<and> position \<le> sr_end r)"

lemma uint_u16: "0 \<le> uint (w :: u16)" "uint (w :: u16) \<le> 65535" "i16_range (uint w)"
  using unsigned_less [where 'a = int, of w] unsigned_greater_eq [where 'a = int, of w]
  by (simp_all add: i16_range_def order_trans [of "- 32768" 0])

lemma uint_of_int_u16: "0 \<le> x \<Longrightarrow> x \<le> 65535 \<Longrightarrow> uint (of_int x :: u16) = x"
  by (simp add: uint_word_of_int take_bit_eq_mod)

definition last_index :: "(nat \<Rightarrow> bool) \<Rightarrow> nat \<Rightarrow> nat option" where
  "last_index P n = fold (\<lambda>i m. if P i then Some i else m) [0..<n] None"

lemma last_index_0 [simp]: "last_index P 0 = None"
  by (simp add: last_index_def)

lemma last_index_Suc [simp]: "last_index P (Suc n) = (if P n then Some n else last_index P n)"
  by (simp add: last_index_def)

lemma last_index_None: "last_index P n = None \<longleftrightarrow> (\<forall>j<n. \<not> P j)"
  by (induction n) (simp_all add: All_less_Suc)

lemma last_index_Some: "last_index P n = Some i \<Longrightarrow> i < n \<and> P i \<and> (\<forall>j<n. i < j \<longrightarrow> \<not> P j)"
  by (induction n) (auto simp: All_less_Suc split: if_splits)

lemma seam_match_index: "seam_match ranges screen position = last_index (\<lambda>i. seam_hits (ranges ! i) screen position) 4"
  by (simp only: seam_match_def last_index_def seam_hits_def)

lemma seam_match_Some:
  assumes "seam_match ranges screen position = Some i"
  shows "i < 4 \<and> seam_hits (ranges ! i) screen position \<and> (\<forall>j<4. i < j \<longrightarrow> \<not> seam_hits (ranges ! j) screen position)"
  using assms unfolding seam_match_index by (rule last_index_Some)

lemma seam_match_None:
  "seam_match ranges screen position = None \<longleftrightarrow> (\<forall>j<4. \<not> seam_hits (ranges ! j) screen position)"
  unfolding seam_match_index by (rule last_index_None)

lemma configured_order:
  "range_is_configured r \<Longrightarrow> uint (sr_start r) < uint (sr_end r)"
  by (simp add: range_is_configured_def word_less_def)

lemma seam_hits_order: "seam_hits r s p \<Longrightarrow> uint (sr_start r) \<le> uint p \<and> uint p \<le> uint (sr_end r)"
  by (simp add: seam_hits_def word_le_def)

lemma seam_image_bounds:
  assumes "range_is_configured a" "range_is_configured b" "uint (sr_start a) \<le> p" "p \<le> uint (sr_end a)"
  shows "0 \<le> seam_scaled p (uint (sr_start a)) (uint (sr_end a)) 0 65535"
    and "seam_scaled p (uint (sr_start a)) (uint (sr_end a)) 0 65535 \<le> 65535"
    and "uint (sr_start b) \<le> seam_image a b p" and "seam_image a b p \<le> uint (sr_end b)"
proof -
  have z: "i16_range 0" "i16_range 65535" by (simp_all add: i16_range_def)
  note h = seam_map_eq(2,3) [OF configured_order [OF assms(1)] _ uint_u16(3) uint_u16(3) z assms(3,4), simplified]
  show "0 \<le> seam_scaled p (uint (sr_start a)) (uint (sr_end a)) 0 65535"
    "seam_scaled p (uint (sr_start a)) (uint (sr_end a)) 0 65535 \<le> 65535"
    using h by simp_all
  then show "uint (sr_start b) \<le> seam_image a b p" "seam_image a b p \<le> uint (sr_end b)"
    unfolding seam_image_def
    by (rule seam_map_eq(2,3) [OF _ configured_order [OF assms(2)] z uint_u16(3) uint_u16(3), simplified])+
qed

lemma seam_cross_Some:
  assumes "seam_match ranges screen position = Some i"
  shows "dh_seam_cross ranges screen position =
    Some \<lparr>sh_segment = of_nat i, sh_position =
      of_int (seam_scaled (uint position) (uint (sr_start (ranges ! i))) (uint (sr_end (ranges ! i))) 0 65535)\<rparr>"
proof -
  have h: "seam_hits (ranges ! i) screen position" using seam_match_Some [OF assms] by simp
  have "i16_range 0" "i16_range 65535" by (simp_all add: i16_range_def)
  moreover have "range_is_configured (ranges ! i)" using h by (simp add: seam_hits_def)
  ultimately have "dh_seam_map_coordinate (uint position) (uint (sr_start (ranges ! i))) (uint (sr_end (ranges ! i))) 0 65535 =
     seam_scaled (uint position) (uint (sr_start (ranges ! i))) (uint (sr_end (ranges ! i))) 0 65535"
    using seam_hits_order [OF h] configured_order by (intro seam_map_eq(1)) (simp_all add: uint_u16)
  with assms show ?thesis by (simp add: dh_seam_cross_def)
qed

lemma seam_entry_Some:
  assumes "range_is_configured (ranges ! unat seg)" and "unat seg < 4"
  shows "dh_seam_entry ranges seg p =
    Some (of_int (seam_scaled (uint p) 0 65535 (uint (sr_start (ranges ! unat seg))) (uint (sr_end (ranges ! unat seg)))))"
proof -
  have "i16_range 0" "i16_range 65535" by (simp_all add: i16_range_def)
  then have "dh_seam_map_coordinate (uint p) 0 65535 (uint (sr_start (ranges ! unat seg))) (uint (sr_end (ranges ! unat seg))) =
     seam_scaled (uint p) 0 65535 (uint (sr_start (ranges ! unat seg))) (uint (sr_end (ranges ! unat seg)))"
    using configured_order [OF assms(1)] by (intro seam_map_eq(1)) (simp_all add: uint_u16)
  with assms show ?thesis by (simp add: dh_seam_entry_def)
qed

definition seam_pair_available :: "dh_seam_range_t list \<Rightarrow> dh_seam_range_t list \<Rightarrow> u32 \<Rightarrow> u32 \<Rightarrow> nat \<Rightarrow> bool" where
  "seam_pair_available source target ns nt i =
     (range_is_available (source ! i) ns \<and> range_is_available (target ! i) nt)"

lemma resolve_hit:
  assumes m: "seam_match source screen position = Some i"
  shows "dh_seam_resolve_crossing source target screen ns nt position =
    (if seam_pair_available source target ns nt i
     then (DH_SEAM_CROSSING_MAPPED, Some \<lparr>sn_screen_index = sr_screen_index (target ! i),
       sn_position = of_int (seam_image (source ! i) (target ! i) (uint position))\<rparr>)
     else (DH_SEAM_CROSSING_LEGACY, None))"
proof -
  have i: "i < 4" and h: "seam_hits (source ! i) screen position" using seam_match_Some [OF m] by simp_all
  have seg: "unat (of_nat i :: byte) = i" using i by (intro unat_of_nat_small) simp
  show ?thesis
  proof (cases "seam_pair_available source target ns nt i")
    case True
    then have c: "range_is_configured (source ! i)" "range_is_configured (target ! i)"
      by (simp_all add: seam_pair_available_def range_is_available_def)
    note b = seam_image_bounds(1,2) [OF c seam_hits_order [OF h, THEN conjunct1] seam_hits_order [OF h, THEN conjunct2]]
    show ?thesis
      using True c seg i b
      by (simp add: dh_seam_resolve_crossing_def seam_cross_Some [OF m] seam_pair_available_def seam_entry_Some
          Let_def seam_image_def uint_of_int_u16)
  next
    case False
    then show ?thesis
      using seg by (auto simp: dh_seam_resolve_crossing_def seam_cross_Some [OF m] seam_pair_available_def Let_def)
  qed
qed

lemma resolve_miss:
  assumes m: "seam_match source screen position = None"
  shows "dh_seam_resolve_crossing source target screen ns nt position =
    (if \<exists>i<4. seam_pair_available source target ns nt i then DH_SEAM_CROSSING_BLOCKED else DH_SEAM_CROSSING_LEGACY, None)"
  using m by (auto simp: dh_seam_resolve_crossing_def dh_seam_cross_def seam_pair_available_def list_ex_iff)

section \<open>Windows' pointer maths\<close>

lemma mult32_pos: "dh_windows_pointer_speed_is_set step \<Longrightarrow> 1 \<le> mult32 step \<and> mult32 step \<le> 112"
proof -
  assume "dh_windows_pointer_speed_is_set step"
  then have "unat step - 1 < 20" by (auto simp: dh_windows_pointer_speed_is_set_def word_le_nat_alt)
  moreover have "list_all (\<lambda>m. 1 \<le> m \<and> m \<le> 112) DH_WINDOWS_POINTER_MULT32" "length DH_WINDOWS_POINTER_MULT32 = 20"
    by (simp_all add: DH_WINDOWS_POINTER_MULT32_def)
  ultimately show ?thesis by (simp add: mult32_def list_all_length)
qed

text \<open>Truncating division by a positive number is monotone, and the remainder keeps the sign.\<close>

lemma sdiv_pos_cases: "0 < (b :: int) \<Longrightarrow> a sdiv b = (if 0 \<le> a then a div b else - ((- a) div b))"
  by (cases "a = 0") (simp_all add: signed_divide_int_def sgn_if)

lemma sdiv_mono: "0 < (b :: int) \<Longrightarrow> x \<le> y \<Longrightarrow> x sdiv b \<le> y sdiv b"
  by (auto simp: sdiv_pos_cases zdiv_mono1 pos_imp_zdiv_nonneg_iff intro: order_trans [of _ 0])

lemma sdiv_remainder: "\<bar>a - a sdiv b * b\<bar> < b" if "0 < (b :: int)"
proof (cases "0 \<le> a")
  case True
  then show ?thesis using that pos_mod_bound [of b a] by (simp add: sdiv_pos_cases minus_div_mult_eq_mod)
next
  case False
  have "a - a sdiv b * b = - ((- a) mod b)"
    using False that minus_div_mult_eq_mod [of "- a" b] by (simp add: sdiv_pos_cases)
  then show ?thesis using that by simp
qed

lemma ceil_div:
  assumes "0 < (d :: int)"
  shows "(n + d - 1) div d = - ((- n) div d)"
proof -
  define q where "q = (- n) div d"
  define r where "r = (- n) mod d"
  have "q * d + r = - n" "0 \<le> r" "r < d" using assms by (simp_all add: q_def r_def)
  then have "(n + d - 1) div d = - q"
    by (intro int_div_pos_eq [where r = "d - 1 - r"]) (auto simp: algebra_simps)
  then show ?thesis by (simp add: q_def)
qed

lemma pixel_of_floor: "pixel_of position pixels = (position * uint pixels) div UNITS"
  using ceil_div [of UNITS "- (position * uint pixels)"]
  by (auto simp: pixel_of_def Let_def sdiv_nonneg)

lemma uint_pos: "pixels \<noteq> 0 \<Longrightarrow> 0 < uint (pixels :: u16)"
  by (metis uint_0_iff unsigned_greater_eq order_le_less)

lemma unit_of_ceil: "pixels \<noteq> 0 \<Longrightarrow> unit_of p pixels = - ((- (p * UNITS)) div uint pixels)"
  using uint_pos [of pixels] ceil_div [of "uint pixels" "p * UNITS"]
  by (auto simp: unit_of_def Let_def sdiv_pos_cases)

text \<open>The first unit of a pixel is in that pixel.\<close>

lemma pixel_of_unit_of:
  assumes "pixels \<noteq> 0" and "uint pixels \<le> UNITS"
  shows "pixel_of (unit_of p pixels) pixels = p"
proof -
  define d where "d = uint pixels"
  define r where "r = (- (p * UNITS)) mod d"
  have "(- (p * UNITS)) div d * d + r = - (p * UNITS)" "0 \<le> r" "r < d"
    using uint_pos [OF assms(1)] by (simp_all add: r_def d_def)
  then have "unit_of p pixels * d = p * UNITS + r" and "r < UNITS"
    using assms(2) by (simp_all add: unit_of_ceil [OF assms(1)] d_def)
  then show ?thesis
    using \<open>0 \<le> r\<close> by (simp add: pixel_of_floor d_def [symmetric])
qed

lemma estimate_offset_exact:
  assumes set: "dh_windows_pointer_speed_is_set step" and p: "pixels \<noteq> 0" "uint pixels \<le> UNITS"
    and moved: "moved = (counts * mult32 step + part) sdiv 32"
    and fits: "\<bar>unit_of (pixel_of position pixels + moved) pixels - position\<bar> < 2147483648"
    and eq: "dh_windows_estimate_offset position counts step pixels speed part = (off, part')"
  shows "moved * 32 + part' = counts * mult32 step + part" and "\<bar>part'\<bar> < 32"
    and "pixel_of (position + off) pixels = pixel_of position pixels + moved"
proof -
  have i32: "to_i32 (unit_of (pixel_of position pixels + moved) pixels - position) =
      unit_of (pixel_of position pixels + moved) pixels - position"
    using fits by (intro to_i32_id) auto
  have e: "off = (if moved = 0 then 0 else unit_of (pixel_of position pixels + moved) pixels - position)"
      "part' = counts * mult32 step + part - moved * 32"
    using eq set p i32 unfolding moved by (auto simp: dh_windows_estimate_offset_def Let_def split: if_splits)
  show "moved * 32 + part' = counts * mult32 step + part" using e by simp
  show "\<bar>part'\<bar> < 32" using sdiv_remainder [of 32 "counts * mult32 step + part"] e moved by simp
  show "pixel_of (position + off) pixels = pixel_of position pixels + moved"
    using e pixel_of_unit_of [OF p] by auto
qed

lemma pixels_moved_mono: "0 \<le> m \<Longrightarrow> c \<le> c' \<Longrightarrow> pixels_moved c m part \<le> pixels_moved c' m part"
  unfolding pixels_moved_def by (intro sdiv_mono) (auto intro: mult_right_mono)

text \<open>The counts just short of the target and the next: everything else misses by at least as much.\<close>

lemma counts_floor:
  assumes "0 < (m :: int)"
  shows "(if n \<ge> 0 then n sdiv m else - ((- n + m - 1) sdiv m)) = n div m"
  using assms ceil_div [of m "- n"] by (auto simp: sdiv_nonneg)

lemma counts_bracket:
  assumes "0 < m" and c: "c = (pixels * 32 - part) div m"
  shows "pixels_moved c m part \<le> pixels" and "pixels \<le> pixels_moved (c + 1) m part"
proof -
  have t: "(pixels * 32) sdiv 32 = pixels" by (simp add: signed_divide_int_def abs_mult sgn_mult mult_sgn_abs)
  define r where "r = (pixels * 32 - part) mod m"
  have "c * m + r = pixels * 32 - part" "0 \<le> r" "r < m"
    using assms by (simp_all add: r_def)
  then have "c * m + part \<le> pixels * 32" "pixels * 32 \<le> (c + 1) * m + part"
    by (simp_all add: algebra_simps)
  then show "pixels_moved c m part \<le> pixels" "pixels \<le> pixels_moved (c + 1) m part"
    unfolding pixels_moved_def using sdiv_mono [of 32] t by (metis zero_less_numeral)+
qed

lemma counts_nearest_optimal:
  assumes set: "dh_windows_pointer_speed_is_set step" and b: "\<bar>pixels\<bar> \<le> 65535" "\<bar>part\<bar> < 32"
  shows "\<bar>pixels_moved (dh_windows_counts_nearest pixels step part) (mult32 step) part - pixels\<bar> \<le>
    \<bar>pixels_moved c' (mult32 step) part - pixels\<bar>"
proof -
  define m where "m = mult32 step"
  have m: "1 \<le> m" "m \<le> 112" using mult32_pos [OF set] by (simp_all add: m_def)
  define c where "c = (pixels * 32 - part) div m"
  note br = counts_bracket [of m c pixels part, OF _ c_def]
  have "\<bar>c\<bar> \<le> \<bar>pixels * 32 - part\<bar>"
    using m zdiv_mono2 [of "pixels * 32 - part" 1 m] zdiv_mono2_neg [of "pixels * 32 - part" 1 m]
      pos_imp_zdiv_nonneg_iff [of m "pixels * 32 - part"]
    by (auto simp: c_def abs_if)
  then have i: "to_i32 c = c" "to_i32 (c + 1) = c + 1" using b by (auto intro!: to_i32_id simp: abs_if split: if_splits)
  have "0 < m" using m by simp
  note fl = counts_floor [OF this, of "pixels * 32 - part", folded c_def]
  have near: "dh_windows_counts_nearest pixels step part =
      (if \<bar>pixels_moved (c + 1) m part - pixels\<bar> < \<bar>pixels_moved c m part - pixels\<bar> then c + 1 else c)"
    using set i unfolding dh_windows_counts_nearest_def Let_def m_def [symmetric] fl by simp
  have lo: "pixels_moved c m part \<le> pixels" "pixels \<le> pixels_moved (c + 1) m part" using br m by simp_all
  consider "c' \<le> c" | "c + 1 \<le> c'" by linarith
  then show ?thesis
  proof cases
    case 1
    then have "pixels_moved c' m part \<le> pixels_moved c m part" using m by (intro pixels_moved_mono) auto
    with lo show ?thesis unfolding near m_def [symmetric] by auto
  next
    case 2
    then have "pixels_moved (c + 1) m part \<le> pixels_moved c' m part" using m by (intro pixels_moved_mono) auto
    with lo show ?thesis unfolding near m_def [symmetric] by auto
  qed
qed

lemma counts_for_pixels_least:
  assumes set: "dh_windows_pointer_speed_is_set step" and b: "0 < pixels" "pixels \<le> 131072"
  shows "pixels \<le> pixels_moved (dh_windows_counts_for_pixels pixels step) (mult32 step) 0"
    and "c < dh_windows_counts_for_pixels pixels step \<Longrightarrow> pixels_moved c (mult32 step) 0 < pixels"
proof -
  define m where "m = mult32 step"
  have m: "1 \<le> m" "m \<le> 112" using mult32_pos [OF set] by (simp_all add: m_def)
  define k where "k = (pixels * 32 + m - 1) div m"
  have i: "to_i32 (pixels * 32) = pixels * 32" "to_i32 (pixels * 32 + m - 1) = pixels * 32 + m - 1"
    using b m by (auto intro!: to_i32_id)
  have k: "dh_windows_counts_for_pixels pixels step = k"
    using set i b m by (simp add: dh_windows_counts_for_pixels_def Let_def m_def [symmetric] k_def sdiv_nonneg)
  define r where "r = (pixels * 32 + m - 1) mod m"
  have kr: "k * m + r = pixels * 32 + m - 1" "0 \<le> r" "r < m" using m by (simp_all add: k_def r_def)
  then have lo: "pixels * 32 \<le> k * m" by linarith
  then have "(pixels * 32) div 32 \<le> (k * m) div 32" by (intro zdiv_mono1) auto
  then show "pixels \<le> pixels_moved (dh_windows_counts_for_pixels pixels step) (mult32 step) 0"
    using lo b unfolding k by (simp add: pixels_moved_def m_def [symmetric] sdiv_nonneg)
  assume "c < dh_windows_counts_for_pixels pixels step"
  then have "c * m \<le> (k - 1) * m" using m unfolding k by (intro mult_right_mono) auto
  then have "c * m < pixels * 32" using kr by (simp add: algebra_simps)
  then have "(c * m) sdiv 32 < pixels"
    using b by (auto simp: sdiv_pos_cases div_less_iff_less_mult pos_imp_zdiv_nonneg_iff
        intro: less_le_trans [of _ 0] order_le_less_trans)
  then show "pixels_moved c (mult32 step) 0 < pixels" by (simp add: pixels_moved_def m_def [symmetric])
qed

section \<open>Placement\<close>

definition is_i32 :: "int \<Rightarrow> bool" where
  "is_i32 x = (-2147483648 \<le> x \<and> x < 2147483648)"

text \<open>A rectangle as an operating system reports it: corners and sizes that fit \<open>int32_t\<close>.\<close>

definition rect_ok :: "dh_display_rect \<Rightarrow> bool" where
  "rect_ok r = (is_i32 (dr_x r) \<and> is_i32 (dr_y r) \<and> is_i32 (dr_width r) \<and> is_i32 (dr_height r) \<and>
     is_i32 (dr_x r + dr_width r) \<and> is_i32 (dr_y r + dr_height r))"

definition in_rect :: "dh_display_rect \<Rightarrow> int \<Rightarrow> int \<Rightarrow> bool" where
  "in_rect r x y = (dr_x r \<le> x \<and> x < dr_x r + dr_width r \<and> dr_y r \<le> y \<and> y < dr_y r + dr_height r)"

definition is_nearest :: "dh_display_rect list \<Rightarrow> dh_direction_t \<Rightarrow> nat \<Rightarrow> nat \<Rightarrow> bool" where
  "is_nearest ds dir cur i =
     (i < length ds \<and> i \<noteq> cur \<and> lies_in_direction (ds ! cur) (ds ! i) dir \<and>
      (\<forall>j<length ds. j \<noteq> cur \<longrightarrow> lies_in_direction (ds ! cur) (ds ! j) dir \<longrightarrow>
         directional_distance (ds ! cur) (ds ! i) dir \<le> directional_distance (ds ! cur) (ds ! j) dir))"

lemma place_along_bounds:
  assumes "0 < span" "is_i32 span"
  shows "dh_place_along p span = (uint p * (span - 1) + 32767) div 65535"
    and "0 \<le> dh_place_along p span" and "dh_place_along p span \<le> span - 1"
proof -
  have u: "0 \<le> uint p" "uint p \<le> 65535" by (simp_all add: uint_u16)
  have "to_i32 (span - 1) = span - 1" using assms by (intro to_i32_id) (auto simp: is_i32_def)
  then have s: "to_i32 (span - 1) mod 4294967296 = span - 1" using assms by (simp add: is_i32_def)
  define q where "q = (uint p * (span - 1) + 32767) div 65535"
  have "0 \<le> q \<and> q \<le> span - 1"
  proof -
    have "uint p * (span - 1) \<le> 65535 * (span - 1)" using u assms by (intro mult_right_mono) auto
    moreover have "0 \<le> uint p * (span - 1)" using u assms by simp
    ultimately show ?thesis using round_div_bounds [of 65535 "uint p * (span - 1)" "span - 1"] by (simp add: q_def)
  qed
  moreover have "to_i32 q = q" using calculation assms by (intro to_i32_id) (auto simp: is_i32_def)
  ultimately show "dh_place_along p span = (uint p * (span - 1) + 32767) div 65535"
    "0 \<le> dh_place_along p span" "dh_place_along p span \<le> span - 1"
    by (simp_all add: dh_place_along_def s q_def)
qed

lemma place_along_ends:
  "0 < span \<Longrightarrow> is_i32 span \<Longrightarrow> dh_place_along 0 span = 0"
  "0 < span \<Longrightarrow> is_i32 span \<Longrightarrow> dh_place_along 0xFFFF span = span - 1"
  by (simp_all add: place_along_bounds(1))

text \<open>The scan for the least \<open>d\<close> among the indices that satisfy \<open>P\<close>, below a start value.\<close>

definition least_scan :: "(nat \<Rightarrow> bool) \<Rightarrow> (nat \<Rightarrow> int) \<Rightarrow> int \<Rightarrow> nat \<Rightarrow> int \<times> nat option" where
  "least_scan P d start n =
     fold (\<lambda>i (best, nxt). if \<not> P i then (best, nxt) else if d i < best then (d i, Some i) else (best, nxt))
       [0..<n] (start, None)"

lemma least_scan_inv:
  assumes "\<And>i. d i < start"
  shows "case least_scan P d start n of
      (best, None) \<Rightarrow> best = start \<and> (\<forall>j<n. \<not> P j)
    | (best, Some i) \<Rightarrow> best = d i \<and> i < n \<and> P i \<and> (\<forall>j<n. P j \<longrightarrow> d i \<le> d j)"
proof (induction n)
  case 0
  then show ?case by (simp add: least_scan_def)
next
  case (Suc n)
  obtain best nxt where s: "least_scan P d start n = (best, nxt)" by fastforce
  have step: "least_scan P d start (Suc n) =
      (if \<not> P n then (best, nxt) else if d n < best then (d n, Some n) else (best, nxt))"
    using s by (simp add: least_scan_def)
  show ?case
    using Suc assms [of n] unfolding s step by (auto simp: All_less_Suc split: option.splits)
qed

lemma rect_distance: "rect_ok a \<Longrightarrow> rect_ok b \<Longrightarrow> directional_distance a b dir < 18446744073709551615"
  by (auto simp: rect_ok_def is_i32_def directional_distance_def Let_def center_x_def center_y_def)

lemma nearest_display_scan:
  assumes "list_all rect_ok ds" and "cur < length ds"
  shows "nearest_display ds cur dir =
    snd (least_scan (\<lambda>i. i < length ds \<and> i \<noteq> cur \<and> lies_in_direction (ds ! cur) (ds ! i) dir)
      (\<lambda>i. if i < length ds then directional_distance (ds ! cur) (ds ! i) dir else 0) 18446744073709551615 (length ds))"
proof -
  have "fold (\<lambda>i (best, nxt).
            if i = cur \<or> \<not> lies_in_direction (ds ! cur) (ds ! i) dir then (best, nxt)
            else
              let distance = directional_distance (ds ! cur) (ds ! i) dir in
              if distance < best then (distance, Some i) else (best, nxt)) [0..<length ds] (18446744073709551615, None) =
     least_scan (\<lambda>i. i < length ds \<and> i \<noteq> cur \<and> lies_in_direction (ds ! cur) (ds ! i) dir)
      (\<lambda>i. if i < length ds then directional_distance (ds ! cur) (ds ! i) dir else 0) 18446744073709551615 (length ds)"
    unfolding least_scan_def by (intro fold_cong) (auto simp: Let_def fun_eq_iff)
  then show ?thesis by (simp add: nearest_display_def)
qed

lemma nearest_display_cases:
  assumes ok: "list_all rect_ok ds" and cur: "cur < length ds"
  shows "case nearest_display ds cur dir of
      Some i \<Rightarrow> is_nearest ds dir cur i
    | None \<Rightarrow> (\<forall>j<length ds. j \<noteq> cur \<longrightarrow> \<not> lies_in_direction (ds ! cur) (ds ! j) dir)"
proof -
  let ?P = "\<lambda>i. i < length ds \<and> i \<noteq> cur \<and> lies_in_direction (ds ! cur) (ds ! i) dir"
  let ?d = "\<lambda>i. if i < length ds then directional_distance (ds ! cur) (ds ! i) dir else 0"
  have "?d i < 18446744073709551615" for i
    using ok cur by (auto simp: list_all_length intro: rect_distance)
  from least_scan_inv [of ?d, OF this, where P = ?P and n = "length ds"]
  show ?thesis
    unfolding nearest_display_scan [OF assms]
    by (auto simp: is_nearest_def split: prod.splits option.splits)
qed

text \<open>The displays a placement walks over: from the primary, each the nearest to the one before.\<close>

definition display_path :: "dh_display_rect list \<Rightarrow> dh_direction_t \<Rightarrow> nat list \<Rightarrow> bool" where
  "display_path ds dir path =
     (path \<noteq> [] \<and> (\<forall>k. Suc k < length path \<longrightarrow> is_nearest ds dir (path ! k) (path ! Suc k)))"

lemma walk_displays_path:
  assumes "list_all rect_ok ds" and "cur < length ds" and "walk_displays ds dir n cur = Some i"
  shows "\<exists>path. display_path ds dir path \<and> length path = Suc n \<and> hd path = cur \<and> List.last path = i \<and> i < length ds"
  using assms(2,3)
proof (induction n arbitrary: cur)
  case 0
  then show ?case by (intro exI [of _ "[cur]"]) (simp add: display_path_def)
next
  case (Suc n)
  then obtain nx where n: "nearest_display ds cur dir = Some nx" "walk_displays ds dir n nx = Some i"
    by (auto split: option.splits)
  have near: "is_nearest ds dir cur nx" using nearest_display_cases [OF assms(1) Suc.prems(1), of dir] n(1) by simp
  then have "nx < length ds" by (simp add: is_nearest_def)
  from Suc.IH [OF this n(2)] obtain path where p: "display_path ds dir path" "length path = Suc n" "hd path = nx"
    "List.last path = i" "i < length ds" by blast
  then have "display_path ds dir (cur # path)"
    using near by (auto simp: display_path_def nth_Cons hd_conv_nth split: nat.splits)
  with p show ?case by (intro exI [of _ "cur # path"]) (auto simp: display_path_def)
qed

text \<open>Where on the target's border the point is.\<close>

definition border_point :: "dh_display_rect \<Rightarrow> dh_direction_t \<Rightarrow> u16 \<Rightarrow> int \<Rightarrow> int \<Rightarrow> bool" where
  "border_point r dir p x y =
     (case dir of
        DH_DIRECTION_LEFT \<Rightarrow> x = dr_x r \<and> y = dr_y r + dh_place_along p (dr_height r)
      | DH_DIRECTION_RIGHT \<Rightarrow> x = dr_x r + dr_width r - 1 \<and> y = dr_y r + dh_place_along p (dr_height r)
      | DH_DIRECTION_TOP \<Rightarrow> y = dr_y r \<and> x = dr_x r + dh_place_along p (dr_width r)
      | DH_DIRECTION_BOTTOM \<Rightarrow> y = dr_y r + dr_height r - 1 \<and> x = dr_x r + dh_place_along p (dr_width r)
      | DH_DIRECTION_NONE \<Rightarrow> False)"

lemma place_target_point:
  assumes ok: "list_all rect_ok ds" and t: "dh_place_target place ds primary = Some pt"
  shows "\<exists>path. display_path ds (direction_of (pl_chain_direction place)) path \<and>
      length path = unat (pl_chain_index place) \<and> hd path = primary \<and> List.last path = pp_display_index pt"
    and "pp_display_index pt < length ds"
    and "in_rect (ds ! pp_display_index pt) (pp_x pt) (pp_y pt)"
    and "border_point (ds ! pp_display_index pt) (direction_of (pl_border_direction place)) (pl_entry_position place)
       (pp_x pt) (pp_y pt)"
proof -
  let ?dir = "direction_of (pl_chain_direction place)" and ?b = "direction_of (pl_border_direction place)"
  have nz: "pl_chain_index place \<noteq> 0" and pr: "primary < length ds"
    using t by (auto simp: dh_place_target_def split: if_splits)
  obtain cur where w: "walk_displays ds ?dir (unat (pl_chain_index place) - 1) primary = Some cur"
    using t by (auto simp: dh_place_target_def split: if_splits option.splits)
  obtain path where path: "display_path ds ?dir path" "length path = Suc (unat (pl_chain_index place) - 1)"
      "hd path = primary" "List.last path = cur" "cur < length ds"
    using walk_displays_path [OF ok pr w] by blast
  have len: "Suc (unat (pl_chain_index place) - 1) = unat (pl_chain_index place)"
    using nz by (metis Suc_pred' unat_gt_0)
  define r where "r = ds ! cur"
  have rk: "rect_ok r" using ok path(5) by (simp add: r_def list_all_length)
  have sz: "0 < dr_width r" "0 < dr_height r"
    using t nz pr w by (auto simp: dh_place_target_def Let_def r_def split: if_splits)
  define p where "p = pl_entry_position place"
  have i: "is_i32 (dr_width r)" "is_i32 (dr_height r)" using rk by (simp_all add: rect_ok_def)
  note a = place_along_bounds(2,3) [OF sz(1) i(1), of p] place_along_bounds(2,3) [OF sz(2) i(2), of p]
  have c: "to_i32 (dr_x r + dr_width r - 1) = dr_x r + dr_width r - 1"
      "to_i32 (dr_y r + dr_height r - 1) = dr_y r + dr_height r - 1"
      "to_i32 (dr_x r + dh_place_along p (dr_width r)) = dr_x r + dh_place_along p (dr_width r)"
      "to_i32 (dr_y r + dh_place_along p (dr_height r)) = dr_y r + dh_place_along p (dr_height r)"
    using rk sz a by (auto simp: rect_ok_def is_i32_def intro!: to_i32_id)
  have pt: "pp_display_index pt = cur \<and> border_point r ?b p (pp_x pt) (pp_y pt)"
    using t [unfolded dh_place_target_def w option.case Let_def, folded r_def p_def] nz pr sz c
    by (cases ?b) (auto simp: border_point_def split: if_splits)
  then have inr: "in_rect r (pp_x pt) (pp_y pt)"
    using a sz by (cases ?b) (auto simp: border_point_def in_rect_def)
  show "\<exists>path. display_path ds ?dir path \<and>
      length path = unat (pl_chain_index place) \<and> hd path = primary \<and> List.last path = pp_display_index pt"
    using path pt len by auto
  show "pp_display_index pt < length ds" "in_rect (ds ! pp_display_index pt) (pp_x pt) (pp_y pt)"
    "border_point (ds ! pp_display_index pt) ?b (pl_entry_position place) (pp_x pt) (pp_y pt)"
    using pt inr path(5) by (simp_all add: r_def p_def)
qed

lemma place_decode_encode: "dh_place_encode place cap = Some body \<Longrightarrow> dh_place_decode body = Some place"
  by (cases place) (auto simp: dh_place_encode_def dh_place_decode_def wr_u16_def rd_u16_def le16_def le_simps split: if_splits)

lemma position_decode_encode: "dh_position_encode pos cap = Some body \<Longrightarrow> dh_position_decode body = Some pos"
  by (cases pos) (auto simp: dh_position_encode_def dh_position_decode_def wr_u16_def rd_u16_def le16_def le_simps split: if_splits)

section \<open>Properties\<close>

lemma seam_image_mono:
  assumes "range_is_configured a" "range_is_configured b" "p \<le> q"
  shows "seam_image a b p \<le> seam_image a b q"
  unfolding seam_image_def
  using configured_order [OF assms(1)] configured_order [OF assms(2)] assms(3)
  by (intro seam_scaled_mono) auto

lemma seam_image_ends:
  "range_is_configured a \<Longrightarrow> seam_image a b (uint (sr_start a)) = uint (sr_start b)"
  "range_is_configured a \<Longrightarrow> seam_image a b (uint (sr_end a)) = uint (sr_end b)"
  by (simp_all add: seam_image_def seam_scaled_ends configured_order)

text \<open>A seam crossing on every branch. It is mapped exactly when the last configured range the position
  falls in, on the screen the pointer is on, names a screen both computers have; the entry is then on the
  screen the other computer's range of that segment names, at the image of the position: inside that
  range, its ends on the ends of the other range and the order of positions kept. It is blocked exactly
  when no range is hit although some segment is usable on both sides; otherwise the legacy map applies.\<close>

theorem seam_crossing_exact:
  assumes "dh_seam_resolve_crossing source target screen ns nt position = (kind, e)"
  shows "(kind = DH_SEAM_CROSSING_MAPPED \<longleftrightarrow>
      (\<exists>i. seam_match source screen position = Some i \<and> seam_pair_available source target ns nt i)) \<and>
    (kind = DH_SEAM_CROSSING_BLOCKED \<longleftrightarrow>
      (\<forall>i<4. \<not> seam_hits (source ! i) screen position) \<and> (\<exists>i<4. seam_pair_available source target ns nt i)) \<and>
    (e \<noteq> None \<longleftrightarrow> kind = DH_SEAM_CROSSING_MAPPED) \<and>
    (\<forall>en. e = Some en \<longrightarrow> (\<exists>i<4. seam_hits (source ! i) screen position \<and>
      sn_screen_index en = sr_screen_index (target ! i) \<and>
      uint (sn_position en) = seam_image (source ! i) (target ! i) (uint position) \<and>
      sr_start (target ! i) \<le> sn_position en \<and> sn_position en \<le> sr_end (target ! i) \<and>
      (\<forall>p q. p \<le> q \<longrightarrow> seam_image (source ! i) (target ! i) p \<le> seam_image (source ! i) (target ! i) q) \<and>
      seam_image (source ! i) (target ! i) (uint (sr_start (source ! i))) = uint (sr_start (target ! i)) \<and>
      seam_image (source ! i) (target ! i) (uint (sr_end (source ! i))) = uint (sr_end (target ! i))))"
proof (cases "seam_match source screen position")
  case None
  with assms resolve_miss [OF None, of target ns nt] show ?thesis
    by (auto simp: seam_match_None [symmetric] split: if_splits)
next
  case (Some i)
  have i: "i < 4" and h: "seam_hits (source ! i) screen position" using seam_match_Some [OF Some] by simp_all
  show ?thesis
  proof (cases "seam_pair_available source target ns nt i")
    case True
    then have c: "range_is_configured (source ! i)" "range_is_configured (target ! i)"
      by (simp_all add: seam_pair_available_def range_is_available_def)
    note b = seam_image_bounds(3,4) [OF c seam_hits_order [OF h, THEN conjunct1] seam_hits_order [OF h, THEN conjunct2]]
    define en where "en = \<lparr>sn_screen_index = sr_screen_index (target ! i),
        sn_position = of_int (seam_image (source ! i) (target ! i) (uint position)) :: u16\<rparr>"
    have r: "kind = DH_SEAM_CROSSING_MAPPED" "e = Some en"
      using assms resolve_hit [OF Some, of target ns nt] True by (simp_all add: en_def)
    have p: "uint (sn_position en) = seam_image (source ! i) (target ! i) (uint position)"
      using b order_trans [OF b(2) uint_u16(2)] order_trans [OF uint_u16(1) b(1)]
      by (simp add: en_def uint_of_int_u16)
    show ?thesis
      using r p b True Some i h seam_image_mono [OF c] seam_image_ends [OF c(1)]
      by (auto simp: word_le_def en_def)
  next
    case False
    with assms resolve_hit [OF Some, of target ns nt] Some i h show ?thesis by auto
  qed
qed

text \<open>A seam between one full-height screen and the lower half of the other computer's second one.\<close>

definition seam_a :: "dh_seam_range_t list" where
  "seam_a = \<lparr>sr_screen_index = 1, sr_start = 0, sr_end = 65535\<rparr> # replicate 3 \<lparr>sr_screen_index = 0, sr_start = 0, sr_end = 0\<rparr>"

definition seam_b :: "dh_seam_range_t list" where
  "seam_b = \<lparr>sr_screen_index = 2, sr_start = 32768, sr_end = 65535\<rparr> # replicate 3 \<lparr>sr_screen_index = 0, sr_start = 0, sr_end = 0\<rparr>"

theorem seam_crossing_exact_witness:
  "dh_seam_resolve_crossing seam_a seam_b 1 1 2 32768 =
     (DH_SEAM_CROSSING_MAPPED, Some \<lparr>sn_screen_index = 2, sn_position = 49152\<rparr>) \<and>
   (\<exists>i. seam_match seam_a 1 32768 = Some i \<and> seam_pair_available seam_a seam_b 1 2 i)"
proof -
  have "dh_seam_resolve_crossing seam_a seam_b 1 1 2 32768 =
     (DH_SEAM_CROSSING_MAPPED, Some \<lparr>sn_screen_index = 2, sn_position = 49152\<rparr>)"
    by code_simp
  with seam_crossing_exact [OF this] show ?thesis by blast
qed

text \<open>The board's estimate of a relative Windows cursor neither loses nor invents motion. For a saved
  pointer speed and a monitor of at most 32768 pixels, a report of \<open>counts\<close> moves the estimate by exactly
  the whole pixels Windows moves it (truncated toward zero, with the part-pixel kept), the part-pixel
  carried over is the exact remainder and stays below one pixel, and the pixel the new estimate is in is
  the old one moved by that many. Without a saved speed or size the offset is the counts at the walk
  speed and the part-pixel is left alone.\<close>

theorem windows_estimate_exact:
  assumes "dh_windows_estimate_offset position counts step pixels speed part = (off, part')"
    and "uint pixels \<le> 32768" and "moved = pixels_moved counts (mult32 step) part"
    and "\<bar>unit_of (pixel_of position pixels + moved) pixels - position\<bar> < 2147483648"
  shows "(if dh_windows_pointer_speed_is_set step \<and> pixels \<noteq> 0
     then moved * 32 + part' = counts * mult32 step + part \<and> \<bar>part'\<bar> < 32 \<and>
       pixel_of (position + off) pixels = pixel_of position pixels + moved
     else off = to_i32 (counts * speed) \<and> part' = part)"
proof (cases "dh_windows_pointer_speed_is_set step \<and> pixels \<noteq> 0")
  case True
  then show ?thesis
    using estimate_offset_exact [OF _ _ assms(2) _ assms(4,1)] assms(3) by (simp add: pixels_moved_def)
next
  case False
  with assms(1) show ?thesis by (auto simp: dh_windows_estimate_offset_def)
qed

theorem windows_estimate_exact_witness:
  "dh_windows_estimate_offset 100 (- 3) 7 1920 16 5 = (- 31, - 23) \<and>
   pixel_of (100 + - 31) 1920 = pixel_of 100 1920 + - 1"
proof -
  have s: "dh_windows_pointer_speed_is_set 7" "uint (1920 :: u16) \<le> 32768" "mult32 7 = 20"
    "- 1 = pixels_moved (- 3) (mult32 7) 5"
    "\<bar>unit_of (pixel_of 100 1920 + - 1) 1920 - 100\<bar> < 2147483648"
    by code_simp+
  have e: "dh_windows_estimate_offset 100 (- 3) 7 1920 16 5 = (- 31, - 23)" by code_simp
  with windows_estimate_exact [OF e s(2,4,5)] s(1) show ?thesis by simp
qed

text \<open>The two count inversions are optimal. For the pixels of any monitor, \<open>dh_windows_counts_for_pixels\<close>
  is the least number of counts that moves the cursor at least that far from no part-pixel; and
  \<open>dh_windows_counts_nearest\<close> misses the wanted pixels by no more than any other number of counts does,
  whatever part-pixel is kept.\<close>

theorem windows_counts_optimal:
  assumes "dh_windows_pointer_speed_is_set step" and "\<bar>part\<bar> < 32"
    and "0 < pixels" and "pixels \<le> 131072" and "\<bar>wanted\<bar> \<le> 65535"
  shows "(\<forall>c. pixels \<le> pixels_moved c (mult32 step) 0 \<longleftrightarrow> dh_windows_counts_for_pixels pixels step \<le> c) \<and>
    (\<forall>c. \<bar>pixels_moved (dh_windows_counts_nearest wanted step part) (mult32 step) part - wanted\<bar> \<le>
      \<bar>pixels_moved c (mult32 step) part - wanted\<bar>)"
proof -
  note l = counts_for_pixels_least [OF assms(1,3,4)]
  have "pixels \<le> pixels_moved c (mult32 step) 0" if "dh_windows_counts_for_pixels pixels step \<le> c" for c
    using l(1) pixels_moved_mono [OF _ that, of "mult32 step" 0] mult32_pos [OF assms(1)] by simp
  moreover have "dh_windows_counts_for_pixels pixels step \<le> c" if "pixels \<le> pixels_moved c (mult32 step) 0" for c
    using l(2) [of c] that by linarith
  ultimately show ?thesis
    using counts_nearest_optimal [OF assms(1,5,2)] by blast
qed

theorem windows_counts_optimal_witness:
  "dh_windows_counts_for_pixels 2 3 = 16 \<and> (2 \<le> pixels_moved 16 (mult32 3) 0 \<longleftrightarrow> (16 :: int) \<le> 16)"
proof -
  have s: "dh_windows_pointer_speed_is_set 3" "dh_windows_counts_for_pixels 2 3 = 16" by code_simp+
  have "\<bar>0 :: int\<bar> < 32" "0 < (2 :: int)" "(2 :: int) \<le> 131072" "\<bar>0 :: int\<bar> \<le> 65535" by simp_all
  from windows_counts_optimal [OF s(1) this] s(2) show ?thesis by simp
qed

text \<open>Where a placement puts the cursor. On displays with \<open>int32_t\<close> geometry, a target is found only by
  walking from the primary display over \<open>chain_index - 1\<close> steps, each to the nearest display whose centre
  lies in the chain direction; the point is inside the display reached, on the border the message names,
  at the entry position scaled to that border. A placement survives its encoding.\<close>

theorem place_target_exact:
  assumes "list_all rect_ok displays" and "dh_place_target place displays primary = Some pt"
    and "dh_place_encode place cap = Some body"
  shows "(\<exists>path. display_path displays (direction_of (pl_chain_direction place)) path \<and>
      length path = unat (pl_chain_index place) \<and> hd path = primary \<and> List.last path = pp_display_index pt) \<and>
    pp_display_index pt < length displays \<and>
    in_rect (displays ! pp_display_index pt) (pp_x pt) (pp_y pt) \<and>
    border_point (displays ! pp_display_index pt) (direction_of (pl_border_direction place))
      (pl_entry_position place) (pp_x pt) (pp_y pt) \<and>
    dh_place_decode body = Some place"
  using place_target_point [OF assms(1,2)] place_decode_encode [OF assms(3)] by blast

theorem place_target_exact_witness:
  "in_rect \<lparr>dr_x = 1920, dr_y = 0, dr_width = 2560, dr_height = 1440\<rparr> 1920 720"
proof -
  define ds where "ds = [\<lparr>dr_x = 0, dr_y = 0, dr_width = 1920, dr_height = 1080\<rparr>,
    \<lparr>dr_x = 1920, dr_y = 0, dr_width = 2560, dr_height = 1440\<rparr>]"
  define pl where "pl = \<lparr>pl_chain_index = 2, pl_chain_direction = 2, pl_border_direction = 1, pl_entry_position = 32768\<rparr>"
  have 1: "list_all rect_ok ds" by (simp add: ds_def rect_ok_def is_i32_def)
  have 2: "dh_place_target pl ds 0 = Some \<lparr>pp_x = 1920, pp_y = 720, pp_display_index = 1\<rparr>"
    unfolding ds_def pl_def by code_simp
  have 3: "dh_place_encode pl 5 = Some [2, 2, 1, 0, 128]" unfolding pl_def by code_simp
  show ?thesis using place_target_exact [OF 1 2 3] by (simp add: ds_def)
qed

end
