(* ===== verification/DH_Lifecycle.thy ===== *)
theory DH_Lifecycle
  imports DH_Session DH_Relay DH_Inq DH_Crc32 DH_Pointer
begin

text \<open>
  The lifecycle of the board's helper channel (\<open>src/src/include/channel_lifecycle.h\<close>,
  \<open>src/src/channel_lifecycle.c\<close>): the session, the pairing state, the outbound queues, the frame readers, the
  report ring, the relay and the inbound ring in one record, and the operations the firmware calls on it.
  What an operation asks of the platform is an \<open>effect\<close> in the order asked; the answers the platform gives
  (a relay packet taken or refused, a query answer sent or not) are arguments. Calls between
  \<open>channel_lifecycle_lock\<close> and \<open>channel_lifecycle_unlock\<close> are atomic; where the source releases the lock and
  later takes it again to write a field the other core writes too, what that core did meanwhile is the
  argument \<open>between\<close>.
\<close>

section \<open>Model\<close>

abbreviation (input) CHANNEL_REPORT_BACKLOG :: nat where "CHANNEL_REPORT_BACKLOG \<equiv> 32"
abbreviation (input) CHANNEL_REPORT_SIZE :: nat where "CHANNEL_REPORT_SIZE \<equiv> 64"
abbreviation (input) CHANNEL_PEER_BOARD_UNTOLD :: byte where "CHANNEL_PEER_BOARD_UNTOLD \<equiv> 0xFF"
abbreviation (input) CHANNEL_PEER_BOARD_SILENT_MS :: int where "CHANNEL_PEER_BOARD_SILENT_MS \<equiv> 3000"
abbreviation (input) CHANNEL_PLACE_STALE_MS :: int where "CHANNEL_PLACE_STALE_MS \<equiv> 30"
abbreviation (input) DH_SESSION_END_PROTOCOL_ERROR :: byte where "DH_SESSION_END_PROTOCOL_ERROR \<equiv> 2"
abbreviation (input) DH_SESSION_END_UNPAIRED :: byte where "DH_SESSION_END_UNPAIRED \<equiv> 3"

datatype channel_query_origin = CURSOR_QUERY_NONE | CURSOR_QUERY_LOCAL | CURSOR_QUERY_PEER

text \<open>The \<open>tagged\<close> buffer is scratch space of \<open>pump_inbound\<close> and has no field.\<close>

record channel_lifecycle =
  cl_session :: dh_session
  cl_pair :: dh_pair
  cl_out :: dh_outq
  cl_extra_out :: "dh_outq list"
  cl_next_striped :: byte
  cl_tx :: dh_txq_stats
  cl_reader :: dh_frame_reader
  cl_extra_reader :: "dh_frame_reader list"
  cl_reports :: "byte list list"
  cl_report_len :: "u16 list"
  cl_report_channel :: "byte list"
  cl_report_head :: byte
  cl_report_used :: byte
  cl_reports_dropped :: u32
  cl_reports_in :: u32
  cl_relay_tx :: dh_relay_tx
  cl_relay_rx :: dh_relay_rx
  cl_inbound :: dh_inq
  cl_registration_unsaved :: bool
  cl_cursor_query_origin :: channel_query_origin
  cl_cursor_query_id :: byte
  cl_arrival_owed :: bool
  cl_place_owed :: u32
  cl_place_sent :: u32
  cl_place_owed_at :: u32
  cl_place_body :: "byte list"
  cl_place_query_id :: byte
  cl_peer_board_beat :: bool
  cl_peer_board_beat_session :: bool
  cl_peer_board_session :: bool
  cl_peer_board_beat_at :: u32
  cl_peer_board_told :: byte

datatype channel_effect =
  EffPosition "byte list"
| EffHostSleep bool
| EffSaveRegistration "byte list" "byte list"
| EffQueryUnavailable byte
| EffRelay dh_relay_packet

definition channel_lifecycle_output :: "channel_lifecycle \<Rightarrow> byte \<Rightarrow> dh_outq" where
  "channel_lifecycle_output c index = (if index = 0 then cl_out c else cl_extra_out c ! (unat index - 1))"

definition set_output :: "channel_lifecycle \<Rightarrow> byte \<Rightarrow> dh_outq \<Rightarrow> channel_lifecycle" where
  "set_output c index q =
     (if index = 0 then c\<lparr>cl_out := q\<rparr> else c\<lparr>cl_extra_out := (cl_extra_out c)[unat index - 1 := q]\<rparr>)"

definition channel_reader :: "channel_lifecycle \<Rightarrow> byte \<Rightarrow> dh_frame_reader" where
  "channel_reader c index = (if index = 0 then cl_reader c else cl_extra_reader c ! (unat index - 1))"

definition set_reader :: "channel_lifecycle \<Rightarrow> byte \<Rightarrow> dh_frame_reader \<Rightarrow> channel_lifecycle" where
  "set_reader c index r =
     (if index = 0 then c\<lparr>cl_reader := r\<rparr> else c\<lparr>cl_extra_reader := (cl_extra_reader c)[unat index - 1 := r]\<rparr>)"

definition reset_readers :: "channel_lifecycle \<Rightarrow> channel_lifecycle" where
  "reset_readers c =
     c\<lparr>cl_reader := dh_frame_reader_init (cl_reader c),
       cl_extra_reader := map dh_frame_reader_init (cl_extra_reader c)\<rparr>"

definition reset_output :: "channel_lifecycle \<Rightarrow> channel_lifecycle" where
  "reset_output c =
     c\<lparr>cl_out := dh_outq_reset (cl_out c), cl_extra_out := map dh_outq_reset (cl_extra_out c), cl_next_striped := 0\<rparr>"

definition channel_lifecycle_queue ::
  "channel_lifecycle \<Rightarrow> byte list \<Rightarrow> u32 \<Rightarrow> channel_lifecycle \<times> bool" where
  "channel_lifecycle_queue c frame now =
     (let striped = (frame \<noteq> [] \<and> dh_msg_is_striped (frame ! 0));
          count = (if se_channel_count (cl_session c) \<noteq> 0 then se_channel_count (cl_session c) else 1);
          index = (if striped then cl_next_striped c mod count else 0);
          (q, rc) = dh_outq_offer (channel_lifecycle_output c index) frame;
          queued = (rc = DH_OUTQ_OK);
          c = set_output c index q;
          c = (if queued \<and> striped
               then c\<lparr>cl_next_striped := of_nat ((unat index + 1) mod unat count)\<rparr> else c);
          c = (if queued then c\<lparr>cl_session := dh_session_note_sent (cl_session c) now\<rparr> else c);
          (tx, answer) = dh_txq_track (cl_tx c) queued in
      (c\<lparr>cl_tx := tx\<rparr>, answer))"

text \<open>\<open>channel_lifecycle_on_frame\<close>: a session-band frame, its answer, and the fresh stream behind a hello
  ack.\<close>

definition fresh_stream :: "channel_lifecycle \<Rightarrow> channel_lifecycle" where
  "fresh_stream c =
     (let c = reset_output c;
          c = c\<lparr>cl_place_sent := cl_place_owed c\<rparr>;
          c = reset_readers c in
      c\<lparr>cl_report_used := 0, cl_peer_board_told := CHANNEL_PEER_BOARD_UNTOLD\<rparr>)"

definition channel_lifecycle_on_frame ::
  "uecc \<Rightarrow> channel_lifecycle \<Rightarrow> dh_frame_view \<Rightarrow> u32 \<Rightarrow> channel_lifecycle" where
  "channel_lifecycle_on_frame E c frame now =
     (let registrations = pr_registrations (cl_pair c);
          (s, p, rc) = dh_session_on_frame E (cl_session c) (cl_pair c) frame now DH_SESSION_REPLY_MAX;
          c = c\<lparr>cl_session := s, cl_pair := p\<rparr>;
          c = (if pr_registrations p \<noteq> registrations then c\<lparr>cl_registration_unsaved := True\<rparr> else c) in
      case rc of
        Inr (Some reply) \<Rightarrow>
          let c = (if reply ! 0 = DH_MSG_HELLO_ACK then fresh_stream c else c) in
          fst (channel_lifecycle_queue c reply now)
      | _ \<Rightarrow> c)"

definition channel_lifecycle_link_lost :: "channel_lifecycle \<Rightarrow> channel_lifecycle" where
  "channel_lifecycle_link_lost c =
     (let c = c\<lparr>cl_session := dh_session_drop (cl_session c)\<rparr>;
          c = reset_readers c;
          c = c\<lparr>cl_relay_tx := dh_relay_tx_reset (cl_relay_tx c), cl_relay_rx := dh_relay_rx_reset (cl_relay_rx c),
                cl_report_head := 0, cl_report_used := 0, cl_inbound := dh_inq_reset (cl_inbound c)\<rparr>;
          c = c\<lparr>cl_cursor_query_origin := CURSOR_QUERY_NONE, cl_cursor_query_id := 0, cl_place_sent := cl_place_owed c\<rparr> in
      reset_output c)"

definition end_session :: "channel_lifecycle \<Rightarrow> byte \<Rightarrow> u32 \<Rightarrow> channel_lifecycle" where
  "end_session c reason now =
     (let (s, rc) = dh_session_end (cl_session c) reason 0 DH_SESSION_REPLY_MAX;
          c = c\<lparr>cl_session := s\<rparr> in
      case rc of Inr (Some frame) \<Rightarrow> fst (channel_lifecycle_queue c frame now) | _ \<Rightarrow> c)"

definition channel_lifecycle_receive_channel_report ::
  "channel_lifecycle \<Rightarrow> byte \<Rightarrow> byte list \<Rightarrow> channel_lifecycle" where
  "channel_lifecycle_receive_channel_report c index buffer =
     (if length buffer = 0 \<or> index \<ge> DH_SESSION_CHANNEL_COUNT then c
      else
        let c = c\<lparr>cl_reports_in := sat_inc (cl_reports_in c)\<rparr> in
        if unat (cl_report_used c) \<ge> CHANNEL_REPORT_BACKLOG
        then c\<lparr>cl_reports_dropped := cl_reports_dropped c + 1\<rparr>
        else
          let slot = (unat (cl_report_head c) + unat (cl_report_used c)) mod CHANNEL_REPORT_BACKLOG;
              n = (if length buffer < CHANNEL_REPORT_SIZE then length buffer else CHANNEL_REPORT_SIZE) in
          c\<lparr>cl_reports := (cl_reports c)[slot := blit (cl_reports c ! slot) 0 (take n buffer)],
            cl_report_len := (cl_report_len c)[slot := of_nat n],
            cl_report_channel := (cl_report_channel c)[slot := index],
            cl_report_used := cl_report_used c + 1\<rparr>)"

definition channel_lifecycle_receive_report :: "channel_lifecycle \<Rightarrow> byte list \<Rightarrow> channel_lifecycle" where
  "channel_lifecycle_receive_report c buffer = channel_lifecycle_receive_channel_report c 0 buffer"

text \<open>The frame that crosses to the peer board: the header rewritten over the last four bytes of the
  verified tag, in the buffer of the reader the frame was decoded in.\<close>

definition relay_header :: "dh_frame_view \<Rightarrow> byte list \<Rightarrow> byte list" where
  "relay_header frame body =
     [fh_type (fv_hdr frame), fh_flags (fv_hdr frame)] @ le16 (of_nat (length body))"

definition relay_to_peer ::
  "channel_lifecycle \<Rightarrow> byte \<Rightarrow> dh_frame_view \<Rightarrow> byte list \<Rightarrow> channel_lifecycle" where
  "relay_to_peer c index frame body =
     (let r = channel_reader c index;
          at = DH_FRAME_HEADER_SIZE + DH_FRAME_AUTH_PREFIX_SIZE - DH_FRAME_HEADER_SIZE;
          r = r\<lparr>rd_buf := blit (rd_buf r) at (relay_header frame body)\<rparr>;
          c = set_reader c index r;
          (t, rc) = dh_relay_tx_offer (cl_relay_tx c) (relay_header frame body @ body);
          (tx, _) = dh_txq_track (cl_tx c) (rc = DH_RELAY_OK) in
      c\<lparr>cl_relay_tx := t, cl_tx := tx\<rparr>)"

definition on_frame ::
  "uecc \<Rightarrow> channel_lifecycle \<Rightarrow> byte \<Rightarrow> dh_frame_view \<Rightarrow> u32 \<Rightarrow> channel_lifecycle \<times> channel_effect list" where
  "on_frame E c index frame now =
     (let t = fh_type (fv_hdr frame) in
      if dh_msg_is_bulk t \<or> t = DH_MSG_HOST_SLEEP \<or> t \<ge> DH_MSG_PLACE \<and> t \<le> DH_MSG_POS_RESPONSE then
        let (s, rc) = dh_session_authenticate (cl_session c) frame now; c = c\<lparr>cl_session := s\<rparr> in
        case rc of
          Inl _ \<Rightarrow> (c, [])
        | Inr body \<Rightarrow>
            if dh_msg_is_bulk t then (relay_to_peer c index frame body, [])
            else if t = DH_MSG_POS_RESPONSE then (c, [EffPosition body])
            else if t = DH_MSG_HOST_SLEEP \<and> length body = 1 then (c, [EffHostSleep (body ! 0 \<noteq> 0)])
            else (c, [])
      else (channel_lifecycle_on_frame E c frame now, []))"

text \<open>One turn of \<open>drain_reports\<close>: the oldest report leaves the ring and is read. The third component says
  whether the loop goes on; a protocol error returns out of it.\<close>

definition report_take :: "channel_lifecycle \<Rightarrow> channel_lifecycle" where
  "report_take c =
     c\<lparr>cl_report_head := of_nat ((unat (cl_report_head c) + 1) mod CHANNEL_REPORT_BACKLOG),
       cl_report_used := cl_report_used c - 1\<rparr>"

definition report_bytes :: "channel_lifecycle \<Rightarrow> nat \<Rightarrow> byte list" where
  "report_bytes c slot = take (unat (cl_report_len c ! slot)) (cl_reports c ! slot)"

definition drain_one ::
  "uecc \<Rightarrow> channel_lifecycle \<Rightarrow> u32 \<Rightarrow> channel_lifecycle \<times> channel_effect list \<times> bool" where
  "drain_one E c now =
     (let slot = unat (cl_report_head c);
          buffer = report_bytes c slot;
          index = cl_report_channel c ! slot;
          c = report_take c;
          (r, rc) = dh_frame_reader_report (channel_reader c index) buffer;
          c = set_reader c index r in
      case rc of
        Inr frame \<Rightarrow>
          if index = 0 \<or> index < se_channel_count (cl_session c) \<and> dh_msg_is_bulk (fh_type (fv_hdr frame))
          then let (c, effs) = on_frame E c index frame now in (c, effs, True)
          else (c, [], True)
      | Inl DH_FRAME_AGAIN \<Rightarrow> (c, [], True)
      | Inl _ \<Rightarrow> (reset_readers (end_session c DH_SESSION_END_PROTOCOL_ERROR now), [], False))"

text \<open>What an operation may do to the report ring while it is drained: empty it, never refill it.\<close>

definition ring_kept :: "channel_lifecycle \<Rightarrow> channel_lifecycle \<Rightarrow> bool" where
  "ring_kept c c' =
     (cl_report_head c' = cl_report_head c \<and> cl_reports c' = cl_reports c \<and> cl_report_len c' = cl_report_len c \<and>
      cl_report_channel c' = cl_report_channel c \<and> (cl_report_used c' = cl_report_used c \<or> cl_report_used c' = 0))"

lemma ring_kept_refl [simp]: "ring_kept c c"
  by (simp add: ring_kept_def)

lemma ring_kept_trans: "ring_kept a b \<Longrightarrow> ring_kept b c \<Longrightarrow> ring_kept a c"
  by (auto simp: ring_kept_def)

lemma ring_kept_queue: "ring_kept c (fst (channel_lifecycle_queue c f now))"
  unfolding channel_lifecycle_queue_def Let_def split_def by (simp add: ring_kept_def set_output_def)

lemma ring_kept_fresh: "ring_kept c (fresh_stream c)"
  by (simp add: fresh_stream_def reset_output_def reset_readers_def Let_def ring_kept_def)

lemma ring_kept_session_frame: "ring_kept c (channel_lifecycle_on_frame E c f now)"
proof -
  have "ring_kept c (fst (channel_lifecycle_queue c' f now))" if "ring_kept c c'" for c' f
    using ring_kept_trans [OF that ring_kept_queue] .
  moreover have "ring_kept c (fresh_stream c')" if "ring_kept c c'" for c'
    using ring_kept_trans [OF that ring_kept_fresh] .
  moreover have "ring_kept c (c\<lparr>cl_session := s, cl_pair := p\<rparr>)"
    "ring_kept c (c\<lparr>cl_session := s, cl_pair := p, cl_registration_unsaved := u\<rparr>)" for s p u
    by (simp_all add: ring_kept_def)
  ultimately show ?thesis
    by (auto simp: channel_lifecycle_on_frame_def Let_def split: prod.splits sum.splits option.splits)
qed

lemma ring_kept_relay: "ring_kept c (relay_to_peer c i f b)"
  by (simp add: relay_to_peer_def Let_def ring_kept_def set_reader_def split: prod.splits)

lemma ring_kept_on_frame: "ring_kept c (fst (on_frame E c i f now))"
proof -
  have s: "ring_kept c (c\<lparr>cl_session := s\<rparr>)" for s by (simp add: ring_kept_def)
  then show ?thesis
    using ring_kept_session_frame ring_kept_trans [OF s ring_kept_relay]
    by (auto simp: on_frame_def Let_def split: prod.splits sum.splits)
qed

lemma ring_kept_end: "ring_kept c (end_session c r now)"
proof -
  have s: "ring_kept c (c\<lparr>cl_session := s\<rparr>)" for s by (simp add: ring_kept_def)
  then show ?thesis
    using ring_kept_trans [OF s ring_kept_queue]
    by (auto simp: end_session_def Let_def split: prod.splits sum.splits option.splits)
qed

lemma ring_kept_reset: "ring_kept c (reset_readers c)"
  by (simp add: ring_kept_def reset_readers_def)

lemma ring_kept_reader: "ring_kept c (set_reader c i r)"
  by (simp add: ring_kept_def set_reader_def)

lemma drain_one_ring: "ring_kept (report_take c) (fst (drain_one E c now))"
proof -
  have "ring_kept (report_take c) (fst (on_frame E (set_reader (report_take c) i r) i' f now))" for i r i' f
    by (rule ring_kept_trans [OF ring_kept_reader ring_kept_on_frame])
  moreover have "ring_kept (report_take c) (reset_readers (end_session (set_reader (report_take c) i r) z now))" for i r z
    by (rule ring_kept_trans [OF ring_kept_reader ring_kept_trans [OF ring_kept_end ring_kept_reset]])
  moreover have "ring_kept (report_take c) (set_reader (report_take c) i r)" for i r by (rule ring_kept_reader)
  ultimately show ?thesis
    by (auto simp: drain_one_def Let_def split_def split: sum.splits dh_frame_err.splits)
qed

lemma drain_one_used:
  assumes "cl_report_used c > 0"
  shows "unat (cl_report_used (fst (drain_one E c now))) < unat (cl_report_used c)"
proof -
  have "unat (cl_report_used c - 1) < unat (cl_report_used c)" "0 < unat (cl_report_used c)"
    using assms by (auto simp: unat_minus_one word_gt_0 unat_gt_0)
  with drain_one_ring [of c E now] show ?thesis by (auto simp: ring_kept_def report_take_def)
qed

function drain_reports ::
  "uecc \<Rightarrow> channel_lifecycle \<Rightarrow> u32 \<Rightarrow> channel_lifecycle \<times> channel_effect list" where
  "drain_reports E c now =
     (if cl_report_used c > 0 then
        (case drain_one E c now of
           (c', effs, go) \<Rightarrow>
             if go then (case drain_reports E c' now of (c'', effs') \<Rightarrow> (c'', effs @ effs')) else (c', effs))
      else (c, []))"
  by pat_completeness auto
termination
  by (relation "measure (\<lambda>(E, c, now). unat (cl_report_used c))"; simp; metis drain_one_used fst_conv)

declare drain_reports.simps [simp del]

text \<open>\<open>pump_relay\<close>. \<open>taken\<close> lists the answers of \<open>channel_lifecycle_send_relay\<close>, one per call; past its end the
  answer is a refusal. The burst cap bounds the calls of a pass with bulk traffic.\<close>

fun pump_relay_loop :: "bool list \<Rightarrow> channel_lifecycle \<Rightarrow> channel_lifecycle \<times> channel_effect list" where
  "pump_relay_loop taken c =
     (case dh_relay_tx_peek (cl_relay_tx c) of
        None \<Rightarrow> (c, [])
      | Some packet \<Rightarrow>
          (case taken of
             True # rest \<Rightarrow>
               let (c', effs) = pump_relay_loop rest (c\<lparr>cl_relay_tx := dh_relay_tx_commit (cl_relay_tx c)\<rparr>) in
               (c', EffRelay packet # effs)
           | _ \<Rightarrow> (c, [])))"

declare pump_relay_loop.simps [simp del]

definition pump_relay :: "bool list \<Rightarrow> channel_lifecycle \<Rightarrow> channel_lifecycle \<times> channel_effect list" where
  "pump_relay taken c = pump_relay_loop taken (c\<lparr>cl_relay_tx := dh_relay_tx_yield (cl_relay_tx c)\<rparr>)"

definition channel_lifecycle_open_pairing_window :: "channel_lifecycle \<Rightarrow> u32 \<Rightarrow> channel_lifecycle" where
  "channel_lifecycle_open_pairing_window c now = c\<lparr>cl_pair := dh_pair_open_window (cl_pair c) now\<rparr>"

definition channel_lifecycle_config_wiped :: "channel_lifecycle \<Rightarrow> u32 \<Rightarrow> channel_lifecycle" where
  "channel_lifecycle_config_wiped c now =
     (let c = end_session c DH_SESSION_END_UNPAIRED now;
          c = c\<lparr>cl_pair := dh_pair_clear_registration (cl_pair c), cl_registration_unsaved := False\<rparr> in
      channel_lifecycle_open_pairing_window c now)"

definition emit_cap :: nat where
  "emit_cap = DH_FRAME_HEADER_SIZE + DH_FRAME_AUTH_PREFIX_SIZE + DH_PLACE_BODY_SIZE"

definition channel_lifecycle_emit_placement ::
  "channel_lifecycle \<Rightarrow> byte \<Rightarrow> byte list \<Rightarrow> u32 \<Rightarrow> channel_lifecycle \<times> bool" where
  "channel_lifecycle_emit_placement c t body now =
     (if length body > DH_PLACE_BODY_SIZE then (c, False)
      else
        let (s, rc) = dh_session_emit_relayed (cl_session c) (frame_of t 0 body) emit_cap;
            c = c\<lparr>cl_session := s\<rparr> in
        case rc of Inr (Some frame) \<Rightarrow> channel_lifecycle_queue c frame now | _ \<Rightarrow> (c, False))"

definition channel_lifecycle_owe_place ::
  "channel_lifecycle \<Rightarrow> byte list \<Rightarrow> byte \<Rightarrow> u32 \<Rightarrow> channel_lifecycle \<times> bool" where
  "channel_lifecycle_owe_place c body query_id now =
     (let owed = se_present (cl_session c) in
      (if owed
       then c\<lparr>cl_place_body := take DH_PLACE_BODY_SIZE body, cl_place_query_id := query_id, cl_place_owed_at := now,
              cl_place_owed := cl_place_owed c + 1\<rparr>
       else c, owed))"

text \<open>\<open>pump_place\<close>: the first locked section, then the two frames, then the second locked section, with what
  the other core does to the record between the two.\<close>

definition place_due :: "channel_lifecycle \<Rightarrow> u32 \<Rightarrow> channel_lifecycle \<times> bool" where
  "place_due c now =
     (let owed = cl_place_owed c;
          c = (if owed \<noteq> cl_place_sent c \<and> sint (now - cl_place_owed_at c) > CHANNEL_PLACE_STALE_MS
               then c\<lparr>cl_place_sent := owed\<rparr> else c) in
      (c, owed \<noteq> cl_place_sent c \<and> \<not> dh_outq_pair_busy (cl_out c)))"

definition place_frames ::
  "dh_session \<Rightarrow> byte list \<Rightarrow> byte \<Rightarrow> dh_session \<times> (byte list \<times> byte list) option" where
  "place_frames s body query_id =
     (let (s, rc) = dh_session_emit_relayed s (frame_of DH_MSG_PLACE 0 body) emit_cap in
      case rc of
        Inr (Some place_frame) \<Rightarrow>
          let (s, rc) = dh_session_emit_relayed s (frame_of DH_MSG_POS_QUERY 0 [query_id])
                (DH_FRAME_HEADER_SIZE + DH_FRAME_AUTH_PREFIX_SIZE + DH_POS_QUERY_BODY_SIZE) in
          (case rc of Inr (Some query_frame) \<Rightarrow> (s, Some (place_frame, query_frame)) | _ \<Rightarrow> (s, None))
      | _ \<Rightarrow> (s, None))"

definition pump_place ::
  "(channel_lifecycle \<Rightarrow> channel_lifecycle) \<Rightarrow> channel_lifecycle \<Rightarrow> u32 \<Rightarrow> channel_lifecycle" where
  "pump_place between c now =
     (let owed = cl_place_owed c; body = cl_place_body c; query_id = cl_place_query_id c;
          (c, due) = place_due c now in
      if \<not> due then c
      else if \<not> se_present (cl_session c) then (between c)\<lparr>cl_place_sent := owed\<rparr>
      else
        let (s, frames) = place_frames (cl_session c) body query_id; c = c\<lparr>cl_session := s\<rparr> in
        case frames of
          None \<Rightarrow> c
        | Some (place_frame, query_frame) \<Rightarrow>
            let c = between c;
                (q, rc) = dh_outq_offer_pair (cl_out c) place_frame query_frame;
                queued = (rc = DH_OUTQ_OK);
                c = c\<lparr>cl_out := q\<rparr>;
                c = (if queued
                     then c\<lparr>cl_session := dh_session_note_sent (cl_session c) now, cl_place_sent := owed\<rparr> else c);
                (tx, _) = dh_txq_track (cl_tx c) queued in
            c\<lparr>cl_tx := tx\<rparr>)"

definition channel_lifecycle_arrive :: "channel_lifecycle \<Rightarrow> byte \<Rightarrow> byte \<Rightarrow> channel_lifecycle" where
  "channel_lifecycle_arrive c role new_output =
     c\<lparr>cl_arrival_owed := (new_output = role \<and> se_present (cl_session c))\<rparr>"

definition channel_lifecycle_peer_board_heartbeat :: "channel_lifecycle \<Rightarrow> bool \<Rightarrow> channel_lifecycle" where
  "channel_lifecycle_peer_board_heartbeat c helper_session =
     c\<lparr>cl_peer_board_beat := True, cl_peer_board_beat_session := helper_session\<rparr>"

text \<open>\<open>pump_owed\<close> on its one flag, the owed arrival.\<close>

definition pump_owed ::
  "(channel_lifecycle \<Rightarrow> channel_lifecycle) \<Rightarrow> channel_lifecycle \<Rightarrow> byte \<Rightarrow> u32 \<Rightarrow> channel_lifecycle" where
  "pump_owed between c t now =
     (let owed = (cl_arrival_owed c \<and> \<not> dh_outq_priority_full (cl_out c)) in
      if \<not> owed then c
      else
        let (c, done) = (if \<not> se_present (cl_session c) then (c, True)
                         else channel_lifecycle_emit_placement c t [] now) in
        if done then (between c)\<lparr>cl_arrival_owed := False\<rparr> else c)"

text \<open>\<open>pump_inbound\<close>: one frame handed over by the peer board, tagged for this board's helper.\<close>

definition tag_inbound :: "channel_lifecycle \<Rightarrow> byte list \<Rightarrow> channel_lifecycle \<times> byte list option" where
  "tag_inbound c bytes =
     (case dh_frame_decode bytes of
        Inl _ \<Rightarrow> (c, None)
      | Inr (frame, _) \<Rightarrow>
          let (s, rc) = dh_session_emit_relayed (cl_session c) frame DH_FRAME_MAX_SIZE in
          (c\<lparr>cl_session := s\<rparr>, case rc of Inr (Some out) \<Rightarrow> Some out | _ \<Rightarrow> None))"

lemma inq_release_pending:
  assumes "dh_inq_peek q = Some f"
  shows "unat (dh_inq_pending (dh_inq_release q)) < unat (dh_inq_pending q)"
proof -
  have nz: "dh_inq_pending q \<noteq> 0" using assms by (auto simp: dh_inq_peek_def)
  then have "dh_inq_pending (dh_inq_release q) = dh_inq_pending q - 1"
    by (simp add: dh_inq_release_def dh_inq_pending_def)
  with nz show ?thesis by (simp add: unat_minus_one unat_gt_0)
qed

lemma tag_inbound_ring [simp]: "cl_inbound (fst (tag_inbound c b)) = cl_inbound c"
  by (simp add: tag_inbound_def Let_def split: sum.splits prod.splits)

lemma queue_inbound [simp]: "cl_inbound (fst (channel_lifecycle_queue c f now)) = cl_inbound c"
  unfolding channel_lifecycle_queue_def Let_def split_def by (simp add: set_output_def)

text \<open>One turn of its loop, with whether it goes on.\<close>

definition pump_inbound_one :: "channel_lifecycle \<Rightarrow> byte list \<Rightarrow> u32 \<Rightarrow> channel_lifecycle \<times> bool" where
  "pump_inbound_one c bytes now =
     (let (c, out) = tag_inbound c bytes;
          c = c\<lparr>cl_inbound := dh_inq_release (cl_inbound c)\<rparr> in
      case out of None \<Rightarrow> (c, True) | Some frame \<Rightarrow> channel_lifecycle_queue c frame now)"

lemma pump_inbound_one_ring: "cl_inbound (fst (pump_inbound_one c b now)) = dh_inq_release (cl_inbound c)"
  using tag_inbound_ring [of c b]
  by (simp add: pump_inbound_one_def Let_def split_def split: option.splits)

function pump_inbound :: "channel_lifecycle \<Rightarrow> u32 \<Rightarrow> channel_lifecycle" where
  "pump_inbound c now =
     (case dh_inq_peek (cl_inbound c) of
        None \<Rightarrow> c
      | Some bytes \<Rightarrow>
          (case pump_inbound_one c bytes now of (c', go) \<Rightarrow> if go then pump_inbound c' now else c'))"
  by pat_completeness auto
termination
  by (relation "measure (\<lambda>(c, now). unat (dh_inq_pending (cl_inbound c)))"; simp;
      metis inq_release_pending pump_inbound_one_ring fst_conv)

declare pump_inbound.simps [simp del]

definition pump_peer_board_session :: "channel_lifecycle \<Rightarrow> u32 \<Rightarrow> channel_lifecycle" where
  "pump_peer_board_session c now =
     (let c = (if cl_peer_board_beat c
               then c\<lparr>cl_peer_board_beat := False, cl_peer_board_session := cl_peer_board_beat_session c,
                      cl_peer_board_beat_at := now\<rparr>
               else c);
          lane_full = dh_outq_priority_full (cl_out c);
          live = (cl_peer_board_session c \<and>
                  sint (now - cl_peer_board_beat_at c) < CHANNEL_PEER_BOARD_SILENT_MS);
          c = (if \<not> live then c\<lparr>cl_peer_board_session := False\<rparr> else c) in
      if \<not> se_present (cl_session c) \<or> lane_full \<or> cl_peer_board_told c = (if live then 1 else 0) then c
      else
        let (c, sent) = channel_lifecycle_emit_placement c DH_MSG_PEER_HELPER [if live then 1 else 0] now in
        if sent then c\<lparr>cl_peer_board_told := (if live then 1 else 0)\<rparr> else c)"

text \<open>\<open>unavailable_sent\<close> is the answer of \<open>channel_lifecycle_query_unavailable\<close>.\<close>

definition pump_query ::
  "(channel_lifecycle \<Rightarrow> channel_lifecycle) \<Rightarrow> bool \<Rightarrow> channel_lifecycle \<Rightarrow> u32 \<Rightarrow> channel_lifecycle \<times> channel_effect list" where
  "pump_query between unavailable_sent c now =
     (let query_origin = cl_cursor_query_origin c; query_id = cl_cursor_query_id c in
      if query_origin = CURSOR_QUERY_NONE then (c, [])
      else
        let (c, query_finished, effs) =
          (if \<not> se_present (cl_session c) then
             (if query_origin = CURSOR_QUERY_PEER then (c, unavailable_sent, [EffQueryUnavailable query_id])
              else (c, True, []))
           else
             let (c, sent) = channel_lifecycle_emit_placement c DH_MSG_POS_QUERY [query_id] now in (c, sent, []));
            c = (if query_finished then between c else c) in
        (if query_finished \<and> cl_cursor_query_origin c = query_origin \<and> cl_cursor_query_id c = query_id
         then c\<lparr>cl_cursor_query_origin := CURSOR_QUERY_NONE\<rparr> else c, effs))"

text \<open>The configuration values \<open>channel_lifecycle_update_config\<close> reads (\<open>src/src/channel.c\<close>).\<close>

record channel_config =
  cc_board_role :: byte
  cc_clip_block_a_to_b :: bool
  cc_clip_block_b_to_a :: bool
  cc_clip_cap_mb :: byte

definition sum_sat :: "u32 list \<Rightarrow> u32" where
  "sum_sat xs = (let total = sum_list (map (\<lambda>x. ucast x :: u64) xs) in
     if total > 0xFFFFFFFF then 0xFFFFFFFF else ucast total)"

definition channel_drops :: "channel_lifecycle \<Rightarrow> dh_device_drops" where
  "channel_drops c =
     (let qs = cl_out c # cl_extra_out c in
      \<lparr>dd_reports = cl_reports_dropped c, dd_inbound = iq_dropped (cl_inbound c),
       dd_outq = sum_sat (map oq_refused qs), dd_unsent = tq_dropped (cl_tx c),
       dd_orphans = rx_orphans (cl_relay_rx c), dd_truncated = rx_truncated (cl_relay_rx c),
       dd_relay_q = oq_refused (tx_q (cl_relay_tx c)), dd_frames_in = se_frames_in (cl_session c),
       dd_reports_in = cl_reports_in c, dd_frames_refused = se_frames_refused (cl_session c),
       dd_outq_priority = sum_sat (map oq_refused_priority qs),
       dd_outq_bad_header = sum_sat (map oq_refused_bad_header qs)\<rparr>)"

definition channel_lifecycle_update_config :: "channel_config \<Rightarrow> channel_lifecycle \<Rightarrow> channel_lifecycle" where
  "channel_lifecycle_update_config g c =
     (let s = dh_session_set_drops (cl_session c) (channel_drops c);
          s = dh_session_set_clip_policy s
                (dh_clip_policy_for (cc_board_role g) (cc_clip_block_a_to_b g) (cc_clip_block_b_to_a g))
                (cc_clip_cap_mb g) in
      c\<lparr>cl_session := s\<rparr>)"

text \<open>The platform of one pass: the configuration, the answers it gives, and the other core's share.\<close>

record channel_platform =
  pf_config :: channel_config
  pf_unavailable_sent :: bool
  pf_relay_taken :: "bool list"
  pf_place_between :: "channel_lifecycle \<Rightarrow> channel_lifecycle"
  pf_query_between :: "channel_lifecycle \<Rightarrow> channel_lifecycle"
  pf_owed_between :: "channel_lifecycle \<Rightarrow> channel_lifecycle"

definition save_owed :: "channel_lifecycle \<Rightarrow> channel_lifecycle \<times> channel_effect list" where
  "save_owed c =
     (if cl_registration_unsaved c
      then (c\<lparr>cl_registration_unsaved := False\<rparr>,
            [EffSaveRegistration (pr_helper_key_id (cl_pair c)) (pr_shared_secret (cl_pair c))])
      else (c, []))"

definition tick_session :: "channel_lifecycle \<Rightarrow> u32 \<Rightarrow> channel_lifecycle" where
  "tick_session c now =
     (let (s, rc) = dh_session_tick (cl_session c) now DH_SESSION_REPLY_MAX; c = c\<lparr>cl_session := s\<rparr> in
      case rc of
        Inr (Some owed) \<Rightarrow>
          let (c, sent) = channel_lifecycle_queue c owed now in
          if sent then c\<lparr>cl_session := dh_session_note_owed_sent (cl_session c) (owed ! 0)\<rparr> else c
      | _ \<Rightarrow> c)"

definition channel_lifecycle_step ::
  "uecc \<Rightarrow> channel_platform \<Rightarrow> channel_lifecycle \<Rightarrow> u32 \<Rightarrow> channel_lifecycle \<times> channel_effect list" where
  "channel_lifecycle_step E P c now =
     (let (c, e1) = drain_reports E c now;
          c = pump_place (pf_place_between P) c now;
          (c, e2) = pump_query (pf_query_between P) (pf_unavailable_sent P) c now;
          c = pump_owed (pf_owed_between P) c DH_MSG_ARRIVAL now;
          c = pump_peer_board_session c now;
          (c, e3) = save_owed c;
          c = pump_inbound c now;
          c = channel_lifecycle_update_config (pf_config P) c;
          c = tick_session c now;
          c = c\<lparr>cl_pair := dh_pair_tick (cl_pair c) now\<rparr>;
          (c, e4) = pump_relay (pf_relay_taken P) c in
      (c, e1 @ e2 @ e3 @ e4))"

section \<open>Invariant\<close>

definition report_ring_inv :: "channel_lifecycle \<Rightarrow> bool" where
  "report_ring_inv c =
     (length (cl_reports c) = CHANNEL_REPORT_BACKLOG \<and> list_all (\<lambda>r. length r = CHANNEL_REPORT_SIZE) (cl_reports c) \<and>
      length (cl_report_len c) = CHANNEL_REPORT_BACKLOG \<and>
      list_all (\<lambda>n. unat n \<le> CHANNEL_REPORT_SIZE) (cl_report_len c) \<and>
      length (cl_report_channel c) = CHANNEL_REPORT_BACKLOG \<and>
      list_all (\<lambda>i. i < DH_SESSION_CHANNEL_COUNT) (cl_report_channel c) \<and>
      unat (cl_report_head c) < CHANNEL_REPORT_BACKLOG \<and> unat (cl_report_used c) \<le> CHANNEL_REPORT_BACKLOG)"

definition channel_inv :: "channel_lifecycle \<Rightarrow> bool" where
  "channel_inv c =
     (outq_inv (cl_out c) \<and> list_all outq_inv (cl_extra_out c) \<and> length (cl_extra_out c) = 1 \<and>
      reader_inv (cl_reader c) \<and> list_all reader_inv (cl_extra_reader c) \<and> length (cl_extra_reader c) = 1 \<and>
      report_ring_inv c \<and> outq_inv (tx_q (cl_relay_tx c)) \<and> rx_inv (cl_relay_rx c) \<and>
      unat (rx_cap (cl_relay_rx c)) = DH_FRAME_MAX_SIZE \<and> inq_inv (cl_inbound c) \<and>
      se_channel_count (cl_session c) \<le> DH_SESSION_CHANNEL_COUNT \<and> length (cl_place_body c) = DH_PLACE_BODY_SIZE)"

lemma byte_lt_2: "(i :: byte) < 2 \<Longrightarrow> i = 0 \<or> i = 1"
  by unat_arith

lemma output_inv: "channel_inv c \<Longrightarrow> i < 2 \<Longrightarrow> outq_inv (channel_lifecycle_output c i)"
  using byte_lt_2 [of i] by (auto simp: channel_lifecycle_output_def channel_inv_def list_all_length)

lemma set_output_inv: "channel_inv c \<Longrightarrow> i < 2 \<Longrightarrow> outq_inv q \<Longrightarrow> channel_inv (set_output c i q)"
  using byte_lt_2 [of i]
  by (auto simp: set_output_def channel_inv_def report_ring_inv_def list_all_length nth_list_update)

lemma reader_at_inv: "channel_inv c \<Longrightarrow> i < 2 \<Longrightarrow> reader_inv (channel_reader c i)"
  using byte_lt_2 [of i] by (auto simp: channel_reader_def channel_inv_def list_all_length)

lemma set_reader_inv: "channel_inv c \<Longrightarrow> i < 2 \<Longrightarrow> reader_inv r \<Longrightarrow> channel_inv (set_reader c i r)"
  using byte_lt_2 [of i]
  by (auto simp: set_reader_def channel_inv_def report_ring_inv_def list_all_length nth_list_update)

text \<open>The session's channel count stays within the two interfaces.\<close>

lemma session_channels [simp]:
  "se_channel_count (dh_session_note_sent s now) = se_channel_count s"
  "se_channel_count (dh_session_note_owed_sent s t) = se_channel_count s"
  "se_channel_count (dh_session_set_clip_policy s a b) = se_channel_count s"
  "se_channel_count (dh_session_set_drops s d) = se_channel_count s"
  "se_channel_count (note_refused s now r) = se_channel_count s"
  "se_channel_count (note_received s now) = se_channel_count s"
  "se_channel_count (close_listener_window s now) = se_channel_count s"
  "se_channel_count (fst (dh_session_authenticate s f now)) = se_channel_count s"
  "se_channel_count (fst (dh_session_emit_relayed s f cap)) = se_channel_count s"
  "se_channel_count (dh_session_stage_nonce s n) = se_channel_count s"
  "se_channel_count (dh_session_drop s) = 0"
  by (simp_all add: dh_session_note_sent_def dh_session_note_owed_sent_def dh_session_set_clip_policy_def
      dh_session_set_drops_def note_refused_def note_received_def close_listener_window_def Let_def
      dh_session_authenticate_def dh_session_emit_relayed_def dh_session_stage_nonce_def dh_session_drop_def
      split: prod.split sum.split)

lemma negotiate_channels_le: "negotiate_channels n \<le> 2"
  by (simp add: negotiate_channels_def word_less_def word_le_def)

lemma establish_channels: "se_channel_count (fst (establish s ss hello now cap)) \<le> 2"
  by (auto simp: establish_def Let_def negotiate_channels_le split: prod.splits sum.splits)

lemma on_frame_channels:
  assumes "se_channel_count s \<le> 2"
  shows "se_channel_count (fst (dh_session_on_frame E s pair f now cap)) \<le> 2"
proof -
  have "se_channel_count (fst (answer_hello s pair f now cap)) \<le> 2"
    using establish_channels assms by (auto simp: answer_hello_def Let_def split: option.splits)
  with assms show ?thesis by (auto simp: dh_session_on_frame_def Let_def split: prod.splits)
qed

lemma end_channels: "se_channel_count s \<le> 2 \<Longrightarrow> se_channel_count (fst (dh_session_end s r m cap)) \<le> 2"
  by (simp add: dh_session_end_def)

lemma tick_channels: "se_channel_count s \<le> 2 \<Longrightarrow> se_channel_count (fst (dh_session_tick s now cap)) \<le> 2"
  by (auto simp: dh_session_tick_def Let_def tick_emit_def end_channels split: sum.splits)

lemma channel_inv_session: "channel_inv c \<Longrightarrow> se_channel_count s \<le> 2 \<Longrightarrow> channel_inv (c\<lparr>cl_session := s\<rparr>)"
  by (simp add: channel_inv_def report_ring_inv_def)

lemma channel_inv_fields [simp]:
  "channel_inv (c\<lparr>cl_tx := tx\<rparr>) = channel_inv c" "channel_inv (c\<lparr>cl_pair := p\<rparr>) = channel_inv c"
  "channel_inv (c\<lparr>cl_next_striped := n\<rparr>) = channel_inv c" "channel_inv (c\<lparr>cl_registration_unsaved := b\<rparr>) = channel_inv c"
  "channel_inv (c\<lparr>cl_place_sent := u\<rparr>) = channel_inv c" "channel_inv (c\<lparr>cl_arrival_owed := b\<rparr>) = channel_inv c"
  "channel_inv (c\<lparr>cl_peer_board_told := t\<rparr>) = channel_inv c" "channel_inv (c\<lparr>cl_cursor_query_origin := o'\<rparr>) = channel_inv c"
  "channel_inv (c\<lparr>cl_cursor_query_id := t\<rparr>) = channel_inv c"
  "channel_inv (c\<lparr>cl_peer_board_session := b\<rparr>) = channel_inv c" "channel_inv (c\<lparr>cl_peer_board_beat := b\<rparr>) = channel_inv c"
  "channel_inv (c\<lparr>cl_peer_board_beat_session := b\<rparr>) = channel_inv c" "channel_inv (c\<lparr>cl_peer_board_beat_at := u\<rparr>) = channel_inv c"
  by (simp_all add: channel_inv_def report_ring_inv_def)

lemma channel_count_inv: "channel_inv c \<Longrightarrow> se_channel_count (cl_session c) \<le> 2"
  by (simp add: channel_inv_def)

lemma offer_inv: "outq_inv q \<Longrightarrow> outq_inv (fst (dh_outq_offer q f))"
  using offer_extends [of q f "fst (dh_outq_offer q f)" "snd (dh_outq_offer q f)"] by (simp add: oq.extends_def)

text \<open>Where a frame goes: channel 0, or the next channel in turn for a striped frame.\<close>

definition queue_index :: "channel_lifecycle \<Rightarrow> byte list \<Rightarrow> byte" where
  "queue_index c frame =
     (if frame \<noteq> [] \<and> dh_msg_is_striped (frame ! 0)
      then cl_next_striped c mod (if se_channel_count (cl_session c) \<noteq> 0 then se_channel_count (cl_session c) else 1)
      else 0)"

lemma queue_index_lt: "channel_inv c \<Longrightarrow> queue_index c f < 2"
proof -
  assume "channel_inv c"
  then have n: "se_channel_count (cl_session c) \<le> 2" by (rule channel_count_inv)
  have "x mod m < 2" if "m \<noteq> 0" "m \<le> 2" for x m :: byte
    using that word_mod_less_divisor [of m x] by (simp add: word_gt_0)
  with n show ?thesis by (auto simp: queue_index_def)
qed

lemma queue_unfold:
  "channel_lifecycle_queue c f now =
     (let i = queue_index c f; (q, rc) = dh_outq_offer (channel_lifecycle_output c i) f; ok = (rc = DH_OUTQ_OK);
          c1 = set_output c i q;
          n = (if ok \<and> f \<noteq> [] \<and> dh_msg_is_striped (f ! 0)
               then of_nat ((unat i + 1) mod unat (if se_channel_count (cl_session c) \<noteq> 0 then se_channel_count (cl_session c) else 1))
               else cl_next_striped c) in
      (c1\<lparr>cl_next_striped := n,
         cl_session := (if ok then dh_session_note_sent (cl_session c) now else cl_session c),
         cl_tx := fst (dh_txq_track (cl_tx c) ok)\<rparr>, ok))"
  by (simp add: channel_lifecycle_queue_def Let_def queue_index_def set_output_def dh_txq_track_def split: prod.split)

lemma queue_inv:
  assumes "channel_inv c"
  shows "channel_inv (fst (channel_lifecycle_queue c f now))"
proof -
  note i = queue_index_lt [OF assms, of f]
  note so = set_output_inv [OF assms i offer_inv [OF output_inv [OF assms i], of f]]
  have n: "channel_inv (set_output c (queue_index c f) (fst (dh_outq_offer (channel_lifecycle_output c (queue_index c f)) f))
      \<lparr>cl_next_striped := n, cl_session := s, cl_tx := tx\<rparr>)" if "se_channel_count s \<le> 2" for n s tx
    using so that by (simp add: channel_inv_def report_ring_inv_def)
  show ?thesis
    unfolding queue_unfold Let_def using n channel_count_inv [OF assms] by (simp add: split_def)
qed

lemma header_parse_cong:
  assumes "4 \<le> length c" "4 \<le> length d" "take 4 c = take 4 d"
  shows "dh_frame_header_parse c = dh_frame_header_parse d"
  using header_parse_take [of 4 c] header_parse_take [of 4 d] assms by simp

text \<open>Rewriting a delivered frame behind its header leaves the reader's own view of its buffer alone.\<close>

lemma reader_patch:
  assumes inv: "reader_inv r" and h: "length h = 4"
    and r': "r' = r\<lparr>rd_buf := blit (rd_buf r) 24 h\<rparr>"
  shows "reader_inv r'" and "frame_complete (rd_content r') = frame_complete (rd_content r)"
proof -
  have l: "length (rd_buf r) = 4100" "unat (rd_have r) \<le> 4100" using inv by (simp_all add: reader_inv_def)
  have lb: "length (blit (rd_buf r) 24 h) = 4100" using l h by (simp add: blit_simps)
  have len: "length (rd_content r') = length (rd_content r)" using l lb by (simp add: rd_content_def r')
  have t4: "take 4 (rd_content r') = take 4 (rd_content r)"
    using l by (simp add: rd_content_def r' min_def blit_def)
  have p: "dh_frame_header_parse (rd_content r') = dh_frame_header_parse (rd_content r)"
  proof (cases "4 \<le> length (rd_content r)")
    case True
    then show ?thesis using len t4 by (intro header_parse_cong) simp_all
  next
    case False
    then show ?thesis using len by (simp add: dh_frame_header_parse_def)
  qed
  have "rd_have r' = rd_have r" "length (rd_buf r') = 4100" using lb by (simp_all add: r')
  with inv p show "reader_inv r'" by (auto simp: reader_inv_def split: sum.splits)
  show "frame_complete (rd_content r') = frame_complete (rd_content r)"
    unfolding frame_complete_def p len ..
qed

lemma length_relay_header [simp]: "length (relay_header f b) = 4"
  by (simp add: relay_header_def)

lemma relay_offer_inv: "outq_inv (tx_q t) \<Longrightarrow> outq_inv (tx_q (fst (dh_relay_tx_offer t f)))"
  using offer_inv [of "tx_q t" f] by (simp add: dh_relay_tx_offer_def Let_def split_def)

lemma relay_to_peer_inv:
  assumes "channel_inv c" and "i < 2"
  shows "channel_inv (relay_to_peer c i f b)"
proof -
  define r where "r = (channel_reader c i)\<lparr>rd_buf := blit (rd_buf (channel_reader c i)) 24 (relay_header f b)\<rparr>"
  have "channel_inv (set_reader c i r)"
    using reader_patch(1) [OF reader_at_inv [OF assms] length_relay_header r_def] by (rule set_reader_inv [OF assms])
  moreover have "cl_relay_tx (set_reader c i r) = cl_relay_tx c" by (simp add: set_reader_def)
  ultimately show ?thesis
    using relay_offer_inv [of "cl_relay_tx c"] assms
    by (simp add: relay_to_peer_def Let_def split_def r_def [symmetric] channel_inv_def report_ring_inv_def)
qed

lemma reader_init_inv: "reader_inv r \<Longrightarrow> reader_inv (dh_frame_reader_init r)"
  by (simp add: reader_inv_def dh_frame_reader_init_def)

lemma reset_readers_inv: "channel_inv c \<Longrightarrow> channel_inv (reset_readers c)"
  by (simp add: reset_readers_def channel_inv_def report_ring_inv_def reader_init_inv list_all_length)

lemma reset_output_inv: "channel_inv c \<Longrightarrow> channel_inv (reset_output c)"
  by (simp add: reset_output_def channel_inv_def report_ring_inv_def outq_reset list_all_length)

lemma fresh_stream_inv: "channel_inv c \<Longrightarrow> channel_inv (fresh_stream c)"
proof -
  assume "channel_inv c"
  then have "channel_inv (reset_readers (reset_output c))" by (intro reset_readers_inv reset_output_inv)
  moreover have "reset_readers ((reset_output c)\<lparr>cl_place_sent := u\<rparr>) = (reset_readers (reset_output c))\<lparr>cl_place_sent := u\<rparr>" for u
    by (simp add: reset_readers_def)
  ultimately show ?thesis
    by (simp add: fresh_stream_def Let_def channel_inv_def report_ring_inv_def)
qed

lemma session_frame_inv:
  assumes "channel_inv c"
  shows "channel_inv (channel_lifecycle_on_frame E c f now)"
proof -
  obtain s p rc where d: "dh_session_on_frame E (cl_session c) (cl_pair c) f now 76 = (s, p, rc)" by (metis prod_cases3)
  have "se_channel_count s \<le> 2" using on_frame_channels [OF channel_count_inv [OF assms]] d by (metis fst_conv)
  then have "channel_inv (c\<lparr>cl_session := s, cl_pair := p\<rparr>)"
    "channel_inv (c\<lparr>cl_session := s, cl_pair := p, cl_registration_unsaved := True\<rparr>)"
    using assms by (simp_all add: channel_inv_session)
  then show ?thesis
    using d by (auto simp: channel_lifecycle_on_frame_def Let_def fresh_stream_inv queue_inv split: sum.split option.split)
qed

lemma on_frame_inv:
  assumes "channel_inv c" and "i < 2"
  shows "channel_inv (fst (on_frame E c i f now))"
proof -
  obtain s rc where a: "dh_session_authenticate (cl_session c) f now = (s, rc)" by fastforce
  then have "se_channel_count s = se_channel_count (cl_session c)" by (metis fst_conv session_channels(8))
  then have "channel_inv (c\<lparr>cl_session := s\<rparr>)"
    using assms channel_count_inv by (simp add: channel_inv_session)
  then show ?thesis
    using assms a session_frame_inv relay_to_peer_inv
    by (auto simp: on_frame_def Let_def split: sum.split)
qed

lemma end_session_inv:
  assumes "channel_inv c"
  shows "channel_inv (end_session c r now)"
proof -
  obtain s rc where a: "dh_session_end (cl_session c) r 0 76 = (s, rc)" by fastforce
  then have "se_channel_count s \<le> 2" using end_channels [OF channel_count_inv [OF assms]] by (metis fst_conv)
  then have "channel_inv (c\<lparr>cl_session := s\<rparr>)" using assms by (simp add: channel_inv_session)
  then show ?thesis
    using a queue_inv by (auto simp: end_session_def Let_def split: sum.split option.split)
qed

lemma unat_byte_dec: "0 < b \<Longrightarrow> unat (b - 1 :: byte) = unat b - 1"
  by (simp add: unat_minus_one word_gt_0)

lemma report_take_inv: "channel_inv c \<Longrightarrow> 0 < cl_report_used c \<Longrightarrow> channel_inv (report_take c)"
proof -
  assume a: "channel_inv c" "0 < cl_report_used c"
  have "unat (of_nat (Suc (unat (cl_report_head c)) mod 32) :: byte) = Suc (unat (cl_report_head c)) mod 32"
    by (intro unat_of_nat_small) simp
  with a show ?thesis by (auto simp: report_take_def channel_inv_def report_ring_inv_def unat_byte_dec)
qed

lemma report_channel_lt: "channel_inv c \<Longrightarrow> cl_report_channel c ! unat (cl_report_head c) < 2"
  by (simp add: channel_inv_def report_ring_inv_def list_all_length)

lemma drain_one_inv:
  assumes "channel_inv c" and "0 < cl_report_used c"
  shows "channel_inv (fst (drain_one E c now))"
proof -
  define i where "i = cl_report_channel c ! unat (cl_report_head c)"
  have i: "i < 2" using report_channel_lt [OF assms(1)] by (simp add: i_def)
  define c1 where "c1 = report_take c"
  have c1: "channel_inv c1" using report_take_inv [OF assms] by (simp add: c1_def)
  obtain r rc where r: "dh_frame_reader_report (channel_reader c1 i) (report_bytes c (unat (cl_report_head c))) = (r, rc)"
    by fastforce
  then have "reader_inv r" using reader_report_inv [OF reader_at_inv [OF c1 i]] by (metis fst_conv)
  then have c2: "channel_inv (set_reader c1 i r)" by (rule set_reader_inv [OF c1 i])
  show ?thesis
    using r c2 on_frame_inv [OF c2 i] reset_readers_inv [OF end_session_inv [OF c2]]
    by (auto simp: drain_one_def Let_def c1_def [symmetric] i_def [symmetric] split_def split: sum.split dh_frame_err.split)
qed

lemma drain_reports_inv: "channel_inv c \<Longrightarrow> channel_inv (fst (drain_reports E c now))"
proof (induction E c now rule: drain_reports.induct)
  case (1 E c now)
  show ?case
  proof (cases "0 < cl_report_used c")
    case True
    obtain c' effs go where d: "drain_one E c now = (c', effs, go)" by (metis prod_cases3)
    then have c': "channel_inv c'" using drain_one_inv [OF 1(2) True] by (metis fst_conv)
    show ?thesis
      using 1(1) [OF True d [symmetric] refl] c' True d
      by (cases go) (auto simp: drain_reports.simps [of E c] split: prod.split)
  next
    case False
    with 1(2) show ?thesis by (simp add: drain_reports.simps)
  qed
qed

lemma receive_report_inv:
  assumes "channel_inv c"
  shows "channel_inv (channel_lifecycle_receive_channel_report c i b)"
proof -
  have u: "unat (cl_report_used c + 1) = unat (cl_report_used c) + 1" if "unat (cl_report_used c) < 32"
    using that by (simp add: unat_word_ariths)
  have n: "unat (of_nat (min (length b) 64) :: u16) \<le> 64" by (simp add: word_conv)
  have m: "(if length b < 64 then length b else 64) = min (length b) 64" by simp
  show ?thesis
    using assms u n
    by (auto simp: channel_lifecycle_receive_channel_report_def Let_def m channel_inv_def report_ring_inv_def
        list_all_length nth_list_update blit_simps not_le)
qed

lemma emit_placement_inv:
  assumes "channel_inv c"
  shows "channel_inv (fst (channel_lifecycle_emit_placement c t b now))"
proof -
  obtain s rc where e: "dh_session_emit_relayed (cl_session c) (frame_of t 0 b) emit_cap = (s, rc)" by fastforce
  then have "se_channel_count s = se_channel_count (cl_session c)" by (metis fst_conv session_channels(9))
  then have "channel_inv (c\<lparr>cl_session := s\<rparr>)" using assms channel_count_inv by (simp add: channel_inv_session)
  with assms e queue_inv show ?thesis
    by (auto simp: channel_lifecycle_emit_placement_def Let_def split: sum.split option.split)
qed

lemma place_due_inv: "channel_inv c \<Longrightarrow> channel_inv (fst (place_due c now))"
  by (simp add: place_due_def Let_def)

lemma place_frames_channels: "se_channel_count (fst (place_frames s b q)) = se_channel_count s"
  by (auto simp: place_frames_def Let_def split_def split: sum.split option.split)

lemma offer_pair_inv: "outq_inv q \<Longrightarrow> outq_inv (fst (dh_outq_offer_pair q f g))"
  using offer_pair_extends [of q f g "fst (dh_outq_offer_pair q f g)" "snd (dh_outq_offer_pair q f g)"]
  by (simp add: oq.extends_def)

lemma pump_place_inv:
  assumes c: "channel_inv c" and b: "\<And>c. channel_inv c \<Longrightarrow> channel_inv (between c)"
  shows "channel_inv (pump_place between c now)"
proof -
  define c1 where "c1 = fst (place_due c now)"
  have c1: "channel_inv c1" using place_due_inv [OF c] by (simp add: c1_def)
  define s where "s = fst (place_frames (cl_session c1) (cl_place_body c) (cl_place_query_id c))"
  define c2 where "c2 = between (c1\<lparr>cl_session := s\<rparr>)"
  have c2': "channel_inv (c1\<lparr>cl_session := s\<rparr>)"
    using c1 channel_count_inv [OF c1] by (simp add: channel_inv_session s_def place_frames_channels)
  then have c2: "channel_inv c2" using b by (simp add: c2_def)
  then have q: "outq_inv (cl_out c2)" by (simp add: channel_inv_def)
  have fin: "channel_inv (c2\<lparr>cl_out := fst (dh_outq_offer_pair (cl_out c2) f g), cl_session := s', cl_place_sent := u, cl_tx := tx\<rparr>)"
      "channel_inv (c2\<lparr>cl_out := fst (dh_outq_offer_pair (cl_out c2) f g), cl_tx := tx\<rparr>)"
    if "se_channel_count s' \<le> 2" for f g s' u tx
    using c2 offer_pair_inv [OF q] that by (simp_all add: channel_inv_def report_ring_inv_def)
  show ?thesis
    using c1 c2' b [OF c1] fin channel_count_inv [OF c2]
    unfolding pump_place_def Let_def
    by (simp add: split_def c1_def [symmetric] s_def [symmetric] c2_def [symmetric] split: option.split)
qed

lemma pump_owed_inv:
  assumes "channel_inv c" and b: "\<And>c. channel_inv c \<Longrightarrow> channel_inv (between c)"
  shows "channel_inv (pump_owed between c t now)"
  using emit_placement_inv [OF assms(1), of t "[]" now] assms(1) by (auto simp: pump_owed_def Let_def split_def b)

lemma tag_inbound_inv: "channel_inv c \<Longrightarrow> channel_inv (fst (tag_inbound c b))"
  by (auto simp: tag_inbound_def Let_def split_def channel_count_inv intro!: channel_inv_session split: sum.split)

lemma channel_inv_inbound: "channel_inv c \<Longrightarrow> inq_inv q \<Longrightarrow> channel_inv (c\<lparr>cl_inbound := q\<rparr>)"
  by (simp add: channel_inv_def report_ring_inv_def)

lemma pump_inbound_one_inv: "channel_inv c \<Longrightarrow> channel_inv (fst (pump_inbound_one c b now))"
proof -
  assume "channel_inv c"
  then have t: "channel_inv (fst (tag_inbound c b))" by (rule tag_inbound_inv)
  then have "inq_inv (dh_inq_release (cl_inbound (fst (tag_inbound c b))))"
    by (intro inq.release_inv) (simp add: channel_inv_def)
  from channel_inv_inbound [OF t this] show ?thesis
    by (auto simp: pump_inbound_one_def Let_def split_def queue_inv split: option.split)
qed

lemma pump_inbound_inv: "channel_inv c \<Longrightarrow> channel_inv (pump_inbound c now)"
proof (induction c now rule: pump_inbound.induct)
  case (1 c now)
  show ?case
  proof (cases "dh_inq_peek (cl_inbound c)")
    case (Some bytes)
    obtain c' go where o: "pump_inbound_one c bytes now = (c', go)" by fastforce
    then have "channel_inv c'" using pump_inbound_one_inv [OF 1(2)] by (metis fst_conv)
    with Some o 1(1) [OF Some o [symmetric]] show ?thesis by (simp add: pump_inbound.simps [of c])
  qed (use 1(2) in \<open>simp add: pump_inbound.simps\<close>)
qed

lemma pump_peer_inv: "channel_inv c \<Longrightarrow> channel_inv (pump_peer_board_session c now)"
  unfolding pump_peer_board_session_def Let_def split_def
  using emit_placement_inv by (auto simp: split_def)

lemma pump_query_inv:
  assumes "channel_inv c" and b: "\<And>c. channel_inv c \<Longrightarrow> channel_inv (between c)"
  shows "channel_inv (fst (pump_query between u c now))"
  using emit_placement_inv [OF assms(1), of DH_MSG_POS_QUERY "[cl_cursor_query_id c]" now] assms(1)
  by (simp add: pump_query_def Let_def split_def b)

lemma update_config_inv: "channel_inv c \<Longrightarrow> channel_inv (channel_lifecycle_update_config g c)"
  by (simp add: channel_lifecycle_update_config_def Let_def channel_inv_session channel_count_inv)

lemma save_owed_inv: "channel_inv c \<Longrightarrow> channel_inv (fst (save_owed c))"
  by (simp add: save_owed_def)

lemma tick_session_inv:
  assumes "channel_inv c"
  shows "channel_inv (tick_session c now)"
proof -
  define s where "s = fst (dh_session_tick (cl_session c) now 76)"
  have "se_channel_count s \<le> 2" using tick_channels [OF channel_count_inv [OF assms]] by (simp add: s_def)
  then have c1: "channel_inv (c\<lparr>cl_session := s\<rparr>)" using assms by (simp add: channel_inv_session)
  then have q: "channel_inv (fst (channel_lifecycle_queue (c\<lparr>cl_session := s\<rparr>) f now))" for f by (rule queue_inv)
  then have "channel_inv ((fst (channel_lifecycle_queue (c\<lparr>cl_session := s\<rparr>) f now))\<lparr>cl_session :=
      dh_session_note_owed_sent (cl_session (fst (channel_lifecycle_queue (c\<lparr>cl_session := s\<rparr>) f now))) t\<rparr>)" for f t
    by (intro channel_inv_session) (simp_all add: channel_count_inv)
  with c1 q show ?thesis
    by (simp add: tick_session_def Let_def split_def s_def [symmetric] split: sum.split option.split)
qed

lemma relay_commit_inv:
  assumes "outq_inv (tx_q t)"
  shows "outq_inv (tx_q (dh_relay_tx_commit t))"
proof (cases "relay_owed t")
  case (Some v)
  note p = link_peek [OF Some]
  have c: "oq.current (tx_q t) v" by (rule oq.peek_current [OF assms p(1)])
  then have "outq_inv (dh_outq_note_preamble (tx_q t) v)" "outq_inv (dh_outq_advance (tx_q t) v n)" for n
    using oq.note_pre [OF assms _ _ _ refl] oq.advance [OF assms _ _ _ refl refl] by (auto simp: oq.current_def)
  with p(3) show ?thesis by simp
qed (use assms in \<open>simp add: dh_relay_tx_commit_def\<close>)

lemma pump_relay_loop_inv: "channel_inv c \<Longrightarrow> channel_inv (fst (pump_relay_loop taken c))"
proof (induction taken arbitrary: c)
  case (Cons b taken)
  have "channel_inv (c\<lparr>cl_relay_tx := dh_relay_tx_commit (cl_relay_tx c)\<rparr>)"
    using Cons(2) relay_commit_inv by (simp add: channel_inv_def report_ring_inv_def)
  from Cons(1) [OF this] Cons(2) show ?case
    by (auto simp: pump_relay_loop.simps [of "b # taken"] Let_def split_def split: option.split bool.split)
qed (simp add: pump_relay_loop.simps split: option.split)

lemma pump_relay_inv: "channel_inv c \<Longrightarrow> channel_inv (fst (pump_relay taken c))"
  unfolding pump_relay_def
  by (rule pump_relay_loop_inv) (simp add: dh_relay_tx_yield_def channel_inv_def report_ring_inv_def)

lemma step_inv:
  assumes "channel_inv c" and "\<And>c. channel_inv c \<Longrightarrow> channel_inv (pf_place_between P c)"
    and "\<And>c. channel_inv c \<Longrightarrow> channel_inv (pf_query_between P c)"
    and "\<And>c. channel_inv c \<Longrightarrow> channel_inv (pf_owed_between P c)"
  shows "channel_inv (fst (channel_lifecycle_step E P c now))"
  unfolding channel_lifecycle_step_def Let_def split_def fst_conv
  by (intro pump_relay_inv channel_inv_fields(2) [THEN iffD2] tick_session_inv update_config_inv pump_inbound_inv save_owed_inv
      pump_peer_inv pump_owed_inv pump_query_inv pump_place_inv drain_reports_inv assms)

lemma link_lost_inv: "channel_inv c \<Longrightarrow> channel_inv (channel_lifecycle_link_lost c)"
proof -
  assume c: "channel_inv c"
  have rx: "rx_inv (dh_relay_rx_reset (cl_relay_rx c))" "rx_cap (dh_relay_rx_reset (cl_relay_rx c)) = rx_cap (cl_relay_rx c)"
    using c by (simp_all add: channel_inv_def dh_relay_rx_reset_def rx_inv_def)
  have iq: "inq_inv (dh_inq_reset (cl_inbound c))"
    using c by (simp add: channel_inv_def dh_inq_reset_def inq_inv_def dh_inq_pending_def)
  have tx: "outq_inv (tx_q (dh_relay_tx_reset t))" for t by (simp add: dh_relay_tx_reset_def outq_reset)
  have r: "channel_inv (reset_readers (c\<lparr>cl_session := dh_session_drop (cl_session c)\<rparr>))"
    using c by (simp add: reset_readers_inv channel_inv_session)
  show ?thesis
    unfolding channel_lifecycle_link_lost_def Let_def
    by (rule reset_output_inv)
       (use r rx iq tx in \<open>simp add: channel_inv_def report_ring_inv_def reset_readers_def\<close>)
qed

lemma config_wiped_inv: "channel_inv c \<Longrightarrow> channel_inv (channel_lifecycle_config_wiped c now)"
  by (simp add: channel_lifecycle_config_wiped_def Let_def channel_lifecycle_open_pairing_window_def end_session_inv)

lemma owe_place_inv: "channel_inv c \<Longrightarrow> length b = 5 \<Longrightarrow> channel_inv (fst (channel_lifecycle_owe_place c b q now))"
  by (simp add: channel_lifecycle_owe_place_def Let_def channel_inv_def report_ring_inv_def)

end
