(* ===== verification/DH_Channel.thy ===== *)
theory DH_Channel
  imports DH_Lifecycle
begin

text \<open>
  The firmware adapter of the helper channel (\<open>src/src/channel.c\<close>): boot, the deferred wipe and pairing
  requests, the cursor queries and placements, the inter-board packets and the pump that turns queued
  frames into USB reports. USB readiness and acceptance, the answers of the inter-board queue, the flash
  contents and the entropy are arguments; packets handed to the inter-board queue are results. The clock
  is \<open>now\<close>; \<open>device_t\<close> is represented by the configuration fields the code reads.
\<close>

section \<open>Model\<close>

record channel =
  ch_lifecycle :: channel_lifecycle
  ch_config_wiped :: bool
  ch_pairing_window_requested :: bool

record uart_packet_t =
  up_type :: byte
  up_data :: "byte list"

abbreviation (input) CHANNEL_START_MSG :: byte where "CHANNEL_START_MSG \<equiv> 26"
abbreviation (input) CHANNEL_DATA_MSG :: byte where "CHANNEL_DATA_MSG \<equiv> 27"
abbreviation (input) CURSOR_PLACE_MSG :: byte where "CURSOR_PLACE_MSG \<equiv> 29"
abbreviation (input) CURSOR_QUERY_MSG :: byte where "CURSOR_QUERY_MSG \<equiv> 31"
abbreviation (input) CURSOR_QUERY_UNAVAILABLE_MSG :: byte where "CURSOR_QUERY_UNAVAILABLE_MSG \<equiv> 32"

text \<open>\<open>get_rand_64\<close> is the argument \<open>bits\<close>, by call; the copy is little-endian, as the processor is.\<close>

definition channel_random_bytes :: "(nat \<Rightarrow> u64) \<Rightarrow> nat \<Rightarrow> byte list" where
  "channel_random_bytes bits len = take len (concat (map (\<lambda>k. le_bytes 8 (bits k)) [0..<(len + 7) div 8]))"

text \<open>\<open>load\<close> is the outcome of \<open>load_identity\<close>, \<open>draws\<close> the random keys of the attempts; the second result is
  the key handed to \<open>save_identity\<close>.\<close>

fun draw_identity :: "uecc \<Rightarrow> dh_pair \<Rightarrow> byte list list \<Rightarrow> dh_pair \<times> byte list option" where
  "draw_identity E pair [] = (pair, None)"
| "draw_identity E pair (k # ks) =
     (case dh_pair_set_identity E pair k of
        (pair', True) \<Rightarrow> (pair', Some k)
      | (pair', False) \<Rightarrow> draw_identity E pair' ks)"

definition channel_load_identity ::
  "uecc \<Rightarrow> dh_pair \<Rightarrow> byte list option \<Rightarrow> byte list list \<Rightarrow> dh_pair \<times> byte list option" where
  "channel_load_identity E pair load draws =
     (let (pair, ok) = (case load of None \<Rightarrow> (pair, False) | Some k \<Rightarrow> dh_pair_set_identity E pair k) in
      if ok then (pair, None) else draw_identity E pair (take 8 draws))"

definition channel_load_registration :: "dh_pair \<Rightarrow> (byte list \<times> byte list) option \<Rightarrow> dh_pair" where
  "channel_load_registration pair stored =
     (case stored of
        Some (key_id, secret) \<Rightarrow> dh_pair_set_registration pair key_id secret
      | None \<Rightarrow> dh_pair_clear_registration pair)"

definition channel_init ::
  "uecc \<Rightarrow> byte \<Rightarrow> channel_lifecycle \<Rightarrow> byte list option \<Rightarrow> byte list list \<Rightarrow> (byte list \<times> byte list) option \<Rightarrow>
   channel_lifecycle \<times> byte list option" where
  "channel_init E build_type c load draws stored =
     (let c = c\<lparr>cl_session := dh_session_init build_type, cl_pair := dh_pair_init, cl_out := dh_outq_init,
                cl_extra_out := map (\<lambda>_. dh_outq_init) (cl_extra_out c), cl_relay_tx := dh_relay_tx_init,
                cl_relay_rx := dh_relay_rx_init (rx_buf (cl_relay_rx c)) (of_nat DH_FRAME_MAX_SIZE),
                cl_inbound := dh_inq_init\<rparr>;
          (pair, saved) = channel_load_identity E (cl_pair c) load draws;
          c = c\<lparr>cl_pair := channel_load_registration pair stored\<rparr> in
      (channel_lifecycle_link_lost c, saved))"

definition channel_config_wiped :: "channel \<Rightarrow> channel" where
  "channel_config_wiped ch = ch\<lparr>ch_config_wiped := True\<rparr>"

definition channel_open_pairing_window :: "channel \<Rightarrow> channel" where
  "channel_open_pairing_window ch = ch\<lparr>ch_pairing_window_requested := True\<rparr>"

definition channel_helper_present :: "channel_lifecycle \<Rightarrow> bool" where
  "channel_helper_present c = se_present (cl_session c)"

definition channel_output_helper_present :: "byte \<Rightarrow> channel_lifecycle \<Rightarrow> byte \<Rightarrow> bool" where
  "channel_output_helper_present role c out =
     (if out = role then channel_helper_present c else cl_peer_board_session c)"

definition channel_output_changed :: "byte \<Rightarrow> channel_lifecycle \<Rightarrow> byte \<Rightarrow> channel_lifecycle" where
  "channel_output_changed role c new_output = channel_lifecycle_arrive c role new_output"

datatype cursor_query_result_t = CURSOR_QUERY_UNAVAILABLE | CURSOR_QUERY_RETRY | CURSOR_QUERY_SENT

definition query_accept :: "channel_lifecycle \<Rightarrow> channel_query_origin \<Rightarrow> byte \<Rightarrow> channel_lifecycle \<times> bool" where
  "query_accept c origin query_id =
     (let accepted = (cl_cursor_query_origin c = CURSOR_QUERY_NONE) in
      (if accepted then c\<lparr>cl_cursor_query_origin := origin, cl_cursor_query_id := query_id\<rparr> else c, accepted))"

definition pad8 :: "byte list \<Rightarrow> byte list" where
  "pad8 xs = xs @ replicate (8 - length xs) 0"

text \<open>\<open>queued\<close> is the answer of the inter-board queue to the packet, when one is sent.\<close>

definition channel_query_cursor ::
  "byte \<Rightarrow> bool \<Rightarrow> channel_lifecycle \<Rightarrow> byte \<Rightarrow> byte \<Rightarrow>
   channel_lifecycle \<times> cursor_query_result_t \<times> uart_packet_t list" where
  "channel_query_cursor role queued c out query_id =
     (if out \<noteq> role then
        (c, if queued then CURSOR_QUERY_SENT else CURSOR_QUERY_RETRY,
         [\<lparr>up_type = CURSOR_QUERY_MSG, up_data = pad8 [out, query_id]\<rparr>])
      else if \<not> channel_helper_present c then (c, CURSOR_QUERY_UNAVAILABLE, [])
      else
        let (c, accepted) = query_accept c CURSOR_QUERY_LOCAL query_id in
        (c, if accepted then CURSOR_QUERY_SENT else CURSOR_QUERY_RETRY, []))"

definition query_unavailable_packet :: "byte \<Rightarrow> byte \<Rightarrow> uart_packet_t" where
  "query_unavailable_packet role query_id =
     \<lparr>up_type = CURSOR_QUERY_UNAVAILABLE_MSG, up_data = pad8 [role, query_id]\<rparr>"

definition handle_cursor_query_msg ::
  "byte \<Rightarrow> channel_lifecycle \<Rightarrow> uart_packet_t \<Rightarrow> channel_lifecycle \<times> uart_packet_t list" where
  "handle_cursor_query_msg role c packet =
     (let query_id = up_data packet ! 1 in
      if \<not> channel_helper_present c then (c, [query_unavailable_packet role query_id])
      else
        let (c, accepted) = query_accept c CURSOR_QUERY_PEER query_id in
        (c, if accepted then [] else [query_unavailable_packet role query_id]))"

definition place_packet :: "byte \<Rightarrow> byte \<Rightarrow> byte \<Rightarrow> u16 \<Rightarrow> byte \<Rightarrow> uart_packet_t" where
  "place_packet screen chain border position query_id =
     \<lparr>up_type = CURSOR_PLACE_MSG, up_data = [screen, chain, border, 0] @ le16 position @ [0, query_id]\<rparr>"

definition place_body_of :: "byte \<Rightarrow> byte \<Rightarrow> byte \<Rightarrow> u16 \<Rightarrow> byte list option" where
  "place_body_of screen chain border position =
     dh_place_encode \<lparr>pl_chain_index = screen, pl_chain_direction = chain, pl_border_direction = border,
       pl_entry_position = position\<rparr> DH_PLACE_BODY_SIZE"

definition channel_place_cursor ::
  "byte \<Rightarrow> channel_lifecycle \<Rightarrow> byte \<Rightarrow> byte \<Rightarrow> byte \<Rightarrow> byte \<Rightarrow> u16 \<Rightarrow> u32 \<Rightarrow>
   channel_lifecycle \<times> uart_packet_t list" where
  "channel_place_cursor role c out screen chain border position now =
     (if out \<noteq> role then (c, [place_packet screen chain border position 0])
      else if \<not> channel_helper_present c then (c, [])
      else
        case place_body_of screen chain border position of
          None \<Rightarrow> (c, [])
        | Some body \<Rightarrow> (fst (channel_lifecycle_owe_place c body 0 now), []))"

definition channel_place_cursor_correlated ::
  "byte \<Rightarrow> bool \<Rightarrow> channel_lifecycle \<Rightarrow> byte \<Rightarrow> byte \<Rightarrow> byte \<Rightarrow> byte \<Rightarrow> u16 \<Rightarrow> byte \<Rightarrow> u32 \<Rightarrow>
   channel_lifecycle \<times> bool \<times> uart_packet_t list" where
  "channel_place_cursor_correlated role queued c out screen chain border position query_id now =
     (if query_id = 0 then (c, False, [])
      else if out \<noteq> role then (c, queued, [place_packet screen chain border position query_id])
      else if \<not> channel_helper_present c then (c, False, [])
      else
        case place_body_of screen chain border position of
          None \<Rightarrow> (c, False, [])
        | Some body \<Rightarrow> let (c, owed) = channel_lifecycle_owe_place c body query_id now in (c, owed, []))"

text \<open>One inter-board packet of a relayed frame; the frame staged is the reassembly buffer's own bytes.\<close>

definition handle_channel_relay_msg :: "channel_lifecycle \<Rightarrow> uart_packet_t \<Rightarrow> channel_lifecycle" where
  "handle_channel_relay_msg c packet =
     (let relayed = \<lparr>pk_kind = (if up_type packet = CHANNEL_START_MSG then DH_RELAY_PKT_START else DH_RELAY_PKT_DATA),
                     pk_data = take DH_RELAY_PAYLOAD (up_data packet), pk_len = of_nat DH_RELAY_PAYLOAD\<rparr>;
          (r, rc, v) = dh_relay_rx_push (cl_relay_rx c) relayed;
          c = c\<lparr>cl_relay_rx := r\<rparr> in
      case v of
        Some frame \<Rightarrow>
          if rc \<noteq> DH_RELAY_OK then c
          else
            let bytes = take (DH_FRAME_HEADER_SIZE + unat (fh_len (fv_hdr frame))) (rx_buf r);
                (q, staged) = dh_inq_stage (cl_inbound c) bytes;
                c = c\<lparr>cl_inbound := q\<rparr> in
            if staged then c\<lparr>cl_inbound := dh_inq_publish (cl_inbound c)\<rparr> else c
      | None \<Rightarrow> c)"

definition channel_lifecycle_send_relay :: "dh_relay_packet \<Rightarrow> uart_packet_t" where
  "channel_lifecycle_send_relay packet =
     \<lparr>up_type = (if pk_kind packet = DH_RELAY_PKT_START then CHANNEL_START_MSG else CHANNEL_DATA_MSG),
      up_data = take DH_RELAY_PAYLOAD (pk_data packet)\<rparr>"

text \<open>The USB side of one interface in one pass: whether it is ready, whether it takes the report, and what
  the other core does between the two locked sections.\<close>

record usb_turn =
  ut_ready :: bool
  ut_taken :: bool
  ut_between :: "channel_lifecycle \<Rightarrow> channel_lifecycle"

definition pump_report :: "dh_outq_view \<Rightarrow> byte list" where
  "pump_report owed =
     (let n = unat (if vw_remaining owed < 63 then vw_remaining owed else 63);
          report = replicate CHANNEL_REPORT_SIZE DH_FRAME_PAD;
          report = report[0 := (if vw_remaining owed = vw_total owed then DH_REPORT_FRAME_START
                                else DH_REPORT_FRAME_CONTINUES)] in
      blit report 1 (take n (vw_at owed)))"

definition channel_pump_out ::
  "bool \<Rightarrow> usb_turn \<Rightarrow> channel_lifecycle \<Rightarrow> byte \<Rightarrow> channel_lifecycle \<times> byte list option" where
  "channel_pump_out config_mode U c index =
     (if config_mode \<and> index \<noteq> 0 then (c, None)
      else if \<not> ut_ready U then (c, None)
      else
        case dh_outq_peek (channel_lifecycle_output c index) of
          None \<Rightarrow> (c, None)
        | Some owed \<Rightarrow>
            let n = (if vw_remaining owed < 63 then vw_remaining owed else 63) in
            if n = 0 then (c, None)
            else
              let c = ut_between U c in
              if \<not> ut_taken U then (c, None)
              else
                (set_output c index (dh_outq_advance (channel_lifecycle_output c index) owed n),
                 Some (pump_report owed)))"

definition channel_task ::
  "uecc \<Rightarrow> channel_platform \<Rightarrow> (nat \<Rightarrow> u64) \<Rightarrow> bool \<Rightarrow> usb_turn \<Rightarrow> usb_turn \<Rightarrow> channel \<Rightarrow> u32 \<Rightarrow>
   channel \<times> channel_effect list \<times> byte list option \<times> byte list option" where
  "channel_task E P bits config_mode U0 U1 ch now =
     (let c = ch_lifecycle ch;
          c = (if ch_config_wiped ch then channel_lifecycle_config_wiped c now else c);
          c = (if ch_pairing_window_requested ch then channel_lifecycle_open_pairing_window c now else c);
          c = (if dh_session_needs_nonce (cl_session c)
               then c\<lparr>cl_session := dh_session_stage_nonce (cl_session c) (channel_random_bytes bits DH_NONCE_SIZE)\<rparr>
               else c);
          (c, effs) = channel_lifecycle_step E P c now;
          (c, r0) = channel_pump_out config_mode U0 c 0;
          (c, r1) = channel_pump_out config_mode U1 c 1 in
      (ch\<lparr>ch_lifecycle := c, ch_config_wiped := False, ch_pairing_window_requested := False\<rparr>, effs, r0, r1))"

text \<open>The statically zeroed object at power-up.\<close>

definition channel_static :: channel_lifecycle where
  "channel_static =
     \<lparr>cl_session = dh_session_init 0, cl_pair = dh_pair_init, cl_out = dh_outq_init, cl_extra_out = [dh_outq_init],
      cl_next_striped = 0, cl_tx = \<lparr>tq_dropped = 0\<rparr>, cl_reader = fresh_reader, cl_extra_reader = [fresh_reader],
      cl_reports = replicate CHANNEL_REPORT_BACKLOG (replicate CHANNEL_REPORT_SIZE 0),
      cl_report_len = replicate CHANNEL_REPORT_BACKLOG 0, cl_report_channel = replicate CHANNEL_REPORT_BACKLOG 0,
      cl_report_head = 0, cl_report_used = 0, cl_reports_dropped = 0, cl_reports_in = 0,
      cl_relay_tx = dh_relay_tx_init, cl_relay_rx = dh_relay_rx_init (replicate DH_FRAME_MAX_SIZE 0) 0,
      cl_inbound = dh_inq_init, cl_registration_unsaved = False, cl_cursor_query_origin = CURSOR_QUERY_NONE,
      cl_cursor_query_id = 0, cl_arrival_owed = False, cl_place_owed = 0, cl_place_sent = 0, cl_place_owed_at = 0,
      cl_place_body = replicate DH_PLACE_BODY_SIZE 0, cl_place_query_id = 0, cl_peer_board_beat = False,
      cl_peer_board_beat_session = False, cl_peer_board_session = False, cl_peer_board_beat_at = 0,
      cl_peer_board_told = 0\<rparr>"

section \<open>The whole channel\<close>

text \<open>What the other core does: placements and queries asked for, arrivals, heartbeats and packets of the
  peer board.\<close>

datatype core1_op =
  OwePlace "byte list" byte u32
| Arrive byte byte
| PeerBeat bool
| AskCursor channel_query_origin byte
| RelayPacket uart_packet_t

fun core1_step :: "core1_op \<Rightarrow> channel_lifecycle \<Rightarrow> channel_lifecycle" where
  "core1_step (OwePlace body query_id now) c = fst (channel_lifecycle_owe_place c body query_id now)"
| "core1_step (Arrive role out) c = channel_lifecycle_arrive c role out"
| "core1_step (PeerBeat b) c = channel_lifecycle_peer_board_heartbeat c b"
| "core1_step (AskCursor origin query_id) c = fst (query_accept c origin query_id)"
| "core1_step (RelayPacket p) c = handle_channel_relay_msg c p"

definition core1_run :: "core1_op list \<Rightarrow> channel_lifecycle \<Rightarrow> channel_lifecycle" where
  "core1_run ops = fold core1_step ops"

fun core1_ok :: "core1_op \<Rightarrow> bool" where
  "core1_ok (OwePlace body _ _) = (length body = DH_PLACE_BODY_SIZE)"
| "core1_ok (RelayPacket p) = (length (up_data p) = DH_RELAY_PAYLOAD)"
| "core1_ok _ = True"

text \<open>One pass of \<open>channel_task\<close>, with everything the platform answers in it.\<close>

record turn =
  tn_config :: channel_config
  tn_unavailable_sent :: bool
  tn_relay_taken :: "bool list"
  tn_place_gap :: "core1_op list"
  tn_query_gap :: "core1_op list"
  tn_owed_gap :: "core1_op list"
  tn_bits :: "nat \<Rightarrow> u64"
  tn_config_mode :: bool
  tn_usb0 :: "bool \<times> bool \<times> core1_op list"
  tn_usb1 :: "bool \<times> bool \<times> core1_op list"
  tn_now :: u32

fun usb_turn_of :: "bool \<times> bool \<times> core1_op list \<Rightarrow> usb_turn" where
  "usb_turn_of (ready, taken, gap) = \<lparr>ut_ready = ready, ut_taken = taken, ut_between = core1_run gap\<rparr>"

definition turn_platform :: "turn \<Rightarrow> channel_platform" where
  "turn_platform t =
     \<lparr>pf_config = tn_config t, pf_unavailable_sent = tn_unavailable_sent t, pf_relay_taken = tn_relay_taken t,
      pf_place_between = core1_run (tn_place_gap t), pf_query_between = core1_run (tn_query_gap t),
      pf_owed_between = core1_run (tn_owed_gap t)\<rparr>"

definition turn_ok :: "turn \<Rightarrow> bool" where
  "turn_ok t = (list_all core1_ok (tn_place_gap t @ tn_query_gap t @ tn_owed_gap t) \<and> list_all core1_ok (snd (snd (tn_usb0 t))) \<and>
     list_all core1_ok (snd (snd (tn_usb1 t))))"

datatype channel_op =
  Core1 core1_op
| UsbReport byte "byte list"
| LinkLost
| WipeConfig
| PairChord
| ChannelTask turn

fun channel_step :: "uecc \<Rightarrow> channel_op \<Rightarrow> channel \<Rightarrow> channel" where
  "channel_step E (Core1 op) ch = ch\<lparr>ch_lifecycle := core1_step op (ch_lifecycle ch)\<rparr>"
| "channel_step E (UsbReport i b) ch =
     ch\<lparr>ch_lifecycle := channel_lifecycle_receive_channel_report (ch_lifecycle ch) i b\<rparr>"
| "channel_step E LinkLost ch = ch\<lparr>ch_lifecycle := channel_lifecycle_link_lost (ch_lifecycle ch)\<rparr>"
| "channel_step E WipeConfig ch = channel_config_wiped ch"
| "channel_step E PairChord ch = channel_open_pairing_window ch"
| "channel_step E (ChannelTask t) ch =
     fst (channel_task E (turn_platform t) (tn_bits t) (tn_config_mode t) (usb_turn_of (tn_usb0 t))
       (usb_turn_of (tn_usb1 t)) ch (tn_now t))"

definition channel_run :: "uecc \<Rightarrow> channel_op list \<Rightarrow> channel \<Rightarrow> channel" where
  "channel_run E ops = fold (channel_step E) ops"

fun channel_op_ok :: "channel_op \<Rightarrow> bool" where
  "channel_op_ok (Core1 op) = core1_ok op"
| "channel_op_ok (ChannelTask t) = turn_ok t"
| "channel_op_ok _ = True"

text \<open>Reachable channels: what boot and then any operations lead to.\<close>

inductive channel_reachable :: "uecc \<Rightarrow> channel \<Rightarrow> bool" for E where
  boot: "channel_reachable E
    \<lparr>ch_lifecycle = fst (channel_init E build_type channel_static load draws stored),
     ch_config_wiped = False, ch_pairing_window_requested = False\<rparr>"
| step: "channel_reachable E ch \<Longrightarrow> channel_op_ok op \<Longrightarrow> channel_reachable E (channel_step E op ch)"

section \<open>Invariant of the whole channel\<close>

lemma relay_msg_inv:
  assumes "channel_inv c" and "length (up_data p) = 8"
  shows "channel_inv (handle_channel_relay_msg c p)"
proof -
  define pk where "pk = \<lparr>pk_kind = (if up_type p = CHANNEL_START_MSG then DH_RELAY_PKT_START else DH_RELAY_PKT_DATA),
                     pk_data = take 8 (up_data p), pk_len = (8 :: byte)\<rparr>"
  obtain r rc v where x: "dh_relay_rx_push (cl_relay_rx c) pk = (r, rc, v)" by (metis prod_cases3)
  have ok: "packet_ok pk" using assms(2) by (simp add: packet_ok_def pk_def)
  have "rx_inv r" using rx_push_inv [OF _ ok x] assms(1) by (simp add: channel_inv_def)
  moreover have "rx_cap r = rx_cap (cl_relay_rx c)"
    using x by (auto simp: dh_relay_rx_push_def rx_push_start_def rx_push_data_def Let_def split: if_splits sum.splits)
  ultimately have c1: "channel_inv (c\<lparr>cl_relay_rx := r\<rparr>)"
    using assms(1) by (simp add: channel_inv_def report_ring_inv_def)
  have "inq_inv (cl_inbound c)" using assms(1) by (simp add: channel_inv_def)
  then have q: "inq_inv (fst (dh_inq_stage (cl_inbound c) bs))"
      "inq_inv (dh_inq_publish (fst (dh_inq_stage (cl_inbound c) bs)))" for bs
    by (simp_all add: inq.publish_inv inq.stage_inv)
  show ?thesis
    using c1 q x channel_inv_inbound [OF c1]
    by (simp add: handle_channel_relay_msg_def Let_def split_def pk_def [symmetric] split: option.split)
qed

lemma core1_step_inv: "channel_inv c \<Longrightarrow> core1_ok op \<Longrightarrow> channel_inv (core1_step op c)"
  by (cases op) (simp_all add: owe_place_inv relay_msg_inv channel_lifecycle_arrive_def
      channel_lifecycle_peer_board_heartbeat_def query_accept_def Let_def)

lemma core1_run_inv: "channel_inv c \<Longrightarrow> list_all core1_ok ops \<Longrightarrow> channel_inv (core1_run ops c)"
  by (induction ops arbitrary: c) (simp_all add: core1_run_def core1_step_inv)

lemma pump_out_inv:
  assumes c: "channel_inv c" and i: "i < 2" and b: "\<And>c. channel_inv c \<Longrightarrow> channel_inv (ut_between U c)"
    and cur: "\<And>v. oq.current (channel_lifecycle_output c i) v \<Longrightarrow> oq.current (channel_lifecycle_output (ut_between U c) i) v"
  shows "channel_inv (fst (channel_pump_out m U c i))"
proof (cases "dh_outq_peek (channel_lifecycle_output c i)")
  case (Some v)
  note o = output_inv [OF c i]
  have c': "channel_inv (ut_between U c)" using b c by simp
  have v: "oq.current (channel_lifecycle_output (ut_between U c) i) v"
    by (intro cur oq.peek_current [OF o Some])
  have "outq_inv (dh_outq_advance (channel_lifecycle_output (ut_between U c) i) v n)" for n
    using oq.advance [OF output_inv [OF c' i] _ _ _ refl refl, of v n] v by (simp add: oq.current_def)
  with c c' i Some show ?thesis by (simp add: channel_pump_out_def Let_def set_output_inv)
qed (use c in \<open>simp add: channel_pump_out_def\<close>)

text \<open>The other core leaves the outbound queues alone.\<close>

lemma core1_outputs:
  "channel_lifecycle_output (core1_run ops c) i = channel_lifecycle_output c i"
proof (induction ops arbitrary: c)
  case (Cons op ops)
  have "channel_lifecycle_output (core1_step op c) i = channel_lifecycle_output c i"
    by (cases op) (auto simp: channel_lifecycle_output_def channel_lifecycle_owe_place_def channel_lifecycle_arrive_def
        channel_lifecycle_peer_board_heartbeat_def query_accept_def handle_channel_relay_msg_def Let_def split_def
        split: option.split)
  with Cons show ?case by (simp add: core1_run_def)
qed (simp add: core1_run_def)

lemma task_inv:
  assumes "channel_inv (ch_lifecycle ch)" and "turn_ok t"
  shows "channel_inv (ch_lifecycle (channel_step E (ChannelTask t) ch))"
proof -
  have b: "channel_inv (core1_run ops c)" if "list_all core1_ok ops" "channel_inv c" for ops c
    using core1_run_inv that by simp
  have step: "channel_inv (fst (channel_lifecycle_step E (turn_platform t) c (tn_now t)))" if "channel_inv c" for c
    using that b assms(2) by (intro step_inv) (simp_all add: turn_platform_def turn_ok_def)
  have pump: "channel_inv (fst (channel_pump_out m (usb_turn_of u) c i))"
    if "channel_inv c" "i < 2" "list_all core1_ok (snd (snd u))" for m u c i
    using that b by (cases u) (auto intro!: pump_out_inv simp: core1_outputs)
  define c1 where "c1 = (let c = ch_lifecycle ch;
          c = (if ch_config_wiped ch then channel_lifecycle_config_wiped c (tn_now t) else c);
          c = (if ch_pairing_window_requested ch then channel_lifecycle_open_pairing_window c (tn_now t) else c) in
        if dh_session_needs_nonce (cl_session c)
               then c\<lparr>cl_session := dh_session_stage_nonce (cl_session c) (channel_random_bytes (tn_bits t) DH_NONCE_SIZE)\<rparr>
               else c)"
  have c1: "channel_inv c1"
    using assms(1) unfolding c1_def Let_def
    by (auto intro!: channel_inv_session config_wiped_inv simp: channel_lifecycle_open_pairing_window_def channel_count_inv config_wiped_inv)
  define c2 where "c2 = fst (channel_lifecycle_step E (turn_platform t) c1 (tn_now t))"
  define c3 where "c3 = fst (channel_pump_out (tn_config_mode t) (usb_turn_of (tn_usb0 t)) c2 0)"
  have "channel_inv c3" unfolding c3_def c2_def using pump step c1 assms(2) by (simp add: turn_ok_def)
  then have "channel_inv (fst (channel_pump_out (tn_config_mode t) (usb_turn_of (tn_usb1 t)) c3 1))"
    using pump assms(2) by (simp add: turn_ok_def)
  then show ?thesis
    by (simp add: channel_task_def Let_def split_def c3_def c2_def c1_def)
qed

lemma static_inv: "channel_inv (fst (channel_init E b channel_static load draws stored))"
proof -
  define p where "p = channel_load_identity E dh_pair_init load draws"
  show ?thesis
    by (auto simp: channel_init_def Let_def split_def intro!: link_lost_inv)
       (simp add: channel_static_def channel_inv_def report_ring_inv_def outq_init fresh_reader dh_relay_tx_init_def
         dh_relay_rx_init_def rx_inv_def dh_inq_init_inv dh_session_init_def list_all_length)
qed

lemma channel_step_inv:
  assumes "channel_inv (ch_lifecycle ch)" and "channel_op_ok op"
  shows "channel_inv (ch_lifecycle (channel_step E op ch))"
  using assms task_inv
  by (cases op) (auto simp: core1_step_inv receive_report_inv link_lost_inv channel_config_wiped_def
      channel_open_pairing_window_def simp del: channel_step.simps(6))

lemma reachable_inv: "channel_reachable E ch \<Longrightarrow> channel_inv (ch_lifecycle ch)"
  by (induction rule: channel_reachable.induct) (simp_all add: static_inv channel_step_inv)

section \<open>Frames to reports to the helper\<close>

lemma le16_of_le16: "le16 (of_le16 lo hi) = [lo, hi]"
  unfolding le16_def mask8_u16
  by (simp, intro conjI bit_word_eqI) (auto simp: of_le16_def bit_simps dest: bit_imp_le_length)

text \<open>A whole frame is the encoding of its view.\<close>

lemma frame_encoded:
  assumes "is_frame f"
  obtains t fl p where "dh_frame_encode t fl p 4100 = Inr f" and "frame_view f = frame_of t fl p"
proof -
  obtain h where w: "frame_whole f = Some h" using assms by (auto simp: is_frame_def)
  have p: "dh_frame_header_parse f = Inr h" and l: "length f = 4 + unat (fh_len h)"
    using w by (auto simp: frame_whole_def split: sum.splits if_splits)
  have h: "h = \<lparr>fh_type = f ! 0, fh_flags = f ! 1, fh_len = of_le16 (f ! 2) (f ! 3)\<rparr>"
    and k: "unat (fh_len h) \<le> 4096" "dh_msg_type_known (f ! 0)"
    using p by (auto simp: dh_frame_header_parse_def Let_def split: if_splits)
  have four: "take 4 f = [f ! 0, f ! 1, f ! 2, f ! 3]"
    using l by (intro nth_equalityI) (auto simp: less_Suc_eq numeral_eq_Suc)
  have len: "(of_nat (length (drop 4 f)) :: u16) = fh_len h" using l by simp
  have "f = take 4 f @ drop 4 f" by simp
  then have "f = [f ! 0, f ! 1] @ le16 (of_nat (length (drop 4 f))) @ drop 4 f"
    unfolding len unfolding four using h by (simp add: le16_of_le16)
  then have "dh_frame_encode (f ! 0) (f ! 1) (drop 4 f) 4100 = Inr f"
    using k l by (simp add: dh_frame_encode_def Let_def)
  moreover have "frame_view f = frame_of (f ! 0) (f ! 1) (drop 4 f)"
    using whole_frame(1) [OF w] frame_decode_encoded [OF calculation, of "[]"] by simp
  ultimately show thesis using that by blast
qed

text \<open>One report of a frame, at a helper that holds what went before it.\<close>

lemma report_fed:
  assumes f: "is_frame f" and inv: "reader_inv r" and c: "c < length f" and n: "n = min 63 (length f - c)"
    and holds: "0 < c \<Longrightarrow> rd_abs r = take c f"
    and rep: "dh_frame_reader_report r (report_of (c = 0) (take n (drop c f))) = (r', rc)"
  shows "reader_inv r'"
    and "if c + n < length f then rc = Inl DH_FRAME_AGAIN \<and> rd_abs r' = take (c + n) f else rc = Inr (frame_view f)"
proof -
  obtain t fl p where enc: "dh_frame_encode t fl p 4100 = Inr f" and fv: "frame_view f = frame_of t fl p"
    using frame_encoded [OF f] .
  define d where "d = take n (drop c f)"
  define pad where "pad = replicate (63 - length d) DH_FRAME_PAD"
  have d: "d \<noteq> []" "length d = n" using c n by (auto simp: d_def)
  have cut: "f = take c f @ d @ drop (c + n) f"
    unfolding d_def by (metis append_take_drop_id drop_drop add.commute)
  obtain r1 where r1: "reader_inv r1" "rd_abs r1 = take c f" "report_stream r1 (d @ pad) = (r', rc)"
  proof (cases "c = 0")
    case True
    obtain r1 where "dh_frame_reader_report r (DH_REPORT_FRAME_START # (d @ pad)) = report_stream r1 (d @ pad)"
      "reader_inv r1" "rd_abs r1 = []"
      using report_starts [OF inv] by blast
    with that rep True show thesis by (simp add: report_of_def d_def pad_def)
  next
    case False
    then have "rd_abs r \<noteq> []" using holds c by auto
    from report_continues [OF inv this] that [of r] inv holds rep False show thesis
      by (simp add: report_of_def d_def pad_def)
  qed
  show "reader_inv r'" using report_stream_inv [OF r1(1), of "d @ pad"] r1(3) by simp
  show "if c + n < length f then rc = Inl DH_FRAME_AGAIN \<and> rd_abs r' = take (c + n) f else rc = Inr (frame_view f)"
  proof (cases "c + n < length f")
    case True
    then have "pad = []" using n d by (simp add: pad_def)
    have "dh_frame_encode t fl p 4100 = Inr (take c f @ d @ drop (c + n) f)" using enc cut by simp
    with push_buffers [OF this _ r1(1,2)] True obtain r2 where
      "dh_frame_reader_push r1 d = (r2, length d, Inl DH_FRAME_AGAIN)" "rd_abs r2 = take c f @ d" by auto
    with r1(3) \<open>pad = []\<close> True show ?thesis by (simp add: report_stream_def d_def take_add)
  next
    case False
    then have "drop (c + n) f = []" by simp
    with cut enc have "dh_frame_encode t fl p 4100 = Inr (take c f @ d)" by simp
    from push_delivers [OF this d(1) r1(1,2), of pad] obtain r2 where
      "dh_frame_reader_push r1 (d @ pad) = (r2, length d, Inr (frame_of t fl p))" by blast
    with r1(3) False fv show ?thesis by (simp add: report_stream_def pad_def)
  qed
qed

text \<open>The report the pump builds is the report carrier of the codec.\<close>

lemma pump_report_of:
  assumes "length (vw_at v) = unat (vw_remaining v)" and n: "n = min 63 (unat (vw_remaining v))"
  shows "pump_report v = report_of (vw_remaining v = vw_total v) (take n (vw_at v))"
proof -
  have u: "unat (if vw_remaining v < 63 then vw_remaining v else 63) = n"
    by (simp add: n word_less_nat_alt min_def)
  have r: "(replicate 64 x)[0 := b] = b # replicate 63 x" for b x :: byte
    using replicate_Suc [of 63 x] by simp
  have "length (take n (vw_at v)) = n" using assms by simp
  then show ?thesis
    unfolding pump_report_def Let_def u r report_of_def blit_def by (simp add: if_distrib)
qed

text \<open>One interface and the helper behind it. The four ways the firmware touches an outbound queue: a frame
  queued, a placement and its query queued as a pair (interface 0), the queues reset, and a pass of the
  pump, whose report goes to the helper's reader when the USB stack takes it. \<open>st_accepted\<close> and \<open>st_got\<close>
  are the frames this interface accepted and the helper decoded since the last reset; \<open>st_faults\<close> counts
  reader errors of the helper over the whole run.\<close>

datatype stream_op =
  SQueue "byte list" u32
| SPair "byte list" "byte list"
| SReset
| SPump bool bool "core1_op list"

record stream =
  st_c :: channel_lifecycle
  st_helper :: dh_frame_reader
  st_accepted :: "byte list list"
  st_got :: "dh_frame_view list"
  st_faults :: nat

definition helper_reads :: "byte list \<Rightarrow> stream \<Rightarrow> stream" where
  "helper_reads report s =
     (let (r, rc) = dh_frame_reader_report (st_helper s) report in
      case rc of
        Inr v \<Rightarrow> s\<lparr>st_helper := r, st_got := st_got s @ [v]\<rparr>
      | Inl e \<Rightarrow> s\<lparr>st_helper := r, st_faults := (if e = DH_FRAME_AGAIN then st_faults s else Suc (st_faults s))\<rparr>)"

fun stream_step :: "byte \<Rightarrow> stream_op \<Rightarrow> stream \<Rightarrow> stream" where
  "stream_step i (SQueue f now) s =
     (let (c, ok) = channel_lifecycle_queue (st_c s) f now in
      s\<lparr>st_c := c, st_accepted := (if ok \<and> queue_index (st_c s) f = i then st_accepted s @ [f] else st_accepted s)\<rparr>)"
| "stream_step i (SPair f g) s =
     (let (q, rc) = dh_outq_offer_pair (cl_out (st_c s)) f g in
      s\<lparr>st_c := (st_c s)\<lparr>cl_out := q\<rparr>,
        st_accepted := (if rc = DH_OUTQ_OK \<and> i = 0 then st_accepted s @ [f, g] else st_accepted s)\<rparr>)"
| "stream_step i SReset s = s\<lparr>st_c := reset_output (st_c s), st_accepted := [], st_got := []\<rparr>"
| "stream_step i (SPump ready taken gap) s =
     (let (c, rep) = channel_pump_out False (usb_turn_of (ready, taken, gap)) (st_c s) i; s = s\<lparr>st_c := c\<rparr> in
      case rep of None \<Rightarrow> s | Some report \<Rightarrow> helper_reads report s)"

definition stream_run :: "byte \<Rightarrow> stream_op list \<Rightarrow> stream \<Rightarrow> stream" where
  "stream_run i ops = fold (stream_step i) ops"

definition stream_op_ok :: "stream_op \<Rightarrow> bool" where
  "stream_op_ok op = (case op of SPump _ _ gap \<Rightarrow> list_all core1_ok gap | _ \<Rightarrow> True)"

definition stream_acc :: "stream \<Rightarrow> bool \<Rightarrow> byte list list" where
  "stream_acc s b = filter (\<lambda>f. frame_bulk f = b) (st_accepted s)"

definition stream_inv :: "byte \<Rightarrow> stream \<Rightarrow> (bool \<times> byte list) list \<Rightarrow> bool" where
  "stream_inv i s sent =
     (let q = channel_lifecycle_output (st_c s) i in
      channel_inv (st_c s) \<and> (\<exists>w. oq.drained False 63 q sent w (stream_acc s)) \<and>
      list_all is_frame (st_accepted s) \<and> st_got s = map (frame_view \<circ> snd) sent \<and> st_faults s = 0 \<and>
      reader_inv (st_helper s) \<and>
      (\<forall>b. oq_cursor b q > 0 \<longrightarrow> rd_abs (st_helper s) = take (oq_cursor b q) (hd (oq_frames b q))))"

lemma oq_drained_empty:
  assumes "outq_inv q" and "\<And>b. oq_frames b q = []" and "0 < k"
  shows "oq.drained pre k q [] [] (\<lambda>b. [])"
  using oq.empty_band [OF assms(1,2)] assms by (simp add: oq.drained_def oq.part_def)

text \<open>Frames joining the queue leave the frame in flight alone.\<close>

lemma stream_extends:
  assumes inv: "stream_inv i s sent" and c: "channel_inv c'"
    and ext: "oq.extends (channel_lifecycle_output (st_c s) i) ys (channel_lifecycle_output c' i)"
    and acc: "\<And>b. filter (\<lambda>f. frame_bulk f = b) fs = ys b" and fr: "list_all is_frame fs"
  shows "stream_inv i (s\<lparr>st_c := c', st_accepted := st_accepted s @ fs\<rparr>) sent"
proof -
  define q q' where "q = channel_lifecycle_output (st_c s) i" and "q' = channel_lifecycle_output c' i"
  obtain w where d: "oq.drained False 63 q sent w (stream_acc s)"
    using inv by (auto simp: stream_inv_def Let_def q_def)
  have e: "oq.extends q ys q'" using ext by (simp add: q_def q'_def)
  have oinv: "outq_inv q" using d by (simp add: oq.drained_def)
  have "stream_acc (s\<lparr>st_c := c', st_accepted := st_accepted s @ fs\<rparr>) = (\<lambda>b. stream_acc s b @ ys b)"
    using acc by (simp add: stream_acc_def fun_eq_iff)
  with oq.drained_extends [OF d e]
  have "oq.drained False 63 q' sent w (stream_acc (s\<lparr>st_c := c', st_accepted := st_accepted s @ fs\<rparr>))" by simp
  moreover have "oq_cursor b q' = oq_cursor b q" for b using e by (simp add: oq.extends_def)
  moreover have "hd (oq_frames b q') = hd (oq_frames b q)" if "oq_cursor b q > 0" for b
    using e oq.empty_band [OF oinv, of b] that by (cases "oq_frames b q") (auto simp: oq.extends_def)
  ultimately show ?thesis
    using inv c fr by (auto simp: stream_inv_def Let_def q_def [symmetric] q'_def [symmetric])
qed

lemma output_set [simp]:
  "channel_inv c \<Longrightarrow> i < 2 \<Longrightarrow> j < 2 \<Longrightarrow>
   channel_lifecycle_output (set_output c i q) j = (if i = j then q else channel_lifecycle_output c j)"
  using byte_lt_2 [of i] byte_lt_2 [of j]
  by (auto simp: channel_lifecycle_output_def set_output_def channel_inv_def)

lemma output_fields [simp]:
  "channel_lifecycle_output (c\<lparr>cl_next_striped := n\<rparr>) j = channel_lifecycle_output c j"
  "channel_lifecycle_output (c\<lparr>cl_session := s\<rparr>) j = channel_lifecycle_output c j"
  "channel_lifecycle_output (c\<lparr>cl_tx := tx\<rparr>) j = channel_lifecycle_output c j"
  by (simp_all add: channel_lifecycle_output_def)

lemma queue_outputs:
  assumes "channel_inv c" and "channel_lifecycle_queue c f now = (c', ok)" and "j < 2"
  shows "ok \<longleftrightarrow> snd (dh_outq_offer (channel_lifecycle_output c (queue_index c f)) f) = DH_OUTQ_OK"
    and "channel_lifecycle_output c' j =
      (if queue_index c f = j then fst (dh_outq_offer (channel_lifecycle_output c j) f) else channel_lifecycle_output c j)"
  using assms(2) queue_index_lt [OF assms(1), of f] output_set [OF assms(1) _ assms(3)]
  unfolding queue_unfold Let_def by (auto simp: split_def)

lemma extends_refl: "outq_inv q \<Longrightarrow> oq.extends q (\<lambda>b. []) q"
  by (simp add: oq.extends_def)

lemma offer_ok_frame: "dh_outq_offer q f = (q', DH_OUTQ_OK) \<Longrightarrow> is_frame f"
  by (auto simp: dh_outq_offer_def is_frame_def split: option.splits)

lemma stream_queue:
  assumes inv: "stream_inv i s sent" and i: "i < 2"
  shows "stream_inv i (stream_step i (SQueue f now) s) sent"
proof -
  obtain c' ok where q: "channel_lifecycle_queue (st_c s) f now = (c', ok)" by fastforce
  have c: "channel_inv (st_c s)" using inv by (simp add: stream_inv_def Let_def)
  have c': "channel_inv c'" using queue_inv [OF c, of f now] q by simp
  note o = queue_outputs [OF c q i]
  define k where "k = queue_index (st_c s) f"
  define x where "x = channel_lifecycle_output (st_c s) i"
  obtain q1 rc where off: "dh_outq_offer x f = (q1, rc)" by fastforce
  have oinv: "outq_inv x" unfolding x_def by (rule output_inv [OF c i])
  show ?thesis
  proof (cases "k = i")
    case True
    have ok: "ok = (rc = DH_OUTQ_OK)" "channel_lifecycle_output c' i = q1"
      using o off True by (simp_all add: k_def x_def)
    have e: "oq.extends x (offered f rc) q1" by (rule offer_extends [OF oinv off])
    define fs where "fs = (if ok then [f] else [])"
    have fr: "list_all is_frame fs" using offer_ok_frame off ok by (auto simp: fs_def)
    have "filter (\<lambda>f. frame_bulk f = b) fs = offered f rc b" for b
      using fr ok by (auto simp: fs_def offered_alt)
    from stream_extends [OF inv c' _ this fr] e ok
    have "stream_inv i (s\<lparr>st_c := c', st_accepted := st_accepted s @ fs\<rparr>) sent" by (simp add: x_def)
    with q True show ?thesis by (simp add: k_def fs_def split: if_splits)
  next
    case False
    then have "channel_lifecycle_output c' i = x" using o by (simp add: k_def x_def)
    with stream_extends [OF inv c', of "\<lambda>b. []" "[]"] extends_refl [OF oinv]
    have "stream_inv i (s\<lparr>st_c := c', st_accepted := st_accepted s @ []\<rparr>) sent" by (simp add: x_def)
    with q False show ?thesis by (simp add: k_def)
  qed
qed

lemma pair_frames:
  assumes "dh_outq_offer_pair q f g = (q', DH_OUTQ_OK)"
  shows "is_frame f" "is_frame g" "\<not> frame_bulk f" "\<not> frame_bulk g"
  using assms whole_frame(4)
  by (auto simp: dh_outq_offer_pair_def is_frame_def split: option.splits if_splits)

lemma stream_pair:
  assumes inv: "stream_inv i s sent" and i: "i < 2"
  shows "stream_inv i (stream_step i (SPair f g) s) sent"
proof -
  define x where "x = cl_out (st_c s)"
  obtain q rc where off: "dh_outq_offer_pair x f g = (q, rc)" by fastforce
  have c: "channel_inv (st_c s)" using inv by (simp add: stream_inv_def Let_def)
  then have oinv: "outq_inv x" by (simp add: channel_inv_def x_def)
  have e: "oq.extends x (pair_offered f g rc) q" by (rule offer_pair_extends [OF oinv off])
  then have c': "channel_inv ((st_c s)\<lparr>cl_out := q\<rparr>)"
    using c by (simp add: channel_inv_def report_ring_inv_def oq.extends_def)
  show ?thesis
  proof (cases "i = 0")
    case True
    define fs where "fs = (if rc = DH_OUTQ_OK then [f, g] else [])"
    have fr: "list_all is_frame fs" "filter (\<lambda>f. frame_bulk f = b) fs = pair_offered f g rc b" for b
      using pair_frames off by (auto simp: fs_def pair_offered_def)
    have o: "channel_lifecycle_output (st_c s) i = x" "channel_lifecycle_output ((st_c s)\<lparr>cl_out := q\<rparr>) i = q"
      using True by (simp_all add: channel_lifecycle_output_def x_def)
    from stream_extends [OF inv c' _ fr(2,1)] e
    have "stream_inv i (s\<lparr>st_c := (st_c s)\<lparr>cl_out := q\<rparr>, st_accepted := st_accepted s @ fs\<rparr>) sent" by (simp add: o)
    with off True show ?thesis by (simp add: x_def fs_def split: if_splits)
  next
    case False
    then have "channel_lifecycle_output ((st_c s)\<lparr>cl_out := q\<rparr>) i = channel_lifecycle_output (st_c s) i"
      by (simp add: channel_lifecycle_output_def)
    with stream_extends [OF inv c', of "\<lambda>b. []" "[]"] extends_refl [OF output_inv [OF c i]]
    have "stream_inv i (s\<lparr>st_c := (st_c s)\<lparr>cl_out := q\<rparr>, st_accepted := st_accepted s @ []\<rparr>) sent" by simp
    with off False show ?thesis by (simp add: x_def)
  qed
qed

lemma output_reset:
  assumes "channel_inv c" and "i < 2"
  shows "channel_lifecycle_output (reset_output c) i = dh_outq_reset (channel_lifecycle_output c i)"
  using byte_lt_2 [OF assms(2)] assms(1)
  by (auto simp: channel_lifecycle_output_def reset_output_def channel_inv_def)

lemma stream_reset:
  assumes inv: "stream_inv i s sent" and i: "i < 2"
  shows "stream_inv i (stream_step i SReset s) []"
proof -
  have c: "channel_inv (st_c s)" using inv by (simp add: stream_inv_def Let_def)
  define q where "q = channel_lifecycle_output (reset_output (st_c s)) i"
  have q: "outq_inv q" "\<And>b. oq_frames b q = []" by (simp_all add: q_def output_reset [OF c i] outq_reset)
  then have "oq.drained False 63 q [] [] (\<lambda>b. [])" "\<And>b. oq_cursor b q = 0"
    using oq_drained_empty [OF q] oq.empty_band [OF q] by simp_all
  moreover have "stream_acc (stream_step i SReset s) = (\<lambda>b. [])" by (simp add: stream_acc_def fun_eq_iff)
  ultimately show ?thesis
    using inv reset_output_inv [OF c] by (auto simp: stream_inv_def Let_def q_def [symmetric])
qed

lemma stream_frame:
  assumes "stream_inv i s sent" and "f \<in> set (oq_frames b (channel_lifecycle_output (st_c s) i))"
  shows "is_frame f"
proof -
  obtain w where "oq.drained False 63 (channel_lifecycle_output (st_c s) i) sent w (stream_acc s)"
    using assms(1) by (auto simp: stream_inv_def Let_def)
  then have "f \<in> set (stream_acc s b)" using assms(2) by (auto simp: oq.drained_def)
  then show ?thesis using assms(1) by (auto simp: stream_acc_def stream_inv_def Let_def list_all_iff)
qed

text \<open>The pump when a report goes out: which queue it leaves, and which report it is.\<close>

lemma pump_taken:
  assumes "dh_outq_peek (channel_lifecycle_output c i) = Some v" and "vw_remaining v \<noteq> 0"
    and n: "n = (if vw_remaining v < 63 then vw_remaining v else 63)"
  shows "channel_pump_out False (usb_turn_of (True, True, gap)) c i =
    (set_output (core1_run gap c) i (dh_outq_advance (channel_lifecycle_output c i) v n), Some (pump_report v))"
  using assms by (auto simp: channel_pump_out_def Let_def core1_outputs)

lemma stream_pump_taken:
  assumes inv: "stream_inv i s sent" and i: "i < 2" and gap: "list_all core1_ok gap"
    and pk: "dh_outq_peek (channel_lifecycle_output (st_c s) i) = Some v"
  obtains sent' where "stream_inv i (stream_step i (SPump True True gap) s) (sent @ sent')"
    and "oq.backlog (channel_lifecycle_output (st_c (stream_step i (SPump True True gap) s)) i) <
      oq.backlog (channel_lifecycle_output (st_c s) i)"
    and "st_accepted (stream_step i (SPump True True gap) s) = st_accepted s"
proof -
  define q where "q = channel_lifecycle_output (st_c s) i"
  define n where "n = (if vw_remaining v < 63 then vw_remaining v else 63)"
  define b f c m where "b = vw_bulk v" and "f = hd (oq_frames b q)" and "c = oq_cursor b q" and "m = min 63 (length f - c)"
  define q' where "q' = dh_outq_advance q v n"
  obtain w where d: "oq.drained False 63 q sent w (stream_acc s)"
    using inv by (auto simp: stream_inv_def Let_def q_def)
  then have oinv: "outq_inv q" by (simp add: oq.drained_def)
  have ch: "channel_inv (st_c s)" using inv by (simp add: stream_inv_def Let_def)
  note cur = oq.peek_current [OF oinv pk [folded q_def]]
  have ne: "oq_frames b q \<noteq> []" and idle: "oq_cursor (\<not> b) q = 0" "\<not> oq_primed (\<not> b) q"
    and at: "vw_at v = drop c f" and rem: "unat (vw_remaining v) = length f - c" and tot: "unat (vw_total v) = length f"
    using cur by (auto simp: oq.current_def b_def f_def c_def)
  have cl: "c < length f" using oq.cursor_lt [OF oinv ne] by (simp add: c_def f_def)
  have nz: "vw_remaining v \<noteq> 0" using rem cl by auto
  have n_m: "unat n = m" "unat n = min 63 (unat (vw_remaining v))"
    by (simp_all add: n_def m_def rem [symmetric] word_less_nat_alt min_def)
  obtain sent' where d': "oq.drained False 63 q' (sent @ sent')
       (w @ [Piece (vw_remaining v = vw_total v) (take (unat n) (vw_at v))]) (stream_acc s)"
    and sent': "sent' = (if unat n = unat (vw_remaining v) then [(vw_bulk v, hd (oq_frames (vw_bulk v) q))] else [])"
    using oq.drained_advance [OF d cur _ _ n_m(2)] unfolding q'_def by auto
  note a = oq.advance [OF oinv ne [unfolded b_def] idle [unfolded b_def] q'_def refl, folded b_def, folded c_def f_def, unfolded n_m(1)]
  have fr: "is_frame f" using stream_frame [OF inv, of f b] ne by (simp add: f_def q_def)
  have r: "reader_inv (st_helper s)" and holds: "0 < c \<Longrightarrow> rd_abs (st_helper s) = take c f"
    using inv by (simp_all add: stream_inv_def Let_def q_def f_def c_def)
  have first: "(vw_remaining v = vw_total v) = (c = 0)"
    using rem tot cl by (metis diff_zero unsigned_word_eqI less_imp_le_nat diff_diff_cancel diff_self_eq_0)
  have lat: "length (vw_at v) = unat (vw_remaining v)" by (simp add: at rem)
  have rep: "pump_report v = report_of (c = 0) (take m (drop c f))"
    using pump_report_of [OF lat, of m] by (simp add: first at rem m_def)
  obtain r' rc where push: "dh_frame_reader_report (st_helper s) (report_of (c = 0) (take m (drop c f))) = (r', rc)"
    by fastforce
  note fed = report_fed [OF fr r cl m_def holds push]
  define c1 where "c1 = core1_run gap (st_c s)"
  have c1: "channel_inv c1" unfolding c1_def by (rule core1_run_inv [OF ch gap])
  define s' where "s' = stream_step i (SPump True True gap) s"
  have pump: "channel_pump_out False (usb_turn_of (True, True, gap)) (st_c s) i = (set_output c1 i q', Some (pump_report v))"
    using pump_taken [OF pk nz n_def, of gap] by (simp add: c1_def q'_def q_def)
  have out': "channel_lifecycle_output (set_output c1 i q') i = q'" using output_set [OF c1 i i] by simp
  have s': "st_c s' = set_output c1 i q'" "st_helper s' = r'" "st_accepted s' = st_accepted s"
    "st_got s' = (case rc of Inr x \<Rightarrow> st_got s @ [x] | Inl _ \<Rightarrow> st_got s)"
    "st_faults s' = (case rc of Inr x \<Rightarrow> st_faults s | Inl e \<Rightarrow> if e = DH_FRAME_AGAIN then st_faults s else Suc (st_faults s))"
    using pump push rep
    by (simp_all add: s'_def helper_reads_def Let_def split: sum.split del: usb_turn_of.simps)
  have acc: "stream_acc s' = stream_acc s" by (simp add: stream_acc_def s' fun_eq_iff)
  have "channel_inv (st_c s')" unfolding s'(1) using a by (intro set_output_inv [OF c1 i]) simp
  note base = this out' [folded s'(1)] d' fed(1) s' acc
  have inv': "stream_inv i s' (sent @ sent')"
  proof (cases "c + m < length f")
    case True
    then have "sent' = []" "rc = Inl DH_FRAME_AGAIN" "rd_abs r' = take (c + m) f"
      using sent' rem cl fed(2) by (simp_all add: n_m(1))
    moreover have "hd (oq_frames e q') = f \<and> oq_cursor e q' = c + m" if "oq_cursor e q' > 0" for e
      using that a True by (cases e; cases b) (auto simp: f_def)
    ultimately show ?thesis
      using inv base by (auto simp: stream_inv_def Let_def)
  next
    case False
    then have "sent' = [(b, f)]" "rc = Inr (frame_view f)"
      using sent' rem cl fed(2) by (auto simp: n_m(1) m_def b_def f_def)
    moreover have "oq_cursor e q' = 0" for e using a False by (cases e; cases b) auto
    ultimately show ?thesis
      using inv base by (auto simp: stream_inv_def Let_def)
  qed
  have "oq.backlog q' < oq.backlog q"
    unfolding q'_def by (rule oq.backlog_advance [OF oinv cur]) (use n_m rem cl in simp)
  then show thesis
    using that inv' s'(1,3) out' by (simp add: s'_def q_def)
qed

lemma stream_pump_idle:
  assumes inv: "stream_inv i s sent" and i: "i < 2" and gap: "list_all core1_ok gap"
    and idle: "\<not> (ready \<and> taken) \<or> dh_outq_peek (channel_lifecycle_output (st_c s) i) = None"
  shows "stream_inv i (stream_step i (SPump ready taken gap) s) sent"
    and "st_accepted (stream_step i (SPump ready taken gap) s) = st_accepted s"
proof -
  have ch: "channel_inv (st_c s)" using inv by (simp add: stream_inv_def Let_def)
  have oinv: "outq_inv (channel_lifecycle_output (st_c s) i)" by (rule output_inv [OF ch i])
  obtain c' where p: "channel_pump_out False (usb_turn_of (ready, taken, gap)) (st_c s) i = (c', None)"
    and c': "c' = st_c s \<or> c' = core1_run gap (st_c s)"
  proof (rule that)
    let ?U = "usb_turn_of (ready, taken, gap)"
    show "channel_pump_out False ?U (st_c s) i = (fst (channel_pump_out False ?U (st_c s) i), None)"
      using idle by (cases ready; cases taken) (simp_all add: channel_pump_out_def Let_def split: option.split)
    show "fst (channel_pump_out False ?U (st_c s) i) = st_c s \<or> fst (channel_pump_out False ?U (st_c s) i) = core1_run gap (st_c s)"
      using idle by (cases ready; cases taken) (simp_all add: channel_pump_out_def Let_def split: option.split)
  qed
  have "channel_inv c'" using c' ch core1_run_inv [OF ch gap] by auto
  moreover have "channel_lifecycle_output c' i = channel_lifecycle_output (st_c s) i"
    using c' by (auto simp: core1_outputs)
  ultimately have "stream_inv i (s\<lparr>st_c := c', st_accepted := st_accepted s @ []\<rparr>) sent"
    using stream_extends [OF inv, of c' "\<lambda>b. []" "[]"] extends_refl [OF oinv] by simp
  with p show "stream_inv i (stream_step i (SPump ready taken gap) s) sent"
    "st_accepted (stream_step i (SPump ready taken gap) s) = st_accepted s"
    by (simp_all del: usb_turn_of.simps)
qed

lemma stream_step_inv:
  assumes "stream_inv i s sent" and "i < 2" and "stream_op_ok op"
  shows "\<exists>sent'. stream_inv i (stream_step i op s) sent'"
proof (cases op)
  case (SPump ready taken gap)
  then have gap: "list_all core1_ok gap" using assms(3) by (simp add: stream_op_ok_def)
  show ?thesis
  proof (cases "\<not> (ready \<and> taken) \<or> dh_outq_peek (channel_lifecycle_output (st_c s) i) = None")
    case True
    with stream_pump_idle [OF assms(1,2) gap] SPump show ?thesis by blast
  next
    case False
    then obtain v where "ready" "taken" "dh_outq_peek (channel_lifecycle_output (st_c s) i) = Some v" by auto
    with stream_pump_taken [OF assms(1,2) gap] SPump show ?thesis by metis
  qed
qed (use assms stream_queue stream_pair stream_reset in blast)+

lemma stream_run_inv:
  "stream_inv i s sent \<Longrightarrow> i < 2 \<Longrightarrow> list_all stream_op_ok ops \<Longrightarrow> \<exists>sent'. stream_inv i (stream_run i ops s) sent'"
proof (induction ops arbitrary: s sent)
  case (Cons op ops)
  have "stream_op_ok op" using Cons(4) by simp
  from stream_step_inv [OF Cons(2,3) this] obtain u where "stream_inv i (stream_step i op s) u" by blast
  with Cons show ?case by (simp add: stream_run_def)
qed (auto simp: stream_run_def)

definition stream_init :: "channel_lifecycle \<Rightarrow> dh_frame_reader \<Rightarrow> stream" where
  "stream_init c r = \<lparr>st_c = reset_output c, st_helper = r, st_accepted = [], st_got = [], st_faults = 0\<rparr>"

lemma stream_init_inv:
  assumes "channel_inv c" and "reader_inv r" and "i < 2"
  shows "stream_inv i (stream_init c r) []"
proof -
  define q where "q = channel_lifecycle_output (reset_output c) i"
  have q: "outq_inv q" "\<And>b. oq_frames b q = []" by (simp_all add: q_def output_reset [OF assms(1,3)] outq_reset)
  then have "oq.drained False 63 q [] [] (\<lambda>b. [])" "\<And>b. oq_cursor b q = 0"
    using oq_drained_empty [OF q] oq.empty_band [OF q] by simp_all
  then show ?thesis
    using assms reset_output_inv [OF assms(1)]
    by (auto simp: stream_inv_def Let_def stream_init_def q_def [symmetric] stream_acc_def [abs_def])
qed

lemma stream_inv_summary:
  assumes "stream_inv i s sent"
  shows "st_got s = map frame_view (map snd sent)" and "st_faults s = 0"
    and "filter (\<lambda>f. frame_bulk f = b) (st_accepted s) =
      filter (\<lambda>f. frame_bulk f = b) (map snd sent) @ oq_frames b (channel_lifecycle_output (st_c s) i)"
proof -
  define q where "q = channel_lifecycle_output (st_c s) i"
  obtain w where d: "oq.drained False 63 q sent w (stream_acc s)"
    using assms by (auto simp: stream_inv_def Let_def q_def)
  then have eq: "stream_acc s e = map snd (filter (\<lambda>(b', f). b' = e) sent) @ oq_frames e q" for e
    by (simp add: oq.drained_def)
  have "frame_bulk f = e" if "(e, f) \<in> set sent" for e f
  proof -
    have "f \<in> set (stream_acc s e)" unfolding eq using that by force
    then show ?thesis by (simp add: stream_acc_def)
  qed
  then have "filter (\<lambda>f. frame_bulk f = b) (map snd sent) = map snd (filter (\<lambda>(b', f). b' = b) sent)"
    unfolding filter_map by (auto intro!: arg_cong [where f = "map snd"] filter_cong)
  with eq [of b] show "filter (\<lambda>f. frame_bulk f = b) (st_accepted s) =
      filter (\<lambda>f. frame_bulk f = b) (map snd sent) @ oq_frames b (channel_lifecycle_output (st_c s) i)"
    by (simp add: stream_acc_def q_def)
qed (use assms in \<open>simp_all add: stream_inv_def Let_def\<close>)

lemma stream_drains:
  assumes "stream_inv i s sent" and "i < 2"
  shows "\<exists>n sent'. stream_inv i (stream_run i (replicate n (SPump True True [])) s) (sent @ sent') \<and>
    (\<forall>b. oq_frames b (channel_lifecycle_output (st_c (stream_run i (replicate n (SPump True True [])) s)) i) = []) \<and>
    st_accepted (stream_run i (replicate n (SPump True True [])) s) = st_accepted s"
  using assms(1)
proof (induction "oq.backlog (channel_lifecycle_output (st_c s) i)" arbitrary: s sent rule: less_induct)
  case less
  have oinv: "outq_inv (channel_lifecycle_output (st_c s) i)"
    using less(2) output_inv [OF _ assms(2)] by (simp add: stream_inv_def Let_def)
  show ?case
  proof (cases "dh_outq_peek (channel_lifecycle_output (st_c s) i)")
    case None
    then have "\<forall>b. oq_frames b (channel_lifecycle_output (st_c s) i) = []" using oq.peek_None [OF oinv] by simp
    with less(2) show ?thesis by (intro exI [of _ 0] exI [of _ "[]"]) (simp add: stream_run_def)
  next
    case (Some v)
    define s1 where "s1 = stream_step i (SPump True True []) s"
    obtain u where u: "stream_inv i s1 (sent @ u)"
      "oq.backlog (channel_lifecycle_output (st_c s1) i) < oq.backlog (channel_lifecycle_output (st_c s) i)"
      "st_accepted s1 = st_accepted s"
      unfolding s1_def using stream_pump_taken [OF less(2) assms(2) _ Some, of "[]"] by (metis list.pred_inject(1))
    from less(1) [OF u(2,1)] obtain n sent' where
      n: "stream_inv i (stream_run i (replicate n (SPump True True [])) s1) ((sent @ u) @ sent')"
        "\<forall>b. oq_frames b (channel_lifecycle_output (st_c (stream_run i (replicate n (SPump True True [])) s1)) i) = []"
        "st_accepted (stream_run i (replicate n (SPump True True [])) s1) = st_accepted s1" by blast
    have "stream_run i (replicate (Suc n) (SPump True True [])) s = stream_run i (replicate n (SPump True True [])) s1"
      by (simp add: stream_run_def s1_def del: stream_step.simps)
    with n u(3) show ?thesis by (intro exI [of _ "Suc n"] exI [of _ "u @ sent'"]) simp
  qed
qed

end
