(* ===== verification/DH_Channel_Spec.thy ===== *)
theory DH_Channel_Spec
  imports DH_Channel
begin

text \<open>
  What the helper channel promises, over the model of \<open>src/src/channel.c\<close> and
  \<open>src/src/channel_lifecycle.c\<close>: memory safety of every reachable state, the frame stream to the helper
  (loss-free, in order, draining), what a helper's frame may cause beyond its session, the path of a frame
  across the two boards, the clean stream behind a handshake, the placement pair and the report ring.
\<close>


section \<open>Properties\<close>

text \<open>C1. Memory safety of the whole channel: whatever boot and any interleaving of USB reports, inter-board
  packets, requests of the other core, wipes, pairing chords, lost links and passes of the task lead to,
  every outbound queue, reader, relay buffer, inbound ring and report ring is well formed and within its
  bounds.\<close>

theorem channel_memory_safe:
  assumes "channel_reachable E ch"
  shows "channel_inv (ch_lifecycle ch)"
  using assms by (rule reachable_inv)

definition booted :: channel where
  "booted = \<lparr>ch_lifecycle = fst (channel_init toy_uecc 0 channel_static None [] None),
     ch_config_wiped = False, ch_pairing_window_requested = False\<rparr>"

lemma booted_reachable: "channel_reachable toy_uecc booted"
  unfolding booted_def by (rule channel_reachable.boot)

theorem channel_memory_safe_witness:
  "channel_inv (ch_lifecycle (channel_run toy_uecc [UsbReport 1 [1, 2, 3], Core1 (PeerBeat True), LinkLost] booted))"
proof -
  have "channel_reachable toy_uecc (channel_run toy_uecc [UsbReport 1 [1, 2, 3], Core1 (PeerBeat True), LinkLost] booted)"
    unfolding channel_run_def fold_simps comp_def id_apply
    by (intro channel_reachable.step booted_reachable) simp_all
  then show ?thesis by (rule channel_memory_safe)
qed

text \<open>C4. The stream to the helper, on either interface: frames and placement pairs queued in any order, the
  pump run on an interface that may not be ready or may refuse the report, the other core at work in every
  gap, and the queues reset behind a new handshake. Since the last reset the helper has decoded, in order,
  exactly the frames sent, without a reader error in the whole run; and in each band the frames accepted
  are the frames sent followed by the frames still queued: none lost, duplicated, reordered or torn.\<close>

theorem channel_stream_fifo:
  assumes "channel_inv c" and "reader_inv r" and "i < 2" and "list_all stream_op_ok ops"
  defines "s \<equiv> stream_run i ops (stream_init c r)"
  shows "\<exists>sent. st_got s = map frame_view sent \<and> st_faults s = 0 \<and>
    (\<forall>b. filter (\<lambda>f. frame_bulk f = b) (st_accepted s) =
      filter (\<lambda>f. frame_bulk f = b) sent @ oq_frames b (channel_lifecycle_output (st_c s) i))"
proof -
  obtain sent where "stream_inv i s sent"
    using stream_run_inv [OF stream_init_inv [OF assms(1-3)] assms(3,4)] by (auto simp: s_def)
  from stream_inv_summary [OF this] show ?thesis by (intro exI [of _ "map snd sent"]) simp
qed

text \<open>C23. The queue drains: from any such state a finite number of passes on a ready interface delivers to
  the helper every frame accepted, in order within its band, and leaves both bands empty.\<close>

theorem channel_stream_drains:
  assumes "channel_inv c" and "reader_inv r" and "i < 2" and "list_all stream_op_ok ops"
  shows "\<exists>n. let s = stream_run i (ops @ replicate n (SPump True True [])) (stream_init c r) in
    st_accepted s = st_accepted (stream_run i ops (stream_init c r)) \<and>
    (\<exists>sent. st_got s = map frame_view sent \<and>
      (\<forall>b. filter (\<lambda>f. frame_bulk f = b) sent = filter (\<lambda>f. frame_bulk f = b) (st_accepted s) \<and>
        oq_frames b (channel_lifecycle_output (st_c s) i) = []))"
proof -
  define s where "s = stream_run i ops (stream_init c r)"
  obtain sent where "stream_inv i s sent"
    using stream_run_inv [OF stream_init_inv [OF assms(1-3)] assms(3,4)] by (auto simp: s_def)
  from stream_drains [OF this assms(3)] obtain n sent' where
    n: "stream_inv i (stream_run i (replicate n (SPump True True [])) s) (sent @ sent')"
      "\<forall>b. oq_frames b (channel_lifecycle_output (st_c (stream_run i (replicate n (SPump True True [])) s)) i) = []"
      "st_accepted (stream_run i (replicate n (SPump True True [])) s) = st_accepted s" by blast
  have "stream_run i (ops @ replicate n (SPump True True [])) (stream_init c r) = stream_run i (replicate n (SPump True True [])) s"
    by (simp add: stream_run_def s_def)
  with n stream_inv_summary [OF n(1)] show ?thesis
    by (intro exI [of _ n]) (auto simp: Let_def s_def intro!: exI [of _ "map snd (sent @ sent')"])
qed

text \<open>One frame, queued on a board just booted.\<close>

lemma booted_inv: "channel_inv (ch_lifecycle booted)"
  using reachable_inv [OF booted_reachable] .

definition demo_ops :: "stream_op list" where
  "demo_ops = [SQueue [0x20, 0, 1, 0, 9] 5, SPump False True [], SPump True True [PeerBeat True]]"

lemma demo_accepted:
  "st_accepted (stream_run 0 [SQueue [0x20, 0, 1, 0, 9] 5] (stream_init (ch_lifecycle booted) fresh_reader)) = [[0x20, 0, 1, 0, 9]]"
proof -
  define c where "c = reset_output (ch_lifecycle booted)"
  define f :: "byte list" where "f = [0x20, 0, 1, 0, 9]"
  have c: "channel_inv c" unfolding c_def by (rule reset_output_inv [OF booted_inv])
  have q: "queue_index c f = 0" by (simp add: queue_index_def f_def dh_msg_is_striped_def)
  have o: "channel_lifecycle_output c 0 = dh_outq_reset (channel_lifecycle_output (ch_lifecycle booted) 0)"
    unfolding c_def by (rule output_reset [OF booted_inv]) simp
  have "outq_room (channel_lifecycle_output c 0) f"
    unfolding o by (simp add: outq_room_def frame_whole_def dh_frame_header_parse_def dh_msg_type_known_def
        dh_msg_types_def of_le16_def dh_msg_is_bulk_def f_def outq_reset)
  then have "snd (dh_outq_offer (channel_lifecycle_output c 0) f) = DH_OUTQ_OK"
    using offer_ok_iff(1) [OF output_inv [OF c, of 0] prod.collapse [symmetric]] by simp
  then have "snd (channel_lifecycle_queue c f 5)"
    using queue_outputs(1) [OF c prod.collapse [symmetric], of 0] q by simp
  with q show ?thesis
    by (simp add: stream_run_def stream_init_def split_def c_def [symmetric] f_def [symmetric])
qed

theorem channel_stream_fifo_witness:
  "\<exists>sent. let s = stream_run 0 demo_ops (stream_init (ch_lifecycle booted) fresh_reader) in
    st_got s = map frame_view sent \<and> st_faults s = 0 \<and>
    (\<forall>b. filter (\<lambda>f. frame_bulk f = b) (st_accepted s) =
      filter (\<lambda>f. frame_bulk f = b) sent @ oq_frames b (channel_lifecycle_output (st_c s) 0))"
  using channel_stream_fifo [OF booted_inv fresh_reader(1), of 0 demo_ops]
  by (simp add: demo_ops_def stream_op_ok_def Let_def)

theorem channel_stream_drains_witness:
  "\<exists>n sent. st_got (stream_run 0 (SQueue [0x20, 0, 1, 0, 9] 5 # replicate n (SPump True True []))
      (stream_init (ch_lifecycle booted) fresh_reader)) = map frame_view sent \<and>
    (\<forall>b. filter (\<lambda>f. frame_bulk f = b) sent = filter (\<lambda>f. frame_bulk f = b) [[0x20, 0, 1, 0, 9]])"
proof -
  define S where "S n = stream_run 0 (SQueue [0x20, 0, 1, 0, 9] 5 # replicate n (SPump True True []))
      (stream_init (ch_lifecycle booted) fresh_reader)" for n
  note d = channel_stream_drains [OF booted_inv fresh_reader(1), of 0 "[SQueue [0x20, 0, 1, 0, 9] 5]",
    unfolded demo_accepted append_Cons append_Nil, folded S_def]
  obtain n sent where "st_accepted (S n) = [[0x20, 0, 1, 0, 9]]" "st_got (S n) = map frame_view sent"
    "\<forall>b. filter (\<lambda>f. frame_bulk f = b) sent = filter (\<lambda>f. frame_bulk f = b) (st_accepted (S n))"
    using d by (auto simp: stream_op_ok_def Let_def)
  then show ?thesis unfolding S_def [symmetric] by (intro exI [of _ n] exI [of _ sent]) (simp del: filter.simps)
qed


text \<open>When a frame of the helper is let through: a session exists, the frame holds a counter and a tag, and on a release build the tag
  verifies under the session's inbound key and the counter is admissible.\<close>

definition frame_admitted :: "dh_session \<Rightarrow> dh_frame_view \<Rightarrow> bool" where
  "frame_admitted s f =
     (se_present s \<and> 24 \<le> length (fv_payload f) \<and>
      (se_build_type s = DH_BUILD_DEVELOPMENT \<or>
       tag_verifies (se_k_h2b s) (fv_hdr f) (fv_payload f) \<and> dh_auth_counter_ok (se_rx s) (of_le_bytes (take 8 (fv_payload f)))))"

lemma authenticate_cases:
  assumes "view_ok f"
  shows "frame_admitted s f \<Longrightarrow> snd (dh_session_authenticate s f now) = Inr (drop 24 (fv_payload f))"
    and "\<not> frame_admitted s f \<Longrightarrow> isl (snd (dh_session_authenticate s f now))"
proof -
  have l: "length (fv_payload f) = unat (fh_len (fv_hdr f))" using assms by (simp add: view_ok_def)
  have "snd (dh_session_authenticate s f now) =
      (if \<not> se_present s then Inl DH_AUTH_ERR_NO_KEY else if length (fv_payload f) < 24 then Inl DH_AUTH_ERR_SHORT
       else if se_build_type s = DH_BUILD_DEVELOPMENT then Inr (drop 24 (fv_payload f))
       else if \<not> tag_verifies (se_k_h2b s) (fv_hdr f) (fv_payload f) then Inl DH_AUTH_ERR_TAG
       else if \<not> dh_auth_counter_ok (se_rx s) (of_le_bytes (take 8 (fv_payload f))) then Inl DH_AUTH_ERR_COUNTER
       else Inr (drop 24 (fv_payload f)))"
    by (simp add: dh_session_authenticate_def skips_authentication_def auth_open_cases [OF l] view_payload_def l)
  then show "frame_admitted s f \<Longrightarrow> snd (dh_session_authenticate s f now) = Inr (drop 24 (fv_payload f))"
    and "\<not> frame_admitted s f \<Longrightarrow> isl (snd (dh_session_authenticate s f now))"
    by (auto simp: frame_admitted_def)
qed

lemma queue_relay [simp]: "cl_relay_tx (fst (channel_lifecycle_queue c f now)) = cl_relay_tx c"
  unfolding channel_lifecycle_queue_def Let_def split_def by (simp add: set_output_def)

lemma fresh_stream_relay [simp]: "cl_relay_tx (fresh_stream c) = cl_relay_tx c"
  by (simp add: fresh_stream_def reset_output_def reset_readers_def Let_def)

lemma session_frame_relay [simp]: "cl_relay_tx (channel_lifecycle_on_frame E c f now) = cl_relay_tx c"
  unfolding channel_lifecycle_on_frame_def Let_def split_def by (simp split: sum.split option.split)

lemma relay_to_peer_tx:
  "cl_relay_tx (relay_to_peer c i f body) = fst (dh_relay_tx_offer (cl_relay_tx c) (relay_header f body @ body))"
  by (simp add: relay_to_peer_def Let_def set_reader_def split: prod.splits)

text \<open>C5. What the helper may cause beyond its session: a frame reaches the peer board, the reported cursor position or the host's
  sleep state only when it is admitted (a session exists, the frame holds a counter and a tag and, on a release build, its tag verifies under
  the session's inbound key and its counter is admissible; a development build compiles these two checks out), and then with exactly the body
  behind the tag, as a bulk frame offered whole to the relay with its type and flags kept. Any other frame
  leaves the relay as it was and asks nothing of the platform.\<close>

theorem channel_relay_gate:
  assumes "view_ok f" and "on_frame E c i f now = (c', effs)"
  defines "t \<equiv> fh_type (fv_hdr f)" and "body \<equiv> drop 24 (fv_payload f)" and "ok \<equiv> frame_admitted (cl_session c) f"
  shows "cl_relay_tx c' =
      (if ok \<and> dh_msg_is_bulk t then fst (dh_relay_tx_offer (cl_relay_tx c) ([t, fh_flags (fv_hdr f)] @ le16 (of_nat (length body)) @ body))
       else cl_relay_tx c) \<and>
    effs = (if ok \<and> t = DH_MSG_POS_RESPONSE then [EffPosition body]
       else if ok \<and> t = DH_MSG_HOST_SLEEP \<and> length body = 1 then [EffHostSleep (body ! 0 \<noteq> 0)] else [])"
proof -
  define a where "a = dh_session_authenticate (cl_session c) f now"
  note ac = authenticate_cases [OF assms(1), of "cl_session c" now, folded a_def]
  have d: "on_frame E c i f now =
     (if dh_msg_is_bulk t \<or> t = DH_MSG_HOST_SLEEP \<or> t \<ge> DH_MSG_PLACE \<and> t \<le> DH_MSG_POS_RESPONSE then
        case snd a of
          Inl _ \<Rightarrow> (c\<lparr>cl_session := fst a\<rparr>, [])
        | Inr body \<Rightarrow>
            if dh_msg_is_bulk t then (relay_to_peer (c\<lparr>cl_session := fst a\<rparr>) i f body, [])
            else if t = DH_MSG_POS_RESPONSE then (c\<lparr>cl_session := fst a\<rparr>, [EffPosition body])
            else if t = DH_MSG_HOST_SLEEP \<and> length body = 1 then (c\<lparr>cl_session := fst a\<rparr>, [EffHostSleep (body ! 0 \<noteq> 0)])
            else (c\<lparr>cl_session := fst a\<rparr>, [])
      else (channel_lifecycle_on_frame E c f now, []))"
    unfolding on_frame_def Let_def split_def t_def a_def by (rule refl)
  have ex: "dh_msg_is_bulk 0x11 = False" "dh_msg_is_bulk 0x22 = False" by (simp_all add: dh_msg_is_bulk_def)
  show ?thesis
  proof (cases ok)
    case True
    then have "snd a = Inr body" using ac(1) by (simp add: ok_def body_def)
    with True assms(2) ex show ?thesis unfolding d
      by (auto simp: relay_to_peer_tx relay_header_def t_def split: if_splits)
  next
    case False
    then obtain e where "snd a = Inl e" using ac(2) by (auto simp: ok_def isl_def)
    with False assms(2) show ?thesis unfolding d by (auto split: if_splits)
  qed
qed

text \<open>A tagged clipboard offer at a release board with a session, and the same frame at a board without one.\<close>

definition relay_board :: channel_lifecycle where
  "relay_board = (ch_lifecycle booted)\<lparr>cl_session := (cl_session (ch_lifecycle booted))\<lparr>se_present := True, se_k_h2b := replicate 32 6\<rparr>\<rparr>"

definition relay_frame :: dh_frame_view where
  "relay_frame = frame_of DH_MSG_CLIP_OFFER 0
     (le_bytes 8 (3 :: u64) @ dh_auth_tag (replicate 32 6) DH_MSG_CLIP_OFFER 0 29 3 [1, 2, 3, 4, 5] @ [1, 2, 3, 4, 5])"

lemma relay_frame_facts:
  "view_ok relay_frame" "drop 24 (fv_payload relay_frame) = [1, 2, 3, 4, 5]" "length (fv_payload relay_frame) = 29"
  "tag_verifies (replicate 32 6) (fv_hdr relay_frame) (fv_payload relay_frame)"
  "fh_type (fv_hdr relay_frame) = DH_MSG_CLIP_OFFER" "fh_flags (fv_hdr relay_frame) = 0"
  by (simp_all add: relay_frame_def frame_of_def view_ok_def tag_verifies_def auth_tag_eq)

lemma booted_session:
  "se_build_type (cl_session (ch_lifecycle booted)) = 0" "\<not> se_present (cl_session (ch_lifecycle booted))"
  "se_rx (cl_session (ch_lifecycle booted)) = dh_auth_counter_init"
  by (simp_all add: booted_def channel_init_def Let_def split_def channel_lifecycle_link_lost_def reset_output_def
      reset_readers_def dh_session_drop_def dh_session_init_def)

theorem channel_relay_gate_witness:
  "frame_admitted (cl_session relay_board) relay_frame \<and>
   cl_relay_tx (fst (on_frame toy_uecc relay_board 0 relay_frame 5)) =
     fst (dh_relay_tx_offer (cl_relay_tx relay_board) ([DH_MSG_CLIP_OFFER, 0, 5, 0] @ [1, 2, 3, 4, 5])) \<and>
   cl_relay_tx (fst (on_frame toy_uecc (ch_lifecycle booted) 0 relay_frame 5)) = cl_relay_tx (ch_lifecycle booted)"
proof -
  have a: "frame_admitted (cl_session relay_board) relay_frame" "\<not> frame_admitted (cl_session (ch_lifecycle booted)) relay_frame"
    using relay_frame_facts booted_session
    by (simp_all add: frame_admitted_def relay_board_def dh_auth_counter_ok_def dh_auth_counter_init_def)
  have b: "dh_msg_is_bulk DH_MSG_CLIP_OFFER" by (simp add: dh_msg_is_bulk_def)
  have l: "le16 (of_nat (length [1 :: byte, 2, 3, 4, 5])) = [5, 0]" by code_simp
  note g = channel_relay_gate [OF relay_frame_facts(1) prod.collapse [symmetric]]
  show ?thesis
    using g [of toy_uecc relay_board 0 5] g [of toy_uecc "ch_lifecycle booted" 0 5] a b l
    by (simp add: relay_frame_facts(2,5,6) del: list.size)
qed

text \<open>C17. End to end across the boards: a bulk frame body admitted on one board, put on the inter-board link
  with the header rewritten, and taken over by a board whose helper has a session, is queued as a frame
  that helper decodes to the same type and flags and opens, under the outbound key of that session and its
  next counter, to exactly the same body; the counter is then spent.\<close>

theorem relay_retag_end_to_end:
  assumes "se_present (cl_session c)" and "dh_msg_type_known (fh_type (fv_hdr f))" and "length body \<le> 4072"
    and "dh_auth_counter_ok rx (se_tx_counter (cl_session c))"
  shows "\<exists>c' out v. tag_inbound c (relay_header f body @ body) = (c', Some out) \<and>
    dh_frame_decode (out @ rest) = Inr (v, length out) \<and>
    fh_type (fv_hdr v) = fh_type (fv_hdr f) \<and> fh_flags (fv_hdr v) = fh_flags (fv_hdr f) \<and>
    dh_auth_open (se_k_b2h (cl_session c)) (fv_hdr v) (fv_payload v) rx =
      (dh_auth_counter_accept rx (se_tx_counter (cl_session c)), Inr body) \<and>
    se_tx_counter (cl_session c') = se_tx_counter (cl_session c) + 1 \<and> se_k_b2h (cl_session c') = se_k_b2h (cl_session c)"
proof -
  define t fl where "t = fh_type (fv_hdr f)" and "fl = fh_flags (fv_hdr f)"
  define s where "s = cl_session c"
  have "dh_frame_encode t fl body 4100 = Inr (relay_header f body @ body)"
    using assms(2,3) by (simp add: dh_frame_encode_def Let_def relay_header_def t_def fl_def)
  from frame_decode_encoded [OF this, of "[]"]
  have dec: "dh_frame_decode (relay_header f body @ body) = Inr (frame_of t fl body, length (relay_header f body @ body))"
    by simp
  obtain out where out: "encode_tagged t fl (se_k_b2h s) (se_tx_counter s) body 4100 = Inr out"
    using encode_tagged_ok [of body 4100 t fl "se_k_b2h s" "se_tx_counter s"] assms(3) by auto
  have len: "unat (of_nat (length body) :: u16) = length body" using assms(3) by (intro word_conv) simp
  then have vp: "view_payload (frame_of t fl body) = body" "fv_hdr (frame_of t fl body) = \<lparr>fh_type = t, fh_flags = fl, fh_len = of_nat (length body)\<rparr>"
    by (simp_all add: view_payload_def frame_of_def)
  then have emit: "dh_session_emit_relayed s (frame_of t fl body) 4100 = (s\<lparr>se_tx_counter := se_tx_counter s + 1\<rparr>, Inr (Some out))"
    using out assms(1) by (simp add: dh_session_emit_relayed_def s_def)
  have fr: "dh_auth_frame t fl (se_k_b2h s) (se_tx_counter s) body 4100 = Inr out" using out by (simp add: encode_tagged_def)
  obtain v where v: "dh_frame_decode (out @ rest) = Inr (v, length out)" "view_ok v" "view_counter v = se_tx_counter s"
    "tag_verifies (se_k_b2h s) (fv_hdr v) (fv_payload v)" "drop 24 (fv_payload v) = body" "24 \<le> unat (fh_len (fv_hdr v))"
    using auth_frame_opens [OF fr, of rest] assms(2) by (auto simp: t_def)
  have "fh_type (fv_hdr v) = t \<and> fh_flags (fv_hdr v) = fl"
    using v(1) auth_frame_shape(1) [OF fr]
    by (auto simp: dh_frame_decode_def dh_frame_header_parse_def frame_view_at_def Let_def split: if_splits)
  moreover have "dh_auth_open (se_k_b2h s) (fv_hdr v) (fv_payload v) rx = (dh_auth_counter_accept rx (se_tx_counter s), Inr body)"
    using auth_open_cases [of "fv_payload v" "fv_hdr v" "se_k_b2h s" rx] v assms(4) by (simp add: view_ok_def view_counter_def s_def)
  ultimately show ?thesis
    using dec emit v(1) by (simp add: tag_inbound_def s_def t_def fl_def)
qed

theorem relay_retag_end_to_end_witness:
  "\<exists>c' out v. tag_inbound (channel_static\<lparr>cl_session := (dh_session_init 0)\<lparr>se_present := True, se_k_b2h := [1, 2, 3], se_tx_counter := 4\<rparr>\<rparr>)
      (relay_header (frame_of DH_MSG_CLIP_OFFER 1 []) [5, 6] @ [5, 6]) = (c', Some out) \<and>
    dh_frame_decode (out @ [9]) = Inr (v, length out) \<and>
    dh_auth_open [1, 2, 3] (fv_hdr v) (fv_payload v) dh_auth_counter_init =
      (dh_auth_counter_accept dh_auth_counter_init 4, Inr [5, 6])"
  using relay_retag_end_to_end [of "channel_static\<lparr>cl_session := (dh_session_init 0)\<lparr>se_present := True, se_k_b2h := [1, 2, 3], se_tx_counter := 4\<rparr>\<rparr>"
      "frame_of DH_MSG_CLIP_OFFER 1 []" "[5, 6]" dh_auth_counter_init "[9]"]
  by (auto simp: dh_msg_type_known_def dh_msg_types_def dh_auth_counter_ok_def dh_auth_counter_init_def frame_of_def)


text \<open>A tagged frame of a known type is a whole frame, of its own type.\<close>

lemma tagged_whole:
  assumes "encode_tagged t fl key n body cap = Inr f" and "dh_msg_type_known t"
  shows "\<exists>h. frame_whole f = Some h \<and> fh_type h = t" and "length f = 28 + length body" and "length f \<le> cap" and "f ! 0 = t"
proof -
  note sh = auth_frame_shape [OF assms(1) [unfolded encode_tagged_def]]
  define p where "p = le_bytes 8 n @ dh_auth_tag key t fl (of_nat (24 + length body)) n body @ body"
  have pl: "length p = 24 + length body" by (simp add: p_def)
  have f: "f = [t, fl] @ le16 (of_nat (length p)) @ p" using sh(1) by (simp add: p_def)
  have "unat (of_nat (length p) :: u16) = length p" using sh(2) pl by (intro word_conv) simp
  moreover have "dh_frame_header_parse f = Inr \<lparr>fh_type = t, fh_flags = fl, fh_len = of_nat (length p)\<rparr>"
    unfolding f using sh(2) pl assms(2) by (intro header_parse_encoded) simp_all
  ultimately show "\<exists>h. frame_whole f = Some h \<and> fh_type h = t" by (simp add: frame_whole_def f)
  show "length f = 28 + length body" "length f \<le> cap" "f ! 0 = t" using sh(3) by (simp_all add: f pl)
qed

lemma hello_ack_reply:
  assumes "dh_session_on_frame E s pair f now cap = (s', pair', Inr (Some reply))" and "reply ! 0 = DH_MSG_HELLO_ACK"
  shows "se_present s'" and "pair' = pair" and "\<exists>k n body. encode_tagged DH_MSG_HELLO_ACK 0 k n body cap = Inr reply"
proof -
  have enc: "fr ! 0 = t" if "dh_frame_encode t fl p cap = Inr fr" for t fl p fr
    using frame_encode_type [OF that] by (simp add: frame_type_def)
  have no: "refuse_hello c st cap \<noteq> Inr (Some reply)" for c st
    using assms(2) enc by (auto simp: refuse_hello_def to_reply_Some dh_hello_refused_encode_def)
  have np: "snd (answer_pair_request E pair f now cap) \<noteq> Inr (Some reply)"
    using assms(2) enc
    by (auto simp: answer_pair_request_def Let_def split_def to_reply_Some dh_pair_grant_encode_def dh_pair_refused_encode_def
        split: option.splits if_splits)
  have h: "answer_hello s pair f now cap = (s', Inr (Some reply))" "pair' = pair"
    using assms(1) np by (auto simp: dh_session_on_frame_def Let_def split_def prod_eq_iff split: if_splits)
  show "pair' = pair" by (fact h(2))
  from h(1) show "se_present s'" "\<exists>k n body. encode_tagged DH_MSG_HELLO_ACK 0 k n body cap = Inr reply"
    by (cases rule: answer_hello_cases;
        auto simp: no no [symmetric] establish_def Let_def dh_hello_ack_encode_def split: prod.splits sum.splits)+
qed

lemma outq_reset_refused: "oq_refused (dh_outq_reset q) = oq_refused q"
  by (simp add: dh_outq_reset_def)

lemma fresh_stream_facts:
  assumes "channel_inv c"
  shows "channel_inv (fresh_stream c)" and "oq_frames b (cl_out (fresh_stream c)) = []"
    and "list_all (\<lambda>q. oq_frames b q = []) (cl_extra_out (fresh_stream c))"
    and "map oq_refused (cl_out (fresh_stream c) # cl_extra_out (fresh_stream c)) = map oq_refused (cl_out c # cl_extra_out c)"
    and "list_all (\<lambda>r. rd_abs r = []) (cl_reader (fresh_stream c) # cl_extra_reader (fresh_stream c))"
    and "cl_report_used (fresh_stream c) = 0" and "cl_place_sent (fresh_stream c) = cl_place_owed (fresh_stream c)"
    and "cl_peer_board_told (fresh_stream c) = 0xFF" and "cl_place_owed (fresh_stream c) = cl_place_owed c"
    and "cl_session (fresh_stream c) = cl_session c"
  by (simp_all add: fresh_stream_inv [OF assms])
     (simp_all add: fresh_stream_def reset_output_def reset_readers_def Let_def outq_reset list_all_length
       outq_reset_refused dh_frame_reader_init_def rd_abs_def rd_content_def)

lemma queue_keeps:
  "cl_reader (fst (channel_lifecycle_queue c f now)) = cl_reader c"
  "cl_extra_reader (fst (channel_lifecycle_queue c f now)) = cl_extra_reader c"
  "cl_report_used (fst (channel_lifecycle_queue c f now)) = cl_report_used c"
  "cl_place_sent (fst (channel_lifecycle_queue c f now)) = cl_place_sent c"
  "cl_place_owed (fst (channel_lifecycle_queue c f now)) = cl_place_owed c"
  "cl_peer_board_told (fst (channel_lifecycle_queue c f now)) = cl_peer_board_told c"
  "se_present (cl_session (fst (channel_lifecycle_queue c f now))) = se_present (cl_session c)"
  unfolding channel_lifecycle_queue_def Let_def split_def
  by (simp_all add: set_output_def dh_session_note_sent_def)

text \<open>A priority frame on an empty band 0.\<close>

lemma queue_first:
  assumes inv: "channel_inv c" and empty: "\<And>b. oq_frames b (cl_out c) = []"
    and w: "frame_whole f = Some h" "\<not> dh_msg_is_bulk (fh_type h)" "length f \<le> 128" "\<not> dh_msg_is_striped (f ! 0)"
    and c': "c' = fst (channel_lifecycle_queue c f now)"
  shows "oq_frames b (cl_out c') = (if b then [] else [f])" and "cl_extra_out c' = cl_extra_out c"
    and "oq_refused (cl_out c') = oq_refused (cl_out c)" and "snd (channel_lifecycle_queue c f now)"
proof -
  define q where "q = cl_out c"
  have oinv: "outq_inv q" using inv by (simp add: channel_inv_def q_def)
  have "outq_room q f" using w empty by (simp add: outq_room_def q_def)
  then have ok: "snd (dh_outq_offer q f) = DH_OUTQ_OK" "oq_refused (fst (dh_outq_offer q f)) = oq_refused q"
    using offer_ok_iff [OF oinv prod.collapse [symmetric], of f] by simp_all
  have "queue_index c f = 0" using w(4) by (simp add: queue_index_def)
  then have u: "channel_lifecycle_queue c f now =
      (c\<lparr>cl_out := fst (dh_outq_offer q f), cl_session := dh_session_note_sent (cl_session c) now,
         cl_tx := fst (dh_txq_track (cl_tx c) True)\<rparr>, True)"
    using ok w(4) by (simp add: queue_unfold Let_def split_def channel_lifecycle_output_def set_output_def q_def)
  have "oq_frames b (fst (dh_outq_offer q f)) = oq_frames b q @ offered f DH_OUTQ_OK b"
    using offer_extends [OF oinv prod.collapse [symmetric], of f] ok by (simp add: oq.extends_def)
  then show "oq_frames b (cl_out c') = (if b then [] else [f])" "cl_extra_out c' = cl_extra_out c"
    "oq_refused (cl_out c') = oq_refused (cl_out c)" "snd (channel_lifecycle_queue c f now)"
    using ok w empty by (simp_all add: c' u offered_def q_def)
qed

text \<open>A handshake starts a clean stream: when a hello is acknowledged, the acknowledgement is the first
  and only frame queued towards the helper, whatever the queues held before; every frame reader is
  empty, the reports still waiting are dropped, the placement owed to the helper before is not replayed,
  the peer board's state is to be told anew, and the refusal totals survive.\<close>

theorem channel_hello_fresh:
  assumes "channel_inv c" and "dh_session_on_frame E (cl_session c) (cl_pair c) f now 76 = (s, p, Inr (Some reply))"
    and "reply ! 0 = DH_MSG_HELLO_ACK"
  defines "c' \<equiv> channel_lifecycle_on_frame E c f now"
  shows "oq_frames False (cl_out c') = [reply] \<and> oq_frames True (cl_out c') = [] \<and>
    (\<forall>q\<in>set (cl_extra_out c'). \<forall>b. oq_frames b q = []) \<and>
    (\<forall>r\<in>set (cl_reader c' # cl_extra_reader c'). rd_abs r = []) \<and>
    cl_report_used c' = 0 \<and> cl_place_sent c' = cl_place_owed c \<and> cl_place_owed c' = cl_place_owed c \<and>
    cl_peer_board_told c' = CHANNEL_PEER_BOARD_UNTOLD \<and> se_present (cl_session c') \<and>
    map oq_refused (cl_out c' # cl_extra_out c') = map oq_refused (cl_out c # cl_extra_out c)"
proof -
  note hr = hello_ack_reply [OF assms(2,3)]
  obtain k n body where enc: "encode_tagged DH_MSG_HELLO_ACK 0 k n body 76 = Inr reply" using hr(3) by blast
  have known: "dh_msg_type_known DH_MSG_HELLO_ACK" by (simp add: dh_msg_type_known_def dh_msg_types_def)
  note tw = tagged_whole [OF enc known]
  obtain h where h: "frame_whole reply = Some h" "fh_type h = DH_MSG_HELLO_ACK" using tw(1) by blast
  define c1 where "c1 = c\<lparr>cl_session := s\<rparr>"
  have "se_channel_count s \<le> 2" using on_frame_channels [OF channel_count_inv [OF assms(1)]] assms(2) by (metis fst_conv)
  then have c1: "channel_inv c1" using assms(1) by (simp add: c1_def channel_inv_session)
  have same: "c1 = c\<lparr>cl_session := s, cl_pair := p\<rparr>" using hr(2) by (simp add: c1_def)
  have c': "c' = fst (channel_lifecycle_queue (fresh_stream c1) reply now)"
    using assms(2,3) hr(2) by (simp add: c'_def channel_lifecycle_on_frame_def same)
  note fs = fresh_stream_facts [OF c1]
  have q: "\<not> dh_msg_is_bulk (fh_type h)" "length reply \<le> 128" "\<not> dh_msg_is_striped (reply ! 0)"
    using h tw(3) assms(3) by (simp_all add: dh_msg_is_bulk_def dh_msg_is_striped_def)
  note qf = queue_first [OF fs(1,2) h(1) q c']
  show ?thesis
    using qf fs(3-) hr(1) unfolding c' queue_keeps
    by (auto simp: c1_def list_all_iff)
qed

definition greeted :: channel_lifecycle where
  "greeted = (ch_lifecycle booted)\<lparr>cl_session := reg_session, cl_pair := reg_pair\<rparr>"

lemma greeted_inv: "channel_inv greeted"
  using booted_inv
  by (simp add: greeted_def channel_inv_session reg_session_def dh_session_stage_nonce_def dh_session_init_def)

lemma establish_acks:
  assumes "length (se_staged_nonce s) = 16"
  shows "\<exists>s' reply k n body. establish s ss hello now 76 = (s', Inr (Some reply)) \<and>
    encode_tagged DH_MSG_HELLO_ACK 0 k n body 76 = Inr reply"
proof -
  define ack where "ack = \<lparr>ha_correlation = he_correlation hello, ha_proto_version = DH_PROTO_VERSION,
    ha_build_type = se_build_type s, ha_channel_count = negotiate_channels (he_channel_count hello),
    ha_max_chunk = negotiate_chunk (he_max_chunk hello), ha_board_nonce = se_staged_nonce s\<rparr>"
  define k where "k = snd (dh_auth_derive_session_keys ss (he_helper_nonce hello) (se_staged_nonce s))"
  have "length (hello_ack_body ack) = 30" using assms by (simp add: hello_ack_body_def ack_def)
  then obtain fr where fr: "encode_tagged DH_MSG_HELLO_ACK 0 k 0 (hello_ack_body ack) 76 = Inr fr"
    using encode_tagged_ok [of "hello_ack_body ack" 76 DH_MSG_HELLO_ACK 0 k 0] by auto
  then have "snd (establish s ss hello now 76) = Inr (Some fr)"
    by (simp add: establish_def Let_def split_def dh_hello_ack_encode_def ack_def k_def)
  with fr show ?thesis by (metis prod.collapse)
qed

theorem channel_hello_fresh_witness:
  "\<exists>reply. oq_frames False (cl_out (channel_lifecycle_on_frame toy_uecc greeted reg_view 10)) = [reply] \<and>
     reply ! 0 = DH_MSG_HELLO_ACK"
proof -
  obtain s reply k n body where r: "establish reg_session (replicate 32 5) reg_hello 10 76 = (s, Inr (Some reply))"
    "encode_tagged DH_MSG_HELLO_ACK 0 k n body 76 = Inr reply"
    using establish_acks [of reg_session "replicate 32 5" reg_hello 10]
    by (auto simp: reg_session_def dh_session_stage_nonce_def)
  have a: "reply ! 0 = DH_MSG_HELLO_ACK"
    using tagged_whole(4) [OF r(2)] by (simp add: dh_msg_type_known_def dh_msg_types_def)
  have "dh_session_on_frame toy_uecc (cl_session greeted) (cl_pair greeted) reg_view 10 76 = (s, reg_pair, Inr (Some reply))"
    using r(1) by (simp add: greeted_def reg_establishes)
  from channel_hello_fresh [OF greeted_inv this a] a show ?thesis by blast
qed


lemma core1_out: "cl_out (core1_run gap c) = cl_out c"
  using core1_outputs [of gap c 0] by (simp add: channel_lifecycle_output_def)

lemma core1_session: "cl_session (core1_run gap c) = cl_session c" "cl_place_sent (core1_run gap c) = cl_place_sent c"
proof -
  have "cl_session (core1_step op c) = cl_session c" "cl_place_sent (core1_step op c) = cl_place_sent c" for op c
    by (cases op; simp add: channel_lifecycle_owe_place_def channel_lifecycle_arrive_def
        channel_lifecycle_peer_board_heartbeat_def query_accept_def handle_channel_relay_msg_def Let_def split_def
        split: option.split)+
  then show "cl_session (core1_run gap c) = cl_session c" "cl_place_sent (core1_run gap c) = cl_place_sent c"
    by (induction gap arbitrary: c) (simp_all add: core1_run_def)
qed

lemma view_payload_of: "length b < 65536 \<Longrightarrow> view_payload (frame_of t fl b) = b"
  by (simp add: view_payload_def frame_of_def unat_of_nat_small)

lemma place_frames_built:
  assumes "se_present s" and "length body = 5"
  shows "\<exists>s' P Q. place_frames s body query_id = (s', Some (P, Q)) \<and> se_tx_counter s' = se_tx_counter s + 2 \<and>
    encode_tagged DH_MSG_PLACE 0 (se_k_b2h s) (se_tx_counter s) body 33 = Inr P \<and>
    encode_tagged DH_MSG_POS_QUERY 0 (se_k_b2h s) (se_tx_counter s + 1) [query_id] 29 = Inr Q"
proof -
  define n where "n = se_tx_counter s"
  obtain P where P: "encode_tagged DH_MSG_PLACE 0 (se_k_b2h s) n body 33 = Inr P"
    using encode_tagged_ok [of body 33 DH_MSG_PLACE 0 "se_k_b2h s" n] assms(2) by auto
  obtain Q where Q: "encode_tagged DH_MSG_POS_QUERY 0 (se_k_b2h s) (n + 1) [query_id] 29 = Inr Q"
    using encode_tagged_ok [of "[query_id]" 29 DH_MSG_POS_QUERY 0 "se_k_b2h s" "n + 1"] by auto
  have h: "fh_type (fv_hdr (frame_of t fl b)) = t" "fh_flags (fv_hdr (frame_of t fl b)) = fl" for t fl b
    by (simp_all add: frame_of_def)
  have "dh_session_emit_relayed s (frame_of DH_MSG_PLACE 0 body) 33 = (s\<lparr>se_tx_counter := n + 1\<rparr>, Inr (Some P))"
    using P assms by (simp add: dh_session_emit_relayed_def h view_payload_of n_def)
  moreover have "dh_session_emit_relayed (s\<lparr>se_tx_counter := n + 1\<rparr>) (frame_of DH_MSG_POS_QUERY 0 [query_id]) 29 =
      (s\<lparr>se_tx_counter := n + 2\<rparr>, Inr (Some Q))"
    using Q assms by (simp add: dh_session_emit_relayed_def h view_payload_of)
  ultimately show ?thesis using P Q by (simp add: place_frames_def emit_cap_def n_def)
qed

lemma offer_pair_accepts:
  assumes "outq_inv q" and "\<not> dh_outq_pair_busy q" and "frame_whole f = Some hf" "frame_whole g = Some hg"
    and "\<not> dh_msg_is_bulk (fh_type hf)" "\<not> dh_msg_is_bulk (fh_type hg)" "length f \<le> 128" "length g \<le> 128"
  shows "snd (dh_outq_offer_pair q f g) = DH_OUTQ_OK"
    and "oq_frames b (fst (dh_outq_offer_pair q f g)) = oq_frames b q @ (if b then [] else [f, g])"
proof -
  show ok: "snd (dh_outq_offer_pair q f g) = DH_OUTQ_OK"
    using assms by (simp add: dh_outq_offer_pair_def Let_def)
  show "oq_frames b (fst (dh_outq_offer_pair q f g)) = oq_frames b q @ (if b then [] else [f, g])"
    using offer_pair_extends [OF assms(1) prod.collapse [symmetric], of f g] ok by (simp add: oq.extends_def pair_offered_def)
qed

text \<open>Placements: a placement owed to a present helper, at most 30 ms old and with the priority band free,
  is queued as a whole pair, the placement and its query with consecutive counters, and marked sent
  for the request it was built from, whatever the other core does meanwhile: a request made in the gap stays owed.
  Otherwise no frame is queued; a stale placement, or one whose helper has gone, is dropped, and one that
  only waits for the band is kept.\<close>

theorem channel_place_pair:
  assumes "channel_inv c" and "pump_place (core1_run gap) c now = c'"
  defines "s \<equiv> cl_session c" and "fresh \<equiv> sint (now - cl_place_owed_at c) \<le> CHANNEL_PLACE_STALE_MS"
    and "owed \<equiv> cl_place_owed c \<noteq> cl_place_sent c"
  shows "if owed \<and> fresh \<and> \<not> dh_outq_pair_busy (cl_out c) \<and> se_present s
    then cl_place_sent c' = cl_place_owed c \<and>
      (\<exists>P Q. encode_tagged DH_MSG_PLACE 0 (se_k_b2h s) (se_tx_counter s) (cl_place_body c) 33 = Inr P \<and>
        encode_tagged DH_MSG_POS_QUERY 0 (se_k_b2h s) (se_tx_counter s + 1) [cl_place_query_id c] 29 = Inr Q \<and>
        se_tx_counter (cl_session c') = se_tx_counter s + 2 \<and>
        (\<forall>b. oq_frames b (cl_out c') = oq_frames b (cl_out c) @ (if b then [] else [P, Q])))
    else cl_out c' = cl_out c \<and> cl_session c' = cl_session c \<and>
      cl_place_sent c' = (if owed \<and> (\<not> fresh \<or> \<not> dh_outq_pair_busy (cl_out c)) then cl_place_owed c else cl_place_sent c)"
proof (cases "owed \<and> fresh \<and> \<not> dh_outq_pair_busy (cl_out c)")
  case True
  then have due: "place_due c now = (c, True)" by (simp add: place_due_def Let_def owed_def fresh_def)
  show ?thesis
  proof (cases "se_present s")
    case True2: True
    have b: "length (cl_place_body c) = 5" using assms(1) by (simp add: channel_inv_def)
    obtain s' P Q where pf: "place_frames s (cl_place_body c) (cl_place_query_id c) = (s', Some (P, Q))"
        "se_tx_counter s' = se_tx_counter s + 2"
      and P: "encode_tagged DH_MSG_PLACE 0 (se_k_b2h s) (se_tx_counter s) (cl_place_body c) 33 = Inr P"
      and Q: "encode_tagged DH_MSG_POS_QUERY 0 (se_k_b2h s) (se_tx_counter s + 1) [cl_place_query_id c] 29 = Inr Q"
      using place_frames_built [OF True2 b, of "cl_place_query_id c"] by blast
    have k: "dh_msg_type_known DH_MSG_PLACE" "dh_msg_type_known DH_MSG_POS_QUERY"
      by (simp_all add: dh_msg_type_known_def dh_msg_types_def)
    obtain hp where hp: "frame_whole P = Some hp" "fh_type hp = DH_MSG_PLACE" using tagged_whole(1) [OF P k(1)] by blast
    obtain hq where hq: "frame_whole Q = Some hq" "fh_type hq = DH_MSG_POS_QUERY" using tagged_whole(1) [OF Q k(2)] by blast
    define c1 where "c1 = core1_run gap (c\<lparr>cl_session := s'\<rparr>)"
    have c1: "cl_out c1 = cl_out c" "cl_session c1 = s'" by (simp_all add: c1_def core1_out core1_session)
    have "outq_inv (cl_out c)" using assms(1) by (simp add: channel_inv_def)
    note acc = offer_pair_accepts [OF this _ hp(1) hq(1)]
    have ok: "snd (dh_outq_offer_pair (cl_out c) P Q) = DH_OUTQ_OK"
      "oq_frames b (fst (dh_outq_offer_pair (cl_out c) P Q)) = oq_frames b (cl_out c) @ (if b then [] else [P, Q])" for b
      using acc True hp(2) hq(2) tagged_whole(3) [OF P k(1)] tagged_whole(3) [OF Q k(2)] by (simp_all add: dh_msg_is_bulk_def)
    have "c' = c1\<lparr>cl_out := fst (dh_outq_offer_pair (cl_out c) P Q), cl_session := dh_session_note_sent s' now,
        cl_place_sent := cl_place_owed c, cl_tx := fst (dh_txq_track (cl_tx c1) True)\<rparr>"
      using assms(2) due pf(1) True2 ok(1) c1
      by (simp add: pump_place_def Let_def split_def s_def c1_def [symmetric])
    with P Q ok(2) pf(2) True True2 show ?thesis by (simp add: dh_session_note_sent_def)
  next
    case False
    with assms(2) due have "c' = (core1_run gap c)\<lparr>cl_place_sent := cl_place_owed c\<rparr>"
      by (simp add: pump_place_def Let_def s_def)
    with True False show ?thesis by (simp add: core1_out core1_session)
  qed
next
  case False
  define c1 where "c1 = c\<lparr>cl_place_sent := (if owed \<and> \<not> fresh then cl_place_owed c else cl_place_sent c)\<rparr>"
  have "place_due c now = (c1, False)"
    using False by (cases owed; cases fresh) (simp_all add: place_due_def Let_def owed_def fresh_def c1_def)
  then have "c' = c1" using assms(2) by (simp add: pump_place_def Let_def)
  with False show ?thesis by (cases owed; cases fresh) (simp_all add: c1_def)
qed

lemma booted_queues: "cl_out (ch_lifecycle booted) = dh_outq_reset dh_outq_init" "cl_place_sent (ch_lifecycle booted) = 0"
  "cl_place_owed (ch_lifecycle booted) = 0"
  by (simp_all add: booted_def channel_init_def Let_def split_def channel_lifecycle_link_lost_def reset_output_def
      reset_readers_def channel_static_def)

lemma reset_idle: "\<not> dh_outq_pair_busy (dh_outq_reset q)"
  by (simp add: dh_outq_pair_busy_def dh_outq_reset_def dh_outq_init_def empty_lane_def band_clear_def band_in_flight_def)

definition placing :: channel_lifecycle where
  "placing = (ch_lifecycle booted)\<lparr>cl_session := (dh_session_init 0)\<lparr>se_present := True\<rparr>, cl_place_owed := 1,
     cl_place_owed_at := 100, cl_place_body := [1, 2, 3, 4, 5]\<rparr>"

lemma placing_inv: "channel_inv placing"
  using booted_inv by (simp add: placing_def channel_inv_def report_ring_inv_def dh_session_init_def)

theorem channel_place_pair_witness:
  "let c' = pump_place (core1_run [PeerBeat True, OwePlace [9, 9, 9, 9, 9] 0 105]) placing 110 in
    cl_place_sent c' = 1 \<and> (\<exists>P Q. oq_frames False (cl_out c') = [P, Q])"
proof -
  have f: "sint (110 - cl_place_owed_at placing) \<le> 30" "cl_place_owed placing \<noteq> cl_place_sent placing"
    "se_present (cl_session placing)" "\<not> dh_outq_pair_busy (cl_out placing)" "oq_frames False (cl_out placing) = []"
    "cl_place_owed placing = 1"
    by (simp_all add: placing_def booted_queues reset_idle outq_reset)
  from channel_place_pair [OF placing_inv refl, where gap = "[PeerBeat True, OwePlace [9, 9, 9, 9, 9] 0 105]" and now = 110] f
  show ?thesis unfolding Let_def by auto
qed

section \<open>The report ring\<close>

text \<open>The reports waiting, oldest first, with the interface each came from.\<close>

definition report_queue :: "channel_lifecycle \<Rightarrow> (byte \<times> byte list) list" where
  "report_queue c =
     map (\<lambda>k. let slot = (unat (cl_report_head c) + k) mod 32 in (cl_report_channel c ! slot, report_bytes c slot))
       [0..<unat (cl_report_used c)]"

lemma report_queue_receive:
  assumes inv: "channel_inv c" and i: "index < 2" and b: "buffer \<noteq> []" and room: "unat (cl_report_used c) < 32"
  shows "report_queue (channel_lifecycle_receive_channel_report c index buffer) = report_queue c @ [(index, take 64 buffer)]"
proof -
  define h u where "h = unat (cl_report_head c)" and "u = unat (cl_report_used c)"
  define c' where "c' = channel_lifecycle_receive_channel_report c index buffer"
  define slot n where "slot = (h + u) mod 32" and "n = min (length buffer) 64"
  have ring: "length (cl_reports c) = 32" "length (cl_report_len c) = 32" "length (cl_report_channel c) = 32"
    "\<And>k. k < 32 \<Longrightarrow> length (cl_reports c ! k) = 64" and hu: "h < 32" "u < 32"
    using inv room by (simp_all add: channel_inv_def report_ring_inv_def list_all_length h_def u_def)
  have s: "slot < 32" by (simp add: slot_def)
  have nn: "(if length buffer < 64 then length buffer else 64) = n" by (simp add: n_def)
  have guards: "(2 \<le> index) = False" "(32 \<le> unat (cl_report_used c)) = False" using i room by (simp_all add: not_le)
  have c': "cl_report_head c' = cl_report_head c" "cl_report_used c' = cl_report_used c + 1"
    "cl_reports c' = (cl_reports c)[slot := blit (cl_reports c ! slot) 0 (take n buffer)]"
    "cl_report_len c' = (cl_report_len c)[slot := of_nat n]" "cl_report_channel c' = (cl_report_channel c)[slot := index]"
    using b by (simp_all add: c'_def channel_lifecycle_receive_channel_report_def Let_def nn guards slot_def h_def u_def)
  have u1: "unat (cl_report_used c + 1) = Suc u" using hu by (simp add: unat_word_ariths u_def)
  have other: "(h + k) mod 32 \<noteq> slot" if "k < u" for k
    using that hu mod_eq_dvd_iff_nat [of "h + k" "h + u" 32] nat_dvd_not_less [of "u - k" 32] by (auto simp: slot_def)
  have "report_bytes c' slot = take 64 buffer"
    using ring s by (simp add: report_bytes_def c' unat_of_nat_small n_def blit_def min_def)
  moreover have "report_bytes c' k = report_bytes c k" "cl_report_channel c' ! k = cl_report_channel c ! k" if "k \<noteq> slot" for k
    using that by (simp_all add: report_bytes_def c')
  moreover have "cl_report_channel c' ! slot = index" using ring s by (simp add: c')
  ultimately have "report_queue c' = report_queue c @ [(index, take 64 buffer)]"
    using other by (simp add: report_queue_def c'(1,2) u1 h_def [symmetric] u_def [symmetric] Let_def slot_def [symmetric])
  then show ?thesis by (simp add: c'_def)
qed

lemma report_queue_take:
  assumes "channel_inv c" and "0 < cl_report_used c"
  shows "report_queue c = (cl_report_channel c ! unat (cl_report_head c), report_bytes c (unat (cl_report_head c))) #
    report_queue (report_take c)"
proof -
  define h u where "h = unat (cl_report_head c)" and "u = unat (cl_report_used c)"
  have h: "h < 32" using assms(1) by (simp add: channel_inv_def report_ring_inv_def h_def)
  have u: "unat (cl_report_used c - 1) = u - 1" "0 < u"
    using assms(2) by (simp_all add: unat_byte_dec u_def unat_gt_0 word_gt_0)
  have hd: "unat (of_nat (Suc h mod 32) :: byte) = Suc h mod 32" by (intro unat_of_nat_small) simp
  have l: "[0..<u] = 0 # map Suc [0..<u - 1]" using u(2) by (cases u) (simp_all add: map_Suc_upt upt_conv_Cons del: upt_Suc)
  define F where "F slot = (cl_report_channel c ! slot, report_bytes c slot)" for slot
  have q: "report_queue c = map (\<lambda>k. F ((h + k) mod 32)) [0..<u]"
    by (simp add: report_queue_def F_def h_def u_def Let_def)
  have "report_queue (report_take c) = map (\<lambda>k. F ((Suc h mod 32 + k) mod 32)) [0..<u - 1]"
    using hd u(1) by (simp add: report_queue_def report_take_def F_def h_def [symmetric] report_bytes_def Let_def)
  also have "\<dots> = map (\<lambda>k. F ((h + Suc k) mod 32)) [0..<u - 1]"
    by (simp only: mod_add_left_eq add_Suc add_Suc_right)
  finally show ?thesis
    using h unfolding q l by (simp add: F_def h_def [symmetric] comp_def)
qed


text \<open>The report ring is a bounded queue of 32: a report from either interface joins its end, cut to 64
  bytes, or, when 32 are waiting, is dropped and counted with the ring unchanged; an empty report or one
  from an interface the board does not have changes nothing; and the drain takes the oldest, with the
  interface it came from.\<close>

theorem channel_reports_fifo:
  assumes "channel_inv c"
    and c': "c' = channel_lifecycle_receive_channel_report c index buffer"
  shows "(if buffer = [] \<or> 2 \<le> index then c' = c
     else if length (report_queue c) < 32
     then report_queue c' = report_queue c @ [(index, take 64 buffer)] \<and> cl_reports_dropped c' = cl_reports_dropped c
     else report_queue c' = report_queue c \<and> cl_reports_dropped c' = cl_reports_dropped c + 1) \<and>
    (0 < cl_report_used c \<longrightarrow>
      report_queue c = (cl_report_channel c ! unat (cl_report_head c), report_bytes c (unat (cl_report_head c))) #
        report_queue (report_take c))"
proof -
  have l: "length (report_queue c) = unat (cl_report_used c)" by (simp add: report_queue_def)
  have full: "report_queue c' = report_queue c" "cl_reports_dropped c' = cl_reports_dropped c + 1"
    if "buffer \<noteq> []" "index < 2" "32 \<le> unat (cl_report_used c)"
    using that by (simp_all add: c' channel_lifecycle_receive_channel_report_def Let_def report_queue_def report_bytes_def leD)
  have room: "cl_reports_dropped c' = cl_reports_dropped c" if "unat (cl_report_used c) < 32"
    using that by (simp add: c' channel_lifecycle_receive_channel_report_def Let_def)
  have none: "c' = c" if "buffer = [] \<or> 2 \<le> index"
    using that by (auto simp: c' channel_lifecycle_receive_channel_report_def)
  show ?thesis
    using l full room none report_queue_receive [OF assms(1), of index buffer, folded c']
      report_queue_take [OF assms(1)]
    by (auto simp: not_le)
qed

theorem channel_reports_fifo_witness:
  "report_queue (channel_lifecycle_receive_channel_report (ch_lifecycle booted) 1 [7, 8]) = [(1, [7, 8])]"
proof -
  have "report_queue (ch_lifecycle booted) = []"
    by (simp add: booted_def channel_init_def Let_def split_def channel_lifecycle_link_lost_def reset_output_def
        reset_readers_def report_queue_def)
  moreover have "\<not> (2 :: byte) \<le> 1" by code_simp
  ultimately show ?thesis using channel_reports_fifo [OF booted_inv refl, of "[7, 8]" 1] by simp
qed

end
