(* ===== verification/DH_Clip.thy ===== *)
theory DH_Clip
  imports DH_Frame
begin

text \<open>
  The payload codecs of the clipboard messages (\<open>src/src/core/dh_clip.h\<close>, \<open>dh_clip.c\<close>): the clear heads of
  \<open>CLIP_OFFER\<close> and \<open>CLIP_CHUNK\<close>, their sealed plain parts and the small control payloads. A view and its
  length are one byte list; an encoder returns the bytes written, or \<open>None\<close> where the source returns -1.
\<close>

section \<open>Model\<close>

definition put16 :: "u16 \<Rightarrow> byte list" where
  "put16 v = [ucast (v AND 0xFF), ucast (drop_bit 8 v)]"

definition put32 :: "u32 \<Rightarrow> byte list" where
  "put32 v = put16 (ucast (v AND 0xFFFF)) @ put16 (ucast (drop_bit 16 v))"

definition put64 :: "u64 \<Rightarrow> byte list" where
  "put64 v = put32 (ucast (v AND 0xFFFFFFFF)) @ put32 (ucast (drop_bit 32 v))"

definition get16 :: "byte list \<Rightarrow> u16" where
  "get16 p = ucast (p ! 0) OR push_bit 8 (ucast (p ! 1))"

definition get32 :: "byte list \<Rightarrow> u32" where
  "get32 p = ucast (get16 p) OR push_bit 16 (ucast (get16 (drop 2 p)))"

definition get64 :: "byte list \<Rightarrow> u64" where
  "get64 p = ucast (get32 p) OR push_bit 32 (ucast (get32 (drop 4 p)))"

abbreviation (input) DH_CLIP_OFFER_HEAD_LEN :: nat where "DH_CLIP_OFFER_HEAD_LEN \<equiv> 16"
abbreviation (input) DH_CLIP_CHUNK_HEAD_LEN :: nat where "DH_CLIP_CHUNK_HEAD_LEN \<equiv> 20"
abbreviation (input) DH_CLIP_OFFER_PLAIN_FIXED :: nat where "DH_CLIP_OFFER_PLAIN_FIXED \<equiv> 11"
abbreviation (input) DH_CLIP_CHUNK_PLAIN_FIXED :: nat where "DH_CLIP_CHUNK_PLAIN_FIXED \<equiv> 4"

text \<open>\<open>4096 - 24 - 16 - 11 - 16\<close>.\<close>

abbreviation (input) DH_CLIP_OFFER_META_WIRE_MAX :: nat where "DH_CLIP_OFFER_META_WIRE_MAX \<equiv> 4029"

record dh_clip_offer_head =
  oh_id :: u32
  oh_seal_id :: u32
  oh_seal_counter :: u64

record dh_clip_chunk_head =
  kh_id :: u32
  kh_seq :: u32
  kh_seal_id :: u32
  kh_seal_counter :: u64

record dh_clip_offer =
  co_id :: u32
  co_kind :: byte
  co_total :: u64
  co_meta :: "byte list"

record dh_clip_chunk =
  ck_id :: u32
  ck_seq :: u32
  ck_crc32 :: u32
  ck_data :: "byte list"

definition dh_clip_encode_offer_head :: "dh_clip_offer_head \<Rightarrow> nat \<Rightarrow> byte list option" where
  "dh_clip_encode_offer_head head cap =
     (if cap < DH_CLIP_OFFER_HEAD_LEN then None
      else Some (put32 (oh_id head) @ put32 (oh_seal_id head) @ put64 (oh_seal_counter head)))"

definition dh_clip_encode_chunk_head :: "dh_clip_chunk_head \<Rightarrow> nat \<Rightarrow> byte list option" where
  "dh_clip_encode_chunk_head head cap =
     (if cap < DH_CLIP_CHUNK_HEAD_LEN then None
      else Some (put32 (kh_id head) @ put32 (kh_seq head) @ put32 (kh_seal_id head) @ put64 (kh_seal_counter head)))"

definition dh_clip_encode_offer_plain :: "dh_clip_offer \<Rightarrow> nat \<Rightarrow> byte list option" where
  "dh_clip_encode_offer_plain offer cap =
     (let n = DH_CLIP_OFFER_PLAIN_FIXED + length (co_meta offer) in
      if n > cap \<or> n > DH_FRAME_MAX_PAYLOAD then None
      else Some ([co_kind offer] @ put64 (co_total offer) @ put16 (of_nat (length (co_meta offer))) @ co_meta offer))"

definition dh_clip_encode_chunk_plain :: "dh_clip_chunk \<Rightarrow> nat \<Rightarrow> byte list option" where
  "dh_clip_encode_chunk_plain chunk cap =
     (let n = DH_CLIP_CHUNK_PLAIN_FIXED + length (ck_data chunk) in
      if n > cap \<or> n > DH_FRAME_MAX_PAYLOAD then None else Some (put32 (ck_crc32 chunk) @ ck_data chunk))"

definition dh_clip_encode_id :: "u32 \<Rightarrow> nat \<Rightarrow> byte list option" where
  "dh_clip_encode_id tid cap = (if cap < 4 then None else Some (put32 tid))"

definition dh_clip_encode_retransmit :: "u32 \<Rightarrow> u32 \<Rightarrow> nat \<Rightarrow> byte list option" where
  "dh_clip_encode_retransmit tid seq cap = (if cap < 8 then None else Some (put32 tid @ put32 seq))"

definition dh_clip_encode_credit :: "u32 \<Rightarrow> u16 \<Rightarrow> nat \<Rightarrow> byte list option" where
  "dh_clip_encode_credit tid credits cap = (if cap < 6 then None else Some (put32 tid @ put16 credits))"

definition dh_clip_decode_offer_head :: "byte list \<Rightarrow> dh_clip_offer_head option" where
  "dh_clip_decode_offer_head payload =
     (if length payload < DH_CLIP_OFFER_HEAD_LEN then None
      else Some \<lparr>oh_id = get32 payload, oh_seal_id = get32 (drop 4 payload), oh_seal_counter = get64 (drop 8 payload)\<rparr>)"

definition dh_clip_decode_chunk_head :: "byte list \<Rightarrow> dh_clip_chunk_head option" where
  "dh_clip_decode_chunk_head payload =
     (if length payload < DH_CLIP_CHUNK_HEAD_LEN then None
      else Some \<lparr>kh_id = get32 payload, kh_seq = get32 (drop 4 payload), kh_seal_id = get32 (drop 8 payload),
        kh_seal_counter = get64 (drop 12 payload)\<rparr>)"

text \<open>The id of an offer, and the id and sequence of a chunk, were in the head: the decoders of the plain
  parts fill in the other fields of the structure they are given.\<close>

definition dh_clip_decode_offer_plain :: "byte list \<Rightarrow> dh_clip_offer \<Rightarrow> dh_clip_offer option" where
  "dh_clip_decode_offer_plain plain out =
     (if length plain < DH_CLIP_OFFER_PLAIN_FIXED then None
      else
        let meta_len = get16 (drop 9 plain) in
        if DH_CLIP_OFFER_PLAIN_FIXED + unat meta_len \<noteq> length plain then None
        else Some (out\<lparr>co_kind := plain ! 0, co_total := get64 (drop 1 plain),
          co_meta := drop DH_CLIP_OFFER_PLAIN_FIXED plain\<rparr>))"

definition dh_clip_decode_chunk_plain :: "byte list \<Rightarrow> dh_clip_chunk \<Rightarrow> dh_clip_chunk option" where
  "dh_clip_decode_chunk_plain plain out =
     (if length plain < DH_CLIP_CHUNK_PLAIN_FIXED \<or> length plain - DH_CLIP_CHUNK_PLAIN_FIXED > DH_FRAME_MAX_PAYLOAD then None
      else Some (out\<lparr>ck_crc32 := get32 plain, ck_data := drop DH_CLIP_CHUNK_PLAIN_FIXED plain\<rparr>))"

definition dh_clip_decode_id :: "byte list \<Rightarrow> u32 option" where
  "dh_clip_decode_id payload = (if length payload \<noteq> 4 then None else Some (get32 payload))"

definition dh_clip_decode_retransmit :: "byte list \<Rightarrow> (u32 \<times> u32) option" where
  "dh_clip_decode_retransmit payload =
     (if length payload \<noteq> 8 then None else Some (get32 payload, get32 (drop 4 payload)))"

definition dh_clip_decode_credit :: "byte list \<Rightarrow> (u32 \<times> u16) option" where
  "dh_clip_decode_credit payload =
     (if length payload \<noteq> 6 then None else Some (get32 payload, get16 (drop 4 payload)))"

section \<open>Round trips\<close>

lemma put_length [simp]: "length (put16 a) = 2" "length (put32 b) = 4" "length (put64 c) = 8"
  by (simp_all add: put16_def put32_def put64_def)

lemma get16_cons: "get16 (x # y # xs) = ucast x OR push_bit 8 (ucast y)"
  by (simp add: get16_def)

lemma get_put16 [simp]: "get16 (put16 a @ xs) = a" "get16 (put16 a) = a"
  using of_le16_le16 [of a] by (simp_all add: put16_def get16_cons of_le16_def)

lemma mask_u32_16: "(0xFFFF :: u32) = mask 16"
  by (simp add: mask_eq_exp_minus_1)

lemma mask_u64_32: "(0xFFFFFFFF :: u64) = mask 32"
  by (simp add: mask_eq_exp_minus_1)

lemma get_put32 [simp]: "get32 (put32 b @ xs) = b" "get32 (put32 b) = b"
proof -
  have w: "ucast (ucast (b AND 0xFFFF) :: u16) OR push_bit 16 (ucast (ucast (drop_bit 16 b) :: u16)) = b"
    unfolding mask_u32_16 by (rule bit_word_eqI) (auto simp: bit_simps)
  show "get32 (put32 b @ xs) = b" using w by (simp add: get32_def put32_def)
  show "get32 (put32 b) = b" using w by (simp add: get32_def put32_def)
qed

lemma get_put64 [simp]: "get64 (put64 c @ xs) = c" "get64 (put64 c) = c"
proof -
  have w: "ucast (ucast (c AND 0xFFFFFFFF) :: u32) OR push_bit 32 (ucast (ucast (drop_bit 32 c) :: u32)) = c"
    unfolding mask_u64_32 by (rule bit_word_eqI) (auto simp: bit_simps)
  show "get64 (put64 c @ xs) = c" using w by (simp add: get64_def put64_def)
  show "get64 (put64 c) = c" using w by (simp add: get64_def put64_def)
qed

text \<open>Every clipboard message survives its wire form: the heads whatever follows them, the plain parts of
  any metadata or data the encoder accepts, and the control payloads; an encoder refuses exactly a buffer
  too small or a plain part longer than a frame carries.\<close>

theorem clip_payloads_roundtrip:
  "(\<forall>bs. dh_clip_encode_offer_head oh cap = Some bs \<longrightarrow> dh_clip_decode_offer_head (bs @ rest) = Some oh) \<and>
   (\<forall>bs. dh_clip_encode_chunk_head kh cap = Some bs \<longrightarrow> dh_clip_decode_chunk_head (bs @ rest) = Some kh) \<and>
   (\<forall>bs. dh_clip_encode_offer_plain offer cap = Some bs \<longrightarrow>
      dh_clip_decode_offer_plain bs (offer\<lparr>co_kind := k, co_total := t, co_meta := m\<rparr>) = Some offer) \<and>
   (\<forall>bs. dh_clip_encode_chunk_plain chunk cap = Some bs \<longrightarrow>
      dh_clip_decode_chunk_plain bs (chunk\<lparr>ck_crc32 := c, ck_data := d\<rparr>) = Some chunk) \<and>
   (\<forall>bs. dh_clip_encode_id tid cap = Some bs \<longrightarrow> dh_clip_decode_id bs = Some tid) \<and>
   (\<forall>bs. dh_clip_encode_retransmit tid seq cap = Some bs \<longrightarrow> dh_clip_decode_retransmit bs = Some (tid, seq)) \<and>
   (\<forall>bs. dh_clip_encode_credit tid credits cap = Some bs \<longrightarrow> dh_clip_decode_credit bs = Some (tid, credits)) \<and>
   (dh_clip_encode_offer_plain offer cap = None \<longleftrightarrow> length (co_meta offer) + 11 > min cap 4096)"
proof -
  have "unat (of_nat (length (co_meta offer)) :: u16) = length (co_meta offer)" if "length (co_meta offer) \<le> 4085"
    using that by (intro unat_of_nat_u16) simp
  then have plain: "dh_clip_decode_offer_plain bs (offer\<lparr>co_kind := k, co_total := t, co_meta := m\<rparr>) = Some offer"
    if "dh_clip_encode_offer_plain offer cap = Some bs" for bs
    using that by (auto simp: dh_clip_encode_offer_plain_def dh_clip_decode_offer_plain_def Let_def split: if_splits)
  show ?thesis
    using plain
    by (auto simp: dh_clip_encode_offer_head_def dh_clip_decode_offer_head_def dh_clip_encode_chunk_head_def
        dh_clip_decode_chunk_head_def dh_clip_encode_chunk_plain_def dh_clip_decode_chunk_plain_def
        dh_clip_encode_id_def dh_clip_decode_id_def dh_clip_encode_retransmit_def dh_clip_decode_retransmit_def
        dh_clip_encode_credit_def dh_clip_decode_credit_def dh_clip_encode_offer_plain_def Let_def split: if_splits)
qed

theorem clip_payloads_roundtrip_witness:
  "dh_clip_encode_chunk_plain \<lparr>ck_id = 3, ck_seq = 9, ck_crc32 = 0x01020304, ck_data = [5, 6]\<rparr> 64 = Some [4, 3, 2, 1, 5, 6] \<and>
   dh_clip_decode_chunk_plain [4, 3, 2, 1, 5, 6] \<lparr>ck_id = 3, ck_seq = 9, ck_crc32 = 0, ck_data = []\<rparr> =
     Some \<lparr>ck_id = 3, ck_seq = 9, ck_crc32 = 0x01020304, ck_data = [5, 6]\<rparr>"
proof -
  let ?k = "\<lparr>ck_id = 3, ck_seq = 9, ck_crc32 = 0x01020304, ck_data = [5, 6]\<rparr>"
  have e: "dh_clip_encode_chunk_plain ?k 64 = Some [4, 3, 2, 1, 5, 6]" by code_simp
  with clip_payloads_roundtrip [where chunk = ?k and cap = 64 and c = 0 and d = "[]"] show ?thesis by simp
qed

end
