(* ===== verification/DH_Xfer.thy ===== *)
theory DH_Xfer
  imports DH_Clip DH_Crc32
begin

text \<open>
  The chunked transfer engine both helpers run (\<open>src/src/core/dh_xfer.h\<close>, \<open>dh_xfer.c\<close>): the sender with its
  credit and retransmit ring, the receiver with its received and requested bitmaps, and every message
  handler. Messages in, actions out: an operation returns the new state and the actions written, of
  which there are never more than the capacity it is given. A null payload pointer is \<open>None\<close>; the receive
  buffer is a list whose length is its capacity.
\<close>

section \<open>Model\<close>

abbreviation (input) DH_XFER_CHUNK_SIZE :: nat where "DH_XFER_CHUNK_SIZE \<equiv> 1024"
abbreviation (input) DH_XFER_CREDIT_WINDOW :: u32 where "DH_XFER_CREDIT_WINDOW \<equiv> 3"
abbreviation (input) DH_XFER_BATCH_MAX :: nat where "DH_XFER_BATCH_MAX \<equiv> 16"
abbreviation (input) DH_XFER_RETX_MAX :: nat where "DH_XFER_RETX_MAX \<equiv> 64"
abbreviation (input) DH_XFER_MAX_CHUNKS :: nat where "DH_XFER_MAX_CHUNKS \<equiv> 65536"
abbreviation (input) DH_XFER_META_MAX :: nat where "DH_XFER_META_MAX \<equiv> 1024"
abbreviation (input) DH_XFER_IDENTITY_META_MAX :: nat where "DH_XFER_IDENTITY_META_MAX \<equiv> 4029"

datatype dh_xfer_action_type =
  DH_XFER_ACT_SEND_OFFER
| DH_XFER_ACT_NEED_DATA
| DH_XFER_ACT_SEND_CHUNK
| DH_XFER_ACT_SEND_DONE
| DH_XFER_ACT_SEND_REQUEST
| DH_XFER_ACT_SEND_RETRANSMIT
| DH_XFER_ACT_SEND_CREDIT
| DH_XFER_ACT_SEND_CANCEL
| DH_XFER_ACT_DELIVERED
| DH_XFER_ACT_FAILED
| DH_XFER_ACT_SEND_OFFER_RETRY
| DH_XFER_ACT_PROTOCOL_ERROR
| DH_XFER_ACT_SEND_DONE_RETRY
| DH_XFER_ACT_SEND_RECEIVED

datatype dh_xfer_fail_reason =
  DH_XFER_FAIL_CANCELLED
| DH_XFER_FAIL_LINK_DROP
| DH_XFER_FAIL_NO_DATA
| DH_XFER_FAIL_SEAL_REPLACED

record dh_xfer_action =
  ac_type :: dh_xfer_action_type
  ac_reason :: dh_xfer_fail_reason
  ac_credits :: u16
  ac_id :: u32
  ac_seq :: u32

record xfer_tx =
  xt_active :: bool
  xt_streaming :: bool
  xt_lazy_pending :: bool
  xt_need_done :: bool
  xt_id :: u32
  xt_kind :: byte
  xt_meta :: "byte list"
  xt_data :: "byte list option"
  xt_total :: u64
  xt_nchunks :: u32
  xt_next_seq :: u32
  xt_credits :: u32
  xt_retx :: "u32 list"
  xt_retx_head :: u32
  xt_retx_count :: u32
  xt_opening_credit_accepted :: bool
  xt_recovery_credit_due :: bool
  xt_retx_asked :: u32
  xt_retx_sent :: u32
  xt_offer_retries :: u32

record xfer_rx =
  xr_active :: bool
  xr_lazy :: bool
  xr_seen_offer :: bool
  xr_completed :: bool
  xr_id :: u32
  xr_kind :: byte
  xr_total :: u64
  xr_nchunks :: u32
  xr_nreceived :: u32
  xr_max_seq_seen :: u32
  xr_any_seen :: bool
  xr_ungranted :: u32
  xr_retx_asked :: u32
  xr_retx_answered :: u32
  xr_duplicate_offers :: u32
  xr_meta_len :: u16
  xr_meta :: "byte list"
  xr_received :: "byte list"
  xr_requested :: "byte list"
  xr_requested_stale :: "byte list"

record dh_xfer =
  x_tx :: xfer_tx
  x_rx :: xfer_rx
  x_rx_buf :: "byte list"
  x_rx_cap :: nat
  x_next_id :: u32

definition bit_get :: "byte list \<Rightarrow> u32 \<Rightarrow> bool" where
  "bit_get bits i = (drop_bit (unat (i AND 7)) (bits ! unat (drop_bit 3 i)) AND 1 \<noteq> 0)"

definition bit_set :: "byte list \<Rightarrow> u32 \<Rightarrow> byte list" where
  "bit_set bits i = bits[unat (drop_bit 3 i) := bits ! unat (drop_bit 3 i) OR push_bit (unat (i AND 7)) 1]"

definition bit_clear :: "byte list \<Rightarrow> u32 \<Rightarrow> byte list" where
  "bit_clear bits i = bits[unat (drop_bit 3 i) := bits ! unat (drop_bit 3 i) AND NOT (push_bit (unat (i AND 7)) 1)]"

definition chunk_count :: "u64 \<Rightarrow> u32" where
  "chunk_count n = ucast ((n + 1024 - 1) div 1024)"

definition chunk_len :: "u64 \<Rightarrow> u32 \<Rightarrow> u32 \<Rightarrow> u16" where
  "chunk_len n nchunks seq = (if seq + 1 = nchunks then ucast (n - ucast seq * 1024) else 1024)"

definition xfer_act :: "dh_xfer_action_type \<Rightarrow> u32 \<Rightarrow> dh_xfer_action" where
  "xfer_act t tid = \<lparr>ac_type = t, ac_reason = DH_XFER_FAIL_CANCELLED, ac_credits = 0, ac_id = tid, ac_seq = 0\<rparr>"

definition emit :: "dh_xfer_action list \<Rightarrow> nat \<Rightarrow> dh_xfer_action \<Rightarrow> dh_xfer_action list" where
  "emit acts cap a = (if length acts \<ge> cap then acts else acts @ [a])"

definition tx_zero :: xfer_tx where
  "tx_zero = \<lparr>xt_active = False, xt_streaming = False, xt_lazy_pending = False, xt_need_done = False, xt_id = 0,
     xt_kind = 0, xt_meta = [], xt_data = None, xt_total = 0, xt_nchunks = 0, xt_next_seq = 0, xt_credits = 0,
     xt_retx = replicate DH_XFER_RETX_MAX 0, xt_retx_head = 0, xt_retx_count = 0, xt_opening_credit_accepted = False,
     xt_recovery_credit_due = False, xt_retx_asked = 0, xt_retx_sent = 0, xt_offer_retries = 0\<rparr>"

definition rx_zero :: xfer_rx where
  "rx_zero = \<lparr>xr_active = False, xr_lazy = False, xr_seen_offer = False, xr_completed = False, xr_id = 0, xr_kind = 0,
     xr_total = 0, xr_nchunks = 0, xr_nreceived = 0, xr_max_seq_seen = 0, xr_any_seen = False, xr_ungranted = 0,
     xr_retx_asked = 0, xr_retx_answered = 0, xr_duplicate_offers = 0, xr_meta_len = 0,
     xr_meta = replicate DH_XFER_IDENTITY_META_MAX 0, xr_received = replicate (DH_XFER_MAX_CHUNKS div 8) 0,
     xr_requested = replicate (DH_XFER_MAX_CHUNKS div 8) 0, xr_requested_stale = replicate (DH_XFER_MAX_CHUNKS div 8) 0\<rparr>"

definition tx_reset :: "dh_xfer \<Rightarrow> dh_xfer" where
  "tx_reset x = x\<lparr>x_tx := tx_zero\<rparr>"

definition rx_reset :: "dh_xfer \<Rightarrow> dh_xfer" where
  "rx_reset x = x\<lparr>x_rx := (x_rx x)\<lparr>xr_active := False\<rparr>\<rparr>"

definition rx_forget :: "dh_xfer \<Rightarrow> dh_xfer" where
  "rx_forget x = x\<lparr>x_rx := rx_zero\<rparr>"

definition rx_abandon ::
  "dh_xfer \<Rightarrow> dh_xfer_fail_reason \<Rightarrow> dh_xfer_action list \<Rightarrow> nat \<Rightarrow> dh_xfer \<times> dh_xfer_action list" where
  "rx_abandon x reason acts cap =
     (rx_forget x,
      if xr_active (x_rx x)
      then emit acts cap ((xfer_act DH_XFER_ACT_FAILED (xr_id (x_rx x)))\<lparr>ac_reason := reason\<rparr>)
      else acts)"

definition serial_newer :: "u32 \<Rightarrow> u32 \<Rightarrow> bool" where
  "serial_newer candidate cur = (candidate \<noteq> cur \<and> candidate - cur < 0x80000000)"

definition dh_xfer_init :: "byte list \<Rightarrow> dh_xfer" where
  "dh_xfer_init rx_buf =
     \<lparr>x_tx = tx_zero, x_rx = rx_zero, x_rx_buf = rx_buf, x_rx_cap = length rx_buf, x_next_id = 1\<rparr>"

definition dh_xfer_set_rx_buffer :: "dh_xfer \<Rightarrow> byte list \<Rightarrow> dh_xfer \<times> bool" where
  "dh_xfer_set_rx_buffer x rx_buf =
     (if length rx_buf = 0 then (x, False)
      else if xr_active (x_rx x) then (x, False)
      else (x\<lparr>x_rx_buf := rx_buf, x_rx_cap := length rx_buf\<rparr>, True))"

subsection \<open>Sender\<close>

definition dh_xfer_tx_awaiting_receipt :: "dh_xfer \<Rightarrow> bool" where
  "dh_xfer_tx_awaiting_receipt x =
     (xt_active (x_tx x) \<and> xt_streaming (x_tx x) \<and> xt_next_seq (x_tx x) \<ge> xt_nchunks (x_tx x))"

definition dh_xfer_offer ::
  "dh_xfer \<Rightarrow> byte \<Rightarrow> byte list \<Rightarrow> byte list option \<Rightarrow> u64 \<Rightarrow> nat \<Rightarrow> dh_xfer \<times> dh_xfer_action list" where
  "dh_xfer_offer x kind meta data n cap =
     (let x = tx_reset x;
          tid = x_next_id x;
          x = x\<lparr>x_next_id := (if x_next_id x + 1 = 0 then 1 else x_next_id x + 1)\<rparr>;
          x = x\<lparr>x_tx := (x_tx x)\<lparr>xt_active := True, xt_id := tid, xt_kind := kind, xt_meta := meta, xt_data := data,
                 xt_total := n, xt_nchunks := chunk_count n\<rparr>\<rparr> in
      (x, emit [] cap (xfer_act DH_XFER_ACT_SEND_OFFER tid)))"

definition dh_xfer_retry_offer :: "dh_xfer \<Rightarrow> nat \<Rightarrow> dh_xfer \<times> dh_xfer_action list" where
  "dh_xfer_retry_offer x cap =
     (let t = x_tx x in
      if \<not> xt_active t \<or> xt_streaming t \<or> xt_lazy_pending t then (x, [])
      else if cap = 0 then (x, [])
      else (x\<lparr>x_tx := t\<lparr>xt_offer_retries := xt_offer_retries t + 1\<rparr>\<rparr>,
            emit [] cap (xfer_act DH_XFER_ACT_SEND_OFFER_RETRY (xt_id t))))"

definition tx_start_streaming :: "dh_xfer \<Rightarrow> dh_xfer" where
  "tx_start_streaming x =
     (let t = x_tx x;
          credits = (if xt_credits t > DH_XFER_CREDIT_WINDOW then DH_XFER_CREDIT_WINDOW else xt_credits t) in
      x\<lparr>x_tx := t\<lparr>xt_streaming := True, xt_need_done := True, xt_credits := credits,
         xt_opening_credit_accepted := (credits > 0)\<rparr>\<rparr>)"

definition dh_xfer_provide :: "dh_xfer \<Rightarrow> byte list option \<Rightarrow> dh_xfer" where
  "dh_xfer_provide x data =
     (let t = x_tx x in
      if \<not> xt_active t \<or> \<not> xt_lazy_pending t then x
      else tx_start_streaming (x\<lparr>x_tx := t\<lparr>xt_data := data, xt_lazy_pending := False\<rparr>\<rparr>))"

definition dh_xfer_provide_fail :: "dh_xfer \<Rightarrow> nat \<Rightarrow> dh_xfer \<times> dh_xfer_action list" where
  "dh_xfer_provide_fail x cap =
     (let t = x_tx x in
      if \<not> xt_active t \<or> \<not> xt_lazy_pending t then (x, [])
      else (tx_reset x, emit [] cap (xfer_act DH_XFER_ACT_SEND_CANCEL (xt_id t))))"

text \<open>Slot \<open>i\<close> of the retransmit ring, counted from its head.\<close>

definition retx_slot :: "xfer_tx \<Rightarrow> u32 \<Rightarrow> nat" where
  "retx_slot t i = unat ((xt_retx_head t + i) mod 64)"

definition retx_queued :: "xfer_tx \<Rightarrow> u32 \<Rightarrow> bool" where
  "retx_queued t seq = list_ex (\<lambda>i. xt_retx t ! retx_slot t (of_nat i) = seq) [0..<unat (xt_retx_count t)]"

definition tx_queue_retransmit :: "dh_xfer \<Rightarrow> u32 \<Rightarrow> dh_xfer" where
  "tx_queue_retransmit x seq =
     (let t = x_tx x in
      if retx_queued t seq then x
      else if unat (xt_retx_count t) \<ge> DH_XFER_RETX_MAX then x
      else x\<lparr>x_tx := t\<lparr>xt_retx := (xt_retx t)[retx_slot t (xt_retx_count t) := seq],
             xt_retx_count := xt_retx_count t + 1\<rparr>\<rparr>)"

text \<open>One turn of the pump's loop: the sequence sent next, from the ring first.\<close>

definition pump_next :: "xfer_tx \<Rightarrow> xfer_tx \<times> u32" where
  "pump_next t =
     (if xt_retx_count t > 0
      then (t\<lparr>xt_retx_head := (xt_retx_head t + 1) mod 64, xt_retx_count := xt_retx_count t - 1,
              xt_retx_sent := xt_retx_sent t + 1\<rparr>, xt_retx t ! unat (xt_retx_head t))
      else (t\<lparr>xt_next_seq := xt_next_seq t + 1\<rparr>, xt_next_seq t))"

function pump_chunks :: "xfer_tx \<Rightarrow> dh_xfer_action list \<Rightarrow> nat \<Rightarrow> nat \<Rightarrow> xfer_tx \<times> dh_xfer_action list" where
  "pump_chunks t acts cap chunks =
     (if xt_credits t > 0 \<and> chunks < DH_XFER_BATCH_MAX \<and> length acts + 1 < cap \<and>
         (xt_retx_count t > 0 \<or> xt_next_seq t < xt_nchunks t)
      then
        let (t', seq) = pump_next t in
        pump_chunks (t'\<lparr>xt_credits := xt_credits t' - 1\<rparr>)
          (emit acts cap ((xfer_act DH_XFER_ACT_SEND_CHUNK (xt_id t))\<lparr>ac_seq := seq\<rparr>)) cap (chunks + 1)
      else (t, acts))"
  by pat_completeness auto
termination
  by (relation "measure (\<lambda>(t, acts, cap, chunks). DH_XFER_BATCH_MAX - chunks)") auto

declare pump_chunks.simps [simp del]

definition dh_xfer_pump :: "dh_xfer \<Rightarrow> nat \<Rightarrow> dh_xfer \<times> dh_xfer_action list" where
  "dh_xfer_pump x cap =
     (let t = x_tx x in
      if \<not> xt_active t \<or> \<not> xt_streaming t \<or> xt_lazy_pending t then (x, [])
      else
        let (t, acts) = pump_chunks t [] cap 0 in
        if xt_need_done t \<and> xt_retx_count t = 0 \<and> xt_next_seq t \<ge> xt_nchunks t \<and> length acts < cap
        then (x\<lparr>x_tx := t\<lparr>xt_need_done := False\<rparr>\<rparr>, emit acts cap (xfer_act DH_XFER_ACT_SEND_DONE (xt_id t)))
        else (x\<lparr>x_tx := t\<rparr>, acts))"

definition dh_xfer_retry_done :: "dh_xfer \<Rightarrow> nat \<Rightarrow> dh_xfer \<times> dh_xfer_action list" where
  "dh_xfer_retry_done x cap =
     (if \<not> dh_xfer_tx_awaiting_receipt x then (x, [])
      else (x, emit [] cap (xfer_act DH_XFER_ACT_SEND_DONE_RETRY (xt_id (x_tx x)))))"

definition dh_xfer_cancel_tx :: "dh_xfer \<Rightarrow> nat \<Rightarrow> dh_xfer \<times> dh_xfer_action list" where
  "dh_xfer_cancel_tx x cap =
     (if \<not> xt_active (x_tx x) then (x, [])
      else (tx_reset x, emit [] cap (xfer_act DH_XFER_ACT_SEND_CANCEL (xt_id (x_tx x)))))"

definition dh_xfer_expire_tx :: "dh_xfer \<Rightarrow> dh_xfer" where
  "dh_xfer_expire_tx x = (if dh_xfer_tx_awaiting_receipt x then tx_reset x else x)"

definition dh_xfer_handle_request :: "dh_xfer \<Rightarrow> u32 \<Rightarrow> nat \<Rightarrow> dh_xfer \<times> dh_xfer_action list" where
  "dh_xfer_handle_request x tid cap =
     (let t = x_tx x in
      if \<not> xt_active t \<or> xt_id t \<noteq> tid \<or> xt_streaming t \<or> xt_lazy_pending t then (x, [])
      else if xt_data t = None \<and> xt_total t > 0
      then (x\<lparr>x_tx := t\<lparr>xt_lazy_pending := True\<rparr>\<rparr>, emit [] cap (xfer_act DH_XFER_ACT_NEED_DATA (xt_id t)))
      else (tx_start_streaming x, []))"

definition dh_xfer_handle_retransmit :: "dh_xfer \<Rightarrow> u32 \<Rightarrow> u32 \<Rightarrow> dh_xfer" where
  "dh_xfer_handle_retransmit x tid seq =
     (let t = x_tx x in
      if \<not> xt_active t \<or> xt_id t \<noteq> tid \<or> seq \<ge> xt_nchunks t then x
      else
        let x = x\<lparr>x_tx := t\<lparr>xt_recovery_credit_due := True\<rparr>\<rparr>;
            x = (if seq < xt_next_seq t
                 then let x = tx_queue_retransmit x seq in
                      x\<lparr>x_tx := (x_tx x)\<lparr>xt_retx_asked := xt_retx_asked (x_tx x) + 1\<rparr>\<rparr>
                 else x) in
        x\<lparr>x_tx := (x_tx x)\<lparr>xt_need_done := True\<rparr>\<rparr>)"

definition dh_xfer_handle_credit :: "dh_xfer \<Rightarrow> u32 \<Rightarrow> u16 \<Rightarrow> dh_xfer" where
  "dh_xfer_handle_credit x tid credits =
     (let t = x_tx x in
      if \<not> xt_active t \<or> xt_id t \<noteq> tid then x
      else
        let opening_grant = (xt_streaming t \<and> ucast credits = DH_XFER_CREDIT_WINDOW \<and> \<not> xt_recovery_credit_due t);
            t = (if opening_grant \<and> \<not> xt_opening_credit_accepted t then
                   let room = (if xt_credits t < DH_XFER_CREDIT_WINDOW then DH_XFER_CREDIT_WINDOW - xt_credits t else 0) in
                   t\<lparr>xt_credits := xt_credits t + (if ucast credits < room then ucast credits else room),
                     xt_opening_credit_accepted := True\<rparr>
                 else if \<not> opening_grant then t\<lparr>xt_credits := xt_credits t + ucast credits\<rparr> else t) in
        x\<lparr>x_tx := t\<lparr>xt_recovery_credit_due := False\<rparr>\<rparr>)"

definition dh_xfer_offer_info :: "dh_xfer \<Rightarrow> dh_clip_offer option" where
  "dh_xfer_offer_info x =
     (let t = x_tx x in
      if \<not> xt_active t then None
      else Some \<lparr>co_id = xt_id t, co_kind = xt_kind t, co_total = xt_total t, co_meta = xt_meta t\<rparr>)"

definition dh_xfer_chunk_at :: "dh_xfer \<Rightarrow> u32 \<Rightarrow> dh_clip_chunk option" where
  "dh_xfer_chunk_at x seq =
     (let t = x_tx x in
      case xt_data t of
        None \<Rightarrow> None
      | Some data \<Rightarrow>
          if \<not> xt_active t \<or> seq \<ge> xt_nchunks t then None
          else
            let d = take (unat (chunk_len (xt_total t) (xt_nchunks t) seq)) (drop (unat seq * DH_XFER_CHUNK_SIZE) data) in
            Some \<lparr>ck_id = xt_id t, ck_seq = seq, ck_crc32 = dh_crc32 d, ck_data = d\<rparr>)"

subsection \<open>Receiver\<close>

text \<open>The request and the opening window that go out together.\<close>

definition emit_request :: "nat \<Rightarrow> u32 \<Rightarrow> dh_xfer_action list" where
  "emit_request cap tid =
     emit (emit [] cap (xfer_act DH_XFER_ACT_SEND_REQUEST tid)) cap
       ((xfer_act DH_XFER_ACT_SEND_CREDIT tid)\<lparr>ac_credits := ucast DH_XFER_CREDIT_WINDOW\<rparr>)"

definition offer_same :: "xfer_rx \<Rightarrow> dh_clip_offer \<Rightarrow> bool" where
  "offer_same r offer =
     (length (co_meta offer) \<le> DH_XFER_IDENTITY_META_MAX \<and> co_kind offer = xr_kind r \<and> co_total offer = xr_total r \<and>
      length (co_meta offer) = unat (xr_meta_len r) \<and>
      (length (co_meta offer) = 0 \<or> co_meta offer = take (length (co_meta offer)) (xr_meta r)))"

definition handle_offer :: "dh_xfer \<Rightarrow> dh_clip_offer \<Rightarrow> bool \<Rightarrow> nat \<Rightarrow> dh_xfer \<times> dh_xfer_action list" where
  "handle_offer x offer lazy cap =
     (let r = x_rx x; nchunks = chunk_count (co_total offer); meta_len = length (co_meta offer) in
      if co_id offer = 0 then (x, emit [] cap (xfer_act DH_XFER_ACT_PROTOCOL_ERROR 0))
      else if xr_seen_offer r \<and> co_id offer = xr_id r then
        if \<not> offer_same r offer then (x, emit [] cap (xfer_act DH_XFER_ACT_PROTOCOL_ERROR (co_id offer)))
        else
          let x = x\<lparr>x_rx := r\<lparr>xr_duplicate_offers := xr_duplicate_offers r + 1\<rparr>\<rparr> in
          if \<not> xr_active r \<or> xr_any_seen r \<or> xr_lazy r then (x, []) else (x, emit_request cap (co_id offer))
      else if xr_seen_offer r \<and> \<not> serial_newer (co_id offer) (xr_id r) then (x, [])
      else
        let r = rx_zero\<lparr>xr_seen_offer := True, xr_id := co_id offer, xr_kind := co_kind offer, xr_total := co_total offer,
                 xr_nchunks := nchunks, xr_meta_len := of_nat meta_len\<rparr>;
            r = (if meta_len \<le> DH_XFER_IDENTITY_META_MAX \<and> meta_len > 0
                 then r\<lparr>xr_meta := blit (xr_meta r) 0 (co_meta offer)\<rparr> else r) in
        if unat (co_total offer) > x_rx_cap x \<or> unat nchunks > DH_XFER_MAX_CHUNKS \<or> meta_len > DH_XFER_META_MAX
        then (x\<lparr>x_rx := r\<rparr>, emit [] cap (xfer_act DH_XFER_ACT_SEND_CANCEL (co_id offer)))
        else
          let x = x\<lparr>x_rx := r\<lparr>xr_active := True, xr_lazy := lazy\<rparr>\<rparr> in
          if lazy then (x, []) else (x, emit_request cap (co_id offer)))"

definition dh_xfer_handle_offer :: "dh_xfer \<Rightarrow> dh_clip_offer \<Rightarrow> nat \<Rightarrow> dh_xfer \<times> dh_xfer_action list" where
  "dh_xfer_handle_offer x offer cap = handle_offer x offer False cap"

definition dh_xfer_handle_offer_lazy :: "dh_xfer \<Rightarrow> dh_clip_offer \<Rightarrow> nat \<Rightarrow> dh_xfer \<times> dh_xfer_action list" where
  "dh_xfer_handle_offer_lazy x offer cap = handle_offer x offer True cap"

definition dh_xfer_request_lazy :: "dh_xfer \<Rightarrow> u32 \<Rightarrow> nat \<Rightarrow> dh_xfer \<times> dh_xfer_action list" where
  "dh_xfer_request_lazy x tid cap =
     (let r = x_rx x in
      if \<not> xr_active r \<or> \<not> xr_lazy r \<or> xr_id r \<noteq> tid then (x, [])
      else (x\<lparr>x_rx := r\<lparr>xr_lazy := False\<rparr>\<rparr>, emit_request cap tid))"

definition rx_request_chunk ::
  "xfer_rx \<Rightarrow> u32 \<Rightarrow> bool \<Rightarrow> dh_xfer_action list \<Rightarrow> nat \<Rightarrow> u16 \<Rightarrow> xfer_rx \<times> dh_xfer_action list \<times> u16" where
  "rx_request_chunk r seq stale acts cap credits =
     (if bit_get (xr_requested r) seq then (r, acts, credits)
      else if length acts + 1 \<ge> cap then (r, acts, credits)
      else
        (r\<lparr>xr_requested := bit_set (xr_requested r) seq, xr_retx_asked := xr_retx_asked r + 1,
           xr_requested_stale := (if stale then bit_set else bit_clear) (xr_requested_stale r) seq\<rparr>,
         emit acts cap ((xfer_act DH_XFER_ACT_SEND_RETRANSMIT (xr_id r))\<lparr>ac_seq := seq\<rparr>), credits + 1))"

definition rx_complete :: "xfer_rx \<Rightarrow> dh_xfer_action list \<Rightarrow> nat \<Rightarrow> xfer_rx \<times> dh_xfer_action list \<times> bool" where
  "rx_complete r acts cap =
     (if length acts \<ge> cap then (r, acts, False)
      else (r\<lparr>xr_active := False, xr_completed := True\<rparr>,
            emit (emit acts cap (xfer_act DH_XFER_ACT_DELIVERED (xr_id r))) cap (xfer_act DH_XFER_ACT_SEND_RECEIVED (xr_id r)),
            True))"

definition rx_grant :: "u32 \<Rightarrow> dh_xfer_action list \<Rightarrow> nat \<Rightarrow> u16 \<Rightarrow> dh_xfer_action list" where
  "rx_grant tid acts cap credits =
     (if credits = 0 then acts else emit acts cap ((xfer_act DH_XFER_ACT_SEND_CREDIT tid)\<lparr>ac_credits := credits\<rparr>))"

text \<open>The part of \<open>dh_xfer_handle_chunk\<close> that stores a verified chunk.\<close>

definition rx_store :: "dh_xfer \<Rightarrow> dh_clip_chunk \<Rightarrow> dh_xfer" where
  "rx_store x chunk =
     (let r = x_rx x; seq = ck_seq chunk;
          r = (if \<not> xr_any_seen r \<or> seq > xr_max_seq_seen r then r\<lparr>xr_max_seq_seen := seq, xr_any_seen := True\<rparr> else r) in
      x\<lparr>x_rx_buf := blit (x_rx_buf x) (unat seq * DH_XFER_CHUNK_SIZE) (ck_data chunk),
        x_rx := r\<lparr>xr_received := bit_set (xr_received r) seq,
          xr_retx_answered := (if bit_get (xr_requested r) seq then xr_retx_answered r + 1 else xr_retx_answered r),
          xr_requested := bit_clear (xr_requested r) seq, xr_nreceived := xr_nreceived r + 1\<rparr>\<rparr>)"

definition dh_xfer_handle_chunk :: "dh_xfer \<Rightarrow> dh_clip_chunk \<Rightarrow> nat \<Rightarrow> dh_xfer \<times> dh_xfer_action list" where
  "dh_xfer_handle_chunk x chunk cap =
     (let r = x_rx x; seq = ck_seq chunk in
      if \<not> xr_active r \<or> xr_lazy r \<or> xr_id r \<noteq> ck_id chunk \<or> seq \<ge> xr_nchunks r then (x, [])
      else if bit_get (xr_received r) seq then (x, rx_grant (xr_id r) [] cap 1)
      else if length (ck_data chunk) \<noteq> unat (chunk_len (xr_total r) (xr_nchunks r) seq) \<or>
              dh_crc32 (ck_data chunk) \<noteq> ck_crc32 chunk then
        let r = r\<lparr>xr_requested := bit_clear (xr_requested r) seq\<rparr>;
            (r, acts, credits) = rx_request_chunk r seq False [] cap 0 in
        (x\<lparr>x_rx := r\<rparr>, rx_grant (xr_id r) acts cap credits)
      else
        let x = rx_store x chunk;
            (r, acts, done) = (if xr_nreceived (x_rx x) \<ge> xr_nchunks (x_rx x) then rx_complete (x_rx x) [] cap
                               else (x_rx x, [], False)) in
        if done then (x\<lparr>x_rx := r\<rparr>, acts)
        else
          let ungranted = xr_ungranted r + 1;
              (ungranted, credits) = (if ungranted \<ge> DH_XFER_CREDIT_WINDOW div 2 then (0, ucast ungranted) else (ungranted, 0)) in
          (x\<lparr>x_rx := r\<lparr>xr_ungranted := ungranted\<rparr>\<rparr>, rx_grant (xr_id r) acts cap credits))"

definition sweep_one ::
  "bool \<Rightarrow> nat \<Rightarrow> xfer_rx \<times> dh_xfer_action list \<times> u16 \<Rightarrow> u32 \<Rightarrow> xfer_rx \<times> dh_xfer_action list \<times> u16" where
  "sweep_one aged cap st m =
     (case st of (r, acts, credits) \<Rightarrow>
        if bit_get (xr_received r) m then st
        else if aged \<and> bit_get (xr_requested r) m \<and> \<not> bit_get (xr_requested_stale r) m
        then (r\<lparr>xr_requested_stale := bit_set (xr_requested_stale r) m\<rparr>, acts, credits)
        else rx_request_chunk (r\<lparr>xr_requested := bit_clear (xr_requested r) m\<rparr>) m aged acts cap credits)"

definition rx_sweep_range ::
  "xfer_rx \<Rightarrow> u32 \<Rightarrow> bool \<Rightarrow> dh_xfer_action list \<Rightarrow> nat \<Rightarrow> u16 \<Rightarrow> xfer_rx \<times> dh_xfer_action list \<times> u16" where
  "rx_sweep_range r limit aged acts cap credits =
     foldl (sweep_one aged cap) (r, acts, credits) (map of_nat [0..<unat limit])"

text \<open>The loop at and above the frontier, over the sequences from there to the end.\<close>

fun sweep_window ::
  "nat \<Rightarrow> nat \<Rightarrow> xfer_rx \<times> dh_xfer_action list \<times> u16 \<Rightarrow> u32 list \<Rightarrow> xfer_rx \<times> dh_xfer_action list \<times> u16" where
  "sweep_window cap named st [] = st"
| "sweep_window cap named st (m # ms) =
     (if named \<ge> 3 then st
      else if bit_get (xr_received (fst st)) m then sweep_window cap named st ms
      else sweep_window cap (named + 1) (sweep_one False cap st m) ms)"

definition dh_xfer_sweep_rx :: "dh_xfer \<Rightarrow> nat \<Rightarrow> dh_xfer \<times> dh_xfer_action list" where
  "dh_xfer_sweep_rx x cap =
     (let r = x_rx x in
      if \<not> xr_active r \<or> xr_lazy r then (x, [])
      else
        let st = (if \<not> xr_any_seen r then (r, emit [] cap (xfer_act DH_XFER_ACT_SEND_REQUEST (xr_id r)), 0)
                  else rx_sweep_range r (xr_max_seq_seen r) False [] cap 0);
            from = (if xr_any_seen r then xr_max_seq_seen r else 0);
            (r, acts, credits) = sweep_window cap 0 st (map of_nat [unat from..<unat (xr_nchunks r)]) in
        (x\<lparr>x_rx := r\<rparr>, rx_grant (xr_id r) acts cap credits))"

definition dh_xfer_handle_done :: "dh_xfer \<Rightarrow> u32 \<Rightarrow> nat \<Rightarrow> dh_xfer \<times> dh_xfer_action list" where
  "dh_xfer_handle_done x tid cap =
     (let r = x_rx x in
      if xr_completed r \<and> xr_id r = tid then (x, emit [] cap (xfer_act DH_XFER_ACT_SEND_RECEIVED tid))
      else if \<not> xr_active r \<or> xr_lazy r \<or> xr_id r \<noteq> tid then (x, [])
      else if xr_nreceived r < xr_nchunks r then
        let (r, acts, credits) = rx_sweep_range r (xr_nchunks r) True [] cap 0 in
        (x\<lparr>x_rx := r\<rparr>, rx_grant (xr_id r) acts cap credits)
      else
        let (r, acts, _) = rx_complete r [] cap in (x\<lparr>x_rx := r\<rparr>, acts))"

subsection \<open>Both directions\<close>

definition dh_xfer_handle_received :: "dh_xfer \<Rightarrow> u32 \<Rightarrow> dh_xfer" where
  "dh_xfer_handle_received x tid =
     (let t = x_tx x in
      if xt_active t \<and> xt_id t = tid \<and> xt_streaming t \<and> xt_next_seq t \<ge> xt_nchunks t then tx_reset x else x)"

definition dh_xfer_cancel_rx :: "dh_xfer \<Rightarrow> nat \<Rightarrow> dh_xfer \<times> dh_xfer_action list" where
  "dh_xfer_cancel_rx x cap =
     (if \<not> xr_active (x_rx x) then (x, [])
      else (rx_reset x, emit [] cap (xfer_act DH_XFER_ACT_SEND_CANCEL (xr_id (x_rx x)))))"

definition dh_xfer_handle_cancel :: "dh_xfer \<Rightarrow> u32 \<Rightarrow> nat \<Rightarrow> dh_xfer \<times> dh_xfer_action list" where
  "dh_xfer_handle_cancel x tid cap =
     (let failed = xfer_act DH_XFER_ACT_FAILED tid;
          (x, acts) = (if xr_active (x_rx x) \<and> xr_id (x_rx x) = tid then (rx_reset x, emit [] cap failed) else (x, [])) in
      if xt_active (x_tx x) \<and> xt_id (x_tx x) = tid then (tx_reset x, emit acts cap failed) else (x, acts))"

definition dh_xfer_link_down :: "dh_xfer \<Rightarrow> nat \<Rightarrow> dh_xfer \<times> dh_xfer_action list" where
  "dh_xfer_link_down x cap =
     (let (x, acts) = rx_abandon x DH_XFER_FAIL_LINK_DROP [] cap in
      if xt_active (x_tx x)
      then (tx_reset x, emit acts cap ((xfer_act DH_XFER_ACT_FAILED (xt_id (x_tx x)))\<lparr>ac_reason := DH_XFER_FAIL_LINK_DROP\<rparr>))
      else (x, acts))"

definition dh_xfer_rx_seal_replaced :: "dh_xfer \<Rightarrow> nat \<Rightarrow> dh_xfer \<times> dh_xfer_action list" where
  "dh_xfer_rx_seal_replaced x cap = rx_abandon x DH_XFER_FAIL_SEAL_REPLACED [] cap"

definition dh_xfer_rx_is_held :: "dh_xfer \<Rightarrow> bool" where
  "dh_xfer_rx_is_held x = (xr_active (x_rx x) \<and> xr_lazy (x_rx x))"

definition dh_xfer_is_receiving :: "dh_xfer \<Rightarrow> bool" where
  "dh_xfer_is_receiving x = (xr_active (x_rx x) \<and> \<not> xr_lazy (x_rx x))"

definition dh_xfer_tx_awaiting_request :: "dh_xfer \<Rightarrow> bool" where
  "dh_xfer_tx_awaiting_request x =
     (xt_active (x_tx x) \<and> \<not> xt_streaming (x_tx x) \<and> \<not> xt_lazy_pending (x_tx x))"

end
