(* ===== verification/DH_Xfer_Inv.thy ===== *)
theory DH_Xfer_Inv
  imports DH_Xfer
begin

text \<open>
  The invariant of the transfer engine and its preservation by every operation. A bitmap of the receiver is an instance
  of the interface \<open>bitmap\<close>, in which the counting lemmas are proved once; the retransmit ring is the list \<open>retx_list\<close>;
  what a sender still owes is \<open>pending\<close>; the outcomes of a chunk, a \<open>done\<close> and an offer are stated as case rules.
\<close>

section \<open>Bitmaps as sets\<close>

text \<open>What the engine relies on of a bitmap of \<open>room\<close> sequence numbers.\<close>

locale bitmap =
  fixes member :: "'b \<Rightarrow> u32 \<Rightarrow> bool" and ins rem :: "'b \<Rightarrow> u32 \<Rightarrow> 'b" and none :: 'b and ok :: "'b \<Rightarrow> bool" and room :: nat
  assumes none: "ok none" "unat i < room \<Longrightarrow> \<not> member none i"
    and ins: "ok b \<Longrightarrow> unat i < room \<Longrightarrow> ok (ins b i)"
      "ok b \<Longrightarrow> unat i < room \<Longrightarrow> unat j < room \<Longrightarrow> member (ins b i) j = (i = j \<or> member b j)"
    and rem: "ok b \<Longrightarrow> unat i < room \<Longrightarrow> ok (rem b i)"
      "ok b \<Longrightarrow> unat i < room \<Longrightarrow> unat j < room \<Longrightarrow> member (rem b i) j = (i \<noteq> j \<and> member b j)"
begin

text \<open>The members below \<open>n\<close>, and how many they are.\<close>

definition below :: "'b \<Rightarrow> u32 \<Rightarrow> u32 set" where
  "below b n = {i. i < n \<and> member b i}"

lemma below_none: "unat n \<le> room \<Longrightarrow> below none n = {}"
  using none by (auto simp: below_def word_less_nat_alt)

lemma below_ins:
  assumes "ok b" and "unat n \<le> room" and "i < n"
  shows "below (ins b i) n = insert i (below b n)"
  using assms ins(2) [OF assms(1)] by (auto simp: below_def word_less_nat_alt)

lemma card_below_ins:
  assumes "ok b" and "unat n \<le> room" and "i < n" and "\<not> member b i"
  shows "card (below (ins b i) n) = Suc (card (below b n))"
  using assms by (simp add: below_ins) (simp add: below_def)

lemma card_lessThan_word: "card {..<n :: u32} = unat n"
proof -
  have "unat ` {..<n} = {..<unat n}"
  proof (intro equalityI subsetI)
    fix k assume "k \<in> {..<unat n}"
    moreover have "unat n < 2 ^ LENGTH(32)" by (rule unsigned_less)
    ultimately have "k = unat (of_nat k :: u32)" "(of_nat k :: u32) < n"
      by (simp_all add: unat_of_nat_small word_less_nat_alt)
    then show "k \<in> unat ` {..<n}" by (auto simp: image_iff)
  qed (auto simp: word_less_nat_alt)
  then have "card (unat ` {..<n}) = unat n" by simp
  moreover have "inj_on unat {..<n}" by (rule inj_onI) (simp add: word_unat_eq_iff)
  ultimately show ?thesis by (metis card_image)
qed

lemma card_below_le: "card (below b n) \<le> unat n"
proof -
  have "below b n \<subseteq> {..<n}" by (auto simp: below_def)
  then have "card (below b n) \<le> card {..<n}" by (intro card_mono) simp_all
  then show ?thesis by (simp add: card_lessThan_word)
qed

lemma below_full: "card (below b n) = unat n \<longleftrightarrow> (\<forall>i<n. member b i)"
proof
  assume "card (below b n) = unat n"
  then have "below b n = {..<n}"
    using card_subset_eq [of "{..<n}" "below b n"] card_lessThan_word [of n] by (auto simp: below_def)
  then show "\<forall>i<n. member b i" by (auto simp: below_def)
next
  assume "\<forall>i<n. member b i"
  then have "below b n = {..<n}" by (auto simp: below_def)
  then show "card (below b n) = unat n" by (simp add: card_lessThan_word)
qed

end

lemma bit_pos:
  "unat (drop_bit 3 (i :: u32)) = unat i div 8" "unat (i AND 7) = unat i mod 8"
proof -
  show "unat (drop_bit 3 i) = unat i div 8" by (simp add: drop_bit_eq_div unat_div)
  have "i AND 7 = take_bit 3 i" by (simp add: take_bit_eq_mask mask_eq_exp_minus_1)
  then show "unat (i AND 7) = unat i mod 8" by (simp add: unat_mod take_bit_eq_mod)
qed

lemma bit_get_eq: "bit_get bits i = bit (bits ! (unat i div 8)) (unat i mod 8)"
  by (simp add: bit_get_def bit_pos and_one_eq odd_iff_mod_2_eq_one bit_iff_odd_drop_bit)

lemma bit_pos_eq: "unat i div 8 = unat j div 8 \<Longrightarrow> unat i mod 8 = unat j mod 8 \<Longrightarrow> i = (j :: u32)"
  by (metis div_mult_mod_eq word_unat_eq_iff)

lemma bit_single: "bit (2 ^ n :: byte) m \<longleftrightarrow> m = n \<and> n < 8"
  by (auto simp: bit_simps)

lemma bit_get_update:
  assumes "unat i div 8 < length bits"
  shows "bit_get (bit_set bits i) j = (i = j \<or> bit_get bits j)" and "bit_get (bit_clear bits i) j = (i \<noteq> j \<and> bit_get bits j)"
proof -
  have j: "unat j mod 8 < LENGTH(8)" by simp
  have eq: "i = j \<longleftrightarrow> unat j mod 8 = unat i mod 8" if "unat i div 8 = unat j div 8"
    using that bit_pos_eq [of i j] by auto
  show "bit_get (bit_set bits i) j = (i = j \<or> bit_get bits j)"
    using assms eq by (cases "unat i div 8 = unat j div 8")
      (auto simp: bit_get_eq bit_set_def bit_pos bit_or_iff bit_single)
  show "bit_get (bit_clear bits i) j = (i \<noteq> j \<and> bit_get bits j)"
    using assms eq j by (cases "unat i div 8 = unat j div 8")
      (auto simp: bit_get_eq bit_clear_def bit_pos bit_and_iff bit_not_iff bit_single)
qed

interpretation chunks: bitmap bit_get bit_set bit_clear "replicate 8192 0" "\<lambda>b. length b = 8192" 65536
proof unfold_locales
  fix b :: "byte list" and i j :: u32
  assume i: "unat i < 65536"
  then have d: "unat i div 8 < 8192" by simp
  show "\<not> bit_get (replicate 8192 0) i" using d by (simp add: bit_get_eq)
  assume "length b = 8192"
  with d show "length (bit_set b i) = 8192" "length (bit_clear b i) = 8192"
    "bit_get (bit_set b i) j = (i = j \<or> bit_get b j)" "bit_get (bit_clear b i) j = (i \<noteq> j \<and> bit_get b j)"
    by (simp_all add: bit_get_update) (simp_all add: bit_set_def bit_clear_def)
qed simp

section \<open>Chunk arithmetic\<close>

lemma unat_u64_ucast32: "unat (ucast (w :: u64) :: u32) = unat w mod 4294967296"
  by (simp add: unsigned_ucast_eq take_bit_eq_mod)

lemma unat_u64_ucast16: "unat (ucast (w :: u64) :: u16) = unat w mod 65536"
  by (simp add: unsigned_ucast_eq take_bit_eq_mod)

lemma unat_u32_ucast64: "unat (ucast (w :: u32) :: u64) = unat w"
  using unsigned_less [where 'a = nat, of w] by (simp add: unsigned_ucast_eq take_bit_nat_eq_self)

lemma u32_suc: "(a :: u32) < b \<Longrightarrow> unat (a + 1) = unat a + 1"
  using unat_add_of_nat [of a 1] unsigned_less [where 'a = nat, of b] by (simp add: word_less_nat_alt)

lemma chunk_count_exact:
  assumes "unat n < 4294967296"
  shows "unat (chunk_count n) = (unat n + 1023) div 1024"
proof -
  have e: "n + 1024 - 1 = n + of_nat 1023" by (subst add_diff_eq [symmetric]) simp
  have "unat (n + 1024 - 1 :: u64) = unat n + 1023"
    unfolding e by (rule unat_add_of_nat) (use assms in simp)
  then show ?thesis
    unfolding chunk_count_def unat_u64_ucast32 unat_div using assms by simp
qed

lemma chunk_len_exact:
  assumes "unat n < 4294967296" and "seq < chunk_count n"
  shows "unat (chunk_len n (chunk_count n) seq) = min 1024 (unat n - unat seq * 1024)" and "unat seq * 1024 < unat n"
proof -
  define q where "q = unat seq"
  have c: "unat (chunk_count n) = (unat n + 1023) div 1024" by (rule chunk_count_exact [OF assms(1)])
  have lt: "q < (unat n + 1023) div 1024" using assms(2) c by (simp add: word_less_nat_alt q_def)
  then show sn: "unat seq * 1024 < unat n" by (simp add: q_def [symmetric])
  have q: "q < 4194304" using lt assms(1) by linarith
  have suc: "unat (seq + 1) = q + 1" using unat_add_of_nat [of seq 1] q by (simp add: q_def)
  have last: "seq + 1 = chunk_count n \<longleftrightarrow> q + 1 = (unat n + 1023) div 1024"
    using suc c by (simp add: word_unat_eq_iff)
  have "unat (ucast seq * 1024 :: u64) = q * 1024"
    using q by (simp add: unat_word_ariths unat_u32_ucast64 q_def)
  then have "unat (n - ucast seq * 1024) = unat n - q * 1024"
    using sn by (subst unat_sub_le_nat) (simp_all add: q_def)
  then have "unat (ucast (n - ucast seq * 1024) :: u16) = (unat n - q * 1024) mod 65536"
    by (simp add: unat_u64_ucast16)
  then show "unat (chunk_len n (chunk_count n) seq) = min 1024 (unat n - unat seq * 1024)"
    using last lt by (auto simp: chunk_len_def q_def [symmetric])
qed

section \<open>Invariant\<close>

definition retx_list :: "xfer_tx \<Rightarrow> u32 list" where
  "retx_list t = map (\<lambda>i. xt_retx t ! ((unat (xt_retx_head t) + i) mod 64)) [0..<unat (xt_retx_count t)]"

definition tx_inv :: "xfer_tx \<Rightarrow> bool" where
  "tx_inv t =
     (length (xt_retx t) = 64 \<and> unat (xt_retx_head t) < 64 \<and> unat (xt_retx_count t) \<le> 64 \<and>
      xt_next_seq t \<le> xt_nchunks t \<and> chunk_count (xt_total t) = xt_nchunks t \<and>
      distinct (retx_list t) \<and> (\<forall>seq\<in>set (retx_list t). seq < xt_next_seq t))"

definition bits_ok :: "xfer_rx \<Rightarrow> bool" where
  "bits_ok r = (length (xr_received r) = 8192 \<and> length (xr_requested r) = 8192 \<and> length (xr_requested_stale r) = 8192 \<and>
     length (xr_meta r) = 4029)"

definition rx_live :: "xfer_rx \<Rightarrow> nat \<Rightarrow> bool" where
  "rx_live r cap =
     (xr_seen_offer r \<and> unat (xr_total r) \<le> cap \<and> chunk_count (xr_total r) = xr_nchunks r \<and> unat (xr_nchunks r) \<le> 65536 \<and>
      unat (xr_nreceived r) = card (chunks.below (xr_received r) (xr_nchunks r)) \<and>
      (xr_any_seen r \<longrightarrow> xr_max_seq_seen r < xr_nchunks r))"

definition xfer_inv :: "dh_xfer \<Rightarrow> bool" where
  "xfer_inv x =
     (tx_inv (x_tx x) \<and> bits_ok (x_rx x) \<and> (xr_active (x_rx x) \<longrightarrow> rx_live (x_rx x) (x_rx_cap x)) \<and>
      length (x_rx_buf x) = x_rx_cap x \<and> x_rx_cap x < 4294967296 \<and> x_next_id x \<noteq> 0)"

lemma tx_zero_inv: "tx_inv tx_zero"
  by (simp add: tx_inv_def tx_zero_def retx_list_def chunk_count_def)

lemma rx_zero_ok: "bits_ok rx_zero"
  by (simp add: bits_ok_def rx_zero_def)

lemma xfer_init_inv: "length buf < 4294967296 \<Longrightarrow> xfer_inv (dh_xfer_init buf)"
  by (simp add: xfer_inv_def dh_xfer_init_def tx_zero_inv rx_zero_ok) (simp add: rx_zero_def)

subsection \<open>The retransmit ring\<close>

lemma u32_mod_64: "unat ((a :: u32) mod 64) = unat a mod 64"
  by (simp add: unat_mod)

lemma retx_slot_eq: "unat (xt_retx_head t) < 64 \<Longrightarrow> unat i \<le> 64 \<Longrightarrow> retx_slot t i = (unat (xt_retx_head t) + unat i) mod 64"
  by (simp add: retx_slot_def u32_mod_64 unat_word_ariths)

lemma retx_queued_iff: "tx_inv t \<Longrightarrow> retx_queued t seq \<longleftrightarrow> seq \<in> set (retx_list t)"
proof -
  assume t: "tx_inv t"
  have "retx_slot t (of_nat i) = (unat (xt_retx_head t) + i) mod 64" if "i < unat (xt_retx_count t)" for i
    using t that retx_slot_eq [of t "of_nat i"] by (simp add: tx_inv_def unat_of_nat_small)
  then show ?thesis by (auto simp: retx_queued_def retx_list_def list_ex_iff)
qed

lemma mod_ring_ne: "i < n \<Longrightarrow> n < (64 :: nat) \<Longrightarrow> (h + i) mod 64 \<noteq> (h + n) mod 64"
  using mod_eq_dvd_iff_nat [of "h + i" "h + n" 64] nat_dvd_not_less [of "n - i" 64] by auto

lemma retx_push:
  assumes t: "tx_inv t" and room: "unat (xt_retx_count t) < 64"
    and t': "t' = t\<lparr>xt_retx := (xt_retx t)[retx_slot t (xt_retx_count t) := seq], xt_retx_count := xt_retx_count t + 1\<rparr>"
  shows "retx_list t' = retx_list t @ [seq]"
proof -
  define h n where "h = unat (xt_retx_head t)" and "n = unat (xt_retx_count t)"
  have s: "retx_slot t (xt_retx_count t) = (h + n) mod 64"
    using retx_slot_eq [of t "xt_retx_count t"] t room by (simp add: tx_inv_def h_def n_def)
  have n: "unat (xt_retx_count t + 1) = Suc n" using room unat_add_of_nat [of "xt_retx_count t" 1] by (simp add: n_def)
  have l: "length (xt_retx t) = 64" using t by (simp add: tx_inv_def)
  show ?thesis
    using room mod_ring_ne [THEN not_sym, of _ n h] l
    by (auto simp: retx_list_def t' s n h_def [symmetric] n_def [symmetric])
qed

lemma queue_retransmit_inv:
  assumes "tx_inv (x_tx x)" and "seq < xt_next_seq (x_tx x)"
  shows "tx_inv (x_tx (tx_queue_retransmit x seq))"
    and "set (retx_list (x_tx (tx_queue_retransmit x seq))) \<subseteq> insert seq (set (retx_list (x_tx x)))"
proof -
  define t where "t = x_tx x"
  define t' where "t' = t\<lparr>xt_retx := (xt_retx t)[retx_slot t (xt_retx_count t) := seq], xt_retx_count := xt_retx_count t + 1\<rparr>"
  have t: "tx_inv t" using assms by (simp add: t_def)
  have "tx_inv t'" "retx_list t' = retx_list t @ [seq]" if "\<not> retx_queued t seq" "unat (xt_retx_count t) < 64"
  proof -
    show l: "retx_list t' = retx_list t @ [seq]" by (rule retx_push [OF t that(2) t'_def])
    have "unat (xt_retx_count t + 1) = unat (xt_retx_count t) + 1"
      using that(2) unat_add_of_nat [of "xt_retx_count t" 1] by simp
    then show "tx_inv t'"
      using t that l assms(2) retx_queued_iff [OF t] unfolding tx_inv_def l by (auto simp: t'_def t_def)
  qed
  then show "tx_inv (x_tx (tx_queue_retransmit x seq))"
    "set (retx_list (x_tx (tx_queue_retransmit x seq))) \<subseteq> insert seq (set (retx_list (x_tx x)))"
    using t by (auto simp: tx_queue_retransmit_def Let_def t_def [symmetric] t'_def [symmetric])
qed

lemma pump_next_ring:
  assumes "tx_inv t" and "xt_retx_count t > 0"
  shows "retx_list t = snd (pump_next t) # retx_list (fst (pump_next t))"
proof -
  define h n where "h = unat (xt_retx_head t)" and "n = unat (xt_retx_count t)"
  have h: "h < 64" using assms(1) by (simp add: tx_inv_def h_def)
  have n: "unat (xt_retx_count t - 1) = n - 1" "0 < n"
    using assms(2) by (simp_all add: n_def unat_minus_one word_gt_0 unat_gt_0)
  have h1: "unat ((xt_retx_head t + 1) mod 64) = Suc h mod 64"
    using h by (simp add: u32_mod_64 unat_word_ariths h_def)
  have l: "[0..<n] = 0 # map Suc [0..<n - 1]" using n(2) by (cases n) (simp_all add: map_Suc_upt upt_conv_Cons del: upt_Suc)
  have "retx_list (fst (pump_next t)) = map (\<lambda>i. xt_retx t ! ((Suc h mod 64 + i) mod 64)) [0..<n - 1]"
    using assms(2) n(1) h1 by (simp add: retx_list_def pump_next_def)
  also have "\<dots> = map (\<lambda>i. xt_retx t ! ((h + Suc i) mod 64)) [0..<n - 1]"
    by (simp only: mod_add_left_eq add_Suc add_Suc_right)
  finally show ?thesis
    using assms(2) h l by (simp add: retx_list_def pump_next_def h_def [symmetric] n_def [symmetric] comp_def)
qed

lemma pump_next_inv:
  assumes t: "tx_inv t" and "xt_retx_count t > 0 \<or> xt_next_seq t < xt_nchunks t"
  shows "tx_inv (fst (pump_next t))" and "snd (pump_next t) < xt_nchunks t"
    and "xt_nchunks (fst (pump_next t)) = xt_nchunks t" and "xt_id (fst (pump_next t)) = xt_id t"
    and "xt_credits (fst (pump_next t)) = xt_credits t"
proof -
  show "xt_nchunks (fst (pump_next t)) = xt_nchunks t" "xt_id (fst (pump_next t)) = xt_id t"
    "xt_credits (fst (pump_next t)) = xt_credits t" by (simp_all add: pump_next_def)
  show "tx_inv (fst (pump_next t))" "snd (pump_next t) < xt_nchunks t"
  proof (atomize (full), cases "xt_retx_count t > 0")
    case True
    note r = pump_next_ring [OF t True]
    have "unat (xt_retx_count t - 1) = unat (xt_retx_count t) - 1" using True by (simp add: unat_minus_one word_gt_0)
    moreover have "unat ((xt_retx_head t + 1) mod 64) < 64" by (simp add: u32_mod_64)
    moreover have "snd (pump_next t) < xt_next_seq t" using t r by (simp add: tx_inv_def)
    moreover have "distinct (retx_list (fst (pump_next t)))" "\<forall>seq\<in>set (retx_list (fst (pump_next t))). seq < xt_next_seq t"
      using t r by (simp_all add: tx_inv_def)
    ultimately show "tx_inv (fst (pump_next t)) \<and> snd (pump_next t) < xt_nchunks t"
      using t True unfolding tx_inv_def [of "fst (pump_next t)"] by (auto simp: pump_next_def tx_inv_def)
  next
    case False
    then have n: "xt_next_seq t < xt_nchunks t" using assms(2) by simp
    then have "xt_next_seq t + 1 \<le> xt_nchunks t" "xt_next_seq t < xt_next_seq t + 1"
      using u32_suc [OF n] by (simp_all add: word_le_nat_alt word_less_nat_alt)
    with t n False show "tx_inv (fst (pump_next t)) \<and> snd (pump_next t) < xt_nchunks t"
      by (auto simp: pump_next_def tx_inv_def retx_list_def dest: order_less_trans)
  qed
qed

subsection \<open>The pump\<close>

text \<open>What the sender still has to send, in order: the ring, then the chunks not sent yet.\<close>

definition pending :: "xfer_tx \<Rightarrow> u32 list" where
  "pending t = retx_list t @ map of_nat [unat (xt_next_seq t)..<unat (xt_nchunks t)]"

lemma pending_Nil: "tx_inv t \<Longrightarrow> pending t = [] \<longleftrightarrow> \<not> (xt_retx_count t > 0 \<or> xt_next_seq t < xt_nchunks t)"
  by (auto simp: pending_def retx_list_def word_gt_0 word_less_nat_alt unat_gt_0 unat_eq_zero)

lemma pending_next:
  assumes t: "tx_inv t" and "xt_retx_count t > 0 \<or> xt_next_seq t < xt_nchunks t"
  shows "pending t = snd (pump_next t) # pending (fst (pump_next t))"
proof (cases "xt_retx_count t > 0")
  case True
  then show ?thesis using pump_next_ring [OF t True] by (simp add: pending_def pump_next_def)
next
  case False
  then have lt: "xt_next_seq t < xt_nchunks t" and "retx_list t = []"
    using assms(2) by (simp_all add: retx_list_def word_gt_0 unat_eq_zero)
  moreover have "[unat (xt_next_seq t)..<unat (xt_nchunks t)] = unat (xt_next_seq t) # [unat (xt_next_seq t + 1)..<unat (xt_nchunks t)]"
    using lt u32_suc [OF lt] by (simp add: upt_conv_Cons word_less_nat_alt)
  ultimately show ?thesis
    using False by (simp add: pending_def pump_next_def retx_list_def)
qed

lemma pending_chunks: "tx_inv t \<Longrightarrow> seq \<in> set (pending t) \<Longrightarrow> seq < xt_nchunks t"
proof -
  assume t: "tx_inv t" "seq \<in> set (pending t)"
  have "of_nat k < xt_nchunks t" if "k < unat (xt_nchunks t)" for k
    using that unsigned_less [where 'a = nat, of "xt_nchunks t"] by (simp add: word_less_nat_alt unat_of_nat_small)
  with t show ?thesis by (auto simp: pending_def tx_inv_def)
qed

abbreviation chunk_act :: "u32 \<Rightarrow> u32 \<Rightarrow> dh_xfer_action" where
  "chunk_act tid seq \<equiv> (xfer_act DH_XFER_ACT_SEND_CHUNK tid)\<lparr>ac_seq := seq\<rparr>"

lemma retx_list_fields [simp]:
  "retx_list (t\<lparr>xt_credits := c\<rparr>) = retx_list t" "retx_list (t\<lparr>xt_need_done := b\<rparr>) = retx_list t"
  "retx_list (t\<lparr>xt_recovery_credit_due := b\<rparr>) = retx_list t" "retx_list (t\<lparr>xt_retx_asked := a\<rparr>) = retx_list t"
  "retx_list (t\<lparr>xt_offer_retries := a\<rparr>) = retx_list t" "retx_list (t\<lparr>xt_lazy_pending := b\<rparr>) = retx_list t"
  "retx_list (t\<lparr>xt_streaming := b\<rparr>) = retx_list t" "retx_list (t\<lparr>xt_opening_credit_accepted := b\<rparr>) = retx_list t"
  "retx_list (t\<lparr>xt_data := d\<rparr>) = retx_list t"
  by (simp_all add: retx_list_def)

lemma tx_inv_fields [simp]:
  "tx_inv (t\<lparr>xt_credits := c\<rparr>) = tx_inv t" "tx_inv (t\<lparr>xt_need_done := b\<rparr>) = tx_inv t"
  "tx_inv (t\<lparr>xt_recovery_credit_due := b\<rparr>) = tx_inv t" "tx_inv (t\<lparr>xt_retx_asked := a\<rparr>) = tx_inv t"
  "tx_inv (t\<lparr>xt_offer_retries := a\<rparr>) = tx_inv t" "tx_inv (t\<lparr>xt_lazy_pending := b\<rparr>) = tx_inv t"
  "tx_inv (t\<lparr>xt_streaming := b\<rparr>) = tx_inv t" "tx_inv (t\<lparr>xt_opening_credit_accepted := b\<rparr>) = tx_inv t"
  "tx_inv (t\<lparr>xt_data := d\<rparr>) = tx_inv t"
  by (simp_all add: tx_inv_def)

text \<open>The fields the pump leaves alone.\<close>

definition tx_kept :: "xfer_tx \<Rightarrow> xfer_tx \<Rightarrow> bool" where
  "tx_kept t t' =
     (xt_active t' = xt_active t \<and> xt_streaming t' = xt_streaming t \<and> xt_lazy_pending t' = xt_lazy_pending t \<and>
      xt_id t' = xt_id t \<and> xt_data t' = xt_data t \<and> xt_total t' = xt_total t \<and> xt_nchunks t' = xt_nchunks t \<and>
      xt_recovery_credit_due t' = xt_recovery_credit_due t \<and> xt_need_done t' = xt_need_done t \<and>
      xt_opening_credit_accepted t' = xt_opening_credit_accepted t \<and> xt_kind t' = xt_kind t \<and> xt_meta t' = xt_meta t)"

lemma pump_chunks_exact:
  assumes "tx_inv t" and "pump_chunks t acts cap n = (t', acts')"
  defines "k \<equiv> min (unat (xt_credits t)) (min (16 - n) (min (cap - 1 - length acts) (length (pending t))))"
  shows "tx_inv t' \<and> tx_kept t t' \<and> acts' = acts @ map (chunk_act (xt_id t)) (take k (pending t)) \<and>
    pending t' = drop k (pending t) \<and> unat (xt_credits t') = unat (xt_credits t) - k"
  using assms(1,2) unfolding k_def
proof (induction t acts cap n rule: pump_chunks.induct)
  case (1 t acts cap n)
  define go where "go \<longleftrightarrow> xt_credits t > 0 \<and> n < 16 \<and> length acts + 1 < cap \<and> (xt_retx_count t > 0 \<or> xt_next_seq t < xt_nchunks t)"
  show ?case
  proof (cases go)
    case True
    then have more: "xt_retx_count t > 0 \<or> xt_next_seq t < xt_nchunks t" by (simp add: go_def)
    define u where "u = fst (pump_next t)"
    define seq where "seq = snd (pump_next t)"
    define t1 where "t1 = u\<lparr>xt_credits := xt_credits u - 1\<rparr>"
    have p: "pump_next t = (u, seq)" by (simp add: u_def seq_def)
    note pn = pump_next_inv [OF 1(2) more]
    have t1: "tx_inv t1" using pn(1) by (simp add: t1_def u_def)
    have pend: "pending t = seq # pending t1"
      using pending_next [OF 1(2) more] by (simp add: t1_def u_def seq_def pending_def retx_list_def)
    have cr: "unat (xt_credits t1) = unat (xt_credits t) - 1" "0 < unat (xt_credits t)"
      using True pn(5) by (simp_all add: go_def t1_def u_def unat_minus_one word_gt_0 unat_gt_0)
    have e: "emit acts cap (chunk_act (xt_id t) seq) = acts @ [chunk_act (xt_id t) seq]"
      using True by (simp add: go_def emit_def)
    have rec: "pump_chunks t1 (acts @ [chunk_act (xt_id t) seq]) cap (n + 1) = (t', acts')"
      using 1(3) True unfolding pump_chunks.simps [of t] go_def p by (simp add: t1_def e)
    have kept: "tx_kept t t1" by (simp add: tx_kept_def t1_def u_def pump_next_def)
    have id: "xt_id t1 = xt_id t" using kept by (simp add: tx_kept_def)
    define k1 where "k1 = min (unat (xt_credits t1)) (min (16 - (n + 1)) (min (cap - 1 - length (acts @ [chunk_act (xt_id t) seq])) (length (pending t1))))"
    have ih: "tx_inv t' \<and> tx_kept t1 t' \<and> acts' = (acts @ [chunk_act (xt_id t) seq]) @ map (chunk_act (xt_id t1)) (take k1 (pending t1)) \<and>
        pending t' = drop k1 (pending t1) \<and> unat (xt_credits t') = unat (xt_credits t1) - k1"
      using 1(1) [OF True [unfolded go_def] p [symmetric] refl] t1 rec unfolding k1_def by (simp add: t1_def e)
    have k: "min (unat (xt_credits t)) (min (16 - n) (min (cap - 1 - length acts) (length (pending t)))) = Suc k1"
    proof -
      have "unat (xt_credits t) = Suc (unat (xt_credits t1))" using cr by simp
      moreover have "16 - n = Suc (16 - (n + 1))" using True unfolding go_def by linarith
      moreover have "cap - 1 - length acts = Suc (cap - 1 - length (acts @ [chunk_act (xt_id t) seq]))"
        using True unfolding go_def by (simp add: Suc_diff_Suc)
      moreover have "length (pending t) = Suc (length (pending t1))" by (simp add: pend)
      ultimately show ?thesis by (simp only: k1_def min_Suc_Suc)
    qed
    have "tx_kept t t'" using ih kept by (simp add: tx_kept_def)
    with ih cr show ?thesis unfolding k unfolding pend id by simp
  next
    case False
    then have "pump_chunks t acts cap n = (t, acts)"
      unfolding go_def by (subst pump_chunks.simps) (rule if_not_P)
    then have e: "t' = t" "acts' = acts" using 1(3) by simp_all
    have "min (unat (xt_credits t)) (min (16 - n) (min (cap - 1 - length acts) (length (pending t)))) = 0"
      using False pending_Nil [OF 1(2)] by (auto simp: go_def word_gt_0 unat_eq_zero)
    then show ?thesis using 1(2) e by (simp add: tx_kept_def)
  qed
qed

subsection \<open>Sweeps\<close>

text \<open>Asking for chunks changes only what has been asked for.\<close>

definition rx_asks :: "xfer_rx \<Rightarrow> xfer_rx \<Rightarrow> bool" where
  "rx_asks r r' =
     (r' = r\<lparr>xr_requested := xr_requested r', xr_requested_stale := xr_requested_stale r', xr_retx_asked := xr_retx_asked r'\<rparr> \<and>
      (bits_ok r \<longrightarrow> bits_ok r'))"

lemma rx_asks_refl: "rx_asks r r"
  by (simp add: rx_asks_def)

lemma rx_asks_trans: "rx_asks a b \<Longrightarrow> rx_asks b c \<Longrightarrow> rx_asks a c"
  unfolding rx_asks_def by (cases a; cases b; cases c) auto

lemma rx_asks_fields:
  assumes "rx_asks r r'"
  shows "xr_received r' = xr_received r" "xr_nchunks r' = xr_nchunks r" "xr_id r' = xr_id r" "xr_active r' = xr_active r"
    "xr_lazy r' = xr_lazy r" "xr_total r' = xr_total r" "xr_nreceived r' = xr_nreceived r" "xr_any_seen r' = xr_any_seen r"
    "xr_max_seq_seen r' = xr_max_seq_seen r" "xr_completed r' = xr_completed r" "bits_ok r \<Longrightarrow> bits_ok r'"
    "xr_seen_offer r' = xr_seen_offer r" "xr_ungranted r' = xr_ungranted r"
  using assms by (cases r; cases r'; auto simp: rx_asks_def)+

lemma request_chunk_asks:
  assumes "unat seq < 65536"
  shows "rx_asks r (fst (rx_request_chunk r seq stale acts cap credits))"
    and "bits_ok r \<Longrightarrow> bits_ok (r\<lparr>xr_requested := bit_clear (xr_requested r) seq\<rparr>)"
proof -
  have l: "length b = 8192 \<Longrightarrow> length (bit_set b seq) = 8192" "length b = 8192 \<Longrightarrow> length (bit_clear b seq) = 8192" for b
    by (simp_all add: bit_set_def bit_clear_def)
  then show "rx_asks r (fst (rx_request_chunk r seq stale acts cap credits))"
    by (cases r) (auto simp: rx_asks_def rx_request_chunk_def bits_ok_def)
  show "bits_ok r \<Longrightarrow> bits_ok (r\<lparr>xr_requested := bit_clear (xr_requested r) seq\<rparr>)"
    using l by (simp add: bits_ok_def)
qed

lemma sweep_one_asks:
  assumes "unat m < 65536"
  shows "rx_asks (fst st) (fst (sweep_one aged cap st m))"
proof -
  obtain r acts credits where st: "st = (r, acts, credits)" by (metis prod_cases3)
  define r1 where "r1 = r\<lparr>xr_requested := bit_clear (xr_requested r) m\<rparr>"
  define r2 where "r2 = r\<lparr>xr_requested_stale := bit_set (xr_requested_stale r) m\<rparr>"
  have "rx_asks r r1" using request_chunk_asks(2) [OF assms, of r] by (simp add: rx_asks_def r1_def)
  then have "rx_asks r (fst (rx_request_chunk r1 m aged acts cap credits))"
    by (rule rx_asks_trans) (rule request_chunk_asks [OF assms])
  moreover have "rx_asks r r2" by (simp add: rx_asks_def r2_def bits_ok_def bit_set_def)
  ultimately show ?thesis by (simp add: sweep_one_def st r1_def [symmetric] r2_def [symmetric] rx_asks_refl)
qed

lemma sweep_range_asks:
  assumes "\<forall>m\<in>set ms. unat m < 65536"
  shows "rx_asks (fst st) (fst (foldl (sweep_one aged cap) st ms))"
  using assms
proof (induction ms arbitrary: st)
  case (Cons m ms)
  then have "rx_asks (fst st) (fst (sweep_one aged cap st m))" by (simp add: sweep_one_asks)
  moreover have "rx_asks (fst (sweep_one aged cap st m)) (fst (foldl (sweep_one aged cap) (sweep_one aged cap st m) ms))"
    using Cons by simp
  ultimately show ?case by (simp add: rx_asks_trans)
qed (simp add: rx_asks_refl)

lemma sweep_window_asks:
  assumes "\<forall>m\<in>set ms. unat m < 65536"
  shows "rx_asks (fst st) (fst (sweep_window cap named st ms))"
  using assms
proof (induction ms arbitrary: st named)
  case (Cons m ms)
  then have "rx_asks (fst st) (fst (sweep_one False cap st m))" by (simp add: sweep_one_asks)
  moreover have "rx_asks (fst (sweep_one False cap st m)) (fst (sweep_window cap (named + 1) (sweep_one False cap st m) ms))"
    "rx_asks (fst st) (fst (sweep_window cap named st ms))"
    using Cons by simp_all
  ultimately show ?case by (auto simp: rx_asks_refl intro: rx_asks_trans)
qed (simp add: rx_asks_refl)

lemma seqs_small: "unat n \<le> 65536 \<Longrightarrow> \<forall>m\<in>set (map of_nat [k..<unat (n :: u32)] :: u32 list). unat m < 65536"
  by (auto simp: unat_of_nat_small)

lemma sweep_rx_asks:
  assumes "rx_live (x_rx x) cap0"
  shows "rx_asks (x_rx x) (x_rx (fst (dh_xfer_sweep_rx x cap)))"
    and "fst (dh_xfer_sweep_rx x cap) = x\<lparr>x_rx := x_rx (fst (dh_xfer_sweep_rx x cap))\<rparr>"
proof -
  define r where "r = x_rx x"
  define st where "st = (if \<not> xr_any_seen r then (r, emit [] cap (xfer_act DH_XFER_ACT_SEND_REQUEST (xr_id r)), 0)
                  else rx_sweep_range r (xr_max_seq_seen r) False [] cap 0)"
  define ms :: "u32 list" where "ms = map of_nat [unat (if xr_any_seen r then xr_max_seq_seen r else 0)..<unat (xr_nchunks r)]"
  have n: "unat (xr_nchunks r) \<le> 65536" and f: "xr_any_seen r \<Longrightarrow> xr_max_seq_seen r < xr_nchunks r"
    using assms by (simp_all add: rx_live_def r_def)
  have "rx_asks r (fst st)"
  proof (cases "xr_any_seen r")
    case True
    then have "unat (xr_max_seq_seen r) \<le> 65536" using f n by (simp add: word_less_nat_alt)
    then have "rx_asks (fst (r, [] :: dh_xfer_action list, 0 :: u16)) (fst (rx_sweep_range r (xr_max_seq_seen r) False [] cap 0))"
      unfolding rx_sweep_range_def by (intro sweep_range_asks seqs_small)
    with True show ?thesis by (simp add: st_def)
  qed (simp add: st_def rx_asks_refl)
  moreover have "rx_asks (fst st) (fst (sweep_window cap 0 st ms))"
    unfolding ms_def by (intro sweep_window_asks seqs_small n)
  ultimately have a: "rx_asks r (fst (sweep_window cap 0 st ms))" by (rule rx_asks_trans)
  have e: "dh_xfer_sweep_rx x cap = (if \<not> xr_active r \<or> xr_lazy r then (x, [])
     else (x\<lparr>x_rx := fst (sweep_window cap 0 st ms)\<rparr>,
       rx_grant (xr_id (fst (sweep_window cap 0 st ms))) (fst (snd (sweep_window cap 0 st ms))) cap (snd (snd (sweep_window cap 0 st ms)))))"
    unfolding dh_xfer_sweep_rx_def Let_def split_def r_def [symmetric] st_def [symmetric] ms_def [symmetric] by (rule refl)
  show "rx_asks (x_rx x) (x_rx (fst (dh_xfer_sweep_rx x cap)))" using a by (simp add: e rx_asks_refl r_def)
  show "fst (dh_xfer_sweep_rx x cap) = x\<lparr>x_rx := x_rx (fst (dh_xfer_sweep_rx x cap))\<rparr>" by (simp add: e r_def)
qed

lemma rx_live_asks: "rx_asks r r' \<Longrightarrow> rx_live r cap \<Longrightarrow> rx_live r' cap"
  by (simp add: rx_live_def rx_asks_fields)

subsection \<open>Chunks in\<close>

lemma rx_store_inv:
  assumes x: "xfer_inv x" and a: "xr_active (x_rx x)" and seq: "ck_seq ch < xr_nchunks (x_rx x)"
    and new: "\<not> bit_get (xr_received (x_rx x)) (ck_seq ch)"
    and len: "length (ck_data ch) = unat (chunk_len (xr_total (x_rx x)) (xr_nchunks (x_rx x)) (ck_seq ch))"
  shows "xfer_inv (rx_store x ch)"
    and "unat (xr_nreceived (x_rx (rx_store x ch))) = Suc (unat (xr_nreceived (x_rx x)))"
    and "length (ck_data ch) = min 1024 (unat (xr_total (x_rx x)) - unat (ck_seq ch) * 1024)"
    and "unat (ck_seq ch) * 1024 + length (ck_data ch) \<le> x_rx_cap x"
proof -
  define r where "r = x_rx x"
  have live: "rx_live r (x_rx_cap x)" and bits: "bits_ok r" using x a by (simp_all add: xfer_inv_def r_def)
  have cap: "x_rx_cap x < 4294967296" "length (x_rx_buf x) = x_rx_cap x" using x by (simp_all add: xfer_inv_def)
  have n: "unat (xr_nchunks r) \<le> 65536" "chunk_count (xr_total r) = xr_nchunks r" "unat (xr_total r) \<le> x_rx_cap x"
    using live by (simp_all add: rx_live_def)
  have "seq' < chunk_count (xr_total r) \<Longrightarrow> unat (chunk_len (xr_total r) (xr_nchunks r) seq') = min 1024 (unat (xr_total r) - unat seq' * 1024) \<and> unat seq' * 1024 < unat (xr_total r)" for seq'
    using chunk_len_exact [of "xr_total r" seq'] n cap by simp
  with seq n(2) have le: "length (ck_data ch) = min 1024 (unat (xr_total r) - unat (ck_seq ch) * 1024)" "unat (ck_seq ch) * 1024 < unat (xr_total r)"
    using len by (simp_all add: r_def)
  then show l: "length (ck_data ch) = min 1024 (unat (xr_total (x_rx x)) - unat (ck_seq ch) * 1024)"
    and b: "unat (ck_seq ch) * 1024 + length (ck_data ch) \<le> x_rx_cap x"
    using n(3) by (simp_all add: r_def)
  have s: "unat (ck_seq ch) < 65536" using seq n by (simp add: word_less_nat_alt r_def)
  have card: "card (chunks.below (bit_set (xr_received r) (ck_seq ch)) (xr_nchunks r)) = Suc (unat (xr_nreceived r))"
    using chunks.card_below_ins [of "xr_received r" "xr_nchunks r" "ck_seq ch"] bits n seq new live
    by (simp add: bits_ok_def rx_live_def r_def)
  then have "Suc (unat (xr_nreceived r)) \<le> 65536" using chunks.card_below_le [of _ "xr_nchunks r"] n by (metis order_trans)
  then have nr: "unat (xr_nreceived r + 1) = Suc (unat (xr_nreceived r))"
    using unat_add_of_nat [of "xr_nreceived r" 1] by simp
  then show "unat (xr_nreceived (x_rx (rx_store x ch))) = Suc (unat (xr_nreceived (x_rx x)))"
    by (simp add: rx_store_def Let_def r_def)
  have "bits_ok (x_rx (rx_store x ch))"
    using bits s by (simp add: rx_store_def Let_def bits_ok_def r_def bit_set_def bit_clear_def)
  moreover have "rx_live (x_rx (rx_store x ch)) (x_rx_cap x)"
    using live seq card nr by (auto simp: rx_store_def Let_def rx_live_def r_def)
  moreover have "length (x_rx_buf (rx_store x ch)) = x_rx_cap x"
    using b cap by (simp add: rx_store_def Let_def length_blit)
  moreover have "x_tx (rx_store x ch) = x_tx x" "x_rx_cap (rx_store x ch) = x_rx_cap x" "x_next_id (rx_store x ch) = x_next_id x"
    by (simp_all add: rx_store_def Let_def)
  ultimately show "xfer_inv (rx_store x ch)" using x by (simp add: xfer_inv_def)
qed

text \<open>The four things that happen to a chunk.\<close>

definition chunk_stored :: "xfer_rx \<Rightarrow> dh_clip_chunk \<Rightarrow> bool" where
  "chunk_stored r ch =
     (xr_active r \<and> \<not> xr_lazy r \<and> xr_id r = ck_id ch \<and> ck_seq ch < xr_nchunks r \<and> \<not> bit_get (xr_received r) (ck_seq ch) \<and>
      length (ck_data ch) = unat (chunk_len (xr_total r) (xr_nchunks r) (ck_seq ch)) \<and> dh_crc32 (ck_data ch) = ck_crc32 ch)"

lemma handle_chunk_cases:
  assumes "dh_xfer_handle_chunk x ch cap = (x', acts)" and "xr_active (x_rx x) \<Longrightarrow> unat (xr_nchunks (x_rx x)) \<le> 65536"
  obtains (ignored) "x' = x" "acts = []" "\<not> chunk_stored (x_rx x) ch"
  | (duplicate) "x' = x" "acts = rx_grant (xr_id (x_rx x)) [] cap 1" "bit_get (xr_received (x_rx x)) (ck_seq ch)"
      "xr_active (x_rx x)" "\<not> xr_lazy (x_rx x)" "xr_id (x_rx x) = ck_id ch" "ck_seq ch < xr_nchunks (x_rx x)"
  | (refused) r' where "x' = x\<lparr>x_rx := r'\<rparr>" "rx_asks (x_rx x) r'" "\<not> chunk_stored (x_rx x) ch"
      "\<forall>a\<in>set acts. ac_type a \<noteq> DH_XFER_ACT_DELIVERED"
  | (last_chunk) "chunk_stored (x_rx x) ch" "xr_nchunks (x_rx x) \<le> xr_nreceived (x_rx (rx_store x ch))" "0 < cap"
      "x' = (rx_store x ch)\<lparr>x_rx := (x_rx (rx_store x ch))\<lparr>xr_active := False, xr_completed := True\<rparr>\<rparr>"
      "acts = emit (emit [] cap (xfer_act DH_XFER_ACT_DELIVERED (xr_id (x_rx x)))) cap (xfer_act DH_XFER_ACT_SEND_RECEIVED (xr_id (x_rx x)))"
  | (progress) "chunk_stored (x_rx x) ch" "\<not> xr_nchunks (x_rx x) \<le> xr_nreceived (x_rx (rx_store x ch)) \<or> cap = 0"
      "x' = (rx_store x ch)\<lparr>x_rx := (x_rx (rx_store x ch))\<lparr>xr_ungranted := 0\<rparr>\<rparr>"
      "acts = rx_grant (xr_id (x_rx x)) [] cap (ucast (xr_ungranted (x_rx x) + 1))"
proof -
  define r where "r = x_rx x"
  define x1 where "x1 = rx_store x ch"
  define gate where "gate \<longleftrightarrow> \<not> xr_active r \<or> xr_lazy r \<or> xr_id r \<noteq> ck_id ch \<or> ck_seq ch \<ge> xr_nchunks r"
  define bad where "bad \<longleftrightarrow> length (ck_data ch) \<noteq> unat (chunk_len (xr_total r) (xr_nchunks r) (ck_seq ch)) \<or> dh_crc32 (ck_data ch) \<noteq> ck_crc32 ch"
  have st: "chunk_stored r ch \<longleftrightarrow> \<not> gate \<and> \<not> bit_get (xr_received r) (ck_seq ch) \<and> \<not> bad"
    by (auto simp: chunk_stored_def gate_def bad_def)
  have x1: "xr_nchunks (x_rx x1) = xr_nchunks r" "xr_id (x_rx x1) = xr_id r" "xr_ungranted (x_rx x1) = xr_ungranted r"
    by (simp_all add: x1_def rx_store_def Let_def r_def)
  define r1 where "r1 = r\<lparr>xr_requested := bit_clear (xr_requested r) (ck_seq ch)\<rparr>"
  define q where "q = rx_request_chunk r1 (ck_seq ch) False [] cap 0"
  define full where "full \<longleftrightarrow> xr_nchunks r \<le> xr_nreceived (x_rx x1)"
  define tail where "tail = (let (r, acts, done) = (if xr_nreceived (x_rx x1) \<ge> xr_nchunks (x_rx x1) then rx_complete (x_rx x1) [] cap
                               else (x_rx x1, [], False)) in
        if done then (x1\<lparr>x_rx := r\<rparr>, acts)
        else
          let ungranted = xr_ungranted r + 1;
              (ungranted, credits) = (if ungranted \<ge> DH_XFER_CREDIT_WINDOW div 2 then (0, ucast ungranted) else (ungranted, 0)) in
          (x1\<lparr>x_rx := r\<lparr>xr_ungranted := ungranted\<rparr>\<rparr>, rx_grant (xr_id r) acts cap credits))"
  have e: "dh_xfer_handle_chunk x ch cap =
     (if gate then (x, [])
      else if bit_get (xr_received r) (ck_seq ch) then (x, rx_grant (xr_id r) [] cap 1)
      else if bad then (x\<lparr>x_rx := fst q\<rparr>, rx_grant (xr_id (fst q)) (fst (snd q)) cap (snd (snd q)))
      else tail)"
    unfolding dh_xfer_handle_chunk_def tail_def gate_def bad_def q_def r1_def x1_def r_def Let_def split_def by (rule refl)
  have tail_full: "tail = (x1\<lparr>x_rx := (x_rx x1)\<lparr>xr_active := False, xr_completed := True\<rparr>\<rparr>,
            emit (emit [] cap (xfer_act DH_XFER_ACT_DELIVERED (xr_id r))) cap (xfer_act DH_XFER_ACT_SEND_RECEIVED (xr_id r)))"
    if "full" "0 < cap" using that by (simp add: tail_def rx_complete_def full_def x1)
  have tail_on: "tail = (x1\<lparr>x_rx := (x_rx x1)\<lparr>xr_ungranted := 0\<rparr>\<rparr>, rx_grant (xr_id r) [] cap (ucast (xr_ungranted r + 1)))"
    if "\<not> (full \<and> 0 < cap)"
  proof -
    have w: "(3 :: u32) div 2 = 1" by simp
    have g: "(if 1 \<le> u then (0, ucast u) else (u, 0)) = (0 :: u32, ucast u :: u16)" for u :: u32
      by (cases "u = 0") (auto simp: word_le_nat_alt Suc_le_eq unat_gt_0)
    have "(if xr_nchunks (x_rx x1) \<le> xr_nreceived (x_rx x1) then rx_complete (x_rx x1) [] cap else (x_rx x1, [], False)) =
        (x_rx x1, [], False)"
      using that by (auto simp: rx_complete_def full_def x1)
    then show ?thesis unfolding tail_def w by (simp add: g x1)
  qed
  note d = assms(1) [unfolded e]
  consider "gate" | "\<not> gate" "bit_get (xr_received r) (ck_seq ch)" | "\<not> gate" "\<not> bit_get (xr_received r) (ck_seq ch)" "bad"
    | "chunk_stored r ch" "full" "0 < cap" | "chunk_stored r ch" "\<not> (full \<and> 0 < cap)"
    using st by blast
  then show thesis
  proof cases
    case 1
    then have "x' = x" "acts = []" using d by simp_all
    then show ?thesis using ignored st 1 by (simp add: r_def)
  next
    case 2
    then have "x' = x" "acts = rx_grant (xr_id r) [] cap 1" using d by simp_all
    moreover have "xr_active r" "\<not> xr_lazy r" "xr_id r = ck_id ch" "ck_seq ch < xr_nchunks r"
      using 2(1) by (auto simp: gate_def not_le)
    ultimately show ?thesis using duplicate 2(2) by (simp add: r_def)
  next
    case 3
    have s: "unat (ck_seq ch) < 65536" using assms(2) 3(1) by (simp add: gate_def r_def word_less_nat_alt not_le)
    have "rx_asks r r1" using request_chunk_asks(2) [OF s, of r] by (simp add: rx_asks_def r1_def)
    then have a: "rx_asks r (fst q)" unfolding q_def by (rule rx_asks_trans) (rule request_chunk_asks [OF s])
    have x': "x' = x\<lparr>x_rx := fst q\<rparr>" "acts = rx_grant (xr_id (fst q)) (fst (snd q)) cap (snd (snd q))" using d 3 by simp_all
    have "\<forall>a\<in>set acts. ac_type a \<noteq> DH_XFER_ACT_DELIVERED"
      unfolding x' q_def rx_request_chunk_def rx_grant_def emit_def xfer_act_def by simp
    with a x'(1) 3 st show ?thesis by (intro refused [of "fst q"]) (simp_all add: r_def)
  next
    case 4
    then have "(x', acts) = tail" using d st by simp
    with 4 tail_full show ?thesis by (intro last_chunk) (simp_all add: r_def x1_def full_def)
  next
    case 5
    then have "(x', acts) = tail" using d st by simp
    with 5 tail_on show ?thesis by (intro progress) (auto simp: r_def x1_def full_def)
  qed
qed

lemma handle_chunk_inv:
  assumes "xfer_inv x"
  shows "xfer_inv (fst (dh_xfer_handle_chunk x ch cap))"
proof -
  have n: "unat (xr_nchunks (x_rx x)) \<le> 65536" if "xr_active (x_rx x)"
    using assms that by (simp add: xfer_inv_def rx_live_def)
  have st: "xfer_inv (rx_store x ch)" if "chunk_stored (x_rx x) ch"
    using rx_store_inv(1) [OF assms] that by (simp add: chunk_stored_def)
  obtain x' acts where d: "dh_xfer_handle_chunk x ch cap = (x', acts)" by fastforce
  from d n have "xfer_inv x'"
  proof (rule handle_chunk_cases, goal_cases)
    case (4 r')
    then show ?case using assms rx_live_asks [OF 4(2)] rx_asks_fields [OF 4(2)] by (simp add: xfer_inv_def)
  next
    case 5
    then show ?case using st by (simp add: xfer_inv_def bits_ok_def)
  next
    case 6
    then show ?case using st by (simp add: xfer_inv_def bits_ok_def rx_live_def)
  qed (use assms in simp_all)
  with d show ?thesis by simp
qed

section \<open>Every operation keeps the invariant\<close>

subsection \<open>Sender\<close>

lemma tx_inv_set: "xfer_inv x \<Longrightarrow> tx_inv t \<Longrightarrow> xfer_inv (x\<lparr>x_tx := t\<rparr>)"
  by (simp add: xfer_inv_def)

lemma rx_inv_set: "xfer_inv x \<Longrightarrow> bits_ok r \<Longrightarrow> (xr_active r \<Longrightarrow> rx_live r (x_rx_cap x)) \<Longrightarrow> xfer_inv (x\<lparr>x_rx := r\<rparr>)"
  by (simp add: xfer_inv_def)

lemma xfer_inv_parts:
  assumes "xfer_inv x"
  shows "tx_inv (x_tx x)" and "bits_ok (x_rx x)" and "xr_active (x_rx x) \<Longrightarrow> rx_live (x_rx x) (x_rx_cap x)"
  using assms by (simp_all add: xfer_inv_def)

lemma tx_reset_inv: "xfer_inv x \<Longrightarrow> xfer_inv (tx_reset x)"
  by (simp add: tx_reset_def tx_inv_set tx_zero_inv)

lemma rx_asks_inv:
  assumes x: "xfer_inv x" and a: "rx_asks (x_rx x) r"
  shows "xfer_inv (x\<lparr>x_rx := r\<rparr>)"
proof (rule rx_inv_set [OF x])
  show "bits_ok r" using rx_asks_fields(11) [OF a] xfer_inv_parts(2) [OF x] by simp
  assume "xr_active r"
  then have "xr_active (x_rx x)" by (simp add: rx_asks_fields(4) [OF a])
  then show "rx_live r (x_rx_cap x)" by (intro rx_live_asks [OF a] xfer_inv_parts(3) [OF x])
qed

lemma xfer_offer_inv: "xfer_inv x \<Longrightarrow> xfer_inv (fst (dh_xfer_offer x kind meta data n cap))"
  by (simp add: dh_xfer_offer_def Let_def tx_reset_def xfer_inv_def tx_inv_def tx_zero_def retx_list_def)

lemma retry_offer_inv: "xfer_inv x \<Longrightarrow> xfer_inv (fst (dh_xfer_retry_offer x cap))"
  using xfer_inv_parts [of x] by (simp add: dh_xfer_retry_offer_def Let_def tx_inv_set)

lemma start_streaming_inv: "xfer_inv x \<Longrightarrow> xfer_inv (tx_start_streaming x)"
  using xfer_inv_parts [of x] by (simp add: tx_start_streaming_def Let_def tx_inv_set)

lemma provide_inv: "xfer_inv x \<Longrightarrow> xfer_inv (dh_xfer_provide x data)"
  using xfer_inv_parts [of x] by (simp add: dh_xfer_provide_def Let_def tx_inv_set start_streaming_inv)

lemma pump_shape:
  assumes "tx_inv (x_tx x)" and "dh_xfer_pump x cap = (x', acts)"
    and "xt_active (x_tx x)" and "xt_streaming (x_tx x)" and "\<not> xt_lazy_pending (x_tx x)"
  defines "k \<equiv> min (unat (xt_credits (x_tx x))) (min 16 (min (cap - 1) (length (pending (x_tx x)))))"
  shows "tx_inv (x_tx x')" and "x' = x\<lparr>x_tx := x_tx x'\<rparr>"
    and "pending (x_tx x') = drop k (pending (x_tx x))" and "unat (xt_credits (x_tx x')) = unat (xt_credits (x_tx x)) - k"
    and "acts = map (chunk_act (xt_id (x_tx x))) (take k (pending (x_tx x))) @
      (if xt_need_done (x_tx x) \<and> pending (x_tx x') = [] \<and> k < cap then [xfer_act DH_XFER_ACT_SEND_DONE (xt_id (x_tx x))] else [])"
    and "tx_kept ((x_tx x)\<lparr>xt_need_done := xt_need_done (x_tx x')\<rparr>) (x_tx x')"
    and "xt_need_done (x_tx x') = (xt_need_done (x_tx x) \<and> \<not> (pending (x_tx x') = [] \<and> k < cap))"
proof -
  define t where "t = x_tx x"
  obtain t1 a1 where p: "pump_chunks t [] cap 0 = (t1, a1)" by fastforce
  have k: "k = min (unat (xt_credits t)) (min (16 - 0) (min (cap - 1 - length ([] :: dh_xfer_action list)) (length (pending t))))"
    by (simp add: k_def t_def)
  note e = pump_chunks_exact [OF assms(1) [folded t_def] p, folded k]
  have kept: "tx_kept t t1" and a1: "a1 = map (chunk_act (xt_id t)) (take k (pending t))" using e by simp_all
  have len: "length a1 = k" unfolding a1 by (simp add: k)
  have fin: "xt_retx_count t1 = 0 \<and> xt_nchunks t1 \<le> xt_next_seq t1 \<longleftrightarrow> pending t1 = []"
    using pending_Nil [of t1] e by (auto simp: word_gt_0)
  define d where "d \<longleftrightarrow> xt_need_done t \<and> pending t1 = [] \<and> k < cap"
  have "dh_xfer_pump x cap = (if d then (x\<lparr>x_tx := t1\<lparr>xt_need_done := False\<rparr>\<rparr>, a1 @ [xfer_act DH_XFER_ACT_SEND_DONE (xt_id t)])
      else (x\<lparr>x_tx := t1\<rparr>, a1))"
    using assms(3-5) kept fin
    by (auto simp: dh_xfer_pump_def t_def [symmetric] p d_def len [symmetric] tx_kept_def emit_def)
  then have x': "x' = x\<lparr>x_tx := (if d then t1\<lparr>xt_need_done := False\<rparr> else t1)\<rparr>"
    and acts: "acts = (if d then a1 @ [xfer_act DH_XFER_ACT_SEND_DONE (xt_id t)] else a1)"
    using assms(2) by (simp_all split: if_splits)
  have pd: "pending (x_tx x') = pending t1" by (simp add: x' pending_def)
  show "tx_inv (x_tx x')" "x' = x\<lparr>x_tx := x_tx x'\<rparr>" using e by (simp_all add: x')
  show "pending (x_tx x') = drop k (pending (x_tx x))" using e pd by (simp add: t_def)
  show "unat (xt_credits (x_tx x')) = unat (xt_credits (x_tx x)) - k" using e by (simp add: x' t_def)
  show "acts = map (chunk_act (xt_id (x_tx x))) (take k (pending (x_tx x))) @
      (if xt_need_done (x_tx x) \<and> pending (x_tx x') = [] \<and> k < cap then [xfer_act DH_XFER_ACT_SEND_DONE (xt_id (x_tx x))] else [])"
    unfolding acts pd a1 t_def [symmetric] d_def by simp
  show "tx_kept ((x_tx x)\<lparr>xt_need_done := xt_need_done (x_tx x')\<rparr>) (x_tx x')"
    using kept by (simp add: x' tx_kept_def t_def)
  show "xt_need_done (x_tx x') = (xt_need_done (x_tx x) \<and> \<not> (pending (x_tx x') = [] \<and> k < cap))"
    unfolding pd using kept by (auto simp: x' tx_kept_def t_def [symmetric] d_def)
qed

lemma pump_idle:
  "\<not> xt_active (x_tx x) \<or> \<not> xt_streaming (x_tx x) \<or> xt_lazy_pending (x_tx x) \<Longrightarrow> dh_xfer_pump x cap = (x, [])"
  by (simp add: dh_xfer_pump_def Let_def)

lemma pump_inv: "xfer_inv x \<Longrightarrow> xfer_inv (fst (dh_xfer_pump x cap))"
proof (cases "xt_active (x_tx x) \<and> xt_streaming (x_tx x) \<and> \<not> xt_lazy_pending (x_tx x)")
  case True
  assume x: "xfer_inv x"
  obtain x' acts where "dh_xfer_pump x cap = (x', acts)" by fastforce
  with pump_shape(1,2) [OF xfer_inv_parts(1) [OF x] this] True show ?thesis
    using tx_inv_set [OF x] by (metis fst_conv)
qed (simp add: pump_idle)

lemma retransmit_inv: "xfer_inv x \<Longrightarrow> xfer_inv (dh_xfer_handle_retransmit x tid seq)"
proof -
  assume x: "xfer_inv x"
  define y where "y = x\<lparr>x_tx := (x_tx x)\<lparr>xt_recovery_credit_due := True\<rparr>\<rparr>"
  have y: "tx_inv (x_tx y)" using xfer_inv_parts [OF x] by (simp add: y_def)
  have f: "tx_queue_retransmit y seq = x\<lparr>x_tx := x_tx (tx_queue_retransmit y seq)\<rparr>"
    by (simp add: tx_queue_retransmit_def Let_def y_def)
  have q: "tx_inv (x_tx (tx_queue_retransmit y seq))" if "seq < xt_next_seq (x_tx x)"
    using queue_retransmit_inv(1) [OF y, of seq] that by (simp add: y_def)
  have "x\<lparr>x_tx := t\<rparr>\<lparr>x_tx := u\<rparr> = x\<lparr>x_tx := u\<rparr>" for t u by simp
  then show ?thesis
    using x y q tx_inv_set [OF x] unfolding dh_xfer_handle_retransmit_def Let_def y_def [symmetric]
    by (subst f) (simp add: y_def)
qed

lemma credit_inv: "xfer_inv x \<Longrightarrow> xfer_inv (dh_xfer_handle_credit x tid credits)"
  using xfer_inv_parts [of x] by (simp add: dh_xfer_handle_credit_def Let_def tx_inv_set)

lemma request_inv: "xfer_inv x \<Longrightarrow> xfer_inv (fst (dh_xfer_handle_request x tid cap))"
  using xfer_inv_parts [of x] by (simp add: dh_xfer_handle_request_def Let_def tx_inv_set start_streaming_inv)

subsection \<open>Receiver\<close>

lemma rx_forget_inv: "xfer_inv x \<Longrightarrow> xfer_inv (rx_forget x)"
  unfolding rx_forget_def by (intro rx_inv_set rx_zero_ok) (simp_all add: rx_zero_def)

lemma rx_reset_inv: "xfer_inv x \<Longrightarrow> xfer_inv (rx_reset x)"
  by (simp add: rx_reset_def xfer_inv_def bits_ok_def)

lemma rx_complete_shape:
  assumes "rx_complete r acts cap = (r', acts', done)"
  obtains "r' = r" "acts' = acts" "\<not> done" "cap \<le> length acts"
  | "r' = r\<lparr>xr_active := False, xr_completed := True\<rparr>" "done" "length acts < cap"
    "acts' = emit (acts @ [xfer_act DH_XFER_ACT_DELIVERED (xr_id r)]) cap (xfer_act DH_XFER_ACT_SEND_RECEIVED (xr_id r))"
  using assms by (auto simp: rx_complete_def emit_def split: if_splits)


lemma rx_complete_inv: "xfer_inv x \<Longrightarrow> r = fst (rx_complete (x_rx x) acts cap) \<Longrightarrow> xfer_inv (x\<lparr>x_rx := r\<rparr>)"
  using xfer_inv_parts [of x] by (auto simp: rx_complete_def bits_ok_def intro!: rx_inv_set)

lemma handle_done_shape:
  assumes "rx_live (x_rx x) c" and "dh_xfer_handle_done x tid cap = (x', acts)"
  obtains (told) "x' = x" "acts = emit [] cap (xfer_act DH_XFER_ACT_SEND_RECEIVED tid)" "xr_completed (x_rx x)"
  | (ignored) "x' = x" "acts = []"
  | (missing) r where "x' = x\<lparr>x_rx := r\<rparr>" "rx_asks (x_rx x) r" "xr_nreceived (x_rx x) < xr_nchunks (x_rx x)"
      "acts = (case rx_sweep_range (x_rx x) (xr_nchunks (x_rx x)) True [] cap 0 of (r, as, credits) \<Rightarrow> rx_grant (xr_id r) as cap credits)"
  | (complete) "xr_active (x_rx x)" "xr_id (x_rx x) = tid" "\<not> xr_nreceived (x_rx x) < xr_nchunks (x_rx x)" "0 < cap"
      "x' = x\<lparr>x_rx := (x_rx x)\<lparr>xr_active := False, xr_completed := True\<rparr>\<rparr>"
      "acts = emit [xfer_act DH_XFER_ACT_DELIVERED tid] cap (xfer_act DH_XFER_ACT_SEND_RECEIVED tid)"
proof -
  define r where "r = x_rx x"
  obtain r1 as cr where s: "rx_sweep_range r (xr_nchunks r) True [] cap 0 = (r1, as, cr)" by (metis prod_cases3)
  have "rx_asks (fst (r, [] :: dh_xfer_action list, 0 :: u16)) (fst (rx_sweep_range r (xr_nchunks r) True [] cap 0))"
    unfolding rx_sweep_range_def using assms(1) by (intro sweep_range_asks seqs_small) (simp add: rx_live_def r_def)
  then have a: "rx_asks r r1" by (simp add: s)
  have e: "dh_xfer_handle_done x tid cap =
    (if xr_completed r \<and> xr_id r = tid then (x, emit [] cap (xfer_act DH_XFER_ACT_SEND_RECEIVED tid))
      else if \<not> xr_active r \<or> xr_lazy r \<or> xr_id r \<noteq> tid then (x, [])
      else if xr_nreceived r < xr_nchunks r then (x\<lparr>x_rx := r1\<rparr>, rx_grant (xr_id r1) as cap cr)
      else (x\<lparr>x_rx := fst (rx_complete r [] cap)\<rparr>, fst (snd (rx_complete r [] cap))))"
    unfolding dh_xfer_handle_done_def Let_def r_def [symmetric] s by (simp add: split_def)
  consider "xr_completed r \<and> xr_id r = tid" | "\<not> (xr_completed r \<and> xr_id r = tid)" "\<not> xr_active r \<or> xr_lazy r \<or> xr_id r \<noteq> tid"
    | "\<not> (xr_completed r \<and> xr_id r = tid)" "\<not> (\<not> xr_active r \<or> xr_lazy r \<or> xr_id r \<noteq> tid)" "xr_nreceived r < xr_nchunks r"
    | "\<not> (xr_completed r \<and> xr_id r = tid)" "\<not> (\<not> xr_active r \<or> xr_lazy r \<or> xr_id r \<noteq> tid)" "\<not> xr_nreceived r < xr_nchunks r"
    by blast
  then show thesis
  proof cases
    case 1
    then have "dh_xfer_handle_done x tid cap = (x, emit [] cap (xfer_act DH_XFER_ACT_SEND_RECEIVED tid))" unfolding e by simp
    then show ?thesis using told assms(2) 1 by (simp add: r_def)
  next
    case 2
    then have "dh_xfer_handle_done x tid cap = (x, [])" unfolding e by auto
    then show ?thesis using ignored assms(2) by simp
  next
    case 3
    then have "dh_xfer_handle_done x tid cap = (x\<lparr>x_rx := r1\<rparr>, rx_grant (xr_id r1) as cap cr)" unfolding e by simp
    then show ?thesis using assms(2) a 3 s by (intro missing [of r1]) (simp_all add: r_def [symmetric])
  next
    case 4
    then have "dh_xfer_handle_done x tid cap = (x\<lparr>x_rx := fst (rx_complete r [] cap)\<rparr>, fst (snd (rx_complete r [] cap)))"
      unfolding e by simp
    then have c: "x' = x\<lparr>x_rx := fst (rx_complete r [] cap)\<rparr>" "acts = fst (snd (rx_complete r [] cap))"
      using assms(2) by simp_all
    show ?thesis
    proof (cases "cap = 0")
      case True
      then show ?thesis using c ignored by (simp add: rx_complete_def r_def)
    next
      case False
      then have "x' = x\<lparr>x_rx := r\<lparr>xr_active := False, xr_completed := True\<rparr>\<rparr>"
        "acts = emit [xfer_act DH_XFER_ACT_DELIVERED tid] cap (xfer_act DH_XFER_ACT_SEND_RECEIVED tid)"
        using c 4 by (simp_all add: rx_complete_def emit_def)
      then show ?thesis using 4 False by (intro complete) (simp_all add: r_def)
    qed
  qed
qed

lemma handle_done_inv: "xfer_inv x \<Longrightarrow> xfer_inv (fst (dh_xfer_handle_done x tid cap))"
proof (cases "xr_active (x_rx x)")
  case True
  assume x: "xfer_inv x"
  obtain x' acts where d: "dh_xfer_handle_done x tid cap = (x', acts)" by fastforce
  from xfer_inv_parts(3) [OF x True] d have "xfer_inv x'"
  proof (cases rule: handle_done_shape)
    case complete
    then show ?thesis using x by (simp add: xfer_inv_def bits_ok_def)
  qed (use x rx_asks_inv [OF x] in simp_all)
  with d show ?thesis by simp
qed (auto simp: dh_xfer_handle_done_def Let_def)

lemma sweep_rx_inv: "xfer_inv x \<Longrightarrow> xfer_inv (fst (dh_xfer_sweep_rx x cap))"
proof (cases "xr_active (x_rx x)")
  case True
  assume x: "xfer_inv x"
  show ?thesis
    using sweep_rx_asks [OF xfer_inv_parts(3) [OF x True], of cap] rx_asks_inv [OF x] by metis
qed (simp add: dh_xfer_sweep_rx_def)

text \<open>A newer offer that fits: what the receiver then holds.\<close>

definition offer_fits :: "dh_xfer \<Rightarrow> dh_clip_offer \<Rightarrow> bool" where
  "offer_fits x offer =
     (unat (co_total offer) \<le> x_rx_cap x \<and> unat (chunk_count (co_total offer)) \<le> 65536 \<and> length (co_meta offer) \<le> 1024)"

definition offer_newer :: "dh_xfer \<Rightarrow> dh_clip_offer \<Rightarrow> bool" where
  "offer_newer x offer =
     (co_id offer \<noteq> 0 \<and> (xr_seen_offer (x_rx x) \<longrightarrow> serial_newer (co_id offer) (xr_id (x_rx x))))"

definition offer_opened :: "dh_clip_offer \<Rightarrow> bool \<Rightarrow> bool \<Rightarrow> xfer_rx" where
  "offer_opened offer fits lazy =
     rx_zero\<lparr>xr_seen_offer := True, xr_id := co_id offer, xr_kind := co_kind offer, xr_total := co_total offer,
       xr_nchunks := chunk_count (co_total offer), xr_meta_len := of_nat (length (co_meta offer)),
       xr_meta := (if length (co_meta offer) \<le> 4029 then blit (replicate 4029 0) 0 (co_meta offer) else replicate 4029 0),
       xr_active := fits, xr_lazy := (fits \<and> lazy)\<rparr>"

lemma serial_newer_irrefl: "\<not> serial_newer i i"
  by (simp add: serial_newer_def)

lemma handle_offer_newer:
  assumes "offer_newer x offer"
  shows "handle_offer x offer lazy cap =
    (x\<lparr>x_rx := offer_opened offer (offer_fits x offer) lazy\<rparr>,
     if \<not> offer_fits x offer then emit [] cap (xfer_act DH_XFER_ACT_SEND_CANCEL (co_id offer))
     else if lazy then [] else emit_request cap (co_id offer))"
proof -
  define m where "m = length (co_meta offer)"
  have n: "co_id offer \<noteq> 0" "\<not> (xr_seen_offer (x_rx x) \<and> co_id offer = xr_id (x_rx x))"
    "\<not> (xr_seen_offer (x_rx x) \<and> \<not> serial_newer (co_id offer) (xr_id (x_rx x)))"
    using assms serial_newer_irrefl [of "xr_id (x_rx x)"] by (auto simp: offer_newer_def)
  have "xr_meta rx_zero = replicate 4029 0" "blit (replicate 4029 0) 0 ([] :: byte list) = replicate 4029 0"
    by (simp_all add: rx_zero_def blit_def)
  then have "(if m \<le> 4029 \<and> m > 0 then r\<lparr>xr_meta := blit (xr_meta r) 0 (co_meta offer)\<rparr> else r) =
      r\<lparr>xr_meta := (if m \<le> 4029 then blit (replicate 4029 0) 0 (co_meta offer) else replicate 4029 0)\<rparr>"
    if "xr_meta r = replicate 4029 0" for r :: xfer_rx
    using that by (cases "m = 0") (auto simp: m_def)
  note meta = this
  define r where "r = rx_zero\<lparr>xr_seen_offer := True, xr_id := co_id offer, xr_kind := co_kind offer, xr_total := co_total offer,
                 xr_nchunks := chunk_count (co_total offer), xr_meta_len := of_nat m\<rparr>"
  define r1 where "r1 = (if m \<le> 4029 \<and> m > 0 then r\<lparr>xr_meta := blit (xr_meta r) 0 (co_meta offer)\<rparr> else r)"
  have "xr_meta r = replicate 4029 0" by (simp add: r_def rx_zero_def)
  then have r1: "r1 = r\<lparr>xr_meta := (if m \<le> 4029 then blit (replicate 4029 0) 0 (co_meta offer) else replicate 4029 0)\<rparr>"
    unfolding r1_def by (rule meta)
  have o: "offer_opened offer b lazy = r1\<lparr>xr_active := b, xr_lazy := (b \<and> lazy)\<rparr>" for b
    unfolding r1 r_def offer_opened_def m_def by simp
  have f: "r1\<lparr>xr_active := False, xr_lazy := False\<rparr> = r1" unfolding r1 r_def by (simp add: rx_zero_def)
  have "offer_fits x offer \<longleftrightarrow> \<not> (unat (co_total offer) > x_rx_cap x \<or> unat (chunk_count (co_total offer)) > 65536 \<or> m > 1024)"
    by (auto simp: offer_fits_def m_def not_le)
  note fits = this
  show ?thesis
    unfolding handle_offer_def Let_def if_not_P [OF n(1)] if_not_P [OF n(2)] if_not_P [OF n(3)] m_def [symmetric]
      r_def [symmetric] r1_def [symmetric] fits
    by (cases "unat (co_total offer) > x_rx_cap x \<or> unat (chunk_count (co_total offer)) > 65536 \<or> m > 1024") (simp_all add: o f)
qed

lemma handle_offer_other:
  assumes "\<not> offer_newer x offer"
  shows "handle_offer x offer lazy cap =
    (if co_id offer = 0 then (x, emit [] cap (xfer_act DH_XFER_ACT_PROTOCOL_ERROR 0))
     else if co_id offer \<noteq> xr_id (x_rx x) then (x, [])
     else if \<not> offer_same (x_rx x) offer then (x, emit [] cap (xfer_act DH_XFER_ACT_PROTOCOL_ERROR (co_id offer)))
     else (x\<lparr>x_rx := (x_rx x)\<lparr>xr_duplicate_offers := xr_duplicate_offers (x_rx x) + 1\<rparr>\<rparr>,
       if \<not> xr_active (x_rx x) \<or> xr_any_seen (x_rx x) \<or> xr_lazy (x_rx x) then [] else emit_request cap (co_id offer)))"
proof (cases "co_id offer = 0")
  case False
  then have s: "xr_seen_offer (x_rx x)" "\<not> serial_newer (co_id offer) (xr_id (x_rx x))"
    using assms by (simp_all add: offer_newer_def)
  show ?thesis unfolding handle_offer_def Let_def using False s
    by (cases "co_id offer = xr_id (x_rx x)"; cases "offer_same (x_rx x) offer";
        cases "\<not> xr_active (x_rx x) \<or> xr_any_seen (x_rx x) \<or> xr_lazy (x_rx x)") simp_all
qed (simp add: handle_offer_def)

lemma offer_opened_inv:
  assumes "xfer_inv x" and "b \<longrightarrow> offer_fits x offer"
  shows "xfer_inv (x\<lparr>x_rx := offer_opened offer b lazy\<rparr>)"
proof -
  have "unat (chunk_count (co_total offer)) \<le> 65536 \<Longrightarrow> chunks.below (replicate 8192 0) (chunk_count (co_total offer)) = {}"
    by (rule chunks.below_none)
  then show ?thesis using assms
    by (intro rx_inv_set) (auto simp: offer_opened_def rx_zero_def bits_ok_def rx_live_def offer_fits_def length_blit)
qed

lemma handle_offer_inv: "xfer_inv x \<Longrightarrow> xfer_inv (fst (handle_offer x offer lazy cap))"
proof (cases "offer_newer x offer")
  case False
  assume "xfer_inv x"
  then show ?thesis by (simp add: handle_offer_other [OF False] xfer_inv_def bits_ok_def rx_live_def)
qed (simp add: handle_offer_newer offer_opened_inv)

end
