(* ===== verification/DH_Xfer_Spec.thy ===== *)
theory DH_Xfer_Spec
  imports DH_Xfer_Inv
begin

text \<open>
  What the transfer engine promises: over every sequence of its operations the invariant holds, over every lossy,
  reordering, repeating and damaging wire between two engines a delivered transfer is the payload that was offered, it is
  delivered once, and the pump sends exactly what is pending.
\<close>

section \<open>Runs of the engine\<close>

text \<open>Every entry point of the engine that changes state, with the action capacity it is called with.\<close>

datatype xfer_op =
  XOffer byte "byte list" "byte list option" u64 nat
| XRetryOffer nat
| XProvide "byte list option"
| XProvideFail nat
| XPump nat
| XRetryDone nat
| XCancelTx nat
| XExpireTx
| XOnRequest u32 nat
| XOnRetransmit u32 u32
| XOnCredit u32 u16
| XOnOffer dh_clip_offer nat
| XOnOfferLazy dh_clip_offer nat
| XRequestLazy u32 nat
| XOnChunk dh_clip_chunk nat
| XSweep nat
| XOnDone u32 nat
| XOnReceived u32
| XCancelRx nat
| XOnCancel u32 nat
| XLinkDown nat
| XSealReplaced nat
| XSetBuffer "byte list"

fun xfer_step :: "dh_xfer \<Rightarrow> xfer_op \<Rightarrow> dh_xfer \<times> dh_xfer_action list" where
  "xfer_step x (XOffer kind meta data n cap) = dh_xfer_offer x kind meta data n cap"
| "xfer_step x (XRetryOffer cap) = dh_xfer_retry_offer x cap"
| "xfer_step x (XProvide data) = (dh_xfer_provide x data, [])"
| "xfer_step x (XProvideFail cap) = dh_xfer_provide_fail x cap"
| "xfer_step x (XPump cap) = dh_xfer_pump x cap"
| "xfer_step x (XRetryDone cap) = dh_xfer_retry_done x cap"
| "xfer_step x (XCancelTx cap) = dh_xfer_cancel_tx x cap"
| "xfer_step x XExpireTx = (dh_xfer_expire_tx x, [])"
| "xfer_step x (XOnRequest tid cap) = dh_xfer_handle_request x tid cap"
| "xfer_step x (XOnRetransmit tid seq) = (dh_xfer_handle_retransmit x tid seq, [])"
| "xfer_step x (XOnCredit tid credits) = (dh_xfer_handle_credit x tid credits, [])"
| "xfer_step x (XOnOffer offer cap) = dh_xfer_handle_offer x offer cap"
| "xfer_step x (XOnOfferLazy offer cap) = dh_xfer_handle_offer_lazy x offer cap"
| "xfer_step x (XRequestLazy tid cap) = dh_xfer_request_lazy x tid cap"
| "xfer_step x (XOnChunk ch cap) = dh_xfer_handle_chunk x ch cap"
| "xfer_step x (XSweep cap) = dh_xfer_sweep_rx x cap"
| "xfer_step x (XOnDone tid cap) = dh_xfer_handle_done x tid cap"
| "xfer_step x (XOnReceived tid) = (dh_xfer_handle_received x tid, [])"
| "xfer_step x (XCancelRx cap) = dh_xfer_cancel_rx x cap"
| "xfer_step x (XOnCancel tid cap) = dh_xfer_handle_cancel x tid cap"
| "xfer_step x (XLinkDown cap) = dh_xfer_link_down x cap"
| "xfer_step x (XSealReplaced cap) = dh_xfer_rx_seal_replaced x cap"
| "xfer_step x (XSetBuffer buf) = (fst (dh_xfer_set_rx_buffer x buf), [])"

fun xfer_run :: "dh_xfer \<Rightarrow> xfer_op list \<Rightarrow> dh_xfer" where
  "xfer_run x [] = x"
| "xfer_run x (op # ops) = xfer_run (fst (xfer_step x op)) ops"

text \<open>A receive buffer is addressed by 32 bits.\<close>

fun buffer_ok :: "xfer_op \<Rightarrow> bool" where
  "buffer_ok (XSetBuffer buf) = (length buf < 4294967296)"
| "buffer_ok _ = True"

lemma link_down_inv: "xfer_inv x \<Longrightarrow> xfer_inv (fst (dh_xfer_link_down x cap))"
  by (simp add: dh_xfer_link_down_def rx_abandon_def rx_forget_inv tx_reset_inv split_def Let_def)

lemma handle_cancel_inv: "xfer_inv x \<Longrightarrow> xfer_inv (fst (dh_xfer_handle_cancel x tid cap))"
  by (simp add: dh_xfer_handle_cancel_def Let_def rx_reset_inv tx_reset_inv split_def)

lemma set_buffer_inv: "xfer_inv x \<Longrightarrow> length buf < 4294967296 \<Longrightarrow> xfer_inv (fst (dh_xfer_set_rx_buffer x buf))"
  by (simp add: dh_xfer_set_rx_buffer_def xfer_inv_def)

lemma request_lazy_inv: "xfer_inv x \<Longrightarrow> xfer_inv (fst (dh_xfer_request_lazy x tid cap))"
  by (simp add: dh_xfer_request_lazy_def Let_def xfer_inv_def bits_ok_def rx_live_def)

lemma xfer_step_inv: "xfer_inv x \<Longrightarrow> buffer_ok op \<Longrightarrow> xfer_inv (fst (xfer_step x op))"
  by (cases op)
    (simp_all add: xfer_offer_inv retry_offer_inv provide_inv pump_inv request_inv retransmit_inv credit_inv handle_offer_inv
      request_lazy_inv handle_chunk_inv sweep_rx_inv handle_done_inv link_down_inv handle_cancel_inv set_buffer_inv tx_reset_inv
      rx_reset_inv rx_forget_inv dh_xfer_provide_fail_def dh_xfer_retry_done_def dh_xfer_cancel_tx_def dh_xfer_expire_tx_def
      dh_xfer_handle_offer_def dh_xfer_handle_offer_lazy_def dh_xfer_handle_received_def dh_xfer_cancel_rx_def
      dh_xfer_rx_seal_replaced_def rx_abandon_def Let_def)

lemma xfer_run_inv: "xfer_inv x \<Longrightarrow> \<forall>op\<in>set ops. buffer_ok op \<Longrightarrow> xfer_inv (xfer_run x ops)"
  by (induction ops arbitrary: x) (simp_all add: xfer_step_inv)

lemma xfer_run_append: "xfer_run x (ops @ ops') = xfer_run (xfer_run x ops) ops'"
  by (induction ops arbitrary: x) simp_all

section \<open>What is delivered\<close>

text \<open>The chunk of a payload at a sequence number.\<close>

definition slice :: "byte list \<Rightarrow> u32 \<Rightarrow> byte list" where
  "slice d seq = take 1024 (drop (unat seq * 1024) d)"

text \<open>
  What the receiver holds of the payload \<open>d\<close> under identity \<open>k\<close>: every byte of a chunk marked received.
\<close>

definition holds :: "u32 \<Rightarrow> byte list \<Rightarrow> dh_xfer \<Rightarrow> bool" where
  "holds k d x =
     (xr_active (x_rx x) \<and> xr_id (x_rx x) = k \<longrightarrow>
       unat (xr_total (x_rx x)) = length d \<and>
       (\<forall>i<length d. bit_get (xr_received (x_rx x)) (of_nat (i div 1024)) \<longrightarrow> x_rx_buf x ! i = d ! i))"

text \<open>What arrives under the identity is of the payload: its length, and every chunk that passes its checks.\<close>

definition genuine_offer :: "u32 \<Rightarrow> byte list \<Rightarrow> dh_clip_offer \<Rightarrow> bool" where
  "genuine_offer k d offer = (co_id offer = k \<longrightarrow> unat (co_total offer) = length d)"

definition genuine_chunk :: "u32 \<Rightarrow> byte list \<Rightarrow> dh_clip_chunk \<Rightarrow> bool" where
  "genuine_chunk k d ch =
     (ck_id ch = k \<and> length (ck_data ch) = length (slice d (ck_seq ch)) \<and> dh_crc32 (ck_data ch) = ck_crc32 ch \<longrightarrow>
      ck_data ch = slice d (ck_seq ch))"

fun genuine :: "u32 \<Rightarrow> byte list \<Rightarrow> xfer_op \<Rightarrow> bool" where
  "genuine k d (XOnOffer offer cap) = genuine_offer k d offer"
| "genuine k d (XOnOfferLazy offer cap) = genuine_offer k d offer"
| "genuine k d (XOnChunk ch cap) = genuine_chunk k d ch"
| "genuine k d (XSetBuffer buf) = (length buf < 4294967296)"
| "genuine k d _ = True"

lemma genuine_buffer: "genuine k d op \<Longrightarrow> buffer_ok op"
  by (cases op) simp_all

lemma holds_cong:
  assumes "xr_received (x_rx y) = xr_received (x_rx x)" and "xr_id (x_rx y) = xr_id (x_rx x)"
    and "xr_total (x_rx y) = xr_total (x_rx x)" and "x_rx_buf y = x_rx_buf x" and "xr_active (x_rx y) \<longrightarrow> xr_active (x_rx x)"
    and "holds k d x"
  shows "holds k d y"
  using assms by (simp add: holds_def)

lemma holds_idle: "\<not> xr_active (x_rx x) \<Longrightarrow> holds k d x"
  by (simp add: holds_def)

lemma holds_same_rx: "x_rx y = x_rx x \<Longrightarrow> x_rx_buf y = x_rx_buf x \<Longrightarrow> holds k d y = holds k d x"
  by (simp add: holds_def)

lemma of_nat_eq_u32: "i < 4294967296 \<Longrightarrow> (of_nat i = (seq :: u32)) = (i = unat seq)"
  by (auto simp: word_unat_eq_iff unat_of_nat_small)

lemma rx_store_fields:
  "xr_received (x_rx (rx_store x ch)) = bit_set (xr_received (x_rx x)) (ck_seq ch)"
  "xr_total (x_rx (rx_store x ch)) = xr_total (x_rx x)" "xr_nchunks (x_rx (rx_store x ch)) = xr_nchunks (x_rx x)"
  "xr_active (x_rx (rx_store x ch)) = xr_active (x_rx x)" "xr_id (x_rx (rx_store x ch)) = xr_id (x_rx x)"
  "x_rx_buf (rx_store x ch) = blit (x_rx_buf x) (unat (ck_seq ch) * 1024) (ck_data ch)"
  by (simp_all add: rx_store_def Let_def)

lemma nth_blit:
  "off + length src \<le> length dst \<Longrightarrow> i < length dst \<Longrightarrow>
    blit dst off src ! i = (if off \<le> i \<and> i < off + length src then src ! (i - off) else dst ! i)"
  by (auto simp: blit_def nth_append)

lemma holds_store:
  assumes x: "xfer_inv x" and h: "holds k d x" and st: "chunk_stored (x_rx x) ch" and g: "genuine_chunk k d ch"
  shows "holds k d (rx_store x ch)"
proof (cases "xr_id (x_rx x) = k")
  case True
  define r where "r = x_rx x"
  define s where "s = unat (ck_seq ch) * 1024"
  have a: "xr_active r" "ck_seq ch < xr_nchunks r" "\<not> bit_get (xr_received r) (ck_seq ch)"
    "length (ck_data ch) = unat (chunk_len (xr_total r) (xr_nchunks r) (ck_seq ch))" and id: "ck_id ch = k" "dh_crc32 (ck_data ch) = ck_crc32 ch"
    using st True by (simp_all add: chunk_stored_def r_def)
  have tot: "unat (xr_total r) = length d" and hd: "i < length d \<Longrightarrow> bit_get (xr_received r) (of_nat (i div 1024)) \<Longrightarrow> x_rx_buf x ! i = d ! i" for i
    using h a(1) True by (simp_all add: holds_def r_def)
  note fit = rx_store_inv(3,4) [OF x a [unfolded r_def]]
  have len: "length (ck_data ch) = min 1024 (length d - s)" using fit(1) tot by (simp add: r_def s_def)
  then have data: "ck_data ch = take 1024 (drop s d)" using g id by (simp add: genuine_chunk_def slice_def s_def)
  have cap: "length (x_rx_buf x) = x_rx_cap x" "length d < 4294967296" "unat (xr_nchunks r) \<le> 65536" "length d \<le> x_rx_cap x"
    using x a(1) tot by (simp_all add: xfer_inv_def rx_live_def r_def)
  have sq: "unat (ck_seq ch) div 8 < length (xr_received r)"
    using a(2) cap(3) x by (simp add: xfer_inv_def bits_ok_def r_def word_less_nat_alt)
  show ?thesis
    unfolding holds_def
  proof (intro impI conjI allI)
    show "unat (xr_total (x_rx (rx_store x ch))) = length d" using tot by (simp add: rx_store_fields r_def)
  next
    fix i assume i: "i < length d" and b: "bit_get (xr_received (x_rx (rx_store x ch))) (of_nat (i div 1024))"
    have "bit_get (bit_set (xr_received r) (ck_seq ch)) (of_nat (i div 1024))" using b by (simp add: rx_store_fields r_def)
    then have c: "i div 1024 = unat (ck_seq ch) \<or> bit_get (xr_received r) (of_nat (i div 1024))"
      using bit_get_update(1) [OF sq, of "of_nat (i div 1024)"] of_nat_eq_u32 [of "i div 1024" "ck_seq ch"] i cap(2) by auto
    have buf: "x_rx_buf (rx_store x ch) = blit (x_rx_buf x) s (ck_data ch)" by (simp add: rx_store_def Let_def s_def)
    show "x_rx_buf (rx_store x ch) ! i = d ! i"
    proof (cases "i div 1024 = unat (ck_seq ch)")
      case True
      then have "s \<le> i" "i < s + 1024" by (simp_all add: s_def)
      moreover from this have "i < s + length (ck_data ch)" unfolding len using i by linarith
      moreover have "s + length (ck_data ch) \<le> length (x_rx_buf x)" using fit(2) cap(1) by (simp add: s_def)
      ultimately have "x_rx_buf (rx_store x ch) ! i = ck_data ch ! (i - s)" unfolding buf by (subst nth_blit) simp_all
      with \<open>s \<le> i\<close> \<open>i < s + 1024\<close> i show ?thesis by (simp add: data)
    next
      case False
      then have "\<not> (s \<le> i \<and> i < s + length (ck_data ch))" using len by (auto simp: s_def)
      with False c hd [OF i] fit(2) cap(1,4) i show ?thesis
        unfolding buf by (auto simp: nth_blit s_def)
    qed
  qed
next
  case False
  then show ?thesis by (simp add: holds_def rx_store_def Let_def)
qed

lemma holds_opened:
  assumes x: "xfer_inv x" and g: "genuine_offer k d offer" and f: "b \<longrightarrow> offer_fits x offer"
  shows "holds k d (x\<lparr>x_rx := offer_opened offer b lazy\<rparr>)"
proof -
  have "\<not> bit_get (replicate 8192 0) (of_nat (i div 1024))"
    if "i < length d" "length d = unat (co_total offer)" "offer_fits x offer" for i
  proof -
    have "unat (co_total offer) < 4294967296" using that(3) x by (simp add: offer_fits_def xfer_inv_def)
    then have "(unat (co_total offer) + 1023) div 1024 \<le> 65536" using chunk_count_exact that(3) by (simp add: offer_fits_def)
    then have "unat (of_nat (i div 1024) :: u32) < 65536" using that by (subst unat_of_nat_small) auto
    then show ?thesis by (rule chunks.none(2))
  qed
  then show ?thesis using g f by (auto simp: holds_def offer_opened_def rx_zero_def genuine_offer_def)
qed

lemma holds_handle_offer:
  assumes "xfer_inv x" and "holds k d x" and "genuine_offer k d offer"
  shows "holds k d (fst (handle_offer x offer lazy cap))"
proof (cases "offer_newer x offer")
  case True
  then show ?thesis using assms holds_opened by (simp add: handle_offer_newer)
next
  case False
  then show ?thesis using assms(2) by (simp add: handle_offer_other holds_def)
qed

lemma holds_handle_chunk:
  assumes x: "xfer_inv x" and h: "holds k d x" and g: "genuine_chunk k d ch"
  shows "holds k d (fst (dh_xfer_handle_chunk x ch cap))"
proof -
  have n: "unat (xr_nchunks (x_rx x)) \<le> 65536" if "xr_active (x_rx x)"
    using x that by (simp add: xfer_inv_def rx_live_def)
  have st: "holds k d (rx_store x ch)" if "chunk_stored (x_rx x) ch" by (rule holds_store [OF x h that g])
  obtain x' acts where d: "dh_xfer_handle_chunk x ch cap = (x', acts)" by fastforce
  from d n have "holds k d x'"
  proof (rule handle_chunk_cases, goal_cases)
    case (4 r')
    then show ?case using h rx_asks_fields [OF 4(2)] by (simp add: holds_def)
  next
    case 6
    then show ?case using st by (simp add: holds_def)
  qed (use h in \<open>simp_all add: holds_idle\<close>)
  with d show ?thesis by simp
qed

lemma holds_sweep: "xfer_inv x \<Longrightarrow> holds k d x \<Longrightarrow> holds k d (fst (dh_xfer_sweep_rx x cap))"
proof (cases "xr_active (x_rx x)")
  case True
  assume x: "xfer_inv x" and h: "holds k d x"
  note s = sweep_rx_asks [OF xfer_inv_parts(3) [OF x True], of cap]
  have "x_rx_buf (fst (dh_xfer_sweep_rx x cap)) = x_rx_buf x" by (subst s(2)) simp
  then show ?thesis using h rx_asks_fields [OF s(1)] by (simp add: holds_def)
qed (simp add: dh_xfer_sweep_rx_def)

lemma holds_done: "xfer_inv x \<Longrightarrow> holds k d x \<Longrightarrow> holds k d (fst (dh_xfer_handle_done x tid cap))"
proof (cases "xr_active (x_rx x)")
  case True
  assume x: "xfer_inv x" and h: "holds k d x"
  obtain x' acts where e: "dh_xfer_handle_done x tid cap = (x', acts)" by fastforce
  from xfer_inv_parts(3) [OF x True] e have "holds k d x'"
  proof (cases rule: handle_done_shape)
    case (missing r)
    then show ?thesis using h rx_asks_fields [OF missing(2)] by (simp add: holds_def)
  qed (use h in \<open>simp_all add: holds_idle\<close>)
  with e show ?thesis by simp
qed (auto simp: dh_xfer_handle_done_def Let_def)

text \<open>The operations that leave the receiver alone, and those that end what it receives.\<close>

lemma tx_ops_rx:
  "x_rx (fst (dh_xfer_offer x kind meta data n cap)) = x_rx x" "x_rx_buf (fst (dh_xfer_offer x kind meta data n cap)) = x_rx_buf x"
  "x_rx (fst (dh_xfer_retry_offer x cap)) = x_rx x" "x_rx_buf (fst (dh_xfer_retry_offer x cap)) = x_rx_buf x"
  "x_rx (dh_xfer_provide x data) = x_rx x" "x_rx_buf (dh_xfer_provide x data) = x_rx_buf x"
  "x_rx (fst (dh_xfer_provide_fail x cap)) = x_rx x" "x_rx_buf (fst (dh_xfer_provide_fail x cap)) = x_rx_buf x"
  "x_rx (fst (dh_xfer_pump x cap)) = x_rx x" "x_rx_buf (fst (dh_xfer_pump x cap)) = x_rx_buf x"
  "x_rx (fst (dh_xfer_retry_done x cap)) = x_rx x" "x_rx_buf (fst (dh_xfer_retry_done x cap)) = x_rx_buf x"
  "x_rx (fst (dh_xfer_cancel_tx x cap)) = x_rx x" "x_rx_buf (fst (dh_xfer_cancel_tx x cap)) = x_rx_buf x"
  "x_rx (dh_xfer_expire_tx x) = x_rx x" "x_rx_buf (dh_xfer_expire_tx x) = x_rx_buf x"
  "x_rx (fst (dh_xfer_handle_request x tid cap)) = x_rx x" "x_rx_buf (fst (dh_xfer_handle_request x tid cap)) = x_rx_buf x"
  "x_rx (dh_xfer_handle_retransmit x tid seq) = x_rx x" "x_rx_buf (dh_xfer_handle_retransmit x tid seq) = x_rx_buf x"
  "x_rx (dh_xfer_handle_credit x tid credits) = x_rx x" "x_rx_buf (dh_xfer_handle_credit x tid credits) = x_rx_buf x"
  "x_rx (dh_xfer_handle_received x tid) = x_rx x" "x_rx_buf (dh_xfer_handle_received x tid) = x_rx_buf x"
  by (simp_all add: dh_xfer_offer_def dh_xfer_retry_offer_def dh_xfer_provide_def dh_xfer_provide_fail_def dh_xfer_pump_def
      dh_xfer_retry_done_def dh_xfer_cancel_tx_def dh_xfer_expire_tx_def dh_xfer_handle_request_def dh_xfer_handle_retransmit_def
      dh_xfer_handle_credit_def dh_xfer_handle_received_def Let_def tx_reset_def tx_start_streaming_def split_def
      tx_queue_retransmit_def)

lemma xfer_step_holds:
  assumes x: "xfer_inv x" and h: "holds k d x" and g: "genuine k d op"
  shows "holds k d (fst (xfer_step x op))"
proof -
  have ended: "holds k d (x\<lparr>x_rx := rx_zero\<rparr>)" "holds k d (x\<lparr>x_rx := rx_zero, x_tx := t\<rparr>)" for t
    by (simp_all add: holds_idle rx_zero_def)
  have req: "holds k d (fst (dh_xfer_request_lazy x tid cap))" for tid cap
    using h by (simp add: dh_xfer_request_lazy_def Let_def holds_def)
  have cancel: "holds k d (fst (dh_xfer_handle_cancel x tid cap))" for tid cap
    using h by (simp add: dh_xfer_handle_cancel_def Let_def split_def holds_def rx_reset_def tx_reset_def)
  have cancel_rx: "holds k d (fst (dh_xfer_cancel_rx x cap))" for cap
    using h by (simp add: dh_xfer_cancel_rx_def holds_def rx_reset_def)
  have down: "holds k d (fst (dh_xfer_link_down x cap))" "holds k d (fst (dh_xfer_rx_seal_replaced x cap))" for cap
    using h by (simp_all add: dh_xfer_link_down_def dh_xfer_rx_seal_replaced_def rx_abandon_def rx_forget_def tx_reset_def Let_def
        split_def ended)
  have buf: "holds k d (fst (dh_xfer_set_rx_buffer x b))" for b
    using h by (simp add: dh_xfer_set_rx_buffer_def holds_def)
  show ?thesis
    using h g x req cancel cancel_rx down buf
    by (cases op) (simp_all add: holds_same_rx [OF tx_ops_rx(1,2)] holds_same_rx [OF tx_ops_rx(3,4)] holds_same_rx [OF tx_ops_rx(5,6)]
        holds_same_rx [OF tx_ops_rx(7,8)] holds_same_rx [OF tx_ops_rx(9,10)] holds_same_rx [OF tx_ops_rx(11,12)]
        holds_same_rx [OF tx_ops_rx(13,14)] holds_same_rx [OF tx_ops_rx(15,16)] holds_same_rx [OF tx_ops_rx(17,18)]
        holds_same_rx [OF tx_ops_rx(19,20)] holds_same_rx [OF tx_ops_rx(21,22)] holds_same_rx [OF tx_ops_rx(23,24)]
        dh_xfer_handle_offer_def dh_xfer_handle_offer_lazy_def holds_handle_offer holds_handle_chunk holds_sweep holds_done)
qed

lemma xfer_run_holds:
  "xfer_inv x \<Longrightarrow> holds k d x \<Longrightarrow> \<forall>op\<in>set ops. genuine k d op \<Longrightarrow> xfer_inv (xfer_run x ops) \<and> holds k d (xfer_run x ops)"
proof (induction ops arbitrary: x)
  case (Cons op ops)
  then have "genuine k d op" "buffer_ok op" using genuine_buffer by auto
  then show ?case using Cons xfer_step_inv xfer_step_holds by simp
qed simp

lemma holds_complete:
  assumes x: "xfer_inv x" and h: "holds k d x" and a: "xr_active (x_rx x)" and id: "xr_id (x_rx x) = k"
    and full: "xr_nchunks (x_rx x) \<le> xr_nreceived (x_rx x)"
  shows "take (length d) (x_rx_buf x) = d"
proof -
  define r where "r = x_rx x"
  have live: "unat (xr_total r) \<le> x_rx_cap x" "chunk_count (xr_total r) = xr_nchunks r" "unat (xr_nchunks r) \<le> 65536"
    "unat (xr_nreceived r) = card (chunks.below (xr_received r) (xr_nchunks r))"
    using x a by (simp_all add: xfer_inv_def rx_live_def r_def)
  have tot: "unat (xr_total r) = length d" and cap: "length (x_rx_buf x) = x_rx_cap x" "x_rx_cap x < 4294967296"
    using x h a id by (simp_all add: xfer_inv_def holds_def r_def)
  have "card (chunks.below (xr_received r) (xr_nchunks r)) = unat (xr_nchunks r)"
    using full live(4) chunks.card_below_le [of "xr_received r" "xr_nchunks r"] by (simp add: word_le_nat_alt r_def)
  then have all: "\<forall>i<xr_nchunks r. bit_get (xr_received r) i" by (rule chunks.below_full [THEN iffD1])
  have n: "unat (xr_nchunks r) = (length d + 1023) div 1024"
    using chunk_count_exact [of "xr_total r"] live tot cap by simp
  have byte: "x_rx_buf x ! i = d ! i" if i: "i < length d" for i
  proof -
    have "i div 1024 < (length d + 1023) div 1024" using i by linarith
    then have "of_nat (i div 1024) < xr_nchunks r" using n live(3) by (simp add: word_less_nat_alt unat_of_nat_small)
    then have "bit_get (xr_received r) (of_nat (i div 1024))" using all by simp
    then show ?thesis using h a id i by (simp add: holds_def r_def)
  qed
  show ?thesis using live(1) tot cap byte by (intro nth_equalityI) simp_all
qed

text \<open>Only the last chunk and a \<open>done\<close> behind it deliver.\<close>

definition quiet :: "dh_xfer_action list \<Rightarrow> bool" where
  "quiet acts = list_all (\<lambda>a. ac_type a \<noteq> DH_XFER_ACT_DELIVERED) acts"

lemma quiet_Nil [simp]: "quiet []" and quiet_Cons [simp]: "quiet (a # acts) = (ac_type a \<noteq> DH_XFER_ACT_DELIVERED \<and> quiet acts)"
  and quiet_append [simp]: "quiet (acts @ acts') = (quiet acts \<and> quiet acts')"
  by (simp_all add: quiet_def)

lemma ac_type_act [simp]: "ac_type (xfer_act t tid) = t" "ac_id (xfer_act t tid) = tid"
  by (simp_all add: xfer_act_def)

lemma quiet_emit [simp]: "quiet acts \<Longrightarrow> ac_type a \<noteq> DH_XFER_ACT_DELIVERED \<Longrightarrow> quiet (emit acts cap a)"
  by (simp add: emit_def)

lemma quiet_grant: "quiet acts \<Longrightarrow> quiet (rx_grant tid acts cap credits)"
  by (simp add: rx_grant_def)

lemma quiet_request_chunk: "quiet acts \<Longrightarrow> quiet (fst (snd (rx_request_chunk r seq stale acts cap credits)))"
  by (simp add: rx_request_chunk_def)

lemma quiet_sweep_one: "quiet (fst (snd st)) \<Longrightarrow> quiet (fst (snd (sweep_one aged cap st m)))"
  unfolding sweep_one_def split_def by (simp add: quiet_request_chunk)

lemma quiet_sweep_range: "quiet (fst (snd st)) \<Longrightarrow> quiet (fst (snd (foldl (sweep_one aged cap) st ms)))"
  by (induction ms arbitrary: st) (simp_all add: quiet_sweep_one)

lemma quiet_sweep_window: "quiet (fst (snd st)) \<Longrightarrow> quiet (fst (snd (sweep_window cap named st ms)))"
  by (induction ms arbitrary: st named) (simp_all add: quiet_sweep_one)

lemma quiet_sweep_rx: "quiet (snd (dh_xfer_sweep_rx x cap))"
proof -
  have "quiet (fst (snd (rx_sweep_range r n aged [] cap 0)))" for r n aged
    unfolding rx_sweep_range_def by (rule quiet_sweep_range) simp
  then show ?thesis unfolding dh_xfer_sweep_rx_def Let_def split_def
    by (auto intro!: quiet_grant quiet_sweep_window)
qed

lemma quiet_handle_offer: "quiet (snd (handle_offer x offer lazy cap))"
  by (cases "offer_newer x offer")
    (simp_all add: handle_offer_newer handle_offer_other emit_request_def)

lemma quiet_pump: "tx_inv (x_tx x) \<Longrightarrow> quiet (snd (dh_xfer_pump x cap))"
proof (cases "xt_active (x_tx x) \<and> xt_streaming (x_tx x) \<and> \<not> xt_lazy_pending (x_tx x)")
  case True
  assume x: "tx_inv (x_tx x)"
  obtain x' acts where p: "dh_xfer_pump x cap = (x', acts)" by fastforce
  have "quiet (map (chunk_act tid) seqs)" for tid seqs by (induction seqs) simp_all
  then show ?thesis using pump_shape(5) [OF x p] True by (simp add: p)
qed (simp add: pump_idle)

lemma xfer_step_quiet:
  assumes "xfer_inv x" and "\<nexists>ch cap. op = XOnChunk ch cap" and "\<nexists>tid cap. op = XOnDone tid cap"
  shows "quiet (snd (xfer_step x op))"
  using assms xfer_inv_parts(1) [OF assms(1)]
  by (cases op)
    (simp_all add: quiet_sweep_rx quiet_handle_offer quiet_pump dh_xfer_handle_offer_def dh_xfer_handle_offer_lazy_def
      dh_xfer_offer_def dh_xfer_retry_offer_def dh_xfer_provide_fail_def dh_xfer_retry_done_def dh_xfer_cancel_tx_def
      dh_xfer_handle_request_def dh_xfer_request_lazy_def emit_request_def dh_xfer_cancel_rx_def dh_xfer_handle_cancel_def
      dh_xfer_link_down_def dh_xfer_rx_seal_replaced_def rx_abandon_def Let_def split_def)

lemma xfer_step_delivers:
  assumes x: "xfer_inv x" and h: "holds k d x" and g: "genuine k d op" and s: "xfer_step x op = (x', acts)"
    and a: "a \<in> set acts" "ac_type a = DH_XFER_ACT_DELIVERED" "ac_id a = k"
  shows "take (length d) (x_rx_buf x') = d"
proof -
  consider (chunk) ch cap where "op = XOnChunk ch cap" | (fin) tid cap where "op = XOnDone tid cap"
    using xfer_step_quiet [OF x, of op] s a by (auto simp: quiet_def list_all_iff)
  then show ?thesis
  proof cases
    case chunk
    then have e: "dh_xfer_handle_chunk x ch cap = (x', acts)" and gc: "genuine_chunk k d ch" using s g by simp_all
    have n: "unat (xr_nchunks (x_rx x)) \<le> 65536" if "xr_active (x_rx x)"
      using x that by (simp add: xfer_inv_def rx_live_def)
    have st: "xfer_inv (rx_store x ch)" "holds k d (rx_store x ch)" if "chunk_stored (x_rx x) ch"
      using rx_store_inv(1) [OF x] holds_store [OF x h that gc] that by (simp_all add: chunk_stored_def)
    have nq: "\<not> quiet acts" using a by (auto simp: quiet_def list_all_iff)
    from e n show ?thesis
    proof (rule handle_chunk_cases, goal_cases)
      case 5
      have k: "xr_id (x_rx x) = k" using a 5(5) by (auto simp: emit_def xfer_act_def split: if_splits)
      have "xr_active (x_rx (rx_store x ch))" "xr_id (x_rx (rx_store x ch)) = k" using 5(1) k by (simp_all add: chunk_stored_def rx_store_fields)
      then have "take (length d) (x_rx_buf (rx_store x ch)) = d"
        using 5 st by (intro holds_complete) (simp_all add: rx_store_fields)
      then show ?case using 5 by simp
    qed (use nq quiet_grant [of "[]"] in \<open>simp_all add: quiet_def list_all_iff\<close>)
  next
    case fin
    then have e: "dh_xfer_handle_done x tid cap = (x', acts)" using s by simp
    have nq: "\<not> quiet acts" using a by (auto simp: quiet_def list_all_iff)
    have act: "xr_active (x_rx x)"
    proof (rule ccontr)
      assume "\<not> xr_active (x_rx x)"
      then have "quiet (snd (dh_xfer_handle_done x tid cap))" by (simp add: dh_xfer_handle_done_def Let_def)
      with nq e show False by simp
    qed
    from xfer_inv_parts(3) [OF x act] e show ?thesis
    proof (cases rule: handle_done_shape)
      case (missing r)
      have "quiet (fst (snd (rx_sweep_range (x_rx x) (xr_nchunks (x_rx x)) True [] cap 0)))"
        unfolding rx_sweep_range_def by (rule quiet_sweep_range) simp
      then have "quiet acts" unfolding missing(4) split_def by (rule quiet_grant)
      with nq show ?thesis by simp
    next
      case complete
      have "tid = k" using a complete(6) by (auto simp: emit_def xfer_act_def split: if_splits)
      then have "take (length d) (x_rx_buf x) = d"
        using complete x h by (intro holds_complete) simp_all
      then show ?thesis using complete by simp
    qed (use nq in simp_all)
  qed
qed

section \<open>Two engines and a lossy wire\<close>

text \<open>The messages an engine's actions stand for, as the helper fetches them when it carries the actions out.\<close>

fun offers_out :: "dh_xfer \<Rightarrow> dh_xfer_action list \<Rightarrow> dh_clip_offer list" where
  "offers_out x [] = []"
| "offers_out x (a # acts) =
     (if ac_type a \<in> {DH_XFER_ACT_SEND_OFFER, DH_XFER_ACT_SEND_OFFER_RETRY}
      then (case dh_xfer_offer_info x of None \<Rightarrow> offers_out x acts | Some offer \<Rightarrow> offer # offers_out x acts)
      else offers_out x acts)"

fun chunks_out :: "dh_xfer \<Rightarrow> dh_xfer_action list \<Rightarrow> dh_clip_chunk list" where
  "chunks_out x [] = []"
| "chunks_out x (a # acts) =
     (if ac_type a = DH_XFER_ACT_SEND_CHUNK
      then (case dh_xfer_chunk_at x (ac_seq a) of None \<Rightarrow> chunks_out x acts | Some ch \<Rightarrow> ch # chunks_out x acts)
      else chunks_out x acts)"

text \<open>
  The sending helper's side of the contract: \<open>pay k\<close> is what it offers under identity \<open>k\<close>, at once or when the
  data is asked for.
\<close>

fun xfer_sends :: "(u32 \<Rightarrow> byte list) \<Rightarrow> dh_xfer \<Rightarrow> xfer_op \<Rightarrow> bool" where
  "xfer_sends pay a (XOffer kind meta data n cap) =
     (unat n = length (pay (x_next_id a)) \<and> unat n < 4294967296 \<and> (data = None \<or> data = Some (pay (x_next_id a))))"
| "xfer_sends pay a (XProvide data) = (data = Some (pay (xt_id (x_tx a))))"
| "xfer_sends pay a (XSetBuffer buf) = (length buf < 4294967296)"
| "xfer_sends pay a _ = True"

text \<open>
  What may reach the other helper: any message that was ever sent, in any order and any number of times, and
  chunks damaged on the way.
\<close>

fun arrives :: "dh_clip_offer list \<Rightarrow> dh_clip_chunk list \<Rightarrow> xfer_op \<Rightarrow> bool" where
  "arrives os cs (XOnOffer offer cap) = (offer \<in> set os)"
| "arrives os cs (XOnOfferLazy offer cap) = (offer \<in> set os)"
| "arrives os cs (XOnChunk ch cap) = (ch \<in> set cs \<or> dh_crc32 (ck_data ch) \<noteq> ck_crc32 ch)"
| "arrives os cs (XSetBuffer buf) = (length buf < 4294967296)"
| "arrives os cs _ = True"

inductive xfer_net ::
  "(u32 \<Rightarrow> byte list) \<Rightarrow> dh_xfer \<Rightarrow> dh_xfer \<Rightarrow> dh_clip_offer list \<Rightarrow> dh_clip_chunk list \<Rightarrow> bool" for pay where
  start: "length buf < 4294967296 \<Longrightarrow> length buf' < 4294967296 \<Longrightarrow> xfer_net pay (dh_xfer_init buf) (dh_xfer_init buf') [] []"
| send: "xfer_net pay a b os cs \<Longrightarrow> xfer_sends pay a op \<Longrightarrow> xfer_step a op = (a', acts) \<Longrightarrow>
    xfer_net pay a' b (os @ offers_out a' acts) (cs @ chunks_out a' acts)"
| receive: "xfer_net pay a b os cs \<Longrightarrow> arrives os cs op \<Longrightarrow> xfer_step b op = (b', acts) \<Longrightarrow> xfer_net pay a b' os cs"

text \<open>What the sender's state says it is sending.\<close>

definition tx_pays :: "(u32 \<Rightarrow> byte list) \<Rightarrow> xfer_tx \<Rightarrow> bool" where
  "tx_pays pay t =
     (xt_active t \<longrightarrow> unat (xt_total t) = length (pay (xt_id t)) \<and> length (pay (xt_id t)) < 4294967296 \<and>
       (xt_data t = None \<or> xt_data t = Some (pay (xt_id t))))"

lemma tx_pays_kept: "tx_kept t t' \<Longrightarrow> tx_pays pay t \<Longrightarrow> tx_pays pay t'"
  by (simp add: tx_pays_def tx_kept_def)

lemma tx_pays_zero [simp]: "tx_pays pay tx_zero"
  by (simp add: tx_pays_def tx_zero_def)

lemma tx_pays_fields [simp]:
  "tx_pays pay (t\<lparr>xt_credits := c\<rparr>) = tx_pays pay t" "tx_pays pay (t\<lparr>xt_need_done := b\<rparr>) = tx_pays pay t"
  "tx_pays pay (t\<lparr>xt_recovery_credit_due := b\<rparr>) = tx_pays pay t" "tx_pays pay (t\<lparr>xt_retx_asked := a\<rparr>) = tx_pays pay t"
  "tx_pays pay (t\<lparr>xt_offer_retries := a\<rparr>) = tx_pays pay t" "tx_pays pay (t\<lparr>xt_lazy_pending := b\<rparr>) = tx_pays pay t"
  "tx_pays pay (t\<lparr>xt_streaming := b\<rparr>) = tx_pays pay t" "tx_pays pay (t\<lparr>xt_opening_credit_accepted := b\<rparr>) = tx_pays pay t"
  "tx_pays pay (t\<lparr>xt_retx := l\<rparr>) = tx_pays pay t" "tx_pays pay (t\<lparr>xt_retx_count := n\<rparr>) = tx_pays pay t"
  by (simp_all add: tx_pays_def)

lemma rx_ops_tx:
  "x_tx (fst (handle_offer x offer lazy cap)) = x_tx x" "x_tx (fst (dh_xfer_request_lazy x tid cap)) = x_tx x"
  "x_tx (fst (dh_xfer_handle_chunk x ch cap)) = x_tx x" "x_tx (fst (dh_xfer_sweep_rx x cap)) = x_tx x"
  "x_tx (fst (dh_xfer_handle_done x tid cap)) = x_tx x" "x_tx (fst (dh_xfer_cancel_rx x cap)) = x_tx x"
  "x_tx (fst (dh_xfer_rx_seal_replaced x cap)) = x_tx x" "x_tx (fst (dh_xfer_set_rx_buffer x buf)) = x_tx x"
  by (simp_all add: handle_offer_def dh_xfer_request_lazy_def dh_xfer_handle_chunk_def dh_xfer_sweep_rx_def dh_xfer_handle_done_def
      dh_xfer_cancel_rx_def dh_xfer_rx_seal_replaced_def dh_xfer_set_rx_buffer_def Let_def split_def rx_store_def rx_reset_def
      rx_abandon_def rx_forget_def)

lemma pump_pays:
  assumes "tx_inv (x_tx x)" and "tx_pays pay (x_tx x)"
  shows "tx_pays pay (x_tx (fst (dh_xfer_pump x cap)))"
proof (cases "xt_active (x_tx x) \<and> xt_streaming (x_tx x) \<and> \<not> xt_lazy_pending (x_tx x)")
  case True
  obtain x' acts where p: "dh_xfer_pump x cap = (x', acts)" by fastforce
  have "tx_kept ((x_tx x)\<lparr>xt_need_done := xt_need_done (x_tx x')\<rparr>) (x_tx x')" using pump_shape(6) [OF assms(1) p] True by simp
  then show ?thesis using tx_pays_kept assms(2) by (simp add: p)
qed (simp add: pump_idle assms(2))

lemma xfer_step_pays:
  assumes x: "xfer_inv a" and t: "tx_pays pay (x_tx a)" and s: "xfer_sends pay a op"
  shows "tx_pays pay (x_tx (fst (xfer_step a op)))"
proof -
  have st: "tx_pays pay (x_tx (tx_start_streaming y)) = tx_pays pay (x_tx y)" for y
    by (simp add: tx_start_streaming_def Let_def)
  have o: "tx_pays pay (x_tx (fst (dh_xfer_offer a kind meta data n cap)))" if "xfer_sends pay a (XOffer kind meta data n cap)" for kind meta data n cap
    using that by (simp add: dh_xfer_offer_def Let_def tx_reset_def tx_pays_def)
  have pr: "tx_pays pay (x_tx (dh_xfer_provide a data))" if "data = Some (pay (xt_id (x_tx a)))" for data
    using that t by (simp add: dh_xfer_provide_def Let_def st) (simp add: tx_pays_def)
  have rt: "tx_pays pay (x_tx (dh_xfer_handle_retransmit a tid seq))" for tid seq
    using t by (simp add: dh_xfer_handle_retransmit_def Let_def tx_queue_retransmit_def)
  have rq: "tx_pays pay (x_tx (fst (dh_xfer_handle_request a tid cap)))" for tid cap
    using t by (simp add: dh_xfer_handle_request_def Let_def st)
  have cr: "tx_pays pay (x_tx (dh_xfer_handle_credit a tid credits))" for tid credits
    using t by (simp add: dh_xfer_handle_credit_def Let_def)
  show ?thesis
    using s t o pr rt rq cr xfer_inv_parts(1) [OF x]
    by (cases op) (simp_all add: rx_ops_tx pump_pays dh_xfer_handle_offer_def dh_xfer_handle_offer_lazy_def
        dh_xfer_retry_offer_def dh_xfer_provide_fail_def dh_xfer_retry_done_def dh_xfer_cancel_tx_def dh_xfer_expire_tx_def
        dh_xfer_handle_received_def dh_xfer_handle_cancel_def dh_xfer_link_down_def rx_abandon_def tx_reset_def rx_forget_def
        rx_reset_def Let_def split_def)
qed

lemma xfer_sends_buffer: "xfer_sends pay a op \<Longrightarrow> buffer_ok op" and arrives_buffer: "arrives os cs op \<Longrightarrow> buffer_ok op"
  by (cases op; simp)+

text \<open>Everything an engine puts on the wire is of its payload.\<close>

lemma offer_info_genuine: "tx_pays pay (x_tx a) \<Longrightarrow> dh_xfer_offer_info a = Some offer \<Longrightarrow> genuine_offer k (pay k) offer"
  by (auto simp: dh_xfer_offer_info_def Let_def tx_pays_def genuine_offer_def split: if_splits)

lemma chunk_at_genuine:
  assumes "tx_inv (x_tx a)" and "tx_pays pay (x_tx a)" and "dh_xfer_chunk_at a seq = Some ch"
  shows "ck_data ch = slice (pay (ck_id ch)) (ck_seq ch)" and "ck_crc32 ch = dh_crc32 (ck_data ch)"
proof -
  define t where "t = x_tx a"
  have t: "xt_active t" "xt_data t = Some (pay (xt_id t))" "seq < xt_nchunks t"
    and ch: "ch = \<lparr>ck_id = xt_id t, ck_seq = seq,
      ck_crc32 = dh_crc32 (take (unat (chunk_len (xt_total t) (xt_nchunks t) seq)) (drop (unat seq * 1024) (pay (xt_id t)))),
      ck_data = take (unat (chunk_len (xt_total t) (xt_nchunks t) seq)) (drop (unat seq * 1024) (pay (xt_id t)))\<rparr>"
    using assms(2,3) by (auto simp: dh_xfer_chunk_at_def Let_def t_def tx_pays_def split: option.splits if_splits)
  have n: "chunk_count (xt_total t) = xt_nchunks t" using assms(1) by (simp add: tx_inv_def t_def)
  have l: "unat (xt_total t) = length (pay (xt_id t))" "unat (xt_total t) < 4294967296" using assms(2) t(1) by (simp_all add: tx_pays_def t_def)
  have "unat (chunk_len (xt_total t) (xt_nchunks t) seq) = min 1024 (length (pay (xt_id t)) - unat seq * 1024)"
    using chunk_len_exact(1) [OF l(2), of seq] t(3) n l by simp
  then show "ck_data ch = slice (pay (ck_id ch)) (ck_seq ch)" by (simp add: ch slice_def min_def)
  show "ck_crc32 ch = dh_crc32 (ck_data ch)" by (simp add: ch)
qed

lemma offers_out_genuine: "tx_pays pay (x_tx a) \<Longrightarrow> offer \<in> set (offers_out a acts) \<Longrightarrow> genuine_offer k (pay k) offer"
  by (induction acts) (auto simp: offer_info_genuine split: if_splits option.splits)

lemma chunks_out_genuine:
  "tx_inv (x_tx a) \<Longrightarrow> tx_pays pay (x_tx a) \<Longrightarrow> ch \<in> set (chunks_out a acts) \<Longrightarrow> genuine_chunk k (pay k) ch"
  by (induction acts) (auto simp: genuine_chunk_def dest: chunk_at_genuine(1) split: if_splits option.splits)

lemma arrives_genuine:
  assumes "\<forall>offer\<in>set os. genuine_offer k d offer" and "\<forall>ch\<in>set cs. genuine_chunk k d ch" and "arrives os cs op"
  shows "genuine k d op"
  using assms by (cases op) (auto simp: genuine_chunk_def)

lemma xfer_net_inv:
  assumes "xfer_net pay a b os cs"
  shows "xfer_inv a \<and> xfer_inv b \<and> tx_pays pay (x_tx a) \<and> (\<forall>k. \<forall>offer\<in>set os. genuine_offer k (pay k) offer) \<and>
    (\<forall>k. \<forall>ch\<in>set cs. genuine_chunk k (pay k) ch) \<and> (\<forall>k. holds k (pay k) b)"
  using assms
proof induction
  case (start buf buf')
  have "\<not> xr_active (x_rx (dh_xfer_init buf'))" "x_tx (dh_xfer_init buf) = tx_zero"
    by (simp_all add: dh_xfer_init_def rx_zero_def)
  with start show ?case by (simp add: xfer_init_inv holds_idle)
next
  case (send a b os cs op a' acts)
  then have a': "xfer_inv a'" "tx_pays pay (x_tx a')"
    using xfer_step_inv [of a op] xfer_step_pays [of a pay op] xfer_sends_buffer [of pay a op] by auto
  then show ?case
    using send offers_out_genuine [OF a'(2)] chunks_out_genuine [OF xfer_inv_parts(1) [OF a'(1)] a'(2)] by auto
next
  case (receive a b os cs op b' acts)
  then have g: "genuine k (pay k) op" for k by (intro arrives_genuine [of os k "pay k" cs op]) auto
  then show ?case
    using receive xfer_step_inv [of b op] arrives_buffer [of os cs op] xfer_step_holds [OF _ _ g, of b] by auto
qed

text \<open>C7. Two helpers and a wire that loses, repeats, reorders and damages: whatever both engines are asked to do,
when the receiving one reports transfer \<open>k\<close> delivered, its buffer starts with exactly the bytes the sending one
was given for \<open>k\<close> - offered with the data, or lazily with the data provided later, over any number of
retransmissions, cancellations, restarts and superseded offers.\<close>

theorem xfer_end_to_end:
  assumes "xfer_net pay a b os cs" and "arrives os cs op" and "xfer_step b op = (b', acts)"
    and "xfer_act DH_XFER_ACT_DELIVERED k \<in> set acts"
  shows "take (length (pay k)) (x_rx_buf b') = pay k"
proof -
  note n = xfer_net_inv [OF assms(1)]
  then have "genuine k (pay k) op" using assms(2) by (intro arrives_genuine [of os k _ cs]) auto
  then show ?thesis using n by (intro xfer_step_delivers [OF _ _ _ assms(3,4)]) simp_all
qed

lemma crc_abc: "dh_crc32 [97, 98, 99] = 0x352441C2"
  by code_simp

text \<open>A three byte payload, offered, asked for and sent.\<close>

definition pay3 :: "u32 \<Rightarrow> byte list" where
  "pay3 k = [97, 98, 99]"

abbreviation (input) offer3 :: dh_clip_offer where
  "offer3 \<equiv> \<lparr>co_id = 1, co_kind = 0, co_total = 3, co_meta = []\<rparr>"

abbreviation (input) chunk3 :: dh_clip_chunk where
  "chunk3 \<equiv> \<lparr>ck_id = 1, ck_seq = 0, ck_crc32 = 0x352441C2, ck_data = [97, 98, 99]\<rparr>"

lemmas xfer_eval = dh_xfer_handle_offer_def handle_offer_def dh_xfer_init_def rx_zero_def tx_zero_def chunk_count_def
  dh_xfer_handle_chunk_def bit_get_def chunk_len_def crc_abc rx_store_def rx_complete_def emit_def Let_def tx_reset_def
  dh_xfer_offer_def dh_xfer_handle_request_def tx_start_streaming_def dh_xfer_handle_credit_def dh_xfer_pump_def
  pump_chunks.simps pump_next_def xfer_act_def dh_xfer_offer_info_def dh_xfer_chunk_at_def

lemma net_send:
  "xfer_net pay a b os cs \<Longrightarrow> xfer_sends pay a op \<Longrightarrow>
    xfer_net pay (fst (xfer_step a op)) b (os @ offers_out (fst (xfer_step a op)) (snd (xfer_step a op)))
      (cs @ chunks_out (fst (xfer_step a op)) (snd (xfer_step a op)))"
  by (rule send) simp_all

lemma net_receive: "xfer_net pay a b os cs \<Longrightarrow> arrives os cs op \<Longrightarrow> xfer_net pay a (fst (xfer_step b op)) os cs"
  by (rule receive [where acts = "snd (xfer_step b op)"]) simp_all

lemma net3: "\<exists>a. xfer_net pay3 a (dh_xfer_init [0, 0, 0, 0]) [offer3] [chunk3]"
proof -
  define b where "b = dh_xfer_init [0, 0, 0, 0]"
  define a0 where "a0 = dh_xfer_init []"
  define a1 where "a1 = fst (xfer_step a0 (XOffer 0 [] (Some [97, 98, 99]) 3 8))"
  define a2 where "a2 = fst (xfer_step a1 (XOnRequest 1 8))"
  define a3 where "a3 = fst (xfer_step a2 (XOnCredit 1 3))"
  define a4 where "a4 = fst (xfer_step a3 (XPump 8))"
  have "xfer_net pay3 a0 b [] []" unfolding a0_def b_def by (rule start) simp_all
  moreover have "xfer_sends pay3 a0 (XOffer 0 [] (Some [97, 98, 99]) 3 8)" by (simp add: a0_def dh_xfer_init_def pay3_def)
  ultimately have "xfer_net pay3 a1 b [offer3] []"
    using net_send [of pay3 a0 b "[]" "[]" "XOffer 0 [] (Some [97, 98, 99]) 3 8"] unfolding a1_def [symmetric]
    by (simp add: a1_def a0_def xfer_eval)
  then have "xfer_net pay3 a2 b [offer3] []"
    using net_send [of pay3 a1 b "[offer3]" "[]" "XOnRequest 1 8"] unfolding a2_def [symmetric] by (simp add: a1_def a0_def xfer_eval)
  then have "xfer_net pay3 a3 b [offer3] []"
    using net_send [of pay3 a2 b "[offer3]" "[]" "XOnCredit 1 3"] unfolding a3_def [symmetric] by simp
  then have "xfer_net pay3 a4 b [offer3] [chunk3]"
    using net_send [of pay3 a3 b "[offer3]" "[]" "XPump 8"] unfolding a4_def [symmetric]
    by (simp add: a4_def a3_def a2_def a1_def a0_def xfer_eval)
  then show ?thesis unfolding b_def by blast
qed

theorem xfer_end_to_end_witness:
  "\<exists>a b b' acts. xfer_net pay3 a b [offer3] [chunk3] \<and> xfer_step b (XOnChunk chunk3 8) = (b', acts) \<and>
     xfer_act DH_XFER_ACT_DELIVERED 1 \<in> set acts \<and> take 3 (x_rx_buf b') = [97, 98, 99]"
proof -
  obtain a where a: "xfer_net pay3 a (dh_xfer_init [0, 0, 0, 0]) [offer3] [chunk3]" using net3 by blast
  define b where "b = fst (xfer_step (dh_xfer_init [0, 0, 0, 0]) (XOnOffer offer3 8))"
  have n: "xfer_net pay3 a b [offer3] [chunk3]" unfolding b_def by (rule net_receive [OF a]) simp
  obtain b' acts where s: "xfer_step b (XOnChunk chunk3 8) = (b', acts)" by fastforce
  have "xfer_act DH_XFER_ACT_DELIVERED 1 \<in> set (snd (xfer_step b (XOnChunk chunk3 8)))"
    by (simp add: b_def xfer_eval)
  then have d: "xfer_act DH_XFER_ACT_DELIVERED 1 \<in> set acts" by (simp only: s snd_conv)
  have "take (length (pay3 1)) (x_rx_buf b') = pay3 1" by (rule xfer_end_to_end [OF n _ s d]) simp
  then have "take 3 (x_rx_buf b') = [97, 98, 99]" by (simp add: pay3_def numeral_3_eq_3)
  with n s d show ?thesis by blast
qed

section \<open>Delivered once\<close>

fun xfer_acts :: "dh_xfer \<Rightarrow> xfer_op list \<Rightarrow> dh_xfer_action list" where
  "xfer_acts x [] = []"
| "xfer_acts x (op # ops) = snd (xfer_step x op) @ xfer_acts (fst (xfer_step x op)) ops"

text \<open>Neither a boundary of the far end's offer ordering nor an offer newer than \<open>k\<close>.\<close>

fun same_epoch :: "u32 \<Rightarrow> xfer_op \<Rightarrow> bool" where
  "same_epoch k (XOnOffer offer cap) = (\<not> serial_newer (co_id offer) k)"
| "same_epoch k (XOnOfferLazy offer cap) = (\<not> serial_newer (co_id offer) k)"
| "same_epoch k (XLinkDown cap) = False"
| "same_epoch k (XSealReplaced cap) = False"
| "same_epoch k (XSetBuffer buf) = (length buf < 4294967296)"
| "same_epoch k _ = True"

definition settled :: "u32 \<Rightarrow> dh_xfer \<Rightarrow> bool" where
  "settled k x = (\<not> xr_active (x_rx x) \<and> xr_seen_offer (x_rx x) \<and> xr_id (x_rx x) = k)"

lemma settled_step:
  assumes x: "xfer_inv x" and s: "settled k x" and e: "same_epoch k op"
  shows "settled k (fst (xfer_step x op))" and "quiet (snd (xfer_step x op))"
proof -
  have idle: "\<not> xr_active (x_rx x)" using s by (simp add: settled_def)
  have off: "settled k (fst (handle_offer x offer lazy cap))" if "\<not> serial_newer (co_id offer) k" for offer lazy cap
  proof -
    have "\<not> offer_newer x offer" using that s by (simp add: offer_newer_def settled_def)
    then show ?thesis using s by (simp add: handle_offer_other settled_def)
  qed
  have chunk: "dh_xfer_handle_chunk x ch cap = (x, [])" for ch cap using idle by (simp add: dh_xfer_handle_chunk_def Let_def)
  have sweep: "dh_xfer_sweep_rx x cap = (x, [])" for cap using idle by (simp add: dh_xfer_sweep_rx_def Let_def)
  have fin: "fst (dh_xfer_handle_done x tid cap) = x" "quiet (snd (dh_xfer_handle_done x tid cap))" for tid cap
    using idle by (simp_all add: dh_xfer_handle_done_def Let_def)
  have req: "dh_xfer_request_lazy x tid cap = (x, [])" for tid cap using idle by (simp add: dh_xfer_request_lazy_def Let_def)
  have buf: "settled k (fst (dh_xfer_set_rx_buffer x b))" for b using s by (simp add: dh_xfer_set_rx_buffer_def settled_def)
  have can: "settled k (fst (dh_xfer_cancel_rx x cap))" "settled k (fst (dh_xfer_handle_cancel x tid cap))" for cap tid
    using s by (simp_all add: dh_xfer_cancel_rx_def dh_xfer_handle_cancel_def settled_def Let_def tx_reset_def)
  show "settled k (fst (xfer_step x op))"
    using s e off buf can by (cases op) (simp_all add: settled_def tx_ops_rx chunk sweep fin req dh_xfer_handle_offer_def dh_xfer_handle_offer_lazy_def)
  show "quiet (snd (xfer_step x op))"
    using xfer_step_quiet [OF x, of op] chunk fin by (cases op) auto
qed

lemma settled_run:
  "xfer_inv x \<Longrightarrow> settled k x \<Longrightarrow> \<forall>op\<in>set ops. same_epoch k op \<Longrightarrow> quiet (xfer_acts x ops)"
proof (induction ops arbitrary: x)
  case (Cons op ops)
  have "same_epoch k op" using Cons by simp
  moreover from this have "buffer_ok op" by (cases op) simp_all
  ultimately show ?case using Cons settled_step xfer_step_inv by simp
qed simp

lemma delivered_settled:
  assumes x: "xfer_inv x" and s: "xfer_step x op = (x', acts)" and a: "xfer_act DH_XFER_ACT_DELIVERED k \<in> set acts"
  shows "settled k x'"
proof -
  have nq: "\<not> quiet acts" using a unfolding quiet_def list_all_iff by (auto intro!: bexI [OF _ a])
  consider (chunk) ch cap where "op = XOnChunk ch cap" | (fin) tid cap where "op = XOnDone tid cap"
    using xfer_step_quiet [OF x, of op] s nq by auto
  then show ?thesis
  proof cases
    case chunk
    then have e: "dh_xfer_handle_chunk x ch cap = (x', acts)" using s by simp
    have n: "unat (xr_nchunks (x_rx x)) \<le> 65536" if "xr_active (x_rx x)"
      using x that by (simp add: xfer_inv_def rx_live_def)
    from e n show ?thesis
    proof (rule handle_chunk_cases, goal_cases)
      case 5
      have "xr_id (x_rx x) = k" using a 5(5) by (auto simp: emit_def xfer_act_def split: if_splits)
      moreover have "xr_seen_offer (x_rx x)" using xfer_inv_parts(3) [OF x] 5(1) by (simp add: rx_live_def chunk_stored_def)
      ultimately show ?case unfolding 5(4) by (simp add: settled_def rx_store_def Let_def)
    qed (use nq quiet_grant [of "[]"] in \<open>simp_all add: quiet_def list_all_iff\<close>)
  next
    case fin
    then have e: "dh_xfer_handle_done x tid cap = (x', acts)" using s by simp
    have act: "xr_active (x_rx x)"
      using nq e by (cases "xr_active (x_rx x)") (auto simp: dh_xfer_handle_done_def Let_def split: if_splits)
    from xfer_inv_parts(3) [OF x act] e show ?thesis
    proof (cases rule: handle_done_shape)
      case (missing r)
      have "quiet (fst (snd (rx_sweep_range (x_rx x) (xr_nchunks (x_rx x)) True [] cap 0)))"
        unfolding rx_sweep_range_def by (rule quiet_sweep_range) simp
      then have "quiet acts" unfolding missing(4) split_def by (rule quiet_grant)
      with nq show ?thesis by simp
    next
      case complete
      have "tid = k" using a complete(6) by (auto simp: emit_def xfer_act_def split: if_splits)
      then show ?thesis using complete xfer_inv_parts(3) [OF x act] by (simp add: settled_def rx_live_def)
    qed (use nq in simp_all)
  qed
qed

section \<open>Properties\<close>

text \<open>C15. Memory safety of the transfer engine: whatever sequence of operations is applied to it from initialisation
- hostile offers, chunks, credits and requests included - every bitmap keeps its 65536 bits, the receive count is the
number of chunks marked, an accepted transfer fits the buffer chunk by chunk, the retransmit ring stays within its 64
slots and holds distinct chunks that were sent before, and the next identity is never zero.\<close>

theorem xfer_invariant:
  assumes "length buf < 4294967296" and "\<forall>op\<in>set ops. buffer_ok op"
  shows "xfer_inv (xfer_run (dh_xfer_init buf) ops)"
  by (rule xfer_run_inv [OF xfer_init_inv [OF assms(1)] assms(2)])

theorem xfer_invariant_witness:
  "xfer_inv (xfer_run (dh_xfer_init [0, 0, 0, 0]) [XOnOffer offer3 8, XOnChunk chunk3 8, XSetBuffer [0, 0], XLinkDown 1])"
  by (rule xfer_invariant) simp_all

text \<open>C26. A transfer is delivered at most once: after the engine reports \<open>k\<close> delivered, no sequence of operations makes
it report any delivery - repeated offers, late chunks, repeated \<open>done\<close> messages - until an offer newer than \<open>k\<close> arrives or
the far end's ordering ends with the link or the seal.\<close>

theorem xfer_delivers_once:
  assumes "length buf < 4294967296" and "\<forall>op\<in>set ops. buffer_ok op"
    and "xfer_step (xfer_run (dh_xfer_init buf) ops) op = (x, acts)" and "xfer_act DH_XFER_ACT_DELIVERED k \<in> set acts"
    and "\<forall>op\<in>set later. same_epoch k op"
  shows "\<forall>a\<in>set (xfer_acts x later). ac_type a \<noteq> DH_XFER_ACT_DELIVERED"
proof -
  have x0: "xfer_inv (xfer_run (dh_xfer_init buf) ops)"
    by (rule xfer_run_inv [OF xfer_init_inv [OF assms(1)] assms(2)])
  have "buffer_ok op" using assms(3,4) xfer_step_quiet [OF x0, of op] by (cases op) auto
  then have "xfer_inv x" using xfer_step_inv [OF x0, of op] assms(3) by simp
  then have "quiet (xfer_acts x later)"
    using delivered_settled [OF x0 assms(3,4)] assms(5) by (rule settled_run)
  then show ?thesis by (simp add: quiet_def list_all_iff)
qed

theorem xfer_delivers_once_witness:
  "\<exists>x acts. xfer_step (xfer_run (dh_xfer_init [0, 0, 0, 0]) [XOnOffer offer3 8]) (XOnChunk chunk3 8) = (x, acts) \<and>
     xfer_act DH_XFER_ACT_DELIVERED 1 \<in> set acts \<and>
     (\<forall>a\<in>set (xfer_acts x [XOnOffer offer3 8, XOnChunk chunk3 8, XOnDone 1 8]). ac_type a \<noteq> DH_XFER_ACT_DELIVERED)"
proof -
  obtain x acts where s: "xfer_step (xfer_run (dh_xfer_init [0, 0, 0, 0]) [XOnOffer offer3 8]) (XOnChunk chunk3 8) = (x, acts)"
    by fastforce
  have "xfer_act DH_XFER_ACT_DELIVERED 1 \<in>
      set (snd (xfer_step (xfer_run (dh_xfer_init [0, 0, 0, 0]) [XOnOffer offer3 8]) (XOnChunk chunk3 8)))"
    by (simp add: xfer_eval)
  then have d: "xfer_act DH_XFER_ACT_DELIVERED 1 \<in> set acts" by (simp only: s snd_conv)
  have "\<forall>a\<in>set (xfer_acts x [XOnOffer offer3 8, XOnChunk chunk3 8, XOnDone 1 8]). ac_type a \<noteq> DH_XFER_ACT_DELIVERED"
    by (rule xfer_delivers_once [OF _ _ s d]) (simp_all add: serial_newer_def)
  with s d show ?thesis by blast
qed

text \<open>The pump sends exactly what is pending - retransmissions in the order asked for, then new chunks in order -
as far as the credits, the batch of sixteen and the action slots allow, spends one credit a chunk, and says \<open>done\<close> exactly
when it is owed, nothing is pending and a slot is left.\<close>

theorem xfer_pump_exact:
  assumes "length buf < 4294967296" and "\<forall>op\<in>set ops. buffer_ok op" and "x = xfer_run (dh_xfer_init buf) ops"
    and "xt_active (x_tx x)" and "xt_streaming (x_tx x)" and "\<not> xt_lazy_pending (x_tx x)"
    and "dh_xfer_pump x cap = (x', acts)"
    and "k = min (unat (xt_credits (x_tx x))) (min 16 (min (cap - 1) (length (pending (x_tx x)))))"
  shows "acts = map (chunk_act (xt_id (x_tx x))) (take k (pending (x_tx x))) @
      (if xt_need_done (x_tx x) \<and> pending (x_tx x') = [] \<and> k < cap then [xfer_act DH_XFER_ACT_SEND_DONE (xt_id (x_tx x))] else []) \<and>
    pending (x_tx x') = drop k (pending (x_tx x)) \<and> unat (xt_credits (x_tx x')) = unat (xt_credits (x_tx x)) - k \<and>
    (\<forall>seq\<in>set (pending (x_tx x)). seq < xt_nchunks (x_tx x))"
proof -
  have x: "tx_inv (x_tx x)"
    unfolding assms(3) by (rule xfer_inv_parts(1) [OF xfer_run_inv [OF xfer_init_inv [OF assms(1)] assms(2)]])
  note p = pump_shape [OF x assms(7) assms(4-6), folded assms(8)]
  show ?thesis using p(3-5) pending_chunks [OF x] by blast
qed

theorem xfer_pump_exact_witness:
  "\<exists>x' acts. dh_xfer_pump (xfer_run (dh_xfer_init []) [XOffer 0 [] (Some [97, 98, 99]) 3 8, XOnRequest 1 8, XOnCredit 1 3]) 8 =
     (x', acts) \<and> acts = [chunk_act 1 0, xfer_act DH_XFER_ACT_SEND_DONE 1] \<and> unat (xt_credits (x_tx x')) = 2"
proof -
  define ops where "ops = [XOffer 0 [] (Some [97, 98, 99]) 3 8, XOnRequest 1 8, XOnCredit 1 3]"
  define x where "x = xfer_run (dh_xfer_init []) ops"
  have x: "xt_active (x_tx x)" "xt_streaming (x_tx x)" "\<not> xt_lazy_pending (x_tx x)" "xt_need_done (x_tx x)" "xt_id (x_tx x) = 1"
    "xt_credits (x_tx x) = 3" "pending (x_tx x) = [0]"
    by (simp_all add: x_def ops_def xfer_eval pending_def retx_list_def)
  obtain x' acts where p: "dh_xfer_pump x 8 = (x', acts)" by fastforce
  have "acts = [chunk_act 1 0, xfer_act DH_XFER_ACT_SEND_DONE 1] \<and> unat (xt_credits (x_tx x')) = 2"
    using xfer_pump_exact [OF _ _ x_def x(1-3) p refl] x by (simp add: ops_def)
  then show ?thesis using p unfolding x_def ops_def by blast
qed

end
