(* ===== verification/DH_Helper.thy ===== *)
theory DH_Helper
  imports DH_Session
begin

text \<open>
  The helper's side of a session (\<open>src/src/core/dh_helper.h\<close>, \<open>dh_helper.c\<close>): the hello exchange, pairing, liveness,
  the reconnection rates and the states a user is shown. The identity callbacks are fields of the argument
  \<open>I\<close>: \<open>hi_ecdh\<close> is the key agreement the platform performs; what one input draws from \<open>entropy\<close> (a nonce, the
  correlation of a hello, the correlation of a pair request) is the argument \<open>e\<close>. The calls to \<open>payload_fn\<close> are
  returned as a list. An \<open>int32_t\<close> beside a note is the word with the same bits.
\<close>

section \<open>Model\<close>

abbreviation (input) DH_HELPER_CHAIN_SAMPLE_MS :: u32 where "DH_HELPER_CHAIN_SAMPLE_MS \<equiv> 1000"
abbreviation (input) DH_HELPER_CHAIN_MIN_MS :: u32 where "DH_HELPER_CHAIN_MIN_MS \<equiv> 500"
abbreviation (input) DH_HELPER_SILENCE_MS :: u32 where "DH_HELPER_SILENCE_MS \<equiv> 5000"
abbreviation (input) DH_HELPER_HELLO_TIMEOUT_MS :: u32 where "DH_HELPER_HELLO_TIMEOUT_MS \<equiv> 2000"
abbreviation (input) DH_HELPER_RECONNECT_WINDOW_MS :: u32 where "DH_HELPER_RECONNECT_WINDOW_MS \<equiv> 30000"
abbreviation (input) DH_HELPER_RECONNECT_LIMIT :: nat where "DH_HELPER_RECONNECT_LIMIT \<equiv> 4"
abbreviation (input) DH_HELPER_SESSION_LOSS_WINDOW_MS :: u32 where "DH_HELPER_SESSION_LOSS_WINDOW_MS \<equiv> 2700000"
abbreviation (input) DH_HELPER_SESSION_LOSS_LIMIT :: nat where "DH_HELPER_SESSION_LOSS_LIMIT \<equiv> 3"
abbreviation (input) DH_HELPER_DROP_DEBOUNCE_MS :: u32 where "DH_HELPER_DROP_DEBOUNCE_MS \<equiv> 500"
abbreviation (input) DH_HELPER_PAIRING_RETRY_MS :: u32 where "DH_HELPER_PAIRING_RETRY_MS \<equiv> 2000"
abbreviation (input) DH_HELPER_BACKOFF_FIRST_MS :: u32 where "DH_HELPER_BACKOFF_FIRST_MS \<equiv> 250"
abbreviation (input) DH_HELPER_BACKOFF_CAP_MS :: u32 where "DH_HELPER_BACKOFF_CAP_MS \<equiv> 4000"
abbreviation (input) DH_HELPER_FRAME_MAX :: nat where "DH_HELPER_FRAME_MAX \<equiv> 76"
abbreviation (input) DH_HELPER_OUTPUTS_MAX :: nat where "DH_HELPER_OUTPUTS_MAX \<equiv> 16"
abbreviation (input) DH_SESSION_END_LEN :: nat where "DH_SESSION_END_LEN \<equiv> 5"
abbreviation (input) DH_SESSION_END_UNSPECIFIED :: byte where "DH_SESSION_END_UNSPECIFIED \<equiv> 0"
abbreviation (input) DH_SESSION_END_UNPAIRED :: u32 where "DH_SESSION_END_UNPAIRED \<equiv> 3"

datatype dh_helper_state =
  DH_HELPER_QUIET
| DH_HELPER_CONNECTED
| DH_HELPER_RECONNECTING_REPEATEDLY
| DH_HELPER_NOT_PAIRED
| DH_HELPER_DEVICE_IN_CONFIG_MODE
| DH_HELPER_DEVICE_ABSENT
| DH_HELPER_VERSION_INCOMPATIBLE
| DH_HELPER_LISTENER_DETECTED
| DH_HELPER_BOARD_IDENTITY_CHANGED
| DH_HELPER_CONNECTED_CONFIG_MODE

definition dh_helper_prompts_pair_chord :: "dh_helper_state \<Rightarrow> bool" where
  "dh_helper_prompts_pair_chord s = (s = DH_HELPER_NOT_PAIRED)"

definition dh_helper_allows_bulk :: "dh_helper_state \<Rightarrow> bool" where
  "dh_helper_allows_bulk s =
     (s = DH_HELPER_CONNECTED \<or> s = DH_HELPER_CONNECTED_CONFIG_MODE \<or> s = DH_HELPER_RECONNECTING_REPEATEDLY \<or>
      s = DH_HELPER_LISTENER_DETECTED)"

datatype dh_helper_output_kind =
  DH_HELPER_OUT_STORE_BOARD_KEY
| DH_HELPER_OUT_OPEN_CHANNELS
| DH_HELPER_OUT_CLOSE_CHANNELS
| DH_HELPER_OUT_SEND
| DH_HELPER_OUT_STATE
| DH_HELPER_OUT_RETRY
| DH_HELPER_OUT_NOTE
| DH_HELPER_OUT_CLIP_POLICY

datatype dh_helper_note =
  DH_NOTE_NONE
| DH_NOTE_IGNORED_OUTSIDE_SESSION
| DH_NOTE_IGNORED_WRONG_CORRELATION
| DH_NOTE_UNDECODABLE
| DH_NOTE_HELLO_ENCODE_FAILED
| DH_NOTE_ASKING_TO_BE_PAIRED
| DH_NOTE_PARTIAL_ACQUISITION
| DH_NOTE_EVERY_CHANNEL_REFUSED
| DH_NOTE_PROTOCOL_ERROR
| DH_NOTE_NO_SESSION_KEY
| DH_NOTE_TAG_FAILED
| DH_NOTE_COUNTER_REPLAYED
| DH_NOTE_FRAME_DROPPED
| DH_NOTE_NO_BOARD_KEY
| DH_NOTE_NO_STORED_NONCE
| DH_NOTE_ACK_TOO_SHORT
| DH_NOTE_KEY_DERIVATION_FAILED
| DH_NOTE_DEVELOPMENT_BUILD
| DH_NOTE_VERSION_MISMATCH
| DH_NOTE_BOARD_IDENTITY_CHANGED
| DH_NOTE_PAIRED_BY_DEVICE
| DH_NOTE_PAIR_REFUSED
| DH_NOTE_FIRST_BEAT
| DH_NOTE_BEAT_RESUMED
| DH_NOTE_BEAT_QUIET
| DH_NOTE_SESSION_ENDED
| DH_NOTE_LISTENER_DETECTED
| DH_NOTE_NO_ACK
| DH_NOTE_DEVICE_SILENT
| DH_NOTE_TRANSPORT_FAILED
| DH_NOTE_RECONNECTION_RATE
| DH_NOTE_CLIP_POLICY
| DH_NOTE_LOCAL_SENDS
| DH_NOTE_BOARD_AT_END
| DH_NOTE_BOARD_SILENT_FOR
| DH_NOTE_BOARD_SENDS
| DH_NOTE_STREAM_MISALIGNED
| DH_NOTE_BOARD_LOST_AT_END
| DH_NOTE_BOARD_HEARD_BYTES
| DH_NOTE_CHUNK_TAG_TOLERATED

record dh_helper_output =
  ho_kind :: dh_helper_output_kind
  ho_state :: dh_helper_state
  ho_note :: dh_helper_note
  ho_a :: u32
  ho_b :: u32
  ho_bytes :: "byte list"

text \<open>The items in use; \<open>count\<close> is their number.\<close>

record dh_helper_outputs =
  hs_items :: "dh_helper_output list"
  hs_overflow :: nat

record dh_helper_identity =
  hi_public_key :: "byte list"
  hi_key_id :: "byte list"
  hi_os :: byte
  hi_build_type :: byte
  hi_ecdh :: "byte list \<Rightarrow> byte list option"

text \<open>What one input draws from the platform's entropy.\<close>

record helper_draws =
  dr_nonce :: "byte list"
  dr_hello :: "byte list"
  dr_pair :: "byte list"

datatype dh_device_identity = DH_DEVICE_NORMAL | DH_DEVICE_CONFIG_MODE

record dh_helper_negotiated =
  ng_channel_count :: byte
  ng_max_chunk :: u16
  ng_device_build :: byte

datatype dh_helper_phase = DH_HELPER_PHASE_IDLE | DH_HELPER_PHASE_AWAITING_ACK | DH_HELPER_PHASE_LIVE

record dh_helper =
  h_state :: dh_helper_state
  h_negotiated :: dh_helper_negotiated
  h_have_negotiated :: bool
  h_clip_flags :: byte
  h_clip_cap_mb :: byte
  h_have_clip_policy :: bool
  h_device_drops :: dh_device_drops
  h_have_device_drops :: bool
  h_chain_reports_in :: u32
  h_chain_at_ms :: u32
  h_have_chain :: bool
  h_payload_fn :: bool
  h_phase :: dh_helper_phase
  h_reader :: dh_frame_reader
  h_extra_reader :: "dh_frame_reader list"
  h_acquired_channels :: byte
  h_backoff_ms :: u32
  h_hello_sent_at :: u32
  h_last_sent_at :: u32
  h_sends_this_window :: u32
  h_sends_last_window :: u32
  h_send_window_started_at :: u32
  h_sends_total :: u32
  h_sends_refused :: u32
  h_last_device_frame_at :: u32
  h_last_device_beat_at :: u32
  h_have_device_beat :: bool
  h_beat_quiet_noted :: bool
  h_holding_channels :: bool
  h_config_mode :: bool
  h_recent_drops :: "u32 list"
  h_drop_count :: nat
  h_recent_session_losses :: "u32 list"
  h_session_loss_count :: nat
  h_identity_changed_at :: u32
  h_identity_changed :: bool
  h_host_woke_at :: u32
  h_host_asleep :: bool
  h_host_woke :: bool
  h_have_deferred :: bool
  h_deferred_state :: dh_helper_state
  h_deferred_at :: u32
  h_pairing_requested_at :: u32
  h_pairing_requested :: bool
  h_hello_went_unanswered :: bool
  h_started_at :: u32
  h_started :: bool
  h_ever_saw_device :: bool
  h_last_device_identity :: dh_device_identity
  h_board_public_key :: "byte list"
  h_have_board_key :: bool
  h_listener_alert_at :: u32
  h_listener_alert_window_ms :: u32
  h_listener_alert_live :: bool
  h_helper_nonce :: "byte list"
  h_have_nonce :: bool
  h_hello_correlation :: u64
  h_pair_correlation :: u64
  h_k_h2b :: "byte list"
  h_k_b2h :: "byte list"
  h_have_keys :: bool
  h_tx_counter :: u64
  h_rx :: dh_auth_counter

definition dh_helper_can_send_bulk :: "dh_helper \<Rightarrow> bool" where
  "dh_helper_can_send_bulk h = (h_phase h = DH_HELPER_PHASE_LIVE \<and> h_have_negotiated h)"

text \<open>The codes a note carries.\<close>

definition frame_code :: "dh_frame_err \<Rightarrow> u32" where
  "frame_code e =
     (case e of DH_FRAME_AGAIN \<Rightarrow> 1 | DH_FRAME_ERR_OVERSIZE \<Rightarrow> -1 | DH_FRAME_ERR_UNKNOWN_TYPE \<Rightarrow> -2 | DH_FRAME_ERR_BUFFER \<Rightarrow> -3)"

definition auth_code :: "dh_auth_err \<Rightarrow> u32" where
  "auth_code e =
     (case e of DH_AUTH_ERR_SHORT \<Rightarrow> -1 | DH_AUTH_ERR_TAG \<Rightarrow> -2 | DH_AUTH_ERR_COUNTER \<Rightarrow> -3 | DH_AUTH_ERR_BUFFER \<Rightarrow> -4
      | DH_AUTH_ERR_NO_KEY \<Rightarrow> -5)"

definition helper_elapsed :: "u32 \<Rightarrow> u32 \<Rightarrow> u32 \<Rightarrow> bool" where
  "helper_elapsed now since span = (now - since \<ge> span)"

subsection \<open>Outputs\<close>

definition dh_helper_outputs_reset :: "dh_helper_outputs \<Rightarrow> dh_helper_outputs" where
  "dh_helper_outputs_reset out = \<lparr>hs_items = [], hs_overflow = 0\<rparr>"

definition output_zero :: dh_helper_output where
  "output_zero =
     \<lparr>ho_kind = DH_HELPER_OUT_STORE_BOARD_KEY, ho_state = DH_HELPER_QUIET, ho_note = DH_NOTE_NONE, ho_a = 0, ho_b = 0, ho_bytes = []\<rparr>"

text \<open>A slot is taken and filled, or the overflow counted.\<close>

definition out_slot :: "dh_helper_outputs \<Rightarrow> dh_helper_output \<Rightarrow> dh_helper_outputs" where
  "out_slot out item =
     (if length (hs_items out) \<ge> DH_HELPER_OUTPUTS_MAX then out\<lparr>hs_overflow := hs_overflow out + 1\<rparr>
      else out\<lparr>hs_items := hs_items out @ [item]\<rparr>)"

definition out_put :: "dh_helper_outputs \<Rightarrow> dh_helper_output_kind \<Rightarrow> dh_helper_outputs" where
  "out_put out kind = out_slot out (output_zero\<lparr>ho_kind := kind\<rparr>)"

definition put_note :: "dh_helper_outputs \<Rightarrow> dh_helper_note \<Rightarrow> u32 \<Rightarrow> u32 \<Rightarrow> dh_helper_outputs" where
  "put_note out note a b = out_slot out (output_zero\<lparr>ho_kind := DH_HELPER_OUT_NOTE, ho_note := note, ho_a := a, ho_b := b\<rparr>)"

definition put_bytes :: "dh_helper_outputs \<Rightarrow> dh_helper_output_kind \<Rightarrow> byte list \<Rightarrow> dh_helper_outputs" where
  "put_bytes out kind bytes = out_slot out (output_zero\<lparr>ho_kind := kind, ho_bytes := take DH_HELPER_FRAME_MAX bytes\<rparr>)"

definition put_retry :: "dh_helper_outputs \<Rightarrow> u32 \<Rightarrow> dh_helper_outputs" where
  "put_retry out delay = out_slot out (output_zero\<lparr>ho_kind := DH_HELPER_OUT_RETRY, ho_a := delay\<rparr>)"

definition set_state :: "dh_helper \<Rightarrow> dh_helper_outputs \<Rightarrow> dh_helper_state \<Rightarrow> dh_helper \<times> dh_helper_outputs" where
  "set_state h out next =
     (if h_state h = next then (h, out)
      else (h\<lparr>h_state := next\<rparr>, out_slot out (output_zero\<lparr>ho_kind := DH_HELPER_OUT_STATE, ho_state := next\<rparr>)))"

subsection \<open>Backoff and session state\<close>

definition backoff_next :: "dh_helper \<Rightarrow> dh_helper \<times> u32" where
  "backoff_next h =
     (let delay = h_backoff_ms h in
      (h\<lparr>h_backoff_ms := (if delay * 2 > DH_HELPER_BACKOFF_CAP_MS then DH_HELPER_BACKOFF_CAP_MS else delay * 2)\<rparr>, delay))"

definition backoff_reset :: "dh_helper \<Rightarrow> dh_helper" where
  "backoff_reset h = h\<lparr>h_backoff_ms := DH_HELPER_BACKOFF_FIRST_MS\<rparr>"

definition forget_crypto_state :: "dh_helper \<Rightarrow> dh_helper" where
  "forget_crypto_state h =
     h\<lparr>h_k_h2b := replicate DH_SESSION_KEY_SIZE 0, h_k_b2h := replicate DH_SESSION_KEY_SIZE 0,
       h_helper_nonce := replicate DH_NONCE_SIZE 0, h_have_keys := False, h_have_nonce := False,
       h_listener_alert_live := False, h_tx_counter := 0, h_rx := dh_auth_counter_init\<rparr>"

definition sends_in_window :: "dh_helper \<Rightarrow> u32" where
  "sends_in_window h = h_sends_this_window h + h_sends_last_window h"

definition forget_beat_trace :: "dh_helper \<Rightarrow> dh_helper" where
  "forget_beat_trace h = h\<lparr>h_have_device_beat := False, h_beat_quiet_noted := False\<rparr>"

definition forget_session :: "dh_helper \<Rightarrow> dh_helper" where
  "forget_session h =
     forget_crypto_state (forget_beat_trace
       (h\<lparr>h_phase := DH_HELPER_PHASE_IDLE, h_have_negotiated := False, h_have_device_drops := False, h_have_chain := False,
          h_reader := dh_frame_reader_init (h_reader h), h_extra_reader := map dh_frame_reader_init (h_extra_reader h)\<rparr>))"

subsection \<open>The reconnection rate\<close>

definition push_time :: "u32 list \<Rightarrow> nat \<Rightarrow> nat \<Rightarrow> u32 \<Rightarrow> u32 list \<times> nat" where
  "push_time ring count cap now =
     (let (ring, count) = (if count = cap then (blit ring 0 (take (cap - 1) (drop 1 ring)), count - 1) else (ring, count)) in
      (ring[count := now], count + 1))"

definition rate_reached :: "u32 list \<Rightarrow> nat \<Rightarrow> nat \<Rightarrow> u32 \<Rightarrow> u32 \<Rightarrow> bool" where
  "rate_reached ring count need window now = (if count < need then False else now - ring ! 0 \<le> window)"

definition record_drop :: "dh_helper \<Rightarrow> u32 \<Rightarrow> dh_helper \<times> bool" where
  "record_drop h now =
     (if h_host_asleep h \<or> (h_host_woke h \<and> \<not> helper_elapsed now (h_host_woke_at h) DH_HELPER_RECONNECT_WINDOW_MS) then (h, False)
      else if \<not> h_holding_channels h \<and> h_phase h = DH_HELPER_PHASE_IDLE then (h, False)
      else if h_drop_count h > 0 \<and> now - h_recent_drops h ! (h_drop_count h - 1) < DH_HELPER_DROP_DEBOUNCE_MS then (h, False)
      else
        let (ring, count) = push_time (h_recent_drops h) (h_drop_count h) DH_HELPER_RECONNECT_LIMIT now in
        (h\<lparr>h_recent_drops := ring, h_drop_count := count\<rparr>, True))"

definition stands_alone :: "dh_helper \<Rightarrow> u32 \<Rightarrow> bool" where
  "stands_alone h now =
     (if h_drop_count h = 0 then True
      else now - h_recent_drops h ! (h_drop_count h - 1) > DH_HELPER_RECONNECT_WINDOW_MS)"

definition drops_reached :: "dh_helper \<Rightarrow> u32 \<Rightarrow> bool" where
  "drops_reached h now =
     rate_reached (h_recent_drops h) (h_drop_count h) DH_HELPER_RECONNECT_LIMIT DH_HELPER_RECONNECT_WINDOW_MS now"

definition reconnecting_repeatedly :: "dh_helper \<Rightarrow> u32 \<Rightarrow> bool" where
  "reconnecting_repeatedly h now =
     (drops_reached h now \<or>
      rate_reached (h_recent_session_losses h) (h_session_loss_count h) DH_HELPER_SESSION_LOSS_LIMIT
        DH_HELPER_SESSION_LOSS_WINDOW_MS now)"

definition report_repeated_reconnection ::
  "dh_helper \<Rightarrow> u32 \<Rightarrow> dh_helper_outputs \<Rightarrow> dh_helper \<times> dh_helper_outputs" where
  "report_repeated_reconnection h now out =
     (if h_state h = DH_HELPER_RECONNECTING_REPEATEDLY then (h, out)
      else
        let out = (if drops_reached h now
                   then put_note out DH_NOTE_RECONNECTION_RATE (of_nat (h_drop_count h)) (now - h_recent_drops h ! 0)
                   else if h_session_loss_count h > 0
                   then put_note out DH_NOTE_RECONNECTION_RATE (of_nat (h_session_loss_count h)) (now - h_recent_session_losses h ! 0)
                   else out) in
        set_state h out DH_HELPER_RECONNECTING_REPEATEDLY)"

definition ended_on_purpose :: "dh_helper \<Rightarrow> dh_helper_note \<Rightarrow> u32 \<Rightarrow> u32 \<Rightarrow> bool" where
  "ended_on_purpose h note a now =
     (if note = DH_NOTE_SESSION_ENDED \<and> a = DH_SESSION_END_UNPAIRED then True
      else note = DH_NOTE_TRANSPORT_FAILED \<and> h_identity_changed h \<and>
        \<not> helper_elapsed now (h_identity_changed_at h) DH_HELPER_RECONNECT_WINDOW_MS)"

definition unusable_state :: "dh_helper \<Rightarrow> dh_helper_state" where
  "unusable_state h = (if h_config_mode h then DH_HELPER_DEVICE_IN_CONFIG_MODE else DH_HELPER_DEVICE_ABSENT)"

definition drop_connection ::
  "dh_helper \<Rightarrow> u32 \<Rightarrow> dh_helper_outputs \<Rightarrow> dh_helper_note \<Rightarrow> u32 \<Rightarrow> u32 \<Rightarrow> dh_helper \<times> dh_helper_outputs" where
  "drop_connection h now out note a b =
     (let alone = stands_alone h now;
          (h, recorded) = record_drop h now;
          h = (if recorded \<and> alone \<and> \<not> ended_on_purpose h note a now
               then let (ring, count) = push_time (h_recent_session_losses h) (h_session_loss_count h) DH_HELPER_SESSION_LOSS_LIMIT now in
                    h\<lparr>h_recent_session_losses := ring, h_session_loss_count := count\<rparr>
               else h);
          out = (if ct_any (h_rx h)
                 then put_note out DH_NOTE_BOARD_SENDS (ucast (dh_auth_counter_built (h_rx h))) (ucast (dh_auth_counter_missed (h_rx h)))
                 else out);
          h = (forget_session h)\<lparr>h_holding_channels := False, h_have_deferred := True, h_deferred_state := unusable_state h,
                 h_deferred_at := now\<rparr>;
          out = out_put (put_note out note a b) DH_HELPER_OUT_CLOSE_CHANNELS;
          falsified = (h_state h = DH_HELPER_CONNECTED \<or> h_state h = DH_HELPER_CONNECTED_CONFIG_MODE \<or> h_state h = DH_HELPER_QUIET);
          (h, out) = (if falsified \<and> reconnecting_repeatedly h now then report_repeated_reconnection h now out else (h, out));
          (h, delay) = backoff_next h in
      (h, put_retry out delay))"

subsection \<open>The hello and the pair request\<close>

definition fresh_correlation :: "byte list \<Rightarrow> u64" where
  "fresh_correlation bytes = of_le_bytes (take 8 bytes)"

definition build_hello ::
  "dh_helper_identity \<Rightarrow> helper_draws \<Rightarrow> dh_helper \<Rightarrow> nat \<Rightarrow> dh_helper_outputs \<Rightarrow> dh_helper \<times> dh_helper_outputs \<times> byte list option" where
  "build_hello I e h cap out =
     (let nonce = dr_nonce e;
          h = h\<lparr>h_helper_nonce := nonce, h_have_nonce := True, h_hello_correlation := fresh_correlation (dr_hello e)\<rparr> in
      case hi_ecdh I (h_board_public_key h) of
        None \<Rightarrow> (h, put_note out DH_NOTE_KEY_DERIVATION_FAILED 0 0, None)
      | Some shared \<Rightarrow>
          let k_hello = dh_auth_derive_hello_key shared nonce;
              hello = \<lparr>he_proto_version = DH_PROTO_VERSION, he_os = hi_os I, he_build_type = hi_build_type I,
                he_channel_count = (if h_config_mode h then 1 else DH_SESSION_CHANNEL_COUNT), he_max_chunk = DH_SESSION_MAX_CHUNK,
                he_correlation = h_hello_correlation h, he_helper_key_id = hi_key_id I, he_helper_nonce = nonce\<rparr> in
          case dh_hello_encode hello k_hello 0 cap of
            Inl rc \<Rightarrow> (h, put_note out DH_NOTE_HELLO_ENCODE_FAILED (frame_code rc) 0, None)
          | Inr frame \<Rightarrow> (h, out, Some frame))"

definition build_pair_request ::
  "dh_helper_identity \<Rightarrow> helper_draws \<Rightarrow> dh_helper \<Rightarrow> u32 \<Rightarrow> nat \<Rightarrow> dh_helper \<times> byte list option" where
  "build_pair_request I e h now cap =
     (let request = \<lparr>pq_correlation = fresh_correlation (dr_pair e), pq_helper_public = hi_public_key I\<rparr> in
      case dh_pair_request_encode request cap of
        Inl rc \<Rightarrow> (h, None)
      | Inr frame \<Rightarrow>
          (h\<lparr>h_pair_correlation := pq_correlation request, h_pairing_requested := True, h_pairing_requested_at := now,
             h_last_sent_at := now\<rparr>, Some frame))"

subsection \<open>Lifecycle\<close>

definition fresh_frame_reader :: dh_frame_reader where
  "fresh_frame_reader = \<lparr>rd_buf = replicate DH_FRAME_MAX_SIZE 0, rd_have = 0, rd_resyncs = 0\<rparr>"

definition dh_helper_init :: "byte list option \<Rightarrow> dh_helper" where
  "dh_helper_init board_public_key =
     \<lparr>h_state = DH_HELPER_QUIET, h_negotiated = \<lparr>ng_channel_count = 0, ng_max_chunk = 0, ng_device_build = 0\<rparr>,
      h_have_negotiated = False, h_clip_flags = DH_CLIP_MAY_SEND OR DH_CLIP_MAY_RECEIVE, h_clip_cap_mb = 0,
      h_have_clip_policy = False, h_device_drops = zero_drops, h_have_device_drops = False, h_chain_reports_in = 0,
      h_chain_at_ms = 0, h_have_chain = False, h_payload_fn = False, h_phase = DH_HELPER_PHASE_IDLE,
      h_reader = fresh_frame_reader, h_extra_reader = [fresh_frame_reader], h_acquired_channels = 0,
      h_backoff_ms = DH_HELPER_BACKOFF_FIRST_MS, h_hello_sent_at = 0, h_last_sent_at = 0, h_sends_this_window = 0,
      h_sends_last_window = 0, h_send_window_started_at = 0, h_sends_total = 0, h_sends_refused = 0, h_last_device_frame_at = 0,
      h_last_device_beat_at = 0, h_have_device_beat = False, h_beat_quiet_noted = False, h_holding_channels = False,
      h_config_mode = False, h_recent_drops = replicate DH_HELPER_RECONNECT_LIMIT 0, h_drop_count = 0,
      h_recent_session_losses = replicate DH_HELPER_SESSION_LOSS_LIMIT 0, h_session_loss_count = 0, h_identity_changed_at = 0,
      h_identity_changed = False, h_host_woke_at = 0, h_host_asleep = False, h_host_woke = False, h_have_deferred = False,
      h_deferred_state = DH_HELPER_QUIET, h_deferred_at = 0, h_pairing_requested_at = 0, h_pairing_requested = False,
      h_hello_went_unanswered = False, h_started_at = 0, h_started = False, h_ever_saw_device = False,
      h_last_device_identity = DH_DEVICE_NORMAL,
      h_board_public_key = (case board_public_key of None \<Rightarrow> replicate DH_P256_PUBLIC_SIZE 0 | Some k \<Rightarrow> k),
      h_have_board_key = (board_public_key \<noteq> None), h_listener_alert_at = 0, h_listener_alert_window_ms = 0,
      h_listener_alert_live = False, h_helper_nonce = replicate DH_NONCE_SIZE 0, h_have_nonce = False, h_hello_correlation = 0,
      h_pair_correlation = 0, h_k_h2b = replicate DH_SESSION_KEY_SIZE 0, h_k_b2h = replicate DH_SESSION_KEY_SIZE 0,
      h_have_keys = False, h_tx_counter = 0, h_rx = dh_auth_counter_init\<rparr>"

definition dh_helper_device_drops :: "dh_helper \<Rightarrow> dh_device_drops option" where
  "dh_helper_device_drops h = (if h_have_device_drops h then Some (h_device_drops h) else None)"

definition dh_helper_set_payload_sink :: "dh_helper \<Rightarrow> bool \<Rightarrow> dh_helper" where
  "dh_helper_set_payload_sink h fn = h\<lparr>h_payload_fn := fn\<rparr>"

definition dh_helper_clip_cap_mb :: "dh_helper \<Rightarrow> byte" where
  "dh_helper_clip_cap_mb h = dh_clip_cap_mb (h_clip_cap_mb h)"

definition dh_helper_clip_flags :: "dh_helper \<Rightarrow> byte" where
  "dh_helper_clip_flags h = h_clip_flags h"

definition dh_helper_may_send_clip :: "dh_helper \<Rightarrow> bool" where
  "dh_helper_may_send_clip h = (h_clip_flags h AND DH_CLIP_MAY_SEND \<noteq> 0)"

definition dh_helper_may_receive_clip :: "dh_helper \<Rightarrow> bool" where
  "dh_helper_may_receive_clip h = (h_clip_flags h AND DH_CLIP_MAY_RECEIVE \<noteq> 0)"

definition note_started :: "dh_helper \<Rightarrow> u32 \<Rightarrow> dh_helper" where
  "note_started h now = (if h_started h then h else h\<lparr>h_started := True, h_started_at := now\<rparr>)"

definition device_left ::
  "dh_helper \<Rightarrow> dh_helper_state \<Rightarrow> u32 \<Rightarrow> dh_helper_outputs \<Rightarrow> dh_helper \<times> dh_helper_outputs" where
  "device_left h reason now out =
     (let (h, _) = record_drop h now;
          h = (forget_session (h\<lparr>h_session_loss_count := 0\<rparr>))
                \<lparr>h_have_deferred := True, h_deferred_state := reason, h_deferred_at := now\<rparr> in
      if h_holding_channels h then (h\<lparr>h_holding_channels := False\<rparr>, out_put out DH_HELPER_OUT_CLOSE_CHANNELS) else (h, out))"

definition dh_helper_device_appeared ::
  "dh_helper \<Rightarrow> dh_device_identity \<Rightarrow> u32 \<Rightarrow> dh_helper_outputs \<Rightarrow> dh_helper \<times> dh_helper_outputs" where
  "dh_helper_device_appeared h which now out =
     (let h = note_started h now;
          mode_changed = (h_ever_saw_device h \<and> h_last_device_identity h \<noteq> which);
          h = h\<lparr>h_ever_saw_device := True, h_last_device_identity := which\<rparr> in
      if which = DH_DEVICE_CONFIG_MODE \<and> h_config_mode h \<and> h_holding_channels h then (h, out)
      else
        let (h, out) = (if which = DH_DEVICE_CONFIG_MODE \<or> h_config_mode h
                        then device_left h DH_HELPER_DEVICE_IN_CONFIG_MODE now out else (h, out));
            h = h\<lparr>h_config_mode := (which = DH_DEVICE_CONFIG_MODE)\<rparr>;
            h = (if mode_changed then h\<lparr>h_drop_count := 0, h_identity_changed := True, h_identity_changed_at := now\<rparr> else h) in
        if h_config_mode h then (backoff_reset h, out_put out DH_HELPER_OUT_OPEN_CHANNELS)
        else
          let h = backoff_reset (h\<lparr>h_have_deferred := False\<rparr>);
              (h, out) = (if h_state h = DH_HELPER_DEVICE_ABSENT \<or> h_state h = DH_HELPER_DEVICE_IN_CONFIG_MODE \<or>
                             h_state h = DH_HELPER_CONNECTED_CONFIG_MODE
                          then set_state h out DH_HELPER_QUIET else (h, out)) in
          (h, out_put out DH_HELPER_OUT_OPEN_CHANNELS))"

definition dh_helper_host_sleep :: "dh_helper \<Rightarrow> bool \<Rightarrow> u32 \<Rightarrow> dh_helper" where
  "dh_helper_host_sleep h asleep now =
     (let h = (if h_host_asleep h \<and> \<not> asleep then h\<lparr>h_host_woke := True, h_host_woke_at := now\<rparr> else h) in
      h\<lparr>h_host_asleep := asleep\<rparr>)"

definition dh_helper_device_disappeared :: "dh_helper \<Rightarrow> u32 \<Rightarrow> dh_helper_outputs \<Rightarrow> dh_helper \<times> dh_helper_outputs" where
  "dh_helper_device_disappeared h now out =
     (let (h, out) = device_left (note_started h now) DH_HELPER_DEVICE_ABSENT now out in
      (h\<lparr>h_config_mode := False\<rparr>, out))"

subsection \<open>Acquisition\<close>

definition dh_helper_acquisition_refused ::
  "dh_helper \<Rightarrow> byte \<Rightarrow> byte \<Rightarrow> u32 \<Rightarrow> dh_helper_outputs \<Rightarrow> dh_helper \<times> dh_helper_outputs" where
  "dh_helper_acquisition_refused h acquired of_n now out =
     (let h = (forget_session (note_started h now))\<lparr>h_holding_channels := False\<rparr>;
          h = (if h_have_deferred h then h
               else h\<lparr>h_have_deferred := True, h_deferred_state := unusable_state h, h_deferred_at := now\<rparr>);
          out = out_put out DH_HELPER_OUT_CLOSE_CHANNELS;
          out = (if acquired > 0 then put_note out DH_NOTE_PARTIAL_ACQUISITION (ucast acquired) (ucast of_n)
                 else put_note out DH_NOTE_EVERY_CHANNEL_REFUSED 0 0);
          (h, delay) = backoff_next h in
      (h, put_retry out delay))"

definition dh_helper_channels_acquired ::
  "dh_helper_identity \<Rightarrow> helper_draws \<Rightarrow> dh_helper \<Rightarrow> byte \<Rightarrow> u32 \<Rightarrow> dh_helper_outputs \<Rightarrow> dh_helper \<times> dh_helper_outputs" where
  "dh_helper_channels_acquired I e h count now out =
     (let h = (note_started ((forget_session h)\<lparr>h_acquired_channels := count\<rparr>) now)\<lparr>h_holding_channels := True\<rparr> in
      if \<not> h_have_board_key h then
        let h = (backoff_reset h)\<lparr>h_have_deferred := False, h_phase := DH_HELPER_PHASE_LIVE, h_last_device_frame_at := now\<rparr>;
            (h, out) = set_state h out DH_HELPER_NOT_PAIRED;
            (h, request) = build_pair_request I e h now DH_HELPER_FRAME_MAX in
        case request of None \<Rightarrow> (h, out) | Some frame \<Rightarrow> (h, put_bytes out DH_HELPER_OUT_SEND frame)
      else
        let h = h\<lparr>h_phase := DH_HELPER_PHASE_AWAITING_ACK, h_hello_sent_at := now, h_last_sent_at := now, h_last_device_frame_at := now\<rparr>;
            (h, out, hello) = build_hello I e h DH_HELPER_FRAME_MAX out in
        case hello of
          None \<Rightarrow> dh_helper_acquisition_refused h 0 0 now out
        | Some frame \<Rightarrow>
            let h = h\<lparr>h_have_deferred := False\<rparr>;
                out = put_bytes out DH_HELPER_OUT_SEND frame in
            if h_state h = DH_HELPER_RECONNECTING_REPEATEDLY \<and> h_hello_went_unanswered h then
              (case build_pair_request I e h now DH_HELPER_FRAME_MAX of
                 (h, None) \<Rightarrow> (h, out)
               | (h, Some frame) \<Rightarrow> (h, put_bytes (put_note out DH_NOTE_ASKING_TO_BE_PAIRED 0 0) DH_HELPER_OUT_SEND frame))
            else (h, out))"

subsection \<open>Answers to a hello\<close>

definition peek_board_nonce :: "dh_frame_view \<Rightarrow> byte list option" where
  "peek_board_nonce f =
     (let need = DH_FRAME_AUTH_PREFIX_SIZE + DH_HELLO_ACK_LEN in
      if unat (fh_len (fv_hdr f)) < need then None
      else Some (take DH_NONCE_SIZE (drop (DH_FRAME_AUTH_PREFIX_SIZE + (DH_HELLO_ACK_LEN - DH_NONCE_SIZE)) (fv_payload f))))"

definition view_type :: "dh_frame_view \<Rightarrow> u32" where
  "view_type f = ucast (fh_type (fv_hdr f))"

definition connected_state :: "dh_helper \<Rightarrow> dh_helper_state" where
  "connected_state h = (if h_config_mode h then DH_HELPER_CONNECTED_CONFIG_MODE else DH_HELPER_CONNECTED)"

text \<open>The part of \<open>on_hello_ack\<close> that commits a verified acknowledgement.\<close>

definition ack_commit ::
  "dh_helper \<Rightarrow> byte list \<Rightarrow> byte list \<Rightarrow> dh_auth_counter \<Rightarrow> dh_hello_ack \<Rightarrow> u32 \<Rightarrow> dh_helper_outputs \<Rightarrow> dh_helper \<times> dh_helper_outputs" where
  "ack_commit h k_h2b k_b2h rx ack now out =
     (let h = backoff_reset (h\<lparr>h_k_h2b := k_h2b, h_k_b2h := k_b2h, h_have_keys := True, h_rx := rx, h_tx_counter := 0\<rparr>);
          h = h\<lparr>h_phase := DH_HELPER_PHASE_LIVE, h_last_device_frame_at := now,
                h_negotiated := \<lparr>ng_channel_count = ha_channel_count ack, ng_max_chunk = ha_max_chunk ack, ng_device_build = ha_build_type ack\<rparr>,
                h_have_negotiated := True, h_hello_went_unanswered := False\<rparr>;
          out = (if ha_build_type ack = DH_BUILD_DEVELOPMENT then put_note out DH_NOTE_DEVELOPMENT_BUILD 0 0 else out) in
      if reconnecting_repeatedly h now then report_repeated_reconnection h now out
      else set_state h out (connected_state h))"

definition on_hello_ack ::
  "dh_helper_identity \<Rightarrow> dh_helper \<Rightarrow> dh_frame_view \<Rightarrow> u32 \<Rightarrow> dh_helper_outputs \<Rightarrow> dh_helper \<times> dh_helper_outputs" where
  "on_hello_ack I h f now out =
     (if h_phase h \<noteq> DH_HELPER_PHASE_AWAITING_ACK then (h, put_note out DH_NOTE_IGNORED_OUTSIDE_SESSION (view_type f) 0)
      else if \<not> h_have_board_key h then drop_connection h now out DH_NOTE_NO_BOARD_KEY 0 0
      else if \<not> h_have_nonce h then drop_connection h now out DH_NOTE_NO_STORED_NONCE 0 0
      else
        case peek_board_nonce f of
          None \<Rightarrow> drop_connection h now out DH_NOTE_ACK_TOO_SHORT (ucast (fh_len (fv_hdr f))) 0
        | Some board_nonce \<Rightarrow>
            (case hi_ecdh I (h_board_public_key h) of
               None \<Rightarrow> drop_connection h now out DH_NOTE_KEY_DERIVATION_FAILED 0 0
             | Some shared \<Rightarrow>
                 let (k_h2b, k_b2h) = dh_auth_derive_session_keys shared (h_helper_nonce h) board_nonce;
                     (rx, rc) = dh_auth_open k_b2h (fv_hdr f) (fv_payload f) dh_auth_counter_init in
                 case rc of
                   Inl _ \<Rightarrow> drop_connection h now out DH_NOTE_TAG_FAILED (view_type f) 0
                 | Inr body \<Rightarrow>
                     (case dh_hello_ack_decode body of
                        None \<Rightarrow> drop_connection h now out DH_NOTE_UNDECODABLE (view_type f) 0
                      | Some ack \<Rightarrow>
                          if ha_correlation ack \<noteq> h_hello_correlation h
                          then (h, put_note out DH_NOTE_IGNORED_WRONG_CORRELATION (view_type f) 0)
                          else if ha_channel_count ack = 0 \<or> ha_channel_count ack > DH_SESSION_CHANNEL_COUNT \<or>
                                  ha_channel_count ack > h_acquired_channels h
                          then drop_connection h now out DH_NOTE_PARTIAL_ACQUISITION (ucast (h_acquired_channels h)) (ucast (ha_channel_count ack))
                          else ack_commit h k_h2b k_b2h rx ack now out)))"

definition on_hello_refused ::
  "dh_helper \<Rightarrow> dh_frame_view \<Rightarrow> u32 \<Rightarrow> dh_helper_outputs \<Rightarrow> dh_helper \<times> dh_helper_outputs" where
  "on_hello_refused h f now out =
     (if h_phase h \<noteq> DH_HELPER_PHASE_AWAITING_ACK then (h, put_note out DH_NOTE_IGNORED_OUTSIDE_SESSION (view_type f) 0)
      else
        case dh_hello_refused_decode (view_payload f) of
          None \<Rightarrow> drop_connection h now out DH_NOTE_UNDECODABLE (view_type f) 0
        | Some refused \<Rightarrow>
            if hr_status refused \<noteq> DH_HELLO_REFUSED_UNPAIRED \<and> hr_status refused \<noteq> DH_HELLO_REFUSED_VERSION_INCOMPATIBLE
            then drop_connection h now out DH_NOTE_UNDECODABLE (view_type f) 0
            else if hr_correlation refused \<noteq> h_hello_correlation h
            then (h, put_note out DH_NOTE_IGNORED_WRONG_CORRELATION (view_type f) 0)
            else
              let h = backoff_reset h in
              if hr_status refused = DH_HELLO_REFUSED_UNPAIRED then
                let h = h\<lparr>h_phase := DH_HELPER_PHASE_LIVE, h_have_negotiated := False, h_pairing_requested := False\<rparr> in
                set_state (forget_crypto_state (forget_beat_trace h)) out DH_HELPER_NOT_PAIRED
              else
                let out = put_note out DH_NOTE_VERSION_MISMATCH (ucast (hr_proto_version refused)) (ucast DH_PROTO_VERSION) in
                set_state (forget_session h) out DH_HELPER_VERSION_INCOMPATIBLE)"

subsection \<open>Pairing\<close>

definition on_pair_grant ::
  "dh_helper_identity \<Rightarrow> helper_draws \<Rightarrow> dh_helper \<Rightarrow> dh_frame_view \<Rightarrow> u32 \<Rightarrow> dh_helper_outputs \<Rightarrow> dh_helper \<times> dh_helper_outputs" where
  "on_pair_grant I e h f now out =
     (if h_phase h = DH_HELPER_PHASE_IDLE \<or> \<not> h_pairing_requested h
      then (h, put_note out DH_NOTE_IGNORED_OUTSIDE_SESSION (view_type f) 0)
      else
        case dh_pair_grant_decode (view_payload f) of
          None \<Rightarrow> (h, put_note out DH_NOTE_UNDECODABLE (view_type f) 0)
        | Some grant \<Rightarrow>
            if pg_correlation grant \<noteq> h_pair_correlation h
            then (h, put_note out DH_NOTE_IGNORED_WRONG_CORRELATION (view_type f) 0)
            else if h_have_board_key h \<and> h_board_public_key h \<noteq> pg_board_public grant
            then set_state (h\<lparr>h_pairing_requested := False\<rparr>) (put_note out DH_NOTE_BOARD_IDENTITY_CHANGED 0 0)
              DH_HELPER_BOARD_IDENTITY_CHANGED
            else
              let previous = h_board_public_key h; had_key = h_have_board_key h in
              case build_hello I e (h\<lparr>h_board_public_key := pg_board_public grant, h_have_board_key := True\<rparr>) DH_HELPER_FRAME_MAX out of
                (h, out, None) \<Rightarrow> (h\<lparr>h_board_public_key := previous, h_have_board_key := had_key\<rparr>, out)
              | (h, out, Some frame) \<Rightarrow>
                  (h\<lparr>h_pairing_requested := False, h_hello_sent_at := now, h_last_sent_at := now, h_phase := DH_HELPER_PHASE_AWAITING_ACK\<rparr>,
                   put_bytes (put_note (put_bytes out DH_HELPER_OUT_STORE_BOARD_KEY (pg_board_public grant)) DH_NOTE_PAIRED_BY_DEVICE 0 0)
                     DH_HELPER_OUT_SEND frame))"

definition on_pair_refused :: "dh_helper \<Rightarrow> dh_frame_view \<Rightarrow> dh_helper_outputs \<Rightarrow> dh_helper \<times> dh_helper_outputs" where
  "on_pair_refused h f out =
     (if h_phase h = DH_HELPER_PHASE_IDLE then (h, put_note out DH_NOTE_IGNORED_OUTSIDE_SESSION (view_type f) 0)
      else
        case dh_pair_refused_decode (view_payload f) of
          None \<Rightarrow> (h, put_note out DH_NOTE_UNDECODABLE (view_type f) 0)
        | Some refused \<Rightarrow>
            if pf_reason refused \<noteq> DH_PAIR_REFUSED_NO_WINDOW \<and> pf_reason refused \<noteq> DH_PAIR_REFUSED_ALREADY_REGISTERED
            then (h, put_note out DH_NOTE_UNDECODABLE (view_type f) 0)
            else if pf_correlation refused \<noteq> h_pair_correlation h
            then (h, put_note out DH_NOTE_IGNORED_WRONG_CORRELATION (view_type f) 0)
            else (h, put_note out DH_NOTE_PAIR_REFUSED (ucast (pf_reason refused)) 0))"

subsection \<open>Session traffic\<close>

definition on_device_beat ::
  "dh_helper \<Rightarrow> dh_frame_view \<Rightarrow> u32 \<Rightarrow> dh_helper_outputs \<Rightarrow> dh_helper \<times> dh_helper_outputs" where
  "on_device_beat h f now out =
     (if h_phase h = DH_HELPER_PHASE_IDLE then (h, put_note out DH_NOTE_IGNORED_OUTSIDE_SESSION (view_type f) 0)
      else
        let last = h_last_device_beat_at h; had = h_have_device_beat h;
            h = h\<lparr>h_last_device_beat_at := now, h_have_device_beat := True\<rparr> in
        if \<not> had then (h, put_note out DH_NOTE_FIRST_BEAT 0 0)
        else if \<not> h_beat_quiet_noted h then (h, out)
        else (h\<lparr>h_beat_quiet_noted := False\<rparr>, put_note out DH_NOTE_BEAT_RESUMED (now - last) 0))"

text \<open>The readings \<open>on_session_end\<close> quotes before the session they belong to is forgotten.\<close>

definition end_readings :: "dh_helper \<Rightarrow> byte list \<Rightarrow> byte \<Rightarrow> u32 \<Rightarrow> dh_helper_outputs \<Rightarrow> dh_helper_outputs" where
  "end_readings h body reason now out =
     (let out = (if reason = DH_SESSION_END_LIVENESS_TIMEOUT \<and> length body \<ge> DH_SESSION_END_LEN
                 then put_note out DH_NOTE_BOARD_SILENT_FOR (rd_u32 (drop 1 body)) 0 else out);
          out = (if h_have_device_drops h then
                   let out = put_note out DH_NOTE_BOARD_AT_END (dd_frames_in (h_device_drops h)) (dd_reports_in (h_device_drops h));
                       out = put_note out DH_NOTE_BOARD_LOST_AT_END (dd_reports (h_device_drops h)) (dd_inbound (h_device_drops h)) in
                   if h_have_chain h \<and> now - h_chain_at_ms h \<ge> DH_HELPER_CHAIN_MIN_MS
                   then put_note out DH_NOTE_BOARD_HEARD_BYTES (dd_reports_in (h_device_drops h) - h_chain_reports_in h) (now - h_chain_at_ms h)
                   else out
                 else out) in
      put_note out DH_NOTE_LOCAL_SENDS (h_sends_total h) (h_sends_refused h))"

definition on_session_end ::
  "dh_helper \<Rightarrow> dh_frame_view \<Rightarrow> byte list \<Rightarrow> u32 \<Rightarrow> dh_helper_outputs \<Rightarrow> dh_helper \<times> dh_helper_outputs" where
  "on_session_end h f body now out =
     (if h_phase h = DH_HELPER_PHASE_IDLE then (h, put_note out DH_NOTE_IGNORED_OUTSIDE_SESSION (view_type f) 0)
      else
        let reason = (if length body > 0 then body ! 0 else DH_SESSION_END_UNSPECIFIED) in
        drop_connection h now (end_readings h body reason now out) DH_NOTE_SESSION_ENDED (ucast reason) (sends_in_window h))"

definition on_clip_policy ::
  "dh_helper \<Rightarrow> dh_frame_view \<Rightarrow> byte list \<Rightarrow> dh_helper_outputs \<Rightarrow> dh_helper \<times> dh_helper_outputs" where
  "on_clip_policy h f body out =
     (case dh_clip_policy_decode body of
        None \<Rightarrow> (h, put_note out DH_NOTE_UNDECODABLE (view_type f) 0)
      | Some (flags, cap_mb) \<Rightarrow>
          let h = h\<lparr>h_clip_flags := flags, h_clip_cap_mb := dh_clip_cap_mb cap_mb, h_have_clip_policy := True\<rparr>;
              out = out_slot out (output_zero\<lparr>ho_kind := DH_HELPER_OUT_CLIP_POLICY, ho_a := ucast flags, ho_b := ucast (h_clip_cap_mb h)\<rparr>) in
          (h, put_note out DH_NOTE_CLIP_POLICY (ucast flags) (ucast (h_clip_cap_mb h))))"

definition on_device_drops ::
  "dh_helper \<Rightarrow> dh_frame_view \<Rightarrow> byte list \<Rightarrow> dh_helper_outputs \<Rightarrow> dh_helper \<times> dh_helper_outputs" where
  "on_device_drops h f body out =
     (case dh_device_drops_decode body of
        None \<Rightarrow> (h, put_note out DH_NOTE_UNDECODABLE (view_type f) 0)
      | Some drops \<Rightarrow> (h\<lparr>h_device_drops := drops, h_have_device_drops := True\<rparr>, out))"

definition on_listener_alert ::
  "dh_helper \<Rightarrow> dh_frame_view \<Rightarrow> byte list \<Rightarrow> u32 \<Rightarrow> dh_helper_outputs \<Rightarrow> dh_helper \<times> dh_helper_outputs" where
  "on_listener_alert h f body now out =
     (case dh_listener_alert_decode body of
        None \<Rightarrow> (h, put_note out DH_NOTE_UNDECODABLE (view_type f) 0)
      | Some alert \<Rightarrow>
          set_state (h\<lparr>h_listener_alert_at := now, h_listener_alert_window_ms := la_window_ms alert, h_listener_alert_live := True\<rparr>)
            (put_note out DH_NOTE_LISTENER_DETECTED (la_refused alert) (la_window_ms alert)) DH_HELPER_LISTENER_DETECTED)"

subsection \<open>Dispatch\<close>

text \<open>What \<open>on_authenticated\<close> does with a body it has verified; the third component is the calls to the sink.\<close>

definition on_verified ::
  "dh_helper \<Rightarrow> dh_frame_view \<Rightarrow> byte list \<Rightarrow> u32 \<Rightarrow> dh_helper_outputs \<Rightarrow> dh_helper \<times> dh_helper_outputs \<times> (byte \<times> byte list) list" where
  "on_verified h f body now out =
     (let t = fh_type (fv_hdr f);
          h = h\<lparr>h_last_device_frame_at := now\<rparr>;
          h = (if h_have_device_beat h \<and> t \<noteq> DH_MSG_DEVICE_HEARTBEAT
               then h\<lparr>h_last_device_beat_at := now, h_beat_quiet_noted := False\<rparr> else h) in
      if t = DH_MSG_SESSION_END then (let (h, out) = on_session_end h f body now out in (h, out, []))
      else if t = DH_MSG_DEVICE_HEARTBEAT then (let (h, out) = on_device_beat h f now out in (h, out, []))
      else if t = DH_MSG_LISTENER_ALERT then (let (h, out) = on_listener_alert h f body now out in (h, out, []))
      else if t = DH_MSG_CLIP_POLICY then (let (h, out) = on_clip_policy h f body out in (h, out, []))
      else if t = DH_MSG_DEVICE_DROPS then (let (h, out) = on_device_drops h f body out in (h, out, []))
      else (h, out, if h_payload_fn h then [(t, body)] else []))"

definition on_authenticated ::
  "dh_helper_identity \<Rightarrow> dh_helper \<Rightarrow> dh_frame_view \<Rightarrow> u32 \<Rightarrow> dh_helper_outputs \<Rightarrow>
     dh_helper \<times> dh_helper_outputs \<times> (byte \<times> byte list) list" where
  "on_authenticated I h f now out =
     (if fh_type (fv_hdr f) = DH_MSG_HELLO_ACK then (let (h, out) = on_hello_ack I h f now out in (h, out, []))
      else if \<not> h_have_keys h then (h, put_note out DH_NOTE_NO_SESSION_KEY (view_type f) 0, [])
      else
        let (rx, rc) = dh_auth_open (h_k_b2h h) (fv_hdr f) (fv_payload f) (h_rx h);
            h = h\<lparr>h_rx := rx\<rparr> in
        case rc of
          Inl DH_AUTH_ERR_TAG \<Rightarrow>
            if fh_type (fv_hdr f) = DH_MSG_CLIP_CHUNK then (h, put_note out DH_NOTE_CHUNK_TAG_TOLERATED (view_type f) 0, [])
            else (let (h, out) = drop_connection h now out DH_NOTE_TAG_FAILED (view_type f) 0 in (h, out, []))
        | Inl DH_AUTH_ERR_COUNTER \<Rightarrow> (h, put_note out DH_NOTE_COUNTER_REPLAYED (view_type f) 0, [])
        | Inl err \<Rightarrow> (h, put_note out DH_NOTE_FRAME_DROPPED (view_type f) (auth_code err), [])
        | Inr body \<Rightarrow> on_verified h f body now out)"

definition on_unauthenticated ::
  "dh_helper_identity \<Rightarrow> helper_draws \<Rightarrow> dh_helper \<Rightarrow> dh_frame_view \<Rightarrow> u32 \<Rightarrow> dh_helper_outputs \<Rightarrow> dh_helper \<times> dh_helper_outputs" where
  "on_unauthenticated I e h f now out =
     (let t = fh_type (fv_hdr f) in
      if t = DH_MSG_HELLO_REFUSED then on_hello_refused h f now out
      else if t = DH_MSG_PAIR_GRANT then on_pair_grant I e h f now out
      else if t = DH_MSG_PAIR_REFUSED then on_pair_refused h f out
      else (h, out))"

definition helper_reader :: "dh_helper \<Rightarrow> byte \<Rightarrow> dh_frame_reader" where
  "helper_reader h channel = (if channel = 0 then h_reader h else h_extra_reader h ! (unat channel - 1))"

definition set_helper_reader :: "dh_helper \<Rightarrow> byte \<Rightarrow> dh_frame_reader \<Rightarrow> dh_helper" where
  "set_helper_reader h channel r =
     (if channel = 0 then h\<lparr>h_reader := r\<rparr> else h\<lparr>h_extra_reader := (h_extra_reader h)[unat channel - 1 := r]\<rparr>)"

definition dh_helper_received_channel ::
  "dh_helper_identity \<Rightarrow> helper_draws \<Rightarrow> dh_helper \<Rightarrow> byte \<Rightarrow> byte list \<Rightarrow> u32 \<Rightarrow> dh_helper_outputs \<Rightarrow>
     dh_helper \<times> dh_helper_outputs \<times> (byte \<times> byte list) list" where
  "dh_helper_received_channel I e h channel data now out =
     (if channel \<ge> DH_SESSION_CHANNEL_COUNT \<or>
         (channel > 0 \<and> (\<not> h_have_negotiated h \<or> channel \<ge> ng_channel_count (h_negotiated h)))
      then (h, out, [])
      else
        let h = note_started h now;
            resyncs = rd_resyncs (helper_reader h channel);
            (r, rc) = dh_frame_reader_report (helper_reader h channel) data;
            h = set_helper_reader h channel r;
            out = (if rd_resyncs r \<noteq> resyncs then put_note out DH_NOTE_STREAM_MISALIGNED (rd_resyncs r) 0 else out) in
        case rc of
          Inl DH_FRAME_AGAIN \<Rightarrow> (h, out, [])
        | Inl err \<Rightarrow> (let (h, out) = drop_connection h now out DH_NOTE_PROTOCOL_ERROR (frame_code err) 0 in (h, out, []))
        | Inr f \<Rightarrow>
            if dh_msg_is_authenticated (fh_type (fv_hdr f)) then on_authenticated I h f now out
            else (let (h, out) = on_unauthenticated I e h f now out in (h, out, [])))"

definition dh_helper_received ::
  "dh_helper_identity \<Rightarrow> helper_draws \<Rightarrow> dh_helper \<Rightarrow> byte list \<Rightarrow> u32 \<Rightarrow> dh_helper_outputs \<Rightarrow>
     dh_helper \<times> dh_helper_outputs \<times> (byte \<times> byte list) list" where
  "dh_helper_received I e h data now out = dh_helper_received_channel I e h 0 data now out"

definition dh_helper_transport_failed :: "dh_helper \<Rightarrow> u32 \<Rightarrow> dh_helper_outputs \<Rightarrow> dh_helper \<times> dh_helper_outputs" where
  "dh_helper_transport_failed h now out = drop_connection (note_started h now) now out DH_NOTE_TRANSPORT_FAILED 0 0"

definition dh_helper_emit ::
  "dh_helper \<Rightarrow> byte \<Rightarrow> byte \<Rightarrow> byte list \<Rightarrow> nat \<Rightarrow> dh_helper \<times> (byte list) dh_frame_result" where
  "dh_helper_emit h t flags body cap =
     (if \<not> dh_helper_can_send_bulk h \<or> \<not> h_have_keys h then (h, Inl DH_FRAME_ERR_UNKNOWN_TYPE)
      else
        case dh_auth_frame t flags (h_k_h2b h) (h_tx_counter h) body cap of
          Inl e \<Rightarrow> (h, Inl e)
        | Inr frame \<Rightarrow> (h\<lparr>h_tx_counter := h_tx_counter h + 1\<rparr>, Inr frame))"

definition dh_helper_note_sent :: "dh_helper \<Rightarrow> u32 \<Rightarrow> dh_helper" where
  "dh_helper_note_sent h now =
     (let h = (note_started h now)\<lparr>h_last_sent_at := now\<rparr>;
          h = (if helper_elapsed now (h_send_window_started_at h) DH_SESSION_ABSENT_MS
               then h\<lparr>h_sends_last_window := h_sends_this_window h, h_sends_this_window := 0, h_send_window_started_at := now\<rparr> else h) in
      h\<lparr>h_sends_this_window := sat_inc (h_sends_this_window h), h_sends_total := sat_inc (h_sends_total h)\<rparr>)"

definition dh_helper_note_send_refused :: "dh_helper \<Rightarrow> dh_helper" where
  "dh_helper_note_send_refused h = h\<lparr>h_sends_refused := sat_inc (h_sends_refused h)\<rparr>"

subsection \<open>Tick\<close>

definition tick_windows :: "dh_helper \<Rightarrow> u32 \<Rightarrow> dh_helper" where
  "tick_windows h now =
     (let h = (if h_identity_changed h \<and> helper_elapsed now (h_identity_changed_at h) DH_HELPER_RECONNECT_WINDOW_MS
               then h\<lparr>h_identity_changed := False\<rparr> else h) in
      if h_host_woke h \<and> helper_elapsed now (h_host_woke_at h) DH_HELPER_RECONNECT_WINDOW_MS then h\<lparr>h_host_woke := False\<rparr> else h)"

definition tick_deferred :: "dh_helper \<Rightarrow> u32 \<Rightarrow> dh_helper_outputs \<Rightarrow> dh_helper \<times> dh_helper_outputs" where
  "tick_deferred h now out =
     (if h_have_deferred h then
        if helper_elapsed now (h_deferred_at h) DH_HELPER_SILENCE_MS
        then set_state (h\<lparr>h_have_deferred := False\<rparr>) out (h_deferred_state h) else (h, out)
      else if \<not> h_ever_saw_device h \<and> helper_elapsed now (h_started_at h) DH_HELPER_SILENCE_MS
      then set_state h out DH_HELPER_DEVICE_ABSENT else (h, out))"

text \<open>The live part of the tick behind the liveness check: states that age out, the beat trace, the heartbeat
  and the repeated pair request.\<close>

definition tick_aged :: "dh_helper \<Rightarrow> u32 \<Rightarrow> dh_helper_outputs \<Rightarrow> dh_helper \<times> dh_helper_outputs" where
  "tick_aged h now out =
     (let (h, out) = (if h_state h = DH_HELPER_RECONNECTING_REPEATEDLY \<and> h_have_negotiated h \<and> \<not> reconnecting_repeatedly h now
                      then set_state h out (connected_state h) else (h, out));
          (h, out) = (if h_state h = DH_HELPER_LISTENER_DETECTED \<and> h_have_negotiated h \<and> h_listener_alert_live h \<and>
                         helper_elapsed now (h_listener_alert_at h) (h_listener_alert_window_ms h)
                      then set_state (h\<lparr>h_listener_alert_live := False\<rparr>) out (connected_state h) else (h, out)) in
      if h_have_negotiated h \<and> h_have_device_beat h \<and> \<not> h_beat_quiet_noted h \<and>
         helper_elapsed now (h_last_device_beat_at h) DH_SESSION_ABSENT_MS
      then (h\<lparr>h_beat_quiet_noted := True\<rparr>, put_note out DH_NOTE_BEAT_QUIET (now - h_last_device_beat_at h) 0)
      else (h, out))"

definition tick_beat :: "dh_helper \<Rightarrow> u32 \<Rightarrow> dh_helper_outputs \<Rightarrow> dh_helper \<times> dh_helper_outputs" where
  "tick_beat h now out =
     (if h_have_keys h \<and> helper_elapsed now (h_last_sent_at h) DH_SESSION_HEARTBEAT_MS then
        (case dh_auth_frame DH_MSG_HEARTBEAT 0 (h_k_h2b h) (h_tx_counter h) [] DH_HELPER_FRAME_MAX of
           Inl _ \<Rightarrow> (h, out)
         | Inr frame \<Rightarrow> (h\<lparr>h_tx_counter := h_tx_counter h + 1\<rparr>, put_bytes out DH_HELPER_OUT_SEND frame))
      else (h, out))"

definition tick_pair ::
  "dh_helper_identity \<Rightarrow> helper_draws \<Rightarrow> dh_helper \<Rightarrow> u32 \<Rightarrow> dh_helper_outputs \<Rightarrow> dh_helper \<times> dh_helper_outputs" where
  "tick_pair I e h now out =
     (if h_state h = DH_HELPER_NOT_PAIRED \<and>
         (\<not> h_pairing_requested h \<or> helper_elapsed now (h_pairing_requested_at h) DH_HELPER_PAIRING_RETRY_MS)
      then (case build_pair_request I e h now DH_HELPER_FRAME_MAX of
              (h, None) \<Rightarrow> (h, out)
            | (h, Some frame) \<Rightarrow> (h, put_bytes out DH_HELPER_OUT_SEND frame))
      else (h, out))"

definition dh_helper_tick ::
  "dh_helper_identity \<Rightarrow> helper_draws \<Rightarrow> dh_helper \<Rightarrow> u32 \<Rightarrow> dh_helper_outputs \<Rightarrow> dh_helper \<times> dh_helper_outputs" where
  "dh_helper_tick I e h now out =
     (let (h, out) = tick_deferred (tick_windows (note_started h now) now) now out in
      if h_phase h = DH_HELPER_PHASE_AWAITING_ACK then
        if helper_elapsed now (h_hello_sent_at h) DH_HELPER_HELLO_TIMEOUT_MS
        then drop_connection (h\<lparr>h_hello_went_unanswered := True\<rparr>) now out DH_NOTE_NO_ACK DH_HELPER_HELLO_TIMEOUT_MS 0
        else (h, out)
      else if h_phase h \<noteq> DH_HELPER_PHASE_LIVE then (h, out)
      else
        let h = (if h_have_device_drops h \<and> (\<not> h_have_chain h \<or> helper_elapsed now (h_chain_at_ms h) DH_HELPER_CHAIN_SAMPLE_MS)
                 then h\<lparr>h_chain_reports_in := dd_reports_in (h_device_drops h), h_chain_at_ms := now, h_have_chain := True\<rparr> else h) in
        if h_have_negotiated h \<and> helper_elapsed now (h_last_device_frame_at h) DH_SESSION_ABSENT_MS
        then drop_connection h now out DH_NOTE_DEVICE_SILENT DH_SESSION_ABSENT_MS 0
        else
          let (h, out) = tick_aged h now out;
              (h, out) = tick_beat h now out in
          tick_pair I e h now out)"

end
