(* ===== verification/DH_Helper_Out.thy ===== *)
theory DH_Helper_Out
  imports DH_Helper
begin

text \<open>
  The inputs of the helper as one step function, and what every step puts out: the parts of the state each handler leaves
  alone, a calculus of growing outputs (\<open>grows\<close>, \<open>goes\<close>) with a lemma per handler, and from it the bound on the outputs
  of one input and the counters of the frames over a run.
\<close>

section \<open>Inputs and runs\<close>

text \<open>Every input of the helper and the calls around a frame it got out.\<close>

datatype helper_op =
  HAppeared dh_device_identity u32
| HDisappeared u32
| HSleep bool u32
| HAcquired helper_draws byte u32
| HRefused byte byte u32
| HReceived helper_draws byte "byte list" u32
| HTransportFailed u32
| HEmit byte byte "byte list" nat
| HNoteSent u32
| HNoteRefused
| HTick helper_draws u32
| HSetSink bool

definition no_outputs :: dh_helper_outputs where
  "no_outputs = \<lparr>hs_items = [], hs_overflow = 0\<rparr>"

text \<open>One input on fresh outputs: the new state, the outputs and the bodies handed to the sink. The frame
  \<open>dh_helper_emit\<close> builds is reported as an output to send.\<close>

fun helper_step :: "dh_helper_identity \<Rightarrow> helper_op \<Rightarrow> dh_helper \<Rightarrow> dh_helper \<times> dh_helper_outputs \<times> (byte \<times> byte list) list" where
  "helper_step I (HAppeared which now) h = (let (h, out) = dh_helper_device_appeared h which now no_outputs in (h, out, []))"
| "helper_step I (HDisappeared now) h = (let (h, out) = dh_helper_device_disappeared h now no_outputs in (h, out, []))"
| "helper_step I (HSleep asleep now) h = (dh_helper_host_sleep h asleep now, no_outputs, [])"
| "helper_step I (HAcquired e count now) h = (let (h, out) = dh_helper_channels_acquired I e h count now no_outputs in (h, out, []))"
| "helper_step I (HRefused acquired of_n now) h = (let (h, out) = dh_helper_acquisition_refused h acquired of_n now no_outputs in (h, out, []))"
| "helper_step I (HReceived e channel data now) h = dh_helper_received_channel I e h channel data now no_outputs"
| "helper_step I (HTransportFailed now) h = (let (h, out) = dh_helper_transport_failed h now no_outputs in (h, out, []))"
| "helper_step I (HEmit t flags body cap) h =
     (case dh_helper_emit h t flags body cap of
        (h, Inl _) \<Rightarrow> (h, no_outputs, [])
      | (h, Inr frame) \<Rightarrow> (h, out_slot no_outputs (output_zero\<lparr>ho_kind := DH_HELPER_OUT_SEND, ho_bytes := frame\<rparr>), []))"
| "helper_step I (HNoteSent now) h = (dh_helper_note_sent h now, no_outputs, [])"
| "helper_step I HNoteRefused h = (dh_helper_note_send_refused h, no_outputs, [])"
| "helper_step I (HTick e now) h = (let (h, out) = dh_helper_tick I e h now no_outputs in (h, out, []))"
| "helper_step I (HSetSink fn) h = (dh_helper_set_payload_sink h fn, no_outputs, [])"

text \<open>A run of inputs: the last state and everything that was put out, in order.\<close>

fun helper_run :: "dh_helper_identity \<Rightarrow> helper_op list \<Rightarrow> dh_helper \<Rightarrow> dh_helper \<times> dh_helper_output list" where
  "helper_run I [] h = (h, [])"
| "helper_run I (op # ops) h =
     (let (h, out, calls) = helper_step I op h; (h, items) = helper_run I ops h in (h, hs_items out @ items))"

section \<open>What each part leaves alone\<close>

text \<open>The pinned key; the session keys with the counter that belongs to them.\<close>

definition pin :: "dh_helper \<Rightarrow> bool \<times> byte list" where
  "pin h = (h_have_board_key h, h_board_public_key h)"

definition keys :: "dh_helper \<Rightarrow> bool \<times> byte list \<times> byte list \<times> u64" where
  "keys h = (h_have_keys h, h_k_h2b h, h_k_b2h h, h_tx_counter h)"

definition no_keys :: "bool \<times> byte list \<times> byte list \<times> u64" where
  "no_keys = (False, replicate 32 0, replicate 32 0, 0)"

lemmas part_defs = pin_def keys_def no_keys_def

lemma set_state_parts [simp]:
  "pin (fst (set_state h out s)) = pin h" "keys (fst (set_state h out s)) = keys h" "h_phase (fst (set_state h out s)) = h_phase h"
  "h_have_keys (fst (set_state h out s)) = h_have_keys h" "h_tx_counter (fst (set_state h out s)) = h_tx_counter h"
  by (simp_all add: set_state_def part_defs)

lemma forget_session_parts [simp]:
  "pin (forget_session h) = pin h" "keys (forget_session h) = no_keys" "h_phase (forget_session h) = DH_HELPER_PHASE_IDLE"
  by (simp_all add: forget_session_def forget_crypto_state_def forget_beat_trace_def part_defs)

lemma record_drop_parts [simp]:
  "pin (fst (record_drop h now)) = pin h" "keys (fst (record_drop h now)) = keys h"
  by (simp_all add: record_drop_def split_def part_defs Let_def)

lemma report_repeated_parts [simp]:
  "pin (fst (report_repeated_reconnection h now out)) = pin h" "keys (fst (report_repeated_reconnection h now out)) = keys h"
  "h_phase (fst (report_repeated_reconnection h now out)) = h_phase h"
  by (simp_all add: report_repeated_reconnection_def Let_def)

lemma pin_fields [simp]:
  "pin (h\<lparr>h_phase := p\<rparr>) = pin h" "pin (h\<lparr>h_backoff_ms := b\<rparr>) = pin h" "pin (h\<lparr>h_have_deferred := d\<rparr>) = pin h"
  "pin (h\<lparr>h_rx := r\<rparr>) = pin h" "pin (h\<lparr>h_config_mode := c\<rparr>) = pin h" "pin (h\<lparr>h_pairing_requested := q\<rparr>) = pin h"
  by (simp_all add: pin_def)

lemma drop_connection_parts [simp]:
  "pin (fst (drop_connection h now out note a b)) = pin h"
  "keys (fst (drop_connection h now out note a b)) = no_keys"
  "h_phase (fst (drop_connection h now out note a b)) = DH_HELPER_PHASE_IDLE"
proof -
  define h1 where "h1 = fst (record_drop h now)"
  define h2 where "h2 = (if snd (record_drop h now) \<and> stands_alone h now \<and> \<not> ended_on_purpose h1 note a now
      then h1\<lparr>h_recent_session_losses := fst (push_time (h_recent_session_losses h1) (h_session_loss_count h1) 3 now),
        h_session_loss_count := snd (push_time (h_recent_session_losses h1) (h_session_loss_count h1) 3 now)\<rparr> else h1)"
  define h3 where "h3 = (forget_session h2)\<lparr>h_holding_channels := False, h_have_deferred := True, h_deferred_state := unusable_state h2, h_deferred_at := now\<rparr>"
  have h2: "pin h2 = pin h" using record_drop_parts(1) [of h now] by (simp add: h2_def h1_def pin_def)
  have h3: "pin h3 = pin h" "keys h3 = no_keys" "h_phase h3 = DH_HELPER_PHASE_IDLE"
    using forget_session_parts [of h2] h2 by (simp_all add: h3_def part_defs)
  have "\<exists>out'. fst (drop_connection h now out note a b) =
     fst (backoff_next (fst (if (h_state h3 = DH_HELPER_CONNECTED \<or> h_state h3 = DH_HELPER_CONNECTED_CONFIG_MODE \<or> h_state h3 = DH_HELPER_QUIET) \<and>
        reconnecting_repeatedly h3 now then report_repeated_reconnection h3 now out' else (h3, out'))))"
    unfolding drop_connection_def Let_def split_def h1_def [symmetric] h2_def [symmetric] h3_def [symmetric] by (auto simp: fst_def)
  then show "pin (fst (drop_connection h now out note a b)) = pin h" "keys (fst (drop_connection h now out note a b)) = no_keys"
    "h_phase (fst (drop_connection h now out note a b)) = DH_HELPER_PHASE_IDLE"
    using h3 by (auto simp: backoff_next_def Let_def part_defs) (auto simp: pin_def keys_def report_repeated_reconnection_def set_state_def no_keys_def Let_def split: if_splits)
qed

lemma small_parts [simp]:
  "pin (note_started h now) = pin h" "keys (note_started h now) = keys h" "h_phase (note_started h now) = h_phase h"
  "pin (backoff_reset h) = pin h" "keys (backoff_reset h) = keys h" "h_phase (backoff_reset h) = h_phase h"
  "pin (fst (backoff_next h)) = pin h" "keys (fst (backoff_next h)) = keys h"
  "pin (forget_beat_trace h) = pin h" "pin (forget_crypto_state h) = pin h" "keys (forget_crypto_state h) = no_keys"
  "pin (set_helper_reader h ch r) = pin h" "keys (set_helper_reader h ch r) = keys h" "h_phase (set_helper_reader h ch r) = h_phase h"
  by (simp_all add: note_started_def backoff_reset_def backoff_next_def Let_def forget_beat_trace_def forget_crypto_state_def
      set_helper_reader_def part_defs)

lemma device_left_parts [simp]:
  "pin (fst (device_left h reason now out)) = pin h" "keys (fst (device_left h reason now out)) = no_keys"
proof -
  define h1 where "h1 = fst (record_drop h now)"
  have "pin h1 = pin h" by (simp add: h1_def)
  then show "pin (fst (device_left h reason now out)) = pin h" "keys (fst (device_left h reason now out)) = no_keys"
    using forget_session_parts [of "h1\<lparr>h_session_loss_count := 0\<rparr>"]
    by (simp_all add: device_left_def Let_def split_def h1_def [symmetric] part_defs)
qed

lemma device_appeared_parts [simp]:
  "pin (fst (dh_helper_device_appeared h which now out)) = pin h"
  "keys (fst (dh_helper_device_appeared h which now out)) \<in> {keys h, no_keys}"
proof -
  define h0 where "h0 = (note_started h now)\<lparr>h_ever_saw_device := True, h_last_device_identity := which\<rparr>"
  define g where "g = (if which = DH_DEVICE_CONFIG_MODE \<or> h_config_mode h0
                        then device_left h0 DH_HELPER_DEVICE_IN_CONFIG_MODE now out else (h0, out))"
  have h0: "pin h0 = pin h" "keys h0 = keys h"
    using small_parts(1,2) [of h now] by (simp_all add: h0_def part_defs)
  have g: "pin (fst g) = pin h" "keys (fst g) \<in> {keys h, no_keys}" using h0 by (simp_all add: g_def)
  have f: "pin (h\<lparr>h_drop_count := d, h_identity_changed := i, h_identity_changed_at := n\<rparr>) = pin h"
    "keys (h\<lparr>h_drop_count := d, h_identity_changed := i, h_identity_changed_at := n\<rparr>) = keys h"
    "keys (h\<lparr>h_config_mode := c\<rparr>) = keys h" "keys (h\<lparr>h_have_deferred := b\<rparr>) = keys h" for h d i n c b
    by (simp_all add: part_defs)
  show "pin (fst (dh_helper_device_appeared h which now out)) = pin h"
    "keys (fst (dh_helper_device_appeared h which now out)) \<in> {keys h, no_keys}"
    unfolding dh_helper_device_appeared_def Let_def split_def h0_def [symmetric] g_def [symmetric]
    using h0 g by (simp_all add: f)
qed

lemma device_disappeared_parts [simp]:
  "pin (fst (dh_helper_device_disappeared h now out)) = pin h" "keys (fst (dh_helper_device_disappeared h now out)) = no_keys"
  using device_left_parts [of "note_started h now" DH_HELPER_DEVICE_ABSENT now out]
  by (simp_all add: dh_helper_device_disappeared_def Let_def split_def part_defs note_started_def)

lemma acquisition_refused_parts [simp]:
  "pin (fst (dh_helper_acquisition_refused h a b now out)) = pin h" "keys (fst (dh_helper_acquisition_refused h a b now out)) = no_keys"
  using forget_session_parts [of "note_started h now"]
  by (simp_all add: dh_helper_acquisition_refused_def Let_def split_def part_defs note_started_def backoff_next_def)

lemma build_hello_parts [simp]:
  "pin (fst (build_hello I e h cap out)) = pin h" "keys (fst (build_hello I e h cap out)) = keys h"
  "h_phase (fst (build_hello I e h cap out)) = h_phase h"
  by (simp_all add: build_hello_def Let_def part_defs split: option.splits sum.splits)

lemma build_pair_request_parts [simp]:
  "pin (fst (build_pair_request I e h now cap)) = pin h" "keys (fst (build_pair_request I e h now cap)) = keys h"
  by (simp_all add: build_pair_request_def Let_def part_defs split: sum.splits)

lemma channels_acquired_parts [simp]:
  "pin (fst (dh_helper_channels_acquired I e h count now out)) = pin h"
  "keys (fst (dh_helper_channels_acquired I e h count now out)) = no_keys"
proof -
  define h0 where "h0 = (note_started ((forget_session h)\<lparr>h_acquired_channels := count\<rparr>) now)\<lparr>h_holding_channels := True\<rparr>"
  have h0: "pin h0 = pin h" "keys h0 = no_keys"
    using forget_session_parts [of h] by (simp_all add: h0_def part_defs note_started_def)
  define h1 where "h1 = h0\<lparr>h_phase := DH_HELPER_PHASE_AWAITING_ACK, h_hello_sent_at := now, h_last_sent_at := now, h_last_device_frame_at := now\<rparr>"
  define h2 where "h2 = (backoff_reset h0)\<lparr>h_have_deferred := False, h_phase := DH_HELPER_PHASE_LIVE, h_last_device_frame_at := now\<rparr>"
  have p: "pin h1 = pin h" "keys h1 = no_keys" "pin h2 = pin h" "keys h2 = no_keys"
    using h0 by (simp_all add: h1_def h2_def part_defs backoff_reset_def)
  have f: "keys (h\<lparr>h_have_deferred := b\<rparr>) = keys h" for h b by (simp add: keys_def)
  show "pin (fst (dh_helper_channels_acquired I e h count now out)) = pin h"
    "keys (fst (dh_helper_channels_acquired I e h count now out)) = no_keys"
    unfolding dh_helper_channels_acquired_def Let_def split_def h0_def [symmetric] h1_def [symmetric] h2_def [symmetric]
    using p by (simp_all add: f split: option.splits)
qed

text \<open>What a committed acknowledgement proves: the board that holds the other half of the pinned key tagged it under
  keys derived from this helper's own nonce, for this helper's own hello.\<close>

definition ack_proves :: "dh_helper_identity \<Rightarrow> dh_helper \<Rightarrow> dh_frame_view \<Rightarrow> byte list \<Rightarrow> byte list \<Rightarrow> bool" where
  "ack_proves I h f k_h2b k_b2h =
     (fh_type (fv_hdr f) = DH_MSG_HELLO_ACK \<and> h_phase h = DH_HELPER_PHASE_AWAITING_ACK \<and> h_have_board_key h \<and> h_have_nonce h \<and>
      (\<exists>shared board_nonce body ack.
        hi_ecdh I (h_board_public_key h) = Some shared \<and> peek_board_nonce f = Some board_nonce \<and>
        dh_auth_derive_session_keys shared (h_helper_nonce h) board_nonce = (k_h2b, k_b2h) \<and>
        snd (dh_auth_open k_b2h (fv_hdr f) (fv_payload f) dh_auth_counter_init) = Inr body \<and>
        dh_hello_ack_decode body = Some ack \<and> ha_correlation ack = h_hello_correlation h \<and>
        0 < ha_channel_count ack \<and> ha_channel_count ack \<le> h_acquired_channels h))"

lemma ack_commit_parts [simp]:
  "pin (fst (ack_commit h k_h2b k_b2h rx ack now out)) = pin h"
  "keys (fst (ack_commit h k_h2b k_b2h rx ack now out)) = (True, k_h2b, k_b2h, 0)"
  "h_phase (fst (ack_commit h k_h2b k_b2h rx ack now out)) = DH_HELPER_PHASE_LIVE"
proof -
  define h1 where "h1 = (backoff_reset (h\<lparr>h_k_h2b := k_h2b, h_k_b2h := k_b2h, h_have_keys := True, h_rx := rx, h_tx_counter := 0\<rparr>))
    \<lparr>h_phase := DH_HELPER_PHASE_LIVE, h_last_device_frame_at := now,
     h_negotiated := \<lparr>ng_channel_count = ha_channel_count ack, ng_max_chunk = ha_max_chunk ack, ng_device_build = ha_build_type ack\<rparr>,
     h_have_negotiated := True, h_hello_went_unanswered := False\<rparr>"
  have "pin h1 = pin h" "keys h1 = (True, k_h2b, k_b2h, 0)" "h_phase h1 = DH_HELPER_PHASE_LIVE"
    by (simp_all add: h1_def part_defs backoff_reset_def)
  then show "pin (fst (ack_commit h k_h2b k_b2h rx ack now out)) = pin h"
    "keys (fst (ack_commit h k_h2b k_b2h rx ack now out)) = (True, k_h2b, k_b2h, 0)"
    "h_phase (fst (ack_commit h k_h2b k_b2h rx ack now out)) = DH_HELPER_PHASE_LIVE"
    unfolding ack_commit_def Let_def h1_def [symmetric] by simp_all
qed

lemma on_hello_ack_pin [simp]: "pin (fst (on_hello_ack I h f now out)) = pin h"
  unfolding on_hello_ack_def Let_def split_def by (simp split: option.split sum.split)

lemma on_hello_ack_keys:
  assumes "fh_type (fv_hdr f) = DH_MSG_HELLO_ACK"
  shows "keys (fst (on_hello_ack I h f now out)) \<in> {keys h, no_keys} \<or>
    (\<exists>k_h2b k_b2h. keys (fst (on_hello_ack I h f now out)) = (True, k_h2b, k_b2h, 0) \<and> ack_proves I h f k_h2b k_b2h)"
proof (cases "h_phase h = DH_HELPER_PHASE_AWAITING_ACK \<and> h_have_board_key h \<and> h_have_nonce h")
  case True
  show ?thesis
  proof (cases "peek_board_nonce f")
    case (Some board_nonce)
    show ?thesis
    proof (cases "hi_ecdh I (h_board_public_key h)")
      case e: (Some shared)
      obtain k_h2b k_b2h where k: "dh_auth_derive_session_keys shared (h_helper_nonce h) board_nonce = (k_h2b, k_b2h)" by fastforce
      obtain rx rc where op: "dh_auth_open k_b2h (fv_hdr f) (fv_payload f) dh_auth_counter_init = (rx, rc)" by fastforce
      show ?thesis
      proof (cases "\<exists>body ack. rc = Inr body \<and> dh_hello_ack_decode body = Some ack \<and> ha_correlation ack = h_hello_correlation h \<and>
          \<not> (ha_channel_count ack = 0 \<or> ha_channel_count ack > 2 \<or> ha_channel_count ack > h_acquired_channels h)")
        case c: True
        then obtain body ack where b: "rc = Inr body" "dh_hello_ack_decode body = Some ack" "ha_correlation ack = h_hello_correlation h"
          "\<not> (ha_channel_count ack = 0 \<or> ha_channel_count ack > 2 \<or> ha_channel_count ack > h_acquired_channels h)" by blast
        have "on_hello_ack I h f now out = ack_commit h k_h2b k_b2h rx ack now out"
          using True Some e k op b by (simp add: on_hello_ack_def)
        moreover have "ack_proves I h f k_h2b k_b2h"
          using True Some e k op b assms unfolding ack_proves_def by (auto simp: word_gt_0)
        ultimately show ?thesis by auto
      next
        case False
        then show ?thesis using True Some e k op
          unfolding on_hello_ack_def Let_def by (auto split: option.split sum.split)
      qed
    qed (use True Some in \<open>simp add: on_hello_ack_def\<close>)
  qed (use True in \<open>simp add: on_hello_ack_def\<close>)
qed (auto simp: on_hello_ack_def)

lemma on_hello_refused_parts [simp]:
  "pin (fst (on_hello_refused h f now out)) = pin h" "keys (fst (on_hello_refused h f now out)) \<in> {keys h, no_keys}"
  unfolding on_hello_refused_def Let_def by (simp_all split: option.split) (auto simp: part_defs backoff_reset_def)

lemma on_pair_refused_same [simp]: "fst (on_pair_refused h f out) = h"
  by (simp add: on_pair_refused_def split: option.split)

lemma on_pair_grant_keys [simp]: "keys (fst (on_pair_grant I e h f now out)) = keys h"
proof -
  have k: "keys (h\<lparr>h_board_public_key := p, h_have_board_key := b\<rparr>) = keys h"
    "keys (h\<lparr>h_pairing_requested := q, h_hello_sent_at := n, h_last_sent_at := l, h_phase := s\<rparr>) = keys h"
    "keys (h\<lparr>h_pairing_requested := q\<rparr>) = keys h" for h p b q n l s by (simp_all add: keys_def)
  show ?thesis
  proof (cases "dh_pair_grant_decode (view_payload f)")
    case (Some grant)
    obtain h1 o1 r where b: "build_hello I e (h\<lparr>h_board_public_key := pg_board_public grant, h_have_board_key := True\<rparr>) 76 out = (h1, o1, r)"
      by (metis prod_cases3)
    have "keys h1 = keys h"
      using build_hello_parts(2) [of I e "h\<lparr>h_board_public_key := pg_board_public grant, h_have_board_key := True\<rparr>" 76 out] b k by simp
    then show ?thesis using Some by (simp add: on_pair_grant_def Let_def b k split: option.split)
  qed (simp add: on_pair_grant_def)
qed

text \<open>The key pinned, when a grant pins one.\<close>

lemma on_pair_grant_pin:
  "pin (fst (on_pair_grant I e h f now out)) = pin h \<or>
   (\<exists>grant. dh_pair_grant_decode (view_payload f) = Some grant \<and> pg_correlation grant = h_pair_correlation h \<and>
      h_pairing_requested h \<and> h_phase h \<noteq> DH_HELPER_PHASE_IDLE \<and> \<not> h_have_board_key h \<and>
      pin (fst (on_pair_grant I e h f now out)) = (True, pg_board_public grant))"
proof (cases "h_phase h = DH_HELPER_PHASE_IDLE \<or> \<not> h_pairing_requested h")
  case False
  show ?thesis
  proof (cases "dh_pair_grant_decode (view_payload f)")
    case (Some grant)
    define g where "g = h\<lparr>h_board_public_key := pg_board_public grant, h_have_board_key := True\<rparr>"
    obtain h1 o1 r where b: "build_hello I e g 76 out = (h1, o1, r)" by (metis prod_cases3)
    have h1: "pin h1 = (True, pg_board_public grant)"
      using build_hello_parts(1) [of I e g 76 out] b by (simp add: g_def pin_def)
    consider "pg_correlation grant \<noteq> h_pair_correlation h" | "pg_correlation grant = h_pair_correlation h" "h_have_board_key h" "h_board_public_key h \<noteq> pg_board_public grant"
      | "pg_correlation grant = h_pair_correlation h" "\<not> (h_have_board_key h \<and> h_board_public_key h \<noteq> pg_board_public grant)" by blast
    then show ?thesis
    proof cases
      case 3
      then have e: "on_pair_grant I e h f now out = (case (h1, o1, r) of (h', out, None) \<Rightarrow>
            (h'\<lparr>h_board_public_key := h_board_public_key h, h_have_board_key := h_have_board_key h\<rparr>, out)
          | (h', out, Some frame) \<Rightarrow> (h'\<lparr>h_pairing_requested := False, h_hello_sent_at := now, h_last_sent_at := now, h_phase := DH_HELPER_PHASE_AWAITING_ACK\<rparr>,
                   put_bytes (put_note (put_bytes out DH_HELPER_OUT_STORE_BOARD_KEY (pg_board_public grant)) DH_NOTE_PAIRED_BY_DEVICE 0 0)
                     DH_HELPER_OUT_SEND frame))"
        using False Some by (simp only: on_pair_grant_def Let_def g_def [symmetric] b if_False option.case simp_thms if_True)
      show ?thesis
      proof (cases r)
        case None
        then show ?thesis using e by (simp add: pin_def)
      next
        case (Some frame)
        then have p: "pin (fst (on_pair_grant I e h f now out)) = (True, pg_board_public grant)" using e h1 by (simp add: pin_def)
        show ?thesis
        proof (cases "h_have_board_key h")
          case True
          then have "pin h = (True, pg_board_public grant)" using 3 by (simp add: pin_def)
          with p show ?thesis by simp
        qed (use p 3 False \<open>dh_pair_grant_decode (view_payload f) = Some grant\<close> in auto)
      qed
    qed (use False Some in \<open>simp_all add: on_pair_grant_def\<close>)
  qed (use False in \<open>simp add: on_pair_grant_def\<close>)
qed (simp add: on_pair_grant_def)

section \<open>Outputs\<close>

text \<open>The frames among some outputs, and how outputs grow: by at most \<open>n\<close> items, of which the frames are \<open>fs\<close>, with
  nothing lost while there is room.\<close>

definition sent_of :: "dh_helper_output list \<Rightarrow> byte list list" where
  "sent_of xs = map ho_bytes (filter (\<lambda>x. ho_kind x = DH_HELPER_OUT_SEND) xs)"

lemma sent_of_simps [simp]:
  "sent_of [] = []" "sent_of (xs @ ys) = sent_of xs @ sent_of ys"
  "sent_of (x # xs) = (if ho_kind x = DH_HELPER_OUT_SEND then [ho_bytes x] else []) @ sent_of xs"
  by (simp_all add: sent_of_def)

definition grows :: "nat \<Rightarrow> byte list list \<Rightarrow> dh_helper_outputs \<Rightarrow> dh_helper_outputs \<Rightarrow> bool" where
  "grows n fs a b =
     (length (hs_items a) + n \<le> 16 \<longrightarrow>
       hs_overflow b = hs_overflow a \<and> (\<exists>xs. hs_items b = hs_items a @ xs \<and> length xs \<le> n \<and> sent_of xs = fs))"

lemma grows_refl: "grows n [] a a"
  by (simp add: grows_def)

lemma grows_trans:
  assumes "grows n fs a b" and "grows m gs b c" and "n + m \<le> k"
  shows "grows k (fs @ gs) a c"
  unfolding grows_def
proof
  assume k: "length (hs_items a) + k \<le> 16"
  then obtain xs where xs: "hs_overflow b = hs_overflow a" "hs_items b = hs_items a @ xs" "length xs \<le> n" "sent_of xs = fs"
    using assms(1,3) by (auto simp: grows_def)
  then obtain ys where ys: "hs_overflow c = hs_overflow b" "hs_items c = hs_items b @ ys" "length ys \<le> m" "sent_of ys = gs"
    using assms(2,3) k by (auto simp: grows_def)
  have "hs_items c = hs_items a @ (xs @ ys)" "length (xs @ ys) \<le> k" "sent_of (xs @ ys) = fs @ gs"
    using xs ys assms(3) by simp_all
  then show "hs_overflow c = hs_overflow a \<and> (\<exists>xs. hs_items c = hs_items a @ xs \<and> length xs \<le> k \<and> sent_of xs = fs @ gs)"
    using xs(1) ys(1) by metis
qed

lemma grows_more: "grows n fs a b \<Longrightarrow> n \<le> m \<Longrightarrow> grows m fs a b"
  using grows_trans [of n fs a b 0 "[]" b m] grows_refl by simp

lemma grows_slot: "grows 1 (if ho_kind x = DH_HELPER_OUT_SEND then [ho_bytes x] else []) a (out_slot a x)"
  by (simp add: grows_def out_slot_def)

lemma grows_puts:
  "kind \<noteq> DH_HELPER_OUT_SEND \<Longrightarrow> grows 1 [] a (out_put a kind)" "grows 1 [] a (put_note a note x y)" "grows 1 [] a (put_retry a d)"
  "length bs \<le> 76 \<Longrightarrow> grows 1 [bs] a (put_bytes a DH_HELPER_OUT_SEND bs)"
  "kind \<noteq> DH_HELPER_OUT_SEND \<Longrightarrow> grows 1 [] a (put_bytes a kind bs)"
  "grows 1 [] a (snd (set_state h a s))"
  by (simp_all add: grows_def out_put_def put_note_def put_retry_def put_bytes_def out_slot_def output_zero_def set_state_def)

text \<open>A chain of steps without frames.\<close>

lemma grows_then: "grows n [] a b \<Longrightarrow> grows m gs b c \<Longrightarrow> grows (n + m) gs a c"
  using grows_trans [of n "[]" a b m gs c "n + m"] by simp

lemma grows_if: "grows n fs a b \<Longrightarrow> grows n fs a c \<Longrightarrow> grows n fs a (if P then b else c)"
  by simp

lemma report_repeated_grows: "grows 2 [] out (snd (report_repeated_reconnection h now out))"
proof (cases "h_state h = DH_HELPER_RECONNECTING_REPEATEDLY")
  case False
  define o1 where "o1 = (if drops_reached h now
                   then put_note out DH_NOTE_RECONNECTION_RATE (of_nat (h_drop_count h)) (now - h_recent_drops h ! 0)
                   else if h_session_loss_count h > 0
                   then put_note out DH_NOTE_RECONNECTION_RATE (of_nat (h_session_loss_count h)) (now - h_recent_session_losses h ! 0)
                   else out)"
  have "grows 1 [] out o1" unfolding o1_def by (intro grows_if grows_puts(2) grows_refl)
  then have "grows (1 + 1) [] out (snd (set_state h o1 DH_HELPER_RECONNECTING_REPEATEDLY))" by (rule grows_then) (rule grows_puts(6))
  then show ?thesis using False by (simp add: report_repeated_reconnection_def Let_def o1_def [symmetric] numeral_2_eq_2)
qed (simp add: report_repeated_reconnection_def grows_refl)

text \<open>A dropped connection: notes, the order to close, at most the report of repeated reconnection, the retry.\<close>

lemma drop_connection_outputs:
  obtains o1 o2 d where "snd (drop_connection h now out note a b) = put_retry o2 d" and "grows 2 [] out o1"
    and "grows 2 [] (out_put o1 DH_HELPER_OUT_CLOSE_CHANNELS) o2"
proof -
  obtain h1 rec where r: "record_drop h now = (h1, rec)" by fastforce
  define h2 where "h2 = (if rec \<and> stands_alone h now \<and> \<not> ended_on_purpose h1 note a now
      then h1\<lparr>h_recent_session_losses := fst (push_time (h_recent_session_losses h1) (h_session_loss_count h1) 3 now),
        h_session_loss_count := snd (push_time (h_recent_session_losses h1) (h_session_loss_count h1) 3 now)\<rparr> else h1)"
  define o1 where "o1 = (if ct_any (h_rx h2)
                 then put_note out DH_NOTE_BOARD_SENDS (ucast (dh_auth_counter_built (h_rx h2))) (ucast (dh_auth_counter_missed (h_rx h2)))
                 else out)"
  define h3 where "h3 = (forget_session h2)\<lparr>h_holding_channels := False, h_have_deferred := True, h_deferred_state := unusable_state h2, h_deferred_at := now\<rparr>"
  define o2 where "o2 = out_put (put_note o1 note a b) DH_HELPER_OUT_CLOSE_CHANNELS"
  define g where "g = (if (h_state h3 = DH_HELPER_CONNECTED \<or> h_state h3 = DH_HELPER_CONNECTED_CONFIG_MODE \<or> h_state h3 = DH_HELPER_QUIET) \<and>
        reconnecting_repeatedly h3 now then report_repeated_reconnection h3 now o2 else (h3, o2))"
  have e: "drop_connection h now out note a b = (fst (backoff_next (fst g)), put_retry (snd g) (snd (backoff_next (fst g))))"
    unfolding drop_connection_def Let_def r split_def fst_conv snd_conv h2_def [symmetric] o1_def [symmetric] h3_def [symmetric] o2_def [symmetric] g_def [symmetric]
    by (rule refl)
  have "grows 1 [] out o1" unfolding o1_def by (intro grows_if grows_puts(2) grows_refl)
  then have "grows (1 + 1) [] out (put_note o1 note a b)" by (rule grows_then) (rule grows_puts(2))
  moreover have "grows 2 [] o2 (snd g)" using report_repeated_grows [of o2 h3 now] grows_refl [of 2 o2] by (simp add: g_def)
  ultimately show thesis using e by (intro that [of "snd g" _ "put_note o1 note a b"]) (simp_all add: o2_def numeral_2_eq_2)
qed

lemma drop_connection_grows: "grows 6 [] out (snd (drop_connection h now out note a b))"
proof (rule drop_connection_outputs)
  fix o1 o2 d
  assume e: "snd (drop_connection h now out note a b) = put_retry o2 d" and o1: "grows 2 [] out o1"
    and o2: "grows 2 [] (out_put o1 DH_HELPER_OUT_CLOSE_CHANNELS) o2"
  have "grows (2 + 1 + 2 + 1) [] out (put_retry o2 d)"
    by (intro grows_then [OF grows_then [OF grows_then [OF o1 grows_puts(1)] o2] grows_puts(3)]) simp
  then show ?thesis unfolding e by (rule grows_more) simp
qed

lemma device_left_grows: "grows 1 [] out (snd (device_left h reason now out))"
  unfolding device_left_def Let_def split_def using grows_puts(1) grows_refl by auto

lemma device_appeared_grows: "grows 3 [] out (snd (dh_helper_device_appeared h which now out))"
proof -
  define h0 where "h0 = (note_started h now)\<lparr>h_ever_saw_device := True, h_last_device_identity := which\<rparr>"
  define g where "g = (if which = DH_DEVICE_CONFIG_MODE \<or> h_config_mode h0
                        then device_left h0 DH_HELPER_DEVICE_IN_CONFIG_MODE now out else (h0, out))"
  have g: "grows 1 [] out (snd g)" using device_left_grows by (simp add: g_def grows_refl)
  have "grows 2 [] (snd g) (out_put (snd g) DH_HELPER_OUT_OPEN_CHANNELS)"
    by (rule grows_more [OF grows_puts(1)]) simp_all
  with g have a: "grows 3 [] out (out_put (snd g) DH_HELPER_OUT_OPEN_CHANNELS)"
    using grows_then [of 1 out "snd g" 2] by (simp add: numeral_3_eq_3 numeral_2_eq_2)
  have b: "grows 3 [] out (out_put (snd (if P then set_state k (snd g) s else (k, snd g))) DH_HELPER_OUT_OPEN_CHANNELS)" for P k s
  proof (cases P)
    case True
    have "grows (1 + 1) [] (snd g) (out_put (snd (set_state k (snd g) s)) DH_HELPER_OUT_OPEN_CHANNELS)"
      by (rule grows_then [OF grows_puts(6) grows_puts(1)]) simp
    with g True show ?thesis using grows_then [of 1 out "snd g" 2] by (simp add: numeral_3_eq_3 numeral_2_eq_2)
  qed (use a in simp)
  show ?thesis
    unfolding dh_helper_device_appeared_def Let_def split_def h0_def [symmetric] g_def [symmetric]
    using a b grows_refl [of 3 out] by simp
qed

lemma acquisition_refused_grows: "grows 3 [] out (snd (dh_helper_acquisition_refused h a b now out))"
proof -
  have "grows (1 + 1) [] out (if a > 0 then put_note (out_put out DH_HELPER_OUT_CLOSE_CHANNELS) DH_NOTE_PARTIAL_ACQUISITION (ucast a) (ucast b)
      else put_note (out_put out DH_HELPER_OUT_CLOSE_CHANNELS) DH_NOTE_EVERY_CHANNEL_REFUSED 0 0)" (is "grows _ _ _ ?o")
    by (intro grows_if; rule grows_then [OF grows_puts(1) grows_puts(2)]) simp_all
  then have "grows (1 + 1 + 1) [] out (put_retry ?o d)" for d by (rule grows_then) (rule grows_puts(3))
  then show ?thesis by (simp add: dh_helper_acquisition_refused_def Let_def split_def numeral_3_eq_3)
qed


section \<open>Frames sent\<close>

lemma build_hello_sent:
  assumes "build_hello I e h cap out = (h', out', r)"
  shows "grows 1 [] out out'" and "r = Some frame \<Longrightarrow> length frame \<le> cap \<and> frame_type frame = DH_MSG_HELLO \<and> frame_counter frame = 0"
proof -
  define hello where "hello = \<lparr>he_proto_version = DH_PROTO_VERSION, he_os = hi_os I, he_build_type = hi_build_type I,
                he_channel_count = (if h_config_mode h then 1 else 2), he_max_chunk = DH_SESSION_MAX_CHUNK,
                he_correlation = fresh_correlation (dr_hello e), he_helper_key_id = hi_key_id I, he_helper_nonce = dr_nonce e\<rparr>"
  consider "hi_ecdh I (h_board_public_key h) = None" | shared where "hi_ecdh I (h_board_public_key h) = Some shared" by fastforce
  then show "grows 1 [] out out'" "r = Some frame \<Longrightarrow> length frame \<le> cap \<and> frame_type frame = DH_MSG_HELLO \<and> frame_counter frame = 0"
  proof (atomize (full), cases)
    case 1
    then show "grows 1 [] out out' \<and> (r = Some frame \<longrightarrow> length frame \<le> cap \<and> frame_type frame = DH_MSG_HELLO \<and> frame_counter frame = 0)"
      using assms grows_puts(2) by (auto simp: build_hello_def)
  next
    case 2
    define rc where "rc = encode_tagged DH_MSG_HELLO 0 (dh_auth_derive_hello_key shared (dr_nonce e)) 0 (hello_body hello) cap"
    have e: "build_hello I e h cap out = (case rc of Inl x \<Rightarrow> (h\<lparr>h_helper_nonce := dr_nonce e, h_have_nonce := True, h_hello_correlation := fresh_correlation (dr_hello e)\<rparr>,
        put_note out DH_NOTE_HELLO_ENCODE_FAILED (frame_code x) 0, None)
      | Inr fr \<Rightarrow> (h\<lparr>h_helper_nonce := dr_nonce e, h_have_nonce := True, h_hello_correlation := fresh_correlation (dr_hello e)\<rparr>, out, Some fr))"
      using 2 by (simp add: build_hello_def Let_def rc_def hello_def dh_hello_encode_def)
    show "grows 1 [] out out' \<and> (r = Some frame \<longrightarrow> length frame \<le> cap \<and> frame_type frame = DH_MSG_HELLO \<and> frame_counter frame = 0)"
    proof (cases rc)
      case (Inl x)
      then show ?thesis using e assms grows_puts(2) by auto
    next
      case (Inr fr)
      then have "length fr \<le> cap" "frame_type fr = DH_MSG_HELLO" "frame_counter fr = 0"
        using encode_tagged_frame [OF Inr [unfolded rc_def]] auth_frame_shape(3) [OF Inr [unfolded rc_def encode_tagged_def]] by simp_all
      then show ?thesis using Inr e assms grows_refl by auto
    qed
  qed
qed

lemma pair_request_sent:
  assumes "build_pair_request I e h now cap = (h', Some frame)"
  shows "length frame \<le> cap" and "frame_type frame = DH_MSG_PAIR_REQUEST"
proof -
  have "dh_frame_encode DH_MSG_PAIR_REQUEST 0 (pair_request_body \<lparr>pq_correlation = fresh_correlation (dr_pair e), pq_helper_public = hi_public_key I\<rparr>) cap = Inr frame"
    using assms by (auto simp: build_pair_request_def Let_def dh_pair_request_encode_def split: sum.splits)
  then show "length frame \<le> cap" "frame_type frame = DH_MSG_PAIR_REQUEST"
    using frame_encode_type by (auto simp: dh_frame_encode_def Let_def le16_def split: if_splits)
qed

text \<open>Counters on the wire: a hello, tagged under a key of its own, carries zero; the frames of the session it opens count
  from zero, each the successor of the one before.\<close>

fun counted :: "u64 option \<Rightarrow> (byte \<times> u64) list \<Rightarrow> bool" where
  "counted nxt [] = True"
| "counted nxt ((t, c) # xs) =
     (if t = DH_MSG_HELLO then c = 0 \<and> counted (Some 0) xs
      else case nxt of Some n \<Rightarrow> c = n \<and> counted (Some (n + 1)) xs | None \<Rightarrow> False)"

fun counted_after :: "u64 option \<Rightarrow> (byte \<times> u64) list \<Rightarrow> u64 option" where
  "counted_after nxt [] = nxt"
| "counted_after nxt ((t, c) # xs) = counted_after (Some (if t = DH_MSG_HELLO then 0 else c + 1)) xs"

lemma counted_append: "counted nxt (xs @ ys) \<longleftrightarrow> counted nxt xs \<and> counted (counted_after nxt xs) ys"
  by (induction nxt xs rule: counted.induct) (auto split: option.splits)

definition next_counter :: "u64 option \<Rightarrow> dh_helper \<Rightarrow> bool" where
  "next_counter nxt h =
     ((h_phase h = DH_HELPER_PHASE_AWAITING_ACK \<longrightarrow> nxt = Some 0) \<and>
      (h_phase h = DH_HELPER_PHASE_LIVE \<and> h_have_keys h \<longrightarrow> nxt = Some (h_tx_counter h)))"

text \<open>A step that sends nothing tagged and keeps the phase and the keys, or loses the session.\<close>

lemma next_counter_idle: "h_phase h = DH_HELPER_PHASE_IDLE \<Longrightarrow> next_counter nxt h"
  by (simp add: next_counter_def)

lemma next_counter_keep:
  "next_counter nxt h \<Longrightarrow> h_phase h' = h_phase h \<Longrightarrow> keys h' \<in> {keys h, no_keys} \<Longrightarrow> next_counter nxt h'"
  by (auto simp: next_counter_def keys_def no_keys_def)

definition goes :: "nat \<Rightarrow> u64 option \<Rightarrow> dh_helper_outputs \<Rightarrow> dh_helper \<Rightarrow> dh_helper_outputs \<Rightarrow> bool" where
  "goes n nxt out h' out' =
     (\<exists>fs. grows n fs out out' \<and> counted nxt (tagged fs) \<and> next_counter (counted_after nxt (tagged fs)) h')"

lemma tagged_simps [simp]:
  "tagged [] = []" "tagged (f # fs) = (if dh_msg_is_authenticated (frame_type f) then (frame_type f, frame_counter f) # tagged fs else tagged fs)"
  by (simp_all add: tagged_def)

lemma goes_quiet: "grows n [] out out' \<Longrightarrow> next_counter nxt h' \<Longrightarrow> goes n nxt out h' out'"
  unfolding goes_def by (rule exI [of _ "[]"]) simp

lemma goes_more: "goes n nxt out h' out' \<Longrightarrow> n \<le> m \<Longrightarrow> goes m nxt out h' out'"
  unfolding goes_def using grows_more by blast

lemma goes_then: "grows n [] out o1 \<Longrightarrow> goes m nxt o1 h' out' \<Longrightarrow> n + m \<le> k \<Longrightarrow> goes k nxt out h' out'"
  unfolding goes_def using grows_trans [of n "[]" out o1] by fastforce

lemma goes_drop: "goes 6 nxt out (fst (drop_connection h now out note a b)) (snd (drop_connection h now out note a b))"
  by (rule goes_quiet [OF drop_connection_grows]) (simp add: next_counter_idle)

lemma next_counter_state: "next_counter nxt (fst (set_state h out s)) = next_counter nxt h"
  by (simp add: next_counter_def set_state_def)

lemma next_counter_repeated: "next_counter nxt (fst (report_repeated_reconnection h now out)) = next_counter nxt h"
  by (simp add: report_repeated_reconnection_def Let_def next_counter_state)

lemma ack_commit_goes:
  assumes "nxt = Some 0"
  shows "goes 3 nxt out (fst (ack_commit h k_h2b k_b2h rx ack now out)) (snd (ack_commit h k_h2b k_b2h rx ack now out))"
proof (rule goes_quiet)
  define o1 where "o1 = (if ha_build_type ack = DH_BUILD_DEVELOPMENT then put_note out DH_NOTE_DEVELOPMENT_BUILD 0 0 else out)"
  have o1: "grows 1 [] out o1" unfolding o1_def by (intro grows_if grows_puts(2) grows_refl)
  have "grows 3 [] out (snd (report_repeated_reconnection k now o1))" "grows 3 [] out (snd (set_state k o1 s))" for k s
    using grows_then [OF o1 report_repeated_grows, of k now] grows_then [OF o1 grows_puts(6), of k s]
      grows_more [of "1 + 1" "[]" out "snd (set_state k o1 s)" 3] by (simp_all add: numeral_3_eq_3 numeral_2_eq_2)
  then show "grows 3 [] out (snd (ack_commit h k_h2b k_b2h rx ack now out))"
    by (simp add: ack_commit_def Let_def o1_def [symmetric])
  show "next_counter nxt (fst (ack_commit h k_h2b k_b2h rx ack now out))"
    using assms ack_commit_parts(2,3) [of h k_h2b k_b2h rx ack now out] by (simp add: next_counter_def keys_def)
qed

lemma on_hello_ack_goes:
  assumes "next_counter nxt h"
  shows "goes 6 nxt out (fst (on_hello_ack I h f now out)) (snd (on_hello_ack I h f now out))"
proof -
  have note_: "goes 6 nxt out h (put_note out n a b)" for n a b
    by (rule goes_quiet [OF _ assms]) (rule grows_more [OF grows_puts(2)], simp)
  show ?thesis
  proof (cases "h_phase h = DH_HELPER_PHASE_AWAITING_ACK")
    case True
    then have "nxt = Some 0" using assms by (simp add: next_counter_def)
    then have c: "goes 6 nxt out (fst (ack_commit h k_h2b k_b2h rx ack now out)) (snd (ack_commit h k_h2b k_b2h rx ack now out))" for k_h2b k_b2h rx ack
      using goes_more [OF ack_commit_goes, of nxt 6] by simp
    show ?thesis using True note_ c goes_drop
      unfolding on_hello_ack_def Let_def split_def by (auto split: option.split sum.split)
  qed (use note_ in \<open>simp add: on_hello_ack_def\<close>)
qed

lemma on_hello_refused_goes:
  assumes "next_counter nxt h"
  shows "goes 6 nxt out (fst (on_hello_refused h f now out)) (snd (on_hello_refused h f now out))"
proof -
  have note_: "goes 6 nxt out h (put_note out n a b)" for n a b
    by (rule goes_quiet [OF _ assms]) (rule grows_more [OF grows_puts(2)], simp)
  have one: "goes 6 nxt out (fst (set_state k out s)) (snd (set_state k out s))" if "h_have_keys k = False" "h_phase k \<noteq> DH_HELPER_PHASE_AWAITING_ACK" for k s
    by (rule goes_quiet [OF grows_more [OF grows_puts(6)]]) (simp_all add: next_counter_state next_counter_def that)
  have two: "goes 6 nxt out (fst (set_state (forget_session k) (put_note out n a b) s)) (snd (set_state (forget_session k) (put_note out n a b) s))" for k s n a b
    by (rule goes_quiet [OF grows_more [OF grows_then [OF grows_puts(2) grows_puts(6)]]]) (simp_all add: next_counter_state next_counter_def)
  show ?thesis using note_ goes_drop one two
    unfolding on_hello_refused_def Let_def
    by (auto simp: forget_crypto_state_def forget_beat_trace_def split: option.split)
qed

lemma authenticated_types: "dh_msg_is_authenticated DH_MSG_HELLO" "\<not> dh_msg_is_authenticated DH_MSG_PAIR_REQUEST"
  "dh_msg_is_authenticated DH_MSG_HEARTBEAT"
  by (simp_all add: dh_msg_is_authenticated_def)

lemma hello_goes:
  assumes "length frame \<le> 76" and "frame_type frame = DH_MSG_HELLO" and "frame_counter frame = 0" and "h_phase h' = DH_HELPER_PHASE_AWAITING_ACK"
  shows "goes 1 nxt out h' (put_bytes out DH_HELPER_OUT_SEND frame)"
  unfolding goes_def
  by (rule exI [of _ "[frame]"]) (use assms grows_puts(4) in \<open>simp add: authenticated_types next_counter_def\<close>)

lemma on_pair_grant_goes:
  assumes "next_counter nxt h"
  shows "goes 6 nxt out (fst (on_pair_grant I e h f now out)) (snd (on_pair_grant I e h f now out))"
proof -
  have note_: "goes 6 nxt out h (put_note out n a b)" for n a b
    by (rule goes_quiet [OF _ assms]) (rule grows_more [OF grows_puts(2)], simp)
  have two: "goes 6 nxt out (fst (set_state (h\<lparr>h_pairing_requested := q\<rparr>) (put_note out n a b) s)) (snd (set_state (h\<lparr>h_pairing_requested := q\<rparr>) (put_note out n a b) s))" for q s n a b
    by (rule goes_quiet [OF grows_more [OF grows_then [OF grows_puts(2) grows_puts(6)]]])
      (use assms in \<open>simp_all add: next_counter_state next_counter_def\<close>)
  show ?thesis
  proof (cases "dh_pair_grant_decode (view_payload f)")
    case (Some grant)
    define g where "g = h\<lparr>h_board_public_key := pg_board_public grant, h_have_board_key := True\<rparr>"
    obtain h1 o1 r where b: "build_hello I e g 76 out = (h1, o1, r)" by (metis prod_cases3)
    have p: "h_phase h1 = h_phase g" "keys h1 = keys g"
      using build_hello_parts(2,3) [of I e g 76 out] by (simp_all add: b)
    have h1: "h_phase h1 = h_phase h" "keys h1 = keys h"
      unfolding p by (simp_all add: g_def keys_def)
    have o1: "grows 1 [] out o1" by (rule build_hello_sent(1) [OF b])
    have none: "goes 6 nxt out (h1\<lparr>h_board_public_key := p, h_have_board_key := q\<rparr>) o1" for p q
      by (rule goes_quiet [OF grows_more [OF o1]]) (use assms h1 in \<open>simp_all add: next_counter_def keys_def\<close>)
    have some: "goes 6 nxt out (h1\<lparr>h_pairing_requested := q, h_hello_sent_at := x, h_last_sent_at := y, h_phase := DH_HELPER_PHASE_AWAITING_ACK\<rparr>)
        (put_bytes (put_note (put_bytes o1 DH_HELPER_OUT_STORE_BOARD_KEY k) DH_NOTE_PAIRED_BY_DEVICE 0 0) DH_HELPER_OUT_SEND frame)"
      if "r = Some frame" for frame q x y k
    proof (rule goes_then)
      show "grows (1 + 1 + 1) [] out (put_note (put_bytes o1 DH_HELPER_OUT_STORE_BOARD_KEY k) DH_NOTE_PAIRED_BY_DEVICE 0 0)"
        by (rule grows_then [OF grows_then [OF o1 grows_puts(5)] grows_puts(2)]) simp
    qed (rule hello_goes, use build_hello_sent(2) [OF b that] in simp_all)
    show ?thesis using Some note_ two none some
      unfolding on_pair_grant_def Let_def by (simp add: b [unfolded g_def] split: option.split)
  qed (use note_ in \<open>simp add: on_pair_grant_def\<close>)
qed

lemma end_readings_grows: "grows 5 [] out (end_readings h body reason now out)"
proof -
  define o1 where "o1 = (if reason = DH_SESSION_END_LIVENESS_TIMEOUT \<and> length body \<ge> DH_SESSION_END_LEN
                 then put_note out DH_NOTE_BOARD_SILENT_FOR (rd_u32 (drop 1 body)) 0 else out)"
  define o2 where "o2 = put_note (put_note o1 DH_NOTE_BOARD_AT_END (dd_frames_in (h_device_drops h)) (dd_reports_in (h_device_drops h)))
     DH_NOTE_BOARD_LOST_AT_END (dd_reports (h_device_drops h)) (dd_inbound (h_device_drops h))"
  define o3 where "o3 = (if h_have_device_drops h then
      (if h_have_chain h \<and> now - h_chain_at_ms h \<ge> DH_HELPER_CHAIN_MIN_MS
       then put_note o2 DH_NOTE_BOARD_HEARD_BYTES (dd_reports_in (h_device_drops h) - h_chain_reports_in h) (now - h_chain_at_ms h)
       else o2) else o1)"
  have o1: "grows 1 [] out o1" unfolding o1_def by (intro grows_if grows_puts(2) grows_refl)
  have "grows (1 + 1) [] o1 o2" unfolding o2_def by (rule grows_then [OF grows_puts(2) grows_puts(2)])
  then have "grows (1 + 1 + 1) [] o1 (put_note o2 n a b)" "grows (1 + 1 + 1) [] o1 o2" for n a b
    using grows_then [OF _ grows_puts(2)] grows_more [of "1 + 1" "[]" o1 o2 "1 + 1 + 1"] by simp_all
  then have "grows (1 + 1 + 1) [] o1 o3" unfolding o3_def by (simp add: grows_refl)
  then have "grows (1 + (1 + 1 + 1)) [] out o3" by (rule grows_then [OF o1])
  then have "grows (1 + (1 + 1 + 1) + 1) [] out (put_note o3 DH_NOTE_LOCAL_SENDS (h_sends_total h) (h_sends_refused h))"
    by (rule grows_then) (rule grows_puts(2))
  then show ?thesis
    unfolding end_readings_def Let_def o1_def [symmetric] o2_def [symmetric] o3_def [symmetric] by (rule grows_more) simp
qed

lemma on_session_end_goes:
  assumes "next_counter nxt h"
  shows "goes 11 nxt out (fst (on_session_end h f body now out)) (snd (on_session_end h f body now out))"
proof -
  have "goes 11 nxt out (fst (drop_connection h now (end_readings h body reason now out) n a b)) (snd (drop_connection h now (end_readings h body reason now out) n a b))" for reason n a b
    by (rule goes_then [OF end_readings_grows goes_drop]) simp
  moreover have "goes 11 nxt out h (put_note out n a b)" for n a b
    by (rule goes_quiet [OF grows_more [OF grows_puts(2)] assms]) simp
  ultimately show ?thesis by (simp add: on_session_end_def Let_def)
qed

text \<open>The handlers of session traffic that keep the session.\<close>

lemma session_keeps:
  assumes "next_counter nxt h"
  shows "goes 11 nxt out (fst (on_device_beat h f now out)) (snd (on_device_beat h f now out))"
    and "goes 11 nxt out (fst (on_listener_alert h f body now out)) (snd (on_listener_alert h f body now out))"
    and "goes 11 nxt out (fst (on_clip_policy h f body out)) (snd (on_clip_policy h f body out))"
    and "goes 11 nxt out (fst (on_device_drops h f body out)) (snd (on_device_drops h f body out))"
proof -
  have none: "goes 11 nxt out h' out" and one: "goes 11 nxt out h' (put_note out n a b)"
    and two: "goes 11 nxt out h' (snd (set_state k (put_note out n a b) s))"
    and slot: "ho_kind x \<noteq> DH_HELPER_OUT_SEND \<Longrightarrow> goes 11 nxt out h' (put_note (out_slot out x) n a b)"
    if "h_phase h' = h_phase h" "h_have_keys h' = h_have_keys h" "h_tx_counter h' = h_tx_counter h" for h' n a b k s x
  proof -
    have h': "next_counter nxt h'" using assms that by (simp add: next_counter_def)
    show "goes 11 nxt out h' out" by (rule goes_quiet [OF grows_refl h'])
    show "goes 11 nxt out h' (put_note out n a b)" by (rule goes_quiet [OF grows_more [OF grows_puts(2)] h']) simp
    show "goes 11 nxt out h' (snd (set_state k (put_note out n a b) s))"
      by (rule goes_quiet [OF grows_more [OF grows_then [OF grows_puts(2) grows_puts(6)]] h']) simp
    assume x: "ho_kind x \<noteq> DH_HELPER_OUT_SEND"
    then have g: "grows 1 [] out (out_slot out x)" using grows_slot [of x out] by simp
    show "goes 11 nxt out h' (put_note (out_slot out x) n a b)"
      by (rule goes_quiet [OF grows_more [OF grows_then [OF g grows_puts(2)]] h']) simp
  qed
  show "goes 11 nxt out (fst (on_device_beat h f now out)) (snd (on_device_beat h f now out))"
    by (simp add: on_device_beat_def Let_def none one)
  show "goes 11 nxt out (fst (on_listener_alert h f body now out)) (snd (on_listener_alert h f body now out))"
    unfolding on_listener_alert_def by (cases "dh_listener_alert_decode body") (simp_all add: one two)
  show "goes 11 nxt out (fst (on_clip_policy h f body out)) (snd (on_clip_policy h f body out))"
    unfolding on_clip_policy_def by (cases "dh_clip_policy_decode body") (auto simp: Let_def intro!: one slot)
  show "goes 11 nxt out (fst (on_device_drops h f body out)) (snd (on_device_drops h f body out))"
    unfolding on_device_drops_def by (cases "dh_device_drops_decode body") (simp_all add: one none)
qed

lemma on_verified_goes:
  assumes "next_counter nxt h"
  shows "goes 11 nxt out (fst (on_verified h f body now out)) (fst (snd (on_verified h f body now out)))"
proof -
  define h1 where "h1 = (if h_have_device_beat (h\<lparr>h_last_device_frame_at := now\<rparr>) \<and> fh_type (fv_hdr f) \<noteq> DH_MSG_DEVICE_HEARTBEAT
       then (h\<lparr>h_last_device_frame_at := now\<rparr>)\<lparr>h_last_device_beat_at := now, h_beat_quiet_noted := False\<rparr> else h\<lparr>h_last_device_frame_at := now\<rparr>)"
  have h1: "next_counter nxt h1" using assms by (simp add: h1_def next_counter_def)
  show ?thesis
    unfolding on_verified_def Let_def split_def h1_def [symmetric]
    using on_session_end_goes [OF h1] session_keeps [OF h1] goes_quiet [OF grows_refl h1] by simp
qed

lemma on_authenticated_goes:
  assumes "next_counter nxt h"
  shows "goes 11 nxt out (fst (on_authenticated I h f now out)) (fst (snd (on_authenticated I h f now out)))"
proof -
  obtain rx rc where op: "dh_auth_open (h_k_b2h h) (fv_hdr f) (fv_payload f) (h_rx h) = (rx, rc)" by fastforce
  have h1: "next_counter nxt (h\<lparr>h_rx := rx\<rparr>)" using assms by (simp add: next_counter_def)
  have note_: "goes 11 nxt out h (put_note out n a b)" "goes 11 nxt out (h\<lparr>h_rx := rx\<rparr>) (put_note out n a b)" for n a b
    by (rule goes_quiet [OF grows_more [OF grows_puts(2)]], simp, simp add: assms h1)+
  have drop: "goes 11 nxt out (fst (drop_connection k now out n a b)) (snd (drop_connection k now out n a b))" for k n a b
    by (rule goes_more [OF goes_drop]) simp
  have ack: "goes 11 nxt out (fst (on_hello_ack I h f now out)) (snd (on_hello_ack I h f now out))"
    by (rule goes_more [OF on_hello_ack_goes [OF assms]]) simp
  show ?thesis
    unfolding on_authenticated_def Let_def op
    using note_ drop ack on_verified_goes [OF h1] by (auto simp: split_def split: sum.split dh_auth_err.split)
qed

lemma received_goes:
  assumes "next_counter nxt h"
  shows "goes 12 nxt out (fst (dh_helper_received_channel I e h ch data now out)) (fst (snd (dh_helper_received_channel I e h ch data now out)))"
proof -
  define h1 where "h1 = note_started h now"
  obtain r rc where r: "dh_frame_reader_report (helper_reader h1 ch) data = (r, rc)" by fastforce
  define h2 where "h2 = set_helper_reader h1 ch r"
  define o1 where "o1 = (if rd_resyncs r \<noteq> rd_resyncs (helper_reader h1 ch) then put_note out DH_NOTE_STREAM_MISALIGNED (rd_resyncs r) 0 else out)"
  have h2: "next_counter nxt h2"
    using assms by (rule next_counter_keep) (simp_all add: h2_def h1_def)
  have o1: "grows 1 [] out o1" unfolding o1_def by (intro grows_if grows_puts(2) grows_refl)
  have a: "goes 12 nxt out (fst (on_authenticated I h2 f now o1)) (fst (snd (on_authenticated I h2 f now o1)))" for f
    by (rule goes_then [OF o1 on_authenticated_goes [OF h2]]) simp
  have u: "goes 12 nxt out (fst (on_unauthenticated I e h2 f now o1)) (snd (on_unauthenticated I e h2 f now o1))" for f
  proof -
    have "goes 6 nxt o1 (fst (on_pair_refused h2 f o1)) (snd (on_pair_refused h2 f o1))"
      by (rule goes_quiet [OF grows_more]) (use h2 grows_puts(2) in \<open>auto simp: on_pair_refused_def split: option.split\<close>)
    then have "goes 6 nxt o1 (fst (on_unauthenticated I e h2 f now o1)) (snd (on_unauthenticated I e h2 f now o1))"
      using on_hello_refused_goes [OF h2] on_pair_grant_goes [OF h2] goes_quiet [OF grows_refl h2]
      by (simp add: on_unauthenticated_def Let_def)
    then show ?thesis by (rule goes_then [OF o1]) simp
  qed
  have d: "goes 12 nxt out (fst (drop_connection h2 now o1 n a b)) (snd (drop_connection h2 now o1 n a b))" for n a b
    by (rule goes_then [OF o1 goes_drop]) simp
  have q: "goes 12 nxt out h2 o1" by (rule goes_quiet [OF grows_more [OF o1] h2]) simp
  have s: "goes 12 nxt out h out" by (rule goes_quiet [OF grows_refl assms])
  show ?thesis
    unfolding dh_helper_received_channel_def Let_def h1_def [symmetric] r split_def fst_conv snd_conv h2_def [symmetric] o1_def [symmetric]
    using a u d q s by (auto split: sum.split dh_frame_err.split)
qed

lemma pair_request_goes:
  assumes "build_pair_request I e h now 76 = (h', r)" and "next_counter nxt h" and "grows n [] out o1"
  shows "r = None \<Longrightarrow> goes (n + 1) nxt out h' o1" and "r = Some frame \<Longrightarrow> goes (n + 1) nxt out h' (put_bytes o1 DH_HELPER_OUT_SEND frame)"
proof -
  have h': "next_counter nxt h'"
    using build_pair_request_parts(2) [of I e h now 76] assms(1,2) 
    by (auto simp: build_pair_request_def Let_def next_counter_def split: sum.splits)
  show "r = None \<Longrightarrow> goes (n + 1) nxt out h' o1" by (rule goes_quiet [OF grows_more [OF assms(3)] h']) simp
  assume r: "r = Some frame"
  note s = pair_request_sent [OF assms(1) [unfolded r]]
  have "grows (n + 1) [frame] out (put_bytes o1 DH_HELPER_OUT_SEND frame)"
    by (rule grows_then [OF assms(3) grows_puts(4)]) (rule s(1))
  then show "goes (n + 1) nxt out h' (put_bytes o1 DH_HELPER_OUT_SEND frame)"
    unfolding goes_def by (intro exI [of _ "[frame]"]) (simp add: s(2) authenticated_types h')
qed

lemma goes_trans: "goes n nxt out h1 o1 \<Longrightarrow> (\<And>nxt. next_counter nxt h1 \<Longrightarrow> goes m nxt o1 h' out') \<Longrightarrow> n + m \<le> k \<Longrightarrow> goes k nxt out h' out'"
proof -
  assume a: "goes n nxt out h1 o1" and b: "\<And>nxt. next_counter nxt h1 \<Longrightarrow> goes m nxt o1 h' out'" and k: "n + m \<le> k"
  from a obtain fs where fs: "grows n fs out o1" "counted nxt (tagged fs)" "next_counter (counted_after nxt (tagged fs)) h1"
    by (auto simp: goes_def)
  from b [OF fs(3)] obtain gs where gs: "grows m gs o1 out'" "counted (counted_after nxt (tagged fs)) (tagged gs)"
    "next_counter (counted_after (counted_after nxt (tagged fs)) (tagged gs)) h'" by (auto simp: goes_def)
  have after: "counted_after nxt (xs @ ys) = counted_after (counted_after nxt xs) ys" for xs ys
    by (induction nxt xs rule: counted_after.induct) simp_all
  show "goes k nxt out h' out'"
    unfolding goes_def
    using grows_trans [OF fs(1) gs(1) k] fs gs by (intro exI [of _ "fs @ gs"]) (simp add: tagged_def counted_append after)
qed

lemma goes_state: "next_counter nxt h \<Longrightarrow> goes 1 nxt out (fst (set_state h out s)) (snd (set_state h out s))"
  by (rule goes_quiet [OF grows_puts(6)]) (simp add: next_counter_state)

lemma acquisition_refused_goes:
  "goes 3 nxt out (fst (dh_helper_acquisition_refused h a b now out)) (snd (dh_helper_acquisition_refused h a b now out))"
  by (rule goes_quiet [OF acquisition_refused_grows], rule next_counter_idle)
    (simp add: dh_helper_acquisition_refused_def Let_def split_def backoff_next_def)

lemma channels_acquired_goes:
  "goes 12 nxt out (fst (dh_helper_channels_acquired I e h count now out)) (snd (dh_helper_channels_acquired I e h count now out))"
proof -
  define h0 where "h0 = (note_started ((forget_session h)\<lparr>h_acquired_channels := count\<rparr>) now)\<lparr>h_holding_channels := True\<rparr>"
  have h0: "keys h0 = no_keys"
    using forget_session_parts [of h] by (simp add: h0_def part_defs note_started_def)
  show ?thesis
  proof (cases "h_have_board_key h0")
    case False
    define h2 where "h2 = (backoff_reset h0)\<lparr>h_have_deferred := False, h_phase := DH_HELPER_PHASE_LIVE, h_last_device_frame_at := now\<rparr>"
    define g where "g = set_state h2 out DH_HELPER_NOT_PAIRED"
    have "keys h2 = no_keys" using h0 by (simp add: h2_def part_defs backoff_reset_def)
    then have n: "next_counter nxt (fst g)" by (simp add: g_def next_counter_state) (simp add: next_counter_def keys_def no_keys_def h2_def)
    have gr: "grows 1 [] out (snd g)" unfolding g_def by (rule grows_puts(6))
    obtain h' r where b: "build_pair_request I e (fst g) now 76 = (h', r)" by fastforce
    have "goes 12 nxt out h' (snd g)" if "r = None"
      using goes_more [OF pair_request_goes(1) [OF b n gr that], of 12] by simp
    moreover have "goes 12 nxt out h' (put_bytes (snd g) DH_HELPER_OUT_SEND frame)" if "r = Some frame" for frame
      using goes_more [OF pair_request_goes(2) [OF b n gr that], of 12] by simp
    ultimately show ?thesis
      unfolding dh_helper_channels_acquired_def Let_def split_def h0_def [symmetric]
      using False by (simp add: h2_def [symmetric] g_def [symmetric] b split: option.split)
  next
    case True
    define h1 where "h1 = h0\<lparr>h_phase := DH_HELPER_PHASE_AWAITING_ACK, h_hello_sent_at := now, h_last_sent_at := now, h_last_device_frame_at := now\<rparr>"
    obtain h2 o2 r where b: "build_hello I e h1 76 out = (h2, o2, r)" by (metis prod_cases3)
    have ph: "h_phase h2 = DH_HELPER_PHASE_AWAITING_ACK" using build_hello_parts(3) [of I e h1 76 out] by (simp add: b) (simp add: h1_def)
    note sent = build_hello_sent [OF b]
    have ref: "goes 12 nxt out (fst (dh_helper_acquisition_refused h2 0 0 now o2)) (snd (dh_helper_acquisition_refused h2 0 0 now o2))"
      by (rule goes_then [OF sent(1) acquisition_refused_goes]) simp
    define after where "after frame = (let h = h2\<lparr>h_have_deferred := False\<rparr>; out = put_bytes o2 DH_HELPER_OUT_SEND frame in
            if h_state h = DH_HELPER_RECONNECTING_REPEATEDLY \<and> h_hello_went_unanswered h then
              (case build_pair_request I e h now 76 of
                 (h, None) \<Rightarrow> (h, out)
               | (h, Some frame) \<Rightarrow> (h, put_bytes (put_note out DH_NOTE_ASKING_TO_BE_PAIRED 0 0) DH_HELPER_OUT_SEND frame))
            else (h, out))" for frame
    have ok: "goes 12 nxt out (fst (after frame)) (snd (after frame))" if "r = Some frame" for frame
    proof -
      define h3 where "h3 = h2\<lparr>h_have_deferred := False\<rparr>"
      define o3 where "o3 = put_bytes o2 DH_HELPER_OUT_SEND frame"
      have h3: "h_phase h3 = DH_HELPER_PHASE_AWAITING_ACK" by (simp add: h3_def ph)
      have one: "goes 2 nxt out h3 o3" unfolding o3_def
        by (rule goes_then [OF sent(1) hello_goes]) (use sent(2) [OF that] h3 in simp_all)
      have "goes 2 n o3 (fst (after frame)) (snd (after frame))" if "next_counter n h3" for n
      proof -
        obtain h4 q where q: "build_pair_request I e h3 now 76 = (h4, q)" by fastforce
        have "goes 2 n o3 h4 o3" if "q = None"
          using goes_more [OF pair_request_goes(1) [OF q \<open>next_counter n h3\<close> grows_refl [of 1] that], of 2] by simp
        moreover have "goes 2 n o3 h4 (put_bytes (put_note o3 x a b) DH_HELPER_OUT_SEND f)" if "q = Some f" for f x a b
          using goes_more [OF pair_request_goes(2) [OF q \<open>next_counter n h3\<close> grows_puts(2) that], of 2] by simp
        moreover have "goes 2 n o3 h3 o3" by (rule goes_quiet [OF grows_refl that])
        ultimately show ?thesis
          unfolding after_def Let_def h3_def [symmetric] o3_def [symmetric] by (simp add: q split: option.split)
      qed
      then show ?thesis by (rule goes_trans [OF one]) simp_all
    qed
    have "dh_helper_channels_acquired I e h count now out =
        (case r of None \<Rightarrow> dh_helper_acquisition_refused h2 0 0 now o2 | Some frame \<Rightarrow> after frame)"
      unfolding dh_helper_channels_acquired_def after_def Let_def h0_def [symmetric]
      using True by (simp only: h1_def [symmetric] b simp_thms if_False prod.case)
    then show ?thesis using ref ok by (cases r) simp_all
  qed
qed

lemma tick_windows_parts: "h_phase (tick_windows h now) = h_phase h" "keys (tick_windows h now) = keys h" "pin (tick_windows h now) = pin h"
  by (simp_all add: tick_windows_def Let_def part_defs)

lemma next_counter_tick_windows: "next_counter nxt (tick_windows (note_started h now) now) = next_counter nxt h"
  using tick_windows_parts [of "note_started h now" now] small_parts(2,3) [of h now]
  by (simp add: next_counter_def keys_def)

lemma tick_deferred_parts:
  "h_phase (fst (tick_deferred h now out)) = h_phase h" "keys (fst (tick_deferred h now out)) = keys h" "pin (fst (tick_deferred h now out)) = pin h"
  using set_state_parts [of "h\<lparr>h_have_deferred := False\<rparr>"] by (auto simp: tick_deferred_def part_defs set_state_def)

lemma tick_deferred_goes: "next_counter nxt h \<Longrightarrow> goes 1 nxt out (fst (tick_deferred h now out)) (snd (tick_deferred h now out))"
  by (rule goes_quiet, simp_all add: tick_deferred_def grows_puts(6) [unfolded One_nat_def] grows_refl next_counter_state)
    (auto simp: next_counter_def)

lemma tick_aged_goes: "next_counter nxt h \<Longrightarrow> goes 3 nxt out (fst (tick_aged h now out)) (snd (tick_aged h now out))"
proof -
  assume n: "next_counter nxt h"
  define a where "a = (if h_state h = DH_HELPER_RECONNECTING_REPEATEDLY \<and> h_have_negotiated h \<and> \<not> reconnecting_repeatedly h now
                      then set_state h out (connected_state h) else (h, out))"
  define b where "b = (if h_state (fst a) = DH_HELPER_LISTENER_DETECTED \<and> h_have_negotiated (fst a) \<and> h_listener_alert_live (fst a) \<and>
                         helper_elapsed now (h_listener_alert_at (fst a)) (h_listener_alert_window_ms (fst a))
                      then set_state ((fst a)\<lparr>h_listener_alert_live := False\<rparr>) (snd a) (connected_state (fst a)) else (fst a, snd a))"
  have a: "goes 1 nxt out (fst a) (snd a)" unfolding a_def using goes_state [OF n, of out] goes_quiet [OF grows_refl n] by simp
  have b: "goes 1 n (snd a) (fst b) (snd b)" if "next_counter n (fst a)" for n
  proof -
    have "next_counter n ((fst a)\<lparr>h_listener_alert_live := False\<rparr>)" using that by (simp add: next_counter_def)
    then show ?thesis unfolding b_def using goes_state [of n _ "snd a"] goes_quiet [OF grows_refl that, of 1 "snd a"] by simp
  qed
  have c: "goes 1 n (snd b) (fst b) (snd b)" "goes 1 n (snd b) ((fst b)\<lparr>h_beat_quiet_noted := True\<rparr>) (put_note (snd b) x y z)"
    if "next_counter n (fst b)" for n x y z
    using goes_quiet [OF grows_refl that, of 1 "snd b"] goes_quiet [OF grows_puts(2), of n _ "snd b"] that by (simp_all add: next_counter_def)
  have ab: "goes 2 nxt out (fst b) (snd b)" by (rule goes_trans [OF a b]) simp_all
  have "goes 3 nxt out (fst b) (snd b)" "goes 3 nxt out ((fst b)\<lparr>h_beat_quiet_noted := True\<rparr>) (put_note (snd b) x y z)" for x y z
    using goes_trans [OF ab c(1)] goes_trans [OF ab c(2)] by simp_all
  then show ?thesis unfolding tick_aged_def Let_def split_def a_def [symmetric] b_def [symmetric] by simp
qed

lemma tick_aged_parts:
  "h_phase (fst (tick_aged h now out)) = h_phase h" "keys (fst (tick_aged h now out)) = keys h" "pin (fst (tick_aged h now out)) = pin h"
  by (simp_all add: tick_aged_def Let_def split_def part_defs set_state_def)

lemma tick_beat_goes:
  assumes "next_counter nxt h" and "h_phase h = DH_HELPER_PHASE_LIVE"
  shows "goes 1 nxt out (fst (tick_beat h now out)) (snd (tick_beat h now out))"
proof (cases "h_have_keys h \<and> helper_elapsed now (h_last_sent_at h) DH_SESSION_HEARTBEAT_MS")
  case True
  show ?thesis
  proof (cases "dh_auth_frame DH_MSG_HEARTBEAT 0 (h_k_h2b h) (h_tx_counter h) [] 76")
    case (Inr frame)
    have f: "length frame \<le> 76" "frame_type frame = DH_MSG_HEARTBEAT" "frame_counter frame = h_tx_counter h"
      using encode_tagged_frame [OF Inr [folded encode_tagged_def]] auth_frame_shape(3) [OF Inr] by simp_all
    have "nxt = Some (h_tx_counter h)" using True assms by (simp add: next_counter_def)
    then have "goes 1 nxt out (h\<lparr>h_tx_counter := h_tx_counter h + 1\<rparr>) (put_bytes out DH_HELPER_OUT_SEND frame)"
      unfolding goes_def
      by (intro exI [of _ "[frame]"]) (use f grows_puts(4) assms(2) in \<open>simp add: authenticated_types next_counter_def\<close>)
    then show ?thesis using True Inr by (simp add: tick_beat_def)
  qed (use True goes_quiet [OF grows_refl assms(1)] in \<open>simp add: tick_beat_def\<close>)
qed (use goes_quiet [OF grows_refl assms(1)] in \<open>auto simp: tick_beat_def\<close>)

lemma tick_pair_goes:
  assumes "next_counter nxt h"
  shows "goes 1 nxt out (fst (tick_pair I e h now out)) (snd (tick_pair I e h now out))"
proof -
  obtain h' r where b: "build_pair_request I e h now 76 = (h', r)" by fastforce
  note p = pair_request_goes [OF b assms grows_refl [of 0 out]]
  show ?thesis using p goes_quiet [OF grows_refl assms] by (simp add: tick_pair_def b split: option.split)
qed

lemma tick_goes:
  assumes "next_counter nxt h"
  shows "goes 12 nxt out (fst (dh_helper_tick I e h now out)) (snd (dh_helper_tick I e h now out))"
proof -
  define h0 where "h0 = tick_windows (note_started h now) now"
  have n0: "next_counter nxt h0" using assms by (simp add: h0_def next_counter_tick_windows)
  define g where "g = tick_deferred h0 now out"
  have g: "goes 1 nxt out (fst g) (snd g)" unfolding g_def by (rule tick_deferred_goes [OF n0])
  define h1 where "h1 = (if h_have_device_drops (fst g) \<and> (\<not> h_have_chain (fst g) \<or> helper_elapsed now (h_chain_at_ms (fst g)) DH_HELPER_CHAIN_SAMPLE_MS)
      then (fst g)\<lparr>h_chain_reports_in := dd_reports_in (h_device_drops (fst g)), h_chain_at_ms := now, h_have_chain := True\<rparr> else fst g)"
  define a where "a = tick_aged h1 now (snd g)"
  define b where "b = tick_beat (fst a) now (snd a)"
  have dropg: "goes 12 nxt out (fst (drop_connection k now (snd g) n x y)) (snd (drop_connection k now (snd g) n x y))" for k n x y
    by (rule goes_trans [OF g goes_drop]) simp
  have same: "goes 12 nxt out (fst g) (snd g)" by (rule goes_more [OF g]) simp
  have live: "goes 12 nxt out (fst (tick_pair I e (fst b) now (snd b))) (snd (tick_pair I e (fst b) now (snd b)))"
    if "h_phase (fst g) = DH_HELPER_PHASE_LIVE"
  proof -
    have ph: "h_phase (fst a) = DH_HELPER_PHASE_LIVE" using that by (simp add: a_def tick_aged_parts h1_def)
    have "goes 5 n (snd g) (fst (tick_pair I e (fst b) now (snd b))) (snd (tick_pair I e (fst b) now (snd b)))" if "next_counter n (fst g)" for n
    proof -
      have "next_counter n h1" using that by (simp add: h1_def next_counter_def)
      then have "goes 3 n (snd g) (fst a) (snd a)" unfolding a_def by (rule tick_aged_goes)
      then have "goes 4 n (snd g) (fst b) (snd b)" unfolding b_def
        by (rule goes_trans [of 3 _ _ _ _ 1]) (rule tick_beat_goes [OF _ ph], simp_all)
      then show ?thesis by (rule goes_trans [of 4 _ _ _ _ 1]) (rule tick_pair_goes, simp_all)
    qed
    then show ?thesis by (rule goes_trans [OF g]) simp_all
  qed
  show ?thesis
    unfolding dh_helper_tick_def Let_def split_def h0_def [symmetric] g_def [symmetric] h1_def [symmetric] a_def [symmetric] b_def [symmetric]
    using dropg same live by simp
qed

text \<open>The frames the caller asks for are session frames.\<close>

definition session_emit :: "helper_op \<Rightarrow> bool" where
  "session_emit op = (case op of HEmit t flags body cap \<Rightarrow> dh_msg_is_authenticated t \<and> t \<noteq> DH_MSG_HELLO | _ \<Rightarrow> True)"

lemma emit_goes:
  assumes "next_counter nxt h" and "dh_msg_is_authenticated t" and "t \<noteq> DH_MSG_HELLO"
  shows "goes 12 nxt no_outputs (fst (helper_step I (HEmit t flags body cap) h)) (fst (snd (helper_step I (HEmit t flags body cap) h)))"
proof (cases "dh_helper_can_send_bulk h \<and> h_have_keys h")
  case True
  then have ph: "h_phase h = DH_HELPER_PHASE_LIVE" by (simp add: dh_helper_can_send_bulk_def)
  then have n: "nxt = Some (h_tx_counter h)" using True assms(1) by (simp add: next_counter_def)
  show ?thesis
  proof (cases "dh_auth_frame t flags (h_k_h2b h) (h_tx_counter h) body cap")
    case (Inr frame)
    have f: "frame_type frame = t" "frame_counter frame = h_tx_counter h"
      using encode_tagged_frame [OF Inr [folded encode_tagged_def]] by simp_all
    have g: "grows 12 [frame] no_outputs (out_slot no_outputs (output_zero\<lparr>ho_kind := DH_HELPER_OUT_SEND, ho_bytes := frame\<rparr>))"
      using grows_more [OF grows_slot [of "output_zero\<lparr>ho_kind := DH_HELPER_OUT_SEND, ho_bytes := frame\<rparr>" no_outputs], of 12] by simp
    have "goes 12 nxt no_outputs (h\<lparr>h_tx_counter := h_tx_counter h + 1\<rparr>) (out_slot no_outputs (output_zero\<lparr>ho_kind := DH_HELPER_OUT_SEND, ho_bytes := frame\<rparr>))"
      unfolding goes_def using f ph n assms(2,3) by (intro exI [of _ "[frame]"]) (simp add: g next_counter_def)
    then show ?thesis using True Inr by (simp add: dh_helper_emit_def)
  qed (use True goes_quiet [OF grows_refl assms(1)] in \<open>simp add: dh_helper_emit_def\<close>)
qed (use goes_quiet [OF grows_refl assms(1)] in \<open>auto simp: dh_helper_emit_def\<close>)

lemma device_appeared_phase: "h_phase (fst (dh_helper_device_appeared h which now out)) \<in> {h_phase h, DH_HELPER_PHASE_IDLE}"
  by (auto simp: dh_helper_device_appeared_def device_left_def Let_def split_def backoff_reset_def note_started_def)

lemma device_disappeared_idle: "h_phase (fst (dh_helper_device_disappeared h now out)) = DH_HELPER_PHASE_IDLE"
  by (simp add: dh_helper_device_disappeared_def device_left_def Let_def split_def)

lemma helper_step_goes:
  assumes "next_counter nxt h" and "session_emit op"
  shows "goes 12 nxt no_outputs (fst (helper_step I op h)) (fst (snd (helper_step I op h)))"
proof (cases op)
  case (HAppeared which now)
  have k: "next_counter nxt (fst (dh_helper_device_appeared h which now no_outputs))"
    using device_appeared_phase [of h which now no_outputs] device_appeared_parts(2) [of h which now no_outputs] assms(1)
    by (auto simp: next_counter_def keys_def no_keys_def)
  show ?thesis unfolding HAppeared using goes_quiet [OF grows_more [OF device_appeared_grows] k] by (simp add: split_def Let_def)
next
  case (HDisappeared now)
  have "grows 1 [] no_outputs (snd (dh_helper_device_disappeared h now no_outputs))"
    using device_left_grows by (simp add: dh_helper_device_disappeared_def split_def Let_def)
  then show ?thesis unfolding HDisappeared
    using goes_quiet [OF grows_more next_counter_idle [OF device_disappeared_idle]] by (simp add: split_def Let_def)
next
  case (HRefused a n now)
  then show ?thesis using goes_more [OF acquisition_refused_goes] by (simp add: split_def Let_def)
next
  case (HTransportFailed now)
  then show ?thesis using goes_more [OF goes_drop] by (simp add: split_def Let_def dh_helper_transport_failed_def)
next
  case (HEmit t flags body cap)
  then show ?thesis using emit_goes [OF assms(1)] assms(2) by (simp add: session_emit_def)
next
  case (HNoteSent now)
  have "next_counter nxt (dh_helper_note_sent h now)"
    using assms(1) by (simp add: next_counter_def dh_helper_note_sent_def note_started_def Let_def)
  then show ?thesis using HNoteSent goes_quiet [OF grows_refl] by simp
qed (use assms(1) channels_acquired_goes [of nxt no_outputs I _ h] received_goes [OF assms(1)] tick_goes [OF assms(1)]
      goes_quiet [OF grows_refl, of nxt _ 12 no_outputs] in
    \<open>simp_all add: split_def dh_helper_host_sleep_def dh_helper_note_send_refused_def dh_helper_set_payload_sink_def next_counter_def Let_def\<close>)

lemma helper_run_goes:
  assumes "next_counter nxt h" and "list_all session_emit ops"
  shows "counted nxt (tagged (sent_of (snd (helper_run I ops h))))"
  using assms
proof (induction ops arbitrary: nxt h)
  case (Cons op ops)
  obtain h' out calls where s: "helper_step I op h = (h', out, calls)" by (metis prod_cases3)
  obtain fs where fs: "grows 12 fs no_outputs out" "counted nxt (tagged fs)" "next_counter (counted_after nxt (tagged fs)) h'"
    using helper_step_goes [OF Cons.prems(1), of op I] Cons.prems(2) s by (auto simp: goes_def)
  then have "sent_of (hs_items out) = fs" by (auto simp: grows_def no_outputs_def)
  then show ?case using Cons.IH [OF fs(3)] Cons.prems(2) fs(2) s by (simp add: split_def Let_def tagged_def counted_append)
qed simp

text \<open>C9. Over any sequence of inputs (plug and unplug, sleep, acquisition, any bytes on any channel, ticks, sends), from
  start-up on, every tagged frame the helper puts on the wire is either a hello at counter zero or carries exactly the
  successor of the counter before it, with a session's first frame at zero: no counter is ever reused or skipped under one
  set of keys.\<close>

theorem helper_counters_consecutive:
  assumes "list_all session_emit ops"
  shows "counted None (tagged (sent_of (snd (helper_run I ops (dh_helper_init pinned)))))"
  by (rule helper_run_goes) (simp_all add: assms next_counter_idle dh_helper_init_def)

text \<open>Every input, whatever the state, fits the output buffer: at most twelve of its sixteen items are used and the
  overflow count stays at zero.\<close>

theorem helper_outputs_fit:
  "length (hs_items (fst (snd (helper_step I op h)))) \<le> 12 \<and> hs_overflow (fst (snd (helper_step I op h))) = 0"
proof (cases "session_emit op")
  case True
  have "\<exists>nxt. next_counter nxt h" by (cases "h_phase h") (auto simp: next_counter_def)
  then obtain fs where "grows 12 fs no_outputs (fst (snd (helper_step I op h)))" using helper_step_goes [OF _ True] unfolding goes_def by metis
  then show ?thesis by (auto simp: grows_def no_outputs_def)
next
  case False
  then obtain t flags body cap where "op = HEmit t flags body cap" by (auto simp: session_emit_def split: helper_op.splits)
  then show ?thesis by (auto simp: no_outputs_def out_slot_def split: prod.split sum.split)
qed

end
