(* ===== verification/DH_Helper_Spec.thy ===== *)
theory DH_Helper_Spec
  imports DH_Helper_Out
begin

text \<open>
  What the helper promises: the pinned key, the proof behind session keys, what reaches the clipboard layer, liveness by
  the clock, and the handshake composed with the board session.
\<close>

section \<open>What a received report can do\<close>

text \<open>The frame a report completes on its channel.\<close>

definition arrived :: "dh_helper \<Rightarrow> byte \<Rightarrow> byte list \<Rightarrow> dh_frame_view \<Rightarrow> bool" where
  "arrived h channel data f = (snd (dh_frame_reader_report (helper_reader h channel) data) = Inr f)"

lemma session_handlers_parts:
  "pin (fst (on_session_end h f body now out)) = pin h" "keys (fst (on_session_end h f body now out)) \<in> {keys h, no_keys}"
  "pin (fst (on_device_beat h f now out)) = pin h" "keys (fst (on_device_beat h f now out)) = keys h"
  "pin (fst (on_listener_alert h f body now out)) = pin h" "keys (fst (on_listener_alert h f body now out)) = keys h"
  "pin (fst (on_clip_policy h f body out)) = pin h" "keys (fst (on_clip_policy h f body out)) = keys h"
  "pin (fst (on_device_drops h f body out)) = pin h" "keys (fst (on_device_drops h f body out)) = keys h"
  by (simp_all add: on_session_end_def Let_def)
    (auto simp: on_device_beat_def on_clip_policy_def on_device_drops_def on_listener_alert_def Let_def part_defs set_state_def split: option.split)

lemma on_verified_parts:
  "pin (fst (on_verified h f body now out)) = pin h" "keys (fst (on_verified h f body now out)) \<in> {keys h, no_keys}"
proof -
  define h1 where "h1 = (if h_have_device_beat (h\<lparr>h_last_device_frame_at := now\<rparr>) \<and> fh_type (fv_hdr f) \<noteq> DH_MSG_DEVICE_HEARTBEAT
       then (h\<lparr>h_last_device_frame_at := now\<rparr>)\<lparr>h_last_device_beat_at := now, h_beat_quiet_noted := False\<rparr> else h\<lparr>h_last_device_frame_at := now\<rparr>)"
  have h1: "pin h1 = pin h" "keys h1 = keys h" by (simp_all add: h1_def part_defs)
  show "pin (fst (on_verified h f body now out)) = pin h" "keys (fst (on_verified h f body now out)) \<in> {keys h, no_keys}"
    unfolding on_verified_def Let_def split_def h1_def [symmetric] h1 [symmetric]
    using session_handlers_parts by simp_all
qed

lemma keys_rx: "keys (h\<lparr>h_rx := rx\<rparr>) = keys h"
  by (simp add: keys_def)

lemma on_authenticated_pin: "pin (fst (on_authenticated I h f now out)) = pin h"
  unfolding on_authenticated_def Let_def split_def
  by (auto simp: on_verified_parts split: sum.split dh_auth_err.split)

lemma on_authenticated_keys:
  "keys (fst (on_authenticated I h f now out)) \<in> {keys h, no_keys} \<or>
   (\<exists>k_h2b k_b2h. keys (fst (on_authenticated I h f now out)) = (True, k_h2b, k_b2h, 0) \<and> ack_proves I h f k_h2b k_b2h)"
proof (cases "fh_type (fv_hdr f) = DH_MSG_HELLO_ACK")
  case True
  then show ?thesis using on_hello_ack_keys [OF True] by (simp add: on_authenticated_def split_def Let_def)
next
  case False
  have "keys (fst (on_verified (h\<lparr>h_rx := rx\<rparr>) f body now out)) \<in> {keys h, no_keys}" for rx body
    using on_verified_parts(2) [of "h\<lparr>h_rx := rx\<rparr>" f body now out] unfolding keys_rx .
  then show ?thesis using False
    unfolding on_authenticated_def Let_def split_def by (auto simp: keys_rx split: sum.split dh_auth_err.split)
qed

lemma ack_proves_started:
  "ack_proves I (set_helper_reader (note_started h now) ch r) f k_h2b k_b2h = ack_proves I h f k_h2b k_b2h"
  by (simp add: ack_proves_def set_helper_reader_def note_started_def)

text \<open>The state of the helper after a report, by what the report completed.\<close>

lemma received_cases:
  obtains "fst (dh_helper_received_channel I e h ch data now out) = h" "snd (snd (dh_helper_received_channel I e h ch data now out)) = []"
  | r o1 where "fst (dh_helper_received_channel I e h ch data now out) = set_helper_reader (note_started h now) ch r"
      "snd (snd (dh_helper_received_channel I e h ch data now out)) = []"
  | r o1 n a b where "fst (dh_helper_received_channel I e h ch data now out) = fst (drop_connection (set_helper_reader (note_started h now) ch r) now o1 n a b)"
      "snd (snd (dh_helper_received_channel I e h ch data now out)) = []"
  | f r o1 where "arrived h ch data f" "dh_msg_is_authenticated (fh_type (fv_hdr f))"
      "dh_helper_received_channel I e h ch data now out = on_authenticated I (set_helper_reader (note_started h now) ch r) f now o1"
  | f r o1 where "arrived h ch data f" "\<not> dh_msg_is_authenticated (fh_type (fv_hdr f))"
      "dh_helper_received_channel I e h ch data now out =
        (let (h, out) = on_unauthenticated I e (set_helper_reader (note_started h now) ch r) f now o1 in (h, out, []))"
proof -
  define h1 where "h1 = note_started h now"
  obtain r rc where r: "dh_frame_reader_report (helper_reader h1 ch) data = (r, rc)" by fastforce
  have same: "helper_reader h1 ch = helper_reader h ch" by (simp add: h1_def helper_reader_def note_started_def)
  define h2 where "h2 = set_helper_reader h1 ch r"
  define o1 where "o1 = (if rd_resyncs r \<noteq> rd_resyncs (helper_reader h1 ch) then put_note out DH_NOTE_STREAM_MISALIGNED (rd_resyncs r) 0 else out)"
  show thesis
  proof (cases "ch \<ge> 2 \<or> (ch > 0 \<and> (\<not> h_have_negotiated h \<or> ch \<ge> ng_channel_count (h_negotiated h)))")
    case True
    then show thesis using that(1) by (auto simp: dh_helper_received_channel_def)
  next
    case False
    have eq: "dh_helper_received_channel I e h ch data now out = (case rc of
          Inl DH_FRAME_AGAIN \<Rightarrow> (h2, o1, [])
        | Inl err \<Rightarrow> (let (h, out) = drop_connection h2 now o1 DH_NOTE_PROTOCOL_ERROR (frame_code err) 0 in (h, out, []))
        | Inr f \<Rightarrow>
            if dh_msg_is_authenticated (fh_type (fv_hdr f)) then on_authenticated I h2 f now o1
            else (let (h, out) = on_unauthenticated I e h2 f now o1 in (h, out, [])))"
      unfolding dh_helper_received_channel_def Let_def h1_def [symmetric] r
      using False by (simp only: if_False prod.case h2_def [symmetric] o1_def [symmetric])
    show thesis
    proof (cases rc)
      case (Inr f)
      then have "arrived h ch data f" using r same by (simp add: arrived_def)
      then show thesis using that(4,5) [of f r o1] eq Inr unfolding h2_def h1_def by (cases "dh_msg_is_authenticated (fh_type (fv_hdr f))") simp_all
    next
      case (Inl err)
      then show thesis using that(2,3) eq unfolding h2_def h1_def by (cases err) (auto simp: split_def Let_def)
    qed
  qed
qed

definition skeys :: "bool \<times> byte list \<times> byte list \<times> u64 \<Rightarrow> bool \<times> byte list \<times> byte list" where
  "skeys k = (fst k, fst (snd k), fst (snd (snd k)))"

lemma tick_tail_parts:
  "pin (fst (tick_beat h now out)) = pin h" "skeys (keys (fst (tick_beat h now out))) = skeys (keys h)"
  "pin (fst (tick_pair I e h now out)) = pin h" "keys (fst (tick_pair I e h now out)) = keys h"
proof -
  show "pin (fst (tick_beat h now out)) = pin h" "skeys (keys (fst (tick_beat h now out))) = skeys (keys h)"
    by (simp_all add: tick_beat_def part_defs skeys_def split: sum.split)
  obtain h' r where b: "build_pair_request I e h now 76 = (h', r)" by fastforce
  show "pin (fst (tick_pair I e h now out)) = pin h" "keys (fst (tick_pair I e h now out)) = keys h"
    using build_pair_request_parts [of I e h now 76] by (simp_all add: tick_pair_def b split: option.split)
qed

lemma tick_parts:
  "pin (fst (dh_helper_tick I e h now out)) = pin h"
  "skeys (keys (fst (dh_helper_tick I e h now out))) \<in> {skeys (keys h), skeys no_keys}"
proof -
  define g where "g = tick_deferred (tick_windows (note_started h now) now) now out"
  have g: "pin (fst g) = pin h" "keys (fst g) = keys h"
    using tick_windows_parts [of "note_started h now" now] by (simp_all add: g_def tick_deferred_parts)
  define h1 where "h1 = (if h_have_device_drops (fst g) \<and> (\<not> h_have_chain (fst g) \<or> helper_elapsed now (h_chain_at_ms (fst g)) DH_HELPER_CHAIN_SAMPLE_MS)
      then (fst g)\<lparr>h_chain_reports_in := dd_reports_in (h_device_drops (fst g)), h_chain_at_ms := now, h_have_chain := True\<rparr> else fst g)"
  have h1: "pin h1 = pin h" "keys h1 = keys h" using g by (simp_all add: h1_def part_defs)
  have u: "pin ((fst g)\<lparr>h_hello_went_unanswered := True\<rparr>) = pin h" using g by (simp add: pin_def)
  show "pin (fst (dh_helper_tick I e h now out)) = pin h"
    "skeys (keys (fst (dh_helper_tick I e h now out))) \<in> {skeys (keys h), skeys no_keys}"
    unfolding dh_helper_tick_def Let_def split_def g_def [symmetric] h1_def [symmetric]
    using g h1 u by (simp_all add: tick_tail_parts tick_aged_parts)
qed

text \<open>The first pin: which grant pinned what, and that the key is handed on to be stored.\<close>

definition granted_pin :: "dh_helper \<Rightarrow> dh_frame_view \<Rightarrow> byte list \<Rightarrow> bool" where
  "granted_pin h f key =
     (fh_type (fv_hdr f) = DH_MSG_PAIR_GRANT \<and> h_pairing_requested h \<and> \<not> h_have_board_key h \<and>
      (\<exists>grant. dh_pair_grant_decode (view_payload f) = Some grant \<and> pg_correlation grant = h_pair_correlation h \<and>
         pg_board_public grant = key))"

lemma on_unauthenticated_pin:
  "pin (fst (on_unauthenticated I e h f now out)) = pin h \<or>
   (\<exists>key. granted_pin h f key \<and> pin (fst (on_unauthenticated I e h f now out)) = (True, key))"
  using on_pair_grant_pin [of I e h f now out] by (auto simp: on_unauthenticated_def granted_pin_def Let_def)

lemma received_pin:
  "pin (fst (dh_helper_received_channel I e h ch data now out)) = pin h \<or>
   (\<exists>f key. arrived h ch data f \<and> granted_pin h f key \<and> pin (fst (dh_helper_received_channel I e h ch data now out)) = (True, key))"
proof (cases rule: received_cases [of I e h ch data now out])
  case (5 f r o1)
  then show ?thesis using on_unauthenticated_pin [of I e "set_helper_reader (note_started h now) ch r" f now o1]
    by (auto simp: split_def Let_def granted_pin_def set_helper_reader_def note_started_def pin_def split: if_splits)
qed (simp_all add: on_authenticated_pin)

lemma received_keys:
  "keys (fst (dh_helper_received_channel I e h ch data now out)) \<in> {keys h, no_keys} \<or>
   (\<exists>f k_h2b k_b2h. arrived h ch data f \<and> keys (fst (dh_helper_received_channel I e h ch data now out)) = (True, k_h2b, k_b2h, 0) \<and>
      ack_proves I h f k_h2b k_b2h)"
proof (cases rule: received_cases [of I e h ch data now out])
  case (4 f r o1)
  then show ?thesis using on_authenticated_keys [of I "set_helper_reader (note_started h now) ch r" f now o1]
    by (auto simp: ack_proves_started)
next
  case (5 f r o1)
  define h2 where "h2 = set_helper_reader (note_started h now) ch r"
  have "keys (fst (on_unauthenticated I e h2 f now o1)) \<in> {keys h2, no_keys}"
    using on_hello_refused_parts(2) [of h2 f now o1] by (simp add: on_unauthenticated_def Let_def)
  then show ?thesis using 5 by (simp add: split_def Let_def h2_def [symmetric]) (auto simp: h2_def)
qed simp_all

lemma other_parts:
  "pin (dh_helper_host_sleep h a now) = pin h" "keys (dh_helper_host_sleep h a now) = keys h"
  "pin (dh_helper_note_sent h now) = pin h" "keys (dh_helper_note_sent h now) = keys h"
  "pin (dh_helper_note_send_refused h) = pin h" "keys (dh_helper_note_send_refused h) = keys h"
  "pin (dh_helper_set_payload_sink h fn) = pin h" "keys (dh_helper_set_payload_sink h fn) = keys h"
  "pin (fst (dh_helper_emit h t fl body cap)) = pin h" "skeys (keys (fst (dh_helper_emit h t fl body cap))) = skeys (keys h)"
  by (auto simp: dh_helper_host_sleep_def dh_helper_note_sent_def note_started_def dh_helper_note_send_refused_def
      dh_helper_set_payload_sink_def dh_helper_emit_def pin_def keys_def skeys_def Let_def split: sum.split)

lemma transport_failed_parts:
  "pin (fst (dh_helper_transport_failed h now out)) = pin h" "keys (fst (dh_helper_transport_failed h now out)) = no_keys"
  by (simp_all add: dh_helper_transport_failed_def)

lemma emit_state: "fst (helper_step I (HEmit t fl body cap) h) = fst (dh_helper_emit h t fl body cap)"
  by (simp split: prod.split sum.split)

lemma step_pin:
  "pin (fst (helper_step I op h)) = pin h \<or>
   (\<exists>e ch data now f key. op = HReceived e ch data now \<and> arrived h ch data f \<and> granted_pin h f key \<and>
      pin (fst (helper_step I op h)) = (True, key))"
proof (cases op)
  case (HReceived e ch data now)
  then show ?thesis using received_pin [of I e h ch data now no_outputs] by auto
next
  case (HEmit t fl body cap)
  then show ?thesis by (simp add: emit_state other_parts del: helper_step.simps)
qed (simp_all add: split_def Let_def other_parts transport_failed_parts tick_parts)

lemma step_keys:
  "skeys (keys (fst (helper_step I op h))) \<in> {skeys (keys h), skeys no_keys} \<or>
   (\<exists>e ch data now f k_h2b k_b2h. op = HReceived e ch data now \<and> arrived h ch data f \<and> ack_proves I h f k_h2b k_b2h \<and>
      keys (fst (helper_step I op h)) = (True, k_h2b, k_b2h, 0))"
proof (cases op)
  case (HAppeared which now)
  then show ?thesis using device_appeared_parts(2) [of h which now no_outputs] by (auto simp: split_def Let_def)
next
  case (HReceived e ch data now)
  then show ?thesis using received_keys [of I e h ch data now no_outputs] by auto
next
  case (HEmit t fl body cap)
  then show ?thesis by (simp add: emit_state other_parts del: helper_step.simps)
qed (use tick_parts(2) in \<open>simp_all add: split_def Let_def other_parts transport_failed_parts\<close>)

text \<open>The sink: only what the session's inbound key and window let through.\<close>

definition sink_verified :: "dh_helper \<Rightarrow> dh_frame_view \<Rightarrow> byte \<times> byte list \<Rightarrow> bool" where
  "sink_verified h f call =
     (h_have_keys h \<and> fst call = fh_type (fv_hdr f) \<and>
      fh_type (fv_hdr f) \<notin> {DH_MSG_HELLO_ACK, DH_MSG_SESSION_END, DH_MSG_DEVICE_HEARTBEAT, DH_MSG_LISTENER_ALERT, DH_MSG_CLIP_POLICY, DH_MSG_DEVICE_DROPS} \<and>
      snd (dh_auth_open (h_k_b2h h) (fv_hdr f) (fv_payload f) (h_rx h)) = Inr (snd call))"

lemma on_authenticated_sink:
  assumes "call \<in> set (snd (snd (on_authenticated I h f now out)))"
  shows "snd (snd (on_authenticated I h f now out)) = [call]" and "sink_verified h f call"
    and "h_rx (fst (on_authenticated I h f now out)) = fst (dh_auth_open (h_k_b2h h) (fv_hdr f) (fv_payload f) (h_rx h))"
proof -
  obtain rx rc where op: "dh_auth_open (h_k_b2h h) (fv_hdr f) (fv_payload f) (h_rx h) = (rx, rc)" by fastforce
  have t: "fh_type (fv_hdr f) \<noteq> DH_MSG_HELLO_ACK" "h_have_keys h"
    using assms by (auto simp: on_authenticated_def split_def Let_def split: if_splits)
  have "\<exists>body. rc = Inr body" using assms t op
    by (auto simp: on_authenticated_def split_def Let_def split: if_splits sum.splits dh_auth_err.splits)
  then obtain body where b: "rc = Inr body" ..
  have e: "on_authenticated I h f now out = on_verified (h\<lparr>h_rx := rx\<rparr>) f body now out"
    using t op b by (simp add: on_authenticated_def)
  show "snd (snd (on_authenticated I h f now out)) = [call]" "sink_verified h f call"
    "h_rx (fst (on_authenticated I h f now out)) = fst (dh_auth_open (h_k_b2h h) (fv_hdr f) (fv_payload f) (h_rx h))"
    using assms t op b unfolding e on_verified_def sink_verified_def
    by (auto simp: split_def Let_def split: if_splits)
qed

lemma step_sink:
  assumes "call \<in> set (snd (snd (helper_step I op h)))"
  obtains e ch data now f where "op = HReceived e ch data now" and "arrived h ch data f" and "sink_verified h f call"
    and "snd (snd (helper_step I op h)) = [call]"
    and "h_rx (fst (helper_step I op h)) = fst (dh_auth_open (h_k_b2h h) (fv_hdr f) (fv_payload f) (h_rx h))"
proof -
  obtain e ch data now where op: "op = HReceived e ch data now"
    using assms by (cases op) (auto simp: split_def Let_def split: sum.splits)
  then have c: "call \<in> set (snd (snd (dh_helper_received_channel I e h ch data now no_outputs)))" using assms by simp
  show thesis
  proof (cases rule: received_cases [of I e h ch data now no_outputs])
    case (4 f r o1)
    have k: "h_k_b2h (set_helper_reader (note_started h now) ch r) = h_k_b2h h" "h_rx (set_helper_reader (note_started h now) ch r) = h_rx h"
      "h_have_keys (set_helper_reader (note_started h now) ch r) = h_have_keys h"
      by (simp_all add: set_helper_reader_def note_started_def)
    note s = on_authenticated_sink [OF c [unfolded 4(3)]]
    show thesis by (rule that [OF op 4(1)]) (use s k op 4(3) in \<open>simp_all add: sink_verified_def\<close>)
  qed (use c in \<open>simp_all add: split_def Let_def\<close>)
qed

text \<open>C10. The pinned board key: over any sequence of inputs a pinned key never changes, so a board that answers with another
  key cannot take its place; and a first key is pinned only by a pair grant that answers, with its correlation, a request this
  helper made, on a helper that had none.\<close>

theorem helper_pin_stable:
  "(h_have_board_key h \<longrightarrow> pin (fst (helper_run I ops h)) = pin h) \<and>
   (pin (fst (helper_step I op h)) \<noteq> pin h \<longrightarrow>
     (\<exists>e ch data now f key. op = HReceived e ch data now \<and> arrived h ch data f \<and> granted_pin h f key \<and>
        pin (fst (helper_step I op h)) = (True, key)))"
proof
  show "h_have_board_key h \<longrightarrow> pin (fst (helper_run I ops h)) = pin h"
  proof (induction ops arbitrary: h)
    case (Cons op ops)
    show ?case
    proof
      assume k: "h_have_board_key h"
      then have p: "pin (fst (helper_step I op h)) = pin h" using step_pin [of I op h] by (auto simp: granted_pin_def)
      then have "h_have_board_key (fst (helper_step I op h))" using k by (simp add: pin_def)
      then show "pin (fst (helper_run I (op # ops) h)) = pin h" using Cons.IH p by (simp add: split_def Let_def)
    qed
  qed simp
  show "pin (fst (helper_step I op h)) \<noteq> pin h \<longrightarrow>
     (\<exists>e ch data now f key. op = HReceived e ch data now \<and> arrived h ch data f \<and> granted_pin h f key \<and>
        pin (fst (helper_step I op h)) = (True, key))"
    using step_pin [of I op h] by blast
qed

text \<open>Session keys need proof: whatever the input, a helper that holds session keys after it held those keys before, or the
  input completed a hello ack that verifies under the keys derived from the pinned board key and the nonce of the hello it is
  waiting on, echoing that hello's correlation; those are then the keys, and the counter starts at zero.\<close>

theorem helper_keys_need_proof:
  assumes "helper_step I op h = (h', out, calls)" and "h_have_keys h'"
  shows "(h_have_keys h \<and> h_k_h2b h' = h_k_h2b h \<and> h_k_b2h h' = h_k_b2h h) \<or>
    (\<exists>e ch data now f. op = HReceived e ch data now \<and> arrived h ch data f \<and> ack_proves I h f (h_k_h2b h') (h_k_b2h h') \<and> h_tx_counter h' = 0)"
  using step_keys [of I op h] assms by (auto simp: keys_def no_keys_def skeys_def)

text \<open>Nothing reaches the clipboard layer unverified: a body handed to the sink came out of the report just received,
  opened under the session's inbound key with a counter the window admits, is not one of the session's own messages, and the
  window has recorded its counter.\<close>

theorem helper_sink_verified:
  assumes "helper_step I op h = (h', out, calls)" and "call \<in> set calls"
  shows "\<exists>e ch data now f. op = HReceived e ch data now \<and> arrived h ch data f \<and> sink_verified h f call \<and> calls = [call] \<and>
    h_rx h' = fst (dh_auth_open (h_k_b2h h) (fv_hdr f) (fv_payload f) (h_rx h))"
  by (rule step_sink [of call I op h]) (use assms in auto)

section \<open>The handshake between a helper and a board\<close>

lemma tagged_encodes:
  assumes "encode_tagged t fl key n body cap = Inr bs" and "dh_msg_type_known t"
  obtains p where "dh_frame_encode t fl p cap = Inr bs" and "length p = 24 + length body" and "unat (of_nat (length p) :: u16) = length p"
    and "drop 24 p = body" and "take 8 p = le_bytes 8 n"
    and "\<And>c. dh_auth_counter_ok c n \<Longrightarrow> dh_auth_open key (fv_hdr (frame_of t fl p)) p c = (dh_auth_counter_accept c n, Inr body)"
proof -
  note sh = auth_frame_shape [OF assms(1) [unfolded encode_tagged_def]]
  define p where "p = le_bytes 8 n @ dh_auth_tag key t fl (of_nat (24 + length body)) n body @ body"
  have len: "unat (of_nat (24 + length body) :: u16) = 24 + length body"
    using sh(2) by (intro word_conv) simp
  have pl: "length p = 24 + length body" by (simp add: p_def)
  have enc: "dh_frame_encode t fl p cap = Inr bs"
    using sh assms(2) pl unfolding dh_frame_encode_def Let_def p_def [symmetric] by simp
  have tag: "tag_verifies key (fv_hdr (frame_of t fl p)) p"
    using len by (simp add: tag_verifies_def frame_of_def pl) (simp add: p_def auth_tag_eq)
  have op: "dh_auth_open key (fv_hdr (frame_of t fl p)) p c = (dh_auth_counter_accept c n, Inr body)" if "dh_auth_counter_ok c n" for c
    using auth_open_cases [of p "fv_hdr (frame_of t fl p)" key c] tag that len pl
    by (simp add: frame_of_def) (simp add: p_def of_le_bytes_le_bytes)
  have "unat (of_nat (length p) :: u16) = length p" unfolding pl by (rule len)
  moreover have "drop 24 p = body" "take 8 p = le_bytes 8 n" by (simp_all add: p_def)
  ultimately show thesis by (rule that [OF enc pl _ _ _ op])
qed

lemma bodies_decode:
  "length (he_helper_key_id x) = 8 \<Longrightarrow> length (he_helper_nonce x) = 16 \<Longrightarrow> dh_hello_decode (hello_body x) = Some x"
  "length (ha_board_nonce y) = 16 \<Longrightarrow> dh_hello_ack_decode (hello_ack_body y) = Some y"
  by (simp_all add: dh_hello_decode_def hello_body_def dh_hello_ack_decode_def hello_ack_body_def nth_append drop_exact)

text \<open>A frame that arrives in reports on channel zero reaches the dispatcher as one frame.\<close>

lemma helper_feeds:
  assumes "feed_reports (h_reader h) xs = (r', replicate k (Inl DH_FRAME_AGAIN) @ [Inr f])" and "dh_msg_is_authenticated (fh_type (fv_hdr f))"
  shows "\<exists>out. fst (helper_run I (map (\<lambda>x. HReceived e 0 x now) xs) h) = fst (on_authenticated I (set_helper_reader (note_started h now) 0 r') f now out)"
  using assms(1)
proof (induction xs arbitrary: h k)
  case (Cons x xs)
  obtain r1 rc where r1: "dh_frame_reader_report (h_reader h) x = (r1, rc)" by fastforce
  obtain r2 rcs where r2: "feed_reports r1 xs = (r2, rcs)" by fastforce
  have e: "rc # rcs = replicate k (Inl DH_FRAME_AGAIN) @ [Inr f]" "r' = r2" using Cons.prems r1 r2 by simp_all
  have hr: "helper_reader (note_started h now) 0 = h_reader h" by (simp add: helper_reader_def note_started_def)
  have len: "length rcs = length xs" using r2
  proof (induction xs arbitrary: r1 rcs)
    case (Cons y ys)
    then show ?case by (cases "feed_reports (fst (dh_frame_reader_report r1 y)) ys") (auto simp: split_def Let_def)
  qed simp
  show ?case
  proof (cases k)
    case 0
    then have "rc = Inr f" "xs = []" "r' = r1" using e len r2 by auto
    then show ?thesis using r1 assms(2) by (auto simp: dh_helper_received_channel_def hr Let_def split_def)
  next
    case (Suc j)
    then have again: "rc = Inl DH_FRAME_AGAIN" "rcs = replicate j (Inl DH_FRAME_AGAIN) @ [Inr f]" using e by auto
    define h1 where "h1 = set_helper_reader (note_started h now) 0 r1"
    have step: "fst (helper_step I (HReceived e 0 x now) h) = h1"
      using r1 again by (simp add: dh_helper_received_channel_def hr Let_def split_def h1_def)
    have "feed_reports (h_reader h1) xs = (r', replicate j (Inl DH_FRAME_AGAIN) @ [Inr f])"
      using r2 again e(2) by (simp add: h1_def set_helper_reader_def)
    then obtain out where "fst (helper_run I (map (\<lambda>x. HReceived e 0 x now) xs) h1) = fst (on_authenticated I (set_helper_reader (note_started h1 now) 0 r') f now out)"
      using Cons.IH by blast
    moreover have "set_helper_reader (note_started h1 now) 0 r' = set_helper_reader (note_started h now) 0 r'"
      by (simp add: h1_def set_helper_reader_def note_started_def)
    ultimately show ?thesis using step by (auto simp: split_def Let_def)
  qed
qed simp

text \<open>A helper that waits on the answer to a hello, and the hello it sent.\<close>

definition hello_of :: "dh_helper_identity \<Rightarrow> helper_draws \<Rightarrow> bool \<Rightarrow> dh_hello" where
  "hello_of I e config = \<lparr>he_proto_version = DH_PROTO_VERSION, he_os = hi_os I, he_build_type = hi_build_type I,
     he_channel_count = (if config then 1 else 2), he_max_chunk = DH_SESSION_MAX_CHUNK,
     he_correlation = fresh_correlation (dr_hello e), he_helper_key_id = hi_key_id I, he_helper_nonce = dr_nonce e\<rparr>"

definition waits_on :: "dh_helper_identity \<Rightarrow> helper_draws \<Rightarrow> byte list \<Rightarrow> dh_helper \<Rightarrow> bool" where
  "waits_on I e ss h =
     (h_phase h = DH_HELPER_PHASE_AWAITING_ACK \<and> h_have_board_key h \<and> h_have_nonce h \<and> h_helper_nonce h = dr_nonce e \<and>
      h_hello_correlation h = fresh_correlation (dr_hello e) \<and> hi_ecdh I (h_board_public_key h) = Some ss)"

lemma board_answers:
  assumes "dh_pair_shared_secret pair = Some ss" and "dh_pair_is_registered_key pair (Some (he_helper_key_id hello))"
    and "length (he_helper_key_id hello) = 8" and "length (he_helper_nonce hello) = 16" and "he_proto_version hello = DH_PROTO_VERSION"
    and "encode_tagged DH_MSG_HELLO 0 (dh_auth_derive_hello_key ss (he_helper_nonce hello)) 0 (hello_body hello) 76 = Inr bs"
    and "se_nonce_staged s"
  obtains p where "dh_frame_encode DH_MSG_HELLO 0 p 76 = Inr bs"
    and "dh_session_on_frame E s pair (frame_of DH_MSG_HELLO 0 p) now 76 = (let (s', rc) = establish s ss hello now 76 in (s', pair, rc))"
proof -
  have known: "dh_msg_type_known DH_MSG_HELLO" by (simp add: dh_msg_type_known_def dh_msg_types_def)
  obtain p where p: "dh_frame_encode DH_MSG_HELLO 0 p 76 = Inr bs" "unat (of_nat (length p) :: u16) = length p" "length p = 24 + length (hello_body hello)"
    "drop 24 p = hello_body hello"
    "\<And>c. dh_auth_counter_ok c 0 \<Longrightarrow> dh_auth_open (dh_auth_derive_hello_key ss (he_helper_nonce hello)) (fv_hdr (frame_of DH_MSG_HELLO 0 p)) p c =
       (dh_auth_counter_accept c 0, Inr (hello_body hello))"
    using tagged_encodes [OF assms(6) known] by metis
  have r: "hello_readable (frame_of DH_MSG_HELLO 0 p) = Some hello"
    using bodies_decode(1) [OF assms(3,4)] p by (simp add: hello_readable_def view_payload_def frame_of_def)
  have o: "\<not> isl (snd (dh_auth_open (dh_auth_derive_hello_key ss (he_helper_nonce hello)) (fv_hdr (frame_of DH_MSG_HELLO 0 p))
      (fv_payload (frame_of DH_MSG_HELLO 0 p)) dh_auth_counter_init))"
    using p(5) [of dh_auth_counter_init] by (simp add: dh_auth_counter_ok_def dh_auth_counter_init_def frame_of_def)
  have "answer_hello s pair (frame_of DH_MSG_HELLO 0 p) now 76 = establish s ss hello now 76"
    using r o assms by (simp add: answer_hello_def Let_def)
  then have "dh_session_on_frame E s pair (frame_of DH_MSG_HELLO 0 p) now 76 = (let (s', rc) = establish s ss hello now 76 in (s', pair, rc))"
    by (simp add: dh_session_on_frame_def) (simp add: frame_of_def)
  with p(1) show thesis by (rule that)
qed

lemma helper_commits:
  assumes "length (se_staged_nonce s) = 16" and "he_helper_nonce hello = dr_nonce e" and "he_correlation hello = fresh_correlation (dr_hello e)"
  obtains s' bs p where "establish s ss hello now 76 = (s', Inr (Some bs))" and "dh_frame_encode DH_MSG_HELLO_ACK 0 p 76 = Inr bs"
    and "se_present s'" and "se_rx s' = dh_auth_counter_init" and "se_tx_counter s' = 1"
    and "\<And>h t out. waits_on I e ss h \<Longrightarrow> negotiate_channels (he_channel_count hello) \<le> h_acquired_channels h \<Longrightarrow>
      fst (on_hello_ack I h (frame_of DH_MSG_HELLO_ACK 0 p) t out) =
      fst (ack_commit h (se_k_h2b s') (se_k_b2h s') (dh_auth_counter_accept dh_auth_counter_init 0)
        \<lparr>ha_correlation = he_correlation hello, ha_proto_version = DH_PROTO_VERSION, ha_build_type = se_build_type s,
         ha_channel_count = se_channel_count s', ha_max_chunk = se_max_chunk s', ha_board_nonce = se_staged_nonce s\<rparr> t out)"
proof -
  obtain k1 k2 where k: "dh_auth_derive_session_keys ss (dr_nonce e) (se_staged_nonce s) = (k1, k2)" by fastforce
  define ack where "ack = \<lparr>ha_correlation = he_correlation hello, ha_proto_version = DH_PROTO_VERSION,
                 ha_build_type = se_build_type s, ha_channel_count = negotiate_channels (he_channel_count hello),
                 ha_max_chunk = negotiate_chunk (he_max_chunk hello), ha_board_nonce = se_staged_nonce s\<rparr>"
  have l: "length (hello_ack_body ack) = 30" using assms(1) by (simp add: hello_ack_body_def ack_def)
  then obtain bs where bs: "encode_tagged DH_MSG_HELLO_ACK 0 k2 0 (hello_ack_body ack) 76 = Inr bs"
    using encode_tagged_ok [of "hello_ack_body ack" 76] by fastforce
  define s' where "s' = fst (establish s ss hello now 76)"
  have est: "establish s ss hello now 76 = (s', Inr (Some bs))" "se_present s'" "se_k_h2b s' = k1" "se_k_b2h s' = k2"
    "se_channel_count s' = ha_channel_count ack" "se_max_chunk s' = ha_max_chunk ack"
    "se_rx s' = dh_auth_counter_init" "se_tx_counter s' = 1"
    using k bs assms(2) by (simp_all add: s'_def establish_def Let_def dh_hello_ack_encode_def ack_def)
  have known: "dh_msg_type_known DH_MSG_HELLO_ACK" by (simp add: dh_msg_type_known_def dh_msg_types_def)
  obtain p where p: "dh_frame_encode DH_MSG_HELLO_ACK 0 p 76 = Inr bs" "unat (of_nat (length p) :: u16) = length p" "length p = 24 + 30"
    "drop 24 p = hello_ack_body ack"
    "\<And>c. dh_auth_counter_ok c 0 \<Longrightarrow> dh_auth_open k2 (fv_hdr (frame_of DH_MSG_HELLO_ACK 0 p)) p c = (dh_auth_counter_accept c 0, Inr (hello_ack_body ack))"
    using tagged_encodes [OF bs known] l by metis
  have "take 16 (drop 38 p) = take 16 (drop 14 (hello_ack_body ack))" unfolding p(4) [symmetric] by simp
  then have peek: "peek_board_nonce (frame_of DH_MSG_HELLO_ACK 0 p) = Some (se_staged_nonce s)"
    using assms(1) p(2,3) by (simp add: peek_board_nonce_def frame_of_def hello_ack_body_def ack_def)
  have op: "dh_auth_open k2 (fv_hdr (frame_of DH_MSG_HELLO_ACK 0 p)) (fv_payload (frame_of DH_MSG_HELLO_ACK 0 p)) dh_auth_counter_init =
      (dh_auth_counter_accept dh_auth_counter_init 0, Inr (hello_ack_body ack))"
    using p(5) [of dh_auth_counter_init] by (simp add: dh_auth_counter_ok_def dh_auth_counter_init_def frame_of_def)
  have dec: "dh_hello_ack_decode (hello_ack_body ack) = Some ack" using assms(1) by (intro bodies_decode) (simp add: ack_def)
  have cc: "\<not> (ha_channel_count ack = 0 \<or> ha_channel_count ack > 2)"
    by (auto simp: ack_def negotiate_channels_def)
  have "on_hello_ack I h (frame_of DH_MSG_HELLO_ACK 0 p) t out =
      ack_commit h k1 k2 (dh_auth_counter_accept dh_auth_counter_init 0) ack t out"
    if "waits_on I e ss h" "negotiate_channels (he_channel_count hello) \<le> h_acquired_channels h" for h t out
  proof -
    have "\<not> ha_channel_count ack > h_acquired_channels h" using that(2) by (simp add: ack_def not_less)
    then show ?thesis using that(1) assms(3) peek k op dec cc by (simp add: on_hello_ack_def waits_on_def ack_def)
  qed
  then show thesis using est p(1) by (intro that [of s' bs p]) (simp_all add: ack_def)
qed

lemma ack_commit_negotiated:
  "h_negotiated (fst (ack_commit h k1 k2 rx ack t out)) =
     \<lparr>ng_channel_count = ha_channel_count ack, ng_max_chunk = ha_max_chunk ack, ng_device_build = ha_build_type ack\<rparr>"
  "h_have_negotiated (fst (ack_commit h k1 k2 rx ack t out))" "h_rx (fst (ack_commit h k1 k2 rx ack t out)) = rx"
  by (simp_all add: ack_commit_def Let_def report_repeated_reconnection_def set_state_def backoff_reset_def)

definition session_agrees :: "dh_helper \<Rightarrow> dh_session \<Rightarrow> bool" where
  "session_agrees h s =
     (dh_helper_can_send_bulk h \<and> h_have_keys h \<and> se_present s \<and> h_k_h2b h = se_k_h2b s \<and> h_k_b2h h = se_k_b2h s \<and>
      ng_channel_count (h_negotiated h) = se_channel_count s \<and> ng_max_chunk (h_negotiated h) = se_max_chunk s \<and>
      h_tx_counter h = 0 \<and> se_rx s = dh_auth_counter_init \<and> se_tx_counter s = 1 \<and>
      h_rx h = dh_auth_counter_accept dh_auth_counter_init 0)"

lemma acquired_hello:
  assumes "h_have_board_key h" and "hi_ecdh I (h_board_public_key h) = Some ss" and "length (hi_key_id I) = 8" and "length (dr_nonce e) = 16"
    and "helper_step I (HAcquired e count t0) h = (h1, out, calls)" and "reader_inv (h_reader h)"
  obtains hello rest where "sent_of (hs_items out) = hello # rest"
    and "encode_tagged DH_MSG_HELLO 0 (dh_auth_derive_hello_key ss (dr_nonce e)) 0 (hello_body (hello_of I e (h_config_mode h))) 76 = Inr hello"
    and "waits_on I e ss h1" and "h_acquired_channels h1 = count" and "reader_inv (h_reader h1)"
proof -
  define h0 where "h0 = (note_started ((forget_session h)\<lparr>h_acquired_channels := count\<rparr>) t0)\<lparr>h_holding_channels := True\<rparr>"
  define h' where "h' = h0\<lparr>h_phase := DH_HELPER_PHASE_AWAITING_ACK, h_hello_sent_at := t0, h_last_sent_at := t0, h_last_device_frame_at := t0\<rparr>"
  have h0: "h_have_board_key h0" "h_board_public_key h0 = h_board_public_key h" "h_acquired_channels h0 = count" "h_config_mode h0 = h_config_mode h"
    "h_reader h0 = dh_frame_reader_init (h_reader h)"
    using assms(1) by (simp_all add: h0_def note_started_def forget_session_def forget_crypto_state_def forget_beat_trace_def)
  have l: "length (hello_body (hello_of I e (h_config_mode h))) = 39" using assms(3,4) by (simp add: hello_body_def hello_of_def)
  then obtain bs where bs: "encode_tagged DH_MSG_HELLO 0 (dh_auth_derive_hello_key ss (dr_nonce e)) 0 (hello_body (hello_of I e (h_config_mode h))) 76 = Inr bs"
    using encode_tagged_ok [of "hello_body (hello_of I e (h_config_mode h))" 76] by fastforce
  define h3 where "h3 = h'\<lparr>h_helper_nonce := dr_nonce e, h_have_nonce := True, h_hello_correlation := fresh_correlation (dr_hello e)\<rparr>"
  have b: "build_hello I e h' 76 no_outputs = (h3, no_outputs, Some bs)"
    using bs assms(2) h0 by (simp add: build_hello_def Let_def h3_def dh_hello_encode_def hello_of_def h'_def)
  have len: "length bs \<le> 76" by (rule auth_frame_shape(3) [OF bs [unfolded encode_tagged_def]])
  define o1 where "o1 = put_bytes no_outputs DH_HELPER_OUT_SEND bs"
  have o1: "hs_items o1 = [output_zero\<lparr>ho_kind := DH_HELPER_OUT_SEND, ho_bytes := bs\<rparr>]"
    using len by (simp add: o1_def put_bytes_def out_slot_def no_outputs_def)
  have inv: "reader_inv (dh_frame_reader_init (h_reader h))"
    using assms(6) by (intro reader_inv_empty) (simp_all add: reader_inv_def dh_frame_reader_init_def)
  have w: "waits_on I e ss k \<and> h_acquired_channels k = count \<and> reader_inv (h_reader k)"
    if "k = h3\<lparr>h_have_deferred := False\<rparr> \<or> (\<exists>x y z w. k = h3\<lparr>h_have_deferred := False, h_pair_correlation := x, h_pairing_requested := y, h_pairing_requested_at := z, h_last_sent_at := w\<rparr>)" for k
    using that h0 assms(2) inv by (auto simp: waits_on_def h3_def h'_def)
  have step: "dh_helper_channels_acquired I e h count t0 no_outputs =
      (if h_state h3 = DH_HELPER_RECONNECTING_REPEATEDLY \<and> h_hello_went_unanswered h3 then
         (case build_pair_request I e (h3\<lparr>h_have_deferred := False\<rparr>) t0 76 of
                 (h, None) \<Rightarrow> (h, o1)
               | (h, Some frame) \<Rightarrow> (h, put_bytes (put_note o1 DH_NOTE_ASKING_TO_BE_PAIRED 0 0) DH_HELPER_OUT_SEND frame))
       else (h3\<lparr>h_have_deferred := False\<rparr>, o1))"
    unfolding dh_helper_channels_acquired_def Let_def h0_def [symmetric]
    using h0(1) by (simp add: h'_def [symmetric] b o1_def [symmetric])
  obtain h4 q where q: "build_pair_request I e (h3\<lparr>h_have_deferred := False\<rparr>) t0 76 = (h4, q)" by fastforce
  have h4: "waits_on I e ss h4 \<and> h_acquired_channels h4 = count \<and> reader_inv (h_reader h4)"
    by (rule w) (use q in \<open>auto simp: build_pair_request_def Let_def split: sum.splits\<close>)
  have h3: "waits_on I e ss (h3\<lparr>h_have_deferred := False\<rparr>) \<and> h_acquired_channels (h3\<lparr>h_have_deferred := False\<rparr>) = count \<and>
      reader_inv (h_reader (h3\<lparr>h_have_deferred := False\<rparr>))"
    by (rule w) simp
  have o2: "\<exists>rest. sent_of (hs_items (put_bytes (put_note o1 DH_NOTE_ASKING_TO_BE_PAIRED 0 0) DH_HELPER_OUT_SEND x)) = bs # rest" for x
    using o1 by (simp add: put_note_def put_bytes_def out_slot_def output_zero_def)
  have "(h1, out) = dh_helper_channels_acquired I e h count t0 no_outputs" using assms(5) by (auto simp: split_def Let_def)
  then have "(\<exists>rest. sent_of (hs_items out) = bs # rest) \<and> waits_on I e ss h1 \<and> h_acquired_channels h1 = count \<and> reader_inv (h_reader h1)"
    unfolding step using h4 h3 o2 o1 by (simp add: q split: if_splits option.splits)
  then show thesis using that bs by blast
qed

text \<open>C8. The handshake: a helper that takes the channels with a pinned board key, and a board that holds the same secret for
  that helper's key id and has a nonce staged, agree. Whatever either side's stream readers held before, the hello the helper
  sends arrives in its reports as one frame, the board answers it with one ack, and when the reports of that ack have arrived
  both sides hold the same two session keys, channel count and chunk size, with counters and windows aligned at the start.\<close>

theorem handshake_agrees:
  assumes "h_have_board_key h" and "hi_ecdh I (h_board_public_key h) = Some ss" and "length (hi_key_id I) = 8" and "length (dr_nonce e) = 16"
    and "reader_inv (h_reader h)" and "(if h_config_mode h then 1 else 2) \<le> count"
    and "dh_pair_shared_secret pair = Some ss" and "dh_pair_is_registered_key pair (Some (hi_key_id I))"
    and "se_nonce_staged s" and "length (se_staged_nonce s) = 16" and "reader_inv r"
    and "helper_step I (HAcquired e count t0) h = (h1, out, calls)"
  shows "\<exists>hello rest f s' ack. sent_of (hs_items out) = hello # rest \<and>
    last (snd (feed_reports r (frame_reports hello))) = Inr f \<and>
    dh_session_on_frame E s pair f t1 76 = (s', pair, Inr (Some ack)) \<and>
    session_agrees (fst (helper_run I (map (\<lambda>x. HReceived e' 0 x t2) (frame_reports ack)) h1)) s'"
proof -
  let ?hello = "hello_of I e (h_config_mode h)"
  obtain bs rest where bs: "sent_of (hs_items out) = bs # rest"
      "encode_tagged DH_MSG_HELLO 0 (dh_auth_derive_hello_key ss (dr_nonce e)) 0 (hello_body ?hello) 76 = Inr bs"
    and h1: "waits_on I e ss h1" "h_acquired_channels h1 = count" "reader_inv (h_reader h1)"
    by (rule acquired_hello [OF assms(1-4,12,5)])
  have he: "he_helper_key_id ?hello = hi_key_id I" "he_helper_nonce ?hello = dr_nonce e" "he_proto_version ?hello = DH_PROTO_VERSION"
    "he_correlation ?hello = fresh_correlation (dr_hello e)" "negotiate_channels (he_channel_count ?hello) \<le> count"
    using assms(6) by (auto simp: hello_of_def negotiate_channels_def split: if_splits)
  obtain p where p: "dh_frame_encode DH_MSG_HELLO 0 p 76 = Inr bs"
    "dh_session_on_frame E s pair (frame_of DH_MSG_HELLO 0 p) t1 76 = (let (s', rc) = establish s ss ?hello t1 76 in (s', pair, rc))"
    by (rule board_answers [of pair ss ?hello bs s E t1]) (use assms bs(2) he in simp_all)
  obtain k where f: "snd (feed_reports r (frame_reports bs)) = replicate k (Inl DH_FRAME_AGAIN) @ [Inr (frame_of DH_MSG_HELLO 0 p)]"
    using reader_report_recovers [OF p(1) assms(11)] by auto
  obtain s' ack q where est: "establish s ss ?hello t1 76 = (s', Inr (Some ack))" and q: "dh_frame_encode DH_MSG_HELLO_ACK 0 q 76 = Inr ack"
    and s': "se_present s'" "se_rx s' = dh_auth_counter_init" "se_tx_counter s' = 1"
    and on: "\<And>h t out. waits_on I e ss h \<Longrightarrow> negotiate_channels (he_channel_count ?hello) \<le> h_acquired_channels h \<Longrightarrow>
      fst (on_hello_ack I h (frame_of DH_MSG_HELLO_ACK 0 q) t out) =
      fst (ack_commit h (se_k_h2b s') (se_k_b2h s') (dh_auth_counter_accept dh_auth_counter_init 0)
        \<lparr>ha_correlation = he_correlation ?hello, ha_proto_version = DH_PROTO_VERSION, ha_build_type = se_build_type s,
         ha_channel_count = se_channel_count s', ha_max_chunk = se_max_chunk s', ha_board_nonce = se_staged_nonce s\<rparr> t out)"
    by (rule helper_commits [OF assms(10) he(2,4), where I = I and ss = ss and now = t1]) (rule that; assumption)
  obtain r2 k2 where feed: "feed_reports (h_reader h1) (frame_reports ack) = (r2, replicate k2 (Inl DH_FRAME_AGAIN) @ [Inr (frame_of DH_MSG_HELLO_ACK 0 q)])"
    using reader_report_recovers [OF q h1(3)] by auto
  define hx where "hx = set_helper_reader (note_started h1 t2) 0 r2"
  obtain o2 where fed: "fst (helper_run I (map (\<lambda>x. HReceived e' 0 x t2) (frame_reports ack)) h1) = fst (on_authenticated I hx (frame_of DH_MSG_HELLO_ACK 0 q) t2 o2)"
    using helper_feeds [OF feed, of I e' t2] by (auto simp: frame_of_def dh_msg_is_authenticated_def hx_def)
  have "waits_on I e ss hx" "negotiate_channels (he_channel_count ?hello) \<le> h_acquired_channels hx"
    using h1 he(5) by (simp_all add: waits_on_def hx_def set_helper_reader_def note_started_def)
  note on = on [OF this]
  have "session_agrees (fst (on_authenticated I hx (frame_of DH_MSG_HELLO_ACK 0 q) t2 o2)) s'"
  proof -
    have "fst (on_authenticated I hx (frame_of DH_MSG_HELLO_ACK 0 q) t2 o2) = fst (on_hello_ack I hx (frame_of DH_MSG_HELLO_ACK 0 q) t2 o2)"
      by (simp add: on_authenticated_def split_def Let_def) (simp add: frame_of_def)
    then show ?thesis unfolding on session_agrees_def
      using ack_commit_parts(2,3) [of hx "se_k_h2b s'" "se_k_b2h s'"] s'
      by (simp add: keys_def dh_helper_can_send_bulk_def ack_commit_negotiated)
  qed
  with fed f p(2) est bs(1) show ?thesis by (intro exI [of _ bs] exI [of _ rest] exI [of _ "frame_of DH_MSG_HELLO 0 p"] exI [of _ s'] exI [of _ ack]) simp
qed

definition kinds :: "dh_helper_outputs \<Rightarrow> dh_helper_output_kind set" where
  "kinds out = ho_kind ` set (hs_items out)"

lemma grows_kinds: "grows n fs a b \<Longrightarrow> length (hs_items a) + n \<le> 16 \<Longrightarrow> kinds a \<subseteq> kinds b \<and> length (hs_items b) \<le> length (hs_items a) + n"
  by (auto simp: grows_def kinds_def)

lemma drop_closes:
  assumes "length (hs_items out) \<le> 10"
  shows "DH_HELPER_OUT_CLOSE_CHANNELS \<in> kinds (snd (drop_connection h now out n a b))"
    and "DH_HELPER_OUT_RETRY \<in> kinds (snd (drop_connection h now out n a b))"
proof (atomize (full), rule drop_connection_outputs [of h now out n a b])
  fix o1 o2 d
  assume e: "snd (drop_connection h now out n a b) = put_retry o2 d" and o1: "grows 2 [] out o1"
    and o2: "grows 2 [] (out_put o1 DH_HELPER_OUT_CLOSE_CHANNELS) o2"
  have l1: "length (hs_items o1) \<le> 12" using grows_kinds [OF o1] assms by simp
  then have c: "DH_HELPER_OUT_CLOSE_CHANNELS \<in> kinds (out_put o1 DH_HELPER_OUT_CLOSE_CHANNELS)" "length (hs_items (out_put o1 DH_HELPER_OUT_CLOSE_CHANNELS)) \<le> 13"
    by (simp_all add: kinds_def out_put_def out_slot_def)
  then have "DH_HELPER_OUT_CLOSE_CHANNELS \<in> kinds o2" "length (hs_items o2) \<le> 15" using grows_kinds [OF o2] by auto
  then show "DH_HELPER_OUT_CLOSE_CHANNELS \<in> kinds (snd (drop_connection h now out n a b)) \<and> DH_HELPER_OUT_RETRY \<in> kinds (snd (drop_connection h now out n a b))"
    unfolding e by (auto simp: kinds_def put_retry_def out_slot_def)
qed

lemma tick_deferred_fields:
  "h_hello_sent_at (fst (tick_deferred (tick_windows (note_started h now) now) now out)) = h_hello_sent_at h"
  "h_have_negotiated (fst (tick_deferred (tick_windows (note_started h now) now) now out)) = h_have_negotiated h"
  "h_last_device_frame_at (fst (tick_deferred (tick_windows (note_started h now) now) now out)) = h_last_device_frame_at h"
  "h_last_sent_at (fst (tick_deferred (tick_windows (note_started h now) now) now out)) = h_last_sent_at h"
  "keys (fst (tick_deferred (tick_windows (note_started h now) now) now out)) = keys h"
  "h_phase (fst (tick_deferred (tick_windows (note_started h now) now) now out)) = h_phase h"
  by (simp_all add: tick_deferred_def tick_windows_def note_started_def set_state_def keys_def Let_def)

lemma tick_aged_sent: "h_last_sent_at (fst (tick_aged h now out)) = h_last_sent_at h"
  by (simp add: tick_aged_def Let_def split_def set_state_def)

lemma tick_tail_phase:
  "h_phase (fst (tick_beat h now out)) = h_phase h" "h_phase (fst (tick_pair I e h now out)) = h_phase h"
  by (simp_all add: tick_beat_def tick_pair_def build_pair_request_def Let_def split: sum.split)

lemma tick_beat_sends:
  assumes "h_have_keys h" and "1000 \<le> now - h_last_sent_at h" and "length (hs_items out) < 16"
  shows "\<exists>frame\<in>set (sent_of (hs_items (snd (tick_beat h now out)))). frame_type frame = DH_MSG_HEARTBEAT \<and> frame_counter frame = h_tx_counter h"
proof -
  obtain frame where fr: "encode_tagged DH_MSG_HEARTBEAT 0 (h_k_h2b h) (h_tx_counter h) [] 76 = Inr frame"
    using encode_tagged_ok [of "[]" 76] by fastforce
  have f: "length frame \<le> 76" "frame_type frame = DH_MSG_HEARTBEAT" "frame_counter frame = h_tx_counter h"
    using encode_tagged_frame [OF fr] auth_frame_shape(3) [OF fr [unfolded encode_tagged_def]] by simp_all
  then show ?thesis using assms fr
    by (simp add: tick_beat_def helper_elapsed_def encode_tagged_def put_bytes_def out_slot_def)
qed

text \<open>Liveness by the clock, with a clock that may wrap: a tick gives up an unanswered hello after exactly two seconds and a
  session after exactly three seconds without a verified frame, and then forgets the keys, orders the channels closed and asks for
  a retry; before that it keeps the phase, and a live session that has sent nothing for a second sends a heartbeat at the next
  counter.\<close>

theorem helper_tick_liveness:
  assumes "helper_step I (HTick e now) h = (h', out, calls)"
  shows "h_phase h' =
      (if (h_phase h = DH_HELPER_PHASE_AWAITING_ACK \<and> 2000 \<le> now - h_hello_sent_at h) \<or>
          (h_phase h = DH_HELPER_PHASE_LIVE \<and> h_have_negotiated h \<and> 3000 \<le> now - h_last_device_frame_at h)
       then DH_HELPER_PHASE_IDLE else h_phase h) \<and>
    (h_phase h' \<noteq> h_phase h \<longrightarrow> keys h' = no_keys \<and> {DH_HELPER_OUT_CLOSE_CHANNELS, DH_HELPER_OUT_RETRY} \<subseteq> kinds out) \<and>
    (h_phase h' = DH_HELPER_PHASE_LIVE \<and> h_have_keys h \<and> 1000 \<le> now - h_last_sent_at h \<longrightarrow>
      (\<exists>frame\<in>set (sent_of (hs_items out)). frame_type frame = DH_MSG_HEARTBEAT \<and> frame_counter frame = h_tx_counter h))"
proof -
  define g where "g = tick_deferred (tick_windows (note_started h now) now) now no_outputs"
  note f = tick_deferred_fields [of h now no_outputs, folded g_def]
  have lg: "length (hs_items (snd g)) \<le> 1" 
    by (simp add: g_def tick_deferred_def set_state_def out_slot_def no_outputs_def)
  define h1 where "h1 = (if h_have_device_drops (fst g) \<and> (\<not> h_have_chain (fst g) \<or> helper_elapsed now (h_chain_at_ms (fst g)) DH_HELPER_CHAIN_SAMPLE_MS)
      then (fst g)\<lparr>h_chain_reports_in := dd_reports_in (h_device_drops (fst g)), h_chain_at_ms := now, h_have_chain := True\<rparr> else fst g)"
  have h1: "h_phase h1 = h_phase h" "keys h1 = keys h" "h_last_sent_at h1 = h_last_sent_at h" "h_have_negotiated h1 = h_have_negotiated h"
    "h_last_device_frame_at h1 = h_last_device_frame_at h" using f by (simp_all add: h1_def keys_def)
  define a where "a = tick_aged h1 now (snd g)"
  define b where "b = tick_beat (fst a) now (snd a)"
  define c where "c = tick_pair I e (fst b) now (snd b)"
  have la: "length (hs_items (snd a)) \<le> 4"
  proof -
    have "\<exists>nxt. next_counter nxt h1" by (cases "h_phase h1") (auto simp: next_counter_def)
    then obtain nxt where "goes 3 nxt (snd g) (fst a) (snd a)" unfolding a_def using tick_aged_goes by blast
    then show ?thesis using grows_kinds lg by (fastforce simp: goes_def)
  qed
  have aph: "h_phase (fst c) = h_phase h" by (simp add: a_def b_def c_def tick_tail_phase tick_aged_parts h1)
  have beat: "\<exists>frame\<in>set (sent_of (hs_items (snd c))). frame_type frame = DH_MSG_HEARTBEAT \<and> frame_counter frame = h_tx_counter h"
    if "h_have_keys h" "1000 \<le> now - h_last_sent_at h"
  proof -
    have k: "keys (fst a) = keys h" "h_last_sent_at (fst a) = h_last_sent_at h" by (simp_all add: a_def tick_aged_parts tick_aged_sent h1)
    then have "\<exists>frame\<in>set (sent_of (hs_items (snd b))). frame_type frame = DH_MSG_HEARTBEAT \<and> frame_counter frame = h_tx_counter h"
      using tick_beat_sends [of "fst a" now "snd a"] that la by (simp add: b_def keys_def)
    moreover have "\<exists>xs. hs_items (snd c) = hs_items (snd b) @ xs"
      by (simp add: c_def tick_pair_def build_pair_request_def Let_def put_bytes_def out_slot_def split: sum.split)
    ultimately show ?thesis by auto
  qed
  define X where "X = (if h_phase h = DH_HELPER_PHASE_AWAITING_ACK then
        if 2000 \<le> now - h_hello_sent_at h
        then drop_connection ((fst g)\<lparr>h_hello_went_unanswered := True\<rparr>) now (snd g) DH_NOTE_NO_ACK 2000 0
        else g
      else if h_phase h \<noteq> DH_HELPER_PHASE_LIVE then g
      else if h_have_negotiated h \<and> 3000 \<le> now - h_last_device_frame_at h
        then drop_connection h1 now (snd g) DH_NOTE_DEVICE_SILENT 3000 0 else c)"
  have "(h', out) = X"
  proof -
    have "(h', out) = dh_helper_tick I e h now no_outputs" using assms by (auto simp: split_def Let_def)
    then show ?thesis
      unfolding dh_helper_tick_def Let_def split_def g_def [symmetric] h1_def [symmetric] a_def [symmetric] b_def [symmetric] c_def [symmetric] X_def
      by (simp only: f h1 helper_elapsed_def prod.collapse)
  qed
  then have e: "h' = fst X" "out = snd X" by (metis fst_conv, metis snd_conv)
  have dr: "h_phase (fst (drop_connection k now (snd g) n x y)) = DH_HELPER_PHASE_IDLE" "keys (fst (drop_connection k now (snd g) n x y)) = no_keys"
    "{DH_HELPER_OUT_CLOSE_CHANNELS, DH_HELPER_OUT_RETRY} \<subseteq> kinds (snd (drop_connection k now (snd g) n x y))" for k n x y
    using drop_closes [of "snd g"] lg by simp_all
  consider "h_phase h = DH_HELPER_PHASE_AWAITING_ACK" "2000 \<le> now - h_hello_sent_at h" | "h_phase h = DH_HELPER_PHASE_AWAITING_ACK" "\<not> 2000 \<le> now - h_hello_sent_at h"
    | "h_phase h = DH_HELPER_PHASE_LIVE" "h_have_negotiated h \<and> 3000 \<le> now - h_last_device_frame_at h"
    | "h_phase h = DH_HELPER_PHASE_LIVE" "\<not> (h_have_negotiated h \<and> 3000 \<le> now - h_last_device_frame_at h)" | "h_phase h = DH_HELPER_PHASE_IDLE"
    by (cases "h_phase h") auto
  then show ?thesis by cases (use dr f(6) aph beat in \<open>simp_all add: e X_def\<close>)
qed

section \<open>Witnesses\<close>

text \<open>An identity, its draws, a pinned key and a secret.\<close>

definition wit_identity :: dh_helper_identity where
  "wit_identity = \<lparr>hi_public_key = replicate 64 2, hi_key_id = replicate 8 3, hi_os = 1, hi_build_type = 0, hi_ecdh = (\<lambda>_. Some (replicate 32 5))\<rparr>"

definition wit_draws :: helper_draws where
  "wit_draws = \<lparr>dr_nonce = replicate 16 4, dr_hello = [77, 0, 0, 0, 0, 0, 0, 0], dr_pair = [9, 0, 0, 0, 0, 0, 0, 0]\<rparr>"

definition wit_helper :: dh_helper where
  "wit_helper = dh_helper_init (Some (replicate 64 1))"

lemma wit_helper_facts:
  "h_have_board_key wit_helper" "hi_ecdh wit_identity (h_board_public_key wit_helper) = Some (replicate 32 5)"
  "length (hi_key_id wit_identity) = 8" "length (dr_nonce wit_draws) = 16" "reader_inv (h_reader wit_helper)"
  "(if h_config_mode wit_helper then 1 else 2) \<le> (2 :: byte)"
  using reader_inv_empty [of fresh_frame_reader]
  by (simp_all add: wit_helper_def wit_identity_def wit_draws_def dh_helper_init_def) (simp add: fresh_frame_reader_def)

lemma wit_board_facts:
  "dh_pair_shared_secret reg_pair = Some (replicate 32 5)" "dh_pair_is_registered_key reg_pair (Some (hi_key_id wit_identity))"
  "se_nonce_staged reg_session" "length (se_staged_nonce reg_session) = 16"
  by (simp_all add: reg_pair_def dh_pair_set_registration_def dh_pair_shared_secret_def dh_pair_is_registered_key_def
      wit_identity_def bytes_equal_iff reg_session_def dh_session_stage_nonce_def dh_session_init_def)

theorem handshake_agrees_witness:
  "\<exists>h1 out calls hello rest f s' ack. helper_step wit_identity (HAcquired wit_draws 2 5) wit_helper = (h1, out, calls) \<and>
    sent_of (hs_items out) = hello # rest \<and> last (snd (feed_reports fresh_reader (frame_reports hello))) = Inr f \<and>
    dh_session_on_frame toy_uecc reg_session reg_pair f 6 76 = (s', reg_pair, Inr (Some ack)) \<and>
    session_agrees (fst (helper_run wit_identity (map (\<lambda>x. HReceived wit_draws 0 x 7) (frame_reports ack)) h1)) s'"
proof -
  obtain h1 out calls where s: "helper_step wit_identity (HAcquired wit_draws 2 5) wit_helper = (h1, out, calls)" by (metis prod_cases3)
  show ?thesis
    using handshake_agrees [OF wit_helper_facts wit_board_facts fresh_reader(1) s, of toy_uecc 6 wit_draws 7] s by blast
qed

theorem helper_counters_consecutive_witness:
  "list_all session_emit [HAppeared DH_DEVICE_NORMAL 1, HAcquired wit_draws 2 5, HTick wit_draws 2006] \<and>
   counted None (tagged (sent_of (snd (helper_run wit_identity
     [HAppeared DH_DEVICE_NORMAL 1, HAcquired wit_draws 2 5, HTick wit_draws 2006] (dh_helper_init (Some (replicate 64 1)))))))"
  using helper_counters_consecutive [of "[HAppeared DH_DEVICE_NORMAL 1, HAcquired wit_draws 2 5, HTick wit_draws 2006]"]
  by (simp add: session_emit_def)

text \<open>A frame whole in one report, and the states of a helper that waits, lives and asks to be paired.\<close>

lemma whole_report:
  assumes "dh_frame_encode t fl p cap = Inr bs" and "reader_inv r"
  shows "\<exists>r'. dh_frame_reader_report r (DH_REPORT_FRAME_START # bs) = (r', Inr (frame_of t fl p))"
proof -
  obtain r1 where r1: "dh_frame_reader_report r (DH_REPORT_FRAME_START # bs) = report_stream r1 bs" "reader_inv r1" "rd_abs r1 = []"
    using report_starts [OF assms(2)] by blast
  obtain r' where "dh_frame_reader_push r1 (bs @ []) = (r', length bs, Inr (frame_of t fl p))"
    using push_delivers [of t fl p cap "[]" bs r1 "[]"] assms(1) encoded_shape(1) [OF assms(1)] r1 by auto
  then show ?thesis using r1(1) by (simp add: report_stream_def)
qed

lemma received_whole:
  assumes "h_started h" and "dh_frame_reader_report (h_reader h) data = (r, Inr f)"
  obtains o1 where "length (hs_items o1) \<le> 1" and "helper_step I (HReceived e 0 data now) h =
     (if dh_msg_is_authenticated (fh_type (fv_hdr f)) then on_authenticated I (h\<lparr>h_reader := r\<rparr>) f now o1
      else (let (h, out) = on_unauthenticated I e (h\<lparr>h_reader := r\<rparr>) f now o1 in (h, out, [])))"
proof -
  define o1 where "o1 = (if rd_resyncs r \<noteq> rd_resyncs (h_reader h) then put_note no_outputs DH_NOTE_STREAM_MISALIGNED (rd_resyncs r) 0 else no_outputs)"
  have "length (hs_items o1) \<le> 1" by (simp add: o1_def no_outputs_def put_note_def out_slot_def)
  then show thesis
    by (rule that) (use assms in \<open>simp add: dh_helper_received_channel_def helper_reader_def note_started_def set_helper_reader_def Let_def o1_def\<close>)
qed

definition wit_live :: dh_helper where
  "wit_live = wit_helper\<lparr>h_phase := DH_HELPER_PHASE_LIVE, h_have_keys := True, h_have_negotiated := True, h_k_b2h := [1, 2, 3], h_payload_fn := True, h_started := True\<rparr>"

theorem helper_sink_verified_witness:
  "\<exists>data h' out f. helper_step wit_identity (HReceived wit_draws 0 data 9) wit_live = (h', out, [(DH_MSG_CLIP_CHUNK, [7, 8])]) \<and>
    arrived wit_live 0 data f \<and> sink_verified wit_live f (DH_MSG_CLIP_CHUNK, [7, 8])"
proof -
  obtain bs where bs: "encode_tagged DH_MSG_CLIP_CHUNK 0 [1, 2, 3] 0 [7, 8] 76 = Inr bs" using encode_tagged_ok [of "[7, 8]" 76] by fastforce
  obtain p where p: "dh_frame_encode DH_MSG_CLIP_CHUNK 0 p 76 = Inr bs"
    "\<And>c. dh_auth_counter_ok c 0 \<Longrightarrow> dh_auth_open [1, 2, 3] (fv_hdr (frame_of DH_MSG_CLIP_CHUNK 0 p)) p c = (dh_auth_counter_accept c 0, Inr [7, 8])"
    using tagged_encodes [OF bs] by (metis dh_msg_type_known_def dh_msg_types_def list.set_intros(1,2))
  obtain r where r: "dh_frame_reader_report (h_reader wit_live) (DH_REPORT_FRAME_START # bs) = (r, Inr (frame_of DH_MSG_CLIP_CHUNK 0 p))"
    using whole_report [OF p(1)] wit_helper_facts(5) by (auto simp: wit_live_def)
  let ?f = "frame_of DH_MSG_CLIP_CHUNK 0 p"
  have rx: "h_rx wit_live = dh_auth_counter_init" "h_k_b2h wit_live = [1, 2, 3]" "h_have_keys wit_live" "h_payload_fn wit_live" "h_have_device_beat wit_live = False" "h_started wit_live"
    by (simp_all add: wit_live_def wit_helper_def dh_helper_init_def)
  have op: "dh_auth_open [1, 2, 3] (fv_hdr ?f) (fv_payload ?f) dh_auth_counter_init = (dh_auth_counter_accept dh_auth_counter_init 0, Inr [7, 8])"
    using p(2) [of dh_auth_counter_init] by (simp add: dh_auth_counter_ok_def dh_auth_counter_init_def frame_of_def)
  have ty: "fh_type (fv_hdr ?f) = DH_MSG_CLIP_CHUNK" by (simp add: frame_of_def)
  obtain h' out where s: "helper_step wit_identity (HReceived wit_draws 0 (DH_REPORT_FRAME_START # bs) 9) wit_live = (h', out, [(DH_MSG_CLIP_CHUNK, [7, 8])])"
    by (rule received_whole [OF rx(6) r, of wit_identity wit_draws 9])
      (use rx op ty in \<open>simp add: dh_msg_is_authenticated_def on_authenticated_def on_verified_def\<close>)
  show ?thesis using helper_sink_verified [OF s, of "(DH_MSG_CLIP_CHUNK, [7, 8])"] s by auto
qed

definition wit_waiting :: dh_helper where
  "wit_waiting = wit_helper\<lparr>h_phase := DH_HELPER_PHASE_AWAITING_ACK, h_have_nonce := True, h_helper_nonce := replicate 16 4, h_hello_correlation := 77,
     h_acquired_channels := 2, h_started := True\<rparr>"

theorem helper_keys_need_proof_witness:
  "\<exists>data h' out calls f. helper_step wit_identity (HReceived wit_draws 0 data 9) wit_waiting = (h', out, calls) \<and> h_have_keys h' \<and>
    \<not> h_have_keys wit_waiting \<and> ack_proves wit_identity wit_waiting f (h_k_h2b h') (h_k_b2h h')"
proof -
  have c: "fresh_correlation (dr_hello wit_draws) = 77" by (simp add: fresh_correlation_def wit_draws_def of_le_bytes_def)
  obtain s' :: dh_session and bs p where p: "dh_frame_encode DH_MSG_HELLO_ACK 0 p 76 = Inr bs"
    and on: "\<And>h t out. waits_on wit_identity wit_draws (replicate 32 5) h \<Longrightarrow> negotiate_channels (he_channel_count reg_hello) \<le> h_acquired_channels h \<Longrightarrow>
      fst (on_hello_ack wit_identity h (frame_of DH_MSG_HELLO_ACK 0 p) t out) =
      fst (ack_commit h (se_k_h2b s') (se_k_b2h s') (dh_auth_counter_accept dh_auth_counter_init 0)
        \<lparr>ha_correlation = he_correlation reg_hello, ha_proto_version = DH_PROTO_VERSION, ha_build_type = se_build_type reg_session,
         ha_channel_count = se_channel_count s', ha_max_chunk = se_max_chunk s', ha_board_nonce = se_staged_nonce reg_session\<rparr> t out)"
    by (rule helper_commits [OF wit_board_facts(4), where hello = reg_hello and e = wit_draws and I = wit_identity and ss = "replicate 32 5" and now = 3])
      (simp add: reg_hello_def wit_draws_def, simp add: c reg_hello_def, rule that, assumption+)
  obtain r where r: "dh_frame_reader_report (h_reader wit_waiting) (DH_REPORT_FRAME_START # bs) = (r, Inr (frame_of DH_MSG_HELLO_ACK 0 p))"
    using whole_report [OF p] wit_helper_facts(5) by (auto simp: wit_waiting_def)
  have w: "waits_on wit_identity wit_draws (replicate 32 5) (wit_waiting\<lparr>h_reader := r\<rparr>)" "negotiate_channels (he_channel_count reg_hello) \<le> h_acquired_channels (wit_waiting\<lparr>h_reader := r\<rparr>)"
    "h_started wit_waiting" "\<not> h_have_keys wit_waiting"
    using c by (simp_all add: waits_on_def wit_waiting_def wit_helper_def dh_helper_init_def wit_identity_def wit_draws_def negotiate_channels_def reg_hello_def)
  have ty: "fh_type (fv_hdr (frame_of DH_MSG_HELLO_ACK 0 p)) = DH_MSG_HELLO_ACK" by (simp add: frame_of_def)
  obtain h' out calls where s: "helper_step wit_identity (HReceived wit_draws 0 (DH_REPORT_FRAME_START # bs) 9) wit_waiting = (h', out, calls)" "h_have_keys h'"
  proof (rule received_whole [OF w(3) r, of wit_identity wit_draws 9])
    fix o1
    assume "helper_step wit_identity (HReceived wit_draws 0 (DH_REPORT_FRAME_START # bs) 9) wit_waiting =
      (if dh_msg_is_authenticated (fh_type (fv_hdr (frame_of DH_MSG_HELLO_ACK 0 p))) then on_authenticated wit_identity (wit_waiting\<lparr>h_reader := r\<rparr>) (frame_of DH_MSG_HELLO_ACK 0 p) 9 o1
       else (let (h, out) = on_unauthenticated wit_identity wit_draws (wit_waiting\<lparr>h_reader := r\<rparr>) (frame_of DH_MSG_HELLO_ACK 0 p) 9 o1 in (h, out, [])))"
    then have e: "helper_step wit_identity (HReceived wit_draws 0 (DH_REPORT_FRAME_START # bs) 9) wit_waiting =
        (fst (on_hello_ack wit_identity (wit_waiting\<lparr>h_reader := r\<rparr>) (frame_of DH_MSG_HELLO_ACK 0 p) 9 o1), snd (on_hello_ack wit_identity (wit_waiting\<lparr>h_reader := r\<rparr>) (frame_of DH_MSG_HELLO_ACK 0 p) 9 o1), [])"
      using ty by (simp add: dh_msg_is_authenticated_def on_authenticated_def split_def Let_def)
    show thesis by (rule that [OF e]) (use ack_commit_parts(2) in \<open>simp add: on [OF w(1,2)] keys_def\<close>)
  qed
  show ?thesis using helper_keys_need_proof [OF s] s w(4) by blast
qed

theorem helper_tick_liveness_witness:
  "\<exists>h' out calls h2 out2 calls2. helper_step wit_identity (HTick wit_draws 2500) wit_live = (h', out, calls) \<and> h_phase h' = DH_HELPER_PHASE_LIVE \<and>
    (\<exists>frame\<in>set (sent_of (hs_items out)). frame_type frame = DH_MSG_HEARTBEAT) \<and>
    helper_step wit_identity (HTick wit_draws 3000) wit_live = (h2, out2, calls2) \<and> keys h2 = no_keys"
proof -
  obtain h' out calls where a: "helper_step wit_identity (HTick wit_draws 2500) wit_live = (h', out, calls)" by (metis prod_cases3)
  obtain h2 out2 calls2 where b: "helper_step wit_identity (HTick wit_draws 3000) wit_live = (h2, out2, calls2)" by (metis prod_cases3)
  have l: "h_phase wit_live = DH_HELPER_PHASE_LIVE" "h_have_keys wit_live" "h_have_negotiated wit_live" "h_last_device_frame_at wit_live = 0"
    "h_last_sent_at wit_live = 0"
    by (simp_all add: wit_live_def wit_helper_def dh_helper_init_def)
  have "h_phase h' = DH_HELPER_PHASE_LIVE" "\<exists>frame\<in>set (sent_of (hs_items out)). frame_type frame = DH_MSG_HEARTBEAT"
    using helper_tick_liveness [OF a] l by auto
  moreover have "keys h2 = no_keys" using helper_tick_liveness [OF b] l by simp
  ultimately show ?thesis using a b by blast
qed

definition wit_asking :: dh_helper where
  "wit_asking = (dh_helper_init None)\<lparr>h_phase := DH_HELPER_PHASE_LIVE, h_pairing_requested := True, h_pair_correlation := 9, h_started := True\<rparr>"

theorem helper_pin_stable_witness:
  "\<exists>data f. pin (fst (helper_step wit_identity (HReceived wit_draws 0 data 9) wit_asking)) = (True, replicate 64 6) \<and>
    arrived wit_asking 0 data f \<and> granted_pin wit_asking f (replicate 64 6) \<and>
    h_have_board_key wit_helper \<and> pin (fst (helper_run wit_identity [HReceived wit_draws 0 data 9, HDisappeared 10] wit_helper)) = pin wit_helper"
proof -
  define p where "p = wr_u64 9 @ replicate 64 (6 :: byte)"
  have "\<exists>bs. dh_frame_encode DH_MSG_PAIR_GRANT 0 p 76 = Inr bs"
    by (simp add: dh_frame_encode_def p_def Let_def dh_msg_type_known_def dh_msg_types_def)
  then obtain bs where bs: "dh_frame_encode DH_MSG_PAIR_GRANT 0 p 76 = Inr bs" ..
  have inv: "reader_inv (h_reader wit_asking)" using wit_helper_facts(5) by (simp add: wit_asking_def wit_helper_def dh_helper_init_def)
  let ?f = "frame_of DH_MSG_PAIR_GRANT 0 p" and ?d = "DH_REPORT_FRAME_START # bs"
  obtain r where r: "dh_frame_reader_report (h_reader wit_asking) ?d = (r, Inr ?f)" using whole_report [OF bs inv] by blast
  have dec: "dh_pair_grant_decode (view_payload ?f) = Some \<lparr>pg_correlation = 9, pg_board_public = replicate 64 6\<rparr>"
    by (simp add: dh_pair_grant_decode_def view_payload_def frame_of_def p_def)
  have ty: "fh_type (fv_hdr ?f) = DH_MSG_PAIR_GRANT" by (simp add: frame_of_def)
  have w: "h_started wit_asking" "h_phase wit_asking = DH_HELPER_PHASE_LIVE" "h_pairing_requested wit_asking" "h_pair_correlation wit_asking = 9" "\<not> h_have_board_key wit_asking"
    by (simp_all add: wit_asking_def dh_helper_init_def)
  have pinned: "pin (fst (helper_step wit_identity (HReceived wit_draws 0 ?d 9) wit_asking)) = (True, replicate 64 6)"
  proof (rule received_whole [OF w(1) r, of wit_identity wit_draws 9])
    fix o1
    assume s: "helper_step wit_identity (HReceived wit_draws 0 ?d 9) wit_asking =
      (if dh_msg_is_authenticated (fh_type (fv_hdr ?f)) then on_authenticated wit_identity (wit_asking\<lparr>h_reader := r\<rparr>) ?f 9 o1
       else (let (h, out) = on_unauthenticated wit_identity wit_draws (wit_asking\<lparr>h_reader := r\<rparr>) ?f 9 o1 in (h, out, [])))"
    define h1 where "h1 = wit_asking\<lparr>h_reader := r, h_board_public_key := replicate 64 6, h_have_board_key := True\<rparr>"
    have l: "length (hello_body (hello_of wit_identity wit_draws (h_config_mode h1))) = 39" by (simp add: hello_body_def hello_of_def wit_identity_def wit_draws_def)
    obtain fr where fr: "encode_tagged DH_MSG_HELLO 0 (dh_auth_derive_hello_key (replicate 32 5) (dr_nonce wit_draws)) 0 (hello_body (hello_of wit_identity wit_draws (h_config_mode h1))) 76 = Inr fr"
      using encode_tagged_ok [of "hello_body (hello_of wit_identity wit_draws (h_config_mode h1))" 76] l by fastforce
    have ec: "hi_ecdh wit_identity k = Some (replicate 32 5)" for k by (simp add: wit_identity_def)
    have "\<exists>h2. build_hello wit_identity wit_draws h1 76 o1 = (h2, o1, Some fr) \<and> pin h2 = (True, replicate 64 6)"
      using fr [unfolded hello_of_def] by (simp add: build_hello_def Let_def ec dh_hello_encode_def pin_def h1_def)
    then show ?thesis unfolding s using ty w dec
      by (auto simp: dh_msg_is_authenticated_def on_unauthenticated_def on_pair_grant_def h1_def [symmetric] pin_def split_def Let_def)
  qed
  have "pin wit_asking \<noteq> (True, replicate 64 6)" using w(5) by (simp add: pin_def)
  then have ne: "pin (fst (helper_step wit_identity (HReceived wit_draws 0 ?d 9) wit_asking)) \<noteq> pin wit_asking" using pinned by simp
  obtain f key where "arrived wit_asking 0 ?d f" "granted_pin wit_asking f key" "(True, key) = (True, replicate 64 (6 :: byte))"
    using helper_pin_stable [of wit_asking wit_identity "[]" "HReceived wit_draws 0 ?d 9"] ne pinned by auto
  moreover have "pin (fst (helper_run wit_identity [HReceived wit_draws 0 ?d 9, HDisappeared 10] wit_helper)) = pin wit_helper"
    using helper_pin_stable [of wit_helper wit_identity "[HReceived wit_draws 0 ?d 9, HDisappeared 10]" HNoteRefused] wit_helper_facts(1) by blast
  ultimately show ?thesis using pinned wit_helper_facts(1) by blast
qed

text \<open>The two readings of bulk do not always agree: for as long as the report of a lost session is held back, the state shown
  is still the connected one while there is no session to send on.\<close>

theorem bulk_readings_disagree:
  "dh_helper_allows_bulk (h_state (fst (dh_helper_transport_failed (wit_live\<lparr>h_state := DH_HELPER_CONNECTED\<rparr>) 9 no_outputs))) \<and>
   \<not> dh_helper_can_send_bulk (fst (dh_helper_transport_failed (wit_live\<lparr>h_state := DH_HELPER_CONNECTED\<rparr>) 9 no_outputs))"
  by (simp add: dh_helper_transport_failed_def drop_connection_def wit_live_def wit_helper_def dh_helper_init_def note_started_def
      record_drop_def push_time_def forget_session_def forget_crypto_state_def forget_beat_trace_def reconnecting_repeatedly_def drops_reached_def
      rate_reached_def stands_alone_def ended_on_purpose_def backoff_next_def dh_helper_allows_bulk_def dh_helper_can_send_bulk_def Let_def)

end
