(* ===== verification/DH_File_List.thy ===== *)
theory DH_File_List
  imports DH_Xfer
begin

text \<open>
  The file list of a clipboard offer (\<open>src/src/core/dh_file_list.h\<close>, \<open>dh_file_list.c\<close>): cleaning names, the encoder that
  counts every byte, the parser of exactly that text. A cursor is the list of bytes left, a name is its list of bytes; the
  empty list stands for the length zero the cleaner returns when its buffer is too small.
\<close>

section \<open>Model\<close>

abbreviation (input) DH_FILE_LIST_MAX :: nat where "DH_FILE_LIST_MAX \<equiv> 64"
abbreviation (input) DH_FILE_NAME_MAX :: nat where "DH_FILE_NAME_MAX \<equiv> 255"

definition DH_FILE_NAME_FALLBACK :: "byte list" where
  "DH_FILE_NAME_FALLBACK = ascii ''file''"

subsection \<open>Names\<close>

text \<open>The separators, in the order of the literal: slash, backslash, colon, star, question mark, quote, angle brackets, bar.\<close>

definition byte_is_forbidden :: "byte \<Rightarrow> bool" where
  "byte_is_forbidden c = (if c < 0x20 \<or> c = 0x7F then True else c \<in> set [47, 92, 58, 42, 63, 34, 60, 62, 124])"

definition upper_byte :: "byte \<Rightarrow> byte" where
  "upper_byte c = (if 97 \<le> c \<and> c \<le> 122 then c - 97 + 65 else c)"

definition matches_upper :: "byte list \<Rightarrow> nat \<Rightarrow> byte list \<Rightarrow> bool" where
  "matches_upper name len upper = list_all (\<lambda>i. upper_byte (name ! i) = upper ! i) [0..<len]"

definition stem_is_reserved_device :: "byte list \<Rightarrow> bool" where
  "stem_is_reserved_device name =
     (let stem = length (takeWhile (\<lambda>c. c \<noteq> 46) name) in
      if stem = 3 then list_ex (\<lambda>b. matches_upper name 3 (ascii b)) [''CON'', ''PRN'', ''AUX'', ''NUL'']
      else if stem = 4 \<and> 48 \<le> name ! 3 \<and> name ! 3 \<le> 57
      then matches_upper name 3 (ascii ''COM'') \<or> matches_upper name 3 (ascii ''LPT'')
      else False)"

definition write_fallback :: "nat \<Rightarrow> byte list" where
  "write_fallback cap = (if cap < length DH_FILE_NAME_FALLBACK then [] else DH_FILE_NAME_FALLBACK)"

text \<open>Back off over continuation bytes from an index.\<close>

fun utf8_boundary :: "byte list \<Rightarrow> nat \<Rightarrow> nat" where
  "utf8_boundary bs 0 = 0"
| "utf8_boundary bs (Suc n) = (if bs ! Suc n AND 0xC0 = 0x80 then utf8_boundary bs n else Suc n)"

text \<open>The prefix of a reserved name, with room made for it.\<close>

definition prefix_reserved :: "byte list \<Rightarrow> nat \<Rightarrow> byte list" where
  "prefix_reserved out cap =
     (if length out + 1 > cap then []
      else 95 # (if length out + 1 > DH_FILE_NAME_MAX then take (utf8_boundary out (DH_FILE_NAME_MAX - 1)) out else out))"

text \<open>The name written; the empty list stands for the return value zero.\<close>

definition dh_file_name_clean :: "byte list \<Rightarrow> nat \<Rightarrow> byte list" where
  "dh_file_name_clean name cap =
     (if cap = 0 then []
      else
        let keep = (if length name \<le> DH_FILE_NAME_MAX then length name else utf8_boundary name DH_FILE_NAME_MAX) in
        if cap < keep then []
        else
          let out = map (\<lambda>c. if byte_is_forbidden c then 95 else c) (take keep name);
              out = rev (dropWhile (\<lambda>c. c = 32 \<or> c = 46) (rev out)) in
          if out = [] then write_fallback cap
          else if stem_is_reserved_device out then prefix_reserved out cap
          else out)"

definition dh_file_name_is_clean :: "byte list \<Rightarrow> bool" where
  "dh_file_name_is_clean name =
     (let cleaned = dh_file_name_clean name (DH_FILE_NAME_MAX + 1) in
      length cleaned = length name \<and> length cleaned > 0 \<and> cleaned = name)"

subsection \<open>Encoding\<close>

record dh_file_entry =
  fe_name :: "byte list"
  fe_size :: u64

definition dh_file_list_encode_max :: nat where
  "dh_file_list_encode_max = DH_XFER_META_MAX"

definition put_text :: "nat \<Rightarrow> byte list \<Rightarrow> byte list \<Rightarrow> byte list option" where
  "put_text cap text out = (if length out + length text > cap then None else Some (out @ text))"

text \<open>The digits of a size, the last first.\<close>

function size_digits :: "u64 \<Rightarrow> byte list" where
  "size_digits v =
     (48 + ucast (v mod 10)) # (if v div 10 \<noteq> 0 then size_digits (v div 10) else [])"
  by pat_completeness auto

termination
proof (relation "measure unat")
  fix v :: u64
  assume "v div 10 \<noteq> 0"
  then have "v \<noteq> 0" by auto
  then have "unat v div 10 < unat v" by (simp add: unat_gt_0)
  then show "(v div 10, v) \<in> measure unat" by (simp add: unat_div_distrib)
qed simp

definition encode_entry :: "nat \<Rightarrow> bool \<Rightarrow> dh_file_entry \<Rightarrow> byte list \<Rightarrow> byte list option" where
  "encode_entry cap first e out =
     (let cleaned = dh_file_name_clean (fe_name e) (DH_FILE_NAME_MAX + 1) in
      Option.bind (if first then Some out else put_text cap (ascii '','') out) (\<lambda>out.
      Option.bind (put_text cap (ascii ''{\"name\":\"'') out) (\<lambda>out.
      if cleaned = [] then None
      else
      Option.bind (put_text cap cleaned out) (\<lambda>out.
      Option.bind (put_text cap (ascii ''\",\"size\":'') out) (\<lambda>out.
      Option.bind (put_text cap (rev (size_digits (fe_size e))) out) (\<lambda>out.
      put_text cap (ascii ''}'') out))))))"

fun encode_entries :: "nat \<Rightarrow> bool \<Rightarrow> dh_file_entry list \<Rightarrow> byte list \<Rightarrow> byte list option" where
  "encode_entries cap first [] out = Some out"
| "encode_entries cap first (e # es) out = Option.bind (encode_entry cap first e out) (encode_entries cap False es)"

definition dh_file_list_encode :: "dh_file_entry list \<Rightarrow> nat \<Rightarrow> byte list option" where
  "dh_file_list_encode entries cap =
     (if length entries = 0 \<or> length entries > DH_FILE_LIST_MAX then None
      else
        let cap = min cap dh_file_list_encode_max in
        Option.bind (put_text cap (ascii ''['') []) (\<lambda>out.
        Option.bind (encode_entries cap True entries out) (put_text cap (ascii '']''))))"

subsection \<open>Decoding\<close>

text \<open>A cursor is the bytes left. Every reader returns the bytes behind what it took.\<close>

definition skip_space :: "byte list \<Rightarrow> byte list" where
  "skip_space c = dropWhile (\<lambda>b. b = 32 \<or> b = 9 \<or> b = 10 \<or> b = 13) c"

definition take_byte :: "byte \<Rightarrow> byte list \<Rightarrow> byte list option" where
  "take_byte expected c = (case skip_space c of [] \<Rightarrow> None | b # rest \<Rightarrow> if b \<noteq> expected then None else Some rest)"

definition take_text :: "byte list \<Rightarrow> byte list \<Rightarrow> byte list option" where
  "take_text expected c =
     (let c = skip_space c in
      if length c < length expected \<or> take (length expected) c \<noteq> expected then None else Some (drop (length expected) c))"

fun scan_string :: "byte list \<Rightarrow> byte list \<Rightarrow> (byte list \<times> byte list) option" where
  "scan_string [] seen = None"
| "scan_string (b # c) seen =
     (if b = 34 then (if length seen > DH_FILE_NAME_MAX then None else Some (seen, c))
      else if b = 92 then None
      else scan_string c (seen @ [b]))"

definition take_string :: "byte list \<Rightarrow> (byte list \<times> byte list) option" where
  "take_string c = Option.bind (take_byte 34 c) (\<lambda>c. scan_string c [])"

fun scan_u64 :: "byte list \<Rightarrow> u64 \<Rightarrow> nat \<Rightarrow> (u64 \<times> byte list) option" where
  "scan_u64 [] value digits = (if digits = 0 then None else Some (value, []))"
| "scan_u64 (b # c) value digits =
     (if 48 \<le> b \<and> b \<le> 57 then
        (let digit = ucast (b - 48) in
         if value > (- 1 - digit) div 10 then None else scan_u64 c (value * 10 + digit) (digits + 1))
      else if digits = 0 then None else Some (value, b # c))"

definition take_u64 :: "byte list \<Rightarrow> (u64 \<times> byte list) option" where
  "take_u64 c = scan_u64 (skip_space c) 0 0"

record dh_file_list =
  fl_entries :: "dh_file_entry list"
  fl_total :: u64

definition decode_entry :: "bool \<Rightarrow> byte list \<Rightarrow> (dh_file_entry \<times> byte list) option" where
  "decode_entry first c =
     Option.bind (if first then Some c else take_byte 44 c) (\<lambda>c.
     Option.bind (take_byte 123 c) (\<lambda>c.
     Option.bind (take_text (ascii ''\"name\"'') c) (\<lambda>c.
     Option.bind (take_byte 58 c) (\<lambda>c.
     Option.bind (take_string c) (\<lambda>(name, c).
     if \<not> dh_file_name_is_clean name then None
     else
     Option.bind (take_byte 44 c) (\<lambda>c.
     Option.bind (take_text (ascii ''\"size\"'') c) (\<lambda>c.
     Option.bind (take_byte 58 c) (\<lambda>c.
     Option.bind (take_u64 c) (\<lambda>(size, c).
     Option.bind (take_byte 125 c) (\<lambda>c. Some (\<lparr>fe_name = name, fe_size = size\<rparr>, c)))))))))))"

text \<open>The loop over the entries, from the first byte of an entry or of the closing bracket; a 65th entry is refused.\<close>

function decode_entries :: "dh_file_list \<Rightarrow> byte list \<Rightarrow> (dh_file_list \<times> byte list) option" where
  "decode_entries out c =
     (if c = [] then None
      else if hd c = 93 then Some (out, c)
      else if length (fl_entries out) \<ge> DH_FILE_LIST_MAX then None
      else
        case decode_entry (fl_entries out = []) c of
          None \<Rightarrow> None
        | Some (e, c) \<Rightarrow>
            if fl_total out > - 1 - fe_size e then None
            else decode_entries \<lparr>fl_entries = fl_entries out @ [e], fl_total = fl_total out + fe_size e\<rparr> (skip_space c))"
  by pat_completeness auto

termination by (relation "measure (\<lambda>(out, c). 65 - length (fl_entries out))") auto

declare size_digits.simps [simp del] decode_entries.simps [simp del]

definition dh_file_list_decode :: "byte list \<Rightarrow> dh_file_list option" where
  "dh_file_list_decode json =
     Option.bind (take_byte 91 json) (\<lambda>c.
     Option.bind (decode_entries \<lparr>fl_entries = [], fl_total = 0\<rparr> (skip_space c)) (\<lambda>(out, c).
     Option.bind (take_byte 93 c) (\<lambda>c. if skip_space c = [] \<and> fl_entries out \<noteq> [] then Some out else None)))"

section \<open>Names\<close>

text \<open>What makes a name safe to join to a directory: it names one file inside it, under both systems.\<close>

definition name_safe :: "byte list \<Rightarrow> bool" where
  "name_safe n =
     (n \<noteq> [] \<and> length n \<le> 255 \<and> (\<forall>c\<in>set n. \<not> byte_is_forbidden c) \<and> last n \<notin> {32, 46} \<and> \<not> stem_is_reserved_device n)"

definition sanitised :: "byte list \<Rightarrow> byte list" where
  "sanitised n = map (\<lambda>c. if byte_is_forbidden c then 95 else c) n"

definition stripped :: "byte list \<Rightarrow> byte list" where
  "stripped n = rev (dropWhile (\<lambda>c. c = 32 \<or> c = 46) (rev n))"

lemma utf8_boundary_le: "utf8_boundary bs n \<le> n"
  by (induction n) auto

lemma forbidden_facts [simp]: "\<not> byte_is_forbidden 95"
  by (simp add: byte_is_forbidden_def)

lemma sanitised_allowed: "c \<in> set (sanitised n) \<Longrightarrow> \<not> byte_is_forbidden c"
  by (auto simp: sanitised_def)

lemma sanitised_id: "\<forall>c\<in>set n. \<not> byte_is_forbidden c \<Longrightarrow> sanitised n = n"
  by (simp add: sanitised_def map_idI)

lemma stripped_last: "stripped n \<noteq> [] \<Longrightarrow> last (stripped n) \<notin> {32, 46}"
  using hd_dropWhile [of "\<lambda>c. c = 32 \<or> c = 46" "rev n"] by (auto simp: stripped_def last_rev)

lemma stripped_subset: "set (stripped n) \<subseteq> set n" "length (stripped n) \<le> length n"
  using set_dropWhileD [of _ _ "rev n"] length_dropWhile_le [of _ "rev n"] by (auto simp: stripped_def)

lemma stripped_prefix: "\<exists>u. n = stripped n @ u"
proof (intro exI)
  let ?P = "\<lambda>c. c = 32 \<or> c = 46"
  have "n = rev (takeWhile ?P (rev n) @ dropWhile ?P (rev n))" by (simp only: takeWhile_dropWhile_id rev_rev_ident)
  then show "n = stripped n @ rev (takeWhile ?P (rev n))" by (simp only: stripped_def rev_append)
qed

lemma stripped_id: "n \<noteq> [] \<Longrightarrow> stripped n = n \<longleftrightarrow> last n \<notin> {32, 46}"
proof -
  assume "n \<noteq> []"
  then obtain m c where n: "n = m @ [c]" by (metis rev_exhaust)
  show ?thesis
  proof (cases "c = 32 \<or> c = 46")
    case True
    then have "length (stripped n) \<le> length m" using length_dropWhile_le [of "\<lambda>c. c = 32 \<or> c = 46" "rev m"] by (simp add: stripped_def n)
    then have "stripped n \<noteq> n" using n by auto
    then show ?thesis using True n by simp
  qed (simp add: stripped_def n)
qed

lemma device_starts: "stem_is_reserved_device n \<Longrightarrow> hd n \<noteq> 95"
proof
  assume r: "stem_is_reserved_device n" and u: "hd n = 95"
  have "n \<noteq> []" using r by (auto simp: stem_is_reserved_device_def)
  then have "n ! 0 = 95" using u by (simp add: hd_conv_nth)
  then have m: "\<not> matches_upper n 3 u" if "u ! 0 \<noteq> 95" for u
    using that by (auto simp: matches_upper_def upper_byte_def list_all_iff intro!: bexI [of _ 0])
  have "\<not> matches_upper n 3 (ascii b)" if "b \<in> {''CON'', ''PRN'', ''AUX'', ''NUL'', ''COM'', ''LPT''}" for b
    using that by (intro m) (auto simp: ascii_def)
  then show False using r by (auto simp: stem_is_reserved_device_def Let_def split: if_splits)
qed

lemma fallback_facts: "length DH_FILE_NAME_FALLBACK = 4" "name_safe DH_FILE_NAME_FALLBACK" "DH_FILE_NAME_FALLBACK \<noteq> []"
  by (simp_all add: DH_FILE_NAME_FALLBACK_def ascii_def name_safe_def byte_is_forbidden_def stem_is_reserved_device_def)

text \<open>The cleaner, with the buffer the callers give it.\<close>

definition kept :: "byte list \<Rightarrow> byte list" where
  "kept n = stripped (sanitised (take (if length n \<le> 255 then length n else utf8_boundary n 255) n))"

lemma clean_eq:
  "dh_file_name_clean n 256 =
     (if kept n = [] then DH_FILE_NAME_FALLBACK
      else if stem_is_reserved_device (kept n) then 95 # (if length (kept n) = 255 then take (utf8_boundary (kept n) 254) (kept n) else kept n)
      else kept n)"
  and kept_length: "length (kept n) \<le> 255"
proof -
  have k: "(if length n \<le> 255 then length n else utf8_boundary n 255) \<le> 255" using utf8_boundary_le [of n 255] by simp
  show l: "length (kept n) \<le> 255"
    using k stripped_subset(2) [of "sanitised (take (if length n \<le> 255 then length n else utf8_boundary n 255) n)"]
    by (simp add: kept_def sanitised_def)
  have "kept n = rev (dropWhile (\<lambda>c. c = 32 \<or> c = 46) (rev (map (\<lambda>c. if byte_is_forbidden c then 95 else c) (take (if length n \<le> 255 then length n else utf8_boundary n 255) n))))"
    by (simp add: kept_def stripped_def sanitised_def)
  then show "dh_file_name_clean n 256 =
     (if kept n = [] then DH_FILE_NAME_FALLBACK
      else if stem_is_reserved_device (kept n) then 95 # (if length (kept n) = 255 then take (utf8_boundary (kept n) 254) (kept n) else kept n)
      else kept n)"
    unfolding dh_file_name_clean_def Let_def using k l
    by (auto simp: write_fallback_def fallback_facts prefix_reserved_def)
qed

lemma kept_allowed: "c \<in> set (kept n) \<Longrightarrow> \<not> byte_is_forbidden c"
  using stripped_subset(1) sanitised_allowed by (fastforce simp: kept_def)

lemma kept_last: "kept n \<noteq> [] \<Longrightarrow> last (kept n) \<notin> {32, 46}"
  unfolding kept_def by (rule stripped_last)

lemma clean_id: "name_safe n \<Longrightarrow> dh_file_name_clean n 256 = n"
proof -
  assume s: "name_safe n"
  then have "kept n = n" by (simp add: kept_def name_safe_def sanitised_id stripped_id)
  with s show ?thesis by (simp add: clean_eq name_safe_def)
qed

lemma is_clean_iff: "dh_file_name_is_clean n \<longleftrightarrow> name_safe n"
proof
  assume "dh_file_name_is_clean n"
  then have c: "dh_file_name_clean n 256 = n" "n \<noteq> []" by (auto simp: dh_file_name_is_clean_def Let_def)
  show "name_safe n"
  proof (cases "kept n = []")
    case True
    then show ?thesis using c(1) fallback_facts(2) by (simp add: clean_eq)
  next
    case False
    show ?thesis
    proof (cases "stem_is_reserved_device (kept n)")
      case True
      then have "hd n = 95" using c(1) False by (simp add: clean_eq) (metis list.sel(1))
      then have "n ! 0 = 95" using c(2) by (simp add: hd_conv_nth)
      have "hd (kept n) = 95"
      proof -
        define t where "t = sanitised (take (if length n \<le> 255 then length n else utf8_boundary n 255) n)"
        have t: "kept n = stripped t" "t \<noteq> []" using False by (auto simp: kept_def t_def stripped_def)
        have "hd t = 95" using t(2) \<open>hd n = 95\<close> by (auto simp: t_def sanitised_def hd_map hd_take)
        moreover obtain u where "t = stripped t @ u" using stripped_prefix by blast
        ultimately show ?thesis using t False by (metis hd_append2)
      qed
      then show ?thesis using device_starts [OF True] by simp
    next
      case False
      then have "kept n = n" using c(1) \<open>kept n \<noteq> []\<close> by (simp add: clean_eq)
      then show ?thesis using kept_length [of n] kept_allowed [of _ n] kept_last [of n] False \<open>kept n \<noteq> []\<close> by (simp add: name_safe_def)
    qed
  qed
next
  assume "name_safe n"
  then show "dh_file_name_is_clean n" using clean_id by (simp add: dh_file_name_is_clean_def Let_def name_safe_def)
qed

section \<open>Encoding\<close>

lemma clean_nonempty: "dh_file_name_clean n 256 \<noteq> []"
  by (simp add: clean_eq fallback_facts)

lemma clean_bounds: "length (dh_file_name_clean n 256) \<le> 255" "c \<in> set (dh_file_name_clean n 256) \<Longrightarrow> \<not> byte_is_forbidden c"
proof -
  have u: "utf8_boundary (kept n) 254 \<le> 254" by (rule utf8_boundary_le)
  then show "length (dh_file_name_clean n 256) \<le> 255" using kept_length [of n] by (simp add: clean_eq fallback_facts)
  show "c \<in> set (dh_file_name_clean n 256) \<Longrightarrow> \<not> byte_is_forbidden c"
    using kept_allowed [of c n] fallback_facts(2) by (auto simp: clean_eq name_safe_def dest: in_set_takeD split: if_splits)
qed

text \<open>The text of an entry and of a list, against the encoder that counts every byte it puts.\<close>

definition entry_text :: "bool \<Rightarrow> dh_file_entry \<Rightarrow> byte list" where
  "entry_text first e =
     (if first then [] else ascii '','') @ ascii ''{\"name\":\"'' @ dh_file_name_clean (fe_name e) 256 @ ascii ''\",\"size\":'' @
     rev (size_digits (fe_size e)) @ ascii ''}''"

fun list_text :: "bool \<Rightarrow> dh_file_entry list \<Rightarrow> byte list" where
  "list_text first [] = []"
| "list_text first (e # es) = entry_text first e @ list_text False es"

lemma put_text_bind:
  "Option.bind (put_text cap t out) f = (if length out + length t \<le> cap then f (out @ t) else None)"
  by (simp add: put_text_def)

lemma encode_entry_eq:
  "encode_entry cap first e out = (if length out + length (entry_text first e) \<le> cap then Some (out @ entry_text first e) else None)"
  unfolding encode_entry_def Let_def entry_text_def
  by (cases first) (auto simp: put_text_bind clean_nonempty put_text_def)

lemma encode_entries_eq:
  "encode_entries cap first es out =
     (if es = [] \<or> length out + length (list_text first es) \<le> cap then Some (out @ list_text first es) else None)"
proof (induction es arbitrary: first out)
  case (Cons e es)
  show ?case by (auto simp: encode_entry_eq Cons.IH)
qed simp

lemma encode_eq:
  "dh_file_list_encode es cap =
     (if es = [] \<or> length es > 64 \<or> 2 + length (list_text True es) > min cap 1024 then None
      else Some (91 # list_text True es @ [93]))"
  by (auto simp: dh_file_list_encode_def dh_file_list_encode_max_def Let_def put_text_bind encode_entries_eq put_text_def ascii_def)

section \<open>Decoding what was encoded\<close>

lemma skip_space_other: "b \<notin> {32, 9, 10, 13} \<Longrightarrow> skip_space (b # c) = b # c"
  by (simp add: skip_space_def)

lemma take_byte_hit: "b \<notin> {32, 9, 10, 13} \<Longrightarrow> take_byte b (b # c) = Some c"
  by (simp add: take_byte_def skip_space_other)

lemma take_text_hit: "t \<noteq> [] \<Longrightarrow> hd t \<notin> {32, 9, 10, 13} \<Longrightarrow> take_text t (t @ c) = Some c"
  by (cases t) (simp_all add: take_text_def skip_space_other)

lemma scan_string_hit:
  "34 \<notin> set n \<Longrightarrow> 92 \<notin> set n \<Longrightarrow> length seen + length n \<le> 255 \<Longrightarrow> scan_string (n @ 34 # c) seen = Some (seen @ n, c)"
  by (induction n arbitrary: seen) auto

lemma digit_facts:
  fixes v :: u64
  defines "b \<equiv> 48 + ucast (v mod 10) :: byte"
  shows "48 \<le> b" and "b \<le> 57" and "ucast (b - 48) = v mod 10"
proof -
  have m: "unat (v mod 10) < 10" by (simp add: unat_mod_distrib)
  have u: "unat (ucast (v mod 10) :: byte) = unat (v mod 10)" using m by (simp add: unsigned_ucast_eq take_bit_eq_mod)
  have "unat b = 48 + unat (v mod 10)" using m u by (simp add: b_def unat_plus_if')
  then show "48 \<le> b" "b \<le> 57" using m by (simp_all add: word_le_nat_alt)
  have "b - 48 = ucast (v mod 10)" by (simp add: b_def)
  then have "unat (ucast (b - 48) :: u64) = unat (v mod 10)" using u unat_ucast_byte [of "b - 48", where 'a = 64] by simp
  then show "ucast (b - 48) = v mod 10" by (simp add: word_unat_eq_iff)
qed

lemma scan_digits: "scan_u64 (rev (size_digits v) @ rest) 0 0 = scan_u64 rest v (length (size_digits v))"
proof (induction v arbitrary: rest rule: size_digits.induct)
  case (1 v)
  define b :: byte where "b = 48 + ucast (v mod 10)"
  note d = digit_facts [of v, folded b_def]
  have v: "v div 10 * 10 + v mod 10 = v" by (rule div_mult_mod_eq)
  have room: "\<not> v div 10 > (- 1 - v mod 10) div 10"
  proof -
    have m: "unat (v mod 10) = unat v mod 10" "unat (v div 10) = unat v div 10" by (simp_all add: unat_mod_distrib unat_div_distrib)
    have "unat (- 1 - v mod 10) = 2 ^ 64 - 1 - unat v mod 10" using m(1) by (simp add: unat_sub_le unsigned_minus_1_eq_mask mask_eq_exp_minus_1)
    then have "unat ((- 1 - v mod 10) div 10) = (2 ^ 64 - 1 - unat v mod 10) div 10" by (simp add: unat_div_distrib)
    moreover have "unat v div 10 \<le> (2 ^ 64 - 1 - unat v mod 10) div 10"
    proof -
      have "unat v - unat v mod 10 \<le> 2 ^ 64 - 1 - unat v mod 10" using unsigned_less [where 'a = nat, of v] by simp
      then have "(unat v - unat v mod 10) div 10 \<le> (2 ^ 64 - 1 - unat v mod 10) div 10" by (rule div_le_mono)
      then show ?thesis by (simp add: minus_mod_eq_mult_div)
    qed
    ultimately show ?thesis using m by (simp add: word_less_nat_alt)
  qed
  have step: "scan_u64 (b # rest) (v div 10) k = scan_u64 rest v (k + 1)" for k
    using d room v by (simp add: Let_def)
  show ?case
  proof (cases "v div 10 = 0")
    case True
    then show ?thesis using step [of 0] by (simp add: size_digits.simps [of v] b_def [symmetric])
  next
    case False
    then show ?thesis using 1 [of "b # rest"] step by (simp add: size_digits.simps [of v] b_def [symmetric])
  qed
qed

lemma digits_facts: "size_digits v \<noteq> []" "hd (rev (size_digits v)) \<notin> {32, 9, 10, 13}"
proof -
  show ne: "size_digits v \<noteq> []" by (simp add: size_digits.simps [of v])
  have "\<forall>c\<in>set (size_digits v). 48 \<le> c"
  proof (induction v rule: size_digits.induct)
    case (1 v)
    then show ?case using digit_facts(1) [of v] by (subst size_digits.simps) auto
  qed
  then have "48 \<le> hd (rev (size_digits v))" using ne by (simp add: hd_rev)
  then show "hd (rev (size_digits v)) \<notin> {32, 9, 10, 13}" by (auto simp: word_le_nat_alt)
qed

lemma take_u64_hit:
  assumes "b \<notin> {48..57}"
  shows "take_u64 (rev (size_digits v) @ b # rest) = Some (v, b # rest)"
proof -
  obtain x xs where x: "rev (size_digits v) = x # xs" using digits_facts(1) [of v] by (cases "rev (size_digits v)") auto
  then have "skip_space (rev (size_digits v) @ b # rest) = rev (size_digits v) @ b # rest"
    using digits_facts(2) [of v] by (simp add: skip_space_other)
  then show ?thesis using digits_facts(1) [of v] assms by (auto simp: take_u64_def scan_digits)
qed

text \<open>An entry behind whatever punctuation its place in the list asks for.\<close>

lemma ascii_tokens:
  "ascii '',''  = [44]" "ascii ''{\"name\":\"'' = 123 # ascii ''\"name\"'' @ [58, 34]" "ascii ''\",\"size\":'' = 34 # 44 # ascii ''\"size\"'' @ [58]" "ascii ''}'' = [125]"
  by (simp_all add: ascii_def)

lemma keys_tokens: "ascii ''\"name\"'' \<noteq> []" "hd (ascii ''\"name\"'') = 34" "ascii ''\"size\"'' \<noteq> []" "hd (ascii ''\"size\"'') = 34"
  by (simp_all add: ascii_def)

lemma decode_entry_text:
  "decode_entry first (entry_text first e @ rest) =
     (if dh_file_name_is_clean (dh_file_name_clean (fe_name e) 256) then Some (e\<lparr>fe_name := dh_file_name_clean (fe_name e) 256\<rparr>, rest) else None)"
proof -
  define n where "n = dh_file_name_clean (fe_name e) 256"
  have q: "34 \<notin> set n" "92 \<notin> set n" using clean_bounds(2) [of 34 "fe_name e"] clean_bounds(2) [of 92 "fe_name e"] by (auto simp: n_def byte_is_forbidden_def)
  have str: "take_string (34 # n @ 34 # c) = Some (n, c)" for c
    using scan_string_hit [OF q, of "[]"] clean_bounds(1) [of "fe_name e"] by (simp add: take_string_def take_byte_hit n_def)
  have t: "take_text (ascii ''\"name\"'') (ascii ''\"name\"'' @ c) = Some c" "take_text (ascii ''\"size\"'') (ascii ''\"size\"'' @ c) = Some c" for c
    by (simp_all add: take_text_hit keys_tokens)
  have u: "take_u64 (rev (size_digits (fe_size e)) @ 125 # c) = Some (fe_size e, 125 # c)" for c
    by (rule take_u64_hit) simp
  show ?thesis
    unfolding decode_entry_def entry_text_def ascii_tokens n_def [symmetric]
    by (simp add: take_byte_hit t str u)
qed

lemma entry_text_start: "\<exists>b c. entry_text first e = b # c \<and> b \<in> {44, 123}"
  by (cases first) (simp_all add: entry_text_def ascii_tokens)

lemma list_text_start: "\<exists>b c. list_text first es @ 93 # rest = b # c \<and> b \<in> {44, 123, 93} \<and> (b = 93 \<longleftrightarrow> es = [])"
proof (cases es)
  case (Cons e es')
  then show ?thesis using entry_text_start [of first e] by auto
qed simp

lemma decode_entries_hit:
  assumes "list_all (\<lambda>e. dh_file_name_is_clean (dh_file_name_clean (fe_name e) 256)) es"
    and "length (fl_entries acc) + length es \<le> 64" and "unat (fl_total acc) + sum_list (map (unat \<circ> fe_size) es) < 2 ^ 64"
  shows "decode_entries acc (list_text (fl_entries acc = []) es @ 93 # rest) =
    Some (\<lparr>fl_entries = fl_entries acc @ map (\<lambda>e. e\<lparr>fe_name := dh_file_name_clean (fe_name e) 256\<rparr>) es,
           fl_total = fl_total acc + sum_list (map fe_size es)\<rparr>, 93 # rest)"
  using assms
proof (induction es arbitrary: acc)
  case Nil
  then show ?case by (simp add: decode_entries.simps)
next
  case (Cons e es)
  define acc' where "acc' = \<lparr>fl_entries = fl_entries acc @ [e\<lparr>fe_name := dh_file_name_clean (fe_name e) 256\<rparr>], fl_total = fl_total acc + fe_size e\<rparr>"
  have tot: "unat (fl_total acc + fe_size e) = unat (fl_total acc) + unat (fe_size e)"
    using Cons.prems(3) by (simp add: unat_plus_if')
  have le: "\<not> fl_total acc > - 1 - fe_size e"
    using Cons.prems(3) by (simp add: word_less_nat_alt unat_sub_le unsigned_minus_1_eq_mask mask_eq_exp_minus_1)
  obtain b c where bc: "list_text False es @ 93 # rest = b # c" "b \<in> {44, 123, 93}" using list_text_start [of False es rest] by auto
  have skip: "skip_space (list_text False es @ 93 # rest) = list_text False es @ 93 # rest" using bc by (auto simp: skip_space_other)
  obtain x y where xy: "entry_text (fl_entries acc = []) e = x # y" "x \<in> {44, 123}" using entry_text_start by blast
  have hit: "decode_entry (fl_entries acc = []) (entry_text (fl_entries acc = []) e @ list_text False es @ 93 # rest) =
      Some (e\<lparr>fe_name := dh_file_name_clean (fe_name e) 256\<rparr>, list_text False es @ 93 # rest)"
    using Cons.prems(1) by (simp add: decode_entry_text)
  have "decode_entries acc (list_text (fl_entries acc = []) (e # es) @ 93 # rest) = decode_entries acc' (list_text False es @ 93 # rest)"
    using hit le skip xy Cons.prems(2) by (subst decode_entries.simps) (auto simp: acc'_def)
  also have "\<dots> = Some (\<lparr>fl_entries = fl_entries acc' @ map (\<lambda>e. e\<lparr>fe_name := dh_file_name_clean (fe_name e) 256\<rparr>) es,
           fl_total = fl_total acc' + sum_list (map fe_size es)\<rparr>, 93 # rest)"
    using Cons.IH [of acc'] Cons.prems tot by (simp add: acc'_def add.assoc)
  finally show ?case by (simp add: acc'_def add.assoc)
qed

lemma decode_entries_miss:
  assumes "\<not> (list_all (\<lambda>e. dh_file_name_is_clean (dh_file_name_clean (fe_name e) 256)) es \<and>
      unat (fl_total acc) + sum_list (map (unat \<circ> fe_size) es) < 2 ^ 64)"
  shows "decode_entries acc (list_text (fl_entries acc = []) es @ 93 # rest) = None"
  using assms
proof (induction es arbitrary: acc)
  case Nil
  then show ?case using unsigned_less [where 'a = nat, of "fl_total acc"] by simp
next
  case (Cons e es)
  define acc' where "acc' = \<lparr>fl_entries = fl_entries acc @ [e\<lparr>fe_name := dh_file_name_clean (fe_name e) 256\<rparr>], fl_total = fl_total acc + fe_size e\<rparr>"
  obtain b c where bc: "list_text False es @ 93 # rest = b # c" "b \<in> {44, 123, 93}" using list_text_start [of False es rest] by auto
  have skip: "skip_space (list_text False es @ 93 # rest) = list_text False es @ 93 # rest" using bc by (auto simp: skip_space_other)
  obtain x y where xy: "entry_text (fl_entries acc = []) e = x # y" "x \<in> {44, 123}" using entry_text_start by blast
  show ?case
  proof (cases "dh_file_name_is_clean (dh_file_name_clean (fe_name e) 256) \<and> \<not> fl_total acc > - 1 - fe_size e")
    case False
    then show ?thesis
      using decode_entry_text [of "fl_entries acc = []" e "list_text False es @ 93 # rest"] xy by (subst decode_entries.simps) auto
  next
    case True
    then have "\<not> fl_total acc > - 1 - fe_size e" by blast
    then have "unat (fl_total acc) + unat (fe_size e) < 2 ^ 64"
      using unsigned_less [where 'a = nat, of "fe_size e"]
      by (simp add: word_less_nat_alt unat_sub_le unsigned_minus_1_eq_mask mask_eq_exp_minus_1)
    then have "unat (fl_total acc + fe_size e) = unat (fl_total acc) + unat (fe_size e)" by (simp add: unat_plus_if')
    then have "decode_entries acc' (list_text False es @ 93 # rest) = None"
      using Cons.IH [of acc'] Cons.prems True by (simp add: acc'_def add.assoc)
    then show ?thesis
      using decode_entry_text [of "fl_entries acc = []" e "list_text False es @ 93 # rest"] True skip xy
      by (subst decode_entries.simps) (auto simp: acc'_def)
  qed
qed

section \<open>What a decoded list promises\<close>

definition list_ok :: "dh_file_list \<Rightarrow> bool" where
  "list_ok l =
     (length (fl_entries l) \<le> 64 \<and> (\<forall>e\<in>set (fl_entries l). name_safe (fe_name e)) \<and>
      unat (fl_total l) = sum_list (map (unat \<circ> fe_size) (fl_entries l)))"

lemma decode_entry_clean:
  assumes "decode_entry first c = Some (e, rest)"
  shows "dh_file_name_is_clean (fe_name e)"
  using assms by (auto simp: decode_entry_def bind_eq_Some_conv split: if_splits)

lemma decode_entries_ok: "decode_entries acc c = Some (l, rest) \<Longrightarrow> list_ok acc \<Longrightarrow> list_ok l"
proof (induction acc c rule: decode_entries.induct)
  case (1 acc c)
  show ?case
  proof (cases "c = [] \<or> hd c = 93 \<or> length (fl_entries acc) \<ge> 64")
    case True
    then show ?thesis using 1 by (auto simp: decode_entries.simps [of acc c] split: if_splits)
  next
    case False
    then obtain e c' where e: "decode_entry (fl_entries acc = []) c = Some (e, c')" and le: "\<not> fl_total acc > - 1 - fe_size e"
      using 1(2) by (auto simp: decode_entries.simps [of acc c] split: option.splits if_splits)
    define acc' where "acc' = \<lparr>fl_entries = fl_entries acc @ [e], fl_total = fl_total acc + fe_size e\<rparr>"
    have "unat (fl_total acc) + unat (fe_size e) < 2 ^ 64"
      using le unsigned_less [where 'a = nat, of "fe_size e"]
      by (simp add: word_less_nat_alt unat_sub_le unsigned_minus_1_eq_mask mask_eq_exp_minus_1)
    then have "unat (fl_total acc + fe_size e) = unat (fl_total acc) + unat (fe_size e)" by (simp add: unat_plus_if')
    then have "list_ok acc'"
      using 1(3) False decode_entry_clean [OF e] by (auto simp: list_ok_def acc'_def is_clean_iff)
    moreover have "decode_entries acc' (skip_space c') = Some (l, rest)"
      using 1(2) False e le by (simp add: decode_entries.simps [of acc c] acc'_def)
    ultimately show ?thesis using 1(1) [OF _ _ _ e refl] False le by (simp add: acc'_def)
  qed
qed

text \<open>C27. A list that arrives from the other computer is safe to act on: whatever the bytes, a list the decoder accepts has one to
  64 entries, every name is one path component with no separator, control or reserved byte, not empty, at most 255 bytes, ends in
  neither dot nor space (so is neither the directory nor its parent) and names no device, and the total is the exact sum of
  the sizes, without wrap-around.\<close>

theorem file_list_decode_safe:
  assumes "dh_file_list_decode json = Some l"
  shows "fl_entries l \<noteq> [] \<and> list_ok l"
  using assms decode_entries_ok [of "\<lparr>fl_entries = [], fl_total = 0\<rparr>"]
  by (auto simp: dh_file_list_decode_def bind_eq_Some_conv list_ok_def split: if_splits)

lemma encoded_decodes:
  assumes "dh_file_list_encode es cap = Some json"
    and "list_all (\<lambda>e. dh_file_name_is_clean (dh_file_name_clean (fe_name e) 256)) es" and "sum_list (map (unat \<circ> fe_size) es) < 2 ^ 64"
  shows "length json \<le> min cap 1024 \<and>
    dh_file_list_decode json =
      Some \<lparr>fl_entries = map (\<lambda>e. e\<lparr>fe_name := dh_file_name_clean (fe_name e) 256\<rparr>) es, fl_total = sum_list (map fe_size es)\<rparr>"
proof -
  have j: "json = 91 # list_text True es @ [93]" "es \<noteq> []" "length es \<le> 64" "length json \<le> min cap 1024"
    using assms(1) by (auto simp: encode_eq split: if_splits)
  obtain b c where bc: "list_text True es @ [93] = b # c" "b \<in> {44, 123, 93}" using list_text_start [of True es "[]"] by auto
  have skip: "skip_space (list_text True es @ [93]) = list_text True es @ [93]" using bc by (auto simp: skip_space_other)
  have "decode_entries \<lparr>fl_entries = [], fl_total = 0\<rparr> (list_text True es @ [93]) =
      Some (\<lparr>fl_entries = map (\<lambda>e. e\<lparr>fe_name := dh_file_name_clean (fe_name e) 256\<rparr>) es, fl_total = sum_list (map fe_size es)\<rparr>, [93])"
    using decode_entries_hit [OF assms(2), of "\<lparr>fl_entries = [], fl_total = 0\<rparr>" "[]"] j assms(3) by simp
  then show ?thesis
    using j skip by (simp add: dh_file_list_decode_def take_byte_hit) (simp add: skip_space_def)
qed

lemma clean_no_device: "\<not> stem_is_reserved_device (dh_file_name_clean n 256)"
  using device_starts [of "dh_file_name_clean n 256"] fallback_facts(2) by (auto simp: clean_eq name_safe_def)

lemma cleaned_is_clean_iff: "dh_file_name_is_clean (dh_file_name_clean n 256) \<longleftrightarrow> last (dh_file_name_clean n 256) \<notin> {32, 46}"
  using clean_nonempty [of n] clean_bounds(1) [of n] clean_bounds(2) [of _ n] clean_no_device [of n] is_clean_iff [of "dh_file_name_clean n 256"]
  by (auto simp: name_safe_def)

lemma short_cleaned_last:
  assumes "length n < 255"
  shows "last (dh_file_name_clean n 256) \<notin> {32, 46}"
proof -
  have "length (kept n) < 255" using assms stripped_subset(2) [of "sanitised n"] by (simp add: kept_def sanitised_def)
  then show ?thesis using kept_last [of n] fallback_facts(2) by (auto simp: clean_eq name_safe_def)
qed

lemma encoded_refused:
  assumes "dh_file_list_encode es cap = Some json"
    and "\<not> (list_all (\<lambda>e. dh_file_name_is_clean (dh_file_name_clean (fe_name e) 256)) es \<and> sum_list (map (unat \<circ> fe_size) es) < 2 ^ 64)"
  shows "length json \<le> min cap 1024 \<and> dh_file_list_decode json = None"
proof -
  have j: "json = 91 # list_text True es @ [93]" "length json \<le> min cap 1024" using assms(1) by (auto simp: encode_eq split: if_splits)
  obtain b c where bc: "list_text True es @ [93] = b # c" "b \<in> {44, 123, 93}" using list_text_start [of True es "[]"] by auto
  have skip: "skip_space (list_text True es @ [93]) = list_text True es @ [93]" using bc by (auto simp: skip_space_other)
  show ?thesis
    using decode_entries_miss [of es "\<lparr>fl_entries = [], fl_total = 0\<rparr>" "[]"] assms(2) j skip by (simp add: dh_file_list_decode_def take_byte_hit)
qed

text \<open>C28. Round trip, exactly. A list that encodes fits both the caller's buffer and the metadata an offer may carry. The far end decodes it
  to the same list with every name cleaned and the total the sum of the sizes, provided no cleaned name ends in a dot or a space and the
  sizes sum below \<open>2 ^ 64\<close>; otherwise it refuses the whole list. A name shorter than 255 bytes never fails the first condition; a reserved name of
  255 bytes, cut to make room for its prefix, can.\<close>

theorem file_list_roundtrip:
  assumes "dh_file_list_encode es cap = Some json"
  shows "length json \<le> min cap 1024 \<and>
    dh_file_list_decode json =
      (if (\<forall>e\<in>set es. last (dh_file_name_clean (fe_name e) 256) \<notin> {32, 46}) \<and> sum_list (map (unat \<circ> fe_size) es) < 2 ^ 64
       then Some \<lparr>fl_entries = map (\<lambda>e. e\<lparr>fe_name := dh_file_name_clean (fe_name e) 256\<rparr>) es, fl_total = sum_list (map fe_size es)\<rparr>
       else None) \<and>
    (\<forall>name. length name < 255 \<longrightarrow> last (dh_file_name_clean name 256) \<notin> {32, 46})"
  using encoded_decodes [OF assms] encoded_refused [OF assms] short_cleaned_last by (simp add: list_all_iff cleaned_is_clean_iff)

text \<open>When the cleaner keeps its promise: a name is clean exactly when it is safe in the sense above; the cleaner never returns
  an empty name, more than 255 bytes or a forbidden byte; cleaning a clean name changes nothing; and a cleaned name is clean exactly
  when it does not end in a dot or a space, which can only happen to a reserved name cut to make room for its prefix.\<close>

theorem file_name_clean_exact:
  "(dh_file_name_is_clean n \<longleftrightarrow> name_safe n) \<and>
   dh_file_name_clean n 256 \<noteq> [] \<and> length (dh_file_name_clean n 256) \<le> 255 \<and> (\<forall>c\<in>set (dh_file_name_clean n 256). \<not> byte_is_forbidden c) \<and>
   (dh_file_name_is_clean n \<longrightarrow> dh_file_name_clean n 256 = n) \<and>
   (dh_file_name_is_clean (dh_file_name_clean n 256) \<longleftrightarrow> last (dh_file_name_clean n 256) \<notin> {32, 46}) \<and>
   (last (dh_file_name_clean n 256) \<in> {32, 46} \<longrightarrow> length n \<ge> 255)"
  using clean_nonempty [of n] clean_bounds(1) [of n] clean_bounds(2) [of _ n] clean_id [of n] cleaned_is_clean_iff [of n]
    short_cleaned_last [of n] is_clean_iff [of n] not_less by blast

text \<open>A reserved name of 255 bytes whose 254th is a dot: the prefix costs the last byte, the dot is left at the end, and the list
  encodes on this side and is refused on the other.\<close>

definition cut_name :: "byte list" where
  "cut_name = ascii ''CON.'' @ replicate 249 97 @ [46, 98]"

lemma cut_name_cleaned:
  "length cut_name = 255" "dh_file_name_clean cut_name 256 = 95 # take 254 cut_name" "last (dh_file_name_clean cut_name 256) = 46"
proof -
  have l: "length cut_name = 255" "last cut_name = 98" "cut_name \<noteq> []" by (simp_all add: cut_name_def ascii_def)
  have "\<forall>c\<in>set cut_name. \<not> byte_is_forbidden c" by (auto simp: cut_name_def ascii_def byte_is_forbidden_def)
  then have k: "kept cut_name = cut_name" using l by (simp add: kept_def sanitised_id stripped_id)
  have dev: "stem_is_reserved_device cut_name"
    by (simp add: stem_is_reserved_device_def cut_name_def ascii_def matches_upper_def upper_byte_def upt_rec)
  have "cut_name ! 254 = 98" by (simp add: cut_name_def ascii_def nth_append)
  then have "utf8_boundary cut_name 254 = 254" using utf8_boundary.simps(2) [of cut_name 253] by simp
  then have c: "dh_file_name_clean cut_name 256 = 95 # take 254 cut_name" using l k dev by (simp add: clean_eq)
  have "cut_name ! 253 = 46" by (simp add: cut_name_def ascii_def nth_append)
  then have "last (95 # take 254 cut_name) = 46" using l by (simp add: last_conv_nth)
  with c l show "length cut_name = 255" "dh_file_name_clean cut_name 256 = 95 # take 254 cut_name" "last (dh_file_name_clean cut_name 256) = 46"
    by simp_all
qed

lemma cut_name_refused:
  assumes "dh_file_list_encode [\<lparr>fe_name = cut_name, fe_size = 1\<rparr>] cap = Some json"
  shows "dh_file_list_decode json = None"
  using encoded_refused [OF assms] cut_name_cleaned(3) by (simp add: cleaned_is_clean_iff)

theorem file_name_clean_exact_witness:
  "dh_file_name_is_clean (ascii ''ab.txt'') \<and> dh_file_name_clean (ascii ''ab.txt'') 256 = ascii ''ab.txt'' \<and>
   last (dh_file_name_clean cut_name 256) \<in> {32, 46} \<and> \<not> dh_file_name_is_clean (dh_file_name_clean cut_name 256) \<and> length cut_name \<ge> 255"
proof -
  have "name_safe (ascii ''ab.txt'')"
    by (simp add: ascii_def name_safe_def byte_is_forbidden_def stem_is_reserved_device_def)
  then show ?thesis
    using file_name_clean_exact [of "ascii ''ab.txt''"] file_name_clean_exact [of cut_name] cut_name_cleaned(3) by simp
qed

text \<open>The digits of a size fit the scratch buffer of twenty bytes.\<close>

lemma size_digits_power: "length (size_digits v) = Suc (Suc k) \<Longrightarrow> 10 ^ Suc k \<le> unat v"
proof (induction v arbitrary: k rule: size_digits.induct)
  case (1 v)
  then have ne: "v div 10 \<noteq> 0" and l: "length (size_digits (v div 10)) = Suc k"
    by (auto simp: size_digits.simps [of v] split: if_splits)
  have "10 ^ k \<le> unat (v div 10)"
  proof (cases k)
    case 0
    then show ?thesis using ne by (simp add: unat_gt_0 Suc_le_eq)
  next
    case (Suc j)
    then show ?thesis using 1(1) [OF ne, of j] l by simp
  qed
  then show ?case by (simp add: unat_div_distrib)
qed

lemma size_digits_fit: "length (size_digits v) \<le> 20"
proof (rule ccontr)
  assume "\<not> length (size_digits v) \<le> 20"
  then have k: "length (size_digits v) = Suc (Suc (length (size_digits v) - 2))" "19 \<le> length (size_digits v) - 2" by simp_all
  have "(10 :: nat) ^ 20 \<le> 10 ^ Suc (length (size_digits v) - 2)" using k(2) by (intro power_increasing) simp_all
  also have "\<dots> \<le> unat v" by (rule size_digits_power [OF k(1)])
  finally show False using unsigned_less [where 'a = nat, of v] by simp
qed

text \<open>A list of two ordinary files.\<close>

definition two_files :: "dh_file_entry list" where
  "two_files = [\<lparr>fe_name = ascii ''a/b.txt'', fe_size = 10\<rparr>, \<lparr>fe_name = ascii ''nul'', fe_size = 7\<rparr>]"

lemma two_files_clean: "map (\<lambda>e. dh_file_name_clean (fe_name e) 256) two_files = [ascii ''a_b.txt'', ascii ''_nul'']"
  by (simp add: two_files_def ascii_def clean_eq kept_def sanitised_def stripped_def byte_is_forbidden_def stem_is_reserved_device_def matches_upper_def upper_byte_def upt_rec)

lemma two_files_facts:
  "list_all (\<lambda>e. dh_file_name_is_clean (dh_file_name_clean (fe_name e) 256)) two_files" "sum_list (map (unat \<circ> fe_size) two_files) < 2 ^ 64"
  "\<exists>json. dh_file_list_encode two_files 1024 = Some json"
proof -
  note c = two_files_clean
  show "list_all (\<lambda>e. dh_file_name_is_clean (dh_file_name_clean (fe_name e) 256)) two_files"
    using c by (simp add: two_files_def is_clean_iff name_safe_def) (simp add: ascii_def byte_is_forbidden_def stem_is_reserved_device_def matches_upper_def upper_byte_def upt_rec)
  show "sum_list (map (unat \<circ> fe_size) two_files) < 2 ^ 64" by (simp add: two_files_def)
  show "\<exists>json. dh_file_list_encode two_files 1024 = Some json"
    using c by (simp add: encode_eq two_files_def entry_text_def ascii_def size_digits.simps [of 10] size_digits.simps [of 7] size_digits.simps [of 1])
qed

lemma cut_name_encodes: "\<exists>json. dh_file_list_encode [\<lparr>fe_name = cut_name, fe_size = 1\<rparr>] 1024 = Some json"
proof -
  have "length (list_text True [\<lparr>fe_name = cut_name, fe_size = 1\<rparr>]) \<le> 300"
    using cut_name_cleaned by (simp add: entry_text_def ascii_def size_digits.simps [of 1])
  then show ?thesis by (simp add: encode_eq)
qed

text \<open>Two files that arrive, and the name whose list is refused.\<close>

theorem file_list_roundtrip_witness:
  "(\<exists>json l. dh_file_list_encode two_files 1024 = Some json \<and> length json \<le> 1024 \<and> dh_file_list_decode json = Some l \<and>
      map fe_name (fl_entries l) = [ascii ''a_b.txt'', ascii ''_nul''] \<and> fl_total l = 17) \<and>
   (\<exists>json. dh_file_list_encode [\<lparr>fe_name = cut_name, fe_size = 1\<rparr>] 1024 = Some json \<and> dh_file_list_decode json = None)"
proof -
  obtain json where j: "dh_file_list_encode two_files 1024 = Some json" using two_files_facts(3) by blast
  obtain json' where j': "dh_file_list_encode [\<lparr>fe_name = cut_name, fe_size = 1\<rparr>] 1024 = Some json'" using cut_name_encodes by blast
  define l where "l = \<lparr>fl_entries = map (\<lambda>e. e\<lparr>fe_name := dh_file_name_clean (fe_name e) 256\<rparr>) two_files, fl_total = sum_list (map fe_size two_files)\<rparr>"
  have n: "map fe_name (fl_entries l) = [ascii ''a_b.txt'', ascii ''_nul'']" using two_files_clean by (simp add: l_def comp_def)
  have t: "fl_total l = 17" by (simp add: l_def two_files_def)
  have d: "length json \<le> 1024 \<and> dh_file_list_decode json = Some l"
    using file_list_roundtrip [OF j] two_files_facts(1,2) by (auto simp: l_def list_all_iff cleaned_is_clean_iff)
  have "dh_file_list_decode json' = None" using file_list_roundtrip [OF j'] cut_name_cleaned(3) by auto
  then show ?thesis using j j' d n t by (intro conjI exI [of _ json] exI [of _ l] exI [of _ json']) simp_all
qed

theorem file_list_decode_safe_witness:
  "\<exists>json l. dh_file_list_decode json = Some l \<and> fl_entries l \<noteq> [] \<and> list_ok l"
proof -
  obtain json where j: "dh_file_list_encode two_files 1024 = Some json" using two_files_facts(3) by blast
  have "\<exists>l. dh_file_list_decode json = Some l" using encoded_decodes [OF j two_files_facts(1,2)] by blast
  then obtain l where "dh_file_list_decode json = Some l" ..
  from file_list_decode_safe [OF this] this show ?thesis by blast
qed

end
