(* ===== verification/DH_Seal.thy ===== *)
theory DH_Seal
  imports DH_Clip DH_Pair
begin

text \<open>
  End-to-end sealing of clipboard bodies (\<open>src/src/core/dh_seal.h\<close>, \<open>dh_seal.c\<close>): the exchange that makes a key, the stale
  notice, and the sealed offers and chunks. The cipher of the platform is the record \<open>dh_seal_aead\<close>, the curve library the record
  \<open>uecc\<close> and the entropy a list of draws; a body is its list of bytes.
\<close>

section \<open>Model\<close>

abbreviation (input) DH_SEAL_KEY_SIZE :: nat where "DH_SEAL_KEY_SIZE \<equiv> 32"
abbreviation (input) DH_SEAL_NONCE_SIZE :: nat where "DH_SEAL_NONCE_SIZE \<equiv> 12"
abbreviation (input) DH_SEAL_TAG_SIZE :: nat where "DH_SEAL_TAG_SIZE \<equiv> 16"
abbreviation (input) DH_SEAL_ID_SIZE :: nat where "DH_SEAL_ID_SIZE \<equiv> 4"
abbreviation (input) DH_SEAL_EXCHANGE_LEN :: nat where "DH_SEAL_EXCHANGE_LEN \<equiv> 84"
abbreviation (input) DH_SEAL_STALE_LEN :: nat where "DH_SEAL_STALE_LEN \<equiv> 4"
abbreviation (input) DH_SEAL_OFFER_OVERHEAD :: nat where "DH_SEAL_OFFER_OVERHEAD \<equiv> 43"
abbreviation (input) DH_SEAL_CHUNK_OVERHEAD :: nat where "DH_SEAL_CHUNK_OVERHEAD \<equiv> 40"
abbreviation (input) SEAL_BODY_MAX :: nat where "SEAL_BODY_MAX \<equiv> 4072"

datatype dh_seal_err =
  DH_SEAL_ERR_MALFORMED | DH_SEAL_ERR_UNKNOWN_ID | DH_SEAL_ERR_AUTH | DH_SEAL_ERR_BUFFER | DH_SEAL_ERR_NO_SEAL | DH_SEAL_ERR_KEY

type_synonym 'a dh_seal_result = "dh_seal_err + 'a"

text \<open>The platform's cipher: ciphertext and tag from key, nonce, clear head and plaintext, and back.\<close>

record dh_seal_aead =
  ae_seal :: "byte list \<Rightarrow> byte list \<Rightarrow> byte list \<Rightarrow> byte list \<Rightarrow> (byte list \<times> byte list) option"
  ae_open :: "byte list \<Rightarrow> byte list \<Rightarrow> byte list \<Rightarrow> byte list \<Rightarrow> byte list \<Rightarrow> byte list option"

record dh_seal_tx =
  st_offer :: "byte list"
  st_offered :: bool
  st_live :: bool
  st_seal_id :: u32
  st_nonce :: "byte list"
  st_eph_private :: "byte list"
  st_key :: "byte list"
  st_counter :: u64

record dh_seal_rx =
  sr_offer :: "byte list"
  sr_accept :: "byte list"
  sr_live :: bool
  sr_seal_id :: u32
  sr_key :: "byte list"

definition seal_info :: "byte list" where
  "seal_info = ascii ''deskhopplus/2 seal''"

definition seal_put32 :: "u32 \<Rightarrow> byte list" where
  "seal_put32 v =
     [ucast (v AND 0xFF), ucast (drop_bit 8 v AND 0xFF), ucast (drop_bit 16 v AND 0xFF), ucast (drop_bit 24 v AND 0xFF)]"

definition seal_get32 :: "byte list \<Rightarrow> u32" where
  "seal_get32 p = ucast (p ! 0) OR push_bit 8 (ucast (p ! 1)) OR push_bit 16 (ucast (p ! 2)) OR push_bit 24 (ucast (p ! 3))"

definition seal_nonce :: "u64 \<Rightarrow> byte list" where
  "seal_nonce counter = map (\<lambda>i. ucast (drop_bit (8 * i) counter AND 0xFF)) [0..<8] @ replicate (DH_SEAL_NONCE_SIZE - 8) 0"

definition derive :: "uecc \<Rightarrow> byte list \<Rightarrow> byte list \<Rightarrow> byte list \<Rightarrow> byte list \<Rightarrow> byte list option" where
  "derive E eph_private peer_public nonce_offer nonce_accept =
     (case dh_p256_ecdh E eph_private peer_public of
        None \<Rightarrow> None
      | Some shared \<Rightarrow> dh_hkdf_sha256 shared (nonce_offer @ nonce_accept) seal_info DH_SEAL_KEY_SIZE)"

definition encode_exchange :: "u32 \<Rightarrow> byte list \<Rightarrow> byte list \<Rightarrow> nat \<Rightarrow> byte list option" where
  "encode_exchange seal_id nonce public_key cap =
     (if cap < DH_SEAL_EXCHANGE_LEN then None else Some (seal_put32 seal_id @ nonce @ public_key))"

definition dh_seal_tx_init :: dh_seal_tx where
  "dh_seal_tx_init =
     \<lparr>st_offer = replicate DH_SEAL_EXCHANGE_LEN 0, st_offered = False, st_live = False, st_seal_id = 0,
      st_nonce = replicate 16 0, st_eph_private = replicate 32 0, st_key = replicate DH_SEAL_KEY_SIZE 0, st_counter = 0\<rparr>"

definition dh_seal_rx_init :: dh_seal_rx where
  "dh_seal_rx_init =
     \<lparr>sr_offer = replicate DH_SEAL_EXCHANGE_LEN 0, sr_accept = replicate DH_SEAL_EXCHANGE_LEN 0, sr_live = False, sr_seal_id = 0,
      sr_key = replicate DH_SEAL_KEY_SIZE 0\<rparr>"

subsection \<open>The exchange\<close>

definition dh_seal_tx_offer ::
  "uecc \<Rightarrow> dh_seal_tx \<Rightarrow> u32 \<Rightarrow> byte list \<Rightarrow> byte list \<Rightarrow> nat \<Rightarrow> dh_seal_tx \<times> (byte list) dh_seal_result" where
  "dh_seal_tx_offer E tx seal_id eph_private nonce cap =
     (case dh_p256_public_from_private E eph_private of
        None \<Rightarrow> (tx, Inl DH_SEAL_ERR_KEY)
      | Some public_key \<Rightarrow>
          (case encode_exchange seal_id nonce public_key cap of
             None \<Rightarrow> (tx, Inl DH_SEAL_ERR_BUFFER)
           | Some out \<Rightarrow>
               (dh_seal_tx_init\<lparr>st_offer := out, st_offered := True, st_seal_id := seal_id, st_nonce := nonce,
                  st_eph_private := eph_private\<rparr>, Inr out)))"

definition dh_seal_tx_accepted :: "uecc \<Rightarrow> dh_seal_tx \<Rightarrow> byte list \<Rightarrow> dh_seal_tx \<times> unit dh_seal_result" where
  "dh_seal_tx_accepted E tx body =
     (if length body \<noteq> DH_SEAL_EXCHANGE_LEN then (tx, Inl DH_SEAL_ERR_MALFORMED)
      else if \<not> st_offered tx then (tx, Inl DH_SEAL_ERR_NO_SEAL)
      else if seal_get32 body \<noteq> st_seal_id tx then (tx, Inl DH_SEAL_ERR_UNKNOWN_ID)
      else
        let peer_nonce = take 16 (drop DH_SEAL_ID_SIZE body);
            peer_public = take 64 (drop (DH_SEAL_ID_SIZE + 16) body) in
        case derive E (st_eph_private tx) peer_public (st_nonce tx) peer_nonce of
          None \<Rightarrow> (tx, Inl DH_SEAL_ERR_KEY)
        | Some key \<Rightarrow>
            (tx\<lparr>st_key := key, st_eph_private := replicate 32 0, st_offered := False, st_live := True, st_counter := 0\<rparr>, Inr ()))"

definition dh_seal_rx_offered ::
  "uecc \<Rightarrow> dh_seal_rx \<Rightarrow> byte list \<Rightarrow> byte list \<Rightarrow> byte list \<Rightarrow> nat \<Rightarrow> dh_seal_rx \<times> (byte list) dh_seal_result" where
  "dh_seal_rx_offered E rx body eph_private nonce cap =
     (if length body \<noteq> DH_SEAL_EXCHANGE_LEN then (rx, Inl DH_SEAL_ERR_MALFORMED)
      else
        case dh_p256_public_from_private E eph_private of
          None \<Rightarrow> (rx, Inl DH_SEAL_ERR_KEY)
        | Some public_key \<Rightarrow>
            let seal_id = seal_get32 body;
                peer_nonce = take 16 (drop DH_SEAL_ID_SIZE body);
                peer_public = take 64 (drop (DH_SEAL_ID_SIZE + 16) body) in
            (case derive E eph_private peer_public peer_nonce nonce of
              None \<Rightarrow> (rx, Inl DH_SEAL_ERR_KEY)
            | Some key \<Rightarrow>
                (case encode_exchange seal_id nonce public_key cap of
                   None \<Rightarrow> (rx, Inl DH_SEAL_ERR_BUFFER)
                 | Some out \<Rightarrow>
                     (rx\<lparr>sr_offer := body, sr_accept := out, sr_live := True, sr_seal_id := seal_id, sr_key := key\<rparr>, Inr out))))"

text \<open>The platform's entropy is the list of what its draws return, in order; \<open>None\<close> is a draw that failed.\<close>

fun draw :: "byte list option list \<Rightarrow> byte list option \<times> byte list option list" where
  "draw [] = (None, [])"
| "draw (d # ds) = (d, ds)"



fun accept_attempts ::
  "uecc \<Rightarrow> nat \<Rightarrow> dh_seal_rx \<Rightarrow> byte list \<Rightarrow> byte list \<Rightarrow> byte list option list \<Rightarrow> nat \<Rightarrow> dh_seal_rx \<times> (byte list) dh_seal_result" where
  "accept_attempts E 0 rx body nonce ds cap = (rx, Inl DH_SEAL_ERR_KEY)"
| "accept_attempts E (Suc n) rx body nonce ds cap =
     (case draw ds of
        (None, _) \<Rightarrow> (rx, Inl DH_SEAL_ERR_KEY)
      | (Some private_key, ds) \<Rightarrow>
          (case dh_seal_rx_offered E rx body private_key nonce cap of
             (rx, Inl DH_SEAL_ERR_KEY) \<Rightarrow> accept_attempts E n rx body nonce ds cap
           | r \<Rightarrow> r))"

text \<open>The flag is \<open>fresh\<close>: a key was made, not an earlier answer repeated.\<close>

definition dh_seal_accept ::
  "uecc \<Rightarrow> dh_seal_rx \<Rightarrow> byte list option list \<Rightarrow> byte list \<Rightarrow> nat \<Rightarrow> dh_seal_rx \<times> (byte list) dh_seal_result \<times> bool" where
  "dh_seal_accept E rx ds body cap =
     (if length body \<noteq> DH_SEAL_EXCHANGE_LEN then (rx, Inl DH_SEAL_ERR_MALFORMED, False)
      else if cap < DH_SEAL_EXCHANGE_LEN then (rx, Inl DH_SEAL_ERR_BUFFER, False)
      else if sr_live rx \<and> sr_offer rx = body then (rx, Inr (sr_accept rx), False)
      else
        case draw ds of
          (None, _) \<Rightarrow> (rx, Inl DH_SEAL_ERR_KEY, False)
        | (Some nonce, ds) \<Rightarrow>
            let (rx, rc) = accept_attempts E 8 rx body nonce ds cap in (rx, rc, \<not> isl rc))"


definition dh_seal_encode_stale :: "u32 \<Rightarrow> nat \<Rightarrow> byte list option" where
  "dh_seal_encode_stale seal_id cap = (if cap < DH_SEAL_STALE_LEN then None else Some (seal_put32 seal_id))"

definition dh_seal_decode_stale :: "byte list \<Rightarrow> u32 option" where
  "dh_seal_decode_stale body = (if length body \<noteq> DH_SEAL_STALE_LEN then None else Some (seal_get32 body))"

definition dh_seal_peek_id :: "byte \<Rightarrow> byte list \<Rightarrow> u32 option" where
  "dh_seal_peek_id t body =
     (if t = DH_MSG_CLIP_OFFER then map_option oh_seal_id (dh_clip_decode_offer_head body)
      else if t = DH_MSG_CLIP_CHUNK then map_option kh_seal_id (dh_clip_decode_chunk_head body)
      else None)"

subsection \<open>Sealing and opening\<close>

definition seal_staged ::
  "dh_seal_tx \<Rightarrow> dh_seal_aead \<Rightarrow> byte list \<Rightarrow> byte list \<Rightarrow> dh_seal_tx \<times> (byte list) dh_seal_result" where
  "seal_staged tx A head plain =
     (case ae_seal A (st_key tx) (seal_nonce (st_counter tx)) head plain of
        None \<Rightarrow> (tx, Inl DH_SEAL_ERR_AUTH)
      | Some (cipher, tag) \<Rightarrow> (tx\<lparr>st_counter := st_counter tx + 1\<rparr>, Inr (head @ cipher @ tag)))"

definition dh_seal_encode_offer ::
  "dh_seal_tx \<Rightarrow> dh_seal_aead \<Rightarrow> dh_clip_offer \<Rightarrow> nat \<Rightarrow> dh_seal_tx \<times> (byte list) dh_seal_result" where
  "dh_seal_encode_offer tx A offer cap =
     (if \<not> st_live tx then (tx, Inl DH_SEAL_ERR_NO_SEAL)
      else
        let body_len = DH_SEAL_OFFER_OVERHEAD + length (co_meta offer) in
        if cap < body_len \<or> body_len > SEAL_BODY_MAX then (tx, Inl DH_SEAL_ERR_BUFFER)
        else
          case dh_clip_encode_offer_head \<lparr>oh_id = co_id offer, oh_seal_id = st_seal_id tx, oh_seal_counter = st_counter tx\<rparr> cap of
            None \<Rightarrow> (tx, Inl DH_SEAL_ERR_BUFFER)
          | Some head \<Rightarrow>
              (case dh_clip_encode_offer_plain offer (cap - DH_CLIP_OFFER_HEAD_LEN) of
                 None \<Rightarrow> (tx, Inl DH_SEAL_ERR_BUFFER)
               | Some plain \<Rightarrow> seal_staged tx A head plain))"

definition dh_seal_encode_chunk ::
  "dh_seal_tx \<Rightarrow> dh_seal_aead \<Rightarrow> dh_clip_chunk \<Rightarrow> nat \<Rightarrow> dh_seal_tx \<times> (byte list) dh_seal_result" where
  "dh_seal_encode_chunk tx A chunk cap =
     (if \<not> st_live tx then (tx, Inl DH_SEAL_ERR_NO_SEAL)
      else
        let body_len = DH_SEAL_CHUNK_OVERHEAD + length (ck_data chunk) in
        if cap < body_len \<or> body_len > SEAL_BODY_MAX then (tx, Inl DH_SEAL_ERR_BUFFER)
        else
          case dh_clip_encode_chunk_head
              \<lparr>kh_id = ck_id chunk, kh_seq = ck_seq chunk, kh_seal_id = st_seal_id tx, kh_seal_counter = st_counter tx\<rparr> cap of
            None \<Rightarrow> (tx, Inl DH_SEAL_ERR_BUFFER)
          | Some head \<Rightarrow>
              (case dh_clip_encode_chunk_plain chunk (cap - DH_CLIP_CHUNK_HEAD_LEN) of
                 None \<Rightarrow> (tx, Inl DH_SEAL_ERR_BUFFER)
               | Some plain \<Rightarrow> seal_staged tx A head plain))"

definition open_staged ::
  "dh_seal_rx \<Rightarrow> dh_seal_aead \<Rightarrow> byte list \<Rightarrow> nat \<Rightarrow> u32 \<Rightarrow> u64 \<Rightarrow> nat \<Rightarrow> (byte list) dh_seal_result" where
  "open_staged rx A body head_len named_seal_id counter plain_cap =
     (if length body < head_len + DH_SEAL_TAG_SIZE then Inl DH_SEAL_ERR_MALFORMED
      else if \<not> sr_live rx \<or> sr_seal_id rx \<noteq> named_seal_id then Inl DH_SEAL_ERR_UNKNOWN_ID
      else
        let cipher_len = length body - head_len - DH_SEAL_TAG_SIZE in
        if cipher_len > plain_cap then Inl DH_SEAL_ERR_BUFFER
        else
          case ae_open A (sr_key rx) (seal_nonce counter) (take head_len body) (take cipher_len (drop head_len body))
              (take DH_SEAL_TAG_SIZE (drop (head_len + cipher_len) body)) of
            None \<Rightarrow> Inl DH_SEAL_ERR_AUTH
          | Some plain \<Rightarrow> Inr plain)"

definition dh_seal_open_offer ::
  "dh_seal_rx \<Rightarrow> dh_seal_aead \<Rightarrow> byte list \<Rightarrow> nat \<Rightarrow> dh_clip_offer \<Rightarrow> dh_clip_offer dh_seal_result" where
  "dh_seal_open_offer rx A body plain_cap out =
     (case dh_clip_decode_offer_head body of
        None \<Rightarrow> Inl DH_SEAL_ERR_MALFORMED
      | Some head \<Rightarrow>
          (case open_staged rx A body DH_CLIP_OFFER_HEAD_LEN (oh_seal_id head) (oh_seal_counter head) plain_cap of
             Inl e \<Rightarrow> Inl e
           | Inr plain \<Rightarrow>
               (case dh_clip_decode_offer_plain plain out of
                  None \<Rightarrow> Inl DH_SEAL_ERR_MALFORMED
                | Some offer \<Rightarrow> Inr (offer\<lparr>co_id := oh_id head\<rparr>))))"

definition dh_seal_open_chunk ::
  "dh_seal_rx \<Rightarrow> dh_seal_aead \<Rightarrow> byte list \<Rightarrow> nat \<Rightarrow> dh_clip_chunk \<Rightarrow> dh_clip_chunk dh_seal_result" where
  "dh_seal_open_chunk rx A body plain_cap out =
     (case dh_clip_decode_chunk_head body of
        None \<Rightarrow> Inl DH_SEAL_ERR_MALFORMED
      | Some head \<Rightarrow>
          (case open_staged rx A body DH_CLIP_CHUNK_HEAD_LEN (kh_seal_id head) (kh_seal_counter head) plain_cap of
             Inl e \<Rightarrow> Inl e
           | Inr plain \<Rightarrow>
               (case dh_clip_decode_chunk_plain plain out of
                  None \<Rightarrow> Inl DH_SEAL_ERR_MALFORMED
                | Some chunk \<Rightarrow> Inr (chunk\<lparr>ck_id := kh_id head, ck_seq := kh_seq head\<rparr>))))"

section \<open>The exchange agrees\<close>

lemma seal_put_length [simp]: "length (seal_put32 v) = 4"
  by (simp add: seal_put32_def)

lemma mask_ff: "(0xFF :: u32) = mask 8" "(0xFF :: u64) = mask 8"
  by (simp_all add: mask_eq_exp_minus_1)

lemma seal_get_put [simp]: "seal_get32 (seal_put32 v @ xs) = v"
proof (rule bit_word_eqI)
  fix n
  assume "n < LENGTH(32)"
  then consider "n < 8" | "8 \<le> n" "n < 16" | "16 \<le> n" "n < 24" | "24 \<le> n" "n < 32" by fastforce
  then show "bit (seal_get32 (seal_put32 v @ xs)) n = bit v n"
    unfolding seal_get32_def seal_put32_def mask_ff by cases (auto simp: bit_simps)
qed

lemma exchange_parts:
  assumes "encode_exchange sid nonce public_key cap = Some out" and "length nonce = 16" and "length public_key = 64"
  shows "length out = 84" and "seal_get32 out = sid" and "take 16 (drop 4 out) = nonce" and "take 64 (drop 20 out) = public_key"
  using assms by (auto simp: encode_exchange_def split: if_splits)

text \<open>What the curve library promises of two key pairs: public keys of 64 bytes, and one shared secret from either side.\<close>

definition curve_agrees :: "uecc \<Rightarrow> byte list \<Rightarrow> byte list \<Rightarrow> bool" where
  "curve_agrees E a b =
     (\<forall>pa pb. dh_p256_public_from_private E a = Some pa \<longrightarrow> dh_p256_public_from_private E b = Some pb \<longrightarrow>
        length pa = 64 \<and> length pb = 64 \<and> dh_p256_ecdh E a pb = dh_p256_ecdh E b pa)"

text \<open>The seal exchange agrees: when the sender's offer is taken up by the receiver and the accept comes back, the sender
  accepts it, both ends hold the same key under the same seal id, the sender's counter is at zero and its ephemeral private key
  is wiped.\<close>

theorem seal_exchange_agrees:
  assumes "dh_seal_tx_offer E tx sid a nonce cap = (tx1, Inr offer)" and "dh_seal_rx_offered E rx offer b nonce' cap' = (rx1, Inr acc)"
    and "curve_agrees E a b" and "length nonce = 16" and "length nonce' = 16"
  shows "\<exists>tx2. dh_seal_tx_accepted E tx1 acc = (tx2, Inr ()) \<and> st_live tx2 \<and> sr_live rx1 \<and> st_key tx2 = sr_key rx1 \<and>
    st_seal_id tx2 = sid \<and> sr_seal_id rx1 = sid \<and> st_counter tx2 = 0 \<and> st_eph_private tx2 = replicate 32 0 \<and> \<not> st_offered tx2"
proof -
  obtain pa where pa: "dh_p256_public_from_private E a = Some pa" "encode_exchange sid nonce pa cap = Some offer"
    and tx1: "tx1 = dh_seal_tx_init\<lparr>st_offer := offer, st_offered := True, st_seal_id := sid, st_nonce := nonce, st_eph_private := a\<rparr>"
    using assms(1) by (auto simp: dh_seal_tx_offer_def split: option.splits)
  obtain pb where pb: "dh_p256_public_from_private E b = Some pb"
    using assms(2) by (auto simp: dh_seal_rx_offered_def split: if_splits option.splits)
  have len: "length pa = 64" "length pb = 64" and sh: "dh_p256_ecdh E a pb = dh_p256_ecdh E b pa"
    using assms(3) pa(1) pb by (simp_all add: curve_agrees_def)
  note o = exchange_parts [OF pa(2) assms(4) len(1)]
  obtain key where k: "derive E b pa nonce nonce' = Some key" and acc: "encode_exchange sid nonce' pb cap' = Some acc"
    and rx1: "rx1 = rx\<lparr>sr_offer := offer, sr_accept := acc, sr_live := True, sr_seal_id := sid, sr_key := key\<rparr>"
    using assms(2) o pb by (auto simp: dh_seal_rx_offered_def Let_def split: option.splits)
  note c = exchange_parts [OF acc assms(5) len(2)]
  have "derive E a pb nonce nonce' = Some key" using k sh by (simp add: derive_def)
  then show ?thesis using c rx1 len(2) by (simp add: dh_seal_tx_accepted_def tx1)
qed

section \<open>Opening is the inverse of sealing\<close>

text \<open>What the platform's cipher promises (AES-GCM): the ciphertext has the length of the plaintext and the tag sixteen bytes, and
  opening succeeds on exactly what sealing produced under the same key, nonce and head.\<close>

definition aead_ok :: "dh_seal_aead \<Rightarrow> bool" where
  "aead_ok A =
     ((\<forall>k n h p c t. ae_seal A k n h p = Some (c, t) \<longrightarrow> length c = length p \<and> length t = 16 \<and> ae_open A k n h c t = Some p) \<and>
      (\<forall>k n h c t p. length t = 16 \<longrightarrow> ae_open A k n h c t = Some p \<longrightarrow> ae_seal A k n h p = Some (c, t)))"

lemma aead_seals:
  assumes "aead_ok A" and "ae_seal A k n h p = Some (c, t)"
  shows "length c = length p" and "length t = 16" and "ae_open A k n h c t = Some p"
  using assms unfolding aead_ok_def by blast+

lemma aead_opens: "aead_ok A \<Longrightarrow> length t = 16 \<Longrightarrow> ae_open A k n h c t = Some p \<longleftrightarrow> ae_seal A k n h p = Some (c, t)"
  unfolding aead_ok_def by blast

lemma put_get16: "2 \<le> length p \<Longrightarrow> put16 (get16 p) = take 2 p"
proof -
  assume "2 \<le> length p"
  then obtain x y q where p: "p = x # y # q" by (cases p; cases "tl p") auto
  have "ucast ((ucast x OR push_bit 8 (ucast y)) AND (0xFF :: u16)) = x" "ucast (drop_bit 8 (ucast x OR push_bit 8 (ucast y) :: u16)) = y"
    unfolding mask8_u16 by (rule bit_word_eqI, auto simp: bit_simps dest: bit_imp_le_length)+
  then show ?thesis by (simp add: p put16_def get16_cons)
qed

lemma put_get32: "4 \<le> length p \<Longrightarrow> put32 (get32 p) = take 4 p"
proof -
  assume l: "4 \<le> length p"
  let ?a = "get16 p" and ?b = "get16 (drop 2 p)"
  have "ucast ((ucast ?a OR push_bit 16 (ucast ?b)) AND (0xFFFF :: u32)) = ?a" "ucast (drop_bit 16 (ucast ?a OR push_bit 16 (ucast ?b) :: u32)) = ?b"
    unfolding mask_u32_16 by (rule bit_word_eqI, auto simp: bit_simps dest: bit_imp_le_length)+
  then have "put32 (get32 p) = put16 ?a @ put16 ?b" by (simp add: put32_def get32_def)
  also have "\<dots> = take 2 p @ take 2 (drop 2 p)" using l by (simp add: put_get16)
  also have "\<dots> = take 4 p" using take_add [of 2 2 p] by simp
  finally show ?thesis .
qed

lemma put_get64: "8 \<le> length p \<Longrightarrow> put64 (get64 p) = take 8 p"
proof -
  assume l: "8 \<le> length p"
  let ?a = "get32 p" and ?b = "get32 (drop 4 p)"
  have "ucast ((ucast ?a OR push_bit 32 (ucast ?b)) AND (0xFFFFFFFF :: u64)) = ?a" "ucast (drop_bit 32 (ucast ?a OR push_bit 32 (ucast ?b) :: u64)) = ?b"
    unfolding mask_u64_32 by (rule bit_word_eqI, auto simp: bit_simps dest: bit_imp_le_length)+
  then have "put64 (get64 p) = put32 ?a @ put32 ?b" by (simp add: put64_def get64_def)
  also have "\<dots> = take 4 p @ take 4 (drop 4 p)" using l by (simp add: put_get32)
  also have "\<dots> = take 8 p" using take_add [of 4 4 p] by simp
  finally show ?thesis .
qed

lemma open_staged_exact:
  assumes "aead_ok A" and "sr_live rx" and "head_len \<le> length body"
  shows "open_staged rx A body head_len sid counter cap = Inr plain \<longleftrightarrow>
    sid = sr_seal_id rx \<and> length plain \<le> cap \<and>
    (\<exists>c t. ae_seal A (sr_key rx) (seal_nonce counter) (take head_len body) plain = Some (c, t) \<and> drop head_len body = c @ t)"
proof -
  define n where "n = length body - head_len - 16"
  define c where "c = take n (drop head_len body)"
  define t where "t = take 16 (drop (head_len + n) body)"
  show ?thesis
  proof (cases "length body < head_len + 16")
    case True
    have "drop head_len body \<noteq> c @ t" if "ae_seal A (sr_key rx) (seal_nonce counter) (take head_len body) plain = Some (c, t)" for c t
    proof
      assume "drop head_len body = c @ t"
      then have "length body - head_len = length c + length t" by (metis length_append length_drop)
      then show False using aead_seals(2) [OF assms(1) that] True assms(3) by simp
    qed
    then show ?thesis using True by (simp add: open_staged_def)
  next
    case False
    have ct: "drop head_len body = c @ t" "length t = 16" "length c = n"
    proof -
      have n: "length (drop head_len body) = n + 16" using False by (simp add: n_def)
      have t': "t = drop n (drop head_len body)" using n by (simp add: t_def add.commute)
      show "drop head_len body = c @ t" by (simp add: c_def t' del: drop_drop)
      show "length t = 16" unfolding t' length_drop [of n "drop head_len body"] n by simp
      show "length c = n" using n by (simp add: c_def)
    qed
    have u: "c' = c \<and> t' = t" if "ae_seal A k m h plain = Some (c', t')" "drop head_len body = c' @ t'" for c' t' k m h
      using that(2) ct(1,2) aead_seals(2) [OF assms(1) that(1)] by simp
    have "open_staged rx A body head_len sid counter cap = Inr plain \<longleftrightarrow>
        sid = sr_seal_id rx \<and> n \<le> cap \<and> ae_open A (sr_key rx) (seal_nonce counter) (take head_len body) c t = Some plain"
      unfolding open_staged_def Let_def n_def [symmetric] c_def [symmetric] t_def [symmetric]
      using False assms(2) by (auto split: option.splits)
    also have "\<dots> \<longleftrightarrow> sid = sr_seal_id rx \<and> n \<le> cap \<and> ae_seal A (sr_key rx) (seal_nonce counter) (take head_len body) plain = Some (c, t)"
      by (simp only: aead_opens [OF assms(1) ct(2)])
    also have "\<dots> \<longleftrightarrow> sid = sr_seal_id rx \<and> length plain \<le> cap \<and>
        (\<exists>c t. ae_seal A (sr_key rx) (seal_nonce counter) (take head_len body) plain = Some (c, t) \<and> drop head_len body = c @ t)"
      using u ct(1,3) aead_seals(1) [OF assms(1)] by auto
    finally show ?thesis .
  qed
qed

text \<open>A sender that holds a receiver's key, at some counter.\<close>

definition sender_of :: "dh_seal_rx \<Rightarrow> u64 \<Rightarrow> dh_seal_tx" where
  "sender_of rx counter = dh_seal_tx_init\<lparr>st_live := True, st_seal_id := sr_seal_id rx, st_key := sr_key rx, st_counter := counter\<rparr>"

lemma sender_facts [simp]:
  "st_live (sender_of rx n)" "st_seal_id (sender_of rx n) = sr_seal_id rx" "st_key (sender_of rx n) = sr_key rx" "st_counter (sender_of rx n) = n"
  by (simp_all add: sender_of_def)

lemma seal_staged_exact:
  assumes "aead_ok A"
  shows "snd (seal_staged tx A head plain) = Inr body \<longleftrightarrow>
    (\<exists>c t. ae_seal A (st_key tx) (seal_nonce (st_counter tx)) head plain = Some (c, t) \<and> body = head @ c @ t)"
  by (auto simp: seal_staged_def split: option.splits)

text \<open>The heads and plain parts as bytes.\<close>

definition chunk_head_bytes :: "dh_seal_tx \<Rightarrow> dh_clip_chunk \<Rightarrow> byte list" where
  "chunk_head_bytes tx k = put32 (ck_id k) @ put32 (ck_seq k) @ put32 (st_seal_id tx) @ put64 (st_counter tx)"

definition chunk_plain_bytes :: "dh_clip_chunk \<Rightarrow> byte list" where
  "chunk_plain_bytes k = put32 (ck_crc32 k) @ ck_data k"

definition offer_head_bytes :: "dh_seal_tx \<Rightarrow> dh_clip_offer \<Rightarrow> byte list" where
  "offer_head_bytes tx f = put32 (co_id f) @ put32 (st_seal_id tx) @ put64 (st_counter tx)"

definition offer_plain_bytes :: "dh_clip_offer \<Rightarrow> byte list" where
  "offer_plain_bytes f = [co_kind f] @ put64 (co_total f) @ put16 (of_nat (length (co_meta f))) @ co_meta f"

lemma encode_chunk_exact:
  assumes "aead_ok A" and "st_live tx"
  shows "snd (dh_seal_encode_chunk tx A k 4096) = Inr body \<longleftrightarrow>
    40 + length (ck_data k) \<le> 4072 \<and>
    (\<exists>c t. ae_seal A (st_key tx) (seal_nonce (st_counter tx)) (chunk_head_bytes tx k) (chunk_plain_bytes k) = Some (c, t) \<and> body = chunk_head_bytes tx k @ c @ t)"
  using assms(2) seal_staged_exact [OF assms(1), of tx "chunk_head_bytes tx k" "chunk_plain_bytes k" body]
  by (auto simp: dh_seal_encode_chunk_def Let_def dh_clip_encode_chunk_head_def dh_clip_encode_chunk_plain_def chunk_head_bytes_def chunk_plain_bytes_def)

lemma encode_offer_exact:
  assumes "aead_ok A" and "st_live tx"
  shows "snd (dh_seal_encode_offer tx A f 4096) = Inr body \<longleftrightarrow>
    43 + length (co_meta f) \<le> 4072 \<and>
    (\<exists>c t. ae_seal A (st_key tx) (seal_nonce (st_counter tx)) (offer_head_bytes tx f) (offer_plain_bytes f) = Some (c, t) \<and> body = offer_head_bytes tx f @ c @ t)"
  using assms(2) seal_staged_exact [OF assms(1), of tx "offer_head_bytes tx f" "offer_plain_bytes f" body]
  by (auto simp: dh_seal_encode_offer_def Let_def dh_clip_encode_offer_head_def dh_clip_encode_offer_plain_def offer_head_bytes_def offer_plain_bytes_def)

lemma decode_chunk_plain_exact: "dh_clip_decode_chunk_plain p out = Some k \<Longrightarrow> p = chunk_plain_bytes k"
  by (auto simp: dh_clip_decode_chunk_plain_def chunk_plain_bytes_def put_get32 split: if_splits)

lemma decode_offer_plain_exact: "dh_clip_decode_offer_plain p out = Some f \<Longrightarrow> p = offer_plain_bytes f"
proof -
  assume "dh_clip_decode_offer_plain p out = Some f"
  then have l: "11 \<le> length p" "11 + unat (get16 (drop 9 p)) = length p" "f = out\<lparr>co_kind := p ! 0, co_total := get64 (drop 1 p), co_meta := drop 11 p\<rparr>"
    by (auto simp: dh_clip_decode_offer_plain_def Let_def split: if_splits)
  have "of_nat (length (drop 11 p)) = get16 (drop 9 p)" proof -
    have "length (drop 11 p) = unat (get16 (drop 9 p))" using l(2) by simp
    then show ?thesis by (simp del: length_drop)
  qed
  then have "offer_plain_bytes f = [p ! 0] @ take 8 (drop 1 p) @ take 2 (drop 9 p) @ drop 11 p"
    using l by (simp add: offer_plain_bytes_def put_get64 put_get16)
  also have "\<dots> = take 1 p @ take 8 (drop 1 p) @ take 2 (drop 9 p) @ drop 11 p" using l(1) by (cases p) simp_all
  also have "\<dots> = p"
    using append_take_drop_id [of 1 p] append_take_drop_id [of 8 "drop 1 p"] append_take_drop_id [of 2 "drop 9 p"] by simp
  finally show ?thesis by simp
qed

lemma open_chunk_heads:
  assumes "20 \<le> length body"
  shows "take 20 body = put32 (get32 body) @ put32 (get32 (drop 4 body)) @ put32 (get32 (drop 8 body)) @ put64 (get64 (drop 12 body))"
proof -
  have "take 20 body = take 4 body @ take 4 (drop 4 body) @ take 4 (drop 8 body) @ take 8 (drop 12 body)"
    using take_add [of 4 16 body] take_add [of 4 12 "drop 4 body"] take_add [of 4 8 "drop 8 body"] by simp
  then show ?thesis using assms by (simp add: put_get32 put_get64)
qed

lemma open_offer_heads:
  assumes "16 \<le> length body"
  shows "take 16 body = put32 (get32 body) @ put32 (get32 (drop 4 body)) @ put64 (get64 (drop 8 body))"
proof -
  have "take 16 body = take 4 body @ take 4 (drop 4 body) @ take 8 (drop 8 body)"
    using take_add [of 4 12 body] take_add [of 4 8 "drop 4 body"] by simp
  then show ?thesis using assms by (simp add: put_get32 put_get64)
qed

text \<open>C30. A sealed chunk opens to exactly what was sealed, and nothing else opens: on a live seal, whatever body arrives (of the
  size a frame can carry), the receiver gets a chunk out of it exactly when a sender with the same key and seal id produces that
  very body from that very chunk at some counter. Data, checksum, identity and position are all covered.\<close>

theorem seal_chunk_exact:
  assumes "aead_ok A" and "sr_live rx" and "length body \<le> 4072"
  shows "dh_seal_open_chunk rx A body 4096 out = Inr chunk \<longleftrightarrow> (\<exists>n. snd (dh_seal_encode_chunk (sender_of rx n) A chunk 4096) = Inr body)"
proof
  assume o: "dh_seal_open_chunk rx A body 4096 out = Inr chunk"
  then have l: "20 \<le> length body" by (auto simp: dh_seal_open_chunk_def dh_clip_decode_chunk_head_def split: if_splits)
  let ?n = "get64 (drop 12 body)"
  obtain plain k where p: "open_staged rx A body 20 (get32 (drop 8 body)) ?n 4096 = Inr plain" "dh_clip_decode_chunk_plain plain out = Some k"
    "chunk = k\<lparr>ck_id := get32 body, ck_seq := get32 (drop 4 body)\<rparr>"
    using o l by (auto simp: dh_seal_open_chunk_def dh_clip_decode_chunk_head_def split: sum.splits option.splits)
  obtain c t where s: "get32 (drop 8 body) = sr_seal_id rx" "ae_seal A (sr_key rx) (seal_nonce ?n) (take 20 body) plain = Some (c, t)" "drop 20 body = c @ t"
    using p(1) open_staged_exact [OF assms(1,2) l] by blast
  have h: "take 20 body = chunk_head_bytes (sender_of rx ?n) chunk" using open_chunk_heads [OF l] s(1) p(3) by (simp add: chunk_head_bytes_def)
  have pl: "plain = chunk_plain_bytes chunk" using decode_chunk_plain_exact [OF p(2)] p(3) by (simp add: chunk_plain_bytes_def)
  have len: "length c = length plain" "length t = 16" using aead_seals [OF assms(1) s(2)] by simp_all
  have "length (drop 20 body) = length c + length t" unfolding s(3) by simp
  then have "length body = 20 + length c + 16" using l len by simp
  then have "40 + length (ck_data chunk) \<le> 4072" using assms(3) len pl by (simp add: chunk_plain_bytes_def)
  moreover have "snd (dh_seal_encode_chunk (sender_of rx ?n) A chunk 4096) = Inr body" if "40 + length (ck_data chunk) \<le> 4072"
  proof -
    have e: "body = chunk_head_bytes (sender_of rx ?n) chunk @ c @ t" using append_take_drop_id [of 20 body] unfolding h s(3) by (rule sym)
    have s2: "ae_seal A (st_key (sender_of rx ?n)) (seal_nonce (st_counter (sender_of rx ?n))) (chunk_head_bytes (sender_of rx ?n) chunk) (chunk_plain_bytes chunk) = Some (c, t)"
      using s(2) unfolding h pl by simp
    show ?thesis by (rule iffD2 [OF encode_chunk_exact [OF assms(1) sender_facts(1)]]) (intro conjI exI, rule that, rule s2, rule e)
  qed
  ultimately show "\<exists>n. snd (dh_seal_encode_chunk (sender_of rx n) A chunk 4096) = Inr body" by blast
next
  assume "\<exists>n. snd (dh_seal_encode_chunk (sender_of rx n) A chunk 4096) = Inr body"
  then obtain n c t where e: "40 + length (ck_data chunk) \<le> 4072"
    "ae_seal A (sr_key rx) (seal_nonce n) (chunk_head_bytes (sender_of rx n) chunk) (chunk_plain_bytes chunk) = Some (c, t)" "body = chunk_head_bytes (sender_of rx n) chunk @ c @ t"
    using encode_chunk_exact [OF assms(1)] by fastforce
  have hl: "length (chunk_head_bytes (sender_of rx n) chunk) = 20" by (simp add: chunk_head_bytes_def)
  have "dh_clip_decode_chunk_head body = Some \<lparr>kh_id = ck_id chunk, kh_seq = ck_seq chunk, kh_seal_id = sr_seal_id rx, kh_seal_counter = n\<rparr>"
    unfolding e(3) by (simp add: dh_clip_decode_chunk_head_def chunk_head_bytes_def)
  moreover have "open_staged rx A body 20 (sr_seal_id rx) n 4096 = Inr (chunk_plain_bytes chunk)"
    using e hl open_staged_exact [OF assms(1,2), of 20 body "sr_seal_id rx" n 4096 "chunk_plain_bytes chunk"] by (simp add: chunk_plain_bytes_def)
  moreover have "dh_clip_decode_chunk_plain (chunk_plain_bytes chunk) out = Some (out\<lparr>ck_crc32 := ck_crc32 chunk, ck_data := ck_data chunk\<rparr>)"
    using e(1) by (simp add: dh_clip_decode_chunk_plain_def chunk_plain_bytes_def)
  ultimately show "dh_seal_open_chunk rx A body 4096 out = Inr chunk" by (simp add: dh_seal_open_chunk_def)
qed

text \<open>The same for the offer that announces a transfer: its kind, total and metadata open to exactly what was sealed.\<close>

theorem seal_offer_exact:
  assumes "aead_ok A" and "sr_live rx" and "length body \<le> 4072"
  shows "dh_seal_open_offer rx A body 4096 out = Inr offer \<longleftrightarrow> (\<exists>n. snd (dh_seal_encode_offer (sender_of rx n) A offer 4096) = Inr body)"
proof
  assume o: "dh_seal_open_offer rx A body 4096 out = Inr offer"
  then have l: "16 \<le> length body" by (auto simp: dh_seal_open_offer_def dh_clip_decode_offer_head_def split: if_splits)
  let ?n = "get64 (drop 8 body)"
  obtain plain k where p: "open_staged rx A body 16 (get32 (drop 4 body)) ?n 4096 = Inr plain" "dh_clip_decode_offer_plain plain out = Some k"
    "offer = k\<lparr>co_id := get32 body\<rparr>"
    using o l by (auto simp: dh_seal_open_offer_def dh_clip_decode_offer_head_def split: sum.splits option.splits)
  obtain c t where s: "get32 (drop 4 body) = sr_seal_id rx" "ae_seal A (sr_key rx) (seal_nonce ?n) (take 16 body) plain = Some (c, t)" "drop 16 body = c @ t"
    using p(1) open_staged_exact [OF assms(1,2) l] by blast
  have h: "take 16 body = offer_head_bytes (sender_of rx ?n) offer" using open_offer_heads [OF l] s(1) p(3) by (simp add: offer_head_bytes_def)
  have pl: "plain = offer_plain_bytes offer" using decode_offer_plain_exact [OF p(2)] p(3) by (simp add: offer_plain_bytes_def)
  have len: "length c = length plain" "length t = 16" using aead_seals [OF assms(1) s(2)] by simp_all
  have "length (drop 16 body) = length c + length t" unfolding s(3) by simp
  then have "length body = 16 + length c + 16" using l len by simp
  then have "43 + length (co_meta offer) \<le> 4072" using assms(3) len pl by (simp add: offer_plain_bytes_def)
  moreover have "snd (dh_seal_encode_offer (sender_of rx ?n) A offer 4096) = Inr body" if "43 + length (co_meta offer) \<le> 4072"
  proof -
    have e: "body = offer_head_bytes (sender_of rx ?n) offer @ c @ t" using append_take_drop_id [of 16 body] unfolding h s(3) by (rule sym)
    have s2: "ae_seal A (st_key (sender_of rx ?n)) (seal_nonce (st_counter (sender_of rx ?n))) (offer_head_bytes (sender_of rx ?n) offer) (offer_plain_bytes offer) = Some (c, t)"
      using s(2) unfolding h pl by simp
    show ?thesis by (rule iffD2 [OF encode_offer_exact [OF assms(1) sender_facts(1)]]) (intro conjI exI, rule that, rule s2, rule e)
  qed
  ultimately show "\<exists>n. snd (dh_seal_encode_offer (sender_of rx n) A offer 4096) = Inr body" by blast
next
  assume "\<exists>n. snd (dh_seal_encode_offer (sender_of rx n) A offer 4096) = Inr body"
  then obtain n c t where e: "43 + length (co_meta offer) \<le> 4072"
    "ae_seal A (sr_key rx) (seal_nonce n) (offer_head_bytes (sender_of rx n) offer) (offer_plain_bytes offer) = Some (c, t)" "body = offer_head_bytes (sender_of rx n) offer @ c @ t"
    using encode_offer_exact [OF assms(1)] by fastforce
  have hl: "length (offer_head_bytes (sender_of rx n) offer) = 16" by (simp add: offer_head_bytes_def)
  have "dh_clip_decode_offer_head body = Some \<lparr>oh_id = co_id offer, oh_seal_id = sr_seal_id rx, oh_seal_counter = n\<rparr>"
    unfolding e(3) by (simp add: dh_clip_decode_offer_head_def offer_head_bytes_def)
  moreover have "open_staged rx A body 16 (sr_seal_id rx) n 4096 = Inr (offer_plain_bytes offer)"
    using e hl open_staged_exact [OF assms(1,2), of 16 body "sr_seal_id rx" n 4096 "offer_plain_bytes offer"] by (simp add: offer_plain_bytes_def)
  moreover have "unat (of_nat (length (co_meta offer)) :: u16) = length (co_meta offer)" using e(1) by (intro unat_of_nat_u16) simp
  then have "dh_clip_decode_offer_plain (offer_plain_bytes offer) out = Some (out\<lparr>co_kind := co_kind offer, co_total := co_total offer, co_meta := co_meta offer\<rparr>)"
    by (simp add: dh_clip_decode_offer_plain_def offer_plain_bytes_def Let_def)
  ultimately show "dh_seal_open_offer rx A body 4096 out = Inr offer" by (simp add: dh_seal_open_offer_def)
qed

section \<open>Nonces\<close>





















section \<open>Witnesses\<close>

text \<open>A curve whose public key is the private one twice and whose shared secret is the sum, and a cipher that changes nothing.\<close>

definition sum_uecc :: uecc where
  "sum_uecc = \<lparr>uECC_compute_public_key = (\<lambda>k. Some (k @ k)), uECC_valid_public_key = (\<lambda>k. True),
     uECC_shared_secret = (\<lambda>q d. Some (map2 (+) (take 32 q) d))\<rparr>"

definition plain_aead :: dh_seal_aead where
  "plain_aead = \<lparr>ae_seal = (\<lambda>k n h p. Some (p, replicate 16 0)), ae_open = (\<lambda>k n h c t. if t = replicate 16 0 then Some c else None)\<rparr>"

lemma plain_aead_ok: "aead_ok plain_aead"
  by (auto simp: aead_ok_def plain_aead_def split: if_splits)

lemma map2_add_commute: "map2 (+) xs ys = map2 (+) ys (xs :: byte list)"
  by (induction xs ys rule: list_induct2') (simp_all add: add.commute)

lemma sum_agrees: "length a = 32 \<Longrightarrow> length b = 32 \<Longrightarrow> curve_agrees sum_uecc a b"
  by (auto simp: curve_agrees_def dh_p256_public_from_private_def dh_p256_ecdh_def sum_uecc_def map2_add_commute)

lemma derive_toy: "\<exists>key. derive sum_uecc a p n n' = Some key"
  by (simp add: derive_def dh_p256_ecdh_def sum_uecc_def dh_hkdf_sha256_def Let_def)

theorem seal_exchange_agrees_witness:
  "\<exists>tx1 offer rx1 acc tx2. dh_seal_tx_offer sum_uecc dh_seal_tx_init 7 (replicate 32 1) (replicate 16 2) 84 = (tx1, Inr offer) \<and>
     dh_seal_rx_offered sum_uecc dh_seal_rx_init offer (replicate 32 3) (replicate 16 4) 84 = (rx1, Inr acc) \<and>
     dh_seal_tx_accepted sum_uecc tx1 acc = (tx2, Inr ()) \<and> st_key tx2 = sr_key rx1 \<and> sr_seal_id rx1 = 7"
proof -
  obtain tx1 offer where o: "dh_seal_tx_offer sum_uecc dh_seal_tx_init 7 (replicate 32 1) (replicate 16 2) 84 = (tx1, Inr offer)" "length offer = 84"
    by (simp add: dh_seal_tx_offer_def dh_p256_public_from_private_def sum_uecc_def encode_exchange_def)
  obtain rx1 acc where a: "dh_seal_rx_offered sum_uecc dh_seal_rx_init offer (replicate 32 3) (replicate 16 4) 84 = (rx1, Inr acc)"
    using derive_toy [of "replicate 32 3" "take 64 (drop 20 offer)" "take 16 (drop 4 offer)" "replicate 16 4"] o(2)
    by (fastforce simp: dh_seal_rx_offered_def Let_def dh_p256_public_from_private_def sum_uecc_def encode_exchange_def)
  have "curve_agrees sum_uecc (replicate 32 1) (replicate 32 3)" by (rule sum_agrees) simp_all
  from seal_exchange_agrees [OF o(1) a this] show ?thesis using o(1) a by fastforce
qed

definition live_rx :: dh_seal_rx where
  "live_rx = dh_seal_rx_init\<lparr>sr_live := True, sr_seal_id := 7\<rparr>"

definition small_chunk :: dh_clip_chunk where
  "small_chunk = \<lparr>ck_id = 9, ck_seq = 3, ck_crc32 = 5, ck_data = [1, 2]\<rparr>"

theorem seal_chunk_exact_witness:
  "\<exists>body. snd (dh_seal_encode_chunk (sender_of live_rx 5) plain_aead small_chunk 4096) = Inr body \<and> length body = 42 \<and>
     dh_seal_open_chunk live_rx plain_aead body 4096 undefined = Inr small_chunk"
proof -
  have live: "sr_live live_rx" by (simp add: live_rx_def)
  obtain body where b: "snd (dh_seal_encode_chunk (sender_of live_rx 5) plain_aead small_chunk 4096) = Inr body" "length body = 42"
    using encode_chunk_exact [OF plain_aead_ok, of "sender_of live_rx 5" small_chunk]
    by (simp add: plain_aead_def small_chunk_def chunk_head_bytes_def chunk_plain_bytes_def)
  then show ?thesis using seal_chunk_exact [OF plain_aead_ok live, of body undefined small_chunk] by auto
qed

definition small_offer :: dh_clip_offer where
  "small_offer = \<lparr>co_id = 9, co_kind = 1, co_total = 70000, co_meta = [4]\<rparr>"

theorem seal_offer_exact_witness:
  "\<exists>body. snd (dh_seal_encode_offer (sender_of live_rx 5) plain_aead small_offer 4096) = Inr body \<and> length body = 44 \<and>
     dh_seal_open_offer live_rx plain_aead body 4096 undefined = Inr small_offer"
proof -
  have live: "sr_live live_rx" by (simp add: live_rx_def)
  obtain body where b: "snd (dh_seal_encode_offer (sender_of live_rx 5) plain_aead small_offer 4096) = Inr body" "length body = 44"
    using encode_offer_exact [OF plain_aead_ok, of "sender_of live_rx 5" small_offer]
    by (simp add: plain_aead_def small_offer_def offer_head_bytes_def offer_plain_bytes_def)
  then show ?thesis using seal_offer_exact [OF plain_aead_ok live, of body undefined small_offer] by auto
qed





end
