(* ===== verification/DH_Firmware.thy ===== *)
theory DH_Firmware
  imports DH_Crc32
begin

text \<open>
  Receiving a firmware image (\<open>src/src/fw_upgrade.c\<close>, \<open>peer_fw.c\<close>, \<open>config_exit.c\<close>, the flash and checksum functions of \<open>utils.c\<close>,
  \<open>kick_watchdog_task\<close>, \<open>firmware_upgrade_task\<close> and \<open>heartbeat_output_task\<close> of \<open>tasks.c\<close>, the word and heartbeat messages of \<open>handlers.c\<close>, \<open>tud_msc_write10_cb\<close> of
  \<open>ramdisk.c\<close>): pulled word by word from the other board, or dropped by the host as blocks. The clock and the answers of the transmit
  queue are arguments. Saving the configuration or the identity is here too, since both use the page buffer of the pull.
\<close>

section \<open>Model: the checksum of an image\<close>

definition crc32_lookup_table :: "u32 list" where
  "crc32_lookup_table = [
     0x00000000, 0x77073096, 0xee0e612c, 0x990951ba, 0x076dc419, 0x706af48f, 0xe963a535, 0x9e6495a3, 0x0edb8832, 0x79dcb8a4,
     0xe0d5e91e, 0x97d2d988, 0x09b64c2b, 0x7eb17cbd, 0xe7b82d07, 0x90bf1d91, 0x1db71064, 0x6ab020f2, 0xf3b97148, 0x84be41de,
     0x1adad47d, 0x6ddde4eb, 0xf4d4b551, 0x83d385c7, 0x136c9856, 0x646ba8c0, 0xfd62f97a, 0x8a65c9ec, 0x14015c4f, 0x63066cd9,
     0xfa0f3d63, 0x8d080df5, 0x3b6e20c8, 0x4c69105e, 0xd56041e4, 0xa2677172, 0x3c03e4d1, 0x4b04d447, 0xd20d85fd, 0xa50ab56b,
     0x35b5a8fa, 0x42b2986c, 0xdbbbc9d6, 0xacbcf940, 0x32d86ce3, 0x45df5c75, 0xdcd60dcf, 0xabd13d59, 0x26d930ac, 0x51de003a,
     0xc8d75180, 0xbfd06116, 0x21b4f4b5, 0x56b3c423, 0xcfba9599, 0xb8bda50f, 0x2802b89e, 0x5f058808, 0xc60cd9b2, 0xb10be924,
     0x2f6f7c87, 0x58684c11, 0xc1611dab, 0xb6662d3d, 0x76dc4190, 0x01db7106, 0x98d220bc, 0xefd5102a, 0x71b18589, 0x06b6b51f,
     0x9fbfe4a5, 0xe8b8d433, 0x7807c9a2, 0x0f00f934, 0x9609a88e, 0xe10e9818, 0x7f6a0dbb, 0x086d3d2d, 0x91646c97, 0xe6635c01,
     0x6b6b51f4, 0x1c6c6162, 0x856530d8, 0xf262004e, 0x6c0695ed, 0x1b01a57b, 0x8208f4c1, 0xf50fc457, 0x65b0d9c6, 0x12b7e950,
     0x8bbeb8ea, 0xfcb9887c, 0x62dd1ddf, 0x15da2d49, 0x8cd37cf3, 0xfbd44c65, 0x4db26158, 0x3ab551ce, 0xa3bc0074, 0xd4bb30e2,
     0x4adfa541, 0x3dd895d7, 0xa4d1c46d, 0xd3d6f4fb, 0x4369e96a, 0x346ed9fc, 0xad678846, 0xda60b8d0, 0x44042d73, 0x33031de5,
     0xaa0a4c5f, 0xdd0d7cc9, 0x5005713c, 0x270241aa, 0xbe0b1010, 0xc90c2086, 0x5768b525, 0x206f85b3, 0xb966d409, 0xce61e49f,
     0x5edef90e, 0x29d9c998, 0xb0d09822, 0xc7d7a8b4, 0x59b33d17, 0x2eb40d81, 0xb7bd5c3b, 0xc0ba6cad, 0xedb88320, 0x9abfb3b6,
     0x03b6e20c, 0x74b1d29a, 0xead54739, 0x9dd277af, 0x04db2615, 0x73dc1683, 0xe3630b12, 0x94643b84, 0x0d6d6a3e, 0x7a6a5aa8,
     0xe40ecf0b, 0x9309ff9d, 0x0a00ae27, 0x7d079eb1, 0xf00f9344, 0x8708a3d2, 0x1e01f268, 0x6906c2fe, 0xf762575d, 0x806567cb,
     0x196c3671, 0x6e6b06e7, 0xfed41b76, 0x89d32be0, 0x10da7a5a, 0x67dd4acc, 0xf9b9df6f, 0x8ebeeff9, 0x17b7be43, 0x60b08ed5,
     0xd6d6a3e8, 0xa1d1937e, 0x38d8c2c4, 0x4fdff252, 0xd1bb67f1, 0xa6bc5767, 0x3fb506dd, 0x48b2364b, 0xd80d2bda, 0xaf0a1b4c,
     0x36034af6, 0x41047a60, 0xdf60efc3, 0xa867df55, 0x316e8eef, 0x4669be79, 0xcb61b38c, 0xbc66831a, 0x256fd2a0, 0x5268e236,
     0xcc0c7795, 0xbb0b4703, 0x220216b9, 0x5505262f, 0xc5ba3bbe, 0xb2bd0b28, 0x2bb45a92, 0x5cb36a04, 0xc2d7ffa7, 0xb5d0cf31,
     0x2cd99e8b, 0x5bdeae1d, 0x9b64c2b0, 0xec63f226, 0x756aa39c, 0x026d930a, 0x9c0906a9, 0xeb0e363f, 0x72076785, 0x05005713,
     0x95bf4a82, 0xe2b87a14, 0x7bb12bae, 0x0cb61b38, 0x92d28e9b, 0xe5d5be0d, 0x7cdcefb7, 0x0bdbdf21, 0x86d3d2d4, 0xf1d4e242,
     0x68ddb3f8, 0x1fda836e, 0x81be16cd, 0xf6b9265b, 0x6fb077e1, 0x18b74777, 0x88085ae6, 0xff0f6a70, 0x66063bca, 0x11010b5c,
     0x8f659eff, 0xf862ae69, 0x616bffd3, 0x166ccf45, 0xa00ae278, 0xd70dd2ee, 0x4e048354, 0x3903b3c2, 0xa7672661, 0xd06016f7,
     0x4969474d, 0x3e6e77db, 0xaed16a4a, 0xd9d65adc, 0x40df0b66, 0x37d83bf0, 0xa9bcae53, 0xdebb9ec5, 0x47b2cf7f, 0x30b5ffe9,
     0xbdbdf21c, 0xcabac28a, 0x53b39330, 0x24b4a3a6, 0xbad03605, 0xcdd70693, 0x54de5729, 0x23d967bf, 0xb3667a2e, 0xc4614ab8,
     0x5d681b02, 0x2a6f2b94, 0xb40bbe37, 0xc30c8ea1, 0x5a05df1b, 0x2d02ef8d]"

definition crc32_iter :: "u32 \<Rightarrow> byte \<Rightarrow> u32" where
  "crc32_iter crc b = crc32_lookup_table ! unat ((ucast b XOR crc) AND 0xff) XOR drop_bit 8 crc"

definition calc_crc32 :: "byte list \<Rightarrow> u32" where
  "calc_crc32 s = NOT (foldl crc32_iter 0xffffffff s)"

section \<open>Model: the flash\<close>

text \<open>Flash is a byte for every address behind \<open>XIP_BASE\<close>. Erasing sets the bytes of a sector to \<open>0xFF\<close>; programming a page can only clear
  bits, as on every NOR flash.\<close>

type_synonym flash = "nat \<Rightarrow> byte"

abbreviation (input) FLASH_PAGE_SIZE :: nat where "FLASH_PAGE_SIZE \<equiv> 256"
abbreviation (input) FLASH_SECTOR_SIZE :: nat where "FLASH_SECTOR_SIZE \<equiv> 4096"
abbreviation (input) STAGING_IMAGE_SIZE :: nat where "STAGING_IMAGE_SIZE \<equiv> 262144"

definition flash_range_erase :: "nat \<Rightarrow> nat \<Rightarrow> flash \<Rightarrow> flash" where
  "flash_range_erase off n flash = (\<lambda>a. if off \<le> a \<and> a < off + n then 0xFF else flash a)"

definition flash_range_program :: "nat \<Rightarrow> byte list \<Rightarrow> flash \<Rightarrow> flash" where
  "flash_range_program off data flash =
     (\<lambda>a. if off \<le> a \<and> a < off + length data then flash a AND data ! (a - off) else flash a)"

definition write_flash_page :: "u32 \<Rightarrow> byte list \<Rightarrow> flash \<Rightarrow> flash" where
  "write_flash_page target_addr buffer flash =
     (let is_sector_start = (target_addr AND 0xf00 = 0);
          flash = (if is_sector_start then flash_range_erase (unat target_addr) FLASH_SECTOR_SIZE flash else flash) in
      flash_range_program (unat target_addr) (take FLASH_PAGE_SIZE buffer) flash)"

definition calculate_firmware_crc32 :: "flash \<Rightarrow> u32" where
  "calculate_firmware_crc32 flash = calc_crc32 (map flash [0..<STAGING_IMAGE_SIZE - FLASH_SECTOR_SIZE])"

section \<open>Model: the state of an upgrade\<close>

abbreviation (input) FW_UPGRADE_STALL_US :: u32 where "FW_UPGRADE_STALL_US \<equiv> 30000000"
abbreviation (input) FW_UPGRADE_REREQUEST_US :: u32 where "FW_UPGRADE_REREQUEST_US \<equiv> 100000"

datatype fw_upgrade_source_t = FW_UPGRADE_SOURCE_NONE | FW_UPGRADE_SOURCE_PULL | FW_UPGRADE_SOURCE_DROP

record fw_upgrade_state_t =
  fw_address :: u32
  fw_checksum :: u32
  fw_version :: u16
  fw_byte_done :: bool
  fw_upgrade_in_progress :: bool
  fw_source :: fw_upgrade_source_t
  fw_image_dirty :: bool
  fw_progressed_at_us :: u32
  fw_requested_at_us :: u32

record fw_image_id_t =
  id_version :: u16
  id_checksum :: u32

definition fw_upgrade_progress :: "fw_upgrade_state_t \<Rightarrow> u32 \<Rightarrow> fw_upgrade_state_t" where
  "fw_upgrade_progress fw now_us = fw\<lparr>fw_progressed_at_us := now_us\<rparr>"

definition fw_upgrade_stalled :: "fw_upgrade_state_t \<Rightarrow> u32 \<Rightarrow> bool" where
  "fw_upgrade_stalled fw now_us =
     (if \<not> fw_upgrade_in_progress fw then False else now_us - fw_progressed_at_us fw \<ge> FW_UPGRADE_STALL_US)"

definition fw_upgrade_may_pull :: "fw_upgrade_state_t \<Rightarrow> bool" where
  "fw_upgrade_may_pull fw = (fw_upgrade_in_progress fw \<and> fw_source fw = FW_UPGRADE_SOURCE_PULL)"

definition fw_upgrade_request_lost :: "fw_upgrade_state_t \<Rightarrow> u32 \<Rightarrow> bool" where
  "fw_upgrade_request_lost fw now_us =
     (if \<not> fw_upgrade_may_pull fw \<or> fw_byte_done fw then False else now_us - fw_requested_at_us fw \<ge> FW_UPGRADE_REREQUEST_US)"

definition fw_upgrade_must_recover :: "fw_upgrade_state_t \<Rightarrow> bool \<Rightarrow> bool" where
  "fw_upgrade_must_recover fw peer_present = (fw_image_dirty fw \<and> \<not> peer_present)"

definition fw_upgrade_should_pull :: "fw_upgrade_state_t \<Rightarrow> fw_image_id_t \<Rightarrow> fw_image_id_t \<Rightarrow> bool \<Rightarrow> bool" where
  "fw_upgrade_should_pull fw ours peers follows_at_equal_version =
     (if fw_upgrade_in_progress fw then False
      else if id_version peers > id_version ours then True
      else if id_version peers < id_version ours then False
      else follows_at_equal_version \<and> id_checksum peers \<noteq> id_checksum ours)"

abbreviation (input) PEER_FW_UNKNOWN :: u16 where "PEER_FW_UNKNOWN \<equiv> 0"
abbreviation (input) PEER_FW_STALE_US :: u64 where "PEER_FW_STALE_US \<equiv> 3000000"

record peer_fw_t =
  pf_version :: u16
  pf_checksum :: u32
  pf_heard_at_us :: u64

definition peer_fw_record :: "u16 \<Rightarrow> u32 \<Rightarrow> u64 \<Rightarrow> peer_fw_t" where
  "peer_fw_record version checksum now_us = \<lparr>pf_version = version, pf_checksum = checksum, pf_heard_at_us = now_us\<rparr>"

definition peer_fw_expire :: "peer_fw_t \<Rightarrow> u64 \<Rightarrow> peer_fw_t" where
  "peer_fw_expire peer now_us =
     (if pf_version peer = PEER_FW_UNKNOWN then peer
      else if now_us \<le> pf_heard_at_us peer then peer
      else if now_us - pf_heard_at_us peer \<ge> PEER_FW_STALE_US then peer\<lparr>pf_version := PEER_FW_UNKNOWN, pf_checksum := 0\<rparr>
      else peer)"

abbreviation (input) CONFIG_EXIT_GRACE_US :: u32 where "CONFIG_EXIT_GRACE_US \<equiv> 2000000"

record config_exit_t =
  ce_exit_requested :: bool
  ce_host_ejected :: bool
  ce_requested_at_us :: u32

definition config_exit_request :: "config_exit_t \<Rightarrow> u32 \<Rightarrow> config_exit_t" where
  "config_exit_request e now_us = (if ce_exit_requested e then e else e\<lparr>ce_requested_at_us := now_us, ce_exit_requested := True\<rparr>)"

definition config_exit_host_ejected :: "config_exit_t \<Rightarrow> config_exit_t" where
  "config_exit_host_ejected e = e\<lparr>ce_host_ejected := True\<rparr>"

definition config_exit_medium_present :: "config_exit_t \<Rightarrow> bool" where
  "config_exit_medium_present e = (\<not> ce_exit_requested e \<and> \<not> ce_host_ejected e)"

definition config_exit_reboot_now :: "config_exit_t \<Rightarrow> u32 \<Rightarrow> bool" where
  "config_exit_reboot_now e now_us =
     (if \<not> ce_exit_requested e then False
      else ce_host_ejected e \<or> now_us - ce_requested_at_us e \<ge> CONFIG_EXIT_GRACE_US)"

section \<open>Model: the board\<close>

text \<open>What the board sends and calls; a request or a response carries its eight bytes. \<open>fb_in_rom\<close> is the board handed to the ROM
  bootloader, which never returns.\<close>

datatype fw_effect =
    RequestByte "byte list"
  | ResponseByte "byte list"
  | HeartbeatSent u16 u32
  | PeerBootMouse bool
  | PeerHelper bool
  | OtherAsleep bool
  | OtherLost
  | ToggleLed
  | FwBlinkLed
  | RebootMagic
  | WatchdogUpdate

record fw_board =
  fb_fw :: fw_upgrade_state_t
  fb_running :: fw_image_id_t
  fb_peer :: peer_fw_t
  fb_board_role :: byte
  fb_page_buffer :: "byte list"
  fb_flash :: flash
  fb_reboot_requested :: bool
  fb_config_mode_active :: bool
  fb_config_mode_timer :: u64
  fb_config_exit :: config_exit_t
  fb_in_rom :: bool
  fb_effects :: "fw_effect list"

definition fw_emit :: "fw_effect \<Rightarrow> fw_board \<Rightarrow> fw_board" where
  "fw_emit e b = b\<lparr>fb_effects := fb_effects b @ [e]\<rparr>"

definition data32 :: "byte list \<Rightarrow> nat \<Rightarrow> u32" where
  "data32 data i = of_le_bytes (take 4 (drop (4 * i) data))"

definition data16 :: "byte list \<Rightarrow> nat \<Rightarrow> u16" where
  "data16 data i = of_le_bytes (take 2 (drop (2 * i) data))"

text \<open>The metadata record in the last sector of the image: magic, version, checksum, packed.\<close>

definition firmware_metadata :: "flash \<Rightarrow> fw_image_id_t" where
  "firmware_metadata flash =
     (let metadata = map flash [258048..<258058] in
      \<lparr>id_version = of_le_bytes (take 2 (drop 4 metadata)), id_checksum = of_le_bytes (drop 6 metadata)\<rparr>)"

definition recover_to_rom :: "fw_board \<Rightarrow> fw_board" where
  "recover_to_rom b = b\<lparr>fb_flash := flash_range_erase 0 FLASH_SECTOR_SIZE (fb_flash b), fb_in_rom := True\<rparr>"

definition abandon_firmware_upgrade :: "fw_board \<Rightarrow> fw_board" where
  "abandon_firmware_upgrade b =
     (if fw_upgrade_must_recover (fb_fw b) (pf_version (fb_peer b) \<noteq> PEER_FW_UNKNOWN) then recover_to_rom b
      else b\<lparr>fb_fw := (fb_fw b)\<lparr>fw_upgrade_in_progress := False, fw_source := FW_UPGRADE_SOURCE_NONE, fw_address := 0\<rparr>\<rparr>)"

definition request_byte :: "u32 \<Rightarrow> u32 \<Rightarrow> bool \<Rightarrow> fw_board \<Rightarrow> fw_board" where
  "request_byte address now queued b =
     (let b = b\<lparr>fb_fw := (fb_fw b)\<lparr>fw_requested_at_us := now\<rparr>\<rparr> in
      if queued
      then (fw_emit (RequestByte (le_bytes 4 address @ replicate 4 0)) b)\<lparr>fb_fw := (fb_fw b)\<lparr>fw_byte_done := False\<rparr>\<rparr>
      else b)"

text \<open>A pass of the pull, in its two parts: the page that is complete, and the end of the image or the next request.\<close>

definition write_received_page :: "fw_board \<Rightarrow> fw_board" where
  "write_received_page b =
     (let address = fw_address (fb_fw b) in
      if address AND 0xFF = 0 \<and> address \<noteq> 0
      then b\<lparr>fb_flash := write_flash_page ((address - 1) AND 0xFFFFFF00) (fb_page_buffer b) (fb_flash b),
             fb_fw := (fb_fw b)\<lparr>fw_image_dirty := True\<rparr>\<rparr>
      else b)"

definition finish_pull :: "fw_board \<Rightarrow> fw_board" where
  "finish_pull b =
     (let fw = (fb_fw b)\<lparr>fw_upgrade_in_progress := False, fw_source := FW_UPGRADE_SOURCE_NONE,
                         fw_checksum := NOT (fw_checksum (fb_fw b))\<rparr>;
          b = b\<lparr>fb_fw := fw\<rparr> in
      if calculate_firmware_crc32 (fb_flash b) \<noteq> fw_checksum fw then recover_to_rom b
      else b\<lparr>fb_fw := fw\<lparr>fw_image_dirty := False\<rparr>, fb_running := firmware_metadata (fb_flash b), fb_reboot_requested := True\<rparr>)"

definition firmware_upgrade_task :: "u32 \<Rightarrow> bool \<Rightarrow> bool \<Rightarrow> fw_board \<Rightarrow> fw_board" where
  "firmware_upgrade_task now queue_full queued b =
     (if \<not> fw_upgrade_may_pull (fb_fw b) then b
      else if \<not> fw_byte_done (fb_fw b)
      then (if fw_upgrade_request_lost (fb_fw b) now then request_byte (fw_address (fb_fw b)) now queued b else b)
      else if queue_full then b
      else
        let b = write_received_page b in
        if unat (fw_address (fb_fw b)) \<ge> STAGING_IMAGE_SIZE then finish_pull b
        else request_byte (fw_address (fb_fw b)) now queued b)"

section \<open>Model: the messages between the boards\<close>

definition handle_request_byte_msg :: "byte list \<Rightarrow> bool \<Rightarrow> fw_board \<Rightarrow> fw_board" where
  "handle_request_byte_msg data queued b =
     (let address = data32 data 0 in
      if unat address \<ge> STAGING_IMAGE_SIZE then b
      else if queued
      then fw_emit (ResponseByte (take 4 data @ map (fb_flash b) [unat address..<unat address + 4])) b
      else b)"

definition handle_response_byte_msg :: "byte list \<Rightarrow> u32 \<Rightarrow> fw_board \<Rightarrow> fw_board" where
  "handle_response_byte_msg data now b =
     (let offset = unat (data ! 0); address = data32 data 0 in
      if \<not> fw_upgrade_may_pull (fb_fw b) then b
      else if address \<noteq> fw_address (fb_fw b) then abandon_firmware_upgrade b
      else
        let b = (if address AND 0xfff = 0 then fw_emit ToggleLed b else b);
            fw = fb_fw b;
            fw = (if unat address < STAGING_IMAGE_SIZE - FLASH_SECTOR_SIZE
                  then fw\<lparr>fw_checksum := foldl crc32_iter (fw_checksum fw) (take 4 (drop 4 data))\<rparr> else fw) in
        b\<lparr>fb_page_buffer := blit (fb_page_buffer b) offset (take 4 (drop 4 data)),
          fb_fw := fw_upgrade_progress (fw\<lparr>fw_address := fw_address fw + 4, fw_byte_done := True\<rparr>) now\<rparr>)"

definition handle_heartbeat_msg :: "byte list \<Rightarrow> u64 \<Rightarrow> fw_board \<Rightarrow> fw_board" where
  "handle_heartbeat_msg data now b =
     (let peers = \<lparr>id_version = data16 data 0, id_checksum = data32 data 1\<rparr>;
          b = fw_emit (PeerBootMouse (data16 data 1 AND 0x8000 \<noteq> 0)) b;
          b = fw_emit (PeerHelper (data16 data 1 AND 0x4000 \<noteq> 0)) b;
          b = fw_emit (OtherAsleep (data16 data 1 AND 0x2000 \<noteq> 0)) b;
          b = b\<lparr>fb_peer := peer_fw_record (id_version peers) (id_checksum peers) now\<rparr> in
      if \<not> fw_upgrade_should_pull (fb_fw b) (fb_running b) peers (fb_board_role b = 1) then b
      else b\<lparr>fb_fw := fw_upgrade_progress
               ((fb_fw b)\<lparr>fw_upgrade_in_progress := True, fw_source := FW_UPGRADE_SOURCE_PULL, fw_byte_done := True, fw_address := 0,
                          fw_checksum := 0xffffffff\<rparr>) (ucast now)\<rparr>)"

text \<open>The heartbeat task, with the bits of the other components in its output slot left to them; a board handed to ROM does not go on.\<close>

definition heartbeat_output_task :: "u64 \<Rightarrow> fw_board \<Rightarrow> fw_board" where
  "heartbeat_output_task now b =
     (let now32 = ucast now;
          b = b\<lparr>fb_peer := peer_fw_expire (fb_peer b) now\<rparr>;
          b = (if pf_version (fb_peer b) = PEER_FW_UNKNOWN then fw_emit OtherLost (fw_emit (OtherAsleep False) b) else b);
          b = (if fw_upgrade_stalled (fb_fw b) now32 then abandon_firmware_upgrade b else b) in
      if fb_in_rom b then b
      else
        let b = (if fb_config_mode_active b
                 then fw_emit FwBlinkLed
                        (if now > fb_config_mode_timer b \<and> \<not> fw_upgrade_in_progress (fb_fw b)
                         then b\<lparr>fb_config_exit := config_exit_request (fb_config_exit b) now32\<rparr> else b)
                 else b) in
        fw_emit (HeartbeatSent (id_version (fb_running b)) (id_checksum (fb_running b))) b)"

text \<open>The watchdog, from whose silence every reboot comes. \<open>bootsel\<close> is the time at which the bootloader was asked for, if it was;
  \<open>core1_last_loop_pass\<close> the time of core 1's last pass.\<close>

abbreviation (input) BOOTSEL_GRACE_US :: u32 where "BOOTSEL_GRACE_US \<equiv> 50000"
abbreviation (input) CORE1_HANG_TIMEOUT_US :: u32 where "CORE1_HANG_TIMEOUT_US \<equiv> 500000"

definition kick_watchdog_task :: "u32 option \<Rightarrow> u32 \<Rightarrow> u32 \<Rightarrow> fw_board \<Rightarrow> fw_board" where
  "kick_watchdog_task bootsel core1_last_loop_pass current_time b =
     (let b = (if config_exit_reboot_now (fb_config_exit b) current_time then b\<lparr>fb_reboot_requested := True\<rparr> else b) in
      if (case bootsel of None \<Rightarrow> False | Some requested_at \<Rightarrow> current_time - requested_at \<ge> BOOTSEL_GRACE_US) then b\<lparr>fb_in_rom := True\<rparr>
      else if fb_reboot_requested b then fw_emit RebootMagic b
      else if current_time - core1_last_loop_pass < CORE1_HANG_TIMEOUT_US then fw_emit WatchdogUpdate b
      else b)"

section \<open>Model: saving the configuration and the identity\<close>

text \<open>The bytes of the sealed record are the argument; the page buffer is as long as the pages of the configuration. The sectors are the
  last two of flash.\<close>

abbreviation (input) ADDR_IDENTITY :: u32 where "ADDR_IDENTITY \<equiv> 2088960"
abbreviation (input) ADDR_CONFIG :: u32 where "ADDR_CONFIG \<equiv> 2093056"

definition save_config :: "byte list \<Rightarrow> fw_board \<Rightarrow> fw_board" where
  "save_config raw_config b =
     (let n = length (fb_page_buffer b); page_buffer = take n (raw_config @ replicate n 0) in
      b\<lparr>fb_page_buffer := page_buffer,
        fb_flash := fold (\<lambda>i. write_flash_page (ADDR_CONFIG + of_nat (FLASH_PAGE_SIZE * i)) (drop (FLASH_PAGE_SIZE * i) page_buffer))
          [0..<n div FLASH_PAGE_SIZE] (fb_flash b)\<rparr>)"

definition save_identity :: "byte list \<Rightarrow> fw_board \<Rightarrow> fw_board" where
  "save_identity fresh b =
     (let page_buffer = take FLASH_PAGE_SIZE (fresh @ replicate FLASH_PAGE_SIZE 0) @ drop FLASH_PAGE_SIZE (fb_page_buffer b) in
      b\<lparr>fb_page_buffer := page_buffer, fb_flash := write_flash_page ADDR_IDENTITY page_buffer (fb_flash b)\<rparr>)"

section \<open>Model: an image dropped by the host\<close>

record uf2_t =
  uf_magicStart0 :: u32
  uf_magicStart1 :: u32
  uf_magicEnd :: u32
  uf_blockNo :: u32
  uf_data :: "byte list"

text \<open>The block's payload is the 256 bytes from offset 32 of the buffer, the head of \<open>uf_data\<close>. The result is the count written, or -1.\<close>

definition tud_msc_write10_cb :: "u32 \<Rightarrow> uf2_t \<Rightarrow> int \<Rightarrow> u32 \<Rightarrow> fw_board \<Rightarrow> fw_board \<times> int" where
  "tud_msc_write10_cb lba uf2 bufsize now b =
     (let payload = take FLASH_PAGE_SIZE (uf_data uf2);
          is_final_block = (uf_blockNo uf2 = 1023);
          flash_addr = uf_blockNo uf2 * 256 in
      if lba \<ge> 4096 then (b, -1)
      else if uf_magicStart0 uf2 \<noteq> 0x0A324655 \<or> uf_magicStart1 uf2 \<noteq> 0x9E5D5157 \<or> uf_magicEnd uf2 \<noteq> 0x0AB16F30 then (b, bufsize)
      else if uf_blockNo uf2 > 1023 then (b, -1)
      else
        let fw = fb_fw b;
            fw = (if uf_blockNo uf2 = 0
                  then fw\<lparr>fw_checksum := 0xffffffff, fw_upgrade_in_progress := True, fw_source := FW_UPGRADE_SOURCE_DROP\<rparr> else fw);
            fw = (if uf_blockNo uf2 < 1008 then fw\<lparr>fw_checksum := foldl crc32_iter (fw_checksum fw) payload\<rparr> else fw);
            fw = fw_upgrade_progress (fw\<lparr>fw_image_dirty := True\<rparr>) now;
            b = b\<lparr>fb_flash := write_flash_page flash_addr payload (fb_flash b), fb_fw := fw\<rparr> in
        if \<not> is_final_block then (fw_emit ToggleLed b, bufsize)
        else
          let fw = fw\<lparr>fw_checksum := NOT (fw_checksum fw)\<rparr>; b = b\<lparr>fb_fw := fw\<rparr> in
          if fw_checksum fw \<noteq> calculate_firmware_crc32 (fb_flash b) then (recover_to_rom b, bufsize)
          else (fw_emit ToggleLed (b\<lparr>fb_fw := fw\<lparr>fw_image_dirty := False\<rparr>, fb_config_exit := config_exit_request (fb_config_exit b) now\<rparr>),
                bufsize))"

end
