(* ===== verification/DH_Firmware_Spec.thy ===== *)
theory DH_Firmware_Spec
  imports DH_Firmware
begin

text \<open>
  What an upgrade guarantees: over a link that loses what it likes a pull never leaves a mixed image unmarked, an answered pull and
  a complete drop end in the whole image, and no upgrade writes outside the image. The table of the checksum is CRC-32.
\<close>

section \<open>Addresses and pages\<close>

lemma unat_take_bit: "unat (take_bit n a) = unat a mod 2 ^ n"
  by (subst unsigned_take_bit_eq) (simp add: take_bit_eq_mod)

lemma and_255_nat: "unat ((a :: u32) AND 0xFF) = unat a mod 256"
proof -
  have "a AND 0xFF = take_bit 8 a" by (simp only: take_bit_eq_mask) (simp add: mask_eq_exp_minus_1)
  then show ?thesis using unat_take_bit[of 8 a] by simp
qed

lemma and_4095_nat: "unat ((a :: u32) AND 0xFFF) = unat a mod 4096"
proof -
  have "a AND 0xFFF = take_bit 12 a" by (simp only: take_bit_eq_mask) (simp add: mask_eq_exp_minus_1)
  then show ?thesis using unat_take_bit[of 12 a] by simp
qed

lemma and_and_same: "(a AND b) AND (a AND c) = a AND (b AND c)" for a :: u32
  by (rule bit_word_eqI) (auto simp: bit_simps)

lemma and_ones_u32: "a AND 0xFFFFFFFF = a" for a :: u32
proof -
  have "(0xFFFFFFFF :: u32) = - 1" by simp
  then show ?thesis by (simp only: and.right_neutral)
qed

lemma and_page_nat: "unat ((a :: u32) AND 0xFFFFFF00) = unat a - unat a mod 256"
proof -
  have "(a AND 0xFFFFFF00) + (a AND 0xFF) = (a AND 0xFFFFFF00) OR (a AND 0xFF)"
    by (rule disjunctive_add_eq_or) (simp only: and_and_same, simp)
  also have "\<dots> = a AND (0xFFFFFF00 OR 0xFF)" by (simp only: bit.conj_disj_distrib)
  also have "\<dots> = a" using and_ones_u32[of a] by simp
  finally have split: "(a AND 0xFFFFFF00) + (a AND 0xFF) = a" .
  have "a AND 0xFFFFFF00 \<le> a" by (rule word_and_le2)
  then have "unat (a - (a AND 0xFFFFFF00)) = unat a - unat (a AND 0xFFFFFF00)" by (rule unat_sub_le)
  moreover have "a - (a AND 0xFFFFFF00) = a AND 0xFF" using split by (simp add: algebra_simps)
  ultimately have "unat a - unat (a AND 0xFFFFFF00) = unat a mod 256" by (simp add: and_255_nat)
  then show ?thesis using \<open>a AND 0xFFFFFF00 \<le> a\<close> by (simp add: word_le_nat_alt)
qed

lemma page_boundary: "(a :: u32) AND 0xFF = 0 \<longleftrightarrow> unat a mod 256 = 0"
  by (metis and_255_nat unat_eq_zero)

lemma page_before:
  assumes "unat (a :: u32) mod 256 = 0" "a \<noteq> 0"
  shows "unat ((a - 1) AND 0xFFFFFF00) = unat a - 256"
proof -
  have pos: "unat a > 0" using assms(2) by (simp add: unat_gt_0)
  then have one: "unat (a - 1) = unat a - 1" by (simp add: unat_minus_one assms(2))
  obtain j where "unat a = 256 * j" using assms(1) by (metis mod_eq_0_iff_dvd dvdE)
  with pos obtain k where k: "unat a = 256 * Suc k" by (cases j) auto
  then have "unat a - 1 = 256 * k + 255" by simp
  then show ?thesis unfolding and_page_nat one using k by simp
qed

lemma sector_start:
  assumes "unat (a :: u32) mod 256 = 0"
  shows "a AND 0xf00 = 0 \<longleftrightarrow> unat a mod 4096 = 0"
proof -
  have "a AND 0xfff = a AND (0xf00 OR 0xff)" by simp
  also have "\<dots> = (a AND 0xf00) OR (a AND 0xff)" by (simp only: bit.conj_disj_distrib)
  also have "\<dots> = a AND 0xf00" using assms by (simp only: page_boundary[symmetric] or.right_neutral)
  finally show ?thesis using and_4095_nat[of a] by (metis unat_eq_zero)
qed

text \<open>Writing a page: the page takes the data, over erased bytes or over itself; a page that starts a sector erases the rest of it.\<close>

lemma and_erased [simp]: "(255 :: byte) AND x = x"
proof -
  have "(255 :: byte) = - 1" by simp
  then show ?thesis by (simp only: and.left_neutral)
qed

lemma write_flash_page_at:
  assumes "unat t mod 256 = 0" "length buf \<ge> 256"
  shows "write_flash_page t buf flash x =
     (if unat t \<le> x \<and> x < unat t + 256
      then (if unat t mod 4096 = 0 then buf ! (x - unat t) else flash x AND buf ! (x - unat t))
      else if unat t mod 4096 = 0 \<and> unat t \<le> x \<and> x < unat t + 4096 then 0xFF else flash x)"
  using assms sector_start[OF assms(1)]
  by (auto simp: write_flash_page_def flash_range_program_def flash_range_erase_def Let_def)

section \<open>Two boards and a host\<close>

text \<open>The board that receives, with the request in flight. The other board runs the image \<open>img\<close>. The link loses what it likes; a word is
  answered before it is asked for again or not at all, since the answer takes under a millisecond and the board waits a hundred.\<close>

datatype fw_event =
    Pass u32 bool bool
  | Answer u32 bool
  | Lose
  | Beat u16 u64
  | Tick u64
  | Block u32 uf2_t int u32
  | Watchdog "u32 option" u32 u32
  | SaveConfig "byte list"
  | SaveIdentity "byte list"

text \<open>The heartbeat the other board sends: the identity of its image, and whatever its output slot holds.\<close>

definition heartbeat_of :: "fw_image_id_t \<Rightarrow> u16 \<Rightarrow> byte list" where
  "heartbeat_of ident slot = le_bytes 2 (id_version ident) @ le_bytes 2 slot @ le_bytes 4 (id_checksum ident)"

text \<open>The other board's answer to the request in flight.\<close>

definition peer_board :: "flash \<Rightarrow> fw_board \<Rightarrow> fw_board" where
  "peer_board img b = b\<lparr>fb_flash := img, fb_effects := []\<rparr>"

fun answers :: "fw_effect list \<Rightarrow> byte list option" where
  "answers [ResponseByte data] = Some data"
| "answers _ = None"

fun fw_step :: "flash \<Rightarrow> fw_event \<Rightarrow> fw_board \<times> u32 option \<Rightarrow> fw_board \<times> u32 option" where
  "fw_step img (Pass now queue_full queued) (b, link) =
     (let b' = firmware_upgrade_task now queue_full queued b in
      (b', if fb_effects b' = fb_effects b then link else Some (fw_address (fb_fw b))))"
| "fw_step img (Answer now queued) (b, link) =
     (case link of
        None \<Rightarrow> (b, None)
      | Some a \<Rightarrow>
          (case answers (fb_effects (handle_request_byte_msg (le_bytes 4 a @ replicate 4 0) queued (peer_board img b))) of
             None \<Rightarrow> (b, None)
           | Some data \<Rightarrow> (handle_response_byte_msg data now b, None)))"
| "fw_step img Lose (b, link) = (b, None)"
| "fw_step img (Beat slot now) (b, link) = (handle_heartbeat_msg (heartbeat_of (firmware_metadata img) slot) now b, link)"
| "fw_step img (Tick now) (b, link) = (heartbeat_output_task now b, link)"
| "fw_step img (Block lba uf2 n now) (b, link) = (fst (tud_msc_write10_cb lba uf2 n now b), link)"
| "fw_step img (Watchdog bootsel core1 now) (b, link) = (kick_watchdog_task bootsel core1 now b, link)"
| "fw_step img (SaveConfig raw) (b, link) = (save_config raw b, link)"
| "fw_step img (SaveIdentity fresh) (b, link) = (save_identity fresh b, link)"

text \<open>A board handed to ROM does nothing more.\<close>

fun fw_run :: "flash \<Rightarrow> fw_event list \<Rightarrow> fw_board \<times> u32 option \<Rightarrow> fw_board \<times> u32 option" where
  "fw_run img [] st = st"
| "fw_run img (e # es) st = (if fb_in_rom (fst st) then st else fw_run img es (fw_step img e st))"

text \<open>What disturbs a pull: a block of the host, a save, and a request for the bootloader.\<close>

fun is_block :: "fw_event \<Rightarrow> bool" where
  "is_block (Block lba uf2 n now) = True"
| "is_block _ = False"

fun is_save :: "fw_event \<Rightarrow> bool" where
  "is_save (SaveConfig raw) = True"
| "is_save (SaveIdentity fresh) = True"
| "is_save _ = False"

fun asks_bootsel :: "fw_event \<Rightarrow> bool" where
  "asks_bootsel (Watchdog (Some requested_at) core1 now) = True"
| "asks_bootsel _ = False"

definition undisturbed :: "fw_event \<Rightarrow> bool" where
  "undisturbed e = (\<not> is_block e \<and> \<not> is_save e \<and> \<not> asks_bootsel e)"

section \<open>The answer\<close>

lemma emit_fw_sel [simp]:
  "fb_fw (fw_emit e b) = fb_fw b" "fb_flash (fw_emit e b) = fb_flash b" "fb_page_buffer (fw_emit e b) = fb_page_buffer b"
  "fb_in_rom (fw_emit e b) = fb_in_rom b" "fb_reboot_requested (fw_emit e b) = fb_reboot_requested b" "fb_peer (fw_emit e b) = fb_peer b"
  "fb_running (fw_emit e b) = fb_running b" "fb_board_role (fw_emit e b) = fb_board_role b"
  "fb_effects (fw_emit e b) = fb_effects b @ [e]"
  "fb_config_exit (fw_emit e b) = fb_config_exit b" "fb_config_mode_active (fw_emit e b) = fb_config_mode_active b"
  by (simp_all add: fw_emit_def)

lemma data32_address [simp]: "data32 (le_bytes 4 a @ rest) 0 = a"
  by (simp add: data32_def of_le_bytes_le_bytes)

lemma first_byte: "unat (le_bytes 4 (a :: u32) ! 0) = unat a mod 256"
  by (simp add: le_bytes_def unsigned_ucast_eq take_bit_eq_mod)

text \<open>What a board does with an answer to the request for \<open>a\<close>.\<close>

definition answer_data :: "flash \<Rightarrow> u32 \<Rightarrow> byte list" where
  "answer_data img a = le_bytes 4 a @ map img [unat a..<unat a + 4]"

lemma answer_exact:
  "fw_step img (Answer now queued) (b, Some a) =
     (if unat a < STAGING_IMAGE_SIZE \<and> queued then handle_response_byte_msg (answer_data img a) now b else b, None)"
  by (simp add: handle_request_byte_msg_def peer_board_def answer_data_def Let_def)

lemma answer_data_sel [simp]:
  "data32 (answer_data img a) 0 = a" "unat (answer_data img a ! 0) = unat a mod 256"
  "take 4 (drop 4 (answer_data img a)) = map img [unat a..<unat a + 4]"
  using first_byte[of a] by (simp_all add: answer_data_def nth_append)

lemma heartbeat_sel [simp]:
  "data16 (heartbeat_of ident slot) 0 = id_version ident" "data32 (heartbeat_of ident slot) (Suc 0) = id_checksum ident"
  by (simp_all add: heartbeat_of_def data16_def data32_def of_le_bytes_le_bytes)

section \<open>What has been received\<close>

text \<open>The start of the page in the buffer: a complete page waits there until the task writes it.\<close>

definition page_start :: "fw_upgrade_state_t \<Rightarrow> nat" where
  "page_start fw =
     (let a = unat (fw_address fw) in if fw_byte_done fw \<and> a mod 256 = 0 \<and> a \<noteq> 0 then a - 256 else a - a mod 256)"

text \<open>The flash holds the image below a page, and what is left of that page's sector is erased or already the image.\<close>

definition image_below :: "flash \<Rightarrow> nat \<Rightarrow> flash \<Rightarrow> bool" where
  "image_below img p flash \<longleftrightarrow>
     (\<forall>x<p. flash x = img x) \<and>
     (p mod 4096 \<noteq> 0 \<longrightarrow> (\<forall>x. p \<le> x \<and> x < p - p mod 4096 + 4096 \<longrightarrow> flash x = 0xFF \<or> flash x = img x))"

definition received :: "flash \<Rightarrow> fw_board \<Rightarrow> bool" where
  "received img b \<longleftrightarrow>
     (let fw = fb_fw b; a = unat (fw_address fw); p = page_start fw in
      a \<le> STAGING_IMAGE_SIZE \<and> a mod 4 = 0 \<and> image_below img p (fb_flash b) \<and>
      (\<forall>i < a - p. fb_page_buffer b ! i = img (p + i)) \<and>
      fw_checksum fw = foldl crc32_iter 0xffffffff (map img [0..<min a (STAGING_IMAGE_SIZE - FLASH_SECTOR_SIZE)]))"

definition image_whole :: "flash \<Rightarrow> fw_board \<Rightarrow> bool" where
  "image_whole img b \<longleftrightarrow> (\<forall>x < STAGING_IMAGE_SIZE. fb_flash b x = img x)"

text \<open>A board that leaves config mode, which reboots it whatever its image.\<close>

definition leaving :: "fw_board \<Rightarrow> bool" where
  "leaving b \<longleftrightarrow> fb_config_mode_active b \<and> ce_exit_requested (fb_config_exit b)"

definition pull_inv :: "flash \<Rightarrow> fw_board \<times> u32 option \<Rightarrow> bool" where
  "pull_inv img st \<longleftrightarrow>
     (case st of (b, link) \<Rightarrow>
        if fb_in_rom b then pf_version (fb_peer b) = PEER_FW_UNKNOWN
        else
          256 \<le> length (fb_page_buffer b) \<and>
          (fw_upgrade_may_pull (fb_fw b) \<longrightarrow> received img b) \<and>
          (\<forall>a. link = Some a \<and> fw_upgrade_may_pull (fb_fw b) \<and> a = fw_address (fb_fw b) \<longrightarrow> \<not> fw_byte_done (fb_fw b) \<or> a = 0) \<and>
          (ce_exit_requested (fb_config_exit b) \<longrightarrow> fb_config_mode_active b) \<and>
          (fb_reboot_requested b \<and> \<not> leaving b \<longrightarrow> image_whole img b \<and> fb_running b = firmware_metadata img \<and>
             \<not> fw_upgrade_in_progress (fb_fw b) \<and> \<not> fw_image_dirty (fb_fw b)))"

text \<open>The task writes the complete page: the image then reaches the address.\<close>

lemma mod_sector: "(256 * j) mod 4096 = 256 * (j mod 16)" for j :: nat
  using mult_mod_right[of 256 j 16] by simp

lemma next_page_in_sector:
  assumes "p mod 256 = (0 :: nat)" "(p + 256) mod 4096 \<noteq> 0"
  shows "(p + 256) mod 4096 = p mod 4096 + 256"
proof -
  have "256 dvd p" using assms(1) by (simp add: mod_eq_0_iff_dvd)
  then obtain k where k: "p = 256 * k" by (rule dvdE)
  have e: "p + 256 = 256 * Suc k" using k by simp
  have "Suc k mod 16 = Suc (k mod 16)" using assms(2) unfolding e mod_sector by (auto simp: mod_Suc split: if_splits)
  moreover have "(p + 256) mod 4096 = 256 * (Suc k mod 16)" unfolding e by (rule mod_sector)
  moreover have "p mod 4096 = 256 * (k mod 16)" unfolding k by (rule mod_sector)
  ultimately show ?thesis by simp
qed

lemma page_in_sector:
  assumes "p mod 256 = (0 :: nat)"
  shows "p mod 4096 + 256 \<le> 4096"
proof -
  have "256 dvd p" using assms(1) by (simp add: mod_eq_0_iff_dvd)
  then obtain k where k: "p = 256 * k" by (rule dvdE)
  have "k mod 16 \<le> 15" by (simp add: less_Suc_eq_le[symmetric])
  then show ?thesis unfolding k mod_sector by simp
qed

text \<open>A page of the image written where the image has come to: it reaches one page further.\<close>

lemma image_page_written:
  assumes img: "image_below img p flash" and pm: "p mod 256 = 0" and t: "unat t = p" and len: "256 \<le> length buf"
    and buf: "\<forall>i<256. buf ! i = img (p + i)"
  shows "image_below img (p + 256) (write_flash_page t buf flash)" "image_below img p (write_flash_page t buf flash)"
proof -
  let ?f = "write_flash_page t buf flash"
  have f: "?f x = (if p \<le> x \<and> x < p + 256 then img x else if p mod 4096 = 0 \<and> p \<le> x \<and> x < p + 4096 then 0xFF else flash x)" for x
  proof (cases "p \<le> x \<and> x < p + 256")
    case inside: True
    then have "buf ! (x - p) = img x" using buf[rule_format, of "x - p"] by (simp add: less_diff_conv2)
    moreover have "p mod 4096 \<noteq> 0 \<longrightarrow> flash x = 0xFF \<or> flash x = img x"
      using img inside page_in_sector[OF pm] unfolding image_below_def by auto
    ultimately show ?thesis using inside pm len by (auto simp: write_flash_page_at t)
  qed (use pm len in \<open>auto simp: write_flash_page_at t\<close>)
  show "image_below img (p + 256) ?f"
    using img next_page_in_sector[OF pm] unfolding image_below_def f by (auto simp: not_less add.commute[of 4096] dest: add_leD1)
  show "image_below img p ?f" using img unfolding image_below_def f by auto
qed

lemma write_received_page_image:
  assumes "received img b" "fw_byte_done (fb_fw b)" "256 \<le> length (fb_page_buffer b)"
  shows "image_below img (unat (fw_address (fb_fw b)) - unat (fw_address (fb_fw b)) mod 256) (fb_flash (write_received_page b)) \<and>
     image_below img (page_start (fb_fw b)) (fb_flash (write_received_page b))"
proof (cases "unat (fw_address (fb_fw b)) mod 256 = 0 \<and> fw_address (fb_fw b) \<noteq> 0")
  case False
  then have "fw_address (fb_fw b) AND 0xFF = 0 \<longrightarrow> fw_address (fb_fw b) = 0" by (auto simp: page_boundary)
  moreover have "page_start (fb_fw b) = unat (fw_address (fb_fw b)) - unat (fw_address (fb_fw b)) mod 256"
    using False by (auto simp: page_start_def Let_def unat_eq_zero)
  ultimately show ?thesis using assms(1) by (auto simp: write_received_page_def received_def Let_def)
next
  case True
  let ?a = "unat (fw_address (fb_fw b))" and ?t = "(fw_address (fb_fw b) - 1) AND 0xFFFFFF00"
  define p where "p = ?a - 256"
  have p: "page_start (fb_fw b) = p" using True assms(2) by (simp add: page_start_def p_def Let_def unat_eq_zero)
  have t: "unat ?t = p" using page_before True by (simp add: p_def)
  have pos: "?a > 0" using True by (simp add: unat_gt_0)
  then have ap: "?a = p + 256" using True dvd_imp_le[of 256 ?a] by (simp add: p_def mod_eq_0_iff_dvd)
  then have pm: "p mod 256 = 0" using True by (metis mod_add_self2)
  have img: "image_below img p (fb_flash b)" and buf: "\<forall>i<256. fb_page_buffer b ! i = img (p + i)"
    using assms(1) unfolding received_def p Let_def ap by simp_all
  have "fb_flash (write_received_page b) = write_flash_page ?t (fb_page_buffer b) (fb_flash b)"
    using True by (simp add: write_received_page_def page_boundary Let_def)
  then show ?thesis using image_page_written[OF img pm t assms(3) buf] p ap True by simp
qed

section \<open>The pull keeps the invariant\<close>

lemma page_start_request [simp]:
  "page_start (fw\<lparr>fw_byte_done := False\<rparr>) = unat (fw_address fw) - unat (fw_address fw) mod 256"
  by (simp add: page_start_def Let_def)

lemma page_start_indep [simp]:
  "page_start (fw\<lparr>fw_requested_at_us := t\<rparr>) = page_start fw" "page_start (fw\<lparr>fw_image_dirty := d\<rparr>) = page_start fw"
  "page_start (fw\<lparr>fw_progressed_at_us := t\<rparr>) = page_start fw" "page_start (fw\<lparr>fw_checksum := c\<rparr>) = page_start fw"
  by (simp_all add: page_start_def Let_def)

lemma page_start_le: "page_start fw \<le> unat (fw_address fw)"
  by (simp add: page_start_def Let_def)

lemma image_below_whole: "image_below img STAGING_IMAGE_SIZE flash \<longleftrightarrow> (\<forall>x < STAGING_IMAGE_SIZE. flash x = img x)"
  by (simp add: image_below_def)

text \<open>The page write changes only the flash and the dirty mark.\<close>

lemma write_received_page_sel [simp]:
  "fw_address (fb_fw (write_received_page b)) = fw_address (fb_fw b)" "fw_checksum (fb_fw (write_received_page b)) = fw_checksum (fb_fw b)"
  "fw_byte_done (fb_fw (write_received_page b)) = fw_byte_done (fb_fw b)" "fb_page_buffer (write_received_page b) = fb_page_buffer b"
  "fw_upgrade_in_progress (fb_fw (write_received_page b)) = fw_upgrade_in_progress (fb_fw b)"
  "fw_source (fb_fw (write_received_page b)) = fw_source (fb_fw b)" "fb_in_rom (write_received_page b) = fb_in_rom b"
  "fb_reboot_requested (write_received_page b) = fb_reboot_requested b" "fb_effects (write_received_page b) = fb_effects b"
  "fb_config_exit (write_received_page b) = fb_config_exit b" "fb_config_mode_active (write_received_page b) = fb_config_mode_active b"
  "fb_peer (write_received_page b) = fb_peer b" "page_start (fb_fw (write_received_page b)) = page_start (fb_fw b)"
  by (auto simp: write_received_page_def Let_def)

lemma write_received_page_received:
  assumes "received img b" "fw_byte_done (fb_fw b)" "256 \<le> length (fb_page_buffer b)"
  shows "received img (write_received_page b)"
  using assms(1) write_received_page_image[OF assms] by (simp add: received_def Let_def)

text \<open>A request.\<close>

lemma request_byte_sel:
  "fb_flash (request_byte a now queued b) = fb_flash b" "fb_page_buffer (request_byte a now queued b) = fb_page_buffer b"
  "fb_in_rom (request_byte a now queued b) = fb_in_rom b" "fb_reboot_requested (request_byte a now queued b) = fb_reboot_requested b"
  "fb_peer (request_byte a now queued b) = fb_peer b" "fb_config_exit (request_byte a now queued b) = fb_config_exit b"
  "fb_config_mode_active (request_byte a now queued b) = fb_config_mode_active b"
  "fb_fw (request_byte a now queued b) =
     (if queued then (fb_fw b)\<lparr>fw_requested_at_us := now, fw_byte_done := False\<rparr> else (fb_fw b)\<lparr>fw_requested_at_us := now\<rparr>)"
  "fb_effects (request_byte a now queued b) = fb_effects b @ (if queued then [RequestByte (le_bytes 4 a @ replicate 4 0)] else [])"
  by (simp_all add: request_byte_def Let_def)

lemma request_received:
  assumes "received img b"
    "image_below img (unat (fw_address (fb_fw b)) - unat (fw_address (fb_fw b)) mod 256) (fb_flash b)"
    "fw_byte_done (fb_fw b) \<or> page_start (fb_fw b) = unat (fw_address (fb_fw b)) - unat (fw_address (fb_fw b)) mod 256"
  shows "received img (request_byte a now queued b)"
proof (cases "queued \<and> fw_byte_done (fb_fw b) \<and> unat (fw_address (fb_fw b)) mod 256 = 0 \<and> unat (fw_address (fb_fw b)) \<noteq> 0")
  case True
  then show ?thesis using assms(1,2) by (simp add: received_def request_byte_sel Let_def page_start_def)
next
  case False
  then have "page_start (fb_fw (request_byte a now queued b)) = page_start (fb_fw b)"
    by (auto simp: request_byte_sel page_start_def Let_def)
  then show ?thesis using assms(1) by (simp add: received_def request_byte_sel Let_def)
qed

lemma image_len: "262144 - 4096 = (258048 :: nat)"
  by simp

text \<open>The end: all of the image is in flash and the checksums agree.\<close>

lemma finish_pull_whole:
  assumes "received img b" "image_below img (unat (fw_address (fb_fw b)) - unat (fw_address (fb_fw b)) mod 256) (fb_flash b)"
    "unat (fw_address (fb_fw b)) \<ge> STAGING_IMAGE_SIZE"
  shows "finish_pull b =
     b\<lparr>fb_fw := (fb_fw b)\<lparr>fw_upgrade_in_progress := False, fw_source := FW_UPGRADE_SOURCE_NONE,
        fw_checksum := NOT (fw_checksum (fb_fw b)), fw_image_dirty := False\<rparr>,
       fb_running := firmware_metadata img, fb_reboot_requested := True\<rparr> \<and> image_whole img b"
proof -
  have a: "unat (fw_address (fb_fw b)) = STAGING_IMAGE_SIZE" using assms(1,3) by (simp add: received_def Let_def)
  then have whole: "\<forall>x < STAGING_IMAGE_SIZE. fb_flash b x = img x" using assms(2) image_below_whole by simp
  then have "map (fb_flash b) [0..<258048] = map img [0..<258048]" by (intro map_cong) auto
  then have "calculate_firmware_crc32 (fb_flash b) = calc_crc32 (map img [0..<258048])"
    unfolding calculate_firmware_crc32_def image_len by (simp only:)
  then have crc: "calculate_firmware_crc32 (fb_flash b) = NOT (fw_checksum (fb_fw b))"
    using assms(1) a by (simp add: received_def calc_crc32_def Let_def)
  have "map (fb_flash b) [258048..<258058] = map img [258048..<258058]" using whole by (intro map_cong) auto
  then have meta: "firmware_metadata (fb_flash b) = firmware_metadata img"
    unfolding firmware_metadata_def Let_def by (simp only:)
  show ?thesis using crc meta whole by (simp add: finish_pull_def image_whole_def Let_def)
qed

lemma pull_invI:
  assumes "\<not> fb_in_rom b" "256 \<le> length (fb_page_buffer b)" "fw_upgrade_may_pull (fb_fw b) \<Longrightarrow> received img b"
    "\<And>a. link = Some a \<Longrightarrow> fw_upgrade_may_pull (fb_fw b) \<Longrightarrow> a = fw_address (fb_fw b) \<Longrightarrow> \<not> fw_byte_done (fb_fw b) \<or> a = 0"
    "ce_exit_requested (fb_config_exit b) \<Longrightarrow> fb_config_mode_active b"
    "fb_reboot_requested b \<Longrightarrow> \<not> leaving b \<Longrightarrow> image_whole img b \<and> fb_running b = firmware_metadata img \<and>
       \<not> fw_upgrade_in_progress (fb_fw b) \<and> \<not> fw_image_dirty (fb_fw b)"
  shows "pull_inv img (b, link)"
  using assms by (auto simp: pull_inv_def)

lemma pull_invD:
  assumes "pull_inv img (b, link)" "\<not> fb_in_rom b"
  shows "256 \<le> length (fb_page_buffer b)" "fw_upgrade_may_pull (fb_fw b) \<Longrightarrow> received img b"
    "link = Some a \<Longrightarrow> fw_upgrade_may_pull (fb_fw b) \<Longrightarrow> a = fw_address (fb_fw b) \<Longrightarrow> \<not> fw_byte_done (fb_fw b) \<or> a = 0"
    "fb_reboot_requested b \<Longrightarrow> \<not> leaving b \<Longrightarrow> image_whole img b \<and> fb_running b = firmware_metadata img \<and>
       \<not> fw_upgrade_in_progress (fb_fw b) \<and> \<not> fw_image_dirty (fb_fw b)"
    "fb_reboot_requested b \<Longrightarrow> \<not> leaving b \<Longrightarrow> \<not> fw_upgrade_may_pull (fb_fw b)"
    "ce_exit_requested (fb_config_exit b) \<Longrightarrow> fb_config_mode_active b"
  using assms by (auto simp: pull_inv_def fw_upgrade_may_pull_def)

lemma may_pull_request [simp]: "fw_upgrade_may_pull (fb_fw (request_byte a now queued b)) = fw_upgrade_may_pull (fb_fw b)"
  by (simp add: request_byte_sel fw_upgrade_may_pull_def)

text \<open>A pass of the task.\<close>

lemma pass_task_inv:
  assumes inv: "pull_inv img (b, link)" and rom: "\<not> fb_in_rom b"
  shows "pull_inv img (fw_step img (Pass now queue_full queued) (b, link))"
proof (cases "fw_upgrade_may_pull (fb_fw b)")
  case False
  then show ?thesis using inv by (simp add: firmware_upgrade_task_def)
next
  case True
  note d = pull_invD[OF inv rom]
  have rec: "received img b" and buf: "256 \<le> length (fb_page_buffer b)" and live: "\<not> (fb_reboot_requested b \<and> \<not> leaving b)"
    and exit: "ce_exit_requested (fb_config_exit b) \<longrightarrow> fb_config_mode_active b" using d True by auto
  show ?thesis
  proof (cases "fw_byte_done (fb_fw b)")
    case False
    have below: "page_start (fb_fw b) = unat (fw_address (fb_fw b)) - unat (fw_address (fb_fw b)) mod 256"
      using False by (simp add: page_start_def Let_def)
    then have "received img (request_byte (fw_address (fb_fw b)) now queued b)"
      using request_received[OF rec] rec by (simp add: received_def Let_def)
    then show ?thesis using inv True False rom buf live exit
      by (auto simp: firmware_upgrade_task_def Let_def request_byte_sel leaving_def intro!: pull_invI)
  next
    case dn: True
    let ?w = "write_received_page b"
    have w: "received img ?w" by (rule write_received_page_received[OF rec dn buf])
    have below: "image_below img (unat (fw_address (fb_fw b)) - unat (fw_address (fb_fw b)) mod 256) (fb_flash ?w)"
      using write_received_page_image[OF rec dn buf] by simp
    have req: "received img (request_byte (fw_address (fb_fw ?w)) now queued ?w)"
      using request_received[OF w] below dn by simp
    have fin: "unat (fw_address (fb_fw ?w)) \<ge> STAGING_IMAGE_SIZE \<Longrightarrow> finish_pull ?w =
        ?w\<lparr>fb_fw := (fb_fw ?w)\<lparr>fw_upgrade_in_progress := False, fw_source := FW_UPGRADE_SOURCE_NONE,
        fw_checksum := NOT (fw_checksum (fb_fw ?w)), fw_image_dirty := False\<rparr>,
        fb_running := firmware_metadata img, fb_reboot_requested := True\<rparr> \<and> image_whole img ?w"
      using finish_pull_whole[OF w] below by simp
    consider "queue_full" | "\<not> queue_full" "unat (fw_address (fb_fw ?w)) \<ge> STAGING_IMAGE_SIZE"
      | "\<not> queue_full" "unat (fw_address (fb_fw ?w)) < STAGING_IMAGE_SIZE" by linarith
    then show ?thesis
    proof cases
      case 1
      then show ?thesis using inv True dn by (simp add: firmware_upgrade_task_def)
    next
      case 2
      then show ?thesis using True dn rom buf fin exit
        by (auto simp: firmware_upgrade_task_def Let_def fw_upgrade_may_pull_def image_whole_def intro!: pull_invI)
    next
      case 3
      then have "firmware_upgrade_task now queue_full queued b = request_byte (fw_address (fb_fw ?w)) now queued ?w"
        using True dn by (simp add: firmware_upgrade_task_def Let_def)
      then show ?thesis using req True dn rom buf live exit d(3)
        by (auto simp: Let_def request_byte_sel leaving_def intro!: pull_invI)
    qed
  qed
qed

text \<open>An answer. The word lands in the page buffer at its place.\<close>

lemma nth_blit_word:
  "off + length src \<le> length dst \<Longrightarrow> i < length dst \<Longrightarrow>
   blit dst off src ! i = (if off \<le> i \<and> i < off + length src then src ! (i - off) else dst ! i)"
  by (auto simp: blit_def nth_append min_def)

lemma next_word:
  assumes "a mod 4 = (0 :: nat)" "a < STAGING_IMAGE_SIZE"
  shows "a mod 256 + 4 \<le> 256" "(a + 4) mod 256 = 0 \<and> a mod 256 = 252 \<or> (a + 4) mod 256 = a mod 256 + 4" "a + 4 \<le> STAGING_IMAGE_SIZE"
proof -
  have "4 dvd a" using assms(1) by (simp add: mod_eq_0_iff_dvd)
  then obtain k where k: "a = 4 * k" by (rule dvdE)
  have m: "(4 * j) mod 256 = 4 * (j mod 64)" for j :: nat using mult_mod_right[of 4 j 64] by simp
  have lt: "k mod 64 < 64" by simp
  then show "a mod 256 + 4 \<le> 256" unfolding k m by simp
  have "(4 * k + 4) mod 256 = 4 * (Suc k mod 64)" using m[of "Suc k"] by (simp add: add.commute)
  then show "(a + 4) mod 256 = 0 \<and> a mod 256 = 252 \<or> (a + 4) mod 256 = a mod 256 + 4" unfolding k m by (simp add: mod_Suc)
  show "a + 4 \<le> STAGING_IMAGE_SIZE" using assms(2) k by simp
qed

lemma unat_add_4: "unat a < STAGING_IMAGE_SIZE \<Longrightarrow> unat (a + 4 :: u32) = unat a + 4"
  using unat_add_of_nat[of a 4] by simp

lemma page_start_next:
  assumes "unat (fw_address fw) mod 4 = 0" "unat (fw_address fw) < STAGING_IMAGE_SIZE" "\<not> fw_byte_done fw \<or> fw_address fw = 0"
  shows "page_start (fw\<lparr>fw_address := fw_address fw + 4, fw_byte_done := True\<rparr>) = unat (fw_address fw) - unat (fw_address fw) mod 256 \<and>
     page_start fw = unat (fw_address fw) - unat (fw_address fw) mod 256"
proof
  let ?a = "unat (fw_address fw)"
  note n = next_word[OF assms(1,2)]
  show "page_start fw = ?a - ?a mod 256" using assms(3) by (auto simp: page_start_def Let_def)
  have s: "unat (fw_address fw + 4) = ?a + 4" by (rule unat_add_4[OF assms(2)])
  show "page_start (fw\<lparr>fw_address := fw_address fw + 4, fw_byte_done := True\<rparr>) = ?a - ?a mod 256"
    using n(2) by (auto simp: page_start_def Let_def s)
qed

lemma upt_four: "[a..<a + 4] = [a, a + 1, a + 2, a + 3]"
  by (simp add: upt_rec numeral_eq_Suc)

text \<open>The word that was asked for, or the first word of the image: the buffer, the address and the checksum go on by four bytes.\<close>

definition with_word :: "flash \<Rightarrow> u32 \<Rightarrow> fw_board \<Rightarrow> fw_board" where
  "with_word img now b =
     (let fw = fb_fw b; a = unat (fw_address fw);
          crc = (if a < STAGING_IMAGE_SIZE - FLASH_SECTOR_SIZE then foldl crc32_iter (fw_checksum fw) (map img [a..<a + 4])
                 else fw_checksum fw) in
      b\<lparr>fb_page_buffer := blit (fb_page_buffer b) (a mod 256) (map img [a..<a + 4]),
        fb_fw := fw\<lparr>fw_checksum := crc, fw_address := fw_address fw + 4, fw_byte_done := True, fw_progressed_at_us := now\<rparr>\<rparr>)"

lemma response_word:
  assumes "fw_upgrade_may_pull (fb_fw b)" "a = fw_address (fb_fw b)"
  shows "handle_response_byte_msg (answer_data img a) now b =
     (with_word img now b)\<lparr>fb_effects := fb_effects b @ (if a AND 0xfff = 0 then [ToggleLed] else [])\<rparr>"
  using assms by (simp add: handle_response_byte_msg_def with_word_def fw_upgrade_progress_def fw_emit_def Let_def)

lemma with_word_received:
  assumes "received img b" "256 \<le> length (fb_page_buffer b)" "unat (fw_address (fb_fw b)) < STAGING_IMAGE_SIZE"
    "\<not> fw_byte_done (fb_fw b) \<or> fw_address (fb_fw b) = 0"
  shows "received img (with_word img now b)"
proof -
  let ?fw = "fb_fw b" and ?b = "with_word img now b"
  let ?a = "unat (fw_address ?fw)"
  define p where "p = ?a - ?a mod 256"
  have r: "?a mod 4 = 0" "image_below img (page_start ?fw) (fb_flash b)" "\<forall>i < ?a - page_start ?fw. fb_page_buffer b ! i = img (page_start ?fw + i)"
    "fw_checksum ?fw = foldl crc32_iter 0xffffffff (map img [0..<min ?a 258048])"
    using assms(1) by (simp_all add: received_def Let_def)
  note n = next_word[OF r(1) assms(3)]
  have ps: "page_start ?fw = p" "page_start (fb_fw ?b) = p"
    using page_start_next[OF r(1) assms(3,4)] by (simp_all add: p_def with_word_def Let_def page_start_def)
  have pa: "?a = p + ?a mod 256" by (simp add: p_def)
  have addr: "unat (fw_address (fb_fw ?b)) = ?a + 4" using unat_add_4[OF assms(3)] by (simp add: with_word_def Let_def)
  have flash: "fb_flash ?b = fb_flash b" by (simp add: with_word_def Let_def)
  have buf: "fb_page_buffer ?b ! i = img (p + i)" if "i < ?a + 4 - p" for i
  proof (cases "i < ?a mod 256")
    case True
    then have "i < ?a - p" using pa by simp
    then have "fb_page_buffer b ! i = img (p + i)" using r(3) ps(1) by simp
    then show ?thesis using True n(1) assms(2) by (simp add: with_word_def Let_def nth_blit_word)
  next
    case False
    have i: "i < ?a mod 256 + 4" using that pa by linarith
    then have "map img [?a..<?a + 4] ! (i - ?a mod 256) = img (?a + (i - ?a mod 256))" using False by (subst nth_map) auto
    also have "?a + (i - ?a mod 256) = p + i" using pa False by arith
    finally show ?thesis using False i n(1) assms(2) by (simp add: with_word_def Let_def nth_blit_word)
  qed
  have crc: "fw_checksum (fb_fw ?b) = foldl crc32_iter 0xffffffff (map img [0..<min (?a + 4) 258048])"
  proof (cases "?a < 258048")
    case True
    have four: "4 dvd ?a" using r(1) by (simp add: mod_eq_0_iff_dvd)
    then obtain k where "?a = 4 * k" by (rule dvdE)
    then have "?a + 4 \<le> 258048" using True by simp
    then have "[0..<min (?a + 4) 258048] = [0..<min ?a 258048] @ [?a..<?a + 4]"
      using True upt_add_eq_append[of 0 ?a 4] by (simp add: min_absorb1)
    then show ?thesis using True r(4) by (simp add: with_word_def Let_def)
  next
    case False
    then show ?thesis using r(4) by (simp add: with_word_def Let_def min_absorb2)
  qed
  have m4: "(?a + 4) mod 4 = 0" using r(1) by simp
  show ?thesis unfolding received_def Let_def ps(2) addr flash image_len
    using n(3) m4 r(2) ps(1) buf crc by (simp only: simp_thms) blast
qed

lemma abandon_inv:
  assumes "pull_inv img (b, link)" "\<not> fb_in_rom b"
  shows "pull_inv img (abandon_firmware_upgrade b, link')"
  using assms
  by (auto simp: pull_inv_def abandon_firmware_upgrade_def fw_upgrade_must_recover_def recover_to_rom_def fw_upgrade_may_pull_def
      image_whole_def leaving_def)

lemma answer_inv:
  assumes inv: "pull_inv img (b, link)" and rom: "\<not> fb_in_rom b"
  shows "pull_inv img (fw_step img (Answer now queued) (b, link))"
proof (cases link)
  case None
  then show ?thesis using inv by simp
next
  case (Some a)
  note d = pull_invD[OF inv rom]
  consider "\<not> (unat a < STAGING_IMAGE_SIZE \<and> queued) \<or> \<not> fw_upgrade_may_pull (fb_fw b)"
    | "unat a < STAGING_IMAGE_SIZE" "queued" "fw_upgrade_may_pull (fb_fw b)" "a \<noteq> fw_address (fb_fw b)"
    | "unat a < STAGING_IMAGE_SIZE" "queued" "fw_upgrade_may_pull (fb_fw b)" "a = fw_address (fb_fw b)" by blast
  then show ?thesis
  proof cases
    case 1
    then have "fw_step img (Answer now queued) (b, link) = (b, None)"
      using Some answer_exact[of img now queued b a] by (auto simp: handle_response_byte_msg_def Let_def)
    then show ?thesis using inv rom by (simp add: pull_inv_def)
  next
    case 2
    then have "fw_step img (Answer now queued) (b, link) = (abandon_firmware_upgrade b, None)"
      using Some answer_exact[of img now queued b a] by (simp add: handle_response_byte_msg_def Let_def)
    then show ?thesis using abandon_inv[OF inv rom] by simp
  next
    case 3
    then obtain es where "fw_step img (Answer now queued) (b, link) = ((with_word img now b)\<lparr>fb_effects := es\<rparr>, None)"
      using Some answer_exact[of img now queued b a] response_word[of b a img now] by auto
    moreover have "received img (with_word img now b)"
      using with_word_received[OF d(2)[OF 3(3)] d(1), of now] 3 d(3)[OF Some 3(3,4)] by simp
    then have "received img ((with_word img now b)\<lparr>fb_effects := es\<rparr>)" by (simp add: received_def)
    moreover have "length (fb_page_buffer (with_word img now b)) \<ge> 256" "\<not> fb_in_rom (with_word img now b)"
      "fb_reboot_requested (with_word img now b) = fb_reboot_requested b" "fb_config_exit (with_word img now b) = fb_config_exit b"
      "fb_config_mode_active (with_word img now b) = fb_config_mode_active b"
      using d(1) rom by (auto simp: with_word_def Let_def blit_def)
    moreover have "\<not> (fb_reboot_requested b \<and> \<not> leaving b)" using d(5) 3(3) by blast
    ultimately show ?thesis using d(6) by (auto simp: pull_inv_def leaving_def)
  qed
qed

lemma id_eta [simp]: "\<lparr>id_version = id_version m, id_checksum = id_checksum m\<rparr> = m"
  by simp

lemma beat_inv:
  assumes inv: "pull_inv img (b, link)" and rom: "\<not> fb_in_rom b"
  shows "pull_inv img (fw_step img (Beat slot now) (b, link))"
proof -
  note d = pull_invD[OF inv rom]
  let ?data = "heartbeat_of (firmware_metadata img) slot"
  define b0 where "b0 = b\<lparr>fb_effects := fb_effects b @ [PeerBootMouse (data16 ?data 1 AND 0x8000 \<noteq> 0), PeerHelper (data16 ?data 1 AND 0x4000 \<noteq> 0),
        OtherAsleep (data16 ?data 1 AND 0x2000 \<noteq> 0)],
      fb_peer := peer_fw_record (id_version (firmware_metadata img)) (id_checksum (firmware_metadata img)) now\<rparr>"
  let ?pull = "fw_upgrade_should_pull (fb_fw b) (fb_running b) (firmware_metadata img) (fb_board_role b = 1)"
  define fw where "fw = (fb_fw b)\<lparr>fw_upgrade_in_progress := True, fw_source := FW_UPGRADE_SOURCE_PULL, fw_byte_done := True,
      fw_address := 0, fw_checksum := 0xffffffff, fw_progressed_at_us := ucast now\<rparr>"
  have step: "fw_step img (Beat slot now) (b, link) = (if ?pull then b0\<lparr>fb_fw := fw\<rparr> else b0, link)"
    by (simp add: handle_heartbeat_msg_def fw_emit_def Let_def fw_upgrade_progress_def b0_def fw_def)
  show ?thesis
  proof (cases ?pull)
    case True
    then have "fb_running b \<noteq> firmware_metadata img" by (auto simp: fw_upgrade_should_pull_def split: if_splits)
    then have "\<not> (fb_reboot_requested b \<and> \<not> leaving b)" using d(4) by blast
    moreover have "received img (b0\<lparr>fb_fw := fw\<rparr>)"
      by (simp add: received_def page_start_def image_below_def Let_def fw_def)
    ultimately show ?thesis unfolding step using True d(1,6) rom
      by (auto simp: fw_def b0_def leaving_def intro!: pull_invI)
  next
    case False
    then show ?thesis unfolding step using inv rom by (simp add: pull_inv_def b0_def received_def image_whole_def leaving_def)
  qed
qed

text \<open>The heartbeat task in its parts: the silent peer, the stalled transfer, and the rest, which leaves the upgrade alone.\<close>

definition peer_expired :: "u64 \<Rightarrow> fw_board \<Rightarrow> fw_board" where
  "peer_expired now b =
     (let b = b\<lparr>fb_peer := peer_fw_expire (fb_peer b) now\<rparr> in
      if pf_version (fb_peer b) = PEER_FW_UNKNOWN then fw_emit OtherLost (fw_emit (OtherAsleep False) b) else b)"

definition stall_ended :: "u64 \<Rightarrow> fw_board \<Rightarrow> fw_board" where
  "stall_ended now b = (if fw_upgrade_stalled (fb_fw b) (ucast now) then abandon_firmware_upgrade b else b)"

definition heartbeat_rest :: "u64 \<Rightarrow> fw_board \<Rightarrow> fw_board" where
  "heartbeat_rest now b =
     (let b = (if fb_config_mode_active b
               then fw_emit FwBlinkLed
                      (if now > fb_config_mode_timer b \<and> \<not> fw_upgrade_in_progress (fb_fw b)
                       then b\<lparr>fb_config_exit := config_exit_request (fb_config_exit b) (ucast now)\<rparr> else b)
               else b) in
      fw_emit (HeartbeatSent (id_version (fb_running b)) (id_checksum (fb_running b))) b)"

lemma heartbeat_parts:
  "heartbeat_output_task now b =
     (let b = stall_ended now (peer_expired now b) in if fb_in_rom b then b else heartbeat_rest now b)"
  by (simp only: heartbeat_output_task_def peer_expired_def stall_ended_def heartbeat_rest_def Let_def)

lemma heartbeat_parts_sel [simp]:
  "fb_fw (heartbeat_rest now b) = fb_fw b" "fb_flash (heartbeat_rest now b) = fb_flash b"
  "fb_page_buffer (heartbeat_rest now b) = fb_page_buffer b" "fb_in_rom (heartbeat_rest now b) = fb_in_rom b"
  "fb_reboot_requested (heartbeat_rest now b) = fb_reboot_requested b" "fb_running (heartbeat_rest now b) = fb_running b"
  "fb_fw (peer_expired now b) = fb_fw b" "fb_flash (peer_expired now b) = fb_flash b"
  "fb_page_buffer (peer_expired now b) = fb_page_buffer b" "fb_in_rom (peer_expired now b) = fb_in_rom b"
  "fb_reboot_requested (peer_expired now b) = fb_reboot_requested b" "fb_running (peer_expired now b) = fb_running b"
  "fb_config_exit (peer_expired now b) = fb_config_exit b" "fb_config_mode_active (peer_expired now b) = fb_config_mode_active b"
  "fb_config_mode_active (heartbeat_rest now b) = fb_config_mode_active b"
  by (simp_all add: heartbeat_rest_def peer_expired_def Let_def)

lemma heartbeat_rest_exit:
  "(ce_exit_requested (fb_config_exit b) \<longrightarrow> ce_exit_requested (fb_config_exit (heartbeat_rest now b))) \<and>
   (ce_exit_requested (fb_config_exit (heartbeat_rest now b)) \<longrightarrow> ce_exit_requested (fb_config_exit b) \<or> fb_config_mode_active b)"
  by (simp add: heartbeat_rest_def config_exit_request_def Let_def)

lemma tick_inv:
  assumes inv: "pull_inv img (b, link)" and rom: "\<not> fb_in_rom b"
  shows "pull_inv img (fw_step img (Tick now) (b, link))"
proof -
  let ?b = "stall_ended now (peer_expired now b)"
  have "pull_inv img (peer_expired now b, link)" "\<not> fb_in_rom (peer_expired now b)"
    using inv rom by (simp_all add: pull_inv_def received_def image_whole_def leaving_def Let_def)
  then have "pull_inv img (?b, link)" using abandon_inv by (simp add: stall_ended_def)
  then show ?thesis using heartbeat_rest_exit[of ?b now]
    by (cases "fb_in_rom ?b") (auto simp: heartbeat_parts Let_def pull_inv_def received_def image_whole_def leaving_def)
qed

text \<open>A reboot that the watchdog asks for is one out of config mode.\<close>

lemma watchdog_inv:
  assumes "pull_inv img (b, link)" "\<not> fb_in_rom b"
  shows "pull_inv img (fw_step img (Watchdog None core1 now) (b, link))"
  using assms
  by (auto simp: kick_watchdog_task_def config_exit_reboot_now_def Let_def pull_inv_def received_def image_whole_def leaving_def)

lemma fw_run_inv: "pull_inv img st \<Longrightarrow> (\<forall>e \<in> set es. undisturbed e) \<Longrightarrow> pull_inv img (fw_run img es st)"
proof (induction es arbitrary: st)
  case (Cons e es)
  obtain b link where st: "st = (b, link)" by fastforce
  show ?case
  proof (cases "fb_in_rom b")
    case False
    have "pull_inv img (fw_step img e (b, link))"
    proof (cases e)
      case Lose
      then show ?thesis using Cons.prems(1) st False by (simp add: pull_inv_def)
    next
      case (Watchdog bootsel core1 now)
      then have "bootsel = None" using Cons.prems(2) by (cases bootsel) (auto simp: undisturbed_def)
      then show ?thesis using Watchdog watchdog_inv Cons.prems(1) st False by blast
    qed (use Cons.prems st False pass_task_inv answer_inv beat_inv tick_inv in \<open>auto simp: undisturbed_def\<close>)
    then show ?thesis using Cons False st by simp
  qed (use Cons.prems st in simp)
qed simp

text \<open>A board that has booted: nothing in flight, its image its own.\<close>

definition fw_booted :: "fw_board \<Rightarrow> bool" where
  "fw_booted b \<longleftrightarrow> \<not> fb_in_rom b \<and> \<not> fb_reboot_requested b \<and> \<not> fw_upgrade_in_progress (fb_fw b) \<and> \<not> fw_image_dirty (fb_fw b) \<and>
     256 \<le> length (fb_page_buffer b) \<and> length (fb_page_buffer b) \<le> 4096 \<and> \<not> ce_exit_requested (fb_config_exit b)"

lemma fw_booted_inv: "fw_booted b \<Longrightarrow> pull_inv img (b, None)"
  by (simp add: fw_booted_def pull_inv_def fw_upgrade_may_pull_def)

section \<open>An answered pull ends\<close>

lemma fw_run_append: "fw_run img (xs @ ys) st = fw_run img ys (fw_run img xs st)"
proof (induction xs arbitrary: st)
  case (Cons e xs)
  show ?case by (cases "fb_in_rom (fst st)") (simp_all add: Cons.IH, cases ys, simp_all)
qed simp

text \<open>The words of the image, asked for and answered one after the other, with any heartbeat ticks while an answer is awaited. Each tick is
  less than the thirty seconds of a stall after the last progress: the answer before, or the start.\<close>

definition pull_rounds :: "(nat \<Rightarrow> u32) \<Rightarrow> (nat \<Rightarrow> u64 list) \<Rightarrow> (nat \<Rightarrow> u32) \<Rightarrow> nat \<Rightarrow> fw_event list" where
  "pull_rounds asked ticks answered n =
     concat (map (\<lambda>i. Pass (asked i) False True # map Tick (ticks i) @ [Answer (answered i) True]) [0..<n])"

definition ticks_in_time :: "u32 \<Rightarrow> (nat \<Rightarrow> u64 list) \<Rightarrow> (nat \<Rightarrow> u32) \<Rightarrow> nat \<Rightarrow> bool" where
  "ticks_in_time start ticks answered n \<longleftrightarrow>
     (\<forall>i<n. \<forall>t \<in> set (ticks i). ucast t - (if i = 0 then start else answered (i - 1)) < FW_UPGRADE_STALL_US)"

lemma pull_rounds_Suc:
  "pull_rounds asked ticks answered (Suc n) =
     pull_rounds asked ticks answered n @ Pass (asked n) False True # map Tick (ticks n) @ [Answer (answered n) True]"
  by (simp add: pull_rounds_def)

definition pulling :: "nat \<Rightarrow> u32 \<Rightarrow> fw_board \<Rightarrow> bool" where
  "pulling a since b \<longleftrightarrow> \<not> fb_in_rom b \<and> fw_upgrade_may_pull (fb_fw b) \<and> fw_byte_done (fb_fw b) \<and> unat (fw_address (fb_fw b)) = a \<and>
     fw_progressed_at_us (fb_fw b) = since"

lemma pass_requests:
  assumes "pulling a since b" "a < STAGING_IMAGE_SIZE"
  shows "fw_step img (Pass t False True) (b, link) =
     (request_byte (fw_address (fb_fw b)) t True (write_received_page b), Some (fw_address (fb_fw b)))"
  using assms by (simp add: pulling_def firmware_upgrade_task_def Let_def request_byte_sel)

text \<open>A tick in time leaves the transfer alone.\<close>

lemma tick_in_time:
  assumes "\<not> fb_in_rom b" "ucast t - fw_progressed_at_us (fb_fw b) < FW_UPGRADE_STALL_US"
  shows "fb_fw (heartbeat_output_task t b) = fb_fw b \<and> \<not> fb_in_rom (heartbeat_output_task t b)"
  using assms(1) assms(2)[unfolded not_le[symmetric]] by (simp add: heartbeat_parts stall_ended_def fw_upgrade_stalled_def Let_def)

lemma ticks_run:
  assumes "\<not> fb_in_rom b" "\<forall>t \<in> set ts. ucast t - fw_progressed_at_us (fb_fw b) < FW_UPGRADE_STALL_US"
  shows "\<exists>b'. fw_run img (map Tick ts) (b, link) = (b', link) \<and> fb_fw b' = fb_fw b \<and> \<not> fb_in_rom b'"
  using assms
proof (induction ts arbitrary: b)
  case (Cons t ts)
  have "fb_fw (heartbeat_output_task t b) = fb_fw b" "\<not> fb_in_rom (heartbeat_output_task t b)"
    using tick_in_time[OF Cons.prems(1)] Cons.prems(2) by simp_all
  then show ?case using Cons.IH[of "heartbeat_output_task t b"] Cons.prems by simp
qed simp

lemma one_round:
  assumes "pulling a since b" "a < STAGING_IMAGE_SIZE" "\<forall>t \<in> set ts. ucast t - since < FW_UPGRADE_STALL_US"
  shows "\<exists>b'. fw_run img (Pass q False True # map Tick ts @ [Answer r True]) (b, link) = (b', None) \<and> pulling (a + 4) r b'"
proof -
  let ?b1 = "request_byte (fw_address (fb_fw b)) q True (write_received_page b)"
  have prog: "fw_progressed_at_us (fb_fw (write_received_page b)) = fw_progressed_at_us (fb_fw b)"
    by (simp add: write_received_page_def Let_def)
  have b1: "fw_upgrade_may_pull (fb_fw ?b1)" "fw_address (fb_fw ?b1) = fw_address (fb_fw b)" "\<not> fb_in_rom ?b1"
    "fw_progressed_at_us (fb_fw ?b1) = since"
    using assms(1) prog by (simp_all add: pulling_def request_byte_sel fw_upgrade_may_pull_def)
  obtain b2 where b2: "fw_run img (map Tick ts) (?b1, Some (fw_address (fb_fw b))) = (b2, Some (fw_address (fb_fw b)))"
      "fb_fw b2 = fb_fw ?b1" "\<not> fb_in_rom b2"
    using ticks_run[OF b1(3), of ts img "Some (fw_address (fb_fw b))"] assms(3) b1(4) by auto
  have a: "unat (fw_address (fb_fw b)) < STAGING_IMAGE_SIZE" using assms(1,2) by (simp add: pulling_def)
  have next': "unat (fw_address (fb_fw b) + 4) = a + 4" using unat_add_4[OF a] assms(1) by (simp add: pulling_def)
  have m: "fw_upgrade_may_pull (fb_fw b2)" "fw_address (fb_fw b) = fw_address (fb_fw b2)" using b2(2) b1(1,2) by simp_all
  obtain es where "fw_step img (Answer r True) (b2, Some (fw_address (fb_fw b))) = ((with_word img r b2)\<lparr>fb_effects := es\<rparr>, None)"
    unfolding answer_exact using a response_word[OF m, of img r] by simp
  moreover have "pulling (a + 4) r ((with_word img r b2)\<lparr>fb_effects := es\<rparr>)"
    using m next' b2(3) by (simp add: pulling_def with_word_def Let_def fw_upgrade_may_pull_def)
  moreover have "\<not> fb_in_rom b" using assms(1) by (simp add: pulling_def)
  ultimately show ?thesis
    using pass_requests[OF assms(1,2), of img q link] b2(1,3) by (simp add: fw_run_append)
qed

lemma all_rounds:
  assumes "pulling 0 start b" "n \<le> 65536" "ticks_in_time start ticks answered n"
  shows "\<exists>b' link'. fw_run img (pull_rounds asked ticks answered n) (b, link) = (b', link') \<and>
     pulling (4 * n) (if n = 0 then start else answered (n - 1)) b'"
  using assms(2,3)
proof (induction n)
  case 0
  then show ?case using assms(1) by (simp add: pull_rounds_def)
next
  case (Suc n)
  then obtain b' link' where b': "fw_run img (pull_rounds asked ticks answered n) (b, link) = (b', link')"
      "pulling (4 * n) (if n = 0 then start else answered (n - 1)) b'" by (auto simp: ticks_in_time_def)
  from Suc.prems(1) have "4 * n < STAGING_IMAGE_SIZE" by simp
  moreover have "\<forall>t \<in> set (ticks n). ucast t - (if n = 0 then start else answered (n - 1)) < FW_UPGRADE_STALL_US"
    using Suc.prems(2) unfolding ticks_in_time_def by blast
  ultimately obtain b'' where "fw_run img (Pass (asked n) False True # map Tick (ticks n) @ [Answer (answered n) True]) (b', link') = (b'', None)"
      "pulling (4 * n + 4) (answered n) b''" using one_round[OF b'(2)] by blast
  then show ?case using b'(1) unfolding pull_rounds_Suc fw_run_append by (simp add: algebra_simps)
qed

lemma last_pass:
  assumes "pull_inv img (b, link)" "pulling STAGING_IMAGE_SIZE since b"
  shows "\<exists>b' link'. fw_run img [Pass t False True] (b, link) = (b', link') \<and> \<not> fb_in_rom b' \<and> fb_reboot_requested b' \<and>
     image_whole img b' \<and> \<not> fw_image_dirty (fb_fw b')"
proof -
  let ?w = "write_received_page b"
  have rom: "\<not> fb_in_rom b" and may: "fw_upgrade_may_pull (fb_fw b)" and bd: "fw_byte_done (fb_fw b)"
    and a: "unat (fw_address (fb_fw b)) = STAGING_IMAGE_SIZE" using assms(2) by (simp_all add: pulling_def)
  note d = pull_invD[OF assms(1) rom]
  have w: "received img ?w" by (rule write_received_page_received[OF d(2)[OF may] bd d(1)])
  have "image_below img (unat (fw_address (fb_fw ?w)) - unat (fw_address (fb_fw ?w)) mod 256) (fb_flash ?w)"
    using write_received_page_image[OF d(2)[OF may] bd d(1)] by simp
  from finish_pull_whole[OF w this] a have fin: "finish_pull ?w =
     ?w\<lparr>fb_fw := (fb_fw ?w)\<lparr>fw_upgrade_in_progress := False, fw_source := FW_UPGRADE_SOURCE_NONE,
        fw_checksum := NOT (fw_checksum (fb_fw ?w)), fw_image_dirty := False\<rparr>,
       fb_running := firmware_metadata img, fb_reboot_requested := True\<rparr>" "image_whole img ?w" by simp_all
  have "firmware_upgrade_task t False True b = finish_pull ?w"
    using may bd a by (simp add: firmware_upgrade_task_def Let_def)
  then show ?thesis using fin rom by (simp add: Let_def image_whole_def)
qed

lemma pull_starts:
  assumes "\<not> fb_in_rom b" "fw_upgrade_should_pull (fb_fw b) (fb_running b) (firmware_metadata img) (fb_board_role b = 1)"
  shows "\<exists>b'. fw_run img [Beat slot now] (b, link) = (b', link) \<and> pulling 0 (ucast now) b'"
  using assms by (simp add: handle_heartbeat_msg_def Let_def fw_upgrade_progress_def pulling_def fw_upgrade_may_pull_def)

lemma rounds_undisturbed: "\<forall>e \<in> set (pull_rounds asked ticks answered n). undisturbed e"
  by (auto simp: pull_rounds_def undisturbed_def)

lemma pull_reaches_end:
  assumes inv: "pull_inv img (b, link)" and "\<not> fb_in_rom b"
    "fw_upgrade_should_pull (fb_fw b) (fb_running b) (firmware_metadata img) (fb_board_role b = 1)"
    "ticks_in_time (ucast now) ticks answered 65536"
  shows "\<exists>b' link'. fw_run img ([Beat slot now] @ pull_rounds asked ticks answered 65536 @ [Pass t False True]) (b, link) = (b', link') \<and>
     \<not> fb_in_rom b' \<and> fb_reboot_requested b' \<and> image_whole img b' \<and> \<not> fw_image_dirty (fb_fw b')"
proof -
  obtain b1 where b1: "fw_run img [Beat slot now] (b, link) = (b1, link)" "pulling 0 (ucast now) b1"
    using pull_starts[OF assms(2,3)] by blast
  have i1: "pull_inv img (b1, link)" using fw_run_inv[OF inv, of "[Beat slot now]"] b1(1) by (simp add: undisturbed_def)
  obtain b2 link2 since where b2: "fw_run img (pull_rounds asked ticks answered 65536) (b1, link) = (b2, link2)" "pulling (4 * 65536) since b2"
    using all_rounds[OF b1(2) order_refl assms(4), of img asked link] by auto
  have "pull_inv img (b2, link2)" using fw_run_inv[OF i1 rounds_undisturbed] b2(1) by metis
  then show ?thesis using last_pass[of img b2 link2 since t] b2(2) unfolding fw_run_append b1(1) b2(1) by simp
qed

section \<open>A board is never left with a mixed image unmarked\<close>

definition image_safe :: "flash \<Rightarrow> flash \<Rightarrow> fw_board \<Rightarrow> bool" where
  "image_safe old img b \<longleftrightarrow> fb_in_rom b \<or> fw_image_dirty (fb_fw b) \<or> fb_flash b = old \<or> image_whole img b"

lemma task_safe:
  assumes "pull_inv img (b, link)" "\<not> fb_in_rom b" "image_safe old img b"
  shows "image_safe old img (firmware_upgrade_task now queue_full queued b)"
proof (cases "fw_upgrade_may_pull (fb_fw b) \<and> fw_byte_done (fb_fw b) \<and> \<not> queue_full")
  case False
  then show ?thesis using assms(3)
    by (auto simp: firmware_upgrade_task_def image_safe_def image_whole_def request_byte_sel Let_def)
next
  case True
  let ?w = "write_received_page b"
  have w: "image_safe old img ?w" using assms(3) by (auto simp: image_safe_def write_received_page_def image_whole_def Let_def)
  show ?thesis
  proof (cases "unat (fw_address (fb_fw b)) \<ge> STAGING_IMAGE_SIZE")
    case end': True
    note d = pull_invD[OF assms(1,2)]
    have rec: "received img b" using d(2) True by blast
    have bd: "fw_byte_done (fb_fw b)" using True by blast
    have "image_whole img ?w"
      using finish_pull_whole[OF write_received_page_received[OF rec bd d(1)]] write_received_page_image[OF rec bd d(1)] end' by simp
    then show ?thesis using True end'
      by (auto simp: firmware_upgrade_task_def finish_pull_def recover_to_rom_def image_safe_def image_whole_def Let_def)
  next
    case more: False
    then show ?thesis using True w
      by (auto simp: firmware_upgrade_task_def image_safe_def image_whole_def request_byte_sel Let_def)
  qed
qed

lemma abandon_safe: "image_safe old img b \<Longrightarrow> image_safe old img (abandon_firmware_upgrade b)"
  by (auto simp: image_safe_def abandon_firmware_upgrade_def recover_to_rom_def image_whole_def)

lemma response_safe: "image_safe old img b \<Longrightarrow> image_safe old img (handle_response_byte_msg data now b)"
  using abandon_safe[of old img b]
  by (auto simp: handle_response_byte_msg_def image_safe_def image_whole_def fw_upgrade_progress_def Let_def)

lemma heartbeat_safe: "image_safe old img b \<Longrightarrow> image_safe old img (handle_heartbeat_msg data now b)"
  by (auto simp: handle_heartbeat_msg_def image_safe_def image_whole_def fw_upgrade_progress_def Let_def)

lemma tick_safe:
  assumes "image_safe old img b"
  shows "image_safe old img (heartbeat_output_task now b)"
proof -
  have "image_safe old img (peer_expired now b)" using assms by (simp add: image_safe_def image_whole_def)
  then have "image_safe old img (stall_ended now (peer_expired now b))" using abandon_safe by (simp add: stall_ended_def)
  then show ?thesis by (auto simp: heartbeat_parts image_safe_def image_whole_def Let_def)
qed

lemma step_safe:
  assumes "pull_inv img (b, link)" "\<not> fb_in_rom b" "undisturbed e" "image_safe old img b"
  shows "image_safe old img (fst (fw_step img e (b, link)))"
proof (cases e)
  case (Answer now queued)
  then show ?thesis using assms(4) response_safe by (cases link) (auto split: option.split)
next
  case (Watchdog bootsel core1 now)
  then show ?thesis using assms(4) by (simp add: kick_watchdog_task_def image_safe_def image_whole_def Let_def)
qed (use assms task_safe heartbeat_safe tick_safe in \<open>auto simp: Let_def undisturbed_def\<close>)

lemma run_safe:
  "pull_inv img st \<Longrightarrow> (\<forall>e \<in> set es. undisturbed e) \<Longrightarrow> image_safe old img (fst st) \<Longrightarrow> image_safe old img (fst (fw_run img es st))"
proof (induction es arbitrary: st)
  case (Cons e es)
  obtain b link where st: "st = (b, link)" by fastforce
  show ?case
  proof (cases "fb_in_rom b")
    case False
    have "pull_inv img (fw_step img e (b, link))" using fw_run_inv[of img "(b, link)" "[e]"] Cons.prems st False by simp
    with Cons False st step_safe[of img b link e old] show ?thesis by simp
  qed (use Cons.prems st in simp)
qed simp

section \<open>Nothing outside the image\<close>

definition in_image :: "fw_board \<Rightarrow> bool" where
  "in_image b \<longleftrightarrow> length (fb_page_buffer b) \<le> 4096 \<and>
     (fw_upgrade_may_pull (fb_fw b) \<longrightarrow> unat (fw_address (fb_fw b)) \<le> STAGING_IMAGE_SIZE \<and> unat (fw_address (fb_fw b)) mod 4 = 0)"

lemma sector_inside:
  assumes "t mod 4096 = (0 :: nat)" "t < STAGING_IMAGE_SIZE"
  shows "t + 4096 \<le> STAGING_IMAGE_SIZE"
proof -
  have "4096 dvd t" using assms(1) by (simp add: mod_eq_0_iff_dvd)
  then obtain k where "t = 4096 * k" by (rule dvdE)
  then show ?thesis using assms(2) by simp
qed

lemma write_page_outside:
  assumes "unat t mod 256 = 0" "unat t < STAGING_IMAGE_SIZE" "STAGING_IMAGE_SIZE \<le> x"
  shows "write_flash_page t buf flash x = flash x"
proof -
  have "256 dvd unat t" using assms(1) by (simp add: mod_eq_0_iff_dvd)
  then obtain k where "unat t = 256 * k" by (rule dvdE)
  then have page: "unat t + 256 \<le> STAGING_IMAGE_SIZE" using assms(2) by simp
  have "t AND 0xf00 = 0 \<Longrightarrow> unat t + 4096 \<le> STAGING_IMAGE_SIZE"
    using sector_inside[OF _ assms(2)] sector_start[OF assms(1)] by simp
  then show ?thesis using page assms(3)
    by (auto simp: write_flash_page_def flash_range_program_def flash_range_erase_def Let_def)
qed

text \<open>Each operation keeps the address in the image and the bytes past the image.\<close>

definition stays :: "fw_board \<Rightarrow> fw_board \<Rightarrow> bool" where
  "stays b b' \<longleftrightarrow> in_image b' \<and> (\<forall>x \<ge> STAGING_IMAGE_SIZE. fb_flash b' x = fb_flash b x)"

lemma staysI: "in_image b' \<Longrightarrow> fb_flash b' = fb_flash b \<Longrightarrow> stays b b'"
  by (simp add: stays_def)

lemma page_write_stays:
  assumes "in_image b" "fw_upgrade_may_pull (fb_fw b)"
  shows "stays b (write_received_page b)"
proof (cases "unat (fw_address (fb_fw b)) mod 256 = 0 \<and> fw_address (fb_fw b) \<noteq> 0")
  case False
  then have "write_received_page b = b" by (auto simp: write_received_page_def page_boundary Let_def)
  then show ?thesis using assms(1) by (simp add: stays_def)
next
  case True
  let ?a = "unat (fw_address (fb_fw b))" and ?t = "(fw_address (fb_fw b) - 1) AND 0xFFFFFF00"
  have t: "unat ?t = ?a - 256" using page_before[of "fw_address (fb_fw b)"] True by simp
  have "?a \<ge> 256" using True dvd_imp_le[of 256 ?a] by (simp add: mod_eq_0_iff_dvd unat_gt_0)
  moreover have "?a \<le> STAGING_IMAGE_SIZE" using assms by (simp add: in_image_def)
  ultimately have "unat ?t < STAGING_IMAGE_SIZE" unfolding t by linarith
  moreover have "unat ?t mod 256 = 0" using True t by (simp add: mod_eq_0_iff_dvd)
  ultimately show ?thesis using write_page_outside assms True
    by (simp add: stays_def in_image_def write_received_page_def page_boundary fw_upgrade_may_pull_def Let_def)
qed

lemma stays_trans: "stays a b \<Longrightarrow> stays b c \<Longrightarrow> stays a c"
  by (simp add: stays_def)

lemma request_stays: "in_image b \<Longrightarrow> stays b (request_byte a now queued b)"
  by (auto simp: stays_def in_image_def request_byte_sel fw_upgrade_may_pull_def)

lemma rom_stays: "in_image b \<Longrightarrow> stays b (recover_to_rom b)"
  by (simp add: stays_def in_image_def recover_to_rom_def flash_range_erase_def)

lemma finish_stays: "in_image b \<Longrightarrow> stays b (finish_pull b)"
  by (auto simp: finish_pull_def Let_def stays_def in_image_def fw_upgrade_may_pull_def recover_to_rom_def flash_range_erase_def)

lemma pass_stays:
  assumes "in_image b"
  shows "stays b (firmware_upgrade_task now queue_full queued b)"
proof (cases "fw_upgrade_may_pull (fb_fw b)")
  case False
  then show ?thesis using assms by (simp add: firmware_upgrade_task_def stays_def)
next
  case True
  let ?w = "write_received_page b"
  have w: "stays b ?w" by (rule page_write_stays[OF assms True])
  then have iw: "in_image ?w" by (simp add: stays_def)
  show ?thesis using assms w request_stays[of b] stays_trans[OF w request_stays[OF iw]] stays_trans[OF w finish_stays[OF iw]]
    by (auto simp: firmware_upgrade_task_def Let_def stays_def)
qed

lemma abandon_stays: "in_image b \<Longrightarrow> stays b (abandon_firmware_upgrade b)"
  using rom_stays[of b] by (auto simp: abandon_firmware_upgrade_def stays_def in_image_def fw_upgrade_may_pull_def)

lemma answer_stays:
  assumes "in_image b"
  shows "stays b (fst (fw_step img (Answer now queued) (b, link)))"
proof (cases link)
  case None
  then show ?thesis using assms by (simp add: stays_def)
next
  case (Some a)
  consider "\<not> (unat a < STAGING_IMAGE_SIZE \<and> queued) \<or> \<not> fw_upgrade_may_pull (fb_fw b)"
    | "unat a < STAGING_IMAGE_SIZE" "queued" "fw_upgrade_may_pull (fb_fw b)" "a \<noteq> fw_address (fb_fw b)"
    | "unat a < STAGING_IMAGE_SIZE" "queued" "fw_upgrade_may_pull (fb_fw b)" "a = fw_address (fb_fw b)" by blast
  then show ?thesis
  proof cases
    case 1
    then have "fst (fw_step img (Answer now queued) (b, link)) = b"
      using Some answer_exact[of img now queued b a] by (auto simp: handle_response_byte_msg_def Let_def)
    then show ?thesis using assms by (simp add: stays_def)
  next
    case 2
    then show ?thesis using Some answer_exact[of img now queued b a] abandon_stays[OF assms]
      by (simp add: handle_response_byte_msg_def Let_def)
  next
    case 3
    have "unat (a + 4) \<le> STAGING_IMAGE_SIZE \<and> unat (a + 4) mod 4 = 0"
      using 3 assms unat_add_4[of a] next_word(3)[of "unat a"] by (auto simp: in_image_def)
    moreover have "length (blit (fb_page_buffer b) (unat a mod 256) (map img [unat a..<unat a + 4])) \<le> 4096"
      using assms mod_less_divisor[of 256 "unat a"] by (auto simp: blit_def in_image_def min_def)
    ultimately show ?thesis using Some 3 answer_exact[of img now queued b a] response_word[of b a img now]
      by (simp add: stays_def in_image_def with_word_def Let_def)
  qed
qed

lemma beat_stays: "in_image b \<Longrightarrow> stays b (handle_heartbeat_msg data now b)"
  by (simp add: handle_heartbeat_msg_def stays_def in_image_def fw_upgrade_progress_def Let_def)

lemma tick_stays:
  assumes "in_image b"
  shows "stays b (heartbeat_output_task now b)"
proof -
  have e: "stays b (peer_expired now b)" using assms by (simp add: stays_def in_image_def)
  then have "stays b (stall_ended now (peer_expired now b))"
    using stays_trans[OF e abandon_stays] by (simp add: stall_ended_def stays_def)
  then show ?thesis by (simp add: heartbeat_parts Let_def stays_def in_image_def)
qed

lemma block_stays:
  assumes "in_image b"
  shows "stays b (fst (tud_msc_write10_cb lba uf2 n now b))"
proof (cases "lba \<ge> 4096 \<or> uf_magicStart0 uf2 \<noteq> 0x0A324655 \<or> uf_magicStart1 uf2 \<noteq> 0x9E5D5157 \<or> uf_magicEnd uf2 \<noteq> 0x0AB16F30 \<or>
    uf_blockNo uf2 > 1023")
  case True
  then have "fst (tud_msc_write10_cb lba uf2 n now b) = b" by (auto simp: tud_msc_write10_cb_def Let_def)
  then show ?thesis using assms by (simp add: stays_def)
next
  case False
  have no: "unat (uf_blockNo uf2) \<le> 1023" using False by (simp add: word_le_nat_alt not_less)
  have t: "unat (uf_blockNo uf2 * 256) = unat (uf_blockNo uf2) * 256"
    using no by (simp add: unat_word_ariths take_bit_nat_eq_self)
  define w where "w = write_flash_page (uf_blockNo uf2 * 256) (take 256 (uf_data uf2)) (fb_flash b)"
  have w: "w x = fb_flash b x" if "STAGING_IMAGE_SIZE \<le> x" for x
    unfolding w_def by (rule write_page_outside) (use t no that in auto)
  show ?thesis using False assms w
    by (auto simp: tud_msc_write10_cb_def Let_def stays_def in_image_def fw_upgrade_progress_def fw_upgrade_may_pull_def recover_to_rom_def
        flash_range_erase_def w_def split: if_splits)
qed

lemma watchdog_stays: "in_image b \<Longrightarrow> stays b (kick_watchdog_task bootsel core1 now b)"
  by (auto simp: kick_watchdog_task_def stays_def in_image_def Let_def split: option.split)

lemma step_stays: "in_image b \<Longrightarrow> \<not> is_save e \<Longrightarrow> stays b (fst (fw_step img e (b, link)))"
proof (cases e)
  case (Answer now queued)
  then show "in_image b \<Longrightarrow> ?thesis" using answer_stays by blast
qed (simp_all add: Let_def pass_stays beat_stays tick_stays block_stays watchdog_stays, simp_all add: stays_def)

text \<open>A save writes its own sector, one of the last two.\<close>

lemma write_page_before:
  assumes "x < unat t"
  shows "write_flash_page t buf flash x = flash x"
  using assms by (simp add: write_flash_page_def flash_range_program_def flash_range_erase_def Let_def)

lemma config_page_addr:
  assumes "i < 16"
  shows "unat (ADDR_CONFIG + of_nat (FLASH_PAGE_SIZE * i)) = 2093056 + 256 * i"
proof -
  have "ADDR_CONFIG + of_nat (FLASH_PAGE_SIZE * i) = (of_nat (2093056 + 256 * i) :: u32)" by simp
  then show ?thesis using assms by (simp only: unat_of_nat) (simp add: take_bit_nat_eq_self)
qed

lemma config_pages_before:
  assumes "\<forall>i \<in> set ns. i < 16" "x < 2093056"
  shows "fold (\<lambda>i. write_flash_page (ADDR_CONFIG + of_nat (FLASH_PAGE_SIZE * i)) (buf i)) ns flash x = flash x"
  using assms(1)
proof (induction ns arbitrary: flash)
  case (Cons i ns)
  then have "x < unat (ADDR_CONFIG + of_nat (FLASH_PAGE_SIZE * i))" using assms(2) by (subst config_page_addr) auto
  moreover have "\<forall>i \<in> set ns. i < 16" using Cons.prems by simp
  ultimately show ?case by (simp only: fold_simps Cons.IH write_page_before)
qed simp

lemma save_stays:
  assumes "in_image b" "is_save e" "x < 2088960"
  shows "in_image (fst (fw_step img e (b, link))) \<and> fb_flash (fst (fw_step img e (b, link))) x = fb_flash b x"
proof (cases e)
  case (SaveConfig raw)
  have "\<forall>i \<in> set [0..<length (fb_page_buffer b) div 256]. i < 16" using assms(1) by (auto simp: in_image_def)
  note pages = config_pages_before[OF this]
  show ?thesis unfolding SaveConfig fw_step.simps save_config_def Let_def fst_conv
    using assms(1,3) by (auto simp: in_image_def pages simp del: of_nat_mult)
next
  case (SaveIdentity fresh)
  then show ?thesis using assms(1,3) by (auto simp: save_identity_def in_image_def write_page_before Let_def)
qed (use assms(2) in auto)

lemma run_stays:
  assumes "STAGING_IMAGE_SIZE \<le> x"
  shows "in_image (fst st) \<Longrightarrow> (\<forall>e \<in> set es. \<not> is_save e) \<or> x < 2088960 \<Longrightarrow> fb_flash (fst (fw_run img es st)) x = fb_flash (fst st) x"
proof (induction es arbitrary: st)
  case (Cons e es)
  obtain b link where st: "st = (b, link)" by fastforce
  have "in_image (fst (fw_step img e st)) \<and> fb_flash (fst (fw_step img e st)) x = fb_flash b x"
    using step_stays[of b e img link] save_stays[of b e x img link] Cons.prems assms st by (cases "is_save e") (auto simp: stays_def)
  then show ?case using Cons.IH[of "fw_step img e st"] Cons.prems st by auto
qed simp

section \<open>The image dropped by the host\<close>

text \<open>The image as the host writes it: its blocks in order, each with the magic numbers and a page of the image.\<close>

definition image_block :: "flash \<Rightarrow> nat \<Rightarrow> uf2_t" where
  "image_block img i = \<lparr>uf_magicStart0 = 0x0A324655, uf_magicStart1 = 0x9E5D5157, uf_magicEnd = 0x0AB16F30, uf_blockNo = of_nat i,
     uf_data = map img [256 * i..<256 * i + 256]\<rparr>"

definition image_blocks :: "flash \<Rightarrow> (nat \<Rightarrow> u32) \<Rightarrow> nat \<Rightarrow> fw_event list" where
  "image_blocks img clock n = map (\<lambda>i. Block (of_nat i) (image_block img i) 512 (clock i)) [0..<n]"

definition dropped :: "flash \<Rightarrow> nat \<Rightarrow> fw_board \<Rightarrow> bool" where
  "dropped img n b \<longleftrightarrow> \<not> fb_in_rom b \<and> image_below img (256 * n) (fb_flash b) \<and>
     (n > 0 \<longrightarrow> fw_checksum (fb_fw b) = foldl crc32_iter 0xffffffff (map img [0..<min (256 * n) 258048]))"

lemma block_no: "i < 1024 \<Longrightarrow> unat (of_nat i :: u32) = i \<and> unat (of_nat i * 256 :: u32) = 256 * i"
  by (simp add: unat_word_ariths take_bit_nat_eq_self unat_of_nat)

text \<open>A page written over the flash: the image reaches one page further.\<close>

lemma write_page_below:
  assumes "image_below img (256 * n) flash" "n < 1024"
  shows "image_below img (256 * Suc n) (write_flash_page (of_nat n * 256) (map img [256 * n..<256 * n + 256]) flash)"
  using image_page_written(1)[OF assms(1), of "of_nat n * 256" "map img [256 * n..<256 * n + 256]"] block_no[OF assms(2)]
  by (simp add: add.commute)

text \<open>The board after one block of the image, short of the checks of the last.\<close>

definition with_block :: "flash \<Rightarrow> nat \<Rightarrow> u32 \<Rightarrow> fw_board \<Rightarrow> fw_board" where
  "with_block img n now b =
     (let fw = fb_fw b;
          fw = (if n = 0 then fw\<lparr>fw_checksum := 0xffffffff, fw_upgrade_in_progress := True, fw_source := FW_UPGRADE_SOURCE_DROP\<rparr> else fw);
          fw = (if n < 1008 then fw\<lparr>fw_checksum := foldl crc32_iter (fw_checksum fw) (map img [256 * n..<256 * n + 256])\<rparr> else fw) in
      b\<lparr>fb_flash := write_flash_page (of_nat n * 256) (map img [256 * n..<256 * n + 256]) (fb_flash b),
        fb_fw := fw\<lparr>fw_image_dirty := True, fw_progressed_at_us := now\<rparr>\<rparr>)"

lemma with_block_dropped:
  assumes "dropped img n b" "n < 1024"
  shows "dropped img (Suc n) (with_block img n now b)"
proof -
  have "image_below img (256 * Suc n) (fb_flash (with_block img n now b))"
    using write_page_below[OF _ assms(2)] assms(1) by (simp add: dropped_def with_block_def Let_def)
  moreover have "fw_checksum (fb_fw (with_block img n now b)) = foldl crc32_iter 0xffffffff (map img [0..<min (256 * Suc n) 258048])"
  proof (cases "n < 1008")
    case True
    then have "[0..<min (256 * Suc n) 258048] = [0..<256 * n] @ [256 * n..<256 * n + 256]"
      using upt_add_eq_append[of 0 "256 * n" 256] by (simp add: min_absorb1 add.commute)
    then show ?thesis using True assms(1) by (simp add: dropped_def with_block_def Let_def min_absorb1)
  next
    case False
    then show ?thesis using assms(1) by (simp add: dropped_def with_block_def Let_def min_absorb2)
  qed
  ultimately show ?thesis using assms(1) by (simp add: dropped_def with_block_def Let_def)
qed

lemma block_step:
  assumes "n < 1023"
  shows "fw_step img (Block (of_nat n) (image_block img n) 512 now) (b, link) = (fw_emit ToggleLed (with_block img n now b), link)"
proof -
  have "unat (of_nat n :: u32) = n" using block_no assms by simp
  then have n: "\<not> of_nat n \<ge> (4096 :: u32)" "\<not> of_nat n > (1023 :: u32)" "of_nat n \<noteq> (1023 :: u32)"
    "of_nat n = (0 :: u32) \<longleftrightarrow> n = 0" "of_nat n < (1008 :: u32) \<longleftrightarrow> n < 1008"
    using assms by (auto simp: word_le_nat_alt word_less_nat_alt unat_eq_zero simp flip: unat_0 dest: arg_cong[of _ _ unat])
  show ?thesis using n by (simp add: tud_msc_write10_cb_def image_block_def with_block_def fw_upgrade_progress_def Let_def)
qed

lemma blocks_run:
  assumes "\<not> fb_in_rom b" "n \<le> 1023"
  shows "\<exists>b'. fw_run img (image_blocks img clock n) (b, link) = (b', link) \<and> dropped img n b'"
  using assms(2)
proof (induction n)
  case 0
  then show ?case using assms(1) by (simp add: image_blocks_def dropped_def image_below_def)
next
  case (Suc n)
  then obtain b' where b': "fw_run img (image_blocks img clock n) (b, link) = (b', link)" "dropped img n b'" by auto
  have "image_blocks img clock (Suc n) = image_blocks img clock n @ [Block (of_nat n) (image_block img n) 512 (clock n)]"
    by (simp add: image_blocks_def)
  moreover have "dropped img (Suc n) (fw_emit ToggleLed (with_block img n (clock n) b'))"
    using with_block_dropped[OF b'(2)] Suc.prems by (simp add: dropped_def)
  moreover have "\<not> fb_in_rom b'" using b'(2) by (simp add: dropped_def)
  ultimately show ?case using block_step[of n img "clock n" b' link] Suc.prems b'(1) by (simp add: fw_run_append)
qed

lemma drop_reaches_end:
  assumes "\<not> fb_in_rom b"
  shows "\<exists>b'. fw_run img (image_blocks img clock 1024) (b, link) = (b', link) \<and> \<not> fb_in_rom b' \<and> image_whole img b' \<and>
     \<not> fw_image_dirty (fb_fw b') \<and> ce_exit_requested (fb_config_exit b')"
proof -
  obtain b1 where b1: "fw_run img (image_blocks img clock 1023) (b, link) = (b1, link)" "dropped img 1023 b1"
    using blocks_run[OF assms, of 1023 img clock link] by auto
  let ?w = "with_block img 1023 (clock 1023) b1"
  have w: "dropped img 1024 ?w" using with_block_dropped[OF b1(2)] by simp
  have whole: "\<forall>x < STAGING_IMAGE_SIZE. fb_flash ?w x = img x" using w by (simp add: dropped_def image_below_def)
  then have "map (fb_flash ?w) [0..<258048] = map img [0..<258048]" by (intro map_cong) auto
  then have "calculate_firmware_crc32 (fb_flash ?w) = calc_crc32 (map img [0..<258048])"
    unfolding calculate_firmware_crc32_def image_len by (simp only:)
  then have crc: "calculate_firmware_crc32 (fb_flash ?w) = NOT (fw_checksum (fb_fw ?w))" using w by (simp add: dropped_def calc_crc32_def)
  have rom: "\<not> fb_in_rom b1" using b1(2) by (simp add: dropped_def)
  have "fw_step img (Block 1023 (image_block img 1023) 512 (clock 1023)) (b1, link) =
      (fw_emit ToggleLed (?w\<lparr>fb_fw := (fb_fw ?w)\<lparr>fw_checksum := NOT (fw_checksum (fb_fw ?w)), fw_image_dirty := False\<rparr>,
         fb_config_exit := config_exit_request (fb_config_exit ?w) (clock 1023)\<rparr>), link)"
    using crc by (simp add: tud_msc_write10_cb_def image_block_def with_block_def fw_upgrade_progress_def Let_def)
  moreover have "image_blocks img clock 1024 = image_blocks img clock 1023 @ [Block 1023 (image_block img 1023) 512 (clock 1023)]"
    using upt_Suc_append[of 0 1023] by (simp add: image_blocks_def)
  ultimately show ?thesis using b1(1) rom whole w
    by (simp add: fw_run_append image_whole_def config_exit_request_def dropped_def)
qed

section \<open>The checksum and the direction of a pull\<close>

text \<open>The table of the source is eight steps of the shift register, so the checksum is CRC-32.\<close>

fun table_ok :: "u32 \<Rightarrow> u32 list \<Rightarrow> bool" where
  "table_ok w [] = True"
| "table_ok w (t # ts) = (crc32_half (crc32_half w) = t \<and> table_ok (w + 1) ts)"

lemma table_ok_nth: "table_ok w ts \<Longrightarrow> i < length ts \<Longrightarrow> ts ! i = crc32_half (crc32_half (w + of_nat i))"
proof (induction ts arbitrary: w i)
  case (Cons t ts)
  then show ?case by (cases i) (auto simp: algebra_simps)
qed simp

lemma crc_byte_table: "i < 256 \<Longrightarrow> (crc_bit ^^ 8) (of_nat i) = crc32_lookup_table ! i"
proof -
  have "table_ok 0 crc32_lookup_table" by code_simp
  moreover have "length crc32_lookup_table = 256" by (simp add: crc32_lookup_table_def)
  moreover have "(crc_bit ^^ 8) c = (crc_bit ^^ 4) ((crc_bit ^^ 4) c)" for c
    by (simp flip: funpow_add comp_apply[of "crc_bit ^^ 4"])
  ultimately show "i < 256 \<Longrightarrow> ?thesis" using table_ok_nth[of 0 crc32_lookup_table i] by (simp add: crc32_half_steps)
qed

lemma crc32_iter_steps: "crc32_iter c b = (crc_bit ^^ 8) (c XOR ucast b)"
proof -
  define w where "w = c XOR ucast b"
  have lo: "w AND 0xff = take_bit 8 w" by (simp only: take_bit_eq_mask) (simp add: mask_eq_exp_minus_1)
  have split: "w = push_bit 8 (drop_bit 8 w) XOR take_bit 8 w" by (rule bit_word_eqI) (auto simp: bit_simps)
  have "unat (take_bit 8 w) < 256" using unat_take_bit[of 8 w] by simp
  then have tab: "(crc_bit ^^ 8) (take_bit 8 w) = crc32_lookup_table ! unat (take_bit 8 w)"
    using crc_byte_table[of "unat (take_bit 8 w)"] by simp
  have high: "drop_bit 8 (push_bit 8 (drop_bit 8 w)) = drop_bit 8 w"
    by (rule bit_word_eqI) (auto simp: bit_simps dest: bit_imp_le_length)
  have "(crc_bit ^^ 8) w = drop_bit 8 w XOR crc32_lookup_table ! unat (take_bit 8 w)"
    by (subst split) (simp only: crc_bits_xor crc_bits_high[OF order_refl] tab high)
  moreover have "drop_bit 8 w = drop_bit 8 c" unfolding w_def by (rule bit_word_eqI) (auto simp: bit_simps dest: bit_imp_le_length)
  moreover have "(ucast b XOR c) AND 0xff = take_bit 8 w" using lo by (simp add: w_def ac_simps)
  ultimately show ?thesis by (simp add: crc32_iter_def w_def[symmetric] xor.commute)
qed

lemma calc_crc32_spec: "calc_crc32 s = crc32_spec s"
proof -
  have "NOT x = x XOR 0xffffffff" for x :: u32
  proof -
    have "(0xffffffff :: u32) = - 1" by simp
    then show ?thesis by (simp only: bit.xor_one_right)
  qed
  moreover have "crc32_iter = (\<lambda>c d. (crc_bit ^^ 8) (c XOR ucast d))" by (rule ext)+ (rule crc32_iter_steps)
  ultimately show ?thesis by (simp add: calc_crc32_def crc32_spec_def)
qed

text \<open>Two boards never pull from each other at once: one of them is not board B.\<close>

lemma never_both_pull:
  "\<not> (fw_upgrade_should_pull fw_a a b False \<and> fw_upgrade_should_pull fw_b b a True)"
  by (auto simp: fw_upgrade_should_pull_def split: if_splits)

lemma pull_reason:
  "fw_upgrade_should_pull fw ours peers follows \<Longrightarrow>
   id_version peers > id_version ours \<or> id_version peers = id_version ours \<and> id_checksum peers \<noteq> id_checksum ours"
  by (auto simp: fw_upgrade_should_pull_def split: if_splits)

section \<open>Properties\<close>

text \<open>A board that runs version 100, and an image of another version.\<close>

definition demo_fw_board :: fw_board where
  "demo_fw_board =
     \<lparr>fb_fw = \<lparr>fw_address = 0, fw_checksum = 0, fw_version = 0, fw_byte_done = False, fw_upgrade_in_progress = False,
        fw_source = FW_UPGRADE_SOURCE_NONE, fw_image_dirty = False, fw_progressed_at_us = 0, fw_requested_at_us = 0\<rparr>,
      fb_running = \<lparr>id_version = 100, id_checksum = 0\<rparr>, fb_peer = \<lparr>pf_version = 0, pf_checksum = 0, pf_heard_at_us = 0\<rparr>,
      fb_board_role = 0, fb_page_buffer = replicate 512 0, fb_flash = (\<lambda>x. 0), fb_reboot_requested = False,
      fb_config_mode_active = False, fb_config_mode_timer = 0,
      fb_config_exit = \<lparr>ce_exit_requested = False, ce_host_ejected = False, ce_requested_at_us = 0\<rparr>, fb_in_rom = False, fb_effects = []\<rparr>"

definition demo_image :: flash where
  "demo_image = (\<lambda>x. 7)"

lemma demo_booted: "fw_booted demo_fw_board"
  by (simp add: fw_booted_def demo_fw_board_def)

lemma demo_should_pull:
  "fw_upgrade_should_pull (fb_fw demo_fw_board) (fb_running demo_fw_board) (firmware_metadata demo_image) (fb_board_role demo_fw_board = 1)"
proof -
  have m: "map demo_image [258048..<258058] = [7, 7, 7, 7, 7, 7, 7, 7, 7, 7]"
    by (simp add: demo_image_def)
  have "(of_le_bytes [7, 7] :: u16) = 0x0707" by code_simp
  then have "id_version (firmware_metadata demo_image) = 0x0707" unfolding firmware_metadata_def m by (simp add: Let_def)
  then show ?thesis by (simp add: fw_upgrade_should_pull_def demo_fw_board_def)
qed

text \<open>C19. An upgrade from the other board finishes. In whatever state an earlier history of passes, lost words, stalls and restarts left the
  board, when a heartbeat starts a pull and each of the 65536 words is asked for and answered, with any number of heartbeat ticks while an
  answer is awaited, each less than thirty seconds after the answer before, the next pass of the task leaves the
  flash equal to the other board's image, the checksums agreeing, the image unmarked and the reboot into it requested. The earlier history
  has no blocks written by the host, no save and no request for the bootloader.\<close>

theorem pull_completes:
  assumes "fw_booted b0" "fw_run img es (b0, None) = (b, link)" "\<forall>e \<in> set es. undisturbed e" "\<not> fb_in_rom b"
    "fw_upgrade_should_pull (fb_fw b) (fb_running b) (firmware_metadata img) (fb_board_role b = 1)"
    "ticks_in_time (ucast now) ticks answered 65536"
  shows "\<exists>b' link'. fw_run img ([Beat slot now] @ pull_rounds asked ticks answered 65536 @ [Pass t False True]) (b, link) = (b', link') \<and>
     \<not> fb_in_rom b' \<and> fb_reboot_requested b' \<and> image_whole img b' \<and> \<not> fw_image_dirty (fb_fw b')"
proof -
  have "pull_inv img (b, link)" using fw_run_inv[OF fw_booted_inv[OF assms(1)] assms(3)] assms(2) by metis
  then show ?thesis using pull_reaches_end assms(4-6) by blast
qed

text \<open>A word every twenty seconds, with a tick just before each answer.\<close>

theorem pull_completes_witness:
  "\<exists>b' link'. fw_run demo_image ([Beat 0 1] @ pull_rounds (\<lambda>i. of_nat (20000000 * i)) (\<lambda>i. [of_nat (20000000 * i + 19999999)])
       (\<lambda>i. of_nat (20000000 * Suc i)) 65536 @ [Pass 2 False True]) (demo_fw_board, None) = (b', link') \<and>
     fb_reboot_requested b' \<and> image_whole demo_image b'"
proof -
  have rom: "\<not> fb_in_rom demo_fw_board" by (simp add: demo_fw_board_def)
  have tk: "ticks_in_time (ucast (1 :: u64)) (\<lambda>i. [of_nat (20000000 * i + 19999999)]) (\<lambda>i. of_nat (20000000 * Suc i)) 65536"
    unfolding ticks_in_time_def
  proof (intro allI impI ballI)
    fix i :: nat and t :: u64
    assume i: "i < 65536" and "t \<in> set [of_nat (20000000 * i + 19999999)]"
    moreover have "ucast (of_nat n :: u64) = (of_nat n :: u32)" for n by (rule bit_word_eqI) (simp add: bit_simps)
    ultimately have t: "ucast t = (of_nat (20000000 * i + 19999999) :: u32)" by (simp only: list.set insert_iff empty_iff simp_thms)
    show "ucast t - (if i = 0 then ucast (1 :: u64) else of_nat (20000000 * Suc (i - 1))) < (30000000 :: u32)"
      unfolding t by (cases i) simp_all
  qed
  have run: "fw_run demo_image [] (demo_fw_board, None) = (demo_fw_board, None)" "\<forall>e \<in> set []. undisturbed e" by simp_all
  show ?thesis using pull_completes[OF demo_booted run rom demo_should_pull tk] by blast
qed

text \<open>C20. A mixed image is always marked, and the pull itself never reboots into one. After any history of passes of the pull, answers,
  lost words, heartbeats, silences, stalls and passes of the watchdog, a board that is not in ROM either holds its own image untouched, or holds
  the whole of the other board's, or is marked as being overwritten. A reboot is requested only into the whole image, unless the
  board is in config mode and leaves it, which reboots whatever the image is. The board is handed to ROM only with the other board
  gone, so no checksum of a pull ever fails. The history has no block written by the host, no save of the configuration or identity (both
  write the page buffer of the pull) and no reboot or bootloader the user asked for.\<close>

theorem pull_never_mixed:
  assumes "fw_booted b0" "\<forall>e \<in> set es. undisturbed e"
  shows "case fw_run img es (b0, None) of (b, link) \<Rightarrow>
     (fb_in_rom b \<longrightarrow> pf_version (fb_peer b) = PEER_FW_UNKNOWN) \<and>
     (\<not> fb_in_rom b \<longrightarrow> fw_image_dirty (fb_fw b) \<or> fb_flash b = fb_flash b0 \<or> image_whole img b) \<and>
     (\<not> fb_in_rom b \<and> fb_reboot_requested b \<longrightarrow> image_whole img b \<and> fb_running b = firmware_metadata img \<or>
        fb_config_mode_active b \<and> ce_exit_requested (fb_config_exit b))"
proof -
  obtain b link where r: "fw_run img es (b0, None) = (b, link)" by fastforce
  have "pull_inv img (b, link)" using fw_run_inv[OF fw_booted_inv[OF assms(1)] assms(2)] r by metis
  moreover have "image_safe (fb_flash b0) img b"
    using run_safe[OF fw_booted_inv[OF assms(1)] assms(2), of "fb_flash b0" img] r by (simp add: image_safe_def)
  ultimately show ?thesis by (auto simp: r pull_inv_def image_safe_def leaving_def split: if_splits)
qed

definition demo_history :: "fw_event list" where
  "demo_history = [Beat 0 1, Pass 1 False True, Answer 1 True, Lose, Watchdog None 1 2, Tick 40000000, Beat 0 40000001]"

theorem pull_never_mixed_witness:
  "case fw_run demo_image demo_history (demo_fw_board, None) of (b, link) \<Rightarrow>
     (fb_in_rom b \<longrightarrow> pf_version (fb_peer b) = PEER_FW_UNKNOWN) \<and>
     (\<not> fb_in_rom b \<longrightarrow> fw_image_dirty (fb_fw b) \<or> fb_flash b = fb_flash demo_fw_board \<or> image_whole demo_image b) \<and>
     (\<not> fb_in_rom b \<and> fb_reboot_requested b \<longrightarrow> image_whole demo_image b \<and> fb_running b = firmware_metadata demo_image \<or>
        fb_config_mode_active b \<and> ce_exit_requested (fb_config_exit b))"
  by (rule pull_never_mixed[OF demo_booted]) (simp add: demo_history_def undisturbed_def)

text \<open>The exception is real: a pull or a drop that stalls in config mode, with the other board still there, is given up with its mark, the
  expired timer asks for the exit in the same tick, and the watchdog reboots into the mixed image two seconds later.\<close>

lemma config_exit_reboots_mixed:
  assumes "\<not> fb_in_rom b" "fw_image_dirty (fb_fw b)" "fw_upgrade_stalled (fb_fw b) (ucast t)"
    "pf_version (peer_fw_expire (fb_peer b) t) \<noteq> PEER_FW_UNKNOWN" "fb_config_mode_active b" "t > fb_config_mode_timer b"
    "\<not> ce_exit_requested (fb_config_exit b)" "w - ucast t \<ge> CONFIG_EXIT_GRACE_US"
  shows "case fw_run img [Tick t, Watchdog None core1 w] (b, link) of (b', _) \<Rightarrow>
    fb_reboot_requested b' \<and> \<not> fb_in_rom b' \<and> fw_image_dirty (fb_fw b') \<and> fb_flash b' = fb_flash b"
  using assms
  by (simp add: heartbeat_parts stall_ended_def peer_expired_def abandon_firmware_upgrade_def fw_upgrade_must_recover_def heartbeat_rest_def
      kick_watchdog_task_def config_exit_reboot_now_def config_exit_request_def Let_def fw_emit_def)

text \<open>C39. No upgrade, by either transport and in any order of events, writes outside the image: whatever blocks the host writes, whatever
  the link does, every byte of flash past the 256 kilobytes of the image stays as it was, but for the last two sectors when the
  configuration or the identity is saved.\<close>

theorem upgrade_stays_in_image:
  assumes "fw_booted b" "STAGING_IMAGE_SIZE \<le> x" "(\<forall>e \<in> set es. \<not> is_save e) \<or> x < 2088960"
  shows "fb_flash (fst (fw_run img es (b, None))) x = fb_flash b x"
proof -
  have "in_image (fst (b, None :: u32 option))" using assms(1) by (simp add: in_image_def fw_booted_def fw_upgrade_may_pull_def)
  from run_stays[OF assms(2) this assms(3)] show ?thesis by simp
qed

theorem upgrade_stays_in_image_witness:
  "fb_flash (fst (fw_run demo_image [Block 0 (image_block demo_image 1023) 512 1, Block 1 (image_block demo_image 8096) 512 1]
     (demo_fw_board, None))) 2088960 = 0"
proof -
  have "fb_flash demo_fw_board 2088960 = 0" by (simp add: demo_fw_board_def)
  then show ?thesis
    using upgrade_stays_in_image[OF demo_booted, of 2088960
        "[Block 0 (image_block demo_image 1023) 512 1, Block 1 (image_block demo_image 8096) 512 1]" demo_image] by simp
qed

text \<open>C40. An image dropped by the host arrives: its 1024 blocks in order leave the flash equal to it, unmarked, and the exit from config
  mode requested; the checksum of a whole image never fails.\<close>

theorem drop_completes:
  assumes "\<not> fb_in_rom b"
  shows "\<exists>b'. fw_run img (image_blocks img clock 1024) (b, link) = (b', link) \<and> \<not> fb_in_rom b' \<and> image_whole img b' \<and>
     \<not> fw_image_dirty (fb_fw b') \<and> ce_exit_requested (fb_config_exit b')"
  using assms by (rule drop_reaches_end)

theorem drop_completes_witness:
  "\<exists>b'. fw_run demo_image (image_blocks demo_image (\<lambda>i. 5) 1024) (demo_fw_board, None) = (b', None) \<and> image_whole demo_image b'"
  using drop_completes[of demo_fw_board demo_image "\<lambda>i. 5" None] by (auto simp: demo_fw_board_def)

end
