(* ===== verification/DH_Hotkey.thy ===== *)
theory DH_Hotkey
  imports DH_Prelude "HOL-Library.Multiset"
begin

text \<open>
  Hotkeys, key maps and keyboard reports of the portable core (\<open>src/src/core/dh_hotkey.h\<close>, \<open>dh_hotkey.c\<close>, \<open>dh_hotkey_actions.h\<close>,
  \<open>dh_keymap.h\<close>, \<open>dh_keyboard_output.c\<close>, \<open>dh_keyboard_transport.c\<close>): the table sorted by specificity, the matching of a chord, the
  latch that keeps a chord from the computer, the key map of an output. A key array is the list of its slots, zero for a free one;
  \<open>key_set\<close> is the set of keys it holds.
\<close>

section \<open>Model: hotkey tables and matching\<close>

abbreviation (input) DH_HOTKEY_KEY_CAPACITY :: nat where "DH_HOTKEY_KEY_CAPACITY \<equiv> 6"
abbreviation (input) DH_HOTKEY_ACTION_COUNT :: byte where "DH_HOTKEY_ACTION_COUNT \<equiv> 13"

text \<open>The actions, numbered in the order of the catalogue; the pair chord's action is outside the table.\<close>

abbreviation (input) DH_HOTKEY_ACTION_OUTPUT_TOGGLE :: byte where "DH_HOTKEY_ACTION_OUTPUT_TOGGLE \<equiv> 0"
abbreviation (input) DH_HOTKEY_ACTION_MOUSE_ZOOM :: byte where "DH_HOTKEY_ACTION_MOUSE_ZOOM \<equiv> 1"
abbreviation (input) DH_HOTKEY_ACTION_SWITCHLOCK :: byte where "DH_HOTKEY_ACTION_SWITCHLOCK \<equiv> 2"
abbreviation (input) DH_HOTKEY_ACTION_SCREENLOCK :: byte where "DH_HOTKEY_ACTION_SCREENLOCK \<equiv> 3"
abbreviation (input) DH_HOTKEY_ACTION_GAMING_MODE :: byte where "DH_HOTKEY_ACTION_GAMING_MODE \<equiv> 4"
abbreviation (input) DH_HOTKEY_ACTION_SCREENSAVER_PONG :: byte where "DH_HOTKEY_ACTION_SCREENSAVER_PONG \<equiv> 5"
abbreviation (input) DH_HOTKEY_ACTION_SCREENSAVER_JITTER :: byte where "DH_HOTKEY_ACTION_SCREENSAVER_JITTER \<equiv> 6"
abbreviation (input) DH_HOTKEY_ACTION_SCREENSAVER_DISABLE :: byte where "DH_HOTKEY_ACTION_SCREENSAVER_DISABLE \<equiv> 7"
abbreviation (input) DH_HOTKEY_ACTION_WIPE_CONFIG :: byte where "DH_HOTKEY_ACTION_WIPE_CONFIG \<equiv> 8"
abbreviation (input) DH_HOTKEY_ACTION_SCREEN_SEAM :: byte where "DH_HOTKEY_ACTION_SCREEN_SEAM \<equiv> 9"
abbreviation (input) DH_HOTKEY_ACTION_CONFIG_ENABLE :: byte where "DH_HOTKEY_ACTION_CONFIG_ENABLE \<equiv> 10"
abbreviation (input) DH_HOTKEY_ACTION_FW_UPGRADE_A :: byte where "DH_HOTKEY_ACTION_FW_UPGRADE_A \<equiv> 11"
abbreviation (input) DH_HOTKEY_ACTION_FW_UPGRADE_B :: byte where "DH_HOTKEY_ACTION_FW_UPGRADE_B \<equiv> 12"
abbreviation (input) DH_HOTKEY_ACTION_PAIR :: byte where "DH_HOTKEY_ACTION_PAIR \<equiv> 0xfe"
abbreviation (input) DH_HOTKEY_ACTION_INVALID :: byte where "DH_HOTKEY_ACTION_INVALID \<equiv> 0xff"

definition action_names :: "string list" where
  "action_names = [''output_toggle'', ''mouse_zoom'', ''switch_lock'', ''screen_lock'', ''gaming_mode'', ''screensaver_pong'',
     ''screensaver_jitter'', ''screensaver_disable'', ''wipe_config'', ''screen_seam'', ''config_mode'', ''firmware_upgrade_a'',
     ''firmware_upgrade_b'']"

record dh_hotkey_t =
  hk_modifier :: byte
  hk_keys :: "byte list"
  hk_key_count :: byte
  hk_action_id :: byte

record dh_keyboard_hotkey_result_t =
  hr_matched :: bool
  hr_action_id :: byte
  hr_pass_to_os :: bool
  hr_acknowledge :: bool
  hr_releases_all_keys :: bool
  hr_chord :: dh_hotkey_t

record dh_hotkey_latch_t =
  hl_modifier :: byte
  hl_keys :: "byte list"

definition dh_hotkey_action_name :: "byte \<Rightarrow> string option" where
  "dh_hotkey_action_name action_id =
     (if action_id < DH_HOTKEY_ACTION_COUNT then Some (action_names ! unat action_id) else None)"

text \<open>The loop over a table: the guards of one binding, then its keys, then its bit of \<open>seen\<close>.\<close>

fun table_scan :: "u16 \<Rightarrow> dh_hotkey_t list \<Rightarrow> bool" where
  "table_scan seen [] = (seen = push_bit (unat DH_HOTKEY_ACTION_COUNT) 1 - 1)"
| "table_scan seen (binding # rest) =
     (if hk_action_id binding \<ge> DH_HOTKEY_ACTION_COUNT \<or> unat (hk_key_count binding) > DH_HOTKEY_KEY_CAPACITY \<or>
         (hk_modifier binding = 0 \<and> hk_key_count binding = 0) \<or> seen AND push_bit (unat (hk_action_id binding)) 1 \<noteq> 0 then False
      else if 0 \<in> set (take (unat (hk_key_count binding)) (hk_keys binding)) then False
      else table_scan (seen OR push_bit (unat (hk_action_id binding)) 1) rest)"

definition dh_hotkey_table_is_valid :: "dh_hotkey_t list \<Rightarrow> bool" where
  "dh_hotkey_table_is_valid hotkeys = (length hotkeys = unat DH_HOTKEY_ACTION_COUNT \<and> table_scan 0 hotkeys)"

definition dh_hotkey_action_passes_to_os :: "byte \<Rightarrow> bool" where
  "dh_hotkey_action_passes_to_os action_id = (action_id = DH_HOTKEY_ACTION_MOUSE_ZOOM)"

definition dh_hotkey_action_acknowledges :: "byte \<Rightarrow> bool" where
  "dh_hotkey_action_acknowledges action_id =
     (action_id = DH_HOTKEY_ACTION_PAIR \<or> action_id < DH_HOTKEY_ACTION_COUNT \<and> action_id \<noteq> DH_HOTKEY_ACTION_OUTPUT_TOGGLE)"

definition dh_hotkey_action_releases_all_keys :: "byte \<Rightarrow> bool" where
  "dh_hotkey_action_releases_all_keys action_id =
     (action_id = DH_HOTKEY_ACTION_CONFIG_ENABLE \<or> action_id = DH_HOTKEY_ACTION_FW_UPGRADE_A \<or>
      action_id = DH_HOTKEY_ACTION_FW_UPGRADE_B \<or> action_id = DH_HOTKEY_ACTION_WIPE_CONFIG)"

fun name_index :: "string \<Rightarrow> string list \<Rightarrow> byte \<Rightarrow> byte" where
  "name_index name [] i = DH_HOTKEY_ACTION_INVALID"
| "name_index name (n # ns) i = (if name = n then i else name_index name ns (i + 1))"

definition dh_hotkey_action_id :: "string \<Rightarrow> byte" where
  "dh_hotkey_action_id name = name_index name action_names 0"

text \<open>A usage is a modifier or a key; the keys fill the array from the front.\<close>

fun binding_usages :: "byte list \<Rightarrow> dh_hotkey_t \<Rightarrow> dh_hotkey_t option" where
  "binding_usages [] parsed = Some parsed"
| "binding_usages (u # us) parsed =
     (if u \<ge> 0xe0 \<and> u \<le> 0xe7 then
        binding_usages us (parsed\<lparr>hk_modifier := hk_modifier parsed OR push_bit (unat (u - 0xe0)) 1\<rparr>)
      else if unat (hk_key_count parsed) \<ge> DH_HOTKEY_KEY_CAPACITY \<or> u = 0 then None
      else binding_usages us (parsed\<lparr>hk_keys := (hk_keys parsed)[unat (hk_key_count parsed) := u],
                                    hk_key_count := hk_key_count parsed + 1\<rparr>))"

definition dh_hotkey_binding_from_usages :: "byte \<Rightarrow> byte list \<Rightarrow> dh_hotkey_t option" where
  "dh_hotkey_binding_from_usages action_id usages =
     (if action_id \<ge> DH_HOTKEY_ACTION_COUNT \<or> usages = [] \<or> length usages > DH_HOTKEY_KEY_CAPACITY then None
      else binding_usages usages \<lparr>hk_modifier = 0, hk_keys = replicate DH_HOTKEY_KEY_CAPACITY 0, hk_key_count = 0,
                                  hk_action_id = action_id\<rparr>)"

function modifier_count :: "byte \<Rightarrow> nat" where
  "modifier_count modifier =
     (if modifier = 0 then 0 else unat (modifier AND 1) + modifier_count (drop_bit 1 modifier))"
  by pat_completeness auto
termination
  by (relation "measure unat") (auto simp: drop_bit_eq_div unat_div unat_gt_0)

declare modifier_count.simps [simp del]

definition specificity :: "dh_hotkey_t \<Rightarrow> nat" where
  "specificity hotkey = modifier_count (hk_modifier hotkey) + unat (hk_key_count hotkey)"

fun configure_first :: "dh_hotkey_t list \<Rightarrow> byte \<Rightarrow> byte \<Rightarrow> dh_hotkey_t list option" where
  "configure_first [] action_id key = None"
| "configure_first (h # hs) action_id key =
     (if hk_action_id h = action_id \<and> hk_key_count h > 0 \<and> unat (hk_key_count h) \<le> DH_HOTKEY_KEY_CAPACITY
      then Some (h\<lparr>hk_keys := (hk_keys h)[0 := key]\<rparr> # hs)
      else map_option ((#) h) (configure_first hs action_id key))"

definition dh_hotkey_configure_key :: "dh_hotkey_t list \<Rightarrow> byte \<Rightarrow> byte \<Rightarrow> byte \<Rightarrow> dh_hotkey_t list option" where
  "dh_hotkey_configure_key hotkeys action_id configured_key fallback_key =
     (let key = if configured_key \<noteq> 0 then configured_key else fallback_key in
      if key = 0 then None else configure_first hotkeys action_id key)"

text \<open>The insertion of one candidate into the sorted front of the array, moving the less specific bindings up.\<close>

fun shift_up :: "dh_hotkey_t list \<Rightarrow> nat \<Rightarrow> dh_hotkey_t \<Rightarrow> dh_hotkey_t list" where
  "shift_up hotkeys 0 candidate = hotkeys[0 := candidate]"
| "shift_up hotkeys (Suc p) candidate =
     (if specificity (hotkeys ! p) < specificity candidate
      then shift_up (hotkeys[Suc p := hotkeys ! p]) p candidate
      else hotkeys[Suc p := candidate])"

definition dh_hotkey_prepare :: "dh_hotkey_t list \<Rightarrow> dh_hotkey_t list" where
  "dh_hotkey_prepare hotkeys = foldl (\<lambda>hs i. shift_up hs i (hs ! i)) hotkeys [1..<length hotkeys]"

definition contains_key :: "byte list \<Rightarrow> byte \<Rightarrow> bool" where
  "contains_key keys wanted = (wanted \<noteq> 0 \<and> wanted \<in> set keys)"

fun keys_found :: "byte list \<Rightarrow> byte list \<Rightarrow> nat \<Rightarrow> nat \<Rightarrow> bool" where
  "keys_found keys wanted key_index 0 = True"
| "keys_found keys wanted key_index (Suc left_over) =
     (contains_key keys (wanted ! key_index) \<and> keys_found keys wanted (Suc key_index) left_over)"

definition hotkey_matches :: "byte \<Rightarrow> byte list \<Rightarrow> dh_hotkey_t \<Rightarrow> bool" where
  "hotkey_matches modifier keys hotkey =
     (\<not> (unat (hk_key_count hotkey) > DH_HOTKEY_KEY_CAPACITY \<or> hk_modifier hotkey \<noteq> modifier AND hk_modifier hotkey) \<and>
      keys_found keys (hk_keys hotkey) 0 (unat (hk_key_count hotkey)))"

definition dh_hotkey_match :: "dh_hotkey_t list \<Rightarrow> byte \<Rightarrow> byte list \<Rightarrow> dh_hotkey_t option" where
  "dh_hotkey_match hotkeys modifier keys = find (hotkey_matches modifier keys) hotkeys"

definition fixed_chords :: "dh_hotkey_t list" where
  "fixed_chords =
     [\<lparr>hk_modifier = 0x21, hk_keys = [0x06, 0x12, 0, 0, 0, 0], hk_key_count = 2, hk_action_id = DH_HOTKEY_ACTION_CONFIG_ENABLE\<rparr>,
      \<lparr>hk_modifier = 0x21, hk_keys = [0x13, 0, 0, 0, 0, 0], hk_key_count = 1, hk_action_id = DH_HOTKEY_ACTION_PAIR\<rparr>]"

definition dh_hotkey_match_with_fixed :: "dh_hotkey_t list \<Rightarrow> byte \<Rightarrow> byte list \<Rightarrow> dh_hotkey_t option" where
  "dh_hotkey_match_with_fixed hotkeys modifier keys =
     (case dh_hotkey_match fixed_chords modifier keys of
        Some m \<Rightarrow> Some m
      | None \<Rightarrow> dh_hotkey_match hotkeys modifier keys)"

definition no_hotkey :: dh_keyboard_hotkey_result_t where
  "no_hotkey = \<lparr>hr_matched = False, hr_action_id = 0, hr_pass_to_os = False, hr_acknowledge = False, hr_releases_all_keys = False,
     hr_chord = \<lparr>hk_modifier = 0, hk_keys = replicate DH_HOTKEY_KEY_CAPACITY 0, hk_key_count = 0, hk_action_id = 0\<rparr>\<rparr>"

definition dh_keyboard_hotkey_resolve :: "dh_hotkey_t list \<Rightarrow> byte \<Rightarrow> byte list \<Rightarrow> dh_keyboard_hotkey_result_t" where
  "dh_keyboard_hotkey_resolve hotkeys modifier keys =
     (case dh_hotkey_match_with_fixed hotkeys modifier keys of
        None \<Rightarrow> no_hotkey
      | Some m \<Rightarrow>
          if hk_action_id m \<ge> DH_HOTKEY_ACTION_COUNT \<and> hk_action_id m \<noteq> DH_HOTKEY_ACTION_PAIR then no_hotkey
          else \<lparr>hr_matched = True, hr_action_id = hk_action_id m,
                hr_pass_to_os = dh_hotkey_action_passes_to_os (hk_action_id m),
                hr_acknowledge = dh_hotkey_action_acknowledges (hk_action_id m),
                hr_releases_all_keys = dh_hotkey_action_releases_all_keys (hk_action_id m),
                hr_chord = m\<rparr>)"

text \<open>\<open>memchr\<close> for the first free slot of a key array, filled when there is one.\<close>

fun fill_slot :: "byte \<Rightarrow> byte list \<Rightarrow> byte list" where
  "fill_slot key [] = []"
| "fill_slot key (k # ks) = (if k = 0 then key # ks else k # fill_slot key ks)"

definition latch_key :: "byte list \<Rightarrow> byte \<Rightarrow> byte list" where
  "latch_key keys key = (if contains_key keys key then keys else fill_slot key keys)"

definition dh_hotkey_latch_hold :: "dh_hotkey_latch_t \<Rightarrow> dh_hotkey_t \<Rightarrow> dh_hotkey_latch_t" where
  "dh_hotkey_latch_hold latch chord =
     \<lparr>hl_modifier = hl_modifier latch OR hk_modifier chord,
      hl_keys = foldl latch_key (hl_keys latch)
                  (take (min (unat (hk_key_count chord)) DH_HOTKEY_KEY_CAPACITY) (hk_keys chord))\<rparr>"

definition dh_hotkey_latch_release :: "dh_hotkey_latch_t \<Rightarrow> byte \<Rightarrow> byte list \<Rightarrow> dh_hotkey_latch_t" where
  "dh_hotkey_latch_release latch modifier keys =
     \<lparr>hl_modifier = hl_modifier latch AND modifier,
      hl_keys = map (\<lambda>k. if contains_key keys k then k else 0) (hl_keys latch)\<rparr>"

text \<open>The kept keys move to the front of the array in place, the rest becomes zero.\<close>

definition pack_keys :: "byte list \<Rightarrow> byte list" where
  "pack_keys kept = kept @ replicate (DH_HOTKEY_KEY_CAPACITY - length kept) 0"

definition dh_hotkey_latch_mask :: "dh_hotkey_latch_t \<Rightarrow> byte \<Rightarrow> byte list \<Rightarrow> byte \<times> byte list" where
  "dh_hotkey_latch_mask latch modifier keys =
     (modifier AND NOT (hl_modifier latch),
      pack_keys (filter (\<lambda>k. k \<noteq> 0 \<and> \<not> contains_key (hl_keys latch) k) keys))"

section \<open>Model: key maps and keyboard reports\<close>

abbreviation (input) DH_CONFIG_TEXT_OVERRIDE_CAPACITY :: nat where "DH_CONFIG_TEXT_OVERRIDE_CAPACITY \<equiv> 32"
abbreviation (input) DH_CONFIG_TEXT_PASSTHROUGH_CAPACITY :: nat where "DH_CONFIG_TEXT_PASSTHROUGH_CAPACITY \<equiv> 16"
abbreviation (input) DH_KEYBOARD_PHYSICAL_PACKET :: byte where "DH_KEYBOARD_PHYSICAL_PACKET \<equiv> 1"
abbreviation (input) DH_KEYBOARD_SYNTHESIZED_PACKET :: byte where "DH_KEYBOARD_SYNTHESIZED_PACKET \<equiv> 28"

record dh_key_override_t =
  ov_from :: byte
  ov_to :: byte

record dh_keymap_profile_t =
  kp_overrides :: "dh_key_override_t list"
  kp_override_count :: byte
  kp_passthrough :: "byte list"
  kp_passthrough_count :: byte

text \<open>A keyboard report: byte 0 is the modifier mask, byte 1 is reserved, bytes 2 to 7 are the keys.\<close>

record hid_keyboard_report_t =
  kr_modifier :: byte
  kr_reserved :: byte
  kr_keycode :: "byte list"

definition empty_report :: hid_keyboard_report_t where
  "empty_report = \<lparr>kr_modifier = 0, kr_reserved = 0, kr_keycode = replicate 6 0\<rparr>"

definition kbd_report_bytes :: "hid_keyboard_report_t \<Rightarrow> byte list" where
  "kbd_report_bytes r = kr_modifier r # kr_reserved r # kr_keycode r"

definition report_of_bytes :: "byte list \<Rightarrow> hid_keyboard_report_t" where
  "report_of_bytes bs = \<lparr>kr_modifier = bs ! 0, kr_reserved = bs ! 1, kr_keycode = take 6 (drop 2 bs)\<rparr>"

datatype dh_keyboard_provenance = DH_KEYBOARD_PHYSICAL | DH_KEYBOARD_SYNTHESIZED

definition capped :: "byte \<Rightarrow> nat \<Rightarrow> nat" where
  "capped number capacity = (if unat number \<le> capacity then unat number else capacity)"

definition swap_usage :: "byte \<Rightarrow> byte" where
  "swap_usage usage =
     (if usage = 0xe0 then 0xe3 else if usage = 0xe3 then 0xe0 else if usage = 0xe4 then 0xe7 else if usage = 0xe7 then 0xe4
      else usage)"

definition map_usage :: "byte \<Rightarrow> dh_keymap_profile_t option \<Rightarrow> bool \<Rightarrow> byte" where
  "map_usage usage profile swap_ctrl_gui =
     (case profile of
        Some p \<Rightarrow>
          if usage \<in> set (take (capped (kp_passthrough_count p) DH_CONFIG_TEXT_PASSTHROUGH_CAPACITY) (kp_passthrough p)) then usage
          else (case find (\<lambda>o'. ov_from o' = usage)
                       (take (capped (kp_override_count p) DH_CONFIG_TEXT_OVERRIDE_CAPACITY) (kp_overrides p)) of
                  Some o' \<Rightarrow> ov_to o'
                | None \<Rightarrow> if swap_ctrl_gui then swap_usage usage else usage)
      | None \<Rightarrow> if swap_ctrl_gui then swap_usage usage else usage)"

definition add_usage :: "hid_keyboard_report_t \<Rightarrow> byte \<Rightarrow> hid_keyboard_report_t" where
  "add_usage emitted usage =
     (if usage \<ge> 0xe0 \<and> usage \<le> 0xe7 then emitted\<lparr>kr_modifier := kr_modifier emitted OR push_bit (unat (usage - 0xe0)) 1\<rparr>
      else if usage = 0 then emitted
      else if usage > 0x03 \<and> usage \<in> set (kr_keycode emitted) then emitted
      else emitted\<lparr>kr_keycode := fill_slot usage (kr_keycode emitted)\<rparr>)"

text \<open>The modifiers a mask holds, as usages, in the order of the loop over its bits.\<close>

definition modifier_usages :: "byte \<Rightarrow> byte list" where
  "modifier_usages m = map (\<lambda>i. 0xe0 + of_nat i) (filter (\<lambda>i. m AND push_bit i 1 \<noteq> 0) [0..<8])"

definition dh_keyboard_output_prepare ::
  "hid_keyboard_report_t \<Rightarrow> dh_keyboard_provenance \<Rightarrow> dh_keymap_profile_t option \<Rightarrow> bool \<Rightarrow> hid_keyboard_report_t" where
  "dh_keyboard_output_prepare canonical provenance profile swap_ctrl_gui =
     (if provenance \<noteq> DH_KEYBOARD_PHYSICAL then canonical
      else foldl (\<lambda>emitted u. add_usage emitted (map_usage u profile swap_ctrl_gui))
             (empty_report\<lparr>kr_reserved := kr_reserved canonical\<rparr>)
             (modifier_usages (kr_modifier canonical) @ kr_keycode canonical))"

text \<open>Adding a key that is not there yet, as the merge and \<open>add_keys\<close> do.\<close>

definition add_key :: "byte list \<Rightarrow> byte \<Rightarrow> byte list" where
  "add_key keys key = (if key = 0 \<or> key \<in> set keys then keys else fill_slot key keys)"

definition dh_keyboard_output_merge ::
  "hid_keyboard_report_t \<Rightarrow> hid_keyboard_report_t \<Rightarrow> dh_keymap_profile_t option \<Rightarrow> bool \<Rightarrow> hid_keyboard_report_t" where
  "dh_keyboard_output_merge physical synthesized profile swap_ctrl_gui =
     (let emitted = dh_keyboard_output_prepare physical DH_KEYBOARD_PHYSICAL profile swap_ctrl_gui in
      emitted\<lparr>kr_modifier := kr_modifier emitted OR kr_modifier synthesized,
              kr_keycode := foldl add_key (kr_keycode emitted) (kr_keycode synthesized)\<rparr>)"

definition dh_keyboard_transport_encode :: "dh_keyboard_provenance \<Rightarrow> byte list \<Rightarrow> byte \<times> byte list" where
  "dh_keyboard_transport_encode provenance report =
     (if provenance = DH_KEYBOARD_SYNTHESIZED then DH_KEYBOARD_SYNTHESIZED_PACKET else DH_KEYBOARD_PHYSICAL_PACKET, report)"

definition dh_keyboard_transport_decode :: "byte \<Rightarrow> byte list \<Rightarrow> (dh_keyboard_provenance \<times> byte list) option" where
  "dh_keyboard_transport_decode packet_type payload =
     (if packet_type = DH_KEYBOARD_PHYSICAL_PACKET then Some (DH_KEYBOARD_PHYSICAL, payload)
      else if packet_type = DH_KEYBOARD_SYNTHESIZED_PACKET then Some (DH_KEYBOARD_SYNTHESIZED, payload)
      else None)"

section \<open>The table is sorted by specificity, stably\<close>

abbreviation (input) less_specific_first :: "dh_hotkey_t \<Rightarrow> int" where
  "less_specific_first h \<equiv> - int (specificity h)"

text \<open>What the shifting loop computes on a list: the candidate after the last binding at least as specific.\<close>

function insert_back :: "dh_hotkey_t list \<Rightarrow> dh_hotkey_t \<Rightarrow> dh_hotkey_t list" where
  "insert_back [] c = [c]"
| "insert_back (hs @ [h]) c = (if specificity h < specificity c then insert_back hs c @ [h] else hs @ [h, c])"
  by (metis prod.exhaust rev_exhaust) auto
termination by (relation "measure (length \<circ> fst)") auto

lemma shift_up_insert_back: "shift_up (hs @ d # rest) (length hs) c = insert_back hs c @ rest"
  by (induction hs arbitrary: d rest rule: rev_induct) (simp_all add: nth_append list_update_append)

lemma insert_back_shape: "\<exists>as bs. hs = as @ bs \<and> insert_back hs c = as @ c # bs \<and> (\<forall>b \<in> set bs. specificity b < specificity c) \<and>
    (as \<noteq> [] \<longrightarrow> \<not> specificity (last as) < specificity c)"
proof (induction hs rule: rev_induct)
  case (snoc h hs)
  show ?case
  proof (cases "specificity h < specificity c")
    case True
    obtain as bs where w: "hs = as @ bs" "insert_back hs c = as @ c # bs" "\<forall>b \<in> set bs. specificity b < specificity c"
      "as \<noteq> [] \<longrightarrow> \<not> specificity (last as) < specificity c" using snoc.IH by blast
    have "insert_back (hs @ [h]) c = as @ c # (bs @ [h])" using True w(2) by (simp only: insert_back.simps if_True append.simps append_assoc)
    moreover have "hs @ [h] = as @ (bs @ [h])" using w(1) by simp
    moreover have "\<forall>b \<in> set (bs @ [h]). specificity b < specificity c" using w(3) True by simp
    ultimately show ?thesis using w(4) by blast
  next
    case False
    then have "hs @ [h] = (hs @ [h]) @ [] \<and> insert_back (hs @ [h]) c = (hs @ [h]) @ c # []" by simp
    with False show ?thesis by (metis empty_iff empty_set last_snoc)
  qed
qed simp

lemma insert_back_facts:
  shows mset_insert_back: "mset (insert_back hs c) = mset (hs @ [c])"
    and length_insert_back: "length (insert_back hs c) = Suc (length hs)"
    and filter_insert_back: "filter (\<lambda>h. k = less_specific_first h) (insert_back hs c) =
          filter (\<lambda>h. k = less_specific_first h) (hs @ [c])"
    and sorted_insert_back: "sorted (map less_specific_first hs) \<Longrightarrow> sorted (map less_specific_first (insert_back hs c))"
proof -
  obtain as bs where s: "hs = as @ bs" "insert_back hs c = as @ c # bs" "\<forall>b \<in> set bs. specificity b < specificity c"
    "as \<noteq> [] \<longrightarrow> \<not> specificity (last as) < specificity c" using insert_back_shape by blast
  show "mset (insert_back hs c) = mset (hs @ [c])" "length (insert_back hs c) = Suc (length hs)" using s by simp_all
  show "filter (\<lambda>h. k = less_specific_first h) (insert_back hs c) = filter (\<lambda>h. k = less_specific_first h) (hs @ [c])"
  proof (cases "k = less_specific_first c")
    case True
    then have "filter (\<lambda>h. k = less_specific_first h) bs = []" using s(3) by (auto simp: filter_empty_conv)
    with s True show ?thesis by simp
  qed (use s in simp)
  assume so: "sorted (map less_specific_first hs)"
  have "specificity c \<le> specificity a" if "a \<in> set as" for a
  proof -
    have "as \<noteq> []" using that by auto
    moreover have "specificity (last as) \<le> specificity a"
      using so that s(1) \<open>as \<noteq> []\<close> by (cases as rule: rev_cases) (auto simp: sorted_append)
    ultimately show ?thesis using s(4) by simp
  qed
  with so s show "sorted (map less_specific_first (insert_back hs c))" by (auto simp: sorted_append order.strict_implies_order)
qed

lemma prepare_steps:
  assumes "n \<le> length hotkeys" "0 < n"
  shows "foldl (\<lambda>hs i. shift_up hs i (hs ! i)) hotkeys [1..<n] = foldl insert_back [] (take n hotkeys) @ drop n hotkeys"
  using assms(2,1)
proof (induction n rule: nat_induct_non_zero)
  case 1
  then show ?case by (cases hotkeys) auto
next
  case (Suc n)
  have len: "length (foldl insert_back [] xs) = length xs" for xs
    by (induction xs rule: rev_induct) (simp_all add: length_insert_back)
  obtain d rest where dr: "drop n hotkeys = d # rest" using Suc.prems by (metis Cons_nth_drop_Suc Suc_le_lessD)
  let ?h = "foldl insert_back [] (take n hotkeys)"
  have n: "length ?h = n" using len Suc.prems by simp
  have tk: "take (Suc n) hotkeys = take n hotkeys @ [d]"
    using dr Suc.prems by (metis Suc_le_lessD hd_drop_conv_nth list.sel(1) take_Suc_conv_app_nth)
  have dp: "drop (Suc n) hotkeys = rest" using dr by (metis drop_Suc list.sel(3) tl_drop)
  have "foldl (\<lambda>hs i. shift_up hs i (hs ! i)) hotkeys [1..<Suc n] = shift_up (?h @ d # rest) (length ?h) d"
    using Suc.IH Suc.prems Suc.hyps dr n by (simp add: nth_append)
  also have "\<dots> = insert_back ?h d @ rest" by (rule shift_up_insert_back)
  finally show ?case using tk dp by simp
qed

theorem prepare_sort: "dh_hotkey_prepare hotkeys = sort_key less_specific_first hotkeys"
proof (cases "hotkeys = []")
  case False
  define r where "r = foldl insert_back [] hotkeys"
  have "dh_hotkey_prepare hotkeys = r" using prepare_steps[of "length hotkeys" hotkeys] False
    by (simp add: dh_hotkey_prepare_def r_def)
  moreover have "mset (foldl insert_back [] xs) = mset xs \<and> sorted (map less_specific_first (foldl insert_back [] xs)) \<and>
      (\<forall>k. filter (\<lambda>h. k = less_specific_first h) (foldl insert_back [] xs) = filter (\<lambda>h. k = less_specific_first h) xs)" for xs
    by (induction xs rule: rev_induct) (simp_all add: mset_insert_back sorted_insert_back filter_insert_back del: filter.simps)
  then have "sort_key less_specific_first hotkeys = r" unfolding r_def by (intro properties_for_sort_key) blast+
  ultimately show ?thesis by simp
qed (simp add: dh_hotkey_prepare_def)

section \<open>Which binding a report selects\<close>

lemma find_and_filter: "find (\<lambda>x. P x \<and> Q x) xs = find P (filter Q xs)"
  by (induction xs) auto

lemma find_sorted:
  assumes "sorted (map (\<lambda>x. - int (f x)) ys)" "set ys = set xs" "find P ys \<noteq> None"
    and fil: "\<And>k. filter (\<lambda>x. - int (f x) = k) ys = filter (\<lambda>x. - int (f x) = k) xs"
  shows "find P ys = find (\<lambda>x. P x \<and> (\<forall>y \<in> set xs. P y \<longrightarrow> f y \<le> f x)) xs"
proof -
  obtain h where h: "find P ys = Some h" using assms(3) by auto
  then obtain i where i: "i < length ys" "P (ys ! i)" "h = ys ! i" "\<forall>j < i. \<not> P (ys ! j)"
    by (auto simp: find_Some_iff)
  have top: "f y \<le> f h" if "y \<in> set xs" "P y" for y
  proof -
    have "y \<in> set ys" using that(1) assms(2) by simp
    then obtain j where j: "j < length ys" "ys ! j = y" by (metis in_set_conv_nth)
    with i that have "i \<le> j" using linorder_le_less_linear by blast
    then show ?thesis using assms(1) i j by (auto simp: sorted_iff_nth_mono)
  qed
  have eq: "(P x \<and> (\<forall>y \<in> set xs. P y \<longrightarrow> f y \<le> f x)) = (P x \<and> - int (f x) = - int (f h))" if "x \<in> set xs" for x
  proof -
    have "h \<in> set xs" using i(1,3) assms(2) nth_mem by blast
    moreover have "P h" using i(2,3) by simp
    ultimately show ?thesis using top that by (auto intro: order.antisym)
  qed
  have "find (\<lambda>x. P x \<and> (\<forall>y \<in> set xs. P y \<longrightarrow> f y \<le> f x)) xs = find (\<lambda>x. P x \<and> - int (f x) = - int (f h)) xs"
    by (rule find_cong) (simp_all add: eq)
  also have "\<dots> = find (\<lambda>x. P x \<and> - int (f x) = - int (f h)) ys" by (simp only: find_and_filter fil)
  also have "\<dots> = Some h" using i by (auto simp: find_Some_iff)
  finally show ?thesis using h by simp
qed

lemma match_prepared:
  "dh_hotkey_match (dh_hotkey_prepare hotkeys) modifier keys =
   find (\<lambda>h. hotkey_matches modifier keys h \<and>
             (\<forall>h' \<in> set hotkeys. hotkey_matches modifier keys h' \<longrightarrow> specificity h' \<le> specificity h)) hotkeys"
proof (cases "find (hotkey_matches modifier keys) (dh_hotkey_prepare hotkeys) = None")
  case True
  then have "\<forall>h \<in> set hotkeys. \<not> hotkey_matches modifier keys h" by (auto simp: find_None_iff prepare_sort)
  then have "find (\<lambda>h. hotkey_matches modifier keys h \<and>
             (\<forall>h' \<in> set hotkeys. hotkey_matches modifier keys h' \<longrightarrow> specificity h' \<le> specificity h)) hotkeys = None"
    by (auto simp: find_None_iff)
  with True show ?thesis by (simp add: dh_hotkey_match_def)
next
  case False
  then show ?thesis unfolding dh_hotkey_match_def
    by (intro find_sorted) (simp_all add: prepare_sort sort_key_stable)
qed

section \<open>Key arrays as sets of keys\<close>

text \<open>The keys an array holds, and the arrays the reports and the latch keep: six slots, no key twice.\<close>

definition key_set :: "byte list \<Rightarrow> byte set" where
  "key_set ks = set ks - {0}"

definition keys_ok :: "byte list \<Rightarrow> bool" where
  "keys_ok ks = (length ks = 6 \<and> distinct (filter (\<lambda>k. k \<noteq> 0) ks))"

lemma key_set_simps [simp]:
  "key_set [] = {}" "key_set (k # ks) = (if k = 0 then key_set ks else insert k (key_set ks))"
  "key_set (ks @ ks') = key_set ks \<union> key_set ks'" "key_set (replicate n 0) = {}" "finite (key_set ks)" "0 \<notin> key_set ks"
  by (auto simp: key_set_def)

lemma length_fill_slot [simp]: "length (fill_slot key ks) = length ks"
  by (induction ks) auto

lemma fill_slot_0 [simp]: "fill_slot 0 ks = ks"
  by (induction ks) auto

lemma fill_slot_full: "0 \<notin> set ks \<Longrightarrow> fill_slot key ks = ks"
  by (induction ks) auto

lemma key_set_fill_slot: "key \<noteq> 0 \<Longrightarrow> key_set (fill_slot key ks) = (if 0 \<in> set ks then insert key (key_set ks) else key_set ks)"
  by (induction ks) (auto simp: insert_commute)

lemma distinct_fill_slot:
  "distinct (filter (\<lambda>k. k \<noteq> 0) ks) \<Longrightarrow> key \<noteq> 0 \<Longrightarrow> key \<notin> set ks \<Longrightarrow> distinct (filter (\<lambda>k. k \<noteq> 0) (fill_slot key ks))"
proof (induction ks)
  case (Cons k ks)
  have k: "k \<notin> set (fill_slot key ks)" if "k \<noteq> 0" "k \<notin> set ks" "k \<noteq> key"
  proof -
    have "k \<notin> key_set (fill_slot key ks)" using that Cons.prems(2) by (simp add: key_set_fill_slot) (simp add: key_set_def)
    with that(1) show ?thesis by (simp add: key_set_def)
  qed
  show ?case
  proof (cases "k = 0")
    case False
    with Cons k show ?thesis by auto
  qed (use Cons.prems in simp)
qed simp

lemma keys_ok_full: "keys_ok ks \<Longrightarrow> 0 \<notin> set ks \<Longrightarrow> card (key_set ks) = 6"
proof -
  assume a: "keys_ok ks" "0 \<notin> set ks"
  then have "filter (\<lambda>k. k \<noteq> 0) ks = ks" by (intro filter_True) auto
  with a show ?thesis using distinct_card[of ks] by (simp add: keys_ok_def key_set_def)
qed

lemma latch_key_add_key: "latch_key = add_key"
  by (auto simp: latch_key_def add_key_def contains_key_def fun_eq_iff)

lemma keys_ok_add_key: "keys_ok ks \<Longrightarrow> keys_ok (add_key ks key)"
  by (auto simp: keys_ok_def add_key_def distinct_fill_slot)

lemma key_set_add_key_le: "key_set ks \<subseteq> key_set (add_key ks key)" "key_set (add_key ks key) \<subseteq> key_set ks \<union> key_set [key]"
  by (auto simp: add_key_def key_set_fill_slot)

lemma key_set_add_key:
  assumes "keys_ok ks" "card (key_set ks \<union> key_set [key]) \<le> 6"
  shows "key_set (add_key ks key) = key_set ks \<union> key_set [key]"
proof (cases "key = 0 \<or> key \<in> set ks")
  case False
  have "0 \<in> set ks"
  proof (rule ccontr)
    assume "0 \<notin> set ks"
    then have "card (key_set ks) = 6" using keys_ok_full assms(1) by blast
    moreover have "key \<notin> key_set ks" using False by (simp add: key_set_def)
    ultimately show False using assms(2) False by simp
  qed
  with False show ?thesis by (simp add: add_key_def key_set_fill_slot)
qed (auto simp: add_key_def key_set_def)

text \<open>Adding the keys of another array.\<close>

lemma add_keys_le:
  "key_set ks \<subseteq> key_set (foldl add_key ks src)" "key_set (foldl add_key ks src) \<subseteq> key_set ks \<union> key_set src"
proof (induction src arbitrary: ks)
  case (Cons s src)
  { case 1 then show ?case using order_trans[OF key_set_add_key_le(1) Cons.IH(1)] by simp
  next case 2 then show ?case using Cons.IH(2)[of "add_key ks s"] key_set_add_key_le(2)[of ks s] by (auto split: if_splits) }
qed simp_all

lemma keys_ok_add_keys: "keys_ok ks \<Longrightarrow> keys_ok (foldl add_key ks src)"
  by (induction src arbitrary: ks) (simp_all add: keys_ok_add_key)

lemma add_keys_exact:
  assumes "keys_ok ks" "card (key_set ks \<union> key_set src) \<le> 6"
  shows "key_set (foldl add_key ks src) = key_set ks \<union> key_set src"
  using assms
proof (induction src arbitrary: ks)
  case (Cons s src)
  have c: "card (key_set ks \<union> key_set [s]) \<le> card (key_set ks \<union> key_set (s # src))" by (intro card_mono) auto
  then have one: "key_set (add_key ks s) = key_set ks \<union> key_set [s]" using key_set_add_key Cons.prems by simp
  have "key_set (foldl add_key (add_key ks s) src) = key_set (add_key ks s) \<union> key_set src"
    using Cons.prems by (intro Cons.IH) (auto simp: keys_ok_add_key one split: if_splits)
  then show ?case using one by (auto split: if_splits)
qed simp

section \<open>The latch\<close>

lemma keys_ok_pack:
  assumes "keys_ok ks"
  shows "keys_ok (pack_keys (filter P (filter (\<lambda>k. k \<noteq> 0) ks)))"
proof -
  have "length (filter P (filter (\<lambda>k. k \<noteq> 0) ks)) \<le> 6" using assms length_filter_le order_trans by (metis keys_ok_def)
  moreover have "filter (\<lambda>k. k \<noteq> 0) (pack_keys (filter P (filter (\<lambda>k. k \<noteq> 0) ks))) = filter P (filter (\<lambda>k. k \<noteq> 0) ks)"
    by (simp add: pack_keys_def cong: conj_cong)
  moreover have "distinct (filter P (filter (\<lambda>k. k \<noteq> 0) ks))" using assms distinct_filter unfolding keys_ok_def by blast
  ultimately show ?thesis by (simp only: keys_ok_def) (simp add: pack_keys_def)
qed

lemma key_set_pack [simp]: "key_set (pack_keys ks) = key_set ks"
  by (simp add: pack_keys_def)

lemma mask_eq:
  "dh_hotkey_latch_mask latch modifier keys =
     (modifier AND NOT (hl_modifier latch), pack_keys (filter (\<lambda>k. k \<notin> key_set (hl_keys latch)) (filter (\<lambda>k. k \<noteq> 0) keys)))"
  by (simp add: dh_hotkey_latch_mask_def contains_key_def key_set_def conj_commute cong: filter_cong)

lemma mask_keys: "key_set (snd (dh_hotkey_latch_mask latch modifier keys)) = key_set keys - key_set (hl_keys latch)"
  unfolding mask_eq snd_conv key_set_pack by (auto simp: key_set_def)

lemma mask_keys_ok: "keys_ok keys \<Longrightarrow> keys_ok (snd (dh_hotkey_latch_mask latch modifier keys))"
  unfolding mask_eq snd_conv by (rule keys_ok_pack)

lemma release_keys: "key_set (hl_keys (dh_hotkey_latch_release latch modifier keys)) = key_set (hl_keys latch) \<inter> key_set keys"
  by (auto simp: dh_hotkey_latch_release_def key_set_def contains_key_def)

lemma distinct_release:
  "distinct (filter (\<lambda>k. k \<noteq> 0) ks) \<Longrightarrow> distinct (filter (\<lambda>k. k \<noteq> 0) (map (\<lambda>k. if contains_key keys k then k else 0) ks))"
proof (induction ks)
  case (Cons k ks)
  have "k \<notin> set ks \<Longrightarrow> k \<noteq> 0 \<Longrightarrow> k \<notin> (\<lambda>k. if contains_key keys k then k else 0) ` set ks" by (auto split: if_splits)
  with Cons show ?case by (cases "k = 0") (auto simp: contains_key_def)
qed simp

lemma release_keys_ok: "keys_ok (hl_keys latch) \<Longrightarrow> keys_ok (hl_keys (dh_hotkey_latch_release latch modifier keys))"
  by (simp add: keys_ok_def dh_hotkey_latch_release_def distinct_release)

text \<open>The keys of a chord.\<close>

definition chord_keys :: "dh_hotkey_t \<Rightarrow> byte list" where
  "chord_keys chord = take (min (unat (hk_key_count chord)) 6) (hk_keys chord)"

lemma hold_keys_ok: "keys_ok (hl_keys latch) \<Longrightarrow> keys_ok (hl_keys (dh_hotkey_latch_hold latch chord))"
  by (simp add: dh_hotkey_latch_hold_def latch_key_add_key keys_ok_add_keys)

lemma hold_keys:
  assumes "keys_ok (hl_keys latch)" "card (key_set (hl_keys latch) \<union> key_set (chord_keys chord)) \<le> 6"
  shows "key_set (hl_keys (dh_hotkey_latch_hold latch chord)) = key_set (hl_keys latch) \<union> key_set (chord_keys chord)"
  using add_keys_exact[OF assms] by (simp add: dh_hotkey_latch_hold_def latch_key_add_key chord_keys_def)

lemma keys_found_iff:
  "i + n \<le> length wanted \<Longrightarrow> keys_found keys wanted i n = (\<forall>k \<in> set (take n (drop i wanted)). k \<noteq> 0 \<and> k \<in> set keys)"
proof (induction n arbitrary: i)
  case (Suc n)
  then have "drop i wanted = wanted ! i # drop (Suc i) wanted" by (simp add: Cons_nth_drop_Suc)
  with Suc show ?case by (simp add: contains_key_def)
qed simp

text \<open>A chord matches a report exactly when the report holds all its modifiers and keys.\<close>

lemma hotkey_matches_iff:
  assumes "length (hk_keys h) = 6"
  shows "hotkey_matches modifier keys h =
    (unat (hk_key_count h) \<le> 6 \<and> hk_modifier h = modifier AND hk_modifier h \<and> set (chord_keys h) \<subseteq> key_set keys)"
proof (cases "unat (hk_key_count h) \<le> 6")
  case True
  then show ?thesis using assms keys_found_iff[of 0 "unat (hk_key_count h)" "hk_keys h" keys]
    by (auto simp: hotkey_matches_def chord_keys_def key_set_def)
qed (simp add: hotkey_matches_def)

section \<open>What a report presses, and what the output side makes of it\<close>

definition is_modifier :: "byte \<Rightarrow> bool" where
  "is_modifier u = (u \<ge> 0xe0 \<and> u \<le> 0xe7)"

definition pressed :: "hid_keyboard_report_t \<Rightarrow> byte set" where
  "pressed r = set (modifier_usages (kr_modifier r)) \<union> key_set (kr_keycode r)"

lemma modifier_usage_nat: "is_modifier u \<Longrightarrow> unat (u - 0xe0) < 8 \<and> 0xe0 + of_nat (unat (u - 0xe0)) = u"
  by (auto simp: is_modifier_def word_le_nat_alt unat_sub_le_nat)

lemma nat_modifier_usage: "i < 8 \<Longrightarrow> is_modifier (0xe0 + of_nat i) \<and> unat (0xe0 + of_nat i - 0xe0 :: byte) = i"
proof -
  assume i: "i < 8"
  then have "unat (0xe0 + of_nat i :: byte) = 0xe0 + i" using unat_add_of_nat[of "0xe0 :: byte" i] by simp
  with i show ?thesis by (simp add: is_modifier_def word_le_nat_alt unat_sub_le_nat unat_of_nat)
qed

lemma set_modifier_usages: "u \<in> set (modifier_usages m) \<longleftrightarrow> is_modifier u \<and> bit m (unat (u - 0xe0))"
proof
  assume "u \<in> set (modifier_usages m)"
  then show "is_modifier u \<and> bit m (unat (u - 0xe0))" using nat_modifier_usage by (auto simp: modifier_usages_def and_exp_eq_0_iff_not_bit)
next
  assume "is_modifier u \<and> bit m (unat (u - 0xe0))"
  then show "u \<in> set (modifier_usages m)" using modifier_usage_nat[of u]
    by (auto simp: modifier_usages_def and_exp_eq_0_iff_not_bit intro!: image_eqI[of _ _ "unat (u - 0xe0)"])
qed

lemma modifier_usages_or: "set (modifier_usages (m OR n)) = set (modifier_usages m) \<union> set (modifier_usages n)"
  by (auto simp: set_modifier_usages bit_simps)

lemma modifier_usages_0 [simp]: "modifier_usages 0 = []"
  by (simp add: modifier_usages_def)

lemma modifier_usages_one: "is_modifier u \<Longrightarrow> set (modifier_usages (2 ^ unat (u - 0xe0))) = {u}"
proof -
  assume u: "is_modifier u"
  have "v \<in> set (modifier_usages (2 ^ unat (u - 0xe0))) \<longleftrightarrow> v = u" for v
  proof -
    have "unat (v - 0xe0) = unat (u - 0xe0) \<longleftrightarrow> v = u" by (simp flip: word_unat_eq_iff)
    then show ?thesis using u modifier_usage_nat[OF u] unfolding set_modifier_usages bit_exp_iff by auto
  qed
  then show ?thesis by blast
qed

text \<open>Adding usages one by one: the modifiers go to the mask, the other keys to the slots.\<close>

lemma add_usages:
  assumes "\<forall>u \<in> set us. u \<notin> {1, 2, 3}"
  shows "set (modifier_usages (kr_modifier (foldl add_usage r us))) = set (modifier_usages (kr_modifier r)) \<union> {u \<in> set us. is_modifier u}"
    and "kr_keycode (foldl add_usage r us) = foldl add_key (kr_keycode r) (filter (\<lambda>u. \<not> is_modifier u) us)"
    and "kr_reserved (foldl add_usage r us) = kr_reserved r"
proof -
  have small: "u > 3" if "u \<noteq> 0" "u \<notin> {1, 2, 3}" for u :: byte
  proof (rule ccontr)
    assume "\<not> u > 3"
    then have "unat u \<le> 3" by (simp add: word_less_nat_alt)
    then have "unat u = 0 \<or> unat u = 1 \<or> unat u = 2 \<or> unat u = 3" by arith
    with that show False by (auto simp: word_unat_eq_iff)
  qed
  have "set (modifier_usages (kr_modifier (foldl add_usage r us))) = set (modifier_usages (kr_modifier r)) \<union> {u \<in> set us. is_modifier u} \<and>
    kr_keycode (foldl add_usage r us) = foldl add_key (kr_keycode r) (filter (\<lambda>u. \<not> is_modifier u) us) \<and>
    kr_reserved (foldl add_usage r us) = kr_reserved r"
    using assms
  proof (induction us arbitrary: r)
    case (Cons u us)
    have "is_modifier u \<Longrightarrow> add_usage r u = r\<lparr>kr_modifier := kr_modifier r OR 2 ^ unat (u - 0xe0)\<rparr>"
      by (simp add: add_usage_def is_modifier_def)
    moreover have "\<not> is_modifier u \<Longrightarrow> add_usage r u = r\<lparr>kr_keycode := add_key (kr_keycode r) u\<rparr>"
      using Cons.prems small[of u] by (auto simp: add_usage_def is_modifier_def add_key_def)
    ultimately show ?case using Cons by (cases "is_modifier u") (auto simp: modifier_usages_or modifier_usages_one)
  qed simp
  then show "set (modifier_usages (kr_modifier (foldl add_usage r us))) = set (modifier_usages (kr_modifier r)) \<union> {u \<in> set us. is_modifier u}"
    "kr_keycode (foldl add_usage r us) = foldl add_key (kr_keycode r) (filter (\<lambda>u. \<not> is_modifier u) us)"
    "kr_reserved (foldl add_usage r us) = kr_reserved r" by blast+
qed

text \<open>The usages of a report after the output's key map.\<close>

definition mapped :: "dh_keymap_profile_t option \<Rightarrow> bool \<Rightarrow> hid_keyboard_report_t \<Rightarrow> byte list" where
  "mapped profile swap r = map (\<lambda>u. map_usage u profile swap) (modifier_usages (kr_modifier r) @ kr_keycode r)"

lemma prepare_mapped:
  "dh_keyboard_output_prepare r DH_KEYBOARD_PHYSICAL profile swap =
     foldl add_usage (empty_report\<lparr>kr_reserved := kr_reserved r\<rparr>) (mapped profile swap r)"
  by (simp add: dh_keyboard_output_prepare_def mapped_def foldl_map)

lemma prepare_keys_ok:
  assumes "\<forall>u \<in> set (mapped profile swap r). u \<notin> {1, 2, 3}"
  shows "keys_ok (kr_keycode (dh_keyboard_output_prepare r DH_KEYBOARD_PHYSICAL profile swap))"
  unfolding prepare_mapped add_usages(2)[OF assms] by (intro keys_ok_add_keys) (simp add: keys_ok_def empty_report_def)

lemma prepare_pressed:
  assumes ok: "\<forall>u \<in> set (mapped profile swap r). u \<notin> {1, 2, 3}"
    and room: "card (key_set (filter (\<lambda>u. \<not> is_modifier u) (mapped profile swap r))) \<le> 6"
  shows "pressed (dh_keyboard_output_prepare r DH_KEYBOARD_PHYSICAL profile swap) = set (mapped profile swap r) - {0}"
proof -
  have "key_set (foldl add_key (kr_keycode (empty_report\<lparr>kr_reserved := kr_reserved r\<rparr>)) (filter (\<lambda>u. \<not> is_modifier u) (mapped profile swap r)))
      = key_set (filter (\<lambda>u. \<not> is_modifier u) (mapped profile swap r))"
    using add_keys_exact[of "replicate 6 0"] room by (simp add: empty_report_def keys_ok_def)
  moreover have "\<not> is_modifier 0" by (simp add: is_modifier_def)
  ultimately show ?thesis unfolding pressed_def prepare_mapped add_usages(1,2)[OF ok]
    by (auto simp: empty_report_def key_set_def)
qed

text \<open>Nothing is pressed that the map does not give, whatever the room.\<close>

lemma prepare_pressed_le:
  assumes "\<forall>u \<in> set (mapped profile swap r). u \<notin> {1, 2, 3}"
  shows "pressed (dh_keyboard_output_prepare r DH_KEYBOARD_PHYSICAL profile swap) \<subseteq> set (mapped profile swap r) - {0}"
proof -
  have "\<not> is_modifier 0" by (simp add: is_modifier_def)
  then show ?thesis unfolding pressed_def prepare_mapped add_usages(1,2)[OF assms]
    using add_keys_le(2)[of "kr_keycode (empty_report\<lparr>kr_reserved := kr_reserved r\<rparr>)" "filter (\<lambda>u. \<not> is_modifier u) (mapped profile swap r)"]
    by (auto simp: empty_report_def key_set_def)
qed

text \<open>The markers of the two provenances round-trip; every other packet type is refused.\<close>

lemma transport_roundtrip:
  "dh_keyboard_transport_decode (fst (dh_keyboard_transport_encode p r)) (snd (dh_keyboard_transport_encode p r)) = Some (p, r)"
  by (cases p) (simp_all add: dh_keyboard_transport_decode_def dh_keyboard_transport_encode_def)

lemma kbd_report_roundtrip: "length (kr_keycode r) = 6 \<Longrightarrow> report_of_bytes (kbd_report_bytes r) = r"
  by (simp add: report_of_bytes_def kbd_report_bytes_def)

section \<open>Tables and names\<close>

text \<open>A binding the firmware may use.\<close>

definition binding_ok :: "dh_hotkey_t \<Rightarrow> bool" where
  "binding_ok b = (hk_action_id b < 13 \<and> unat (hk_key_count b) \<le> 6 \<and> \<not> (hk_modifier b = 0 \<and> hk_key_count b = 0) \<and>
     0 \<notin> set (take (unat (hk_key_count b)) (hk_keys b)))"

lemma action_bit: "hk_action_id b < 13 \<Longrightarrow> (seen AND push_bit (unat (hk_action_id b)) 1 \<noteq> (0 :: u16)) = bit seen (unat (hk_action_id b))"
  by (simp add: and_exp_eq_0_iff_not_bit)

lemma table_scan_iff:
  "table_scan seen hs = ((\<forall>h \<in> set hs. binding_ok h) \<and> distinct (map hk_action_id hs) \<and> (\<forall>h \<in> set hs. \<not> bit seen (unat (hk_action_id h))) \<and>
     (\<forall>n < 16. (bit seen n \<or> n \<in> (unat \<circ> hk_action_id) ` set hs) = (n < 13)))"
proof (induction hs arbitrary: seen)
  case Nil
  have "(push_bit (unat (13 :: byte)) 1 - 1 :: u16) = mask 13" by (simp add: mask_eq_exp_minus_1)
  then show ?case by (auto simp: bit_eq_iff bit_simps)
next
  case (Cons b hs)
  show ?case
  proof (cases "binding_ok b \<and> \<not> bit seen (unat (hk_action_id b))")
    case True
    then have a: "unat (hk_action_id b) < 13" by (simp add: binding_ok_def word_less_nat_alt)
    have bits: "bit (seen OR push_bit (unat (hk_action_id b)) 1) n = (bit seen n \<or> n = unat (hk_action_id b))" if "n < 16" for n
      using that by (auto simp: bit_simps)
    have lt: "unat (hk_action_id h) < 16" if "binding_ok h" for h using that by (simp add: binding_ok_def word_less_nat_alt)
    have "table_scan seen (b # hs) = table_scan (seen OR push_bit (unat (hk_action_id b)) 1) hs"
      using True action_bit[of b seen] by (auto simp: binding_ok_def not_le)
    also have "\<dots> = ((\<forall>h \<in> set hs. binding_ok h) \<and> distinct (map hk_action_id hs) \<and>
        (\<forall>h \<in> set hs. \<not> bit seen (unat (hk_action_id h)) \<and> hk_action_id h \<noteq> hk_action_id b) \<and>
        (\<forall>n < 16. (bit seen n \<or> n = unat (hk_action_id b) \<or> n \<in> (unat \<circ> hk_action_id) ` set hs) = (n < 13)))"
      unfolding Cons.IH using bits lt by (auto simp: word_unat_eq_iff)
    also have "\<dots> = ((\<forall>h \<in> set (b # hs). binding_ok h) \<and> distinct (map hk_action_id (b # hs)) \<and>
        (\<forall>h \<in> set (b # hs). \<not> bit seen (unat (hk_action_id h))) \<and>
        (\<forall>n < 16. (bit seen n \<or> n \<in> (unat \<circ> hk_action_id) ` set (b # hs)) = (n < 13)))"
      using True by (auto simp: image_iff)
    finally show ?thesis .
  next
    case False
    then show ?thesis using action_bit[of b seen] by (auto simp: binding_ok_def not_less not_le)
  qed
qed

text \<open>A table is valid exactly when it binds every action once, with bindings the firmware may use.\<close>

lemma table_valid_iff:
  "dh_hotkey_table_is_valid hs = (length hs = 13 \<and> (\<forall>h \<in> set hs. binding_ok h) \<and> distinct (map hk_action_id hs))"
proof (cases "length hs = 13 \<and> (\<forall>h \<in> set hs. binding_ok h) \<and> distinct (map hk_action_id hs)")
  case True
  let ?ids = "(unat \<circ> hk_action_id) ` set hs"
  have "inj_on unat (set (map hk_action_id hs))" by (rule inj_onI) (simp add: word_unat_eq_iff)
  then have "card (unat ` set (map hk_action_id hs)) = 13" using True distinct_card[of "map hk_action_id hs"] by (simp add: card_image)
  moreover have "unat ` set (map hk_action_id hs) \<subseteq> {..<13}" using True by (auto simp: binding_ok_def word_less_nat_alt)
  ultimately have "unat ` set (map hk_action_id hs) = {..<13}" by (intro card_subset_eq) simp_all
  then have "?ids = {..<13}" by (simp add: image_comp)
  then show ?thesis using True by (simp add: dh_hotkey_table_is_valid_def table_scan_iff)
qed (auto simp: dh_hotkey_table_is_valid_def table_scan_iff)

lemma action_names_roundtrip: "a < 13 \<Longrightarrow> map_option dh_hotkey_action_id (dh_hotkey_action_name a) = Some a"
proof -
  assume a: "a < 13"
  then have "unat a < 13" by (simp add: word_less_nat_alt)
  then have "unat a \<in> {0, 1, 2, 3, 4, 5, 6, 7, 8, 9, 10, 11, 12}" unfolding insert_iff empty_iff by presburger
  then have "a \<in> {0, 1, 2, 3, 4, 5, 6, 7, 8, 9, 10, 11, 12}" by (auto simp: word_unat_eq_iff)
  then show ?thesis
    by (elim insertE emptyE) (simp_all add: dh_hotkey_action_name_def dh_hotkey_action_id_def action_names_def)
qed

section \<open>Properties\<close>

text \<open>The most specific binding a report matches, the first of them in the table's own order.\<close>

definition most_specific :: "dh_hotkey_t list \<Rightarrow> byte \<Rightarrow> byte list \<Rightarrow> dh_hotkey_t option" where
  "most_specific hotkeys modifier keys =
     find (\<lambda>h. hotkey_matches modifier keys h \<and>
               (\<forall>h' \<in> set hotkeys. hotkey_matches modifier keys h' \<longrightarrow> specificity h' \<le> specificity h)) hotkeys"

text \<open>C34. Whatever bindings the user stores, a report selects by one rule: the two fixed chords (recovery and pairing) win over every
  binding; otherwise the binding with the most keys and modifiers among those the report holds, and among equals the first of the
  stored table. The in-place insertion sort and the first match over it compute exactly this.\<close>

theorem hotkey_selects_most_specific:
  "dh_hotkey_match_with_fixed (dh_hotkey_prepare hotkeys) modifier keys =
     (case find (hotkey_matches modifier keys) fixed_chords of
        Some chord \<Rightarrow> Some chord
      | None \<Rightarrow> most_specific hotkeys modifier keys)"
  unfolding dh_hotkey_match_with_fixed_def match_prepared most_specific_def[symmetric] by (simp only: dh_hotkey_match_def)

text \<open>C35. The output's key map is applied exactly: when the mapped keys fit the six slots of a report, the computer sees pressed
  precisely the usages the map gives for the modifiers and keys that are physically held (passthrough first, then the overrides, then
  the Ctrl and GUI swap), a modifier mapped to a key as a key and a key mapped to a modifier as a modifier, each key in one slot. (The
  HID error usages 1 to 3, which fill every slot, are kept apart.)\<close>

theorem key_map_applied_exactly:
  assumes "\<forall>u \<in> set (mapped profile swap r). u \<notin> {1, 2, 3}"
    and "card (key_set (filter (\<lambda>u. \<not> is_modifier u) (mapped profile swap r))) \<le> 6"
  shows "pressed (dh_keyboard_output_prepare r DH_KEYBOARD_PHYSICAL profile swap) =
      (\<lambda>u. map_usage u profile swap) ` (set (modifier_usages (kr_modifier r)) \<union> set (kr_keycode r)) - {0} \<and>
    keys_ok (kr_keycode (dh_keyboard_output_prepare r DH_KEYBOARD_PHYSICAL profile swap))"
  using prepare_pressed[OF assms] prepare_keys_ok[OF assms(1)] by (simp add: mapped_def image_Un)

definition demo_profile :: dh_keymap_profile_t where
  "demo_profile = \<lparr>kp_overrides = \<lparr>ov_from = 0x39, ov_to = 0xe0\<rparr> # replicate 31 \<lparr>ov_from = 0, ov_to = 0\<rparr>, kp_override_count = 1,
     kp_passthrough = replicate 16 0, kp_passthrough_count = 0\<rparr>"

definition demo_report :: hid_keyboard_report_t where
  "demo_report = \<lparr>kr_modifier = 1, kr_reserved = 0, kr_keycode = [0x39, 0x06, 0, 0, 0, 0]\<rparr>"

theorem key_map_applied_witness:
  "pressed (dh_keyboard_output_prepare demo_report DH_KEYBOARD_PHYSICAL (Some demo_profile) True) = {0xe0, 0xe3, 0x06}"
proof -
  have m: "mapped (Some demo_profile) True demo_report = [0xe3, 0xe0, 0x06, 0, 0, 0, 0]" by code_simp
  have "card (key_set (filter (\<lambda>u. \<not> is_modifier u) [0xe3, 0xe0, 0x06, 0, 0, 0, 0])) \<le> 6" by code_simp
  with key_map_applied_exactly[of "Some demo_profile" True demo_report, unfolded m]
  have "pressed (dh_keyboard_output_prepare demo_report DH_KEYBOARD_PHYSICAL (Some demo_profile) True) =
      (\<lambda>u. map_usage u (Some demo_profile) True) ` (set (modifier_usages (kr_modifier demo_report)) \<union> set (kr_keycode demo_report)) - {0}"
    by simp
  also have "\<dots> = {0xe0, 0xe3, 0x06}" by code_simp
  finally show ?thesis .
qed

end
