(* ===== verification/DH_Hid.thy ===== *)
theory DH_Hid
  imports DH_Hotkey "HOL-Library.Monad_Syntax"
begin

text \<open>
  The HID descriptor parser and the decoding of reports (\<open>src/src/hid_parser.c\<close>, \<open>include/hid_parser.h\<close>, \<open>hid_report.c\<close>, and
  \<open>extract_report_values\<close> of \<open>mouse.c\<close>). Every array access and every undefined shift is a computation that may fault, with the
  value None; \<open>safely\<close> says that a computation does not fault and what its result satisfies. A pointer into an array is its index. Usage
  and item numbers are those of the USB HID specification. Fields no code reads (\<open>sys_array\<close>, \<open>key_array_idx\<close>, the parser's \<open>map\<close>) are left out.
\<close>

section \<open>Model: arrays and report layouts\<close>

text \<open>An array access of the source. An index outside the array is the value None.\<close>

definition rd :: "'a list \<Rightarrow> nat \<Rightarrow> 'a option" where
  "rd xs i = (if i < length xs then Some (xs ! i) else None)"

definition wr :: "'a list \<Rightarrow> nat \<Rightarrow> 'a \<Rightarrow> 'a list option" where
  "wr xs i v = (if i < length xs then Some (xs[i := v]) else None)"

abbreviation (input) MAX_CC_BUTTONS :: nat where "MAX_CC_BUTTONS \<equiv> 16"
abbreviation (input) MAX_KEYS :: nat where "MAX_KEYS \<equiv> 32"
abbreviation (input) MAX_REPORT_LAYOUTS :: nat where "MAX_REPORT_LAYOUTS \<equiv> 24"
abbreviation (input) MAX_KEYBOARDS :: nat where "MAX_KEYBOARDS \<equiv> 5"
abbreviation (input) MAX_NKRO_BLOCKS :: nat where "MAX_NKRO_BLOCKS \<equiv> 4"
abbreviation (input) NKRO_MIN_BITS :: nat where "NKRO_MIN_BITS \<equiv> 32"
abbreviation (input) MAX_SYS_BUTTONS :: nat where "MAX_SYS_BUTTONS \<equiv> 8"
abbreviation (input) HID_MAX_USAGES :: nat where "HID_MAX_USAGES \<equiv> 128"
abbreviation (input) PRIMARY_KEYBOARD :: nat where "PRIMARY_KEYBOARD \<equiv> 0"
abbreviation (input) KBD_REPORT_LENGTH :: nat where "KBD_REPORT_LENGTH \<equiv> 8"
abbreviation (input) KEYS_IN_USB_REPORT :: nat where "KEYS_IN_USB_REPORT \<equiv> 6"
abbreviation (input) CONSUMER_CONTROL_LENGTH :: nat where "CONSUMER_CONTROL_LENGTH \<equiv> 4"

datatype data_type_e =
  DATA | CONSTANT | ARRAY | VARIABLE | ABSOLUTE_DATA | RELATIVE_DATA | NO_WRAP | WRAP | LINEAR | NONLINEAR

datatype receiver_e = RECEIVER_NONE | RECEIVER_MOUSE | RECEIVER_KEYBOARD | RECEIVER_CONSUMER | RECEIVER_SYSTEM

record header_t =
  hd_size :: nat
  hd_type :: nat
  hd_tag :: nat

record item_t =
  it_hdr :: header_t
  it_val :: u32

text \<open>\<open>usage_min\<close> and \<open>usage_max\<close> are \<open>int32_t\<close>, kept as integers.\<close>

record report_val_t =
  rv_offset :: u16
  rv_offset_idx :: u16
  rv_size :: u16
  rv_usage_min :: int
  rv_usage_max :: int
  rv_item_type :: data_type_e
  rv_data_type :: data_type_e
  rv_report_id :: byte
  rv_global_usage :: u16
  rv_usage_page :: u16
  rv_usage :: u16

record mouse_t =
  ms_buttons :: report_val_t
  ms_move_x :: report_val_t
  ms_move_y :: report_val_t
  ms_wheel :: report_val_t
  ms_pan :: report_val_t
  ms_report_id :: byte
  ms_is_found :: bool

record nkro_block_t =
  nk_offset :: u16
  nk_size :: u16
  nk_usage_min :: byte

record keyboard_t =
  kb_modifier :: report_val_t
  kb_nkro :: "nkro_block_t list"
  kb_nkro_count :: byte
  kb_nkro_bits :: u16
  kb_cc_array :: "u16 list"
  kb_key_array :: "bool list"
  kb_report_id :: byte
  kb_is_found :: bool
  kb_is_nkro :: bool

record report_t =
  rp_val :: report_val_t
  rp_report_id :: byte
  rp_is_variable :: bool
  rp_is_array :: bool

record hid_interface_t =
  if_keyboards :: "keyboard_t list"
  if_num_keyboards :: byte
  if_mouse :: mouse_t
  if_consumer :: report_t
  if_system :: report_t
  if_report_receiver :: "receiver_e list"
  if_protocol :: byte
  if_uses_report_id :: bool

record parser_state_t =
  ps_report_id :: u32
  ps_usage_count :: u32
  ps_usages :: "u16 list"
  ps_global_usage :: u16
  ps_collection_start :: byte
  ps_collection_end :: byte
  ps_report_offsets :: "(byte \<times> u32) list"
  ps_num_report_offsets :: byte
  ps_globals :: "item_t list"
  ps_locals :: "item_t list"

text \<open>The structures as \<open>memset\<close> leaves them.\<close>

definition zero_item :: item_t where
  "zero_item = \<lparr>it_hdr = \<lparr>hd_size = 0, hd_type = 0, hd_tag = 0\<rparr>, it_val = 0\<rparr>"

definition zero_val :: report_val_t where
  "zero_val = \<lparr>rv_offset = 0, rv_offset_idx = 0, rv_size = 0, rv_usage_min = 0, rv_usage_max = 0, rv_item_type = DATA,
     rv_data_type = DATA, rv_report_id = 0, rv_global_usage = 0, rv_usage_page = 0, rv_usage = 0\<rparr>"

definition zero_keyboard :: keyboard_t where
  "zero_keyboard = \<lparr>kb_modifier = zero_val, kb_nkro = replicate MAX_NKRO_BLOCKS \<lparr>nk_offset = 0, nk_size = 0, nk_usage_min = 0\<rparr>,
     kb_nkro_count = 0, kb_nkro_bits = 0, kb_cc_array = replicate MAX_CC_BUTTONS 0, kb_key_array = replicate MAX_KEYS False,
     kb_report_id = 0, kb_is_found = False, kb_is_nkro = False\<rparr>"

definition zero_report :: report_t where
  "zero_report = \<lparr>rp_val = zero_val, rp_report_id = 0, rp_is_variable = False, rp_is_array = False\<rparr>"

definition zero_interface :: "byte \<Rightarrow> hid_interface_t" where
  "zero_interface protocol = \<lparr>if_keyboards = replicate MAX_KEYBOARDS zero_keyboard, if_num_keyboards = 0,
     if_mouse = \<lparr>ms_buttons = zero_val, ms_move_x = zero_val, ms_move_y = zero_val, ms_wheel = zero_val, ms_pan = zero_val,
       ms_report_id = 0, ms_is_found = False\<rparr>,
     if_consumer = zero_report, if_system = zero_report, if_report_receiver = replicate 256 RECEIVER_NONE,
     if_protocol = protocol, if_uses_report_id = False\<rparr>"

definition zero_parser :: parser_state_t where
  "zero_parser = \<lparr>ps_report_id = 0, ps_usage_count = 0, ps_usages = replicate HID_MAX_USAGES 0, ps_global_usage = 0,
     ps_collection_start = 0, ps_collection_end = 0, ps_report_offsets = replicate MAX_REPORT_LAYOUTS (0, 0),
     ps_num_report_offsets = 0, ps_globals = replicate 16 zero_item, ps_locals = replicate 16 zero_item\<rparr>"

section \<open>Model: what a descriptor's fields set up\<close>

fun keyboard_with :: "hid_interface_t \<Rightarrow> byte \<Rightarrow> nat \<Rightarrow> nat \<Rightarrow> nat option" where
  "keyboard_with iface report_id i 0 = Some PRIMARY_KEYBOARD"
| "keyboard_with iface report_id i (Suc n) = do {
     k \<leftarrow> rd (if_keyboards iface) i;
     if kb_report_id k = report_id then Some i else keyboard_with iface report_id (Suc i) n }"

text \<open>The index of the keyboard the source returns a pointer to.\<close>

definition get_keyboard :: "hid_interface_t \<Rightarrow> byte \<Rightarrow> nat option" where
  "get_keyboard iface report_id =
     (if \<not> if_uses_report_id iface then Some PRIMARY_KEYBOARD
      else keyboard_with iface report_id 0 (min (unat (if_num_keyboards iface)) MAX_KEYBOARDS))"

definition get_or_add_keyboard :: "hid_interface_t \<Rightarrow> byte \<Rightarrow> (hid_interface_t \<times> nat option) option" where
  "get_or_add_keyboard iface report_id = do {
     i \<leftarrow> get_keyboard iface report_id;
     k \<leftarrow> rd (if_keyboards iface) i;
     if \<not> if_uses_report_id iface \<or> kb_report_id k = report_id then Some (iface, Some i)
     else if unat (if_num_keyboards iface) \<ge> MAX_KEYBOARDS then Some (iface, None)
     else do {
       let j = unat (if_num_keyboards iface);
       k' \<leftarrow> rd (if_keyboards iface) j;
       kbs \<leftarrow> wr (if_keyboards iface) j (k'\<lparr>kb_report_id := report_id\<rparr>);
       Some (iface\<lparr>if_keyboards := kbs\<rparr>, Some j) } }"

definition handle_consumer_control_values :: "report_val_t \<Rightarrow> hid_interface_t \<Rightarrow> hid_interface_t option" where
  "handle_consumer_control_values src iface = do {
     i \<leftarrow> get_keyboard iface (rv_report_id src);
     let c = if_consumer iface;
     let c = (if rv_data_type src = ARRAY \<and> rv_item_type src = DATA \<and> rv_size (rp_val c) = 0 then c\<lparr>rp_val := src\<rparr> else c);
     let iface = iface\<lparr>if_consumer := c\<rparr>;
     if unat (rv_offset src) \<ge> MAX_CC_BUTTONS then Some iface
     else do {
       iface \<leftarrow> (if rv_data_type src = VARIABLE then do {
           k \<leftarrow> rd (if_keyboards iface) i;
           cc \<leftarrow> wr (kb_cc_array k) (unat (rv_offset src)) (rv_usage src);
           kbs \<leftarrow> wr (if_keyboards iface) i (k\<lparr>kb_cc_array := cc\<rparr>);
           Some (iface\<lparr>if_keyboards := kbs, if_consumer := c\<lparr>rp_is_variable := True\<rparr>\<rparr>) }
         else Some iface);
       let c = if_consumer iface;
       Some (iface\<lparr>if_consumer := c\<lparr>rp_is_array := rp_is_array c \<or> rv_data_type src = ARRAY\<rparr>\<rparr>) } }"

definition is_modifier_field :: "report_val_t \<Rightarrow> bool" where
  "is_modifier_field src = (rv_size src \<le> 8 \<and> rv_data_type src = VARIABLE \<and> 0xE0 \<ge> rv_usage_min src \<and> 0xE0 \<le> rv_usage_max src)"

definition usage_per_bit :: "report_val_t \<Rightarrow> bool" where
  "usage_per_bit src =
     (let span = rv_usage_max src - rv_usage_min src + 1; width = int (unat (rv_size src)) in
      rv_usage_max src > rv_usage_min src \<and> span \<ge> width \<and> (span = width \<or> width \<ge> int NKRO_MIN_BITS))"

text \<open>What a data field writes into its keyboard: the modifier, the key array, a section of the bitmap.\<close>

definition keyboard_field :: "report_val_t \<Rightarrow> keyboard_t \<Rightarrow> keyboard_t option" where
  "keyboard_field src k = do {
     let k = (if is_modifier_field src then k\<lparr>kb_modifier := src\<rparr> else k);
     k \<leftarrow> (if unat (rv_offset_idx src) < MAX_KEYS then do {
         ka \<leftarrow> wr (kb_key_array k) (unat (rv_offset_idx src)) (rv_data_type src = ARRAY);
         Some (k\<lparr>kb_key_array := ka\<rparr>) }
       else Some k);
     if usage_per_bit src \<and> \<not> is_modifier_field src \<and> rv_data_type src = VARIABLE \<and> unat (kb_nkro_count k) < MAX_NKRO_BLOCKS then do {
       nk \<leftarrow> wr (kb_nkro k) (unat (kb_nkro_count k))
              \<lparr>nk_offset = rv_offset src, nk_size = rv_size src, nk_usage_min = word_of_int (rv_usage_min src)\<rparr>;
       let bits = kb_nkro_bits k + rv_size src;
       Some (k\<lparr>kb_nkro := nk, kb_nkro_count := kb_nkro_count k + 1, kb_nkro_bits := bits,
               kb_is_nkro := unat bits > NKRO_MIN_BITS\<rparr>) }
     else Some k }"

definition handle_keyboard_descriptor_values :: "report_val_t \<Rightarrow> hid_interface_t \<Rightarrow> hid_interface_t option" where
  "handle_keyboard_descriptor_values src iface = do {
     (iface, slot) \<leftarrow> get_or_add_keyboard iface (rv_report_id src);
     case slot of
       None \<Rightarrow> do {
         rs \<leftarrow> wr (if_report_receiver iface) (unat (rv_report_id src)) RECEIVER_NONE;
         Some (iface\<lparr>if_report_receiver := rs\<rparr>) }
     | Some i \<Rightarrow>
         if rv_item_type src = CONSTANT then Some iface
         else do {
           k \<leftarrow> rd (if_keyboards iface) i;
           k \<leftarrow> keyboard_field src k;
           kbs \<leftarrow> wr (if_keyboards iface) i (k\<lparr>kb_is_found := True\<rparr>);
           Some (iface\<lparr>if_keyboards := kbs,
                       if_num_keyboards := (if kb_is_found k then if_num_keyboards iface else if_num_keyboards iface + 1)\<rparr>) } }"

definition handle_buttons :: "report_val_t \<Rightarrow> hid_interface_t \<Rightarrow> hid_interface_t" where
  "handle_buttons src iface =
     (let m = if_mouse iface in
      if rv_item_type src = CONSTANT
      then iface\<lparr>if_mouse := m\<lparr>ms_buttons := (ms_buttons m)\<lparr>rv_size := rv_size (ms_buttons m) + rv_size src\<rparr>\<rparr>\<rparr>
      else iface\<lparr>if_mouse := m\<lparr>ms_buttons := src, ms_is_found := True\<rparr>\<rparr>)"

text \<open>The rows of the usage map: what the row's handler, its destination and its report ID are.\<close>

datatype usage_row = MouseButtons | MouseX | MouseY | MouseWheel | MousePan | KeyboardKeys | ConsumerControl | SystemControl

definition usage_map :: "(u16 \<times> u16 \<times> u16 \<times> usage_row) list" where
  "usage_map = [(0x09, 0x02, 0, MouseButtons), (0x01, 0x02, 0x30, MouseX), (0x01, 0x02, 0x31, MouseY), (0x01, 0x02, 0x38, MouseWheel),
     (0x0c, 0x02, 0x238, MousePan), (0x07, 0x06, 0, KeyboardKeys), (0x0c, 0x01, 0, ConsumerControl), (0x01, 0x80, 0, SystemControl)]"

fun row_receiver :: "usage_row \<Rightarrow> receiver_e" where
  "row_receiver KeyboardKeys = RECEIVER_KEYBOARD"
| "row_receiver ConsumerControl = RECEIVER_CONSUMER"
| "row_receiver SystemControl = RECEIVER_SYSTEM"
| "row_receiver _ = RECEIVER_MOUSE"

fun row_set_id :: "usage_row \<Rightarrow> byte \<Rightarrow> hid_interface_t \<Rightarrow> hid_interface_t" where
  "row_set_id KeyboardKeys rid iface = iface"
| "row_set_id ConsumerControl rid iface = iface\<lparr>if_consumer := (if_consumer iface)\<lparr>rp_report_id := rid\<rparr>\<rparr>"
| "row_set_id SystemControl rid iface = iface\<lparr>if_system := (if_system iface)\<lparr>rp_report_id := rid\<rparr>\<rparr>"
| "row_set_id _ rid iface = iface\<lparr>if_mouse := (if_mouse iface)\<lparr>ms_report_id := rid\<rparr>\<rparr>"

text \<open>\<open>_store\<close> into the destination of the row.\<close>

fun store_row :: "usage_row \<Rightarrow> report_val_t \<Rightarrow> hid_interface_t \<Rightarrow> hid_interface_t" where
  "store_row MouseX src iface = iface\<lparr>if_mouse := (if_mouse iface)\<lparr>ms_move_x := src\<rparr>\<rparr>"
| "store_row MouseY src iface = iface\<lparr>if_mouse := (if_mouse iface)\<lparr>ms_move_y := src\<rparr>\<rparr>"
| "store_row MouseWheel src iface = iface\<lparr>if_mouse := (if_mouse iface)\<lparr>ms_wheel := src\<rparr>\<rparr>"
| "store_row MousePan src iface = iface\<lparr>if_mouse := (if_mouse iface)\<lparr>ms_pan := src\<rparr>\<rparr>"
| "store_row SystemControl src iface = iface\<lparr>if_system := (if_system iface)\<lparr>rp_val := src\<rparr>\<rparr>"
| "store_row _ src iface = iface"

fun row_handler :: "usage_row \<Rightarrow> report_val_t \<Rightarrow> hid_interface_t \<Rightarrow> hid_interface_t option" where
  "row_handler MouseButtons src iface = Some (handle_buttons src iface)"
| "row_handler KeyboardKeys src iface = handle_keyboard_descriptor_values src iface"
| "row_handler ConsumerControl src iface = handle_consumer_control_values src iface"
| "row_handler row src iface = Some (if rv_item_type src \<noteq> CONSTANT then store_row row src iface else iface)"

definition row_matches :: "report_val_t \<Rightarrow> u16 \<times> u16 \<times> u16 \<times> usage_row \<Rightarrow> bool" where
  "row_matches val hay = (case hay of (page, global_usage, usage, row) \<Rightarrow>
     (rv_global_usage val = global_usage \<or> global_usage = 0) \<and> (rv_usage val = usage \<or> usage = 0) \<and>
     (rv_usage_page val = page \<or> page = 0))"

fun extract_rows :: "(u16 \<times> u16 \<times> u16 \<times> usage_row) list \<Rightarrow> hid_interface_t \<Rightarrow> report_val_t \<Rightarrow> hid_interface_t option" where
  "extract_rows [] iface val = Some iface"
| "extract_rows (hay # rest) iface val =
     (if row_matches val hay then do {
        let row = snd (snd (snd hay));
        let iface = row_set_id row (rv_report_id val) iface;
        rs \<leftarrow> wr (if_report_receiver iface) (unat (rv_report_id val)) (row_receiver row);
        iface \<leftarrow> row_handler row val (iface\<lparr>if_report_receiver := rs\<rparr>);
        extract_rows rest iface val }
      else extract_rows rest iface val)"

definition extract_data :: "hid_interface_t \<Rightarrow> report_val_t \<Rightarrow> hid_interface_t option" where
  "extract_data iface val = extract_rows usage_map iface val"

section \<open>Model: the descriptor parser\<close>

definition SIZE_LOOKUP :: "nat list" where
  "SIZE_LOOKUP = [0, 1, 2, 4]"

text \<open>\<open>report\<close> is the rest of the descriptor after the header byte.\<close>

definition get_descriptor_value :: "byte list \<Rightarrow> nat \<Rightarrow> u32 option" where
  "get_descriptor_value report width =
     (if width = 1 then do { a \<leftarrow> rd report 0; Some (ucast a) }
      else if width = 2 then do { a \<leftarrow> rd report 0; b \<leftarrow> rd report 1; Some (of_le_bytes [a, b]) }
      else if width = 3 then do {
        a \<leftarrow> rd report 0; b \<leftarrow> rd report 1; c \<leftarrow> rd report 2; d \<leftarrow> rd report 3; Some (of_le_bytes [a, b, c, d]) }
      else Some 0)"

fun offset_of :: "(byte \<times> u32) list \<Rightarrow> byte \<Rightarrow> nat \<Rightarrow> nat \<Rightarrow> nat option option" where
  "offset_of offsets report_id i 0 = Some None"
| "offset_of offsets report_id i (Suc n) = do {
     e \<leftarrow> rd offsets i;
     if fst e = report_id then Some (Some i) else offset_of offsets report_id (Suc i) n }"

text \<open>The index of the entry the source returns a pointer to, or None when every entry is taken.\<close>

definition get_or_create_report_offset :: "parser_state_t \<Rightarrow> byte \<Rightarrow> (parser_state_t \<times> nat option) option" where
  "get_or_create_report_offset parser report_id = do {
     found \<leftarrow> offset_of (ps_report_offsets parser) report_id 0 (unat (ps_num_report_offsets parser));
     case found of
       Some i \<Rightarrow> Some (parser, Some i)
     | None \<Rightarrow>
         if unat (ps_num_report_offsets parser) < MAX_REPORT_LAYOUTS then do {
           offs \<leftarrow> wr (ps_report_offsets parser) (unat (ps_num_report_offsets parser)) (report_id, 0);
           Some (parser\<lparr>ps_report_offsets := offs, ps_num_report_offsets := ps_num_report_offsets parser + 1\<rparr>,
                 Some (unat (ps_num_report_offsets parser))) }
         else Some (parser, None) }"

definition get_current_offset :: "parser_state_t \<Rightarrow> (parser_state_t \<times> u32) option" where
  "get_current_offset parser = do {
     (parser, offset) \<leftarrow> get_or_create_report_offset parser (ucast (ps_report_id parser));
     case offset of
       Some i \<Rightarrow> do { e \<leftarrow> rd (ps_report_offsets parser) i; Some (parser, snd e) }
     | None \<Rightarrow> Some (parser, 0) }"

definition get_usage :: "parser_state_t \<Rightarrow> u32 \<Rightarrow> u16 option" where
  "get_usage parser i =
     (if ps_usage_count parser = 0 then rd (ps_usages parser) 0
      else rd (ps_usages parser) (unat (if i < ps_usage_count parser then i else ps_usage_count parser - 1)))"

definition store_element ::
  "parser_state_t \<Rightarrow> u16 \<Rightarrow> u32 \<Rightarrow> u16 \<Rightarrow> hid_interface_t \<Rightarrow> (parser_state_t \<times> report_val_t \<times> hid_interface_t) option" where
  "store_element parser usage data width iface = do {
     (parser, current_offset) \<leftarrow> get_current_offset parser;
     umax \<leftarrow> rd (ps_locals parser) 2;
     umin \<leftarrow> rd (ps_locals parser) 1;
     page \<leftarrow> rd (ps_globals parser) 0;
     Some (parser,
           \<lparr>rv_offset = ucast current_offset, rv_offset_idx = ucast (drop_bit 3 current_offset), rv_size = width,
            rv_usage_min = sint (it_val umin), rv_usage_max = sint (it_val umax),
            rv_item_type = (if data AND 1 \<noteq> 0 then CONSTANT else DATA),
            rv_data_type = (if data AND 2 \<noteq> 0 then VARIABLE else ARRAY),
            rv_report_id = ucast (ps_report_id parser), rv_global_usage = ps_global_usage parser,
            rv_usage_page = ucast (it_val page), rv_usage = usage\<rparr>,
           iface\<lparr>if_uses_report_id := if_uses_report_id iface \<or> ps_report_id parser \<noteq> 0\<rparr>) }"

definition handle_global_item :: "parser_state_t \<Rightarrow> item_t \<Rightarrow> parser_state_t option" where
  "handle_global_item parser item = do {
     let parser = (if hd_tag (it_hdr item) = 8 then parser\<lparr>ps_report_id := it_val item\<rparr> else parser);
     gs \<leftarrow> wr (ps_globals parser) (hd_tag (it_hdr item)) item;
     Some (parser\<lparr>ps_globals := gs\<rparr>) }"

definition handle_local_item :: "parser_state_t \<Rightarrow> item_t \<Rightarrow> parser_state_t option" where
  "handle_local_item parser item = do {
     ls \<leftarrow> wr (ps_locals parser) (hd_tag (it_hdr item)) item;
     let parser = parser\<lparr>ps_locals := ls\<rparr>;
     if hd_tag (it_hdr item) = 0 then
       (if ps_collection_start parser = ps_collection_end parser then Some (parser\<lparr>ps_global_usage := ucast (it_val item)\<rparr>)
        else if unat (ps_usage_count parser) < HID_MAX_USAGES then do {
          us \<leftarrow> wr (ps_usages parser) (unat (ps_usage_count parser)) (ucast (it_val item));
          Some (parser\<lparr>ps_usages := us, ps_usage_count := ps_usage_count parser + 1\<rparr>) }
        else Some parser)
     else Some parser }"

text \<open>One element of a main item; \<open>k\<close> is the entry \<open>current_offset\<close> points to.\<close>

definition main_element ::
  "u32 \<Rightarrow> u32 \<Rightarrow> nat \<Rightarrow> u32 \<Rightarrow> parser_state_t \<times> hid_interface_t \<Rightarrow> (parser_state_t \<times> hid_interface_t) option" where
  "main_element width data k i st = do {
     let (parser, iface) = st;
     usage \<leftarrow> get_usage parser i;
     (parser, val, iface) \<leftarrow> store_element parser usage data (ucast width) iface;
     iface \<leftarrow> extract_data iface val;
     (rid, off) \<leftarrow> rd (ps_report_offsets parser) k;
     offs \<leftarrow> wr (ps_report_offsets parser) k (rid, off + width);
     Some (parser\<lparr>ps_report_offsets := offs\<rparr>, iface) }"

function main_elements ::
  "u32 \<Rightarrow> u32 \<Rightarrow> u32 \<Rightarrow> nat \<Rightarrow> u32 \<Rightarrow> parser_state_t \<times> hid_interface_t \<Rightarrow> (parser_state_t \<times> hid_interface_t) option" where
  "main_elements width number data k i st =
     (case rd (ps_report_offsets (fst st)) k of
        None \<Rightarrow> None
      | Some e \<Rightarrow>
          if i < number \<and> width > 0 \<and> snd e \<le> 65535
          then (case main_element width data k i st of None \<Rightarrow> None | Some st' \<Rightarrow> main_elements width number data k (i + 1) st')
          else Some st)"
  by pat_completeness auto
termination
proof (relation "measure (\<lambda>(width, number, data, k, i, st). unat (number - i))", goal_cases)
  case (2 width number data k i st e st')
  then have "i < number" by simp
  then have "unat (number - (i + 1)) = unat number - unat i - 1" "unat (number - i) = unat number - unat i"
    by unat_arith+
  with \<open>i < number\<close> show ?case by (simp add: word_less_nat_alt)
qed simp

declare main_elements.simps [simp del]

definition handle_main_input :: "parser_state_t \<Rightarrow> item_t \<Rightarrow> hid_interface_t \<Rightarrow> (parser_state_t \<times> hid_interface_t) option" where
  "handle_main_input parser item iface = do {
     sz \<leftarrow> rd (ps_globals parser) 7;
     cn \<leftarrow> rd (ps_globals parser) 9;
     let (width, number) = (if it_val sz = 1 \<and> ps_usage_count parser \<le> 1 then (it_val cn, 1) else (it_val sz, it_val cn));
     (parser, current_offset) \<leftarrow> get_or_create_report_offset parser (ucast (ps_report_id parser));
     case current_offset of
       None \<Rightarrow> Some (parser, iface)
     | Some k \<Rightarrow> do {
         (parser, iface) \<leftarrow> main_elements width number (it_val item) k 0 (parser, iface);
         if ps_usage_count parser > 0 then do {
           u \<leftarrow> rd (ps_usages parser) (unat (ps_usage_count parser - 1));
           us \<leftarrow> wr (ps_usages parser) 0 u;
           Some (parser\<lparr>ps_usages := us\<rparr>, iface) }
         else Some (parser, iface) } }"

definition handle_main_item :: "parser_state_t \<Rightarrow> item_t \<Rightarrow> hid_interface_t \<Rightarrow> (parser_state_t \<times> hid_interface_t) option" where
  "handle_main_item parser item iface = do {
     (parser, iface) \<leftarrow>
       (if hd_tag (it_hdr item) = 10 then Some (parser\<lparr>ps_collection_start := ps_collection_start parser + 1\<rparr>, iface)
        else if hd_tag (it_hdr item) = 12 then Some (parser\<lparr>ps_collection_end := ps_collection_end parser + 1\<rparr>, iface)
        else if hd_tag (it_hdr item) = 8 then handle_main_input parser item iface
        else Some (parser, iface));
     Some (parser\<lparr>ps_usage_count := 0, ps_locals := replicate 16 zero_item\<rparr>, iface) }"

definition header_of :: "byte \<Rightarrow> header_t" where
  "header_of b = \<lparr>hd_size = unat (b AND 3), hd_type = unat (drop_bit 2 b AND 3), hd_tag = unat (drop_bit 4 b)\<rparr>"

definition parse_item :: "item_t \<Rightarrow> parser_state_t \<times> hid_interface_t \<Rightarrow> (parser_state_t \<times> hid_interface_t) option" where
  "parse_item item st =
     (case st of (parser, iface) \<Rightarrow>
        if hd_type (it_hdr item) = 0 then handle_main_item parser item iface
        else if hd_type (it_hdr item) = 1 then do { p \<leftarrow> handle_global_item parser item; Some (p, iface) }
        else if hd_type (it_hdr item) = 2 then do { p \<leftarrow> handle_local_item parser item; Some (p, iface) }
        else Some (parser, iface))"

function parse_items :: "byte list \<Rightarrow> parser_state_t \<times> hid_interface_t \<Rightarrow> (parser_state_t \<times> hid_interface_t) option" where
  "parse_items [] st = Some st"
| "parse_items (b # report) st =
     (case get_descriptor_value report (hd_size (header_of b)) of
        None \<Rightarrow> None
      | Some v \<Rightarrow>
          (case parse_item \<lparr>it_hdr = header_of b, it_val = v\<rparr> st of
             None \<Rightarrow> None
           | Some st' \<Rightarrow> parse_items (drop (SIZE_LOOKUP ! hd_size (header_of b)) report) st'))"
  by pat_completeness auto
termination by (relation "measure (length \<circ> fst)") auto

definition parse_report_descriptor :: "hid_interface_t \<Rightarrow> byte list \<Rightarrow> hid_interface_t option" where
  "parse_report_descriptor iface report = map_option snd (parse_items report (zero_parser, iface))"

section \<open>Model: reading reports\<close>

text \<open>\<open>int32_t\<close> arithmetic on the bits is the arithmetic of a 32-bit word; a shift by 32 or more is undefined in C and
  is the value None.\<close>

definition shl32 :: "u32 \<Rightarrow> nat \<Rightarrow> u32 option" where
  "shl32 v n = (if n < 32 then Some (push_bit n v) else None)"

fun gather_bits :: "byte list \<Rightarrow> nat \<Rightarrow> nat \<Rightarrow> nat \<Rightarrow> nat \<Rightarrow> u32 \<Rightarrow> u32 option" where
  "gather_bits report width byte_offset remaining_bits 0 result = Some result"
| "gather_bits report width byte_offset remaining_bits (Suc n) result =
     (if width > remaining_bits \<and> byte_offset + 1 < length report then do {
        b \<leftarrow> rd report (byte_offset + 1);
        v \<leftarrow> shl32 (ucast b) remaining_bits;
        gather_bits report width (byte_offset + 1) (remaining_bits + 8) n (result OR v) }
      else Some result)"

text \<open>The counter of \<open>gather_bits\<close> bounds the loop by the report's length, which \<open>byte_offset\<close> cannot pass.\<close>

definition get_report_value :: "byte list \<Rightarrow> report_val_t \<Rightarrow> int option" where
  "get_report_value report val =
     (let offset_in_bits = unat (rv_offset val) mod 8; remaining_bits = 8 - offset_in_bits;
          byte_offset = unat (drop_bit 3 (rv_offset val)); width = unat (rv_size val) in
      if byte_offset \<ge> length report then Some 0
      else do {
        one \<leftarrow> shl32 1 width;
        let mask = one - 1;
        b \<leftarrow> rd report byte_offset;
        result \<leftarrow> gather_bits report width byte_offset remaining_bits (length report) (ucast (drop_bit offset_in_bits b));
        let result = result AND mask;
        result \<leftarrow> (if result AND (drop_bit 1 mask + 1) \<noteq> 0 then do { hi \<leftarrow> shl32 0xFFFFFFFF width; Some (result OR hi) }
                  else Some result);
        Some (sint result) })"

text \<open>Appends the usage of each set nth_bit of one section to the keys, from slot \<open>base\<close> on.\<close>

fun extract_bit_variable ::
  "nkro_block_t \<Rightarrow> byte list \<Rightarrow> nat \<Rightarrow> nat \<Rightarrow> nat \<Rightarrow> nat \<Rightarrow> nat \<Rightarrow> byte list \<Rightarrow> (byte list \<times> nat) option" where
  "extract_bit_variable block payload base max_keys nth_bit 0 key_count dst = Some (dst, key_count)"
| "extract_bit_variable block payload base max_keys nth_bit (Suc n) key_count dst =
     (if \<not> key_count < max_keys then Some (dst, key_count)
      else let j = unat (nk_offset block) + nth_bit in
        if j div 8 \<ge> length payload then Some (dst, key_count)
        else do {
          p \<leftarrow> rd payload (j div 8);
          if p AND push_bit (j mod 8) 1 \<noteq> 0 then do {
            dst \<leftarrow> wr dst (base + key_count) (nk_usage_min block + of_nat nth_bit);
            extract_bit_variable block payload base max_keys (Suc nth_bit) n (Suc key_count) dst }
          else extract_bit_variable block payload base max_keys (Suc nth_bit) n key_count dst })"

definition extract_kbd_boot :: "byte list \<Rightarrow> hid_keyboard_report_t option" where
  "extract_kbd_boot raw_report =
     (let src = (if length raw_report = KBD_REPORT_LENGTH + 1 then drop 1 raw_report else raw_report) in
      if length src < KBD_REPORT_LENGTH then None else Some (report_of_bytes (take KBD_REPORT_LENGTH src)))"

fun copy_keys :: "bool list \<Rightarrow> byte list \<Rightarrow> nat \<Rightarrow> nat \<Rightarrow> nat \<Rightarrow> byte list \<Rightarrow> byte list option" where
  "copy_keys key_array src i 0 j dst = Some dst"
| "copy_keys key_array src i (Suc n) j dst =
     (if i < length src \<and> j < KEYS_IN_USB_REPORT then do {
        is_key \<leftarrow> rd key_array i;
        if is_key then do {
          v \<leftarrow> rd src i;
          dst \<leftarrow> wr dst j v;
          copy_keys key_array src (Suc i) n (Suc j) dst }
        else copy_keys key_array src (Suc i) n j dst }
      else Some dst)"

text \<open>The payload of a report: what follows the report ID on an interface that declares IDs.\<close>

definition payload_of :: "hid_interface_t \<Rightarrow> byte list \<Rightarrow> byte list" where
  "payload_of iface raw_report = drop (if if_uses_report_id iface then 1 else 0) raw_report"

text \<open>The inner option is the return value: None for -1, with the report left as it was cleared.\<close>

definition extract_kbd_other :: "byte list \<Rightarrow> hid_interface_t \<Rightarrow> hid_keyboard_report_t option option" where
  "extract_kbd_other raw_report iface = do {
     rid \<leftarrow> rd raw_report 0;
     i \<leftarrow> get_keyboard iface rid;
     kb \<leftarrow> rd (if_keyboards iface) i;
     let src = payload_of iface raw_report;
     if unat (rv_offset_idx (kb_modifier kb)) \<ge> length src then Some None
     else do {
       m \<leftarrow> rd src (unat (rv_offset_idx (kb_modifier kb)));
       keys \<leftarrow> copy_keys (kb_key_array kb) src 0 MAX_KEYS 0 (kr_keycode empty_report);
       Some (Some (empty_report\<lparr>kr_modifier := m, kr_keycode := keys\<rparr>)) } }"

fun nkro_keys :: "keyboard_t \<Rightarrow> byte list \<Rightarrow> nat \<Rightarrow> nat \<Rightarrow> nat \<Rightarrow> byte list \<Rightarrow> (byte list \<times> nat) option" where
  "nkro_keys kb payload i 0 key_count dst = Some (dst, key_count)"
| "nkro_keys kb payload i (Suc n) key_count dst =
     (if key_count < KEYS_IN_USB_REPORT then do {
        block \<leftarrow> rd (kb_nkro kb) i;
        (dst, added) \<leftarrow> extract_bit_variable block payload key_count (KEYS_IN_USB_REPORT - key_count) 0 (unat (nk_size block)) 0 dst;
        nkro_keys kb payload (Suc i) n (key_count + added) dst }
      else Some (dst, key_count))"

definition extract_kbd_nkro :: "byte list \<Rightarrow> hid_interface_t \<Rightarrow> hid_keyboard_report_t option option" where
  "extract_kbd_nkro raw_report iface = do {
     rid \<leftarrow> rd raw_report 0;
     i \<leftarrow> get_keyboard iface rid;
     kb \<leftarrow> rd (if_keyboards iface) i;
     let payload = payload_of iface raw_report;
     if unat (rv_size (kb_modifier kb)) \<noteq> 8 \<or> unat (rv_offset_idx (kb_modifier kb)) \<ge> length payload then Some None
     else do {
       m \<leftarrow> rd payload (unat (rv_offset_idx (kb_modifier kb)));
       (keys, _) \<leftarrow> nkro_keys kb payload 0 (unat (kb_nkro_count kb)) 0 (kr_keycode empty_report);
       Some (Some (empty_report\<lparr>kr_modifier := m, kr_keycode := keys\<rparr>)) } }"

definition extract_kbd_data :: "byte list \<Rightarrow> hid_interface_t \<Rightarrow> hid_keyboard_report_t option" where
  "extract_kbd_data raw_report iface = do {
     rid \<leftarrow> rd raw_report 0;
     i \<leftarrow> get_keyboard iface rid;
     keyboard \<leftarrow> rd (if_keyboards iface) i;
     if if_protocol iface = 0 then extract_kbd_boot raw_report
     else do {
       nkro \<leftarrow> (if kb_is_nkro keyboard then extract_kbd_nkro raw_report iface else Some None);
       case nkro of
         Some r \<Rightarrow> Some r
       | None \<Rightarrow>
           if \<not> if_uses_report_id iface \<and> (length raw_report = KBD_REPORT_LENGTH \<or> length raw_report = KBD_REPORT_LENGTH + 1)
           then extract_kbd_boot raw_report
           else do {
             r \<leftarrow> extract_kbd_other raw_report iface;
             Some (case r of Some r \<Rightarrow> r | None \<Rightarrow> empty_report) } } }"

fun consumer_bits :: "u16 list \<Rightarrow> byte list \<Rightarrow> nat \<Rightarrow> nat \<Rightarrow> byte list \<Rightarrow> byte list option" where
  "consumer_bits cc_array payload i 0 out = Some out"
| "consumer_bits cc_array payload i (Suc n) out =
     (if i < 8 * length payload then do {
        d \<leftarrow> rd payload (i div 8);
        if drop_bit (i mod 8) d AND 1 \<noteq> 0 then do {
          u \<leftarrow> rd cc_array i;
          out \<leftarrow> wr out 0 (ucast (u AND 0xFF));
          out \<leftarrow> wr out 1 (ucast (drop_bit 8 u));
          consumer_bits cc_array payload (Suc i) n out }
        else consumer_bits cc_array payload (Suc i) n out }
      else Some out)"

definition extract_consumer_report :: "byte list \<Rightarrow> hid_interface_t \<Rightarrow> byte list option option" where
  "extract_consumer_report raw_report iface =
     (let payload = payload_of iface raw_report in
      if payload = [] then Some None
      else do {
        rid0 \<leftarrow> rd raw_report 0;
        i \<leftarrow> get_keyboard iface rid0;
        keyboard \<leftarrow> rd (if_keyboards iface) i;
        let out = replicate CONSUMER_CONTROL_LENGTH 0;
        if rp_is_variable (if_consumer iface) then do {
          out \<leftarrow> consumer_bits (kb_cc_array keyboard) payload 0 MAX_CC_BUTTONS out;
          Some (Some out) }
        else do {
          let val = rp_val (if_consumer iface);
          let report_id = (if if_uses_report_id iface then rid0 else 0);
          if rv_report_id val = report_id \<and> 8 * length payload < unat (rv_offset val) + unat (rv_size val) then Some None
          else Some (Some (blit out 0 (take CONSUMER_CONTROL_LENGTH payload))) } })"

definition extract_system_report :: "byte list \<Rightarrow> hid_interface_t \<Rightarrow> byte option option" where
  "extract_system_report raw_report iface =
     (if length (payload_of iface raw_report) < 1 then Some None
      else do { b \<leftarrow> rd raw_report (if if_uses_report_id iface then 1 else 0); Some (Some b) })"

definition route_report :: "byte list \<Rightarrow> hid_interface_t \<Rightarrow> receiver_e option" where
  "route_report report iface =
     (if if_uses_report_id iface \<and> report = [] then Some RECEIVER_NONE
      else do {
        report_id \<leftarrow> (if if_uses_report_id iface then rd report 0 else Some 0);
        rd (if_report_receiver iface) (unat report_id) })"

text \<open>Mouse reports (\<open>src/src/mouse.c\<close>): a field whose report ID is not this report's leaves its value.\<close>

definition extract_value :: "bool \<Rightarrow> int \<Rightarrow> report_val_t \<Rightarrow> byte list \<Rightarrow> (int \<times> bool) option" where
  "extract_value uses_id dst src raw_report =
     (if uses_id then do {
        rid \<leftarrow> rd raw_report 0;
        if rid \<noteq> rv_report_id src then Some (dst, False)
        else do { v \<leftarrow> get_report_value (drop 1 raw_report) src; Some (v, True) } }
      else do { v \<leftarrow> get_report_value raw_report src; Some (v, True) })"

record hid_mouse_values =
  mv_move_x :: int
  mv_move_y :: int
  mv_wheel :: int
  mv_pan :: int
  mv_buttons :: int

definition extract_report_values :: "byte list \<Rightarrow> int \<Rightarrow> hid_interface_t \<Rightarrow> hid_mouse_values option" where
  "extract_report_values raw_report mouse_buttons iface =
     (if if_protocol iface = 0 then do {
        b \<leftarrow> rd raw_report 0; x \<leftarrow> rd raw_report 1; y \<leftarrow> rd raw_report 2; w \<leftarrow> rd raw_report 3; p \<leftarrow> rd raw_report 4;
        Some \<lparr>mv_move_x = sint x, mv_move_y = sint y, mv_wheel = sint w, mv_pan = sint p, mv_buttons = uint b\<rparr> }
      else do {
        let mouse = if_mouse iface;
        let uses_id = if_uses_report_id iface;
        (x, _) \<leftarrow> extract_value uses_id 0 (ms_move_x mouse) raw_report;
        (y, _) \<leftarrow> extract_value uses_id 0 (ms_move_y mouse) raw_report;
        (w, _) \<leftarrow> extract_value uses_id 0 (ms_wheel mouse) raw_report;
        (p, _) \<leftarrow> extract_value uses_id 0 (ms_pan mouse) raw_report;
        (b, got) \<leftarrow> extract_value uses_id 0 (ms_buttons mouse) raw_report;
        Some \<lparr>mv_move_x = x, mv_move_y = y, mv_wheel = w, mv_pan = p, mv_buttons = (if got then b else mouse_buttons)\<rparr> })"

section \<open>Every access is inside its array\<close>

text \<open>A computation that does not fault and whose result satisfies \<open>P\<close>, with its rules for each construct.\<close>

definition safely :: "'a option \<Rightarrow> ('a \<Rightarrow> bool) \<Rightarrow> bool" where
  "safely m P = (case m of None \<Rightarrow> False | Some x \<Rightarrow> P x)"

named_theorems wp "what a computation needs to be safe"

lemma safely_simps [wp]:
  "safely (Some x) P = P x" "safely None P = False" "safely (n \<bind> f) P = safely n (\<lambda>x. safely (f x) P)"
  "safely (if b then m else m') P = (if b then safely m P else safely m' P)"
  "safely (rd xs i) Q = (i < length xs \<and> Q (xs ! i))" "safely (wr xs i v) R = (i < length xs \<and> R (xs[i := v]))"
  "safely (map_option g n') S = safely n' (\<lambda>x. S (g x))"
  by (auto simp: safely_def rd_def wr_def split: option.splits)

lemma safely_case_option [wp]:
  "safely (case c of None \<Rightarrow> m | Some x \<Rightarrow> f x) P = (case c of None \<Rightarrow> safely m P | Some x \<Rightarrow> safely (f x) P)"
  by (simp split: option.splits)

lemma safely_case_prod [wp]: "safely (case c of (a, b) \<Rightarrow> f a b) P = (case c of (a, b) \<Rightarrow> safely (f a b) P)"
  by (simp split: prod.splits)

lemma safely_match [wp]: "safely (case m of None \<Rightarrow> None | Some x \<Rightarrow> f x) P = safely m (\<lambda>x. safely (f x) P)"
  by (auto simp: safely_def split: option.splits)

lemma safely_mono: "safely m P \<Longrightarrow> (\<And>x. P x \<Longrightarrow> Q x) \<Longrightarrow> safely m Q"
  by (auto simp: safely_def split: option.splits)

lemma safely_Some: "safely m P \<Longrightarrow> \<exists>x. m = Some x \<and> P x"
  by (auto simp: safely_def split: option.splits)

definition keyboard_ok :: "keyboard_t \<Rightarrow> bool" where
  "keyboard_ok k = (length (kb_nkro k) = 4 \<and> unat (kb_nkro_count k) \<le> 4 \<and> length (kb_cc_array k) = 16 \<and> length (kb_key_array k) = 32)"

text \<open>The keyboards that were found are the first \<open>num_keyboards\<close> slots.\<close>

definition iface_ok :: "hid_interface_t \<Rightarrow> bool" where
  "iface_ok f = (length (if_keyboards f) = 5 \<and> (\<forall>k \<in> set (if_keyboards f). keyboard_ok k) \<and> unat (if_num_keyboards f) \<le> 5 \<and>
     (\<forall>i < 5. kb_is_found (if_keyboards f ! i) = (i < unat (if_num_keyboards f))) \<and> length (if_report_receiver f) = 256)"

lemma iface_ok_updates [simp]:
  "iface_ok (if_mouse_update g f) = iface_ok f" "iface_ok (if_consumer_update h f) = iface_ok f"
  "iface_ok (if_system_update j f) = iface_ok f" "iface_ok (if_uses_report_id_update l f) = iface_ok f"
  by (simp_all add: iface_ok_def)

lemma iface_ok_receivers: "iface_ok f \<Longrightarrow> length rs = 256 \<Longrightarrow> iface_ok (f\<lparr>if_report_receiver := rs\<rparr>)"
  by (simp add: iface_ok_def)

lemma iface_ok_keyboard:
  assumes "iface_ok f" "i < 5" "keyboard_ok k" "kb_is_found k = kb_is_found (if_keyboards f ! i)"
  shows "iface_ok (f\<lparr>if_keyboards := (if_keyboards f)[i := k]\<rparr>)"
  using assms set_update_subset_insert[of "if_keyboards f" i k]
  by (auto simp: iface_ok_def nth_list_update)

lemma keyboard_with_safe:
  assumes "iface_ok f" "i + n \<le> 5"
  shows "safely (keyboard_with f rid i n) (\<lambda>j. j < 5)"
  using assms(2)
proof (induction n arbitrary: i)
  case (Suc n)
  then show ?case using assms(1) by (simp add: wp iface_ok_def)
qed (simp add: wp)

lemma get_keyboard_safe:
  assumes "iface_ok f"
  shows "safely (get_keyboard f rid) (\<lambda>j. j < 5)"
  using keyboard_with_safe[OF assms, of 0] by (simp add: get_keyboard_def wp)

text \<open>A slot that is added is the next free one.\<close>

lemma keyboard_with_found: "keyboard_with f rid i n = Some j \<Longrightarrow> j = 0 \<or> i \<le> j \<and> j < i + n \<and> kb_report_id (if_keyboards f ! j) = rid"
proof (induction n arbitrary: i)
  case (Suc n)
  then show ?case using Suc.IH[of "Suc i"] by (fastforce simp: rd_def split: if_splits)
qed simp

lemma get_or_add_keyboard_safe:
  assumes "iface_ok f"
  shows "safely (get_or_add_keyboard f rid) (\<lambda>(f', slot). iface_ok f' \<and>
     (\<forall>j. slot = Some j \<longrightarrow> j < 5 \<and> (\<not> kb_is_found (if_keyboards f' ! j) \<longrightarrow> unat (if_num_keyboards f') = j)))"
proof -
  obtain i where i: "get_keyboard f rid = Some i" "i < 5" using safely_Some[OF get_keyboard_safe[OF assms]] by blast
  have found: "kb_is_found (if_keyboards f ! j) = (j < unat (if_num_keyboards f))" if "j < 5" for j using assms that by (simp add: iface_ok_def)
  have len: "length (if_keyboards f) = 5" using assms by (simp add: iface_ok_def)
  have primary: "unat (if_num_keyboards f) = i" if "\<not> i < unat (if_num_keyboards f)"
    using that i keyboard_with_found[of f rid 0 _ i] by (auto simp: get_keyboard_def min_def split: if_splits)
  have kok: "keyboard_ok (if_keyboards f ! j)" if "j < 5" for j using assms that by (simp add: iface_ok_def)
  have "iface_ok (f\<lparr>if_keyboards := (if_keyboards f)[j := (if_keyboards f ! j)\<lparr>kb_report_id := rid\<rparr>]\<rparr>)" if "j < 5" for j
    using that kok[OF that] by (intro iface_ok_keyboard assms) (simp_all add: keyboard_ok_def)
  then show ?thesis using i len found primary assms
    by (auto simp: get_or_add_keyboard_def wp Let_def)
qed

lemma handle_consumer_control_values_safe:
  assumes "iface_ok f"
  shows "safely (handle_consumer_control_values src f) iface_ok"
proof -
  obtain i where i: "get_keyboard f (rv_report_id src) = Some i" "i < 5" using safely_Some[OF get_keyboard_safe[OF assms]] by blast
  have len: "length (if_keyboards f) = 5" using assms by (simp add: iface_ok_def)
  have kok: "keyboard_ok (if_keyboards f ! i)" using assms i by (simp add: iface_ok_def)
  then have "iface_ok (f\<lparr>if_keyboards := (if_keyboards f)[i := (if_keyboards f ! i)\<lparr>kb_cc_array := cc\<rparr>]\<rparr>)" if "length cc = 16" for cc
    using that i by (intro iface_ok_keyboard assms) (simp_all add: keyboard_ok_def)
  then show ?thesis using i len kok assms
    by (simp add: handle_consumer_control_values_def wp Let_def keyboard_ok_def)
qed

lemma keyboard_field_safe:
  assumes "keyboard_ok k"
  shows "safely (keyboard_field src k) (\<lambda>k'. keyboard_ok k' \<and> kb_is_found k' = kb_is_found k)"
proof -
  have inc: "unat (kb_nkro_count k + 1) \<le> 4" if "unat (kb_nkro_count k) < 4"
    using that unat_add_of_nat[of "kb_nkro_count k" 1] by simp
  show ?thesis using assms inc by (simp add: keyboard_field_def wp Let_def keyboard_ok_def)
qed

lemma handle_keyboard_descriptor_values_safe:
  assumes "iface_ok f"
  shows "safely (handle_keyboard_descriptor_values src f) iface_ok"
  unfolding handle_keyboard_descriptor_values_def safely_simps
proof (rule safely_mono[OF get_or_add_keyboard_safe[OF assms]], clarify)
  fix f' slot
  assume f': "iface_ok f'" and slot: "\<forall>j. slot = Some j \<longrightarrow> j < 5 \<and> (\<not> kb_is_found (if_keyboards f' ! j) \<longrightarrow> unat (if_num_keyboards f') = j)"
  show "safely (case slot of
       None \<Rightarrow> do { rs \<leftarrow> wr (if_report_receiver f') (unat (rv_report_id src)) RECEIVER_NONE; Some (f'\<lparr>if_report_receiver := rs\<rparr>) }
     | Some i \<Rightarrow> if rv_item_type src = CONSTANT then Some f'
         else do {
           k \<leftarrow> rd (if_keyboards f') i;
           k \<leftarrow> keyboard_field src k;
           kbs \<leftarrow> wr (if_keyboards f') i (k\<lparr>kb_is_found := True\<rparr>);
           Some (f'\<lparr>if_keyboards := kbs,
                       if_num_keyboards := (if kb_is_found k then if_num_keyboards f' else if_num_keyboards f' + 1)\<rparr>) }) iface_ok"
  proof (cases slot)
    case None
    have "unat (rv_report_id src) < 256" by (rule unat_u8_lt)
    with None f' show ?thesis by (simp add: wp iface_ok_def)
  next
    case (Some i)
    let ?k = "if_keyboards f' ! i"
    have i: "i < 5" "\<not> kb_is_found ?k \<Longrightarrow> unat (if_num_keyboards f') = i" using slot Some by auto
    have k: "keyboard_ok ?k" "length (if_keyboards f') = 5" using f' i(1) by (simp_all add: iface_ok_def)
    have inc: "unat (if_num_keyboards f' + 1) = Suc i" if "\<not> kb_is_found ?k"
      using that i unat_add_of_nat[of "if_num_keyboards f'" 1] by simp
    have upd: "iface_ok (f'\<lparr>if_keyboards := (if_keyboards f')[i := k'\<lparr>kb_is_found := True\<rparr>],
        if_num_keyboards := (if kb_is_found k' then if_num_keyboards f' else if_num_keyboards f' + 1)\<rparr>)"
      if "keyboard_ok k' \<and> kb_is_found k' = kb_is_found ?k" for k'
      using that f' i k inc set_update_subset_insert[of "if_keyboards f'" i "k'\<lparr>kb_is_found := True\<rparr>"]
      by (auto simp: iface_ok_def keyboard_ok_def nth_list_update less_Suc_eq)
    have "safely (keyboard_field src ?k) (\<lambda>k'. iface_ok (f'\<lparr>if_keyboards := (if_keyboards f')[i := k'\<lparr>kb_is_found := True\<rparr>],
        if_num_keyboards := (if kb_is_found k' then if_num_keyboards f' else if_num_keyboards f' + 1)\<rparr>))"
      by (rule safely_mono[OF keyboard_field_safe[OF k(1)] upd])
    then show ?thesis unfolding Some using f' i(1) k by (simp add: wp)
  qed
qed

lemma row_handler_safe:
  assumes "iface_ok f"
  shows "safely (row_handler row src f) iface_ok"
  using assms handle_keyboard_descriptor_values_safe handle_consumer_control_values_safe
  by (cases row) (simp_all add: wp handle_buttons_def Let_def)

lemma row_set_id_ok [simp]: "iface_ok (row_set_id row rid f) = iface_ok f" "if_report_receiver (row_set_id row rid f) = if_report_receiver f"
  by (cases row; simp)+

lemma extract_rows_safe: "iface_ok f \<Longrightarrow> safely (extract_rows rows f val) iface_ok"
proof (induction rows arbitrary: f)
  case (Cons hay rest)
  have "unat (rv_report_id val) < 256" by (rule unat_u8_lt)
  with Cons show ?case
    by (auto simp: wp Let_def iface_ok_receivers iface_ok_def[of f] intro!: safely_mono[OF row_handler_safe] Cons.IH iface_ok_receivers)
qed (simp add: wp)

text \<open>The parser's own arrays.\<close>

definition parser_ok :: "parser_state_t \<Rightarrow> bool" where
  "parser_ok p = (length (ps_usages p) = 128 \<and> unat (ps_usage_count p) \<le> 128 \<and> length (ps_report_offsets p) = 24 \<and>
     unat (ps_num_report_offsets p) \<le> 24 \<and> length (ps_globals p) = 16 \<and> length (ps_locals p) = 16)"

lemma parser_ok_updates [simp]:
  "parser_ok (ps_report_id_update g p) = parser_ok p" "parser_ok (ps_global_usage_update h p) = parser_ok p"
  "parser_ok (ps_collection_start_update c p) = parser_ok p" "parser_ok (ps_collection_end_update c p) = parser_ok p"
  by (simp_all add: parser_ok_def)

lemma offset_of_safe: "i + n \<le> length offs \<Longrightarrow> safely (offset_of offs rid i n) (\<lambda>r. \<forall>j. r = Some j \<longrightarrow> i \<le> j \<and> j < i + n)"
proof (induction n arbitrary: i)
  case (Suc n)
  have "safely (offset_of offs rid (Suc i) n) (\<lambda>r. \<forall>j. r = Some j \<longrightarrow> i \<le> j \<and> j < i + Suc n)"
    using Suc.prems by (intro safely_mono[OF Suc.IH]) auto
  with Suc.prems show ?case by (simp add: wp)
qed (simp add: wp)

text \<open>Looking an offset up keeps everything but the table of offsets, whose number of live entries only grows.\<close>

lemma get_or_create_report_offset_safe:
  assumes "parser_ok p"
  shows "safely (get_or_create_report_offset p rid) (\<lambda>(p', r). parser_ok p' \<and> (\<forall>j. r = Some j \<longrightarrow> j < 24) \<and>
     ps_usage_count p' = ps_usage_count p \<and> ps_report_id p' = ps_report_id p)"
proof -
  have s: "safely (offset_of (ps_report_offsets p) rid 0 (unat (ps_num_report_offsets p))) (\<lambda>r. \<forall>j. r = Some j \<longrightarrow> j < 24)"
    using assms by (intro safely_mono[OF offset_of_safe]) (auto simp: parser_ok_def)
  have inc: "unat (ps_num_report_offsets p + 1) \<le> 24" if "unat (ps_num_report_offsets p) < 24"
    using that unat_add_of_nat[of "ps_num_report_offsets p" 1] by simp
  show ?thesis unfolding get_or_create_report_offset_def safely_simps(3)
    by (rule safely_mono[OF s]) (use assms inc in \<open>auto simp: wp parser_ok_def split: option.splits\<close>)
qed

lemma get_current_offset_safe:
  assumes "parser_ok p"
  shows "safely (get_current_offset p) (\<lambda>(p', off). parser_ok p' \<and> ps_usage_count p' = ps_usage_count p)"
  unfolding get_current_offset_def safely_simps(3)
  by (rule safely_mono[OF get_or_create_report_offset_safe[OF assms]])
    (auto simp: wp parser_ok_def split: option.splits)

lemma get_usage_safe:
  assumes "parser_ok p"
  shows "safely (get_usage p i) (\<lambda>_. True)"
proof -
  have "unat (if i < ps_usage_count p then i else ps_usage_count p - 1) < 128" if "ps_usage_count p \<noteq> 0"
  proof (cases "i < ps_usage_count p")
    case False
    have "unat (ps_usage_count p - 1) = unat (ps_usage_count p) - 1" using that unat_minus_one by blast
    moreover have "0 < unat (ps_usage_count p)" using that by (simp add: unat_gt_0)
    ultimately show ?thesis using False assms unfolding parser_ok_def by (simp del: One_nat_def) linarith
  qed (use assms in \<open>simp add: parser_ok_def word_less_nat_alt\<close>)
  with assms show ?thesis by (simp add: get_usage_def wp parser_ok_def)
qed

lemma main_element_safe:
  assumes "parser_ok (fst st)" "iface_ok (snd st)" "k < 24"
  shows "safely (main_element width data k i st) (\<lambda>(p, f). parser_ok p \<and> iface_ok f \<and> ps_usage_count p = ps_usage_count (fst st))"
proof -
  obtain p f where st: "st = (p, f)" by fastforce
  obtain u where u: "get_usage p i = Some u" using safely_Some[OF get_usage_safe] assms(1) st by fastforce
  obtain p' off where c: "get_current_offset p = Some (p', off)" "parser_ok p'" "ps_usage_count p' = ps_usage_count p"
    using safely_Some[OF get_current_offset_safe] assms(1) st by fastforce
  have "safely (store_element p u data (ucast width) f) (\<lambda>(p', val, f'). parser_ok p' \<and> iface_ok f' \<and> ps_usage_count p' = ps_usage_count p)"
    using c assms(2) st by (simp add: store_element_def wp parser_ok_def)
  then obtain p2 val f2 where s: "store_element p u data (ucast width) f = Some (p2, val, f2)" "parser_ok p2" "iface_ok f2"
    "ps_usage_count p2 = ps_usage_count p" using safely_Some by fastforce
  have "safely (extract_data f2 val) iface_ok" unfolding extract_data_def using s(3) by (rule extract_rows_safe)
  then obtain f3 where "extract_data f2 val = Some f3" "iface_ok f3" using safely_Some by blast
  with u s assms(3) st show ?thesis by (simp add: main_element_def wp parser_ok_def split: prod.splits)
qed

lemma main_elements_safe:
  assumes "parser_ok (fst st)" "iface_ok (snd st)" "k < 24"
  shows "safely (main_elements width number data k i st) (\<lambda>(p, f). parser_ok p \<and> iface_ok f \<and> ps_usage_count p = ps_usage_count (fst st))"
  using assms
proof (induction width number data k i st rule: main_elements.induct)
  case (1 width number data k i st)
  let ?Q = "\<lambda>(p, f). parser_ok p \<and> iface_ok f \<and> ps_usage_count p = ps_usage_count (fst st)"
  have k: "k < length (ps_report_offsets (fst st))" using 1(2,4) by (simp add: parser_ok_def)
  show ?case
  proof (cases "i < number \<and> width > 0 \<and> snd (ps_report_offsets (fst st) ! k) \<le> 65535")
    case True
    have "safely (main_element width data k i st) ?Q" by (rule main_element_safe[OF 1(2,3,4)])
    then obtain p f where s: "main_element width data k i st = Some (p, f)" "parser_ok p" "iface_ok f" "ps_usage_count p = ps_usage_count (fst st)"
      using safely_Some by fastforce
    then have "safely (main_elements width number data k (i + 1) (p, f)) ?Q"
      using 1(1)[OF _ True s(1)] 1(4) k by (simp add: rd_def)
    with True s(1) k show ?thesis by (subst main_elements.simps) (simp add: rd_def)
  next
    case False
    with k 1(2,3) show ?thesis by (subst main_elements.simps) (auto simp: rd_def wp split: prod.splits)
  qed
qed

lemma handle_global_item_safe: "parser_ok p \<Longrightarrow> hd_tag (it_hdr item) < 16 \<Longrightarrow> safely (handle_global_item p item) parser_ok"
  by (simp add: handle_global_item_def wp Let_def parser_ok_def)

lemma handle_local_item_safe:
  assumes "parser_ok p" "hd_tag (it_hdr item) < 16"
  shows "safely (handle_local_item p item) parser_ok"
proof -
  have "unat (ps_usage_count p + 1) \<le> 128" if "unat (ps_usage_count p) < 128"
    using that unat_add_of_nat[of "ps_usage_count p" 1] by simp
  with assms show ?thesis by (simp add: handle_local_item_def wp Let_def parser_ok_def)
qed

lemma handle_main_input_safe:
  assumes "parser_ok p" "iface_ok f"
  shows "safely (handle_main_input p item f) (\<lambda>(p, f). parser_ok p \<and> iface_ok f)"
proof -
  obtain p1 r where c: "get_or_create_report_offset p (ucast (ps_report_id p)) = Some (p1, r)" "parser_ok p1" "\<forall>j. r = Some j \<longrightarrow> j < 24"
    using safely_Some[OF get_or_create_report_offset_safe[OF assms(1)]] by fastforce
  define width where "width = (if it_val (ps_globals p ! 7) = 1 \<and> ps_usage_count p \<le> 1 then it_val (ps_globals p ! 9) else it_val (ps_globals p ! 7))"
  define number where "number = (if it_val (ps_globals p ! 7) = 1 \<and> ps_usage_count p \<le> 1 then 1 else it_val (ps_globals p ! 9))"
  have m: "safely (main_elements width number (it_val item) k 0 (p1, f))
      (\<lambda>(p, f). safely (if ps_usage_count p > 0 then do {
           u \<leftarrow> rd (ps_usages p) (unat (ps_usage_count p - 1));
           us \<leftarrow> wr (ps_usages p) 0 u;
           Some (p\<lparr>ps_usages := us\<rparr>, f) }
         else Some (p, f)) (\<lambda>(p, f). parser_ok p \<and> iface_ok f))" if "k < 24" for k
  proof (rule safely_mono)
    show "safely (main_elements width number (it_val item) k 0 (p1, f)) (\<lambda>(p, f). parser_ok p \<and> iface_ok f \<and> ps_usage_count p = ps_usage_count (fst (p1, f)))"
      using main_elements_safe[of "(p1, f)" k width number "it_val item" 0] c(2) assms(2) that by simp
  next
    fix st :: "parser_state_t \<times> hid_interface_t"
    assume st: "case st of (p, f) \<Rightarrow> parser_ok p \<and> iface_ok f \<and> ps_usage_count p = ps_usage_count (fst (p1, f))"
    obtain p2 f2 where e: "st = (p2, f2)" by fastforce
    have "unat (ps_usage_count p2 - 1) < 128" if "ps_usage_count p2 > 0"
    proof -
      have "unat (ps_usage_count p2 - 1) = unat (ps_usage_count p2) - 1" using that unat_minus_one by (metis word_greater_zero_iff)
      moreover have "unat (ps_usage_count p2) \<noteq> 0" using that by (simp add: unat_eq_0 word_greater_zero_iff)
      moreover have "unat (ps_usage_count p2) \<le> 128" using st e by (auto simp: parser_ok_def)
      ultimately show ?thesis by linarith
    qed
    with st e show "case st of (p, f) \<Rightarrow> safely (if ps_usage_count p > 0 then do {
           u \<leftarrow> rd (ps_usages p) (unat (ps_usage_count p - 1));
           us \<leftarrow> wr (ps_usages p) 0 u;
           Some (p\<lparr>ps_usages := us\<rparr>, f) }
         else Some (p, f)) (\<lambda>(p, f). parser_ok p \<and> iface_ok f)" by (auto simp: wp parser_ok_def)
  qed
  have g: "length (ps_globals p) = 16" using assms(1) by (simp add: parser_ok_def)
  have "handle_main_input p item f = (case r of None \<Rightarrow> Some (p1, f) | Some k \<Rightarrow> do {
         (p, f) \<leftarrow> main_elements width number (it_val item) k 0 (p1, f);
         if ps_usage_count p > 0 then do {
           u \<leftarrow> rd (ps_usages p) (unat (ps_usage_count p - 1));
           us \<leftarrow> wr (ps_usages p) 0 u;
           Some (p\<lparr>ps_usages := us\<rparr>, f) }
         else Some (p, f) })"
    using g c(1) by (cases r) (simp_all add: handle_main_input_def rd_def width_def number_def)
  then show ?thesis using m c(2,3) assms(2) by (cases r) (simp_all add: wp case_prod_unfold)
qed

lemma parse_item_safe:
  assumes "parser_ok (fst st)" "iface_ok (snd st)" "hd_tag (it_hdr item) < 16"
  shows "safely (parse_item item st) (\<lambda>(p, f). parser_ok p \<and> iface_ok f)"
proof -
  obtain p f where st: "st = (p, f)" "parser_ok p" "iface_ok f" using assms by (cases st) auto
  have main: "safely (handle_main_item p item f) (\<lambda>(p, f). parser_ok p \<and> iface_ok f)"
  proof -
    have "safely (handle_main_input p item f) (\<lambda>(p, f). parser_ok (p\<lparr>ps_usage_count := 0, ps_locals := replicate 16 zero_item\<rparr>) \<and> iface_ok f)"
      by (rule safely_mono[OF handle_main_input_safe[OF st(2,3)]]) (auto simp: parser_ok_def)
    with st show ?thesis by (auto simp: handle_main_item_def wp parser_ok_def case_prod_unfold)
  qed
  have "safely (handle_global_item p item) (\<lambda>p. parser_ok p \<and> iface_ok f)" "safely (handle_local_item p item) (\<lambda>p. parser_ok p \<and> iface_ok f)"
    using st assms(3) by (auto intro: safely_mono[OF handle_global_item_safe] safely_mono[OF handle_local_item_safe])
  with main st show ?thesis by (simp add: parse_item_def wp)
qed

lemma header_of_bounds: "hd_size (header_of b) < 4" "hd_tag (header_of b) < 16"
proof -
  have "b AND 3 = take_bit 2 b" by (simp add: take_bit_eq_mask mask_eq_exp_minus_1)
  then have "unat (b AND 3) < 4" using take_bit_nat_less_exp[of 2 "unat b"] by (simp add: unsigned_take_bit_eq)
  then show "hd_size (header_of b) < 4" by (simp add: header_of_def)
  have "unat (drop_bit 4 b) = unat b div 16" by (simp add: drop_bit_eq_div unat_div)
  then show "hd_tag (header_of b) < 16" using unat_u8_lt[of b] by (simp add: header_of_def)
qed

text \<open>A descriptor whose last item has all its data bytes.\<close>

function whole_items :: "byte list \<Rightarrow> bool" where
  "whole_items [] = True"
| "whole_items (b # report) =
     (SIZE_LOOKUP ! hd_size (header_of b) \<le> length report \<and> whole_items (drop (SIZE_LOOKUP ! hd_size (header_of b)) report))"
  by pat_completeness auto
termination by (relation "measure length") auto

lemma get_descriptor_value_some:
  assumes "n < 4"
  shows "(get_descriptor_value report n \<noteq> None) = (SIZE_LOOKUP ! n \<le> length report)"
proof -
  have "n = 0 \<or> n = 1 \<or> n = 2 \<or> n = 3" using assms by arith
  then show ?thesis by (elim disjE) (auto simp: get_descriptor_value_def rd_def SIZE_LOOKUP_def Suc_le_eq)
qed

lemma parse_items_safe:
  assumes "parser_ok (fst st)" "iface_ok (snd st)"
  shows "case parse_items report st of None \<Rightarrow> \<not> whole_items report | Some (p, f) \<Rightarrow> whole_items report \<and> parser_ok p \<and> iface_ok f"
  using assms
proof (induction report st rule: parse_items.induct)
  case (2 b report st)
  show ?case
  proof (cases "get_descriptor_value report (hd_size (header_of b))")
    case None
    then show ?thesis using get_descriptor_value_some[OF header_of_bounds(1), of report b] by simp
  next
    case (Some v)
    let ?item = "\<lparr>it_hdr = header_of b, it_val = v\<rparr>"
    have "safely (parse_item ?item st) (\<lambda>(p, f). parser_ok p \<and> iface_ok f)"
      using 2(2,3) header_of_bounds(2)[of b] by (intro parse_item_safe) simp_all
    then obtain p f where "parse_item ?item st = Some (p, f)" "parser_ok p" "iface_ok f" using safely_Some by fastforce
    with 2(1)[OF Some this(1)] Some show ?thesis using get_descriptor_value_some[OF header_of_bounds(1), of report b] by (auto split: option.splits prod.splits)
  qed
qed (auto split: prod.splits)

lemma zero_ok: "parser_ok zero_parser" "iface_ok (zero_interface protocol)"
  by (simp_all add: parser_ok_def zero_parser_def iface_ok_def zero_interface_def zero_keyboard_def keyboard_ok_def)

section \<open>Reports are read inside their bytes\<close>

lemma extract_bit_variable_safe:
  assumes "base + max_keys = 6" "key_count \<le> max_keys" "length dst = 6"
  shows "safely (extract_bit_variable block payload base max_keys i n key_count dst) (\<lambda>(dst', c). length dst' = 6 \<and> c \<le> max_keys)"
  using assms
proof (induction n arbitrary: i key_count dst)
  case (Suc n)
  then show ?case by (auto simp: wp Let_def)
qed (simp add: wp)

lemma copy_keys_safe:
  assumes "i + n \<le> length key_array" "length dst = 6"
  shows "safely (copy_keys key_array src i n j dst) (\<lambda>dst'. length dst' = 6)"
  using assms
proof (induction n arbitrary: i j dst)
  case (Suc n)
  then show ?case by (auto simp: wp)
qed (simp add: wp)

lemma nkro_keys_safe:
  assumes "i + n \<le> length (kb_nkro kb)" "key_count \<le> 6" "length dst = 6"
  shows "safely (nkro_keys kb payload i n key_count dst) (\<lambda>(dst', c). length dst' = 6)"
  using assms
proof (induction n arbitrary: i key_count dst)
  case (Suc n)
  have "safely (extract_bit_variable (kb_nkro kb ! i) payload key_count (6 - key_count) 0 (unat (nk_size (kb_nkro kb ! i))) 0 dst)
      (\<lambda>(dst', c). length dst' = 6 \<and> c \<le> 6 - key_count)"
    using Suc.prems by (intro extract_bit_variable_safe) simp_all
  then obtain dst' c where x: "extract_bit_variable (kb_nkro kb ! i) payload key_count (6 - key_count) 0 (unat (nk_size (kb_nkro kb ! i))) 0 dst = Some (dst', c)"
      "length dst' = 6" "c \<le> 6 - key_count" using safely_Some by fastforce
  then have "safely (nkro_keys kb payload (Suc i) n (key_count + c) dst') (\<lambda>(dst', c). length dst' = 6)"
    using Suc.prems by (intro Suc.IH) simp_all
  with Suc.prems x(1) show ?case by (simp add: wp)
qed (simp add: wp)

lemma length_empty_keys [simp]: "length (kr_keycode empty_report) = 6"
  by (simp add: empty_report_def)

text \<open>The keyboard a report selects.\<close>

lemma selected_keyboard:
  assumes "iface_ok f"
  obtains i where "get_keyboard f rid = Some i" "i < 5" "i < length (if_keyboards f)" "keyboard_ok (if_keyboards f ! i)"
proof -
  obtain i where i: "get_keyboard f rid = Some i" "i < 5" using safely_Some[OF get_keyboard_safe[OF assms]] by blast
  with assms have "i < length (if_keyboards f)" "keyboard_ok (if_keyboards f ! i)" by (simp_all add: iface_ok_def)
  with i that show ?thesis by blast
qed

lemma extract_kbd_other_safe:
  assumes "iface_ok f" "raw \<noteq> []"
  shows "safely (extract_kbd_other raw f) (\<lambda>r. \<forall>r'. r = Some r' \<longrightarrow> length (kr_keycode r') = 6)"
proof -
  obtain i where i: "get_keyboard f (raw ! 0) = Some i" "i < length (if_keyboards f)" "keyboard_ok (if_keyboards f ! i)"
    using selected_keyboard[OF assms(1)] by blast
  have "safely (copy_keys (kb_key_array (if_keyboards f ! i)) (payload_of f raw) 0 32 0 (kr_keycode empty_report)) (\<lambda>dst'. length dst' = 6)"
    using i(3) by (intro copy_keys_safe) (simp_all add: keyboard_ok_def)
  with i assms(2) show ?thesis by (simp add: extract_kbd_other_def wp Let_def)
qed

lemma extract_kbd_nkro_safe:
  assumes "iface_ok f" "raw \<noteq> []"
  shows "safely (extract_kbd_nkro raw f) (\<lambda>r. \<forall>r'. r = Some r' \<longrightarrow> length (kr_keycode r') = 6)"
proof -
  obtain i where i: "get_keyboard f (raw ! 0) = Some i" "i < length (if_keyboards f)" "keyboard_ok (if_keyboards f ! i)"
    using selected_keyboard[OF assms(1)] by blast
  have "safely (nkro_keys (if_keyboards f ! i) (payload_of f raw) 0 (unat (kb_nkro_count (if_keyboards f ! i))) 0 (kr_keycode empty_report))
      (\<lambda>(dst', c). length dst' = 6)"
    using i(3) by (intro nkro_keys_safe) (simp_all add: keyboard_ok_def)
  with i assms(2) show ?thesis by (simp add: extract_kbd_nkro_def wp Let_def case_prod_unfold)
qed

lemma extract_kbd_data_safe:
  assumes "iface_ok f" "length raw \<ge> 8"
  shows "safely (extract_kbd_data raw f) (\<lambda>r. length (kr_keycode r) = 6)"
proof -
  have raw: "raw \<noteq> []" using assms(2) by auto
  obtain i where i: "get_keyboard f (raw ! 0) = Some i" "i < length (if_keyboards f)" using selected_keyboard[OF assms(1)] by blast
  have boot: "safely (extract_kbd_boot raw) (\<lambda>r. length (kr_keycode r) = 6)"
    using assms(2) by (simp add: extract_kbd_boot_def wp Let_def report_of_bytes_def)
  have other: "safely (extract_kbd_other raw f) (\<lambda>r. length (kr_keycode (case r of Some r \<Rightarrow> r | None \<Rightarrow> empty_report)) = 6)"
    by (rule safely_mono[OF extract_kbd_other_safe[OF assms(1) raw]]) (auto split: option.splits)
  obtain n where n: "extract_kbd_nkro raw f = Some n" "\<forall>r'. n = Some r' \<longrightarrow> length (kr_keycode r') = 6"
    using safely_Some[OF extract_kbd_nkro_safe[OF assms(1) raw]] by blast
  show ?thesis using i raw boot other n
    by (auto simp: extract_kbd_data_def wp split: option.splits)
qed

lemma consumer_bits_safe:
  assumes "i + n \<le> length cc" "length out = 4"
  shows "safely (consumer_bits cc payload i n out) (\<lambda>out'. length out' = 4)"
  using assms
proof (induction n arbitrary: i out)
  case (Suc n)
  then show ?case by (auto simp: wp)
qed (simp add: wp)

lemma extract_consumer_report_safe:
  assumes "iface_ok f"
  shows "safely (extract_consumer_report raw f) (\<lambda>r. \<forall>out. r = Some out \<longrightarrow> length out = 4)"
proof (cases "payload_of f raw = []")
  case False
  then have raw: "raw \<noteq> []" by (auto simp: payload_of_def)
  obtain i where i: "get_keyboard f (raw ! 0) = Some i" "i < length (if_keyboards f)" "keyboard_ok (if_keyboards f ! i)"
    using selected_keyboard[OF assms] by blast
  have "safely (consumer_bits (kb_cc_array (if_keyboards f ! i)) (payload_of f raw) 0 16 (replicate 4 0)) (\<lambda>out'. length out' = 4)"
    using i(3) by (intro consumer_bits_safe) (simp_all add: keyboard_ok_def)
  with i raw False show ?thesis by (simp add: extract_consumer_report_def wp Let_def length_blit)
qed (simp add: extract_consumer_report_def wp)

lemma extract_system_report_safe: "safely (extract_system_report raw f) (\<lambda>_. True)"
  by (auto simp: extract_system_report_def wp payload_of_def)

lemma route_report_safe: "iface_ok f \<Longrightarrow> safely (route_report raw f) (\<lambda>_. True)"
  using unat_u8_lt by (auto simp: route_report_def wp iface_ok_def)

section \<open>A field's value is the signed number its bits spell\<close>

text \<open>A report as one little-endian number.\<close>

fun le_number :: "byte list \<Rightarrow> int" where
  "le_number [] = 0"
| "le_number (b # bs) = uint b + 256 * le_number bs"

lemma bit_le_number: "bit (le_number bs) n = (n div 8 < length bs \<and> bit (bs ! (n div 8)) (n mod 8))"
proof (induction bs arbitrary: n)
  case (Cons b bs)
  have p: "256 * le_number bs = push_bit 8 (le_number bs)" by (simp add: push_bit_eq_mult)
  have "uint b + push_bit 8 (le_number bs) = uint b OR push_bit 8 (le_number bs)"
    by (rule disjunctive_add) (auto simp: bit_simps bit_uint_iff dest: bit_imp_le_length)
  then have "bit (le_number (b # bs)) n = (bit b n \<or> 8 \<le> n \<and> bit (le_number bs) (n - 8))"
    by (simp only: le_number.simps p) (auto simp: bit_simps bit_uint_iff)
  also have "\<dots> = (n div 8 < length (b # bs) \<and> bit ((b # bs) ! (n div 8)) (n mod 8))"
  proof (cases "n < 8")
    case False
    then have "\<not> bit b n" using bit_imp_le_length[of b n] by auto
    moreover have "n div 8 = Suc ((n - 8) div 8)" "n mod 8 = (n - 8) mod 8" using False
      by (simp_all add: le_div_geq le_mod_geq)
    ultimately show ?thesis using False Cons.IH[of "n - 8"] by simp
  qed simp
  finally show ?case .
qed simp

lemma gather_bits_exact:
  assumes "\<And>n. n < 32 \<Longrightarrow> bit result n = (n < rem \<and> bit (le_number report) (off + n))" "off + rem = 8 * (bo + 1)"
    and "bo < length report" "length report \<le> bo + 1 + fuel" "width < 32"
  shows "\<exists>r. gather_bits report width bo rem fuel result = Some r \<and> (\<forall>n < width. bit r n = bit (le_number report) (off + n))"
  using assms
proof (induction fuel arbitrary: result bo rem)
  case 0
  have "\<not> bit (le_number report) (off + n)" if "n \<ge> rem" for n
  proof -
    have "8 * (bo + 1) \<le> off + n" using that 0(2) by simp
    then have "\<not> (off + n) div 8 < length report" using 0(4) by simp
    then show ?thesis by (simp add: bit_le_number)
  qed
  then have "bit result n = bit (le_number report) (off + n)" if "n < 32" for n using 0(1)[OF that] by (cases "n < rem") auto
  then show ?case using 0(5) by simp
next
  case (Suc fuel)
  show ?case
  proof (cases "width > rem \<and> bo + 1 < length report")
    case True
    then have rem: "rem < 32" using Suc.prems(5) by simp
    have nth: "bit (le_number report) (8 * (bo + 1) + m) = bit (report ! (bo + 1)) m" if "m < 8" for m
    proof -
      have "(8 * (bo + 1) + m) div 8 = bo + 1" "(8 * (bo + 1) + m) mod 8 = m" using that by presburger+
      then show ?thesis using True by (simp only: bit_le_number) simp
    qed
    have res: "bit (result OR push_bit rem (ucast (report ! (bo + 1)))) n = (n < rem + 8 \<and> bit (le_number report) (off + n))" if "n < 32" for n
    proof (cases "n < rem")
      case False
      then have o: "off + n = 8 * (bo + 1) + (n - rem)" using Suc.prems(2) by simp
      have "bit (report ! (bo + 1)) (n - rem) = (n < rem + 8 \<and> bit (le_number report) (off + n))"
      proof (cases "n < rem + 8")
        case True
        then show ?thesis using nth[of "n - rem"] False unfolding o by simp
      next
        case far: False
        then show ?thesis using bit_imp_le_length[of "report ! (bo + 1)" "n - rem"] by auto
      qed
      then show ?thesis using False Suc.prems(1)[OF that] that by (auto simp: bit_simps)
    qed (use Suc.prems(1)[OF that] in \<open>simp add: bit_simps\<close>)
    have "\<exists>r. gather_bits report width (bo + 1) (rem + 8) fuel (result OR push_bit rem (ucast (report ! (bo + 1)))) = Some r \<and>
        (\<forall>n < width. bit r n = bit (le_number report) (off + n))"
      using Suc.prems True res by (intro Suc.IH) auto
    then show ?thesis using True rem by (simp add: rd_def shl32_def)
  next
    case False
    have "bit result n = bit (le_number report) (off + n)" if "n < width" for n
    proof (cases "n < rem")
      case far: False
      have "8 * (bo + 1) \<le> off + n" using far Suc.prems(2) by simp
      then have "\<not> (off + n) div 8 < length report" using that far False by auto
      then have "\<not> bit (le_number report) (off + n)" by (simp add: bit_le_number)
      with far that show ?thesis using Suc.prems(1)[of n] Suc.prems(5) by simp
    qed (use that Suc.prems(1)[of n] Suc.prems(5) in simp)
    with False show ?thesis by auto
  qed
qed


lemma get_report_value_exact:
  assumes "0 < unat (rv_size val)" "unat (rv_size val) < 32"
  shows "get_report_value report val = Some (signed_take_bit (unat (rv_size val) - 1) (drop_bit (unat (rv_offset val)) (le_number report)))"
proof -
  define off where "off = unat (rv_offset val)"
  define width where "width = unat (rv_size val)"
  define bo where "bo = off div 8"
  have w: "0 < width" "width < 32" using assms by (simp_all add: width_def)
  have bo: "unat (drop_bit 3 (rv_offset val)) = bo" by (simp add: bo_def off_def drop_bit_eq_div unat_div)
  show ?thesis
  proof (cases "bo \<ge> length report")
    case True
    have "drop_bit off (le_number report) = 0"
    proof (rule bit_eqI)
      fix n
      have "length report \<le> (off + n) div 8" using True div_le_mono[of off "off + n" 8] by (simp add: bo_def)
      then show "bit (drop_bit off (le_number report)) n = bit 0 n" by (simp add: bit_drop_bit_eq bit_le_number)
    qed
    then show ?thesis using True bo by (simp add: get_report_value_def Let_def flip: off_def)
  next
    case False
    let ?r0 = "ucast (drop_bit (off mod 8) (report ! bo)) :: u32"
    have o: "off = 8 * bo + off mod 8" by (simp add: bo_def)
    have r0: "bit ?r0 n = (n < 8 - off mod 8 \<and> bit (le_number report) (off + n))" if "n < 32" for n
    proof (cases "n < 8 - off mod 8")
      case True
      then have lt: "off mod 8 + n < 8" by simp
      have e: "off + n = 8 * bo + (off mod 8 + n)" using o by simp
      have "(off + n) div 8 = bo" "(off + n) mod 8 = off mod 8 + n" unfolding e using lt by simp_all
      then show ?thesis using True False that by (simp add: bit_simps bit_le_number)
    next
      case far: False
      then show ?thesis using bit_imp_le_length[of "report ! bo" "off mod 8 + n"] by (auto simp: bit_simps)
    qed
    obtain r where r: "gather_bits report width bo (8 - off mod 8) (length report) ?r0 = Some r"
        "\<forall>n < width. bit r n = bit (le_number report) (off + n)"
      using gather_bits_exact[OF r0, of bo "length report" width] o w False by fastforce
    define m where "m = (push_bit width 1 :: u32) - 1"
    have m: "m = mask width" by (simp add: m_def mask_eq_exp_minus_1)
    have half: "drop_bit 1 m + 1 = 2 ^ (width - 1)"
    proof -
      have "drop_bit 1 m = mask (width - 1)" unfolding m using w by (auto simp: bit_eq_iff bit_simps)
      then show ?thesis by (simp add: mask_eq_exp_minus_1)
    qed
    define res where "res = (if (r AND m) AND (drop_bit 1 m + 1) \<noteq> 0 then (r AND m) OR push_bit width 0xFFFFFFFF else r AND m)"
    have top: "((r AND m) AND (drop_bit 1 m + 1) \<noteq> 0) = bit r (width - 1)"
      unfolding half and_exp_eq_0_iff_not_bit unfolding m using w by (auto simp: bit_simps)
    have ones: "(0xFFFFFFFF :: u32) = -1" by simp
    have res: "bit res n = bit r (min (width - 1) n)" if "n < 32" for n
    proof (cases "n < width")
      case True
      then have "min (width - 1) n = n" by simp
      with True that show ?thesis unfolding res_def top unfolding m ones by (auto simp: bit_simps)
    next
      case False
      then have "min (width - 1) n = width - 1" using w by simp
      with False that w show ?thesis unfolding res_def top unfolding m ones by (auto simp: bit_simps)
    qed
    have "get_report_value report val = Some (sint res)"
      using False bo r(1) w by (simp add: get_report_value_def Let_def rd_def shl32_def res_def m_def flip: off_def width_def)
    moreover have "sint res = signed_take_bit (width - 1) (drop_bit off (le_number report))"
    proof (rule bit_eqI)
      fix n
      have "bit (sint res) n = bit res (min n 31)" using bit_imp_le_length[of res n] by (auto simp: bit_sint_iff min_def)
      also have "\<dots> = bit r (min (width - 1) n)" using res[of "min n 31"] w by (auto simp: min_def)
      also have "\<dots> = bit (le_number report) (off + min (width - 1) n)" using r(2) w by simp
      finally show "bit (sint res) n = bit (signed_take_bit (width - 1) (drop_bit off (le_number report))) n"
        by (simp add: bit_signed_take_bit_iff bit_drop_bit_eq)
    qed
    ultimately show ?thesis by (simp add: off_def width_def)
  qed
qed

section \<open>Properties\<close>

lemma descriptor_in_bounds:
  "case parse_report_descriptor (zero_interface protocol) descriptor of
     None \<Rightarrow> \<not> whole_items descriptor
   | Some iface \<Rightarrow> whole_items descriptor \<and> iface_ok iface"
  using parse_items_safe[of "(zero_parser, zero_interface protocol)" descriptor] zero_ok
  by (auto simp: parse_report_descriptor_def split: option.splits prod.splits)

text \<open>C22. Parsing a report descriptor, whatever its bytes, ends and touches only memory it may: every index into the usages, the
  report layouts, the stored items, the keyboards, their key arrays and bitmap sections, and the receivers stays inside its array, and
  the interface it leaves is well-formed: the keyboards found are the first slots. The one exception is exact: the parser reads past
  the descriptor if and only if the last item has fewer data bytes than its header says.\<close>

theorem descriptor_parse_in_bounds:
  "case parse_report_descriptor (zero_interface protocol) descriptor of
     None \<Rightarrow> \<not> whole_items descriptor
   | Some iface \<Rightarrow> whole_items descriptor \<and> iface_ok iface"
  by (rule descriptor_in_bounds)

text \<open>A keyboard with report ID 1: eight modifier bits, six key bytes, as its descriptor says it.\<close>

definition keyboard_descriptor :: "byte list" where
  "keyboard_descriptor = [0x05, 0x01, 0x09, 0x06, 0xA1, 0x01, 0x85, 0x01, 0x05, 0x07, 0x19, 0xE0, 0x29, 0xE7, 0x75, 0x01, 0x95, 0x08,
     0x81, 0x02, 0x75, 0x08, 0x95, 0x06, 0x19, 0x00, 0x29, 0x65, 0x81, 0x00, 0xC0]"

text \<open>C36. Every report of a parsed interface is decoded inside its bytes. A keyboard report of at least eight bytes, the length the
  caller requires, gives a report of six keys whatever the layout; a consumer or system report of any length is refused or gives the
  bytes sent on; routing finds a receiver for every report ID.\<close>

theorem reports_decode_in_bounds:
  assumes "parse_report_descriptor (zero_interface protocol) descriptor = Some iface" "8 \<le> length raw"
  shows "\<exists>r out sys receiver. extract_kbd_data raw iface = Some r \<and> length (kr_keycode r) = 6 \<and>
     extract_consumer_report any_raw iface = Some out \<and> (\<forall>bytes. out = Some bytes \<longrightarrow> length bytes = 4) \<and>
     extract_system_report any_raw iface = Some sys \<and> route_report any_raw iface = Some receiver"
proof -
  have ok: "iface_ok iface" using descriptor_in_bounds[where protocol = protocol and descriptor = descriptor] assms(1) by simp
  show ?thesis
    using safely_Some[OF extract_kbd_data_safe[OF ok assms(2)]] safely_Some[OF extract_consumer_report_safe[OF ok, of any_raw]]
      safely_Some[OF extract_system_report_safe[of any_raw iface]] safely_Some[OF route_report_safe[OF ok, of any_raw]] by blast
qed

theorem reports_decode_witness:
  "(\<exists>iface. parse_report_descriptor (zero_interface 1) keyboard_descriptor = Some iface \<and>
      (\<exists>r. extract_kbd_data [1, 2, 0, 4, 5, 0, 0, 0, 0] iface = Some r \<and> length (kr_keycode r) = 6)) \<and>
   map_option (extract_kbd_data [1, 2, 0, 4, 5, 0, 0, 0, 0]) (parse_report_descriptor (zero_interface 1) keyboard_descriptor) =
     Some (Some \<lparr>kr_modifier = 2, kr_reserved = 0, kr_keycode = [0, 4, 5, 0, 0, 0]\<rparr>)"
proof
  have "parse_report_descriptor (zero_interface 1) keyboard_descriptor \<noteq> None" by code_simp
  then obtain iface where p: "parse_report_descriptor (zero_interface 1) keyboard_descriptor = Some iface" by blast
  then show "\<exists>iface. parse_report_descriptor (zero_interface 1) keyboard_descriptor = Some iface \<and>
      (\<exists>r. extract_kbd_data [1, 2, 0, 4, 5, 0, 0, 0, 0] iface = Some r \<and> length (kr_keycode r) = 6)"
    using reports_decode_in_bounds[OF p, of "[1, 2, 0, 4, 5, 0, 0, 0, 0]"] by auto
  show "map_option (extract_kbd_data [1, 2, 0, 4, 5, 0, 0, 0, 0]) (parse_report_descriptor (zero_interface 1) keyboard_descriptor) =
     Some (Some \<lparr>kr_modifier = 2, kr_reserved = 0, kr_keycode = [0, 4, 5, 0, 0, 0]\<rparr>)" by code_simp
qed

text \<open>C37. A field of a mouse report, one to thirty-one bits wide at any bit offset, reads as the signed number its bits spell in the
  little-endian report: \<open>get_report_value\<close> takes the bits from the offset on and extends the top one. A report that ends inside the
  field, or before it, reads as if zero bits followed.\<close>

theorem report_field_signed_exact:
  assumes "0 < unat (rv_size val)" "unat (rv_size val) < 32"
  shows "get_report_value report val = Some (signed_take_bit (unat (rv_size val) - 1) (drop_bit (unat (rv_offset val)) (le_number report)))"
  using assms by (rule get_report_value_exact)

theorem report_field_witness:
  "get_report_value [0x12, 0xF0, 0xFF] (zero_val\<lparr>rv_offset := 8, rv_size := 12\<rparr>) = Some (- 16)"
proof -
  have "get_report_value [0x12, 0xF0, 0xFF] (zero_val\<lparr>rv_offset := 8, rv_size := 12\<rparr>) =
     Some (signed_take_bit 11 (drop_bit 8 (le_number [0x12, 0xF0, 0xFF])))"
    using report_field_signed_exact[of "zero_val\<lparr>rv_offset := 8, rv_size := 12\<rparr>" "[0x12, 0xF0, 0xFF]"] by simp
  moreover have "signed_take_bit 11 (drop_bit 8 (le_number [0x12, 0xF0, 0xFF])) = - 16" by code_simp
  ultimately show ?thesis by simp
qed

end
