(* ===== verification/DH_Keyboard.thy ===== *)
theory DH_Keyboard
  imports DH_Hid DH_Pointer
begin

text \<open>
  The board's keyboard: the states of the keyboards, the hotkey actions, the report for the computer (\<open>src/src/keyboard.c\<close>, the hotkey
  handlers, \<open>set_active_output\<close>, \<open>handle_keyboard_uart_msg\<close> and \<open>handle_output_select_msg\<close> of \<open>src/src/handlers.c\<close>, the defaults of
  \<open>defaults.c\<close>). The state is the part of \<open>device_t\<close> this code uses; what it hands on is the list \<open>kd_effects\<close>. The clock is read
  once per call. A chord a report completes is kept from the computer while it is held.
\<close>

section \<open>Model: the board's keyboard state\<close>

abbreviation (input) MAX_DEVICES :: nat where "MAX_DEVICES \<equiv> 4"
abbreviation (input) OUTPUT_A :: byte where "OUTPUT_A \<equiv> 0"
abbreviation (input) OUTPUT_B :: byte where "OUTPUT_B \<equiv> 1"

text \<open>The part of an output's configuration the keyboard code uses, with the values of \<open>os_type_e\<close> and of the screensaver modes.\<close>

abbreviation (input) LINUX :: byte where "LINUX \<equiv> 1"
abbreviation (input) MACOS :: byte where "MACOS \<equiv> 2"
abbreviation (input) WINDOWS :: byte where "WINDOWS \<equiv> 3"
abbreviation (input) SCREENSAVER_DISABLED :: byte where "SCREENSAVER_DISABLED \<equiv> 0"
abbreviation (input) SCREENSAVER_PONG :: byte where "SCREENSAVER_PONG \<equiv> 1"
abbreviation (input) SCREENSAVER_JITTER :: byte where "SCREENSAVER_JITTER \<equiv> 2"

record kbd_output =
  ko_os :: byte
  ko_swap_ctrl_gui :: bool
  ko_keymap :: dh_keymap_profile_t
  ko_screensaver_mode :: byte
  ko_border_start :: int
  ko_border_end :: int
  ko_border_direction :: dh_direction_t

text \<open>What the code hands to the rest of the firmware, in order: a report offered to the keyboard queue (with the provenance its
  caller gives it), a packet for the other board, and the calls into other components.\<close>

datatype kbd_effect =
    KbdQueued dh_keyboard_provenance hid_keyboard_report_t
  | PacketQueued byte "byte list"
  | ConsumerQueued "byte list"
  | SystemQueued byte
  | BlinkLed
  | RestoreLeds
  | ChannelOutputChanged byte
  | CursorOutputSwitched
  | SaveConfig
  | WipeConfig
  | ChannelConfigWiped
  | OpenPairingWindow
  | ConfigModeMagic

record kbd_device =
  kd_active_output :: byte
  kd_board_role :: byte
  kd_local_kbd_states :: "hid_keyboard_report_t list"
  kd_remote_kbd_state :: hid_keyboard_report_t
  kd_max_kbd_idx :: byte
  kd_pointer_x :: int
  kd_pointer_y :: int
  kd_outputs :: "kbd_output list"
  kd_config_hotkeys :: "dh_hotkey_t list"
  kd_hotkeys :: "dh_hotkey_t list"
  kd_hotkey_latch :: dh_hotkey_latch_t
  kd_last_activity :: "u64 list"
  kd_last_switch_time :: u64
  kd_output_arrival_guard :: dh_direction_t
  kd_output_arrival_reverse :: u16
  kd_tud_connected :: bool
  kd_reboot_requested :: bool
  kd_bootsel_requested :: bool
  kd_bootsel_requested_at :: u32
  kd_config_exit_requested :: bool
  kd_config_exit_at :: u32
  kd_config_mode_active :: bool
  kd_mouse_zoom :: bool
  kd_switch_lock :: bool
  kd_gaming_mode :: bool
  kd_effects :: "kbd_effect list"

definition kbd_emit :: "kbd_effect \<Rightarrow> kbd_device \<Rightarrow> kbd_device" where
  "kbd_emit e d = d\<lparr>kd_effects := kd_effects d @ [e]\<rparr>"

text \<open>\<open>CURRENT_BOARD_IS_ACTIVE_OUTPUT\<close>.\<close>

definition board_is_active :: "kbd_device \<Rightarrow> bool" where
  "board_is_active d = (kd_active_output d = kd_board_role d)"

abbreviation own_output :: "kbd_device \<Rightarrow> kbd_output" where
  "own_output d \<equiv> kd_outputs d ! unat (kd_board_role d)"

definition touch_activity :: "u64 \<Rightarrow> kbd_device \<Rightarrow> kbd_device" where
  "touch_activity now d = d\<lparr>kd_last_activity := (kd_last_activity d)[unat (kd_board_role d) := now]\<rparr>"

section \<open>Model: keyboard reports\<close>

definition key_in_report :: "byte \<Rightarrow> hid_keyboard_report_t \<Rightarrow> bool" where
  "key_in_report key report = (key \<in> set (kr_keycode report))"

definition check_specific_hotkey :: "dh_hotkey_t \<Rightarrow> hid_keyboard_report_t \<Rightarrow> bool" where
  "check_specific_hotkey keypress report = (dh_hotkey_match [keypress] (kr_modifier report) (kr_keycode report) \<noteq> None)"

definition check_all_hotkeys :: "kbd_device \<Rightarrow> hid_keyboard_report_t \<Rightarrow> dh_keyboard_hotkey_result_t" where
  "check_all_hotkeys d report = dh_keyboard_hotkey_resolve (kd_hotkeys d) (kr_modifier report) (kr_keycode report)"

definition prepare_hotkeys :: "dh_hotkey_t list \<Rightarrow> kbd_device \<Rightarrow> kbd_device" where
  "prepare_hotkeys bindings d = d\<lparr>kd_hotkeys := dh_hotkey_prepare bindings\<rparr>"

definition update_kbd_state :: "hid_keyboard_report_t \<Rightarrow> nat \<Rightarrow> kbd_device \<Rightarrow> kbd_device" where
  "update_kbd_state report device_idx d =
     (if device_idx \<ge> MAX_DEVICES then d
      else d\<lparr>kd_local_kbd_states := (kd_local_kbd_states d)[device_idx := report],
             kd_max_kbd_idx := (if unat (kd_max_kbd_idx d) < device_idx then of_nat device_idx else kd_max_kbd_idx d)\<rparr>)"

definition update_remote_kbd_state :: "hid_keyboard_report_t \<Rightarrow> kbd_device \<Rightarrow> kbd_device" where
  "update_remote_kbd_state report d = d\<lparr>kd_remote_kbd_state := report\<rparr>"

definition add_keys :: "hid_keyboard_report_t \<Rightarrow> hid_keyboard_report_t \<Rightarrow> hid_keyboard_report_t" where
  "add_keys dest src = dest\<lparr>kr_keycode := foldl add_key (kr_keycode dest) (kr_keycode src)\<rparr>"

definition queue_kbd_report :: "dh_keyboard_provenance \<Rightarrow> hid_keyboard_report_t \<Rightarrow> kbd_device \<Rightarrow> kbd_device" where
  "queue_kbd_report provenance report d = (if \<not> kd_tud_connected d then d else kbd_emit (KbdQueued provenance report) d)"

definition release_all_keys :: "kbd_device \<Rightarrow> kbd_device" where
  "release_all_keys d =
     queue_kbd_report DH_KEYBOARD_SYNTHESIZED empty_report
       (d\<lparr>kd_local_kbd_states := replicate MAX_DEVICES empty_report, kd_remote_kbd_state := empty_report\<rparr>)"

definition join_report :: "hid_keyboard_report_t \<Rightarrow> hid_keyboard_report_t \<Rightarrow> hid_keyboard_report_t" where
  "join_report dest src = add_keys (dest\<lparr>kr_modifier := kr_modifier dest OR kr_modifier src\<rparr>) src"

definition combine_held_local_kbd_states :: "kbd_device \<Rightarrow> hid_keyboard_report_t" where
  "combine_held_local_kbd_states d = foldl join_report empty_report (take (Suc (unat (kd_max_kbd_idx d))) (kd_local_kbd_states d))"

definition combine_local_kbd_states :: "kbd_device \<Rightarrow> hid_keyboard_report_t" where
  "combine_local_kbd_states d =
     (let r = combine_held_local_kbd_states d; (m, ks) = dh_hotkey_latch_mask (kd_hotkey_latch d) (kr_modifier r) (kr_keycode r) in
      r\<lparr>kr_modifier := m, kr_keycode := ks\<rparr>)"

definition combine_kbd_states :: "kbd_device \<Rightarrow> hid_keyboard_report_t" where
  "combine_kbd_states d = join_report (combine_local_kbd_states d) (kd_remote_kbd_state d)"

definition output_keyboard_report :: "hid_keyboard_report_t \<Rightarrow> dh_keyboard_provenance \<Rightarrow> kbd_device \<Rightarrow> kbd_device" where
  "output_keyboard_report report provenance d =
     queue_kbd_report provenance
       (dh_keyboard_output_prepare report provenance (Some (ko_keymap (own_output d))) (ko_swap_ctrl_gui (own_output d))) d"

definition queue_remote_keyboard_report :: "hid_keyboard_report_t \<Rightarrow> dh_keyboard_provenance \<Rightarrow> kbd_device \<Rightarrow> kbd_device" where
  "queue_remote_keyboard_report report provenance d =
     (let (packet_type, payload) = dh_keyboard_transport_encode provenance (kbd_report_bytes report) in
      kbd_emit (PacketQueued packet_type payload) d)"

definition send_to_output :: "u64 \<Rightarrow> hid_keyboard_report_t \<Rightarrow> kbd_device \<Rightarrow> kbd_device" where
  "send_to_output now report d =
     (if board_is_active d then touch_activity now (output_keyboard_report report DH_KEYBOARD_PHYSICAL d)
      else queue_remote_keyboard_report report DH_KEYBOARD_PHYSICAL d)"

definition send_key :: "u64 \<Rightarrow> kbd_device \<Rightarrow> kbd_device" where
  "send_key now d = send_to_output now (combine_kbd_states d) d"

definition send_consumer_control :: "u64 \<Rightarrow> byte list \<Rightarrow> kbd_device \<Rightarrow> kbd_device" where
  "send_consumer_control now raw_report d =
     (if board_is_active d then touch_activity now (kbd_emit (ConsumerQueued raw_report) d)
      else kbd_emit (PacketQueued 14 raw_report) d)"

definition send_system_control :: "u64 \<Rightarrow> byte \<Rightarrow> kbd_device \<Rightarrow> kbd_device" where
  "send_system_control now raw_report d =
     (if board_is_active d then touch_activity now (kbd_emit (SystemQueued raw_report) d)
      else kbd_emit (PacketQueued 15 [raw_report]) d)"

section \<open>Model: the hotkey actions\<close>

definition send_value :: "byte \<Rightarrow> byte \<Rightarrow> kbd_device \<Rightarrow> kbd_device" where
  "send_value v packet_type = kbd_emit (PacketQueued packet_type [v])"

definition kbd_set_active_output :: "u64 \<Rightarrow> byte \<Rightarrow> kbd_device \<Rightarrow> kbd_device" where
  "kbd_set_active_output now new_output d =
     release_all_keys (kbd_emit (ChannelOutputChanged new_output) (send_value new_output 3 (kbd_emit RestoreLeds
       (d\<lparr>kd_active_output := new_output, kd_last_switch_time := now, kd_output_arrival_guard := DH_DIRECTION_NONE,
          kd_output_arrival_reverse := 0\<rparr>))))"

definition output_toggle_hotkey_handler :: "u64 \<Rightarrow> kbd_device \<Rightarrow> kbd_device" where
  "output_toggle_hotkey_handler now d =
     (if kd_switch_lock d then d
      else kbd_emit CursorOutputSwitched (kbd_set_active_output now (kd_active_output d XOR 1) d))"

definition get_border_position :: "kbd_device \<Rightarrow> kbd_device" where
  "get_border_position d =
     (let i = unat (kd_active_output d); output = kd_outputs d ! i;
          position = dh_mouse_along_seam (ko_border_direction output) \<lparr>mc_x = kd_pointer_x d, mc_y = kd_pointer_y d\<rparr> in
      d\<lparr>kd_outputs := (kd_outputs d)[i := if position > 16383 then output\<lparr>ko_border_end := position\<rparr>
                                          else output\<lparr>ko_border_start := position\<rparr>]\<rparr>)"

definition border_bytes :: "kbd_output \<Rightarrow> byte list" where
  "border_bytes o' = le_bytes 4 (word_of_int (ko_border_start o') :: u32) @ le_bytes 4 (word_of_int (ko_border_end o') :: u32)"

definition screen_border_hotkey_handler :: "kbd_device \<Rightarrow> kbd_device" where
  "screen_border_hotkey_handler d =
     (let d = (if board_is_active d then kbd_emit SaveConfig (get_border_position d) else d) in
      kbd_emit (PacketQueued 8 (border_bytes (kd_outputs d ! unat (kd_active_output d)))) d)"

definition request_bootsel :: "u32 \<Rightarrow> kbd_device \<Rightarrow> kbd_device" where
  "request_bootsel now d =
     (if kd_bootsel_requested d then d else d\<lparr>kd_bootsel_requested_at := now, kd_bootsel_requested := True\<rparr>)"

definition fw_upgrade_board :: "u32 \<Rightarrow> byte \<Rightarrow> kbd_device \<Rightarrow> kbd_device" where
  "fw_upgrade_board now named_role d = (if kd_board_role d = named_role then request_bootsel now d else send_value 1 4 d)"

definition switchlock_hotkey_handler :: "kbd_device \<Rightarrow> kbd_device" where
  "switchlock_hotkey_handler d =
     (let d = d\<lparr>kd_switch_lock := \<not> kd_switch_lock d\<rparr> in send_value (if kd_switch_lock d then 1 else 0) 7 d)"

definition toggle_gaming_mode_handler :: "kbd_device \<Rightarrow> kbd_device" where
  "toggle_gaming_mode_handler d =
     (let d = d\<lparr>kd_gaming_mode := \<not> kd_gaming_mode d\<rparr> in send_value (if kd_gaming_mode d then 1 else 0) 13 d)"

definition mouse_zoom_hotkey_handler :: "kbd_device \<Rightarrow> kbd_device" where
  "mouse_zoom_hotkey_handler d =
     (let d = d\<lparr>kd_mouse_zoom := \<not> kd_mouse_zoom d\<rparr> in send_value (if kd_mouse_zoom d then 1 else 0) 5 d)"

text \<open>The lock chord of one operating system, over the report of the previous output of the loop.\<close>

definition lock_chord :: "byte \<Rightarrow> hid_keyboard_report_t \<Rightarrow> hid_keyboard_report_t" where
  "lock_chord os report =
     (if os = WINDOWS \<or> os = LINUX then report\<lparr>kr_modifier := 0x08, kr_keycode := (kr_keycode report)[0 := 0x0f]\<rparr>
      else if os = MACOS then report\<lparr>kr_modifier := 0x09, kr_keycode := (kr_keycode report)[0 := 0x14]\<rparr>
      else report)"

definition lock_output :: "nat \<Rightarrow> hid_keyboard_report_t \<Rightarrow> kbd_device \<Rightarrow> hid_keyboard_report_t \<times> kbd_device" where
  "lock_output out report d =
     (let report = lock_chord (ko_os (kd_outputs d ! out)) report in
      (report,
       if unat (kd_board_role d) = out then release_all_keys (queue_kbd_report DH_KEYBOARD_SYNTHESIZED report d)
       else queue_remote_keyboard_report empty_report DH_KEYBOARD_SYNTHESIZED
              (queue_remote_keyboard_report report DH_KEYBOARD_SYNTHESIZED d)))"

definition screenlock_hotkey_handler :: "kbd_device \<Rightarrow> kbd_device" where
  "screenlock_hotkey_handler d =
     (let (report, d) = lock_output 0 empty_report d; (report, d) = lock_output 1 report d in d)"

text \<open>The defaults a wipe falls back to, of \<open>defaults.c\<close>, \<open>dh_hotkey_defaults.h\<close> and \<open>user_config.h\<close>.\<close>

definition zero_keymap :: dh_keymap_profile_t where
  "zero_keymap = \<lparr>kp_overrides = replicate 32 \<lparr>ov_from = 0, ov_to = 0\<rparr>, kp_override_count = 0, kp_passthrough = replicate 16 0,
     kp_passthrough_count = 0\<rparr>"

definition default_outputs :: "kbd_output list" where
  "default_outputs =
     [\<lparr>ko_os = MACOS, ko_swap_ctrl_gui = True, ko_keymap = zero_keymap, ko_screensaver_mode = SCREENSAVER_DISABLED, ko_border_start = 0,
       ko_border_end = 32767, ko_border_direction = DH_DIRECTION_LEFT\<rparr>,
      \<lparr>ko_os = LINUX, ko_swap_ctrl_gui = False, ko_keymap = zero_keymap, ko_screensaver_mode = SCREENSAVER_DISABLED, ko_border_start = 0,
       ko_border_end = 32767, ko_border_direction = DH_DIRECTION_RIGHT\<rparr>]"

definition binding :: "byte \<Rightarrow> byte list \<Rightarrow> byte \<Rightarrow> dh_hotkey_t" where
  "binding modifier keys action_id =
     \<lparr>hk_modifier = modifier, hk_keys = pack_keys keys, hk_key_count = of_nat (length keys), hk_action_id = action_id\<rparr>"

definition DH_HOTKEY_DEFAULTS :: "dh_hotkey_t list" where
  "DH_HOTKEY_DEFAULTS =
     [binding 0x01 [0x39] 0, binding 0x40 [0x10] 1, binding 0x40 [0x0e] 2, binding 0x40 [0x0f] 3, binding 0x21 [0x0a] 4,
      binding 0x21 [0x16] 5, binding 0x21 [0x0d] 6, binding 0x21 [0x1b] 7, binding 0x20 [0x45, 0x07] 8, binding 0x20 [0x45, 0x1c] 9,
      binding 0x21 [0x06, 0x12] 10, binding 0x22 [0x04] 11, binding 0x22 [0x05] 12]"

definition wipe_local_config :: "kbd_device \<Rightarrow> kbd_device" where
  "wipe_local_config d =
     kbd_emit ChannelConfigWiped (prepare_hotkeys DH_HOTKEY_DEFAULTS (kbd_emit WipeConfig
       (d\<lparr>kd_outputs := default_outputs, kd_config_hotkeys := DH_HOTKEY_DEFAULTS\<rparr>)))"

definition wipe_config_hotkey_handler :: "kbd_device \<Rightarrow> kbd_device" where
  "wipe_config_hotkey_handler d = send_value 1 10 (wipe_local_config d)"

definition pair_hotkey_handler :: "kbd_device \<Rightarrow> kbd_device" where
  "pair_hotkey_handler d = send_value 1 36 (kbd_emit OpenPairingWindow d)"

definition screensaver_set :: "byte \<Rightarrow> kbd_device \<Rightarrow> kbd_device" where
  "screensaver_set v d =
     (if board_is_active d
      then d\<lparr>kd_outputs := (kd_outputs d)[unat (kd_board_role d) := (own_output d)\<lparr>ko_screensaver_mode := v\<rparr>]\<rparr>
      else send_value v 11 d)"

definition enable_screensaver_hotkey_handler :: "byte \<Rightarrow> byte \<Rightarrow> kbd_device \<Rightarrow> kbd_device" where
  "enable_screensaver_hotkey_handler wanted other d =
     (let mode = ko_screensaver_mode (own_output d) in
      screensaver_set (if mode = SCREENSAVER_DISABLED \<or> mode = other then wanted else mode) d)"

definition config_enable_hotkey_handler :: "u32 \<Rightarrow> kbd_device \<Rightarrow> kbd_device" where
  "config_enable_hotkey_handler now d =
     (let d = (if \<not> kd_config_mode_active d then kbd_emit ConfigModeMagic d else d); d = release_all_keys d in
      if kd_config_mode_active d
      then (if kd_config_exit_requested d then d else d\<lparr>kd_config_exit_at := now, kd_config_exit_requested := True\<rparr>)
      else d\<lparr>kd_reboot_requested := True\<rparr>)"

text \<open>The table of handlers, and the pair chord that has no slot in it.\<close>

definition hotkey_actions :: "u64 \<Rightarrow> byte \<Rightarrow> kbd_device \<Rightarrow> kbd_device" where
  "hotkey_actions now action_id =
     (if action_id = DH_HOTKEY_ACTION_PAIR then pair_hotkey_handler
      else if action_id = DH_HOTKEY_ACTION_OUTPUT_TOGGLE then output_toggle_hotkey_handler now
      else if action_id = DH_HOTKEY_ACTION_MOUSE_ZOOM then mouse_zoom_hotkey_handler
      else if action_id = DH_HOTKEY_ACTION_SWITCHLOCK then switchlock_hotkey_handler
      else if action_id = DH_HOTKEY_ACTION_SCREENLOCK then screenlock_hotkey_handler
      else if action_id = DH_HOTKEY_ACTION_GAMING_MODE then toggle_gaming_mode_handler
      else if action_id = DH_HOTKEY_ACTION_SCREENSAVER_PONG then enable_screensaver_hotkey_handler SCREENSAVER_PONG SCREENSAVER_JITTER
      else if action_id = DH_HOTKEY_ACTION_SCREENSAVER_JITTER then enable_screensaver_hotkey_handler SCREENSAVER_JITTER SCREENSAVER_PONG
      else if action_id = DH_HOTKEY_ACTION_SCREENSAVER_DISABLE then screensaver_set SCREENSAVER_DISABLED
      else if action_id = DH_HOTKEY_ACTION_WIPE_CONFIG then wipe_config_hotkey_handler
      else if action_id = DH_HOTKEY_ACTION_SCREEN_SEAM then screen_border_hotkey_handler
      else if action_id = DH_HOTKEY_ACTION_CONFIG_ENABLE then config_enable_hotkey_handler (ucast now)
      else if action_id = DH_HOTKEY_ACTION_FW_UPGRADE_A then fw_upgrade_board (ucast now) OUTPUT_A
      else fw_upgrade_board (ucast now) OUTPUT_B)"

section \<open>Model: a report from a keyboard\<close>

text \<open>From the decoded report on: the state of the keyboard, the latch, the hotkeys, the report for the computer.\<close>

definition take_keyboard_report :: "u64 \<Rightarrow> hid_keyboard_report_t \<Rightarrow> nat \<Rightarrow> kbd_device \<Rightarrow> kbd_device" where
  "take_keyboard_report now new_report itf d =
     (let d = update_kbd_state new_report itf d;
          held = combine_held_local_kbd_states d;
          d = d\<lparr>kd_hotkey_latch := dh_hotkey_latch_release (kd_hotkey_latch d) (kr_modifier held) (kr_keycode held)\<rparr>;
          hotkey = check_all_hotkeys d new_report;
          d = (if hr_matched hotkey \<and> \<not> hr_pass_to_os hotkey
               then let d = d\<lparr>kd_hotkey_latch := dh_hotkey_latch_hold (kd_hotkey_latch d) (hr_chord hotkey)\<rparr> in
                 if hr_releases_all_keys hotkey then send_to_output now empty_report d else send_key now d
               else d) in
      if hr_matched hotkey
      then let d = hotkey_actions now (hr_action_id hotkey) (if hr_acknowledge hotkey then kbd_emit BlinkLed d else d) in
        if hr_pass_to_os hotkey then send_key now d else d
      else send_key now d)"

definition process_keyboard_report :: "u64 \<Rightarrow> byte list \<Rightarrow> nat \<Rightarrow> hid_interface_t \<Rightarrow> kbd_device \<Rightarrow> kbd_device option" where
  "process_keyboard_report now raw_report itf iface d =
     (if length raw_report < KBD_REPORT_LENGTH then Some d
      else if kd_reboot_requested d then Some d
      else map_option (\<lambda>new_report. take_keyboard_report now new_report itf d) (extract_kbd_data raw_report iface))"

definition process_consumer_report :: "u64 \<Rightarrow> byte list \<Rightarrow> hid_interface_t \<Rightarrow> kbd_device \<Rightarrow> kbd_device option" where
  "process_consumer_report now raw_report iface d =
     map_option (\<lambda>r. case r of Some bytes \<Rightarrow> send_consumer_control now bytes d | None \<Rightarrow> d) (extract_consumer_report raw_report iface)"

definition process_system_report :: "u64 \<Rightarrow> byte list \<Rightarrow> hid_interface_t \<Rightarrow> kbd_device \<Rightarrow> kbd_device option" where
  "process_system_report now raw_report iface d =
     map_option (\<lambda>r. case r of Some b \<Rightarrow> send_system_control now b d | None \<Rightarrow> d) (extract_system_report raw_report iface)"

text \<open>The other board's messages: its keyboard, and its switch of the output.\<close>

definition handle_keyboard_uart_msg :: "u64 \<Rightarrow> byte \<Rightarrow> byte list \<Rightarrow> kbd_device \<Rightarrow> kbd_device" where
  "handle_keyboard_uart_msg now packet_type payload d =
     (case dh_keyboard_transport_decode packet_type payload of
        None \<Rightarrow> d
      | Some (provenance, bytes) \<Rightarrow>
          let report = report_of_bytes bytes; d = update_remote_kbd_state report d in
          touch_activity now
            (if provenance = DH_KEYBOARD_SYNTHESIZED
             then queue_kbd_report provenance
                    (dh_keyboard_output_merge (combine_local_kbd_states d) report (Some (ko_keymap (own_output d)))
                       (ko_swap_ctrl_gui (own_output d))) d
             else output_keyboard_report (combine_kbd_states d) provenance d))"

definition handle_output_select_msg :: "u64 \<Rightarrow> byte \<Rightarrow> kbd_device \<Rightarrow> kbd_device" where
  "handle_output_select_msg now output d =
     (let d = d\<lparr>kd_active_output := output, kd_last_switch_time := now, kd_output_arrival_guard := DH_DIRECTION_NONE,
                kd_output_arrival_reverse := 0\<rparr>;
          d = (if kd_tud_connected d then release_all_keys d else d) in
      kbd_emit CursorOutputSwitched (kbd_emit (ChannelOutputChanged output) (kbd_emit RestoreLeds d)))"

section \<open>Presses: a key or a modifier\<close>

datatype press = Key byte | Modifier nat

fun in_report :: "press \<Rightarrow> hid_keyboard_report_t \<Rightarrow> bool" where
  "in_report (Key k) r = (k \<in> key_set (kr_keycode r))"
| "in_report (Modifier b) r = bit (kr_modifier r) b"

fun in_latch :: "press \<Rightarrow> dh_hotkey_latch_t \<Rightarrow> bool" where
  "in_latch (Key k) l = (k \<in> key_set (hl_keys l))"
| "in_latch (Modifier b) l = bit (hl_modifier l) b"

fun in_chord :: "press \<Rightarrow> dh_hotkey_t \<Rightarrow> bool" where
  "in_chord (Key k) h = (k \<in> key_set (chord_keys h))"
| "in_chord (Modifier b) h = bit (hk_modifier h) b"

definition report_ok :: "hid_keyboard_report_t \<Rightarrow> bool" where
  "report_ok r = keys_ok (kr_keycode r)"

lemma empty_report_ok [simp]: "report_ok empty_report" "\<not> in_report p empty_report" "key_set (kr_keycode empty_report) = {}"
  by (cases p; simp add: report_ok_def keys_ok_def empty_report_def)+

lemma join_report_le: "in_report p (join_report r s) \<Longrightarrow> in_report p r \<or> in_report p s"
  using add_keys_le(2)[of "kr_keycode r" "kr_keycode s"]
  by (cases p) (auto simp: join_report_def add_keys_def bit_simps)

lemma join_report_left: "in_report p r \<Longrightarrow> in_report p (join_report r s)"
  using add_keys_le(1)[of "kr_keycode r" "kr_keycode s"]
  by (cases p) (auto simp: join_report_def add_keys_def bit_simps)

lemma join_report_ok: "report_ok r \<Longrightarrow> report_ok (join_report r s)"
  by (simp add: report_ok_def join_report_def add_keys_def keys_ok_add_keys)

lemma join_report_exact:
  "report_ok r \<Longrightarrow> card (key_set (kr_keycode r) \<union> key_set (kr_keycode s)) \<le> 6 \<Longrightarrow>
   key_set (kr_keycode (join_report r s)) = key_set (kr_keycode r) \<union> key_set (kr_keycode s)"
  by (simp add: report_ok_def join_report_def add_keys_def add_keys_exact)

text \<open>The keys the reports of a list hold together, and the join of all of them.\<close>

definition all_keys :: "hid_keyboard_report_t list \<Rightarrow> byte set" where
  "all_keys rs = (\<Union>r \<in> set rs. key_set (kr_keycode r))"

lemma finite_all_keys [simp]: "finite (all_keys rs)"
  by (simp add: all_keys_def)

lemma join_reports_ok: "report_ok r \<Longrightarrow> report_ok (foldl join_report r rs)"
  by (induction rs arbitrary: r) (simp_all add: join_report_ok)

lemma join_reports_exact:
  assumes "report_ok r" "card (key_set (kr_keycode r) \<union> all_keys rs) \<le> 6"
  shows "key_set (kr_keycode (foldl join_report r rs)) = key_set (kr_keycode r) \<union> all_keys rs"
  using assms
proof (induction rs arbitrary: r)
  case (Cons s rs)
  have "card (key_set (kr_keycode r) \<union> key_set (kr_keycode s)) \<le> card (key_set (kr_keycode r) \<union> all_keys (s # rs))"
    by (intro card_mono) (auto simp: all_keys_def)
  then have j: "key_set (kr_keycode (join_report r s)) = key_set (kr_keycode r) \<union> key_set (kr_keycode s)"
    using join_report_exact Cons.prems by simp
  have u: "key_set (kr_keycode r) \<union> key_set (kr_keycode s) \<union> all_keys rs = key_set (kr_keycode r) \<union> all_keys (s # rs)"
    by (auto simp: all_keys_def)
  have "key_set (kr_keycode (foldl join_report (join_report r s) rs)) = key_set (kr_keycode (join_report r s)) \<union> all_keys rs"
    using Cons.prems j u by (intro Cons.IH) (simp_all add: join_report_ok)
  then show ?case using j u by simp
qed (simp add: all_keys_def)

text \<open>The latch, press by press.\<close>

lemma mask_press:
  "in_report p (r\<lparr>kr_modifier := fst (dh_hotkey_latch_mask l (kr_modifier r) (kr_keycode r)),
                 kr_keycode := snd (dh_hotkey_latch_mask l (kr_modifier r) (kr_keycode r))\<rparr>) \<longleftrightarrow> in_report p r \<and> \<not> in_latch p l"
proof (cases p)
  case (Modifier b)
  then show ?thesis using bit_imp_le_length[of "kr_modifier r" b] by (auto simp: mask_eq bit_simps)
qed (simp add: mask_keys)

lemma release_press: "in_latch p (dh_hotkey_latch_release l (kr_modifier r) (kr_keycode r)) \<longleftrightarrow> in_latch p l \<and> in_report p r"
  using release_keys[of l "kr_modifier r" "kr_keycode r"] by (cases p) (auto simp: dh_hotkey_latch_release_def bit_simps)

lemma hold_press:
  assumes "keys_ok (hl_keys l)" "card (key_set (hl_keys l) \<union> key_set (chord_keys c)) \<le> 6"
  shows "in_latch p (dh_hotkey_latch_hold l c) \<longleftrightarrow> in_latch p l \<or> in_chord p c"
  using hold_keys[OF assms] by (cases p) (simp_all add: dh_hotkey_latch_hold_def bit_simps)

section \<open>What a board that is well-formed holds\<close>

definition kbd_ok :: "kbd_device \<Rightarrow> bool" where
  "kbd_ok d = (length (kd_local_kbd_states d) = 4 \<and> unat (kd_max_kbd_idx d) < 4 \<and> keys_ok (hl_keys (kd_hotkey_latch d)) \<and>
     (\<forall>h \<in> set (kd_hotkeys d). length (hk_keys h) = 6))"

definition live_states :: "kbd_device \<Rightarrow> hid_keyboard_report_t list" where
  "live_states d = take (Suc (unat (kd_max_kbd_idx d))) (kd_local_kbd_states d)"

text \<open>The keyboards together hold no more keys than one report carries.\<close>

definition fits :: "kbd_device \<Rightarrow> bool" where
  "fits d = (card (all_keys (live_states d)) \<le> 6)"

lemma held_exact: "fits d \<Longrightarrow> key_set (kr_keycode (combine_held_local_kbd_states d)) = all_keys (live_states d)"
  using join_reports_exact[of empty_report "live_states d"]
  by (simp add: combine_held_local_kbd_states_def fits_def live_states_def)

lemma combine_local_press: "in_report p (combine_local_kbd_states d) \<longleftrightarrow> in_report p (combine_held_local_kbd_states d) \<and> \<not> in_latch p (kd_hotkey_latch d)"
  using mask_press[where p = p and r = "combine_held_local_kbd_states d" and l = "kd_hotkey_latch d"]
  by (simp add: combine_local_kbd_states_def Let_def case_prod_unfold)

lemma combine_press:
  assumes "in_latch p (kd_hotkey_latch d)" "\<not> in_report p (kd_remote_kbd_state d)"
  shows "\<not> in_report p (combine_kbd_states d)"
  using join_report_le[of p "combine_local_kbd_states d" "kd_remote_kbd_state d"] assms
  unfolding combine_kbd_states_def combine_local_press by blast

text \<open>The chord a report resolves to is held by that report.\<close>

lemma match_in_table: "dh_hotkey_match hs m ks = Some h \<Longrightarrow> h \<in> set hs \<and> hotkey_matches m ks h"
  by (auto simp: dh_hotkey_match_def find_Some_iff)

lemma resolve_chord:
  assumes "hr_matched (dh_keyboard_hotkey_resolve hs m ks)" "\<forall>h \<in> set hs. length (hk_keys h) = 6"
  shows "key_set (chord_keys (hr_chord (dh_keyboard_hotkey_resolve hs m ks))) \<subseteq> key_set ks"
proof -
  obtain h where h: "dh_hotkey_match_with_fixed hs m ks = Some h" "hr_chord (dh_keyboard_hotkey_resolve hs m ks) = h"
    using assms(1) by (auto simp: dh_keyboard_hotkey_resolve_def no_hotkey_def split: option.splits if_splits)
  have "h \<in> set fixed_chords \<or> h \<in> set hs" "hotkey_matches m ks h"
    using h(1) match_in_table by (auto simp: dh_hotkey_match_with_fixed_def split: option.splits)
  moreover have "\<forall>h \<in> set fixed_chords. length (hk_keys h) = 6" by (simp add: fixed_chords_def)
  ultimately have "set (chord_keys h) \<subseteq> key_set ks" using assms(2) hotkey_matches_iff by blast
  then show ?thesis using h(2) by (auto simp: key_set_def)
qed

section \<open>The effects of a step\<close>

text \<open>\<open>d'\<close> comes after \<open>d\<close>, and every effect between them satisfies \<open>P\<close>.\<close>

definition after :: "(kbd_effect \<Rightarrow> bool) \<Rightarrow> kbd_device \<Rightarrow> kbd_device \<Rightarrow> bool" where
  "after P d d' = (\<exists>es. kd_effects d' = kd_effects d @ es \<and> (\<forall>e \<in> set es. P e))"

lemma after_refl [intro]: "kd_effects d' = kd_effects d \<Longrightarrow> after P d d'"
  by (simp add: after_def)

lemma after_trans: "after P d d' \<Longrightarrow> after P d' d'' \<Longrightarrow> after P d d''"
  unfolding after_def by (metis (no_types, lifting) UnE append_assoc set_append)

lemma after_emit: "P e \<Longrightarrow> after P d (kbd_emit e d)"
  by (simp add: after_def kbd_emit_def)

lemma after_mono: "after P d d' \<Longrightarrow> (\<And>e. P e \<Longrightarrow> Q e) \<Longrightarrow> after Q d d'"
  unfolding after_def by blast

text \<open>An effect that is not a physical keyboard report.\<close>

fun not_physical :: "kbd_effect \<Rightarrow> bool" where
  "not_physical (KbdQueued provenance r) = (provenance = DH_KEYBOARD_SYNTHESIZED)"
| "not_physical (PacketQueued packet_type bs) = (packet_type \<noteq> DH_KEYBOARD_PHYSICAL_PACKET)"
| "not_physical _ = True"

text \<open>What the actions keep of the keyboard state, and what they hand out.\<close>

definition keeps :: "kbd_device \<Rightarrow> kbd_device \<Rightarrow> bool" where
  "keeps d d' = (after not_physical d d' \<and> kd_hotkey_latch d' = kd_hotkey_latch d \<and> kd_max_kbd_idx d' = kd_max_kbd_idx d \<and>
     (length (kd_local_kbd_states d) = 4 \<longrightarrow> length (kd_local_kbd_states d') = 4) \<and>
     (\<forall>h \<in> set (kd_hotkeys d'). h \<in> set (kd_hotkeys d) \<or> length (hk_keys h) = 6))"

lemma keeps_refl: "keeps d d"
  by (auto simp: keeps_def)

lemma keeps_trans: "keeps d d' \<Longrightarrow> keeps d' d'' \<Longrightarrow> keeps d d''"
  using after_trans unfolding keeps_def by (metis (no_types, lifting))

lemma keeps_emit: "not_physical e \<Longrightarrow> keeps d d' \<Longrightarrow> keeps d (kbd_emit e d')"
  using after_trans[OF _ after_emit] by (simp add: keeps_def kbd_emit_def)

lemma keeps_upd:
  assumes "keeps d d'" "kd_effects d'' = kd_effects d'" "kd_hotkey_latch d'' = kd_hotkey_latch d'" "kd_max_kbd_idx d'' = kd_max_kbd_idx d'"
    "kd_local_kbd_states d'' = kd_local_kbd_states d'" "kd_hotkeys d'' = kd_hotkeys d'"
  shows "keeps d d''"
  using assms by (simp add: keeps_def after_def)

lemma keeps_queue: "keeps d d' \<Longrightarrow> keeps d (queue_kbd_report DH_KEYBOARD_SYNTHESIZED r d')"
  by (simp add: queue_kbd_report_def keeps_emit)

lemma keeps_release: "keeps d d' \<Longrightarrow> keeps d (release_all_keys d')"
  unfolding release_all_keys_def by (rule keeps_queue) (simp add: keeps_def after_def)

lemma keeps_send_value: "t \<noteq> 1 \<Longrightarrow> keeps d d' \<Longrightarrow> keeps d (send_value v t d')"
  by (simp add: send_value_def keeps_emit)

lemma keeps_remote: "keeps d d' \<Longrightarrow> keeps d (queue_remote_keyboard_report r DH_KEYBOARD_SYNTHESIZED d')"
  by (simp add: queue_remote_keyboard_report_def dh_keyboard_transport_encode_def keeps_emit)

lemmas keeps_intros = keeps_refl keeps_emit keeps_queue keeps_release keeps_send_value keeps_remote

lemma keeps_lock: "keeps d d' \<Longrightarrow> keeps d (snd (lock_output i r d'))"
  by (simp add: lock_output_def Let_def keeps_intros)

lemma default_keys: "\<forall>h \<in> set (dh_hotkey_prepare DH_HOTKEY_DEFAULTS). length (hk_keys h) = 6"
  unfolding prepare_sort set_sort by (simp add: DH_HOTKEY_DEFAULTS_def binding_def pack_keys_def)

lemma keeps_wipe: "keeps d (wipe_local_config d)"
  unfolding wipe_local_config_def
proof (rule keeps_emit)
  let ?d = "kbd_emit WipeConfig (d\<lparr>kd_outputs := default_outputs, kd_config_hotkeys := DH_HOTKEY_DEFAULTS\<rparr>)"
  have "keeps d ?d" by (rule keeps_emit) (auto intro: keeps_upd[OF keeps_refl])
  then show "keeps d (prepare_hotkeys DH_HOTKEY_DEFAULTS ?d)"
    using default_keys by (simp add: keeps_def prepare_hotkeys_def after_def)
qed simp

lemma keeps_actions: "keeps d (hotkey_actions now a d)"
proof -
  have toggle: "keeps d (output_toggle_hotkey_handler now d)"
    unfolding output_toggle_hotkey_handler_def kbd_set_active_output_def by (auto intro!: keeps_intros keeps_upd[OF keeps_refl])
  have border: "keeps d (screen_border_hotkey_handler d)"
    unfolding screen_border_hotkey_handler_def get_border_position_def Let_def by (auto intro!: keeps_intros keeps_upd[OF keeps_refl])
  have lock: "keeps d (screenlock_hotkey_handler d)"
    unfolding screenlock_hotkey_handler_def Let_def case_prod_unfold by (intro keeps_lock keeps_refl)
  have wipe: "keeps d (wipe_config_hotkey_handler d)"
    unfolding wipe_config_hotkey_handler_def by (rule keeps_send_value[OF _ keeps_wipe]) simp
  have config: "keeps d (config_enable_hotkey_handler now' d)" for now'
  proof -
    define e where "e = release_all_keys (if \<not> kd_config_mode_active d then kbd_emit ConfigModeMagic d else d)"
    have "keeps d e" unfolding e_def by (auto intro!: keeps_intros)
    then have "keeps d (e\<lparr>kd_config_exit_at := now', kd_config_exit_requested := True\<rparr>)" "keeps d (e\<lparr>kd_reboot_requested := True\<rparr>)"
      by (rule keeps_upd; simp)+
    with \<open>keeps d e\<close> show ?thesis unfolding config_enable_hotkey_handler_def Let_def e_def[symmetric] by simp
  qed
  have flags: "keeps d (switchlock_hotkey_handler d)" "keeps d (toggle_gaming_mode_handler d)" "keeps d (mouse_zoom_hotkey_handler d)"
    "keeps d (pair_hotkey_handler d)" "keeps d (fw_upgrade_board now' role d)" "keeps d (screensaver_set v d)"
    "keeps d (enable_screensaver_hotkey_handler w o' d)" for now' role v w o'
    unfolding switchlock_hotkey_handler_def toggle_gaming_mode_handler_def mouse_zoom_hotkey_handler_def pair_hotkey_handler_def
      fw_upgrade_board_def request_bootsel_def enable_screensaver_hotkey_handler_def screensaver_set_def Let_def
    by (auto intro!: keeps_intros keeps_upd[OF keeps_refl])
  show ?thesis unfolding hotkey_actions_def
    using toggle border lock wipe config flags by (simp split: if_split)
qed

section \<open>A chord is not typed\<close>

text \<open>An effect that carries a physical report built without the press, by this output's key map or as it stands for the other board.\<close>

fun clear_of :: "press \<Rightarrow> kbd_output \<Rightarrow> kbd_effect \<Rightarrow> bool" where
  "clear_of p o' (KbdQueued DH_KEYBOARD_PHYSICAL emitted) =
     (\<exists>r. emitted = dh_keyboard_output_prepare r DH_KEYBOARD_PHYSICAL (Some (ko_keymap o')) (ko_swap_ctrl_gui o') \<and> \<not> in_report p r)"
| "clear_of p o' (PacketQueued packet_type payload) =
     (packet_type = DH_KEYBOARD_PHYSICAL_PACKET \<longrightarrow> (\<exists>r. payload = kbd_report_bytes r \<and> \<not> in_report p r))"
| "clear_of p o' _ = True"

lemma not_physical_clear: "not_physical e \<Longrightarrow> clear_of p o' e"
  by (cases e) auto

lemma send_to_output_after:
  assumes "\<not> in_report p r"
  shows "after (clear_of p (own_output d)) d (send_to_output now r d)"
  using assms
  by (auto simp: send_to_output_def after_def touch_activity_def output_keyboard_report_def queue_kbd_report_def kbd_emit_def
      queue_remote_keyboard_report_def dh_keyboard_transport_encode_def Let_def)

lemma send_to_output_fields [simp]:
  "kd_hotkey_latch (send_to_output now r d) = kd_hotkey_latch d" "kd_hotkeys (send_to_output now r d) = kd_hotkeys d"
  "kd_outputs (send_to_output now r d) = kd_outputs d" "kd_board_role (send_to_output now r d) = kd_board_role d"
  "kd_local_kbd_states (send_to_output now r d) = kd_local_kbd_states d" "kd_max_kbd_idx (send_to_output now r d) = kd_max_kbd_idx d"
  "kd_remote_kbd_state (send_to_output now r d) = kd_remote_kbd_state d"
  by (simp_all add: send_to_output_def touch_activity_def output_keyboard_report_def queue_kbd_report_def kbd_emit_def
      queue_remote_keyboard_report_def dh_keyboard_transport_encode_def Let_def)

lemma send_key_after:
  assumes "in_latch p (kd_hotkey_latch d)" "\<not> in_report p (kd_remote_kbd_state d)"
  shows "after (clear_of p (own_output d)) d (send_key now d)"
  unfolding send_key_def by (rule send_to_output_after[OF combine_press[OF assms]])

text \<open>The state in which a report is judged: the keyboard updated, the released keys let go.\<close>

definition released :: "hid_keyboard_report_t \<Rightarrow> nat \<Rightarrow> kbd_device \<Rightarrow> kbd_device" where
  "released r itf d =
     (let d = update_kbd_state r itf d; held = combine_held_local_kbd_states d in
      d\<lparr>kd_hotkey_latch := dh_hotkey_latch_release (kd_hotkey_latch d) (kr_modifier held) (kr_keycode held)\<rparr>)"

definition latched :: "hid_keyboard_report_t \<Rightarrow> nat \<Rightarrow> kbd_device \<Rightarrow> kbd_device" where
  "latched r itf d =
     (let h = check_all_hotkeys d r; d = released r itf d in
      if hr_matched h \<and> \<not> hr_pass_to_os h then d\<lparr>kd_hotkey_latch := dh_hotkey_latch_hold (kd_hotkey_latch d) (hr_chord h)\<rparr> else d)"

lemma released_fields [simp]:
  "kd_hotkeys (released r itf d) = kd_hotkeys d" "kd_effects (released r itf d) = kd_effects d"
  "kd_outputs (released r itf d) = kd_outputs d" "kd_board_role (released r itf d) = kd_board_role d"
  "kd_remote_kbd_state (released r itf d) = kd_remote_kbd_state d" "check_all_hotkeys (released r itf d) s = check_all_hotkeys d s"
  by (simp_all add: released_def update_kbd_state_def Let_def check_all_hotkeys_def)

lemma latched_fields [simp]:
  "kd_hotkeys (latched r itf d) = kd_hotkeys d" "kd_effects (latched r itf d) = kd_effects d"
  "kd_outputs (latched r itf d) = kd_outputs d" "kd_board_role (latched r itf d) = kd_board_role d"
  "kd_remote_kbd_state (latched r itf d) = kd_remote_kbd_state d"
  "kd_local_kbd_states (latched r itf d) = kd_local_kbd_states (released r itf d)" "kd_max_kbd_idx (latched r itf d) = kd_max_kbd_idx (released r itf d)"
  by (simp_all add: latched_def Let_def)

lemma take_report_eq:
  "take_keyboard_report now r itf d =
     (let h = check_all_hotkeys d r; d = latched r itf d in
      if hr_matched h
      then (if hr_pass_to_os h
            then send_key now (hotkey_actions now (hr_action_id h) (if hr_acknowledge h then kbd_emit BlinkLed d else d))
            else let d = (if hr_releases_all_keys h then send_to_output now empty_report d else send_key now d) in
              hotkey_actions now (hr_action_id h) (if hr_acknowledge h then kbd_emit BlinkLed d else d))
      else send_key now d)"
proof -
  have "check_all_hotkeys (released r itf d) r = check_all_hotkeys d r" by simp
  moreover have "take_keyboard_report now r itf d =
     (let d = released r itf d; hotkey = check_all_hotkeys d r;
          d = (if hr_matched hotkey \<and> \<not> hr_pass_to_os hotkey
               then let d = d\<lparr>kd_hotkey_latch := dh_hotkey_latch_hold (kd_hotkey_latch d) (hr_chord hotkey)\<rparr> in
                 if hr_releases_all_keys hotkey then send_to_output now empty_report d else send_key now d
               else d) in
      if hr_matched hotkey
      then let d = hotkey_actions now (hr_action_id hotkey) (if hr_acknowledge hotkey then kbd_emit BlinkLed d else d) in
        if hr_pass_to_os hotkey then send_key now d else d
      else send_key now d)"
    unfolding take_keyboard_report_def released_def Let_def by (rule refl)
  ultimately show ?thesis unfolding latched_def Let_def by (cases "hr_matched (check_all_hotkeys d r)"; cases "hr_pass_to_os (check_all_hotkeys d r)") simp_all
qed

text \<open>What reaches the keyboard code: a report from a keyboard of the board, a keyboard message of the other board (its type and payload), and
  its switch of the output.\<close>

datatype kbd_event =
    KbdReport u64 hid_keyboard_report_t nat
  | PeerKeyboard u64 byte "byte list"
  | PeerSwitch u64 byte

fun kbd_event_step :: "kbd_event \<Rightarrow> kbd_device \<Rightarrow> kbd_device" where
  "kbd_event_step (KbdReport now r itf) d = take_keyboard_report now r itf d"
| "kbd_event_step (PeerKeyboard now packet_type payload) d = handle_keyboard_uart_msg now packet_type payload d"
| "kbd_event_step (PeerSwitch now output) d = handle_output_select_msg now output d"

lemma released_ok:
  assumes "kbd_ok d" "itf < 4"
  shows "kbd_ok (released r itf d)"
proof -
  have "unat (of_nat itf :: byte) = itf" using assms(2) by (intro unat_of_nat_small) simp
  then show ?thesis using assms by (simp add: kbd_ok_def released_def update_kbd_state_def Let_def release_keys_ok)
qed

text \<open>The new report is among the live ones.\<close>

lemma report_live:
  assumes "kbd_ok d" "itf < 4"
  shows "key_set (kr_keycode r) \<subseteq> all_keys (live_states (update_kbd_state r itf d))"
proof -
  have itf: "unat (of_nat itf :: byte) = itf" using assms(2) by (intro unat_of_nat_small) simp
  have len: "length (kd_local_kbd_states d) = 4" using assms(1) by (simp add: kbd_ok_def)
  have "r = live_states (update_kbd_state r itf d) ! itf" "itf < length (live_states (update_kbd_state r itf d))"
    using assms itf len by (auto simp: live_states_def update_kbd_state_def less_Suc_eq_le)
  then have "r \<in> set (live_states (update_kbd_state r itf d))" by (metis nth_mem)
  then show ?thesis by (auto simp: all_keys_def)
qed

lemma released_latch:
  "in_latch p (kd_hotkey_latch (released r itf d)) \<longleftrightarrow> in_latch p (kd_hotkey_latch d) \<and> in_report p (combine_held_local_kbd_states (update_kbd_state r itf d))"
  by (simp add: released_def Let_def release_press) (simp add: update_kbd_state_def)

lemma latched_latch:
  assumes "kbd_ok d" "itf < 4" "fits (update_kbd_state r itf d)"
  shows "in_latch p (kd_hotkey_latch (latched r itf d)) \<longleftrightarrow>
     in_latch p (kd_hotkey_latch (released r itf d)) \<or>
     hr_matched (check_all_hotkeys d r) \<and> \<not> hr_pass_to_os (check_all_hotkeys d r) \<and> in_chord p (hr_chord (check_all_hotkeys d r))"
    and "kbd_ok (latched r itf d)"
proof -
  let ?h = "check_all_hotkeys d r" and ?u = "update_kbd_state r itf d" and ?l = "kd_hotkey_latch (released r itf d)"
  have ok: "kbd_ok (released r itf d)" "keys_ok (hl_keys ?l)" using released_ok[OF assms(1,2)] by (simp_all add: kbd_ok_def)
  then show "kbd_ok (latched r itf d)" by (auto simp: kbd_ok_def latched_def Let_def hold_keys_ok)
  have "k \<in> all_keys (live_states ?u)" if "k \<in> key_set (hl_keys ?l)" for k
    using that released_latch[of "Key k"] held_exact[OF assms(3)] by simp
  moreover have "key_set (chord_keys (hr_chord ?h)) \<subseteq> all_keys (live_states ?u)" if "hr_matched ?h"
    using resolve_chord[of "kd_hotkeys d"] that assms(1) report_live[OF assms(1,2)] unfolding check_all_hotkeys_def kbd_ok_def by blast
  ultimately have "card (key_set (hl_keys ?l) \<union> key_set (chord_keys (hr_chord ?h))) \<le> 6" if "hr_matched ?h"
    using that assms(3) card_mono[of "all_keys (live_states ?u)" "key_set (hl_keys ?l) \<union> key_set (chord_keys (hr_chord ?h))"]
    unfolding fits_def by fastforce
  then show "in_latch p (kd_hotkey_latch (latched r itf d)) \<longleftrightarrow> in_latch p ?l \<or> hr_matched ?h \<and> \<not> hr_pass_to_os ?h \<and> in_chord p (hr_chord ?h)"
    using hold_press[OF ok(2)] by (auto simp: latched_def Let_def)
qed

lemma keeps_blink: "keeps d (if b then kbd_emit BlinkLed d else d)"
  by (simp add: keeps_intros)

lemma keeps_ok: "keeps d d' \<Longrightarrow> kbd_ok d \<Longrightarrow> kbd_ok d'"
  by (auto simp: keeps_def kbd_ok_def)

text \<open>The action of a chord that passes is the zoom, which leaves outputs and reports alone.\<close>

lemma pass_action:
  assumes "hr_pass_to_os (check_all_hotkeys d r)"
  shows "hotkey_actions now (hr_action_id (check_all_hotkeys d r)) = mouse_zoom_hotkey_handler"
proof -
  have "hr_action_id (check_all_hotkeys d r) = 1"
    using assms by (auto simp: check_all_hotkeys_def dh_keyboard_hotkey_resolve_def no_hotkey_def dh_hotkey_action_passes_to_os_def
        split: option.splits if_splits)
  then show ?thesis by (simp add: hotkey_actions_def)
qed

lemma zoom_fields:
  "kd_outputs (mouse_zoom_hotkey_handler d) = kd_outputs d" "kd_board_role (mouse_zoom_hotkey_handler d) = kd_board_role d"
  "kd_remote_kbd_state (mouse_zoom_hotkey_handler d) = kd_remote_kbd_state d" "kd_hotkey_latch (mouse_zoom_hotkey_handler d) = kd_hotkey_latch d"
  by (simp_all add: mouse_zoom_hotkey_handler_def send_value_def kbd_emit_def Let_def)

lemma keeps_after: "keeps d d' \<Longrightarrow> after (clear_of p o') d d'"
  unfolding keeps_def by (blast intro: after_mono not_physical_clear)

text \<open>One report: with the press latched, nothing it sends carries the press, and the latch keeps it.\<close>

lemma event_clear:
  assumes ok: "kbd_ok (latched r itf d)" and latch: "in_latch p (kd_hotkey_latch (latched r itf d))"
    and remote: "\<not> in_report p (kd_remote_kbd_state d)"
  shows "after (clear_of p (own_output d)) d (take_keyboard_report now r itf d)"
    and "in_latch p (kd_hotkey_latch (take_keyboard_report now r itf d))" and "kbd_ok (take_keyboard_report now r itf d)"
proof -
  let ?h = "check_all_hotkeys d r" and ?l = "latched r itf d" and ?P = "clear_of p (own_output d)"
  define act where "act e = hotkey_actions now (hr_action_id ?h) (if hr_acknowledge ?h then kbd_emit BlinkLed e else e)" for e
  have keeps: "keeps e (act e)" for e unfolding act_def by (rule keeps_trans[OF keeps_blink keeps_actions])
  have start: "after ?P d ?l" by (rule after_refl) simp
  have own: "own_output ?l = own_output d" by simp
  have send: "after ?P ?l (send_key now ?l)" "after ?P ?l (send_to_output now empty_report ?l)"
    using send_key_after[OF latch] send_to_output_after[of p empty_report ?l now] remote by (simp_all add: own)
  have kept: "in_latch p (kd_hotkey_latch e) \<and> kbd_ok e" if "e = send_key now ?l \<or> e = send_to_output now empty_report ?l" for e
    using that latch ok by (auto simp: send_key_def kbd_ok_def)
  have all: "after ?P d (take_keyboard_report now r itf d) \<and> in_latch p (kd_hotkey_latch (take_keyboard_report now r itf d)) \<and>
      kbd_ok (take_keyboard_report now r itf d)"
  proof (cases "hr_matched ?h \<and> \<not> hr_pass_to_os ?h")
    case True
    define e where "e = (if hr_releases_all_keys ?h then send_to_output now empty_report ?l else send_key now ?l)"
    have t: "take_keyboard_report now r itf d = act e" using True by (simp add: take_report_eq act_def e_def Let_def)
    have "after ?P ?l e" "in_latch p (kd_hotkey_latch e)" "kbd_ok e" using send kept[of e] unfolding e_def by (auto split: if_splits)
    with keeps[of e] start show ?thesis unfolding t
      by (auto intro: after_trans keeps_after keeps_ok) (simp add: keeps_def)
  next
    case False
    define z where "z = (if hr_matched ?h then act ?l else ?l)"
    have t: "take_keyboard_report now r itf d = send_key now z"
      using False by (auto simp: take_report_eq act_def z_def Let_def)
    have "z = ?l \<or> z = mouse_zoom_hotkey_handler (if hr_acknowledge ?h then kbd_emit BlinkLed ?l else ?l)"
      using False pass_action[of d r now] by (auto simp: z_def act_def)
    then have f: "kd_outputs z = kd_outputs d" "kd_board_role z = kd_board_role d" "kd_remote_kbd_state z = kd_remote_kbd_state d"
      "kd_hotkey_latch z = kd_hotkey_latch ?l" by (auto simp: zoom_fields kbd_emit_def)
    have kz: "keeps ?l z" unfolding z_def using keeps keeps_refl by simp
    have "after ?P z (send_key now z)" using send_key_after[of p z now] f latch remote by simp
    then have "after ?P d (send_key now z)" using after_trans[OF start after_trans[OF keeps_after[OF kz]]] by blast
    moreover have "kbd_ok z" by (rule keeps_ok[OF kz ok])
    ultimately show ?thesis unfolding t using f latch by (simp add: send_key_def kbd_ok_def)
  qed
  then show "after ?P d (take_keyboard_report now r itf d)" "in_latch p (kd_hotkey_latch (take_keyboard_report now r itf d))"
    "kbd_ok (take_keyboard_report now r itf d)" by blast+
qed

text \<open>A message of the other board: its keyboard's report joins the masked local one, and its switch sends only an empty synthesized report.\<close>

lemma peer_keyboard_clear:
  assumes "kbd_ok d" "in_latch p (kd_hotkey_latch d)" "\<not> in_report p (kd_remote_kbd_state (handle_keyboard_uart_msg now t payload d))"
  shows "after (clear_of p (own_output d)) d (handle_keyboard_uart_msg now t payload d)"
    and "kbd_ok (handle_keyboard_uart_msg now t payload d)" and "in_latch p (kd_hotkey_latch (handle_keyboard_uart_msg now t payload d))"
proof -
  let ?e = "handle_keyboard_uart_msg now t payload d"
  have all: "after (clear_of p (own_output d)) d ?e \<and> kbd_ok ?e \<and> in_latch p (kd_hotkey_latch ?e)"
  proof (cases "dh_keyboard_transport_decode t payload")
    case None
    then show ?thesis using assms(1,2) by (auto simp: handle_keyboard_uart_msg_def)
  next
    case (Some x)
    obtain provenance bytes where x: "x = (provenance, bytes)" by fastforce
    define u where "u = update_remote_kbd_state (report_of_bytes bytes) d"
    have u: "kd_hotkey_latch u = kd_hotkey_latch d" "own_output u = own_output d" "kd_effects u = kd_effects d" "kbd_ok u"
      "kd_remote_kbd_state u = report_of_bytes bytes"
      using assms(1) by (simp_all add: u_def update_remote_kbd_state_def kbd_ok_def)
    have e: "?e = touch_activity now (if provenance = DH_KEYBOARD_SYNTHESIZED
        then queue_kbd_report provenance (dh_keyboard_output_merge (combine_local_kbd_states u) (report_of_bytes bytes)
               (Some (ko_keymap (own_output u))) (ko_swap_ctrl_gui (own_output u))) u
        else output_keyboard_report (combine_kbd_states u) provenance u)"
      using Some x by (simp add: handle_keyboard_uart_msg_def u_def[symmetric] Let_def)
    have "kd_remote_kbd_state ?e = report_of_bytes bytes"
      using u(5) unfolding e by (simp add: touch_activity_def queue_kbd_report_def output_keyboard_report_def kbd_emit_def)
    then have "\<not> in_report p (combine_kbd_states u)" using combine_press[of p u] u(1,5) assms(2,3) by simp
    then have "after (clear_of p (own_output d)) d ?e"
      unfolding e by (cases provenance) (auto simp: after_def touch_activity_def queue_kbd_report_def output_keyboard_report_def kbd_emit_def u(2,3))
    moreover have "kbd_ok ?e" "kd_hotkey_latch ?e = kd_hotkey_latch d"
      using u unfolding e by (simp_all add: kbd_ok_def touch_activity_def queue_kbd_report_def output_keyboard_report_def kbd_emit_def)
    ultimately show ?thesis using assms(2) by simp
  qed
  then show "after (clear_of p (own_output d)) d ?e" "kbd_ok ?e" "in_latch p (kd_hotkey_latch ?e)" by blast+
qed

lemma keeps_peer_switch: "keeps d (handle_output_select_msg now output d)"
  unfolding handle_output_select_msg_def Let_def by (auto intro!: keeps_intros keeps_upd[OF keeps_refl])

text \<open>Events during which the press stays held: every report of the board's keyboards leaves it held by them together, and the other
  board's keyboard never holds it.\<close>

fun holding :: "press \<Rightarrow> kbd_event list \<Rightarrow> kbd_device \<Rightarrow> bool" where
  "holding p [] d = True"
| "holding p (KbdReport now r itf # es) d =
     (itf < MAX_DEVICES \<and> fits (update_kbd_state r itf d) \<and> in_report p (combine_held_local_kbd_states (update_kbd_state r itf d)) \<and>
      \<not> in_report p (kd_remote_kbd_state d) \<and> holding p es (take_keyboard_report now r itf d))"
| "holding p (PeerKeyboard now packet_type payload # es) d =
     (\<not> in_report p (kd_remote_kbd_state (handle_keyboard_uart_msg now packet_type payload d)) \<and>
      holding p es (handle_keyboard_uart_msg now packet_type payload d))"
| "holding p (PeerSwitch now output # es) d = holding p es (handle_output_select_msg now output d)"

text \<open>The runs in which every physical report is clear of the press.\<close>

fun run_clear :: "press \<Rightarrow> kbd_event list \<Rightarrow> kbd_device \<Rightarrow> bool" where
  "run_clear p [] d = True"
| "run_clear p (e # es) d = (after (clear_of p (own_output d)) d (kbd_event_step e d) \<and> run_clear p es (kbd_event_step e d))"

lemma latched_run_clear: "kbd_ok d \<Longrightarrow> in_latch p (kd_hotkey_latch d) \<Longrightarrow> holding p es d \<Longrightarrow> run_clear p es d"
proof (induction es arbitrary: d)
  case (Cons e es)
  show ?case
  proof (cases e)
    case (KbdReport now r itf)
    have h: "itf < 4" "fits (update_kbd_state r itf d)" "in_report p (combine_held_local_kbd_states (update_kbd_state r itf d))"
      "\<not> in_report p (kd_remote_kbd_state d)" "holding p es (take_keyboard_report now r itf d)" using Cons.prems(3) KbdReport by simp_all
    have "in_latch p (kd_hotkey_latch (latched r itf d))"
      using latched_latch(1)[OF Cons.prems(1) h(1,2)] released_latch[of p r itf d] Cons.prems(2) h(3) by blast
    note c = event_clear[OF latched_latch(2)[OF Cons.prems(1) h(1,2)] this h(4), of now]
    show ?thesis using c(1) Cons.IH[OF c(3,2) h(5)] KbdReport by simp
  next
    case (PeerKeyboard now t payload)
    then have h: "\<not> in_report p (kd_remote_kbd_state (handle_keyboard_uart_msg now t payload d))"
      "holding p es (handle_keyboard_uart_msg now t payload d)" using Cons.prems(3) by simp_all
    note c = peer_keyboard_clear[OF Cons.prems(1,2) h(1)]
    show ?thesis using c(1) Cons.IH[OF c(2,3) h(2)] PeerKeyboard by simp
  next
    case (PeerSwitch now to)
    have k: "keeps d (handle_output_select_msg now to d)" by (rule keeps_peer_switch)
    then have "kd_hotkey_latch (handle_output_select_msg now to d) = kd_hotkey_latch d" by (simp add: keeps_def)
    then show ?thesis
      using Cons.IH[OF keeps_ok[OF k Cons.prems(1)]] keeps_after[OF k] Cons.prems(2,3) PeerSwitch by simp
  qed
qed simp

text \<open>C21. A chord is never typed. When a report completes a hotkey that does not pass to the computer, each key and modifier of the
  chord is held back: in that report's processing and for as long as the keyboards of the board, at each of their reports, still hold the press,
  whatever else they report, whatever the other board's keyboard and output switches do, in whatever order the chord's other keys are
  released, and whatever the action does, no physical report the board queues for
  its computer or sends to the other board is built with it. The keyboards together hold no more than the six keys a report has slots for, and the
  other board's keyboard does not hold the same key. Synthesized reports (the lock chord, the empty reports of a release, and the merge of a
  synthesized report of the other board) are not judged.\<close>

theorem chord_never_typed:
  assumes "kbd_ok d" "hr_matched (check_all_hotkeys d r)" "\<not> hr_pass_to_os (check_all_hotkeys d r)"
    and "in_chord p (hr_chord (check_all_hotkeys d r))" "holding p (KbdReport now r itf # es) d"
  shows "run_clear p (KbdReport now r itf # es) d"
proof -
  have h: "itf < 4" "fits (update_kbd_state r itf d)" "\<not> in_report p (kd_remote_kbd_state d)"
    "holding p es (take_keyboard_report now r itf d)" using assms(5) by simp_all
  have "in_latch p (kd_hotkey_latch (latched r itf d))" using latched_latch(1)[OF assms(1) h(1,2)] assms(2,3,4) by blast
  note c = event_clear[OF latched_latch(2)[OF assms(1) h(1,2)] this h(3), of now]
  show ?thesis using c latched_run_clear[OF c(3,2) h(4)] by simp
qed

text \<open>A board with its defaults, and the output chord pressed (Left Ctrl and Caps Lock), then Ctrl let go first.\<close>

definition demo_board :: kbd_device where
  "demo_board = \<lparr>kd_active_output = 0, kd_board_role = 0, kd_local_kbd_states = replicate 4 empty_report, kd_remote_kbd_state = empty_report,
     kd_max_kbd_idx = 0, kd_pointer_x = 0, kd_pointer_y = 0, kd_outputs = default_outputs, kd_config_hotkeys = DH_HOTKEY_DEFAULTS,
     kd_hotkeys = DH_HOTKEY_DEFAULTS, kd_hotkey_latch = \<lparr>hl_modifier = 0, hl_keys = replicate 6 0\<rparr>, kd_last_activity = [0, 0],
     kd_last_switch_time = 0, kd_output_arrival_guard = DH_DIRECTION_NONE, kd_output_arrival_reverse = 0, kd_tud_connected = True,
     kd_reboot_requested = False, kd_bootsel_requested = False, kd_bootsel_requested_at = 0, kd_config_exit_requested = False,
     kd_config_exit_at = 0, kd_config_mode_active = False, kd_mouse_zoom = False, kd_switch_lock = False, kd_gaming_mode = False,
     kd_effects = []\<rparr>"

definition caps_chord :: hid_keyboard_report_t where
  "caps_chord = \<lparr>kr_modifier = 1, kr_reserved = 0, kr_keycode = [0x39, 0, 0, 0, 0, 0]\<rparr>"

definition caps_alone :: hid_keyboard_report_t where
  "caps_alone = \<lparr>kr_modifier = 0, kr_reserved = 0, kr_keycode = [0x39, 0, 0, 0, 0, 0]\<rparr>"

lemma demo_board_ok: "kbd_ok demo_board"
  by (simp add: kbd_ok_def demo_board_def keys_ok_def DH_HOTKEY_DEFAULTS_def binding_def pack_keys_def)

lemma demo_chord:
  "hr_matched (check_all_hotkeys demo_board caps_chord)" "\<not> hr_pass_to_os (check_all_hotkeys demo_board caps_chord)"
  "in_chord (Key 0x39) (hr_chord (check_all_hotkeys demo_board caps_chord))"
  by code_simp+

text \<open>Between the two reports the other board types an A and then switches the output back.\<close>

definition demo_events :: "kbd_event list" where
  "demo_events = [KbdReport 0 caps_chord 0, PeerKeyboard 1 1 [0, 0, 4, 0, 0, 0, 0, 0], PeerSwitch 2 0, KbdReport 3 caps_alone 0]"

lemma demo_holding: "holding (Key 0x39) demo_events demo_board"
  by code_simp

theorem chord_never_typed_witness:
  "kbd_ok demo_board \<and> run_clear (Key 0x39) demo_events demo_board"
  using chord_never_typed[OF demo_board_ok demo_chord demo_holding[unfolded demo_events_def]] demo_board_ok by (simp only: demo_events_def simp_thms)

text \<open>With a second keyboard the chord can leak: the output switch clears the record of every keyboard, so a report from the other
  keyboard finds the chord's keys released and lets them go; the first keyboard's next report, Caps Lock still down, is sent with it.\<close>

lemma second_keyboard_unlatches:
  "PacketQueued 1 (kbd_report_bytes caps_alone) \<in>
     set (kd_effects (fold kbd_event_step [KbdReport 0 caps_chord 0, KbdReport 1 empty_report 1, KbdReport 2 caps_alone 0] demo_board))"
  by code_simp

end
