(* ===== verification/DH_Mouse.thy ===== *)
theory DH_Mouse
  imports DH_Channel Complex_Main
begin

text \<open>
  Moving the pointer and crossing between screens and computers (\<open>src/src/mouse_logic.c\<close>, the report path of \<open>mouse.c\<close>,
  \<open>set_active_output\<close> of \<open>handlers.c\<close>). The state is the part of \<open>device_t\<close> the code uses; coordinates are integers with the
  conversions to \<open>int16_t\<close> written out. What the code tells the rest of the firmware is the list \<open>dv_effects\<close>; what it asks is a
  record of answers. Core 0 and core 1 share the crossing under a lock: each operation of core 1 takes the list of core-0 events that
  ran between its critical sections. Signed overflow of \<open>int\<close>, undefined in C, does not occur for the counts a HID mouse reports.
\<close>

section \<open>Model: floating point\<close>

text \<open>The acceleration factor is computed in C's single precision. A finite float is the rational it denotes, and every
  operation of the source is the exact operation followed by one rounding to 24 significant bits, to nearest with ties to
  even, as IEEE 754 and the soft-float library of a core without a floating-point unit do it. The magnitudes here stay far
  from overflow and from the subnormal range.\<close>

definition pow2 :: "int \<Rightarrow> rat" where
  "pow2 e = (if e \<ge> 0 then 2 ^ nat e else 1 / 2 ^ nat (- e))"

function bit_count :: "int \<Rightarrow> int" where
  "bit_count n = (if n > 0 then 1 + bit_count (n div 2) else 0)"
  by pat_completeness auto
termination by (relation "measure nat") auto

declare bit_count.simps [simp del]

text \<open>The binary exponent of a positive rational: the \<open>e\<close> with \<open>2^e \<le> x < 2^(e+1)\<close>.\<close>

definition exponent :: "rat \<Rightarrow> int" where
  "exponent x =
     (case quotient_of x of (p, q) \<Rightarrow>
        let e = bit_count p - bit_count q in if x < pow2 e then e - 1 else e)"

definition round_even :: "rat \<Rightarrow> int" where
  "round_even y =
     (let f = \<lfloor>y\<rfloor>; d = y - of_int f in if d < 1 / 2 \<or> (d = 1 / 2 \<and> even f) then f else f + 1)"

definition fl :: "rat \<Rightarrow> rat" where
  "fl x = (if x = 0 then 0 else let ulp = pow2 (exponent \<bar>x\<bar> - 23) in of_int (round_even (x / ulp)) * ulp)"

text \<open>The integer square root, one bit at a time, and \<open>sqrtf\<close>, correctly rounded: the arguments are zero or at least one, and 26
  more bits than the integer part with a sticky bit decide every rounding.\<close>

fun sqrt_bits :: "nat \<Rightarrow> int \<Rightarrow> int \<Rightarrow> int" where
  "sqrt_bits 0 m r = r"
| "sqrt_bits (Suc k) m r = sqrt_bits k m (if (r + 2 ^ k) * (r + 2 ^ k) \<le> m then r + 2 ^ k else r)"

definition sqrtf :: "rat \<Rightarrow> rat" where
  "sqrtf x =
     (let m = \<lfloor>x * 4 ^ 26\<rfloor>; r = sqrt_bits 64 m 0 in
      fl ((of_int r + (if r * r = m then 0 else 1 / 2)) / 2 ^ 26))"

text \<open>The library's \<open>round\<close>: to nearest, halves away from zero.\<close>

definition round_away :: "rat \<Rightarrow> int" where
  "round_away x = (if x \<ge> 0 then \<lfloor>x + 1 / 2\<rfloor> else - \<lfloor>- x + 1 / 2\<rfloor>)"

definition acceleration :: "(int \<times> rat) list" where
  "acceleration = [(2, 1), (5, fl (11 / 10)), (15, fl (14 / 10)), (30, fl (19 / 10)), (45, fl (26 / 10)), (60, fl (34 / 10)), (70, 4)]"

fun curve_at :: "(int \<times> rat) list \<Rightarrow> rat \<Rightarrow> rat" where
  "curve_at ((lv, lf) # (uv, uf) # rest) magnitude =
     (if magnitude < of_int uv then
        let interpolation = fl (fl (magnitude - of_int lv) / of_int (uv - lv)) in
        fl (lf + fl (interpolation * fl (uf - lf)))
      else curve_at ((uv, uf) # rest) magnitude)"
| "curve_at _ magnitude = 1"

definition calculate_mouse_acceleration_factor :: "bool \<Rightarrow> int \<Rightarrow> int \<Rightarrow> rat" where
  "calculate_mouse_acceleration_factor enable_acceleration offset_x offset_y =
     (if offset_x = 0 \<and> offset_y = 0 then 1
      else if \<not> enable_acceleration then 1
      else
        let magnitude = sqrtf (fl (fl (of_int (offset_x * offset_x)) + fl (of_int (offset_y * offset_y)))) in
        if magnitude \<le> of_int (fst (hd acceleration)) then snd (hd acceleration)
        else if magnitude \<ge> of_int (fst (last acceleration)) then snd (last acceleration)
        else curve_at acceleration magnitude)"

section \<open>Model: the crossing state\<close>

abbreviation (input) MAX_SCREEN_COORD :: int where "MAX_SCREEN_COORD \<equiv> 32767"
abbreviation (input) MIN_SCREEN_COORD :: int where "MIN_SCREEN_COORD \<equiv> 0"
abbreviation (input) MACOS_WALK_COUNTS :: int where "MACOS_WALK_COUNTS \<equiv> 2"
abbreviation (input) CURSOR_REANCHOR_TIMEOUT_US :: u32 where "CURSOR_REANCHOR_TIMEOUT_US \<equiv> 30000"
abbreviation (input) MOUSE_ZOOM_SCALING_FACTOR :: nat where "MOUSE_ZOOM_SCALING_FACTOR \<equiv> 2"
abbreviation (input) OUTPUT_B :: byte where "OUTPUT_B \<equiv> 1"
abbreviation (input) MACOS :: byte where "MACOS \<equiv> 2"
abbreviation (input) WINDOWS :: byte where "WINDOWS \<equiv> 3"
abbreviation (input) MOUSE_ABSOLUTE :: byte where "MOUSE_ABSOLUTE \<equiv> 0"
abbreviation (input) MOUSE_RELATIVE :: byte where "MOUSE_RELATIVE \<equiv> 1"
abbreviation (input) BOOT_RELATIVE :: byte where "BOOT_RELATIVE \<equiv> 3"

definition to_i16 :: "int \<Rightarrow> int" where
  "to_i16 x = (x + 32768) mod 65536 - 32768"

definition to_i8 :: "int \<Rightarrow> int" where
  "to_i8 x = (x + 128) mod 256 - 128"

datatype cursor_crossing_phase_t =
  CURSOR_CROSSING_IDLE | CURSOR_CROSSING_WAITING | CURSOR_CROSSING_REANCHORED | CURSOR_CROSSING_FALLBACK | CURSOR_CROSSING_CANCELLED

datatype cursor_crossing_kind_t =
  CURSOR_CROSSING_SOURCE_REANCHOR | CURSOR_CROSSING_CHAIN_REANCHOR | CURSOR_CROSSING_MACOS_PLACEMENT

record cursor_crossing_t =
  cx_phase :: cursor_crossing_phase_t
  cx_kind :: cursor_crossing_kind_t
  cx_direction :: dh_direction_t
  cx_output :: byte
  cx_query_id :: byte
  cx_target_screen :: byte
  cx_target_position :: u16
  cx_query_sent :: bool
  cx_started_us :: u32

record output_t =
  ou_number :: u32
  ou_screen_count :: u32
  ou_screen_index :: u32
  ou_speed_x :: int
  ou_speed_y :: int
  ou_border_start :: int
  ou_border_end :: int
  ou_os :: byte
  ou_chain_direction :: byte
  ou_border_direction :: byte
  ou_mouse_park_pos :: byte
  ou_pointer_speed :: byte
  ou_seam_ranges :: "dh_seam_range_t list"
  ou_monitor_width :: u16
  ou_monitor_height :: u16

record mouse_report_t =
  mr_buttons :: byte
  mr_x :: int
  mr_y :: int
  mr_wheel :: int
  mr_pan :: int
  mr_mode :: byte

record mouse_values_t =
  mv_move_x :: int
  mv_move_y :: int
  mv_wheel :: int
  mv_pan :: int
  mv_buttons :: int

datatype dh_cursor_trace_event_t =
  DH_CURSOR_TRACE_INPUT | DH_CURSOR_TRACE_DECISION | DH_CURSOR_TRACE_QUERY | DH_CURSOR_TRACE_RESPONSE | DH_CURSOR_TRACE_PLACE
| DH_CURSOR_TRACE_SWITCH | DH_CURSOR_TRACE_CANCEL | DH_CURSOR_TRACE_TIMEOUT

text \<open>What the crossing logic tells the rest of the firmware to do, in order: mouse reports, a change of the active output,
  the channel's messages, and the records of the cursor trace.\<close>

datatype mouse_effect =
  OutputMouseReport mouse_report_t
| SetActiveOutput byte
| QueryCursor byte byte
| PlaceCursor byte byte byte byte u16
| PlaceCursorCorrelated byte byte byte byte u16 byte
| TraceEvent dh_cursor_trace_event_t byte int int dh_direction_t dh_mouse_transition_t

text \<open>The fields of \<open>device_t\<close> the crossing logic reads or writes, the configuration of the two outputs among them; \<open>dv_effects\<close>
  collects what it emits. The part-pixels are kept per output and axis (\<open>True\<close> is vertical).\<close>

record device_t =
  dv_active_output :: byte
  dv_pointer_x :: int
  dv_pointer_y :: int
  dv_mouse_buttons :: int
  dv_output :: "output_t list"
  dv_jump_threshold :: u16
  dv_enable_acceleration :: bool
  dv_mouse_zoom :: bool
  dv_switch_lock :: bool
  dv_relative_mouse :: bool
  dv_windows_part_pixel :: "nat \<Rightarrow> bool \<Rightarrow> int"
  dv_gaming_mode :: bool
  dv_boot_mouse_mode :: "bool list"
  dv_cursor_crossing :: cursor_crossing_t
  dv_output_arrival_guard :: dh_direction_t
  dv_output_arrival_reverse :: u16
  dv_next_cursor_query_id :: byte
  dv_effects :: "mouse_effect list"

definition emit_effect :: "mouse_effect \<Rightarrow> device_t \<Rightarrow> device_t" where
  "emit_effect e d = d\<lparr>dv_effects := dv_effects d @ [e]\<rparr>"

abbreviation output_mouse_report :: "mouse_report_t \<Rightarrow> device_t \<Rightarrow> device_t" where
  "output_mouse_report r \<equiv> emit_effect (OutputMouseReport r)"

abbreviation cursor_trace_event ::
  "dh_cursor_trace_event_t \<Rightarrow> byte \<Rightarrow> int \<Rightarrow> int \<Rightarrow> dh_direction_t \<Rightarrow> dh_mouse_transition_t \<Rightarrow> device_t \<Rightarrow> device_t" where
  "cursor_trace_event ev q x y dir tr \<equiv> emit_effect (TraceEvent ev q x y dir tr)"

abbreviation output_at :: "device_t \<Rightarrow> byte \<Rightarrow> output_t" where
  "output_at d i \<equiv> dv_output d ! unat i"

abbreviation active :: "device_t \<Rightarrow> output_t" where
  "active d \<equiv> output_at d (dv_active_output d)"

abbreviation pointer_of :: "device_t \<Rightarrow> dh_mouse_coordinates_t" where
  "pointer_of d \<equiv> \<lparr>mc_x = dv_pointer_x d, mc_y = dv_pointer_y d\<rparr>"

definition set_pointer :: "dh_mouse_coordinates_t \<Rightarrow> device_t \<Rightarrow> device_t" where
  "set_pointer p d = d\<lparr>dv_pointer_x := to_i16 (mc_x p), dv_pointer_y := to_i16 (mc_y p)\<rparr>"

definition other_output :: "byte \<Rightarrow> byte" where
  "other_output i = 1 - i"

text \<open>What the rest of the firmware answers during one call: whether an output's helper is there, the channel's answers to a
  cursor query and to a correlated placement, and the clock.\<close>

record crossing_env =
  ev_helper_present :: "byte \<Rightarrow> bool"
  ev_query_result :: cursor_query_result_t
  ev_place_accepted :: bool
  ev_time_us :: u32

definition cursor_crossing_zero :: cursor_crossing_t where
  "cursor_crossing_zero =
     \<lparr>cx_phase = CURSOR_CROSSING_IDLE, cx_kind = CURSOR_CROSSING_SOURCE_REANCHOR, cx_direction = DH_DIRECTION_NONE, cx_output = 0,
      cx_query_id = 0, cx_target_screen = 0, cx_target_position = 0, cx_query_sent = False, cx_started_us = 0\<rparr>"

definition cursor_crossing_clear :: "device_t \<Rightarrow> device_t" where
  "cursor_crossing_clear d = d\<lparr>dv_cursor_crossing := cursor_crossing_zero\<rparr>"

definition set_phase :: "cursor_crossing_phase_t \<Rightarrow> device_t \<Rightarrow> device_t" where
  "set_phase p d = d\<lparr>dv_cursor_crossing := (dv_cursor_crossing d)\<lparr>cx_phase := p\<rparr>\<rparr>"

section \<open>Model: helper readback\<close>

definition walk_push :: "output_t \<Rightarrow> int" where
  "walk_push out =
     (if ou_os out \<noteq> WINDOWS then MACOS_WALK_COUNTS
      else let two_pixels = dh_windows_counts_for_pixels 2 (ou_pointer_speed out) in if two_pixels > 2 then two_pixels else 2)"

definition windows_pixels :: "output_t \<Rightarrow> bool \<Rightarrow> int" where
  "windows_pixels out vertical =
     (if ou_os out \<noteq> WINDOWS \<or> \<not> dh_windows_pointer_speed_is_set (ou_pointer_speed out) \<or>
         ou_monitor_width out = 0 \<or> ou_monitor_height out = 0
      then 0 else uint (if vertical then ou_monitor_height out else ou_monitor_width out))"

definition edge_threshold :: "device_t \<Rightarrow> int" where
  "edge_threshold d =
     (let crossing = dv_cursor_crossing d;
          threshold = (if cx_kind crossing = CURSOR_CROSSING_CHAIN_REANCHOR then 0 else uint (dv_jump_threshold d)) in
      if cx_kind crossing = CURSOR_CROSSING_SOURCE_REANCHOR then
        let out = output_at d (cx_output crossing);
            pixels = windows_pixels out (dh_direction_is_vertical (cx_direction crossing));
            one_count = (if pixels \<noteq> 0
              then (MAX_SCREEN_COORD + pixels) sdiv pixels * dh_windows_pixels_per_count (ou_pointer_speed out) else 0) in
        if one_count > threshold then one_count else threshold
      else threshold)"

definition position_is_at_pending_edge :: "device_t \<Rightarrow> int \<Rightarrow> int \<Rightarrow> bool" where
  "position_is_at_pending_edge d x y =
     (let threshold = edge_threshold d in
      case cx_direction (dv_cursor_crossing d) of
        DH_DIRECTION_LEFT \<Rightarrow> x \<le> MIN_SCREEN_COORD + threshold
      | DH_DIRECTION_RIGHT \<Rightarrow> x \<ge> MAX_SCREEN_COORD - threshold
      | DH_DIRECTION_TOP \<Rightarrow> y \<le> MIN_SCREEN_COORD + threshold
      | DH_DIRECTION_BOTTOM \<Rightarrow> y \<ge> MAX_SCREEN_COORD - threshold
      | DH_DIRECTION_NONE \<Rightarrow> False)"

text \<open>A seam position in board units, rounded: 16 bits to 15. Both factors are \<open>uint32_t\<close>; the product does not wrap.\<close>

definition seam_to_units :: "u16 \<Rightarrow> int" where
  "seam_to_units p = (uint p * MAX_SCREEN_COORD + DH_SEAM_POSITION_MAX div 2) div DH_SEAM_POSITION_MAX"

definition position_confirms_pending_placement :: "device_t \<Rightarrow> int \<Rightarrow> int \<Rightarrow> bool" where
  "position_confirms_pending_placement d x y =
     (let crossing = dv_cursor_crossing d;
          expected_along = seam_to_units (cx_target_position crossing);
          actual_along = (if dh_direction_is_vertical (cx_direction crossing) then x else y);
          threshold = uint (dv_jump_threshold d) in
      if actual_along < expected_along - 2 \<or> actual_along > expected_along + 2 then False
      else
        case cx_direction crossing of
          DH_DIRECTION_LEFT \<Rightarrow> x \<ge> MAX_SCREEN_COORD - threshold
        | DH_DIRECTION_RIGHT \<Rightarrow> x \<le> MIN_SCREEN_COORD + threshold
        | DH_DIRECTION_TOP \<Rightarrow> y \<ge> MAX_SCREEN_COORD - threshold
        | DH_DIRECTION_BOTTOM \<Rightarrow> y \<le> MIN_SCREEN_COORD + threshold
        | DH_DIRECTION_NONE \<Rightarrow> False)"

definition select_cursor_screen :: "device_t \<Rightarrow> byte \<Rightarrow> byte \<Rightarrow> device_t \<times> bool" where
  "select_cursor_screen d out screen =
     (if out > OUTPUT_B \<or> out \<noteq> dv_active_output d \<or> screen = 0 \<or> ucast screen > ou_screen_count (output_at d out) then (d, False)
      else
        (d\<lparr>dv_output := (dv_output d)[unat out := (output_at d out)\<lparr>ou_screen_index := ucast screen\<rparr>],
           dv_relative_mouse := (ou_os (output_at d out) = WINDOWS \<and> screen > 1)\<rparr>, True))"

definition readback_refused :: "device_t \<Rightarrow> byte \<Rightarrow> byte \<Rightarrow> int \<Rightarrow> int \<Rightarrow> byte \<Rightarrow> bool" where
  "readback_refused d out screen x y query_id =
     (let crossing = dv_cursor_crossing d; phase = cx_phase crossing in
      (phase = CURSOR_CROSSING_WAITING \<and> (query_id = 0 \<or> cx_output crossing \<noteq> out \<or> cx_query_id crossing \<noteq> query_id)) \<or>
      (query_id \<noteq> 0 \<and> phase \<noteq> CURSOR_CROSSING_WAITING) \<or>
      (query_id \<noteq> 0 \<and> cx_kind crossing = CURSOR_CROSSING_MACOS_PLACEMENT \<and>
        (screen \<noteq> cx_target_screen crossing \<or> \<not> position_confirms_pending_placement d x y)) \<or>
      (query_id = 0 \<and> ucast screen \<noteq> ou_screen_index (output_at d out)))"

definition apply_helper_cursor_position :: "device_t \<Rightarrow> byte \<Rightarrow> byte \<Rightarrow> int \<Rightarrow> int \<Rightarrow> byte \<Rightarrow> device_t \<times> bool" where
  "apply_helper_cursor_position d out screen x y query_id =
     (if out > OUTPUT_B then (d, False)
      else if readback_refused d out screen x y query_id then (d, False)
      else
        case select_cursor_screen d out screen of
          (d, False) \<Rightarrow> (d, False)
        | (d, True) \<Rightarrow>
            let d = d\<lparr>dv_pointer_x := x, dv_pointer_y := y\<rparr>;
                crossing = dv_cursor_crossing d;
                d = (if cx_phase crossing = CURSOR_CROSSING_WAITING \<and> cx_output crossing = out then
                       (if cx_kind crossing = CURSOR_CROSSING_MACOS_PLACEMENT \<or>
                           ((cx_kind crossing = CURSOR_CROSSING_SOURCE_REANCHOR \<or>
                             (cx_kind crossing = CURSOR_CROSSING_CHAIN_REANCHOR \<and> screen = cx_target_screen crossing)) \<and>
                            position_is_at_pending_edge d x y)
                        then set_phase CURSOR_CROSSING_REANCHORED d
                        else set_phase CURSOR_CROSSING_CANCELLED d)
                     else d) in
            (cursor_trace_event DH_CURSOR_TRACE_RESPONSE query_id x y (cx_direction crossing) DH_MOUSE_TRANSITION_OUTPUT d, True))"

definition mouse_crossing_query_unavailable :: "device_t \<Rightarrow> byte \<Rightarrow> byte \<Rightarrow> device_t" where
  "mouse_crossing_query_unavailable d out query_id =
     (let crossing = dv_cursor_crossing d in
      if cx_phase crossing = CURSOR_CROSSING_WAITING \<and> cx_output crossing = out \<and> cx_query_id crossing = query_id
      then set_phase CURSOR_CROSSING_FALLBACK d else d)"

text \<open>Core 0's two entries, and what it may have run, in order, while core 1 was outside the lock.\<close>

datatype core0_event = Readback byte byte int int byte | QueryUnavailable byte byte

fun core0_turn :: "core0_event \<Rightarrow> device_t \<Rightarrow> device_t" where
  "core0_turn (Readback out screen x y q) d = fst (apply_helper_cursor_position d out screen (to_i16 x) (to_i16 y) q)"
| "core0_turn (QueryUnavailable out q) d = mouse_crossing_query_unavailable d out q"

definition core0_turns :: "core0_event list \<Rightarrow> device_t \<Rightarrow> device_t" where
  "core0_turns evs d = fold core0_turn evs d"

section \<open>Model: walking and switching\<close>

fun direction_byte :: "dh_direction_t \<Rightarrow> byte" where
  "direction_byte DH_DIRECTION_NONE = 0"
| "direction_byte DH_DIRECTION_LEFT = 1"
| "direction_byte DH_DIRECTION_RIGHT = 2"
| "direction_byte DH_DIRECTION_TOP = 4"
| "direction_byte DH_DIRECTION_BOTTOM = 5"

definition map_output_seam_coordinate :: "device_t \<Rightarrow> int \<Rightarrow> u32 \<Rightarrow> u32 \<Rightarrow> int" where
  "map_output_seam_coordinate d pointer screen_from screen_to =
     (let from = dv_output d ! unat screen_from; to = dv_output d ! unat screen_to in
      to_i16 (dh_seam_map_coordinate pointer (ou_border_start from) (ou_border_end from) (ou_border_start to) (ou_border_end to)))"

text \<open>The effect stands for what follows a change of output elsewhere: the keyboard LEDs, the message to the other board, the
  channel's notice and the release of held keys.\<close>

definition set_active_output :: "device_t \<Rightarrow> byte \<Rightarrow> device_t" where
  "set_active_output d new_output =
     emit_effect (SetActiveOutput new_output)
       (d\<lparr>dv_active_output := new_output, dv_output_arrival_guard := DH_DIRECTION_NONE, dv_output_arrival_reverse := 0\<rparr>)"

definition switch_to_another_pc :: "device_t \<Rightarrow> output_t \<Rightarrow> byte \<Rightarrow> dh_direction_t \<Rightarrow> device_t" where
  "switch_to_another_pc d out output_to direction =
     (let vertical = dh_direction_is_vertical direction;
          pointer = pointer_of d;
          hidden = dh_mouse_hidden_coordinates direction (ou_mouse_park_pos (active d)) pointer MIN_SCREEN_COORD MAX_SCREEN_COORD;
          d = output_mouse_report \<lparr>mr_buttons = 0, mr_x = to_i16 (mc_x hidden), mr_y = to_i16 (mc_y hidden), mr_wheel = 0, mr_pan = 0,
                mr_mode = MOUSE_ABSOLUTE\<rparr> d;
          d = set_active_output d output_to;
          d = fst (select_cursor_screen d output_to (ucast (ou_screen_index (output_at d output_to))));
          d = set_pointer (dh_mouse_entry_coordinates direction pointer MIN_SCREEN_COORD MAX_SCREEN_COORD) d in
      if vertical then d\<lparr>dv_pointer_x := map_output_seam_coordinate d (dv_pointer_x d) (ou_number out) (1 - ou_number out)\<rparr>
      else d\<lparr>dv_pointer_y := map_output_seam_coordinate d (dv_pointer_y d) (ou_number out) (1 - ou_number out)\<rparr>)"

definition walk_one_screen :: "device_t \<Rightarrow> dh_mouse_coordinates_t \<Rightarrow> dh_direction_t \<Rightarrow> device_t" where
  "walk_one_screen d from direction =
     (let edge = dh_mouse_edge_coordinates direction from MIN_SCREEN_COORD MAX_SCREEN_COORD;
          push = dh_mouse_nudge direction (walk_push (active d));
          d = output_mouse_report \<lparr>mr_buttons = of_int (dv_mouse_buttons d), mr_x = to_i16 (mc_x edge), mr_y = to_i16 (mc_y edge),
                mr_wheel = 0, mr_pan = 0, mr_mode = MOUSE_ABSOLUTE\<rparr> d in
      output_mouse_report \<lparr>mr_buttons = 0, mr_x = to_i16 (mc_x push), mr_y = to_i16 (mc_y push), mr_wheel = 0, mr_pan = 0,
        mr_mode = MOUSE_RELATIVE\<rparr> d)"

definition walk_speed :: "output_t \<Rightarrow> dh_direction_t \<Rightarrow> int" where
  "walk_speed out direction =
     (let speed = (if dh_direction_is_vertical direction then ou_speed_y out else ou_speed_x out) in if speed > 0 then speed else 1)"

definition windows_moved :: "device_t \<Rightarrow> nat \<Rightarrow> bool \<Rightarrow> int \<Rightarrow> int \<Rightarrow> device_t \<times> int" where
  "windows_moved d i vertical here counts =
     (let out = dv_output d ! i;
          (offset, part) = dh_windows_estimate_offset here counts (ou_pointer_speed out) (of_int (windows_pixels out vertical))
            (walk_speed out (if vertical then DH_DIRECTION_TOP else DH_DIRECTION_LEFT)) (dv_windows_part_pixel d i vertical) in
      (d\<lparr>dv_windows_part_pixel := (dv_windows_part_pixel d)(i := (dv_windows_part_pixel d i)(vertical := part))\<rparr>, here + offset))"

definition on_next_monitor :: "int \<Rightarrow> int" where
  "on_next_monitor here = (let span = MAX_SCREEN_COORD + 1 in (here smod span + span) smod span)"

function send_relative :: "device_t \<Rightarrow> nat \<Rightarrow> dh_direction_t \<Rightarrow> int \<Rightarrow> int \<Rightarrow> device_t \<times> int" where
  "send_relative d i direction here counts =
     (if counts > 0 then
        let vertical = dh_direction_is_vertical direction;
            chunk = (if counts < MAX_SCREEN_COORD then counts else MAX_SCREEN_COORD);
            move = dh_mouse_nudge direction chunk;
            d = output_mouse_report \<lparr>mr_buttons = 0, mr_x = to_i16 (mc_x move), mr_y = to_i16 (mc_y move), mr_wheel = 0, mr_pan = 0,
                  mr_mode = MOUSE_RELATIVE\<rparr> d;
            (d, here) = windows_moved d i vertical here (if vertical then mc_y move else mc_x move) in
        send_relative d i direction here (counts - chunk)
      else (d, here))"
  by pat_completeness auto
termination by (relation "measure (\<lambda>(_, _, _, _, counts). nat counts)") auto

declare send_relative.simps [simp del]

definition walk_landing :: "device_t \<Rightarrow> nat \<Rightarrow> dh_direction_t \<Rightarrow> dh_mouse_coordinates_t \<Rightarrow> device_t \<times> dh_mouse_coordinates_t" where
  "walk_landing d i direction from =
     (let vertical = dh_direction_is_vertical direction;
          here = dh_mouse_edge_coordinates direction from MIN_SCREEN_COORD MAX_SCREEN_COORD;
          push = dh_mouse_nudge direction (walk_push (dv_output d ! i));
          (d, axis) = windows_moved d i vertical (if vertical then mc_y here else mc_x here) (if vertical then mc_y push else mc_x push);
          axis = on_next_monitor axis in
      (d, if vertical then here\<lparr>mc_y := axis\<rparr> else here\<lparr>mc_x := axis\<rparr>))"

definition switch_virtual_desktop :: "crossing_env \<Rightarrow> device_t \<Rightarrow> byte \<Rightarrow> dh_direction_t \<Rightarrow> device_t" where
  "switch_virtual_desktop E d new_index direction =
     (let i = dv_active_output d; out = output_at d i; pointer = pointer_of d in
      if ou_os out = WINDOWS \<and> \<not> dv_relative_mouse d \<and> \<not> ev_helper_present E (ucast (ou_number out)) then
        let d = walk_one_screen d pointer direction;
            (d, landed) = walk_landing d (unat i) direction pointer in
        fst (select_cursor_screen (set_pointer landed d) (ucast (ou_number out)) new_index)
      else
        let d = (if ou_os out = MACOS then walk_one_screen d pointer direction else d);
            entry = dh_mouse_entry_coordinates direction pointer MIN_SCREEN_COORD MAX_SCREEN_COORD;
            span = MAX_SCREEN_COORD + 1;
            entry =
              (if ou_os out = WINDOWS \<and> dv_relative_mouse d then
                 \<lparr>mc_x = (if mc_x pointer < MIN_SCREEN_COORD then mc_x pointer + span
                          else if mc_x pointer > MAX_SCREEN_COORD then mc_x pointer - span else mc_x entry),
                  mc_y = (if mc_y pointer < MIN_SCREEN_COORD then mc_y pointer + span
                          else if mc_y pointer > MAX_SCREEN_COORD then mc_y pointer - span else mc_y entry)\<rparr>
               else entry) in
        fst (select_cursor_screen (set_pointer entry d) (ucast (ou_number out)) new_index))"

section \<open>Model: movement\<close>

abbreviation mouse_layout_for :: "output_t \<Rightarrow> dh_mouse_layout_t" where
  "mouse_layout_for out \<equiv>
     \<lparr>ml_chain_direction = direction_of (ou_chain_direction out), ml_border_direction = direction_of (ou_border_direction out)\<rparr>"

definition get_jump_threshold :: "device_t \<Rightarrow> output_t \<Rightarrow> dh_direction_t \<Rightarrow> u16" where
  "get_jump_threshold d out direction =
     dh_mouse_jump_threshold_for (mouse_layout_for out) (ou_screen_index out) (ou_screen_count out) direction (dv_jump_threshold d)"

definition actionable_transition_for :: "device_t \<Rightarrow> output_t \<Rightarrow> dh_direction_t \<Rightarrow> int \<Rightarrow> dh_mouse_transition_t" where
  "actionable_transition_for d out direction buttons =
     (if direction = DH_DIRECTION_NONE \<or> dv_switch_lock d \<or> dv_gaming_mode d \<or> dv_boot_mouse_mode d ! unat (dv_active_output d)
      then DH_MOUSE_TRANSITION_NONE
      else
        let transition = dh_mouse_transition_for (mouse_layout_for out) (ou_screen_index out) (ou_screen_count out) direction in
        if transition = DH_MOUSE_TRANSITION_OUTPUT \<and> buttons \<noteq> 0 then DH_MOUSE_TRANSITION_NONE else transition)"

record screen_boundary_crossing_t =
  sb_direction :: dh_direction_t
  sb_overshoot :: int

definition screen_boundary_crossing ::
  "device_t \<Rightarrow> output_t \<Rightarrow> int \<Rightarrow> int \<Rightarrow> dh_direction_t \<Rightarrow> dh_direction_t \<Rightarrow> screen_boundary_crossing_t" where
  "screen_boundary_crossing d out position offset negative_direction positive_direction =
     (let direction = (if offset < 0 then negative_direction else positive_direction) in
      if offset = 0 then \<lparr>sb_direction = DH_DIRECTION_NONE, sb_overshoot = 0\<rparr>
      else
        let threshold = uint (get_jump_threshold d out direction); next_position = position + offset in
        if next_position < MIN_SCREEN_COORD - threshold
        then \<lparr>sb_direction = negative_direction, sb_overshoot = MIN_SCREEN_COORD - next_position\<rparr>
        else if next_position > MAX_SCREEN_COORD + threshold
        then \<lparr>sb_direction = positive_direction, sb_overshoot = next_position - MAX_SCREEN_COORD\<rparr>
        else \<lparr>sb_direction = DH_DIRECTION_NONE, sb_overshoot = 0\<rparr>)"

definition move_and_keep_on_screen :: "int \<Rightarrow> int \<Rightarrow> int" where
  "move_and_keep_on_screen position offset =
     (if position + offset < MIN_SCREEN_COORD then MIN_SCREEN_COORD
      else if position + offset > MAX_SCREEN_COORD then MAX_SCREEN_COORD else position + offset)"

definition create_mouse_report :: "device_t \<Rightarrow> mouse_values_t \<Rightarrow> mouse_report_t" where
  "create_mouse_report d values =
     (let boot = dv_boot_mouse_mode d ! unat (dv_active_output d);
          report = \<lparr>mr_buttons = of_int (mv_buttons values), mr_x = dv_pointer_x d, mr_y = dv_pointer_y d,
            mr_wheel = to_i8 (mv_wheel values), mr_pan = to_i8 (mv_pan values), mr_mode = MOUSE_ABSOLUTE\<rparr> in
      if boot \<or> dh_mouse_reports_are_relative (dv_relative_mouse d) (dv_gaming_mode d)
      then report\<lparr>mr_x := to_i16 (mv_move_x values), mr_y := to_i16 (mv_move_y values), mr_mode := (if boot then BOOT_RELATIVE else MOUSE_RELATIVE)\<rparr>
      else report)"

text \<open>The offset of one axis in board units: scaled by acceleration and speed, or by Windows' own maths on a relative screen,
  which also moves its part-pixel.\<close>

definition scaled_offset :: "int \<Rightarrow> rat \<Rightarrow> int \<Rightarrow> int" where
  "scaled_offset move factor speed = round_away (fl (fl (fl (of_int move) * factor) * fl (of_int speed)))"

definition axis_offset :: "device_t \<Rightarrow> mouse_values_t \<Rightarrow> bool \<Rightarrow> device_t \<times> int" where
  "axis_offset d values vertical =
     (let i = unat (dv_active_output d); current = dv_output d ! i;
          move = (if vertical then mv_move_y values else mv_move_x values);
          speed = (if vertical then ou_speed_y current else ou_speed_x current);
          position = (if vertical then dv_pointer_y d else dv_pointer_x d) in
      if dv_relative_mouse d then
        let (offset, part) = dh_windows_estimate_offset position move (ou_pointer_speed current)
              (of_int (windows_pixels current vertical)) speed (dv_windows_part_pixel d i vertical) in
        (d\<lparr>dv_windows_part_pixel := (dv_windows_part_pixel d)(i := (dv_windows_part_pixel d i)(vertical := part))\<rparr>, offset)
      else
        let reduce_speed = (if dv_mouse_zoom d then MOUSE_ZOOM_SCALING_FACTOR else 0);
            factor = calculate_mouse_acceleration_factor (dv_enable_acceleration d) (mv_move_x values) (mv_move_y values) in
        (d, scaled_offset move factor (speed div 2 ^ reduce_speed)))"

text \<open>The guard against crossing straight back after an arrival: it falls on a move inward, or once the counts back over the
  seam add up past the jump threshold; until then it stops a crossing in its direction. The flag says that it still stands.\<close>

definition arrival_guard_step :: "device_t \<Rightarrow> mouse_values_t \<Rightarrow> int \<Rightarrow> int \<Rightarrow> device_t \<times> bool" where
  "arrival_guard_step d values offset_x offset_y =
     (let guard = dv_output_arrival_guard d in
      if guard = DH_DIRECTION_NONE then (d, False)
      else
        let raw_guard_axis = (if dh_direction_is_vertical guard then mv_move_y values else mv_move_x values);
            raw_cross_axis = (if dh_direction_is_vertical guard then mv_move_x values else mv_move_y values);
            moved_inward = (\<bar>raw_guard_axis\<bar> \<ge> \<bar>raw_cross_axis\<bar> \<and>
              ((guard = DH_DIRECTION_LEFT \<and> offset_x > 0) \<or> (guard = DH_DIRECTION_RIGHT \<and> offset_x < 0) \<or>
               (guard = DH_DIRECTION_TOP \<and> offset_y > 0) \<or> (guard = DH_DIRECTION_BOTTOM \<and> offset_y < 0)));
            moved_reverse =
              ((guard = DH_DIRECTION_LEFT \<and> raw_guard_axis < 0) \<or> (guard = DH_DIRECTION_RIGHT \<and> raw_guard_axis > 0) \<or>
               (guard = DH_DIRECTION_TOP \<and> raw_guard_axis < 0) \<or> (guard = DH_DIRECTION_BOTTOM \<and> raw_guard_axis > 0));
            d = (if moved_reverse
                 then d\<lparr>dv_output_arrival_reverse := of_int (min (uint (dv_output_arrival_reverse d) + \<bar>raw_guard_axis\<bar>) 65535)\<rparr>
                 else d);
            deliberate_reverse = dv_output_arrival_reverse d > dv_jump_threshold d in
        if moved_inward \<or> deliberate_reverse
        then (d\<lparr>dv_output_arrival_guard := DH_DIRECTION_NONE, dv_output_arrival_reverse := 0\<rparr>, False)
        else (d, True))"

definition keep_pointer_on_screen :: "device_t \<Rightarrow> device_t" where
  "keep_pointer_on_screen d =
     d\<lparr>dv_pointer_x := to_i16 (move_and_keep_on_screen (dv_pointer_x d) 0), dv_pointer_y := to_i16 (move_and_keep_on_screen (dv_pointer_y d) 0)\<rparr>"

text \<open>The seam that is overshot farther wins.\<close>

definition chosen_direction :: "screen_boundary_crossing_t \<Rightarrow> screen_boundary_crossing_t \<Rightarrow> bool \<Rightarrow> bool \<Rightarrow> dh_direction_t" where
  "chosen_direction horizontal vertical horizontal_actionable vertical_actionable =
     (if vertical_actionable \<and> (\<not> horizontal_actionable \<or> sb_overshoot vertical > sb_overshoot horizontal)
      then sb_direction vertical
      else if horizontal_actionable then sb_direction horizontal else DH_DIRECTION_NONE)"

text \<open>An axis that crosses stays where it was; the other is kept on the screen. A relative chain crossing keeps its overshoot.\<close>

definition move_pointer :: "device_t \<Rightarrow> bool \<Rightarrow> bool \<Rightarrow> dh_direction_t \<Rightarrow> dh_mouse_transition_t \<Rightarrow> int \<Rightarrow> int \<Rightarrow> device_t" where
  "move_pointer d horizontal_actionable vertical_actionable direction chosen_transition offset_x offset_y =
     (let d = (if \<not> horizontal_actionable then d\<lparr>dv_pointer_x := to_i16 (move_and_keep_on_screen (dv_pointer_x d) offset_x)\<rparr> else d);
          d = (if \<not> vertical_actionable then d\<lparr>dv_pointer_y := to_i16 (move_and_keep_on_screen (dv_pointer_y d) offset_y)\<rparr> else d) in
      if dv_relative_mouse d \<and> chosen_transition \<noteq> DH_MOUSE_TRANSITION_NONE \<and> chosen_transition \<noteq> DH_MOUSE_TRANSITION_OUTPUT
      then (if dh_direction_is_vertical direction then d\<lparr>dv_pointer_y := to_i16 (dv_pointer_y d + offset_y)\<rparr>
            else d\<lparr>dv_pointer_x := to_i16 (dv_pointer_x d + offset_x)\<rparr>)
      else d)"

definition update_mouse_position :: "device_t \<Rightarrow> mouse_values_t \<Rightarrow> device_t \<times> mouse_values_t \<times> dh_direction_t" where
  "update_mouse_position d values =
     (let crossing = dv_cursor_crossing d in
      if cx_phase crossing \<noteq> CURSOR_CROSSING_IDLE then
        let d = cursor_trace_event DH_CURSOR_TRACE_INPUT (cx_query_id crossing) (to_i16 (mv_move_x values)) (to_i16 (mv_move_y values))
                  (cx_direction crossing) DH_MOUSE_TRANSITION_OUTPUT d in
        (d\<lparr>dv_mouse_buttons := to_i16 (mv_buttons values)\<rparr>, values\<lparr>mv_move_x := 0, mv_move_y := 0\<rparr>, DH_DIRECTION_NONE)
      else
        let d = keep_pointer_on_screen d;
            current = active d;
            buttons = mv_buttons values;
            (d, offset_x) = axis_offset d values False;
            (d, offset_y) = axis_offset d values True;
            horizontal = screen_boundary_crossing d current (dv_pointer_x d) offset_x DH_DIRECTION_LEFT DH_DIRECTION_RIGHT;
            vertical = screen_boundary_crossing d current (dv_pointer_y d) offset_y DH_DIRECTION_TOP DH_DIRECTION_BOTTOM;
            guard = dv_output_arrival_guard d;
            (d, guarded) = arrival_guard_step d values offset_x offset_y;
            horizontal_actionable =
              (actionable_transition_for d current (sb_direction horizontal) buttons \<noteq> DH_MOUSE_TRANSITION_NONE \<and>
               \<not> (guarded \<and> sb_direction horizontal = guard));
            vertical_actionable =
              (actionable_transition_for d current (sb_direction vertical) buttons \<noteq> DH_MOUSE_TRANSITION_NONE \<and>
               \<not> (guarded \<and> sb_direction vertical = guard));
            direction = chosen_direction horizontal vertical horizontal_actionable vertical_actionable;
            chosen_transition = actionable_transition_for d current direction buttons;
            d = (if sb_direction horizontal \<noteq> DH_DIRECTION_NONE \<or> sb_direction vertical \<noteq> DH_DIRECTION_NONE
                 then cursor_trace_event DH_CURSOR_TRACE_DECISION 0 (to_i16 (mv_move_x values)) (to_i16 (mv_move_y values)) direction
                        chosen_transition d
                 else d);
            values = (if dv_relative_mouse d \<and> horizontal_actionable \<and> vertical_actionable
                      then (if dh_direction_is_vertical direction then values\<lparr>mv_move_x := 0\<rparr> else values\<lparr>mv_move_y := 0\<rparr>)
                      else values);
            d = move_pointer d horizontal_actionable vertical_actionable direction chosen_transition offset_x offset_y in
        (d\<lparr>dv_mouse_buttons := to_i16 (mv_buttons values)\<rparr>, values, direction))"

section \<open>Model: arriving and crossing\<close>

text \<open>The query of the source helper. \<open>gap\<close> is what core 0 ran between the two times core 1 holds the lock.\<close>

definition next_query :: "device_t \<Rightarrow> device_t \<times> byte" where
  "next_query d =
     (let q = dv_next_cursor_query_id d + 1; q = (if q = 0 then 1 else q) in (d\<lparr>dv_next_cursor_query_id := q\<rparr>, q))"

definition still_waiting :: "device_t \<Rightarrow> byte \<Rightarrow> bool" where
  "still_waiting d query_id =
     (cx_phase (dv_cursor_crossing d) = CURSOR_CROSSING_WAITING \<and> cx_query_id (dv_cursor_crossing d) = query_id)"

definition query_source_cursor ::
  "crossing_env \<Rightarrow> core0_event list \<Rightarrow> device_t \<Rightarrow> dh_direction_t \<Rightarrow> dh_mouse_transition_t \<Rightarrow> cursor_crossing_kind_t \<Rightarrow>
   device_t \<times> bool" where
  "query_source_cursor E gap d direction transition kind =
     (let (d, query_id) = next_query d;
          d = d\<lparr>dv_cursor_crossing :=
            \<lparr>cx_phase = CURSOR_CROSSING_WAITING, cx_kind = kind, cx_direction = direction, cx_output = dv_active_output d,
             cx_query_id = query_id, cx_target_screen = ucast (ou_screen_index (active d)), cx_target_position = 0,
             cx_query_sent = False, cx_started_us = ev_time_us E\<rparr>\<rparr>;
          d = cursor_trace_event DH_CURSOR_TRACE_QUERY query_id 0 0 direction transition d;
          d = emit_effect (QueryCursor (dv_active_output d) query_id) d;
          d = core0_turns gap d in
      if ev_query_result E \<noteq> CURSOR_QUERY_UNAVAILABLE then
        (if ev_query_result E = CURSOR_QUERY_SENT \<and> still_waiting d query_id
         then d\<lparr>dv_cursor_crossing := (dv_cursor_crossing d)\<lparr>cx_query_sent := True\<rparr>\<rparr> else d, True)
      else
        let d = (if still_waiting d query_id then cursor_crossing_clear d else d) in
        (cursor_trace_event DH_CURSOR_TRACE_CANCEL query_id 0 0 direction transition d, False))"

text \<open>The middle part of a walk to the arrival screen of a Windows computer: the relative moves from one screen past the main
  one to the screen of arrival.\<close>

fun repeat_relative :: "nat \<Rightarrow> device_t \<Rightarrow> nat \<Rightarrow> dh_direction_t \<Rightarrow> int \<Rightarrow> int \<Rightarrow> device_t \<times> int" where
  "repeat_relative 0 d i direction here counts = (d, here)"
| "repeat_relative (Suc n) d i direction here counts =
     (let (d, here) = send_relative d i direction here counts in repeat_relative n d i direction here counts)"

definition walk_along_chain ::
  "device_t \<Rightarrow> nat \<Rightarrow> byte \<Rightarrow> int \<Rightarrow> dh_direction_t \<Rightarrow> device_t" where
  "walk_along_chain d i screen steps direction =
     (let target = dv_output d ! i;
          middle = \<lparr>mc_x = MAX_SCREEN_COORD sdiv 2, mc_y = MAX_SCREEN_COORD sdiv 2\<rparr>;
          chain_vertical = dh_direction_is_vertical direction;
          speed = walk_speed target direction;
          chain_pixels = windows_pixels target chain_vertical;
          counts = (if chain_pixels \<noteq> 0 then dh_windows_counts_for_pixels chain_pixels (ou_pointer_speed target)
                    else (MAX_SCREEN_COORD + speed) sdiv speed);
          counts = (if chain_pixels = 0 \<and> counts > MAX_SCREEN_COORD then MAX_SCREEN_COORD else counts);
          (d, landed) = walk_landing d i direction middle;
          (d, chain_at) =
            (if steps > 1 \<and> ucast screen = ou_screen_count target then
               let (d, _) = send_relative d i direction 0 (2 * steps * counts);
                   far = dh_mouse_edge_coordinates direction middle MIN_SCREEN_COORD MAX_SCREEN_COORD in
               (d, if chain_vertical then mc_y far else mc_x far)
             else
               let (d, here) = repeat_relative (nat (steps - 1)) d i direction (if chain_vertical then mc_y landed else mc_x landed) counts in
               (d, on_next_monitor here)) in
      set_pointer (if chain_vertical then landed\<lparr>mc_y := chain_at\<rparr> else landed\<lparr>mc_x := chain_at\<rparr>) d)"

text \<open>Back along the seam toward the entry point, at most a third of the way to an edge a screen lies behind.\<close>

definition along_distance :: "device_t \<Rightarrow> output_t \<Rightarrow> byte \<Rightarrow> dh_direction_t \<Rightarrow> dh_direction_t \<Rightarrow> int \<Rightarrow> int \<Rightarrow> int" where
  "along_distance d target screen direction travel here entry =
     (let distance = entry - here in
      if dh_direction_is_vertical direction \<noteq> dh_direction_is_vertical travel then
        let forward = (direction = DH_DIRECTION_RIGHT \<or> direction = DH_DIRECTION_BOTTOM);
            screen_past_end = (ucast screen < ou_screen_count target);
            screen_below = (forward \<or> screen_past_end);
            screen_above = (\<not> forward \<or> screen_past_end);
            distance = (if distance < 0 \<and> screen_below \<and> distance < (- (here - MIN_SCREEN_COORD)) sdiv 3
                        then (- (here - MIN_SCREEN_COORD)) sdiv 3 else distance) in
        if distance > 0 \<and> screen_above \<and> distance > (MAX_SCREEN_COORD - here) sdiv 3 then (MAX_SCREEN_COORD - here) sdiv 3 else distance
      else distance)"

definition walk_along_seam ::
  "device_t \<Rightarrow> nat \<Rightarrow> byte \<Rightarrow> dh_direction_t \<Rightarrow> dh_direction_t \<Rightarrow> dh_mouse_coordinates_t \<Rightarrow> device_t" where
  "walk_along_seam d i screen direction travel entry =
     (let target = dv_output d ! i;
          seam_vertical = dh_direction_is_vertical travel;
          along = (if seam_vertical then DH_DIRECTION_RIGHT else DH_DIRECTION_BOTTOM);
          along_speed = walk_speed target along;
          along_pixels = windows_pixels target (\<not> seam_vertical);
          here = (if seam_vertical then dv_pointer_x d else dv_pointer_y d);
          distance = along_distance d target screen direction travel here (if seam_vertical then mc_x entry else mc_y entry);
          back = (if along_pixels \<noteq> 0 then
                    let pixels = to_i32 ((here + distance) * along_pixels sdiv (MAX_SCREEN_COORD + 1) - here * along_pixels sdiv (MAX_SCREEN_COORD + 1)) in
                    dh_windows_counts_nearest pixels (ou_pointer_speed target) (dv_windows_part_pixel d i (\<not> seam_vertical))
                  else distance sdiv along_speed);
          (d, here) = send_relative d i (if back < 0 then dh_opposite_direction along else along) here (if back < 0 then - back else back) in
      if seam_vertical then d\<lparr>dv_pointer_x := to_i16 here\<rparr> else d\<lparr>dv_pointer_y := to_i16 here\<rparr>)"

definition walk_across_seam ::
  "device_t \<Rightarrow> nat \<Rightarrow> dh_direction_t \<Rightarrow> dh_direction_t \<Rightarrow> dh_mouse_coordinates_t \<Rightarrow> device_t" where
  "walk_across_seam d i direction travel entry =
     (let target = dv_output d ! i; seam_vertical = dh_direction_is_vertical travel in
      if dh_direction_is_vertical direction = seam_vertical then d
      else
        let across_pixels = windows_pixels target seam_vertical;
            past = (if across_pixels \<noteq> 0 then dh_windows_counts_for_pixels (2 * across_pixels) (ou_pointer_speed target)
                    else 2 * (MAX_SCREEN_COORD + 1) sdiv walk_speed target travel);
            past = (if across_pixels = 0 \<and> past > MAX_SCREEN_COORD then MAX_SCREEN_COORD else past);
            (d, _) = send_relative d i (dh_opposite_direction travel) 0 past in
        if seam_vertical then d\<lparr>dv_pointer_y := to_i16 (mc_y entry)\<rparr> else d\<lparr>dv_pointer_x := to_i16 (mc_x entry)\<rparr>)"

fun walk_screens :: "nat \<Rightarrow> device_t \<Rightarrow> dh_mouse_coordinates_t \<Rightarrow> dh_direction_t \<Rightarrow> device_t" where
  "walk_screens 0 d from direction = d"
| "walk_screens (Suc n) d from direction = walk_screens n (walk_one_screen d from direction) from direction"

definition walk_to_arrival_screen :: "device_t \<Rightarrow> nat \<Rightarrow> byte \<Rightarrow> byte \<Rightarrow> dh_direction_t \<Rightarrow> device_t" where
  "walk_to_arrival_screen d i os_screen screen travel =
     (let target = dv_output d ! i; os_screen = (if ou_os target = WINDOWS then 1 else os_screen) in
      if (ou_os target \<noteq> WINDOWS \<and> ou_os target \<noteq> MACOS) \<or> os_screen = screen then d
      else
        let steps = (if os_screen < screen then uint screen - uint os_screen else uint os_screen - uint screen);
            chain = direction_of (ou_chain_direction target);
            direction = (if os_screen < screen then chain else dh_opposite_direction chain);
            middle = \<lparr>mc_x = MAX_SCREEN_COORD sdiv 2, mc_y = MAX_SCREEN_COORD sdiv 2\<rparr>;
            d = walk_one_screen d middle direction in
        if ou_os target = MACOS then walk_screens (nat (steps - 1)) d middle direction
        else
          let entry = pointer_of d;
              d = walk_along_chain d i screen steps direction;
              d = walk_along_seam d i screen direction travel entry in
          walk_across_seam d i direction travel entry)"

definition seam_position_of :: "int \<Rightarrow> u16" where
  "seam_position_of along = ucast ((of_int along * 65535 + 16383 :: u32) div 32767)"

text \<open>The helper puts a relative Windows cursor on a pixel of the edge; the estimate starts in that pixel.\<close>

definition place_estimate :: "device_t \<Rightarrow> output_t \<Rightarrow> dh_direction_t \<Rightarrow> u16 \<Rightarrow> device_t" where
  "place_estimate d target direction position =
     (let seam_vertical = dh_direction_is_vertical direction; span = windows_pixels target (\<not> seam_vertical) in
      if dv_relative_mouse d \<and> span \<noteq> 0 then
        let px = dh_place_along position span;
            units = to_i16 ((px * (MAX_SCREEN_COORD + 1) + span - 1) sdiv span) in
        if seam_vertical then d\<lparr>dv_pointer_x := units\<rparr> else d\<lparr>dv_pointer_y := units\<rparr>
      else d)"

definition cross_to_output :: "crossing_env \<Rightarrow> device_t \<Rightarrow> dh_direction_t \<Rightarrow> device_t" where
  "cross_to_output E d direction =
     (let out = active d; to = other_output (dv_active_output d); target = output_at d to;
          normalized = seam_position_of (dh_mouse_along_seam direction (pointer_of d));
          (crossing, mapped) = dh_seam_resolve_crossing (ou_seam_ranges out) (ou_seam_ranges target) (ou_screen_index out)
            (ou_screen_count out) (ou_screen_count target) normalized in
      if crossing = DH_SEAM_CROSSING_BLOCKED
      then set_pointer (dh_mouse_edge_coordinates direction (pointer_of d) MIN_SCREEN_COORD MAX_SCREEN_COORD) d
      else
        let d = switch_to_another_pc d out to direction;
            d = d\<lparr>dv_output_arrival_guard := dh_opposite_direction direction, dv_output_arrival_reverse := 0\<rparr>;
            d = cursor_trace_event DH_CURSOR_TRACE_SWITCH 0 0 0 direction DH_MOUSE_TRANSITION_OUTPUT d;
            os_screen = ucast (ou_screen_index (output_at d to));
            helper = ev_helper_present E (ucast (ou_number target)) in
        case mapped of
          Some m \<Rightarrow>
            let entry = to_i16 (seam_to_units (sn_position m));
                d = (if dh_direction_is_vertical direction then d\<lparr>dv_pointer_x := entry\<rparr> else d\<lparr>dv_pointer_y := entry\<rparr>) in
            (case select_cursor_screen d (ucast (ou_number target)) (sn_screen_index m) of
               (d, False) \<Rightarrow> d
             | (d, True) \<Rightarrow>
                 if helper then
                   let d = emit_effect (PlaceCursor (ucast (ou_number target)) (sn_screen_index m) (ou_chain_direction target)
                             (ou_border_direction target) (sn_position m)) d;
                       d = place_estimate d (output_at d to) direction (sn_position m) in
                   cursor_trace_event DH_CURSOR_TRACE_PLACE 0 0 0 direction DH_MOUSE_TRANSITION_OUTPUT d
                 else walk_to_arrival_screen d (unat to) os_screen (ucast (ou_screen_index (output_at d to))) direction)
        | None \<Rightarrow> walk_to_arrival_screen d (unat to) os_screen (ucast (ou_screen_index (output_at d to))) direction)"

definition place_on_macos :: "crossing_env \<Rightarrow> core0_event list \<Rightarrow> device_t \<Rightarrow> dh_direction_t \<Rightarrow> dh_mouse_transition_t \<Rightarrow> device_t \<times> bool" where
  "place_on_macos E gap d direction transition =
     (let out = active d;
          target_screen = ucast (dh_mouse_next_screen_index transition (ou_screen_index out));
          normalized = seam_position_of (dh_mouse_along_seam direction (pointer_of d));
          (d, query_id) = next_query d;
          d = d\<lparr>dv_cursor_crossing :=
            \<lparr>cx_phase = CURSOR_CROSSING_WAITING, cx_kind = CURSOR_CROSSING_MACOS_PLACEMENT, cx_direction = direction,
             cx_output = dv_active_output d, cx_query_id = query_id, cx_target_screen = target_screen,
             cx_target_position = normalized, cx_query_sent = False, cx_started_us = ev_time_us E\<rparr>\<rparr>;
          d = emit_effect (PlaceCursorCorrelated (dv_active_output d) target_screen (ou_chain_direction out)
                (direction_byte (dh_opposite_direction direction)) normalized query_id) d;
          d = core0_turns gap d in
      if ev_place_accepted E then (d, True)
      else (if still_waiting d query_id then cursor_crossing_clear d else d, False))"

definition cross_along_chain ::
  "crossing_env \<Rightarrow> core0_event list \<Rightarrow> device_t \<Rightarrow> dh_direction_t \<Rightarrow> dh_mouse_transition_t \<Rightarrow> device_t" where
  "cross_along_chain E gap d direction transition =
     (let (d, placed) = (if ou_os (active d) = MACOS then place_on_macos E gap d direction transition else (d, False)) in
      if placed then d
      else
        cursor_trace_event DH_CURSOR_TRACE_SWITCH 0 0 0 direction transition
          (switch_virtual_desktop E d (ucast (dh_mouse_next_screen_index transition (ou_screen_index (active d)))) direction))"

definition cross_screen :: "crossing_env \<Rightarrow> core0_event list \<Rightarrow> device_t \<Rightarrow> dh_direction_t \<Rightarrow> bool \<Rightarrow> device_t" where
  "cross_screen E gap d direction source_resolved =
     (let out = active d; transition = actionable_transition_for d out direction (dv_mouse_buttons d) in
      case transition of
        DH_MOUSE_TRANSITION_OUTPUT \<Rightarrow>
          let (d, asked) = (if dv_relative_mouse d \<and> \<not> source_resolved
                then query_source_cursor E gap d direction transition CURSOR_CROSSING_SOURCE_REANCHOR else (d, False)) in
          if asked then d else cross_to_output E d direction
      | DH_MOUSE_TRANSITION_NONE \<Rightarrow> d
      | _ \<Rightarrow>
          let (d, asked) = (if ou_os out = WINDOWS \<and> dv_relative_mouse d \<and> \<not> source_resolved
                then query_source_cursor E gap d direction transition CURSOR_CROSSING_CHAIN_REANCHOR else (d, False)) in
          if asked then d else cross_along_chain E gap d direction transition)"

definition cursor_output_switched :: "device_t \<Rightarrow> device_t" where
  "cursor_output_switched d =
     fst (select_cursor_screen d (dv_active_output d)
       (if ou_os (active d) = WINDOWS then 1 else ucast (ou_screen_index (active d))))"

definition do_screen_switch :: "crossing_env \<Rightarrow> core0_event list \<Rightarrow> device_t \<Rightarrow> dh_direction_t \<Rightarrow> device_t" where
  "do_screen_switch E gap d direction =
     (if cx_phase (dv_cursor_crossing d) \<noteq> CURSOR_CROSSING_IDLE then d else cross_screen E gap d direction False)"

section \<open>Model: completing a crossing\<close>

abbreviation reanchors :: "cursor_crossing_t \<Rightarrow> bool" where
  "reanchors c \<equiv> cx_kind c = CURSOR_CROSSING_SOURCE_REANCHOR \<or> cx_kind c = CURSOR_CROSSING_CHAIN_REANCHOR"

text \<open>The retry of a query the channel could not take yet; the flag says that the crossing is still the same one.\<close>

definition retry_query :: "crossing_env \<Rightarrow> core0_event list \<Rightarrow> device_t \<Rightarrow> u32 \<Rightarrow> device_t \<times> bool" where
  "retry_query E gap d now_us =
     (let c = dv_cursor_crossing d in
      if cx_phase c = CURSOR_CROSSING_WAITING \<and> reanchors c \<and> \<not> cx_query_sent c then
        let d = emit_effect (QueryCursor (cx_output c) (cx_query_id c)) d;
            d = core0_turns gap d;
            c' = dv_cursor_crossing d in
        if cx_phase c' \<noteq> CURSOR_CROSSING_WAITING \<or> \<not> reanchors c' \<or> cx_output c' \<noteq> cx_output c \<or> cx_query_id c' \<noteq> cx_query_id c
        then (d, False)
        else if ev_query_result E = CURSOR_QUERY_SENT
        then (d\<lparr>dv_cursor_crossing := c'\<lparr>cx_query_sent := True, cx_started_us := now_us\<rparr>\<rparr>, True)
        else if ev_query_result E = CURSOR_QUERY_UNAVAILABLE then (set_phase CURSOR_CROSSING_FALLBACK d, True)
        else (d, True)
      else (d, True))"

definition finish_crossing :: "crossing_env \<Rightarrow> core0_event list \<Rightarrow> device_t \<Rightarrow> bool \<Rightarrow> device_t" where
  "finish_crossing E gap d timed_out =
     (let c = dv_cursor_crossing d; direction = cx_direction c; kind = cx_kind c;
          done = (kind = CURSOR_CROSSING_MACOS_PLACEMENT \<and> cx_phase c = CURSOR_CROSSING_REANCHORED);
          d = cursor_crossing_clear d in
      if done then d
      else
        let d = (if timed_out
                 then cursor_trace_event DH_CURSOR_TRACE_TIMEOUT (cx_query_id c) 0 0 direction
                        (if kind = CURSOR_CROSSING_CHAIN_REANCHOR
                         then actionable_transition_for d (active d) direction (dv_mouse_buttons d) else DH_MOUSE_TRANSITION_OUTPUT) d
                 else d) in
        if kind = CURSOR_CROSSING_CHAIN_REANCHOR \<and> timed_out then d
        else if kind = CURSOR_CROSSING_MACOS_PLACEMENT then switch_virtual_desktop E d (cx_target_screen c) direction
        else cross_screen E gap d direction True)"

definition mouse_crossing_task :: "crossing_env \<Rightarrow> core0_event list \<Rightarrow> device_t \<Rightarrow> u32 \<Rightarrow> device_t" where
  "mouse_crossing_task E gap d now_us =
     (let c = dv_cursor_crossing d in
      if cx_phase c = CURSOR_CROSSING_IDLE then d
      else if dv_active_output d \<noteq> cx_output c \<or> (cx_kind c = CURSOR_CROSSING_SOURCE_REANCHOR \<and> dv_mouse_buttons d \<noteq> 0) \<or>
              dv_switch_lock d \<or> dv_gaming_mode d
      then cursor_trace_event DH_CURSOR_TRACE_CANCEL (cx_query_id c) 0 0 (cx_direction c) DH_MOUSE_TRANSITION_NONE (cursor_crossing_clear d)
      else if cx_phase c = CURSOR_CROSSING_CANCELLED then cursor_crossing_clear d
      else
        let (d, same) = retry_query E gap d now_us in
        if \<not> same then d
        else
          let c = dv_cursor_crossing d;
              timed_out = (cx_phase c = CURSOR_CROSSING_WAITING \<and> now_us - cx_started_us c \<ge> CURSOR_REANCHOR_TIMEOUT_US);
              d = (if timed_out then set_phase CURSOR_CROSSING_FALLBACK d else d) in
          if cx_phase (dv_cursor_crossing d) = CURSOR_CROSSING_WAITING then d else finish_crossing E gap d timed_out)"

text \<open>A report from the mouse, once its values are extracted.\<close>

definition process_mouse_values :: "crossing_env \<Rightarrow> core0_event list \<Rightarrow> device_t \<Rightarrow> mouse_values_t \<Rightarrow> device_t" where
  "process_mouse_values E gap d values =
     (if mv_move_x values = 0 \<and> mv_move_y values = 0 \<and> mv_wheel values = 0 \<and> mv_pan values = 0 \<and> mv_buttons values = dv_mouse_buttons d
      then d
      else
        let (d, values, switch_direction) = update_mouse_position d values;
            d = output_mouse_report (create_mouse_report d values) d in
        if switch_direction \<noteq> DH_DIRECTION_NONE then do_screen_switch E gap d switch_direction else d)"

end
