(* ===== verification/DH_Mouse_Inv.thy ===== *)
theory DH_Mouse_Inv
  imports DH_Mouse
begin

text \<open>
  Every operation of the crossing logic keeps its state well-formed. Walks, which only move the pointer and send reports, are treated
  together by the relation \<open>walks\<close>; what core 0 cannot change is \<open>core1_view\<close>.
\<close>

section \<open>Well-formed states\<close>

lemma emit_fields [simp]:
  "dv_active_output (emit_effect e d) = dv_active_output d" "dv_pointer_x (emit_effect e d) = dv_pointer_x d"
  "dv_pointer_y (emit_effect e d) = dv_pointer_y d" "dv_mouse_buttons (emit_effect e d) = dv_mouse_buttons d"
  "dv_output (emit_effect e d) = dv_output d" "dv_jump_threshold (emit_effect e d) = dv_jump_threshold d"
  "dv_switch_lock (emit_effect e d) = dv_switch_lock d" "dv_relative_mouse (emit_effect e d) = dv_relative_mouse d"
  "dv_windows_part_pixel (emit_effect e d) = dv_windows_part_pixel d" "dv_gaming_mode (emit_effect e d) = dv_gaming_mode d"
  "dv_boot_mouse_mode (emit_effect e d) = dv_boot_mouse_mode d" "dv_cursor_crossing (emit_effect e d) = dv_cursor_crossing d"
  "dv_output_arrival_guard (emit_effect e d) = dv_output_arrival_guard d"
  "dv_output_arrival_reverse (emit_effect e d) = dv_output_arrival_reverse d"
  "dv_next_cursor_query_id (emit_effect e d) = dv_next_cursor_query_id d"
  "dv_effects (emit_effect e d) = dv_effects d @ [e]"
  by (simp_all add: emit_effect_def)

definition i16 :: "int \<Rightarrow> bool" where
  "i16 x = (- 32768 \<le> x \<and> x \<le> 32767)"

lemma i16_to_i16 [simp]: "i16 (to_i16 x)"
  unfolding i16_def to_i16_def by linarith

lemma to_i16_id: "i16 x \<Longrightarrow> to_i16 x = x"
  unfolding i16_def to_i16_def by simp

definition outputs_ok :: "output_t list \<Rightarrow> bool" where
  "outputs_ok os =
     (length os = 2 \<and>
      (\<forall>i < 2. ou_number (os ! i) = of_nat i \<and> 1 \<le> ou_screen_index (os ! i) \<and> ou_screen_index (os ! i) \<le> ou_screen_count (os ! i) \<and>
               ou_screen_count (os ! i) \<le> 255))"

definition pointer_ok :: "device_t \<Rightarrow> bool" where
  "pointer_ok d = (i16 (dv_pointer_x d) \<and> i16 (dv_pointer_y d))"

definition parts_ok :: "device_t \<Rightarrow> bool" where
  "parts_ok d = (\<forall>i v. \<bar>dv_windows_part_pixel d i v\<bar> \<le> 31)"

text \<open>Relative mode is on exactly when the active output is a Windows computer and the cursor is past its main screen.\<close>

definition relative_ok :: "device_t \<Rightarrow> bool" where
  "relative_ok d = (dv_relative_mouse d = (ou_os (active d) = WINDOWS \<and> ou_screen_index (active d) > 1))"

definition crossing_ok :: "device_t \<Rightarrow> bool" where
  "crossing_ok d =
     (let c = dv_cursor_crossing d in
      cx_phase c \<noteq> CURSOR_CROSSING_IDLE \<longrightarrow>
        cx_query_id c \<noteq> 0 \<and> cx_direction c \<noteq> DH_DIRECTION_NONE \<and> cx_output c \<le> 1 \<and>
        (reanchors c \<longrightarrow> ou_os (output_at d (cx_output c)) = WINDOWS) \<and>
        (cx_kind c = CURSOR_CROSSING_MACOS_PLACEMENT \<longrightarrow>
           cx_target_screen c \<noteq> 0 \<and> ucast (cx_target_screen c) \<le> ou_screen_count (output_at d (cx_output c))))"

definition guard_ok :: "device_t \<Rightarrow> bool" where
  "guard_ok d = (dv_output_arrival_guard d \<noteq> DH_DIRECTION_NONE \<longrightarrow> dv_output_arrival_reverse d \<le> dv_jump_threshold d)"

definition base_ok :: "device_t \<Rightarrow> bool" where
  "base_ok d = (outputs_ok (dv_output d) \<and> dv_active_output d \<le> 1 \<and> crossing_ok d \<and> guard_ok d)"

definition device_ok :: "device_t \<Rightarrow> bool" where
  "device_ok d = (base_ok d \<and> relative_ok d \<and> pointer_ok d \<and> parts_ok d)"

text \<open>The walks: a device that differs only in pointer, part-pixels and effects.\<close>

definition rest :: "device_t \<Rightarrow> device_t" where
  "rest d = d\<lparr>dv_pointer_x := 0, dv_pointer_y := 0, dv_windows_part_pixel := (\<lambda>_ _. 0), dv_effects := []\<rparr>"

definition walks :: "device_t \<Rightarrow> device_t \<Rightarrow> bool" where
  "walks d d' = (rest d' = rest d \<and> (pointer_ok d \<longrightarrow> pointer_ok d') \<and> (parts_ok d \<longrightarrow> parts_ok d'))"

lemma walks_refl [simp, intro]: "walks d d"
  by (simp add: walks_def)

lemma walks_trans [trans]: "walks d e \<Longrightarrow> walks e f \<Longrightarrow> walks d f"
  by (simp add: walks_def)

lemma rest_fields:
  assumes "rest d' = rest d"
  shows "dv_active_output d' = dv_active_output d" "dv_mouse_buttons d' = dv_mouse_buttons d" "dv_output d' = dv_output d"
    "dv_jump_threshold d' = dv_jump_threshold d" "dv_switch_lock d' = dv_switch_lock d" "dv_relative_mouse d' = dv_relative_mouse d"
    "dv_gaming_mode d' = dv_gaming_mode d" "dv_boot_mouse_mode d' = dv_boot_mouse_mode d" "dv_cursor_crossing d' = dv_cursor_crossing d"
    "dv_output_arrival_guard d' = dv_output_arrival_guard d" "dv_output_arrival_reverse d' = dv_output_arrival_reverse d"
    "dv_next_cursor_query_id d' = dv_next_cursor_query_id d"
  using assms by (cases d, cases d', simp add: rest_def)+

lemma walks_fields:
  assumes "walks d d'"
  shows "dv_active_output d' = dv_active_output d" "dv_mouse_buttons d' = dv_mouse_buttons d" "dv_output d' = dv_output d"
    "dv_jump_threshold d' = dv_jump_threshold d" "dv_relative_mouse d' = dv_relative_mouse d" "dv_cursor_crossing d' = dv_cursor_crossing d"
    "dv_output_arrival_guard d' = dv_output_arrival_guard d" "dv_output_arrival_reverse d' = dv_output_arrival_reverse d"
proof -
  have "rest d' = rest d" using assms by (simp add: walks_def)
  note r = rest_fields [OF this]
  show "dv_active_output d' = dv_active_output d" "dv_mouse_buttons d' = dv_mouse_buttons d" "dv_output d' = dv_output d"
    "dv_jump_threshold d' = dv_jump_threshold d" "dv_relative_mouse d' = dv_relative_mouse d" "dv_cursor_crossing d' = dv_cursor_crossing d"
    "dv_output_arrival_guard d' = dv_output_arrival_guard d" "dv_output_arrival_reverse d' = dv_output_arrival_reverse d"
    by (rule r)+
qed

lemma walks_ok:
  assumes "walks d d'"
  shows "base_ok d \<Longrightarrow> base_ok d'" "relative_ok d \<Longrightarrow> relative_ok d'" "device_ok d \<Longrightarrow> device_ok d'"
  using walks_fields [OF assms] assms
  by (simp_all add: base_ok_def crossing_ok_def guard_ok_def relative_ok_def device_ok_def walks_def Let_def)

lemma walks_emit [simp, intro]: "walks d (emit_effect e d)"
  by (simp add: walks_def rest_def emit_effect_def pointer_ok_def parts_ok_def)

lemma walks_pointer [intro]:
  "i16 x \<Longrightarrow> walks d (d\<lparr>dv_pointer_x := x\<rparr>)" "i16 y \<Longrightarrow> walks d (d\<lparr>dv_pointer_y := y\<rparr>)"
  by (simp_all add: walks_def rest_def pointer_ok_def parts_ok_def)

lemma walks_set_pointer [simp, intro]: "walks d (set_pointer p d)"
  by (simp add: walks_def rest_def pointer_ok_def parts_ok_def set_pointer_def)

lemma walk_one_screen_walks [simp, intro]: "walks d (walk_one_screen d from direction)"
  unfolding walk_one_screen_def Let_def by (rule walks_trans) (rule walks_emit)+

text \<open>Windows' maths keeps less than a pixel.\<close>

lemma estimate_part: "\<bar>part\<bar> \<le> 31 \<Longrightarrow> \<bar>snd (dh_windows_estimate_offset position counts step pixels speed part)\<bar> \<le> 31"
proof -
  assume p: "\<bar>part\<bar> \<le> 31"
  have "\<bar>n - n sdiv 32 * 32\<bar> \<le> 31" for n :: int
  proof -
    have "n - n sdiv 32 * 32 = n smod 32" by (simp add: minus_sdiv_mult_eq_smod)
    moreover have "\<bar>n smod 32\<bar> < 32" by (simp add: signed_modulo_int_def abs_mult)
    ultimately show ?thesis by simp
  qed
  from this [of "counts * mult32 step + part"] show ?thesis using p by (auto simp: dh_windows_estimate_offset_def Let_def)
qed

lemma windows_moved_walks [intro]: "windows_moved d i v here counts = (d', here') \<Longrightarrow> walks d d'"
proof -
  assume m: "windows_moved d i v here counts = (d', here')"
  then obtain part where "d' = d\<lparr>dv_windows_part_pixel := (dv_windows_part_pixel d)(i := (dv_windows_part_pixel d i)(v := part))\<rparr>"
    and "\<bar>dv_windows_part_pixel d i v\<bar> \<le> 31 \<Longrightarrow> \<bar>part\<bar> \<le> 31"
    using estimate_part by (auto simp: windows_moved_def Let_def split: prod.splits) (metis snd_conv)
  then show ?thesis by (auto simp: walks_def rest_def pointer_ok_def parts_ok_def)
qed

lemma send_relative_walks [intro]: "send_relative d i direction here counts = (d', here') \<Longrightarrow> walks d d'"
proof (induction d i direction here counts arbitrary: d' here' rule: send_relative.induct)
  case (1 d i direction here counts)
  show ?case
  proof (cases "counts > 0")
    case True
    define v where "v = dh_direction_is_vertical direction"
    define chunk where "chunk = (if counts < 32767 then counts else 32767)"
    define move where "move = dh_mouse_nudge direction chunk"
    define e where "e = output_mouse_report \<lparr>mr_buttons = 0, mr_x = to_i16 (mc_x move), mr_y = to_i16 (mc_y move), mr_wheel = 0, mr_pan = 0, mr_mode = 1\<rparr> d"
    obtain f here2 where w: "windows_moved e i v here (if v then mc_y move else mc_x move) = (f, here2)" by fastforce
    have r: "send_relative f i direction here2 (counts - chunk) = (d', here')"
      using 1(2) w by (simp only: send_relative.simps [of d i direction here counts] True Let_def if_True v_def [symmetric] chunk_def [symmetric]
        move_def [symmetric] e_def [symmetric] prod.case)
    have "walks f d'"
      by (rule 1(1) [OF True v_def chunk_def move_def e_def]) (use w r in \<open>auto simp: v_def\<close>)
    moreover have "walks d e" by (simp add: e_def)
    moreover have "walks e f" using w by blast
    ultimately show ?thesis by (blast intro: walks_trans)
  qed (use 1(2) in \<open>simp add: send_relative.simps\<close>)
qed

lemma walk_landing_walks [intro]: "walk_landing d i direction from = (d', p) \<Longrightarrow> walks d d'"
  by (auto simp: walk_landing_def Let_def split: prod.splits)

lemma repeat_relative_walks [intro]: "repeat_relative n d i direction here counts = (d', here') \<Longrightarrow> walks d d'"
proof (induction n arbitrary: d here)
  case (Suc n)
  obtain e x where s: "send_relative d i direction here counts = (e, x)" by fastforce
  then have "walks e d'" using Suc by simp
  then show ?case using s by (blast intro: walks_trans)
qed simp

lemma walk_screens_walks [simp, intro]: "walks d (walk_screens n d from direction)"
  by (induction n arbitrary: d) (auto intro: walks_trans)

lemma unat_u32_byte: "unat (ucast (b :: byte) :: u32) = unat b"
  by (simp add: unat_ucast_byte)

lemma unat_byte_u32: "unat (ucast (w :: u32) :: byte) = unat w mod 256"
  by (simp add: unsigned_ucast_eq take_bit_eq_mod unat_word_ariths)

lemma nth_update_any: "xs[i := v] ! j = (if i = j \<and> i < length xs then v else xs ! j)"
  by (cases "i < length xs") (auto simp: nth_list_update not_less list_update_beyond)

lemma ucast_u32_eq_0: "ucast (b :: byte) = (0 :: u32) \<longleftrightarrow> b = 0"
  by (simp add: word_unat_eq_iff unat_u32_byte)

section \<open>Every operation keeps the state well-formed\<close>

lemma walks_then_pointer [intro]:
  "walks d e \<Longrightarrow> i16 x \<Longrightarrow> walks d (e\<lparr>dv_pointer_x := x\<rparr>)" "walks d e \<Longrightarrow> i16 y \<Longrightarrow> walks d (e\<lparr>dv_pointer_y := y\<rparr>)"
  using walks_trans walks_pointer by blast+

lemma walk_along_chain_walks [intro]: "walks d (walk_along_chain d i screen steps direction)"
  unfolding walk_along_chain_def Let_def
  by (auto split: prod.splits intro!: walks_trans [OF _ walks_set_pointer] intro: walks_trans)

lemma walk_along_seam_walks [intro]: "walks d (walk_along_seam d i screen direction travel entry)"
  unfolding walk_along_seam_def Let_def by (auto split: prod.splits)

lemma walk_across_seam_walks [intro]: "walks d (walk_across_seam d i direction travel entry)"
  unfolding walk_across_seam_def Let_def by (auto split: prod.splits)

lemma walk_to_arrival_screen_walks [intro]: "walks d (walk_to_arrival_screen d i os_screen screen travel)"
proof -
  have "walks d (walk_across_seam (walk_along_seam (walk_along_chain (walk_one_screen d m dir) i screen n dir) i screen dir travel e) i dir travel e)"
    for m dir n e by (meson walks_trans walk_one_screen_walks walk_along_chain_walks walk_along_seam_walks walk_across_seam_walks)
  moreover have "walks d (walk_screens n (walk_one_screen d m dir) m dir)" for n m dir
    by (meson walks_trans walk_one_screen_walks walk_screens_walks)
  ultimately show ?thesis unfolding walk_to_arrival_screen_def Let_def by simp
qed

lemma place_estimate_walks [intro]: "walks d (place_estimate d target direction position)"
  unfolding place_estimate_def Let_def by (auto)

lemma outputs_okD:
  assumes "outputs_ok os" and "i \<le> (1 :: byte)"
  shows "unat i < length os" and "ou_number (os ! unat i) = ucast i" and "1 \<le> ou_screen_index (os ! unat i)"
    and "ou_screen_index (os ! unat i) \<le> ou_screen_count (os ! unat i)" and "ou_screen_count (os ! unat i) \<le> 255"
proof -
  have i: "unat i < 2" using assms(2) by (simp add: word_le_nat_alt)
  moreover have "(of_nat (unat i) :: u32) = ucast i" by simp
  ultimately show "unat i < length os" and "ou_number (os ! unat i) = ucast i" and "1 \<le> ou_screen_index (os ! unat i)"
    and "ou_screen_index (os ! unat i) \<le> ou_screen_count (os ! unat i)" and "ou_screen_count (os ! unat i) \<le> 255"
    using assms(1) unfolding outputs_ok_def by metis+
qed

text \<open>Choosing a screen keeps everything but the screen and the relative mode, which it sets to match.\<close>

lemma select_refused: "snd (select_cursor_screen d out screen) = False \<Longrightarrow> fst (select_cursor_screen d out screen) = d"
  by (auto simp: select_cursor_screen_def split: if_splits)

lemma outputs_ok_update:
  assumes "outputs_ok os" and "s \<noteq> 0" and "s \<le> ou_screen_count (os ! i)"
  shows "outputs_ok (os[i := (os ! i)\<lparr>ou_screen_index := s\<rparr>])"
proof -
  have "1 \<le> s" using assms(2) by (simp add: word_le_nat_alt Suc_le_eq unat_gt_0)
  then show ?thesis using assms unfolding outputs_ok_def by (auto simp: nth_update_any)
qed

lemma select_fields [simp]:
  "dv_active_output (fst (select_cursor_screen d out screen)) = dv_active_output d"
  "dv_pointer_x (fst (select_cursor_screen d out screen)) = dv_pointer_x d"
  "dv_pointer_y (fst (select_cursor_screen d out screen)) = dv_pointer_y d"
  "dv_cursor_crossing (fst (select_cursor_screen d out screen)) = dv_cursor_crossing d"
  "dv_windows_part_pixel (fst (select_cursor_screen d out screen)) = dv_windows_part_pixel d"
  "dv_output_arrival_guard (fst (select_cursor_screen d out screen)) = dv_output_arrival_guard d"
  "dv_output_arrival_reverse (fst (select_cursor_screen d out screen)) = dv_output_arrival_reverse d"
  "dv_jump_threshold (fst (select_cursor_screen d out screen)) = dv_jump_threshold d"
  "dv_mouse_buttons (fst (select_cursor_screen d out screen)) = dv_mouse_buttons d"
  by (simp_all add: select_cursor_screen_def)

lemma select_statics:
  "ou_os (dv_output (fst (select_cursor_screen d out screen)) ! i) = ou_os (dv_output d ! i)"
  "ou_screen_count (dv_output (fst (select_cursor_screen d out screen)) ! i) = ou_screen_count (dv_output d ! i)"
  by (simp_all add: select_cursor_screen_def nth_update_any)

lemma select_base_ok:
  assumes "base_ok d"
  shows "base_ok (fst (select_cursor_screen d out screen))"
proof -
  have "outputs_ok (dv_output (fst (select_cursor_screen d out screen)))"
    using assms by (auto simp: base_ok_def select_cursor_screen_def not_less ucast_u32_eq_0 intro!: outputs_ok_update)
  then show ?thesis using assms by (simp add: base_ok_def crossing_ok_def guard_ok_def Let_def select_statics)
qed

lemma select_relative_ok:
  assumes "base_ok d" and "snd (select_cursor_screen d out screen)"
  shows "relative_ok (fst (select_cursor_screen d out screen))"
  using assms outputs_okD(1) [of "dv_output d" "dv_active_output d"]
  by (auto simp: select_cursor_screen_def relative_ok_def base_ok_def word_less_nat_alt unat_u32_byte not_less split: if_splits)

lemma select_ok:
  assumes "device_ok d"
  shows "device_ok (fst (select_cursor_screen d out screen))"
proof (cases "snd (select_cursor_screen d out screen)")
  case True
  then show ?thesis using assms select_base_ok select_relative_ok by (simp add: device_ok_def pointer_ok_def parts_ok_def)
next
  case False
  then show ?thesis using assms select_refused by simp
qed

text \<open>The screen an output is on can always be chosen when the output is active.\<close>

lemma select_own_screen:
  assumes "base_ok d"
  shows "snd (select_cursor_screen d (dv_active_output d) (ucast (ou_screen_index (active d))))"
proof -
  note o = outputs_okD [of "dv_output d" "dv_active_output d"]
  have a: "outputs_ok (dv_output d)" "dv_active_output d \<le> 1" using assms by (simp_all add: base_ok_def)
  have l: "ou_screen_index (active d) \<le> 255" using o(4,5) [OF a] by simp
  have u: "ucast (ucast (ou_screen_index (active d)) :: byte) = ou_screen_index (active d)"
    using l by (intro word_unat_eq_iff [THEN iffD2]) (simp add: unat_u32_byte unat_byte_u32 word_le_nat_alt)
  have "(ucast (ou_screen_index (active d)) :: byte) \<noteq> 0" using u o(3) [OF a] by (metis ucast_u32_eq_0 word_le_0_iff zero_neq_one)
  then show ?thesis using u o(4) [OF a] a(2) by (simp add: select_cursor_screen_def not_less)
qed

lemma set_phase_ok: "device_ok d \<Longrightarrow> p \<noteq> CURSOR_CROSSING_IDLE \<Longrightarrow> cx_phase (dv_cursor_crossing d) \<noteq> CURSOR_CROSSING_IDLE \<Longrightarrow> device_ok (set_phase p d)"
  by (simp add: device_ok_def base_ok_def crossing_ok_def guard_ok_def relative_ok_def pointer_ok_def parts_ok_def set_phase_def Let_def)

lemma clear_ok: "device_ok d \<Longrightarrow> device_ok (cursor_crossing_clear d)"
  by (simp add: device_ok_def base_ok_def crossing_ok_def guard_ok_def relative_ok_def pointer_ok_def parts_ok_def cursor_crossing_clear_def
      cursor_crossing_zero_def)

lemma emit_ok: "device_ok d \<Longrightarrow> device_ok (emit_effect e d)"
  by (rule walks_ok(3) [OF walks_emit])

lemma apply_ok:
  assumes "device_ok d" and "i16 x" and "i16 y"
  shows "device_ok (fst (apply_helper_cursor_position d out screen x y q))"
proof -
  obtain e b where s: "select_cursor_screen d out screen = (e, b)" by fastforce
  have "device_ok e" using select_ok [OF assms(1), of out screen] s by simp
  then have p: "device_ok (e\<lparr>dv_pointer_x := x, dv_pointer_y := y\<rparr>)"
    using assms(2,3) by (simp add: device_ok_def base_ok_def crossing_ok_def guard_ok_def relative_ok_def pointer_ok_def parts_ok_def)
  then show ?thesis using assms(1) \<open>device_ok e\<close>
    by (cases b) (auto simp: apply_helper_cursor_position_def s Let_def intro!: emit_ok set_phase_ok)
qed

lemma core0_ok: "device_ok d \<Longrightarrow> device_ok (core0_turn ev d)"
  by (cases ev) (auto simp: apply_ok mouse_crossing_query_unavailable_def Let_def intro!: set_phase_ok)

lemma core0_turns_ok: "device_ok d \<Longrightarrow> device_ok (core0_turns evs d)"
  unfolding core0_turns_def by (induction evs arbitrary: d) (simp_all add: core0_ok)

text \<open>What core 0 leaves alone: everything but the pointer, the screen and mode of the active output, and the phase.\<close>

definition core1_view :: "device_t \<Rightarrow> byte \<times> int \<times> output_t list \<times> cursor_crossing_t" where
  "core1_view d =
     (dv_active_output d, dv_mouse_buttons d, map (\<lambda>out. out\<lparr>ou_screen_index := 0\<rparr>) (dv_output d),
      (dv_cursor_crossing d)\<lparr>cx_phase := CURSOR_CROSSING_IDLE\<rparr>)"

lemma view_simps [simp]:
  "core1_view (emit_effect e d) = core1_view d" "core1_view (set_phase p d) = core1_view d"
  "core1_view (d\<lparr>dv_pointer_x := x, dv_pointer_y := y\<rparr>) = core1_view d"
  by (simp_all add: core1_view_def set_phase_def)

lemma select_view [simp]: "core1_view (fst (select_cursor_screen d out screen)) = core1_view d"
  by (auto simp: core1_view_def select_cursor_screen_def list_eq_iff_nth_eq nth_update_any)

lemma core0_view: "core1_view (core0_turn ev d) = core1_view d"
proof (cases ev)
  case (Readback out screen x y q)
  obtain e b where s: "select_cursor_screen d out screen = (e, b)" by fastforce
  have "core1_view e = core1_view d" using select_view [of d out screen] s by simp
  then show ?thesis using Readback by (cases b) (auto simp: apply_helper_cursor_position_def s Let_def)
qed (simp add: mouse_crossing_query_unavailable_def Let_def)

lemma core0_turns_view: "core1_view (core0_turns evs d) = core1_view d"
  unfolding core0_turns_def by (induction evs arbitrary: d) (simp_all add: core0_view)

lemma view_fields:
  assumes "core1_view d' = core1_view d"
  shows "dv_active_output d' = dv_active_output d" "dv_mouse_buttons d' = dv_mouse_buttons d" "length (dv_output d') = length (dv_output d)"
    "i < length (dv_output d) \<Longrightarrow> ou_os (dv_output d' ! i) = ou_os (dv_output d ! i)"
    "i < length (dv_output d) \<Longrightarrow> ou_screen_count (dv_output d' ! i) = ou_screen_count (dv_output d ! i)"
    "cx_kind (dv_cursor_crossing d') = cx_kind (dv_cursor_crossing d)" "cx_query_id (dv_cursor_crossing d') = cx_query_id (dv_cursor_crossing d)"
    "cx_output (dv_cursor_crossing d') = cx_output (dv_cursor_crossing d)" "cx_started_us (dv_cursor_crossing d') = cx_started_us (dv_cursor_crossing d)"
    "cx_query_sent (dv_cursor_crossing d') = cx_query_sent (dv_cursor_crossing d)"
proof -
  have o: "map (\<lambda>out. out\<lparr>ou_screen_index := 0\<rparr>) (dv_output d') = map (\<lambda>out. out\<lparr>ou_screen_index := 0\<rparr>) (dv_output d)"
    and c: "(dv_cursor_crossing d')\<lparr>cx_phase := CURSOR_CROSSING_IDLE\<rparr> = (dv_cursor_crossing d)\<lparr>cx_phase := CURSOR_CROSSING_IDLE\<rparr>"
    and "dv_active_output d' = dv_active_output d" "dv_mouse_buttons d' = dv_mouse_buttons d"
    using assms by (simp_all add: core1_view_def)
  then show "dv_active_output d' = dv_active_output d" "dv_mouse_buttons d' = dv_mouse_buttons d" by simp_all
  show l: "length (dv_output d') = length (dv_output d)" using o by (metis length_map)
  have n: "(dv_output d' ! i)\<lparr>ou_screen_index := 0\<rparr> = (dv_output d ! i)\<lparr>ou_screen_index := 0\<rparr>" if "i < length (dv_output d)"
    using arg_cong [OF o, of "\<lambda>xs. xs ! i"] that l by simp
  show "ou_os (dv_output d' ! i) = ou_os (dv_output d ! i)" if "i < length (dv_output d)"
    using arg_cong [OF n [OF that], of ou_os] by simp
  show "ou_screen_count (dv_output d' ! i) = ou_screen_count (dv_output d ! i)" if "i < length (dv_output d)"
    using arg_cong [OF n [OF that], of ou_screen_count] by simp
  show "cx_kind (dv_cursor_crossing d') = cx_kind (dv_cursor_crossing d)" using arg_cong [OF c, of cx_kind] by simp
  show "cx_query_id (dv_cursor_crossing d') = cx_query_id (dv_cursor_crossing d)" using arg_cong [OF c, of cx_query_id] by simp
  show "cx_output (dv_cursor_crossing d') = cx_output (dv_cursor_crossing d)" using arg_cong [OF c, of cx_output] by simp
  show "cx_started_us (dv_cursor_crossing d') = cx_started_us (dv_cursor_crossing d)" using arg_cong [OF c, of cx_started_us] by simp
  show "cx_query_sent (dv_cursor_crossing d') = cx_query_sent (dv_cursor_crossing d)" using arg_cong [OF c, of cx_query_sent] by simp
qed

lemma next_query_nonzero: "snd (next_query d) \<noteq> 0"
  by (simp add: next_query_def Let_def)

lemma next_query_device: "fst (next_query d) = d\<lparr>dv_next_cursor_query_id := snd (next_query d)\<rparr>"
  by (simp add: next_query_def Let_def)

lemma transition_facts:
  assumes "actionable_transition_for d out direction buttons = t" and "t \<noteq> DH_MOUSE_TRANSITION_NONE"
  shows "direction \<noteq> DH_DIRECTION_NONE" and "t = DH_MOUSE_TRANSITION_CHAIN_FORWARD \<Longrightarrow> ou_screen_index out < ou_screen_count out"
    and "t = DH_MOUSE_TRANSITION_CHAIN_BACK \<Longrightarrow> ou_screen_index out > 1" and "t = DH_MOUSE_TRANSITION_OUTPUT \<Longrightarrow> buttons = 0"
    and "\<not> dv_switch_lock d" and "\<not> dv_gaming_mode d" and "\<not> dv_boot_mouse_mode d ! unat (dv_active_output d)"
  using assms by (auto simp: actionable_transition_for_def dh_mouse_transition_for_def Let_def split: if_splits)

definition chain_target :: "dh_mouse_transition_t \<Rightarrow> output_t \<Rightarrow> bool" where
  "chain_target t out =
     ((t = DH_MOUSE_TRANSITION_CHAIN_FORWARD \<and> ou_screen_index out < ou_screen_count out) \<or>
      (t = DH_MOUSE_TRANSITION_CHAIN_BACK \<and> ou_screen_index out > 1))"

lemma next_screen_valid:
  assumes "outputs_ok os" and "i \<le> (1 :: byte)" and "chain_target t (os ! unat i)"
  shows "(ucast (dh_mouse_next_screen_index t (ou_screen_index (os ! unat i))) :: byte) \<noteq> 0"
    and "ucast (ucast (dh_mouse_next_screen_index t (ou_screen_index (os ! unat i))) :: byte) \<le> ou_screen_count (os ! unat i)"
proof -
  define s where "s = ou_screen_index (os ! unat i)"
  define n where "n = dh_mouse_next_screen_index t s"
  note o = outputs_okD [OF assms(1,2), folded s_def]
  have c: "unat (ou_screen_count (os ! unat i)) \<le> 255" "1 \<le> unat s" "unat s \<le> unat (ou_screen_count (os ! unat i))"
    using o(3,4,5) by (simp_all add: word_le_nat_alt)
  have n: "1 \<le> unat n \<and> unat n \<le> unat (ou_screen_count (os ! unat i))"
    using assms(3) c unfolding chain_target_def s_def [symmetric]
  proof (elim disjE conjE)
    assume "t = DH_MOUSE_TRANSITION_CHAIN_FORWARD" "s < ou_screen_count (os ! unat i)"
    moreover have "unat (s + 1) = unat s + 1" using c by (simp add: unat_word_ariths)
    ultimately show ?thesis by (simp add: n_def dh_mouse_next_screen_index_def word_less_nat_alt)
  next
    assume "t = DH_MOUSE_TRANSITION_CHAIN_BACK" "1 < s"
    moreover have "unat (s - 1) = unat s - 1" using c(2) unat_sub [of 1 s] by (simp add: word_le_nat_alt)
    ultimately show ?thesis using c by (simp add: n_def dh_mouse_next_screen_index_def word_less_nat_alt) arith
  qed
  then have "unat (ucast n :: byte) = unat n" using c by (simp add: unat_byte_u32)
  then show "(ucast (dh_mouse_next_screen_index t (ou_screen_index (os ! unat i))) :: byte) \<noteq> 0"
    and "ucast (ucast (dh_mouse_next_screen_index t (ou_screen_index (os ! unat i))) :: byte) \<le> ou_screen_count (os ! unat i)"
    using n unfolding s_def [symmetric] n_def [symmetric] by (auto simp: word_le_nat_alt unat_u32_byte)
qed

text \<open>A new crossing of a well-formed device.\<close>

lemma new_crossing_ok:
  assumes "device_ok d" and "cx_query_id c \<noteq> 0" and "cx_direction c \<noteq> DH_DIRECTION_NONE" and "cx_output c = dv_active_output d"
    and "reanchors c \<Longrightarrow> ou_os (active d) = WINDOWS"
    and "cx_kind c = CURSOR_CROSSING_MACOS_PLACEMENT \<Longrightarrow> cx_target_screen c \<noteq> 0 \<and> ucast (cx_target_screen c) \<le> ou_screen_count (active d)"
  shows "device_ok (d\<lparr>dv_next_cursor_query_id := q, dv_cursor_crossing := c\<rparr>)"
  using assms by (simp add: device_ok_def base_ok_def crossing_ok_def guard_ok_def relative_ok_def pointer_ok_def parts_ok_def Let_def)

lemma mark_sent_ok:
  "device_ok d \<Longrightarrow> device_ok (d\<lparr>dv_cursor_crossing := (dv_cursor_crossing d)\<lparr>cx_query_sent := True\<rparr>\<rparr>)"
  "device_ok d \<Longrightarrow> device_ok (d\<lparr>dv_cursor_crossing := (dv_cursor_crossing d)\<lparr>cx_query_sent := True, cx_started_us := t\<rparr>\<rparr>)"
  by (simp_all add: device_ok_def base_ok_def crossing_ok_def guard_ok_def relative_ok_def pointer_ok_def parts_ok_def Let_def)

lemma query_ok:
  assumes "device_ok d" and "direction \<noteq> DH_DIRECTION_NONE" and "dv_relative_mouse d" and "kind \<noteq> CURSOR_CROSSING_MACOS_PLACEMENT"
  shows "device_ok (fst (query_source_cursor E gap d direction transition kind))"
proof -
  have w: "ou_os (active d) = WINDOWS" using assms(1,3) by (simp add: device_ok_def relative_ok_def)
  have "device_ok (d\<lparr>dv_next_cursor_query_id := snd (next_query d), dv_cursor_crossing :=
      \<lparr>cx_phase = CURSOR_CROSSING_WAITING, cx_kind = kind, cx_direction = direction, cx_output = dv_active_output d,
       cx_query_id = snd (next_query d), cx_target_screen = ucast (ou_screen_index (active d)), cx_target_position = 0,
       cx_query_sent = False, cx_started_us = ev_time_us E\<rparr>\<rparr>)"
    by (rule new_crossing_ok) (use assms w next_query_nonzero in auto)
  then show ?thesis unfolding query_source_cursor_def
    by (auto simp: Let_def case_prod_beta next_query_device intro!: emit_ok mark_sent_ok core0_turns_ok clear_ok)
qed

lemma place_on_macos_ok:
  assumes "device_ok d" and "direction \<noteq> DH_DIRECTION_NONE" and "chain_target t (active d)"
  shows "device_ok (fst (place_on_macos E gap d direction t))"
proof -
  have b: "outputs_ok (dv_output d)" "dv_active_output d \<le> 1" using assms(1) by (simp_all add: device_ok_def base_ok_def)
  have "device_ok (d\<lparr>dv_next_cursor_query_id := snd (next_query d), dv_cursor_crossing :=
      \<lparr>cx_phase = CURSOR_CROSSING_WAITING, cx_kind = CURSOR_CROSSING_MACOS_PLACEMENT, cx_direction = direction,
       cx_output = dv_active_output d, cx_query_id = snd (next_query d),
       cx_target_screen = ucast (dh_mouse_next_screen_index t (ou_screen_index (active d))),
       cx_target_position = seam_position_of (dh_mouse_along_seam direction (pointer_of d)), cx_query_sent = False,
       cx_started_us = ev_time_us E\<rparr>\<rparr>)"
    by (rule new_crossing_ok) (use assms(1,2) next_query_nonzero next_screen_valid [OF b assms(3)] in auto)
  then show ?thesis unfolding place_on_macos_def
    by (auto simp: Let_def case_prod_beta next_query_device intro!: emit_ok core0_turns_ok clear_ok)
qed

lemma switch_virtual_desktop_ok:
  assumes "device_ok d"
  shows "device_ok (switch_virtual_desktop E d new_index direction)"
proof -
  have w: "device_ok (set_pointer p e)" if "walks d e" for e p using walks_ok(3) [OF walks_set_pointer walks_ok(3) [OF that assms]] .
  have "walks d (fst (walk_landing (walk_one_screen d q direction) i direction q))" for i q
    using walk_landing_walks walks_trans [OF walk_one_screen_walks] by (metis prod.collapse)
  then show ?thesis unfolding switch_virtual_desktop_def by (auto simp: Let_def case_prod_beta intro!: select_ok w)
qed

lemma switch_to_another_pc_ok:
  assumes "base_ok d" and "pointer_ok d" and "parts_ok d" and "to \<le> 1"
  shows "device_ok (switch_to_another_pc d out to direction)" and "dv_active_output (switch_to_another_pc d out to direction) = to"
    and "dv_cursor_crossing (switch_to_another_pc d out to direction) = dv_cursor_crossing d"
proof -
  define r where "r = (let hidden = dh_mouse_hidden_coordinates direction (ou_mouse_park_pos (active d)) (pointer_of d) 0 32767 in
    \<lparr>mr_buttons = 0, mr_x = to_i16 (mc_x hidden), mr_y = to_i16 (mc_y hidden), mr_wheel = 0, mr_pan = 0, mr_mode = 0\<rparr>)"
  define e where "e = set_active_output (output_mouse_report r d) to"
  have b: "base_ok e" "pointer_ok e" "parts_ok e" "dv_active_output e = to" "dv_cursor_crossing e = dv_cursor_crossing d"
    using assms by (simp_all add: e_def set_active_output_def base_ok_def crossing_ok_def guard_ok_def pointer_ok_def parts_ok_def)
  define f where "f = fst (select_cursor_screen e to (ucast (ou_screen_index (output_at e to))))"
  have f: "base_ok f" "relative_ok f" "dv_active_output f = to" "dv_cursor_crossing f = dv_cursor_crossing d"
    using select_base_ok [OF b(1)] select_relative_ok [OF b(1)] select_own_screen [OF b(1)] b(4,5) by (simp_all add: f_def)
  have p: "pointer_ok f" "parts_ok f" using b(2,3) by (simp_all add: f_def pointer_ok_def parts_ok_def)
  define g where "g = set_pointer (dh_mouse_entry_coordinates direction (pointer_of d) 0 32767) f"
  have fg: "walks f g" unfolding g_def by (rule walks_set_pointer)
  have s: "switch_to_another_pc d out to direction =
      (if dh_direction_is_vertical direction
       then g\<lparr>dv_pointer_x := map_output_seam_coordinate g (dv_pointer_x g) (ou_number out) (1 - ou_number out)\<rparr>
       else g\<lparr>dv_pointer_y := map_output_seam_coordinate g (dv_pointer_y g) (ou_number out) (1 - ou_number out)\<rparr>)"
    unfolding switch_to_another_pc_def e_def f_def g_def r_def Let_def by (rule refl)
  have i: "i16 (map_output_seam_coordinate g z m n)" for z m n by (simp add: map_output_seam_coordinate_def Let_def)
  have w: "walks f (switch_to_another_pc d out to direction)" unfolding s using fg i by auto
  show "device_ok (switch_to_another_pc d out to direction)" using walks_ok(3) [OF w] f p by (simp add: device_ok_def)
  show "dv_active_output (switch_to_another_pc d out to direction) = to"
    and "dv_cursor_crossing (switch_to_another_pc d out to direction) = dv_cursor_crossing d"
    using walks_fields [OF w] f by simp_all
qed

text \<open>The state just after the switch to the other computer, and the rest of a crossing from there.\<close>

definition crossed_over :: "device_t \<Rightarrow> dh_direction_t \<Rightarrow> device_t" where
  "crossed_over d direction =
     cursor_trace_event DH_CURSOR_TRACE_SWITCH 0 0 0 direction DH_MOUSE_TRANSITION_OUTPUT
       ((switch_to_another_pc d (active d) (other_output (dv_active_output d)) direction)
          \<lparr>dv_output_arrival_guard := dh_opposite_direction direction, dv_output_arrival_reverse := 0\<rparr>)"

definition seam_crossing :: "device_t \<Rightarrow> dh_direction_t \<Rightarrow> dh_seam_crossing_kind_t \<times> dh_seam_entry_t option" where
  "seam_crossing d direction =
     (let target = output_at d (other_output (dv_active_output d)) in
      dh_seam_resolve_crossing (ou_seam_ranges (active d)) (ou_seam_ranges target) (ou_screen_index (active d))
        (ou_screen_count (active d)) (ou_screen_count target) (seam_position_of (dh_mouse_along_seam direction (pointer_of d))))"

definition entered :: "device_t \<Rightarrow> dh_direction_t \<Rightarrow> u16 \<Rightarrow> device_t" where
  "entered e direction position =
     (if dh_direction_is_vertical direction then e\<lparr>dv_pointer_x := to_i16 (seam_to_units position)\<rparr>
      else e\<lparr>dv_pointer_y := to_i16 (seam_to_units position)\<rparr>)"

lemma cross_to_output_eq:
  defines "to \<equiv> \<lambda>d. other_output (dv_active_output d)"
  shows "cross_to_output E d direction =
      (if fst (seam_crossing d direction) = DH_SEAM_CROSSING_BLOCKED
       then set_pointer (dh_mouse_edge_coordinates direction (pointer_of d) 0 32767) d
       else case snd (seam_crossing d direction) of
         None \<Rightarrow> walk_to_arrival_screen (crossed_over d direction) (unat (to d)) (ucast (ou_screen_index (output_at (crossed_over d direction) (to d))))
           (ucast (ou_screen_index (output_at (crossed_over d direction) (to d)))) direction
       | Some m \<Rightarrow>
           (case select_cursor_screen (entered (crossed_over d direction) direction (sn_position m)) (ucast (ou_number (output_at d (to d)))) (sn_screen_index m) of
              (f, False) \<Rightarrow> f
            | (f, True) \<Rightarrow>
                if ev_helper_present E (ucast (ou_number (output_at d (to d))))
                then cursor_trace_event DH_CURSOR_TRACE_PLACE 0 0 0 direction DH_MOUSE_TRANSITION_OUTPUT
                  (place_estimate (emit_effect (PlaceCursor (ucast (ou_number (output_at d (to d)))) (sn_screen_index m)
                     (ou_chain_direction (output_at d (to d))) (ou_border_direction (output_at d (to d))) (sn_position m)) f)
                   (output_at f (to d)) direction (sn_position m))
                else walk_to_arrival_screen f (unat (to d)) (ucast (ou_screen_index (output_at (crossed_over d direction) (to d)))) (ucast (ou_screen_index (output_at f (to d)))) direction))"
  unfolding cross_to_output_def seam_crossing_def crossed_over_def entered_def to_def Let_def case_prod_beta by (simp only: emit_fields)

lemma other_output_le: "i \<le> 1 \<Longrightarrow> other_output i \<le> 1"
proof -
  assume "i \<le> 1"
  then have "i = 0 \<or> i = 1" by (simp add: word_le_nat_alt word_unat_eq_iff) arith
  then show ?thesis by (auto simp: other_output_def)
qed

lemma crossed_over_ok:
  assumes "device_ok d"
  shows "device_ok (crossed_over d direction)" and "dv_cursor_crossing (crossed_over d direction) = dv_cursor_crossing d"
    and "dv_active_output (crossed_over d direction) = other_output (dv_active_output d)"
proof -
  define s where "s = switch_to_another_pc d (active d) (other_output (dv_active_output d)) direction"
  have "other_output (dv_active_output d) \<le> 1" using assms by (intro other_output_le) (simp add: device_ok_def base_ok_def)
  then have s: "device_ok s" "dv_cursor_crossing s = dv_cursor_crossing d" "dv_active_output s = other_output (dv_active_output d)"
    using switch_to_another_pc_ok assms by (simp_all add: s_def device_ok_def)
  have "device_ok (s\<lparr>dv_output_arrival_guard := dh_opposite_direction direction, dv_output_arrival_reverse := 0\<rparr>)"
    using s(1) by (simp add: device_ok_def base_ok_def crossing_ok_def guard_ok_def relative_ok_def pointer_ok_def parts_ok_def)
  then show "device_ok (crossed_over d direction)" and "dv_cursor_crossing (crossed_over d direction) = dv_cursor_crossing d"
    and "dv_active_output (crossed_over d direction) = other_output (dv_active_output d)"
    using s(2,3) emit_ok by (simp_all add: crossed_over_def s_def)
qed

lemma cross_to_output_ok:
  assumes "device_ok d"
  shows "device_ok (cross_to_output E d direction)" and "dv_cursor_crossing (cross_to_output E d direction) = dv_cursor_crossing d"
proof -
  note e = crossed_over_ok(1,2) [OF assms, of direction]
  note eq = cross_to_output_eq [of E d direction]
  define good where "good f \<longleftrightarrow> device_ok f \<and> dv_cursor_crossing f = dv_cursor_crossing d" for f
  have k: "good f'" if "good f" "walks f f'" for f f'
    using that walks_ok(3) [OF that(2)] walks_fields(6) [OF that(2)] by (simp add: good_def)
  have d: "good d" and ge: "good (crossed_over d direction)" using assms e by (simp_all add: good_def)
  have g: "good (cross_to_output E d direction)"
  proof (cases "fst (seam_crossing d direction) = DH_SEAM_CROSSING_BLOCKED")
    case True
    then show ?thesis unfolding eq using k [OF d walks_set_pointer] by simp
  next
    case nb: False
    show ?thesis
    proof (cases "snd (seam_crossing d direction)")
      case None
      then show ?thesis unfolding eq using nb k [OF ge walk_to_arrival_screen_walks] by simp
    next
      case (Some m)
      define p where "p = entered (crossed_over d direction) direction (sn_position m)"
      obtain f b where f: "select_cursor_screen p (ucast (ou_number (output_at d (other_output (dv_active_output d))))) (sn_screen_index m) = (f, b)" by fastforce
      have "walks (crossed_over d direction) p" unfolding p_def entered_def by auto
      then have "good p" using k [OF ge] by simp
      then have gf: "good f" using select_ok [of p] select_fields(4) [of p] f unfolding good_def by (metis fst_conv)
      have pl: "good (emit_effect r (place_estimate (emit_effect q f) o' direction z))" for r q o' z
        by (meson k gf place_estimate_walks walks_emit)
      show ?thesis unfolding eq using nb Some f gf pl k [OF gf walk_to_arrival_screen_walks] by (cases b) (simp_all add: p_def [symmetric])
    qed
  qed
  from g show "device_ok (cross_to_output E d direction)" and "dv_cursor_crossing (cross_to_output E d direction) = dv_cursor_crossing d" by (simp_all add: good_def)
qed

lemma switch_virtual_desktop_crossing: "dv_cursor_crossing (switch_virtual_desktop E d n direction) = dv_cursor_crossing d"
proof -
  have "walks d (fst (walk_landing (walk_one_screen d q direction) i direction q))" for i q
    using walk_landing_walks walks_trans [OF walk_one_screen_walks] by (metis prod.collapse)
  note this [THEN walks_fields(6)]
  moreover have "dv_cursor_crossing (walk_one_screen d q direction) = dv_cursor_crossing d" for q by (rule walks_fields(6) [OF walk_one_screen_walks])
  moreover have "dv_cursor_crossing (set_pointer p e) = dv_cursor_crossing e" for p e by (simp add: set_pointer_def)
  ultimately show ?thesis unfolding switch_virtual_desktop_def by (simp add: Let_def case_prod_beta)
qed

lemma cross_along_chain_ok:
  assumes "device_ok d" and "direction \<noteq> DH_DIRECTION_NONE" and "chain_target t (active d)"
  shows "device_ok (cross_along_chain E gap d direction t)"
  unfolding cross_along_chain_def using assms place_on_macos_ok [OF assms]
  by (auto simp: Let_def case_prod_beta intro!: emit_ok switch_virtual_desktop_ok)

lemma query_unasked:
  assumes "\<not> snd (query_source_cursor E gap d direction t kind)"
  shows "dv_active_output (fst (query_source_cursor E gap d direction t kind)) = dv_active_output d"
    and "i < length (dv_output d) \<Longrightarrow> ou_os (dv_output (fst (query_source_cursor E gap d direction t kind)) ! i) = ou_os (dv_output d ! i)"
proof -
  define c where "c = \<lparr>cx_phase = CURSOR_CROSSING_WAITING, cx_kind = kind, cx_direction = direction, cx_output = dv_active_output d,
       cx_query_id = snd (next_query d), cx_target_screen = ucast (ou_screen_index (active d)), cx_target_position = 0,
       cx_query_sent = False, cx_started_us = ev_time_us E\<rparr>"
  define e where "e = emit_effect (QueryCursor (dv_active_output d) (snd (next_query d))) (cursor_trace_event DH_CURSOR_TRACE_QUERY (snd (next_query d)) 0 0 direction t
    (d\<lparr>dv_next_cursor_query_id := snd (next_query d), dv_cursor_crossing := c\<rparr>))"
  have "\<exists>x. fst (query_source_cursor E gap d direction t kind) = emit_effect x (cursor_crossing_clear (core0_turns gap e)) \<or>
      fst (query_source_cursor E gap d direction t kind) = emit_effect x (core0_turns gap e)"
    using assms unfolding query_source_cursor_def by (auto simp: Let_def case_prod_beta next_query_device e_def c_def)
  moreover note f = view_fields [OF core0_turns_view [of gap e]]
  moreover have "dv_output e = dv_output d" "dv_active_output e = dv_active_output d" by (simp_all add: e_def)
  ultimately show "dv_active_output (fst (query_source_cursor E gap d direction t kind)) = dv_active_output d"
    and "i < length (dv_output d) \<Longrightarrow> ou_os (dv_output (fst (query_source_cursor E gap d direction t kind)) ! i) = ou_os (dv_output d ! i)"
    by (auto simp: cursor_crossing_clear_def)
qed

text \<open>After a query the channel refused, core 0 can have moved the screen only if it was answered; the chain step that follows is
  from the screen as it is then. It needs a neighbour there.\<close>

lemma chain_target_of:
  assumes "actionable_transition_for d (active d) direction buttons = t" and "t \<noteq> DH_MOUSE_TRANSITION_NONE" and "t \<noteq> DH_MOUSE_TRANSITION_OUTPUT"
  shows "chain_target t (active d)"
  using transition_facts(2,3) [OF assms(1,2)] assms(2,3) by (cases t) (auto simp: chain_target_def)

lemma cross_screen_ok:
  assumes "device_ok d"
  shows "device_ok (cross_screen E gap d direction resolved)"
proof -
  define t where "t = actionable_transition_for d (active d) direction (dv_mouse_buttons d)"
  show ?thesis
  proof (cases "t = DH_MOUSE_TRANSITION_NONE")
    case True
    then show ?thesis using assms by (simp add: cross_screen_def t_def [symmetric] Let_def)
  next
    case False
    note facts = transition_facts [OF t_def [symmetric] False]
    have q: "device_ok (fst (query_source_cursor E gap d direction t kind))" if "dv_relative_mouse d" "kind \<noteq> CURSOR_CROSSING_MACOS_PLACEMENT" for kind
      using query_ok [OF assms facts(1) that] .
    show ?thesis
    proof (cases "t = DH_MOUSE_TRANSITION_OUTPUT")
      case True
      then show ?thesis using assms q cross_to_output_ok by (auto simp: cross_screen_def t_def [symmetric] Let_def case_prod_beta)
    next
      case o: False
      have c: "chain_target t (active d)" by (rule chain_target_of [OF t_def [symmetric] False o])
      have w: "device_ok (cross_along_chain E gap e direction t)" if "device_ok e" "ou_os (active e) = WINDOWS" for e
        unfolding cross_along_chain_def using that by (auto simp: Let_def case_prod_beta intro!: emit_ok switch_virtual_desktop_ok)
      have x: "device_ok (cross_along_chain E gap (fst (query_source_cursor E gap d direction t CURSOR_CROSSING_CHAIN_REANCHOR)) direction t)"
        if "dv_relative_mouse d" "ou_os (active d) = WINDOWS" "\<not> snd (query_source_cursor E gap d direction t CURSOR_CROSSING_CHAIN_REANCHOR)"
      proof (rule w)
        show "device_ok (fst (query_source_cursor E gap d direction t CURSOR_CROSSING_CHAIN_REANCHOR))" using q that(1) by simp
        have "unat (dv_active_output d) < length (dv_output d)"
          using assms outputs_okD(1) [of "dv_output d" "dv_active_output d"] by (simp add: device_ok_def base_ok_def)
        then show "ou_os (active (fst (query_source_cursor E gap d direction t CURSOR_CROSSING_CHAIN_REANCHOR))) = WINDOWS"
          using query_unasked [OF that(3)] that(2) by simp
      qed
      have "t = DH_MOUSE_TRANSITION_CHAIN_BACK \<or> t = DH_MOUSE_TRANSITION_CHAIN_FORWARD" using False o by (cases t) simp_all
      then show ?thesis using x q cross_along_chain_ok [OF assms facts(1) c]
        by (auto simp: cross_screen_def t_def [symmetric] Let_def case_prod_beta)
    qed
  qed
qed

lemma cross_screen_resolved:
  assumes "device_ok d" and "ou_os (active d) \<noteq> MACOS"
  shows "dv_cursor_crossing (cross_screen E gap d direction True) = dv_cursor_crossing d"
  using assms(2) cross_to_output_ok(2) [OF assms(1)]
  by (auto simp: cross_screen_def Let_def cross_along_chain_def switch_virtual_desktop_crossing split: dh_mouse_transition_t.split)

lemma finish_ok:
  assumes "device_ok d"
  shows "device_ok (finish_crossing E gap d timed_out)"
proof -
  have c: "device_ok (cursor_crossing_clear d)" using clear_ok [OF assms] .
  then show ?thesis unfolding finish_crossing_def by (auto simp: Let_def intro!: emit_ok switch_virtual_desktop_ok cross_screen_ok)
qed

lemma retry_ok: "device_ok d \<Longrightarrow> device_ok (fst (retry_query E gap d now))"
proof -
  assume d: "device_ok d"
  define e where "e = core0_turns gap (emit_effect (QueryCursor (cx_output (dv_cursor_crossing d)) (cx_query_id (dv_cursor_crossing d))) d)"
  have "device_ok e" unfolding e_def by (intro core0_turns_ok emit_ok d)
  then show ?thesis using d unfolding retry_query_def by (auto simp: Let_def e_def [symmetric] intro!: mark_sent_ok set_phase_ok)
qed

lemma task_ok:
  assumes "device_ok d"
  shows "device_ok (mouse_crossing_task E gap d now)"
proof -
  have r: "device_ok (fst (retry_query E gap d now))" using retry_ok [OF assms] .
  then show ?thesis using assms unfolding mouse_crossing_task_def
    by (auto simp: Let_def case_prod_beta intro!: emit_ok clear_ok finish_ok set_phase_ok)
qed

lemma switch_ok: "device_ok d \<Longrightarrow> device_ok (do_screen_switch E gap d direction)"
  by (simp add: do_screen_switch_def cross_screen_ok)

lemma axis_offset_walks: "walks d (fst (axis_offset d values vertical))"
proof -
  have p: "\<bar>dv_windows_part_pixel d i v\<bar> \<le> 31 \<Longrightarrow> \<bar>snd (dh_windows_estimate_offset position move s px speed (dv_windows_part_pixel d i v))\<bar> \<le> 31"
    for i v position move s px speed by (rule estimate_part)
  then show ?thesis by (auto simp: axis_offset_def walks_def rest_def pointer_ok_def parts_ok_def Let_def case_prod_beta)
qed

lemma keep_walks: "walks d (keep_pointer_on_screen d)"
  by (simp add: walks_def rest_def pointer_ok_def parts_ok_def keep_pointer_on_screen_def)

lemma move_pointer_walks: "walks d (move_pointer d h v direction t x y)"
  by (auto simp: walks_def rest_def pointer_ok_def parts_ok_def move_pointer_def Let_def)

lemma buttons_ok [simp]: "device_ok (d\<lparr>dv_mouse_buttons := b\<rparr>) = device_ok d"
  by (simp add: device_ok_def base_ok_def crossing_ok_def guard_ok_def relative_ok_def pointer_ok_def parts_ok_def)

lemma guard_step_ok:
  assumes "device_ok d"
  shows "device_ok (fst (arrival_guard_step d vals x y))"
proof -
  have a: "device_ok (d\<lparr>dv_output_arrival_guard := DH_DIRECTION_NONE, dv_output_arrival_reverse := r\<rparr>)" for r
    using assms by (simp add: device_ok_def base_ok_def crossing_ok_def guard_ok_def relative_ok_def pointer_ok_def parts_ok_def)
  have b: "device_ok (d\<lparr>dv_output_arrival_reverse := r\<rparr>)" if "r \<le> dv_jump_threshold d" for r
    using assms that by (simp add: device_ok_def base_ok_def crossing_ok_def guard_ok_def relative_ok_def pointer_ok_def parts_ok_def)
  show ?thesis unfolding arrival_guard_step_def Let_def using a b assms by (simp add: not_less)
qed

lemma update_ok:
  assumes "device_ok d"
  shows "device_ok (fst (update_mouse_position d values))"
proof (cases "cx_phase (dv_cursor_crossing d) = CURSOR_CROSSING_IDLE")
  case False
  then show ?thesis using assms emit_ok by (simp add: update_mouse_position_def Let_def)
next
  case True
  define d1 where "d1 = keep_pointer_on_screen d"
  define d2 where "d2 = fst (axis_offset d1 values False)"
  define d3 where "d3 = fst (axis_offset d2 values True)"
  define d4 where "d4 = fst (arrival_guard_step d3 values (snd (axis_offset d1 values False)) (snd (axis_offset d2 values True)))"
  have "walks d d3" unfolding d3_def d2_def d1_def by (meson keep_walks axis_offset_walks walks_trans)
  then have "device_ok d4" unfolding d4_def by (intro guard_step_ok walks_ok(3) [OF _ assms])
  then have e: "device_ok (move_pointer d4 h v dir t x y)" "device_ok (move_pointer (emit_effect ev d4) h v dir t x y)" for h v dir t x y ev
    using walks_ok(3) [OF move_pointer_walks] emit_ok by blast+
  show ?thesis unfolding update_mouse_position_def
    by (simp add: True Let_def case_prod_beta d1_def [symmetric] d2_def [symmetric] d3_def [symmetric] d4_def [symmetric] e)
qed

lemma process_ok: "device_ok d \<Longrightarrow> device_ok (process_mouse_values E gap d values)"
  unfolding process_mouse_values_def by (simp add: Let_def case_prod_beta switch_ok emit_ok update_ok)

section \<open>Runs\<close>

text \<open>What happens to the crossing state, one step at a time: a mouse report, the periodic task, core 0's two entries, the output
  hotkey (on this board or the peer), and the switches other code throws.\<close>

datatype mouse_op =
  MouseReport crossing_env "core0_event list" mouse_values_t
| CrossingTask crossing_env "core0_event list" u32
| Core0 core0_event
| OutputHotkey bool
| Flags bool bool bool "bool list"

fun mouse_step :: "mouse_op \<Rightarrow> device_t \<Rightarrow> device_t" where
  "mouse_step (MouseReport E gap values) d = process_mouse_values E gap d values"
| "mouse_step (CrossingTask E gap now) d = mouse_crossing_task E gap d now"
| "mouse_step (Core0 ev) d = core0_turn ev d"
| "mouse_step (OutputHotkey b) d = cursor_output_switched (set_active_output d (if b then 1 else 0))"
| "mouse_step (Flags lock gaming zoom boot) d =
     d\<lparr>dv_switch_lock := lock, dv_gaming_mode := gaming, dv_mouse_zoom := zoom, dv_boot_mouse_mode := boot\<rparr>"

lemma hotkey_ok:
  assumes "device_ok d" and "to \<le> 1"
  shows "device_ok (cursor_output_switched (set_active_output d to))"
proof -
  define e where "e = set_active_output d to"
  have e: "base_ok e" "pointer_ok e" "parts_ok e"
    using assms by (simp_all add: e_def device_ok_def set_active_output_def base_ok_def crossing_ok_def guard_ok_def pointer_ok_def parts_ok_def)
  have o: "outputs_ok (dv_output e)" "dv_active_output e \<le> 1" using e(1) by (simp_all add: base_ok_def)
  have "1 \<le> ou_screen_count (active e)" using outputs_okD(3,4) [OF o] by simp
  then have "snd (select_cursor_screen e (dv_active_output e) 1)" using o(2) by (auto simp: select_cursor_screen_def not_less word_le_nat_alt)
  then have "relative_ok (cursor_output_switched e)"
    using select_relative_ok [OF e(1)] select_own_screen [OF e(1)] by (simp add: cursor_output_switched_def)
  then show ?thesis unfolding e_def [symmetric] using select_base_ok [OF e(1)] e(2,3)
    by (simp add: device_ok_def cursor_output_switched_def pointer_ok_def parts_ok_def)
qed

lemma run_ok:
  assumes "device_ok d"
  shows "device_ok (fold mouse_step ops d)"
  using assms
proof (induction ops arbitrary: d)
  case (Cons op ops)
  have "device_ok (mouse_step op d)"
  proof (cases op)
    case (Flags lock gaming zoom boot)
    then show ?thesis using Cons.prems
      by (simp add: device_ok_def base_ok_def crossing_ok_def guard_ok_def relative_ok_def pointer_ok_def parts_ok_def)
  qed (use Cons.prems in \<open>simp_all add: process_ok task_ok core0_ok hotkey_ok\<close>)
  then show ?case using Cons.IH by simp
qed simp

text \<open>C2. The crossing state is well-formed at every moment: from any well-formed state, over any run of mouse reports, task calls,
  core-0 events (also between the two halves of core 1's critical sections), output hotkeys and mode changes, the active output
  exists, both outputs are on a screen they have, the pointer fits its sixteen bits and Windows' part-pixels their range, relative
  mode is on exactly on a Windows screen past the main one, a pending crossing has a query id that is not zero, a direction and, for a
  placement, a screen that exists, and the counts held against the arrival guard are within the jump threshold.\<close>

theorem crossing_state_wellformed:
  assumes "device_ok d"
  shows "device_ok (fold mouse_step ops d)"
  using assms by (rule run_ok)

end
