(* ===== verification/DH_Mouse_Spec.thy ===== *)
theory DH_Mouse_Spec
  imports DH_Mouse_Inv
begin

text \<open>
  What the crossing logic promises: a pending crossing is released in bounded time, an arriving cursor does not bounce back, relative
  moves are sent whole, and a mapped crossing lands where the seam map says.
\<close>

section \<open>A pending crossing is released\<close>

abbreviation in_crossing :: "device_t \<Rightarrow> bool" where
  "in_crossing d \<equiv> cx_phase (dv_cursor_crossing d) \<noteq> CURSOR_CROSSING_IDLE"

abbreviation waiting :: "device_t \<Rightarrow> bool" where
  "waiting d \<equiv> cx_phase (dv_cursor_crossing d) = CURSOR_CROSSING_WAITING"

text \<open>The same crossing, whose phase may have left \<open>WAITING\<close>.\<close>

definition same_crossing :: "device_t \<Rightarrow> device_t \<Rightarrow> bool" where
  "same_crossing d d' =
     ((dv_cursor_crossing d')\<lparr>cx_phase := CURSOR_CROSSING_IDLE\<rparr> = (dv_cursor_crossing d)\<lparr>cx_phase := CURSOR_CROSSING_IDLE\<rparr> \<and>
      (in_crossing d \<longrightarrow> in_crossing d') \<and> (\<not> waiting d \<longrightarrow> \<not> waiting d'))"

lemma same_crossing_refl [simp]: "same_crossing d d"
  by (simp add: same_crossing_def)

lemma same_crossing_trans: "same_crossing d e \<Longrightarrow> same_crossing e f \<Longrightarrow> same_crossing d f"
  by (auto simp: same_crossing_def)

lemma same_crossing_eq: "dv_cursor_crossing d' = dv_cursor_crossing d \<Longrightarrow> same_crossing d d'"
  by (simp add: same_crossing_def)

lemma same_crossing_fields:
  assumes "same_crossing d d'"
  shows "cx_started_us (dv_cursor_crossing d') = cx_started_us (dv_cursor_crossing d)"
    and "cx_query_sent (dv_cursor_crossing d') = cx_query_sent (dv_cursor_crossing d)"
    and "cx_kind (dv_cursor_crossing d') = cx_kind (dv_cursor_crossing d)"
    and "cx_output (dv_cursor_crossing d') = cx_output (dv_cursor_crossing d)"
    and "cx_query_id (dv_cursor_crossing d') = cx_query_id (dv_cursor_crossing d)"
proof -
  have c: "(dv_cursor_crossing d')\<lparr>cx_phase := CURSOR_CROSSING_IDLE\<rparr> = (dv_cursor_crossing d)\<lparr>cx_phase := CURSOR_CROSSING_IDLE\<rparr>"
    using assms by (simp add: same_crossing_def)
  show "cx_started_us (dv_cursor_crossing d') = cx_started_us (dv_cursor_crossing d)"
    and "cx_query_sent (dv_cursor_crossing d') = cx_query_sent (dv_cursor_crossing d)"
    and "cx_kind (dv_cursor_crossing d') = cx_kind (dv_cursor_crossing d)"
    and "cx_output (dv_cursor_crossing d') = cx_output (dv_cursor_crossing d)"
    and "cx_query_id (dv_cursor_crossing d') = cx_query_id (dv_cursor_crossing d)"
    using arg_cong [OF c, of cx_started_us] arg_cong [OF c, of cx_query_sent] arg_cong [OF c, of cx_kind] arg_cong [OF c, of cx_output]
      arg_cong [OF c, of cx_query_id] by simp_all
qed

lemma core0_same: "same_crossing d (core0_turn ev d)"
proof (cases ev)
  case (Readback out screen x y q)
  obtain e b where s: "select_cursor_screen d out screen = (e, b)" by fastforce
  have e: "dv_cursor_crossing e = dv_cursor_crossing d" using select_fields(4) [of d out screen] s by simp
  show ?thesis using Readback e
    by (cases b) (auto simp: apply_helper_cursor_position_def s Let_def same_crossing_def set_phase_def)
qed (auto simp: mouse_crossing_query_unavailable_def Let_def same_crossing_def set_phase_def)

lemma core0_turns_same: "same_crossing d (core0_turns evs d)"
  unfolding core0_turns_def by (induction evs arbitrary: d) (auto intro: same_crossing_trans core0_same)

fun is_task :: "mouse_op \<Rightarrow> bool" where
  "is_task (CrossingTask E gap now) = True"
| "is_task _ = False"

text \<open>While a crossing is pending a mouse report passes on buttons and wheel only: no motion, no screen, no output changes.\<close>

lemma pending_report:
  assumes "in_crossing d"
  shows "\<exists>evs. process_mouse_values E gap d vals =
    d\<lparr>dv_mouse_buttons := dv_mouse_buttons (process_mouse_values E gap d vals), dv_effects := dv_effects d @ evs\<rparr>"
  using assms by (auto simp: process_mouse_values_def update_mouse_position_def Let_def emit_effect_def intro: exI [of _ "[]"])

lemma pending_step:
  assumes "in_crossing d" and "\<not> is_task op"
  shows "same_crossing d (mouse_step op d)"
proof (cases op)
  case (MouseReport E gap vals)
  obtain evs where "process_mouse_values E gap d vals =
      d\<lparr>dv_mouse_buttons := dv_mouse_buttons (process_mouse_values E gap d vals), dv_effects := dv_effects d @ evs\<rparr>"
    using pending_report [OF assms(1)] by blast
  from arg_cong [OF this, of dv_cursor_crossing] show ?thesis using MouseReport by (intro same_crossing_eq) simp
next
  case (OutputHotkey b)
  then show ?thesis by (intro same_crossing_eq) (simp add: cursor_output_switched_def set_active_output_def)
qed (use assms core0_same in \<open>auto intro: same_crossing_eq\<close>)

lemma pending_steps:
  assumes "in_crossing d" and "\<forall>op \<in> set ops. \<not> is_task op"
  shows "same_crossing d (fold mouse_step ops d)"
  using assms
proof (induction ops arbitrary: d)
  case (Cons op ops)
  have s: "same_crossing d (mouse_step op d)" using pending_step Cons.prems by simp
  then have "in_crossing (mouse_step op d)" using Cons.prems(1) by (simp add: same_crossing_def)
  then show ?case using Cons s by (auto intro: same_crossing_trans)
qed simp

text \<open>Finishing always leaves no crossing behind.\<close>

lemma finish_idle:
  assumes "device_ok d" and "in_crossing d" and "dv_active_output d = cx_output (dv_cursor_crossing d)"
  shows "\<not> in_crossing (finish_crossing E gap d timed_out)"
proof -
  define c where "c = dv_cursor_crossing d"
  have z: "dv_cursor_crossing (cursor_crossing_clear d) = cursor_crossing_zero" "cx_phase cursor_crossing_zero = CURSOR_CROSSING_IDLE"
    by (simp_all add: cursor_crossing_clear_def cursor_crossing_zero_def)
  have k: "device_ok (cursor_crossing_clear d)" using clear_ok [OF assms(1)] .
  have os: "ou_os (active (cursor_crossing_clear d)) = WINDOWS" if "cx_kind c \<noteq> CURSOR_CROSSING_MACOS_PLACEMENT"
    using assms that by (cases "cx_kind c") (auto simp: device_ok_def base_ok_def crossing_ok_def Let_def c_def cursor_crossing_clear_def)
  have x: "dv_cursor_crossing (cross_screen E gap (emit_effect ev (cursor_crossing_clear d)) (cx_direction c) True) = cursor_crossing_zero"
    "dv_cursor_crossing (cross_screen E gap (cursor_crossing_clear d) (cx_direction c) True) = cursor_crossing_zero"
    if "cx_kind c \<noteq> CURSOR_CROSSING_MACOS_PLACEMENT" for ev
    using cross_screen_resolved [OF emit_ok [OF k]] cross_screen_resolved [OF k] os [OF that] z(1) by simp_all
  show ?thesis using x z unfolding finish_crossing_def Let_def c_def [symmetric] by (auto simp: switch_virtual_desktop_crossing)
qed

lemma phase_fields [simp]:
  "dv_active_output (set_phase p d) = dv_active_output d" "dv_cursor_crossing (set_phase p d) = (dv_cursor_crossing d)\<lparr>cx_phase := p\<rparr>"
  by (simp_all add: set_phase_def)

lemma task_last_part:
  assumes "device_ok d" and "in_crossing d" and "dv_active_output d = cx_output (dv_cursor_crossing d)"
    and "waiting d \<longrightarrow> now - cx_started_us (dv_cursor_crossing d) \<ge> CURSOR_REANCHOR_TIMEOUT_US"
  shows "\<not> in_crossing (finish_crossing E gap (if waiting d then set_phase CURSOR_CROSSING_FALLBACK d else d) b)"
  using assms finish_idle [of d E gap b] finish_idle [OF set_phase_ok [OF assms(1) _ assms(2)], of CURSOR_CROSSING_FALLBACK E gap b] by auto

lemma task_releases:
  assumes "device_ok d" and "in_crossing d"
    and "waiting d \<longrightarrow> now - cx_started_us (dv_cursor_crossing d) \<ge> CURSOR_REANCHOR_TIMEOUT_US"
    and "waiting d \<longrightarrow> cx_query_sent (dv_cursor_crossing d) \<or> cx_kind (dv_cursor_crossing d) = CURSOR_CROSSING_MACOS_PLACEMENT"
  shows "\<not> in_crossing (mouse_crossing_task E gap d now)"
proof -
  have r: "retry_query E gap d now = (d, True)" using assms(4) by (auto simp: retry_query_def Let_def)
  have z: "\<not> in_crossing (emit_effect ev (cursor_crossing_clear d))" "\<not> in_crossing (cursor_crossing_clear d)" for ev
    by (simp_all add: cursor_crossing_clear_def cursor_crossing_zero_def)
  show ?thesis
  proof (cases "dv_active_output d = cx_output (dv_cursor_crossing d)")
    case True
    have l: "\<not> in_crossing (finish_crossing E gap (if waiting d then set_phase CURSOR_CROSSING_FALLBACK d else d) b)" for b
      by (rule task_last_part [OF assms(1,2) True assms(3)])
    have l1: "\<not> in_crossing (finish_crossing E gap (set_phase CURSOR_CROSSING_FALLBACK d) True)" if "waiting d" using l [of True] that by simp
    have l2: "\<not> in_crossing (finish_crossing E gap d False)" if "\<not> waiting d" using l [of False] that by simp
    show ?thesis using assms(3) z l1 l2 by (simp add: mouse_crossing_task_def Let_def r)
  qed (use assms(2) z in \<open>simp add: mouse_crossing_task_def Let_def\<close>)
qed

lemma idle_after_clear [simp]: "\<not> in_crossing (emit_effect ev (cursor_crossing_clear d))" "\<not> in_crossing (cursor_crossing_clear d)"
  by (simp_all add: cursor_crossing_clear_def cursor_crossing_zero_def)

text \<open>The retry of the query by the task, while the crossing waits: nothing happens once the query is sent, otherwise core 0 has its turn and
  the query may go through, be refused for good, or have to be tried again.\<close>

lemma retry_stays:
  assumes "device_ok d" and "waiting d"
  shows "\<exists>e same. retry_query E gap d now = (e, same) \<and> device_ok e \<and> in_crossing e \<and> dv_active_output e = dv_active_output d \<and>
     cx_output (dv_cursor_crossing e) = cx_output (dv_cursor_crossing d) \<and> (same \<or> \<not> waiting e) \<and>
     (if cx_query_sent (dv_cursor_crossing e) = cx_query_sent (dv_cursor_crossing d)
      then cx_started_us (dv_cursor_crossing e) = cx_started_us (dv_cursor_crossing d)
      else cx_query_sent (dv_cursor_crossing e) \<and> cx_started_us (dv_cursor_crossing e) = now)"
proof (cases "\<not> cx_query_sent (dv_cursor_crossing d) \<and> reanchors (dv_cursor_crossing d)")
  case False
  then have "retry_query E gap d now = (d, True)" by (auto simp: retry_query_def Let_def)
  then show ?thesis using assms by auto
next
  case True
  define c where "c = dv_cursor_crossing d"
  define e where "e = core0_turns gap (emit_effect (QueryCursor (cx_output c) (cx_query_id c)) d)"
  have s: "same_crossing d e" unfolding e_def by (rule same_crossing_trans [OF same_crossing_eq core0_turns_same]) simp
  note f = same_crossing_fields [OF s]
  have ok: "device_ok e" unfolding e_def by (intro core0_turns_ok emit_ok assms(1))
  have a: "dv_active_output e = dv_active_output d" using view_fields(1) [OF core0_turns_view] by (simp add: e_def)
  have p: "in_crossing e" using s assms(2) by (simp add: same_crossing_def)
  define e' where "e' = e\<lparr>dv_cursor_crossing := (dv_cursor_crossing e)\<lparr>cx_query_sent := True, cx_started_us := now\<rparr>\<rparr>"
  have r: "retry_query E gap d now =
      (if \<not> waiting e then (e, False)
       else if ev_query_result E = CURSOR_QUERY_SENT then (e', True)
       else if ev_query_result E = CURSOR_QUERY_UNAVAILABLE then (set_phase CURSOR_CROSSING_FALLBACK e, True) else (e, True))"
    using True assms(2) f by (auto simp: retry_query_def Let_def c_def [symmetric] e_def [symmetric] e'_def)
  have ok': "device_ok e'" "device_ok (set_phase CURSOR_CROSSING_FALLBACK e)" if "waiting e"
    using that ok set_phase_ok [OF ok _ p, of CURSOR_CROSSING_FALLBACK]
    by (simp_all add: e'_def device_ok_def base_ok_def crossing_ok_def guard_ok_def relative_ok_def pointer_ok_def parts_ok_def Let_def)
  show ?thesis
    using ok ok' p a f True by (cases "waiting e"; cases "ev_query_result E") (auto simp: r e'_def)
qed

lemma task_stays:
  assumes "device_ok d" and "in_crossing d" and "in_crossing (mouse_crossing_task E gap d now)"
  defines "e \<equiv> mouse_crossing_task E gap d now"
  shows "waiting d"
    and "if cx_query_sent (dv_cursor_crossing e) = cx_query_sent (dv_cursor_crossing d)
      then cx_started_us (dv_cursor_crossing e) = cx_started_us (dv_cursor_crossing d)
      else cx_query_sent (dv_cursor_crossing e) \<and> cx_started_us (dv_cursor_crossing e) = now"
    and "waiting e \<Longrightarrow> now - cx_started_us (dv_cursor_crossing e) < CURSOR_REANCHOR_TIMEOUT_US"
proof -
  show w: "waiting d" using assms(3) task_releases [OF assms(1,2)] by blast
  define c where "c = dv_cursor_crossing d"
  have g: "dv_active_output d = cx_output c" "\<not> (cx_kind c = CURSOR_CROSSING_SOURCE_REANCHOR \<and> dv_mouse_buttons d \<noteq> 0)"
      "\<not> dv_switch_lock d" "\<not> dv_gaming_mode d"
    using assms(3) w by (auto simp: mouse_crossing_task_def Let_def c_def split: if_splits)
  obtain f same where r: "retry_query E gap d now = (f, same)" and f: "device_ok f" "in_crossing f" "dv_active_output f = dv_active_output d"
      "cx_output (dv_cursor_crossing f) = cx_output c" "same \<or> \<not> waiting f"
      "if cx_query_sent (dv_cursor_crossing f) = cx_query_sent c
       then cx_started_us (dv_cursor_crossing f) = cx_started_us c
       else cx_query_sent (dv_cursor_crossing f) \<and> cx_started_us (dv_cursor_crossing f) = now"
    using retry_stays [OF assms(1) w, of E gap now] unfolding c_def by blast
  let ?late = "now - cx_started_us (dv_cursor_crossing f) \<ge> CURSOR_REANCHOR_TIMEOUT_US"
  have t: "e = (if \<not> same then f
      else if waiting f \<and> \<not> ?late then f
      else finish_crossing E gap (if waiting f then set_phase CURSOR_CROSSING_FALLBACK f else f) (waiting f))"
    using w g by (auto simp: e_def mouse_crossing_task_def Let_def r c_def [symmetric])
  have "\<not> in_crossing (finish_crossing E gap (if waiting f then set_phase CURSOR_CROSSING_FALLBACK f else f) b)" if "waiting f \<longrightarrow> ?late" for b
    using that f g by (intro task_last_part) simp_all
  then have e: "e = f" "waiting f \<longrightarrow> \<not> ?late" using assms(3) t f(5) unfolding e_def [symmetric] by (auto split: if_splits)
  show "if cx_query_sent (dv_cursor_crossing e) = cx_query_sent (dv_cursor_crossing d)
      then cx_started_us (dv_cursor_crossing e) = cx_started_us (dv_cursor_crossing d)
      else cx_query_sent (dv_cursor_crossing e) \<and> cx_started_us (dv_cursor_crossing e) = now"
    using f(6) unfolding e(1) c_def .
  show "waiting e \<Longrightarrow> now - cx_started_us (dv_cursor_crossing e) < CURSOR_REANCHOR_TIMEOUT_US" using e by simp
qed

text \<open>The times at which a run calls the task, and how long after the start of the crossing of \<open>d\<close> they are.\<close>

definition task_times :: "mouse_op list \<Rightarrow> u32 list" where
  "task_times ops = concat (map (\<lambda>op. case op of CrossingTask E gap now \<Rightarrow> [now] | _ \<Rightarrow> []) ops)"

definition waited_us :: "device_t \<Rightarrow> u32 \<Rightarrow> nat" where
  "waited_us d t = unat (t - cx_started_us (dv_cursor_crossing d))"

lemma task_times_simps [simp]: "task_times [] = []" "task_times (CrossingTask E gap now # ops) = now # task_times ops"
  "\<not> is_task op \<Longrightarrow> task_times (op # ops) = task_times ops" "task_times (ops @ ops') = task_times ops @ task_times ops'"
  by (simp_all add: task_times_def) (cases op; simp)

lemma elapsed_since:
  assumes "waited_us d s \<le> waited_us d t"
  shows "unat (t - s) = waited_us d t - waited_us d s"
proof -
  let ?z = "cx_started_us (dv_cursor_crossing d)"
  have "unat ((t - ?z) - (s - ?z)) = unat (t - ?z) - unat (s - ?z)" using assms by (intro unat_sub) (simp add: waited_us_def word_le_nat_alt)
  then show ?thesis by (simp add: waited_us_def)
qed

text \<open>While the run stays in the crossing, its start is the one of \<open>d\<close> until the query goes through, and then the time of the task that sent it.\<close>

definition tracks :: "device_t \<Rightarrow> nat \<Rightarrow> device_t \<Rightarrow> bool" where
  "tracks d m e = (device_ok e \<and> in_crossing e \<and>
     (if cx_query_sent (dv_cursor_crossing e) then waited_us d (cx_started_us (dv_cursor_crossing e)) \<le> m
      else cx_started_us (dv_cursor_crossing e) = cx_started_us (dv_cursor_crossing d)))"

definition stays_in :: "mouse_op list \<Rightarrow> device_t \<Rightarrow> bool" where
  "stays_in ops d = (\<forall>k \<le> length ops. in_crossing (fold mouse_step (take k ops) d))"

lemma stays_in_simps [simp]: "stays_in [] d = in_crossing d" "stays_in (op # ops) d = (in_crossing d \<and> stays_in ops (mouse_step op d))"
proof -
  show "stays_in (op # ops) d = (in_crossing d \<and> stays_in ops (mouse_step op d))" (is "?l = ?r")
  proof
    assume l: ?l
    have "in_crossing (fold mouse_step (take k ops) (mouse_step op d))" if "k \<le> length ops" for k
      using l [unfolded stays_in_def, rule_format, of "Suc k"] that by simp
    then show ?r using l [unfolded stays_in_def, rule_format, of 0] by (simp add: stays_in_def)
  next
    assume r: ?r
    show ?l unfolding stays_in_def
    proof (intro allI impI)
      fix k assume "k \<le> length (op # ops)"
      then show "in_crossing (fold mouse_step (take k (op # ops)) d)" using r by (cases k) (auto simp: stays_in_def)
    qed
  qed
qed (simp add: stays_in_def)

lemma stays_in_start: "stays_in ops d \<Longrightarrow> in_crossing d"
  by (cases ops) auto

lemma stays_in_append: "stays_in (ops @ ops') d = (stays_in ops d \<and> stays_in ops' (fold mouse_step ops d))"
  by (induction ops arbitrary: d) (auto dest: stays_in_start)

lemma tracks_mono: "tracks d m e \<Longrightarrow> m \<le> n \<Longrightarrow> tracks d n e"
  by (auto simp: tracks_def)

lemma tracks_same:
  assumes "tracks d m e" and "same_crossing e f" and "device_ok f"
  shows "tracks d m f"
  using assms same_crossing_fields(1,2) [OF assms(2)] by (simp add: tracks_def same_crossing_def)

lemma tracks_task:
  assumes "tracks d m e" and "in_crossing (mouse_crossing_task E gap e now)" and "m \<le> waited_us d now"
  shows "tracks d (waited_us d now) (mouse_crossing_task E gap e now)"
  using assms task_stays(2) [of e E gap now] task_ok [of e E gap now] by (auto simp: tracks_def split: if_splits)

lemma tracks_run:
  assumes "tracks d m e" and "stays_in ops e" and "sorted (m # map (waited_us d) (task_times ops))"
    and "\<forall>t \<in> set (task_times ops). waited_us d t \<le> n" and "m \<le> n"
  shows "tracks d n (fold mouse_step ops e)"
  using assms
proof (induction ops arbitrary: e m)
  case Nil
  then show ?case by (auto intro: tracks_mono)
next
  case (Cons op ops)
  show ?case
  proof (cases "is_task op")
    case True
    then obtain E gap now where op: "op = CrossingTask E gap now" by (cases op) auto
    have "in_crossing (mouse_step op e)" using Cons.prems(2) by (auto dest: stays_in_start)
    then have "tracks d (waited_us d now) (mouse_step op e)" using tracks_task [OF Cons.prems(1)] Cons.prems(3) op by auto
    then show ?thesis using Cons.IH [of "waited_us d now" "mouse_step op e"] Cons.prems op by auto
  next
    case False
    have "tracks d m (mouse_step op e)"
      using tracks_same [OF Cons.prems(1)] pending_step [OF _ False, of e] run_ok [of e "[op]"] Cons.prems(1) by (auto simp: tracks_def)
    then show ?thesis using Cons.IH [of m "mouse_step op e"] Cons.prems False by auto
  qed
qed

text \<open>Once the wait for the answer is running, later calls of the task do not restart it.\<close>

definition answer_due :: "device_t \<Rightarrow> nat \<Rightarrow> device_t \<Rightarrow> bool" where
  "answer_due d m e = (device_ok e \<and> in_crossing e \<and>
     (waiting e \<longrightarrow> cx_query_sent (dv_cursor_crossing e) \<and> waited_us d (cx_started_us (dv_cursor_crossing e)) \<le> m))"

lemma answer_due_run:
  assumes "answer_due d m e" and "stays_in ops e"
  shows "answer_due d m (fold mouse_step ops e)"
  using assms
proof (induction ops arbitrary: e)
  case (Cons op ops)
  have ok: "device_ok (mouse_step op e)" using run_ok [of e "[op]"] Cons.prems(1) by (auto simp: answer_due_def)
  have p: "in_crossing (mouse_step op e)" using Cons.prems(2) by (auto dest: stays_in_start)
  have "answer_due d m (mouse_step op e)"
  proof (cases "is_task op")
    case True
    then obtain E gap now where op: "op = CrossingTask E gap now" by (cases op) auto
    then show ?thesis using task_stays [of e E gap now] Cons.prems p ok by (auto simp: answer_due_def split: if_splits)
  next
    case False
    have s: "same_crossing e (mouse_step op e)" using pending_step [OF _ False] Cons.prems(2) by simp
    then show ?thesis using same_crossing_fields(1,2) [OF s] Cons.prems(1) ok p by (auto simp: answer_due_def same_crossing_def)
  qed
  then show ?case using Cons by simp
qed simp

text \<open>C3. The pointer is never held for good. Take any run from a state with a crossing pending: mouse reports, helper answers, hotkeys and
  mode changes in any order, the task called as often as it likes, whatever core 0 does between the critical sections and whatever the
  channel answers; the task's clock does not go back within the run, and the run is shorter than the 71 minutes after which the 32-bit
  microsecond clock repeats. If some call of the task comes 30 ms or more after the crossing began to wait, and another one 30 ms or more after that
  call, the crossing has ended at some point of the run.\<close>

theorem crossing_released:
  assumes "device_ok d" and "in_crossing d"
    and "ops = before @ CrossingTask E1 gap1 t1 # between @ [CrossingTask E2 gap2 t2]"
    and "sorted (map (waited_us d) (task_times ops))"
    and "waited_us d t1 \<ge> 30000" and "waited_us d t2 \<ge> waited_us d t1 + 30000"
  shows "\<exists>k \<le> length ops. cx_phase (dv_cursor_crossing (fold mouse_step (take k ops) d)) = CURSOR_CROSSING_IDLE"
proof (rule ccontr)
  assume "\<not> ?thesis"
  then have s: "stays_in ops d" by (auto simp: stays_in_def)
  define e where "e = fold mouse_step before d"
  define f where "f = mouse_crossing_task E1 gap1 e t1"
  define g where "g = fold mouse_step between f"
  have st: "stays_in before d" "stays_in between f" "in_crossing e" "in_crossing f" "in_crossing (mouse_crossing_task E2 gap2 g t2)"
    using s by (auto simp: assms(3) stays_in_append e_def f_def g_def dest: stays_in_start)
  have "waited_us d (cx_started_us (dv_cursor_crossing d)) = 0" by (simp add: waited_us_def)
  then have "tracks d 0 d" using assms(1,2) by (simp add: tracks_def)
  then have e: "tracks d (waited_us d t1) e" unfolding e_def
    using st(1) assms(3,4) by (intro tracks_run) (auto simp: sorted_append)
  have "waiting f \<longrightarrow> t1 - cx_started_us (dv_cursor_crossing f) < CURSOR_REANCHOR_TIMEOUT_US"
    using task_stays(3) [of e E1 gap1 t1] e st(3,4) by (auto simp: tracks_def f_def)
  moreover have "tracks d (waited_us d t1) f" unfolding f_def using tracks_task [OF e] st(4) by (simp add: f_def)
  ultimately have "answer_due d (waited_us d t1) f"
    using assms(5) by (auto simp: answer_due_def tracks_def waited_us_def word_less_nat_alt split: if_splits)
  then have g: "answer_due d (waited_us d t1) g" unfolding g_def using st(2) by (rule answer_due_run)
  have "unat (t2 - cx_started_us (dv_cursor_crossing g)) \<ge> 30000" if "waiting g"
    using elapsed_since [of d "cx_started_us (dv_cursor_crossing g)" t2] g that assms(6) by (auto simp: answer_due_def)
  then have "\<not> in_crossing (mouse_crossing_task E2 gap2 g t2)"
    using g by (intro task_releases) (auto simp: answer_due_def word_le_nat_alt)
  then show False using st(5) by simp
qed
section \<open>The arrival guard\<close>

text \<open>The counts of a report that push back over the seam, and whether a report moves inward, away from it.\<close>

definition axis_move :: "dh_direction_t \<Rightarrow> mouse_values_t \<Rightarrow> int" where
  "axis_move g vals = (if dh_direction_is_vertical g then mv_move_y vals else mv_move_x vals)"

definition pushed_back :: "dh_direction_t \<Rightarrow> mouse_values_t \<Rightarrow> int" where
  "pushed_back g vals =
     (let m = axis_move g vals in
      if g = DH_DIRECTION_LEFT \<or> g = DH_DIRECTION_TOP then max 0 (- m)
      else if g = DH_DIRECTION_RIGHT \<or> g = DH_DIRECTION_BOTTOM then max 0 m else 0)"

definition moved_inward :: "dh_direction_t \<Rightarrow> device_t \<Rightarrow> mouse_values_t \<Rightarrow> bool" where
  "moved_inward g d vals =
     (let (d, x) = axis_offset (keep_pointer_on_screen d) vals False;
          (d, y) = axis_offset d vals True;
          other = (if dh_direction_is_vertical g then mv_move_x vals else mv_move_y vals) in
      \<bar>axis_move g vals\<bar> \<ge> \<bar>other\<bar> \<and>
      ((g = DH_DIRECTION_LEFT \<and> x > 0) \<or> (g = DH_DIRECTION_RIGHT \<and> x < 0) \<or>
       (g = DH_DIRECTION_TOP \<and> y > 0) \<or> (g = DH_DIRECTION_BOTTOM \<and> y < 0)))"

lemma uint_reverse: "0 \<le> n \<Longrightarrow> n \<le> 65535 \<Longrightarrow> uint (of_int n :: u16) = n"
  by (simp add: unsigned_of_int take_bit_int_eq_self)

text \<open>One step of the guard: it stands with the counts added, or has fallen for one of its two reasons.\<close>

lemma guard_step_exact:
  assumes "dv_output_arrival_guard d = g" and "g \<noteq> DH_DIRECTION_NONE"
  shows "snd (arrival_guard_step d vals x y) \<Longrightarrow>
      dv_output_arrival_guard (fst (arrival_guard_step d vals x y)) = g \<and>
      uint (dv_output_arrival_reverse (fst (arrival_guard_step d vals x y))) \<le> uint (dv_output_arrival_reverse d) + pushed_back g vals"
    and "\<not> snd (arrival_guard_step d vals x y) \<Longrightarrow> dv_output_arrival_guard (fst (arrival_guard_step d vals x y)) = DH_DIRECTION_NONE \<and>
      (uint (dv_output_arrival_reverse d) + pushed_back g vals > uint (dv_jump_threshold d) \<or>
       (\<bar>axis_move g vals\<bar> \<ge> \<bar>if dh_direction_is_vertical g then mv_move_x vals else mv_move_y vals\<bar> \<and>
        ((g = DH_DIRECTION_LEFT \<and> x > 0) \<or> (g = DH_DIRECTION_RIGHT \<and> x < 0) \<or> (g = DH_DIRECTION_TOP \<and> y > 0) \<or> (g = DH_DIRECTION_BOTTOM \<and> y < 0))))"
    and "dv_jump_threshold (fst (arrival_guard_step d vals x y)) = dv_jump_threshold d"
    and "dv_cursor_crossing (fst (arrival_guard_step d vals x y)) = dv_cursor_crossing d"
proof -
  define rev where "rev = ((g = DH_DIRECTION_LEFT \<and> axis_move g vals < 0) \<or> (g = DH_DIRECTION_RIGHT \<and> axis_move g vals > 0) \<or>
    (g = DH_DIRECTION_TOP \<and> axis_move g vals < 0) \<or> (g = DH_DIRECTION_BOTTOM \<and> axis_move g vals > 0))"
  define r where "r = (if rev then (of_int (min (uint (dv_output_arrival_reverse d) + \<bar>axis_move g vals\<bar>) 65535) :: u16) else dv_output_arrival_reverse d)"
  define inw where "inw = (\<bar>axis_move g vals\<bar> \<ge> \<bar>if dh_direction_is_vertical g then mv_move_x vals else mv_move_y vals\<bar> \<and>
        ((g = DH_DIRECTION_LEFT \<and> x > 0) \<or> (g = DH_DIRECTION_RIGHT \<and> x < 0) \<or> (g = DH_DIRECTION_TOP \<and> y > 0) \<or> (g = DH_DIRECTION_BOTTOM \<and> y < 0)))"
  have st: "arrival_guard_step d vals x y =
      (if inw \<or> r > dv_jump_threshold d then (d\<lparr>dv_output_arrival_guard := DH_DIRECTION_NONE, dv_output_arrival_reverse := 0\<rparr>, False)
       else (d\<lparr>dv_output_arrival_reverse := r\<rparr>, True))"
  proof -
    have same: "d\<lparr>dv_output_arrival_reverse := dv_output_arrival_reverse d\<rparr> = d" by simp
    show ?thesis
      unfolding arrival_guard_step_def Let_def assms(1) axis_move_def [symmetric] rev_def [symmetric] inw_def [symmetric] using assms(2)
      by (cases rev; simp add: r_def same inw_def axis_move_def; blast)
  qed
  have p: "pushed_back g vals = (if rev then \<bar>axis_move g vals\<bar> else 0)"
    using assms(2) unfolding pushed_back_def rev_def Let_def by (cases g) auto
  have l: "uint (dv_output_arrival_reverse d) \<le> 65535" "uint (dv_jump_threshold d) \<le> 65535" "0 \<le> uint (dv_output_arrival_reverse d)"
    using unsigned_less [where 'a = int, of "dv_output_arrival_reverse d"] unsigned_less [where 'a = int, of "dv_jump_threshold d"] by simp_all
  have u: "uint r = min (uint (dv_output_arrival_reverse d) + pushed_back g vals) 65535"
    unfolding r_def p using l by (auto simp: uint_reverse)
  show "snd (arrival_guard_step d vals x y) \<Longrightarrow>
      dv_output_arrival_guard (fst (arrival_guard_step d vals x y)) = g \<and>
      uint (dv_output_arrival_reverse (fst (arrival_guard_step d vals x y))) \<le> uint (dv_output_arrival_reverse d) + pushed_back g vals"
    using u assms(1) by (auto simp: st split: if_splits)
  show "\<not> snd (arrival_guard_step d vals x y) \<Longrightarrow> dv_output_arrival_guard (fst (arrival_guard_step d vals x y)) = DH_DIRECTION_NONE \<and>
      (uint (dv_output_arrival_reverse d) + pushed_back g vals > uint (dv_jump_threshold d) \<or>
       (\<bar>axis_move g vals\<bar> \<ge> \<bar>if dh_direction_is_vertical g then mv_move_x vals else mv_move_y vals\<bar> \<and>
        ((g = DH_DIRECTION_LEFT \<and> x > 0) \<or> (g = DH_DIRECTION_RIGHT \<and> x < 0) \<or> (g = DH_DIRECTION_TOP \<and> y > 0) \<or> (g = DH_DIRECTION_BOTTOM \<and> y < 0))))"
    using u unfolding inw_def [symmetric] by (auto simp: st word_less_def split: if_splits)
  show "dv_jump_threshold (fst (arrival_guard_step d vals x y)) = dv_jump_threshold d"
    and "dv_cursor_crossing (fst (arrival_guard_step d vals x y)) = dv_cursor_crossing d" by (simp_all add: st)
qed

text \<open>A report without a pending crossing, as far as the guard goes.\<close>

lemma update_shape:
  assumes "cx_phase (dv_cursor_crossing d) = CURSOR_CROSSING_IDLE"
  obtains d3 d5 vs dir x y where "walks d d3" "x = snd (axis_offset (keep_pointer_on_screen d) vals False)"
    "y = snd (axis_offset (fst (axis_offset (keep_pointer_on_screen d) vals False)) vals True)"
    "walks (fst (arrival_guard_step d3 vals x y)) d5" "update_mouse_position d vals = (d5\<lparr>dv_mouse_buttons := to_i16 (mv_buttons vs)\<rparr>, vs, dir)"
    "snd (arrival_guard_step d3 vals x y) \<longrightarrow> dv_output_arrival_guard d3 \<noteq> DH_DIRECTION_NONE \<longrightarrow> dir \<noteq> dv_output_arrival_guard d3"
proof -
  define d1 where "d1 = keep_pointer_on_screen d"
  define d2 where "d2 = fst (axis_offset d1 vals False)"
  define d3 where "d3 = fst (axis_offset d2 vals True)"
  define x where "x = snd (axis_offset d1 vals False)"
  define y where "y = snd (axis_offset d2 vals True)"
  define d4 where "d4 = fst (arrival_guard_step d3 vals x y)"
  define b where "b = snd (arrival_guard_step d3 vals x y)"
  define g where "g = dv_output_arrival_guard d3"
  define horizontal where "horizontal = screen_boundary_crossing d3 (active d1) (dv_pointer_x d3) x DH_DIRECTION_LEFT DH_DIRECTION_RIGHT"
  define vertical where "vertical = screen_boundary_crossing d3 (active d1) (dv_pointer_y d3) y DH_DIRECTION_TOP DH_DIRECTION_BOTTOM"
  define ha where "ha = (actionable_transition_for d4 (active d1) (sb_direction horizontal) (mv_buttons vals) \<noteq> DH_MOUSE_TRANSITION_NONE \<and> \<not> (b \<and> sb_direction horizontal = g))"
  define va where "va = (actionable_transition_for d4 (active d1) (sb_direction vertical) (mv_buttons vals) \<noteq> DH_MOUSE_TRANSITION_NONE \<and> \<not> (b \<and> sb_direction vertical = g))"
  define dir where "dir = chosen_direction horizontal vertical ha va"
  define tr where "tr = actionable_transition_for d4 (active d1) dir (mv_buttons vals)"
  define e where "e = (if sb_direction horizontal \<noteq> DH_DIRECTION_NONE \<or> sb_direction vertical \<noteq> DH_DIRECTION_NONE
    then cursor_trace_event DH_CURSOR_TRACE_DECISION 0 (to_i16 (mv_move_x vals)) (to_i16 (mv_move_y vals)) dir tr d4 else d4)"
  define vs where "vs = (if dv_relative_mouse e \<and> ha \<and> va
    then (if dh_direction_is_vertical dir then vals\<lparr>mv_move_x := 0\<rparr> else vals\<lparr>mv_move_y := 0\<rparr>) else vals)"
  define d5 where "d5 = move_pointer e ha va dir tr x y"
  have up: "update_mouse_position d vals = (d5\<lparr>dv_mouse_buttons := to_i16 (mv_buttons vs)\<rparr>, vs, dir)"
    unfolding update_mouse_position_def Let_def case_prod_beta d5_def vs_def e_def tr_def dir_def va_def ha_def vertical_def horizontal_def g_def
      b_def d4_def y_def x_def d3_def d2_def d1_def by (simp only: assms simp_thms if_False)
  have w: "walks d d3" unfolding d3_def d2_def d1_def by (meson keep_walks axis_offset_walks walks_trans)
  have "walks d4 e" by (simp add: e_def)
  then have w5: "walks d4 d5" unfolding d5_def by (meson move_pointer_walks walks_trans)
  have ng: "dir \<noteq> g" if "b" "g \<noteq> DH_DIRECTION_NONE" using that by (auto simp: dir_def chosen_direction_def ha_def va_def)
  show ?thesis
    by (rule that [OF w _ _ w5 [unfolded d4_def] up]) (use ng in \<open>simp_all add: x_def y_def d1_def d2_def b_def g_def\<close>)
qed

lemma update_guard:
  assumes "\<not> in_crossing d" and "dv_output_arrival_guard d = g" and "g \<noteq> DH_DIRECTION_NONE"
  shows "dv_output_arrival_guard (fst (update_mouse_position d vals)) = g \<Longrightarrow>
      snd (snd (update_mouse_position d vals)) \<noteq> g \<and>
      uint (dv_output_arrival_reverse (fst (update_mouse_position d vals))) \<le> uint (dv_output_arrival_reverse d) + pushed_back g vals"
    and "dv_output_arrival_guard (fst (update_mouse_position d vals)) \<noteq> g \<Longrightarrow>
      uint (dv_output_arrival_reverse d) + pushed_back g vals > uint (dv_jump_threshold d) \<or> moved_inward g d vals"
    and "\<not> in_crossing (fst (update_mouse_position d vals))"
    and "dv_jump_threshold (fst (update_mouse_position d vals)) = dv_jump_threshold d"
proof -
  have idle: "cx_phase (dv_cursor_crossing d) = CURSOR_CROSSING_IDLE" using assms(1) by simp
  obtain d3 d5 vs dir x y where w: "walks d d3" and x: "x = snd (axis_offset (keep_pointer_on_screen d) vals False)"
    and y: "y = snd (axis_offset (fst (axis_offset (keep_pointer_on_screen d) vals False)) vals True)"
    and w5: "walks (fst (arrival_guard_step d3 vals x y)) d5"
    and up: "update_mouse_position d vals = (d5\<lparr>dv_mouse_buttons := to_i16 (mv_buttons vs)\<rparr>, vs, dir)"
    and ng: "snd (arrival_guard_step d3 vals x y) \<longrightarrow> dv_output_arrival_guard d3 \<noteq> DH_DIRECTION_NONE \<longrightarrow> dir \<noteq> dv_output_arrival_guard d3"
    by (rule update_shape [OF idle, of vals]) (rule that; assumption)
  note f = walks_fields [OF w] and f5 = walks_fields [OF w5]
  have g3: "dv_output_arrival_guard d3 = g" using f(7) assms(2) by simp
  note gs = guard_step_exact [OF g3 assms(3), of vals x y, unfolded f(8) f(4)]
  have inw: "moved_inward g d vals = (\<bar>axis_move g vals\<bar> \<ge> \<bar>if dh_direction_is_vertical g then mv_move_x vals else mv_move_y vals\<bar> \<and>
        ((g = DH_DIRECTION_LEFT \<and> x > 0) \<or> (g = DH_DIRECTION_RIGHT \<and> x < 0) \<or> (g = DH_DIRECTION_TOP \<and> y > 0) \<or> (g = DH_DIRECTION_BOTTOM \<and> y < 0)))"
    unfolding moved_inward_def Let_def case_prod_beta x y ..
  have bg: "snd (arrival_guard_step d3 vals x y) \<longleftrightarrow> dv_output_arrival_guard (fst (arrival_guard_step d3 vals x y)) = g"
    using gs(1,2) assms(3) by (cases "snd (arrival_guard_step d3 vals x y)") auto
  show "dv_output_arrival_guard (fst (update_mouse_position d vals)) = g \<Longrightarrow>
      snd (snd (update_mouse_position d vals)) \<noteq> g \<and>
      uint (dv_output_arrival_reverse (fst (update_mouse_position d vals))) \<le> uint (dv_output_arrival_reverse d) + pushed_back g vals"
    using gs(1) bg ng g3 assms(3) f5(7,8) by (simp add: up)
  show "dv_output_arrival_guard (fst (update_mouse_position d vals)) \<noteq> g \<Longrightarrow>
      uint (dv_output_arrival_reverse d) + pushed_back g vals > uint (dv_jump_threshold d) \<or> moved_inward g d vals"
    using gs(2) bg f5(7) unfolding inw by (simp add: up)
  show "\<not> in_crossing (fst (update_mouse_position d vals))"
    and "dv_jump_threshold (fst (update_mouse_position d vals)) = dv_jump_threshold d"
    using idle f(4,6) f5(4,6) gs(3,4) by (simp_all add: up)
qed

text \<open>Whether an operation is a mouse report that leaves the screen, and over which edge: a report with no motion, wheel or new buttons is
  not looked at.\<close>

fun crossed :: "mouse_op \<Rightarrow> device_t \<Rightarrow> dh_direction_t" where
  "crossed (MouseReport E gap vals) d =
     (if mv_move_x vals = 0 \<and> mv_move_y vals = 0 \<and> mv_wheel vals = 0 \<and> mv_pan vals = 0 \<and> mv_buttons vals = dv_mouse_buttons d
      then DH_DIRECTION_NONE else snd (snd (update_mouse_position d vals)))"
| "crossed _ d = DH_DIRECTION_NONE"

fun is_hotkey :: "mouse_op \<Rightarrow> bool" where
  "is_hotkey (OutputHotkey b) = True"
| "is_hotkey _ = False"

text \<open>A run in which the cursor stays where it arrived.\<close>

fun stays_on_screen :: "mouse_op list \<Rightarrow> device_t \<Rightarrow> bool" where
  "stays_on_screen [] d = True"
| "stays_on_screen (op # ops) d = (crossed op d = DH_DIRECTION_NONE \<and> \<not> is_hotkey op \<and> stays_on_screen ops (mouse_step op d))"

fun op_inward :: "dh_direction_t \<Rightarrow> mouse_op \<Rightarrow> device_t \<Rightarrow> bool" where
  "op_inward g (MouseReport E gap vals) d = moved_inward g d vals"
| "op_inward g _ d = False"

fun went_inward :: "dh_direction_t \<Rightarrow> mouse_op list \<Rightarrow> device_t \<Rightarrow> bool" where
  "went_inward g [] d = False"
| "went_inward g (op # ops) d = (op_inward g op d \<or> went_inward g ops (mouse_step op d))"

fun op_pushed :: "dh_direction_t \<Rightarrow> mouse_op \<Rightarrow> int" where
  "op_pushed g (MouseReport E gap vals) = pushed_back g vals"
| "op_pushed g _ = 0"

definition counts_back :: "dh_direction_t \<Rightarrow> mouse_op list \<Rightarrow> int" where
  "counts_back g ops = sum_list (map (op_pushed g) ops)"

lemma op_pushed_nonneg: "0 \<le> op_pushed g op"
  by (cases op) (auto simp: pushed_back_def Let_def)

lemma counts_back_simps [simp]: "counts_back g [] = 0" "counts_back g (op # ops) = op_pushed g op + counts_back g ops"
  "counts_back g (ops @ ops') = counts_back g ops + counts_back g ops'"
  by (simp_all add: counts_back_def)

lemma counts_back_nonneg: "0 \<le> counts_back g ops"
  by (induction ops) (simp_all add: op_pushed_nonneg)

lemma went_inward_append: "went_inward g (ops @ ops') d = (went_inward g ops d \<or> went_inward g ops' (fold mouse_step ops d))"
  by (induction ops arbitrary: d) auto

text \<open>The guard as it stands in \<open>e\<close>, at most \<open>n\<close> counts held against it.\<close>

definition guarded :: "device_t \<Rightarrow> dh_direction_t \<Rightarrow> int \<Rightarrow> device_t \<Rightarrow> bool" where
  "guarded d g n e = (\<not> in_crossing e \<and> dv_output_arrival_guard e = g \<and> dv_jump_threshold e = dv_jump_threshold d \<and>
     uint (dv_output_arrival_reverse e) \<le> n)"

lemma core0_guard:
  "dv_output_arrival_guard (core0_turn ev d) = dv_output_arrival_guard d" "dv_jump_threshold (core0_turn ev d) = dv_jump_threshold d"
  "dv_output_arrival_reverse (core0_turn ev d) = dv_output_arrival_reverse d" "\<not> in_crossing d \<Longrightarrow> \<not> in_crossing (core0_turn ev d)"
  by (cases ev; auto simp: apply_helper_cursor_position_def select_cursor_screen_def mouse_crossing_query_unavailable_def set_phase_def Let_def split: if_splits)+

lemma report_guarded:
  assumes "guarded d g n e" and "g \<noteq> DH_DIRECTION_NONE" and "crossed (MouseReport E gap vals) e \<in> {DH_DIRECTION_NONE, g}"
  shows "guarded d g (n + pushed_back g vals) (mouse_step (MouseReport E gap vals) e) \<and> crossed (MouseReport E gap vals) e = DH_DIRECTION_NONE \<or>
     moved_inward g e vals \<or> n + pushed_back g vals > uint (dv_jump_threshold d)"
proof -
  have pn: "0 \<le> pushed_back g vals" using op_pushed_nonneg [of g "MouseReport E gap vals"] by simp
  have e: "\<not> in_crossing e" "dv_output_arrival_guard e = g" "dv_jump_threshold e = dv_jump_threshold d" "uint (dv_output_arrival_reverse e) \<le> n"
    using assms(1) by (simp_all add: guarded_def)
  obtain e' vals' dir where u: "update_mouse_position e vals = (e', vals', dir)" by (cases "update_mouse_position e vals") auto
  note ug = update_guard [OF e(1,2) assms(2), of vals, unfolded u fst_conv snd_conv]
  show ?thesis
  proof (cases "mv_move_x vals = 0 \<and> mv_move_y vals = 0 \<and> mv_wheel vals = 0 \<and> mv_pan vals = 0 \<and> mv_buttons vals = dv_mouse_buttons e")
    case True
    then have "mouse_step (MouseReport E gap vals) e = e" by (simp add: process_mouse_values_def)
    then show ?thesis using True e pn by (auto simp: guarded_def)
  next
    case False
    have c: "crossed (MouseReport E gap vals) e = dir" using False u by auto
    show ?thesis
    proof (cases "dv_output_arrival_guard e' = g")
      case True
      have "dir = DH_DIRECTION_NONE" using ug(1) [OF True] assms(3) unfolding c by auto
      then have "mouse_step (MouseReport E gap vals) e = output_mouse_report (create_mouse_report e' vals') e'"
        using False u by (auto simp: process_mouse_values_def)
      then have "guarded d g (n + pushed_back g vals) (mouse_step (MouseReport E gap vals) e)"
        using ug(1) [OF True] ug(3,4) True e by (auto simp: guarded_def)
      then show ?thesis using c \<open>dir = DH_DIRECTION_NONE\<close> by simp
    next
      case False
      then show ?thesis using ug(2) e by auto
    qed
  qed
qed

lemma run_guarded:
  assumes "guarded d g n e" and "g \<noteq> DH_DIRECTION_NONE" and "stays_on_screen ops e"
  shows "guarded d g (n + counts_back g ops) (fold mouse_step ops e) \<or> went_inward g ops e \<or> n + counts_back g ops > uint (dv_jump_threshold d)"
  using assms
proof (induction ops arbitrary: e n)
  case (Cons op ops)
  have "guarded d g (n + op_pushed g op) (mouse_step op e) \<or> op_inward g op e \<or> n + op_pushed g op > uint (dv_jump_threshold d)"
  proof (cases op)
    case (MouseReport E gap vals)
    then show ?thesis using report_guarded [OF Cons.prems(1,2), of E gap vals] Cons.prems(3) by auto
  next
    case (CrossingTask E gap now)
    then show ?thesis using Cons.prems(1) by (simp add: guarded_def mouse_crossing_task_def Let_def)
  next
    case (Core0 ev)
    then show ?thesis using Cons.prems(1) by (simp add: guarded_def core0_guard)
  next
    case (OutputHotkey b)
    then show ?thesis using Cons.prems(3) by simp
  next
    case (Flags lock gaming zoom boot)
    then show ?thesis using Cons.prems(1) by (simp add: guarded_def)
  qed
  then show ?case
  proof (elim disjE)
    assume "guarded d g (n + op_pushed g op) (mouse_step op e)"
    from Cons.IH [OF this Cons.prems(2)] show ?thesis using Cons.prems(3) by (auto simp: algebra_simps)
  qed (use counts_back_nonneg [of g ops] in auto)
qed simp

text \<open>C31. A cursor that has just arrived does not bounce back: after an arrival (the guard set toward the seam it came through, no
  counts held against it), take any run of mouse reports, helper answers, calls of the task and mode changes in which the cursor stays on
  the screen it arrived on. The next report crosses back over that seam only if some report since the arrival, this one included, moved
  inward, or the counts pushed back over the seam since the arrival, this report's included, exceed the jump threshold. Nothing is
  assumed of the guard after the arrival: an inward move takes it down for good, and the theorem says so.\<close>

theorem arrival_does_not_bounce:
  assumes "cx_phase (dv_cursor_crossing d) = CURSOR_CROSSING_IDLE" and "dv_output_arrival_guard d = g" and "g \<noteq> DH_DIRECTION_NONE"
    and "dv_output_arrival_reverse d = 0" and "stays_on_screen ops d" and "crossed op (fold mouse_step ops d) = g"
  shows "went_inward g (ops @ [op]) d \<or> counts_back g (ops @ [op]) > uint (dv_jump_threshold d)"
proof -
  have "guarded d g 0 d" using assms(1,2,4) by (simp add: guarded_def)
  from run_guarded [OF this assms(3,5)]
  have r: "guarded d g (counts_back g ops) (fold mouse_step ops d) \<or> went_inward g ops d \<or> counts_back g ops > uint (dv_jump_threshold d)" by simp
  obtain E gap vals where op: "op = MouseReport E gap vals" using assms(3,6) by (cases op) auto
  show ?thesis
    using r report_guarded [OF _ assms(3), of d "counts_back g ops" "fold mouse_step ops d" E gap vals] assms(3,6) op_pushed_nonneg [of g op]
    by (auto simp: op went_inward_append)
qed

section \<open>Relative moves are sent whole\<close>

definition nudge_report :: "dh_direction_t \<Rightarrow> int \<Rightarrow> mouse_effect" where
  "nudge_report direction counts =
     (let move = dh_mouse_nudge direction counts in
      OutputMouseReport \<lparr>mr_buttons = 0, mr_x = mc_x move, mr_y = mc_y move, mr_wheel = 0, mr_pan = 0, mr_mode = MOUSE_RELATIVE\<rparr>)"

lemma nudge_fits: "0 \<le> c \<Longrightarrow> c \<le> 32767 \<Longrightarrow> to_i16 (mc_x (dh_mouse_nudge dir c)) = mc_x (dh_mouse_nudge dir c) \<and> to_i16 (mc_y (dh_mouse_nudge dir c)) = mc_y (dh_mouse_nudge dir c)"
  by (auto simp: dh_mouse_nudge_def Let_def to_i16_id i16_def)

lemma windows_moved_effects: "windows_moved d i v here counts = (d', here') \<Longrightarrow> dv_effects d' = dv_effects d"
  by (auto simp: windows_moved_def Let_def split: prod.splits)

text \<open>C32. A relative move of any size ends, and arrives whole: whatever the count, the cut into reports terminates after exactly as
  many reports as 32767 counts each need, every report moves between one and 32767 counts in the direction asked for and along no other
  axis, with no button pressed, and together they move the count exactly.\<close>

theorem send_relative_exact:
  "\<exists>cs. dv_effects (fst (send_relative d i direction here counts)) = dv_effects d @ map (nudge_report direction) cs \<and>
     sum_list cs = max 0 counts \<and> list_all (\<lambda>c. 1 \<le> c \<and> c \<le> 32767) cs \<and> int (length cs) = (max 0 counts + 32766) div 32767"
proof (induction d i direction here counts rule: send_relative.induct)
  case (1 d i direction here counts)
  show ?case
  proof (cases "counts > 0")
    case True
    define v where "v = dh_direction_is_vertical direction"
    define chunk where "chunk = (if counts < 32767 then counts else 32767)"
    define move where "move = dh_mouse_nudge direction chunk"
    define e where "e = output_mouse_report \<lparr>mr_buttons = 0, mr_x = to_i16 (mc_x move), mr_y = to_i16 (mc_y move), mr_wheel = 0, mr_pan = 0, mr_mode = 1\<rparr> d"
    obtain f h2 where w: "windows_moved e i v here (if v then mc_y move else mc_x move) = (f, h2)" by fastforce
    have r: "send_relative d i direction here counts = send_relative f i direction h2 (counts - chunk)"
      using w by (simp only: send_relative.simps [of d i direction here counts] True Let_def if_True v_def [symmetric] chunk_def [symmetric]
        move_def [symmetric] e_def [symmetric] prod.case)
    have c: "1 \<le> chunk" "chunk \<le> 32767" "chunk \<le> counts" "counts \<noteq> chunk \<Longrightarrow> chunk = 32767" using True by (auto simp: chunk_def)
    have ef: "dv_effects f = dv_effects d @ [nudge_report direction chunk]"
      using windows_moved_effects [OF w] nudge_fits [of chunk direction] c by (simp add: e_def nudge_report_def Let_def move_def)
    obtain cs where cs: "dv_effects (fst (send_relative f i direction h2 (counts - chunk))) = dv_effects f @ map (nudge_report direction) cs"
      "sum_list cs = max 0 (counts - chunk)" "list_all (\<lambda>c. 1 \<le> c \<and> c \<le> 32767) cs" "int (length cs) = (max 0 (counts - chunk) + 32766) div 32767"
      using 1 [OF True v_def chunk_def move_def e_def refl w [symmetric]] by auto
    have "(counts + 32766) div 32767 = 1 + (counts - chunk + 32766) div 32767"
    proof (cases "counts = chunk")
      case False
      then have k: "chunk = 32767" by (rule c(4))
      have "counts + 32766 = (counts - chunk + 32766) + 1 * 32767" using k by simp
      then show ?thesis by (metis div_mult_self1 numeral_neq_zero)
    qed (use c in simp)
    then have "int (length (chunk # cs)) = (max 0 counts + 32766) div 32767" using cs(4) c by simp
    moreover have "dv_effects (fst (send_relative d i direction here counts)) = dv_effects d @ map (nudge_report direction) (chunk # cs)"
      unfolding r cs(1) ef by simp
    moreover have "sum_list (chunk # cs) = max 0 counts" using cs(2) c by simp
    moreover have "list_all (\<lambda>c. 1 \<le> c \<and> c \<le> 32767) (chunk # cs)" using cs(3) c by simp
    ultimately show ?thesis by blast
  qed (simp add: send_relative.simps)
qed

section \<open>Where a crossing lands\<close>

lemma mapped_screen:
  assumes "dh_seam_resolve_crossing src tgt si sc tc p = (DH_SEAM_CROSSING_MAPPED, Some m)"
  shows "sn_screen_index m \<noteq> 0" and "ucast (sn_screen_index m) \<le> tc"
  using assms by (auto simp: dh_seam_resolve_crossing_def Let_def range_is_available_def range_is_configured_def split: option.splits if_splits)

definition entry_edge :: "dh_direction_t \<Rightarrow> int" where
  "entry_edge direction = (if direction = DH_DIRECTION_LEFT \<or> direction = DH_DIRECTION_TOP then MAX_SCREEN_COORD else MIN_SCREEN_COORD)"

definition along_of :: "dh_direction_t \<Rightarrow> device_t \<Rightarrow> int" where
  "along_of direction d = (if dh_direction_is_vertical direction then dv_pointer_x d else dv_pointer_y d)"

definition across_of :: "dh_direction_t \<Rightarrow> device_t \<Rightarrow> int" where
  "across_of direction d = (if dh_direction_is_vertical direction then dv_pointer_y d else dv_pointer_x d)"

lemma across_emit:
  "across_of direction (emit_effect e d) = across_of direction d" "along_of direction (emit_effect e d) = along_of direction d"
  by (simp_all add: across_of_def along_of_def)

lemma along_estimate:
  "along_of direction (place_estimate d target direction position) =
     (let span = windows_pixels target (\<not> dh_direction_is_vertical direction) in
      if dv_relative_mouse d \<and> span \<noteq> 0 then to_i16 ((dh_place_along position span * 32768 + span - 1) sdiv span) else along_of direction d)"
  by (simp add: along_of_def place_estimate_def Let_def)

lemma crossed_over_effects:
  "\<exists>r. dv_effects (crossed_over d direction) = dv_effects d @ [OutputMouseReport r, SetActiveOutput (other_output (dv_active_output d)),
     TraceEvent DH_CURSOR_TRACE_SWITCH 0 0 0 direction DH_MOUSE_TRANSITION_OUTPUT] \<and> mr_buttons r = 0 \<and> mr_mode r = MOUSE_ABSOLUTE"
  by (simp add: crossed_over_def switch_to_another_pc_def Let_def set_active_output_def set_pointer_def select_cursor_screen_def)

lemma crossed_over_guard:
  "dv_output_arrival_guard (crossed_over d direction) = dh_opposite_direction direction" "dv_output_arrival_reverse (crossed_over d direction) = 0"
  by (simp_all add: crossed_over_def)

lemma crossed_over_across:
  assumes "direction \<noteq> DH_DIRECTION_NONE"
  shows "across_of direction (crossed_over d direction) = entry_edge direction"
  using assms by (cases direction)
    (simp_all add: crossed_over_def switch_to_another_pc_def Let_def set_pointer_def across_of_def entry_edge_def dh_direction_is_vertical_def to_i16_def)

text \<open>What the arriving screen keeps of the target's configuration.\<close>

lemma crossed_over_statics:
  "ou_screen_count (dv_output (crossed_over d direction) ! i) = ou_screen_count (dv_output d ! i)"
  "ou_number (dv_output (crossed_over d direction) ! i) = ou_number (dv_output d ! i)"
  "ou_os (dv_output (crossed_over d direction) ! i) = ou_os (dv_output d ! i)"
  by (simp_all add: crossed_over_def switch_to_another_pc_def Let_def set_active_output_def set_pointer_def select_cursor_screen_def nth_update_any)

lemma mapped_landing:
  fixes d direction E
  defines "to \<equiv> other_output (dv_active_output d)" and "d' \<equiv> cross_to_output E d direction"
  assumes "device_ok d" and "direction \<noteq> DH_DIRECTION_NONE" and "seam_crossing d direction = (DH_SEAM_CROSSING_MAPPED, Some m)"
    and "ev_helper_present E to"
  shows "(\<exists>r. dv_effects d' = dv_effects d @
      [OutputMouseReport r, SetActiveOutput to, TraceEvent DH_CURSOR_TRACE_SWITCH 0 0 0 direction DH_MOUSE_TRANSITION_OUTPUT,
       PlaceCursor to (sn_screen_index m) (ou_chain_direction (output_at d to)) (ou_border_direction (output_at d to)) (sn_position m),
       TraceEvent DH_CURSOR_TRACE_PLACE 0 0 0 direction DH_MOUSE_TRANSITION_OUTPUT] \<and> mr_buttons r = 0 \<and> mr_mode r = MOUSE_ABSOLUTE) \<and>
    dv_active_output d' = to \<and> ou_screen_index (active d') = ucast (sn_screen_index m) \<and>
    across_of direction d' = entry_edge direction \<and>
    along_of direction d' =
      (let span = windows_pixels (active d') (\<not> dh_direction_is_vertical direction) in
       if dv_relative_mouse d' \<and> span \<noteq> 0 then to_i16 ((dh_place_along (sn_position m) span * 32768 + span - 1) sdiv span)
       else seam_to_units (sn_position m)) \<and>
    dv_output_arrival_guard d' = dh_opposite_direction direction \<and> dv_output_arrival_reverse d' = 0"
proof -
  define p where "p = entered (crossed_over d direction) direction (sn_position m)"
  have o: "outputs_ok (dv_output d)" "to \<le> 1" using assms(3) other_output_le by (simp_all add: device_ok_def base_ok_def to_def)
  have n: "ucast (ou_number (output_at d to)) = to"
    using outputs_okD(2) [OF o] by (simp add: word_unat_eq_iff unat_byte_u32 unat_u32_byte unat_u8_lt)
  have m: "sn_screen_index m \<noteq> 0" "ucast (sn_screen_index m) \<le> ou_screen_count (output_at d to)"
    using mapped_screen assms(5) unfolding seam_crossing_def Let_def to_def by blast+
  note a = crossed_over_ok [OF assms(3), of direction, folded to_def] and st = crossed_over_statics [of d direction]
  have l: "unat to < length (dv_output (crossed_over d direction))" using a(1,3) outputs_okD(1) o(2) by (simp add: device_ok_def base_ok_def)
  define f where "f = fst (select_cursor_screen p to (sn_screen_index m))"
  have po: "dv_output p = dv_output (crossed_over d direction)" "dv_active_output p = to" using a(3) by (simp_all add: p_def entered_def)
  have sel: "select_cursor_screen p to (sn_screen_index m) = (f, True)"
    using o(2) m po st(1) by (auto simp: f_def select_cursor_screen_def)
  have fo: "output_at f to = (output_at (crossed_over d direction) to)\<lparr>ou_screen_index := ucast (sn_screen_index m)\<rparr>"
    using o(2) m po st(1) l by (auto simp: f_def select_cursor_screen_def nth_update_any)
  have fe: "dv_effects f = dv_effects (crossed_over d direction)" "dv_active_output f = to"
    "dv_pointer_x f = dv_pointer_x p" "dv_pointer_y f = dv_pointer_y p" "dv_output_arrival_guard f = dv_output_arrival_guard p" "dv_output_arrival_reverse f = dv_output_arrival_reverse p"
    using po(2) by (simp_all add: f_def select_cursor_screen_def p_def entered_def)
  define q where "q = emit_effect (PlaceCursor to (sn_screen_index m) (ou_chain_direction (output_at d to)) (ou_border_direction (output_at d to)) (sn_position m)) f"
  have eq: "d' = cursor_trace_event DH_CURSOR_TRACE_PLACE 0 0 0 direction DH_MOUSE_TRANSITION_OUTPUT (place_estimate q (output_at f to) direction (sn_position m))"
    unfolding d'_def cross_to_output_eq [of E d direction, folded to_def] assms(5) fst_conv snd_conv option.case n p_def [symmetric] sel prod.case
    using assms(6) by (simp add: q_def)
  have pe: "dv_effects (place_estimate q t dir z) = dv_effects q" "dv_active_output (place_estimate q t dir z) = dv_active_output q"
    "dv_output (place_estimate q t dir z) = dv_output q" "dv_relative_mouse (place_estimate q t dir z) = dv_relative_mouse q"
    "dv_output_arrival_guard (place_estimate q t dir z) = dv_output_arrival_guard q" "dv_output_arrival_reverse (place_estimate q t dir z) = dv_output_arrival_reverse q"
    "across_of dir (place_estimate q t dir z) = across_of dir q" for t dir z
    by (simp_all add: place_estimate_def Let_def across_of_def)
  have t: "to_i16 (seam_to_units z) = seam_to_units z" for z
  proof -
    have "uint z \<le> 65535" using unsigned_less [where 'a = int, of z] by simp
    then have "(uint z * 32767 + 32767) div 65535 \<le> (65535 * 32767 + 32767) div 65535" by (intro zdiv_mono1) simp_all
    moreover have "0 \<le> (uint z * 32767 + 32767) div 65535" by (intro div_int_pos_iff [THEN iffD2]) simp
    ultimately show ?thesis by (intro to_i16_id) (simp add: i16_def seam_to_units_def)
  qed
  have qf: "dv_active_output q = to" "dv_output q = dv_output f" "dv_relative_mouse q = dv_relative_mouse f"
    "dv_effects q = dv_effects (crossed_over d direction) @
      [PlaceCursor to (sn_screen_index m) (ou_chain_direction (output_at d to)) (ou_border_direction (output_at d to)) (sn_position m)]"
    "dv_pointer_x q = dv_pointer_x p" "dv_pointer_y q = dv_pointer_y p"
    "dv_output_arrival_guard q = dv_output_arrival_guard p" "dv_output_arrival_reverse q = dv_output_arrival_reverse p"
    by (simp_all add: q_def fe)
  have act: "active d' = output_at f to" by (simp add: eq pe qf)
  show ?thesis
  proof (intro conjI)
    show "\<exists>r. dv_effects d' = dv_effects d @
        [OutputMouseReport r, SetActiveOutput to, TraceEvent DH_CURSOR_TRACE_SWITCH 0 0 0 direction DH_MOUSE_TRANSITION_OUTPUT,
         PlaceCursor to (sn_screen_index m) (ou_chain_direction (output_at d to)) (ou_border_direction (output_at d to)) (sn_position m),
         TraceEvent DH_CURSOR_TRACE_PLACE 0 0 0 direction DH_MOUSE_TRANSITION_OUTPUT] \<and> mr_buttons r = 0 \<and> mr_mode r = MOUSE_ABSOLUTE"
      using crossed_over_effects [of d direction, folded to_def] by (auto simp: eq pe qf)
    show "dv_active_output d' = to" by (simp add: eq pe qf)
    show "ou_screen_index (active d') = ucast (sn_screen_index m)" unfolding act fo by simp
    show "across_of direction d' = entry_edge direction"
    proof -
      have "across_of direction d' = across_of direction q" unfolding eq across_emit by (rule pe(7))
      also have "\<dots> = across_of direction (crossed_over d direction)" by (simp add: across_of_def qf p_def entered_def)
      finally show ?thesis using crossed_over_across [OF assms(4)] by simp
    qed
    show "along_of direction d' =
      (let span = windows_pixels (active d') (\<not> dh_direction_is_vertical direction) in
       if dv_relative_mouse d' \<and> span \<noteq> 0 then to_i16 ((dh_place_along (sn_position m) span * 32768 + span - 1) sdiv span)
       else seam_to_units (sn_position m))"
    proof -
      have q: "along_of direction q = seam_to_units (sn_position m)" by (simp add: along_of_def qf p_def entered_def t)
      have r: "dv_relative_mouse d' = dv_relative_mouse q" by (simp add: eq pe)
      have "along_of direction d' = along_of direction (place_estimate q (output_at f to) direction (sn_position m))" unfolding eq across_emit ..
      then show ?thesis unfolding act r along_estimate q .
    qed
    show "dv_output_arrival_guard d' = dh_opposite_direction direction" "dv_output_arrival_reverse d' = 0"
      using crossed_over_guard [of d direction] by (simp_all add: eq pe qf p_def entered_def)
  qed
qed

text \<open>C33. A crossing lands where the seam map says: when the map gives an entry for the point the cursor leaves by and the other
  computer has a helper, the crossing hides the pointer on this computer, makes the other output active, selects exactly the mapped
  screen there (with relative mode to match), puts the pointer on the edge facing the seam at the mapped position (or, on a relative
  Windows screen, in the very pixel the helper will choose), tells the helper that screen and position, and arms the guard toward the
  seam. Nothing else is sent.\<close>

theorem crossing_lands_mapped:
  assumes "device_ok d" and "direction \<noteq> DH_DIRECTION_NONE" and "seam_crossing d direction = (DH_SEAM_CROSSING_MAPPED, Some m)"
    and "ev_helper_present E (other_output (dv_active_output d))"
  shows "let to = other_output (dv_active_output d); d' = cross_to_output E d direction in
    (\<exists>r. dv_effects d' = dv_effects d @
      [OutputMouseReport r, SetActiveOutput to, TraceEvent DH_CURSOR_TRACE_SWITCH 0 0 0 direction DH_MOUSE_TRANSITION_OUTPUT,
       PlaceCursor to (sn_screen_index m) (ou_chain_direction (output_at d to)) (ou_border_direction (output_at d to)) (sn_position m),
       TraceEvent DH_CURSOR_TRACE_PLACE 0 0 0 direction DH_MOUSE_TRANSITION_OUTPUT] \<and> mr_buttons r = 0 \<and> mr_mode r = MOUSE_ABSOLUTE) \<and>
    dv_active_output d' = to \<and> ou_screen_index (active d') = ucast (sn_screen_index m) \<and>
    across_of direction d' = entry_edge direction \<and>
    along_of direction d' =
      (let span = windows_pixels (active d') (\<not> dh_direction_is_vertical direction) in
       if dv_relative_mouse d' \<and> span \<noteq> 0 then to_i16 ((dh_place_along (sn_position m) span * 32768 + span - 1) sdiv span)
       else seam_to_units (sn_position m)) \<and>
    dv_output_arrival_guard d' = dh_opposite_direction direction \<and> dv_output_arrival_reverse d' = 0"
  unfolding Let_def [of "other_output (dv_active_output d)"] Let_def [of "cross_to_output E d direction"] by (rule mapped_landing [OF assms])

section \<open>Witnesses\<close>

text \<open>A macOS computer with one screen, its seam on the right, and a Windows computer with two screens in a row, its seam on the left.\<close>

definition demo_outputs :: "output_t list" where
  "demo_outputs =
     [\<lparr>ou_number = 0, ou_screen_count = 1, ou_screen_index = 1, ou_speed_x = 16, ou_speed_y = 16, ou_border_start = 0, ou_border_end = 32767,
       ou_os = 2, ou_chain_direction = 1, ou_border_direction = 2, ou_mouse_park_pos = 0, ou_pointer_speed = 0, ou_seam_ranges = seam_a,
       ou_monitor_width = 0, ou_monitor_height = 0\<rparr>,
      \<lparr>ou_number = 1, ou_screen_count = 2, ou_screen_index = 2, ou_speed_x = 1, ou_speed_y = 1, ou_border_start = 0, ou_border_end = 32767,
       ou_os = 3, ou_chain_direction = 2, ou_border_direction = 4, ou_mouse_park_pos = 0, ou_pointer_speed = 0, ou_seam_ranges = seam_b,
       ou_monitor_width = 0, ou_monitor_height = 0\<rparr>]"

definition demo_device :: device_t where
  "demo_device =
     \<lparr>dv_active_output = 0, dv_pointer_x = 32767, dv_pointer_y = 100, dv_mouse_buttons = 0, dv_output = demo_outputs, dv_jump_threshold = 200,
      dv_enable_acceleration = False, dv_mouse_zoom = False, dv_switch_lock = False, dv_relative_mouse = False,
      dv_windows_part_pixel = (\<lambda>_ _. 0), dv_gaming_mode = False, dv_boot_mouse_mode = [False, False],
      dv_cursor_crossing = cursor_crossing_zero, dv_output_arrival_guard = DH_DIRECTION_NONE, dv_output_arrival_reverse = 0,
      dv_next_cursor_query_id = 0, dv_effects = []\<rparr>"

definition demo_env :: crossing_env where
  "demo_env = \<lparr>ev_helper_present = (\<lambda>_. True), ev_query_result = CURSOR_QUERY_RETRY, ev_place_accepted = True, ev_time_us = 0\<rparr>"

lemma demo_outputs_ok: "outputs_ok demo_outputs"
proof -
  have "(\<forall>i < 2. P i) \<longleftrightarrow> P 0 \<and> P 1" for P :: "nat \<Rightarrow> bool" by (auto simp: less_2_cases_iff)
  then show ?thesis by (simp add: outputs_ok_def demo_outputs_def)
qed

lemma demo_ok: "device_ok demo_device"
  using demo_outputs_ok
  by (simp add: device_ok_def base_ok_def crossing_ok_def guard_ok_def relative_ok_def pointer_ok_def parts_ok_def demo_device_def
      cursor_crossing_zero_def i16_def) (simp add: demo_outputs_def)

text \<open>The cursor on the second screen of the Windows computer, a query not yet taken by the channel.\<close>

definition demo_waiting :: device_t where
  "demo_waiting = demo_device\<lparr>dv_active_output := 1, dv_relative_mouse := True, dv_cursor_crossing :=
     \<lparr>cx_phase = CURSOR_CROSSING_WAITING, cx_kind = CURSOR_CROSSING_SOURCE_REANCHOR, cx_direction = DH_DIRECTION_TOP, cx_output = 1,
      cx_query_id = 7, cx_target_screen = 2, cx_target_position = 0, cx_query_sent = False, cx_started_us = 4294967290\<rparr>\<rparr>"

lemma demo_waiting_ok: "device_ok demo_waiting"
  using demo_outputs_ok
  by (simp add: device_ok_def base_ok_def crossing_ok_def guard_ok_def relative_ok_def pointer_ok_def parts_ok_def demo_device_def demo_waiting_def
      i16_def Let_def) (simp add: demo_outputs_def)

theorem crossing_state_wellformed_witness:
  "device_ok (fold mouse_step [OutputHotkey True, Core0 (Readback 1 2 100 200 0), CrossingTask demo_env [] 5] demo_device)"
  by (rule crossing_state_wellformed [OF demo_ok])

definition demo_run :: "mouse_op list" where
  "demo_run = [CrossingTask demo_env [] 10, Core0 (Readback 1 1 0 0 6), CrossingTask demo_env [] 20000,
     CrossingTask (demo_env\<lparr>ev_query_result := CURSOR_QUERY_SENT\<rparr>) [] 29995, CrossingTask demo_env [] 40000,
     OutputHotkey True, CrossingTask demo_env [] 59994, CrossingTask demo_env [] 60000]"

theorem crossing_released_witness:
  "in_crossing demo_waiting \<and> map (waited_us demo_waiting) (task_times demo_run) = [16, 20006, 30001, 40006, 60000, 60006] \<and>
   (\<exists>k \<le> length demo_run. cx_phase (dv_cursor_crossing (fold mouse_step (take k demo_run) demo_waiting)) = CURSOR_CROSSING_IDLE)"
proof -
  have p: "in_crossing demo_waiting" by (simp add: demo_waiting_def)
  have t: "map (waited_us demo_waiting) (task_times demo_run) = [16, 20006, 30001, 40006, 60000, 60006]"
    by (simp add: demo_waiting_def demo_run_def waited_us_def)
  have "waited_us demo_waiting 29995 = 30001" "waited_us demo_waiting 60000 = 60006" by (simp_all add: demo_waiting_def waited_us_def)
  then show ?thesis
    using p t crossing_released [OF demo_waiting_ok p, of demo_run
      "[CrossingTask demo_env [] 10, Core0 (Readback 1 1 0 0 6), CrossingTask demo_env [] 20000]"
      "demo_env\<lparr>ev_query_result := CURSOR_QUERY_SENT\<rparr>" "[]" 29995
      "[CrossingTask demo_env [] 40000, OutputHotkey True, CrossingTask demo_env [] 59994]" demo_env "[]" 60000]
    by (simp add: demo_run_def)
qed

definition demo_arrived :: device_t where
  "demo_arrived = demo_device\<lparr>dv_active_output := 1, dv_relative_mouse := True, dv_pointer_y := 0, dv_output_arrival_guard := DH_DIRECTION_TOP\<rparr>"

definition demo_push :: mouse_values_t where
  "demo_push = \<lparr>mv_move_x = 0, mv_move_y = -300, mv_wheel = 0, mv_pan = 0, mv_buttons = 0\<rparr>"

definition demo_arrival :: "mouse_op list" where
  "demo_arrival = [MouseReport demo_env [] (demo_push\<lparr>mv_move_y := -150\<rparr>), Core0 (Readback 1 1 0 0 0), CrossingTask demo_env [] 5]"

definition demo_more :: mouse_op where
  "demo_more = MouseReport demo_env [] demo_push"

theorem arrival_does_not_bounce_witness:
  "stays_on_screen demo_arrival demo_arrived \<and> crossed demo_more (fold mouse_step demo_arrival demo_arrived) = DH_DIRECTION_TOP \<and>
   (went_inward DH_DIRECTION_TOP (demo_arrival @ [demo_more]) demo_arrived \<or>
    counts_back DH_DIRECTION_TOP (demo_arrival @ [demo_more]) > uint (dv_jump_threshold demo_arrived))"
proof -
  have s: "stays_on_screen demo_arrival demo_arrived" by code_simp
  have c: "crossed demo_more (fold mouse_step demo_arrival demo_arrived) = DH_DIRECTION_TOP" by code_simp
  have "went_inward DH_DIRECTION_TOP (demo_arrival @ [demo_more]) demo_arrived \<or>
      counts_back DH_DIRECTION_TOP (demo_arrival @ [demo_more]) > uint (dv_jump_threshold demo_arrived)"
    by (rule arrival_does_not_bounce [OF _ _ _ _ s c]) (simp_all add: demo_arrived_def demo_device_def cursor_crossing_zero_def)
  then show ?thesis using s c by blast
qed

lemma demo_seam: "seam_crossing demo_device DH_DIRECTION_RIGHT = (DH_SEAM_CROSSING_MAPPED, Some \<lparr>sn_screen_index = 2, sn_position = 32868\<rparr>)"
  by code_simp

theorem crossing_lands_mapped_witness:
  "seam_crossing demo_device DH_DIRECTION_RIGHT = (DH_SEAM_CROSSING_MAPPED, Some \<lparr>sn_screen_index = 2, sn_position = 32868\<rparr>) \<and>
   dv_active_output (cross_to_output demo_env demo_device DH_DIRECTION_RIGHT) = 1 \<and>
   dv_pointer_x (cross_to_output demo_env demo_device DH_DIRECTION_RIGHT) = 0"
proof -
  have "ev_helper_present demo_env (other_output (dv_active_output demo_device))" by (simp add: demo_env_def)
  from crossing_lands_mapped [OF demo_ok _ demo_seam this] show ?thesis
    using demo_seam by (simp add: Let_def demo_device_def other_output_def across_of_def entry_edge_def dh_direction_is_vertical_def)
qed

end
