(* ===== verification/DH_Sleep.thy ===== *)
theory DH_Sleep
  imports DH_Prelude
begin

text \<open>
  Sleep sync between the two computers (\<open>src/src/core/dh_sleep_sync.h\<close>, the tasks \<open>sleep_sync_task\<close>, \<open>sleep_sync_heard\<close> and \<open>wake_on_input\<close> of
  \<open>src/src/tasks.c\<close>, \<open>handle_sleep_sync_msg\<close> of \<open>src/src/handlers.c\<close>). The USB state, the answers of the queues and the clock are arguments;
  what the code sends is the list \<open>sb_effects\<close>; a system-control report that a full \<open>hid_queue_out\<close> refuses leaves no effect. Times are 64-bit words, compared by their signed difference as in the code.
\<close>

section \<open>Model: the sender's side\<close>

text \<open>Times are microsecond counts of 64 bits; \<open>elapsed\<close> is the signed difference the code compares.\<close>

definition elapsed :: "u64 \<Rightarrow> u64 \<Rightarrow> int" where
  "elapsed now since = sint (now - since)"

abbreviation (input) DH_SLEEP_SYNC_WAIT_US :: int where "DH_SLEEP_SYNC_WAIT_US \<equiv> 5000000"
abbreviation (input) DH_SLEEP_SYNC_OWED_WAKE_US :: int where "DH_SLEEP_SYNC_OWED_WAKE_US \<equiv> 30000000"
abbreviation (input) DH_SLEEP_SYNC_HOLD_US :: int where "DH_SLEEP_SYNC_HOLD_US \<equiv> 500000"
abbreviation (input) DH_SLEEP_SYNC_IMMEDIATELY :: byte where "DH_SLEEP_SYNC_IMMEDIATELY \<equiv> 255"
abbreviation (input) DH_SLEEP_SYNC_SLEEP :: byte where "DH_SLEEP_SYNC_SLEEP \<equiv> 1"
abbreviation (input) DH_SLEEP_SYNC_WAKE :: byte where "DH_SLEEP_SYNC_WAKE \<equiv> 2"

record dh_sleep_sync_t =
  ss_asleep :: bool
  ss_sent :: bool
  ss_asleep_since_us :: u64
  ss_woken :: bool
  ss_helper_asleep :: bool
  ss_tells_asleep :: bool
  ss_other_asleep :: bool
  ss_idle_pressed :: bool
  ss_idle_since_us :: u64
  ss_other_live :: bool
  ss_other_watched :: bool
  ss_other_awake_since_us :: u64

definition sleep_sync_zero :: dh_sleep_sync_t where
  "sleep_sync_zero = \<lparr>ss_asleep = False, ss_sent = False, ss_asleep_since_us = 0, ss_woken = False, ss_helper_asleep = False,
     ss_tells_asleep = False, ss_other_asleep = False, ss_idle_pressed = False, ss_idle_since_us = 0, ss_other_live = False,
     ss_other_watched = False, ss_other_awake_since_us = 0\<rparr>"

definition dh_sleep_sync_helper_says :: "dh_sleep_sync_t \<Rightarrow> bool \<Rightarrow> dh_sleep_sync_t" where
  "dh_sleep_sync_helper_says s asleep = s\<lparr>ss_helper_asleep := asleep\<rparr>"

definition dh_sleep_sync_asleep :: "dh_sleep_sync_t \<Rightarrow> bool \<Rightarrow> bool" where
  "dh_sleep_sync_asleep s suspended = (suspended \<or> ss_helper_asleep s)"

definition dh_sleep_sync_step :: "dh_sleep_sync_t \<Rightarrow> bool \<Rightarrow> bool \<Rightarrow> bool \<Rightarrow> u64 \<Rightarrow> dh_sleep_sync_t \<times> bool" where
  "dh_sleep_sync_step s on active suspended now_us =
     (if \<not> dh_sleep_sync_asleep s suspended then (s\<lparr>ss_asleep := False\<rparr>, False)
      else
        let s = (if \<not> ss_asleep s then s\<lparr>ss_asleep := True, ss_sent := False, ss_asleep_since_us := now_us\<rparr> else s);
            s = (if \<not> active \<or> ss_woken s then s\<lparr>ss_sent := True\<rparr> else s) in
        if ss_sent s \<or> \<not> on \<or> elapsed now_us (ss_asleep_since_us s) < DH_SLEEP_SYNC_WAIT_US then (s, False)
        else (s\<lparr>ss_sent := True\<rparr>, True))"

definition dh_sleep_sync_tell :: "dh_sleep_sync_t \<Rightarrow> bool \<Rightarrow> bool \<Rightarrow> u64 \<Rightarrow> dh_sleep_sync_t" where
  "dh_sleep_sync_tell s on active now_us =
     (if \<not> on \<or> \<not> ss_asleep s then s\<lparr>ss_tells_asleep := False\<rparr>
      else if \<not> active \<and> elapsed now_us (ss_asleep_since_us s) \<ge> DH_SLEEP_SYNC_WAIT_US then s\<lparr>ss_tells_asleep := True\<rparr>
      else s)"

definition dh_sleep_sync_heard :: "dh_sleep_sync_t \<Rightarrow> bool \<Rightarrow> dh_sleep_sync_t \<times> bool" where
  "dh_sleep_sync_heard s asleep = (s\<lparr>ss_other_asleep := asleep, ss_other_live := True\<rparr>, ss_other_asleep s \<noteq> asleep)"

definition dh_sleep_sync_lost :: "dh_sleep_sync_t \<Rightarrow> dh_sleep_sync_t" where
  "dh_sleep_sync_lost s = s\<lparr>ss_other_live := False\<rparr>"

definition dh_sleep_sync_other_asleep :: "dh_sleep_sync_t \<Rightarrow> bool \<Rightarrow> bool \<Rightarrow> bool" where
  "dh_sleep_sync_other_asleep s on active = (on \<and> active \<and> ss_other_asleep s)"

text \<open>The watch of the other computer that Immediately reads: the state after it, and whether the other one just fell asleep.\<close>

definition watch_other :: "dh_sleep_sync_t \<Rightarrow> bool \<Rightarrow> bool \<Rightarrow> u64 \<Rightarrow> dh_sleep_sync_t \<times> bool" where
  "watch_other s on active now_us =
     (let other = dh_sleep_sync_other_asleep s on active in
      if \<not> on \<or> \<not> active \<or> \<not> ss_other_live s then (s\<lparr>ss_other_watched := False\<rparr>, False)
      else if \<not> other \<and> \<not> ss_other_watched s then (s\<lparr>ss_other_watched := True, ss_other_awake_since_us := now_us\<rparr>, False)
      else if other \<and> ss_other_watched s
      then (s\<lparr>ss_other_watched := False\<rparr>, elapsed now_us (ss_other_awake_since_us s) \<ge> DH_SLEEP_SYNC_WAIT_US)
      else (s, False))"

definition dh_sleep_sync_idle ::
  "dh_sleep_sync_t \<Rightarrow> bool \<Rightarrow> byte \<Rightarrow> bool \<Rightarrow> bool \<Rightarrow> u64 \<Rightarrow> u64 \<Rightarrow> u64 \<Rightarrow> dh_sleep_sync_t \<times> bool" where
  "dh_sleep_sync_idle s on minutes active asleep last_input_us last_switch_us now_us =
     (let other = dh_sleep_sync_other_asleep s on active; (s, fell_asleep) = watch_other s on active now_us in
      if minutes = DH_SLEEP_SYNC_IMMEDIATELY then (s, fell_asleep \<and> \<not> asleep)
      else
        let idle_since_us = (if elapsed last_input_us last_switch_us > 0 then last_input_us else last_switch_us) in
        if ss_idle_pressed s \<and> ss_idle_since_us s = idle_since_us then (s, False)
        else if minutes = 0 \<or> asleep \<or> \<not> other \<or> elapsed now_us idle_since_us < uint minutes * 60000000 then (s, False)
        else (s\<lparr>ss_idle_pressed := True, ss_idle_since_us := idle_since_us\<rparr>, True))"

definition dh_sleep_sync_obey_sleep :: "bool \<Rightarrow> bool \<Rightarrow> bool \<Rightarrow> bool" where
  "dh_sleep_sync_obey_sleep on active asleep = (on \<and> \<not> active \<and> \<not> asleep)"

definition dh_sleep_sync_wake :: "dh_sleep_sync_t \<Rightarrow> bool \<Rightarrow> bool \<Rightarrow> bool \<Rightarrow> dh_sleep_sync_t \<times> bool" where
  "dh_sleep_sync_wake s on active suspended =
     (let asleep = dh_sleep_sync_asleep s suspended; s = s\<lparr>ss_helper_asleep := False\<rparr> in
      if \<not> asleep then (s\<lparr>ss_woken := False\<rparr>, False)
      else if ss_woken s \<or> \<not> on \<or> \<not> active then (s, False)
      else (s\<lparr>ss_woken := True\<rparr>, True))"

definition dh_sleep_sync_tap_key :: "dh_sleep_sync_t \<Rightarrow> bool \<Rightarrow> bool" where
  "dh_sleep_sync_tap_key s mac = (mac \<and> ss_helper_asleep s)"

section \<open>Model: the receiver's side\<close>

record dh_sleep_sync_peer_t =
  sp_pressed :: bool
  sp_pressed_at_us :: u64
  sp_owed :: bool
  sp_held :: bool

definition dh_sleep_sync_peer_press :: "u64 \<Rightarrow> dh_sleep_sync_peer_t" where
  "dh_sleep_sync_peer_press now_us = \<lparr>sp_pressed = True, sp_pressed_at_us = now_us, sp_owed = False, sp_held = True\<rparr>"

definition dh_sleep_sync_peer_release :: "dh_sleep_sync_peer_t \<Rightarrow> u64 \<Rightarrow> dh_sleep_sync_peer_t \<times> bool" where
  "dh_sleep_sync_peer_release p now_us =
     (if \<not> sp_held p \<or> elapsed now_us (sp_pressed_at_us p) < DH_SLEEP_SYNC_HOLD_US then (p, False)
      else (p\<lparr>sp_held := False\<rparr>, True))"

definition dh_sleep_sync_peer_wake :: "dh_sleep_sync_peer_t \<Rightarrow> u64 \<Rightarrow> dh_sleep_sync_peer_t" where
  "dh_sleep_sync_peer_wake p now_us =
     (if sp_pressed p \<and> elapsed now_us (sp_pressed_at_us p) < DH_SLEEP_SYNC_OWED_WAKE_US then p\<lparr>sp_owed := True\<rparr> else p)"

definition dh_sleep_sync_peer_step :: "dh_sleep_sync_peer_t \<Rightarrow> bool \<Rightarrow> u64 \<Rightarrow> dh_sleep_sync_peer_t \<times> bool" where
  "dh_sleep_sync_peer_step p suspended now_us =
     (if \<not> sp_owed p then (p, False)
      else if elapsed now_us (sp_pressed_at_us p) \<ge> DH_SLEEP_SYNC_OWED_WAKE_US then (p\<lparr>sp_owed := False\<rparr>, False)
      else (p, suspended))"

section \<open>Model: the tasks and handlers around them\<close>

text \<open>What the firmware is told or asked; \<open>SYSTEM_CONTROL_SLEEP\<close> is system-control code 2. \<open>NudgePointer\<close> is the two calls of
  \<open>queue_mouse_report\<close> for a wake, out and back.\<close>

datatype sleep_effect =
    SleepMsgSent byte
  | SystemKey byte
  | RemoteWakeup
  | SleepTrace nat int
  | NudgePointer

record sleep_board =
  sb_sync :: dh_sleep_sync_t
  sb_peer :: dh_sleep_sync_peer_t
  sb_sleep_sync :: bool
  sb_sleep_idle_min :: byte
  sb_active :: bool
  sb_last_activity :: u64
  sb_last_switch_time :: u64
  sb_effects :: "sleep_effect list"

definition sleep_emit :: "sleep_effect \<Rightarrow> sleep_board \<Rightarrow> sleep_board" where
  "sleep_emit e b = b\<lparr>sb_effects := sb_effects b @ [e]\<rparr>"

text \<open>A system-control report for the computer: dropped without a word when \<open>hid_queue_out\<close> is full (\<open>room\<close> false).\<close>

definition queue_system_packet :: "bool \<Rightarrow> byte \<Rightarrow> sleep_board \<Rightarrow> sleep_board" where
  "queue_system_packet room v b = (if room then sleep_emit (SystemKey v) b else b)"

text \<open>The first part of \<open>sleep_sync_task\<close>: the message to the peer, which a full queue (\<open>queued\<close> false) leaves for the next pass.\<close>

definition tell_peer :: "bool \<Rightarrow> bool \<Rightarrow> u64 \<Rightarrow> sleep_board \<Rightarrow> sleep_board" where
  "tell_peer suspended queued now b =
     (let (s, due) = dh_sleep_sync_step (sb_sync b) (sb_sleep_sync b) (sb_active b) suspended now; b = b\<lparr>sb_sync := s\<rparr> in
      if \<not> due then b
      else if queued then sleep_emit (SleepTrace 2 0) (sleep_emit (SleepMsgSent DH_SLEEP_SYNC_SLEEP) b)
      else b\<lparr>sb_sync := s\<lparr>ss_sent := False\<rparr>\<rparr>)"

text \<open>The whole task. At most one of its two system-control reports is queued in a pass, so one answer of the queue is enough.\<close>

definition sleep_sync_task :: "bool \<Rightarrow> bool \<Rightarrow> bool \<Rightarrow> u64 \<Rightarrow> sleep_board \<Rightarrow> sleep_board" where
  "sleep_sync_task suspended queued room now b =
     (let b = tell_peer suspended queued now b;
          b = b\<lparr>sb_sync := dh_sleep_sync_tell (sb_sync b) (sb_sleep_sync b) (sb_active b) now\<rparr>;
          (s, idle) = dh_sleep_sync_idle (sb_sync b) (sb_sleep_sync b) (sb_sleep_idle_min b) (sb_active b)
                        (dh_sleep_sync_asleep (sb_sync b) suspended) (sb_last_activity b) (sb_last_switch_time b) now;
          b = b\<lparr>sb_sync := s\<rparr>;
          b = (if idle
               then sleep_emit (SleepTrace 13 (uint (sb_sleep_idle_min b)))
                      ((queue_system_packet room 2 b)\<lparr>sb_peer := dh_sleep_sync_peer_press now\<rparr>)
               else b);
          (p, wake) = dh_sleep_sync_peer_step (sb_peer b) suspended now;
          b = (if wake then sleep_emit RemoteWakeup (b\<lparr>sb_peer := p\<rparr>) else b\<lparr>sb_peer := p\<rparr>);
          (p, release) = dh_sleep_sync_peer_release (sb_peer b) now in
      if release then queue_system_packet room 0 (b\<lparr>sb_peer := p\<rparr>) else b\<lparr>sb_peer := p\<rparr>)"

definition sleep_sync_heard :: "bool \<Rightarrow> sleep_board \<Rightarrow> sleep_board" where
  "sleep_sync_heard other_asleep b =
     (let (s, changed) = dh_sleep_sync_heard (sb_sync b) other_asleep; b = b\<lparr>sb_sync := s\<rparr> in
      if changed then sleep_emit (SleepTrace (if other_asleep then 11 else 12) (if sb_active b then 1 else 0)) b else b)"

definition wake_on_input :: "bool \<Rightarrow> bool \<Rightarrow> sleep_board \<Rightarrow> sleep_board" where
  "wake_on_input suspended queued b =
     (let b = (if suspended then sleep_emit RemoteWakeup b else b);
          (s, due) = dh_sleep_sync_wake (sb_sync b) (sb_sleep_sync b) (sb_active b) suspended; b = b\<lparr>sb_sync := s\<rparr> in
      if \<not> due then b
      else if queued
      then sleep_emit (SleepTrace 4 (if suspended then 1 else 0)) (sleep_emit (SleepMsgSent DH_SLEEP_SYNC_WAKE) b)
      else b\<lparr>sb_sync := s\<lparr>ss_woken := False\<rparr>\<rparr>)"

definition handle_sleep_sync_msg :: "byte \<Rightarrow> bool \<Rightarrow> bool \<Rightarrow> bool \<Rightarrow> u64 \<Rightarrow> sleep_board \<Rightarrow> sleep_board" where
  "handle_sleep_sync_msg payload suspended accepted room now b =
     (if payload = DH_SLEEP_SYNC_WAKE
      then let b = (if suspended then sleep_emit RemoteWakeup b else b);
               b = sleep_emit (SleepTrace 5 ((if suspended then 1 else 0) + (if suspended \<and> accepted then 2 else 0))) b;
               b = b\<lparr>sb_peer := dh_sleep_sync_peer_wake (sb_peer b) now\<rparr> in
        sleep_emit NudgePointer b
      else if payload \<noteq> DH_SLEEP_SYNC_SLEEP then b
      else
        let obey = dh_sleep_sync_obey_sleep (sb_sleep_sync b) (sb_active b) (dh_sleep_sync_asleep (sb_sync b) suspended);
            b = sleep_emit (SleepTrace 3 (if obey then 1 else 0)) b in
        if \<not> obey then b else (queue_system_packet room 2 b)\<lparr>sb_peer := dh_sleep_sync_peer_press now\<rparr>)"

section \<open>Runs of one board\<close>

text \<open>What happens at a board, in any order: a pass of the task, input waiting for the computer, the word of the helper, the peer's
  heartbeat or its silence, a message of the peer, a change of the settings, and a switch of the active output.\<close>

datatype sleep_event =
    Pass bool bool bool u64
  | Input bool bool
  | HelperSays bool
  | Heartbeat bool
  | PeerLost
  | PeerMsg byte bool bool bool u64
  | Settings bool byte
  | Switched bool u64
  | Activity u64

fun sleep_step :: "sleep_event \<Rightarrow> sleep_board \<Rightarrow> sleep_board" where
  "sleep_step (Pass suspended queued room now) b = sleep_sync_task suspended queued room now b"
| "sleep_step (Input suspended queued) b = wake_on_input suspended queued b"
| "sleep_step (HelperSays asleep) b = b\<lparr>sb_sync := dh_sleep_sync_helper_says (sb_sync b) asleep\<rparr>"
| "sleep_step (Heartbeat asleep) b = sleep_sync_heard asleep b"
| "sleep_step PeerLost b = (let b = sleep_sync_heard False b in b\<lparr>sb_sync := dh_sleep_sync_lost (sb_sync b)\<rparr>)"
| "sleep_step (PeerMsg payload suspended accepted room now) b = handle_sleep_sync_msg payload suspended accepted room now b"
| "sleep_step (Settings on minutes) b = b\<lparr>sb_sleep_sync := on, sb_sleep_idle_min := minutes\<rparr>"
| "sleep_step (Switched active now) b = b\<lparr>sb_active := active, sb_last_switch_time := now\<rparr>"
| "sleep_step (Activity now) b = b\<lparr>sb_last_activity := now\<rparr>"

fun sleep_run :: "sleep_event list \<Rightarrow> sleep_board \<Rightarrow> sleep_board" where
  "sleep_run [] b = b"
| "sleep_run (e # es) b = sleep_run es (sleep_step e b)"

text \<open>The messages among the effects.\<close>

definition msgs :: "sleep_effect list \<Rightarrow> byte list" where
  "msgs es = concat (map (\<lambda>e. case e of SleepMsgSent v \<Rightarrow> [v] | _ \<Rightarrow> []) es)"

lemma msgs_simps [simp]:
  "msgs [] = []" "msgs (SleepMsgSent v # es) = v # msgs es" "msgs (SystemKey v # es) = msgs es" "msgs (RemoteWakeup # es) = msgs es"
  "msgs (SleepTrace i x # es) = msgs es" "msgs (NudgePointer # es) = msgs es" "msgs (es @ fs) = msgs es @ msgs fs"
  by (simp_all add: msgs_def)

section \<open>What the peer should be told\<close>

text \<open>The contract, over the events alone: the settings as last set, what the helper last said (input takes it back), whether input has
  sent a wake since input last found the computer awake, and the passes of the task that found the computer asleep since one last found it awake:
  the time, whether the board was the active output, whether a wake had been sent, and whether sleep was sent.\<close>

type_synonym sleep_pass = "u64 \<times> bool \<times> bool \<times> bool"

record sleep_spec =
  sq_on :: bool
  sq_active :: bool
  sq_helper :: bool
  sq_woken :: bool
  sq_passes :: "sleep_pass list"

text \<open>Sleep is due when the setting is on, this sleep has lasted five seconds since the first pass that saw it, and in every pass of it,
  this one included, the board was the active output, no wake had been sent, and sleep had not been sent.\<close>

definition told_now :: "bool \<Rightarrow> bool \<Rightarrow> bool \<Rightarrow> u64 \<Rightarrow> sleep_pass list \<Rightarrow> bool" where
  "told_now on active woken now passes \<longleftrightarrow>
     on \<and> active \<and> \<not> woken \<and> (\<forall>(t, active, woken, told) \<in> set passes. active \<and> \<not> woken \<and> \<not> told) \<and>
     elapsed now (fst (hd (passes @ [(now, active, woken, False)]))) \<ge> DH_SLEEP_SYNC_WAIT_US"

fun spec_says :: "sleep_event \<Rightarrow> sleep_spec \<Rightarrow> byte list" where
  "spec_says (Pass suspended queued room now) S =
     (if (suspended \<or> sq_helper S) \<and> queued \<and> told_now (sq_on S) (sq_active S) (sq_woken S) now (sq_passes S)
      then [DH_SLEEP_SYNC_SLEEP] else [])"
| "spec_says (Input suspended queued) S =
     (if (suspended \<or> sq_helper S) \<and> queued \<and> sq_on S \<and> sq_active S \<and> \<not> sq_woken S then [DH_SLEEP_SYNC_WAKE] else [])"
| "spec_says _ S = []"

fun spec_next :: "sleep_event \<Rightarrow> sleep_spec \<Rightarrow> sleep_spec" where
  "spec_next (Pass suspended queued room now) S =
     S\<lparr>sq_passes := (if suspended \<or> sq_helper S
        then sq_passes S @ [(now, sq_active S, sq_woken S, spec_says (Pass suspended queued room now) S \<noteq> [])] else [])\<rparr>"
| "spec_next (Input suspended queued) S =
     S\<lparr>sq_helper := False,
       sq_woken := (suspended \<or> sq_helper S) \<and> (sq_woken S \<or> spec_says (Input suspended queued) S \<noteq> [])\<rparr>"
| "spec_next (HelperSays asleep) S = S\<lparr>sq_helper := asleep\<rparr>"
| "spec_next (Settings on minutes) S = S\<lparr>sq_on := on\<rparr>"
| "spec_next (Switched active now) S = S\<lparr>sq_active := active\<rparr>"
| "spec_next _ S = S"

fun spec_msgs :: "sleep_event list \<Rightarrow> sleep_spec \<Rightarrow> byte list" where
  "spec_msgs [] S = []"
| "spec_msgs (e # es) S = spec_says e S @ spec_msgs es (spec_next e S)"

definition spec_boot :: "bool \<Rightarrow> bool \<Rightarrow> sleep_spec" where
  "spec_boot on active = \<lparr>sq_on = on, sq_active = active, sq_helper = False, sq_woken = False, sq_passes = []\<rparr>"

section \<open>The effects of one event\<close>

lemma emit_sel [simp]:
  "sb_effects (sleep_emit e b) = sb_effects b @ [e]" "sb_sync (sleep_emit e b) = sb_sync b" "sb_peer (sleep_emit e b) = sb_peer b"
  "sb_active (sleep_emit e b) = sb_active b" "sb_sleep_sync (sleep_emit e b) = sb_sleep_sync b"
  by (simp_all add: sleep_emit_def)

lemma queue_system_sel [simp]:
  "sb_sync (queue_system_packet room v b) = sb_sync b" "sb_peer (queue_system_packet room v b) = sb_peer b"
  "sb_active (queue_system_packet room v b) = sb_active b" "sb_sleep_sync (queue_system_packet room v b) = sb_sleep_sync b"
  "sb_effects (queue_system_packet room v b) = sb_effects b @ (if room then [SystemKey v] else [])"
  by (simp_all add: queue_system_packet_def)

text \<open>The sender's part of a pass: what the step leaves, and that nothing after it in the pass touches it or sends to the peer.\<close>

abbreviation sleep_core :: "dh_sleep_sync_t \<Rightarrow> bool \<times> bool \<times> u64 \<times> bool \<times> bool" where
  "sleep_core s \<equiv> (ss_asleep s, ss_sent s, ss_asleep_since_us s, ss_woken s, ss_helper_asleep s)"

lemma watch_other_core: "sleep_core (fst (watch_other s on active now)) = sleep_core s"
  by (simp add: watch_other_def Let_def)

lemma idle_core: "sleep_core (fst (dh_sleep_sync_idle s on m active asleep li ls now)) = sleep_core s"
  using watch_other_core[of s on active now]
  by (cases "watch_other s on active now") (simp add: dh_sleep_sync_idle_def Let_def)

lemma tell_core: "sleep_core (dh_sleep_sync_tell s on active now) = sleep_core s"
  by (simp add: dh_sleep_sync_tell_def)

text \<open>The rest of a pass, from \<open>tell_peer\<close> on.\<close>

definition pass_rest :: "bool \<Rightarrow> bool \<Rightarrow> u64 \<Rightarrow> sleep_board \<Rightarrow> sleep_board" where
  "pass_rest suspended room now b =
     (let b = b\<lparr>sb_sync := dh_sleep_sync_tell (sb_sync b) (sb_sleep_sync b) (sb_active b) now\<rparr>;
          (s, idle) = dh_sleep_sync_idle (sb_sync b) (sb_sleep_sync b) (sb_sleep_idle_min b) (sb_active b)
                        (dh_sleep_sync_asleep (sb_sync b) suspended) (sb_last_activity b) (sb_last_switch_time b) now;
          b = b\<lparr>sb_sync := s\<rparr>;
          b = (if idle
               then sleep_emit (SleepTrace 13 (uint (sb_sleep_idle_min b)))
                      ((queue_system_packet room 2 b)\<lparr>sb_peer := dh_sleep_sync_peer_press now\<rparr>)
               else b);
          (p, wake) = dh_sleep_sync_peer_step (sb_peer b) suspended now;
          b = (if wake then sleep_emit RemoteWakeup (b\<lparr>sb_peer := p\<rparr>) else b\<lparr>sb_peer := p\<rparr>);
          (p, release) = dh_sleep_sync_peer_release (sb_peer b) now in
      if release then queue_system_packet room 0 (b\<lparr>sb_peer := p\<rparr>) else b\<lparr>sb_peer := p\<rparr>)"

lemma sleep_sync_task_parts: "sleep_sync_task suspended queued room now b = pass_rest suspended room now (tell_peer suspended queued now b)"
  unfolding sleep_sync_task_def pass_rest_def by (simp add: Let_def)

lemma pass_rest_core:
  "sleep_core (sb_sync (pass_rest suspended room now b)) = sleep_core (sb_sync b) \<and>
   sb_active (pass_rest suspended room now b) = sb_active b \<and> sb_sleep_sync (pass_rest suspended room now b) = sb_sleep_sync b \<and>
   msgs (sb_effects (pass_rest suspended room now b)) = msgs (sb_effects b)"
proof -
  let ?s = "dh_sleep_sync_tell (sb_sync b) (sb_sleep_sync b) (sb_active b) now"
  obtain s idle where i: "dh_sleep_sync_idle ?s (sb_sleep_sync b) (sb_sleep_idle_min b) (sb_active b)
      (dh_sleep_sync_asleep ?s suspended) (sb_last_activity b) (sb_last_switch_time b) now = (s, idle)" by fastforce
  have "sleep_core s = sleep_core (sb_sync b)"
    using idle_core[of ?s "sb_sleep_sync b" "sb_sleep_idle_min b" "sb_active b" "dh_sleep_sync_asleep ?s suspended"
        "sb_last_activity b" "sb_last_switch_time b" now] tell_core[of "sb_sync b" "sb_sleep_sync b" "sb_active b" now] i by simp
  then show ?thesis by (auto simp: pass_rest_def i Let_def split: prod.splits)
qed

lemma tell_peer_exact:
  "tell_peer suspended queued now b =
     (let (s, due) = dh_sleep_sync_step (sb_sync b) (sb_sleep_sync b) (sb_active b) suspended now in
      if due \<and> queued
      then b\<lparr>sb_sync := s, sb_effects := sb_effects b @ [SleepMsgSent DH_SLEEP_SYNC_SLEEP, SleepTrace 2 0]\<rparr>
      else if due then b\<lparr>sb_sync := s\<lparr>ss_sent := False\<rparr>\<rparr> else b\<lparr>sb_sync := s\<rparr>)"
  by (simp add: tell_peer_def sleep_emit_def Let_def split: prod.split)

lemma pass_msgs:
  "msgs (sb_effects (sleep_step (Pass suspended queued room now) b)) = msgs (sb_effects b) @
     (if snd (dh_sleep_sync_step (sb_sync b) (sb_sleep_sync b) (sb_active b) suspended now) \<and> queued then [DH_SLEEP_SYNC_SLEEP] else [])"
  using pass_rest_core[of suspended room now "tell_peer suspended queued now b"]
  by (simp add: sleep_sync_task_parts) (auto simp: tell_peer_exact Let_def split: prod.splits)

section \<open>The board follows the contract\<close>

definition passes_inv :: "dh_sleep_sync_t \<Rightarrow> sleep_pass list \<Rightarrow> bool" where
  "passes_inv s passes \<longleftrightarrow>
     (case passes of
        [] \<Rightarrow> \<not> ss_asleep s
      | (t, _) # _ \<Rightarrow>
          ss_asleep s \<and> ss_asleep_since_us s = t \<and> (ss_sent s \<longleftrightarrow> (\<exists>(t, active, woken, told) \<in> set passes. \<not> active \<or> woken \<or> told)))"

definition follows :: "sleep_board \<Rightarrow> sleep_spec \<Rightarrow> bool" where
  "follows b S \<longleftrightarrow> sb_sleep_sync b = sq_on S \<and> sb_active b = sq_active S \<and> ss_helper_asleep (sb_sync b) = sq_helper S \<and>
     ss_woken (sb_sync b) = sq_woken S \<and> passes_inv (sb_sync b) (sq_passes S)"

lemma elapsed_self [simp]: "elapsed now now = 0"
  by (simp add: elapsed_def)

lemma step_follows:
  assumes "passes_inv s passes"
  shows "snd (dh_sleep_sync_step s on active suspended now) \<longleftrightarrow>
     dh_sleep_sync_asleep s suspended \<and> told_now on active (ss_woken s) now passes"
proof (cases passes)
  case Nil
  then show ?thesis using assms by (auto simp: passes_inv_def dh_sleep_sync_step_def told_now_def Let_def)
next
  case (Cons p ps)
  then show ?thesis using assms
    by (cases p) (auto simp: passes_inv_def dh_sleep_sync_step_def told_now_def Let_def split: if_splits)
qed

lemma step_state:
  "let s' = fst (dh_sleep_sync_step s on active suspended now) in
   ss_helper_asleep s' = ss_helper_asleep s \<and> ss_woken s' = ss_woken s \<and>
   (if \<not> dh_sleep_sync_asleep s suspended then \<not> ss_asleep s'
    else ss_asleep s' \<and> ss_asleep_since_us s' = (if ss_asleep s then ss_asleep_since_us s else now) \<and>
         (ss_sent s' \<longleftrightarrow> (ss_asleep s \<and> ss_sent s) \<or> \<not> active \<or> ss_woken s \<or> snd (dh_sleep_sync_step s on active suspended now)))"
  by (auto simp: dh_sleep_sync_step_def Let_def)

lemma pass_core:
  "let s = sb_sync b; (s', due) = dh_sleep_sync_step s (sb_sleep_sync b) (sb_active b) suspended now;
       b' = sleep_step (Pass suspended queued room now) b; s'' = sb_sync b' in
   sb_active b' = sb_active b \<and> sb_sleep_sync b' = sb_sleep_sync b \<and>
   ss_asleep s'' = ss_asleep s' \<and> ss_asleep_since_us s'' = ss_asleep_since_us s' \<and>
   ss_helper_asleep s'' = ss_helper_asleep s' \<and> ss_woken s'' = ss_woken s' \<and>
   ss_sent s'' = (if due \<and> \<not> queued then False else ss_sent s')"
  using pass_rest_core[of suspended room now "tell_peer suspended queued now b"]
  by (auto simp: sleep_sync_task_parts tell_peer_exact Let_def split: prod.splits)

lemma pass_inv:
  assumes "passes_inv s passes" and "due = snd (dh_sleep_sync_step s on active suspended now)"
    and "s' = fst (dh_sleep_sync_step s on active suspended now)"
    and "ss_asleep s'' = ss_asleep s'" "ss_asleep_since_us s'' = ss_asleep_since_us s'"
    and "ss_sent s'' = (if due \<and> \<not> queued then False else ss_sent s')"
  shows "passes_inv s'' (if dh_sleep_sync_asleep s suspended then passes @ [(now, active, ss_woken s, due \<and> queued)] else [])"
proof -
  have state: "if \<not> dh_sleep_sync_asleep s suspended then \<not> ss_asleep s'
     else ss_asleep s' \<and> ss_asleep_since_us s' = (if ss_asleep s then ss_asleep_since_us s else now) \<and>
          (ss_sent s' \<longleftrightarrow> (ss_asleep s \<and> ss_sent s) \<or> \<not> active \<or> ss_woken s \<or> due)"
    using step_state[of s on active suspended now] by (auto simp: Let_def assms(2,3))
  have due: "due \<longleftrightarrow> dh_sleep_sync_asleep s suspended \<and> told_now on active (ss_woken s) now passes"
    using step_follows[OF assms(1)] assms(2) by simp
  show ?thesis
  proof (cases "dh_sleep_sync_asleep s suspended")
    case False
    with state assms(4) show ?thesis by (simp add: passes_inv_def)
  next
    case asleep: True
    show ?thesis
    proof (cases passes)
      case Nil
      with assms asleep state due show ?thesis by (auto simp: passes_inv_def told_now_def)
    next
      case (Cons p ps)
      obtain t a w tl where p: "p = (t, a, w, tl)" by (metis prod_cases4)
      have prior: "ss_sent s \<longleftrightarrow> (\<exists>(t, active, woken, told) \<in> set passes. \<not> active \<or> woken \<or> told)"
        and woke: "ss_asleep s" "ss_asleep_since_us s = t"
        using assms(1) by (simp_all add: passes_inv_def Cons p)
      have fresh: "due \<Longrightarrow> \<not> ss_sent s \<and> active \<and> \<not> ss_woken s" using due prior by (auto simp: told_now_def)
      have "ss_sent s'' \<longleftrightarrow> ss_sent s \<or> \<not> active \<or> ss_woken s \<or> due \<and> queued"
        using assms(6) state asleep woke fresh by auto
      with assms(4,5) state asleep woke prior show ?thesis by (auto simp: passes_inv_def Cons p)
    qed
  qed
qed

lemma pass_follows:
  assumes "follows b S" and e_def: "e = Pass suspended queued room now"
  shows "follows (sleep_step e b) (spec_next e S) \<and> msgs (sb_effects (sleep_step e b)) = msgs (sb_effects b) @ spec_says e S"
proof -
  let ?s = "sb_sync b"
  obtain s' due where st: "dh_sleep_sync_step ?s (sb_sleep_sync b) (sb_active b) suspended now = (s', due)" by fastforce
  have f: "sb_sleep_sync b = sq_on S" "sb_active b = sq_active S" "ss_helper_asleep ?s = sq_helper S" "ss_woken ?s = sq_woken S"
    "passes_inv ?s (sq_passes S)" using assms(1) by (simp_all add: follows_def)
  have a: "dh_sleep_sync_asleep ?s suspended \<longleftrightarrow> suspended \<or> sq_helper S" by (simp add: dh_sleep_sync_asleep_def f)
  have due: "due \<longleftrightarrow> (suspended \<or> sq_helper S) \<and> told_now (sq_on S) (sq_active S) (sq_woken S) now (sq_passes S)"
    using step_follows[OF f(5), of "sb_sleep_sync b" "sb_active b" suspended now] st a f by simp
  have says: "spec_says e S = (if due \<and> queued then [DH_SLEEP_SYNC_SLEEP] else [])" by (auto simp: e_def due)
  note core = pass_core[of b suspended now queued room, unfolded st Let_def prod.case]
  have "sq_passes (spec_next e S) = (if dh_sleep_sync_asleep ?s suspended then sq_passes S @ [(now, sb_active b, ss_woken ?s, due \<and> queued)] else [])"
    using says a f(2,4) by (simp add: e_def del: spec_says.simps)
  moreover have "passes_inv (sb_sync (sleep_step e b))
      (if dh_sleep_sync_asleep ?s suspended then sq_passes S @ [(now, sb_active b, ss_woken ?s, due \<and> queued)] else [])"
    by (rule pass_inv[OF f(5), where on = "sb_sleep_sync b" and s' = s']) (use core st in \<open>simp_all add: e_def del: sleep_step.simps\<close>)
  moreover have "ss_helper_asleep s' = sq_helper S" "ss_woken s' = sq_woken S"
    using step_state[of ?s "sb_sleep_sync b" "sb_active b" suspended now] st f(3,4) by (simp_all add: Let_def)
  ultimately have "follows (sleep_step e b) (spec_next e S)"
    using core f(1,2) by (simp add: follows_def e_def del: sleep_step.simps spec_says.simps)
  moreover have "msgs (sb_effects (sleep_step e b)) = msgs (sb_effects b) @ spec_says e S"
    using pass_msgs[of suspended queued room now b] st says by (simp add: e_def)
  ultimately show ?thesis by simp
qed

lemma passes_inv_fields [simp]:
  "passes_inv (s\<lparr>ss_helper_asleep := x\<rparr>) passes = passes_inv s passes" "passes_inv (s\<lparr>ss_woken := x\<rparr>) passes = passes_inv s passes"
  "passes_inv (s\<lparr>ss_other_asleep := x\<rparr>) passes = passes_inv s passes" "passes_inv (s\<lparr>ss_other_live := x\<rparr>) passes = passes_inv s passes"
  by (simp_all add: passes_inv_def split: list.split)

lemma input_follows:
  assumes "follows b S" and e_def: "e = Input suspended queued"
  shows "follows (sleep_step e b) (spec_next e S) \<and> msgs (sb_effects (sleep_step e b)) = msgs (sb_effects b) @ spec_says e S"
  using assms(1)
  by (cases "suspended \<or> sq_helper S"; cases "sq_woken S \<or> \<not> sq_on S \<or> \<not> sq_active S"; cases queued)
    (auto simp: e_def follows_def wake_on_input_def dh_sleep_sync_wake_def dh_sleep_sync_asleep_def Let_def)

lemma event_follows:
  assumes "follows b S"
  shows "follows (sleep_step e b) (spec_next e S) \<and> msgs (sb_effects (sleep_step e b)) = msgs (sb_effects b) @ spec_says e S"
proof (cases e)
  case (Pass suspended queued room now)
  then show ?thesis by (rule pass_follows[OF assms])
next
  case (Input suspended queued)
  then show ?thesis by (rule input_follows[OF assms])
qed (use assms in \<open>simp_all add: follows_def dh_sleep_sync_helper_says_def sleep_sync_heard_def dh_sleep_sync_heard_def dh_sleep_sync_lost_def
      handle_sleep_sync_msg_def Let_def\<close>)

lemma run_follows: "follows b S \<Longrightarrow> msgs (sb_effects (sleep_run es b)) = msgs (sb_effects b) @ spec_msgs es S"
proof (induction es arbitrary: b S)
  case (Cons e es)
  have "follows (sleep_step e b) (spec_next e S) \<and> msgs (sb_effects (sleep_step e b)) = msgs (sb_effects b) @ spec_says e S"
    by (rule event_follows[OF Cons.prems])
  then show ?case using Cons.IH[of "sleep_step e b" "spec_next e S"] by simp
qed simp

text \<open>The board at reset.\<close>

definition sleep_boot :: "bool \<Rightarrow> byte \<Rightarrow> bool \<Rightarrow> sleep_board" where
  "sleep_boot on minutes active = \<lparr>sb_sync = sleep_sync_zero,
     sb_peer = \<lparr>sp_pressed = False, sp_pressed_at_us = 0, sp_owed = False, sp_held = False\<rparr>, sb_sleep_sync = on,
     sb_sleep_idle_min = minutes, sb_active = active, sb_last_activity = 0, sb_last_switch_time = 0, sb_effects = []\<rparr>"

lemma boot_follows: "follows (sleep_boot on minutes active) (spec_boot on active)"
  by (simp add: follows_def passes_inv_def sleep_boot_def spec_boot_def sleep_sync_zero_def)

section \<open>The sleep key\<close>

text \<open>The last system-control code the computer was sent.\<close>

definition key_after :: "byte \<Rightarrow> sleep_effect \<Rightarrow> byte" where
  "key_after k e = (case e of SystemKey v \<Rightarrow> v | _ \<Rightarrow> k)"

definition last_key :: "sleep_effect list \<Rightarrow> byte" where
  "last_key es = foldl key_after 0 es"

lemma key_after_simps [simp]:
  "key_after k (SystemKey v) = v" "key_after k (SleepMsgSent m) = k" "key_after k RemoteWakeup = k"
  "key_after k (SleepTrace i x) = k" "key_after k NudgePointer = k"
  by (simp_all add: key_after_def)

lemma last_key_append [simp]: "last_key (es @ fs) = foldl key_after (last_key es) fs"
  by (simp add: last_key_def)

text \<open>While \<open>hid_queue_out\<close> has room, the key the computer was last sent is the one the board believes it holds.\<close>

definition key_inv :: "sleep_board \<Rightarrow> bool" where
  "key_inv b \<longleftrightarrow> last_key (sb_effects b) = (if sp_held (sb_peer b) then 2 else 0)"

fun has_room :: "sleep_event \<Rightarrow> bool" where
  "has_room (Pass suspended queued room now) = room"
| "has_room (PeerMsg payload suspended accepted room now) = room"
| "has_room _ = True"

lemmas peer_defs = dh_sleep_sync_peer_press_def dh_sleep_sync_peer_release_def dh_sleep_sync_peer_wake_def dh_sleep_sync_peer_step_def

lemma tell_peer_key: "key_inv b \<Longrightarrow> key_inv (tell_peer suspended queued now b)"
  by (simp add: key_inv_def tell_peer_def Let_def split: prod.split)

lemma pass_rest_key:
  assumes "key_inv b"
  shows "key_inv (pass_rest suspended True now b) \<and>
     (sp_held (sb_peer (pass_rest suspended True now b)) \<longrightarrow>
        elapsed now (sp_pressed_at_us (sb_peer (pass_rest suspended True now b))) < DH_SLEEP_SYNC_HOLD_US)"
  using assms by (auto simp: pass_rest_def key_inv_def peer_defs Let_def split: prod.splits if_splits)

lemma step_key: "key_inv b \<Longrightarrow> has_room e \<Longrightarrow> key_inv (sleep_step e b)"
proof (cases e)
  case (Pass suspended queued room now)
  then show "key_inv b \<Longrightarrow> has_room e \<Longrightarrow> ?thesis" using pass_rest_key tell_peer_key by (simp add: sleep_sync_task_parts)
qed (auto simp: key_inv_def wake_on_input_def sleep_sync_heard_def handle_sleep_sync_msg_def peer_defs Let_def split: prod.splits if_splits)

lemma run_key: "key_inv b \<Longrightarrow> list_all has_room es \<Longrightarrow> key_inv (sleep_run es b)"
  by (induction es arbitrary: b) (simp_all add: step_key)

text \<open>So with room in the queue throughout, each pass leaves the key released, unless it was pressed less than half a second before.\<close>

lemma pass_releases:
  assumes "list_all has_room es"
  shows "let b' = sleep_step (Pass suspended queued True now) (sleep_run es (sleep_boot on minutes active)) in
     last_key (sb_effects b') = 0 \<or>
     last_key (sb_effects b') = 2 \<and> elapsed now (sp_pressed_at_us (sb_peer b')) < DH_SLEEP_SYNC_HOLD_US"
proof -
  have "key_inv (sleep_boot on minutes active)" by (simp add: key_inv_def sleep_boot_def last_key_def)
  note k = run_key[OF this assms]
  show ?thesis
    using pass_rest_key[OF tell_peer_key[OF k]] by (auto simp: sleep_sync_task_parts key_inv_def Let_def)
qed

text \<open>Without room it need not be: a release refused by a full queue is forgotten, and the key stays down whatever passes follow.\<close>

lemma release_lost:
  "last_key (sb_effects (sleep_run [PeerMsg DH_SLEEP_SYNC_SLEEP False False True 0, Pass False True True 100000, Pass False True False 600000,
      Pass False True True 700000, Pass False True True 60000000] (sleep_boot True 0 False))) = 2"
  by code_simp

section \<open>Two boards\<close>

text \<open>The peer's side of a sleep and of a wake. A board that is on, not active and whose computer is awake presses the sleep key for the
  message; a wake within thirty seconds of the press is kept and wakes the computer on every suspended pass until those seconds are
  over, and is then dropped.\<close>

lemma peer_obeys:
  assumes "sb_sleep_sync b" "\<not> sb_active b" "\<not> dh_sleep_sync_asleep (sb_sync b) suspended"
  shows "let b' = sleep_step (PeerMsg DH_SLEEP_SYNC_SLEEP suspended accepted True now) b in
     last_key (sb_effects b') = 2 \<and> sb_peer b' = dh_sleep_sync_peer_press now"
  using assms by (simp add: handle_sleep_sync_msg_def dh_sleep_sync_obey_sleep_def Let_def)

lemma wake_kept:
  assumes "p = dh_sleep_sync_peer_wake (dh_sleep_sync_peer_press t) heard" "elapsed heard t < DH_SLEEP_SYNC_OWED_WAKE_US"
  shows "dh_sleep_sync_peer_step p suspended now =
     (if elapsed now t < DH_SLEEP_SYNC_OWED_WAKE_US then (p, suspended) else (p\<lparr>sp_owed := False\<rparr>, False))"
  using assms by (simp add: peer_defs)

text \<open>Sleep when idle: after a press, none follows in the same idle stretch.\<close>

lemma watch_other_idle:
  "watch_other s on active now = (s', fell) \<Longrightarrow> ss_idle_pressed s' = ss_idle_pressed s \<and> ss_idle_since_us s' = ss_idle_since_us s"
  by (auto simp: watch_other_def Let_def split: if_splits)

lemma idle_pressed_once:
  assumes "dh_sleep_sync_idle s on minutes active asleep input switch now = (s', True)" "minutes \<noteq> DH_SLEEP_SYNC_IMMEDIATELY"
  shows "\<not> snd (dh_sleep_sync_idle s' on' minutes active' asleep' input switch now')"
proof -
  let ?since = "if elapsed input switch > 0 then input else switch"
  have "ss_idle_pressed s' \<and> ss_idle_since_us s' = ?since"
    using assms by (cases "watch_other s on active now") (auto simp: dh_sleep_sync_idle_def Let_def split: if_split_asm)
  moreover obtain s'' fell where "watch_other s' on' active' now' = (s'', fell)" by fastforce
  ultimately show ?thesis using watch_other_idle assms(2) by (simp add: dh_sleep_sync_idle_def Let_def)
qed

section \<open>Properties\<close>

text \<open>C38. The board tells its peer exactly what the contract says. Over any history of passes of the task, input, helper words, heartbeats,
  messages, settings and switches, from reset, the messages it sends are those of the contract, in order. Sleep is sent by a
  pass that finds the computer asleep (suspended, or so its helper said and no input since) with the setting on and room in the queue,
  when this sleep has lasted five seconds since the first pass that saw it and in every pass of it the board was the active output, no
  wake had been sent and sleep had not been sent: once per sleep, and tried again after a full queue. Wake is sent by input that
  finds the computer asleep with the setting on, the board active and room in the queue, once until input finds the
  computer awake.\<close>

theorem sleep_told_exactly:
  "msgs (sb_effects (sleep_run es (sleep_boot on minutes active))) = spec_msgs es (spec_boot on active)"
  using run_follows[OF boot_follows, of es on minutes active] by (simp add: sleep_boot_def)

text \<open>A computer that falls asleep under an active board: told five seconds later, and only once; then a key wakes both, once, and no
  sleep follows while the computer is still resuming.\<close>

lemma sleep_told_demo:
  "msgs (sb_effects (sleep_run [Pass False True True 0, Pass True True True 1000000, Pass True True True 5999999, Pass True False True 6000000,
      Pass True True True 6000001, Pass True True True 9000000, Input True False, Input True True, Input True True, Pass True True True 20000000]
      (sleep_boot True 0 True))) = [1, 2]"
  by code_simp

end
