(* ===== verification/Spec2Isabelle.thy ===== *)
theory Spec2Isabelle
  imports DH_Prelude DH_Frame DH_Inq DH_Outq DH_Relay DH_Sha256 DH_Crc32 DH_Auth DH_Pair DH_Session_Msg DH_Session
    DH_Pointer DH_Lifecycle DH_Channel DH_Channel_Spec DH_Clip DH_Xfer DH_Xfer_Inv DH_Xfer_Spec DH_Helper DH_Helper_Out
    DH_Helper_Spec DH_File_List DH_Seal DH_Firmware DH_Firmware_Spec DH_Hid DH_Hotkey DH_Keyboard DH_Mouse DH_Mouse_Inv
    DH_Mouse_Spec DH_Sleep
begin

text \<open>
  DeskHopPlus: the verified core of a keyboard, mouse and clipboard switch.

  \<^bold>\<open>The program.\<close> Two boards share one keyboard and one mouse between two computers. Each computer may run a helper
  program, connected to its board over a USB channel; the boards are joined by a serial link. The firmware under
  \<open>src/src\<close> moves the pointer across the seam between the computers; the portable core under \<open>src/src/core\<close> frames,
  authenticates and relays the helpers' traffic, and moves clipboard contents end to end between the two helpers.
  A body travels: clipboard layer, seal, transfer engine, helper session, frame, reports, board channel, relay packets,
  the other board's channel, reports, the other helper.

  \<^bold>\<open>The theories, in the order of that path.\<close> A C structure is a record with the source's fields, an enumeration a datatype, a fixed-width
  integer a word of its width (or an integer with the conversions written out where the code computes in \<open>int\<close>), a byte
  buffer the list of the bytes in use, a fallible function an option or a sum. Each operation is one definition of the
  source's name; state is passed and returned. The source of every definition is named in the theory's opening text.

  \<^item> \<open>DH_Prelude\<close>: types, lists of bytes, little-endian numbers, word lemmas and the collections the simplifier uses.
  \<^item> \<open>DH_Frame\<close> (\<open>dh_frame.c\<close>): header, encode, decode, the incremental reader, the report reader. Encoding and decoding are
    inverse; the reader refines a byte automaton; a reader in any state recovers at the next frame start.
  \<^item> \<open>DH_Inq\<close> (\<open>dh_inq.c\<close>): the single-producer single-consumer ring between USB interrupt and task. The locale
    \<open>frame_ring\<close> states the contract of a ring; the interpretation proves it first-in first-out under every interleaving.
  \<^item> \<open>DH_Outq\<close> (\<open>dh_outq.c\<close>): the outbound queue with its priority bands (locale \<open>banded_queue\<close>), whole frames only, in order per band.
  \<^item> \<open>DH_Relay\<close> (\<open>dh_relay.c\<close>): frames cut into eight-byte packets and reassembled; what arrives is what was queued, in order,
    losses abandon whole frames, and a drained link is empty.
  \<^item> \<open>DH_Sha256\<close>, \<open>DH_Crc32\<close>: the hash, HMAC and HKDF equal their specifications for every split of the input (locale \<open>stream_hash\<close>,
    interpreted twice); the table CRC equals the bitwise one.
  \<^item> \<open>DH_Auth\<close>, \<open>DH_Pair\<close>, \<open>DH_Session_Msg\<close>, \<open>DH_Session\<close>: key derivation, tags and the replay window; pairing, one registration per chord;
    the session bodies; the board's session. No counter is accepted or sent twice; the keys change only by being wiped or
    on a hello that proves the pairing, whatever session operation runs (a development build compiles the proof out, and the theorem says so).
  \<^item> \<open>DH_Pointer\<close> (\<open>dh_mouse_layout.c\<close>, \<open>dh_seam_map.c\<close>, \<open>dh_windows_pointer.c\<close>, \<open>dh_place.c\<close>): directions, transitions, the seam map, Windows'
    pointer maths, the placement of a cursor on a display.
  \<^item> \<open>DH_Lifecycle\<close>, \<open>DH_Channel\<close>, \<open>DH_Channel_Spec\<close> (\<open>channel_lifecycle.c\<close>, \<open>channel.c\<close>): the board's end of the channel, every
    entry point with the platform's answers as arguments. Memory safety of all reachable states, the report stream in order and
    drained, what may be relayed and when on a release and on a development build, re-tagging end to end, placement and query pairs.
  \<^item> \<open>DH_Clip\<close>, \<open>DH_Xfer\<close>, \<open>DH_Xfer_Inv\<close>, \<open>DH_Xfer_Spec\<close> (\<open>dh_clip.c\<close>, \<open>dh_xfer.c\<close>): clipboard messages and the chunked transfer engine with its
    selective retransmission (locale \<open>bitmap\<close>). Over every network behaviour a payload is delivered at most once, and only if
    it is bit for bit what the sender offered.
  \<^item> \<open>DH_Helper\<close>, \<open>DH_Helper_Out\<close>, \<open>DH_Helper_Spec\<close> (\<open>dh_helper.c\<close>): the helper's session. Handshake agreement with the board's session
    through frames and reports, consecutive counters, a pinned key that never changes, exact timeouts, bounded output.
  \<^item> \<open>DH_File_List\<close> (\<open>dh_file_list.c\<close>), \<open>DH_Seal\<close> (\<open>dh_seal.c\<close>): names of transferred files are single safe path components on every
    platform, and exactly which encoded lists the far end decodes; end-to-end sealing, whose exchange agrees, which seals no two bodies of an exchange
    under one nonce, and whose opening accepts exactly what was sealed.

  \<^item> \<open>DH_Mouse\<close>, \<open>DH_Mouse_Inv\<close>, \<open>DH_Mouse_Spec\<close> (\<open>mouse_logic.c\<close>, the report path of \<open>mouse.c\<close>): the pointer across the seam, in single-precision
    arithmetic as the code computes it, with core 0 interleaved between the critical sections of core 1. What core 1 does outside its critical sections is one step: each operation has
    its places for core 0. The state stays
    well-formed under every interleaving; a crossing that waits for a helper has ended by the second of two task calls, the first 30 ms or more after
    it began to wait and the second 30 ms or more after the first, whatever calls come between; an arrival does not bounce back, over any run of reports that stays on the screen; long relative moves are cut exactly; a mapped crossing lands where the seam map says.
  \<^item> \<open>DH_Hotkey\<close> (\<open>dh_hotkey.c\<close>, \<open>dh_keyboard_output.c\<close>, \<open>dh_keyboard_transport.c\<close>): the hotkey table, the chord latch, the key map. The
    in-place sort and first match select the most specific binding; the key map is applied exactly.
  \<^item> \<open>DH_Hid\<close> (\<open>hid_parser.c\<close>, \<open>hid_report.c\<close>): the descriptor parser and the report decoders, over arrays whose every access is checked
    in an option monad. A descriptor of whole items is parsed inside its bounds and its reports are decoded inside theirs; a
    signed field decodes to the number its bits spell.
  \<^item> \<open>DH_Keyboard\<close> (\<open>keyboard.c\<close>, the hotkey handlers of \<open>handlers.c\<close>): several keyboards, hotkey actions, the report for the computer, the other board's
    keyboard and output messages. The keys of a completed chord are never typed while they are held, over any run of these events.
  \<^item> \<open>DH_Sleep\<close> (\<open>dh_sleep_sync.h\<close> with its tasks and handler): the messages a board sends its peer are, over every history, those of
    a contract that keeps no more than the settings, the helper's last word, the passes of the sleep so far and whether a wake was sent. A system key offered to a full queue is dropped for good, as in
    the code: the sleep key is released by each pass whose queue has room (\<open>pass_releases\<close>), and a release refused once is lost (\<open>release_lost\<close>).
  \<^item> \<open>DH_Firmware\<close>, \<open>DH_Firmware_Spec\<close> (\<open>fw_upgrade.c\<close>, \<open>peer_fw.c\<close>, \<open>config_exit.c\<close>, parts of \<open>utils.c\<close>, \<open>tasks.c\<close>, \<open>handlers.c\<close>, \<open>ramdisk.c\<close>): an
    image pulled over a lossy link or dropped by the host, onto NOR flash, with the heartbeat ticks, the watchdog and the saves of configuration and
    identity among the events. A pull answered in time ends in the whole image, and so does a drop; a mixed image is always marked; a pull reboots only
    into a whole image, but the exit from config mode reboots into whatever is there (\<open>config_exit_reboots_mixed\<close>). A save shares the page buffer of
    the pull, so the theorems on the content of the image take histories without one (\<open>undisturbed\<close>). No upgrade writes outside the image.

  \<^bold>\<open>Parameters.\<close> Code outside the repository is an argument: the curve library (record \<open>uecc\<close>), the helper platform's ECDH, random
  draws and cipher (record \<open>dh_seal_aead\<close>), the clock and the answers of USB and serial queues. What a theorem needs of them
  is a named hypothesis over the parameter (\<open>curve_agrees\<close>, \<open>aead_ok\<close>), and its witness instantiates the parameter.

  \<^bold>\<open>Bounds and fuel.\<close> No operation runs on fuel: loops are structural recursions or functions with a measure, and the retry loops
  count down from the bound in the source (eight draws of a key). The byte loop of \<open>get_report_value\<close> counts down from the length of the
  report, which its own guard never lets it pass; that it computes the exact value is proved. Counters are words and wrap as in C; theorems that need a
  counter not to wrap say so.

  \<^bold>\<open>Concurrency and the link.\<close> The two cores and the two boards act in the order of explicit lists of events or steps; every theorem
  about them quantifies over all such lists. The link between the boards may lose anything; the firmware pull assumes of it that
  a word is answered within the hundred milliseconds after which it is asked for again, or never.

  \<^bold>\<open>Not modelled, and why.\<close> Hardware bring-up, DMA, USB descriptors and the scheduling loop are device input and output through the
  vendored SDK. The configuration store and its packet protocol appear only through the settings they leave in the
  state; the text form of the configuration, the firmware bundle and the cursor trace are formats of host tools and diagnostics,
  outside the paths above. \<open>handle_system_control_values\<close> is never called. Measurement builds and
  the vendored libraries are outside.
\<close>

end
